(* ===== verification/Prelude.thy ===== *)
theory Prelude
  imports Main "HOL-Library.Char_ord" "HOL-Library.List_Lexorder" "HOL-Library.Product_Lexorder"
    "HOL-Library.Multiset"
begin

text \<open>
  The vocabulary shared by every component: identifiers and instants, the errors the services
  throw, the printing of integers that template literals perform, and generic facts on lists of
  rows (lookup, update by key, sums) that the component proofs reuse.
\<close>

section \<open>Types\<close>

text \<open>
  A JavaScript string is a sequence of code units; the model keeps code units up to 255 (the
  program's Spanish messages need no more), so a string is a HOL \<open>string\<close> and \<open><\<close> on strings is
  the lexicographic order of code units, which is what \<open>a < b\<close> does on JavaScript strings.
  An instant is a \<open>Date\<close>: milliseconds since the epoch.
\<close>

type_synonym uuid = string
type_synonym instant = int

text \<open>
  What a service call can throw. The NestJS exceptions carry the message or the machine readable
  \<open>code\<close> of the response body; \<open>RangeErr\<close> and \<open>Internal\<close> are plain \<open>RangeError\<close> and \<open>Error\<close>;
  \<open>UniqueViolation\<close> is Prisma's P2002 on the named table and \<open>Retryable\<close> a serialization failure or
  deadlock reported by PostgreSQL.
\<close>

datatype failure =
    BadRequest string
  | Forbidden
  | NotFound string
  | Conflict string
  | Unprocessable string
  | ServiceUnavailable string
  | RangeErr string
  | Internal string
  | UniqueViolation string
  | Retryable

type_synonym 'a result = "failure + 'a"

text \<open>\<open>is_ok r\<close> holds when the call returned instead of throwing.\<close>

fun is_ok :: "'e + 'a \<Rightarrow> bool" where
  "is_ok (Inr x) = True"
| "is_ok (Inl e) = False"

lemma is_ok_iff: "is_ok r \<longleftrightarrow> (\<exists>x. r = Inr x)"
  by (cases r) auto

lemma is_ok_projr: "is_ok r \<Longrightarrow> r = Inr (projr r)"
  by (cases r) auto

named_theorems guards \<open>unfolding rules of the guards of the operations\<close>

section \<open>Printing integers\<close>

text \<open>\<open>String(n)\<close> on an integer, as template literals and \<open>JSON.stringify\<close> print it.\<close>

definition digit_char :: "nat \<Rightarrow> char" where
  "digit_char d = char_of (48 + d)"

fun show_nat :: "nat \<Rightarrow> string" where
  "show_nat n = (if n < 10 then [digit_char n] else show_nat (n div 10) @ [digit_char (n mod 10)])"

declare show_nat.simps [simp del]

definition show_int :: "int \<Rightarrow> string" where
  "show_int i = (if i < 0 then CHR ''-'' # show_nat (nat (- i)) else show_nat (nat i))"

text \<open>\<open>s.padStart(k, c)\<close>.\<close>

definition pad_start :: "nat \<Rightarrow> char \<Rightarrow> string \<Rightarrow> string" where
  "pad_start k c s = replicate (k - length s) c @ s"

text \<open>The value a string of decimal digits denotes.\<close>

definition digit_val :: "char \<Rightarrow> nat" where
  "digit_val c = of_char c - 48"

definition is_digit :: "char \<Rightarrow> bool" where
  "is_digit c \<longleftrightarrow> CHR ''0'' \<le> c \<and> c \<le> CHR ''9''"

definition read_nat :: "string \<Rightarrow> nat" where
  "read_nat s = foldl (\<lambda>n c. 10 * n + digit_val c) 0 s"

lemma is_digit_code: "is_digit c \<longleftrightarrow> 48 \<le> (of_char c :: nat) \<and> (of_char c :: nat) \<le> 57"
  by (simp add: is_digit_def less_eq_char_def)

lemma of_char_digit_char: "d < 10 \<Longrightarrow> of_char (digit_char d) = 48 + d"
  by (simp add: digit_char_def)

lemma digit_val_digit_char [simp]: "d < 10 \<Longrightarrow> digit_val (digit_char d) = d"
  by (simp add: digit_val_def of_char_digit_char)

lemma is_digit_digit_char [simp]: "d < 10 \<Longrightarrow> is_digit (digit_char d)"
  by (simp add: is_digit_code of_char_digit_char)

lemma digit_char_simps [simp]:
  "digit_char 0 = CHR ''0''" "digit_char (Suc 0) = CHR ''1''"
  "digit_char 2 = CHR ''2''" "digit_char 3 = CHR ''3''" "digit_char 4 = CHR ''4''"
  "digit_char 5 = CHR ''5''" "digit_char 6 = CHR ''6''" "digit_char 7 = CHR ''7''"
  "digit_char 8 = CHR ''8''" "digit_char 9 = CHR ''9''"
  by (simp_all add: digit_char_def char_of_def bit_Suc_0_iff)

lemma read_nat_snoc: "read_nat (s @ [c]) = 10 * read_nat s + digit_val c"
  by (simp add: read_nat_def)

lemma read_show_nat [simp]: "read_nat (show_nat n) = n"
proof (induction n rule: show_nat.induct)
  case (1 n)
  show ?case
  proof (cases "n < 10")
    case True
    then show ?thesis by (subst show_nat.simps) (simp add: read_nat_def)
  next
    case False
    with "1.IH" show ?thesis by (subst show_nat.simps) (simp add: read_nat_snoc)
  qed
qed

lemma show_nat_inj: "show_nat m = show_nat n \<Longrightarrow> m = n"
  by (metis read_show_nat)

lemma show_nat_digits: "c \<in> set (show_nat n) \<Longrightarrow> is_digit c"
proof (induction n rule: show_nat.induct)
  case (1 n)
  show ?case
  proof (cases "n < 10")
    case True
    with "1.prems" show ?thesis by (subst (asm) show_nat.simps) simp
  next
    case False
    with "1.prems" have "c \<in> set (show_nat (n div 10)) \<or> c = digit_char (n mod 10)"
      by (subst (asm) show_nat.simps) auto
    with False "1.IH" show ?thesis by auto
  qed
qed

lemma show_nat_neq_Nil [simp]: "show_nat n \<noteq> []"
  by (subst show_nat.simps) simp

lemma minus_not_digit [simp]: "\<not> is_digit (CHR ''-'')"
  by (simp add: is_digit_code)

lemma show_int_inj: "show_int i = show_int j \<Longrightarrow> i = j"
proof -
  assume eq: "show_int i = show_int j"
  have no_minus: "show_nat n \<noteq> CHR ''-'' # s" for n s
    using show_nat_digits [of "CHR ''-''" n] by auto
  have sgn: "i < 0 \<longleftrightarrow> j < 0"
    using eq no_minus no_minus [symmetric] by (auto simp: show_int_def split: if_splits)
  show ?thesis
  proof (cases "i < 0")
    case True
    with sgn eq have "nat (- i) = nat (- j)" by (auto simp: show_int_def intro: show_nat_inj)
    with True sgn show ?thesis by simp
  next
    case False
    with sgn eq have "nat i = nat j" by (auto simp: show_int_def intro: show_nat_inj)
    with False sgn show ?thesis by simp
  qed
qed

lemma length_pad_start [simp]: "length (pad_start k c s) = max k (length s)"
  by (simp add: pad_start_def max_def)

lemma read_nat_leading_zeros: "read_nat (replicate k CHR ''0'' @ s) = read_nat s"
proof -
  have "foldl (\<lambda>n c. 10 * n + digit_val c) 0 (replicate k CHR ''0'') = 0"
    by (induction k) (simp_all add: digit_val_def)
  then show ?thesis by (simp add: read_nat_def)
qed

lemma read_pad_start [simp]: "read_nat (pad_start k CHR ''0'' s) = read_nat s"
  by (simp add: pad_start_def read_nat_leading_zeros)

text \<open>Digit strings of one length are ordered as the numbers they denote.\<close>

text \<open>Table lookups for the evaluation of closed terms.\<close>

definition DIGITS :: string where
  "DIGITS = ''0123456789''"

lemma less_ten_cases: "d < 10 \<Longrightarrow> d \<in> {0, Suc 0, 2, 3, 4, 5, 6, 7, 8, 9 :: nat}"
  by (simp, presburger)

lemma digit_char_table [code]: "digit_char d = (if d < 10 then DIGITS ! d else char_of (48 + d))"
  using less_ten_cases [of d] by (auto simp: DIGITS_def) (simp add: digit_char_def)

function show_digits :: "int \<Rightarrow> string" where
  "show_digits i = (if i < 10 then [digit_char (nat i)] else show_digits (i div 10) @ [digit_char (nat (i mod 10))])"
  by pat_completeness auto
termination by (relation "measure nat") auto

declare show_digits.simps [simp del]

lemma show_digits_nat: "0 \<le> i \<Longrightarrow> show_digits i = show_nat (nat i)"
proof (induction i rule: show_digits.induct)
  case (1 i)
  show ?case
  proof (cases "i < 10")
    case True
    with "1.prems" show ?thesis
      by (subst show_digits.simps, subst show_nat.simps) simp
  next
    case False
    have "nat (i div 10) = nat i div 10" "nat (i mod 10) = nat i mod 10"
      using "1.prems" by (simp_all add: nat_div_distrib nat_mod_distrib)
    with 1 False show ?thesis
      by (subst show_digits.simps, subst show_nat.simps) simp
  qed
qed

lemma show_int_code [code]:
  "show_int i = (if i < 0 then CHR ''-'' # show_digits (- i) else show_digits i)"
  by (simp add: show_int_def show_digits_nat)

lemma is_digit_table [code]: "is_digit c \<longleftrightarrow> c \<in> set DIGITS"
proof
  assume "is_digit c"
  then have d: "digit_val c < 10" "c = digit_char (digit_val c)"
    by (auto simp: is_digit_code digit_val_def digit_char_def)
  then have "c = DIGITS ! digit_val c" by (simp add: digit_char_table)
  moreover have "digit_val c < length DIGITS" using d(1) by (simp add: DIGITS_def)
  ultimately show "c \<in> set DIGITS" by (metis nth_mem)
qed (auto simp: is_digit_code DIGITS_def)

lemma takeWhile_DIGITS: "d < 10 \<Longrightarrow> length (takeWhile (\<lambda>x. x \<noteq> digit_char d) DIGITS) = d"
  by (drule less_ten_cases, elim insertE emptyE; hypsubst, simp add: DIGITS_def)

lemma digit_val_table [code]:
  "digit_val c = (if is_digit c then length (takeWhile (\<lambda>x. x \<noteq> c) DIGITS) else of_char c - 48)"
proof (cases "is_digit c")
  case True
  then have "digit_val c < 10" "c = digit_char (digit_val c)"
    by (auto simp: is_digit_code digit_val_def digit_char_def)
  with True takeWhile_DIGITS [of "digit_val c"] show ?thesis by simp
qed (simp add: digit_val_def)

lemma read_nat_append: "read_nat (s @ t) = read_nat s * 10 ^ length t + read_nat t"
proof (induction t rule: rev_induct)
  case (snoc c t)
  have "read_nat ((s @ t) @ [c]) = 10 * read_nat (s @ t) + digit_val c" by (rule read_nat_snoc)
  with snoc show ?case by (simp add: read_nat_snoc algebra_simps)
qed (simp add: read_nat_def)

lemma read_nat_Cons: "read_nat (c # s) = digit_val c * 10 ^ length s + read_nat s"
  using read_nat_append [of "[c]" s] by (simp add: read_nat_def)

lemma digit_val_less: "is_digit c \<Longrightarrow> digit_val c < 10"
  by (auto simp: is_digit_code digit_val_def)

lemma read_nat_less: "\<forall>c \<in> set s. is_digit c \<Longrightarrow> read_nat s < 10 ^ length s"
proof (induction s)
  case (Cons c s)
  then have "digit_val c \<le> 9" "read_nat s < 10 ^ length s" using digit_val_less [of c] by simp_all
  then have "digit_val c * 10 ^ length s + read_nat s < 9 * 10 ^ length s + 10 ^ length s"
    by (intro add_le_less_mono mult_right_mono) auto
  then show ?case by (simp add: read_nat_Cons)
qed (simp add: read_nat_def)

lemma digit_less_iff: "is_digit c \<Longrightarrow> is_digit d \<Longrightarrow> c < d \<longleftrightarrow> digit_val c < digit_val d"
  by (auto simp: is_digit_code digit_val_def less_char_def)

lemma digits_less_iff:
  assumes "length s = length t" "\<forall>c \<in> set s. is_digit c" "\<forall>c \<in> set t. is_digit c"
  shows "s < t \<longleftrightarrow> read_nat s < read_nat t"
  using assms
proof (induction s t rule: list_induct2)
  case (Cons c s d t)
  have bounds: "read_nat s < 10 ^ length t" "read_nat t < 10 ^ length t"
    using Cons.prems Cons.hyps read_nat_less [of s] read_nat_less [of t] by auto
  have lex: "c # s < d # t \<longleftrightarrow> c < d \<or> c = d \<and> s < t" by (simp add: Cons_less_Cons)
  have dig: "is_digit c" "is_digit d" using Cons.prems by auto
  consider "c < d" | "c = d" | "d < c" by fastforce
  then show ?case
  proof cases
    case 1
    then have "Suc (digit_val c) \<le> digit_val d" using dig by (simp add: digit_less_iff)
    then have "Suc (digit_val c) * 10 ^ length t \<le> digit_val d * 10 ^ length t" by (rule mult_right_mono) simp
    with bounds 1 lex Cons.hyps show ?thesis by (simp add: read_nat_Cons)
  next
    case 2
    with Cons lex show ?thesis by (simp add: read_nat_Cons)
  next
    case 3
    then have "Suc (digit_val d) \<le> digit_val c" using dig by (simp add: digit_less_iff)
    then have "Suc (digit_val d) * 10 ^ length t \<le> digit_val c * 10 ^ length t" by (rule mult_right_mono) simp
    with bounds 3 lex Cons.hyps show ?thesis by (auto simp: read_nat_Cons)
  qed
qed (simp add: read_nat_def)

lemma append_less_iff:
  fixes a b c d :: string
  assumes "length a = length c"
  shows "a @ b < c @ d \<longleftrightarrow> a < c \<or> a = c \<and> b < d"
  using assms by (induction a c rule: list_induct2) (auto simp: Cons_less_Cons)

lemma length_show_nat_le: "n < 10 ^ k \<Longrightarrow> 0 < k \<Longrightarrow> length (show_nat n) \<le> k"
proof (induction n arbitrary: k rule: show_nat.induct)
  case (1 n)
  show ?case
  proof (cases "n < 10")
    case True
    with "1.prems" show ?thesis by (subst show_nat.simps) simp
  next
    case False
    then obtain j where k: "k = Suc j" "0 < j" using "1.prems" by (cases k; cases "k = 1") auto
    with "1.prems" have "n div 10 < 10 ^ j" by auto
    with "1.IH" False k have "length (show_nat (n div 10)) \<le> j" by simp
    with False k show ?thesis by (subst show_nat.simps) simp
  qed
qed

section \<open>Rows kept in lists\<close>

text \<open>
  A table is a list of rows; \<open>find\<close> returns the first row that satisfies the \<open>where\<close> clause.
  The facts below are about rows with distinct keys.
\<close>

lemma find_Some_set: "find P xs = Some x \<Longrightarrow> x \<in> set xs \<and> P x"
  by (induction xs) (auto split: if_splits)

lemma find_None_set: "find P xs = None \<longleftrightarrow> (\<forall>x \<in> set xs. \<not> P x)"
  by (induction xs) auto

lemma find_append: "find P (xs @ ys) = (case find P xs of None \<Rightarrow> find P ys | Some x \<Rightarrow> Some x)"
  by (induction xs) auto

lemma sum_list_update_key:
  fixes f :: "'a \<Rightarrow> int"
  assumes "distinct (map k xs)" "x \<in> set xs"
  shows "sum_list (map (\<lambda>y. if k y = k x then g y else f y) xs)
       = sum_list (map f xs) - f x + g x"
  using assms
proof (induction xs)
  case (Cons a xs)
  show ?case
  proof (cases "a = x")
    case True
    have "map (\<lambda>y. if k y = k x then g y else f y) xs = map f xs"
      using Cons.prems True by (intro map_cong) (auto simp: image_iff)
    then have "sum_list (map (\<lambda>y. if k y = k x then g y else f y) xs) = sum_list (map f xs)"
      by (rule arg_cong)
    with True show ?thesis by simp
  next
    case False
    with Cons.prems have "x \<in> set xs" "k a \<noteq> k x" by (auto simp: image_iff)
    with Cons False show ?thesis by simp
  qed
qed simp

lemma sum_list_int_nonneg: "(\<And>x. x \<in> set xs \<Longrightarrow> 0 \<le> f x) \<Longrightarrow> 0 \<le> sum_list (map (f :: _ \<Rightarrow> int) xs)"
  by (induction xs) auto

lemma sum_list_int_mem_le:
  "(\<And>x. x \<in> set xs \<Longrightarrow> 0 \<le> f x) \<Longrightarrow> x \<in> set xs \<Longrightarrow> (f x :: int) \<le> sum_list (map f xs)"
proof (induction xs)
  case (Cons a xs)
  have "0 \<le> sum_list (map f xs)" using Cons.prems(1) by (intro sum_list_int_nonneg) simp
  with Cons show ?case by fastforce
qed simp

lemma sum_list_indicator:
  "sum_list (map (\<lambda>x. if P x then 1 else 0) xs) = int (length (filter P xs))"
  by (induction xs) auto

lemma sum_list_zero: "(\<And>x. x \<in> set xs \<Longrightarrow> f x = (0::int)) \<Longrightarrow> sum_list (map f xs) = 0"
  by (induction xs) auto

lemma sum_list_sort_key: "sum_list (map f (sort_key k xs)) = sum_list (map (f :: _ \<Rightarrow> int) xs)"
proof -
  have "mset (map f (sort_key k xs)) = mset (map f xs)" by simp
  then have "sum_mset (mset (map f (sort_key k xs))) = sum_mset (mset (map f xs))" by simp
  then show ?thesis by (simp only: sum_mset_sum_list)
qed

lemma distinct_map_sort_key [simp]: "distinct (map f (sort_key k xs)) \<longleftrightarrow> distinct (map f xs)"
proof -
  have "mset (map f (sort_key k xs)) = mset (map f xs)" by simp
  then show ?thesis by (rule mset_eq_imp_distinct_iff)
qed

text \<open>Sorting by distinct keys depends on the rows only, not on the order they are given in.\<close>

lemma sort_key_perm:
  assumes "mset xs = mset ys" "distinct (map k xs)"
  shows "sort_key k xs = sort_key k ys"
proof (rule map_sorted_distinct_set_unique [where f = k])
  have set_eq: "set xs = set ys" using assms(1) by (rule mset_eq_setD)
  show "inj_on k (set (sort_key k xs) \<union> set (sort_key k ys))"
    using assms(2) set_eq by (simp add: distinct_map)
  have "mset (map k ys) = mset (map k xs)" using assms(1) by simp
  then have "distinct (map k ys)" using assms(2) by (metis mset_eq_imp_distinct_iff)
  then show "distinct (map k (sort_key k ys))" by simp
  show "distinct (map k (sort_key k xs))" using assms(2) by simp
qed (use assms in \<open>auto dest: mset_eq_setD\<close>)

text \<open>Values that determine a class are distinct when they are distinct within every class.\<close>

lemma distinct_by_class:
  assumes "\<And>y. y \<in> k ` set xs \<Longrightarrow> distinct (map f [x \<leftarrow> xs. k x = y])"
    and "\<And>a b. a \<in> set xs \<Longrightarrow> b \<in> set xs \<Longrightarrow> f a = f b \<Longrightarrow> k a = k b"
  shows "distinct (map f xs)"
  using assms
proof (induction xs)
  case Nil
  show ?case by simp
next
  case (Cons a xs)
  have "distinct (map f [x \<leftarrow> xs. k x = y])" if "y \<in> k ` set xs" for y
    using Cons.prems(1) [of y] that by (auto split: if_splits)
  then have "distinct (map f xs)" by (rule Cons.IH) (simp_all add: Cons.prems(2))
  moreover have "f a \<noteq> f b" if "b \<in> set xs" for b
  proof
    assume eq: "f a = f b"
    then have "k a = k b" using Cons.prems(2) that by auto
    then have "b \<in> set [x \<leftarrow> xs. k x = k a]" using that by simp
    with Cons.prems(1) [of "k a"] eq show False by auto
  qed
  ultimately show ?case by auto
qed

text \<open>A sum over the classes of a partition is the sum over the list.\<close>

lemma sum_list_pick: "distinct ks \<Longrightarrow> sum_list (map (\<lambda>k. if k = y then v else 0) ks) = (if y \<in> set ks then v else (0::int))"
  by (induction ks) auto

lemma sum_list_by_class:
  fixes f :: "'a \<Rightarrow> int"
  assumes "distinct ks" "\<And>x. x \<in> set xs \<Longrightarrow> g x \<in> set ks"
  shows "sum_list (map (\<lambda>k. sum_list (map f [x \<leftarrow> xs. g x = k])) ks) = sum_list (map f xs)"
  using assms(2)
proof (induction xs)
  case Nil
  show ?case by (simp add: sum_list_zero)
next
  case (Cons x xs)
  have "sum_list (map (\<lambda>k. sum_list (map f [z \<leftarrow> x # xs. g z = k])) ks)
      = sum_list (map (\<lambda>k. (if k = g x then f x else 0) + sum_list (map f [z \<leftarrow> xs. g z = k])) ks)"
    by (intro arg_cong [where f = sum_list] map_cong) auto
  also have "\<dots> = f x + sum_list (map f xs)"
    using Cons sum_list_pick [OF assms(1), of "g x" "f x"] by (simp add: sum_list_addf)
  finally show ?case by simp
qed

lemma insort_key_map: "(\<And>x. k (f x) = k x) \<Longrightarrow> insort_key k (f x) (map f xs) = map f (insort_key k x xs)"
  by (induction xs) auto

lemma sort_key_map: "(\<And>x. k (f x) = k x) \<Longrightarrow> sort_key k (map f xs) = map f (sort_key k xs)"
  by (induction xs) (simp_all add: insort_key_map)

lemma map_key_sort_key: "map k (sort_key k xs) = sort (map k xs)"
  by (rule properties_for_sort [symmetric]) auto

end
