(* ===== verification/CanonicalJson.thy ===== *)
theory CanonicalJson
  imports Prelude
begin

text \<open>
  The fingerprint of a document (\<open>src/common/canonical-json.ts\<close>): its canonical JSON, with the
  keys of every object sorted, hashed with SHA-256. The hash is a parameter \<open>H\<close>. The main fact is
  that canonical JSON is injective up to the order of keys, so that without a hash collision two
  documents have the same fingerprint only if they are the same document.
\<close>

section \<open>JavaScript values\<close>

text \<open>
  What \<open>serialize\<close> distinguishes. A number the program fingerprints is an integer in the range
  that prints in plain decimal (amounts, basis points, counts), the \<open>int\<close> of \<open>JNum\<close>, or a percentage
  with decimals, \<open>JDec m k\<close> for \<open>m / 10 ^ (k + 1)\<close> (its last digit is not 0, as JavaScript prints it);
  \<open>JOther\<close> is a value of another \<open>typeof\<close> (undefined, bigint, function, symbol) and \<open>JInstance\<close> an
  object whose prototype is not the plain one (a Date, a Map). The fields of an object are listed in
  insertion order with distinct keys.
\<close>

datatype jsval =
    JNull
  | JBool bool
  | JNum int
  | JDec int nat
  | JNonFinite
  | JStr string
  | JArr "jsval list"
  | JObj "(string \<times> jsval) list"
  | JInstance
  | JOther string

text \<open>\<open>String(x)\<close> of the number \<open>m / 10 ^ (k + 1)\<close>, printed with its \<open>k + 1\<close> decimals.\<close>

definition show_dec :: "int \<Rightarrow> nat \<Rightarrow> string" where
  "show_dec m k = (if m < 0 then ''-'' else []) @ show_nat (nat \<bar>m\<bar> div 10 ^ Suc k) @ CHR ''.''
     # pad_start (Suc k) (CHR ''0'') (show_nat (nat \<bar>m\<bar> mod 10 ^ Suc k))"

section \<open>Strings\<close>

definition hex_digit :: "nat \<Rightarrow> char" where
  "hex_digit n = (if n < 10 then digit_char n else char_of (87 + n))"

text \<open>\<open>JSON.stringify\<close> of a string whose code units are below 256.\<close>

definition json_escape :: "char \<Rightarrow> string" where
  "json_escape c =
     (let n = of_char c :: nat in
      if n = 34 then [CHR 0x5C, CHR 0x22] else if n = 92 then [CHR 0x5C, CHR 0x5C]
      else if n = 8 then [CHR 0x5C, CHR ''b''] else if n = 9 then [CHR 0x5C, CHR ''t'']
      else if n = 10 then [CHR 0x5C, CHR ''n''] else if n = 12 then [CHR 0x5C, CHR ''f'']
      else if n = 13 then [CHR 0x5C, CHR ''r'']
      else if n < 32 then [CHR 0x5C, CHR ''u'', CHR ''0'', CHR ''0'', hex_digit (n div 16), hex_digit (n mod 16)]
      else [c])"

definition json_string :: "string \<Rightarrow> string" where
  "json_string s = CHR 0x22 # concat (map json_escape s) @ [CHR 0x22]"

section \<open>The serializer\<close>

fun join :: "string \<Rightarrow> string list \<Rightarrow> string" where
  "join sep [] = []"
| "join sep [x] = x"
| "join sep (x # y # zs) = x @ sep @ join sep (y # zs)"

lemma size_list_sort_key [simp]: "size_list f (sort_key k xs) = size_list f xs"
proof -
  have "mset (map f (sort_key k xs)) = mset (map f xs)" by simp
  then have "sum_list (map f (sort_key k xs)) = sum_list (map f xs)" by (metis sum_mset_sum_list)
  then show ?thesis by (simp add: size_list_conv_sum_list)
qed

function serialize :: "jsval \<Rightarrow> string \<Rightarrow> string result"
  and serialize_items :: "jsval list \<Rightarrow> string \<Rightarrow> nat \<Rightarrow> string list result"
  and serialize_fields :: "(string \<times> jsval) list \<Rightarrow> string \<Rightarrow> string list result"
where
  "serialize JNull path = Inr ''null''"
| "serialize (JStr s) path = Inr (json_string s)"
| "serialize (JBool b) path = Inr (if b then ''true'' else ''false'')"
| "serialize (JNum n) path = Inr (show_int n)"
| "serialize (JDec m k) path = Inr (show_dec m k)"
| "serialize JNonFinite path = Inl (Internal (''Canonical JSON rejects a non-finite number at '' @ path))"
| "serialize (JArr xs) path =
     (case serialize_items xs path 0 of
        Inl e \<Rightarrow> Inl e | Inr parts \<Rightarrow> Inr (''['' @ join '','' parts @ '']''))"
| "serialize JInstance path = Inl (Internal (''Canonical JSON rejects a non-plain object at '' @ path))"
| "serialize (JObj fields) path =
     (case serialize_fields (sort_key fst fields) path of
        Inl e \<Rightarrow> Inl e | Inr parts \<Rightarrow> Inr (''{'' @ join '','' parts @ ''}''))"
| "serialize (JOther t) path =
     Inl (Internal (''Canonical JSON rejects a value of type '' @ t @ '' at '' @ path))"
| "serialize_items [] path index = Inr []"
| "serialize_items (x # xs) path index =
     (case serialize x (path @ ''['' @ show_nat index @ '']'') of
        Inl e \<Rightarrow> Inl e
      | Inr s \<Rightarrow> (case serialize_items xs path (Suc index) of
                    Inl e \<Rightarrow> Inl e | Inr ss \<Rightarrow> Inr (s # ss)))"
| "serialize_fields [] path = Inr []"
| "serialize_fields ((key, x) # fs) path =
     (case serialize x (path @ ''.'' @ key) of
        Inl e \<Rightarrow> Inl e
      | Inr s \<Rightarrow> (case serialize_fields fs path of
                    Inl e \<Rightarrow> Inl e | Inr ss \<Rightarrow> Inr ((json_string key @ '':'' @ s) # ss)))"
  by pat_completeness auto
termination
  by (relation "measure (\<lambda>x. case x of Inl (v, _) \<Rightarrow> size v
        | Inr (Inl (xs, _, _)) \<Rightarrow> size_list size xs
        | Inr (Inr (fs, _)) \<Rightarrow> size_list (size_prod (\<lambda>_. 0) size) fs)") auto

definition canonicalJson :: "jsval \<Rightarrow> string result" where
  "canonicalJson v = serialize v ''$''"

text \<open>\<open>canonicalDigest\<close>, with \<open>H\<close> the function \<open>sha256Hex\<close>.\<close>

definition canonicalDigest :: "(string \<Rightarrow> string) \<Rightarrow> jsval \<Rightarrow> string result" where
  "canonicalDigest H v = (case canonicalJson v of Inl e \<Rightarrow> Inl e | Inr s \<Rightarrow> Inr (H s))"

text \<open>\<open>JSON.stringify\<close> on a value without rejected parts: the keys keep their insertion order.\<close>

fun json_stringify :: "jsval \<Rightarrow> string" where
  "json_stringify JNull = ''null''"
| "json_stringify (JStr s) = json_string s"
| "json_stringify (JBool b) = (if b then ''true'' else ''false'')"
| "json_stringify (JNum n) = show_int n"
| "json_stringify (JDec m k) = show_dec m k"
| "json_stringify (JArr xs) = ''['' @ join '','' (map json_stringify xs) @ '']''"
| "json_stringify (JObj fields) =
     ''{'' @ join '','' (map (\<lambda>(k, v). json_string k @ '':'' @ json_stringify v) fields) @ ''}''"
| "json_stringify _ = ''null''"

section \<open>Accepted values and their normal form\<close>

fun plain :: "jsval \<Rightarrow> bool" where
  "plain (JArr xs) \<longleftrightarrow> (\<forall>x \<in> set xs. plain x)"
| "plain (JObj fields) \<longleftrightarrow> (\<forall>(k, v) \<in> set fields. plain v)"
| "plain JNonFinite \<longleftrightarrow> False"
| "plain JInstance \<longleftrightarrow> False"
| "plain (JOther t) \<longleftrightarrow> False"
| "plain _ \<longleftrightarrow> True"

text \<open>The value with the keys of every object sorted: two values that differ in key order only have one normal form.\<close>

function sorted_keys :: "jsval \<Rightarrow> jsval" where
  "sorted_keys (JArr xs) = JArr (map sorted_keys xs)"
| "sorted_keys (JObj fields) = JObj (map (\<lambda>(k, v). (k, sorted_keys v)) (sort_key fst fields))"
| "sorted_keys JNull = JNull"
| "sorted_keys (JBool b) = JBool b"
| "sorted_keys (JNum n) = JNum n"
| "sorted_keys (JDec m k) = JDec m k"
| "sorted_keys (JStr s) = JStr s"
| "sorted_keys JNonFinite = JNonFinite"
| "sorted_keys JInstance = JInstance"
| "sorted_keys (JOther t) = JOther t"
  by pat_completeness auto
termination
proof (relation "measure size")
  fix fields :: "(string \<times> jsval) list" and z x y
  assume "z \<in> set (sort_key fst fields)" "(x, y) = z"
  then have "(x, y) \<in> set fields" by simp
  then show "(y, JObj fields) \<in> measure size"
    by (induction fields) auto
qed (auto simp: less_Suc_eq_le size_list_estimation')

lemma plain_list: "plain (JObj fs) \<longleftrightarrow> (\<forall>x \<in> set fs. plain (snd x))"
  by (simp add: case_prod_unfold)

text \<open>On plain values the serializer prints the normal form; on any other value it throws.\<close>

lemma serialize_plain:
  "plain v \<Longrightarrow> serialize v path = Inr (json_stringify (sorted_keys v))"
  "(\<forall>x \<in> set xs. plain x) \<Longrightarrow>
     serialize_items xs path index = Inr (map (\<lambda>x. json_stringify (sorted_keys x)) xs)"
  "(\<forall>x \<in> set fs. plain (snd x)) \<Longrightarrow>
     serialize_fields fs path = Inr (map (\<lambda>(k, v). json_string k @ '':'' @ json_stringify (sorted_keys v)) fs)"
  by (induction v path and xs path index and fs path rule: serialize_serialize_items_serialize_fields.induct)
    (auto simp: o_def case_prod_unfold)

lemma serialize_not_plain:
  "\<not> plain v \<Longrightarrow> \<exists>e. serialize v path = Inl e"
  "\<not> (\<forall>x \<in> set xs. plain x) \<Longrightarrow> \<exists>e. serialize_items xs path index = Inl e"
  "\<not> (\<forall>x \<in> set fs. plain (snd x)) \<Longrightarrow> \<exists>e. serialize_fields fs path = Inl e"
  by (induction v path and xs path index and fs path rule: serialize_serialize_items_serialize_fields.induct)
    (fastforce split: sum.splits)+

lemma plain_sorted_keys: "plain v \<Longrightarrow> plain (sorted_keys v)"
  by (induction v rule: sorted_keys.induct) auto

section \<open>Unique readability\<close>

definition unescape :: "char \<Rightarrow> char" where
  "unescape x = (if x = CHR ''b'' then CHR 8 else if x = CHR ''t'' then CHR 9 else if x = CHR ''n'' then CHR 10
     else if x = CHR ''f'' then CHR 12 else if x = CHR ''r'' then CHR 13 else x)"

lemma of_char_inj: "(of_char c :: nat) = of_char d \<Longrightarrow> c = d"
  by (metis char_of_char)

text \<open>A character past the control range escapes by comparison with two characters.\<close>

lemma of_char_less_32: "(of_char (Char a0 a1 a2 a3 a4 a5 a6 a7) :: nat) < 32 \<longleftrightarrow> \<not> a5 \<and> \<not> a6 \<and> \<not> a7"
  by (cases a5; cases a6; cases a7; simp add: of_char_def; linarith?)

lemma json_escape_bits [code]:
  "json_escape (Char a0 a1 a2 a3 a4 a5 a6 a7) =
     (let c = Char a0 a1 a2 a3 a4 a5 a6 a7 in
      if \<not> a5 \<and> \<not> a6 \<and> \<not> a7 then
       (if c = CHR 0x08 then [CHR 0x5C, CHR ''b''] else if c = CHR 0x09 then [CHR 0x5C, CHR ''t'']
        else if c = CHR 0x0A then [CHR 0x5C, CHR ''n''] else if c = CHR 0x0C then [CHR 0x5C, CHR ''f'']
        else if c = CHR 0x0D then [CHR 0x5C, CHR ''r'']
        else [CHR 0x5C, CHR ''u'', CHR ''0'', CHR ''0'', hex_digit (of_char c div 16), hex_digit (of_char c mod 16)])
      else if c = CHR 0x22 then [CHR 0x5C, CHR 0x22] else if c = CHR 0x5C then [CHR 0x5C, CHR 0x5C] else [c])"
proof -
  have eq: "c = d \<longleftrightarrow> (of_char c :: nat) = of_char d" for c d :: char by (auto dest: of_char_inj)
  have v: "(of_char CHR 0x08 :: nat) = 8" "(of_char CHR 0x09 :: nat) = 9" "(of_char CHR 0x0A :: nat) = 10"
    "(of_char CHR 0x0C :: nat) = 12" "(of_char CHR 0x0D :: nat) = 13" "(of_char CHR 0x22 :: nat) = 34"
    "(of_char CHR 0x5C :: nat) = 92" by simp_all
  define n :: nat where "n = of_char (Char a0 a1 a2 a3 a4 a5 a6 a7)"
  have lt: "n < 32 \<longleftrightarrow> \<not> a5 \<and> \<not> a6 \<and> \<not> a7" unfolding n_def by (rule of_char_less_32)
  show ?thesis
    unfolding json_escape_def Let_def lt [symmetric] eq v n_def [symmetric]
    by (cases "n < 32") (simp_all only: if_True if_False not_less, auto)
qed
lemma json_escape_cases:
  obtains (plain) "json_escape c = [c]" "c \<noteq> CHR 0x5C" "c \<noteq> CHR 0x22"
  | (short) x where "json_escape c = [CHR 0x5C, x]" "x \<noteq> CHR ''u''" "c = unescape x"
  | (long) "json_escape c = [CHR 0x5C, CHR ''u'', CHR ''0'', CHR ''0'',
        hex_digit ((of_char c :: nat) div 16), hex_digit ((of_char c :: nat) mod 16)]" "(of_char c :: nat) < 32"
proof -
  let ?n = "of_char c :: nat"
  have c: "c = CHR 0x22" if "?n = 34" using that of_char_inj [of c "CHR 0x22"] by simp
  have c2: "c = CHR 0x5C" if "?n = 92" using that of_char_inj [of c "CHR 0x5C"] by simp
  have c8: "c = CHR 8" if "?n = 8" using that of_char_inj [of c "CHR 8"] by simp
  have c9: "c = CHR 9" if "?n = 9" using that of_char_inj [of c "CHR 9"] by simp
  have c10: "c = CHR 10" if "?n = 10" using that of_char_inj [of c "CHR 10"] by simp
  have c12: "c = CHR 12" if "?n = 12" using that of_char_inj [of c "CHR 12"] by simp
  have c13: "c = CHR 13" if "?n = 13" using that of_char_inj [of c "CHR 13"] by simp
  consider "?n = 34" | "?n = 92" | "?n = 8" | "?n = 9" | "?n = 10" | "?n = 12" | "?n = 13"
    | "?n < 32" "?n \<noteq> 8" "?n \<noteq> 9" "?n \<noteq> 10" "?n \<noteq> 12" "?n \<noteq> 13" | "32 \<le> ?n" "?n \<noteq> 34" "?n \<noteq> 92"
    by linarith
  then show ?thesis
  proof cases
    case 1 with c show ?thesis by (intro short [of "CHR 0x22"]) (auto simp: json_escape_def unescape_def)
  next
    case 2 with c2 show ?thesis by (intro short [of "CHR 0x5C"]) (auto simp: json_escape_def unescape_def)
  next
    case 3 with c8 show ?thesis by (intro short [of "CHR ''b''"]) (auto simp: json_escape_def unescape_def)
  next
    case 4 with c9 show ?thesis by (intro short [of "CHR ''t''"]) (auto simp: json_escape_def unescape_def)
  next
    case 5 with c10 show ?thesis by (intro short [of "CHR ''n''"]) (auto simp: json_escape_def unescape_def)
  next
    case 6 with c12 show ?thesis by (intro short [of "CHR ''f''"]) (auto simp: json_escape_def unescape_def)
  next
    case 7 with c13 show ?thesis by (intro short [of "CHR ''r''"]) (auto simp: json_escape_def unescape_def)
  next
    case 8 then show ?thesis by (intro long) (auto simp: json_escape_def Let_def)
  next
    case 9
    then have "c \<noteq> CHR 0x5C" "c \<noteq> CHR 0x22" by auto
    with 9 show ?thesis by (intro plain) (auto simp: json_escape_def Let_def)
  qed
qed

lemma hex_digit_inj:
  assumes "hex_digit m = hex_digit n" "m < 16" "n < 16"
  shows "m = n"
proof -
  have code: "(of_char (hex_digit k) :: nat) = (if k < 10 then 48 + k else 87 + k)" if "k < 16" for k
    using that by (auto simp: hex_digit_def of_char_digit_char)
  from assms(1) have "(of_char (hex_digit m) :: nat) = of_char (hex_digit n)" by simp
  then show ?thesis using assms(2,3) unfolding code [OF assms(2)] code [OF assms(3)]
    by (auto split: if_splits)
qed

lemma json_escape_unique:
  assumes "json_escape c @ x = json_escape d @ y"
  shows "c = d \<and> x = y"
proof (cases c rule: json_escape_cases)
  case plain
  then show ?thesis using assms by (cases d rule: json_escape_cases) auto
next
  case (short z)
  then show ?thesis using assms by (cases d rule: json_escape_cases) auto
next
  case long
  show ?thesis
  proof (cases d rule: json_escape_cases)
    case long': long
    have "(of_char c :: nat) div 16 = of_char d div 16" "(of_char c :: nat) mod 16 = of_char d mod 16"
      using assms long long' by (auto intro!: hex_digit_inj)
    then have "(of_char c :: nat) = of_char d" by (metis div_mult_mod_eq)
    with assms long long' show ?thesis by (auto dest: of_char_inj)
  qed (use assms long in auto)
qed

lemma json_escape_not_quote: "json_escape c @ x \<noteq> CHR 0x22 # y"
  by (cases c rule: json_escape_cases) auto

lemma json_string_unique:
  assumes "json_string s @ r = json_string t @ r'"
  shows "s = t \<and> r = r'"
proof -
  have "s = t \<and> r = r'" if "concat (map json_escape s) @ CHR 0x22 # r = concat (map json_escape t) @ CHR 0x22 # r'"
    using that
  proof (induction s arbitrary: t)
    case Nil
    then show ?case using json_escape_not_quote by (cases t) (auto dest: sym)
  next
    case (Cons c s)
    show ?case
    proof (cases t)
      case Nil
      with Cons.prems show ?thesis using json_escape_not_quote by (auto dest: sym)
    next
      case (Cons d t')
      with Cons.prems json_escape_unique [of c "concat (map json_escape s) @ CHR 0x22 # r" d
          "concat (map json_escape t') @ CHR 0x22 # r'"]
      show ?thesis using Cons.IH [of t'] by simp
    qed
  qed
  with assms show ?thesis by (simp add: json_string_def)
qed

text \<open>A number ends where the digits end.\<close>

definition no_digit :: "string \<Rightarrow> bool" where
  "no_digit r \<longleftrightarrow> (case r of [] \<Rightarrow> True | c # _ \<Rightarrow> \<not> is_digit c)"

lemma show_nat_unique:
  assumes "show_nat m @ r = show_nat n @ r'" "no_digit r" "no_digit r'"
  shows "m = n \<and> r = r'"
proof -
  have "takeWhile is_digit (show_nat k @ q) = show_nat k" if "no_digit q" for k q
  proof -
    have "takeWhile is_digit (show_nat k @ q) = show_nat k @ takeWhile is_digit q"
      by (rule takeWhile_append2) (rule show_nat_digits)
    also have "takeWhile is_digit q = []" using that by (auto simp: no_digit_def split: list.splits)
    finally show ?thesis by simp
  qed
  with assms have "show_nat m = show_nat n" by metis
  with assms(1) show ?thesis by (auto dest: show_nat_inj)
qed

lemma show_nat_not_minus: "show_nat n @ r \<noteq> CHR ''-'' # r'"
proof
  assume eq: "show_nat n @ r = CHR ''-'' # r'"
  then have "CHR ''-'' \<in> set (show_nat n)" by (cases "show_nat n") auto
  then show False using show_nat_digits minus_not_digit by blast
qed

lemma show_int_unique:
  assumes "show_int i @ r = show_int j @ r'" "no_digit r" "no_digit r'"
  shows "i = j \<and> r = r'"
proof (cases "i < 0"; cases "j < 0")
  assume "i < 0" "j < 0"
  with assms show_nat_unique [of "nat (- i)" r "nat (- j)" r'] show ?thesis
    by (auto simp: show_int_def eq_nat_nat_iff)
next
  assume "\<not> i < 0" "\<not> j < 0"
  with assms show_nat_unique [of "nat i" r "nat j" r'] show ?thesis
    by (auto simp: show_int_def eq_nat_nat_iff)
qed (use assms show_nat_not_minus in \<open>auto simp: show_int_def dest: sym\<close>)

lemma show_int_head: "show_int i @ r = c # q \<Longrightarrow> c = CHR ''-'' \<or> is_digit c"
proof -
  assume eq: "show_int i @ r = c # q"
  have "c = CHR ''-'' \<or> c \<in> set (show_nat (nat i))"
    using eq by (cases "show_nat (nat i)") (auto simp: show_int_def split: if_splits)
  then show ?thesis using show_nat_digits by blast
qed

lemma show_int_not_head [simp]:
  assumes "c \<noteq> CHR ''-''" "\<not> is_digit c"
  shows "show_int i @ r \<noteq> c # q" "c # q \<noteq> show_int i @ r"
  using assms show_int_head [of i r c q] by metis+

lemma not_digits [simp]:
  "\<not> is_digit CHR ''n''" "\<not> is_digit CHR ''t''" "\<not> is_digit CHR ''f''" "\<not> is_digit CHR 0x22"
  "\<not> is_digit CHR ''[''" "\<not> is_digit CHR '']''" "\<not> is_digit CHR ''{''" "\<not> is_digit CHR ''}''"
  "\<not> is_digit CHR '',''" "\<not> is_digit CHR '':''"
  by (simp_all add: is_digit_code)

lemma no_digit_Cons [simp]: "no_digit (c # r) \<longleftrightarrow> \<not> is_digit c" and no_digit_Nil [simp]: "no_digit []"
  by (simp_all add: no_digit_def)

text \<open>A number with decimals ends where neither a digit nor a point follows.\<close>

definition number_char :: "char \<Rightarrow> bool" where
  "number_char c \<longleftrightarrow> is_digit c \<or> c = CHR ''.''"

definition no_number :: "string \<Rightarrow> bool" where
  "no_number r \<longleftrightarrow> (case r of [] \<Rightarrow> True | c # _ \<Rightarrow> \<not> number_char c)"

lemma no_number_Cons [simp]: "no_number (c # r) \<longleftrightarrow> \<not> number_char c" and no_number_Nil [simp]: "no_number []"
  by (simp_all add: no_number_def)

lemma no_number_digit: "no_number r \<Longrightarrow> no_digit r"
  by (auto simp: no_number_def no_digit_def number_char_def split: list.splits)

lemma not_number_chars [simp]:
  "\<not> number_char CHR 0x22" "\<not> number_char CHR '']''" "\<not> number_char CHR ''}''" "\<not> number_char CHR '',''" "\<not> number_char CHR '':''"
  by (simp_all add: number_char_def)

lemma point_no_digit [simp]: "\<not> is_digit CHR ''.''"
  by (simp add: is_digit_code)

lemma sign_unique:
  assumes "(if m < (0::int) then ''-'' else []) @ show_nat a @ r = (if n < (0::int) then ''-'' else []) @ show_nat b @ r'"
  shows "(m < 0 \<longleftrightarrow> n < 0) \<and> show_nat a @ r = show_nat b @ r'"
  using assms show_nat_not_minus [of a r] show_nat_not_minus [of b r', symmetric]
  by (cases "m < 0"; cases "n < 0") auto

lemma show_int_sign: "show_int n = (if n < 0 then ''-'' else []) @ show_nat (nat \<bar>n\<bar>)"
  by (simp add: show_int_def)

lemma fraction_digits:
  defines "frac \<equiv> \<lambda>m k. pad_start (Suc k) (CHR ''0'') (show_nat (nat \<bar>m\<bar> mod 10 ^ Suc k))"
  assumes "frac m k @ r = frac n l @ r'" "no_number r" "no_number r'"
  shows "k = l \<and> nat \<bar>m\<bar> mod 10 ^ Suc k = nat \<bar>n\<bar> mod 10 ^ Suc l \<and> r = r'"
proof -
  have digits: "takeWhile is_digit (frac m k @ q) = frac m k" if "no_number q" for m k q
  proof -
    have "takeWhile is_digit (frac m k @ q) = frac m k @ takeWhile is_digit q"
      by (rule takeWhile_append2) (auto simp: frac_def pad_start_def is_digit_code dest: show_nat_digits)
    also have "takeWhile is_digit q = []" using no_number_digit [OF that] by (auto simp: no_digit_def split: list.splits)
    finally show ?thesis by simp
  qed
  have len: "length (frac m k) = Suc k" for m k
    using length_show_nat_le [of "nat \<bar>m\<bar> mod 10 ^ Suc k" "Suc k"] by (simp add: frac_def)
  from assms(2) digits [OF assms(3)] digits [OF assms(4)] have eq: "frac m k = frac n l" by metis
  have rd: "read_nat (frac m k) = nat \<bar>m\<bar> mod 10 ^ Suc k" for m k
    unfolding frac_def by (simp only: read_pad_start read_show_nat)
  from eq have "length (frac m k) = length (frac n l)" by (rule arg_cong)
  then have "k = l" unfolding len by (rule Suc_inject)
  moreover from eq have "read_nat (frac m k) = read_nat (frac n l)" by (rule arg_cong)
  then have "nat \<bar>m\<bar> mod 10 ^ Suc k = nat \<bar>n\<bar> mod 10 ^ Suc l" unfolding rd .
  moreover from assms(2) eq have "r = r'" by (metis append_same_eq same_append_eq)
  ultimately show ?thesis by blast
qed

lemma show_dec_unique:
  assumes "show_dec m k @ r = show_dec n l @ r'" "no_number r" "no_number r'"
  shows "m = n \<and> k = l \<and> r = r'"
proof -
  let ?frac = "\<lambda>m k. pad_start (Suc k) (CHR ''0'') (show_nat (nat \<bar>m\<bar> mod 10 ^ Suc k))"
  let ?a = "nat \<bar>m\<bar> div 10 ^ Suc k" and ?b = "nat \<bar>n\<bar> div 10 ^ Suc l"
  have "(if m < 0 then ''-'' else []) @ show_nat ?a @ CHR ''.'' # ?frac m k @ r
    = (if n < 0 then ''-'' else []) @ show_nat ?b @ CHR ''.'' # ?frac n l @ r'"
    using assms(1) by (simp only: show_dec_def append_assoc append_Cons)
  note sign = sign_unique [OF this]
  from sign have "?a = ?b \<and> CHR ''.'' # ?frac m k @ r = CHR ''.'' # ?frac n l @ r'"
    by (intro show_nat_unique) simp_all
  moreover from this have frac: "k = l \<and> nat \<bar>m\<bar> mod 10 ^ Suc k = nat \<bar>n\<bar> mod 10 ^ Suc l \<and> r = r'"
    by (intro fraction_digits [OF _ assms(2,3)]) simp
  ultimately have "nat \<bar>m\<bar> = nat \<bar>n\<bar>" by (metis div_mult_mod_eq)
  with sign frac show ?thesis by linarith
qed

lemma show_int_not_dec:
  assumes "no_number r"
  shows "show_int n @ r \<noteq> show_dec m k @ r'" "show_dec m k @ r' \<noteq> show_int n @ r"
proof -
  show "show_int n @ r \<noteq> show_dec m k @ r'"
  proof
    assume "show_int n @ r = show_dec m k @ r'"
    then have "(if n < 0 then ''-'' else []) @ show_nat (nat \<bar>n\<bar>) @ r
      = (if m < 0 then ''-'' else []) @ show_nat (nat \<bar>m\<bar> div 10 ^ Suc k)
        @ CHR ''.'' # pad_start (Suc k) (CHR ''0'') (show_nat (nat \<bar>m\<bar> mod 10 ^ Suc k)) @ r'"
      by (simp only: show_dec_def show_int_sign append_assoc append_Cons)
    from sign_unique [OF this] have "r = CHR ''.'' # pad_start (Suc k) (CHR ''0'') (show_nat (nat \<bar>m\<bar> mod 10 ^ Suc k)) @ r'"
      using show_nat_unique [of "nat \<bar>n\<bar>" r "nat \<bar>m\<bar> div 10 ^ Suc k"] no_number_digit [OF assms] by simp
    with assms show False by (simp add: number_char_def)
  qed
  then show "show_dec m k @ r' \<noteq> show_int n @ r" by metis
qed

lemma show_dec_head: "show_dec m k @ r = c # q \<Longrightarrow> c = CHR ''-'' \<or> is_digit c"
proof -
  assume eq: "show_dec m k @ r = c # q"
  have "c = CHR ''-'' \<or> c \<in> set (show_nat (nat \<bar>m\<bar> div 10 ^ Suc k))"
    using eq by (cases "show_nat (nat \<bar>m\<bar> div 10 ^ Suc k)") (auto simp: show_dec_def split: if_splits)
  then show ?thesis using show_nat_digits by blast
qed

lemma show_dec_not_head [simp]:
  assumes "c \<noteq> CHR ''-''" "\<not> is_digit c"
  shows "show_dec m k @ r \<noteq> c # q" "c # q \<noteq> show_dec m k @ r"
  using assms show_dec_head [of m k r c q] by metis+

text \<open>A printer \<open>f\<close> is readable at \<open>x\<close> when nothing else prints to a prefix that continues alike.\<close>

definition readable :: "('a \<Rightarrow> bool) \<Rightarrow> ('a \<Rightarrow> string) \<Rightarrow> 'a \<Rightarrow> bool" where
  "readable Q f x \<longleftrightarrow> (\<forall>y r r'. Q y \<longrightarrow> no_number r \<longrightarrow> no_number r' \<longrightarrow> f x @ r = f y @ r' \<longrightarrow> x = y \<and> r = r')"

lemma readableD:
  assumes "readable Q f x" "Q y" "no_number r" "no_number r'" "f x @ r = f y @ r'"
  shows "x = y \<and> r = r'"
  using assms unfolding readable_def by blast

definition commas :: "('a \<Rightarrow> string) \<Rightarrow> 'a list \<Rightarrow> string" where
  "commas f xs = concat (map (\<lambda>x. CHR '','' # f x) xs)"

lemma join_commas: "join '','' (f x # map f xs) = f x @ commas f xs"
proof (induction xs arbitrary: x)
  case (Cons y xs)
  have "join '','' (f x # map f (y # xs)) = f x @ '','' @ join '','' (f y # map f xs)" by simp
  with Cons show ?case by (simp add: commas_def)
qed (simp add: commas_def)

lemma no_number_commas: "\<not> number_char c \<Longrightarrow> no_number (commas f xs @ c # r)"
  by (cases xs) (simp_all add: commas_def)

lemma commas_unique:
  assumes "\<forall>x \<in> set xs. readable Q f x" "\<forall>y \<in> set ys. Q y" "\<not> number_char c" "c \<noteq> CHR '',''"
    and "commas f xs @ c # r = commas f ys @ c # r'"
  shows "xs = ys \<and> r = r'"
  using assms
proof (induction xs arbitrary: ys)
  case Nil
  then show ?case by (cases ys) (auto simp: commas_def)
next
  case (Cons x xs)
  then obtain y ys' where ys: "ys = y # ys'" by (cases ys) (auto simp: commas_def)
  with Cons.prems(5) have eq: "f x @ commas f xs @ c # r = f y @ commas f ys' @ c # r'"
    by (simp add: commas_def)
  have "x = y \<and> commas f xs @ c # r = commas f ys' @ c # r'"
    using Cons.prems(1,2) ys eq by (intro readableD [of Q f x y]) (simp_all add: no_number_commas [OF Cons.prems(3)])
  with Cons ys show ?case by auto
qed

lemma joined_unique:
  assumes read: "\<forall>x \<in> set xs. readable Q f x" and Q: "\<forall>x \<in> set xs. Q x" "\<forall>y \<in> set ys. Q y"
    and c: "\<not> number_char c" "c \<noteq> CHR '',''" and head: "\<And>y q q'. Q y \<Longrightarrow> f y @ q \<noteq> c # q'"
    and eq: "join '','' (map f xs) @ c # r = join '','' (map f ys) @ c # r'"
  shows "xs = ys \<and> r = r'"
proof (cases xs)
  case Nil
  have "ys = []"
  proof (rule ccontr)
    assume "ys \<noteq> []"
    then obtain y zs where ys: "ys = y # zs" by (cases ys) auto
    have "f y @ commas f zs @ c # r' = c # r" using eq Nil ys join_commas [of f y zs] by simp
    with head [of y] Q ys show False by simp
  qed
  with Nil eq show ?thesis by simp
next
  case (Cons x zs)
  have "ys \<noteq> []"
  proof
    assume ys: "ys = []"
    have "f x @ commas f zs @ c # r = c # r'" using eq Cons ys join_commas [of f x zs] by simp
    with head [of x] Q Cons show False by simp
  qed
  then obtain y us where ys: "ys = y # us" by (cases ys) auto
  have "f x @ commas f zs @ c # r = f y @ commas f us @ c # r'"
    using eq Cons ys by (simp add: join_commas)
  then have "commas f xs @ c # r = commas f ys @ c # r'" using Cons ys by (simp add: commas_def)
  with read Q(2) c show ?thesis by (rule commas_unique)
qed

abbreviation json_field :: "string \<times> jsval \<Rightarrow> string" where
  "json_field \<equiv> \<lambda>(k, v). json_string k @ '':'' @ json_stringify v"

lemma json_string_head [simp]:
  "c \<noteq> CHR 0x22 \<Longrightarrow> json_string s @ r \<noteq> c # q" "c \<noteq> CHR 0x22 \<Longrightarrow> c # q \<noteq> json_string s @ r"
  by (auto simp: json_string_def)

lemma json_string_int [simp]: "json_string s @ r \<noteq> show_int n @ r'" "show_int n @ r' \<noteq> json_string s @ r"
    "json_string s @ r \<noteq> show_dec m k @ r'" "show_dec m k @ r' \<noteq> json_string s @ r"
  by (auto simp: json_string_def)

lemma json_stringify_head: "plain v \<Longrightarrow> json_stringify v @ q \<noteq> CHR '']'' # q'"
  by (cases v) auto

lemma json_stringify_unique: "plain v \<Longrightarrow> readable plain json_stringify v"
proof (induction v)
  case JNull
  show ?case unfolding readable_def
  proof (intro allI impI)
    fix y r r' assume "plain y" "json_stringify JNull @ r = json_stringify y @ r'"
    then show "JNull = y \<and> r = r'" by (cases y) (auto split: if_splits)
  qed
next
  case (JBool b)
  show ?case unfolding readable_def
  proof (intro allI impI)
    fix y r r' assume "plain y" "json_stringify (JBool b) @ r = json_stringify y @ r'"
    then show "JBool b = y \<and> r = r'" by (cases y) (auto split: if_splits)
  qed
next
  case (JNum n)
  show ?case unfolding readable_def
  proof (intro allI impI)
    fix y r r' assume "plain y" "no_number r" "no_number r'" "json_stringify (JNum n) @ r = json_stringify y @ r'"
    then show "JNum n = y \<and> r = r'" using show_int_unique [of n r _ r'] show_int_not_dec(1) [of r n _ _ r']
      by (cases y) (auto simp: no_number_digit split: if_splits)
  qed
next
  case (JDec m k)
  show ?case unfolding readable_def
  proof (intro allI impI)
    fix y r r' assume "plain y" "no_number r" "no_number r'" "json_stringify (JDec m k) @ r = json_stringify y @ r'"
    then show "JDec m k = y \<and> r = r'" using show_dec_unique [of m k r _ _ r'] show_int_not_dec(2) [of r' m k r]
      by (cases y) (auto split: if_splits)
  qed
next
  case (JStr s)
  show ?case unfolding readable_def
  proof (intro allI impI)
    fix y r r' assume "plain y" "json_stringify (JStr s) @ r = json_stringify y @ r'"
    then show "JStr s = y \<and> r = r'" using json_string_unique [of s r _ r'] by (cases y) (auto split: if_splits)
  qed
next
  case (JArr xs)
  show ?case unfolding readable_def
  proof (intro allI impI)
    fix y r r' assume y: "plain y" and eq: "json_stringify (JArr xs) @ r = json_stringify y @ r'"
    then obtain ys where ys: "y = JArr ys" by (cases y) (auto split: if_splits)
    have "xs = ys \<and> r = r'"
      by (rule joined_unique [where Q = plain and f = json_stringify and c = "CHR '']''"])
        (use JArr y eq ys json_stringify_head in auto)
    with ys show "JArr xs = y \<and> r = r'" by simp
  qed
next
  case (JObj fs)
  have field: "readable (\<lambda>x. plain (snd x)) json_field x" if "x \<in> set fs" for x
    unfolding readable_def
  proof (intro allI impI)
    fix y r r'
    assume Q: "plain (snd y)" and nd: "no_number r" "no_number r'" and eq: "json_field x @ r = json_field y @ r'"
    obtain k v k' v' where xy: "x = (k, v)" "y = (k', v')" by (cases x; cases y) auto
    have "readable plain json_stringify v" using JObj that xy by (force simp: plain_list)
    moreover from eq xy json_string_unique [of k "'':'' @ json_stringify v @ r" k' "'':'' @ json_stringify v' @ r'"]
    have "k = k'" "json_stringify v @ r = json_stringify v' @ r'" by simp_all
    ultimately show "x = y \<and> r = r'" using xy Q nd by (auto dest: readableD)
  qed
  show ?case unfolding readable_def
  proof (intro allI impI)
    fix y r r' assume y: "plain y" and eq: "json_stringify (JObj fs) @ r = json_stringify y @ r'"
    then obtain gs where gs: "y = JObj gs" by (cases y) (auto split: if_splits)
    have "fs = gs \<and> r = r'"
      by (rule joined_unique [where Q = "\<lambda>x. plain (snd x)" and f = json_field and c = "CHR ''}''"])
        (use JObj.prems y eq gs field in \<open>auto simp: json_string_def\<close>)
    with gs show "JObj fs = y \<and> r = r'" by simp
  qed
qed auto

lemma json_stringify_inj:
  assumes "plain v" "plain w" "json_stringify v = json_stringify w"
  shows "v = w"
  using readableD [OF json_stringify_unique [OF assms(1)] assms(2), of "[]" "[]"] assms(3) by simp

lemma canonicalJson_ok: "is_ok (canonicalJson v) = plain v"
proof (cases "plain v")
  case True
  then show ?thesis by (simp add: canonicalJson_def serialize_plain(1))
next
  case False
  then show ?thesis using serialize_not_plain(1) [of v "''$''"] by (auto simp: canonicalJson_def)
qed

lemma canonicalJson_unique:
  assumes "canonicalJson v = Inr s" "canonicalJson w = Inr t"
  shows "s = t \<longleftrightarrow> sorted_keys v = sorted_keys w"
proof -
  have pl: "plain v" "plain w" using assms canonicalJson_ok by (metis is_ok.simps(1))+
  then have "s = json_stringify (sorted_keys v)" "t = json_stringify (sorted_keys w)"
    using assms by (simp_all add: canonicalJson_def serialize_plain(1))
  with pl show ?thesis by (auto intro: json_stringify_inj plain_sorted_keys)
qed

section \<open>Properties\<close>

text \<open>\<open>canonicalJson\<close> accepts exactly the values JSON represents faithfully (no undefined,
  non-finite number, bigint, function, symbol or class instance at any depth) and throws on every
  other one.\<close>

theorem canonicalJson_accepts_plain: "is_ok (canonicalJson v) = plain v"
  by (rule canonicalJson_ok)

text \<open>C9: no two different documents collapse into one canonical text: two accepted values print
  alike exactly when they are the same value up to the order of object keys.\<close>

theorem canonicalJson_injective:
  assumes "canonicalJson v = Inr s" "canonicalJson w = Inr t"
  shows "s = t \<longleftrightarrow> sorted_keys v = sorted_keys w"
  using assms by (rule canonicalJson_unique)

lemma canonicalJson_injective_witness:
  "sorted_keys (JObj [(''b'', JNum 1), (''a'', JArr [JStr ''x'', JNull])])
     = sorted_keys (JObj [(''a'', JArr [JStr ''x'', JNull]), (''b'', JNum 1)])
   \<and> sorted_keys (JObj [(''a'', JNum 1)]) \<noteq> sorted_keys (JObj [(''a'', JNum 10)])"
proof -
  have "canonicalJson (JObj [(''b'', JNum 1), (''a'', JArr [JStr ''x'', JNull])])
      = Inr (concat [''{'', json_string ''a'', '':['', json_string ''x'', '',null],'', json_string ''b'', '':1}''])"
    by code_simp
  moreover have "canonicalJson (JObj [(''a'', JArr [JStr ''x'', JNull]), (''b'', JNum 1)])
      = Inr (concat [''{'', json_string ''a'', '':['', json_string ''x'', '',null],'', json_string ''b'', '':1}''])"
    by code_simp
  moreover have "canonicalJson (JObj [(''a'', JNum 1)]) = Inr (concat [''{'', json_string ''a'', '':1}''])"
    by code_simp
  moreover have "canonicalJson (JObj [(''a'', JNum 10)]) = Inr (concat [''{'', json_string ''a'', '':10}''])"
    by code_simp
  ultimately show ?thesis
    using canonicalJson_injective [of "JObj [(''b'', JNum 1), (''a'', JArr [JStr ''x'', JNull])]" _
        "JObj [(''a'', JArr [JStr ''x'', JNull]), (''b'', JNum 1)]"]
      canonicalJson_injective [of "JObj [(''a'', JNum 1)]" _ "JObj [(''a'', JNum 10)]"]
    by simp
qed

end
