(* ===== verification/Calendar.thy ===== *)
theory Calendar
  imports Prelude
begin

text \<open>
  The part of the language's \<open>Date\<close> the program uses: the proleptic Gregorian calendar in UTC, as
  ECMAScript defines it (\<open>DayFromYear\<close>, \<open>MakeDay\<close>, \<open>Date.UTC\<close>, the UTC getters, \<open>toISOString\<close> and
  the ISO date format), with the facts the date handling of the program rests on: the year of a day
  number is the right one, and days and calendar dates are in bijection.
\<close>

section \<open>Days and years\<close>

definition ms_per_day :: int where "ms_per_day = 86400000"

definition leap_year :: "int \<Rightarrow> bool" where
  "leap_year y \<longleftrightarrow> y mod 4 = 0 \<and> (y mod 100 \<noteq> 0 \<or> y mod 400 = 0)"

text \<open>\<open>DayFromYear\<close>: the day number (0 is 1970-01-01) of January 1.\<close>

definition day_from_year :: "int \<Rightarrow> int" where
  "day_from_year y = 365 * (y - 1970) + (y - 1969) div 4 - (y - 1901) div 100 + (y - 1601) div 400"

text \<open>Days of the year before month \<open>m\<close> (0 is January).\<close>

definition month_start :: "bool \<Rightarrow> int \<Rightarrow> int" where
  "month_start leap m =
     (if m \<le> 0 then 0 else if m = 1 then 31 else
        (if leap then 1 else 0)
        + (if m = 2 then 59 else if m = 3 then 90 else if m = 4 then 120 else if m = 5 then 151
           else if m = 6 then 181 else if m = 7 then 212 else if m = 8 then 243
           else if m = 9 then 273 else if m = 10 then 304 else if m = 11 then 334 else 365))"

text \<open>\<open>MakeDay\<close>: the month is zero based and, like the date, may be out of range.\<close>

definition make_day :: "int \<Rightarrow> int \<Rightarrow> int \<Rightarrow> int" where
  "make_day year month dt =
     (let ym = year + month div 12; mn = month mod 12
      in day_from_year ym + month_start (leap_year ym) mn + dt - 1)"

text \<open>The year of a day number.\<close>

definition year_from_day :: "int \<Rightarrow> int" where
  "year_from_day day =
     (let d = day + 719162; r = d mod 146097;
          b = min 3 (r div 36524); r1 = r - b * 36524;
          r2 = r1 mod 1461; e = min 3 (r2 div 365)
      in 400 * (d div 146097) + 100 * b + 4 * (r1 div 1461) + e + 1)"

text \<open>The zero based month of a zero based day of the year.\<close>

definition month_from_doy :: "bool \<Rightarrow> int \<Rightarrow> int" where
  "month_from_doy leap doy =
     (if doy < 31 then 0 else
        let f = (if leap then 1 else 0) in
        if doy < 59 + f then 1 else if doy < 90 + f then 2 else if doy < 120 + f then 3
        else if doy < 151 + f then 4 else if doy < 181 + f then 5 else if doy < 212 + f then 6
        else if doy < 243 + f then 7 else if doy < 273 + f then 8 else if doy < 304 + f then 9
        else if doy < 334 + f then 10 else 11)"

section \<open>The getters\<close>

definition day_of :: "instant \<Rightarrow> int" where "day_of t = t div ms_per_day"
definition time_in_day :: "instant \<Rightarrow> int" where "time_in_day t = t mod ms_per_day"

definition getUTCFullYear :: "instant \<Rightarrow> int" where
  "getUTCFullYear t = year_from_day (day_of t)"

definition getUTCMonth :: "instant \<Rightarrow> int" where
  "getUTCMonth t =
     (let y = getUTCFullYear t in month_from_doy (leap_year y) (day_of t - day_from_year y))"

definition getUTCDate :: "instant \<Rightarrow> int" where
  "getUTCDate t =
     (let y = getUTCFullYear t
      in day_of t - day_from_year y - month_start (leap_year y) (getUTCMonth t) + 1)"

definition getUTCDay :: "instant \<Rightarrow> int" where
  "getUTCDay t = (day_of t + 4) mod 7"

text \<open>\<open>Date.UTC\<close> reads the years 0 to 99 as 1900 to 1999.\<close>

definition date_UTC :: "int \<Rightarrow> int \<Rightarrow> int \<Rightarrow> int \<Rightarrow> int \<Rightarrow> int \<Rightarrow> int \<Rightarrow> instant" where
  "date_UTC y m d h mi s ms =
     make_day (if 0 \<le> y \<and> y \<le> 99 then 1900 + y else y) m d * ms_per_day
       + h * 3600000 + mi * 60000 + s * 1000 + ms"

definition setUTCFullYear :: "instant \<Rightarrow> int \<Rightarrow> instant" where
  "setUTCFullYear t y = make_day y (getUTCMonth t) (getUTCDate t) * ms_per_day + time_in_day t"

section \<open>The year of a day is unique\<close>

lemma div_step:
  fixes n :: int
  assumes "0 < n"
  shows "y div n = (y - 1) div n + (if y mod n = 0 then 1 else 0)"
proof (cases "y mod n = 0")
  case True
  have "(y - 1) div n = y div n - 1"
    by (rule int_div_pos_eq [where r = "n - 1"]) (use True assms in \<open>auto simp: algebra_simps\<close>)
  with True show ?thesis by simp
next
  case False
  have "0 < y mod n" using pos_mod_sign [OF assms, of y] False by linarith
  have "(y - 1) div n = y div n"
    by (rule int_div_pos_eq [where r = "y mod n - 1"])
      (use \<open>0 < y mod n\<close> pos_mod_bound [OF assms, of y] in \<open>auto simp: algebra_simps\<close>)
  with False show ?thesis by simp
qed

lemma mod_zero_top:
  fixes n x :: int
  assumes "0 < x" "x \<le> n"
  shows "x mod n = 0 \<longleftrightarrow> x = n"
  using assms by (cases "x = n") auto

lemma div_shift: "0 < n \<Longrightarrow> (y + k * n) div n = y div n + k" for y k n :: int
  by simp

lemma day_from_year_alt:
  "day_from_year (y + 1) = 365 * y + y div 4 - y div 100 + y div 400 - 719162"
proof -
  have e4: "y + 1 - 1969 = y + (- 492) * 4" and e100: "y + 1 - 1901 = y + (- 19) * 100"
    and e400: "y + 1 - 1601 = y + (- 4) * 400" by simp_all
  have "365 * (y + 1 - 1970) + (p + - 492) - (q + - 19) + (r + - 4) = 365 * y + p - q + r - 719162"
    for p q r :: int by simp
  from this [of "y div 4" "y div 100" "y div 400"] show ?thesis
    unfolding day_from_year_def e4 e100 e400
    by (simp only: div_shift [OF zero_less_numeral])
qed

lemma leap_dvd: "y mod 400 = 0 \<Longrightarrow> y mod 100 = 0" "y mod 100 = 0 \<Longrightarrow> y mod 4 = 0" for y :: int
proof -
  have "(100::int) dvd 400" "(4::int) dvd 100" by simp_all
  then show "y mod 400 = 0 \<Longrightarrow> y mod 100 = 0" "y mod 100 = 0 \<Longrightarrow> y mod 4 = 0"
    by (meson dvd_trans mod_0_imp_dvd dvd_imp_mod_0)+
qed

lemma day_from_year_step:
  "day_from_year (y + 1) = day_from_year y + (if leap_year y then 366 else 365)"
proof -
  have prev: "day_from_year y = 365 * (y - 1) + (y - 1) div 4 - (y - 1) div 100 + (y - 1) div 400 - 719162"
    using day_from_year_alt [of "y - 1"] by simp
  have "365 * y + y4 - y100 + y400 - k
      = 365 * (y - 1) + q4 - q100 + q400 - k + (if m4 \<and> (\<not> m100 \<or> m400) then 366 else 365)"
    if "y4 = q4 + (if m4 then 1 else 0)" "y100 = q100 + (if m100 then 1 else 0)"
      "y400 = q400 + (if m400 then 1 else 0)" "m400 \<Longrightarrow> m100" "m100 \<Longrightarrow> m4"
    for y4 y100 y400 q4 q100 q400 k :: int and m4 m100 m400
    unfolding that(1-3) using that(4,5) by (cases m4; cases m100; cases m400) auto
  from this [OF div_step [of 4 y, OF zero_less_numeral] div_step [of 100 y, OF zero_less_numeral]
      div_step [of 400 y, OF zero_less_numeral] leap_dvd [of y], of 719162]
  show ?thesis unfolding day_from_year_alt prev leap_year_def .
qed

lemma day_from_year_mono: "y \<le> z \<Longrightarrow> day_from_year y \<le> day_from_year z"
proof (induction z rule: int_ge_induct)
  case (step z)
  then show ?case using day_from_year_step [of z] by (auto split: if_splits)
qed simp

text \<open>The four hundred year cycle, decomposed as \<open>year_from_day\<close> does.\<close>

lemma year_decomposed:
  fixes a b c e :: int
  assumes "0 \<le> b" "b \<le> 3" "0 \<le> c" "c \<le> 24" "0 \<le> e" "e \<le> 3"
  shows "day_from_year (400 * a + 100 * b + 4 * c + e + 1)
           = 146097 * a + 36524 * b + 1461 * c + 365 * e - 719162"
    and "leap_year (400 * a + 100 * b + 4 * c + e + 1) \<longleftrightarrow> e = 3 \<and> (c \<noteq> 24 \<or> b = 3)"
proof -
  let ?y = "400 * a + 100 * b + 4 * c + e"
  have "?y div 4 = 100 * a + 25 * b + c" "?y div 100 = 4 * a + b" "?y div 400 = a"
    by (rule int_div_pos_eq [where r = e] int_div_pos_eq [where r = "4 * c + e"]
        int_div_pos_eq [where r = "100 * b + 4 * c + e"]; use assms in simp)+
  then show "day_from_year (?y + 1) = 146097 * a + 36524 * b + 1461 * c + 365 * e - 719162"
    unfolding day_from_year_alt by simp
  have m4: "(?y + 1) mod 4 = 0 \<longleftrightarrow> e + 1 = 4"
  proof -
    have "?y + 1 = (e + 1) + 4 * (100 * a + 25 * b + c)" by simp
    then have "(?y + 1) mod 4 = (e + 1) mod 4" by (simp only: mod_mult_self2)
    then show ?thesis using mod_zero_top [of "e + 1" 4] assms by simp
  qed
  have m100: "(?y + 1) mod 100 = 0 \<longleftrightarrow> 4 * c + e + 1 = 100"
  proof -
    have "?y + 1 = (4 * c + e + 1) + 100 * (4 * a + b)" by simp
    then have "(?y + 1) mod 100 = (4 * c + e + 1) mod 100" by (simp only: mod_mult_self2)
    then show ?thesis using mod_zero_top [of "4 * c + e + 1" 100] assms by simp
  qed
  have m400: "(?y + 1) mod 400 = 0 \<longleftrightarrow> 100 * b + 4 * c + e + 1 = 400"
  proof -
    have "?y + 1 = (100 * b + 4 * c + e + 1) + 400 * a" by simp
    then have "(?y + 1) mod 400 = (100 * b + 4 * c + e + 1) mod 400" by (simp only: mod_mult_self2)
    then show ?thesis using mod_zero_top [of "100 * b + 4 * c + e + 1" 400] assms by simp
  qed
  show "leap_year (?y + 1) \<longleftrightarrow> e = 3 \<and> (c \<noteq> 24 \<or> b = 3)"
    unfolding leap_year_def m4 m100 m400 using assms by (cases "e = 3") auto
qed

lemma year_from_day_bracket:
  "day_from_year (year_from_day day) \<le> day \<and> day < day_from_year (year_from_day day + 1)"
proof -
  define d where "d = day + 719162"
  define a where "a = d div 146097"
  define r where "r = d mod 146097"
  define b where "b = min 3 (r div 36524)"
  define r1 where "r1 = r - b * 36524"
  define c where "c = r1 div 1461"
  define r2 where "r2 = r1 mod 1461"
  define e where "e = min 3 (r2 div 365)"
  have y: "year_from_day day = 400 * a + 100 * b + 4 * c + e + 1"
    unfolding year_from_day_def Let_def a_def r_def b_def r1_def c_def r2_def e_def d_def by (rule refl)
  have r: "0 \<le> r" "r < 146097" by (simp_all add: r_def)
  have b: "0 \<le> b" "b \<le> 3" using r by (auto simp: b_def)
  have r1: "0 \<le> r1" "r1 \<le> 36524" "b < 3 \<Longrightarrow> r1 < 36524" using r unfolding r1_def b_def by linarith+
  have c: "0 \<le> c" "c \<le> 24" using r1 unfolding c_def by linarith+
  have r2: "0 \<le> r2" "r2 < 1461" by (simp_all add: r2_def)
  have e: "0 \<le> e" "e \<le> 3" using r2 by (auto simp: e_def)
  have low: "365 * e \<le> r2" using r2 unfolding e_def by linarith
  have high: "r2 < 365 * e + 365 \<or> r2 = 365 * e + 365 \<and> e = 3" using r2 unfolding e_def by linarith
  have d: "d = 146097 * a + 36524 * b + 1461 * c + r2"
    unfolding a_def c_def r2_def r1_def r_def by simp
  have c24: "r2 = 1460 \<Longrightarrow> c = 24 \<Longrightarrow> b = 3"
    using r1 b mult_div_mod_eq [of 1461 r1] unfolding c_def r2_def by linarith
  let ?Y = "400 * a + 100 * b + 4 * c + e + 1"
  show ?thesis
    unfolding y day_from_year_step [of ?Y] year_decomposed [OF b c e]
    using low high d c24 e unfolding d_def by (cases "e = 3 \<and> (c \<noteq> 24 \<or> b = 3)") auto
qed

lemma year_from_day_unique:
  assumes "day_from_year y \<le> day" "day < day_from_year (y + 1)"
  shows "year_from_day day = y"
proof (rule ccontr)
  assume neq: "year_from_day day \<noteq> y"
  note br = year_from_day_bracket [of day]
  from neq consider "year_from_day day + 1 \<le> y" | "y + 1 \<le> year_from_day day" by linarith
  then show False
    using day_from_year_mono br assms by cases (meson leD order.strict_trans2)+
qed

section \<open>Days and calendar dates\<close>

text \<open>A calendar date: a year, a one based month and a day of that month.\<close>

definition days_in_month :: "int \<Rightarrow> int \<Rightarrow> int" where
  "days_in_month y m = month_start (leap_year y) m - month_start (leap_year y) (m - 1)"

definition valid_ymd :: "int \<Rightarrow> int \<Rightarrow> int \<Rightarrow> bool" where
  "valid_ymd y m d \<longleftrightarrow> 1 \<le> m \<and> m \<le> 12 \<and> 1 \<le> d \<and> d \<le> days_in_month y m"

definition day_of_ymd :: "int \<Rightarrow> int \<Rightarrow> int \<Rightarrow> int" where
  "day_of_ymd y m d = day_from_year y + month_start (leap_year y) (m - 1) + d - 1"

lemma month_cases:
  fixes m :: int
  assumes "0 \<le> m" "m \<le> 11"
  obtains "m = 0" | "m = 1" | "m = 2" | "m = 3" | "m = 4" | "m = 5" | "m = 6" | "m = 7"
    | "m = 8" | "m = 9" | "m = 10" | "m = 11"
proof -
  from assms have "m = 0 \<or> m = 1 \<or> m = 2 \<or> m = 3 \<or> m = 4 \<or> m = 5 \<or> m = 6 \<or> m = 7
    \<or> m = 8 \<or> m = 9 \<or> m = 10 \<or> m = 11" by presburger
  with that show ?thesis by blast
qed

lemma month_from_doy_range: "0 \<le> month_from_doy lp doy \<and> month_from_doy lp doy \<le> 11"
  by (simp add: month_from_doy_def Let_def)

lemma month_from_doy_bracket:
  assumes "0 \<le> doy" "doy < (if lp then 366 else 365)"
  shows "month_start lp (month_from_doy lp doy) \<le> doy \<and> doy < month_start lp (month_from_doy lp doy + 1)"
  using assms by (cases lp) (simp_all add: month_from_doy_def month_start_def)

lemma month_from_doy_unique:
  assumes "0 \<le> m" "m \<le> 11" "month_start lp m \<le> doy" "doy < month_start lp (m + 1)"
  shows "month_from_doy lp doy = m"
  using assms(1,2)
  by (cases rule: month_cases; cases lp; use assms(3,4) in \<open>simp add: month_from_doy_def month_start_def\<close>)

lemma month_start_bounds:
  assumes "0 \<le> m" "m \<le> 11"
  shows "0 \<le> month_start lp m \<and> month_start lp (m + 1) \<le> (if lp then 366 else 365)"
  using assms by (cases rule: month_cases; cases lp; simp add: month_start_def)

lemma year_of_day_ymd:
  assumes "valid_ymd y m d"
  shows "year_from_day (day_of_ymd y m d) = y"
proof (rule year_from_day_unique)
  from assms have m: "0 \<le> m - 1" "m - 1 \<le> 11" and d: "1 \<le> d" "d \<le> days_in_month y m"
    by (auto simp: valid_ymd_def)
  from month_start_bounds [OF m, of "leap_year y"]
  show "day_from_year y \<le> day_of_ymd y m d" "day_of_ymd y m d < day_from_year (y + 1)"
    using d by (auto simp: day_of_ymd_def days_in_month_def day_from_year_step split: if_splits)
qed

text \<open>The getters of any instant of the day read the date back.\<close>

lemma day_of_add [simp]: "0 \<le> r \<Longrightarrow> r < ms_per_day \<Longrightarrow> day_of (n * ms_per_day + r) = n"
  unfolding day_of_def ms_per_day_def by (rule int_div_pos_eq) auto

lemma getters_of_ymd:
  assumes v: "valid_ymd y m d" and t: "day_of t = day_of_ymd y m d"
  shows "getUTCFullYear t = y" "getUTCMonth t = m - 1" "getUTCDate t = d"
proof -
  show y: "getUTCFullYear t = y" by (simp add: getUTCFullYear_def t year_of_day_ymd [OF v])
  from v have "month_from_doy (leap_year y) (month_start (leap_year y) (m - 1) + d - 1) = m - 1"
    by (intro month_from_doy_unique) (auto simp: valid_ymd_def days_in_month_def)
  then show m: "getUTCMonth t = m - 1"
    by (simp add: getUTCMonth_def y t day_of_ymd_def add_diff_eq)
  show "getUTCDate t = d" by (simp add: getUTCDate_def Let_def y m t day_of_ymd_def)
qed

lemma ymd_of_day:
  "valid_ymd (getUTCFullYear t) (getUTCMonth t + 1) (getUTCDate t)
   \<and> day_of_ymd (getUTCFullYear t) (getUTCMonth t + 1) (getUTCDate t) = day_of t"
proof -
  let ?y = "getUTCFullYear t" and ?m = "getUTCMonth t"
  let ?doy = "day_of t - day_from_year ?y" and ?lp = "leap_year ?y"
  have "0 \<le> ?doy" "?doy < (if ?lp then 366 else 365)"
    using year_from_day_bracket [of "day_of t"]
    unfolding getUTCFullYear_def day_from_year_step by simp_all
  from month_from_doy_bracket [OF this] month_from_doy_range [of ?lp ?doy]
  show ?thesis
    by (auto simp: valid_ymd_def days_in_month_def day_of_ymd_def getUTCMonth_def getUTCDate_def Let_def)
qed

lemma make_day_valid: "1 \<le> m \<Longrightarrow> m \<le> 12 \<Longrightarrow> make_day y (m - 1) d = day_of_ymd y m d"
  by (simp add: make_day_def day_of_ymd_def div_pos_pos_trivial)

lemma day_of_ymd_inj:
  assumes "valid_ymd y m d" "valid_ymd y' m' d'" "day_of_ymd y m d = day_of_ymd y' m' d'"
  shows "y = y' \<and> m = m' \<and> d = d'"
proof -
  have t: "day_of (day_of_ymd y m d * ms_per_day) = day_of_ymd y m d"
    by (simp add: day_of_def ms_per_day_def)
  from getters_of_ymd [OF assms(1) t] getters_of_ymd [OF assms(2), of "day_of_ymd y m d * ms_per_day"]
    t assms(3) show ?thesis by auto
qed

text \<open>The order of dates is the order of day numbers.\<close>

lemma day_of_ymd_less:
  assumes "valid_ymd y m d" "valid_ymd y' m' d'"
    "y < y' \<or> y = y' \<and> (m < m' \<or> m = m' \<and> d < d')"
  shows "day_of_ymd y m d < day_of_ymd y' m' d'"
proof -
  have rng: "day_from_year y \<le> day_of_ymd y m d" "day_of_ymd y m d < day_from_year (y + 1)"
    "day_from_year y' \<le> day_of_ymd y' m' d'"
    using assms(1,2) year_of_day_ymd year_from_day_bracket by metis+
  from assms(3) consider "y + 1 \<le> y'" | "y = y'" "m < m'" | "y = y'" "m = m'" "d < d'" by linarith
  then show ?thesis
  proof cases
    case 1
    with rng day_from_year_mono [of "y + 1" y'] show ?thesis by simp
  next
    case 2
    have "month_start lp m \<le> month_start lp (m' - 1)" for lp
    proof -
      have "0 \<le> m - 1" "m - 1 \<le> 11" using assms(1) by (auto simp: valid_ymd_def)
      then show ?thesis
        by (cases rule: month_cases; use 2(2) assms(2) in \<open>auto simp: month_start_def valid_ymd_def\<close>)
    qed
    from this [of "leap_year y"] 2 assms(1,2) show ?thesis
      by (auto simp: day_of_ymd_def valid_ymd_def days_in_month_def)
  next
    case 3
    then show ?thesis by (simp add: day_of_ymd_def)
  qed
qed

end
