(* ===== verification/BusinessTime.thy ===== *)
theory BusinessTime
  imports Calendar
begin

text \<open>
  The business calendar (\<open>src/common/business-time.ts\<close>): the fixed UTC-6 offset, the commission
  week, the business day of an instant and the boundaries of a date range; the calendar date check
  of \<open>src/finance/work-shift.dto.ts\<close>; the period boundary of \<open>src/finance/finance-overview.service.ts\<close>.
  A \<open>Date\<close> is its time value.
\<close>

section \<open>The offset\<close>

definition BUSINESS_TZ_OFFSET_MINUTES :: int where
  "BUSINESS_TZ_OFFSET_MINUTES = - 6 * 60"

definition toLocalReadable :: "instant \<Rightarrow> instant" where
  "toLocalReadable t = t + BUSINESS_TZ_OFFSET_MINUTES * 60000"

definition fromLocalReadable :: "instant \<Rightarrow> instant" where
  "fromLocalReadable l = l - BUSINESS_TZ_OFFSET_MINUTES * 60000"

section \<open>The commission week\<close>

definition currentWeekRange :: "instant \<Rightarrow> instant \<times> instant" where
  "currentWeekRange t =
     (let l = toLocalReadable t;
          dayOfWeek = getUTCDay l;
          localSundayStart =
            date_UTC (getUTCFullYear l) (getUTCMonth l) (getUTCDate l - dayOfWeek) 0 0 0 0;
          localSaturdayEnd = localSundayStart + 7 * 86400000 - 1
      in (fromLocalReadable localSundayStart, fromLocalReadable localSaturdayEnd))"

section \<open>Dates as strings\<close>

definition currentBusinessDate :: "instant \<Rightarrow> string" where
  "currentBusinessDate t =
     (let l = toLocalReadable t;
          year = getUTCFullYear l;
          month = pad_start 2 CHR ''0'' (show_int (getUTCMonth l + 1));
          day = pad_start 2 CHR ''0'' (show_int (getUTCDate l))
      in show_int year @ ''-'' @ month @ ''-'' @ day)"

text \<open>The regular expression \<open>^\d{4}-\d{2}-\d{2}$\<close> and the numbers of its three fields.\<close>

definition DATE_ONLY :: "string \<Rightarrow> bool" where
  "DATE_ONLY s \<longleftrightarrow> length s = 10 \<and> s ! 4 = CHR ''-'' \<and> s ! 7 = CHR ''-''
     \<and> list_all is_digit (take 4 s) \<and> list_all is_digit (take 2 (drop 5 s))
     \<and> list_all is_digit (drop 8 s)"

definition date_fields :: "string \<Rightarrow> int \<times> int \<times> int" where
  "date_fields s = (int (read_nat (take 4 s)), int (read_nat (take 2 (drop 5 s))),
                    int (read_nat (drop 8 s)))"

datatype boundary = StartOfDay | EndOfDay

text \<open>
  \<open>parse\<close> is \<open>new Date(value)\<close> on a value that is not a bare date: \<open>None\<close> where the time value
  is NaN.
\<close>

definition parseRangeBoundary :: "(string \<Rightarrow> instant option) \<Rightarrow> string \<Rightarrow> boundary \<Rightarrow> instant result" where
  "parseRangeBoundary parse value bnd =
     (if DATE_ONLY value then
        (let (year, month, day) = date_fields value;
             l = (case bnd of
                    StartOfDay \<Rightarrow> date_UTC year (month - 1) day 0 0 0 0
                  | EndOfDay \<Rightarrow> date_UTC year (month - 1) day 23 59 59 999)
         in Inr (fromLocalReadable l))
      else case parse value of
             None \<Rightarrow> Inl (BadRequest (''Invalid date: '' @ value))
           | Some t \<Rightarrow> Inr t)"

text \<open>
  \<open>new Date(value + 'T00:00:00.000Z')\<close> on a value of the date format: months are 1 to 12 and days
  1 to 31, and a day past the end of its month runs into the next one. The first ten characters of
  \<open>toISOString\<close> for the years 0 to 9999.
\<close>

definition iso_midnight :: "string \<Rightarrow> instant option" where
  "iso_midnight s =
     (let (y, m, d) = date_fields s
      in if 1 \<le> m \<and> m \<le> 12 \<and> 1 \<le> d \<and> d \<le> 31
         then Some (make_day y (m - 1) d * ms_per_day) else None)"

definition fmt_ymd :: "int \<Rightarrow> int \<Rightarrow> int \<Rightarrow> string" where
  "fmt_ymd y m d = pad_start 4 CHR ''0'' (show_int y) @ ''-'' @ pad_start 2 CHR ''0'' (show_int m)
     @ ''-'' @ pad_start 2 CHR ''0'' (show_int d)"

definition iso_date_part :: "instant \<Rightarrow> string" where
  "iso_date_part t = fmt_ymd (getUTCFullYear t) (getUTCMonth t + 1) (getUTCDate t)"

definition isCalendarDate :: "string \<Rightarrow> bool" where
  "isCalendarDate value \<longleftrightarrow>
     DATE_ONLY value \<and> take 4 value \<noteq> ''0000''
     \<and> (case iso_midnight value of None \<Rightarrow> False | Some t \<Rightarrow> iso_date_part t = value)"

text \<open>\<open>new Date(value + 'T00:00:00.000Z')\<close> of a validated date, as the finance services store it.\<close>

definition utc_date :: "string \<Rightarrow> instant" where
  "utc_date value = (case iso_midnight value of None \<Rightarrow> 0 | Some t \<Rightarrow> t)"

text \<open>\<open>businessStart\<close> of the overview: it restores the year that \<open>Date.UTC\<close> moved to 1901-1999.\<close>

definition businessStart :: "string \<Rightarrow> instant" where
  "businessStart value =
     (case parseRangeBoundary (\<lambda>_. None) value StartOfDay of
        Inl _ \<Rightarrow> 0
      | Inr t \<Rightarrow> setUTCFullYear t (int (read_nat (take 4 value))))"

section \<open>Formatted dates\<close>

lemma show_int_nonneg: "0 \<le> i \<Longrightarrow> show_int i = show_nat (nat i)"
  by (simp add: show_int_def)

lemma digit_zero [simp]: "is_digit (CHR ''0'')"
  by (simp add: is_digit_code)

definition fmt_num :: "nat \<Rightarrow> int \<Rightarrow> string" where
  "fmt_num k i = pad_start k CHR ''0'' (show_int i)"

lemma fmt_num:
  assumes "0 \<le> i" "i < 10 ^ k" "0 < k"
  shows "length (fmt_num k i) = k" "\<forall>c \<in> set (fmt_num k i). is_digit c" "int (read_nat (fmt_num k i)) = i"
proof -
  have "nat i < 10 ^ k" using assms by (simp add: nat_less_iff)
  from length_show_nat_le [OF this assms(3)] show "length (fmt_num k i) = k"
    using assms by (simp add: fmt_num_def show_int_nonneg max_def)
  show "\<forall>c \<in> set (fmt_num k i). is_digit c"
    using assms by (auto simp: fmt_num_def show_int_nonneg pad_start_def dest: show_nat_digits)
  show "int (read_nat (fmt_num k i)) = i"
    using assms by (simp add: fmt_num_def show_int_nonneg)
qed

lemma fmt_num_inj:
  assumes "length s = k" "\<forall>c \<in> set s. is_digit c" "0 < k"
  shows "fmt_num k (int (read_nat s)) = s"
proof -
  let ?i = "int (read_nat s)"
  have "int (read_nat s) < int (10 ^ k)"
    using read_nat_less [OF assms(2)] unfolding assms(1) of_nat_less_iff .
  then have i: "0 \<le> ?i" "?i < 10 ^ k" by simp_all
  note f = fmt_num [OF i assms(3)]
  have "\<not> fmt_num k ?i < s" "\<not> s < fmt_num k ?i"
    using digits_less_iff [of "fmt_num k ?i" s] digits_less_iff [of s "fmt_num k ?i"] f assms by simp_all
  then show ?thesis by simp
qed

lemma fmt_ymd_num: "fmt_ymd y m d = fmt_num 4 y @ ''-'' @ fmt_num 2 m @ ''-'' @ fmt_num 2 d"
  by (simp add: fmt_ymd_def fmt_num_def)

definition fields_in_range :: "int \<Rightarrow> int \<Rightarrow> int \<Rightarrow> bool" where
  "fields_in_range y m d \<longleftrightarrow> 0 \<le> y \<and> y \<le> 9999 \<and> 0 \<le> m \<and> m \<le> 99 \<and> 0 \<le> d \<and> d \<le> 99"

lemma fmt_ymd_fields:
  assumes "fields_in_range y m d"
  shows "DATE_ONLY (fmt_ymd y m d)" "date_fields (fmt_ymd y m d) = (y, m, d)"
    "take 4 (fmt_ymd y m d) = fmt_num 4 y"
proof -
  have y: "0 \<le> y" "y < 10 ^ 4" and m: "0 \<le> m" "m < 10 ^ 2" and d: "0 \<le> d" "d < 10 ^ 2"
    using assms by (auto simp: fields_in_range_def)
  note fy = fmt_num [OF y] and fm = fmt_num [OF m] and fd = fmt_num [OF d]
  show "DATE_ONLY (fmt_ymd y m d)" "date_fields (fmt_ymd y m d) = (y, m, d)"
    "take 4 (fmt_ymd y m d) = fmt_num 4 y"
    using fy fm fd by (simp_all add: DATE_ONLY_def date_fields_def fmt_ymd_num nth_append list_all_iff)
qed

lemma DATE_ONLY_fmt:
  assumes "DATE_ONLY s" "date_fields s = (y, m, d)"
  shows "s = fmt_ymd y m d" "fields_in_range y m d"
proof -
  from assms(1) have len: "length s = 10" and dash: "s ! 4 = CHR ''-''" "s ! 7 = CHR ''-''"
    and dig: "\<forall>c \<in> set (take 4 s). is_digit c" "\<forall>c \<in> set (take 2 (drop 5 s)). is_digit c"
      "\<forall>c \<in> set (drop 8 s). is_digit c"
    by (auto simp: DATE_ONLY_def list_all_iff)
  from len obtain c0 c1 c2 c3 c4 c5 c6 c7 c8 c9 where "s = [c0, c1, c2, c3, c4, c5, c6, c7, c8, c9]"
    by (auto simp: numeral_eq_Suc length_Suc_conv)
  then have "s = take 4 s @ s ! 4 # take 2 (drop 5 s) @ s ! 7 # drop 8 s" by simp
  moreover have "fmt_num 4 y = take 4 s" "fmt_num 2 m = take 2 (drop 5 s)" "fmt_num 2 d = drop 8 s"
    using assms(2) len dig by (auto simp: date_fields_def intro!: fmt_num_inj)
  ultimately show "s = fmt_ymd y m d" using dash by (simp add: fmt_ymd_num)
  show "fields_in_range y m d"
    using assms(2) len read_nat_less [OF dig(1)] read_nat_less [OF dig(2)] read_nat_less [OF dig(3)]
    by (auto simp: date_fields_def fields_in_range_def)
qed

lemma fmt_ymd_less:
  assumes "fields_in_range y m d" "fields_in_range y' m' d'"
  shows "fmt_ymd y m d < fmt_ymd y' m' d' \<longleftrightarrow> y < y' \<or> y = y' \<and> (m < m' \<or> m = m' \<and> d < d')"
proof -
  have num: "fmt_num k i < fmt_num k j \<longleftrightarrow> i < j" "fmt_num k i = fmt_num k j \<longleftrightarrow> i = j"
    "length (fmt_num k i) = length (fmt_num k j)"
    if "0 \<le> i" "i < 10 ^ k" "0 \<le> j" "j < 10 ^ k" "0 < k" for i j :: int and k
  proof -
    note f = fmt_num [OF that(1,2,5)] and g = fmt_num [OF that(3,4,5)]
    from digits_less_iff [OF _ f(2) g(2)] f(1) g(1)
    have "fmt_num k i < fmt_num k j \<longleftrightarrow> int (read_nat (fmt_num k i)) < int (read_nat (fmt_num k j))"
      by simp
    then show "fmt_num k i < fmt_num k j \<longleftrightarrow> i < j" unfolding f(3) g(3) .
    show "fmt_num k i = fmt_num k j \<longleftrightarrow> i = j" using f(3) g(3) by metis
    show "length (fmt_num k i) = length (fmt_num k j)" by (simp only: f(1) g(1))
  qed
  have y: "0 \<le> y" "y < 10 ^ 4" "0 \<le> y'" "y' < 10 ^ 4" and m: "0 \<le> m" "m < 10 ^ 2" "0 \<le> m'" "m' < 10 ^ 2"
    and d: "0 \<le> d" "d < 10 ^ 2" "0 \<le> d'" "d' < 10 ^ 2"
    using assms by (auto simp: fields_in_range_def)
  show ?thesis
    unfolding fmt_ymd_num append_less_iff [OF num(3) [OF y zero_less_numeral]]
      append_less_iff [OF num(3) [OF m zero_less_numeral]] append_Cons append_Nil Cons_less_Cons
      num(1,2) [OF y zero_less_numeral] num(1,2) [OF m zero_less_numeral] num(1,2) [OF d zero_less_numeral]
    by simp
qed

section \<open>Calendar dates\<close>

definition real_date :: "int \<Rightarrow> int \<Rightarrow> int \<Rightarrow> bool" where
  "real_date y m d \<longleftrightarrow> 1 \<le> y \<and> y \<le> 9999 \<and> valid_ymd y m d"

lemma month_start_step:
  assumes "0 \<le> m" "m \<le> 11"
  shows "28 \<le> month_start lp (m + 1) - month_start lp m \<and> month_start lp (m + 1) - month_start lp m \<le> 31
    \<and> month_start lp m + 31 \<le> (if lp then 366 else 365)"
  using assms by (cases rule: month_cases; cases lp; simp add: month_start_def)

lemma real_date_fields: "real_date y m d \<Longrightarrow> fields_in_range y m d \<and> d \<le> 31"
  using month_start_step [of "m - 1" "leap_year y"]
  by (auto simp: real_date_def valid_ymd_def fields_in_range_def days_in_month_def)

lemma day_of_midnight [simp]: "day_of (n * ms_per_day) = n"
  by (simp add: day_of_def ms_per_day_def)

lemma iso_midnight_real:
  assumes "real_date y m d"
  shows "iso_midnight (fmt_ymd y m d) = Some (day_of_ymd y m d * ms_per_day)"
  using assms real_date_fields [OF assms] fmt_ymd_fields [of y m d]
  by (simp add: iso_midnight_def real_date_def valid_ymd_def make_day_valid)

lemma iso_date_part_day:
  assumes "valid_ymd y m d" "day_of t = day_of_ymd y m d"
  shows "iso_date_part t = fmt_ymd y m d"
  using getters_of_ymd [OF assms] by (simp add: iso_date_part_def)

lemma isCalendarDate_iff:
  "isCalendarDate s \<longleftrightarrow> (\<exists>y m d. real_date y m d \<and> s = fmt_ymd y m d)"
proof
  assume "\<exists>y m d. real_date y m d \<and> s = fmt_ymd y m d"
  then obtain y m d where r: "real_date y m d" and s: "s = fmt_ymd y m d" by auto
  have f: "fields_in_range y m d" using real_date_fields [OF r] by simp
  have "int (read_nat (fmt_num 4 y)) = y" "y \<noteq> 0"
    using r fmt_num(3) [of y 4] by (auto simp: real_date_def)
  then have "take 4 s \<noteq> ''0000''"
    using fmt_ymd_fields(3) [OF f] by (auto simp: s read_nat_def digit_val_def)
  with r fmt_ymd_fields [OF f] show "isCalendarDate s"
    by (simp add: isCalendarDate_def s iso_midnight_real [OF r] iso_date_part_day real_date_def)
next
  assume c: "isCalendarDate s"
  obtain y m d where f: "date_fields s = (y, m, d)" by (metis prod.collapse)
  from c have "DATE_ONLY s" by (simp add: isCalendarDate_def)
  from DATE_ONLY_fmt [OF this f] have s: "s = fmt_ymd y m d" and rng: "fields_in_range y m d" by auto
  from c have md: "1 \<le> m" "m \<le> 12" "1 \<le> d" "d \<le> 31"
    and iso: "iso_date_part (make_day y (m - 1) d * ms_per_day) = s"
    by (auto simp: isCalendarDate_def iso_midnight_def f split: if_splits)
  have "y \<noteq> 0"
  proof
    assume "y = 0"
    then have "take 4 s = fmt_num 4 0" using fmt_ymd_fields(3) [OF rng] by (simp add: s)
    also have "\<dots> = ''0000''"
    proof -
      have "show_nat 0 = ''0''" by (subst show_nat.simps) simp
      then show ?thesis by (simp add: fmt_num_def show_int_def pad_start_def numeral_3_eq_3)
    qed
    finally show False using c by (simp add: isCalendarDate_def)
  qed
  let ?n = "day_of_ymd y m d"
  have n: "make_day y (m - 1) d = ?n" using md by (simp add: make_day_valid)
  have "month_start (leap_year y) (m - 1) + 31 \<le> (if leap_year y then 366 else 365)"
    "0 \<le> month_start (leap_year y) (m - 1)"
    using month_start_step [of "m - 1" "leap_year y"] month_start_bounds [of "m - 1" "leap_year y"] md
    by auto
  then have "year_from_day ?n = y"
    using md by (intro year_from_day_unique) (auto simp: day_of_ymd_def day_from_year_step split: if_splits)
  then have y: "getUTCFullYear (?n * ms_per_day) = y" by (simp add: getUTCFullYear_def)
  let ?m = "getUTCMonth (?n * ms_per_day) + 1" and ?d = "getUTCDate (?n * ms_per_day)"
  have v: "valid_ymd y ?m ?d" using ymd_of_day [of "?n * ms_per_day"] y by simp
  then have r: "real_date y ?m ?d" using rng \<open>y \<noteq> 0\<close> by (simp add: real_date_def fields_in_range_def)
  moreover have "s = fmt_ymd y ?m ?d" using iso by (simp add: n iso_date_part_def y)
  ultimately show "\<exists>y m d. real_date y m d \<and> s = fmt_ymd y m d" by blast
qed

lemma utc_date_real: "real_date y m d \<Longrightarrow> utc_date (fmt_ymd y m d) = day_of_ymd y m d * ms_per_day"
  by (simp add: utc_date_def iso_midnight_real)

lemma real_date_less:
  assumes "real_date y m d" "real_date y' m' d'"
  shows "fmt_ymd y m d < fmt_ymd y' m' d' \<longleftrightarrow> day_of_ymd y m d < day_of_ymd y' m' d'"
proof -
  have v: "valid_ymd y m d" "valid_ymd y' m' d'" using assms by (auto simp: real_date_def)
  have iff: "fmt_ymd y m d < fmt_ymd y' m' d' \<longleftrightarrow> y < y' \<or> y = y' \<and> (m < m' \<or> m = m' \<and> d < d')"
    using fmt_ymd_less real_date_fields assms by blast
  show ?thesis
    unfolding iff using day_of_ymd_less [OF v] day_of_ymd_less [OF v(2,1)]
    by (metis order.asym order.irrefl linorder_less_linear)
qed

section \<open>The local day\<close>

lemma local_inverse [simp]: "fromLocalReadable (toLocalReadable t) = t" "toLocalReadable (fromLocalReadable l) = l"
  by (simp_all add: fromLocalReadable_def toLocalReadable_def)

lemma from_local: "fromLocalReadable l = l + 21600000"
  by (simp add: fromLocalReadable_def BUSINESS_TZ_OFFSET_MINUTES_def)

lemma to_local: "toLocalReadable t = t - 21600000"
  by (simp add: toLocalReadable_def BUSINESS_TZ_OFFSET_MINUTES_def)

lemma day_of_bounds: "day_of t * ms_per_day \<le> t \<and> t < (day_of t + 1) * ms_per_day"
proof -
  have "t = day_of t * ms_per_day + t mod ms_per_day" by (simp add: day_of_def)
  moreover have "0 \<le> t mod ms_per_day" "t mod ms_per_day < ms_per_day" by (simp_all add: ms_per_day_def)
  moreover have "(day_of t + 1) * ms_per_day = day_of t * ms_per_day + ms_per_day"
    by (simp add: algebra_simps)
  ultimately show ?thesis by linarith
qed

lemma day_of_unique: "n * ms_per_day \<le> t \<Longrightarrow> t < (n + 1) * ms_per_day \<Longrightarrow> day_of t = n"
  unfolding day_of_def by (rule int_div_pos_eq [where r = "t - n * ms_per_day"]) (auto simp: algebra_simps)

text \<open>Years from 100 on are read by \<open>Date.UTC\<close> as they are.\<close>

lemma date_UTC_day:
  "\<not> (0 \<le> y \<and> y \<le> 99) \<Longrightarrow> date_UTC y m d h mi s ms
     = make_day y m d * ms_per_day + (h * 3600000 + mi * 60000 + s * 1000 + ms)"
  by (auto simp: date_UTC_def)

lemma recent_year:
  assumes "0 \<le> t"
  shows "1969 \<le> getUTCFullYear (toLocalReadable t)"
proof (rule ccontr)
  let ?n = "day_of (toLocalReadable t)"
  have n: "- 1 \<le> ?n" using assms unfolding to_local day_of_def ms_per_day_def by linarith
  assume "\<not> ?thesis"
  then have "year_from_day ?n + 1 \<le> 1969" by (simp add: getUTCFullYear_def)
  then have "day_from_year (year_from_day ?n + 1) \<le> day_from_year 1969" by (rule day_from_year_mono)
  also have "\<dots> = - 365" by (simp add: day_from_year_def)
  finally show False using year_from_day_bracket [of ?n] n by linarith
qed

lemma week_start:
  assumes "0 \<le> t"
  shows "currentWeekRange t =
    (let n = day_of (toLocalReadable t); sunday = n - (n + 4) mod 7
     in (fromLocalReadable (sunday * ms_per_day), fromLocalReadable ((sunday + 7) * ms_per_day - 1)))"
proof -
  let ?l = "toLocalReadable t"
  let ?y = "getUTCFullYear ?l" and ?m = "getUTCMonth ?l" and ?d = "getUTCDate ?l"
  have y: "\<not> (0 \<le> ?y \<and> ?y \<le> 99)" using recent_year [OF assms] by simp
  have "1 \<le> ?m + 1" "?m + 1 \<le> 12" using ymd_of_day [of ?l] by (simp_all add: valid_ymd_def)
  then have md: "make_day ?y ?m (?d - k) = day_of ?l - k" for k
    using make_day_valid [of "?m + 1" ?y "?d - k"] ymd_of_day [of ?l] by (simp add: day_of_ymd_def)
  show ?thesis
    unfolding currentWeekRange_def Let_def date_UTC_day [OF y] md getUTCDay_def
    by (simp add: ms_per_day_def algebra_simps)
qed

lemma week_contains:
  "let n = day_of l; sunday = n - (n + 4) mod 7
   in sunday * ms_per_day \<le> l \<and> l < (sunday + 7) * ms_per_day"
proof -
  let ?n = "day_of l"
  have m: "0 \<le> (?n + 4) mod 7" "(?n + 4) mod 7 < 7" by simp_all
  then have "(?n - (?n + 4) mod 7) * ms_per_day \<le> ?n * ms_per_day"
    "(?n + 1) * ms_per_day \<le> (?n - (?n + 4) mod 7 + 7) * ms_per_day"
    by (simp_all add: ms_per_day_def)
  with day_of_bounds [of l] show ?thesis by (simp only: Let_def) linarith
qed

lemma week_of_sunday:
  assumes "(k + 4) mod 7 = 0" "k * ms_per_day \<le> l" "l < (k + 7) * ms_per_day"
  shows "day_of l - (day_of l + 4) mod 7 = k"
proof -
  have "k * ms_per_day < (day_of l + 1) * ms_per_day" "day_of l * ms_per_day < (k + 7) * ms_per_day"
    using day_of_bounds [of l] assms(2,3) by linarith+
  then have "k \<le> day_of l" "day_of l < k + 7" by (simp_all add: ms_per_day_def)
  then have "(day_of l - k + (k + 4)) mod 7 = (day_of l - k) mod 7"
    using assms(1) by (metis add.right_neutral mod_add_right_eq)
  also have "\<dots> = day_of l - k" using \<open>k \<le> day_of l\<close> \<open>day_of l < k + 7\<close> by simp
  finally show ?thesis by (simp add: algebra_simps)
qed

section \<open>Properties\<close>

text \<open>
  For every instant from the epoch on, the commission week contains the instant, lasts seven
  days less a millisecond, starts on a Sunday at local midnight, and is the week of every other
  instant in it: the weeks partition time, so no sale falls in two weeks or in none.
\<close>

theorem currentWeekRange_partition:
  assumes "0 \<le> t" "currentWeekRange t = (wfrom, wto)"
  shows "wfrom \<le> t \<and> t \<le> wto
    \<and> wto - wfrom = 7 * 86400000 - 1
    \<and> getUTCDay (toLocalReadable wfrom) = 0 \<and> time_in_day (toLocalReadable wfrom) = 0
    \<and> (\<forall>u. 0 \<le> u \<and> wfrom \<le> u \<and> u \<le> wto \<longrightarrow> currentWeekRange u = (wfrom, wto))"
proof -
  define k where "k = day_of (toLocalReadable t) - (day_of (toLocalReadable t) + 4) mod 7"
  have r: "wfrom = fromLocalReadable (k * ms_per_day)" "wto = fromLocalReadable ((k + 7) * ms_per_day - 1)"
    using assms week_start [OF assms(1)] by (simp_all add: Let_def k_def)
  have k: "(k + 4) mod 7 = 0" unfolding k_def by (simp add: algebra_simps mod_diff_right_eq)
  have ct: "k * ms_per_day \<le> toLocalReadable t" "toLocalReadable t < (k + 7) * ms_per_day"
    using week_contains [of "toLocalReadable t"] by (simp_all add: Let_def k_def)
  have "currentWeekRange u = (wfrom, wto)" if u: "0 \<le> u" "wfrom \<le> u" "u \<le> wto" for u
  proof -
    have "day_of (toLocalReadable u) - (day_of (toLocalReadable u) + 4) mod 7 = k"
      by (rule week_of_sunday [OF k]) (use u in \<open>auto simp: r from_local to_local\<close>)
    then show ?thesis using week_start [OF u(1)] by (simp add: Let_def r)
  qed
  moreover have "getUTCDay (k * ms_per_day) = 0" using k by (simp add: getUTCDay_def)
  ultimately show ?thesis using ct
    by (auto simp: r time_in_day_def) (auto simp: from_local to_local ms_per_day_def)
qed

theorem currentWeekRange_partition_witness:
  "currentWeekRange 1760000000000 = (1759644000000, 1760248799999)
   \<and> currentWeekRange 1759644000000 = (1759644000000, 1760248799999)"
proof -
  have w: "currentWeekRange 1760000000000 = (1759644000000, 1760248799999)" by code_simp
  from currentWeekRange_partition [OF _ w] show ?thesis using w by simp
qed

text \<open>
  A string is accepted as a calendar date exactly when it is the \<open>YYYY-MM-DD\<close> form of a real
  date of the years 1 to 9999 (the 29th of February in leap years only), and on accepted strings the
  comparison of two dates as strings, which the period checks use, agrees with the order of the
  instants at which the business days start, the years 1 to 99 included.
\<close>

theorem isCalendarDate_sound_complete_ordered:
  "(isCalendarDate s \<longleftrightarrow> (\<exists>y m d. 1 \<le> y \<and> y \<le> 9999 \<and> valid_ymd y m d \<and> s = fmt_ymd y m d))
   \<and> (isCalendarDate s \<and> isCalendarDate s' \<longrightarrow>
        (s < s' \<longleftrightarrow> businessStart s < businessStart s') \<and> (s < s' \<longleftrightarrow> utc_date s < utc_date s'))"
proof -
  have bs: "businessStart (fmt_ymd y m d) = day_of_ymd y m d * ms_per_day + 21600000"
    if r: "real_date y m d" for y m d
  proof -
    note f = fmt_ymd_fields [of y m d]
    have rng: "fields_in_range y m d" using real_date_fields [OF r] by simp
    have md: "1 \<le> m" "m \<le> 12" "1 \<le> d" "d \<le> days_in_month y m" "1 \<le> y" "y \<le> 9999"
      using r by (auto simp: real_date_def valid_ymd_def)
    define Y where "Y = (if 0 \<le> y \<and> y \<le> 99 then 1900 + y else y)"
    have "leap_year Y = leap_year y"
    proof (cases "y \<le> 99")
      case True
      then have Y: "Y = y + 475 * 4" "Y = y + 19 * 100" using md(5) by (simp_all add: Y_def)
      have "Y mod 4 = y mod 4" unfolding Y(1) by (rule mod_mult_self1)
      moreover have "Y mod 100 = y mod 100" unfolding Y(2) by (rule mod_mult_self1)
      moreover have "y mod 100 = y" using True md(5) by (intro mod_pos_pos_trivial) auto
      ultimately show ?thesis using md(5) by (simp add: leap_year_def)
    qed (simp add: Y_def)
    then have v: "valid_ymd Y m d" using md by (simp add: valid_ymd_def days_in_month_def)
    have start: "parseRangeBoundary (\<lambda>_. None) (fmt_ymd y m d) StartOfDay
        = Inr (day_of_ymd Y m d * ms_per_day + 21600000)"
    proof -
      have "date_UTC y (m - 1) d 0 0 0 0 = day_of_ymd Y m d * ms_per_day"
        unfolding date_UTC_def Y_def [symmetric] by (simp add: make_day_valid [OF md(1,2)])
      with f [OF rng] show ?thesis by (simp add: parseRangeBoundary_def from_local)
    qed
    let ?t = "day_of_ymd Y m d * ms_per_day + 21600000"
    have "day_of ?t = day_of_ymd Y m d" by (rule day_of_add) (simp_all add: ms_per_day_def)
    moreover have "time_in_day ?t = 21600000" by (simp add: time_in_day_def ms_per_day_def)
    moreover note getters_of_ymd [OF v]
    ultimately have "setUTCFullYear ?t y = day_of_ymd y m d * ms_per_day + 21600000"
      using md by (simp add: setUTCFullYear_def make_day_valid)
    moreover have "int (read_nat (take 4 (fmt_ymd y m d))) = y"
      using f(3) [OF rng] fmt_num(3) [of y 4] md by simp
    ultimately show ?thesis by (simp add: businessStart_def start)
  qed
  have "(s < s' \<longleftrightarrow> businessStart s < businessStart s') \<and> (s < s' \<longleftrightarrow> utc_date s < utc_date s')"
    if "isCalendarDate s" "isCalendarDate s'"
  proof -
    from that obtain y m d y' m' d' where r: "real_date y m d" "real_date y' m' d'"
      and eq: "s = fmt_ymd y m d" "s' = fmt_ymd y' m' d'" unfolding isCalendarDate_iff by blast
    show ?thesis
      unfolding eq real_date_less [OF r] bs [OF r(1)] bs [OF r(2)] utc_date_real [OF r(1)] utc_date_real [OF r(2)]
      by (simp add: ms_per_day_def)
  qed
  then show ?thesis unfolding isCalendarDate_iff by (auto simp: real_date_def)
qed

theorem isCalendarDate_sound_complete_ordered_witness:
  "isCalendarDate ''2024-02-29'' \<and> isCalendarDate ''2024-03-01'' \<and> \<not> isCalendarDate ''2023-02-29''
   \<and> businessStart ''2024-02-29'' < businessStart ''2024-03-01''"
proof -
  have c: "isCalendarDate ''2024-02-29''" "isCalendarDate ''2024-03-01''" "\<not> isCalendarDate ''2023-02-29''"
    by code_simp+
  moreover have "''2024-02-29'' < ''2024-03-01''" by code_simp
  ultimately show ?thesis
    using isCalendarDate_sound_complete_ordered [of "''2024-02-29''" "''2024-03-01''"] by blast
qed

text \<open>The boundaries of the business day an instant is printed as.\<close>

lemma businessDate_boundaries:
  assumes "0 \<le> t" "getUTCFullYear (toLocalReadable t) \<le> 9999"
  shows "parseRangeBoundary parse (currentBusinessDate t) StartOfDay
        = Inr (fromLocalReadable (day_of (toLocalReadable t) * ms_per_day))"
      "parseRangeBoundary parse (currentBusinessDate t) EndOfDay
        = Inr (fromLocalReadable (day_of (toLocalReadable t) * ms_per_day + 86399999))"
proof -
  let ?l = "toLocalReadable t"
  let ?y = "getUTCFullYear ?l" and ?m = "getUTCMonth ?l + 1" and ?d = "getUTCDate ?l"
  have y: "1969 \<le> ?y" by (rule recent_year [OF assms(1)])
  have v: "valid_ymd ?y ?m ?d" and n: "day_of_ymd ?y ?m ?d = day_of ?l" using ymd_of_day [of ?l] by auto
  have r: "real_date ?y ?m ?d" using v y assms(2) by (simp add: real_date_def)
  have rng: "fields_in_range ?y ?m ?d" using real_date_fields [OF r] by simp
  have big: "pad_start 4 CHR ''0'' (show_int ?y) = show_int ?y"
  proof -
    have "1000 \<le> nat ?y" using y by simp
    then have "\<not> nat ?y < 10 ^ 3" by simp
    have "4 \<le> length (show_nat (nat ?y))"
    proof (rule ccontr)
      assume "\<not> ?thesis"
      then have "length (show_nat (nat ?y)) \<le> 3" by simp
      moreover have "nat ?y < 10 ^ length (show_nat (nat ?y))"
        using read_nat_less [of "show_nat (nat ?y)"] by (simp add: show_nat_digits)
      moreover have "(10::nat) ^ length (show_nat (nat ?y)) \<le> 10 ^ 3"
        using calculation(1) by (intro power_increasing) auto
      ultimately show False using \<open>\<not> nat ?y < 10 ^ 3\<close> by (meson order.strict_trans2)
    qed
    then show ?thesis using y by (simp add: pad_start_def show_int_nonneg)
  qed
  have date: "currentBusinessDate t = fmt_ymd ?y ?m ?d"
    unfolding currentBusinessDate_def Let_def fmt_ymd_def big by simp
  have md: "1 \<le> ?m" "?m \<le> 12" using v by (auto simp: valid_ymd_def)
  have mk: "make_day ?y (getUTCMonth ?l) ?d = day_of ?l"
    using make_day_valid [OF md, of ?y ?d] n by simp
  have nc: "\<not> (0 \<le> ?y \<and> ?y \<le> 99)" using y by simp
  show "parseRangeBoundary parse (currentBusinessDate t) StartOfDay = Inr (fromLocalReadable (day_of ?l * ms_per_day))"
      "parseRangeBoundary parse (currentBusinessDate t) EndOfDay = Inr (fromLocalReadable (day_of ?l * ms_per_day + 86399999))"
    using fmt_ymd_fields [OF rng] by (simp_all add: parseRangeBoundary_def date date_UTC_day [OF nc] mk)
qed

text \<open>
  The business date of an instant of the years 1970 to 9999, fed back as both boundaries of a
  range, gives an interval of one day less a millisecond that contains the instant, and every
  instant of that interval has the same business date.
\<close>

theorem businessDate_range_roundtrip:
  assumes "0 \<le> t" "getUTCFullYear (toLocalReadable t) \<le> 9999"
  shows "\<exists>dfrom dto. parseRangeBoundary parse (currentBusinessDate t) StartOfDay = Inr dfrom
    \<and> parseRangeBoundary parse (currentBusinessDate t) EndOfDay = Inr dto
    \<and> dfrom \<le> t \<and> t \<le> dto \<and> dto - dfrom = 86399999
    \<and> (\<forall>u. dfrom \<le> u \<and> u \<le> dto \<longrightarrow> currentBusinessDate u = currentBusinessDate t)"
proof -
  let ?l = "toLocalReadable t"
  note p = businessDate_boundaries [OF assms]
  have same: "currentBusinessDate u = currentBusinessDate t" if "day_of (toLocalReadable u) = day_of ?l" for u
    using that by (simp add: currentBusinessDate_def getUTCFullYear_def getUTCMonth_def getUTCDate_def Let_def)
  have "day_of (toLocalReadable u) = day_of ?l"
    if "fromLocalReadable (day_of ?l * ms_per_day) \<le> u" "u \<le> fromLocalReadable (day_of ?l * ms_per_day + 86399999)" for u
    using that by (intro day_of_unique) (auto simp: from_local to_local ms_per_day_def algebra_simps)
  moreover have "fromLocalReadable (day_of ?l * ms_per_day) \<le> t"
      "t \<le> fromLocalReadable (day_of ?l * ms_per_day + 86399999)"
    using day_of_bounds [of ?l] by (auto simp: from_local to_local ms_per_day_def algebra_simps)
  moreover have "fromLocalReadable (day_of ?l * ms_per_day + 86399999)
      - fromLocalReadable (day_of ?l * ms_per_day) = 86399999" by (simp add: from_local)
  ultimately show ?thesis unfolding p using same by blast
qed

theorem businessDate_range_roundtrip_witness:
  "currentBusinessDate 1760000000000 = ''2025-10-09''
   \<and> (\<exists>dfrom dto. parseRangeBoundary (\<lambda>_. None) ''2025-10-09'' StartOfDay = Inr dfrom
        \<and> parseRangeBoundary (\<lambda>_. None) ''2025-10-09'' EndOfDay = Inr dto
        \<and> dfrom \<le> 1760000000000 \<and> 1760000000000 \<le> dto)"
proof -
  have d: "currentBusinessDate 1760000000000 = ''2025-10-09''" by code_simp
  have y: "getUTCFullYear (toLocalReadable 1760000000000) \<le> 9999" by code_simp
  from businessDate_range_roundtrip [OF _ y, of "\<lambda>_. None"] show ?thesis unfolding d by auto
qed

end
