(* ===== verification/Money.thy ===== *)
theory Money
  imports Prelude
begin

text \<open>
  Money (\<open>src/common/money.ts\<close>, \<open>src/common/profit-totals.ts\<close>) and the payment method of a sale
  or an abono (\<open>src/common/payment-method.ts\<close>). Amounts are integer cents; the arithmetic is done
  by the package dinero.js, which is a parameter \<open>D\<close> here: a record of the functions the code
  calls, with the documented behaviour the code relies on as the predicate \<open>dinero_laws\<close>.
\<close>

named_theorems money \<open>results of the money helpers under the laws of dinero.js\<close>

section \<open>The interface of dinero.js\<close>

record currency =
  cur_code :: string
  cur_base :: int
  cur_exponent :: int

record snapshot =
  snap_amount :: int
  snap_currency :: currency
  snap_scale :: int

definition MXN :: currency where
  "MXN = \<lparr>cur_code = ''MXN'', cur_base = 10, cur_exponent = 2\<rparr>"

record 'd dinero_lib =
  dinero :: "int \<Rightarrow> currency \<Rightarrow> 'd"
  toSnapshot :: "'d \<Rightarrow> snapshot"
  add :: "'d \<Rightarrow> 'd \<Rightarrow> 'd"
  subtract :: "'d \<Rightarrow> 'd \<Rightarrow> 'd"
  multiply :: "'d \<Rightarrow> int \<Rightarrow> 'd"
  multiplyScaled :: "'d \<Rightarrow> int \<Rightarrow> int \<Rightarrow> 'd"
  transformScaleHalfUp :: "'d \<Rightarrow> int \<Rightarrow> 'd"

text \<open>JavaScript numbers are exact up to \<open>Number.MAX_SAFE_INTEGER\<close>.\<close>

definition MAX_SAFE_INTEGER :: int where
  "MAX_SAFE_INTEGER = 9007199254740991"

definition safe_int :: "int \<Rightarrow> bool" where
  "safe_int a \<longleftrightarrow> \<bar>a\<bar> \<le> MAX_SAFE_INTEGER"

definition half_up :: "int \<Rightarrow> int \<Rightarrow> int" where
  "half_up a n = (2 * a + n) div (2 * n)"

text \<open>
  A new object has the given amount at the exponent of its currency; addition and subtraction of
  amounts of one currency and scale and multiplication by an integer keep both and are exact while
  the result is a safe integer; multiplying by a scaled factor adds the scales; and lowering the
  scale of a non-negative amount with \<open>halfUp\<close> rounds to the nearest, halves up.
\<close>

definition dinero_laws :: "'d dinero_lib \<Rightarrow> bool" where
  "dinero_laws D \<longleftrightarrow>
     (\<forall>a c. safe_int a \<longrightarrow>
        toSnapshot D (dinero D a c) = \<lparr>snap_amount = a, snap_currency = c, snap_scale = cur_exponent c\<rparr>)
   \<and> (\<forall>x y a b c s. toSnapshot D x = \<lparr>snap_amount = a, snap_currency = c, snap_scale = s\<rparr>
        \<longrightarrow> toSnapshot D y = \<lparr>snap_amount = b, snap_currency = c, snap_scale = s\<rparr>
        \<longrightarrow> (safe_int (a + b)
              \<longrightarrow> toSnapshot D (add D x y) = \<lparr>snap_amount = a + b, snap_currency = c, snap_scale = s\<rparr>)
          \<and> (safe_int (a - b)
              \<longrightarrow> toSnapshot D (subtract D x y) = \<lparr>snap_amount = a - b, snap_currency = c, snap_scale = s\<rparr>))
   \<and> (\<forall>x a c s n. toSnapshot D x = \<lparr>snap_amount = a, snap_currency = c, snap_scale = s\<rparr>
        \<longrightarrow> safe_int (a * n)
        \<longrightarrow> toSnapshot D (multiply D x n) = \<lparr>snap_amount = a * n, snap_currency = c, snap_scale = s\<rparr>
          \<and> (\<forall>t. toSnapshot D (multiplyScaled D x n t)
                  = \<lparr>snap_amount = a * n, snap_currency = c, snap_scale = s + t\<rparr>))
   \<and> (\<forall>x a c s t. toSnapshot D x = \<lparr>snap_amount = a, snap_currency = c, snap_scale = s\<rparr>
        \<longrightarrow> safe_int a \<longrightarrow> 0 \<le> a \<longrightarrow> cur_base c = 10 \<longrightarrow> 0 \<le> t \<longrightarrow> t \<le> s
        \<longrightarrow> toSnapshot D (transformScaleHalfUp D x t)
            = \<lparr>snap_amount = half_up a (10 ^ nat (s - t)), snap_currency = c, snap_scale = t\<rparr>)"

text \<open>An exact implementation of the interface, which shows that the laws can hold.\<close>

definition exact_dinero :: "snapshot dinero_lib" where
  "exact_dinero = \<lparr>
     dinero = (\<lambda>a c. \<lparr>snap_amount = a, snap_currency = c, snap_scale = cur_exponent c\<rparr>),
     toSnapshot = (\<lambda>x. x),
     add = (\<lambda>x y. x\<lparr>snap_amount := snap_amount x + snap_amount y\<rparr>),
     subtract = (\<lambda>x y. x\<lparr>snap_amount := snap_amount x - snap_amount y\<rparr>),
     multiply = (\<lambda>x n. x\<lparr>snap_amount := snap_amount x * n\<rparr>),
     multiplyScaled = (\<lambda>x n t. x\<lparr>snap_amount := snap_amount x * n, snap_scale := snap_scale x + t\<rparr>),
     transformScaleHalfUp = (\<lambda>x t. x\<lparr>snap_amount := half_up (snap_amount x) (10 ^ nat (snap_scale x - t)),
                                     snap_scale := t\<rparr>)\<rparr>"

lemma exact_dinero_laws [simp]: "dinero_laws exact_dinero"
  by (auto simp: dinero_laws_def exact_dinero_def)

section \<open>Cents\<close>

definition MAX_MINOR_UNITS :: int where
  "MAX_MINOR_UNITS = 2147483647"

definition assertMinorUnits :: "int \<Rightarrow> unit result" where
  "assertMinorUnits amount =
     (if amount < -2147483648 \<or> amount > MAX_MINOR_UNITS
      then Inl (RangeErr ''Amount must be integer cents within the PostgreSQL Int range'')
      else Inr ())"

definition toDinero :: "'d dinero_lib \<Rightarrow> int \<Rightarrow> 'd result" where
  "toDinero D amount =
     (case assertMinorUnits amount of Inl e \<Rightarrow> Inl e | Inr _ \<Rightarrow> Inr (dinero D amount MXN))"

definition toMinorUnits :: "'d dinero_lib \<Rightarrow> 'd \<Rightarrow> int result" where
  "toMinorUnits D value =
     (let s = toSnapshot D value; currency = snap_currency s in
      if cur_code currency \<noteq> cur_code MXN \<or> cur_base currency \<noteq> 10 \<or> cur_exponent currency \<noteq> 2
         \<or> snap_scale s \<noteq> 2
      then Inl (RangeErr ''Expected MXN with a scale of exactly two; implicit rounding is forbidden'')
      else case assertMinorUnits (snap_amount s) of Inl e \<Rightarrow> Inl e | Inr _ \<Rightarrow> Inr (snap_amount s))"

definition int4 :: "int \<Rightarrow> bool" where
  "int4 a \<longleftrightarrow> -2147483648 \<le> a \<and> a \<le> MAX_MINOR_UNITS"

text \<open>\<open>d\<close> stands for \<open>a\<close> cents.\<close>

definition cents :: "'d dinero_lib \<Rightarrow> 'd \<Rightarrow> int \<Rightarrow> bool" where
  "cents D d a \<longleftrightarrow> toSnapshot D d = \<lparr>snap_amount = a, snap_currency = MXN, snap_scale = 2\<rparr>"

lemma assertMinorUnits_int4:
  "assertMinorUnits a =
     (if int4 a then Inr () else Inl (RangeErr ''Amount must be integer cents within the PostgreSQL Int range''))"
  by (auto simp: assertMinorUnits_def int4_def)

lemma int4_safe: "int4 a \<Longrightarrow> safe_int a"
  by (auto simp: int4_def safe_int_def MAX_SAFE_INTEGER_def MAX_MINOR_UNITS_def)

lemma int4_safe2: "int4 a \<Longrightarrow> int4 b \<Longrightarrow> safe_int (a + b)" "int4 a \<Longrightarrow> int4 b \<Longrightarrow> safe_int (a - b)"
  unfolding int4_def safe_int_def MAX_SAFE_INTEGER_def MAX_MINOR_UNITS_def by linarith+

lemma toDinero_ok:
  assumes "dinero_laws D" "int4 a"
  obtains d where "toDinero D a = Inr d" "cents D d a"
proof -
  have "toSnapshot D (dinero D a MXN) = \<lparr>snap_amount = a, snap_currency = MXN, snap_scale = cur_exponent MXN\<rparr>"
    using assms by (simp add: dinero_laws_def int4_safe)
  then show ?thesis
    using assms by (intro that) (simp_all add: toDinero_def assertMinorUnits_int4 cents_def MXN_def)
qed

lemma toDinero_error: "\<not> int4 a \<Longrightarrow>
    toDinero D a = Inl (RangeErr ''Amount must be integer cents within the PostgreSQL Int range'')"
  by (simp add: toDinero_def assertMinorUnits_int4)

lemma toDinero_int4: "toDinero D a = Inr d \<Longrightarrow> int4 a"
  by (auto simp: toDinero_def assertMinorUnits_int4 split: if_splits)

lemma toDinero_cents: "dinero_laws D \<Longrightarrow> toDinero D a = Inr d \<Longrightarrow> cents D d a"
  using toDinero_int4 toDinero_ok by (metis sum.inject(2))

lemma toMinorUnits_cents:
  "cents D d a \<Longrightarrow> toMinorUnits D d =
     (if int4 a then Inr a else Inl (RangeErr ''Amount must be integer cents within the PostgreSQL Int range''))"
  by (simp add: cents_def toMinorUnits_def MXN_def assertMinorUnits_int4)

lemma add_cents:
  "dinero_laws D \<Longrightarrow> cents D x a \<Longrightarrow> cents D y b \<Longrightarrow> safe_int (a + b) \<Longrightarrow> cents D (add D x y) (a + b)"
  unfolding dinero_laws_def cents_def by blast

lemma subtract_cents:
  "dinero_laws D \<Longrightarrow> cents D x a \<Longrightarrow> cents D y b \<Longrightarrow> safe_int (a - b) \<Longrightarrow> cents D (subtract D x y) (a - b)"
  unfolding dinero_laws_def cents_def by blast

lemma multiply_cents:
  "dinero_laws D \<Longrightarrow> cents D x a \<Longrightarrow> safe_int (a * n) \<Longrightarrow> cents D (multiply D x n) (a * n)"
  unfolding dinero_laws_def cents_def by blast

text \<open>\<open>toMinorUnits(subtract(toDinero(a), toDinero(b)))\<close> and the same with \<open>add\<close> and \<open>multiply\<close>.\<close>

definition minor_difference :: "'d dinero_lib \<Rightarrow> int \<Rightarrow> int \<Rightarrow> int result" where
  "minor_difference D a b =
     (case toDinero D a of Inl e \<Rightarrow> Inl e
      | Inr x \<Rightarrow> (case toDinero D b of Inl e \<Rightarrow> Inl e
                  | Inr y \<Rightarrow> toMinorUnits D (subtract D x y)))"

definition minor_sum :: "'d dinero_lib \<Rightarrow> int \<Rightarrow> int \<Rightarrow> int result" where
  "minor_sum D a b =
     (case toDinero D a of Inl e \<Rightarrow> Inl e
      | Inr x \<Rightarrow> (case toDinero D b of Inl e \<Rightarrow> Inl e
                  | Inr y \<Rightarrow> toMinorUnits D (add D x y)))"

definition minor_product :: "'d dinero_lib \<Rightarrow> int \<Rightarrow> int \<Rightarrow> int result" where
  "minor_product D a n =
     (case toDinero D a of Inl e \<Rightarrow> Inl e
      | Inr x \<Rightarrow> toMinorUnits D (multiply D x n))"

lemma minor_difference_eq [money]:
  assumes "dinero_laws D" "int4 a" "int4 b"
  shows "minor_difference D a b = (if int4 (a - b) then Inr (a - b)
    else Inl (RangeErr ''Amount must be integer cents within the PostgreSQL Int range''))"
proof -
  obtain x y where "toDinero D a = Inr x" "cents D x a" "toDinero D b = Inr y" "cents D y b"
    using assms toDinero_ok by metis
  moreover have "safe_int (a - b)" using assms(2,3) by (rule int4_safe2(2))
  ultimately show ?thesis
    using assms(1) by (simp add: minor_difference_def toMinorUnits_cents [OF subtract_cents])
qed

lemma minor_sum_eq [money]:
  assumes "dinero_laws D" "int4 a" "int4 b"
  shows "minor_sum D a b = (if int4 (a + b) then Inr (a + b)
    else Inl (RangeErr ''Amount must be integer cents within the PostgreSQL Int range''))"
proof -
  obtain x y where "toDinero D a = Inr x" "cents D x a" "toDinero D b = Inr y" "cents D y b"
    using assms toDinero_ok by metis
  moreover have "safe_int (a + b)" using assms(2,3) by (rule int4_safe2(1))
  ultimately show ?thesis
    using assms(1) by (simp add: minor_sum_def toMinorUnits_cents [OF add_cents])
qed

lemma minor_product_eq [money]:
  assumes "dinero_laws D" "int4 a" "safe_int (a * n)"
  shows "minor_product D a n = (if int4 (a * n) then Inr (a * n)
    else Inl (RangeErr ''Amount must be integer cents within the PostgreSQL Int range''))"
proof -
  obtain x where "toDinero D a = Inr x" "cents D x a" using assms toDinero_ok by metis
  with assms show ?thesis by (simp add: minor_product_def toMinorUnits_cents [OF multiply_cents])
qed

lemma minor_product_safe:
  assumes "int4 a" "0 \<le> n" "n \<le> 100000"
  shows "safe_int (a * n)"
proof -
  have "\<bar>a\<bar> \<le> 2147483648" using assms(1) by (auto simp: int4_def MAX_MINOR_UNITS_def)
  then have "\<bar>a\<bar> * n \<le> 2147483648 * 100000" using assms by (intro mult_mono) auto
  then show ?thesis using assms(2) by (simp add: safe_int_def abs_mult MAX_SAFE_INTEGER_def)
qed

lemma minor_difference_Inr:
  assumes "dinero_laws D" "minor_difference D a b = Inr r"
  shows "r = a - b \<and> int4 a \<and> int4 b"
proof -
  have "int4 a \<and> int4 b" using assms(2) by (auto simp: minor_difference_def split: sum.splits dest: toDinero_int4)
  with minor_difference_eq [OF assms(1), of a b] assms(2) show ?thesis by (auto split: if_splits)
qed

lemma minor_sum_Inr:
  assumes "dinero_laws D" "minor_sum D a b = Inr r"
  shows "r = a + b"
proof -
  have "int4 a \<and> int4 b" using assms(2) by (auto simp: minor_sum_def split: sum.splits dest: toDinero_int4)
  with minor_sum_eq [OF assms(1), of a b] assms(2) show ?thesis by (auto split: if_splits)
qed

text \<open>Rounding half up: at most half a unit away, and between the bounds of the exact quotient.\<close>

lemma half_up_bounds:
  fixes t u :: int
  assumes "0 < u"
  defines "c \<equiv> (2 * t + u) div (2 * u)"
  shows "(2 * c - 1) * u \<le> 2 * t" "2 * t < (2 * c + 1) * u"
proof -
  have "2 * u * c + (2 * t + u) mod (2 * u) = 2 * t + u" unfolding c_def by (rule mult_div_mod_eq)
  moreover have "0 \<le> (2 * t + u) mod (2 * u)" "(2 * t + u) mod (2 * u) < 2 * u" using assms(1) by simp_all
  ultimately have "2 * u * c \<le> 2 * t + u" "2 * t + u < 2 * u * c + 2 * u" by linarith+
  then show "(2 * c - 1) * u \<le> 2 * t" "2 * t < (2 * c + 1) * u" by (simp_all add: algebra_simps)
qed

lemma half_up_between:
  fixes t u l h :: int
  assumes "0 < u" "l * u \<le> t" "t \<le> h * u"
  shows "l \<le> (2 * t + u) div (2 * u)" "(2 * t + u) div (2 * u) \<le> h"
proof -
  note b = half_up_bounds [OF assms(1), of t]
  let ?c = "(2 * t + u) div (2 * u)"
  have "(2 * l) * u < (2 * ?c + 1) * u" using assms(2) b(2) by (simp add: algebra_simps)
  then have "2 * l < 2 * ?c + 1" using assms(1) by (simp only: mult_less_cancel_right)
  then show "l \<le> ?c" by simp
  have "(2 * ?c - 1) * u \<le> (2 * h) * u" using assms(3) b(1) by (simp add: algebra_simps)
  then have "2 * ?c - 1 \<le> 2 * h" using assms(1) by (simp only: mult_le_cancel_right)
  then show "?c \<le> h" by simp
qed

section \<open>Period totals\<close>

record profit_line =
  pl_subtotal :: int
  pl_quantity :: int
  pl_unitCost :: "int option"

record profit_totals =
  ingresoMinor :: int
  gananciaMinor :: int
  lineasSinCosto :: int

text \<open>The loop of \<open>computeProfitTotals\<close>: the running \<open>ingreso\<close>, \<open>ganancia\<close> and \<open>lineasSinCosto\<close>.\<close>

fun profit_loop :: "'d dinero_lib \<Rightarrow> profit_line list \<Rightarrow> 'd \<Rightarrow> 'd \<Rightarrow> int \<Rightarrow> ('d \<times> 'd \<times> int) result" where
  "profit_loop D [] ingreso ganancia sinCosto = Inr (ingreso, ganancia, sinCosto)"
| "profit_loop D (item # items) ingreso ganancia sinCosto =
     (case toDinero D (pl_subtotal item) of Inl e \<Rightarrow> Inl e
      | Inr subtotal \<Rightarrow>
        (case pl_unitCost item of
           None \<Rightarrow> profit_loop D items (add D ingreso subtotal) ganancia (sinCosto + 1)
         | Some cost \<Rightarrow>
           (case toDinero D cost of Inl e \<Rightarrow> Inl e
            | Inr unit \<Rightarrow>
                profit_loop D items (add D ingreso subtotal)
                  (add D ganancia (subtract D subtotal (multiply D unit (pl_quantity item)))) sinCosto)))"

definition computeProfitTotals :: "'d dinero_lib \<Rightarrow> profit_line list \<Rightarrow> profit_totals result" where
  "computeProfitTotals D items =
     (case toDinero D 0 of Inl e \<Rightarrow> Inl e
      | Inr zero \<Rightarrow>
        (case profit_loop D items zero zero 0 of Inl e \<Rightarrow> Inl e
         | Inr (ingreso, ganancia, sinCosto) \<Rightarrow>
           (case toMinorUnits D ingreso of Inl e \<Rightarrow> Inl e
            | Inr i \<Rightarrow>
              (case toMinorUnits D ganancia of Inl e \<Rightarrow> Inl e
               | Inr g \<Rightarrow> Inr \<lparr>ingresoMinor = i, gananciaMinor = g, lineasSinCosto = sinCosto\<rparr>))))"

section \<open>Payment methods\<close>

datatype payment_method = EFECTIVO | TRANSFERENCIA | TARJETA

definition DEFAULT_PAYMENT_METHOD :: payment_method where
  "DEFAULT_PAYMENT_METHOD = EFECTIVO"

text \<open>An absent and a null method are the same \<open>None\<close>.\<close>

definition resolvePaymentMethod :: "payment_method option \<Rightarrow> payment_method" where
  "resolvePaymentMethod m = (case m of None \<Rightarrow> DEFAULT_PAYMENT_METHOD | Some p \<Rightarrow> p)"

definition isCashPayment :: "payment_method option \<Rightarrow> bool" where
  "isCashPayment m \<longleftrightarrow> resolvePaymentMethod m = EFECTIVO"

fun show_method :: "payment_method \<Rightarrow> string" where
  "show_method EFECTIVO = ''EFECTIVO''"
| "show_method TRANSFERENCIA = ''TRANSFERENCIA''"
| "show_method TARJETA = ''TARJETA''"

lemma isCashPayment_simps [simp]:
  "isCashPayment None" "isCashPayment (Some EFECTIVO)"
  "\<not> isCashPayment (Some TRANSFERENCIA)" "\<not> isCashPayment (Some TARJETA)"
  by (simp_all add: isCashPayment_def resolvePaymentMethod_def DEFAULT_PAYMENT_METHOD_def)

section \<open>The profit totals are exact\<close>

definition line_profit :: "profit_line \<Rightarrow> int" where
  "line_profit l = (case pl_unitCost l of None \<Rightarrow> 0 | Some c \<Rightarrow> pl_subtotal l - c * pl_quantity l)"

text \<open>What a line can add to a running amount, in absolute value.\<close>

definition line_size :: "profit_line \<Rightarrow> int" where
  "line_size l = \<bar>pl_subtotal l\<bar> + (case pl_unitCost l of None \<Rightarrow> 0 | Some c \<Rightarrow> \<bar>c * pl_quantity l\<bar>)"

definition line_ok :: "profit_line \<Rightarrow> bool" where
  "line_ok l \<longleftrightarrow> int4 (pl_subtotal l) \<and> (case pl_unitCost l of None \<Rightarrow> True | Some c \<Rightarrow> int4 c)"

lemma line_sizes: "\<bar>pl_subtotal l\<bar> \<le> line_size l" "\<bar>line_profit l\<bar> \<le> line_size l" "0 \<le> line_size l"
  by (auto simp: line_size_def line_profit_def split: option.splits)

lemma profit_loop_exact:
  assumes "dinero_laws D" "\<forall>l \<in> set items. line_ok l" "cents D ing a" "cents D gan b"
    and "\<bar>a\<bar> + sum_list (map line_size items) \<le> MAX_SAFE_INTEGER"
    and "\<bar>b\<bar> + sum_list (map line_size items) \<le> MAX_SAFE_INTEGER"
  shows "\<exists>ing' gan'. profit_loop D items ing gan k
           = Inr (ing', gan', k + int (length (filter (\<lambda>l. pl_unitCost l = None) items)))
       \<and> cents D ing' (a + sum_list (map pl_subtotal items))
       \<and> cents D gan' (b + sum_list (map line_profit items))"
  using assms
proof (induction items arbitrary: ing gan a b k)
  case (Cons l items)
  let ?S = "sum_list (map line_size items)"
  have nonneg: "0 \<le> ?S" by (intro sum_list_int_nonneg) (rule line_sizes)
  have ok: "int4 (pl_subtotal l)" using Cons.prems by (simp add: line_ok_def)
  obtain s where s: "toDinero D (pl_subtotal l) = Inr s" "cents D s (pl_subtotal l)"
    using toDinero_ok [OF Cons.prems(1) ok] by metis
  have ing: "cents D (add D ing s) (a + pl_subtotal l)"
    using Cons.prems s nonneg line_sizes [of l] by (intro add_cents) (auto simp: safe_int_def)
  have bound_a: "\<bar>a + pl_subtotal l\<bar> + ?S \<le> MAX_SAFE_INTEGER"
    using Cons.prems(5) line_sizes [of l] by simp
  show ?case
  proof (cases "pl_unitCost l")
    case None
    have "\<bar>b\<bar> + ?S \<le> MAX_SAFE_INTEGER" using Cons.prems(6) line_sizes [of l] by simp
    from Cons.IH [OF Cons.prems(1) _ ing Cons.prems(4) bound_a this, of "k + 1"] Cons.prems(2) None s
    show ?thesis by (force simp: line_profit_def algebra_simps)
  next
    case (Some c)
    have c4: "int4 c" using Cons.prems Some by (simp add: line_ok_def)
    obtain u where u: "toDinero D c = Inr u" "cents D u c" using toDinero_ok [OF Cons.prems(1) c4] by metis
    have bound: "\<bar>pl_subtotal l\<bar> + \<bar>c * pl_quantity l\<bar> = line_size l" using Some by (simp add: line_size_def)
    have small: "line_size l \<le> MAX_SAFE_INTEGER" using Cons.prems(5) nonneg by simp
    have m: "cents D (multiply D u (pl_quantity l)) (c * pl_quantity l)"
      using Cons.prems(1) u bound small by (intro multiply_cents) (auto simp: safe_int_def)
    have d: "cents D (subtract D s (multiply D u (pl_quantity l))) (line_profit l)"
      using subtract_cents [OF Cons.prems(1) s(2) m] bound small Some
      by (auto simp: safe_int_def line_profit_def)
    have g: "cents D (add D gan (subtract D s (multiply D u (pl_quantity l)))) (b + line_profit l)"
      using Cons.prems d nonneg line_sizes [of l] by (intro add_cents) (auto simp: safe_int_def)
    have bound_b: "\<bar>b + line_profit l\<bar> + ?S \<le> MAX_SAFE_INTEGER"
      using Cons.prems(6) line_sizes [of l] by simp
    from Cons.IH [OF Cons.prems(1) _ ing g bound_a bound_b, of k] Cons.prems(2) Some s u
    show ?thesis by (force simp: algebra_simps)
  qed
qed simp

text \<open>The period totals add up every line's revenue, but the profit of the lines with a cost
  snapshot only, and count the others; the sums are exact as long as the amounts involved stay
  within the safe integers, and a total outside PostgreSQL's Int range throws instead of wrapping
  or rounding.\<close>

theorem computeProfitTotals_exact:
  assumes "dinero_laws D" "\<forall>l \<in> set items. line_ok l"
    and "sum_list (map line_size items) \<le> MAX_SAFE_INTEGER"
  shows "computeProfitTotals D items =
    (if int4 (sum_list (map pl_subtotal items)) \<and> int4 (sum_list (map line_profit items))
     then Inr \<lparr>ingresoMinor = sum_list (map pl_subtotal items),
               gananciaMinor = sum_list (map line_profit [l \<leftarrow> items. pl_unitCost l \<noteq> None]),
               lineasSinCosto = int (length [l \<leftarrow> items. pl_unitCost l = None])\<rparr>
     else Inl (RangeErr ''Amount must be integer cents within the PostgreSQL Int range''))"
proof -
  have "int4 0" by (simp add: int4_def MAX_MINOR_UNITS_def)
  then obtain z where z: "toDinero D 0 = Inr z" "cents D z 0" using toDinero_ok [OF assms(1)] by metis
  have only: "sum_list (map line_profit [l \<leftarrow> items. pl_unitCost l \<noteq> None]) = sum_list (map line_profit items)"
    by (induction items) (auto simp: line_profit_def)
  show ?thesis
    using profit_loop_exact [OF assms(1,2) z(2) z(2), of 0] assms(3) z
    by (auto simp: computeProfitTotals_def toMinorUnits_cents only simp del: not_None_eq)
qed

theorem computeProfitTotals_exact_witness:
  "computeProfitTotals exact_dinero
     [\<lparr>pl_subtotal = 5000, pl_quantity = 2, pl_unitCost = Some 1500\<rparr>,
      \<lparr>pl_subtotal = 700, pl_quantity = 1, pl_unitCost = None\<rparr>]
   = Inr \<lparr>ingresoMinor = 5700, gananciaMinor = 2000, lineasSinCosto = 1\<rparr>"
  by (subst computeProfitTotals_exact)
    (simp_all add: line_ok_def line_size_def line_profit_def int4_def MAX_MINOR_UNITS_def MAX_SAFE_INTEGER_def)

end
