(* ===== verification/RulesConfig.thy ===== *)
theory RulesConfig
  imports CanonicalJson Money
begin

text \<open>
  The profit-sharing rules a business agrees on (\<open>src/finance/finance-rules.config.ts\<close>): a strict parser
  that rebuilds a clean configuration or lists every problem, the hash of what the partners approve, and
  the warnings; and the rules in words (\<open>src/finance/finance-rules.summary.ts\<close>). A configuration is only
  data: nothing here calculates money.
\<close>

section \<open>Numbers\<close>

text \<open>A JavaScript number of a configuration: an integer, or \<open>m / 10 ^ (k + 1)\<close> with decimals.\<close>

datatype number = Whole int | Decimal int nat

fun number_json :: "number \<Rightarrow> jsval" where
  "number_json (Whole i) = JNum i"
| "number_json (Decimal m k) = JDec m k"

fun as_number :: "jsval \<Rightarrow> number option" where
  "as_number (JNum i) = Some (Whole i)"
| "as_number (JDec m k) = Some (Decimal m k)"
| "as_number _ = None"

text \<open>Numerator and denominator.\<close>

fun ratio :: "number \<Rightarrow> int \<times> int" where
  "ratio (Whole i) = (i, 1)"
| "ratio (Decimal m k) = (m, 10 ^ Suc k)"

definition at_least :: "number \<Rightarrow> int \<Rightarrow> bool" where
  "at_least x n \<longleftrightarrow> n * snd (ratio x) \<le> fst (ratio x)"

definition num_is :: "number \<Rightarrow> int \<Rightarrow> bool" where
  "num_is x n \<longleftrightarrow> fst (ratio x) = n * snd (ratio x)"

text \<open>\<open>Math.round(pct * 100)\<close>; the tests of a percentage and of an amount.\<close>

definition hundredths :: "number \<Rightarrow> int" where
  "hundredths x = (200 * fst (ratio x) + snd (ratio x)) div (2 * snd (ratio x))"

definition isPct :: "number \<Rightarrow> bool" where
  "isPct x \<longleftrightarrow> 0 \<le> fst (ratio x) \<and> fst (ratio x) \<le> 100 * snd (ratio x)
     \<and> \<bar>100 * fst (ratio x) - hundredths x * snd (ratio x)\<bar> * 10 ^ 6 < snd (ratio x)"

fun isMinor :: "number \<Rightarrow> bool" where
  "isMinor (Whole i) \<longleftrightarrow> 0 \<le> i \<and> i \<le> MAX_MINOR_UNITS"
| "isMinor (Decimal m k) \<longleftrightarrow> False"

fun show_number :: "number \<Rightarrow> string" where
  "show_number (Whole i) = show_int i"
| "show_number (Decimal m k) = show_dec m k"

text \<open>\<open>String(Number((total / 100).toFixed(2)))\<close>.\<close>

definition formatPct :: "int \<Rightarrow> string" where
  "formatPct t = (if t mod 100 = 0 then show_int (t div 100)
     else if t mod 10 = 0 then show_dec (t div 10) 0 else show_dec t 1)"

section \<open>Configurations\<close>

datatype business_phase = Arranque | Operacion | Cierre
datatype recovery_mode = Ninguna | PorDiferencia | Completa | Proporcional
datatype recovery_timing = Durante | AlCierre
datatype work_order = Antes | Despues
datatype partner_expense_mode = NoReembolsar | Reembolsar | ContarComoAportacion
datatype work_pay = PorHora int | PagoPorcentaje number
datatype rule_reserves = ReservaPorcentaje number | ReservaMonto int

record profit_base =
  partnerPct :: number
  capitalPct :: number
  workPct :: number

record reinvestment =
  currentPhase :: business_phase
  arranquePct :: number
  operacionPct :: number
  cierrePct :: number
  untilAmountMinor :: "int option"

record work_rules =
  payHours :: bool
  work_order :: work_order
  work_pay :: work_pay

record rules_config =
  rc_profitBase :: profit_base
  rc_reinvestment :: reinvestment
  rc_capitalRecovery :: "recovery_mode \<times> recovery_timing"
  rc_work :: work_rules
  rc_partnerExpenses :: partner_expense_mode
  rc_reserves :: rule_reserves
  rc_repayBeforeCapital :: bool

text \<open>The values and the texts of the enumerations.\<close>

definition BUSINESS_PHASES :: "(string \<times> business_phase) list" where
  "BUSINESS_PHASES = [(''arranque'', Arranque), (''operacion'', Operacion), (''cierre'', Cierre)]"

definition RECOVERY_MODES :: "(string \<times> recovery_mode) list" where
  "RECOVERY_MODES = [(''ninguna'', Ninguna), (''por_diferencia'', PorDiferencia), (''total'', Completa), (''proporcional'', Proporcional)]"

definition RECOVERY_TIMINGS :: "(string \<times> recovery_timing) list" where
  "RECOVERY_TIMINGS = [(''durante'', Durante), (''al_cierre'', AlCierre)]"

definition WORK_ORDERS :: "(string \<times> work_order) list" where
  "WORK_ORDERS = [(''antes'', Antes), (''despues'', Despues)]"

definition PARTNER_EXPENSE_MODES :: "(string \<times> partner_expense_mode) list" where
  "PARTNER_EXPENSE_MODES = [(''no_reembolsar'', NoReembolsar), (''reembolsar'', Reembolsar), (''contar_como_aportacion'', ContarComoAportacion)]"

definition name_of :: "(string \<times> 'a) list \<Rightarrow> 'a \<Rightarrow> string" where
  "name_of list x = (case find (\<lambda>p. snd p = x) list of None \<Rightarrow> [] | Some p \<Rightarrow> fst p)"

section \<open>The parser\<close>

text \<open>A \<open>Reader\<close> is its path and the object it reads; every reading returns what it got and what it complains of.\<close>

definition rd_at :: "string \<Rightarrow> string \<Rightarrow> string" where
  "rd_at path key = (if path = [] then key else path @ ''.'' @ key)"

definition rd_fail :: "string \<Rightarrow> string \<Rightarrow> string \<Rightarrow> string list" where
  "rd_fail path key message = [rd_at path key @ '': '' @ message]"

type_synonym raw = "(string \<times> jsval) list option"

definition rd_unknown :: "string \<Rightarrow> raw \<Rightarrow> string list \<Rightarrow> string list" where
  "rd_unknown path raw allowed = (case raw of None \<Rightarrow> []
     | Some fs \<Rightarrow> concat (map (\<lambda>k. rd_fail path k (''no est'' @ CHR 0xE1 # '' permitido'')) [k \<leftarrow> map fst fs. k \<notin> set allowed]))"

definition rd_field :: "raw \<Rightarrow> string \<Rightarrow> jsval" where
  "rd_field raw key = (case raw of None \<Rightarrow> JOther ''undefined''
     | Some fs \<Rightarrow> (case map_of fs key of None \<Rightarrow> JOther ''undefined'' | Some v \<Rightarrow> v))"

definition rd_pct :: "string \<Rightarrow> raw \<Rightarrow> string \<Rightarrow> number option \<times> string list" where
  "rd_pct path raw key = (case as_number (rd_field raw key) of
     Some x \<Rightarrow> if isPct x then (Some x, [])
               else (None, rd_fail path key (''debe ser un n'' @ CHR 0xFA # ''mero de 0 a 100 con m'' @ CHR 0xE1 # ''ximo 2 decimales''))
   | None \<Rightarrow> (None, rd_fail path key (''debe ser un n'' @ CHR 0xFA # ''mero de 0 a 100 con m'' @ CHR 0xE1 # ''ximo 2 decimales'')))"

definition rd_minor :: "string \<Rightarrow> raw \<Rightarrow> string \<Rightarrow> int option \<times> string list" where
  "rd_minor path raw key = (case as_number (rd_field raw key) of
     Some (Whole i) \<Rightarrow> if isMinor (Whole i) then (Some i, [])
               else (None, rd_fail path key (''debe ser un n'' @ CHR 0xFA # ''mero entero de 0 a '' @ show_int MAX_MINOR_UNITS))
   | _ \<Rightarrow> (None, rd_fail path key (''debe ser un n'' @ CHR 0xFA # ''mero entero de 0 a '' @ show_int MAX_MINOR_UNITS)))"

definition rd_bool :: "string \<Rightarrow> raw \<Rightarrow> string \<Rightarrow> bool option \<times> string list" where
  "rd_bool path raw key = (case rd_field raw key of JBool b \<Rightarrow> (Some b, [])
     | _ \<Rightarrow> (None, rd_fail path key ''debe ser verdadero o falso''))"

definition rd_choice :: "string \<Rightarrow> raw \<Rightarrow> string \<Rightarrow> (string \<times> 'a) list \<Rightarrow> 'a option \<times> string list" where
  "rd_choice path raw key list =
     (let bad = (None, rd_fail path key (''debe ser uno de: '' @ join '', '' (map fst list))) in
      case rd_field raw key of
        JStr s \<Rightarrow> (case map_of list s of None \<Rightarrow> bad | Some x \<Rightarrow> (Some x, []))
      | _ \<Rightarrow> bad)"

definition rd_object :: "string \<Rightarrow> raw \<Rightarrow> string \<Rightarrow> raw \<times> string list" where
  "rd_object path raw key = (case rd_field raw key of JObj fs \<Rightarrow> (Some fs, [])
     | _ \<Rightarrow> (None, rd_fail path key ''debe ser un objeto''))"

text \<open>The sections of \<open>parseRulesConfig\<close>, in its order.\<close>

definition parse_profitBase :: "raw \<Rightarrow> profit_base option \<times> string list" where
  "parse_profitBase root =
     (let (baseRaw, e0) = rd_object [] root ''profitBase'';
          e1 = rd_unknown ''profitBase'' baseRaw [''partnerPct'', ''capitalPct'', ''workPct''];
          (partner, e2) = rd_pct ''profitBase'' baseRaw ''partnerPct'';
          (capital, e3) = rd_pct ''profitBase'' baseRaw ''capitalPct'';
          (work, e4) = rd_pct ''profitBase'' baseRaw ''workPct'';
          es = e0 @ e1 @ e2 @ e3 @ e4 in
      case (partner, capital, work) of
        (Some p, Some c, Some w) \<Rightarrow>
          (let t = hundredths p + hundredths c + hundredths w in
           (Some \<lparr>partnerPct = p, capitalPct = c, workPct = w\<rparr>,
            es @ (if t \<noteq> 10000 then [''profitBase: partnerPct, capitalPct y workPct deben sumar 100 (hoy suman '' @ formatPct t @ '')''] else [])))
      | _ \<Rightarrow> (None, es))"

definition parse_reinvestment :: "raw \<Rightarrow> reinvestment option \<times> string list" where
  "parse_reinvestment root =
     (let (reinvRaw, e0) = rd_object [] root ''reinvestment'';
          e1 = rd_unknown ''reinvestment'' reinvRaw [''currentPhase'', ''arranquePct'', ''operacionPct'', ''cierrePct'', ''untilAmountMinor''];
          (phase, e2) = rd_choice ''reinvestment'' reinvRaw ''currentPhase'' BUSINESS_PHASES;
          (arranque, e3) = rd_pct ''reinvestment'' reinvRaw ''arranquePct'';
          (operacion, e4) = rd_pct ''reinvestment'' reinvRaw ''operacionPct'';
          (cierre, e5) = rd_pct ''reinvestment'' reinvRaw ''cierrePct'';
          (until, e6) = (if reinvRaw \<noteq> None \<and> rd_field reinvRaw ''untilAmountMinor'' \<noteq> JNull
                         then rd_minor ''reinvestment'' reinvRaw ''untilAmountMinor'' else (None, []));
          es = e0 @ e1 @ e2 @ e3 @ e4 @ e5 @ e6 in
      case (phase, arranque, operacion, cierre) of
        (Some ph, Some a, Some o', Some c) \<Rightarrow>
          (Some \<lparr>currentPhase = ph, arranquePct = a, operacionPct = o', cierrePct = c, untilAmountMinor = until\<rparr>, es)
      | _ \<Rightarrow> (None, es))"

definition parse_capitalRecovery :: "raw \<Rightarrow> (recovery_mode \<times> recovery_timing) option \<times> string list" where
  "parse_capitalRecovery root =
     (let (recRaw, e0) = rd_object [] root ''capitalRecovery'';
          e1 = rd_unknown ''capitalRecovery'' recRaw [''mode'', ''timing''];
          (mode, e2) = rd_choice ''capitalRecovery'' recRaw ''mode'' RECOVERY_MODES;
          (timing, e3) = rd_choice ''capitalRecovery'' recRaw ''timing'' RECOVERY_TIMINGS;
          es = e0 @ e1 @ e2 @ e3 in
      case (mode, timing) of (Some m, Some t) \<Rightarrow> (Some (m, t), es) | _ \<Rightarrow> (None, es))"

definition parse_pay :: "raw \<Rightarrow> work_pay option \<times> string list" where
  "parse_pay payRaw =
     (if payRaw = None then (None, [])
      else if rd_field payRaw ''kind'' = JStr ''por_hora'' then
        (let e0 = rd_unknown ''work.pay'' payRaw [''kind'', ''rateMinorPerHour''];
             (rate, e1) = rd_minor ''work.pay'' payRaw ''rateMinorPerHour'' in (map_option PorHora rate, e0 @ e1))
      else if rd_field payRaw ''kind'' = JStr ''porcentaje'' then
        (let e0 = rd_unknown ''work.pay'' payRaw [''kind'', ''pct''];
             (pct, e1) = rd_pct ''work.pay'' payRaw ''pct'' in (map_option PagoPorcentaje pct, e0 @ e1))
      else (None, rd_unknown ''work.pay'' payRaw [''kind''] @ rd_fail ''work.pay'' ''kind'' ''debe ser uno de: por_hora, porcentaje''))"

definition parse_work :: "raw \<Rightarrow> work_rules option \<times> string list" where
  "parse_work root =
     (let (workRaw, e0) = rd_object [] root ''work'';
          e1 = rd_unknown ''work'' workRaw [''payHours'', ''order'', ''pay''];
          (hours, e2) = rd_bool ''work'' workRaw ''payHours'';
          (order, e3) = rd_choice ''work'' workRaw ''order'' WORK_ORDERS;
          (payRaw, e4) = rd_object ''work'' workRaw ''pay'';
          (pay, e5) = parse_pay payRaw;
          es = e0 @ e1 @ e2 @ e3 @ e4 @ e5 in
      case (hours, order, pay) of
        (Some h, Some k, Some p) \<Rightarrow> (Some \<lparr>payHours = h, work_order = k, work_pay = p\<rparr>, es)
      | _ \<Rightarrow> (None, es))"

definition parse_reserves :: "raw \<Rightarrow> rule_reserves option \<times> string list" where
  "parse_reserves root =
     (let (resRaw, e0) = rd_object [] root ''reserves'' in
      if resRaw = None then (None, e0)
      else if rd_field resRaw ''kind'' = JStr ''porcentaje'' then
        (let e1 = rd_unknown ''reserves'' resRaw [''kind'', ''pct''];
             (pct, e2) = rd_pct ''reserves'' resRaw ''pct'' in (map_option ReservaPorcentaje pct, e0 @ e1 @ e2))
      else if rd_field resRaw ''kind'' = JStr ''monto'' then
        (let e1 = rd_unknown ''reserves'' resRaw [''kind'', ''amountMinor''];
             (amount, e2) = rd_minor ''reserves'' resRaw ''amountMinor'' in (map_option ReservaMonto amount, e0 @ e1 @ e2))
      else (None, e0 @ rd_unknown ''reserves'' resRaw [''kind''] @ rd_fail ''reserves'' ''kind'' ''debe ser uno de: porcentaje, monto''))"

definition parse_partnerLoans :: "raw \<Rightarrow> bool option \<times> string list" where
  "parse_partnerLoans root =
     (let (loansRaw, e0) = rd_object [] root ''partnerLoans'';
          e1 = rd_unknown ''partnerLoans'' loansRaw [''repayBeforeCapital''];
          (repay, e2) = rd_bool ''partnerLoans'' loansRaw ''repayBeforeCapital'' in (repay, e0 @ e1 @ e2))"

text \<open>\<open>Inl\<close> is the list of the problems, of which there is at least one.\<close>

definition parseRulesConfig :: "jsval \<Rightarrow> string list + rules_config" where
  "parseRulesConfig input =
     (case input of
        JObj fs \<Rightarrow>
          (let root = Some fs;
               e0 = rd_unknown [] root [''schemaVersion'', ''profitBase'', ''reinvestment'', ''capitalRecovery'', ''work'',
                 ''partnerExpenses'', ''reserves'', ''partnerLoans''];
               e1 = (if rd_field root ''schemaVersion'' = JNum 1 then [] else rd_fail [] ''schemaVersion'' ''debe ser 1'');
               (base, e2) = parse_profitBase root;
               (reinv, e3) = parse_reinvestment root;
               (rec, e4) = parse_capitalRecovery root;
               (work, e5) = parse_work root;
               (expenses, e6) = rd_choice [] root ''partnerExpenses'' PARTNER_EXPENSE_MODES;
               (res, e7) = parse_reserves root;
               (loans, e8) = parse_partnerLoans root;
               errors = e0 @ e1 @ e2 @ e3 @ e4 @ e5 @ e6 @ e7 @ e8 in
           if errors \<noteq> [] then Inl errors
           else Inr \<lparr>rc_profitBase = the base, rc_reinvestment = the reinv, rc_capitalRecovery = the rec,
                  rc_work = the work, rc_partnerExpenses = the expenses, rc_reserves = the res,
                  rc_repayBeforeCapital = the loans\<rparr>)
      | _ \<Rightarrow> Inl [''config: debe ser un objeto''])"

section \<open>The configuration as JSON, and its hash\<close>

definition profit_base_json :: "profit_base \<Rightarrow> jsval" where
  "profit_base_json b = JObj [(''partnerPct'', number_json (partnerPct b)), (''capitalPct'', number_json (capitalPct b)),
     (''workPct'', number_json (workPct b))]"

definition reinvestment_json :: "reinvestment \<Rightarrow> jsval" where
  "reinvestment_json r = JObj [(''currentPhase'', JStr (name_of BUSINESS_PHASES (currentPhase r))),
     (''arranquePct'', number_json (arranquePct r)), (''operacionPct'', number_json (operacionPct r)),
     (''cierrePct'', number_json (cierrePct r)),
     (''untilAmountMinor'', case untilAmountMinor r of None \<Rightarrow> JNull | Some i \<Rightarrow> JNum i)]"

definition recovery_json :: "recovery_mode \<times> recovery_timing \<Rightarrow> jsval" where
  "recovery_json r = JObj [(''mode'', JStr (name_of RECOVERY_MODES (fst r))), (''timing'', JStr (name_of RECOVERY_TIMINGS (snd r)))]"

fun pay_json :: "work_pay \<Rightarrow> jsval" where
  "pay_json (PorHora i) = JObj [(''kind'', JStr ''por_hora''), (''rateMinorPerHour'', JNum i)]"
| "pay_json (PagoPorcentaje x) = JObj [(''kind'', JStr ''porcentaje''), (''pct'', number_json x)]"

definition work_json :: "work_rules \<Rightarrow> jsval" where
  "work_json w = JObj [(''payHours'', JBool (payHours w)), (''order'', JStr (name_of WORK_ORDERS (work_order w))),
     (''pay'', pay_json (work_pay w))]"

fun reserves_json :: "rule_reserves \<Rightarrow> jsval" where
  "reserves_json (ReservaPorcentaje x) = JObj [(''kind'', JStr ''porcentaje''), (''pct'', number_json x)]"
| "reserves_json (ReservaMonto i) = JObj [(''kind'', JStr ''monto''), (''amountMinor'', JNum i)]"

definition config_json :: "rules_config \<Rightarrow> jsval" where
  "config_json c = JObj [(''schemaVersion'', JNum 1), (''profitBase'', profit_base_json (rc_profitBase c)),
     (''reinvestment'', reinvestment_json (rc_reinvestment c)), (''capitalRecovery'', recovery_json (rc_capitalRecovery c)),
     (''work'', work_json (rc_work c)), (''partnerExpenses'', JStr (name_of PARTNER_EXPENSE_MODES (rc_partnerExpenses c))),
     (''reserves'', reserves_json (rc_reserves c)),
     (''partnerLoans'', JObj [(''repayBeforeCapital'', JBool (rc_repayBeforeCapital c))])]"

text \<open>\<open>configHash\<close>; the JSON of a configuration has nothing \<open>canonicalJson\<close> rejects.\<close>

definition configHash :: "(string \<Rightarrow> string) \<Rightarrow> rules_config \<Rightarrow> string result" where
  "configHash sha256 c = canonicalDigest sha256 (config_json c)"

section \<open>Warnings\<close>

definition is_por_hora :: "work_pay \<Rightarrow> bool" where
  "is_por_hora p = (case p of PorHora _ \<Rightarrow> True | _ \<Rightarrow> False)"

definition rulesWarnings :: "rules_config \<Rightarrow> (string \<times> string) list" where
  "rulesWarnings c =
     (let r = rc_reinvestment c; b = rc_profitBase c; w = rc_work c in
      (if \<not> at_least (arranquePct r) 50 then [(''REINVEST_LOW_AT_START'',
         ''En arranque conviene reinvertir casi todo. El negocio a'' @ CHR 0xFA # ''n no prueba que funciona. Puedes dejarlo as''
           @ CHR 0xED # '' si lo decidieron.'')] else [])
    @ (if at_least (cierrePct r) 50 then [(''REINVEST_HIGH_AT_CLOSE'',
         ''En el cierre se reinvierte mucho. Si el negocio ya termina, esa plata no volver'' @ CHR 0xED # ''a a ustedes.'')] else [])
    @ (if rc_capitalRecovery c = (Completa, Durante) then [(''RECOVERY_TOTAL_DURING'',
         ''Devolver todo el capital durante la operaci'' @ CHR 0xF3 # ''n puede dejar poco efectivo para el negocio.'')] else [])
    @ (if payHours w then
         (if (case work_pay w of PorHora i \<Rightarrow> i = 0 | PagoPorcentaje x \<Rightarrow> num_is x 0) then [(''WORK_PAY_ZERO'',
            ''Marcaste pagar horas, pero la tarifa est'' @ CHR 0xE1 # '' en cero. As'' @ CHR 0xED # '' no se pagar'' @ CHR 0xE1
              # '' nada por trabajo.'')] else [])
       @ (if 0 < fst (ratio (workPct b)) then [(''WORK_COUNTED_TWICE'',
            ''Pagas las horas y adem'' @ CHR 0xE1 # ''s das parte de la utilidad al trabajo. Revisa que no se cuente dos veces.'')] else [])
       else [])
    @ (if num_is (capitalPct b) 100 \<and> fst (rc_capitalRecovery c) \<noteq> Ninguna then [(''CAPITAL_RETURNED_TWICE'',
         ''Toda la utilidad va al capital y adem'' @ CHR 0xE1 # ''s se devuelve el capital. Revisa que no se pague dos veces.'')] else [])
    @ (case rc_reserves c of
         ReservaPorcentaje x \<Rightarrow> if at_least x 50 then [(''RESERVES_HIGH'',
           ''Apartas la mitad o m'' @ CHR 0xE1 # ''s para reservas. Quedar'' @ CHR 0xE1 # '' poco para repartir.'')] else []
       | ReservaMonto i \<Rightarrow> []))"

section \<open>The rules in words\<close>

record rule_section =
  sec_topic :: string
  sec_line :: string
  sec_key :: jsval

fun phase_text :: "business_phase \<Rightarrow> string" where
  "phase_text Arranque = ''arranque''"
| "phase_text Operacion = ''operaci'' @ CHR 0xF3 # ''n''"
| "phase_text Cierre = ''cierre''"

fun timing_text :: "recovery_timing \<Rightarrow> string" where
  "timing_text Durante = ''durante la operaci'' @ CHR 0xF3 # ''n''"
| "timing_text AlCierre = ''solo al cierre''"

definition pct_text :: "number \<Rightarrow> string" where
  "pct_text x = show_number x @ '' %''"

fun recovery_text :: "recovery_mode \<times> recovery_timing \<Rightarrow> string" where
  "recovery_text (Ninguna, t) = ''El capital de los socios no se devuelve.''"
| "recovery_text (PorDiferencia, t) = ''El capital se devuelve por diferencia, '' @ timing_text t @ ''.''"
| "recovery_text (Completa, t) = ''Se devuelve todo el capital, '' @ timing_text t @ ''.''"
| "recovery_text (Proporcional, t) = ''El capital se devuelve en proporci'' @ CHR 0xF3 # ''n, '' @ timing_text t @ ''.''"

definition when_text :: "work_order \<Rightarrow> string" where
  "when_text k = (if k = Antes then ''antes'' else ''despu'' @ CHR 0xE9 # ''s'')"

text \<open>\<open>money\<close> is \<open>formatCurrency\<close>.\<close>

definition hours_text :: "(int \<Rightarrow> string) \<Rightarrow> work_rules \<Rightarrow> string" where
  "hours_text money w = (if \<not> payHours w then ''Las horas de trabajo no se pagan aparte.''
     else case work_pay w of
       PorHora i \<Rightarrow> ''Las horas se pagan a '' @ money i @ '' cada una, '' @ when_text (work_order w) @ '' del capital.''
     | PagoPorcentaje x \<Rightarrow> ''Las horas se pagan con '' @ pct_text x @ '' del reparto, '' @ when_text (work_order w) @ '' del capital.'')"

fun expenses_text :: "partner_expense_mode \<Rightarrow> string" where
  "expenses_text NoReembolsar = ''Los gastos que un socio paga de su bolsillo no se reembolsan.''"
| "expenses_text Reembolsar = ''Los gastos que un socio paga de su bolsillo se reembolsan.''"
| "expenses_text ContarComoAportacion = ''Los gastos que un socio paga de su bolsillo cuentan como aportaci'' @ CHR 0xF3 # ''n.''"

definition sections :: "(int \<Rightarrow> string) \<Rightarrow> rules_config \<Rightarrow> rule_section list" where
  "sections money c =
     (let b = rc_profitBase c; r = rc_reinvestment c in
      [\<lparr>sec_topic = ''Reparto de la utilidad'',
        sec_line = ''La utilidad va '' @ pct_text (partnerPct b) @ '' por ser socio, '' @ pct_text (capitalPct b)
          @ '' por capital y '' @ pct_text (workPct b) @ '' por trabajo.'',
        sec_key = profit_base_json b\<rparr>,
       \<lparr>sec_topic = ''Reinversi'' @ CHR 0xF3 # ''n'',
        sec_line = ''Se reinvierte '' @ pct_text (arranquePct r) @ '' en arranque, '' @ pct_text (operacionPct r)
          @ '' en operaci'' @ CHR 0xF3 # ''n y '' @ pct_text (cierrePct r) @ '' en cierre. Hoy: '' @ phase_text (currentPhase r) @ ''.''
          @ (case untilAmountMinor r of None \<Rightarrow> [] | Some i \<Rightarrow> '' Se deja de reinvertir al llegar a '' @ money i @ ''.''),
        sec_key = reinvestment_json r\<rparr>,
       \<lparr>sec_topic = ''Devoluci'' @ CHR 0xF3 # ''n del capital'', sec_line = recovery_text (rc_capitalRecovery c),
        sec_key = recovery_json (rc_capitalRecovery c)\<rparr>,
       \<lparr>sec_topic = ''Pago de horas'', sec_line = hours_text money (rc_work c), sec_key = work_json (rc_work c)\<rparr>,
       \<lparr>sec_topic = ''Gastos de socios'', sec_line = expenses_text (rc_partnerExpenses c),
        sec_key = JStr (name_of PARTNER_EXPENSE_MODES (rc_partnerExpenses c))\<rparr>,
       \<lparr>sec_topic = ''Reservas'',
        sec_line = ''Se aparta '' @ (case rc_reserves c of ReservaPorcentaje x \<Rightarrow> pct_text x | ReservaMonto i \<Rightarrow> money i)
          @ '' para reservas antes de repartir.'',
        sec_key = reserves_json (rc_reserves c)\<rparr>,
       \<lparr>sec_topic = ''Pr'' @ CHR 0xE9 # ''stamos de socios'',
        sec_line = ''Los pr'' @ CHR 0xE9 # ''stamos de socios se pagan '' @ (if rc_repayBeforeCapital c then ''antes'' else ''despu'' @ CHR 0xE9 # ''s'')
          @ '' de devolver capital.'',
        sec_key = JObj [(''repayBeforeCapital'', JBool (rc_repayBeforeCapital c))]\<rparr>])"

definition describeRules :: "(int \<Rightarrow> string) \<Rightarrow> rules_config \<Rightarrow> string list" where
  "describeRules money c = map sec_line (sections money c)"

record rule_change =
  rch_topic :: string
  rch_before :: string
  rch_after :: string

definition describeChanges :: "(int \<Rightarrow> string) \<Rightarrow> rules_config \<Rightarrow> rules_config \<Rightarrow> rule_change list" where
  "describeChanges money before after =
     concat (map (\<lambda>(new, old). if canonicalJson (sec_key new) = canonicalJson (sec_key old) then []
         else [\<lparr>rch_topic = sec_topic new, rch_before = sec_line old, rch_after = sec_line new\<rparr>])
       (zip (sections money after) (sections money before)))"

section \<open>What the parser accepts\<close>

definition valid_config :: "rules_config \<Rightarrow> bool" where
  "valid_config c \<longleftrightarrow>
     (let b = rc_profitBase c; r = rc_reinvestment c in
      isPct (partnerPct b) \<and> isPct (capitalPct b) \<and> isPct (workPct b)
    \<and> hundredths (partnerPct b) + hundredths (capitalPct b) + hundredths (workPct b) = 10000
    \<and> isPct (arranquePct r) \<and> isPct (operacionPct r) \<and> isPct (cierrePct r)
    \<and> (case untilAmountMinor r of None \<Rightarrow> True | Some i \<Rightarrow> isMinor (Whole i))
    \<and> (case work_pay (rc_work c) of PorHora i \<Rightarrow> isMinor (Whole i) | PagoPorcentaje x \<Rightarrow> isPct x)
    \<and> (case rc_reserves c of ReservaPorcentaje x \<Rightarrow> isPct x | ReservaMonto i \<Rightarrow> isMinor (Whole i)))"

text \<open>Objects have distinct keys, as those of JavaScript have.\<close>

fun well_keyed :: "jsval \<Rightarrow> bool" where
  "well_keyed (JArr xs) \<longleftrightarrow> (\<forall>x \<in> set xs. well_keyed x)"
| "well_keyed (JObj fs) \<longleftrightarrow> distinct (map fst fs) \<and> (\<forall>(k, v) \<in> set fs. well_keyed v)"
| "well_keyed _ \<longleftrightarrow> True"

text \<open>An object with exactly these fields, in any order.\<close>

definition has_fields :: "(string \<times> jsval) list \<Rightarrow> (string \<times> jsval) list \<Rightarrow> bool" where
  "has_fields fs gs \<longleftrightarrow> set (map fst fs) \<subseteq> set (map fst gs)
     \<and> (\<forall>(k, g) \<in> set gs. \<exists>x. map_of fs k = Some x \<and> sorted_keys x = sorted_keys g)"

lemma sorted_keys_object:
  "sorted_keys (JObj fs) = JObj (sort_key fst (map (\<lambda>(k, v). (k, sorted_keys v)) fs))"
proof -
  have "sort_key fst (map (\<lambda>(k, v). (k, sorted_keys v)) fs) = map (\<lambda>(k, v). (k, sorted_keys v)) (sort_key fst fs)"
    by (rule sort_key_map) auto
  then show ?thesis by simp
qed

lemma has_fields_sorted:
  assumes "distinct (map fst fs)" "distinct (map fst gs)"
  shows "has_fields fs gs \<longleftrightarrow> sorted_keys (JObj fs) = sorted_keys (JObj gs)"
proof -
  let ?s = "\<lambda>(k, v). (k, sorted_keys v)"
  have keys: "map fst (map ?s xs) = map fst xs" for xs by (simp add: o_def case_prod_unfold)
  have "has_fields fs gs \<longleftrightarrow> set (map ?s fs) = set (map ?s gs)"
  proof
    assume h: "has_fields fs gs"
    show "set (map ?s fs) = set (map ?s gs)"
    proof (rule set_eqI, rule iffI)
      fix y assume "y \<in> set (map ?s gs)"
      then obtain k g where "(k, g) \<in> set gs" "y = (k, sorted_keys g)" by auto
      moreover from this h obtain x where "map_of fs k = Some x" "sorted_keys x = sorted_keys g" by (auto simp: has_fields_def)
      ultimately show "y \<in> set (map ?s fs)" by (force dest: map_of_SomeD)
    next
      fix y assume "y \<in> set (map ?s fs)"
      then obtain k v where kv: "(k, v) \<in> set fs" "y = (k, sorted_keys v)" by auto
      then obtain g where g: "(k, g) \<in> set gs" using h by (force simp: has_fields_def)
      with h obtain x where x: "map_of fs k = Some x" "sorted_keys x = sorted_keys g" by (auto simp: has_fields_def)
      have "x = v" using x(1) kv(1) assms(1) by (metis map_of_is_SomeI option.inject)
      with kv g x show "y \<in> set (map ?s gs)" by force
    qed
  next
    assume e: "set (map ?s fs) = set (map ?s gs)"
    have "fst ` set fs = fst ` set gs"
    proof -
      have "fst ` set (map ?s xs) = fst ` set xs" for xs using keys [of xs] by (metis set_map)
      then show ?thesis using e by metis
    qed
    moreover have "\<exists>x. map_of fs k = Some x \<and> sorted_keys x = sorted_keys g" if "(k, g) \<in> set gs" for k g
    proof -
      have "(k, sorted_keys g) \<in> set (map ?s fs)" unfolding e using that by force
      then obtain x where "(k, x) \<in> set fs" "sorted_keys x = sorted_keys g" by auto
      then show ?thesis using assms(1) by (auto simp: map_of_is_SomeI)
    qed
    ultimately show "has_fields fs gs" by (auto simp: has_fields_def)
  qed
  also have "\<dots> \<longleftrightarrow> sort_key fst (map ?s fs) = sort_key fst (map ?s gs)"
  proof
    assume e: "set (map ?s fs) = set (map ?s gs)"
    have "distinct (map ?s fs)" "distinct (map ?s gs)" using assms keys by (metis distinct_map)+
    then have "mset (map ?s fs) = mset (map ?s gs)" using e by (rule set_eq_iff_mset_eq_distinct [THEN iffD1])
    then show "sort_key fst (map ?s fs) = sort_key fst (map ?s gs)" by (rule sort_key_perm) (simp only: keys assms)
  next
    assume "sort_key fst (map ?s fs) = sort_key fst (map ?s gs)"
    then show "set (map ?s fs) = set (map ?s gs)" by (metis set_sort)
  qed
  finally show ?thesis unfolding sorted_keys_object by simp
qed

text \<open>Reading one value: it complains exactly when the field is not the printed value.\<close>

lemma as_number_iff: "as_number v = Some x \<longleftrightarrow> v = number_json x"
  by (cases v; cases x) auto

lemma number_json_simps [simp]: "as_number (number_json x) = Some x" "number_json x = number_json y \<longleftrightarrow> x = y"
  "sorted_keys (number_json x) = number_json x" "number_json x \<noteq> JOther t" "plain (number_json x)" "well_keyed (number_json x)"
  by (cases x; cases y; simp)+

lemma name_of_inj:
  assumes "distinct (map fst list)" "distinct (map snd list)" "x \<in> snd ` set list"
  shows "map_of list s = Some x \<longleftrightarrow> s = name_of list x"
proof -
  obtain y where y: "find (\<lambda>p. snd p = x) list = Some y"
    using assms(3) by (cases "find (\<lambda>p. snd p = x) list") (auto simp: find_None_set)
  then have "y \<in> set list" "snd y = x" by (auto dest: find_Some_set)
  then have m: "map_of list (name_of list x) = Some x" using assms(1) y by (auto simp: name_of_def map_of_is_SomeI)
  have "s = name_of list x" if "map_of list s = Some x"
  proof -
    have "(s, x) \<in> set list" "(name_of list x, x) \<in> set list" using that m by (auto dest: map_of_SomeD)
    then show ?thesis using assms(2) by (metis distinct_map inj_onD snd_conv fst_conv)
  qed
  with m show ?thesis by blast
qed

lemma choices [simp]:
  "map_of BUSINESS_PHASES s = Some ph \<longleftrightarrow> s = name_of BUSINESS_PHASES ph"
  "map_of RECOVERY_MODES s = Some md \<longleftrightarrow> s = name_of RECOVERY_MODES md"
  "map_of RECOVERY_TIMINGS s = Some tm \<longleftrightarrow> s = name_of RECOVERY_TIMINGS tm"
  "map_of WORK_ORDERS s = Some wo \<longleftrightarrow> s = name_of WORK_ORDERS wo"
  "map_of PARTNER_EXPENSE_MODES s = Some pe \<longleftrightarrow> s = name_of PARTNER_EXPENSE_MODES pe"
proof -
  show "map_of BUSINESS_PHASES s = Some ph \<longleftrightarrow> s = name_of BUSINESS_PHASES ph"
    by (rule name_of_inj; cases ph; simp add: BUSINESS_PHASES_def)
  show "map_of RECOVERY_MODES s = Some md \<longleftrightarrow> s = name_of RECOVERY_MODES md"
    by (rule name_of_inj; cases md; simp add: RECOVERY_MODES_def)
  show "map_of RECOVERY_TIMINGS s = Some tm \<longleftrightarrow> s = name_of RECOVERY_TIMINGS tm"
    by (rule name_of_inj; cases tm; simp add: RECOVERY_TIMINGS_def)
  show "map_of WORK_ORDERS s = Some wo \<longleftrightarrow> s = name_of WORK_ORDERS wo"
    by (rule name_of_inj; cases wo; simp add: WORK_ORDERS_def)
  show "map_of PARTNER_EXPENSE_MODES s = Some pe \<longleftrightarrow> s = name_of PARTNER_EXPENSE_MODES pe"
    by (rule name_of_inj; cases pe; simp add: PARTNER_EXPENSE_MODES_def)
qed

lemma rd_pct_cases:
  obtains (ok) x where "rd_pct path raw key = (Some x, [])" "rd_field raw key = number_json x" "isPct x"
  | (bad) m where "rd_pct path raw key = (None, [m])" "\<And>x. rd_field raw key = number_json x \<Longrightarrow> \<not> isPct x"
  by (cases "as_number (rd_field raw key)") (auto simp: rd_pct_def rd_fail_def as_number_iff split: if_splits)

lemma rd_minor_cases:
  obtains (ok) i where "rd_minor path raw key = (Some i, [])" "rd_field raw key = JNum i" "isMinor (Whole i)"
  | (bad) m where "rd_minor path raw key = (None, [m])" "\<And>i. rd_field raw key = JNum i \<Longrightarrow> \<not> isMinor (Whole i)"
proof (cases "\<exists>i. rd_field raw key = JNum i \<and> isMinor (Whole i)")
  case True
  then show ?thesis by (auto simp: rd_minor_def intro: ok)
next
  case False
  then have "\<exists>m. rd_minor path raw key = (None, [m])"
    by (cases "rd_field raw key") (auto simp: rd_minor_def rd_fail_def)
  with False bad show ?thesis by blast
qed

lemma rd_bool_cases:
  obtains (ok) b where "rd_bool path raw key = (Some b, [])" "rd_field raw key = JBool b"
  | (bad) m where "rd_bool path raw key = (None, [m])" "\<And>b. rd_field raw key \<noteq> JBool b"
  by (cases "rd_field raw key") (auto simp: rd_bool_def rd_fail_def)

lemma rd_choice_cases:
  assumes "\<And>s x. map_of list s = Some x \<longleftrightarrow> s = name_of list x"
  obtains (ok) x where "rd_choice path raw key list = (Some x, [])" "rd_field raw key = JStr (name_of list x)"
      "\<And>y. name_of list x = name_of list y \<Longrightarrow> x = y"
  | (bad) m where "rd_choice path raw key list = (None, [m])" "\<And>x. rd_field raw key \<noteq> JStr (name_of list x)"
proof (cases "\<exists>x. rd_field raw key = JStr (name_of list x)")
  case True
  then obtain x where x: "rd_field raw key = JStr (name_of list x)" by blast
  moreover have "map_of list (name_of list y) = Some y" for y using assms by blast
  moreover from this have "x = y" if "name_of list x = name_of list y" for y using that by (metis option.inject)
  ultimately show ?thesis by (intro ok) (simp_all add: rd_choice_def Let_def)
next
  case False
  then have "\<exists>m. rd_choice path raw key list = (None, [m])"
    using assms by (cases "rd_field raw key") (auto simp: rd_choice_def rd_fail_def Let_def split: option.split)
  with False bad show ?thesis by blast
qed

lemma rd_object_cases:
  obtains (ok) fs where "rd_object path raw key = (Some fs, [])" "rd_field raw key = JObj fs"
  | (bad) m where "rd_object path raw key = (None, [m])" "\<And>fs. rd_field raw key \<noteq> JObj fs"
  by (cases "rd_field raw key") (auto simp: rd_object_def rd_fail_def)

lemma rd_unknown_ok: "rd_unknown path (Some fs) allowed = [] \<longleftrightarrow> set (map fst fs) \<subseteq> set allowed"
  by (auto simp: rd_unknown_def rd_fail_def filter_empty_conv)

lemmas phase_cases [case_names ok bad] = rd_choice_cases [OF choices(1)]
lemmas mode_cases [case_names ok bad] = rd_choice_cases [OF choices(2)]
lemmas timing_cases [case_names ok bad] = rd_choice_cases [OF choices(3)]
lemmas order_cases [case_names ok bad] = rd_choice_cases [OF choices(4)]
lemmas expense_cases [case_names ok bad] = rd_choice_cases [OF choices(5)]

text \<open>A value that is an object with these fields.\<close>

lemma field_of: "x \<noteq> JOther ''undefined'' \<Longrightarrow> rd_field (Some fs) k = x \<longleftrightarrow> map_of fs k = Some x"
  by (auto simp: rd_field_def split: option.split)

lemma sorted_scalars [simp]:
  "sorted_keys v = JNull \<longleftrightarrow> v = JNull" "sorted_keys v = JBool b \<longleftrightarrow> v = JBool b" "sorted_keys v = JNum i \<longleftrightarrow> v = JNum i"
  "sorted_keys v = JStr t \<longleftrightarrow> v = JStr t" "sorted_keys v = number_json x \<longleftrightarrow> v = number_json x"
  by (cases v; cases x; simp)+

lemma sorted_object:
  assumes "well_keyed v" "distinct (map fst gs)"
  shows "sorted_keys v = sorted_keys (JObj gs) \<longleftrightarrow> (\<exists>fs. v = JObj fs \<and> has_fields fs gs)"
proof (cases v)
  case (JObj fs)
  with assms show ?thesis using has_fields_sorted [of fs gs] by auto
qed auto

lemma well_keyed_field: "well_keyed (JObj fs) \<Longrightarrow> well_keyed (rd_field (Some fs) k)"
  by (auto simp: rd_field_def split: option.split dest!: map_of_SomeD)

lemma parse_profitBase_ok:
  "parse_profitBase root = (v, []) \<longleftrightarrow> (\<exists>p c w fs. v = Some \<lparr>partnerPct = p, capitalPct = c, workPct = w\<rparr>
     \<and> rd_field root ''profitBase'' = JObj fs \<and> set (map fst fs) \<subseteq> {''partnerPct'', ''capitalPct'', ''workPct''}
     \<and> rd_field (Some fs) ''partnerPct'' = number_json p \<and> rd_field (Some fs) ''capitalPct'' = number_json c
     \<and> rd_field (Some fs) ''workPct'' = number_json w \<and> isPct p \<and> isPct c \<and> isPct w
     \<and> hundredths p + hundredths c + hundredths w = 10000)"
proof (cases rule: rd_object_cases [of "[]" root "''profitBase''"])
  case (ok fs)
  show ?thesis
    by (rule rd_pct_cases [of "''profitBase''" "Some fs" "''partnerPct''"];
        rule rd_pct_cases [of "''profitBase''" "Some fs" "''capitalPct''"];
        rule rd_pct_cases [of "''profitBase''" "Some fs" "''workPct''"])
      (auto simp: parse_profitBase_def Let_def rd_unknown_ok ok)
next
  case (bad m)
  then show ?thesis by (auto simp: parse_profitBase_def Let_def split: option.splits prod.splits)
qed

lemma parse_reinvestment_ok:
  "parse_reinvestment root = (v, []) \<longleftrightarrow> (\<exists>ph a o' c u fs. v = Some \<lparr>currentPhase = ph, arranquePct = a, operacionPct = o', cierrePct = c, untilAmountMinor = u\<rparr>
     \<and> rd_field root ''reinvestment'' = JObj fs
     \<and> set (map fst fs) \<subseteq> {''currentPhase'', ''arranquePct'', ''operacionPct'', ''cierrePct'', ''untilAmountMinor''}
     \<and> rd_field (Some fs) ''currentPhase'' = JStr (name_of BUSINESS_PHASES ph)
     \<and> rd_field (Some fs) ''arranquePct'' = number_json a \<and> rd_field (Some fs) ''operacionPct'' = number_json o'
     \<and> rd_field (Some fs) ''cierrePct'' = number_json c \<and> isPct a \<and> isPct o' \<and> isPct c
     \<and> rd_field (Some fs) ''untilAmountMinor'' = (case u of None \<Rightarrow> JNull | Some i \<Rightarrow> JNum i)
     \<and> (case u of None \<Rightarrow> True | Some i \<Rightarrow> isMinor (Whole i)))"
proof (cases rule: rd_object_cases [of "[]" root "''reinvestment''"])
  case (ok fs)
  let ?u = "if rd_field (Some fs) ''untilAmountMinor'' \<noteq> JNull then rd_minor ''reinvestment'' (Some fs) ''untilAmountMinor'' else (None, [])"
  have until: "(\<exists>u. ?u = (u, []) \<and> rd_field (Some fs) ''untilAmountMinor'' = (case u of None \<Rightarrow> JNull | Some i \<Rightarrow> JNum i)
        \<and> (case u of None \<Rightarrow> True | Some i \<Rightarrow> isMinor (Whole i)))
      \<or> (\<exists>m. ?u = (None, [m]) \<and> (\<forall>u. rd_field (Some fs) ''untilAmountMinor'' = (case u of None \<Rightarrow> JNull | Some i \<Rightarrow> JNum i)
          \<longrightarrow> \<not> (case u of None \<Rightarrow> True | Some i \<Rightarrow> isMinor (Whole i))))"
    by (rule rd_minor_cases [of "''reinvestment''" "Some fs" "''untilAmountMinor''"]) (auto split: option.split)
  note unfold = parse_reinvestment_def Let_def split_def ok
  show ?thesis
  proof (cases rule: phase_cases [of "''reinvestment''" "Some fs" "''currentPhase''"])
    case (bad m)
    then show ?thesis by (simp add: unfold)
  next
    case phase: (ok ph)
    show ?thesis
    proof (cases rule: rd_pct_cases [of "''reinvestment''" "Some fs" "''arranquePct''"])
      case (bad m)
      then show ?thesis by (auto simp: unfold phase(1))
    next
      case arranque: (ok a)
      show ?thesis
      proof (cases rule: rd_pct_cases [of "''reinvestment''" "Some fs" "''operacionPct''"])
        case (bad m)
        then show ?thesis by (auto simp: unfold phase(1) arranque)
      next
        case operacion: (ok o')
        show ?thesis
        proof (cases rule: rd_pct_cases [of "''reinvestment''" "Some fs" "''cierrePct''"])
          case (bad m)
          then show ?thesis by (auto simp: unfold phase(1) arranque operacion)
        next
          case cierre: (ok c)
          show ?thesis
          proof (rule disjE [OF until])
            assume "\<exists>m. ?u = (None, [m]) \<and> (\<forall>u. rd_field (Some fs) ''untilAmountMinor'' = (case u of None \<Rightarrow> JNull | Some i \<Rightarrow> JNum i)
                \<longrightarrow> \<not> (case u of None \<Rightarrow> True | Some i \<Rightarrow> isMinor (Whole i)))"
            then show ?thesis by (auto simp: unfold phase(1) arranque operacion cierre simp del: isMinor.simps)
          next
            assume "\<exists>u. ?u = (u, []) \<and> rd_field (Some fs) ''untilAmountMinor'' = (case u of None \<Rightarrow> JNull | Some i \<Rightarrow> JNum i)
                \<and> (case u of None \<Rightarrow> True | Some i \<Rightarrow> isMinor (Whole i))"
            then obtain u where u: "?u = (u, [])" "rd_field (Some fs) ''untilAmountMinor'' = (case u of None \<Rightarrow> JNull | Some i \<Rightarrow> JNum i)"
                "case u of None \<Rightarrow> True | Some i \<Rightarrow> isMinor (Whole i)" by blast
            have unique: "(case u of None \<Rightarrow> JNull | Some i \<Rightarrow> JNum i) = (case w of None \<Rightarrow> JNull | Some i \<Rightarrow> JNum i) \<longleftrightarrow> w = u" for w
              by (auto split: option.split)
            have "parse_reinvestment root = (Some \<lparr>currentPhase = ph, arranquePct = a, operacionPct = o', cierrePct = c, untilAmountMinor = u\<rparr>,
                rd_unknown ''reinvestment'' (Some fs) [''currentPhase'', ''arranquePct'', ''operacionPct'', ''cierrePct'', ''untilAmountMinor''])"
              using u(1) by (cases "rd_field (Some fs) ''untilAmountMinor'' = JNull") (simp_all add: unfold phase(1) arranque operacion cierre)
            then show ?thesis using u(2,3) phase arranque operacion cierre
              by (auto simp: rd_unknown_ok ok unique simp del: isMinor.simps)
          qed
        qed
      qed
    qed
  qed
next
  case (bad m)
  then show ?thesis by (auto simp: parse_reinvestment_def Let_def split: option.splits prod.splits)
qed

lemma parse_capitalRecovery_ok:
  "parse_capitalRecovery root = (v, []) \<longleftrightarrow> (\<exists>m t fs. v = Some (m, t)
     \<and> rd_field root ''capitalRecovery'' = JObj fs \<and> set (map fst fs) \<subseteq> {''mode'', ''timing''}
     \<and> rd_field (Some fs) ''mode'' = JStr (name_of RECOVERY_MODES m)
     \<and> rd_field (Some fs) ''timing'' = JStr (name_of RECOVERY_TIMINGS t))"
proof (cases rule: rd_object_cases [of "[]" root "''capitalRecovery''"])
  case (ok fs)
  show ?thesis
    by (rule mode_cases [of "''capitalRecovery''" "Some fs" "''mode''"];
        rule timing_cases [of "''capitalRecovery''" "Some fs" "''timing''"])
      (auto simp: parse_capitalRecovery_def Let_def rd_unknown_ok ok)
next
  case (bad m)
  then show ?thesis by (auto simp: parse_capitalRecovery_def Let_def split: option.splits prod.splits)
qed

lemma parse_pay_ok:
  "parse_pay (Some fs) = (v, []) \<longleftrightarrow> (\<exists>i. v = Some (PorHora i) \<and> set (map fst fs) \<subseteq> {''kind'', ''rateMinorPerHour''}
       \<and> rd_field (Some fs) ''kind'' = JStr ''por_hora'' \<and> rd_field (Some fs) ''rateMinorPerHour'' = JNum i \<and> isMinor (Whole i))
     \<or> (\<exists>x. v = Some (PagoPorcentaje x) \<and> set (map fst fs) \<subseteq> {''kind'', ''pct''}
       \<and> rd_field (Some fs) ''kind'' = JStr ''porcentaje'' \<and> rd_field (Some fs) ''pct'' = number_json x \<and> isPct x)"
  by (rule rd_minor_cases [of "''work.pay''" "Some fs" "''rateMinorPerHour''"];
      rule rd_pct_cases [of "''work.pay''" "Some fs" "''pct''"])
    (auto simp: parse_pay_def Let_def rd_unknown_ok rd_fail_def)

lemma parse_pay_None: "parse_pay (Some gs) \<noteq> (None, [])"
  by (simp add: parse_pay_ok)

lemma parse_work_ok:
  "parse_work root = (v, []) \<longleftrightarrow> (\<exists>h k p fs gs. v = Some \<lparr>payHours = h, work_order = k, work_pay = p\<rparr>
     \<and> rd_field root ''work'' = JObj fs \<and> set (map fst fs) \<subseteq> {''payHours'', ''order'', ''pay''}
     \<and> rd_field (Some fs) ''payHours'' = JBool h \<and> rd_field (Some fs) ''order'' = JStr (name_of WORK_ORDERS k)
     \<and> rd_field (Some fs) ''pay'' = JObj gs \<and> parse_pay (Some gs) = (Some p, []))"
proof (cases rule: rd_object_cases [of "[]" root "''work''"])
  case (ok fs)
  show ?thesis
    by (rule rd_bool_cases [of "''work''" "Some fs" "''payHours''"];
        rule order_cases [of "''work''" "Some fs" "''order''"];
        rule rd_object_cases [of "''work''" "Some fs" "''pay''"])
      (auto simp: parse_work_def Let_def rd_unknown_ok ok parse_pay_None split: option.splits prod.splits)
next
  case (bad m)
  then show ?thesis by (auto simp: parse_work_def Let_def split: option.splits prod.splits)
qed

lemma parse_reserves_ok:
  "parse_reserves root = (v, []) \<longleftrightarrow> (\<exists>fs. rd_field root ''reserves'' = JObj fs
     \<and> ((\<exists>x. v = Some (ReservaPorcentaje x) \<and> set (map fst fs) \<subseteq> {''kind'', ''pct''}
          \<and> rd_field (Some fs) ''kind'' = JStr ''porcentaje'' \<and> rd_field (Some fs) ''pct'' = number_json x \<and> isPct x)
      \<or> (\<exists>i. v = Some (ReservaMonto i) \<and> set (map fst fs) \<subseteq> {''kind'', ''amountMinor''}
          \<and> rd_field (Some fs) ''kind'' = JStr ''monto'' \<and> rd_field (Some fs) ''amountMinor'' = JNum i \<and> isMinor (Whole i))))"
proof (cases rule: rd_object_cases [of "[]" root "''reserves''"])
  case (ok fs)
  show ?thesis
    by (rule rd_minor_cases [of "''reserves''" "Some fs" "''amountMinor''"];
        rule rd_pct_cases [of "''reserves''" "Some fs" "''pct''"])
      (auto simp: parse_reserves_def Let_def rd_unknown_ok rd_fail_def ok)
next
  case (bad m)
  then show ?thesis by (auto simp: parse_reserves_def Let_def)
qed

lemma parse_partnerLoans_ok:
  "parse_partnerLoans root = (v, []) \<longleftrightarrow> (\<exists>b fs. v = Some b \<and> rd_field root ''partnerLoans'' = JObj fs
     \<and> set (map fst fs) \<subseteq> {''repayBeforeCapital''} \<and> rd_field (Some fs) ''repayBeforeCapital'' = JBool b)"
proof (cases rule: rd_object_cases [of "[]" root "''partnerLoans''"])
  case (ok fs)
  show ?thesis
    by (rule rd_bool_cases [of "''partnerLoans''" "Some fs" "''repayBeforeCapital''"])
      (auto simp: parse_partnerLoans_def Let_def rd_unknown_ok ok)
next
  case (bad m)
  then show ?thesis by (auto simp: parse_partnerLoans_def Let_def split: prod.splits)
qed

text \<open>A section is read without complaint exactly when it is the printed section up to the order of its keys.\<close>

lemma object_printed:
  assumes "well_keyed v" "distinct (map fst gs)" "\<forall>(k, g) \<in> set gs. g \<noteq> JOther ''undefined''"
  shows "sorted_keys v = sorted_keys (JObj gs) \<longleftrightarrow> (\<exists>fs. v = JObj fs \<and> set (map fst fs) \<subseteq> set (map fst gs)
     \<and> list_all (\<lambda>(k, g). sorted_keys (rd_field (Some fs) k) = sorted_keys g) gs)"
proof -
  have undefined: "sorted_keys x = JOther t \<longleftrightarrow> x = JOther t" for x t by (cases x) simp_all
  have each: "(\<exists>x. map_of fs k = Some x \<and> sorted_keys x = sorted_keys g) \<longleftrightarrow> sorted_keys (rd_field (Some fs) k) = sorted_keys g"
    if "(k, g) \<in> set gs" for fs k g
  proof (cases "map_of fs k")
    case None
    have "sorted_keys g \<noteq> JOther ''undefined''" using assms(3) that undefined by fastforce
    with None show ?thesis by (auto simp: rd_field_def)
  next
    case (Some x)
    then show ?thesis by (simp add: rd_field_def)
  qed
  have "has_fields fs gs \<longleftrightarrow> set (map fst fs) \<subseteq> set (map fst gs)
      \<and> list_all (\<lambda>(k, g). sorted_keys (rd_field (Some fs) k) = sorted_keys g) gs" for fs
    unfolding has_fields_def list_all_iff
    by (rule arg_cong2 [where f = "(\<and>)", OF refl ball_cong [OF refl]]) (simp only: split_paired_all prod.case, rule each)
  then show ?thesis using sorted_object [OF assms(1,2)] by simp
qed

declare sorted_keys.simps(2) [simp del]

lemma profitBase_printed:
  assumes "well_keyed (rd_field root ''profitBase'')"
  shows "parse_profitBase root = (Some b, []) \<longleftrightarrow> sorted_keys (rd_field root ''profitBase'') = sorted_keys (profit_base_json b)
    \<and> isPct (partnerPct b) \<and> isPct (capitalPct b) \<and> isPct (workPct b)
    \<and> hundredths (partnerPct b) + hundredths (capitalPct b) + hundredths (workPct b) = 10000"
  by (cases b) (auto simp: parse_profitBase_ok profit_base_json_def object_printed [OF assms])

lemma reinvestment_printed:
  assumes "well_keyed (rd_field root ''reinvestment'')"
  shows "parse_reinvestment root = (Some r, []) \<longleftrightarrow> sorted_keys (rd_field root ''reinvestment'') = sorted_keys (reinvestment_json r)
    \<and> isPct (arranquePct r) \<and> isPct (operacionPct r) \<and> isPct (cierrePct r)
    \<and> (case untilAmountMinor r of None \<Rightarrow> True | Some i \<Rightarrow> isMinor (Whole i))"
proof -
  let ?until = "case untilAmountMinor r of None \<Rightarrow> JNull | Some i \<Rightarrow> JNum i"
  have u: "sorted_keys x = sorted_keys ?until \<longleftrightarrow> x = ?until" for x by (cases "untilAmountMinor r") simp_all
  have d: "?until \<noteq> JOther ''undefined''" by (cases "untilAmountMinor r") simp_all
  have parsed: "parse_reinvestment root = (Some r, []) \<longleftrightarrow> (\<exists>fs. rd_field root ''reinvestment'' = JObj fs
     \<and> set (map fst fs) \<subseteq> {''currentPhase'', ''arranquePct'', ''operacionPct'', ''cierrePct'', ''untilAmountMinor''}
     \<and> rd_field (Some fs) ''currentPhase'' = JStr (name_of BUSINESS_PHASES (currentPhase r))
     \<and> rd_field (Some fs) ''arranquePct'' = number_json (arranquePct r) \<and> rd_field (Some fs) ''operacionPct'' = number_json (operacionPct r)
     \<and> rd_field (Some fs) ''cierrePct'' = number_json (cierrePct r) \<and> isPct (arranquePct r) \<and> isPct (operacionPct r) \<and> isPct (cierrePct r)
     \<and> rd_field (Some fs) ''untilAmountMinor'' = ?until
     \<and> (case untilAmountMinor r of None \<Rightarrow> True | Some i \<Rightarrow> isMinor (Whole i)))"
    unfolding parse_reinvestment_ok
  proof (rule iffI; elim exE conjE)
  qed (simp, rule exI [of _ "currentPhase r"], rule exI [of _ "arranquePct r"], rule exI [of _ "operacionPct r"],
      rule exI [of _ "cierrePct r"], rule exI [of _ "untilAmountMinor r"], simp)
  have printed: "sorted_keys (rd_field root ''reinvestment'') = sorted_keys (reinvestment_json r) \<longleftrightarrow>
     (\<exists>fs. rd_field root ''reinvestment'' = JObj fs
     \<and> set (map fst fs) \<subseteq> {''currentPhase'', ''arranquePct'', ''operacionPct'', ''cierrePct'', ''untilAmountMinor''}
     \<and> rd_field (Some fs) ''currentPhase'' = JStr (name_of BUSINESS_PHASES (currentPhase r))
     \<and> rd_field (Some fs) ''arranquePct'' = number_json (arranquePct r) \<and> rd_field (Some fs) ''operacionPct'' = number_json (operacionPct r)
     \<and> rd_field (Some fs) ''cierrePct'' = number_json (cierrePct r) \<and> rd_field (Some fs) ''untilAmountMinor'' = ?until)"
    unfolding reinvestment_json_def by (subst object_printed [OF assms]) (simp_all add: u d)
  show ?thesis unfolding parsed printed by blast
qed

lemma recovery_printed:
  assumes "well_keyed (rd_field root ''capitalRecovery'')"
  shows "parse_capitalRecovery root = (Some r, []) \<longleftrightarrow> sorted_keys (rd_field root ''capitalRecovery'') = sorted_keys (recovery_json r)"
  by (cases r) (auto simp: parse_capitalRecovery_ok recovery_json_def object_printed [OF assms])

lemma pay_printed:
  assumes "well_keyed (JObj fs)"
  shows "parse_pay (Some fs) = (Some p, []) \<longleftrightarrow> sorted_keys (JObj fs) = sorted_keys (pay_json p)
    \<and> (case p of PorHora i \<Rightarrow> isMinor (Whole i) | PagoPorcentaje x \<Rightarrow> isPct x)"
  by (cases p) (auto simp: parse_pay_ok object_printed [OF assms])

lemma work_printed:
  assumes "well_keyed (rd_field root ''work'')"
  shows "parse_work root = (Some w, []) \<longleftrightarrow> sorted_keys (rd_field root ''work'') = sorted_keys (work_json w)
    \<and> (case work_pay w of PorHora i \<Rightarrow> isMinor (Whole i) | PagoPorcentaje x \<Rightarrow> isPct x)"
proof (cases w)
  case (fields h k p)
  have pay: "(\<exists>gs. rd_field (Some fs) ''pay'' = JObj gs \<and> parse_pay (Some gs) = (Some p, []))
      \<longleftrightarrow> sorted_keys (rd_field (Some fs) ''pay'') = sorted_keys (pay_json p)
        \<and> (case p of PorHora i \<Rightarrow> isMinor (Whole i) | PagoPorcentaje x \<Rightarrow> isPct x)"
    if "rd_field root ''work'' = JObj fs" for fs
  proof -
    have k: "well_keyed (rd_field (Some fs) ''pay'')" using assms that by (auto intro: well_keyed_field)
    have "\<exists>gs. rd_field (Some fs) ''pay'' = JObj gs" if e: "sorted_keys (rd_field (Some fs) ''pay'') = sorted_keys (pay_json p)"
      using k e by (cases p) (auto simp: object_printed)
    then show ?thesis using k pay_printed by auto
  qed
  have "pay_json p \<noteq> JOther ''undefined''" by (cases p) simp_all
  then show ?thesis
    using pay by (auto simp: fields parse_work_ok work_json_def object_printed [OF assms])
qed

lemma reserves_printed:
  assumes "well_keyed (rd_field root ''reserves'')"
  shows "parse_reserves root = (Some r, []) \<longleftrightarrow> sorted_keys (rd_field root ''reserves'') = sorted_keys (reserves_json r)
    \<and> (case r of ReservaPorcentaje x \<Rightarrow> isPct x | ReservaMonto i \<Rightarrow> isMinor (Whole i))"
  by (cases r) (auto simp: parse_reserves_ok object_printed [OF assms])

lemma loans_printed:
  assumes "well_keyed (rd_field root ''partnerLoans'')"
  shows "parse_partnerLoans root = (Some b, []) \<longleftrightarrow> sorted_keys (rd_field root ''partnerLoans'') = sorted_keys (JObj [(''repayBeforeCapital'', JBool b)])"
  by (auto simp: parse_partnerLoans_ok object_printed [OF assms])

text \<open>No section is silently missing.\<close>

lemma never_missing:
  "parse_profitBase root \<noteq> (None, [])" "parse_reinvestment root \<noteq> (None, [])" "parse_capitalRecovery root \<noteq> (None, [])"
  "parse_work root \<noteq> (None, [])" "parse_reserves root \<noteq> (None, [])" "parse_partnerLoans root \<noteq> (None, [])"
  by (simp_all add: parse_profitBase_ok parse_reinvestment_ok parse_capitalRecovery_ok parse_work_ok parse_reserves_ok parse_partnerLoans_ok)

lemma expenses_never_missing: "rd_choice path root key PARTNER_EXPENSE_MODES \<noteq> (None, [])"
  by (rule expense_cases [of path root key]) simp_all

lemma parseRulesConfig_Inr:
  "parseRulesConfig (JObj fs) = Inr c \<longleftrightarrow>
     set (map fst fs) \<subseteq> set (map fst (case config_json c of JObj gs \<Rightarrow> gs | _ \<Rightarrow> []))
   \<and> rd_field (Some fs) ''schemaVersion'' = JNum 1
   \<and> parse_profitBase (Some fs) = (Some (rc_profitBase c), []) \<and> parse_reinvestment (Some fs) = (Some (rc_reinvestment c), [])
   \<and> parse_capitalRecovery (Some fs) = (Some (rc_capitalRecovery c), []) \<and> parse_work (Some fs) = (Some (rc_work c), [])
   \<and> rd_choice [] (Some fs) ''partnerExpenses'' PARTNER_EXPENSE_MODES = (Some (rc_partnerExpenses c), [])
   \<and> parse_reserves (Some fs) = (Some (rc_reserves c), []) \<and> parse_partnerLoans (Some fs) = (Some (rc_repayBeforeCapital c), [])"
  (is "_ = ?parts")
proof -
  let ?root = "Some fs"
  obtain b e2 r e3 k e4 w e5 x e6 v e7 l e8 where p:
    "parse_profitBase ?root = (b, e2)" "parse_reinvestment ?root = (r, e3)" "parse_capitalRecovery ?root = (k, e4)"
    "parse_work ?root = (w, e5)" "rd_choice [] ?root ''partnerExpenses'' PARTNER_EXPENSE_MODES = (x, e6)"
    "parse_reserves ?root = (v, e7)" "parse_partnerLoans ?root = (l, e8)" by (meson surj_pair)
  have keys: "set (map fst (case config_json c of JObj gs \<Rightarrow> gs | _ \<Rightarrow> [])) = set [''schemaVersion'', ''profitBase'', ''reinvestment'', ''capitalRecovery'', ''work'',
                 ''partnerExpenses'', ''reserves'', ''partnerLoans'']" by (simp add: config_json_def)
  have schema: "(if rd_field ?root ''schemaVersion'' = JNum 1 then [] else rd_fail [] ''schemaVersion'' ''debe ser 1'') = []
      \<longleftrightarrow> rd_field ?root ''schemaVersion'' = JNum 1" by (simp add: rd_fail_def)
  have "parseRulesConfig (JObj fs) = Inr c \<longleftrightarrow>
     rd_unknown [] ?root [''schemaVersion'', ''profitBase'', ''reinvestment'', ''capitalRecovery'', ''work'',
                 ''partnerExpenses'', ''reserves'', ''partnerLoans''] = []
   \<and> rd_field ?root ''schemaVersion'' = JNum 1 \<and> e2 = [] \<and> e3 = [] \<and> e4 = [] \<and> e5 = [] \<and> e6 = [] \<and> e7 = [] \<and> e8 = []
   \<and> c = \<lparr>rc_profitBase = the b, rc_reinvestment = the r, rc_capitalRecovery = the k,
                  rc_work = the w, rc_partnerExpenses = the x, rc_reserves = the v, rc_repayBeforeCapital = the l\<rparr>"
    by (auto simp: parseRulesConfig_def p Let_def rd_fail_def)
  also have "\<dots> \<longleftrightarrow> ?parts"
  proof
    assume a: "rd_unknown [] ?root [''schemaVersion'', ''profitBase'', ''reinvestment'', ''capitalRecovery'', ''work'',
                 ''partnerExpenses'', ''reserves'', ''partnerLoans''] = []
   \<and> rd_field ?root ''schemaVersion'' = JNum 1 \<and> e2 = [] \<and> e3 = [] \<and> e4 = [] \<and> e5 = [] \<and> e6 = [] \<and> e7 = [] \<and> e8 = []
   \<and> c = \<lparr>rc_profitBase = the b, rc_reinvestment = the r, rc_capitalRecovery = the k,
                  rc_work = the w, rc_partnerExpenses = the x, rc_reserves = the v, rc_repayBeforeCapital = the l\<rparr>"
    then have "b \<noteq> None" "r \<noteq> None" "k \<noteq> None" "w \<noteq> None" "x \<noteq> None" "v \<noteq> None" "l \<noteq> None"
      using never_missing [of ?root] expenses_never_missing [of "[]" ?root "''partnerExpenses''"] p by auto
    with a p show ?parts unfolding keys by (simp add: rd_unknown_ok)
  next
    assume ?parts
    then show "rd_unknown [] ?root [''schemaVersion'', ''profitBase'', ''reinvestment'', ''capitalRecovery'', ''work'',
                 ''partnerExpenses'', ''reserves'', ''partnerLoans''] = []
   \<and> rd_field ?root ''schemaVersion'' = JNum 1 \<and> e2 = [] \<and> e3 = [] \<and> e4 = [] \<and> e5 = [] \<and> e6 = [] \<and> e7 = [] \<and> e8 = []
   \<and> c = \<lparr>rc_profitBase = the b, rc_reinvestment = the r, rc_capitalRecovery = the k,
                  rc_work = the w, rc_partnerExpenses = the x, rc_reserves = the v, rc_repayBeforeCapital = the l\<rparr>"
      unfolding keys by (simp add: rd_unknown_ok p)
  qed
  finally show ?thesis .
qed

lemma expenses_printed:
  "rd_choice [] root ''partnerExpenses'' PARTNER_EXPENSE_MODES = (Some x, [])
     \<longleftrightarrow> sorted_keys (rd_field root ''partnerExpenses'') = JStr (name_of PARTNER_EXPENSE_MODES x)"
  by (rule expense_cases [of "[]" root "''partnerExpenses''"]) auto


declare sorted_keys.simps(2) [simp]

text \<open>Rules with a percentage of two decimals, sent with their keys in another order.\<close>

definition sample_rules :: rules_config where
  "sample_rules = \<lparr>rc_profitBase = \<lparr>partnerPct = Decimal 3325 1, capitalPct = Decimal 335 0, workPct = Decimal 3325 1\<rparr>,
     rc_reinvestment = \<lparr>currentPhase = Operacion, arranquePct = Whole 80, operacionPct = Whole 40, cierrePct = Whole 0,
       untilAmountMinor = Some 500000\<rparr>,
     rc_capitalRecovery = (PorDiferencia, Durante),
     rc_work = \<lparr>payHours = True, work_order = Antes, work_pay = PorHora 6000\<rparr>,
     rc_partnerExpenses = Reembolsar, rc_reserves = ReservaPorcentaje (Whole 10), rc_repayBeforeCapital = True\<rparr>"

definition sample_rules_json :: jsval where
  "sample_rules_json = JObj [(''partnerLoans'', JObj [(''repayBeforeCapital'', JBool True)]),
     (''reserves'', JObj [(''pct'', JNum 10), (''kind'', JStr ''porcentaje'')]),
     (''profitBase'', JObj [(''workPct'', JDec 3325 1), (''partnerPct'', JDec 3325 1), (''capitalPct'', JDec 335 0)]),
     (''schemaVersion'', JNum 1), (''partnerExpenses'', JStr ''reembolsar''),
     (''work'', JObj [(''pay'', JObj [(''rateMinorPerHour'', JNum 6000), (''kind'', JStr ''por_hora'')]),
        (''order'', JStr ''antes''), (''payHours'', JBool True)]),
     (''capitalRecovery'', JObj [(''timing'', JStr ''durante''), (''mode'', JStr ''por_diferencia'')]),
     (''reinvestment'', JObj [(''untilAmountMinor'', JNum 500000), (''currentPhase'', JStr ''operacion''),
        (''arranquePct'', JNum 80), (''operacionPct'', JNum 40), (''cierrePct'', JNum 0)])]"


end
