(* ===== verification/Schema.thy ===== *)
theory Schema
  imports Prelude CanonicalJson BusinessTime Money RulesConfig
begin

text \<open>
  The tables of \<open>prisma/schema.prisma\<close> that the modelled services use, as lists of rows, and the
  queries and writes the services share. Every row carries the tenant (\<open>contextId\<close>) it belongs to:
  a query of a service sees the rows of its own context only (the tenant extension adds the filter
  and row level security enforces it), while a primary key is unique over all contexts.
\<close>

section \<open>Rows\<close>

record row =
  rid :: uuid
  ctx :: string

datatype member_role = Socio | Colaborador

record account = row +
  acc_username :: string
  acc_passwordHash :: string
  acc_active :: bool
  acc_createdAt :: instant
  acc_memberId :: "uuid option"

record member = row +
  m_name :: string
  m_role :: member_role
  m_active :: bool
  m_commissionRateBps :: "int option"
  m_correo :: "string option"
  m_createdAt :: instant
  m_createdByMemberId :: "uuid option"

datatype device_status = PendienteActivacion | Activo | Revocado

record device = row +
  d_name :: string
  d_identifier :: string
  d_authorized :: bool
  d_createdAt :: instant
  d_status :: device_status
  d_tokenHash :: "string option"
  d_activatedAt :: "instant option"
  d_revokedAt :: "instant option"

datatype product_type = Unica | Cantidad

record product = row +
  p_name :: string
  p_tipo :: product_type
  p_unitPriceMinor :: int
  p_imagePath :: "string option"
  p_initialStock :: int
  p_stock :: int
  p_category :: "string option"
  p_purchaseCostMinor :: "int option"
  p_supplier :: "string option"
  p_notes :: "string option"
  p_brand :: "string option"
  p_presentation :: "string option"
  p_description :: "string option"
  p_createdAt :: instant
  p_active :: bool

record product_audit = row +
  pa_productId :: uuid
  pa_memberId :: uuid
  pa_changedAt :: instant
  pa_oldUnitPriceMinor :: "int option"
  pa_newUnitPriceMinor :: int
  pa_before :: "jsval option"
  pa_after :: jsval

datatype movement_type = Reposicion

record stock_movement = row +
  mv_productId :: uuid
  mv_memberId :: uuid
  mv_type :: movement_type
  mv_quantity :: int
  mv_stockBefore :: int
  mv_stockAfter :: int
  mv_unitCostMinor :: "int option"
  mv_note :: "string option"
  mv_createdAt :: instant

datatype sale_status = Completada | RechazadaPorConflicto

record sale = row +
  s_memberId :: uuid
  s_deviceId :: uuid
  s_occurredAt :: instant
  s_receivedAt :: instant
  s_currency :: string
  s_status :: sale_status
  s_totalMinor :: "int option"
  s_paymentMethod :: payment_method
  s_cashReceivedMinor :: "int option"
  s_requestFingerprint :: "string option"
  s_changeMinor :: "int option"
  s_conflictReason :: "string option"
  s_conflictDetectedAt :: "instant option"

record sale_item = row +
  si_saleId :: uuid
  si_productId :: uuid
  si_quantity :: int
  si_unitPriceMinor :: int
  si_subtotalMinor :: int
  si_unitCostMinor :: "int option"

datatype incidencia_type = ConflictoStock | IncidenciaFecha
datatype resolution_status = PorResolver | Resuelta

record incidencia = row +
  in_saleId :: uuid
  in_type :: incidencia_type
  in_reason :: string
  in_detectedAt :: instant
  in_resolutionStatus :: resolution_status
  in_resolvedByMemberId :: "uuid option"
  in_resolvedAt :: "instant option"
  in_resolutionNotes :: "string option"

record app_settings =
  as_contextId :: string
  as_defaultCommissionRateBps :: int

record deudor = row +
  dr_nombre :: string
  dr_telefono :: "string option"
  dr_notas :: "string option"

datatype deuda_type = Fiado | Apartado
datatype deuda_status = Pendiente | Saldada

record deuda = row +
  du_requestFingerprint :: "string option"
  du_creationResponse :: "jsval option"
  du_type :: deuda_type
  du_deudorId :: uuid
  du_productId :: uuid
  du_cantidad :: int
  du_totalMinor :: int
  du_status :: deuda_status
  du_unitCostMinor :: "int option"
  du_saldadaAt :: "instant option"
  du_createdByMemberId :: uuid
  du_createdAt :: instant

record abono = row +
  ab_deudaId :: uuid
  ab_montoMinor :: int
  ab_receivedByMemberId :: uuid
  ab_receivedAt :: instant
  ab_nota :: "string option"
  ab_paymentMethod :: payment_method

record cuota = row +
  cu_deudaId :: uuid
  cu_fechaEsperada :: instant
  cu_montoEsperadoMinor :: int
  cu_createdAt :: instant

text \<open>The finance tables are append-only facts: who recorded what, and the receipt they were given.\<close>

record fact = row +
  f_occurredAt :: instant
  f_receivedAt :: instant
  f_createdByMemberId :: uuid
  f_createdByAccountId :: uuid
  f_deviceId :: uuid
  f_requestFingerprint :: string
  f_creationResponse :: jsval

text \<open>A reversal voids the fact \<open>rev_target\<close>; there is one table of them per kind of fact.\<close>

record reversal = fact +
  rev_target :: uuid
  rev_reason :: string

text \<open>A correction is a reversal that may name the fact recorded in its place.\<close>

record correction = reversal +
  rev_replacementId :: "uuid option"

record expense = fact +
  ex_nature :: string
  ex_category :: string
  ex_description :: string
  ex_paidByMemberId :: uuid
  ex_fundsSource :: string
  ex_currency :: string
  ex_amountMinor :: int

record contribution = fact +
  co_memberId :: uuid
  co_amountMinor :: int
  co_currency :: string
  co_note :: "string option"

record work_shift = row +
  ws_memberId :: uuid
  ws_workDate :: instant
  ws_minutes :: "int option"
  ws_note :: "string option"
  ws_receivedAt :: instant
  ws_createdByMemberId :: uuid
  ws_createdByAccountId :: uuid
  ws_deviceId :: uuid
  ws_requestFingerprint :: string
  ws_creationResponse :: jsval

record reserve = fact +
  rs_name :: string
  rs_amountMinor :: int
  rs_currency :: string
  rs_periodFrom :: instant
  rs_periodTo :: instant
  rs_note :: "string option"

record agreement = fact +
  ag_folio :: string
  ag_periodFrom :: instant
  ag_periodTo :: instant
  ag_requestedAmountMinor :: int
  ag_partnerShareBps :: int
  ag_workShareBps :: int
  ag_workBasis :: string
  ag_partnerMode :: string
  ag_currency :: string
  ag_financialStatus :: string
  ag_potentiallyAvailableMinor :: int
  ag_partnerPoolMinor :: int
  ag_workPoolMinor :: int
  ag_distributedMinor :: int
  ag_undistributedMinor :: int
  ag_algorithmVersion :: int
  ag_title :: string
  ag_note :: "string option"
  ag_replacesAgreementId :: "uuid option"
  ag_createdByMemberName :: string
  ag_snapshotFingerprint :: string
  ag_warningsSnapshot :: jsval

text \<open>The primary key of a participant is the pair of its agreement and its member.\<close>

record participant =
  pt_agreementId :: uuid
  pt_contextId :: string
  pt_memberId :: uuid
  pt_memberName :: string
  pt_role :: string
  pt_isActive :: bool
  pt_partnerEligible :: bool
  pt_partnerAmountMinor :: int
  pt_workUnits :: int
  pt_shiftCount :: int
  pt_knownMinutes :: int
  pt_unknownDurationCount :: int
  pt_workAmountMinor :: int
  pt_totalMinor :: int

record counter =
  ct_contextId :: string
  ct_year :: int
  ct_lastNumber :: int

record payment = fact +
  py_agreementId :: uuid
  py_participantMemberId :: uuid
  py_amountMinor :: int
  py_currency :: string
  py_note :: "string option"

text \<open>The rules of a business: a version, the links that ask for an answer, and the answers.\<close>

record rule_set = row +
  fr_version :: int
  fr_status :: string
  fr_config :: rules_config
  fr_configHash :: string
  fr_proposedByMemberId :: uuid
  fr_proposedByAccountId :: uuid
  fr_createdAt :: instant
  fr_updatedAt :: instant
  fr_submittedAt :: "instant option"
  fr_activatedAt :: "instant option"
  fr_supersededAt :: "instant option"
  fr_withdrawnAt :: "instant option"
  fr_basedOnId :: "uuid option"
  fr_changeSummary :: "rule_change list option"
  fr_inReviewAt :: "instant option"
  fr_discardedAt :: "instant option"
  fr_closedNote :: "string option"

record rule_link = row +
  lk_ruleSetId :: uuid
  lk_memberId :: uuid
  lk_correo :: string
  lk_tokenHash :: string
  lk_kind :: string
  lk_sentByMemberId :: uuid
  lk_emailSent :: bool
  lk_createdAt :: instant
  lk_expiresAt :: instant
  lk_usedAt :: "instant option"
  lk_supersededAt :: "instant option"

record rule_approval = row +
  ra_ruleSetId :: uuid
  ra_memberId :: uuid
  ra_approvedByAccountId :: "uuid option"
  ra_approvedHash :: string
  ra_approvedAt :: instant
  ra_correo :: "string option"
  ra_linkId :: "uuid option"

record rule_objection = row +
  ro_ruleSetId :: uuid
  ro_memberId :: uuid
  ro_linkId :: uuid
  ro_correo :: string
  ro_reason :: string
  ro_createdAt :: instant

record db =
  accounts :: "account list"
  members :: "member list"
  devices :: "device list"
  products :: "product list"
  sales :: "sale list"
  saleItems :: "sale_item list"
  incidencias :: "incidencia list"
  appSettings :: "app_settings list"
  deudores :: "deudor list"
  deudas :: "deuda list"
  abonos :: "abono list"
  cuotas :: "cuota list"
  expenses :: "expense list"
  expenseReversals :: "correction list"
  contributions :: "contribution list"
  contributionReversals :: "correction list"
  workShifts :: "work_shift list"
  workShiftReversals :: "correction list"
  reserves :: "reserve list"
  reserveReversals :: "reversal list"
  agreements :: "agreement list"
  agreementReversals :: "reversal list"
  participants :: "participant list"
  counters :: "counter list"
  payments :: "payment list"
  paymentReversals :: "reversal list"
  productAudits :: "product_audit list"
  stockMovements :: "stock_movement list"
  ruleSets :: "rule_set list"
  ruleLinks :: "rule_link list"
  ruleApprovals :: "rule_approval list"
  ruleObjections :: "rule_objection list"

definition empty_db :: db where
  "empty_db = \<lparr>accounts = [], members = [], devices = [], products = [], sales = [], saleItems = [],
     incidencias = [], appSettings = [], deudores = [], deudas = [], abonos = [], cuotas = [],
     expenses = [], expenseReversals = [], contributions = [], contributionReversals = [],
     workShifts = [], workShiftReversals = [], reserves = [], reserveReversals = [], agreements = [],
     agreementReversals = [], participants = [], counters = [], payments = [], paymentReversals = [],
     productAudits = [], stockMovements = [], ruleSets = [], ruleLinks = [], ruleApprovals = [],
     ruleObjections = []\<rparr>"

section \<open>Queries and writes\<close>

text \<open>\<open>findMany({where: {contextId}})\<close> and \<open>findFirst({where: {id, contextId}})\<close>.\<close>

definition in_context :: "string \<Rightarrow> ('a row_scheme) list \<Rightarrow> ('a row_scheme) list" where
  "in_context c rows = filter (\<lambda>r. ctx r = c) rows"

definition find_row :: "string \<Rightarrow> uuid \<Rightarrow> ('a row_scheme) list \<Rightarrow> 'a row_scheme option" where
  "find_row c i rows = find (\<lambda>r. rid r = i \<and> ctx r = c) rows"

text \<open>\<open>create\<close> fails with P2002 when the primary key exists, in whatever context.\<close>

definition insert_row :: "string \<Rightarrow> 'a row_scheme \<Rightarrow> ('a row_scheme) list \<Rightarrow> ('a row_scheme) list result" where
  "insert_row model r rows =
     (if rid r \<in> set (map rid rows) then Inl (UniqueViolation model) else Inr (rows @ [r]))"

definition update_row ::
  "string \<Rightarrow> uuid \<Rightarrow> ('a row_scheme \<Rightarrow> 'a row_scheme) \<Rightarrow> ('a row_scheme) list \<Rightarrow> ('a row_scheme) list"
where
  "update_row c i f rows = map (\<lambda>r. if rid r = i \<and> ctx r = c then f r else r) rows"

text \<open>\<open>reversal: {is: null}\<close>: no reversal of the row in its context.\<close>

definition reversal_of :: "('b reversal_scheme) list \<Rightarrow> 'a row_scheme \<Rightarrow> 'b reversal_scheme option" where
  "reversal_of revs r = find (\<lambda>v. rev_target v = rid r \<and> ctx v = ctx r) revs"

definition active :: "('b reversal_scheme) list \<Rightarrow> 'a row_scheme \<Rightarrow> bool" where
  "active revs r \<longleftrightarrow> reversal_of revs r = None"

text \<open>A transaction commits the state its body returns, or nothing when the body throws.\<close>

definition transaction :: "(db \<Rightarrow> ('a \<times> db) result) \<Rightarrow> db \<Rightarrow> 'a result \<times> db" where
  "transaction body d = (case body d of Inl e \<Rightarrow> (Inl e, d) | Inr (x, d') \<Rightarrow> (Inr x, d'))"

text \<open>
  A transaction under READ COMMITTED that reads and checks, waits for a row lock and then reads again
  and writes: \<open>checks\<close> throws, answers from what is stored or hands over what it read, \<open>w\<close> is what
  the other transactions commit before the lock is granted and \<open>commit\<close> runs in that state.
\<close>

definition locked_tx ::
  "('s \<Rightarrow> ('r + 'x) result) \<Rightarrow> ('s \<Rightarrow> 's) \<Rightarrow> ('x \<Rightarrow> 's \<Rightarrow> ('r \<times> 's) result) \<Rightarrow> 's \<Rightarrow> (bool \<times> 'r) result \<times> 's"
where
  "locked_tx checks w commit d =
     (case checks d of
        Inl e \<Rightarrow> (Inl e, d)
      | Inr (Inl receipt) \<Rightarrow> (Inr (False, receipt), d)
      | Inr (Inr read) \<Rightarrow>
          (case commit read (w d) of Inl e \<Rightarrow> (Inl e, w d) | Inr (receipt, d') \<Rightarrow> (Inr (True, receipt), d')))"

lemma locked_tx_cases:
  assumes "locked_tx checks w commit d = (out, d')"
  obtains (refused) e where "out = Inl e" "d' = d" "checks d = Inl e"
  | (failed) e x where "out = Inl e" "d' = w d" "checks d = Inr (Inr x)" "commit x (w d) = Inl e"
  | (replay) r where "out = Inr (False, r)" "d' = d" "checks d = Inr (Inl r)"
  | (committed) x r where "out = Inr (True, r)" "checks d = Inr (Inr x)" "commit x (w d) = Inr (r, d')"
  using assms by (auto simp: locked_tx_def split: sum.splits prod.splits)

section \<open>Actors\<close>

record actor =
  act_accountId :: uuid
  act_contextId :: string
  act_selection :: "(uuid \<times> uuid) option"

text \<open>
  The check every finance write repeats inside its transaction, under FOR SHARE locks: the account
  is active and bound to the acting member (or to nobody), the member is an active socio and the
  device is authorized. It returns the acting member's name.
\<close>

definition authorize_socio :: "db \<Rightarrow> actor \<Rightarrow> string result" where
  "authorize_socio d actor =
     (case act_selection actor of
        None \<Rightarrow> Inl Forbidden
      | Some (memberId, deviceId) \<Rightarrow>
         (case (find (\<lambda>a. rid a = act_accountId actor \<and> ctx a = act_contextId actor \<and> acc_active a
                        \<and> (acc_memberId a = None \<or> acc_memberId a = Some memberId)) (accounts d),
                find (\<lambda>m. rid m = memberId \<and> ctx m = act_contextId actor \<and> m_active m \<and> m_role m = Socio)
                  (members d),
                find (\<lambda>v. rid v = deviceId \<and> ctx v = act_contextId actor \<and> d_authorized v) (devices d)) of
            (Some _, Some m, Some _) \<Rightarrow> Inr (m_name m)
          | _ \<Rightarrow> Inl Forbidden))"

text \<open>
  The check of sales and deudas: the account is active, the member active (and a socio where the
  operation asks for one) and the device authorized. It returns the member and the device.
\<close>

definition authorize_actor :: "db \<Rightarrow> actor \<Rightarrow> bool \<Rightarrow> (uuid \<times> uuid) result" where
  "authorize_actor d actor requireSocio =
     (case act_selection actor of
        None \<Rightarrow> Inl Forbidden
      | Some (memberId, deviceId) \<Rightarrow>
         (case (find (\<lambda>a. rid a = act_accountId actor \<and> ctx a = act_contextId actor \<and> acc_active a) (accounts d),
                find (\<lambda>m. rid m = memberId \<and> ctx m = act_contextId actor \<and> m_active m
                        \<and> (requireSocio \<longrightarrow> m_role m = Socio)) (members d),
                find (\<lambda>v. rid v = deviceId \<and> ctx v = act_contextId actor \<and> d_authorized v) (devices d)) of
            (Some _, Some m, Some v) \<Rightarrow> Inr (rid m, rid v)
          | _ \<Rightarrow> Inl Forbidden))"

lemma authorize_socio_tables:
  assumes a: "accounts d' = accounts d" and b: "members d' = members d" and c: "devices d' = devices d"
  shows "authorize_socio d' actor = authorize_socio d actor"
  unfolding authorize_socio_def a b c by (rule refl)

section \<open>Text\<close>

text \<open>\<open>date.toISOString()\<close> for the years 0 to 9999.\<close>

definition two_digits :: "int \<Rightarrow> string" where
  "two_digits i = pad_start 2 (CHR ''0'') (show_int i)"

definition to_iso :: "instant \<Rightarrow> string" where
  "to_iso t =
     (let ms = time_in_day t in
      iso_date_part t @ ''T'' @ two_digits (ms div 3600000) @ '':'' @ two_digits (ms div 60000 mod 60)
      @ '':'' @ two_digits (ms div 1000 mod 60) @ ''.''
      @ pad_start 3 (CHR ''0'') (show_int (ms mod 1000)) @ ''Z'')"

text \<open>\<open>s.toLowerCase()\<close> on the letters an identifier has, and \<open>s.trim()\<close> on ASCII white space.\<close>

definition lower :: "char \<Rightarrow> char" where
  "lower c = (if CHR ''A'' \<le> c \<and> c \<le> CHR ''Z'' then char_of ((of_char c :: nat) + 32) else c)"

definition toLowerCase :: "string \<Rightarrow> string" where
  "toLowerCase s = map lower s"

definition is_space :: "char \<Rightarrow> bool" where
  "is_space c \<longleftrightarrow> c \<in> {CHR '' '', CHR 0x09, CHR 0x0A, CHR 0x0B, CHR 0x0C, CHR 0x0D, CHR 0xA0}"

definition trim :: "string \<Rightarrow> string" where
  "trim s = rev (dropWhile is_space (rev (dropWhile is_space s)))"

text \<open>\<open>a.localeCompare(b)\<close> on UUIDs: punctuation before digits before letters, letters compared without
  case, and only for texts that are otherwise the same the lower case letter first.\<close>

definition primary_weight :: "char \<Rightarrow> nat" where
  "primary_weight c = (if is_digit c then 1 + digit_val c
     else if c = CHR ''-'' then 0 else of_char (lower c))"

definition collation_key :: "string \<Rightarrow> nat list \<times> nat list" where
  "collation_key s = (map primary_weight s, map (\<lambda>c. if lower c = c then 0 else 1) s)"

definition json_option :: "('a \<Rightarrow> jsval) \<Rightarrow> 'a option \<Rightarrow> jsval" where
  "json_option f x = (case x of None \<Rightarrow> JNull | Some y \<Rightarrow> f y)"

section \<open>Facts on rows\<close>

lemma find_row_Some: "find_row c i rows = Some r \<Longrightarrow> r \<in> set rows \<and> rid r = i \<and> ctx r = c"
  by (auto simp: find_row_def dest: find_Some_set)

lemma find_row_None: "find_row c i rows = None \<longleftrightarrow> (\<forall>r \<in> set rows. \<not> (rid r = i \<and> ctx r = c))"
  by (simp add: find_row_def find_None_set)

lemma insert_row_Inr: "insert_row model r rows = Inr rows' \<Longrightarrow> rows' = rows @ [r] \<and> rid r \<notin> rid ` set rows"
  by (auto simp: insert_row_def split: if_splits)

lemma insert_row_Inl: "insert_row model r rows = Inl e \<Longrightarrow> e = UniqueViolation model \<and> rid r \<in> rid ` set rows"
  by (auto simp: insert_row_def split: if_splits)

lemma find_row_insert:
  assumes "insert_row model r rows = Inr rows'"
  shows "find_row c i rows' = (if rid r = i \<and> ctx r = c then Some r else find_row c i rows)"
proof (cases "rid r = i \<and> ctx r = c")
  case True
  then have "find_row c i rows = None" using insert_row_Inr [OF assms] by (auto simp: find_row_None image_iff)
  then show ?thesis using insert_row_Inr [OF assms] True by (simp add: find_row_def find_append)
next
  case False
  then show ?thesis using insert_row_Inr [OF assms]
    by (auto simp: find_row_def find_append split: option.splits)
qed

lemma find_row_distinct:
  assumes "distinct (map rid rows)" "r \<in> set rows" "rid r = i" "ctx r = c"
  shows "find_row c i rows = Some r"
proof (cases "find_row c i rows")
  case None
  with assms show ?thesis by (auto simp: find_row_None)
next
  case (Some x)
  then have "x \<in> set rows" "rid x = i" by (auto dest: find_row_Some)
  with assms have "x = r" by (metis distinct_map inj_onD)
  with Some show ?thesis by simp
qed

lemma map_rid_update_row:
  "(\<And>r. rid (f r) = rid r) \<Longrightarrow> map rid (update_row c i f rows) = map rid rows"
  by (simp add: update_row_def)

lemma transaction_error: "transaction body d = (Inl e, d') \<Longrightarrow> d' = d"
  by (auto simp: transaction_def split: sum.splits prod.splits)

lemma active_iff: "active revs r \<longleftrightarrow> (\<forall>v \<in> set revs. \<not> (rev_target v = rid r \<and> ctx v = ctx r))"
  by (simp add: active_def reversal_of_def find_None_set)

lemma active_snoc: "active (revs @ [v]) r \<longleftrightarrow> active revs r \<and> \<not> (rev_target v = rid r \<and> ctx v = ctx r)"
  by (auto simp: active_iff)

text \<open>Reversing one active row takes its amount, and only its amount, out of a sum of active rows.\<close>

lemma sum_active_reverse:
  fixes f :: "'a row_scheme \<Rightarrow> int"
  assumes "distinct (map rid rows)" "r \<in> set rows" "active revs r" "rev_target v = rid r" "ctx v = ctx r" "P r"
  shows "sum_list (map f [x \<leftarrow> rows. P x \<and> active (revs @ [v]) x])
       = sum_list (map f [x \<leftarrow> rows. P x \<and> active revs x]) - f r"
  using assms(1,2)
proof (induction rows)
  case (Cons a rows)
  show ?case
  proof (cases "a = r")
    case True
    with Cons.prems(1) have "\<forall>x \<in> set rows. rid x \<noteq> rid r" by (auto simp: image_iff)
    then have "[x \<leftarrow> rows. P x \<and> active (revs @ [v]) x] = [x \<leftarrow> rows. P x \<and> active revs x]"
      using assms(4) by (intro filter_cong) (auto simp: active_snoc)
    with True assms show ?thesis by (simp add: active_snoc)
  next
    case False
    with Cons.prems have "r \<in> set rows" "rid a \<noteq> rid r" by (auto simp: rev_image_eqI)
    with Cons assms(4) show ?thesis by (auto simp: active_snoc)
  qed
qed simp

text \<open>Reversing an active row, whether or not it is one of those summed.\<close>

lemma sum_active_reversed:
  fixes f :: "'a row_scheme \<Rightarrow> int"
  assumes "distinct (map rid rows)" "r \<in> set rows" "active revs r" "rev_target v = rid r" "ctx v = ctx r"
  shows "sum_list (map f [x \<leftarrow> rows. P x \<and> active (revs @ [v]) x])
       = sum_list (map f [x \<leftarrow> rows. P x \<and> active revs x]) - (if P r then f r else 0)"
proof (cases "P r")
  case True
  with sum_active_reverse [OF assms, of P f] show ?thesis by simp
next
  case False
  have "x = r" if "x \<in> set rows" "rid x = rid r" for x
    using that assms(1,2) by (metis distinct_map inj_onD)
  then have "[x \<leftarrow> rows. P x \<and> active (revs @ [v]) x] = [x \<leftarrow> rows. P x \<and> active revs x]"
    using False assms(4) by (intro filter_cong) (auto simp: active_snoc)
  with False show ?thesis by simp
qed

end
