(* ===== verification/Sample.thy ===== *)
theory Sample
  imports Schema
begin

text \<open>
  A small bazar with one business, used to evaluate the operations on concrete input: two partners,
  a colaborador, one tablet, two products, two sales, an expense and two shifts of January and
  February 2026.
\<close>

definition sample_member :: "uuid \<Rightarrow> string \<Rightarrow> member_role \<Rightarrow> int option \<Rightarrow> string \<Rightarrow> int \<Rightarrow> member" where
  "sample_member i name role rate correo k = \<lparr>rid = i, ctx = ''t1'', m_name = name, m_role = role, m_active = True,
     m_commissionRateBps = rate, m_correo = Some correo, m_createdAt = 1767000000000 + k, m_createdByMemberId = None\<rparr>"

declare sample_member_def [simp]

definition sample_product :: "uuid \<Rightarrow> int \<Rightarrow> int \<Rightarrow> int \<Rightarrow> int option \<Rightarrow> product" where
  "sample_product i price initial stock cost = \<lparr>rid = i, ctx = ''t1'', p_name = i, p_tipo = Cantidad,
     p_unitPriceMinor = price, p_imagePath = None, p_initialStock = initial, p_stock = stock, p_category = None,
     p_purchaseCostMinor = cost, p_supplier = None, p_notes = None, p_brand = None, p_presentation = None,
     p_description = None, p_createdAt = 1767000000000, p_active = True\<rparr>"

definition sample_sale :: "uuid \<Rightarrow> instant \<Rightarrow> int \<Rightarrow> sale" where
  "sample_sale i t amount = \<lparr>rid = i, ctx = ''t1'', s_memberId = ''m3'', s_deviceId = ''d1'', s_occurredAt = t,
     s_receivedAt = t, s_currency = ''MXN'', s_status = Completada, s_totalMinor = Some amount,
     s_paymentMethod = TARJETA, s_cashReceivedMinor = None, s_requestFingerprint = None,
     s_changeMinor = None, s_conflictReason = None, s_conflictDetectedAt = None\<rparr>"

definition sample_item :: "uuid \<Rightarrow> uuid \<Rightarrow> int \<Rightarrow> int \<Rightarrow> int option \<Rightarrow> sale_item" where
  "sample_item i s q p c = \<lparr>rid = i, ctx = ''t1'', si_saleId = s, si_productId = ''p1'', si_quantity = q,
     si_unitPriceMinor = p, si_subtotalMinor = q * p, si_unitCostMinor = c\<rparr>"

definition sample_expense :: "uuid \<Rightarrow> instant \<Rightarrow> int \<Rightarrow> expense" where
  "sample_expense i t amount = \<lparr>rid = i, ctx = ''t1'', f_occurredAt = t, f_receivedAt = t,
     f_createdByMemberId = ''m1'', f_createdByAccountId = ''a1'', f_deviceId = ''d1'',
     f_requestFingerprint = [], f_creationResponse = JNull, ex_nature = ''OPERATING_EXPENSE'',
     ex_category = ''transport'', ex_description = ''flete'', ex_paidByMemberId = ''m1'', ex_fundsSource = ''BUSINESS'',
     ex_currency = ''MXN'', ex_amountMinor = amount\<rparr>"

definition sample_shift :: "uuid \<Rightarrow> uuid \<Rightarrow> string \<Rightarrow> int option \<Rightarrow> work_shift" where
  "sample_shift i m day k = \<lparr>rid = i, ctx = ''t1'', ws_memberId = m, ws_workDate = utc_date day, ws_minutes = k,
     ws_note = None, ws_receivedAt = 1768100000000, ws_createdByMemberId = ''m1'', ws_createdByAccountId = ''a1'',
     ws_deviceId = ''d1'', ws_requestFingerprint = [], ws_creationResponse = JNull\<rparr>"

definition sample_db :: db where
  "sample_db = empty_db\<lparr>
     accounts := [\<lparr>rid = ''a1'', ctx = ''t1'', acc_username = ''ana'', acc_passwordHash = [], acc_active = True, acc_createdAt = 1767000000000, acc_memberId = Some ''m1''\<rparr>,
                  \<lparr>rid = ''a3'', ctx = ''t1'', acc_username = ''carla'', acc_passwordHash = [], acc_active = True, acc_createdAt = 1767000000000, acc_memberId = Some ''m3''\<rparr>],
     members := [sample_member ''m1'' ''Ana'' Socio None ''ana@x.mx'' 0, sample_member ''m2'' ''Beto'' Socio None ''beto@x.mx'' 1,
                 sample_member ''m3'' ''Carla'' Colaborador (Some 500) ''carla@x.mx'' 2],
     devices := [\<lparr>rid = ''d1'', ctx = ''t1'', d_name = ''Tablet'', d_identifier = ''c1'', d_authorized = True,
                   d_createdAt = 1767000000000, d_status = Activo, d_tokenHash = None, d_activatedAt = None, d_revokedAt = None\<rparr>],
     products := [sample_product ''p1'' 2500 13 10 (Some 1000), sample_product ''p2'' 700 3 3 None],
     sales := [sample_sale ''s1'' 1768000000000 5000, sample_sale ''s2'' 1770200000000 700],
     saleItems := [sample_item ''i1'' ''s1'' 2 2500 (Some 1000), sample_item ''i2'' ''s2'' 1 700 None],
     expenses := [sample_expense ''e1'' 1768100000000 600],
     workShifts := [sample_shift ''w1'' ''m1'' ''2026-01-05'' (Some 300), sample_shift ''w2'' ''m3'' ''2026-01-07'' None]\<rparr>"

definition ana :: actor where
  "ana = \<lparr>act_accountId = ''a1'', act_contextId = ''t1'', act_selection = Some (''m1'', ''d1'')\<rparr>"

definition carla :: actor where
  "carla = \<lparr>act_accountId = ''a3'', act_contextId = ''t1'', act_selection = Some (''m3'', ''d1'')\<rparr>"

text \<open>The identifiers of the samples, with the case folding of the services applied.\<close>

lemma sample_ids [simplified]:
  "map toLowerCase [''K1'', ''k1'', ''k2'', ''v1'', ''m1'', ''M1'', ''m2'', ''m3'', ''d1'', ''e1'', ''E1'', ''e2'', ''w1'', ''W1'', ''w2'', ''w3'']
     = [''k1'', ''k1'', ''k2'', ''v1'', ''m1'', ''m1'', ''m2'', ''m3'', ''d1'', ''e1'', ''e1'', ''e2'', ''w1'', ''w1'', ''w2'', ''w3'']"
  by code_simp

end
