(* ===== verification/Overview.thy ===== *)
theory Overview
  imports Schema Sample
begin

text \<open>
  The financial overview of a period (\<open>src/finance/finance-overview.service.ts\<close>): sales, recorded
  costs, expenses, contributions, shifts and reserves read in one snapshot. The amount it calls
  potentially available is the base of every distribution.
\<close>

section \<open>The result\<close>

record overview_period =
  op_from :: string
  op_to :: string
  op_fromInstant :: string
  op_toInstant :: string
  op_utcOffsetMinutes :: int
  op_interval :: string

datatype coverage = Complete | Partial

fun show_coverage :: "coverage \<Rightarrow> string" where
  "show_coverage Complete = ''complete''"
| "show_coverage Partial = ''partial''"

record overview_figures =
  ov_currency :: string
  ov_period :: overview_period
  ov_saleCount :: int
  ov_salesMinor :: int
  ov_recordedCostMinor :: int
  ov_recordedGrossMarginMinor :: int
  ov_status :: coverage
  ov_totalLineCount :: int
  ov_knownCostLineCount :: int
  ov_missingCostLineCount :: int
  ov_missingCostUnitCount :: int
  ov_salesWithoutCostMinor :: int
  ov_operatingMinor :: int
  ov_inventoryPurchasesMinor :: int
  ov_contributionsMinor :: int
  ov_contributionCount :: int
  ov_shiftCount :: int
  ov_knownMinutes :: int
  ov_unknownDurationCount :: int
  ov_reserveCount :: int
  ov_plannedMinor :: int
  ov_recordedOperatingResultMinor :: int
  ov_potentiallyAvailableMinor :: int
  ov_warnings :: "(string \<times> string) list"

section \<open>The computation\<close>

definition safeNumber :: "int \<Rightarrow> int result" where
  "safeNumber v =
     (if v > MAX_SAFE_INTEGER \<or> v < - MAX_SAFE_INTEGER
      then Inl (Unprocessable ''FINANCE_OVERVIEW_OVERFLOW'') else Inr v)"

text \<open>The rows the queries select; \<open>from\<close> is inclusive and \<open>to\<close> exclusive.\<close>

definition within :: "instant \<Rightarrow> instant \<Rightarrow> instant \<Rightarrow> bool" where
  "within lo hi t \<longleftrightarrow> lo \<le> t \<and> t < hi"

definition sales_in :: "db \<Rightarrow> string \<Rightarrow> instant \<Rightarrow> instant \<Rightarrow> sale list" where
  "sales_in d c lo hi = [s \<leftarrow> in_context c (sales d). s_status s = Completada \<and> within lo hi (s_occurredAt s)]"

definition items_of :: "db \<Rightarrow> sale \<Rightarrow> sale_item list" where
  "items_of d s = [i \<leftarrow> in_context (ctx s) (saleItems d). si_saleId i = rid s]"

definition expenses_in :: "db \<Rightarrow> string \<Rightarrow> instant \<Rightarrow> instant \<Rightarrow> expense list" where
  "expenses_in d c lo hi =
     [e \<leftarrow> in_context c (expenses d). within lo hi (f_occurredAt e) \<and> active (expenseReversals d) e]"

definition contributions_in :: "db \<Rightarrow> string \<Rightarrow> instant \<Rightarrow> instant \<Rightarrow> contribution list" where
  "contributions_in d c lo hi =
     [e \<leftarrow> in_context c (contributions d). within lo hi (f_occurredAt e) \<and> active (contributionReversals d) e]"

definition shifts_in :: "db \<Rightarrow> string \<Rightarrow> string \<Rightarrow> string \<Rightarrow> work_shift list" where
  "shifts_in d c from to =
     [w \<leftarrow> in_context c (workShifts d). active (workShiftReversals d) w
        \<and> within (utc_date from) (utc_date to) (ws_workDate w)]"

definition reserves_of :: "db \<Rightarrow> string \<Rightarrow> string \<Rightarrow> string \<Rightarrow> reserve list" where
  "reserves_of d c from to =
     [r \<leftarrow> in_context c (reserves d). rs_periodFrom r = utc_date from \<and> rs_periodTo r = utc_date to
        \<and> active (reserveReversals d) r]"

text \<open>The running sums of the loop over the sales, and of the inner loop over the lines of one sale.\<close>

record sale_sums =
  ss_salesMinor :: int
  ss_costMinor :: int
  ss_missingUnits :: int
  ss_uncostedRevenue :: int
  ss_totalLines :: int
  ss_knownLines :: int

definition no_sums :: sale_sums where
  "no_sums = \<lparr>ss_salesMinor = 0, ss_costMinor = 0, ss_missingUnits = 0, ss_uncostedRevenue = 0,
     ss_totalLines = 0, ss_knownLines = 0\<rparr>"

fun line_loop :: "sale_item list \<Rightarrow> sale_sums \<Rightarrow> sale_sums" where
  "line_loop [] a = a"
| "line_loop (item # items) a =
     (let a1 = a\<lparr>ss_totalLines := ss_totalLines a + 1\<rparr> in
      line_loop items
        (case si_unitCostMinor item of
           None \<Rightarrow> a1\<lparr>ss_missingUnits := ss_missingUnits a1 + si_quantity item,
                      ss_uncostedRevenue := ss_uncostedRevenue a1 + si_subtotalMinor item\<rparr>
         | Some cost \<Rightarrow> a1\<lparr>ss_knownLines := ss_knownLines a1 + 1,
                           ss_costMinor := ss_costMinor a1 + cost * si_quantity item\<rparr>))"

fun sale_loop :: "db \<Rightarrow> sale list \<Rightarrow> sale_sums \<Rightarrow> sale_sums result" where
  "sale_loop d [] a = Inr a"
| "sale_loop d (s # ss) a =
     (case s_totalMinor s of
        None \<Rightarrow> Inl (Unprocessable ''FINANCE_OVERVIEW_INVALID_RECORDED_SALE'')
      | Some t \<Rightarrow>
          sale_loop d ss (line_loop (items_of d s) (a\<lparr>ss_salesMinor := ss_salesMinor a + t\<rparr>)))"

fun expense_loop :: "expense list \<Rightarrow> int \<Rightarrow> int \<Rightarrow> (int \<times> int) result" where
  "expense_loop [] operating inventory = Inr (operating, inventory)"
| "expense_loop (e # es) operating inventory =
     (if ex_nature e = ''OPERATING_EXPENSE'' then expense_loop es (operating + ex_amountMinor e) inventory
      else if ex_nature e = ''INVENTORY_PURCHASE'' then expense_loop es operating (inventory + ex_amountMinor e)
      else Inl (Unprocessable ''FINANCE_OVERVIEW_INVALID_EXPENSE_NATURE''))"

definition overview_warnings :: "int \<Rightarrow> (string \<times> string) list" where
  "overview_warnings missingLines =
     (if missingLines \<noteq> 0
      then [(''MISSING_SALE_COST'',
             ''Some sold lines have no recorded cost; downstream results are partial.'')]
      else [])
     @ [(''SYNC_TIME_COST_NO_LOT_VALUATION'',
         ''Sale costs are snapshots captured when processed by the server, not historical lot valuations.''),
        (''NOT_CASH_OR_WITHDRAWABLE_PROFIT'',
         ''Cash, commitments, capital recovery and compensation are not reconciled.'')]"

text \<open>
  Every \<open>safeNumber\<close> of the returned object throws the same error, so the order in which the object
  literal evaluates them does not show.
\<close>

definition compute :: "db \<Rightarrow> string \<Rightarrow> string \<Rightarrow> string \<Rightarrow> overview_figures result" where
  "compute d c from to =
     (let fromInstant = businessStart from;
          toInstant = businessStart to;
          ss = sales_in d c fromInstant toInstant;
          es = expenses_in d c fromInstant toInstant;
          cs = contributions_in d c fromInstant toInstant;
          ws = shifts_in d c from to;
          rs = reserves_of d c from to;
          plannedMinor = sum_list (map rs_amountMinor rs) in
      case sale_loop d ss no_sums of Inl e \<Rightarrow> Inl e
      | Inr a \<Rightarrow>
       (case expense_loop es 0 0 of Inl e \<Rightarrow> Inl e
        | Inr (operating, inventory) \<Rightarrow>
          (let contributionMinor = sum_list (map co_amountMinor cs);
               knownMinutes = sum_list (map (\<lambda>w. case ws_minutes w of None \<Rightarrow> 0 | Some m \<Rightarrow> m) ws);
               missingLines = ss_totalLines a - ss_knownLines a;
               grossMargin = ss_salesMinor a - ss_costMinor a;
               operatingResult = grossMargin - operating in
           if list_all (\<lambda>v. is_ok (safeNumber v))
                [ss_salesMinor a, ss_costMinor a, grossMargin, ss_missingUnits a, ss_uncostedRevenue a,
                 operating, inventory, contributionMinor, knownMinutes, plannedMinor, operatingResult,
                 operatingResult - plannedMinor]
           then Inr \<lparr>ov_currency = ''MXN'',
                  ov_period = \<lparr>op_from = from, op_to = to, op_fromInstant = to_iso fromInstant,
                    op_toInstant = to_iso toInstant, op_utcOffsetMinutes = BUSINESS_TZ_OFFSET_MINUTES,
                    op_interval = ''[from,to)''\<rparr>,
                  ov_saleCount = int (length ss),
                  ov_salesMinor = ss_salesMinor a,
                  ov_recordedCostMinor = ss_costMinor a,
                  ov_recordedGrossMarginMinor = grossMargin,
                  ov_status = (if missingLines \<noteq> 0 then Partial else Complete),
                  ov_totalLineCount = ss_totalLines a,
                  ov_knownCostLineCount = ss_knownLines a,
                  ov_missingCostLineCount = missingLines,
                  ov_missingCostUnitCount = ss_missingUnits a,
                  ov_salesWithoutCostMinor = ss_uncostedRevenue a,
                  ov_operatingMinor = operating,
                  ov_inventoryPurchasesMinor = inventory,
                  ov_contributionsMinor = contributionMinor,
                  ov_contributionCount = int (length cs),
                  ov_shiftCount = int (length ws),
                  ov_knownMinutes = knownMinutes,
                  ov_unknownDurationCount = int (length [w \<leftarrow> ws. ws_minutes w = None]),
                  ov_reserveCount = int (length rs),
                  ov_plannedMinor = plannedMinor,
                  ov_recordedOperatingResultMinor = operatingResult,
                  ov_potentiallyAvailableMinor = operatingResult - plannedMinor,
                  ov_warnings = overview_warnings missingLines\<rparr>
           else Inl (Unprocessable ''FINANCE_OVERVIEW_OVERFLOW''))))"

definition valid_period :: "string \<Rightarrow> string \<Rightarrow> bool" where
  "valid_period from to \<longleftrightarrow> isCalendarDate from \<and> isCalendarDate to \<and> from < to"

definition overview :: "db \<Rightarrow> string \<Rightarrow> string \<Rightarrow> string \<Rightarrow> overview_figures result" where
  "overview d c from to =
     (if \<not> isCalendarDate from \<or> \<not> isCalendarDate to \<or> \<not> from < to
      then Inl (BadRequest ''from and to must be valid YYYY-MM-DD dates with from preceding to'')
      else compute d c from to)"

text \<open>The tables an overview reads: a write to any other table leaves every overview as it is.\<close>

definition books :: "db \<Rightarrow> sale list \<times> sale_item list \<times> expense list \<times> correction list \<times> contribution list
  \<times> correction list \<times> work_shift list \<times> correction list \<times> reserve list \<times> reversal list" where
  "books d = (sales d, saleItems d, expenses d, expenseReversals d, contributions d, contributionReversals d,
     workShifts d, workShiftReversals d, reserves d, reserveReversals d)"

lemma sale_loop_items:
  assumes "saleItems d' = saleItems d"
  shows "sale_loop d' ss a = sale_loop d ss a"
proof (induction ss arbitrary: a)
  case (Cons s ss)
  have "items_of d' s = items_of d s" by (simp add: items_of_def assms)
  with Cons show ?case by (simp split: option.splits)
qed simp

lemma compute_books:
  assumes "books d' = books d"
  shows "compute d' c from to = compute d c from to"
proof -
  have "sale_loop d' = sale_loop d"
    by (intro ext) (rule sale_loop_items, use assms in \<open>simp add: books_def\<close>)
  with assms show ?thesis
    by (simp add: books_def compute_def sales_in_def expenses_in_def contributions_in_def shifts_in_def reserves_of_def)
qed

section \<open>Dates of a period\<close>

text \<open>\<open>businessStart\<close> is 06:00 UTC of the date, for the years 1 to 99 too.\<close>

lemma leap_1900: "1 \<le> y \<Longrightarrow> y \<le> 99 \<Longrightarrow> leap_year (1900 + y) = leap_year y"
proof -
  assume y: "1 \<le> y" "y \<le> 99"
  have m4: "(1900 + y) mod 4 = y mod 4" using mod_mult_self2 [of y 4 475] by (simp add: add.commute)
  have m100: "(1900 + y) mod 100 = y mod 100" using mod_mult_self2 [of y 100 19] by (simp add: add.commute)
  have "y mod 100 = y" using y by simp
  with y have "y mod 100 \<noteq> 0" by simp
  then show ?thesis unfolding leap_year_def m4 m100 by simp
qed

lemma businessStart_real:
  assumes r: "real_date y m d"
  shows "businessStart (fmt_ymd y m d) = utc_date (fmt_ymd y m d) + 21600000"
proof -
  have f: "fields_in_range y m d" using real_date_fields [OF r] by simp
  have v: "valid_ymd y m d" and y: "1 \<le> y" "y \<le> 9999" using r by (auto simp: real_date_def)
  have md: "1 \<le> m" "m \<le> 12" using v by (auto simp: valid_ymd_def)
  have year: "int (read_nat (take 4 (fmt_ymd y m d))) = y"
    using y unfolding fmt_ymd_fields(3) [OF f] by (intro fmt_num) auto
  let ?y = "if 0 \<le> y \<and> y \<le> 99 then 1900 + y else y"
  let ?n = "day_of_ymd ?y m d"
  have parse: "parseRangeBoundary (\<lambda>_. None) (fmt_ymd y m d) StartOfDay = Inr (?n * ms_per_day + 21600000)"
    using fmt_ymd_fields [OF f] md by (simp add: parseRangeBoundary_def from_local date_UTC_def make_day_valid)
  have v': "valid_ymd ?y m d" using v y leap_1900 [of y] by (auto simp: valid_ymd_def days_in_month_def)
  have n: "day_of (?n * ms_per_day + 21600000) = ?n" by (rule day_of_add) (simp_all add: ms_per_day_def)
  note g = getters_of_ymd [OF v' n]
  have t: "time_in_day (?n * ms_per_day + 21600000) = 21600000"
    by (simp add: time_in_day_def ms_per_day_def)
  show ?thesis
    unfolding businessStart_def parse sum.case year setUTCFullYear_def g(2,3) t utc_date_real [OF r]
    using md by (simp add: make_day_valid)
qed

lemma businessStart_date: "isCalendarDate s \<Longrightarrow> businessStart s = utc_date s + 21600000"
  unfolding isCalendarDate_iff using businessStart_real by auto

lemma utc_date_less:
  assumes "isCalendarDate a" "isCalendarDate b"
  shows "utc_date a < utc_date b \<longleftrightarrow> a < b"
proof -
  obtain y m d y' m' d' where a: "real_date y m d" "a = fmt_ymd y m d"
    and b: "real_date y' m' d'" "b = fmt_ymd y' m' d'"
    using assms unfolding isCalendarDate_iff by auto
  show ?thesis unfolding a(2) b(2) utc_date_real [OF a(1)] utc_date_real [OF b(1)]
    real_date_less [OF a(1) b(1)] by (simp add: ms_per_day_def)
qed

lemma utc_date_inj: "isCalendarDate a \<Longrightarrow> isCalendarDate b \<Longrightarrow> utc_date a = utc_date b \<Longrightarrow> a = b"
  using utc_date_less [of a b] utc_date_less [of b a] by auto

section \<open>The loops are sums\<close>

definition line_cost :: "sale_item \<Rightarrow> int" where
  "line_cost i = (case si_unitCostMinor i of None \<Rightarrow> 0 | Some c \<Rightarrow> c * si_quantity i)"

definition sale_lines :: "db \<Rightarrow> sale list \<Rightarrow> sale_item list" where
  "sale_lines d ss = concat (map (items_of d) ss)"

definition sale_total :: "sale \<Rightarrow> int" where
  "sale_total s = (case s_totalMinor s of None \<Rightarrow> 0 | Some t \<Rightarrow> t)"

definition costed :: "sale_item \<Rightarrow> bool" where
  "costed i \<longleftrightarrow> si_unitCostMinor i \<noteq> None"

text \<open>What a list of lines adds to the running sums.\<close>

definition add_lines :: "sale_item list \<Rightarrow> sale_sums \<Rightarrow> sale_sums" where
  "add_lines items a = \<lparr>ss_salesMinor = ss_salesMinor a,
     ss_costMinor = ss_costMinor a + sum_list (map line_cost items),
     ss_missingUnits = ss_missingUnits a + sum_list (map si_quantity [i \<leftarrow> items. \<not> costed i]),
     ss_uncostedRevenue = ss_uncostedRevenue a + sum_list (map si_subtotalMinor [i \<leftarrow> items. \<not> costed i]),
     ss_totalLines = ss_totalLines a + int (length items),
     ss_knownLines = ss_knownLines a + int (length [i \<leftarrow> items. costed i])\<rparr>"

lemma line_loop_sums: "line_loop items a = add_lines items a"
proof (induction items arbitrary: a)
  case (Cons i items)
  then show ?case by (cases "si_unitCostMinor i") (auto simp: add_lines_def line_cost_def costed_def Let_def)
qed (simp add: add_lines_def)

lemma sale_loop_sums:
  assumes "sale_loop d ss a = Inr b"
  shows "b = (add_lines (sale_lines d ss) a)\<lparr>ss_salesMinor := ss_salesMinor a + sum_list (map sale_total ss)\<rparr>
    \<and> (\<forall>s \<in> set ss. s_totalMinor s \<noteq> None)"
  using assms
proof (induction ss arbitrary: a)
  case (Cons s ss)
  then obtain t where t: "s_totalMinor s = Some t" by (cases "s_totalMinor s") auto
  have rest: "sale_loop d ss (line_loop (items_of d s) (a\<lparr>ss_salesMinor := ss_salesMinor a + t\<rparr>)) = Inr b"
    using Cons.prems t by simp
  from Cons.IH [OF this] t show ?case
    by (simp add: line_loop_sums sale_lines_def sale_total_def) (simp add: add_lines_def)
qed (simp add: sale_lines_def add_lines_def)

definition of_nature :: "string \<Rightarrow> expense \<Rightarrow> bool" where
  "of_nature n e \<longleftrightarrow> ex_nature e = n"

lemma expense_loop_sums:
  assumes "expense_loop es a b = Inr (x, y)"
  shows "x = a + sum_list (map ex_amountMinor [e \<leftarrow> es. of_nature ''OPERATING_EXPENSE'' e])
    \<and> y = b + sum_list (map ex_amountMinor [e \<leftarrow> es. of_nature ''INVENTORY_PURCHASE'' e])"
  using assms
proof (induction es arbitrary: a b)
  case (Cons e es)
  then consider "ex_nature e = ''OPERATING_EXPENSE''" "expense_loop es (a + ex_amountMinor e) b = Inr (x, y)"
    | "ex_nature e = ''INVENTORY_PURCHASE''" "expense_loop es a (b + ex_amountMinor e) = Inr (x, y)"
    by (auto split: if_splits)
  then show ?case
  proof cases
    case 1
    with Cons.IH [OF 1(2)] show ?thesis by (simp add: of_nature_def)
  next
    case 2
    with Cons.IH [OF 2(2)] show ?thesis by (simp add: of_nature_def)
  qed
qed simp

definition shift_minutes :: "work_shift \<Rightarrow> int" where
  "shift_minutes w = (case ws_minutes w of None \<Rightarrow> 0 | Some m \<Rightarrow> m)"

lemma safeNumber_ok: "is_ok (safeNumber v) \<longleftrightarrow> safe_int v"
  by (auto simp: safeNumber_def safe_int_def)

lemma compute_figures:
  assumes "compute d c from to = Inr ov"
  defines "ss \<equiv> sales_in d c (businessStart from) (businessStart to)"
  defines "es \<equiv> expenses_in d c (businessStart from) (businessStart to)"
  shows "ov_salesMinor ov = sum_list (map sale_total ss)"
    "ov_saleCount ov = int (length ss)"
    "ov_recordedCostMinor ov = sum_list (map line_cost (sale_lines d ss))"
    "ov_recordedGrossMarginMinor ov = ov_salesMinor ov - ov_recordedCostMinor ov"
    "ov_operatingMinor ov = sum_list (map ex_amountMinor [e \<leftarrow> es. of_nature ''OPERATING_EXPENSE'' e])"
    "ov_inventoryPurchasesMinor ov = sum_list (map ex_amountMinor [e \<leftarrow> es. of_nature ''INVENTORY_PURCHASE'' e])"
    "ov_contributionsMinor ov
       = sum_list (map co_amountMinor (contributions_in d c (businessStart from) (businessStart to)))"
    "ov_knownMinutes ov = sum_list (map shift_minutes (shifts_in d c from to))"
    "ov_shiftCount ov = int (length (shifts_in d c from to))"
    "ov_plannedMinor ov = sum_list (map rs_amountMinor (reserves_of d c from to))"
    "ov_recordedOperatingResultMinor ov = ov_recordedGrossMarginMinor ov - ov_operatingMinor ov"
    "ov_potentiallyAvailableMinor ov = ov_recordedOperatingResultMinor ov - ov_plannedMinor ov"
    "ov_status ov = (if \<forall>i \<in> set (sale_lines d ss). costed i then Complete else Partial)"
    "ov_missingCostLineCount ov = int (length [i \<leftarrow> sale_lines d ss. \<not> costed i])"
    "safe_int (ov_potentiallyAvailableMinor ov)"
    "ov_warnings ov = overview_warnings (ov_missingCostLineCount ov)"
    "op_from (ov_period ov) = from" "op_to (ov_period ov) = to"
proof -
  obtain a where a: "sale_loop d ss no_sums = Inr a"
    using assms(1) unfolding compute_def Let_def ss_def by (auto split: sum.splits)
  obtain x y where e: "expense_loop es 0 0 = Inr (x, y)"
    using assms(1) a unfolding compute_def Let_def ss_def es_def by (auto split: sum.splits)
  have lines: "int (length xs) - int (length [i \<leftarrow> xs. costed i]) = int (length [i \<leftarrow> xs. \<not> costed i])" for xs
    by (induction xs) auto
  have none: "length [i \<leftarrow> xs. \<not> costed i] = 0 \<longleftrightarrow> (\<forall>i \<in> set xs. costed i)" for xs
    by (induction xs) auto
  note sums = sale_loop_sums [OF a] expense_loop_sums [OF e]
  note full = assms(1) [unfolded compute_def Let_def, folded ss_def es_def, unfolded a e sum.case prod.case]
  have ok: "list_all (\<lambda>v. is_ok (safeNumber v))
     [ss_salesMinor a, ss_costMinor a, ss_salesMinor a - ss_costMinor a, ss_missingUnits a, ss_uncostedRevenue a,
      x, y, sum_list (map co_amountMinor (contributions_in d c (businessStart from) (businessStart to))),
      sum_list (map (\<lambda>w. case ws_minutes w of None \<Rightarrow> 0 | Some m \<Rightarrow> m) (shifts_in d c from to)),
      sum_list (map rs_amountMinor (reserves_of d c from to)), ss_salesMinor a - ss_costMinor a - x,
      ss_salesMinor a - ss_costMinor a - x - sum_list (map rs_amountMinor (reserves_of d c from to))]"
    using full by (simp split: if_splits)
  note ov = full [unfolded if_P [OF ok] sum.inject(2)]
  have minutes: "(\<lambda>w. case ws_minutes w of None \<Rightarrow> 0 | Some m \<Rightarrow> m) = shift_minutes"
    by (rule ext) (simp add: shift_minutes_def)
  note fields = sums no_sums_def add_lines_def lines none minutes filter_empty_conv
  show "ov_salesMinor ov = sum_list (map sale_total ss)"
    "ov_saleCount ov = int (length ss)"
    "ov_recordedCostMinor ov = sum_list (map line_cost (sale_lines d ss))"
    "ov_recordedGrossMarginMinor ov = ov_salesMinor ov - ov_recordedCostMinor ov"
    "ov_operatingMinor ov = sum_list (map ex_amountMinor [e \<leftarrow> es. of_nature ''OPERATING_EXPENSE'' e])"
    "ov_inventoryPurchasesMinor ov = sum_list (map ex_amountMinor [e \<leftarrow> es. of_nature ''INVENTORY_PURCHASE'' e])"
    "ov_contributionsMinor ov
       = sum_list (map co_amountMinor (contributions_in d c (businessStart from) (businessStart to)))"
    "ov_knownMinutes ov = sum_list (map shift_minutes (shifts_in d c from to))"
    "ov_shiftCount ov = int (length (shifts_in d c from to))"
    "ov_plannedMinor ov = sum_list (map rs_amountMinor (reserves_of d c from to))"
    "ov_recordedOperatingResultMinor ov = ov_recordedGrossMarginMinor ov - ov_operatingMinor ov"
    "ov_potentiallyAvailableMinor ov = ov_recordedOperatingResultMinor ov - ov_plannedMinor ov"
    "ov_status ov = (if \<forall>i \<in> set (sale_lines d ss). costed i then Complete else Partial)"
    "ov_missingCostLineCount ov = int (length [i \<leftarrow> sale_lines d ss. \<not> costed i])"
    "ov_warnings ov = overview_warnings (ov_missingCostLineCount ov)"
    "op_from (ov_period ov) = from" "op_to (ov_period ov) = to"
    by (simp_all flip: ov add: fields)
  show "safe_int (ov_potentiallyAvailableMinor ov)"
    using ok by (simp flip: ov add: safeNumber_ok)
qed

section \<open>Properties\<close>

text \<open>Splitting an interval splits any sum over the rows of the interval.\<close>

lemma within_split:
  assumes "lo \<le> mid" "mid \<le> hi"
  shows "sum_list (map (f :: _ \<Rightarrow> int) [x \<leftarrow> xs. P x \<and> within lo hi (t x)])
       = sum_list (map f [x \<leftarrow> xs. P x \<and> within lo mid (t x)]) + sum_list (map f [x \<leftarrow> xs. P x \<and> within mid hi (t x)])"
  using assms by (induction xs) (auto simp: within_def)

lemma sum_list_lines: "sum_list (map line_cost (sale_lines d ss)) = sum_list (map (\<lambda>s. sum_list (map line_cost (items_of d s))) ss)"
  by (induction ss) (auto simp: sale_lines_def)

lemma sum_list_nature:
  "sum_list (map ex_amountMinor [e \<leftarrow> es. of_nature n e]) = sum_list (map (\<lambda>e. if of_nature n e then ex_amountMinor e else 0) es)"
  by (induction es) auto

lemma sum_list_ones: "int (length xs) = sum_list (map (\<lambda>_. 1) xs)"
  by (induction xs) auto

text \<open>Consecutive periods neither miss a fact nor count one twice: the sales, the recorded cost,
  the expenses, the contributions, the worked minutes and the operating result of a period are the
  sums of those of the two periods it is cut into, whatever the date of the cut.\<close>

theorem overview_adjacent_periods:
  assumes "isCalendarDate a" "isCalendarDate b" "isCalendarDate c" "a < b" "b < c"
    and "compute d k a c = Inr whole" "compute d k a b = Inr x" "compute d k b c = Inr y"
  shows "ov_salesMinor whole = ov_salesMinor x + ov_salesMinor y
    \<and> ov_saleCount whole = ov_saleCount x + ov_saleCount y
    \<and> ov_recordedCostMinor whole = ov_recordedCostMinor x + ov_recordedCostMinor y
    \<and> ov_operatingMinor whole = ov_operatingMinor x + ov_operatingMinor y
    \<and> ov_inventoryPurchasesMinor whole = ov_inventoryPurchasesMinor x + ov_inventoryPurchasesMinor y
    \<and> ov_contributionsMinor whole = ov_contributionsMinor x + ov_contributionsMinor y
    \<and> ov_knownMinutes whole = ov_knownMinutes x + ov_knownMinutes y
    \<and> ov_recordedOperatingResultMinor whole
      = ov_recordedOperatingResultMinor x + ov_recordedOperatingResultMinor y"
proof -
  have order: "utc_date a < utc_date b" "utc_date b < utc_date c"
    using assms(1-5) by (simp_all add: utc_date_less)
  then have starts: "businessStart a \<le> businessStart b" "businessStart b \<le> businessStart c"
    using assms(1-3) by (simp_all add: businessStart_date)
  note figs = compute_figures [OF assms(6)] compute_figures [OF assms(7)] compute_figures [OF assms(8)]
  have sales_split: "sum_list (map f (sales_in d k (businessStart a) (businessStart c)))
      = sum_list (map f (sales_in d k (businessStart a) (businessStart b)))
      + sum_list (map f (sales_in d k (businessStart b) (businessStart c)))" for f :: "sale \<Rightarrow> int"
    unfolding sales_in_def by (rule within_split [OF starts])
  have expenses_split: "sum_list (map f (expenses_in d k (businessStart a) (businessStart c)))
      = sum_list (map f (expenses_in d k (businessStart a) (businessStart b)))
      + sum_list (map f (expenses_in d k (businessStart b) (businessStart c)))" for f :: "expense \<Rightarrow> int"
    unfolding expenses_in_def conj_commute [of "within _ _ _"] by (rule within_split [OF starts])
  have contributions_split: "sum_list (map f (contributions_in d k (businessStart a) (businessStart c)))
      = sum_list (map f (contributions_in d k (businessStart a) (businessStart b)))
      + sum_list (map f (contributions_in d k (businessStart b) (businessStart c)))" for f :: "contribution \<Rightarrow> int"
    unfolding contributions_in_def conj_commute [of "within _ _ _"] by (rule within_split [OF starts])
  have shifts_split: "sum_list (map f (shifts_in d k a c))
      = sum_list (map f (shifts_in d k a b)) + sum_list (map f (shifts_in d k b c))" for f :: "work_shift \<Rightarrow> int"
    unfolding shifts_in_def using order by (intro within_split) simp_all
  have "ov_salesMinor whole = ov_salesMinor x + ov_salesMinor y"
    unfolding figs by (rule sales_split)
  moreover have "ov_saleCount whole = ov_saleCount x + ov_saleCount y"
    unfolding figs sum_list_ones by (rule sales_split)
  moreover have "ov_recordedCostMinor whole = ov_recordedCostMinor x + ov_recordedCostMinor y"
    unfolding figs sum_list_lines by (rule sales_split)
  moreover have "ov_operatingMinor whole = ov_operatingMinor x + ov_operatingMinor y"
    "ov_inventoryPurchasesMinor whole = ov_inventoryPurchasesMinor x + ov_inventoryPurchasesMinor y"
    unfolding figs sum_list_nature by (rule expenses_split)+
  moreover have "ov_contributionsMinor whole = ov_contributionsMinor x + ov_contributionsMinor y"
    unfolding figs by (rule contributions_split)
  moreover have "ov_knownMinutes whole = ov_knownMinutes x + ov_knownMinutes y"
    unfolding figs by (rule shifts_split)
  moreover have "ov_recordedOperatingResultMinor whole
      = ov_recordedOperatingResultMinor x + ov_recordedOperatingResultMinor y"
    using calculation figs(4,11) compute_figures(4,11) [OF assms(7)] compute_figures(4,11) [OF assms(8)] by simp
  ultimately show ?thesis by blast
qed

lemma overview_adjacent_periods_witness:
  "ov_recordedOperatingResultMinor (projr (compute sample_db ''t1'' ''2026-01-01'' ''2026-03-01'')) = 3100
   \<and> ov_recordedOperatingResultMinor (projr (compute sample_db ''t1'' ''2026-01-01'' ''2026-02-01''))
     + ov_recordedOperatingResultMinor (projr (compute sample_db ''t1'' ''2026-02-01'' ''2026-03-01'')) = 3100"
proof -
  have dates: "isCalendarDate ''2026-01-01''" "isCalendarDate ''2026-02-01''" "isCalendarDate ''2026-03-01''"
    "''2026-01-01'' < ''2026-02-01''" "''2026-02-01'' < ''2026-03-01''" by code_simp+
  have ok: "is_ok (compute sample_db ''t1'' ''2026-01-01'' ''2026-03-01'')"
    "is_ok (compute sample_db ''t1'' ''2026-01-01'' ''2026-02-01'')"
    "is_ok (compute sample_db ''t1'' ''2026-02-01'' ''2026-03-01'')" by code_simp+
  have "ov_recordedOperatingResultMinor (projr (compute sample_db ''t1'' ''2026-01-01'' ''2026-03-01'')) = 3100"
    by code_simp
  with overview_adjacent_periods [OF dates is_ok_projr [OF ok(1)] is_ok_projr [OF ok(2)] is_ok_projr [OF ok(3)]]
  show ?thesis by simp
qed

end
