(* ===== verification/Allocation.thy ===== *)
theory Allocation
  imports Prelude
begin

text \<open>
  The allocation primitives of the distribution simulator
  (\<open>src/finance/finance-distribution.allocation.ts\<close>): the split of an amount into the two pools,
  the equal split of the partner pool and the largest remainder split of the work pool.
  \<open>BigInt\<close> values are integers; every division of the code has non-negative operands and a
  positive divisor when it is reached, where \<open>BigInt\<close> division is \<open>div\<close>.
\<close>

section \<open>The code\<close>

record allocation =
  alloc_id :: uuid
  alloc_amount :: int

record weighted =
  w_id :: uuid
  weight :: int

definition BPS_TOTAL :: int where
  "BPS_TOTAL = 10000"

text \<open>\<open>assertUnique\<close> compares the number of distinct ids with the number of ids.\<close>

definition assertUnique :: "uuid list \<Rightarrow> bool" where
  "assertUnique ids \<longleftrightarrow> length (remdups ids) = length ids"

definition splitPools :: "int \<Rightarrow> int \<Rightarrow> (int \<times> int) result" where
  "splitPools requestedMinor partnerShareBps =
     (if requestedMinor < 0 then Inl (RangeErr ''Requested amount is negative'')
      else if partnerShareBps < 0 \<or> BPS_TOTAL < partnerShareBps
        then Inl (RangeErr ''partnerShareBps must be within 0..10000'')
      else let partnerPoolMinor = requestedMinor * partnerShareBps div BPS_TOTAL
           in Inr (partnerPoolMinor, requestedMinor - partnerPoolMinor))"

definition allocateEqual :: "int \<Rightarrow> uuid list \<Rightarrow> allocation list result" where
  "allocateEqual pool ids =
     (if pool < 0 then Inl (RangeErr ''Pool is negative'')
      else if \<not> assertUnique ids then Inl (RangeErr ''Allocation ids must be unique'')
      else if ids = [] then
        (if pool = 0 then Inr []
         else Inl (RangeErr ''Cannot allocate a positive pool to nobody''))
      else let count = int (length ids);
               base = pool div count;
               remainder = pool mod count
           in Inr (map (\<lambda>(index, i). \<lparr>alloc_id = i,
                                        alloc_amount = base + (if int index < remainder then 1 else 0)\<rparr>)
                       (enumerate 0 (sort ids))))"

text \<open>The working rows of \<open>allocateByWeight\<close>.\<close>

record wrow =
  row_id :: uuid
  row_amount :: int
  row_remainder :: int
  row_weight :: int

definition weigh :: "int \<Rightarrow> int \<Rightarrow> weighted \<Rightarrow> wrow" where
  "weigh pool weightTotal item =
     (let scaled = pool * weight item
      in \<lparr>row_id = w_id item, row_amount = scaled div weightTotal,
          row_remainder = scaled mod weightTotal, row_weight = weight item\<rparr>)"

text \<open>
  The comparator of the ranking: larger remainder first, then the smaller id. The \<open>sort\<close> of the
  language is stable, as \<open>sort_key\<close> is.
\<close>

definition ranking :: "wrow list \<Rightarrow> wrow list" where
  "ranking rows = sort_key (\<lambda>r. (- row_remainder r, row_id r)) (filter (\<lambda>r. 0 < row_weight r) rows)"

text \<open>
  The loop over the ranking. \<open>ranking\<close> holds the same row objects as \<open>rows\<close>, so \<open>row.amount += 1n\<close>
  is an update of the row with that id in \<open>rows\<close>.
\<close>

fun hand_out :: "int \<Rightarrow> wrow list \<Rightarrow> wrow list \<Rightarrow> int \<times> wrow list" where
  "hand_out leftover rows [] = (leftover, rows)"
| "hand_out leftover rows (r # rs) =
     (if leftover = 0 then (leftover, rows)
      else hand_out (leftover - 1)
             (map (\<lambda>x. if row_id x = row_id r then x\<lparr>row_amount := row_amount x + 1\<rparr> else x) rows) rs)"

definition allocateByWeight :: "int \<Rightarrow> weighted list \<Rightarrow> allocation list result" where
  "allocateByWeight pool items =
     (if pool < 0 then Inl (RangeErr ''Pool is negative'')
      else if \<not> assertUnique (map w_id items) then Inl (RangeErr ''Allocation ids must be unique'')
      else if \<exists>item \<in> set items. weight item < 0
        then Inl (RangeErr ''Weights must not be negative'')
      else let weightTotal = sum_list (map weight items) in
        if weightTotal = 0 then
          (if pool = 0
           then Inr (sort_key alloc_id (map (\<lambda>item. \<lparr>alloc_id = w_id item, alloc_amount = 0\<rparr>) items))
           else Inl (RangeErr ''Cannot allocate a positive pool without weight''))
        else
          let rows = map (weigh pool weightTotal) items;
              leftover0 = pool - sum_list (map row_amount rows);
              (leftover, rows') = hand_out leftover0 rows (ranking rows);
              result = sort_key alloc_id
                         (map (\<lambda>r. \<lparr>alloc_id = row_id r, alloc_amount = row_amount r\<rparr>) rows');
              allocated = sum_list (map alloc_amount result)
          in if leftover \<noteq> 0 \<or> allocated \<noteq> pool
             then Inl (Internal ''Allocation does not add up to the pool'')
             else Inr result)"

section \<open>Reading a result\<close>

text \<open>\<open>new Map(rows.map((row) => [row.id, row.amount])).get(id) ?? 0n\<close>, as the simulator reads it.\<close>

definition amount_of :: "allocation list \<Rightarrow> uuid \<Rightarrow> int" where
  "amount_of rows i = (case map_of (rev (map (\<lambda>r. (alloc_id r, alloc_amount r)) rows)) i of
                         None \<Rightarrow> 0 | Some a \<Rightarrow> a)"

lemma assertUnique_iff [simp]: "assertUnique ids \<longleftrightarrow> distinct ids"
  by (simp add: assertUnique_def length_remdups_card_conv card_distinct distinct_card) 
    (metis card_distinct distinct_card)

lemma amount_of_distinct:
  assumes "distinct (map alloc_id rows)"
  shows "amount_of rows i =
           (case find (\<lambda>r. alloc_id r = i) rows of None \<Rightarrow> 0 | Some r \<Rightarrow> alloc_amount r)"
proof -
  let ?kv = "map (\<lambda>r. (alloc_id r, alloc_amount r)) rows"
  have "map_of (rev ?kv) = map_of ?kv"
  proof (rule ext)
    fix k
    have "distinct (map fst ?kv)" "distinct (map fst (rev ?kv))"
      using assms by (simp_all add: o_def flip: rev_map)
    then have "map_of (rev ?kv) k = Some v \<longleftrightarrow> map_of ?kv k = Some v" for v
      by (simp only: map_of_eq_Some_iff set_rev)
    then show "map_of (rev ?kv) k = map_of ?kv k" by (metis option.exhaust)
  qed
  moreover have "map_of ?kv i = map_option alloc_amount (find (\<lambda>r. alloc_id r = i) rows)"
    by (induction rows) auto
  ultimately show ?thesis by (auto simp: amount_of_def split: option.splits)
qed

section \<open>The two pools\<close>

lemma splitPools_ok:
  assumes "0 \<le> requested" "0 \<le> bps" "bps \<le> BPS_TOTAL"
  shows "splitPools requested bps =
           Inr (requested * bps div BPS_TOTAL, requested - requested * bps div BPS_TOTAL)"
  using assms by (simp add: splitPools_def Let_def)

lemma splitPools_sum: "splitPools requested bps = Inr (p, w) \<Longrightarrow> p + w = requested"
  by (auto simp: splitPools_def Let_def split: if_splits)

lemma splitPools_bounds:
  assumes "splitPools requested bps = Inr (p, w)"
  shows "0 \<le> p \<and> p \<le> requested \<and> 0 \<le> w"
proof -
  from assms have r: "0 \<le> requested" "0 \<le> bps" "bps \<le> BPS_TOTAL"
    and p: "p = requested * bps div BPS_TOTAL" and w: "w = requested - p"
    by (auto simp: splitPools_def Let_def split: if_splits)
  have "requested * bps \<le> requested * BPS_TOTAL" using r by (intro mult_left_mono) auto
  then have "p \<le> requested * BPS_TOTAL div BPS_TOTAL" unfolding p
    by (intro zdiv_mono1) (auto simp: BPS_TOTAL_def)
  then have "p \<le> requested" by (simp add: BPS_TOTAL_def)
  moreover have "0 \<le> p" using r by (simp add: p BPS_TOTAL_def pos_imp_zdiv_nonneg_iff)
  ultimately show ?thesis using w by simp
qed

section \<open>The equal split\<close>

lemma sum_list_enumerate_lt:
  "sum_list (map (\<lambda>(j, x). if int j < r then 1 else 0) (enumerate n xs))
     = max 0 (min (int (length xs)) (r - int n))"
  by (induction xs arbitrary: n) (auto simp: max_def min_def)

lemma map_id_enumerate: "map (\<lambda>(j, x). h x) (enumerate n xs) = map h xs"
  by (induction xs arbitrary: n) auto

definition equal_rows :: "int \<Rightarrow> uuid list \<Rightarrow> allocation list" where
  "equal_rows pool ids =
     map (\<lambda>(j, i). \<lparr>alloc_id = i,
                    alloc_amount = pool div int (length ids)
                      + (if int j < pool mod int (length ids) then 1 else 0)\<rparr>)
         (enumerate 0 (sort ids))"

lemma allocateEqual_ok:
  assumes "0 \<le> pool" "distinct ids" "ids \<noteq> []"
  shows "allocateEqual pool ids = Inr (equal_rows pool ids)"
  using assms by (simp add: allocateEqual_def equal_rows_def Let_def)

lemma allocateEqual_nil [simp]: "allocateEqual 0 [] = Inr []"
  by (simp add: allocateEqual_def)

lemma ids_equal_rows [simp]: "map alloc_id (equal_rows pool ids) = sort ids"
  by (simp add: equal_rows_def o_def case_prod_unfold)

lemma sum_equal_rows:
  assumes "0 \<le> pool" "ids \<noteq> []"
  shows "sum_list (map alloc_amount (equal_rows pool ids)) = pool"
proof -
  let ?n = "int (length ids)" and ?e = "enumerate 0 (sort ids)"
  have n: "0 < ?n" using assms by simp
  from pos_mod_bound [OF n, of pool] have m: "0 \<le> pool mod ?n" "min ?n (pool mod ?n) = pool mod ?n"
    by (auto simp: min_def intro: pos_mod_sign [OF n])
  have "sum_list (map alloc_amount (equal_rows pool ids))
      = sum_list (map (\<lambda>p. pool div ?n + (case p of (j, i) \<Rightarrow> if int j < pool mod ?n then 1 else 0)) ?e)"
    unfolding equal_rows_def map_map by (rule arg_cong [where f = sum_list], rule map_cong) auto
  also have "\<dots> = ?n * (pool div ?n)
      + sum_list (map (\<lambda>(j, i). if int j < pool mod ?n then 1 else 0) ?e)"
    by (simp add: sum_list_addf sum_list_triv length_enumerate)
  also have "\<dots> = ?n * (pool div ?n) + pool mod ?n"
    using m by (simp add: sum_list_enumerate_lt)
  finally show ?thesis by simp
qed

lemma equal_rows_amounts:
  assumes "a \<in> set (equal_rows pool ids)"
  shows "alloc_amount a = pool div int (length ids) \<or> alloc_amount a = pool div int (length ids) + 1"
  using assms by (auto simp: equal_rows_def)

section \<open>The largest remainder split\<close>

text \<open>
  The loop in closed form: with \<open>l\<close> units left it adds one to the first \<open>l\<close> rows of the ranking.
\<close>

lemma hand_out_eq:
  assumes "0 \<le> l" "distinct (map row_id rk)"
  shows "hand_out l rows rk =
    (l - min l (int (length rk)),
     map (\<lambda>x. if row_id x \<in> row_id ` set (take (nat l) rk)
              then x\<lparr>row_amount := row_amount x + 1\<rparr> else x) rows)"
  using assms
proof (induction rk arbitrary: l rows)
  case (Cons r rk)
  show ?case
  proof (cases "l = 0")
    case False
    with Cons.prems have l: "0 \<le> l - 1" "nat l = Suc (nat (l - 1))" by auto
    have r: "row_id r \<notin> row_id ` set (take n rk)" for n
      using Cons.prems(2) by (auto dest: in_set_takeD)
    from Cons.IH [OF l(1)] Cons.prems(2) False l r show ?thesis
      by (auto simp: min_def)
  qed simp
qed simp

definition weight_total :: "weighted list \<Rightarrow> int" where
  "weight_total items = sum_list (map weight items)"

definition weight_rows :: "int \<Rightarrow> weighted list \<Rightarrow> wrow list" where
  "weight_rows pool items = map (weigh pool (weight_total items)) items"

definition weight_leftover :: "int \<Rightarrow> weighted list \<Rightarrow> int" where
  "weight_leftover pool items = pool - sum_list (map row_amount (weight_rows pool items))"

text \<open>The ids that receive one of the leftover units.\<close>

definition extra_ids :: "int \<Rightarrow> weighted list \<Rightarrow> uuid set" where
  "extra_ids pool items =
     row_id ` set (take (nat (weight_leftover pool items)) (ranking (weight_rows pool items)))"

definition share :: "int \<Rightarrow> weighted list \<Rightarrow> weighted \<Rightarrow> int" where
  "share pool items item =
     pool * weight item div weight_total items + (if w_id item \<in> extra_ids pool items then 1 else 0)"

text \<open>The precondition under which the split succeeds.\<close>

definition weights_ok :: "int \<Rightarrow> weighted list \<Rightarrow> bool" where
  "weights_ok pool items \<longleftrightarrow>
     0 \<le> pool \<and> distinct (map w_id items) \<and> (\<forall>item \<in> set items. 0 \<le> weight item)
     \<and> 0 < weight_total items"

lemma row_fields [simp]:
  "row_id (weigh pool t item) = w_id item"
  "row_weight (weigh pool t item) = weight item"
  "row_amount (weigh pool t item) = pool * weight item div t"
  "row_remainder (weigh pool t item) = pool * weight item mod t"
  by (simp_all add: weigh_def Let_def)

lemma ids_weight_rows [simp]: "map row_id (weight_rows pool items) = map w_id items"
  by (simp add: weight_rows_def o_def)

lemma distinct_ranking:
  "distinct (map row_id rows) \<Longrightarrow> distinct (map row_id (ranking rows))"
  by (simp add: ranking_def distinct_map_filter)

lemma set_ranking [simp]: "set (ranking rows) = {r \<in> set rows. 0 < row_weight r}"
  by (auto simp: ranking_def)

lemma length_ranking: "length (ranking rows) = length (filter (\<lambda>r. 0 < row_weight r) rows)"
  by (simp add: ranking_def)

text \<open>The leftover units are the sum of the remainders divided by the total weight.\<close>

lemma leftover_remainders:
  "weight_leftover pool items * weight_total items
     = sum_list (map row_remainder (weight_rows pool items))"
proof -
  let ?T = "weight_total items"
  have "pool * ?T = sum_list (map (\<lambda>i. pool * weight i) items)"
    by (simp add: weight_total_def sum_list_const_mult)
  also have "\<dots> = sum_list (map (\<lambda>i. (pool * weight i div ?T) * ?T + pool * weight i mod ?T) items)"
    by simp
  also have "\<dots> = sum_list (map (\<lambda>i. pool * weight i div ?T) items) * ?T
      + sum_list (map (\<lambda>i. pool * weight i mod ?T) items)"
    by (simp only: sum_list_addf sum_list_mult_const)
  finally show ?thesis
    by (simp add: weight_leftover_def weight_rows_def o_def algebra_simps)
qed

lemma remainder_sum_bound:
  assumes "0 < (T::int)" "\<forall>r \<in> set rows. 0 \<le> row_remainder r \<and> row_remainder r < T
             \<and> (row_weight r \<le> 0 \<longrightarrow> row_remainder r = 0)"
  shows "sum_list (map row_remainder rows)
           \<le> int (length (filter (\<lambda>r. 0 < row_weight r) rows)) * (T - 1)"
  using assms(2)
proof (induction rows)
  case (Cons r rows)
  then have "row_remainder r \<le> T - 1" by auto
  with Cons assms(1) show ?case by (auto simp: algebra_simps)
qed simp

lemma leftover_bounds:
  assumes "weights_ok pool items"
  shows "0 \<le> weight_leftover pool items
       \<and> weight_leftover pool items \<le> int (length (ranking (weight_rows pool items)))"
proof -
  let ?T = "weight_total items" and ?L = "weight_leftover pool items"
  let ?rows = "weight_rows pool items"
  let ?n = "int (length (ranking ?rows))"
  have T: "0 < ?T" using assms by (simp add: weights_ok_def)
  have rem: "\<forall>r \<in> set ?rows. 0 \<le> row_remainder r \<and> row_remainder r < ?T
             \<and> (row_weight r \<le> 0 \<longrightarrow> row_remainder r = 0)"
    using assms T by (force simp: weight_rows_def weights_ok_def)
  have "0 \<le> ?L * ?T"
    unfolding leftover_remainders using rem by (intro sum_list_int_nonneg) auto
  then have "0 \<le> ?L" using T by (simp add: zero_le_mult_iff)
  moreover have "?L * ?T \<le> ?n * (?T - 1)"
    unfolding leftover_remainders length_ranking by (rule remainder_sum_bound [OF T rem])
  then have "?L * ?T \<le> ?n * ?T" by (simp add: algebra_simps)
  then have "?L \<le> ?n" using T by (rule mult_right_le_imp_le)
  ultimately show ?thesis by simp
qed

definition weight_allocation :: "int \<Rightarrow> weighted list \<Rightarrow> allocation list" where
  "weight_allocation pool items =
     sort_key alloc_id (map (\<lambda>i. \<lparr>alloc_id = w_id i, alloc_amount = share pool items i\<rparr>) items)"

lemma hand_out_rows:
  assumes "weights_ok pool items"
  shows "hand_out (weight_leftover pool items) (weight_rows pool items) (ranking (weight_rows pool items))
       = (0, map (\<lambda>x. if row_id x \<in> extra_ids pool items
                      then x\<lparr>row_amount := row_amount x + 1\<rparr> else x) (weight_rows pool items))"
proof -
  have "distinct (map row_id (ranking (weight_rows pool items)))"
    using assms by (intro distinct_ranking) (simp add: weights_ok_def)
  with leftover_bounds [OF assms] show ?thesis
    by (simp add: hand_out_eq extra_ids_def)
qed

lemma extra_ids_subset: "extra_ids pool items \<subseteq> w_id ` {i \<in> set items. 0 < weight i}"
  by (fastforce simp: extra_ids_def weight_rows_def dest!: in_set_takeD)

lemma card_extra_ids:
  assumes "weights_ok pool items"
  shows "int (card (extra_ids pool items)) = weight_leftover pool items"
proof -
  let ?rk = "ranking (weight_rows pool items)" and ?L = "weight_leftover pool items"
  have d: "distinct (map row_id (take (nat ?L) ?rk))"
    using assms by (simp add: weights_ok_def distinct_take distinct_ranking flip: take_map)
  have "card (extra_ids pool items) = length (map row_id (take (nat ?L) ?rk))"
    unfolding extra_ids_def by (metis d distinct_card set_map)
  also have "\<dots> = min (length ?rk) (nat ?L)" by simp
  also have "\<dots> = nat ?L" using leftover_bounds [OF assms] by linarith
  finally show ?thesis using leftover_bounds [OF assms] by simp
qed

lemma sum_indicator_ids:
  assumes "distinct (map k xs)" "A \<subseteq> k ` set xs"
  shows "sum_list (map (\<lambda>x. if k x \<in> A then 1 else 0) xs) = int (card A)"
proof -
  have "sum_list (map (\<lambda>x. if k x \<in> A then 1 else 0) xs) = int (length (filter (\<lambda>x. k x \<in> A) xs))"
    by (rule sum_list_indicator)
  also have "length (filter (\<lambda>x. k x \<in> A) xs) = card (k ` set (filter (\<lambda>x. k x \<in> A) xs))"
    by (metis assms(1) distinct_card distinct_map_filter length_map set_map)
  also have "k ` set (filter (\<lambda>x. k x \<in> A) xs) = A" using assms(2) by auto
  finally show ?thesis .
qed

lemma sum_shares:
  assumes "weights_ok pool items"
  shows "sum_list (map (share pool items) items) = pool"
proof -
  have d: "distinct (map w_id items)" using assms by (simp add: weights_ok_def)
  have "extra_ids pool items \<subseteq> w_id ` set items" using extra_ids_subset by fastforce
  from sum_indicator_ids [OF d this] card_extra_ids [OF assms]
  have "sum_list (map (\<lambda>i. if w_id i \<in> extra_ids pool items then 1 else 0) items)
      = weight_leftover pool items" by simp
  moreover have "sum_list (map (\<lambda>i. pool * weight i div weight_total items) items)
      = pool - weight_leftover pool items"
    by (simp add: weight_leftover_def weight_rows_def o_def)
  ultimately show ?thesis by (simp add: share_def [abs_def] sum_list_addf)
qed

text \<open>The whole routine: under its precondition the internal check never fires.\<close>

lemma allocateByWeight_ok:
  assumes "weights_ok pool items"
  shows "allocateByWeight pool items = Inr (weight_allocation pool items)"
proof -
  let ?rows = "weight_rows pool items" and ?E = "extra_ids pool items"
  have guards: "\<not> pool < 0" "distinct (map w_id items)" "\<not> (\<exists>i \<in> set items. weight i < 0)"
      "weight_total items \<noteq> 0"
    using assms by (auto simp: weights_ok_def linorder_not_less)
  have rows: "map (\<lambda>r. \<lparr>alloc_id = row_id r, alloc_amount = row_amount r\<rparr>)
        (map (\<lambda>x. if row_id x \<in> ?E then x\<lparr>row_amount := row_amount x + 1\<rparr> else x) ?rows)
      = map (\<lambda>i. \<lparr>alloc_id = w_id i, alloc_amount = share pool items i\<rparr>) items"
    by (simp add: weight_rows_def share_def)
  have total: "sum_list (map alloc_amount (weight_allocation pool items)) = pool"
    unfolding weight_allocation_def sum_list_sort_key by (simp add: o_def sum_shares [OF assms])
  show ?thesis
    using guards total
    unfolding allocateByWeight_def Let_def weight_total_def [symmetric]
    unfolding weight_rows_def [symmetric]
    unfolding weight_leftover_def [symmetric]
    unfolding hand_out_rows [OF assms] prod.case rows weight_allocation_def
    by simp
qed

lemma ids_weight_allocation [simp]:
  "map alloc_id (weight_allocation pool items) = sort (map w_id items)"
  by (simp add: weight_allocation_def map_key_sort_key o_def)

lemma set_weight_allocation:
  "set (weight_allocation pool items)
     = (\<lambda>i. \<lparr>alloc_id = w_id i, alloc_amount = share pool items i\<rparr>) ` set items"
  by (simp add: weight_allocation_def)

lemma share_quota:
  "pool * weight i div weight_total items \<le> share pool items i
   \<and> share pool items i \<le> pool * weight i div weight_total items + 1"
  by (simp add: share_def)

lemma share_zero_weight:
  assumes "weights_ok pool items" "i \<in> set items" "weight i = 0"
  shows "share pool items i = 0"
proof -
  have "w_id i \<notin> extra_ids pool items"
  proof
    assume "w_id i \<in> extra_ids pool items"
    then obtain j where j: "j \<in> set items" "0 < weight j" "w_id i = w_id j"
      using extra_ids_subset by blast
    with assms have "i = j" by (auto simp: weights_ok_def distinct_map dest: inj_onD)
    with j assms(3) show False by simp
  qed
  with assms(3) show ?thesis by (simp add: share_def)
qed

text \<open>A leftover unit goes to the larger remainder.\<close>

lemma extra_has_larger_remainder:
  assumes "weights_ok pool items" "i \<in> set items" "j \<in> set items" "0 < weight j"
    "w_id i \<in> extra_ids pool items" "w_id j \<notin> extra_ids pool items"
  shows "pool * weight j mod weight_total items \<le> pool * weight i mod weight_total items"
proof -
  let ?T = "weight_total items" and ?rk = "ranking (weight_rows pool items)"
  let ?n = "nat (weight_leftover pool items)" and ?key = "\<lambda>r. (- row_remainder r, row_id r)"
  have d: "distinct (map row_id (weight_rows pool items))"
    using assms(1) by (simp add: weights_ok_def)
  have inj: "inj_on row_id (set (weight_rows pool items))" by (metis d distinct_map)
  have mem: "weigh pool ?T k \<in> set (weight_rows pool items)" if "k \<in> set items" for k
    using that by (simp add: weight_rows_def)
  obtain r where r: "r \<in> set (take ?n ?rk)" "row_id r = w_id i"
    using assms(5) by (auto simp: extra_ids_def)
  then have "r \<in> set (weight_rows pool items)" by (auto dest: in_set_takeD)
  with inj_onD [OF inj, of r "weigh pool ?T i"] mem [OF assms(2)] r(2)
  have r_eq: "r = weigh pool ?T i" by simp
  have "weigh pool ?T j \<in> set ?rk" using mem [OF assms(3)] assms(4) by simp
  moreover have "weigh pool ?T j \<notin> set (take ?n ?rk)"
    using assms(6) by (force simp: extra_ids_def)
  ultimately have "weigh pool ?T j \<in> set (drop ?n ?rk)"
    by (metis Un_iff append_take_drop_id set_append)
  moreover have "sorted (map ?key (take ?n ?rk @ drop ?n ?rk))"
    by (simp add: ranking_def)
  ultimately have "?key r \<le> ?key (weigh pool ?T j)"
    using r(1) unfolding map_append sorted_append set_map by blast
  then show ?thesis by (auto simp: r_eq less_eq_prod_def)
qed

lemma share_mono:
  assumes ok: "weights_ok pool items" and i: "i \<in> set items" and j: "j \<in> set items"
    and less: "weight i < weight j"
  shows "share pool items i \<le> share pool items j"
proof (rule ccontr)
  let ?T = "weight_total items"
  have T: "0 < ?T" "0 \<le> pool" "0 \<le> weight i" using ok i by (auto simp: weights_ok_def)
  have le: "pool * weight i \<le> pool * weight j" using T less by (intro mult_left_mono) auto
  then have fl: "pool * weight i div ?T \<le> pool * weight j div ?T" using T by (intro zdiv_mono1)
  assume "\<not> ?thesis"
  with fl have ex: "w_id i \<in> extra_ids pool items" "w_id j \<notin> extra_ids pool items"
    and eq: "pool * weight i div ?T = pool * weight j div ?T"
    by (auto simp: share_def split: if_splits)
  have "pool * weight j mod ?T \<le> pool * weight i mod ?T"
    using extra_has_larger_remainder [OF ok i j] less T(3) ex by simp
  with eq have "pool * weight j \<le> pool * weight i"
    by (metis add_left_mono div_mult_mod_eq)
  with le have "pool * weight i = pool * weight j" by simp
  with less have "pool = 0" by simp
  then have "weight_leftover pool items = 0"
    by (simp add: weight_leftover_def weight_rows_def o_def sum_list_zero)
  then have "extra_ids pool items = {}" by (simp add: extra_ids_def)
  with ex show False by simp
qed

text \<open>The result does not depend on the order in which the work aggregates are read.\<close>

lemma weight_rows_mset:
  assumes "mset xs = mset ys"
  shows "weight_total xs = weight_total ys" "mset (weight_rows pool xs) = mset (weight_rows pool ys)"
    "weight_leftover pool xs = weight_leftover pool ys"
proof -
  show t: "weight_total xs = weight_total ys"
    unfolding weight_total_def using assms by (metis mset_map sum_mset_sum_list)
  show m: "mset (weight_rows pool xs) = mset (weight_rows pool ys)"
    using assms by (simp add: weight_rows_def t)
  show "weight_leftover pool xs = weight_leftover pool ys"
    unfolding weight_leftover_def using m by (metis mset_map sum_mset_sum_list)
qed

lemma extra_ids_mset:
  assumes "mset xs = mset ys" "distinct (map w_id xs)"
  shows "extra_ids pool xs = extra_ids pool ys"
proof -
  have "distinct (map row_id (filter (\<lambda>r. 0 < row_weight r) (weight_rows pool xs)))"
    using assms(2) by (simp add: distinct_map_filter)
  then have "distinct (map (\<lambda>r. (- row_remainder r, row_id r))
      (filter (\<lambda>r. 0 < row_weight r) (weight_rows pool xs)))"
    by (simp add: distinct_map inj_on_def)
  then have "ranking (weight_rows pool xs) = ranking (weight_rows pool ys)"
    unfolding ranking_def using weight_rows_mset [OF assms(1)]
    by (intro sort_key_perm) (simp_all add: mset_filter)
  then show ?thesis by (simp add: extra_ids_def weight_rows_mset [OF assms(1)])
qed

lemma weight_allocation_mset:
  assumes "mset xs = mset ys" "distinct (map w_id xs)"
  shows "weight_allocation pool xs = weight_allocation pool ys"
proof -
  have "share pool xs = share pool ys"
    by (simp add: fun_eq_iff share_def weight_rows_mset [OF assms(1)] extra_ids_mset [OF assms])
  with assms show ?thesis
    unfolding weight_allocation_def by (intro sort_key_perm) (simp_all add: o_def)
qed

section \<open>The contract of an allocation\<close>

text \<open>
  What the simulator relies on, whichever routine it calls: under its precondition the call
  returns, the amounts add up to the pool, are not negative, and belong to the given ids.
\<close>

locale pool_allocation =
  fixes alloc :: "int \<Rightarrow> 'i list \<Rightarrow> allocation list result"
    and key :: "'i \<Rightarrow> uuid"
    and ok :: "int \<Rightarrow> 'i list \<Rightarrow> bool"
  assumes returns: "ok pool xs \<Longrightarrow> \<exists>rows. alloc pool xs = Inr rows"
    and conserves: "ok pool xs \<Longrightarrow> alloc pool xs = Inr rows \<Longrightarrow> sum_list (map alloc_amount rows) = pool"
    and ids: "ok pool xs \<Longrightarrow> alloc pool xs = Inr rows \<Longrightarrow> map alloc_id rows = sort (map key xs)"
    and amounts_nonneg: "ok pool xs \<Longrightarrow> alloc pool xs = Inr rows \<Longrightarrow> a \<in> set rows \<Longrightarrow> 0 \<le> alloc_amount a"
    and distinct_ids: "ok pool xs \<Longrightarrow> distinct (map key xs)"
begin

lemma distinct_rows: "ok pool xs \<Longrightarrow> alloc pool xs = Inr rows \<Longrightarrow> distinct (map alloc_id rows)"
  by (simp add: ids distinct_ids)

lemma rows_ids: "ok pool xs \<Longrightarrow> alloc pool xs = Inr rows \<Longrightarrow> alloc_id ` set rows = key ` set xs"
  by (metis ids list.set_map set_sort)

lemma amount_outside:
  assumes "ok pool xs" "alloc pool xs = Inr rows" "i \<notin> key ` set xs"
  shows "amount_of rows i = 0"
  using assms rows_ids [OF assms(1,2)] distinct_rows [OF assms(1,2)]
  by (auto simp: amount_of_distinct find_None_set split: option.splits dest!: find_Some_set)

lemma amount_of_row:
  assumes "ok pool xs" "alloc pool xs = Inr rows" "a \<in> set rows"
  shows "amount_of rows (alloc_id a) = alloc_amount a"
proof -
  have d: "distinct (map alloc_id rows)" by (rule distinct_rows [OF assms(1,2)])
  have "find (\<lambda>r. alloc_id r = alloc_id a) rows \<noteq> None" using assms(3) by (auto simp: find_None_set)
  then obtain r where r: "find (\<lambda>r. alloc_id r = alloc_id a) rows = Some r" by auto
  with find_Some_set [OF r] d assms(3) have "r = a" by (auto simp: distinct_map dest: inj_onD)
  with r d show ?thesis by (simp add: amount_of_distinct)
qed

lemma amount_nonneg:
  assumes "ok pool xs" "alloc pool xs = Inr rows"
  shows "0 \<le> amount_of rows i"
  using assms distinct_rows [OF assms]
  by (auto simp: amount_of_distinct split: option.splits dest!: find_Some_set intro: amounts_nonneg)

text \<open>Reading the amounts over any list of members that contains the ids gives the pool.\<close>

lemma sum_over_members:
  assumes ok: "ok pool xs" "alloc pool xs = Inr rows"
    and ms: "distinct ms" "key ` set xs \<subseteq> set ms"
  shows "sum_list (map (amount_of rows) ms) = pool"
proof -
  let ?in = "filter (\<lambda>m. m \<in> key ` set xs) ms"
  have "sum_list (map (amount_of rows) ms)
      = sum_list (map (\<lambda>m. if m \<in> key ` set xs then amount_of rows m else 0) ms)"
    by (rule arg_cong [where f = sum_list], rule map_cong) (auto intro: amount_outside [OF ok])
  also have "\<dots> = sum_list (map (amount_of rows) ?in)"
    by (simp add: sum_list_map_filter')
  also have "\<dots> = sum_list (map (amount_of rows) (map alloc_id rows))"
  proof -
    have "mset ?in = mset (map alloc_id rows)"
      using ms distinct_rows [OF ok] rows_ids [OF ok]
      by (intro set_eq_iff_mset_eq_distinct [THEN iffD1]) auto
    then have "mset (map (amount_of rows) ?in) = mset (map (amount_of rows) (map alloc_id rows))"
      by (metis mset_map)
    then show ?thesis by (metis sum_mset_sum_list)
  qed
  also have "\<dots> = sum_list (map alloc_amount rows)"
    using amount_of_row [OF ok] by (auto simp: o_def intro!: arg_cong [where f = sum_list])
  finally show ?thesis using conserves [OF ok] by simp
qed

end

definition equal_ok :: "int \<Rightarrow> uuid list \<Rightarrow> bool" where
  "equal_ok pool ids \<longleftrightarrow> 0 \<le> pool \<and> distinct ids \<and> (ids = [] \<longrightarrow> pool = 0)"

definition weighted_ok :: "int \<Rightarrow> weighted list \<Rightarrow> bool" where
  "weighted_ok pool items \<longleftrightarrow>
     0 \<le> pool \<and> distinct (map w_id items) \<and> (\<forall>item \<in> set items. 0 \<le> weight item)
     \<and> (weight_total items = 0 \<longrightarrow> pool = 0)"

lemma weight_total_nonneg: "(\<forall>item \<in> set items. 0 \<le> weight item) \<Longrightarrow> 0 \<le> weight_total items"
  unfolding weight_total_def by (intro sum_list_int_nonneg) auto

lemma weighted_ok_cases:
  assumes "weighted_ok pool items"
  obtains "weights_ok pool items"
  | "pool = 0" "weight_total items = 0" "distinct (map w_id items)" "\<forall>item \<in> set items. 0 \<le> weight item"
  using assms weight_total_nonneg [of items]
  by (cases "weight_total items = 0") (auto simp: weighted_ok_def weights_ok_def)

lemma allocateByWeight_zero:
  assumes "weight_total items = 0" "distinct (map w_id items)" "\<forall>item \<in> set items. 0 \<le> weight item"
  shows "allocateByWeight 0 items =
    Inr (sort_key alloc_id (map (\<lambda>item. \<lparr>alloc_id = w_id item, alloc_amount = 0\<rparr>) items))"
proof -
  have "\<not> (\<exists>item \<in> set items. weight item < 0)" using assms(3) by auto
  with assms show ?thesis
    unfolding allocateByWeight_def Let_def weight_total_def [symmetric] by simp
qed

interpretation eq_alloc: pool_allocation allocateEqual "\<lambda>i. i" equal_ok
proof unfold_locales
  fix pool xs assume "equal_ok pool xs"
  then show "\<exists>rows. allocateEqual pool xs = Inr rows"
    by (cases "xs = []") (auto simp: equal_ok_def allocateEqual_ok)
next
  fix pool xs rows assume "equal_ok pool xs" "allocateEqual pool xs = Inr rows"
  then show "sum_list (map alloc_amount rows) = pool"
    by (cases "xs = []") (auto simp: equal_ok_def allocateEqual_ok sum_equal_rows)
next
  fix pool xs rows assume "equal_ok pool xs" "allocateEqual pool xs = Inr rows"
  then show "map alloc_id rows = sort (map (\<lambda>i. i) xs)"
    by (cases "xs = []") (auto simp: equal_ok_def allocateEqual_ok)
next
  fix pool xs rows a assume h: "equal_ok pool xs" "allocateEqual pool xs = Inr rows" "a \<in> set rows"
  show "0 \<le> alloc_amount a"
  proof (cases "xs = []")
    case False
    with h have "a \<in> set (equal_rows pool xs)" by (auto simp: equal_ok_def allocateEqual_ok)
    then have "pool div int (length xs) \<le> alloc_amount a" using equal_rows_amounts by force
    moreover have "0 \<le> pool div int (length xs)" using h(1) False
      by (simp add: equal_ok_def pos_imp_zdiv_nonneg_iff)
    ultimately show ?thesis by simp
  qed (use h in \<open>auto simp: equal_ok_def allocateEqual_def\<close>)
qed (auto simp: equal_ok_def)

interpretation wt_alloc: pool_allocation allocateByWeight w_id weighted_ok
proof unfold_locales
  fix pool xs assume "weighted_ok pool xs"
  then show "\<exists>rows. allocateByWeight pool xs = Inr rows"
    by (cases rule: weighted_ok_cases) (auto simp: allocateByWeight_ok allocateByWeight_zero)
next
  fix pool xs rows assume "weighted_ok pool xs" "allocateByWeight pool xs = Inr rows"
  then show "sum_list (map alloc_amount rows) = pool"
    by (cases rule: weighted_ok_cases)
      (auto simp: allocateByWeight_ok allocateByWeight_zero sum_list_sort_key o_def sum_shares
        weight_allocation_def)
next
  fix pool xs rows assume "weighted_ok pool xs" "allocateByWeight pool xs = Inr rows"
  then show "map alloc_id rows = sort (map w_id xs)"
    by (cases rule: weighted_ok_cases)
      (auto simp: allocateByWeight_ok allocateByWeight_zero map_key_sort_key o_def)
next
  fix pool xs rows a assume "weighted_ok pool xs" "allocateByWeight pool xs = Inr rows" "a \<in> set rows"
  then show "0 \<le> alloc_amount a"
    by (cases rule: weighted_ok_cases)
      (auto simp: allocateByWeight_ok allocateByWeight_zero set_weight_allocation share_def weights_ok_def
        pos_imp_zdiv_nonneg_iff)
qed (auto simp: weighted_ok_def)

section \<open>Properties\<close>





text \<open>
  The split does not depend on the order in which the members are given: two lists with the
  same members and weights give the same result, errors included.
\<close>

theorem allocateByWeight_order_independent:
  assumes "mset xs = mset ys"
  shows "allocateByWeight pool xs = allocateByWeight pool ys"
proof -
  have s: "set xs = set ys" "distinct (map w_id xs) = distinct (map w_id ys)"
    "weight_total xs = weight_total ys"
    using assms weight_rows_mset [OF assms]
    by (auto dest: mset_eq_setD) (metis mset_eq_imp_distinct_iff mset_map)+
  consider (ok) "weights_ok pool xs"
    | (zero) "pool = 0" "weight_total xs = 0" "distinct (map w_id xs)" "\<forall>i \<in> set xs. 0 \<le> weight i"
    | (err) "\<not> weighted_ok pool xs"
    by (metis weighted_ok_cases)
  then show ?thesis
  proof cases
    case ok
    moreover from ok s have "weights_ok pool ys" by (simp add: weights_ok_def)
    ultimately show ?thesis
      using weight_allocation_mset [OF assms] by (simp add: allocateByWeight_ok weights_ok_def)
  next
    case zero
    with s assms show ?thesis
      by (simp add: allocateByWeight_zero) (rule sort_key_perm, simp_all add: o_def)
  next
    case err
    have key: "allocateByWeight pool zs =
        (if pool < 0 then Inl (RangeErr ''Pool is negative'')
         else if \<not> distinct (map w_id zs) then Inl (RangeErr ''Allocation ids must be unique'')
         else if \<exists>i \<in> set zs. weight i < 0 then Inl (RangeErr ''Weights must not be negative'')
         else Inl (RangeErr ''Cannot allocate a positive pool without weight''))"
      if "\<not> weighted_ok pool zs" for zs
      using that unfolding allocateByWeight_def Let_def weight_total_def [symmetric]
      by (auto simp: weighted_ok_def linorder_not_less)
    from err s have err': "\<not> weighted_ok pool ys" by (simp add: weighted_ok_def)
    show ?thesis unfolding key [OF err] key [OF err'] s by (rule refl)
  qed
qed

theorem allocateByWeight_order_independent_witness:
  "allocateByWeight 7 [\<lparr>w_id = ''b'', weight = 1\<rparr>, \<lparr>w_id = ''a'', weight = 2\<rparr>]
   = allocateByWeight 7 [\<lparr>w_id = ''a'', weight = 2\<rparr>, \<lparr>w_id = ''b'', weight = 1\<rparr>]"
  by (rule allocateByWeight_order_independent) simp

text \<open>
  The equal split of a non-negative pool among at least one member never throws, adds up to the
  pool, lists the members by ascending id, and no two members differ by more than one unit.
\<close>

theorem allocateEqual_exact:
  assumes "0 \<le> pool" "distinct ids" "ids \<noteq> []"
  shows "\<exists>rows. allocateEqual pool ids = Inr rows
    \<and> sum_list (map alloc_amount rows) = pool
    \<and> map alloc_id rows = sort ids
    \<and> (\<forall>a \<in> set rows. \<forall>b \<in> set rows. \<bar>alloc_amount a - alloc_amount b\<bar> \<le> 1)"
proof -
  have "\<bar>alloc_amount a - alloc_amount b\<bar> \<le> 1"
    if "a \<in> set (equal_rows pool ids)" "b \<in> set (equal_rows pool ids)" for a b
    using equal_rows_amounts [OF that(1)] equal_rows_amounts [OF that(2)] by auto
  with assms show ?thesis by (simp add: allocateEqual_ok sum_equal_rows)
qed

theorem allocateEqual_exact_witness:
  "\<exists>rows. allocateEqual 11 [''b'', ''a'', ''c''] = Inr rows \<and> sum_list (map alloc_amount rows) = 11"
  using allocateEqual_exact [of 11 "[''b'', ''a'', ''c'']"] by auto

end
