(* ===== verification/Distribution.thy ===== *)
theory Distribution
  imports Overview Allocation
begin

text \<open>
  The distribution simulator (\<open>src/finance/finance-distribution.service.ts\<close>): it reads the overview
  of a period, splits a requested amount between the partners and the work done, and fingerprints
  everything the participants see. It writes nothing.
\<close>

section \<open>Input and output\<close>

datatype work_basis = WORK_SHIFTS | KNOWN_MINUTES

fun show_basis :: "work_basis \<Rightarrow> string" where
  "show_basis WORK_SHIFTS = ''WORK_SHIFTS''"
| "show_basis KNOWN_MINUTES = ''KNOWN_MINUTES''"

fun show_role :: "member_role \<Rightarrow> string" where
  "show_role Socio = ''socio''"
| "show_role Colaborador = ''colaborador''"

record sim_dto =
  sd_from :: string
  sd_to :: string
  sd_requestedAmountMinor :: int
  sd_partnerShareBps :: int
  sd_workShareBps :: int
  sd_workBasis :: work_basis

text \<open>What the validation pipe accepts (\<open>FinanceDistributionSimulationDto\<close>).\<close>

definition valid_sim_dto :: "sim_dto \<Rightarrow> bool" where
  "valid_sim_dto dto \<longleftrightarrow>
     isCalendarDate (sd_from dto) \<and> isCalendarDate (sd_to dto) \<and> sd_from dto < sd_to dto
     \<and> 1 \<le> sd_requestedAmountMinor dto \<and> sd_requestedAmountMinor dto \<le> MAX_MINOR_UNITS
     \<and> 0 \<le> sd_partnerShareBps dto \<and> sd_partnerShareBps dto \<le> BPS_TOTAL
     \<and> 0 \<le> sd_workShareBps dto \<and> sd_workShareBps dto \<le> BPS_TOTAL
     \<and> sd_workShareBps dto + sd_partnerShareBps dto = BPS_TOTAL"

record work_aggregate =
  wa_shiftCount :: int
  wa_knownMinutes :: int
  wa_unknownDurationCount :: int

record member_line =
  ml_memberId :: uuid
  ml_name :: string
  ml_role :: member_role
  ml_isActive :: bool
  ml_partnerEligible :: bool
  ml_partnerAmountMinor :: int
  ml_workUnits :: int
  ml_shiftCount :: int
  ml_knownMinutes :: int
  ml_unknownDurationCount :: int
  ml_workAmountMinor :: int
  ml_totalMinor :: int

record simulation =
  sm_period :: overview_period
  sm_currency :: string
  sm_potentiallyAvailableMinor :: int
  sm_requestedAmountMinor :: int
  sm_remainingAvailableMinor :: int
  sm_status :: coverage
  sm_partnerShareBps :: int
  sm_workShareBps :: int
  sm_workBasis :: work_basis
  sm_partnerMode :: string
  sm_partnerPoolMinor :: int
  sm_workPoolMinor :: int
  sm_members :: "member_line list"
  sm_distributedMinor :: int
  sm_undistributedMinor :: int
  sm_warnings :: "(string \<times> string) list"
  sm_simulationFingerprint :: string

section \<open>The fingerprint\<close>

definition json_period :: "overview_period \<Rightarrow> jsval" where
  "json_period p = JObj [(''from'', JStr (op_from p)), (''to'', JStr (op_to p)),
     (''fromInstant'', JStr (op_fromInstant p)), (''toInstant'', JStr (op_toInstant p)),
     (''utcOffsetMinutes'', JNum (op_utcOffsetMinutes p)), (''interval'', JStr (op_interval p))]"

definition json_member :: "member_line \<Rightarrow> jsval" where
  "json_member l = JObj [(''memberId'', JStr (ml_memberId l)), (''name'', JStr (ml_name l)),
     (''role'', JStr (show_role (ml_role l))), (''isActive'', JBool (ml_isActive l)),
     (''partnerEligible'', JBool (ml_partnerEligible l)),
     (''partnerAmountMinor'', JNum (ml_partnerAmountMinor l)), (''workUnits'', JNum (ml_workUnits l)),
     (''shiftCount'', JNum (ml_shiftCount l)), (''knownMinutes'', JNum (ml_knownMinutes l)),
     (''unknownDurationCount'', JNum (ml_unknownDurationCount l)),
     (''workAmountMinor'', JNum (ml_workAmountMinor l)), (''totalMinor'', JNum (ml_totalMinor l))]"

definition json_warning :: "string \<times> string \<Rightarrow> jsval" where
  "json_warning w = JObj [(''code'', JStr (fst w)), (''message'', JStr (snd w))]"

definition json_financialBase :: "simulation \<Rightarrow> jsval" where
  "json_financialBase s = JObj [(''potentiallyAvailableMinor'', JNum (sm_potentiallyAvailableMinor s)),
     (''requestedAmountMinor'', JNum (sm_requestedAmountMinor s)),
     (''remainingAvailableMinor'', JNum (sm_remainingAvailableMinor s)),
     (''status'', JStr (show_coverage (sm_status s)))]"

definition json_rule :: "simulation \<Rightarrow> jsval" where
  "json_rule s = JObj [(''partnerShareBps'', JNum (sm_partnerShareBps s)),
     (''workShareBps'', JNum (sm_workShareBps s)), (''workBasis'', JStr (show_basis (sm_workBasis s))),
     (''partnerMode'', JStr (sm_partnerMode s))]"

definition json_pools :: "simulation \<Rightarrow> jsval" where
  "json_pools s = JObj [(''partnerPoolMinor'', JNum (sm_partnerPoolMinor s)),
     (''workPoolMinor'', JNum (sm_workPoolMinor s))]"

definition json_totals :: "simulation \<Rightarrow> jsval" where
  "json_totals s = JObj [(''distributedMinor'', JNum (sm_distributedMinor s)),
     (''undistributedMinor'', JNum (sm_undistributedMinor s))]"

definition simulation_content :: "simulation \<Rightarrow> jsval" where
  "simulation_content s = JObj [(''period'', json_period (sm_period s)),
     (''currency'', JStr (sm_currency s)), (''financialBase'', json_financialBase s),
     (''rule'', json_rule s), (''pools'', json_pools s),
     (''members'', JArr (map json_member (sm_members s))), (''totals'', json_totals s),
     (''warnings'', JArr (map json_warning (sm_warnings s)))]"

definition SIMULATION_FINGERPRINT_PREFIX :: string where
  "SIMULATION_FINGERPRINT_PREFIX = ''sim1:''"

definition simulationFingerprint :: "(string \<Rightarrow> string) \<Rightarrow> simulation \<Rightarrow> string result" where
  "simulationFingerprint H s =
     (case canonicalDigest H (simulation_content s) of
        Inl e \<Rightarrow> Inl e | Inr digest \<Rightarrow> Inr (SIMULATION_FINGERPRINT_PREFIX @ digest))"

section \<open>The simulation\<close>

text \<open>
  The two \<open>groupBy\<close> queries, as the map \<open>work\<close> they fill: per member with active shifts the number
  of shifts, the sum of the known minutes and the number of shifts whose minutes are null.
\<close>

definition aggregate_of :: "work_shift list \<Rightarrow> uuid \<Rightarrow> work_aggregate" where
  "aggregate_of ws m =
     (let mine = [w \<leftarrow> ws. ws_memberId w = m] in
      \<lparr>wa_shiftCount = int (length mine),
       wa_knownMinutes = sum_list (map (\<lambda>w. case ws_minutes w of None \<Rightarrow> 0 | Some k \<Rightarrow> k) mine),
       wa_unknownDurationCount = int (length [w \<leftarrow> mine. ws_minutes w = None])\<rparr>)"

definition work_of :: "work_shift list \<Rightarrow> (uuid \<times> work_aggregate) list" where
  "work_of ws = map (\<lambda>m. (m, aggregate_of ws m)) (remdups (map ws_memberId ws))"

fun units_of :: "work_basis \<Rightarrow> work_aggregate \<Rightarrow> int" where
  "units_of WORK_SHIFTS a = wa_shiftCount a"
| "units_of KNOWN_MINUTES a = wa_knownMinutes a"

definition participants_of :: "db \<Rightarrow> string \<Rightarrow> (uuid \<times> work_aggregate) list \<Rightarrow> member list" where
  "participants_of d c work =
     [m \<leftarrow> in_context c (members d). (m_role m = Socio \<and> m_active m) \<or> rid m \<in> set (map fst work)]"

definition partner_ids :: "member list \<Rightarrow> uuid list" where
  "partner_ids ms = map rid [m \<leftarrow> ms. m_role m = Socio \<and> m_active m]"

definition work_weights :: "work_basis \<Rightarrow> (uuid \<times> work_aggregate) list \<Rightarrow> weighted list" where
  "work_weights basis work = map (\<lambda>(i, a). \<lparr>w_id = i, weight = units_of basis a\<rparr>) work"

text \<open>One row of the answer.\<close>

definition member_row ::
  "work_basis \<Rightarrow> (uuid \<times> work_aggregate) list \<Rightarrow> uuid list \<Rightarrow> allocation list \<Rightarrow> allocation list \<Rightarrow> member \<Rightarrow> member_line"
where
  "member_row basis work partnerIds partnerAmounts workAmounts m =
     (let agg = map_of work (rid m);
          partnerAmount = amount_of partnerAmounts (rid m);
          workAmount = amount_of workAmounts (rid m) in
      \<lparr>ml_memberId = rid m, ml_name = m_name m, ml_role = m_role m, ml_isActive = m_active m,
       ml_partnerEligible = (rid m \<in> set partnerIds),
       ml_partnerAmountMinor = partnerAmount,
       ml_workUnits = (case agg of None \<Rightarrow> 0 | Some a \<Rightarrow> units_of basis a),
       ml_shiftCount = (case agg of None \<Rightarrow> 0 | Some a \<Rightarrow> wa_shiftCount a),
       ml_knownMinutes = (case agg of None \<Rightarrow> 0 | Some a \<Rightarrow> wa_knownMinutes a),
       ml_unknownDurationCount = (case agg of None \<Rightarrow> 0 | Some a \<Rightarrow> wa_unknownDurationCount a),
       ml_workAmountMinor = workAmount,
       ml_totalMinor = partnerAmount + workAmount\<rparr>)"

definition simulation_warnings ::
  "overview_figures \<Rightarrow> sim_dto \<Rightarrow> int \<Rightarrow> member_line list \<Rightarrow> (uuid \<times> work_aggregate) list \<Rightarrow> (string \<times> string) list"
where
  "simulation_warnings base dto partnerPool rows work =
     [(''SIMULATION_ONLY'',
       ''This is a simulation. Nothing was saved and no figure here is a recorded decision.''),
      (''NOT_A_PAYMENT_OR_OBLIGATION'',
       ''Simulated amounts are not payments, withdrawals, debts or obligations.'')]
     @ (if ov_status base = Partial
        then [(''OPERATING_RESULT_PARTIAL'',
               ''The operating result is partial because some sold lines have no recorded cost; the available amount may be overstated.'')]
             @ (case find (\<lambda>w. fst w = ''MISSING_SALE_COST'') (ov_warnings base) of
                  None \<Rightarrow> [] | Some w \<Rightarrow> [w])
        else [])
     @ (if partnerPool > 0
        then [(''PARTNER_ELIGIBILITY_IS_CURRENT_STATE'',
               ''Partner eligibility uses the current active socios; membership history is not tracked.'')]
        else [])
     @ (let unknownShifts = sum_list (map (\<lambda>x. wa_unknownDurationCount (snd x)) work) in
        if sd_workBasis dto = KNOWN_MINUTES \<and> unknownShifts > 0
        then [(''WORK_SHIFTS_WITHOUT_DURATION'',
               show_int unknownShifts @ '' work shift(s) have no known duration and weigh 0 under KNOWN_MINUTES.'')]
        else [])
     @ (if list_ex (\<lambda>row. \<not> ml_isActive row \<and> ml_workAmountMinor row > 0) rows
        then [(''INACTIVE_MEMBER_RECEIVES_WORK_AMOUNT'',
               ''An inactive member has registered work in the period and receives a simulated work amount.'')]
        else [])"

text \<open>The answer, once the amounts are allocated: the final check, the content and its fingerprint.\<close>

definition finish_simulation ::
  "(string \<Rightarrow> string) \<Rightarrow> overview_figures \<Rightarrow> sim_dto \<Rightarrow> int \<Rightarrow> int \<Rightarrow> (uuid \<times> work_aggregate) list \<Rightarrow> member_line list
    \<Rightarrow> simulation result"
where
  "finish_simulation H base dto partnerPool workPool work rows =
     (let requested = sd_requestedAmountMinor dto;
          available = ov_potentiallyAvailableMinor base;
          distributed = sum_list (map ml_totalMinor rows) in
      if distributed \<noteq> requested then Inl (Internal ''Simulated distribution does not add up'')
      else
        let content = \<lparr>sm_period = ov_period base, sm_currency = ov_currency base,
              sm_potentiallyAvailableMinor = available, sm_requestedAmountMinor = requested,
              sm_remainingAvailableMinor = available - requested, sm_status = ov_status base,
              sm_partnerShareBps = sd_partnerShareBps dto, sm_workShareBps = sd_workShareBps dto,
              sm_workBasis = sd_workBasis dto, sm_partnerMode = ''EQUAL'',
              sm_partnerPoolMinor = partnerPool, sm_workPoolMinor = workPool, sm_members = rows,
              sm_distributedMinor = distributed, sm_undistributedMinor = requested - distributed,
              sm_warnings = simulation_warnings base dto partnerPool rows work,
              sm_simulationFingerprint = []\<rparr> in
        (case simulationFingerprint H content of
           Inl e \<Rightarrow> Inl e
         | Inr fp \<Rightarrow> Inr (content\<lparr>sm_simulationFingerprint := fp\<rparr>)))"

definition simulateInTx :: "(string \<Rightarrow> string) \<Rightarrow> db \<Rightarrow> string \<Rightarrow> sim_dto \<Rightarrow> simulation result" where
  "simulateInTx H d c dto =
     (case compute d c (sd_from dto) (sd_to dto) of Inl e \<Rightarrow> Inl e
      | Inr base \<Rightarrow>
        if sd_requestedAmountMinor dto > ov_potentiallyAvailableMinor base
        then Inl (Unprocessable ''FINANCE_DISTRIBUTION_EXCEEDS_AVAILABLE'')
        else
          let work = work_of (shifts_in d c (sd_from dto) (sd_to dto));
              ms = participants_of d c work in
          (case splitPools (sd_requestedAmountMinor dto) (sd_partnerShareBps dto) of Inl e \<Rightarrow> Inl e
           | Inr (partnerPool, workPool) \<Rightarrow>
             let partnerIds = partner_ids ms in
             if sd_partnerShareBps dto > 0 \<and> partnerIds = []
             then Inl (Unprocessable ''FINANCE_DISTRIBUTION_NO_PARTNERS'')
             else
               let weights = work_weights (sd_workBasis dto) work;
                   totalUnits = sum_list (map weight weights) in
               if sd_workShareBps dto > 0 \<and> totalUnits = 0
               then Inl (Unprocessable ''FINANCE_DISTRIBUTION_NO_WORK'')
               else
                 (case allocateEqual partnerPool partnerIds of Inl e \<Rightarrow> Inl e
                  | Inr partnerAmounts \<Rightarrow>
                    (case (if totalUnits = 0
                           then Inr (map (\<lambda>w. \<lparr>alloc_id = w_id w, alloc_amount = 0\<rparr>) weights)
                           else allocateByWeight workPool weights) of Inl e \<Rightarrow> Inl e
                     | Inr workAmounts \<Rightarrow>
                       let rows = map (member_row (sd_workBasis dto) work partnerIds partnerAmounts workAmounts)
                             (sort_key rid [m \<leftarrow> ms. rid m \<in> set partnerIds \<or> rid m \<in> set (map fst work)])
                       in finish_simulation H base dto partnerPool workPool work rows))))"

definition simulate :: "(string \<Rightarrow> string) \<Rightarrow> db \<Rightarrow> string \<Rightarrow> sim_dto \<Rightarrow> simulation result" where
  "simulate H d c dto =
     (if \<not> isCalendarDate (sd_from dto) \<or> \<not> isCalendarDate (sd_to dto) \<or> \<not> sd_from dto < sd_to dto
      then Inl (BadRequest ''from and to must be valid YYYY-MM-DD dates with from preceding to'')
      else simulateInTx H d c dto)"

definition availableInTx :: "db \<Rightarrow> string \<Rightarrow> string \<Rightarrow> string \<Rightarrow> int result" where
  "availableInTx d c from to =
     (case compute d c from to of Inl e \<Rightarrow> Inl e | Inr base \<Rightarrow> Inr (ov_potentiallyAvailableMinor base))"

section \<open>The answer is always a fingerprinted simulation or a domain error\<close>

lemma plain_content: "plain (simulation_content s)"
  by (auto simp: simulation_content_def json_period_def json_financialBase_def json_rule_def json_pools_def
      json_totals_def json_member_def json_warning_def)

lemma canonicalDigest_plain: "plain v \<Longrightarrow> canonicalDigest H v = Inr (H (json_stringify (sorted_keys v)))"
  by (simp add: canonicalDigest_def canonicalJson_def serialize_plain(1))

lemma compute_errors:
  assumes "compute d c from to = Inl e"
  shows "\<exists>code. e = Unprocessable code"
proof -
  have sale: "sale_loop d ss a = Inl e' \<Longrightarrow> \<exists>code. e' = Unprocessable code" for ss a e'
    by (induction ss arbitrary: a) (auto split: option.splits)
  have expense: "expense_loop es x y = Inl e' \<Longrightarrow> \<exists>code. e' = Unprocessable code" for es x y e'
    by (induction es arbitrary: x y) (auto split: if_splits)
  show ?thesis
    using assms unfolding compute_def Let_def
    by (auto split: sum.splits if_splits prod.splits dest: sale expense)
qed

text \<open>
  What the tables guarantee: member ids are primary keys, a shift belongs to a member of its context
  (a foreign key) and its minutes are not negative.
\<close>

definition shifts_ok :: "db \<Rightarrow> string \<Rightarrow> bool" where
  "shifts_ok d c \<longleftrightarrow> distinct (map rid (members d))
     \<and> (\<forall>w \<in> set (in_context c (workShifts d)).
          ws_memberId w \<in> rid ` set (in_context c (members d))
          \<and> (case ws_minutes w of None \<Rightarrow> True | Some k \<Rightarrow> 0 \<le> k))"

lemma aggregate_nonneg:
  assumes "shifts_ok d c"
  shows "0 \<le> units_of basis (aggregate_of (shifts_in d c from to) m)"
proof (cases basis)
  case KNOWN_MINUTES
  have "0 \<le> (case ws_minutes w of None \<Rightarrow> 0 | Some k \<Rightarrow> k)" if "w \<in> set (shifts_in d c from to)" for w
    using assms that by (auto simp: shifts_ok_def shifts_in_def split: option.splits)
  then show ?thesis
    by (auto simp: KNOWN_MINUTES aggregate_of_def Let_def intro!: sum_list_int_nonneg)
qed (simp add: aggregate_of_def Let_def)

lemma work_keys: "map fst (work_of ws) = remdups (map ws_memberId ws)"
  by (simp add: work_of_def o_def)

lemma work_weights_ids: "map w_id (work_weights basis (work_of ws)) = remdups (map ws_memberId ws)"
  by (simp add: work_weights_def work_of_def o_def)

lemma sum_zero_rows: "amount_of (map (\<lambda>w. \<lparr>alloc_id = w_id w, alloc_amount = 0\<rparr>) ws) i = 0"
  by (auto simp: amount_of_def rev_map o_def split: option.splits dest!: map_of_SomeD)

text \<open>The rows of a simulation that got past the domain checks.\<close>

definition conserved :: "sim_dto \<Rightarrow> simulation \<Rightarrow> bool" where
  "conserved dto s \<longleftrightarrow>
     sum_list (map ml_totalMinor (sm_members s)) = sd_requestedAmountMinor dto
     \<and> sum_list (map ml_partnerAmountMinor (sm_members s)) = sm_partnerPoolMinor s
     \<and> sum_list (map ml_workAmountMinor (sm_members s)) = sm_workPoolMinor s
     \<and> sm_partnerPoolMinor s + sm_workPoolMinor s = sd_requestedAmountMinor dto
     \<and> sm_distributedMinor s = sd_requestedAmountMinor dto \<and> sm_undistributedMinor s = 0
     \<and> sd_requestedAmountMinor dto \<le> sm_potentiallyAvailableMinor s
     \<and> distinct (map ml_memberId (sm_members s))
     \<and> (\<forall>l \<in> set (sm_members s). 0 \<le> ml_partnerAmountMinor l \<and> 0 \<le> ml_workAmountMinor l
          \<and> ml_totalMinor l = ml_partnerAmountMinor l + ml_workAmountMinor l
          \<and> (\<not> ml_partnerEligible l \<longrightarrow> ml_partnerAmountMinor l = 0))"

lemma finish_simulation_ok:
  assumes "sum_list (map ml_totalMinor rows) = sd_requestedAmountMinor dto"
  obtains s where "finish_simulation H base dto pp wp work rows = Inr s"
    "sm_members s = rows" "sm_partnerPoolMinor s = pp" "sm_workPoolMinor s = wp"
    "sm_distributedMinor s = sd_requestedAmountMinor dto" "sm_undistributedMinor s = 0"
    "sm_potentiallyAvailableMinor s = ov_potentiallyAvailableMinor base"
    "sm_requestedAmountMinor s = sd_requestedAmountMinor dto"
  using assms
  by (simp add: finish_simulation_def Let_def simulationFingerprint_def canonicalDigest_plain plain_content)

text \<open>The answer of a request that got past the domain checks.\<close>

lemma simulateInTx_step:
  assumes "compute d c (sd_from dto) (sd_to dto) = Inr base"
    and "\<not> sd_requestedAmountMinor dto > ov_potentiallyAvailableMinor base"
    and "work = work_of (shifts_in d c (sd_from dto) (sd_to dto))" "ms = participants_of d c work"
    and "ids = partner_ids ms" "weights = work_weights (sd_workBasis dto) work"
    and "splitPools (sd_requestedAmountMinor dto) (sd_partnerShareBps dto) = Inr (pp, wp)"
    and "\<not> (sd_partnerShareBps dto > 0 \<and> ids = [])"
    and "\<not> (sd_workShareBps dto > 0 \<and> sum_list (map weight weights) = 0)"
    and "allocateEqual pp ids = Inr pa"
    and "(if sum_list (map weight weights) = 0
          then Inr (map (\<lambda>w. \<lparr>alloc_id = w_id w, alloc_amount = 0\<rparr>) weights)
          else allocateByWeight wp weights) = Inr wa"
  shows "simulateInTx H d c dto = finish_simulation H base dto pp wp work
    (map (member_row (sd_workBasis dto) work ids pa wa) (sort_key rid ms))"
proof -
  have "[m \<leftarrow> ms. rid m \<in> set ids \<or> rid m \<in> set (map fst work)] = ms"
    unfolding assms(3-5) by (rule filter_True) (auto simp: partner_ids_def participants_of_def)
  then show ?thesis
    unfolding simulateInTx_def Let_def assms(1) sum.case if_not_P [OF assms(2)] assms(3-6) [symmetric]
      assms(7) prod.case if_not_P [OF assms(8)] if_not_P [OF assms(9)] assms(10,11)
    by (rule arg_cong)
qed

text \<open>When the domain checks pass: the overview computes, the request fits, and each pool has somebody to go to.\<close>

definition admissible :: "db \<Rightarrow> string \<Rightarrow> sim_dto \<Rightarrow> bool" where
  "admissible d c dto \<longleftrightarrow>
     (case compute d c (sd_from dto) (sd_to dto) of Inl _ \<Rightarrow> False
      | Inr base \<Rightarrow>
        let work = work_of (shifts_in d c (sd_from dto) (sd_to dto)) in
        sd_requestedAmountMinor dto \<le> ov_potentiallyAvailableMinor base
        \<and> (sd_partnerShareBps dto > 0 \<longrightarrow> partner_ids (participants_of d c work) \<noteq> [])
        \<and> (sd_workShareBps dto > 0 \<longrightarrow> sum_list (map weight (work_weights (sd_workBasis dto) work)) \<noteq> 0))"

lemma simulateInTx_outcome:
  assumes ok: "shifts_ok d c" and dto: "valid_sim_dto dto"
  shows "(admissible d c dto \<and> (\<exists>s. simulateInTx H d c dto = Inr s \<and> conserved dto s))
       \<or> (\<not> admissible d c dto \<and> (\<exists>code. simulateInTx H d c dto = Inl (Unprocessable code)))"
proof (cases "compute d c (sd_from dto) (sd_to dto)")
  case (Inl e)
  with compute_errors [OF Inl] show ?thesis by (auto simp: simulateInTx_def admissible_def)
next
  case (Inr base)
  let ?req = "sd_requestedAmountMinor dto" and ?bps = "sd_partnerShareBps dto"
  let ?ws = "shifts_in d c (sd_from dto) (sd_to dto)"
  let ?work = "work_of ?ws"
  let ?ms = "participants_of d c ?work"
  let ?ids = "partner_ids ?ms"
  let ?weights = "work_weights (sd_workBasis dto) ?work"
  let ?units = "sum_list (map weight ?weights)"
  define pp where "pp = ?req * ?bps div BPS_TOTAL"
  define wp where "wp = ?req - pp"
  have split: "splitPools ?req ?bps = Inr (pp, wp)"
    using dto by (simp add: valid_sim_dto_def splitPools_def pp_def wp_def Let_def)
  have pools: "0 \<le> pp" "0 \<le> wp" "pp + wp = ?req"
    using splitPools_bounds [OF split] by (auto simp: wp_def)
  show ?thesis
  proof (cases "?req > ov_potentiallyAvailableMinor base \<or> (?bps > 0 \<and> ?ids = [])
        \<or> (sd_workShareBps dto > 0 \<and> ?units = 0)")
    case True
    then show ?thesis by (auto simp: simulateInTx_def admissible_def Inr split Let_def)
  next
    case False
    have dm: "distinct (map rid ?ms)"
      using ok by (simp add: shifts_ok_def participants_of_def in_context_def distinct_map_filter)
    have "pp = 0" if "?bps = 0" using that by (simp add: pp_def)
    then have eq_ok: "equal_ok pp ?ids"
      using False dm pools dto
      by (auto simp: equal_ok_def partner_ids_def distinct_map_filter valid_sim_dto_def)
    then obtain pa where pa: "allocateEqual pp ?ids = Inr pa" using eq_alloc.returns by blast
    have w_nonneg: "\<forall>i \<in> set ?weights. 0 \<le> weight i"
      by (auto simp: work_weights_def work_of_def intro: aggregate_nonneg [OF ok])
    have w_distinct: "distinct (map w_id ?weights)" by (simp add: work_weights_ids)
    have no_work: "wp = 0" if "?units = 0"
    proof -
      have "sd_workShareBps dto = 0" using False that dto by (auto simp: valid_sim_dto_def)
      then have "?bps = BPS_TOTAL" using dto by (simp add: valid_sim_dto_def)
      then show ?thesis by (simp add: wp_def pp_def BPS_TOTAL_def)
    qed
    then have wt_ok: "weighted_ok wp ?weights"
      using pools w_nonneg w_distinct by (simp add: weighted_ok_def weight_total_def)
    then obtain wa0 where wa0: "allocateByWeight wp ?weights = Inr wa0" using wt_alloc.returns by blast
    define wa where "wa = (if ?units = 0 then map (\<lambda>w. \<lparr>alloc_id = w_id w, alloc_amount = 0\<rparr>) ?weights else wa0)"
    have wa_eq: "(if ?units = 0 then Inr (map (\<lambda>w. \<lparr>alloc_id = w_id w, alloc_amount = 0\<rparr>) ?weights)
        else allocateByWeight wp ?weights) = Inr wa"
      unfolding wa_def by (simp add: wa0)
    let ?rs = "sort_key rid ?ms"
    let ?row = "member_row (sd_workBasis dto) ?work ?ids pa wa"
    let ?is = "map rid (sort_key rid ?ms)"
    have is_ok: "distinct ?is" using dm by simp
    have ids_in: "(\<lambda>i. i) ` set ?ids \<subseteq> set ?is" by (auto simp: partner_ids_def)
    have work_in: "w_id ` set ?weights \<subseteq> set ?is"
    proof
      fix i assume "i \<in> w_id ` set ?weights"
      then have i: "i \<in> set (map fst ?work)" by (force simp: work_weights_def)
      then have "i \<in> ws_memberId ` set ?ws" by (simp add: work_keys)
      then have "i \<in> rid ` set (in_context c (members d))"
        using ok by (auto simp: shifts_ok_def shifts_in_def)
      then obtain m where "m \<in> set (in_context c (members d))" "i = rid m" by auto
      with i have "m \<in> set ?ms" by (simp add: participants_of_def)
      with \<open>i = rid m\<close> show "i \<in> set ?is" by simp
    qed
    have partner_sum: "sum_list (map (amount_of pa) ?is) = pp"
      by (rule eq_alloc.sum_over_members [OF eq_ok pa is_ok ids_in])
    have work_sum: "sum_list (map (amount_of wa) ?is) = wp"
    proof (cases "?units = 0")
      case True
      have "sum_list (map (amount_of wa) ?is) = 0" using True by (intro sum_list_zero) (simp add: wa_def sum_zero_rows)
      with no_work True show ?thesis by simp
    next
      case False
      then show ?thesis using wt_alloc.sum_over_members [OF wt_ok wa0 is_ok work_in] by (simp add: wa_def)
    qed
    let ?rows = "map ?row ?rs"
    have fields: "map ml_partnerAmountMinor ?rows = map (amount_of pa) ?is"
      "map ml_workAmountMinor ?rows = map (amount_of wa) ?is" "map ml_memberId ?rows = ?is"
      by (auto simp: member_row_def Let_def)
    have totals: "map ml_totalMinor ?rows = map (\<lambda>i. amount_of pa i + amount_of wa i) ?is"
      by (auto simp: member_row_def Let_def)
    have total: "sum_list (map ml_totalMinor ?rows) = ?req"
      unfolding totals sum_list_addf partner_sum work_sum by (rule pools)
    obtain s where s: "finish_simulation H base dto pp wp ?work ?rows = Inr s"
      and sf: "sm_members s = ?rows" "sm_partnerPoolMinor s = pp" "sm_workPoolMinor s = wp"
        "sm_distributedMinor s = ?req" "sm_undistributedMinor s = 0"
        "sm_potentiallyAvailableMinor s = ov_potentiallyAvailableMinor base" "sm_requestedAmountMinor s = ?req"
      by (rule finish_simulation_ok [OF total, of H base pp wp ?work])
    have result: "simulateInTx H d c dto = Inr s"
      unfolding s [symmetric]
      by (rule simulateInTx_step [OF Inr _ refl refl refl refl split _ _ pa wa_eq]) (use False in auto)
    have nonneg: "0 \<le> amount_of pa i" "0 \<le> amount_of wa i" for i
      using eq_alloc.amount_nonneg [OF eq_ok pa] wt_alloc.amount_nonneg [OF wt_ok wa0]
      by (auto simp: wa_def sum_zero_rows)
    have outside: "amount_of pa i = 0" if "i \<notin> set ?ids" for i
      using eq_alloc.amount_outside [OF eq_ok pa] that by simp
    have "conserved dto s"
      unfolding conserved_def sf fields total
      using partner_sum work_sum pools False is_ok nonneg outside
      by (auto simp: member_row_def Let_def)
    moreover have "admissible d c dto" using False by (simp add: admissible_def Inr Let_def)
    ultimately show ?thesis using result by blast
  qed
qed

section \<open>Properties\<close>

text \<open>C3: a validated request is answered with a simulation exactly when the overview can be computed,
  the request fits in the available amount and each pool has somebody to go to; otherwise it is
  refused with a domain error. A simulation distributes exactly what was requested, to the cent:
  the totals of the members add up to the request, the partner amounts to the partner pool and the
  work amounts to the work pool, nobody gets a negative amount and nobody but an eligible partner a
  partner amount. In particular the final check of the code never fires.\<close>

theorem simulateInTx_conserves:
  assumes "shifts_ok d c" "valid_sim_dto dto"
  shows "case simulateInTx H d c dto of
           Inr s \<Rightarrow> admissible d c dto \<and> conserved dto s
         | Inl e \<Rightarrow> \<not> admissible d c dto \<and> (\<exists>code. e = Unprocessable code)"
  using simulateInTx_outcome [OF assms, of H] by auto

definition sample_request :: sim_dto where
  "sample_request = \<lparr>sd_from = ''2026-01-01'', sd_to = ''2026-02-01'', sd_requestedAmountMinor = 1001,
     sd_partnerShareBps = 6000, sd_workShareBps = 4000, sd_workBasis = WORK_SHIFTS\<rparr>"

lemma simulateInTx_conserves_witness:
  "\<exists>s. simulateInTx (\<lambda>s. s) sample_db ''t1'' sample_request = Inr s
     \<and> sum_list (map ml_totalMinor (sm_members s)) = 1001 \<and> sm_undistributedMinor s = 0"
proof -
  have hyps: "shifts_ok sample_db ''t1''" "valid_sim_dto sample_request" by code_simp+
  have "admissible sample_db ''t1'' sample_request" by code_simp
  with simulateInTx_conserves [OF hyps, of "\<lambda>s. s"] show ?thesis
    by (auto simp: conserved_def sample_request_def split: sum.splits)
qed

text \<open>The keys of every object are constants, so the normal form of a content determines the content.\<close>

lemma sorted_fields:
  assumes "map fst xs = map fst ys" "distinct (map fst xs)" "sort_key fst xs = sort_key fst ys"
  shows "xs = ys"
proof -
  have "set xs = set ys" using assms(3) by (metis set_sort)
  moreover have "inj_on fst (set xs)" using assms(2) by (simp add: distinct_map)
  ultimately show ?thesis using assms(1) by (metis map_inj_on Un_absorb)
qed

text \<open>Two objects with the same distinct keys in the same order and the same normal form agree field by field.\<close>

lemma sorted_keys_fields:
  assumes "sorted_keys (JObj xs) = sorted_keys (JObj ys)" "map fst xs = map fst ys" "distinct (map fst xs)"
  shows "map (\<lambda>x. sorted_keys (snd x)) xs = map (\<lambda>x. sorted_keys (snd x)) ys"
proof -
  let ?f = "\<lambda>(k, v). (k, sorted_keys v)"
  have sort_map: "map ?f (sort_key fst zs) = sort_key fst (map ?f zs)" if "distinct (map fst zs)" for zs
  proof (rule map_sorted_distinct_set_unique [where f = fst])
    have fst_f: "fst \<circ> ?f = fst" by auto
    have keys: "map fst (map ?f (sort_key fst zs)) = sort (map fst zs)"
      by (simp add: fst_f map_key_sort_key)
    have keys': "map fst (sort_key fst (map ?f zs)) = sort (map fst zs)"
      unfolding map_key_sort_key by (simp add: fst_f)
    show "sorted (map fst (map ?f (sort_key fst zs)))" "distinct (map fst (map ?f (sort_key fst zs)))"
      unfolding keys using that by simp_all
    show "sorted (map fst (sort_key fst (map ?f zs)))" "distinct (map fst (sort_key fst (map ?f zs)))"
      unfolding keys' using that by simp_all
    show "set (map ?f (sort_key fst zs)) = set (sort_key fst (map ?f zs))" by simp
    have "inj_on (fst \<circ> ?f) (set zs)" using that unfolding fst_f by (simp add: distinct_map)
    then have "inj_on fst (?f ` set zs)" by (rule inj_on_imageI)
    then show "inj_on fst (set (map ?f (sort_key fst zs)) \<union> set (sort_key fst (map ?f zs)))" by simp
  qed
  have dys: "distinct (map fst ys)" using assms(2,3) by simp
  have fst_f: "fst \<circ> ?f = fst" by auto
  have "sort_key fst (map ?f xs) = sort_key fst (map ?f ys)"
    using assms(1) by (simp add: sort_map [OF assms(3)] sort_map [OF dys])
  then have "map ?f xs = map ?f ys"
    by (rule sorted_fields [rotated 2]) (use assms(2,3) in \<open>simp_all add: fst_f\<close>)
  then have "map snd (map ?f xs) = map snd (map ?f ys)" by simp
  then show ?thesis by (simp add: o_def case_prod_unfold)
qed

lemma json_member_inj:
  assumes "sorted_keys (json_member l) = sorted_keys (json_member m)"
  shows "l = m"
proof -
  have role: "show_role r = show_role r' \<Longrightarrow> r = r'" for r r' by (cases r; cases r') auto
  show ?thesis
    using sorted_keys_fields [OF assms [unfolded json_member_def]]
    by (cases l; cases m) (auto dest: role)
qed

lemma json_members_inj:
  "map (sorted_keys \<circ> json_member) ls = map (sorted_keys \<circ> json_member) ms \<Longrightarrow> ls = ms"
  by (induction ls arbitrary: ms) (auto dest: json_member_inj)

lemma json_warnings_inj:
  "map (sorted_keys \<circ> json_warning) vs = map (sorted_keys \<circ> json_warning) ws \<Longrightarrow> vs = ws"
proof (induction vs arbitrary: ws)
  case (Cons v vs)
  then obtain w ws' where ws: "ws = w # ws'" by (cases ws) auto
  with Cons.prems have "sorted_keys (json_warning v) = sorted_keys (json_warning w)" by simp
  from sorted_keys_fields [OF this [unfolded json_warning_def]] have "v = w" by (cases v; cases w) simp
  with Cons ws show ?case by simp
qed simp

lemma json_period_inj:
  assumes "sorted_keys (json_period p) = sorted_keys (json_period q)"
  shows "p = q"
  using sorted_keys_fields [OF assms [unfolded json_period_def]] by (cases p; cases q) simp

lemma content_inj:
  assumes "sorted_keys (simulation_content s) = sorted_keys (simulation_content t)"
  shows "s\<lparr>sm_simulationFingerprint := []\<rparr> = t\<lparr>sm_simulationFingerprint := []\<rparr>"
proof -
  have cov: "show_coverage r = show_coverage r' \<Longrightarrow> r = r'" for r r' by (cases r; cases r') auto
  have bas: "show_basis r = show_basis r' \<Longrightarrow> r = r'" for r r' by (cases r; cases r') auto
  note fs = sorted_keys_fields [OF assms [unfolded simulation_content_def], simplified]
  have p: "sm_period s = sm_period t" using fs by (intro json_period_inj) simp
  have m: "sm_members s = sm_members t" using fs by (intro json_members_inj) simp
  have w: "sm_warnings s = sm_warnings t" using fs by (intro json_warnings_inj) simp
  have fb: "sorted_keys (json_financialBase s) = sorted_keys (json_financialBase t)" using fs by simp
  have ru: "sorted_keys (json_rule s) = sorted_keys (json_rule t)" using fs by simp
  have po: "sorted_keys (json_pools s) = sorted_keys (json_pools t)" using fs by simp
  have to: "sorted_keys (json_totals s) = sorted_keys (json_totals t)" using fs by simp
  show ?thesis
    using p m w fs sorted_keys_fields [OF fb [unfolded json_financialBase_def]]
      sorted_keys_fields [OF ru [unfolded json_rule_def]] sorted_keys_fields [OF po [unfolded json_pools_def]]
      sorted_keys_fields [OF to [unfolded json_totals_def]]
    by (cases s; cases t) (auto dest: cov bas)
qed

text \<open>The fingerprint covers everything the participants see, and nothing else: unless the hash
  collides on their two texts, two simulations have the same fingerprint exactly when their period,
  figures, rule, pools, members, totals and warnings are all the same.\<close>

theorem simulationFingerprint_binds:
  assumes "canonicalJson (simulation_content s) = Inr x" "canonicalJson (simulation_content t) = Inr y"
    and "H x = H y \<longrightarrow> x = y"
  shows "simulationFingerprint H s = simulationFingerprint H t
     \<longleftrightarrow> s\<lparr>sm_simulationFingerprint := []\<rparr> = t\<lparr>sm_simulationFingerprint := []\<rparr>"
proof
  assume "simulationFingerprint H s = simulationFingerprint H t"
  then have "x = y" using assms by (simp add: simulationFingerprint_def canonicalDigest_def)
  moreover have "x = json_stringify (sorted_keys (simulation_content s))"
    "y = json_stringify (sorted_keys (simulation_content t))"
    using assms(1,2) by (simp_all add: canonicalJson_def serialize_plain(1) plain_content)
  ultimately have "sorted_keys (simulation_content s) = sorted_keys (simulation_content t)"
    by (auto intro: json_stringify_inj plain_sorted_keys plain_content)
  then show "s\<lparr>sm_simulationFingerprint := []\<rparr> = t\<lparr>sm_simulationFingerprint := []\<rparr>" by (rule content_inj)
next
  assume "s\<lparr>sm_simulationFingerprint := []\<rparr> = t\<lparr>sm_simulationFingerprint := []\<rparr>"
  then have "simulation_content s = simulation_content t"
    by (cases s; cases t) (simp add: simulation_content_def json_financialBase_def json_rule_def json_pools_def json_totals_def)
  then show "simulationFingerprint H s = simulationFingerprint H t" by (simp add: simulationFingerprint_def)
qed

definition sample_line :: "int \<Rightarrow> member_line" where
  "sample_line amount = \<lparr>ml_memberId = ''m1'', ml_name = ''Ana'', ml_role = Socio, ml_isActive = True,
     ml_partnerEligible = True, ml_partnerAmountMinor = amount, ml_workUnits = 0, ml_shiftCount = 0,
     ml_knownMinutes = 0, ml_unknownDurationCount = 0, ml_workAmountMinor = 0, ml_totalMinor = amount\<rparr>"

definition sample_simulation :: "int \<Rightarrow> simulation" where
  "sample_simulation amount = \<lparr>sm_period = \<lparr>op_from = ''2026-01-01'', op_to = ''2026-02-01'',
       op_fromInstant = to_iso 1767247200000, op_toInstant = to_iso 1769925600000,
       op_utcOffsetMinutes = BUSINESS_TZ_OFFSET_MINUTES, op_interval = ''[from,to)''\<rparr>,
     sm_currency = ''MXN'', sm_potentiallyAvailableMinor = 2400, sm_requestedAmountMinor = amount,
     sm_remainingAvailableMinor = 2400 - amount, sm_status = Complete, sm_partnerShareBps = 10000,
     sm_workShareBps = 0, sm_workBasis = WORK_SHIFTS, sm_partnerMode = ''EQUAL'',
     sm_partnerPoolMinor = amount, sm_workPoolMinor = 0, sm_members = [sample_line amount],
     sm_distributedMinor = amount, sm_undistributedMinor = 0, sm_warnings = [],
     sm_simulationFingerprint = []\<rparr>"

lemma simulationFingerprint_binds_witness:
  "simulationFingerprint (\<lambda>x. x) (sample_simulation 1000) \<noteq> simulationFingerprint (\<lambda>x. x) (sample_simulation 1001)"
proof -
  have "is_ok (canonicalJson (simulation_content (sample_simulation a)))" for a
    by (simp add: canonicalJson_def serialize_plain(1) plain_content)
  then obtain x y where "canonicalJson (simulation_content (sample_simulation 1000)) = Inr x"
    "canonicalJson (simulation_content (sample_simulation 1001)) = Inr y"
    by (meson is_ok_iff)
  from simulationFingerprint_binds [OF this, of "\<lambda>x. x"] show ?thesis
    by (simp add: sample_simulation_def)
qed

end
