(* ===== verification/AgreementDoc.thy ===== *)
theory AgreementDoc
  imports Distribution
begin

text \<open>
  The pure parts of the distribution agreements: what an agreement may take from a period
  (\<open>src/finance/finance-agreements.commitment.ts\<close>) and the frozen document of record with its
  fingerprint (\<open>src/finance/finance-agreements.snapshot.ts\<close>).
\<close>

section \<open>Commitment\<close>

record commitment =
  cm_availableMinor :: int
  cm_committedMinor :: int
  cm_freeMinor :: int

definition commitmentOf :: "int \<Rightarrow> int \<Rightarrow> commitment" where
  "commitmentOf availableMinor committedMinor =
     \<lparr>cm_availableMinor = availableMinor, cm_committedMinor = committedMinor,
      cm_freeMinor = max 0 (availableMinor - committedMinor)\<rparr>"

text \<open>\<open>n.toLocaleString('en-US')\<close> of a non-negative integer: a comma before every third digit from the right.\<close>

function group_thousands :: "int \<Rightarrow> string" where
  "group_thousands n =
     (if n < 1000 then show_int n
      else group_thousands (n div 1000) @ '','' @ pad_start 3 (CHR ''0'') (show_int (n mod 1000)))"
  by pat_completeness auto
termination by (relation "measure nat") auto

declare group_thousands.simps [simp del]

definition formatMxn :: "int \<Rightarrow> string" where
  "formatMxn minor =
     (let sgn = (if minor < 0 then ''-'' else '''');
          whole = group_thousands (\<bar>minor\<bar> div 100);
          c = pad_start 2 (CHR ''0'') (show_int (\<bar>minor\<bar> mod 100))
      in sgn @ ''$'' @ whole @ ''.'' @ c)"

definition exceedsMessage :: "commitment \<Rightarrow> int \<Rightarrow> string" where
  "exceedsMessage c requestedMinor =
     (let missingMinor = requestedMinor - cm_freeMinor c in
      ''No alcanza. Este acuerdo pide '' @ formatMxn requestedMinor @ '' y solo quedan ''
      @ formatMxn (cm_freeMinor c) @ '' libres. Faltan '' @ formatMxn missingMinor @ ''. Hay ''
      @ formatMxn (cm_availableMinor c) @ '' disponibles y '' @ formatMxn (cm_committedMinor c)
      @ '' ya est'' @ [CHR 0xE1] @ ''n comprometidos en otros acuerdos vigentes.'')"

section \<open>The folio\<close>

definition formatFolio :: "int \<Rightarrow> int \<Rightarrow> string" where
  "formatFolio year number =
     ''AC-'' @ pad_start 4 (CHR ''0'') (show_int year) @ ''-'' @ pad_start 5 (CHR ''0'') (show_int number)"

definition folioYear :: "instant \<Rightarrow> int" where
  "folioYear receivedAt = int (read_nat (take 4 (currentBusinessDate receivedAt)))"

section \<open>The document\<close>

definition AGREEMENT_ALGORITHM_VERSION :: int where
  "AGREEMENT_ALGORITHM_VERSION = 1"

definition AGREEMENT_GENERATED_FROM :: string where
  "AGREEMENT_GENERATED_FROM = ''DISTRIBUTION_SIMULATOR''"

definition AGREEMENT_NOTICE :: string where
  "AGREEMENT_NOTICE = ''Documento generado a partir de una simulaci'' @ [CHR 0xF3]
     @ ''n aceptada por los participantes. No es un contrato legal ni registra pagos.''"

definition SIMULATION_ONLY_WARNING_CODES :: "string list" where
  "SIMULATION_ONLY_WARNING_CODES = [''SIMULATION_ONLY'', ''NOT_A_PAYMENT_OR_OBLIGATION'']"

record document_input =
  di_contextId :: string
  di_id :: uuid
  di_folio :: string
  di_title :: string
  di_note :: "string option"
  di_replacesAgreement :: "(uuid \<times> string) option"
  di_occurredAt :: instant
  di_receivedAt :: instant
  di_memberId :: uuid
  di_memberName :: string
  di_accountId :: uuid
  di_deviceId :: uuid
  di_simulation :: simulation

definition document_warnings :: "simulation \<Rightarrow> jsval" where
  "document_warnings s =
     JArr (map json_warning [w \<leftarrow> sm_warnings s. fst w \<notin> set SIMULATION_ONLY_WARNING_CODES])"

definition document_content :: "document_input \<Rightarrow> (string \<times> jsval) list" where
  "document_content i =
     (let s = di_simulation i in
      [(''id'', JStr (di_id i)), (''contextId'', JStr (di_contextId i)), (''folio'', JStr (di_folio i)),
       (''title'', JStr (di_title i)), (''note'', json_option JStr (di_note i)),
       (''replacesAgreementId'', json_option (\<lambda>r. JStr (fst r)) (di_replacesAgreement i)),
       (''replacesAgreement'',
          json_option (\<lambda>r. JObj [(''id'', JStr (fst r)), (''folio'', JStr (snd r))]) (di_replacesAgreement i)),
       (''generatedFrom'', JStr AGREEMENT_GENERATED_FROM),
       (''algorithmVersion'', JNum AGREEMENT_ALGORITHM_VERSION), (''notice'', JStr AGREEMENT_NOTICE),
       (''period'', json_period (sm_period s)), (''currency'', JStr (sm_currency s)),
       (''financialBase'', json_financialBase s), (''rule'', json_rule s), (''pools'', json_pools s),
       (''participants'', JArr (map json_member (sm_members s))), (''totals'', json_totals s),
       (''warnings'', document_warnings s),
       (''simulationFingerprint'', JStr (sm_simulationFingerprint s)),
       (''occurredAt'', JStr (to_iso (di_occurredAt i))), (''receivedAt'', JStr (to_iso (di_receivedAt i))),
       (''createdBy'', JObj [(''memberId'', JStr (di_memberId i)), (''name'', JStr (di_memberName i)),
          (''accountId'', JStr (di_accountId i)), (''deviceId'', JStr (di_deviceId i))])])"

text \<open>The document and, for the columns of the table, its fingerprint.\<close>

definition buildAgreementDocument :: "(string \<Rightarrow> string) \<Rightarrow> document_input \<Rightarrow> (string \<times> (string \<times> jsval) list) result" where
  "buildAgreementDocument H i =
     (let content = document_content i in
      case canonicalDigest H (JObj content) of Inl e \<Rightarrow> Inl e
      | Inr snapshotFingerprint \<Rightarrow>
          Inr (snapshotFingerprint,
               content @ [(''snapshotFingerprint'', JStr snapshotFingerprint), (''status'', JStr ''active''),
                          (''reversal'', JNull), (''replacedBy'', JNull)]))"

text \<open>The keys the verification takes out before it hashes the rest again.\<close>

definition LIVE_KEYS :: "string list" where
  "LIVE_KEYS = [''snapshotFingerprint'', ''status'', ''reversal'', ''replacedBy'']"

definition frozen_part :: "(string \<times> jsval) list \<Rightarrow> (string \<times> jsval) list" where
  "frozen_part document = [f \<leftarrow> document. fst f \<notin> set LIVE_KEYS]"

definition verifyAgreementDocument :: "(string \<Rightarrow> string) \<Rightarrow> (string \<times> jsval) list \<Rightarrow> bool result" where
  "verifyAgreementDocument H document =
     (case canonicalDigest H (JObj (frozen_part document)) of Inl e \<Rightarrow> Inl e
      | Inr digest \<Rightarrow> Inr (map_of document ''snapshotFingerprint'' = Some (JStr digest)))"

text \<open>\<open>{...document, status, reversal, replacedBy}\<close>: a spread keeps the place of a key it overrides.\<close>

definition set_field :: "string \<Rightarrow> jsval \<Rightarrow> (string \<times> jsval) list \<Rightarrow> (string \<times> jsval) list" where
  "set_field k v fds =
     (if k \<in> set (map fst fds) then map (\<lambda>(l, w). if l = k then (l, v) else (l, w)) fds
      else fds @ [(k, v)])"

definition fields_of :: "jsval \<Rightarrow> (string \<times> jsval) list" where
  "fields_of v = (case v of JObj fs \<Rightarrow> fs | _ \<Rightarrow> [])"

section \<open>Facts\<close>

lemma document_keys:
  "map fst (document_content i) = [''id'', ''contextId'', ''folio'', ''title'', ''note'', ''replacesAgreementId'',
     ''replacesAgreement'', ''generatedFrom'', ''algorithmVersion'', ''notice'', ''period'', ''currency'',
     ''financialBase'', ''rule'', ''pools'', ''participants'', ''totals'', ''warnings'',
     ''simulationFingerprint'', ''occurredAt'', ''receivedAt'', ''createdBy'']"
  by (simp add: document_content_def Let_def)

lemma distinct_document_keys: "distinct (map fst (document_content i))"
  by (simp add: document_keys)

lemma frozen_content: "frozen_part (document_content i) = document_content i"
  by (simp add: document_content_def Let_def frozen_part_def LIVE_KEYS_def)

lemma plain_document: "plain (JObj (document_content i))"
  by (auto simp: document_content_def Let_def json_option_def document_warnings_def json_period_def
      json_financialBase_def json_rule_def json_pools_def json_totals_def json_member_def json_warning_def
      split: option.splits)

lemma frozen_part_append: "frozen_part (xs @ ys) = frozen_part xs @ frozen_part ys"
  by (simp add: frozen_part_def)

lemma frozen_live: "fst ` set xs \<subseteq> set LIVE_KEYS \<Longrightarrow> frozen_part xs = []"
  by (auto simp: frozen_part_def filter_empty_conv)

lemma frozen_set_field: "k \<in> set LIVE_KEYS \<Longrightarrow> frozen_part (set_field k v fds) = frozen_part fds"
proof -
  assume k: "k \<in> set LIVE_KEYS"
  have "frozen_part (map (\<lambda>(l, w). if l = k then (l, v) else (l, w)) fds) = frozen_part fds"
    using k by (induction fds) (auto simp: frozen_part_def split: if_splits)
  with k show ?thesis by (simp add: set_field_def frozen_part_append) (simp add: frozen_part_def)
qed

definition overwrite :: "string \<Rightarrow> jsval \<Rightarrow> string \<times> jsval \<Rightarrow> string \<times> jsval" where
  "overwrite k v f = (if fst f = k then (fst f, v) else f)"

lemma set_field_overwrite:
  "set_field k v fds = (if k \<in> fst ` set fds then map (overwrite k v) fds else fds @ [(k, v)])"
  by (auto simp: set_field_def overwrite_def intro!: map_cong)

lemma map_of_overwrite_other: "l \<noteq> k \<Longrightarrow> map_of (map (overwrite k v) fds) l = map_of fds l"
  by (induction fds) (simp_all add: overwrite_def)

lemma map_of_overwrite_same: "k \<in> fst ` set fds \<Longrightarrow> map_of (map (overwrite k v) fds) k = Some v"
  by (induction fds) (auto simp: overwrite_def)

lemma map_of_set_field: "map_of (set_field k v fds) l = (if l = k then Some v else map_of fds l)"
proof (cases "k \<in> fst ` set fds")
  case True
  then show ?thesis by (simp add: set_field_overwrite map_of_overwrite_other map_of_overwrite_same)
next
  case False
  then have "map_of fds k = None" by (simp add: map_of_eq_None_iff)
  with False show ?thesis by (simp add: set_field_overwrite map_add_def split: option.splits)
qed

definition live_fields :: "string \<Rightarrow> (string \<times> jsval) list" where
  "live_fields fp = [(''snapshotFingerprint'', JStr fp), (''status'', JStr ''active''), (''reversal'', JNull), (''replacedBy'', JNull)]"

lemma build_ok:
  "\<exists>fp. buildAgreementDocument H i = Inr (fp, document_content i @ live_fields fp)
     \<and> canonicalDigest H (JObj (document_content i)) = Inr fp"
  by (simp add: buildAgreementDocument_def Let_def canonicalDigest_plain [OF plain_document] live_fields_def)

lemma frozen_built: "frozen_part (document_content i @ live_fields fp) = document_content i"
proof -
  have "frozen_part (live_fields fp) = []" by (rule frozen_live) (simp add: live_fields_def LIVE_KEYS_def)
  then show ?thesis by (simp add: frozen_part_append frozen_content)
qed

lemma fingerprint_built: "map_of (document_content i @ live_fields fp) ''snapshotFingerprint'' = Some (JStr fp)"
proof -
  have "map_of (document_content i) ''snapshotFingerprint'' = None"
    unfolding map_of_eq_None_iff image_set document_keys by simp
  then show ?thesis by (simp add: map_add_def live_fields_def)
qed

section \<open>Properties\<close>

text \<open>C8: the stored document of an agreement verifies, and it keeps verifying however its live fields
  (status, reversal, replacement) are overlaid; and a document that verifies with the fingerprint of
  an agreement is that agreement's frozen content, up to the order of keys, unless the hash collides:
  changing any amount, name or date of the document is detected.\<close>

theorem agreementDocument_tamper_evident:
  assumes "buildAgreementDocument H i = Inr (fp, doc)"
    and "canonicalJson (JObj (document_content i)) = Inr x" "\<forall>y. H x = H y \<longrightarrow> x = y"
  shows "verifyAgreementDocument H (set_field ''status'' st (set_field ''reversal'' rv (set_field ''replacedBy'' rb doc)))
      = Inr True
    \<and> (\<forall>other. verifyAgreementDocument H other = Inr True
          \<and> map_of other ''snapshotFingerprint'' = Some (JStr fp)
          \<longrightarrow> sorted_keys (JObj (frozen_part other)) = sorted_keys (JObj (document_content i)))"
proof (intro conjI allI impI)
  from build_ok [of H i] assms(1) have doc: "doc = document_content i @ live_fields fp"
    and fp: "canonicalDigest H (JObj (document_content i)) = Inr fp" by auto
  show "verifyAgreementDocument H (set_field ''status'' st (set_field ''reversal'' rv (set_field ''replacedBy'' rb doc)))
      = Inr True"
    unfolding verifyAgreementDocument_def
    by (simp add: frozen_set_field LIVE_KEYS_def map_of_set_field doc frozen_built fingerprint_built fp del: map_of_append)
  fix other
  assume v: "verifyAgreementDocument H other = Inr True
    \<and> map_of other ''snapshotFingerprint'' = Some (JStr fp)"
  then obtain y where y: "canonicalJson (JObj (frozen_part other)) = Inr y" "H y = fp"
    by (auto simp: verifyAgreementDocument_def canonicalDigest_def split: sum.splits)
  moreover have "H x = fp" using fp assms(2) by (simp add: canonicalDigest_def)
  ultimately have "x = y" using assms(3) by simp
  with canonicalJson_unique [OF assms(2) y(1)]
  show "sorted_keys (JObj (frozen_part other)) = sorted_keys (JObj (document_content i))" by simp
qed

definition sample_input :: "string \<Rightarrow> document_input" where
  "sample_input title = \<lparr>di_contextId = ''t1'', di_id = ''g1'', di_folio = formatFolio 2026 1, di_title = title,
     di_note = None, di_replacesAgreement = None, di_occurredAt = 1768000000000, di_receivedAt = 1768000000001,
     di_memberId = ''m1'', di_memberName = ''Ana'', di_accountId = ''a1'', di_deviceId = ''d1'',
     di_simulation = sample_simulation 1000\<rparr>"

lemma agreementDocument_tamper_evident_witness:
  "\<exists>fp. verifyAgreementDocument (\<lambda>t. t) (document_content (sample_input ''Enero'') @ live_fields fp) = Inr True
     \<and> verifyAgreementDocument (\<lambda>t. t) (document_content (sample_input ''Febrero'') @ live_fields fp) \<noteq> Inr True"
proof -
  let ?good = "document_content (sample_input ''Enero'')" and ?bad = "document_content (sample_input ''Febrero'')"
  obtain fp where b: "buildAgreementDocument (\<lambda>t. t) (sample_input ''Enero'') = Inr (fp, ?good @ live_fields fp)"
    and fp: "canonicalDigest (\<lambda>t. t) (JObj ?good) = Inr fp" using build_ok by blast
  obtain x where x: "canonicalJson (JObj ?good) = Inr x"
    using canonicalJson_ok [of "JObj ?good"] plain_document by (auto simp: is_ok_iff)
  have "sorted_keys (JObj ?bad) \<noteq> sorted_keys (JObj ?good)"
  proof
    assume "sorted_keys (JObj ?bad) = sorted_keys (JObj ?good)"
    from sorted_keys_fields [OF this] have "map (\<lambda>x. sorted_keys (snd x)) ?bad = map (\<lambda>x. sorted_keys (snd x)) ?good"
      unfolding document_keys by simp
    then show False by (simp add: document_content_def Let_def sample_input_def)
  qed
  moreover have "map_of (?bad @ live_fields fp) ''snapshotFingerprint'' = Some (JStr fp)" by (rule fingerprint_built)
  ultimately have "verifyAgreementDocument (\<lambda>t. t) (?bad @ live_fields fp) \<noteq> Inr True"
    using agreementDocument_tamper_evident [OF b x] by (metis frozen_built)
  moreover have "verifyAgreementDocument (\<lambda>t. t) (?good @ live_fields fp) = Inr True"
    by (simp add: verifyAgreementDocument_def frozen_built fp fingerprint_built del: map_of_append)
  ultimately show ?thesis by blast
qed

end
