(* ===== verification/Idempotency.thy ===== *)
theory Idempotency
  imports Prelude
begin

text \<open>
  The contract of every write a tablet may send twice: the request names its own identity, the row it
  creates stores the fingerprint of the request, a request whose identity exists is answered from the
  stored row when the fingerprints agree and refused when they do not, and a call that throws leaves
  nothing behind. The services that keep this contract interpret the locales below.
\<close>

text \<open>The same call made at the instants \<open>ts\<close>, one after the other.\<close>

fun retries :: "('t \<Rightarrow> 's \<Rightarrow> 'o \<times> 's) \<Rightarrow> 't list \<Rightarrow> 's \<Rightarrow> 'o list \<times> 's" where
  "retries call [] s = ([], s)"
| "retries call (t # ts) s =
     (let (o1, s1) = call t s; (os, s2) = retries call ts s1 in (o1 # os, s2))"

text \<open>An answer is a pair of \<open>created\<close> and the receipt.\<close>

fun created :: "(bool \<times> 'r) result \<Rightarrow> bool" where
  "created (Inr (c, r)) = c"
| "created (Inl e) = False"

fun replayed :: "(bool \<times> 'r) result \<Rightarrow> bool" where
  "replayed (Inr (c, r)) = (\<not> c)"
| "replayed (Inl e) = False"

lemma replayed_not_created: "replayed out \<Longrightarrow> \<not> created out"
  by (cases out rule: replayed.cases) auto

text \<open>
  What a sequence of answers to the same request must look like, from the state \<open>s\<close> to the state \<open>s'\<close>:
  errors that changed nothing, then at most one creation, then replays only.
\<close>

fun replay_safe :: "(bool \<times> 'r) result list \<Rightarrow> bool" where
  "replay_safe [] = True"
| "replay_safe (out # os) = (if is_ok out then list_all replayed os else replay_safe os)"

text \<open>And the database is as before the first answer as long as no answer was a success.\<close>

definition effect_once :: "'s \<Rightarrow> (bool \<times> 'r) result list \<times> 's \<Rightarrow> bool" where
  "effect_once s outcome \<longleftrightarrow>
     replay_safe (fst outcome) \<and> (list_all (\<lambda>out. \<not> is_ok out) (fst outcome) \<longrightarrow> snd outcome = s)"

text \<open>All receipts handed out are the same one.\<close>

definition same_receipts :: "(bool \<times> 'r) result list \<Rightarrow> bool" where
  "same_receipts os \<longleftrightarrow>
     (\<forall>x \<in> set os. \<forall>y \<in> set os. is_ok x \<longrightarrow> is_ok y \<longrightarrow> snd (projr x) = snd (projr y))"

lemma same_receipts_error: "same_receipts (Inl e # os) = same_receipts os"
  by (simp add: same_receipts_def)

lemma replay_safe_created: "replay_safe os \<Longrightarrow> length (filter created os) \<le> 1"
proof (induction os)
  case (Cons out os)
  show ?case
  proof (cases "is_ok out")
    case True
    with Cons.prems have "filter created os = []"
      by (auto simp: filter_empty_conv list_all_iff dest: replayed_not_created)
    then show ?thesis by simp
  next
    case False
    then have "\<not> created out" by (cases out rule: created.cases) auto
    with Cons False show ?thesis by simp
  qed
qed simp

locale idempotent_request =
  fixes run :: "'t \<Rightarrow> 'q \<Rightarrow> 's \<Rightarrow> (bool \<times> 'r) result \<times> 's"
    and stored :: "'q \<Rightarrow> 's \<Rightarrow> 'f option"
    and fingerprint :: "'q \<Rightarrow> 'f"
    and gate :: "'q \<Rightarrow> 's \<Rightarrow> bool"
    and receipt :: "'q \<Rightarrow> 's \<Rightarrow> 'r"
  assumes replays: "gate q s \<Longrightarrow> stored q s = Some (fingerprint q) \<Longrightarrow> run t q s = (Inr (False, receipt q s), s)"
    and conflicts: "gate q s \<Longrightarrow> stored q s = Some f \<Longrightarrow> f \<noteq> fingerprint q
      \<Longrightarrow> \<exists>m. run t q s = (Inl (Conflict m), s)"
    and creates: "run t q s = (Inr (True, r), s')
      \<Longrightarrow> stored q s = None \<and> stored q s' = Some (fingerprint q) \<and> gate q s'"
    and answers: "run t q s = (Inr (False, r), s') \<Longrightarrow> s' = s \<and> stored q s = Some (fingerprint q) \<and> gate q s"
    and fails: "run t q s = (Inl e, s') \<Longrightarrow> s' = s"
begin

text \<open>After an answer, created or replayed, the request is on record.\<close>

lemma on_record:
  assumes "run t q s = (Inr (c, r), s')"
  shows "stored q s' = Some (fingerprint q)" "gate q s'"
  using assms creates answers by (cases c; force)+

lemma retries_after:
  assumes "stored q s = Some (fingerprint q)" "gate q s"
  shows "retries (\<lambda>t. run t q) ts s = (map (\<lambda>_. Inr (False, receipt q s)) ts, s)"
  by (induction ts) (simp_all add: replays [OF assms(2,1)])

text \<open>Sending a request any number of times creates at most once: whatever was answered first is
  followed by replays only, and while only errors were answered the state is the one before.\<close>

lemma replays_only: "replay_safe (fst (retries (\<lambda>t. run t q) ts s))"
proof (induction ts arbitrary: s)
  case (Cons t ts)
  obtain o1 s1 where step: "run t q s = (o1, s1)" by fastforce
  show ?case
  proof (cases o1)
    case (Inl e)
    with step Cons.IH [of s1] show ?thesis by (simp add: case_prod_unfold Let_def)
  next
    case (Inr a)
    then obtain c r where "o1 = Inr (c, r)" by (cases a) auto
    with step have rec: "stored q s1 = Some (fingerprint q)" "gate q s1" using on_record by blast+
    then show ?thesis using step Inr by (simp add: retries_after list_all_iff)
  qed
qed simp

lemma only_errors:
  "list_all (\<lambda>out. \<not> is_ok out) (fst (retries (\<lambda>t. run t q) ts s)) \<Longrightarrow> snd (retries (\<lambda>t. run t q) ts s) = s"
proof (induction ts)
  case (Cons t ts)
  obtain o1 s1 where step: "run t q s = (o1, s1)" by fastforce
  then obtain e where "o1 = Inl e" using Cons.prems by (cases o1) (auto simp: case_prod_unfold Let_def)
  with step fails have "s1 = s" by blast
  with Cons step show ?case by (simp add: case_prod_unfold Let_def)
qed simp

lemma at_most_once: "effect_once s (retries (\<lambda>t. run t q) ts s)"
  using replays_only only_errors by (simp add: effect_once_def)

end

text \<open>A write whose receipt is frozen: a replay hands out the receipt the creation handed out.\<close>

locale frozen_receipt = idempotent_request +
  assumes freezes: "run t q s = (Inr (True, r), s') \<Longrightarrow> receipt q s' = r"
begin

lemma receipt_kept:
  assumes "run t q s = (Inr (c, r), s')"
  shows "receipt q s' = r"
proof (cases c)
  case True
  with assms freezes [of t q s r s'] show ?thesis by simp
next
  case False
  with assms answers [of t q s r s'] have a: "s' = s" "stored q s = Some (fingerprint q)" "gate q s" by simp_all
  with assms replays [OF a(3,2), of t] show ?thesis by simp
qed

lemma same_receipt: "same_receipts (fst (retries (\<lambda>t. run t q) ts s))"
proof (induction ts arbitrary: s)
  case (Cons t ts)
  obtain o1 s1 where step: "run t q s = (o1, s1)" by fastforce
  show ?case
  proof (cases o1)
    case (Inl e)
    with step Cons.IH [of s1] show ?thesis by (simp add: case_prod_unfold Let_def same_receipts_error)
  next
    case (Inr a)
    then obtain c r where a: "o1 = Inr (c, r)" by (cases a) auto
    with step have "retries (\<lambda>t. run t q) ts s1 = (map (\<lambda>_. Inr (False, r)) ts, s1)"
      using retries_after on_record receipt_kept by metis
    with step a show ?thesis by (auto simp: same_receipts_def)
  qed
qed (simp add: same_receipts_def)

end

end
