(* ===== verification/Agreements.thy ===== *)
theory Agreements
  imports AgreementDoc Idempotency
begin

text \<open>
  The service of the distribution agreements (\<open>src/finance/finance-agreements.service.ts\<close>): creation
  with replay, re-simulation, drift check and commitment check in one transaction, the retry of a
  transaction a concurrent writer made stale, reversal, replacement and the read of what is committed.
\<close>

section \<open>Retry\<close>

definition MAX_CREATE_ATTEMPTS :: nat where
  "MAX_CREATE_ATTEMPTS = 5"

definition isRetryableTransactionError :: "failure \<Rightarrow> bool" where
  "isRetryableTransactionError e \<longleftrightarrow> e = Retryable"

definition isUniqueViolation :: "failure \<Rightarrow> bool" where
  "isUniqueViolation e \<longleftrightarrow> (case e of UniqueViolation _ \<Rightarrow> True | _ \<Rightarrow> False)"

text \<open>
  The loop of \<open>runWithRetry\<close>: \<open>attempt\<close> counts from 1, \<open>remaining\<close> is how many attempts are left and
  \<open>last\<close> the error of the previous one. The unit sees the number of the attempt, so that it may find
  another state of the database each time. The pause between attempts has no effect on the result.
\<close>

fun retry_loop :: "(nat \<Rightarrow> 's \<Rightarrow> 'a result \<times> 's) \<Rightarrow> nat \<Rightarrow> nat \<Rightarrow> failure \<Rightarrow> 's \<Rightarrow> 'a result \<times> 's" where
  "retry_loop unit_of attempt 0 prev s =
     (Inl (if isUniqueViolation prev then NotFound ''Agreement not found''
           else ServiceUnavailable ''FINANCE_AGREEMENT_BUSY''), s)"
| "retry_loop unit_of attempt (Suc remaining) prev s =
     (case unit_of attempt s of
        (Inr x, s') \<Rightarrow> (Inr x, s')
      | (Inl e, s') \<Rightarrow>
          if \<not> isRetryableTransactionError e \<and> \<not> isUniqueViolation e then (Inl e, s')
          else retry_loop unit_of (attempt + 1) remaining e s')"

definition runWithRetry :: "(nat \<Rightarrow> 's \<Rightarrow> 'a result \<times> 's) \<Rightarrow> 's \<Rightarrow> 'a result \<times> 's" where
  "runWithRetry unit_of s = retry_loop unit_of 1 MAX_CREATE_ATTEMPTS (Internal '''') s"

section \<open>Requests\<close>

record create_agreement_dto =
  ca_id :: uuid
  ca_from :: string
  ca_to :: string
  ca_requestedAmountMinor :: int
  ca_partnerShareBps :: int
  ca_workShareBps :: int
  ca_workBasis :: work_basis
  ca_title :: string
  ca_note :: "string option"
  ca_replacesAgreementId :: "string option"
  ca_simulationFingerprint :: string
  ca_createdByMemberId :: uuid
  ca_deviceId :: uuid
  ca_occurredAt :: instant

text \<open>
  \<open>normalized\<close>. The instant \<open>occurredAt\<close> stands for the text of the request and for its normal form
  \<open>toISOString\<close>, which are the same instant.
\<close>

definition normalized :: "create_agreement_dto \<Rightarrow> create_agreement_dto" where
  "normalized dto = \<lparr>ca_id = toLowerCase (ca_id dto), ca_from = ca_from dto, ca_to = ca_to dto,
     ca_requestedAmountMinor = ca_requestedAmountMinor dto, ca_partnerShareBps = ca_partnerShareBps dto,
     ca_workShareBps = ca_workShareBps dto, ca_workBasis = ca_workBasis dto,
     ca_title = trim (ca_title dto), ca_note = map_option trim (ca_note dto),
     ca_replacesAgreementId =
       (case ca_replacesAgreementId dto of None \<Rightarrow> None
        | Some r \<Rightarrow> if r = [] then None else Some (toLowerCase r)),
     ca_simulationFingerprint = ca_simulationFingerprint dto,
     ca_createdByMemberId = toLowerCase (ca_createdByMemberId dto),
     ca_deviceId = toLowerCase (ca_deviceId dto), ca_occurredAt = ca_occurredAt dto\<rparr>"

definition json_create_agreement :: "create_agreement_dto \<Rightarrow> (string \<times> jsval) list" where
  "json_create_agreement data =
     [(''id'', JStr (ca_id data)), (''from'', JStr (ca_from data)), (''to'', JStr (ca_to data)),
      (''requestedAmountMinor'', JNum (ca_requestedAmountMinor data)),
      (''partnerShareBps'', JNum (ca_partnerShareBps data)), (''workShareBps'', JNum (ca_workShareBps data)),
      (''workBasis'', JStr (show_basis (ca_workBasis data))), (''title'', JStr (ca_title data)),
      (''note'', json_option JStr (ca_note data)),
      (''replacesAgreementId'', json_option JStr (ca_replacesAgreementId data)),
      (''simulationFingerprint'', JStr (ca_simulationFingerprint data)),
      (''createdByMemberId'', JStr (ca_createdByMemberId data)), (''deviceId'', JStr (ca_deviceId data)),
      (''occurredAt'', JStr (to_iso (ca_occurredAt data)))]"

text \<open>\<open>canonicalDigest({contextId, accountId, operation, ...data})\<close>.\<close>

definition operation_digest :: "(string \<Rightarrow> string) \<Rightarrow> actor \<Rightarrow> string \<Rightarrow> (string \<times> jsval) list \<Rightarrow> string result" where
  "operation_digest H actor operation data =
     canonicalDigest H (JObj ([(''contextId'', JStr (act_contextId actor)),
        (''accountId'', JStr (act_accountId actor)), (''operation'', JStr operation)] @ data))"

text \<open>\<open>assertOrigin\<close>: the body names the member and the device the request was authenticated with.\<close>

definition assertOrigin :: "actor \<Rightarrow> uuid \<Rightarrow> uuid \<Rightarrow> unit result" where
  "assertOrigin actor memberId device =
     (if act_selection actor = Some (toLowerCase memberId, toLowerCase device) then Inr () else Inl Forbidden)"

section \<open>Reading agreements\<close>

definition json_reversal :: "reversal \<Rightarrow> jsval" where
  "json_reversal v = JObj [(''id'', JStr (rid v)), (''agreementId'', JStr (rev_target v)),
     (''reason'', JStr (rev_reason v)), (''occurredAt'', JStr (to_iso (f_occurredAt v))),
     (''receivedAt'', JStr (to_iso (f_receivedAt v))), (''createdByMemberId'', JStr (f_createdByMemberId v)),
     (''createdByAccountId'', JStr (f_createdByAccountId v)), (''deviceId'', JStr (f_deviceId v))]"

definition replacedBy :: "db \<Rightarrow> agreement \<Rightarrow> agreement option" where
  "replacedBy d a = find (\<lambda>b. ag_replacesAgreementId b = Some (rid a) \<and> ctx b = ctx a) (agreements d)"

definition liveDocument :: "db \<Rightarrow> agreement \<Rightarrow> jsval" where
  "liveDocument d a =
     (let rv = reversal_of (agreementReversals d) a in
      JObj (set_field ''replacedBy''
              (json_option (\<lambda>b. JObj [(''id'', JStr (rid b)), (''folio'', JStr (ag_folio b))]) (replacedBy d a))
           (set_field ''reversal'' (json_option json_reversal rv)
           (set_field ''status'' (JStr (if rv = None then ''active'' else ''voided''))
             (fields_of (f_creationResponse a))))))"

text \<open>What the live agreements of this exact period distribute, and how many they are.\<close>

definition live_agreements :: "db \<Rightarrow> string \<Rightarrow> string \<Rightarrow> string \<Rightarrow> agreement list" where
  "live_agreements d c from to =
     [a \<leftarrow> in_context c (agreements d). ag_periodFrom a = utc_date from \<and> ag_periodTo a = utc_date to
        \<and> active (agreementReversals d) a]"

definition committedInTx :: "db \<Rightarrow> string \<Rightarrow> string \<Rightarrow> string \<Rightarrow> int \<times> int" where
  "committedInTx d c from to =
     (let live = live_agreements d c from to
      in (sum_list (map ag_distributedMinor live), int (length live)))"

definition readCommitment :: "db \<Rightarrow> string \<Rightarrow> string \<Rightarrow> string \<Rightarrow> (commitment \<times> int) result" where
  "readCommitment d c from to =
     (if \<not> isCalendarDate from \<or> \<not> isCalendarDate to \<or> \<not> from < to
      then Inl (BadRequest ''from and to must be valid YYYY-MM-DD dates with from preceding to'')
      else case availableInTx d c from to of Inl e \<Rightarrow> Inl e
      | Inr available \<Rightarrow>
          (let (committedMinor, agreementCount) = committedInTx d c from to
           in Inr (commitmentOf available committedMinor, agreementCount)))"

section \<open>Creation\<close>

definition validateReplacement :: "db \<Rightarrow> string \<Rightarrow> uuid \<Rightarrow> uuid \<Rightarrow> (uuid \<times> string) result" where
  "validateReplacement d c newId replacesId =
     (case (if replacesId = newId then None else find_row c replacesId (agreements d)) of
        None \<Rightarrow> Inl (Unprocessable ''FINANCE_AGREEMENT_REPLACEMENT_INVALID'')
      | Some target \<Rightarrow>
          if reversal_of (agreementReversals d) target = None \<or> replacedBy d target \<noteq> None
          then Inl (Unprocessable ''FINANCE_AGREEMENT_REPLACEMENT_INVALID'')
          else Inr (rid target, ag_folio target))"

text \<open>\<open>INSERT ... ON CONFLICT DO UPDATE SET lastNumber = lastNumber + 1 RETURNING lastNumber\<close>.\<close>

fun next_number :: "string \<Rightarrow> int \<Rightarrow> counter list \<Rightarrow> int \<times> counter list" where
  "next_number c year [] = (1, [\<lparr>ct_contextId = c, ct_year = year, ct_lastNumber = 1\<rparr>])"
| "next_number c year (k # ks) =
     (if ct_contextId k = c \<and> ct_year k = year
      then (ct_lastNumber k + 1, k\<lparr>ct_lastNumber := ct_lastNumber k + 1\<rparr> # ks)
      else let (n, ks') = next_number c year ks in (n, k # ks'))"

definition sim_dto_of :: "create_agreement_dto \<Rightarrow> sim_dto" where
  "sim_dto_of data = \<lparr>sd_from = ca_from data, sd_to = ca_to data,
     sd_requestedAmountMinor = ca_requestedAmountMinor data, sd_partnerShareBps = ca_partnerShareBps data,
     sd_workShareBps = ca_workShareBps data, sd_workBasis = ca_workBasis data\<rparr>"

definition document_input_of ::
  "actor \<Rightarrow> create_agreement_dto \<Rightarrow> string \<Rightarrow> (uuid \<times> string) option \<Rightarrow> instant \<Rightarrow> string \<Rightarrow> simulation \<Rightarrow> document_input"
where
  "document_input_of actor data folio replaces now memberName simulation =
     \<lparr>di_contextId = act_contextId actor, di_id = ca_id data, di_folio = folio, di_title = ca_title data,
      di_note = ca_note data, di_replacesAgreement = replaces, di_occurredAt = ca_occurredAt data,
      di_receivedAt = now, di_memberId = ca_createdByMemberId data, di_memberName = memberName,
      di_accountId = act_accountId actor, di_deviceId = ca_deviceId data, di_simulation = simulation\<rparr>"

definition agreement_row ::
  "actor \<Rightarrow> create_agreement_dto \<Rightarrow> string \<Rightarrow> instant \<Rightarrow> string \<Rightarrow> string \<Rightarrow> simulation \<Rightarrow> string \<Rightarrow> (string \<times> jsval) list \<Rightarrow> agreement"
where
  "agreement_row actor data folio now memberName requestFp simulation snapshotFp document =
     \<lparr>rid = ca_id data, ctx = act_contextId actor, f_occurredAt = ca_occurredAt data, f_receivedAt = now,
      f_createdByMemberId = ca_createdByMemberId data, f_createdByAccountId = act_accountId actor,
      f_deviceId = ca_deviceId data, f_requestFingerprint = requestFp, f_creationResponse = JObj document,
      ag_folio = folio, ag_periodFrom = utc_date (ca_from data), ag_periodTo = utc_date (ca_to data),
      ag_requestedAmountMinor = ca_requestedAmountMinor data, ag_partnerShareBps = ca_partnerShareBps data,
      ag_workShareBps = ca_workShareBps data, ag_workBasis = show_basis (ca_workBasis data),
      ag_partnerMode = ''EQUAL'', ag_currency = ''MXN'',
      ag_financialStatus = show_coverage (sm_status simulation),
      ag_potentiallyAvailableMinor = sm_potentiallyAvailableMinor simulation,
      ag_partnerPoolMinor = sm_partnerPoolMinor simulation, ag_workPoolMinor = sm_workPoolMinor simulation,
      ag_distributedMinor = sm_distributedMinor simulation,
      ag_undistributedMinor = sm_undistributedMinor simulation,
      ag_algorithmVersion = AGREEMENT_ALGORITHM_VERSION, ag_title = ca_title data, ag_note = ca_note data,
      ag_replacesAgreementId = ca_replacesAgreementId data, ag_createdByMemberName = memberName,
      ag_snapshotFingerprint = snapshotFp, ag_warningsSnapshot = document_warnings simulation\<rparr>"

definition participant_row :: "actor \<Rightarrow> uuid \<Rightarrow> member_line \<Rightarrow> participant" where
  "participant_row actor agreementId l =
     \<lparr>pt_agreementId = agreementId, pt_contextId = act_contextId actor, pt_memberId = ml_memberId l,
      pt_memberName = ml_name l, pt_role = show_role (ml_role l), pt_isActive = ml_isActive l,
      pt_partnerEligible = ml_partnerEligible l, pt_partnerAmountMinor = ml_partnerAmountMinor l,
      pt_workUnits = ml_workUnits l, pt_shiftCount = ml_shiftCount l, pt_knownMinutes = ml_knownMinutes l,
      pt_unknownDurationCount = ml_unknownDurationCount l, pt_workAmountMinor = ml_workAmountMinor l,
      pt_totalMinor = ml_totalMinor l\<rparr>"

text \<open>The unique keys of the table: the id, the folio of a context and the agreement replaced in a context.\<close>

definition insert_agreement :: "agreement \<Rightarrow> agreement list \<Rightarrow> agreement list result" where
  "insert_agreement a rows =
     (if (\<exists>b \<in> set rows. ctx b = ctx a \<and> ag_folio b = ag_folio a)
        \<or> (ag_replacesAgreementId a \<noteq> None
           \<and> (\<exists>b \<in> set rows. ctx b = ctx a \<and> ag_replacesAgreementId b = ag_replacesAgreementId a))
      then Inl (UniqueViolation ''DistributionAgreement'')
      else insert_row ''DistributionAgreement'' a rows)"

text \<open>The second half of \<open>createInTx\<close>: the folio, the document and the rows.\<close>

definition persistAgreement ::
  "(string \<Rightarrow> string) \<Rightarrow> instant \<Rightarrow> actor \<Rightarrow> create_agreement_dto \<Rightarrow> string \<Rightarrow> string \<Rightarrow> (uuid \<times> string) option
    \<Rightarrow> simulation \<Rightarrow> db \<Rightarrow> ((bool \<times> jsval) \<times> db) result"
where
  "persistAgreement H now actor data requestFp memberName replaces simulation d =
     (let year = folioYear now;
          (number, counters') = next_number (act_contextId actor) year (counters d);
          folio = formatFolio year number in
      case buildAgreementDocument H
             (document_input_of actor data folio replaces now memberName simulation) of
        Inl e \<Rightarrow> Inl e
      | Inr (snapshotFp, document) \<Rightarrow>
          (case insert_agreement
                  (agreement_row actor data folio now memberName requestFp simulation snapshotFp document)
                  (agreements d) of
             Inl e \<Rightarrow> Inl e
           | Inr agreements' \<Rightarrow>
               let rows = map (participant_row actor (ca_id data)) (sm_members simulation) in
               if \<exists>r \<in> set rows. \<exists>p \<in> set (participants d).
                    pt_agreementId p = pt_agreementId r \<and> pt_memberId p = pt_memberId r
               then Inl (UniqueViolation ''DistributionAgreementParticipant'')
               else Inr ((True, JObj document),
                         d\<lparr>counters := counters', agreements := agreements',
                           participants := participants d @ rows\<rparr>)))"

text \<open>
  \<open>createInTx\<close> on the snapshot the transaction reads. The advisory lock orders transactions and does
  not change what one of them computes.
\<close>

definition createInTx ::
  "(string \<Rightarrow> string) \<Rightarrow> instant \<Rightarrow> actor \<Rightarrow> create_agreement_dto \<Rightarrow> string \<Rightarrow> db \<Rightarrow> ((bool \<times> jsval) \<times> db) result"
where
  "createInTx H now actor data requestFp d =
     (case authorize_socio d actor of Inl e \<Rightarrow> Inl e
      | Inr memberName \<Rightarrow>
       (case find_row (act_contextId actor) (ca_id data) (agreements d) of
          Some existing \<Rightarrow>
            if f_requestFingerprint existing \<noteq> requestFp
            then Inl (Conflict ''FINANCE_AGREEMENT_ID_CONFLICT'')
            else Inr ((False, liveDocument d existing), d)
        | None \<Rightarrow>
            (case (case ca_replacesAgreementId data of None \<Rightarrow> Inr None
                   | Some r \<Rightarrow> (case validateReplacement d (act_contextId actor) (ca_id data) r of
                                  Inl e \<Rightarrow> Inl e | Inr t \<Rightarrow> Inr (Some t))) of
               Inl e \<Rightarrow> Inl e
             | Inr replaces \<Rightarrow>
                (case simulateInTx H d (act_contextId actor) (sim_dto_of data) of Inl e \<Rightarrow> Inl e
                 | Inr simulation \<Rightarrow>
                     if sm_simulationFingerprint simulation \<noteq> ca_simulationFingerprint data
                     then Inl (Conflict ''FINANCE_AGREEMENT_SIMULATION_CHANGED'')
                     else
                       let cm = commitmentOf (sm_potentiallyAvailableMinor simulation)
                                  (fst (committedInTx d (act_contextId actor) (ca_from data) (ca_to data))) in
                       if ca_requestedAmountMinor data > cm_freeMinor cm
                       then Inl (Unprocessable
                              (''FINANCE_AGREEMENT_EXCEEDS_UNCOMMITTED: '' @ exceedsMessage cm (ca_requestedAmountMinor data)))
                       else persistAgreement H now actor data requestFp memberName replaces simulation d))))"

text \<open>
  What happens around the attempts of a creation: \<open>world k\<close> is what other transactions committed before
  attempt \<open>k\<close>, \<open>stale k\<close> whether PostgreSQL aborts it with a serialization failure or a deadlock, and
  \<open>clock k\<close> the instant at which it runs.
\<close>

record schedule =
  world :: "nat \<Rightarrow> db \<Rightarrow> db"
  stale :: "nat \<Rightarrow> bool"
  clock :: "nat \<Rightarrow> instant"

definition create_unit ::
  "(string \<Rightarrow> string) \<Rightarrow> schedule \<Rightarrow> actor \<Rightarrow> create_agreement_dto \<Rightarrow> string \<Rightarrow> nat \<Rightarrow> db \<Rightarrow> (bool \<times> jsval) result \<times> db"
where
  "create_unit H sch actor data requestFp k d =
     (if stale sch k then (Inl Retryable, world sch k d)
      else transaction (createInTx H (clock sch k) actor data requestFp) (world sch k d))"

definition create ::
  "(string \<Rightarrow> string) \<Rightarrow> schedule \<Rightarrow> actor \<Rightarrow> create_agreement_dto \<Rightarrow> db \<Rightarrow> (bool \<times> jsval) result \<times> db"
where
  "create H sch actor dto d =
     (case assertOrigin actor (ca_createdByMemberId dto) (ca_deviceId dto) of
        Inl e \<Rightarrow> (Inl e, d)
      | Inr _ \<Rightarrow>
        if \<not> isCalendarDate (ca_from dto) \<or> \<not> isCalendarDate (ca_to dto) \<or> \<not> ca_from dto < ca_to dto
        then (Inl (BadRequest ''Invalid agreement period''), d)
        else let data = normalized dto in
          (case operation_digest H actor ''create'' (json_create_agreement data) of
             Inl e \<Rightarrow> (Inl e, d)
           | Inr requestFp \<Rightarrow> runWithRetry (create_unit H sch actor data requestFp) d))"

section \<open>Reversal\<close>

record reverse_dto =
  rd_id :: uuid
  rd_reason :: string
  rd_occurredAt :: instant
  rd_createdByMemberId :: uuid
  rd_deviceId :: uuid

definition normalized_reverse :: "reverse_dto \<Rightarrow> reverse_dto" where
  "normalized_reverse dto = \<lparr>rd_id = toLowerCase (rd_id dto), rd_reason = trim (rd_reason dto),
     rd_occurredAt = rd_occurredAt dto, rd_createdByMemberId = toLowerCase (rd_createdByMemberId dto),
     rd_deviceId = toLowerCase (rd_deviceId dto)\<rparr>"

text \<open>\<open>target\<close> is the name of the key that holds the id of the fact that is reversed.\<close>

definition json_reverse :: "string \<Rightarrow> uuid \<Rightarrow> reverse_dto \<Rightarrow> (string \<times> jsval) list" where
  "json_reverse target targetId data =
     [(''id'', JStr (rd_id data)), (target, JStr targetId), (''reason'', JStr (rd_reason data)),
      (''occurredAt'', JStr (to_iso (rd_occurredAt data))),
      (''createdByMemberId'', JStr (rd_createdByMemberId data)), (''deviceId'', JStr (rd_deviceId data))]"

definition reversal_row :: "actor \<Rightarrow> uuid \<Rightarrow> reverse_dto \<Rightarrow> instant \<Rightarrow> string \<Rightarrow> jsval \<Rightarrow> reversal" where
  "reversal_row actor targetId data now requestFp receipt =
     \<lparr>rid = rd_id data, ctx = act_contextId actor, f_occurredAt = rd_occurredAt data, f_receivedAt = now,
      f_createdByMemberId = rd_createdByMemberId data, f_createdByAccountId = act_accountId actor,
      f_deviceId = rd_deviceId data, f_requestFingerprint = requestFp, f_creationResponse = receipt,
      rev_target = targetId, rev_reason = rd_reason data\<rparr>"

text \<open>The unique keys of a reversal table: its id and the fact it reverses.\<close>

definition insert_reversal :: "string \<Rightarrow> reversal \<Rightarrow> reversal list \<Rightarrow> reversal list result" where
  "insert_reversal model v revs =
     (if \<exists>w \<in> set revs. rev_target w = rev_target v then Inl (UniqueViolation model)
      else insert_row model v revs)"

definition reverseInTx ::
  "instant \<Rightarrow> actor \<Rightarrow> uuid \<Rightarrow> reverse_dto \<Rightarrow> string \<Rightarrow> db \<Rightarrow> ((bool \<times> jsval) \<times> db) result"
where
  "reverseInTx now actor targetId data requestFp d =
     (case authorize_socio d actor of Inl e \<Rightarrow> Inl e
      | Inr _ \<Rightarrow>
       (case find_row (act_contextId actor) (rd_id data) (agreementReversals d) of
          Some existing \<Rightarrow>
            if f_requestFingerprint existing \<noteq> requestFp
            then Inl (Conflict ''FINANCE_AGREEMENT_ID_CONFLICT'')
            else Inr ((False, f_creationResponse existing), d)
        | None \<Rightarrow>
           (case find_row (act_contextId actor) targetId (agreements d) of
              None \<Rightarrow> Inl (NotFound ''Agreement not found'')
            | Some original \<Rightarrow>
                if reversal_of (agreementReversals d) original \<noteq> None
                then Inl (Conflict ''FINANCE_AGREEMENT_ALREADY_VOIDED'')
                else if rd_occurredAt data < f_occurredAt original \<or> rd_occurredAt data > now
                then Inl (Unprocessable ''FINANCE_AGREEMENT_REVERSAL_TIME_INVALID'')
                else
                  let receipt = JObj (json_reverse ''agreementId'' targetId data
                        @ [(''contextId'', JStr (act_contextId actor)),
                           (''createdByAccountId'', JStr (act_accountId actor)),
                           (''receivedAt'', JStr (to_iso now)), (''original'', f_creationResponse original)]) in
                  (case insert_reversal ''DistributionAgreementReversal''
                          (reversal_row actor targetId data now requestFp receipt) (agreementReversals d) of
                     Inl e \<Rightarrow> Inl e
                   | Inr revs \<Rightarrow> Inr ((True, receipt), d\<lparr>agreementReversals := revs\<rparr>)))))"

definition reverse ::
  "(string \<Rightarrow> string) \<Rightarrow> instant \<Rightarrow> actor \<Rightarrow> uuid \<Rightarrow> reverse_dto \<Rightarrow> db \<Rightarrow> (bool \<times> jsval) result \<times> db"
where
  "reverse H now actor agreementId dto d =
     (case assertOrigin actor (rd_createdByMemberId dto) (rd_deviceId dto) of
        Inl e \<Rightarrow> (Inl e, d)
      | Inr _ \<Rightarrow>
        let data = normalized_reverse dto; targetId = toLowerCase agreementId in
        if rd_id data = targetId
        then (Inl (BadRequest ''Reversal and agreement identities must be distinct''), d)
        else
          (case operation_digest H actor ''reverse'' (json_reverse ''agreementId'' targetId data) of
             Inl e \<Rightarrow> (Inl e, d)
           | Inr requestFp \<Rightarrow>
              (case transaction (reverseInTx now actor targetId data requestFp) d of
                 (Inl e, d') \<Rightarrow> (Inl (if isUniqueViolation e then NotFound ''Agreement not found'' else e), d')
               | (Inr x, d') \<Rightarrow> (Inr x, d'))))"

section \<open>What a creation did\<close>

lemma finish_simulation_figures:
  assumes "finish_simulation H base dto pp wp work rows = Inr s"
  shows "sm_distributedMinor s = sd_requestedAmountMinor dto"
    "sm_requestedAmountMinor s = sd_requestedAmountMinor dto"
    "sm_potentiallyAvailableMinor s = ov_potentiallyAvailableMinor base"
    "sum_list (map ml_totalMinor (sm_members s)) = sd_requestedAmountMinor dto"
  using assms by (auto simp: finish_simulation_def Let_def split: if_splits sum.splits)

lemma simulateInTx_figures:
  assumes "simulateInTx H d c dto = Inr s"
  shows "sm_distributedMinor s = sd_requestedAmountMinor dto
    \<and> availableInTx d c (sd_from dto) (sd_to dto) = Inr (sm_potentiallyAvailableMinor s)
    \<and> sum_list (map ml_totalMinor (sm_members s)) = sd_requestedAmountMinor dto"
  using assms unfolding simulateInTx_def availableInTx_def Let_def
  by (auto split: sum.splits if_splits prod.splits dest: finish_simulation_figures)

lemma agreement_row_simps [simp]:
  "rid (agreement_row actor data folio now name requestFp sim fp doc) = ca_id data"
  "ctx (agreement_row actor data folio now name requestFp sim fp doc) = act_contextId actor"
  "f_occurredAt (agreement_row actor data folio now name requestFp sim fp doc) = ca_occurredAt data"
  "f_receivedAt (agreement_row actor data folio now name requestFp sim fp doc) = now"
  "f_requestFingerprint (agreement_row actor data folio now name requestFp sim fp doc) = requestFp"
  "f_creationResponse (agreement_row actor data folio now name requestFp sim fp doc) = JObj doc"
  "ag_folio (agreement_row actor data folio now name requestFp sim fp doc) = folio"
  "ag_periodFrom (agreement_row actor data folio now name requestFp sim fp doc) = utc_date (ca_from data)"
  "ag_periodTo (agreement_row actor data folio now name requestFp sim fp doc) = utc_date (ca_to data)"
  "ag_distributedMinor (agreement_row actor data folio now name requestFp sim fp doc) = sm_distributedMinor sim"
  by (simp_all add: agreement_row_def)

lemma reversal_row_simps [simp]:
  "rid (reversal_row actor targetId data now fp r) = rd_id data"
  "ctx (reversal_row actor targetId data now fp r) = act_contextId actor"
  "f_occurredAt (reversal_row actor targetId data now fp r) = rd_occurredAt data"
  "f_requestFingerprint (reversal_row actor targetId data now fp r) = fp"
  "f_creationResponse (reversal_row actor targetId data now fp r) = r"
  "rev_target (reversal_row actor targetId data now fp r) = targetId"
  by (simp_all add: reversal_row_def)

text \<open>The rows a committed creation left.\<close>

lemma persistAgreement_Inr:
  assumes "persistAgreement H now actor data requestFp memberName replaces simulation d = Inr ((b, r), d')"
  obtains number counters' fp doc ags where
    "next_number (act_contextId actor) (folioYear now) (counters d) = (number, counters')"
    "buildAgreementDocument H (document_input_of actor data (formatFolio (folioYear now) number) replaces now
        memberName simulation) = Inr (fp, doc)"
    "insert_agreement (agreement_row actor data (formatFolio (folioYear now) number) now memberName requestFp
        simulation fp doc) (agreements d) = Inr ags"
    "b" "r = JObj doc"
    "d' = d\<lparr>counters := counters', agreements := ags,
       participants := participants d @ map (participant_row actor (ca_id data)) (sm_members simulation)\<rparr>"
  using assms unfolding persistAgreement_def Let_def
  by (auto split: sum.splits if_splits prod.splits)

lemma insert_agreement_Inr:
  assumes "insert_agreement a rows = Inr rows'"
  shows "rows' = rows @ [a]" "rid a \<notin> rid ` set rows"
    "\<forall>b \<in> set rows. \<not> (ctx b = ctx a \<and> ag_folio b = ag_folio a)"
  using assms insert_row_Inr [of "''DistributionAgreement''" a rows rows']
  by (simp_all add: insert_agreement_def split: if_splits)

text \<open>A creation that is not a replay passed every check on the snapshot it read.\<close>

lemma createInTx_created:
  assumes "createInTx H now actor data requestFp d = Inr ((True, r), d')"
  obtains memberName replaces simulation where
    "authorize_socio d actor = Inr memberName"
    "find_row (act_contextId actor) (ca_id data) (agreements d) = None"
    "simulateInTx H d (act_contextId actor) (sim_dto_of data) = Inr simulation"
    "sm_simulationFingerprint simulation = ca_simulationFingerprint data"
    "ca_requestedAmountMinor data \<le> cm_freeMinor (commitmentOf (sm_potentiallyAvailableMinor simulation)
        (fst (committedInTx d (act_contextId actor) (ca_from data) (ca_to data))))"
    "persistAgreement H now actor data requestFp memberName replaces simulation d = Inr ((True, r), d')"
  using assms unfolding createInTx_def Let_def
  by (auto split: sum.splits if_splits prod.splits option.splits)

lemma createInTx_replayed:
  assumes "createInTx H now actor data requestFp d = Inr ((False, r), d')"
  shows "d' = d \<and> (\<exists>a. find_row (act_contextId actor) (ca_id data) (agreements d) = Some a
     \<and> f_requestFingerprint a = requestFp \<and> r = liveDocument d a) \<and> is_ok (authorize_socio d actor)"
  using assms unfolding createInTx_def Let_def persistAgreement_def
  by (auto split: sum.splits if_splits prod.splits option.splits)

text \<open>Creating an agreement changes no figure of the overview and no authorization.\<close>

lemma books_agreements [simp]:
  "books (d\<lparr>counters := cs, agreements := as, participants := ps\<rparr>) = books d"
  "books (d\<lparr>agreementReversals := vs\<rparr>) = books d"
  by (simp_all add: books_def)

lemma availableInTx_books: "books d' = books d \<Longrightarrow> availableInTx d' c from to = availableInTx d c from to"
  by (simp only: availableInTx_def compute_books [of d' d])

section \<open>Retries return what one attempt returned\<close>

lemma retry_loop_Inr:
  assumes "retry_loop u k n prev s = (Inr x, s')"
  shows "\<exists>j s0. u j s0 = (Inr x, s')"
  using assms by (induction u k n prev s rule: retry_loop.induct) (auto split: prod.splits sum.splits if_splits)

lemma runWithRetry_Inr: "runWithRetry u s = (Inr x, s') \<Longrightarrow> \<exists>j s0. u j s0 = (Inr x, s')"
  unfolding runWithRetry_def by (rule retry_loop_Inr)

text \<open>An invariant that the world and the unit keep is kept by the retries.\<close>

lemma retry_loop_invariant:
  assumes "\<And>k s. I s \<Longrightarrow> I (snd (u k s))" "I s"
  shows "I (snd (retry_loop u k n prev s))"
  using assms(2)
proof (induction n arbitrary: k prev s)
  case (Suc n)
  have "I (snd (u k s))" by (rule assms(1) [OF Suc.prems])
  with Suc.IH show ?case by (cases "u k s") (auto split: sum.splits)
qed simp

lemma runWithRetry_invariant: "(\<And>k s. I s \<Longrightarrow> I (snd (u k s))) \<Longrightarrow> I s \<Longrightarrow> I (snd (runWithRetry u s))"
  unfolding runWithRetry_def by (rule retry_loop_invariant)

definition request_digest :: "(string \<Rightarrow> string) \<Rightarrow> actor \<Rightarrow> create_agreement_dto \<Rightarrow> string" where
  "request_digest H actor dto = projr (operation_digest H actor ''create'' (json_create_agreement (normalized dto)))"

lemma operation_digest_ok:
  assumes "\<forall>x \<in> set data. plain (snd x)"
  shows "operation_digest H actor operation data = Inr (projr (operation_digest H actor operation data))"
  using assms by (simp add: operation_digest_def canonicalDigest_plain case_prod_unfold)

lemma create_digest:
  "operation_digest H actor ''create'' (json_create_agreement (normalized dto)) = Inr (request_digest H actor dto)"
  unfolding request_digest_def
  by (rule operation_digest_ok) (auto simp: json_create_agreement_def json_option_def split: option.splits)

lemma create_eq:
  assumes "assertOrigin actor (ca_createdByMemberId dto) (ca_deviceId dto) = Inr ()" "valid_period (ca_from dto) (ca_to dto)"
  shows "create H sch actor dto d
    = runWithRetry (create_unit H sch actor (normalized dto) (request_digest H actor dto)) d"
  using assms by (simp add: create_def valid_period_def create_digest Let_def)

lemma create_cases:
  obtains "assertOrigin actor (ca_createdByMemberId dto) (ca_deviceId dto) = Inr ()"
      "valid_period (ca_from dto) (ca_to dto)"
  | e where "create H sch actor dto d = (Inl e, d)" "\<And>sch. create H sch actor dto = (\<lambda>d. (Inl e, d))"
      "\<not> isRetryableTransactionError e"
proof (cases "assertOrigin actor (ca_createdByMemberId dto) (ca_deviceId dto) = Inr () \<and> valid_period (ca_from dto) (ca_to dto)")
  case False
  then show ?thesis
    by (auto simp: assertOrigin_def valid_period_def create_def isRetryableTransactionError_def fun_eq_iff
        intro: that split: if_splits)
qed (use that in blast)

lemma transaction_Inr: "transaction body d = (Inr x, d') \<longleftrightarrow> body d = Inr (x, d')"
  by (auto simp: transaction_def split: sum.splits prod.splits)

lemma create_Inr:
  assumes "create H sch actor dto d = (Inr x, d')"
  obtains k s where "createInTx H (clock sch k) actor (normalized dto) (request_digest H actor dto) s = Inr (x, d')"
    "assertOrigin actor (ca_createdByMemberId dto) (ca_deviceId dto) = Inr ()" "valid_period (ca_from dto) (ca_to dto)"
proof (cases rule: create_cases [where actor = actor and dto = dto and H = H and sch = sch and d = d])
  case 1
  then have "runWithRetry (create_unit H sch actor (normalized dto) (request_digest H actor dto)) d = (Inr x, d')"
    using assms by (simp add: create_eq)
  from runWithRetry_Inr [OF this] obtain k s
    where "create_unit H sch actor (normalized dto) (request_digest H actor dto) k s = (Inr x, d')" by auto
  with 1 show ?thesis by (intro that) (auto simp: create_unit_def transaction_Inr split: if_splits)
qed (use assms in auto)

section \<open>The commitment\<close>

lemma committed_append:
  assumes "agreementReversals d' = agreementReversals d" "agreements d' = agreements d @ [a]"
  shows "fst (committedInTx d' c from to) \<le> fst (committedInTx d c from to) + max 0 (ag_distributedMinor a)"
    "active (agreementReversals d) a \<Longrightarrow> ctx a = c \<Longrightarrow> ag_periodFrom a = utc_date from \<Longrightarrow> ag_periodTo a = utc_date to
      \<Longrightarrow> fst (committedInTx d' c from to) = fst (committedInTx d c from to) + ag_distributedMinor a"
  using assms by (auto simp: committedInTx_def live_agreements_def in_context_def Let_def)

lemma persist_committed:
  assumes "persistAgreement H now actor data requestFp memberName replaces simulation d = Inr ((b, r), d')"
  obtains a where "agreements d' = agreements d @ [a]" "agreementReversals d' = agreementReversals d"
    "books d' = books d" "ag_distributedMinor a = sm_distributedMinor simulation" "rid a = ca_id data"
    "ctx a = act_contextId actor" "ag_periodFrom a = utc_date (ca_from data)" "ag_periodTo a = utc_date (ca_to data)"
    "f_requestFingerprint a = requestFp" "rid a \<notin> rid ` set (agreements d)" "f_receivedAt a = now"
    "accounts d' = accounts d" "members d' = members d" "devices d' = devices d"
    "participants d' = participants d @ map (participant_row actor (ca_id data)) (sm_members simulation)"
    "(formatFolio (folioYear now) (fst (next_number (act_contextId actor) (folioYear now) (counters d)))) = ag_folio a"
    "counters d' = snd (next_number (act_contextId actor) (folioYear now) (counters d))"
    "payments d' = payments d" "paymentReversals d' = paymentReversals d" "f_occurredAt a = ca_occurredAt data"
  using assms
proof (rule persistAgreement_Inr)
  fix number counters' fp doc ags
  assume n: "next_number (act_contextId actor) (folioYear now) (counters d) = (number, counters')"
    and ins: "insert_agreement (agreement_row actor data (formatFolio (folioYear now) number) now memberName requestFp
        simulation fp doc) (agreements d) = Inr ags"
    and d': "d' = d\<lparr>counters := counters', agreements := ags,
       participants := participants d @ map (participant_row actor (ca_id data)) (sm_members simulation)\<rparr>"
  note rows = insert_agreement_Inr(1,2) [OF ins]
  show thesis
    by (rule that [of "agreement_row actor data (formatFolio (folioYear now) number) now memberName requestFp
          simulation fp doc"], unfold d' rows(1) n)
      (use rows(2) in \<open>simp_all add: books_def\<close>)
qed


section \<open>Idempotency of the creation\<close>

text \<open>No other transaction interferes, and the attempts run at one instant.\<close>

definition quiet :: "instant \<Rightarrow> schedule" where
  "quiet now = \<lparr>world = (\<lambda>_ d. d), stale = (\<lambda>_. False), clock = (\<lambda>_. now)\<rparr>"

definition retried_error :: "failure \<Rightarrow> failure" where
  "retried_error e =
     (if isUniqueViolation e then NotFound ''Agreement not found''
      else if isRetryableTransactionError e then ServiceUnavailable ''FINANCE_AGREEMENT_BUSY'' else e)"

lemma retry_loop_const:
  assumes "\<And>k. u k s = (Inl e, s)"
  shows "retry_loop u k (Suc n) prev s = (Inl (retried_error e), s)"
proof (induction n arbitrary: k prev)
  case 0
  then show ?case by (simp add: assms retried_error_def)
next
  case (Suc n)
  show ?case
    by (subst retry_loop.simps) (simp add: assms Suc.IH retried_error_def del: retry_loop.simps)
qed

lemma create_quiet:
  assumes "assertOrigin actor (ca_createdByMemberId dto) (ca_deviceId dto) = Inr ()" "valid_period (ca_from dto) (ca_to dto)"
  shows "create H (quiet now) actor dto d =
    (case createInTx H now actor (normalized dto) (request_digest H actor dto) d of
       Inl e \<Rightarrow> (Inl (retried_error e), d)
     | Inr (x, d') \<Rightarrow> (Inr x, d'))"
proof -
  let ?u = "create_unit H (quiet now) actor (normalized dto) (request_digest H actor dto)"
  let ?tx = "createInTx H now actor (normalized dto) (request_digest H actor dto)"
  have u: "?u k s = transaction (?tx) s" for k s by (simp add: create_unit_def quiet_def)
  have five: "MAX_CREATE_ATTEMPTS = Suc 4" by (simp add: MAX_CREATE_ATTEMPTS_def)
  show ?thesis
  proof (cases "?tx d")
    case (Inl e)
    have "?u k d = (Inl e, d)" for k by (simp add: u transaction_def Inl)
    from retry_loop_const [of ?u, OF this, of 1 4 "Internal ''''"] show ?thesis
      unfolding create_eq [OF assms] runWithRetry_def five Inl by (simp del: retry_loop.simps)
  next
    case (Inr x)
    have "?u k d = (Inr (fst x), snd x)" for k by (simp add: u transaction_def Inr case_prod_unfold)
    then show ?thesis unfolding create_eq [OF assms] runWithRetry_def five Inr retry_loop.simps(2)
      by (simp add: case_prod_unfold del: retry_loop.simps)
  qed
qed

definition create_call ::
  "(string \<Rightarrow> string) \<Rightarrow> instant \<Rightarrow> actor \<times> create_agreement_dto \<Rightarrow> db \<Rightarrow> (bool \<times> jsval) result \<times> db"
where
  "create_call H now q d = create H (quiet now) (fst q) (snd q) d"

lemma create_call_fun: "create_call H now (actor, dto) = create H (quiet now) actor dto"
  by (simp add: fun_eq_iff create_call_def)

definition create_gate :: "actor \<times> create_agreement_dto \<Rightarrow> db \<Rightarrow> bool" where
  "create_gate q d \<longleftrightarrow> (case q of (actor, dto) \<Rightarrow>
     assertOrigin actor (ca_createdByMemberId dto) (ca_deviceId dto) = Inr ()
     \<and> valid_period (ca_from dto) (ca_to dto) \<and> is_ok (authorize_socio d actor))"

definition create_stored :: "actor \<times> create_agreement_dto \<Rightarrow> db \<Rightarrow> string option" where
  "create_stored q d = (case q of (actor, dto) \<Rightarrow>
     map_option f_requestFingerprint (find_row (act_contextId actor) (toLowerCase (ca_id dto)) (agreements d)))"

definition create_receipt :: "actor \<times> create_agreement_dto \<Rightarrow> db \<Rightarrow> jsval" where
  "create_receipt q d = (case q of (actor, dto) \<Rightarrow>
     (case find_row (act_contextId actor) (toLowerCase (ca_id dto)) (agreements d) of
        Some a \<Rightarrow> liveDocument d a | None \<Rightarrow> JNull))"

definition create_print :: "(string \<Rightarrow> string) \<Rightarrow> actor \<times> create_agreement_dto \<Rightarrow> string" where
  "create_print H q = request_digest H (fst q) (snd q)"

lemma normalized_id: "ca_id (normalized dto) = toLowerCase (ca_id dto)"
  by (simp add: normalized_def)

lemma create_stored_alt:
  "create_stored (actor, dto) d =
    map_option f_requestFingerprint (find_row (act_contextId actor) (ca_id (normalized dto)) (agreements d))"
  by (simp add: create_stored_def normalized_id)

lemma createInTx_stored:
  assumes "is_ok (authorize_socio d actor)" "find_row (act_contextId actor) (ca_id data) (agreements d) = Some a"
  shows "createInTx H now actor data fp d =
    (if f_requestFingerprint a = fp then Inr ((False, liveDocument d a), d)
     else Inl (Conflict ''FINANCE_AGREEMENT_ID_CONFLICT''))"
  using assms by (auto simp: createInTx_def is_ok_iff)

lemma createInTx_records:
  assumes "createInTx H now actor data fp d = Inr ((True, r), d')"
  shows "find_row (act_contextId actor) (ca_id data) (agreements d) = None
    \<and> map_option f_requestFingerprint (find_row (act_contextId actor) (ca_id data) (agreements d')) = Some fp
    \<and> is_ok (authorize_socio d' actor)"
proof -
  from createInTx_created [OF assms] obtain memberName replaces simulation where
    auth: "authorize_socio d actor = Inr memberName"
    and none: "find_row (act_contextId actor) (ca_id data) (agreements d) = None"
    and persist: "persistAgreement H now actor data fp memberName replaces simulation d = Inr ((True, r), d')" by metis
  from persist_committed [OF persist] obtain a where
    a: "agreements d' = agreements d @ [a]" "rid a = ca_id data" "ctx a = act_contextId actor"
      "f_requestFingerprint a = fp"
    and tables: "accounts d' = accounts d" "members d' = members d" "devices d' = devices d" by metis
  have "find_row (act_contextId actor) (ca_id data) (agreements d') = Some a"
    using none a by (simp add: find_row_def find_append)
  with none a auth authorize_socio_tables [OF tables, of actor] show ?thesis by simp
qed

interpretation agreement_create:
  idempotent_request "create_call H" create_stored "create_print H" create_gate create_receipt
  for H
proof
  fix q d t assume g: "create_gate q d" and s: "create_stored q d = Some (create_print H q)"
  obtain actor dto where q: "q = (actor, dto)" by (cases q)
  from s q obtain a where a: "find_row (act_contextId actor) (ca_id (normalized dto)) (agreements d) = Some a"
    "f_requestFingerprint a = request_digest H actor dto"
    by (auto simp: create_stored_alt create_print_def)
  from g q a(1) show "create_call H t q d = (Inr (False, create_receipt q d), d)"
    by (simp add: create_receipt_def normalized_id create_gate_def create_call_def create_quiet createInTx_stored [OF _ a(1)] a(2))
next
  fix q d f t assume g: "create_gate q d" and s: "create_stored q d = Some f" "f \<noteq> create_print H q"
  obtain actor dto where q: "q = (actor, dto)" by (cases q)
  from s q obtain a where a: "find_row (act_contextId actor) (ca_id (normalized dto)) (agreements d) = Some a"
    "f_requestFingerprint a \<noteq> request_digest H actor dto"
    by (auto simp: create_stored_alt create_print_def)
  from g q show "\<exists>m. create_call H t q d = (Inl (Conflict m), d)"
    by (simp add: create_gate_def create_call_def create_quiet createInTx_stored [OF _ a(1)] a(2)
        retried_error_def isUniqueViolation_def isRetryableTransactionError_def)
next
  fix t q d r d' assume run: "create_call H t q d = (Inr (True, r), d')"
  obtain actor dto where q: "q = (actor, dto)" by (cases q)
  from run q have run': "create H (quiet t) actor dto d = (Inr (True, r), d')" by (simp add: create_call_def)
  from create_Inr [OF run'] have pre: "assertOrigin actor (ca_createdByMemberId dto) (ca_deviceId dto) = Inr ()"
    "valid_period (ca_from dto) (ca_to dto)" by auto
  from run' have "createInTx H t actor (normalized dto) (request_digest H actor dto) d = Inr ((True, r), d')"
    by (auto simp: create_quiet [OF pre] split: sum.splits prod.splits)
  from createInTx_records [OF this] pre q
  show "create_stored q d = None \<and> create_stored q d' = Some (create_print H q) \<and> create_gate q d'"
    by (auto simp: create_stored_alt create_print_def create_gate_def)
next
  fix t q d r d' assume run: "create_call H t q d = (Inr (False, r), d')"
  obtain actor dto where q: "q = (actor, dto)" by (cases q)
  from run q have run': "create H (quiet t) actor dto d = (Inr (False, r), d')" by (simp add: create_call_def)
  from create_Inr [OF run'] have pre: "assertOrigin actor (ca_createdByMemberId dto) (ca_deviceId dto) = Inr ()"
    "valid_period (ca_from dto) (ca_to dto)" by auto
  from run' have "createInTx H t actor (normalized dto) (request_digest H actor dto) d = Inr ((False, r), d')"
    by (auto simp: create_quiet [OF pre] split: sum.splits prod.splits)
  from createInTx_replayed [OF this] pre q
  show "d' = d \<and> create_stored q d = Some (create_print H q) \<and> create_gate q d"
    by (auto simp: create_stored_alt create_print_def create_gate_def)
next
  fix t q d e d' assume run: "create_call H t q d = (Inl e, d')"
  obtain actor dto where q: "q = (actor, dto)" by (cases q)
  show "d' = d"
  proof (cases rule: create_cases [where actor = actor and dto = dto and H = H and sch = "quiet t" and d = d])
    case 1
    then show ?thesis using run q by (auto simp: create_call_def create_quiet split: sum.splits prod.splits)
  qed (use run q in \<open>auto simp: create_call_def\<close>)
qed

text \<open>A creation sent again and again is executed at most once. However often a tablet repeats the
  request, the answers are errors that left no trace, then at most one creation, then replays of
  it; as long as only errors were answered the database is the one before the first attempt.\<close>

theorem agreement_create_at_most_once:
  "effect_once d (retries (\<lambda>now. create H (quiet now) actor dto) instants d)"
  using agreement_create.at_most_once [of d H "(actor, dto)" instants] by (simp add: create_call_fun)

end
