(* ===== verification/AgreementLaws.thy ===== *)
theory AgreementLaws
  imports Agreements Sample
begin

text \<open>
  What holds of the agreements over their whole life: the folios of a business and a year are the
  gapless sequence that its counter counts, a reversal frees exactly what its agreement had taken
  from the period, and a reversal sent twice is executed once and answered with one receipt.
\<close>

section \<open>Folios\<close>

definition last_number :: "string \<Rightarrow> int \<Rightarrow> counter list \<Rightarrow> int" where
  "last_number c year cs =
     (case find (\<lambda>k. ct_contextId k = c \<and> ct_year k = year) cs of None \<Rightarrow> 0 | Some k \<Rightarrow> ct_lastNumber k)"

definition folios_of :: "db \<Rightarrow> string \<Rightarrow> int \<Rightarrow> string list" where
  "folios_of d c year = map ag_folio [a \<leftarrow> agreements d. ctx a = c \<and> folioYear (f_receivedAt a) = year]"

text \<open>The folios of a business and a year, in the order they were given out, are 1, 2, ... without a gap.\<close>

definition folios_ok :: "db \<Rightarrow> bool" where
  "folios_ok d \<longleftrightarrow> (\<forall>c year. 0 \<le> last_number c year (counters d)
     \<and> folios_of d c year = map (formatFolio year) [1..last_number c year (counters d)])"

lemma fst_next_number: "fst (next_number c year cs) = last_number c year cs + 1"
  by (induction cs) (auto simp: last_number_def Let_def case_prod_unfold)

lemma last_number_Cons:
  "last_number c year (k # cs) = (if ct_contextId k = c \<and> ct_year k = year then ct_lastNumber k else last_number c year cs)"
  by (simp add: last_number_def)

lemma last_number_next:
  "last_number c' year' (snd (next_number c year cs))
     = (if c' = c \<and> year' = year then last_number c year cs + 1 else last_number c' year' cs)"
proof (induction cs)
  case Nil
  show ?case by (simp add: last_number_def)
next
  case (Cons k cs)
  then show ?case
    by (cases "ct_contextId k = c \<and> ct_year k = year"; cases "ct_contextId k = c' \<and> ct_year k = year'")
      (auto simp: last_number_Cons Let_def case_prod_unfold)
qed

lemma folios_ok_append:
  assumes ok: "folios_ok d" and n: "counters d' = snd (next_number c year (counters d))"
    and a: "agreements d' = agreements d @ [a]" "ctx a = c" "folioYear (f_receivedAt a) = year"
      "ag_folio a = formatFolio year (fst (next_number c year (counters d)))"
  shows "folios_ok d'"
  unfolding folios_ok_def
proof (intro allI conjI)
  fix c' year'
  let ?last = "last_number c' year' (counters d)"
  have old: "0 \<le> ?last" "folios_of d c' year' = map (formatFolio year') [1..?last]"
    using ok by (auto simp: folios_ok_def)
  have new: "last_number c' year' (counters d') = (if c' = c \<and> year' = year then ?last + 1 else ?last)"
    unfolding n last_number_next by auto
  then show "0 \<le> last_number c' year' (counters d')" using old by (auto split: if_splits)
  have snoc: "[1..?last + 1] = [1..?last] @ [?last + 1]" using old(1) by (simp add: upto_rec2)
  show "folios_of d' c' year' = map (formatFolio year') [1..last_number c' year' (counters d')]"
    using a old(2) by (auto simp: new snoc folios_of_def fst_next_number)
qed

lemma folios_ok_cong: "agreements d' = agreements d \<Longrightarrow> counters d' = counters d \<Longrightarrow> folios_ok d \<Longrightarrow> folios_ok d'"
  by (simp add: folios_ok_def folios_of_def)

lemma createInTx_folios:
  assumes "createInTx H now actor data fp d = Inr (x, d')" "folios_ok d"
  shows "folios_ok d'"
proof -
  obtain b r where x: "x = (b, r)" by fastforce
  show ?thesis
  proof (cases b)
    case False
    then show ?thesis using createInTx_replayed [of H now actor data fp d r d'] assms x by simp
  next
    case True
    with assms x have "createInTx H now actor data fp d = Inr ((True, r), d')" by simp
    from createInTx_created [OF this] obtain memberName replaces simulation where
      "persistAgreement H now actor data fp memberName replaces simulation d = Inr ((True, r), d')" by metis
    from persist_committed [OF this] obtain a where
      a: "agreements d' = agreements d @ [a]" "ctx a = act_contextId actor" "f_receivedAt a = now"
        "formatFolio (folioYear now) (fst (next_number (act_contextId actor) (folioYear now) (counters d))) = ag_folio a"
        "counters d' = snd (next_number (act_contextId actor) (folioYear now) (counters d))" by metis
    show ?thesis by (rule folios_ok_append [OF assms(2) a(5,1,2)]) (simp_all add: a(3,4))
  qed
qed

text \<open>A folio names its year and its number.\<close>

lemma pad_digits: "c \<in> set (pad_start k (CHR ''0'') (show_nat n)) \<Longrightarrow> is_digit c"
  by (auto simp: pad_start_def is_digit_code dest: show_nat_digits)

lemma formatFolio_inj:
  assumes "formatFolio y n = formatFolio y' n'" "0 \<le> y" "0 \<le> y'" "0 \<le> n" "0 \<le> n'"
  shows "y = y' \<and> n = n'"
proof -
  define p where "p k i = pad_start k (CHR ''0'') (show_nat (nat i))" for k i
  have digits: "takeWhile is_digit (p k i @ CHR ''-'' # s) = p k i \<and> dropWhile is_digit (p k i @ CHR ''-'' # s) = CHR ''-'' # s" for k i s
    unfolding p_def by (auto simp: takeWhile_append2 dropWhile_append2 pad_digits)
  have "p 4 y @ CHR ''-'' # p 5 n = p 4 y' @ CHR ''-'' # p 5 n'"
    using assms by (simp add: formatFolio_def show_int_def p_def)
  then have "p 4 y = p 4 y'" "p 5 n = p 5 n'" using digits by (metis, metis list.inject)
  then have "nat y = nat y'" "nat n = nat n'" unfolding p_def by (metis read_pad_start read_show_nat)+
  with assms eq_nat_nat_iff show ?thesis by blast
qed

lemma folioYear_nonneg: "0 \<le> folioYear t"
  by (simp add: folioYear_def)

lemma folios_distinct:
  assumes "folios_ok d"
  shows "distinct (map ag_folio (in_context c (agreements d)))"
proof -
  let ?as = "in_context c (agreements d)"
  have part: "map ag_folio [a \<leftarrow> ?as. folioYear (f_receivedAt a) = y] = map (formatFolio y) [1..last_number c y (counters d)]" for y
    using assms by (auto simp: folios_ok_def folios_of_def in_context_def conj_commute)
  have each: "distinct (map ag_folio [a \<leftarrow> ?as. folioYear (f_receivedAt a) = y])" if "0 \<le> y" for y
    unfolding part distinct_map using that by (auto simp: inj_on_def dest: formatFolio_inj)
  have year: "\<exists>n. 0 \<le> n \<and> ag_folio a = formatFolio (folioYear (f_receivedAt a)) n" if "a \<in> set ?as" for a
  proof -
    have "ag_folio a \<in> set (map ag_folio [x \<leftarrow> ?as. folioYear (f_receivedAt x) = folioYear (f_receivedAt a)])"
      using that by auto
    then obtain n where "1 \<le> n" "ag_folio a = formatFolio (folioYear (f_receivedAt a)) n"
      unfolding part by auto
    then show ?thesis by (intro exI [of _ n]) simp
  qed
  show ?thesis
  proof (rule distinct_by_class [where k = "\<lambda>a. folioYear (f_receivedAt a)"])
    fix y assume "y \<in> (\<lambda>a. folioYear (f_receivedAt a)) ` set ?as"
    then show "distinct (map ag_folio [a \<leftarrow> ?as. folioYear (f_receivedAt a) = y])"
      by (intro each) (auto simp: folioYear_nonneg)
  next
    fix a b assume "a \<in> set ?as" "b \<in> set ?as" "ag_folio a = ag_folio b"
    moreover from this(1,2) year [of a] year [of b] obtain n n' where
      "0 \<le> n" "ag_folio a = formatFolio (folioYear (f_receivedAt a)) n"
      "0 \<le> n'" "ag_folio b = formatFolio (folioYear (f_receivedAt b)) n'" by blast
    ultimately show "folioYear (f_receivedAt a) = folioYear (f_receivedAt b)"
      using formatFolio_inj [of "folioYear (f_receivedAt a)" n "folioYear (f_receivedAt b)" n']
      by (simp add: folioYear_nonneg)
  qed
qed

text \<open>C6: the folios of a business and a year are the numbers 1, 2, ... in order and without a gap, whatever
  happens. A creation, with all its attempts and under any behaviour of the other transactions that
  keeps the sequence, keeps it, and so no two agreements of a business carry one folio.\<close>

theorem create_folios_gapless:
  assumes "folios_ok d" "\<And>k s. folios_ok s \<Longrightarrow> folios_ok (world sch k s)"
    and "snd (create H sch actor dto d) = d'"
  shows "folios_ok d' \<and> distinct (map ag_folio (in_context c (agreements d')))"
proof -
  let ?u = "create_unit H sch actor (normalized dto) (request_digest H actor dto)"
  have unit_ok: "folios_ok (snd (?u k s))" if "folios_ok s" for k s
    using assms(2) [OF that, of k] createInTx_folios
    by (auto simp: create_unit_def transaction_def split: sum.splits prod.splits)
  have "folios_ok d'"
  proof (cases rule: create_cases [where actor = actor and dto = dto and H = H and sch = sch and d = d])
    case 1
    then show ?thesis using runWithRetry_invariant [of folios_ok ?u d, OF unit_ok assms(1)] assms(3)
      by (simp add: create_eq)
  qed (use assms in simp)
  then show ?thesis by (simp add: folios_distinct)
qed

section \<open>Reversal\<close>

lemma reverseInTx_Inr:
  assumes "reverseInTx now actor targetId data fp d = Inr ((True, r), d')"
  obtains original revs where
    "is_ok (authorize_socio d actor)"
    "find_row (act_contextId actor) (rd_id data) (agreementReversals d) = None"
    "find_row (act_contextId actor) targetId (agreements d) = Some original"
    "active (agreementReversals d) original"
    "d' = d\<lparr>agreementReversals := agreementReversals d @ [reversal_row actor targetId data now fp r]\<rparr>"
    "\<forall>w \<in> set (agreementReversals d). rev_target w \<noteq> targetId"
  using assms
  by (auto simp: reverseInTx_def Let_def active_def insert_reversal_def insert_row_def reversal_row_def
      split: sum.splits option.splits if_splits)

lemma reverseInTx_replayed:
  assumes "reverseInTx now actor targetId data fp d = Inr ((False, r), d')"
  shows "d' = d \<and> (\<exists>v. find_row (act_contextId actor) (rd_id data) (agreementReversals d) = Some v
    \<and> f_requestFingerprint v = fp \<and> r = f_creationResponse v) \<and> is_ok (authorize_socio d actor)"
  using assms by (auto simp: reverseInTx_def Let_def split: sum.splits option.splits if_splits)

definition reverse_print :: "(string \<Rightarrow> string) \<Rightarrow> actor \<Rightarrow> string \<Rightarrow> uuid \<Rightarrow> reverse_dto \<Rightarrow> string" where
  "reverse_print H actor key targetId dto =
     projr (operation_digest H actor ''reverse'' (json_reverse key (toLowerCase targetId) (normalized_reverse dto)))"

lemma reverse_digest:
  "operation_digest H actor operation (json_reverse key targetId data)
   = Inr (projr (operation_digest H actor operation (json_reverse key targetId data)))"
  by (rule operation_digest_ok) (auto simp: json_reverse_def)

definition reverse_origin :: "actor \<Rightarrow> uuid \<Rightarrow> reverse_dto \<Rightarrow> bool" where
  "reverse_origin actor targetId dto \<longleftrightarrow>
     assertOrigin actor (rd_createdByMemberId dto) (rd_deviceId dto) = Inr ()
     \<and> toLowerCase (rd_id dto) \<noteq> toLowerCase targetId"

lemma assertOrigin_cases:
  obtains "assertOrigin actor m v = Inr ()" | "assertOrigin actor m v = Inl Forbidden"
  by (cases "act_selection actor = Some (toLowerCase m, toLowerCase v)") (simp_all add: assertOrigin_def)

lemma reverse_eq:
  "reverse_origin actor targetId dto \<Longrightarrow> reverse H now actor targetId dto d =
     (case transaction (reverseInTx now actor (toLowerCase targetId) (normalized_reverse dto)
              (reverse_print H actor ''agreementId'' targetId dto)) d of
        (Inl e, d') \<Rightarrow> (Inl (if isUniqueViolation e then NotFound ''Agreement not found'' else e), d')
      | (Inr x, d') \<Rightarrow> (Inr x, d'))"
  unfolding reverse_def reverse_origin_def reverse_print_def Let_def
  by (subst reverse_digest) (simp add: normalized_reverse_def)

lemma reverse_refused: "\<not> reverse_origin actor targetId dto \<Longrightarrow> \<exists>e. reverse H now actor targetId dto d = (Inl e, d)"
  unfolding reverse_def reverse_origin_def Let_def
  by (cases rule: assertOrigin_cases [of actor "rd_createdByMemberId dto" "rd_deviceId dto"])
    (simp_all add: normalized_reverse_def)

lemma reverse_Inr:
  "reverse H now actor targetId dto d = (Inr x, d') \<longleftrightarrow>
     reverse_origin actor targetId dto
     \<and> reverseInTx now actor (toLowerCase targetId) (normalized_reverse dto)
          (reverse_print H actor ''agreementId'' targetId dto) d = Inr (x, d')"
proof (cases "reverse_origin actor targetId dto")
  case True
  then show ?thesis by (auto simp: reverse_eq transaction_def split: sum.splits prod.splits)
next
  case False
  with reverse_refused [OF False, of H now d] show ?thesis by auto
qed

text \<open>The live agreements of a period lose the reversed one and keep the others.\<close>

lemma committed_reverse:
  assumes "distinct (map rid (agreements d))" "find_row c i (agreements d) = Some a"
    "active (agreementReversals d) a" "rev_target v = i" "ctx v = c"
  shows "committedInTx (d\<lparr>agreementReversals := agreementReversals d @ [v]\<rparr>) c from to
    = (if ag_periodFrom a = utc_date from \<and> ag_periodTo a = utc_date to
       then (fst (committedInTx d c from to) - ag_distributedMinor a, snd (committedInTx d c from to) - 1)
       else committedInTx d c from to)"
proof -
  let ?P = "\<lambda>x. ctx x = c \<and> ag_periodFrom x = utc_date from \<and> ag_periodTo x = utc_date to"
  let ?vs = "agreementReversals d"
  have a: "a \<in> set (agreements d)" "rid a = i" "ctx a = c" using find_row_Some [OF assms(2)] by auto
  have live: "live_agreements d c from to = [x \<leftarrow> agreements d. ?P x \<and> active ?vs x]"
    "live_agreements (d\<lparr>agreementReversals := ?vs @ [v]\<rparr>) c from to = [x \<leftarrow> agreements d. ?P x \<and> active (?vs @ [v]) x]"
    by (auto simp: live_agreements_def in_context_def intro!: filter_cong)
  show ?thesis
  proof (cases "?P a")
    case True
    have "sum_list (map f [x \<leftarrow> agreements d. ?P x \<and> active (?vs @ [v]) x])
        = sum_list (map f [x \<leftarrow> agreements d. ?P x \<and> active ?vs x]) - f a" for f :: "agreement \<Rightarrow> int"
      by (rule sum_active_reverse [OF assms(1) a(1) assms(3)]) (use True assms a in auto)
    from this [of ag_distributedMinor] this [of "\<lambda>_. 1"] show ?thesis
      using True by (simp add: committedInTx_def live Let_def sum_list_triv)
  next
    case False
    have "x = a" if "x \<in> set (agreements d)" "rid x = i" for x
      using that a assms(1) by (metis distinct_map inj_onD)
    then have "[x \<leftarrow> agreements d. ?P x \<and> active (?vs @ [v]) x] = [x \<leftarrow> agreements d. ?P x \<and> active ?vs x]"
      using False assms(4) by (intro filter_cong) (auto simp: active_snoc)
    with False a(3) show ?thesis by (auto simp: committedInTx_def live Let_def)
  qed
qed

text \<open>Voiding an agreement gives back exactly what it had taken. A reversal that is executed finds the
  agreement live and leaves it voided; what the period of the agreement has committed falls by what the
  agreement distributed and by one agreement, and every other period keeps its figures; no other
  table and no agreement changes.\<close>

theorem reverse_frees_exactly:
  assumes "reverse H now actor agreementId dto d = (Inr (True, r), d')" "distinct (map rid (agreements d))"
  shows "\<exists>a. find_row (act_contextId actor) (toLowerCase agreementId) (agreements d) = Some a
    \<and> active (agreementReversals d) a \<and> \<not> active (agreementReversals d') a
    \<and> (\<forall>from to. committedInTx d' (act_contextId actor) from to
        = (if ag_periodFrom a = utc_date from \<and> ag_periodTo a = utc_date to
           then (fst (committedInTx d (act_contextId actor) from to) - ag_distributedMinor a,
                 snd (committedInTx d (act_contextId actor) from to) - 1)
           else committedInTx d (act_contextId actor) from to))
    \<and> d' = d\<lparr>agreementReversals := agreementReversals d'\<rparr>"
proof -
  let ?c = "act_contextId actor" and ?i = "toLowerCase agreementId"
  from assms(1) have "reverseInTx now actor ?i (normalized_reverse dto)
      (reverse_print H actor ''agreementId'' agreementId dto) d = Inr ((True, r), d')"
    by (simp add: reverse_Inr)
  then obtain a v where a: "find_row ?c ?i (agreements d) = Some a" "active (agreementReversals d) a"
    and d': "d' = d\<lparr>agreementReversals := agreementReversals d @ [v]\<rparr>" and v: "rev_target v = ?i" "ctx v = ?c"
    by (elim reverseInTx_Inr) simp
  have "\<not> active (agreementReversals d') a"
    using find_row_Some [OF a(1)] v by (simp add: d' active_snoc)
  with a committed_reverse [OF assms(2) a v] show ?thesis by (simp add: d')
qed

section \<open>Idempotency of the reversal\<close>

definition reverse_call ::
  "(string \<Rightarrow> string) \<Rightarrow> instant \<Rightarrow> actor \<times> uuid \<times> reverse_dto \<Rightarrow> db \<Rightarrow> (bool \<times> jsval) result \<times> db"
where
  "reverse_call H now q d = reverse H now (fst q) (fst (snd q)) (snd (snd q)) d"

definition reverse_gate :: "actor \<times> uuid \<times> reverse_dto \<Rightarrow> db \<Rightarrow> bool" where
  "reverse_gate q d \<longleftrightarrow> (case q of (actor, targetId, dto) \<Rightarrow>
     reverse_origin actor targetId dto \<and> is_ok (authorize_socio d actor))"

definition reversal_on_record :: "reversal list \<Rightarrow> actor \<times> uuid \<times> reverse_dto \<Rightarrow> reversal option" where
  "reversal_on_record rows q = find_row (act_contextId (fst q)) (rd_id (normalized_reverse (snd (snd q)))) rows"

definition reversal_receipt :: "reversal list \<Rightarrow> actor \<times> uuid \<times> reverse_dto \<Rightarrow> jsval" where
  "reversal_receipt rows q = (case reversal_on_record rows q of Some v \<Rightarrow> f_creationResponse v | None \<Rightarrow> JNull)"

lemma reverseInTx_stored:
  assumes "is_ok (authorize_socio d actor)"
    "find_row (act_contextId actor) (rd_id data) (agreementReversals d) = Some v"
  shows "reverseInTx now actor targetId data fp d =
    (if f_requestFingerprint v = fp then Inr ((False, f_creationResponse v), d)
     else Inl (Conflict ''FINANCE_AGREEMENT_ID_CONFLICT''))"
  using assms by (auto simp: reverseInTx_def is_ok_iff)

lemma reverseInTx_records:
  assumes "reverseInTx now actor targetId data fp d = Inr ((True, r), d')"
  shows "find_row (act_contextId actor) (rd_id data) (agreementReversals d) = None
    \<and> (\<exists>v. find_row (act_contextId actor) (rd_id data) (agreementReversals d') = Some v
        \<and> f_requestFingerprint v = fp \<and> f_creationResponse v = r) \<and> is_ok (authorize_socio d' actor)"
  using assms
proof (rule reverseInTx_Inr)
  fix original revs
  assume ok: "is_ok (authorize_socio d actor)"
    and none: "find_row (act_contextId actor) (rd_id data) (agreementReversals d) = None"
    and d': "d' = d\<lparr>agreementReversals := agreementReversals d @ [reversal_row actor targetId data now fp r]\<rparr>"
  have "authorize_socio d' actor = authorize_socio d actor" by (rule authorize_socio_tables) (simp_all add: d')
  with ok none show ?thesis by (simp add: d' find_row_def find_append)
qed

interpretation agreement_reverse:
  frozen_receipt "reverse_call H" "\<lambda>q d. map_option f_requestFingerprint (reversal_on_record (agreementReversals d) q)"
    "\<lambda>q. reverse_print H (fst q) ''agreementId'' (fst (snd q)) (snd (snd q))" reverse_gate
    "\<lambda>q d. reversal_receipt (agreementReversals d) q"
  for H
proof
  fix q d t assume g: "reverse_gate q d"
    and s: "map_option f_requestFingerprint (reversal_on_record (agreementReversals d) q)
      = Some (reverse_print H (fst q) ''agreementId'' (fst (snd q)) (snd (snd q)))"
  obtain actor i dto where q: "q = (actor, i, dto)" by (cases q)
  from g s show "reverse_call H t q d = (Inr (False, reversal_receipt (agreementReversals d) q), d)"
    by (auto simp: q reversal_on_record_def reversal_receipt_def reverse_gate_def reverse_call_def reverse_Inr
        reverseInTx_stored)
next
  fix q d f t assume g: "reverse_gate q d"
    and s: "map_option f_requestFingerprint (reversal_on_record (agreementReversals d) q) = Some f"
      "f \<noteq> reverse_print H (fst q) ''agreementId'' (fst (snd q)) (snd (snd q))"
  obtain actor i dto where q: "q = (actor, i, dto)" by (cases q)
  from g s show "\<exists>m. reverse_call H t q d = (Inl (Conflict m), d)"
    by (auto simp: q reversal_on_record_def reverse_gate_def reverse_call_def reverse_eq transaction_def
        reverseInTx_stored isUniqueViolation_def)
next
  fix t q d r d' assume run: "reverse_call H t q d = (Inr (True, r), d')"
  obtain actor i dto where q: "q = (actor, i, dto)" by (cases q)
  from run show "map_option f_requestFingerprint (reversal_on_record (agreementReversals d) q) = None
      \<and> map_option f_requestFingerprint (reversal_on_record (agreementReversals d') q)
        = Some (reverse_print H (fst q) ''agreementId'' (fst (snd q)) (snd (snd q)))
      \<and> reverse_gate q d'"
    by (auto simp: q reverse_call_def reverse_Inr reversal_on_record_def reverse_gate_def
        dest: reverseInTx_records)
next
  fix t q d r d' assume run: "reverse_call H t q d = (Inr (False, r), d')"
  obtain actor i dto where q: "q = (actor, i, dto)" by (cases q)
  from run show "d' = d \<and> map_option f_requestFingerprint (reversal_on_record (agreementReversals d) q)
      = Some (reverse_print H (fst q) ''agreementId'' (fst (snd q)) (snd (snd q))) \<and> reverse_gate q d"
    by (auto simp: q reverse_call_def reverse_Inr reversal_on_record_def reverse_gate_def
        dest: reverseInTx_replayed)
next
  fix t q d e d' assume run: "reverse_call H t q d = (Inl e, d')"
  obtain actor i dto where q: "q = (actor, i, dto)" by (cases q)
  show "d' = d"
  proof (cases "reverse_origin actor i dto")
    case True
    then show ?thesis using run
      by (auto simp: q reverse_call_def reverse_eq transaction_def split: sum.splits prod.splits)
  next
    case False
    from reverse_refused [OF this, of H t d] run q show ?thesis by (auto simp: reverse_call_def)
  qed
next
  fix t q d r d' assume run: "reverse_call H t q d = (Inr (True, r), d')"
  obtain actor i dto where q: "q = (actor, i, dto)" by (cases q)
  from run show "reversal_receipt (agreementReversals d') q = r"
    by (auto simp: q reverse_call_def reverse_Inr reversal_on_record_def reversal_receipt_def
        dest: reverseInTx_records)
qed

text \<open>A reversal sent again and again is executed at most once and every success hands out the same
  receipt.\<close>

theorem agreement_reverse_at_most_once:
  "effect_once d (retries (\<lambda>now. reverse H now actor agreementId dto) instants d)
   \<and> same_receipts (fst (retries (\<lambda>now. reverse H now actor agreementId dto) instants d))"
  using agreement_reverse.at_most_once [of d H "(actor, agreementId, dto)" instants]
    agreement_reverse.same_receipt [of H "(actor, agreementId, dto)" instants d]
  by (simp add: reverse_call_def [abs_def])

section \<open>Examples\<close>

text \<open>Ana agrees to distribute 1000 of January and, later, another state in which that agreement exists.\<close>

definition sample_agreement :: create_agreement_dto where
  "sample_agreement = \<lparr>ca_id = ''g1'', ca_from = ''2026-01-01'', ca_to = ''2026-02-01'',
     ca_requestedAmountMinor = 1000, ca_partnerShareBps = 6000, ca_workShareBps = 4000,
     ca_workBasis = WORK_SHIFTS, ca_title = ''Enero'', ca_note = None, ca_replacesAgreementId = None,
     ca_simulationFingerprint = ''sim1:h'', ca_createdByMemberId = ''M1'', ca_deviceId = ''d1'',
     ca_occurredAt = 1770000000000\<rparr>"

lemma simulateInTx_fingerprint:
  "simulateInTx (\<lambda>_. h) d c dto = Inr s \<Longrightarrow> sm_simulationFingerprint s = ''sim1:'' @ h"
  unfolding simulateInTx_def Let_def
  by (auto simp: finish_simulation_def simulationFingerprint_def canonicalDigest_plain plain_content
      SIMULATION_FINGERPRINT_PREFIX_def Let_def split: sum.splits if_splits prod.splits)

lemma persist_fresh:
  assumes "agreements d = []" "participants d = []"
  shows "\<exists>r d'. persistAgreement H now actor data fp name replaces simulation d = Inr ((True, r), d')
    \<and> length (agreements d') = 1"
proof -
  obtain n cs where "next_number (act_contextId actor) (folioYear now) (counters d) = (n, cs)" by fastforce
  with assms show ?thesis
    by (simp add: persistAgreement_def buildAgreementDocument_def canonicalDigest_plain [OF plain_document]
        insert_agreement_def insert_row_def Let_def)
qed

lemma sample_normalized: "normalized sample_agreement = sample_agreement\<lparr>ca_createdByMemberId := ''m1''\<rparr>"
  by code_simp

lemma sample_simulated:
  obtains s where "simulateInTx (\<lambda>_. ''h'') sample_db ''t1'' (sim_dto_of sample_agreement) = Inr s"
    "conserved (sim_dto_of sample_agreement) s"
proof -
  have "admissible sample_db ''t1'' (sim_dto_of sample_agreement)" by code_simp
  moreover have "shifts_ok sample_db ''t1''" by code_simp
  moreover have "valid_sim_dto (sim_dto_of sample_agreement)" by code_simp
  ultimately show thesis using simulateInTx_outcome that by blast
qed

lemma sample_created:
  obtains r d' where "create (\<lambda>_. ''h'') (quiet 1770000000000) ana sample_agreement sample_db = (Inr (True, r), d')"
    "length (agreements d') = 1"
proof -
  obtain s where s: "simulateInTx (\<lambda>_. ''h'') sample_db ''t1'' (sim_dto_of sample_agreement) = Inr s"
    "conserved (sim_dto_of sample_agreement) s" by (rule sample_simulated)
  have pre: "assertOrigin ana (ca_createdByMemberId sample_agreement) (ca_deviceId sample_agreement) = Inr ()"
    "valid_period (ca_from sample_agreement) (ca_to sample_agreement)" "authorize_socio sample_db ana = Inr ''Ana''"
    by code_simp+
  have fields: "act_contextId ana = ''t1''" "ca_replacesAgreementId (normalized sample_agreement) = None"
    "sim_dto_of (normalized sample_agreement) = sim_dto_of sample_agreement"
    "ca_requestedAmountMinor (normalized sample_agreement) = 1000"
    "ca_simulationFingerprint (normalized sample_agreement) = ''sim1:h''"
    "agreements sample_db = []" "participants sample_db = []"
    unfolding sample_normalized
    by (simp_all add: ana_def sample_agreement_def sim_dto_of_def sample_db_def empty_db_def)
  have free: "1000 \<le> cm_freeMinor (commitmentOf (sm_potentiallyAvailableMinor s)
      (fst (committedInTx sample_db ''t1'' from to)))" for "from" "to"
    using s(2) by (simp add: conserved_def commitmentOf_def committedInTx_def live_agreements_def in_context_def fields
        sim_dto_of_def sample_agreement_def)
  obtain r d' where p: "persistAgreement (\<lambda>_. ''h'') 1770000000000 ana (normalized sample_agreement)
      (request_digest (\<lambda>_. ''h'') ana sample_agreement) ''Ana'' None s sample_db = Inr ((True, r), d')"
    "length (agreements d') = 1"
    using persist_fresh [OF fields(6,7)] by blast
  have "createInTx (\<lambda>_. ''h'') 1770000000000 ana (normalized sample_agreement)
      (request_digest (\<lambda>_. ''h'') ana sample_agreement) sample_db = Inr ((True, r), d')"
    using free [of "ca_from (normalized sample_agreement)" "ca_to (normalized sample_agreement)"]
    by (simp add: createInTx_def pre(3) fields s(1) simulateInTx_fingerprint [OF s(1)] p find_row_def Let_def)
  then have "create (\<lambda>_. ''h'') (quiet 1770000000000) ana sample_agreement sample_db = (Inr (True, r), d')"
    by (simp add: create_quiet [OF pre(1,2)])
  with p(2) that show thesis by blast
qed


theorem create_folios_gapless_witness:
  "\<exists>d'. snd (create (\<lambda>_. ''h'') (quiet 1770000000000) ana sample_agreement sample_db) = d'
    \<and> length (agreements d') = 1 \<and> folios_ok d' \<and> distinct (map ag_folio (in_context ''t1'' (agreements d')))"
proof -
  obtain r d' where c: "create (\<lambda>_. ''h'') (quiet 1770000000000) ana sample_agreement sample_db = (Inr (True, r), d')"
    "length (agreements d') = 1" by (rule sample_created)
  have "folios_ok sample_db" by (simp add: folios_ok_def folios_of_def last_number_def sample_db_def empty_db_def)
  from create_folios_gapless [OF this, of "quiet 1770000000000" "\<lambda>_. ''h''" ana sample_agreement d' "''t1''"] c
  show ?thesis by (simp add: quiet_def)
qed

text \<open>The agreement of January, with what it gives to Ana, Beto and Carla.\<close>

definition sample_participant :: "uuid \<Rightarrow> string \<Rightarrow> int \<Rightarrow> participant" where
  "sample_participant m name amount = \<lparr>pt_agreementId = ''g1'', pt_contextId = ''t1'', pt_memberId = m,
     pt_memberName = name, pt_role = ''socio'', pt_isActive = True, pt_partnerEligible = True,
     pt_partnerAmountMinor = amount, pt_workUnits = 0, pt_shiftCount = 0, pt_knownMinutes = 0,
     pt_unknownDurationCount = 0, pt_workAmountMinor = 0, pt_totalMinor = amount\<rparr>"

definition sample_agreed :: db where
  "sample_agreed = sample_db\<lparr>
     agreements := [\<lparr>rid = ''g1'', ctx = ''t1'', f_occurredAt = 1770000000000, f_receivedAt = 1770000000000,
       f_createdByMemberId = ''m1'', f_createdByAccountId = ''a1'', f_deviceId = ''d1'',
       f_requestFingerprint = ''h'', f_creationResponse = JObj [], ag_folio = ''AC-2026-00001'',
       ag_periodFrom = utc_date ''2026-01-01'', ag_periodTo = utc_date ''2026-02-01'',
       ag_requestedAmountMinor = 1000, ag_partnerShareBps = 10000, ag_workShareBps = 0,
       ag_workBasis = ''WORK_SHIFTS'', ag_partnerMode = ''EQUAL'', ag_currency = ''MXN'',
       ag_financialStatus = ''COMPLETE'', ag_potentiallyAvailableMinor = 2400, ag_partnerPoolMinor = 1000,
       ag_workPoolMinor = 0, ag_distributedMinor = 1000, ag_undistributedMinor = 0,
       ag_algorithmVersion = 1, ag_title = ''Enero'', ag_note = None, ag_replacesAgreementId = None,
       ag_createdByMemberName = ''Ana'', ag_snapshotFingerprint = ''h'', ag_warningsSnapshot = JArr []\<rparr>],
     participants := [sample_participant ''m1'' ''Ana'' 600, sample_participant ''m2'' ''Beto'' 400],
     counters := [\<lparr>ct_contextId = ''t1'', ct_year = 2026, ct_lastNumber = 1\<rparr>]\<rparr>"

definition sample_reverse :: reverse_dto where
  "sample_reverse = \<lparr>rd_id = ''v1'', rd_reason = '' error '', rd_occurredAt = 1770000500000,
     rd_createdByMemberId = ''m1'', rd_deviceId = ''d1''\<rparr>"

lemma sample_reversed: "created (fst (reverse (\<lambda>s. s) 1770000600000 ana ''G1'' sample_reverse sample_agreed))"
  by code_simp

theorem reverse_frees_exactly_witness:
  "committedInTx sample_agreed ''t1'' ''2026-01-01'' ''2026-02-01'' = (1000, 1)
   \<and> committedInTx (snd (reverse (\<lambda>s. s) 1770000600000 ana ''G1'' sample_reverse sample_agreed))
       ''t1'' ''2026-01-01'' ''2026-02-01'' = (0, 0)"
proof -
  let ?run = "reverse (\<lambda>s. s) 1770000600000 ana ''G1'' sample_reverse sample_agreed"
  obtain r where "fst ?run = Inr (True, r)"
    using sample_reversed by (cases "fst ?run" rule: created.cases) auto
  then have run: "?run = (Inr (True, r), snd ?run)" by (metis prod.collapse)
  have before: "committedInTx sample_agreed ''t1'' ''2026-01-01'' ''2026-02-01'' = (1000, 1)" by code_simp
  have c: "act_contextId ana = ''t1''" by (simp add: ana_def)
  have "distinct (map rid (agreements sample_agreed))" by code_simp
  from reverse_frees_exactly [OF run this] obtain a where
    a: "find_row ''t1'' (toLowerCase ''G1'') (agreements sample_agreed) = Some a"
    and after: "committedInTx (snd ?run) ''t1'' ''2026-01-01'' ''2026-02-01''
      = (if ag_periodFrom a = utc_date ''2026-01-01'' \<and> ag_periodTo a = utc_date ''2026-02-01''
         then (fst (committedInTx sample_agreed ''t1'' ''2026-01-01'' ''2026-02-01'') - ag_distributedMinor a,
               snd (committedInTx sample_agreed ''t1'' ''2026-01-01'' ''2026-02-01'') - 1)
         else committedInTx sample_agreed ''t1'' ''2026-01-01'' ''2026-02-01'')"
    unfolding c by blast
  have "case find_row ''t1'' (toLowerCase ''G1'') (agreements sample_agreed) of None \<Rightarrow> False
    | Some a \<Rightarrow> ag_periodFrom a = utc_date ''2026-01-01'' \<and> ag_periodTo a = utc_date ''2026-02-01'' \<and> ag_distributedMinor a = 1000"
    by code_simp
  with a after before show ?thesis by simp
qed

end
