(* ===== verification/Payments.thy ===== *)
theory Payments
  imports Agreements
begin

text \<open>
  The payments of a distribution agreement (\<open>src/finance/finance-payments.service.ts\<close>) and the summary
  of what each participant has been paid, which is derived on every read
  (\<open>src/finance/finance-payments.summary.ts\<close>). Payments run under READ COMMITTED: the state may move
  between the checks and the row lock of the participant, so the model has a step of the other
  transactions there.
\<close>

section \<open>The summary\<close>

datatype payment_status = UNPAID | PARTIALLY_PAID | PAID | NOT_DUE

fun show_payment_status :: "payment_status \<Rightarrow> string" where
  "show_payment_status UNPAID = ''UNPAID''"
| "show_payment_status PARTIALLY_PAID = ''PARTIALLY_PAID''"
| "show_payment_status PAID = ''PAID''"
| "show_payment_status NOT_DUE = ''NOT_DUE''"

record payment_line =
  pl_memberId :: uuid
  pl_memberName :: string
  pl_agreedMinor :: int
  pl_paidMinor :: int
  pl_paymentCount :: int
  pl_activePaymentCount :: int

record participant_summary =
  ps_memberId :: uuid
  ps_memberName :: string
  ps_agreedMinor :: int
  ps_paidMinor :: int
  ps_pendingMinor :: int
  ps_status :: payment_status

record payment_summary =
  sy_status :: payment_status
  sy_agreedMinor :: int
  sy_paidMinor :: int
  sy_pendingMinor :: int
  sy_hasPayments :: bool
  sy_paymentCount :: int
  sy_activePaymentCount :: int
  sy_participants :: "participant_summary list"

definition participantPaymentStatus :: "int \<Rightarrow> int \<Rightarrow> payment_status result" where
  "participantPaymentStatus agreedMinor paidMinor =
     (if paidMinor > agreedMinor then Inl (Internal ''Participant is overpaid: invariant violated'')
      else if agreedMinor = 0 then Inr NOT_DUE
      else if paidMinor = 0 then Inr UNPAID
      else Inr (if paidMinor = agreedMinor then PAID else PARTIALLY_PAID))"

definition safe_sum :: "int \<Rightarrow> int result" where
  "safe_sum v = (if safe_int v then Inr v else Inl (RangeErr ''Payment sum exceeds the safe integer range''))"

definition buildParticipantSummary :: "payment_line \<Rightarrow> participant_summary result" where
  "buildParticipantSummary line =
     (case participantPaymentStatus (pl_agreedMinor line) (pl_paidMinor line) of Inl e \<Rightarrow> Inl e
      | Inr status \<Rightarrow> Inr \<lparr>ps_memberId = pl_memberId line, ps_memberName = pl_memberName line,
          ps_agreedMinor = pl_agreedMinor line, ps_paidMinor = pl_paidMinor line,
          ps_pendingMinor = pl_agreedMinor line - pl_paidMinor line, ps_status = status\<rparr>)"

text \<open>\<open>lines.map(f)\<close> where \<open>f\<close> may throw.\<close>

fun map_result :: "('a \<Rightarrow> 'b result) \<Rightarrow> 'a list \<Rightarrow> 'b list result" where
  "map_result f [] = Inr []"
| "map_result f (x # xs) =
     (case f x of Inl e \<Rightarrow> Inl e
      | Inr y \<Rightarrow> (case map_result f xs of Inl e \<Rightarrow> Inl e | Inr ys \<Rightarrow> Inr (y # ys)))"

definition overall_status :: "participant_summary list \<Rightarrow> payment_status" where
  "overall_status ps =
     (let due = [p \<leftarrow> ps. ps_agreedMinor p > 0] in
      if due = [] then NOT_DUE
      else if list_all (\<lambda>p. ps_status p = PAID) due then PAID
      else if list_all (\<lambda>p. ps_status p = UNPAID) due then UNPAID
      else PARTIALLY_PAID)"

definition buildPaymentSummary :: "payment_line list \<Rightarrow> payment_summary result" where
  "buildPaymentSummary lines =
     (case map_result buildParticipantSummary lines of Inl e \<Rightarrow> Inl e
      | Inr ps \<Rightarrow>
        let agreed = sum_list (map pl_agreedMinor lines);
            paid = sum_list (map pl_paidMinor lines);
            paymentCount = sum_list (map pl_paymentCount lines) in
        (case safe_sum agreed of Inl e \<Rightarrow> Inl e
         | Inr agreedMinor \<Rightarrow>
           (case safe_sum paid of Inl e \<Rightarrow> Inl e
            | Inr paidMinor \<Rightarrow>
              (case safe_sum (agreed - paid) of Inl e \<Rightarrow> Inl e
               | Inr pendingMinor \<Rightarrow>
                 Inr \<lparr>sy_status = overall_status ps, sy_agreedMinor = agreedMinor,
                      sy_paidMinor = paidMinor, sy_pendingMinor = pendingMinor,
                      sy_hasPayments = paymentCount > 0, sy_paymentCount = paymentCount,
                      sy_activePaymentCount = sum_list (map pl_activePaymentCount lines),
                      sy_participants = ps\<rparr>))))"

text \<open>
  The query of \<open>loadPaymentSummary\<close>: one line per participant, its payments joined, the reversed ones
  filtered out of the sum. A payment has at most one reversal (the column is unique), so the join
  does not repeat rows. \<open>coll\<close> is the collation the database orders names by.
\<close>

definition payments_of :: "db \<Rightarrow> string \<Rightarrow> uuid \<Rightarrow> uuid \<Rightarrow> payment list" where
  "payments_of d c a m =
     [p \<leftarrow> payments d. ctx p = c \<and> py_agreementId p = a \<and> py_participantMemberId p = m]"

definition paid_of :: "db \<Rightarrow> string \<Rightarrow> uuid \<Rightarrow> uuid \<Rightarrow> int" where
  "paid_of d c a m = sum_list (map py_amountMinor [p \<leftarrow> payments_of d c a m. active (paymentReversals d) p])"

definition summary_line :: "db \<Rightarrow> participant \<Rightarrow> payment_line" where
  "summary_line d pt =
     (let ps = payments_of d (pt_contextId pt) (pt_agreementId pt) (pt_memberId pt) in
      \<lparr>pl_memberId = pt_memberId pt, pl_memberName = pt_memberName pt, pl_agreedMinor = pt_totalMinor pt,
       pl_paidMinor = paid_of d (pt_contextId pt) (pt_agreementId pt) (pt_memberId pt),
       pl_paymentCount = int (length ps),
       pl_activePaymentCount = int (length [p \<leftarrow> ps. active (paymentReversals d) p])\<rparr>)"

definition participants_in :: "db \<Rightarrow> string \<Rightarrow> uuid \<Rightarrow> participant list" where
  "participants_in d c a = [pt \<leftarrow> participants d. pt_agreementId pt = a \<and> pt_contextId pt = c]"

definition loadPaymentSummary :: "(string \<Rightarrow> nat list) \<Rightarrow> db \<Rightarrow> string \<Rightarrow> uuid \<Rightarrow> payment_summary result" where
  "loadPaymentSummary coll d c a =
     (let rows = map (summary_line d)
            (sort_key (\<lambda>pt. (coll (pt_memberName pt), pt_memberId pt)) (participants_in d c a)) in
      case map_result (\<lambda>row. safe_sum (pl_paidMinor row)) rows of Inl e \<Rightarrow> Inl e
      | Inr _ \<Rightarrow> buildPaymentSummary rows)"

section \<open>Requests and receipts\<close>

record create_payment_dto =
  cp_id :: uuid
  cp_participantMemberId :: uuid
  cp_amountMinor :: int
  cp_occurredAt :: instant
  cp_note :: "string option"
  cp_createdByMemberId :: uuid
  cp_deviceId :: uuid

text \<open>What the validation pipe accepts of the amount (\<open>CreateDistributionPaymentDto\<close>).\<close>

definition valid_payment_dto :: "create_payment_dto \<Rightarrow> bool" where
  "valid_payment_dto dto \<longleftrightarrow> 1 \<le> cp_amountMinor dto \<and> cp_amountMinor dto \<le> MAX_MINOR_UNITS"

definition normalized_payment :: "create_payment_dto \<Rightarrow> create_payment_dto" where
  "normalized_payment dto = \<lparr>cp_id = toLowerCase (cp_id dto),
     cp_participantMemberId = toLowerCase (cp_participantMemberId dto), cp_amountMinor = cp_amountMinor dto,
     cp_occurredAt = cp_occurredAt dto, cp_note = map_option trim (cp_note dto),
     cp_createdByMemberId = toLowerCase (cp_createdByMemberId dto), cp_deviceId = toLowerCase (cp_deviceId dto)\<rparr>"

definition json_create_payment :: "uuid \<Rightarrow> create_payment_dto \<Rightarrow> (string \<times> jsval) list" where
  "json_create_payment agreementId data =
     [(''id'', JStr (cp_id data)), (''agreementId'', JStr agreementId),
      (''participantMemberId'', JStr (cp_participantMemberId data)), (''amountMinor'', JNum (cp_amountMinor data)),
      (''occurredAt'', JStr (to_iso (cp_occurredAt data))), (''note'', json_option JStr (cp_note data)),
      (''createdByMemberId'', JStr (cp_createdByMemberId data)), (''deviceId'', JStr (cp_deviceId data))]"

definition json_origin :: "uuid \<Rightarrow> string \<Rightarrow> uuid \<Rightarrow> uuid \<Rightarrow> jsval" where
  "json_origin memberId name accountId device =
     JObj [(''memberId'', JStr memberId), (''name'', JStr name), (''accountId'', JStr accountId),
           (''deviceId'', JStr device)]"

definition payment_core :: "actor \<Rightarrow> uuid \<Rightarrow> create_payment_dto \<Rightarrow> string \<Rightarrow> string \<Rightarrow> string \<Rightarrow> instant \<Rightarrow> (string \<times> jsval) list" where
  "payment_core actor agreementId data participantName currency memberName now =
     [(''id'', JStr (cp_id data)), (''contextId'', JStr (act_contextId actor)), (''agreementId'', JStr agreementId),
      (''participantMemberId'', JStr (cp_participantMemberId data)), (''participantName'', JStr participantName),
      (''amountMinor'', JNum (cp_amountMinor data)), (''currency'', JStr currency),
      (''occurredAt'', JStr (to_iso (cp_occurredAt data))), (''receivedAt'', JStr (to_iso now)),
      (''note'', json_option JStr (cp_note data)),
      (''createdBy'', json_origin (cp_createdByMemberId data) memberName (act_accountId actor) (cp_deviceId data))]"

definition payment_reversal_core :: "actor \<Rightarrow> uuid \<Rightarrow> reverse_dto \<Rightarrow> string \<Rightarrow> instant \<Rightarrow> jsval" where
  "payment_reversal_core actor paymentId data memberName now =
     JObj [(''id'', JStr (rd_id data)), (''paymentId'', JStr paymentId), (''reason'', JStr (rd_reason data)),
      (''occurredAt'', JStr (to_iso (rd_occurredAt data))), (''receivedAt'', JStr (to_iso now)),
      (''createdBy'', json_origin (rd_createdByMemberId data) memberName (act_accountId actor) (rd_deviceId data))]"

text \<open>The frozen core overlaid with the live status; \<open>paymentId\<close> is taken out of the reversal.\<close>

definition livePayment :: "db \<Rightarrow> payment \<Rightarrow> (string \<times> jsval) list" where
  "livePayment d p =
     (let rv = reversal_of (paymentReversals d) p in
      set_field ''reversal''
        (case rv of None \<Rightarrow> JNull
         | Some v \<Rightarrow> JObj [f \<leftarrow> fields_of (f_creationResponse v). fst f \<noteq> ''paymentId''])
       (set_field ''status'' (JStr (if rv = None then ''active'' else ''voided''))
         (fields_of (f_creationResponse p))))"

record payment_receipt =
  rc_payment :: "(string \<times> jsval) list"
  rc_participantSummary :: "participant_summary option"
  rc_paymentSummary :: payment_summary

text \<open>The value of a text field of a stored receipt.\<close>

definition text_field :: "string \<Rightarrow> (string \<times> jsval) list \<Rightarrow> string" where
  "text_field k fs = (case map_of fs k of Some (JStr s) \<Rightarrow> s | _ \<Rightarrow> [])"

definition payment_receipt_of :: "(string \<Rightarrow> nat list) \<Rightarrow> db \<Rightarrow> payment \<Rightarrow> payment_receipt result" where
  "payment_receipt_of coll d p =
     (let payment = livePayment d p in
      case loadPaymentSummary coll d (text_field ''contextId'' payment) (text_field ''agreementId'' payment) of
        Inl e \<Rightarrow> Inl e
      | Inr summary \<Rightarrow>
          Inr \<lparr>rc_payment = payment,
               rc_participantSummary =
                 find (\<lambda>s. ps_memberId s = text_field ''participantMemberId'' payment) (sy_participants summary),
               rc_paymentSummary = summary\<rparr>)"

section \<open>Creation\<close>

definition find_participant :: "db \<Rightarrow> string \<Rightarrow> uuid \<Rightarrow> uuid \<Rightarrow> participant option" where
  "find_participant d c a m =
     find (\<lambda>pt. pt_agreementId pt = a \<and> pt_memberId pt = m \<and> pt_contextId pt = c) (participants d)"

text \<open>
  \<open>createInTx\<close> up to the row lock: a replay is answered, otherwise it returns the acting member's name,
  the agreement and the participant it read.
\<close>

definition payment_checks ::
  "(string \<Rightarrow> nat list) \<Rightarrow> actor \<Rightarrow> uuid \<Rightarrow> create_payment_dto \<Rightarrow> string \<Rightarrow> db
    \<Rightarrow> (payment_receipt + (string \<times> agreement \<times> participant)) result"
where
  "payment_checks coll actor agreementId data requestFp d =
     (let c = act_contextId actor in
      case authorize_socio d actor of Inl e \<Rightarrow> Inl e
      | Inr memberName \<Rightarrow>
       (case find_row c (cp_id data) (payments d) of
          Some existing \<Rightarrow>
            if f_requestFingerprint existing \<noteq> requestFp then Inl (Conflict ''FINANCE_PAYMENT_ID_CONFLICT'')
            else (case payment_receipt_of coll d existing of Inl e \<Rightarrow> Inl e | Inr r \<Rightarrow> Inr (Inl r))
        | None \<Rightarrow>
           (case find_row c agreementId (agreements d) of
              None \<Rightarrow> Inl (NotFound ''Agreement not found'')
            | Some agreement \<Rightarrow>
                if \<exists>v \<in> set (agreementReversals d). rev_target v = agreementId \<and> ctx v = c
                then Inl (Conflict ''FINANCE_PAYMENT_AGREEMENT_VOIDED'')
                else (case find_participant d c agreementId (cp_participantMemberId data) of
                        None \<Rightarrow> Inl (NotFound ''Agreement not found'')
                      | Some participant \<Rightarrow>
                          if pt_totalMinor participant = 0 then Inl (Unprocessable ''FINANCE_PAYMENT_NOTHING_AGREED'')
                          else Inr (Inr (memberName, agreement, participant))))))"

definition payment_row ::
  "actor \<Rightarrow> uuid \<Rightarrow> create_payment_dto \<Rightarrow> string \<Rightarrow> instant \<Rightarrow> string \<Rightarrow> (string \<times> jsval) list \<Rightarrow> payment"
where
  "payment_row actor agreementId data currency now requestFp core =
     \<lparr>rid = cp_id data, ctx = act_contextId actor, f_occurredAt = cp_occurredAt data, f_receivedAt = now,
      f_createdByMemberId = cp_createdByMemberId data, f_createdByAccountId = act_accountId actor,
      f_deviceId = cp_deviceId data, f_requestFingerprint = requestFp, f_creationResponse = JObj core,
      py_agreementId = agreementId, py_participantMemberId = cp_participantMemberId data,
      py_amountMinor = cp_amountMinor data, py_currency = currency, py_note = cp_note data\<rparr>"

text \<open>\<open>createInTx\<close> from the row lock on, in the state committed when the lock was granted.\<close>

definition payment_write ::
  "(string \<Rightarrow> nat list) \<Rightarrow> instant \<Rightarrow> actor \<Rightarrow> uuid \<Rightarrow> create_payment_dto \<Rightarrow> string \<Rightarrow> string \<times> agreement \<times> participant
    \<Rightarrow> db \<Rightarrow> (payment_receipt \<times> db) result"
where
  "payment_write coll now actor agreementId data requestFp read d =
     (let (memberName, agreement, participant) = read; c = act_contextId actor in
      if cp_occurredAt data < f_occurredAt agreement \<or> cp_occurredAt data > now
      then Inl (Unprocessable ''FINANCE_PAYMENT_TIME_INVALID'')
      else if paid_of d c agreementId (cp_participantMemberId data) + cp_amountMinor data > pt_totalMinor participant
      then Inl (Unprocessable ''FINANCE_PAYMENT_EXCEEDS_PENDING'')
      else
        let core = payment_core actor agreementId data (pt_memberName participant) (ag_currency agreement) memberName now in
        (case insert_row ''DistributionPayment''
                (payment_row actor agreementId data (ag_currency agreement) now requestFp core) (payments d) of
           Inl e \<Rightarrow> Inl e
         | Inr payments' \<Rightarrow>
             let d' = d\<lparr>payments := payments'\<rparr> in
             (case loadPaymentSummary coll d' c agreementId of Inl e \<Rightarrow> Inl e
              | Inr summary \<Rightarrow>
                  Inr (\<lparr>rc_payment = core @ [(''status'', JStr ''active''), (''reversal'', JNull)],
                        rc_participantSummary =
                          find (\<lambda>s. ps_memberId s = cp_participantMemberId data) (sy_participants summary),
                        rc_paymentSummary = summary\<rparr>, d'))))"

text \<open>\<open>w\<close> is what the other transactions commit while this one waits for the row lock.\<close>

definition create_payment_tx ::
  "(string \<Rightarrow> nat list) \<Rightarrow> (db \<Rightarrow> db) \<Rightarrow> instant \<Rightarrow> actor \<Rightarrow> uuid \<Rightarrow> create_payment_dto \<Rightarrow> string \<Rightarrow> db
    \<Rightarrow> (bool \<times> payment_receipt) result \<times> db"
where
  "create_payment_tx coll w now actor agreementId data requestFp =
     locked_tx (payment_checks coll actor agreementId data requestFp) w
       (payment_write coll now actor agreementId data requestFp)"

definition payment_conflict :: "failure \<Rightarrow> failure" where
  "payment_conflict e = (if isUniqueViolation e then Conflict ''FINANCE_PAYMENT_ID_CONFLICT'' else e)"

definition createPayment ::
  "(string \<Rightarrow> string) \<Rightarrow> (string \<Rightarrow> nat list) \<Rightarrow> (db \<Rightarrow> db) \<Rightarrow> instant \<Rightarrow> actor \<Rightarrow> uuid \<Rightarrow> create_payment_dto \<Rightarrow> db
    \<Rightarrow> (bool \<times> payment_receipt) result \<times> db"
where
  "createPayment H coll w now actor agreementId dto d =
     (case assertOrigin actor (cp_createdByMemberId dto) (cp_deviceId dto) of Inl e \<Rightarrow> (Inl e, d)
      | Inr _ \<Rightarrow>
        let data = normalized_payment dto; target = toLowerCase agreementId in
        (case operation_digest H actor ''payment:create'' (json_create_payment target data) of Inl e \<Rightarrow> (Inl e, d)
         | Inr requestFp \<Rightarrow>
            (case create_payment_tx coll w now actor target data requestFp d of
               (Inl e, d') \<Rightarrow> (Inl (payment_conflict e), d')
             | (Inr x, d') \<Rightarrow> (Inr x, d'))))"

section \<open>Reversal\<close>

text \<open>Up to the row locks: a replay is answered from the payment its reversal names.\<close>

definition payment_reversal_checks ::
  "(string \<Rightarrow> nat list) \<Rightarrow> actor \<Rightarrow> uuid \<Rightarrow> reverse_dto \<Rightarrow> string \<Rightarrow> db \<Rightarrow> (payment_receipt + (string \<times> payment)) result"
where
  "payment_reversal_checks coll actor targetId data requestFp d =
     (let c = act_contextId actor in
      case authorize_socio d actor of Inl e \<Rightarrow> Inl e
      | Inr memberName \<Rightarrow>
       (case find_row c (rd_id data) (paymentReversals d) of
          Some existing \<Rightarrow>
            if f_requestFingerprint existing \<noteq> requestFp then Inl (Conflict ''FINANCE_PAYMENT_ID_CONFLICT'')
            else (case find_row c (rev_target existing) (payments d) of
                    None \<Rightarrow> Inl (Internal ''P2025'')
                  | Some p \<Rightarrow> (case payment_receipt_of coll d p of Inl e \<Rightarrow> Inl e | Inr r \<Rightarrow> Inr (Inl r)))
        | None \<Rightarrow>
           (case find_row c targetId (payments d) of
              None \<Rightarrow> Inl (NotFound ''Payment not found'')
            | Some target \<Rightarrow> Inr (Inr (memberName, target)))))"

definition payment_reversal_write ::
  "(string \<Rightarrow> nat list) \<Rightarrow> instant \<Rightarrow> actor \<Rightarrow> uuid \<Rightarrow> reverse_dto \<Rightarrow> string \<Rightarrow> string \<times> payment \<Rightarrow> db
    \<Rightarrow> (payment_receipt \<times> db) result"
where
  "payment_reversal_write coll now actor targetId data requestFp read d =
     (let (memberName, target) = read; c = act_contextId actor in
      if \<exists>v \<in> set (paymentReversals d). rev_target v = targetId \<and> ctx v = c
      then Inl (Conflict ''FINANCE_PAYMENT_ALREADY_VOIDED'')
      else if rd_occurredAt data < f_occurredAt target \<or> rd_occurredAt data > now
      then Inl (Unprocessable ''FINANCE_PAYMENT_REVERSAL_TIME_INVALID'')
      else
        (case insert_reversal ''DistributionPaymentReversal''
                (reversal_row actor targetId data now requestFp (payment_reversal_core actor targetId data memberName now))
                (paymentReversals d) of
           Inl e \<Rightarrow> Inl e
         | Inr revs \<Rightarrow>
             let d' = d\<lparr>paymentReversals := revs\<rparr> in
             (case find_row c targetId (payments d') of
                None \<Rightarrow> Inl (Internal ''P2025'')
              | Some p \<Rightarrow> (case payment_receipt_of coll d' p of Inl e \<Rightarrow> Inl e | Inr r \<Rightarrow> Inr (r, d')))))"

definition reverse_payment_tx ::
  "(string \<Rightarrow> nat list) \<Rightarrow> (db \<Rightarrow> db) \<Rightarrow> instant \<Rightarrow> actor \<Rightarrow> uuid \<Rightarrow> reverse_dto \<Rightarrow> string \<Rightarrow> db
    \<Rightarrow> (bool \<times> payment_receipt) result \<times> db"
where
  "reverse_payment_tx coll w now actor targetId data requestFp =
     locked_tx (payment_reversal_checks coll actor targetId data requestFp) w
       (payment_reversal_write coll now actor targetId data requestFp)"

definition reversePayment ::
  "(string \<Rightarrow> string) \<Rightarrow> (string \<Rightarrow> nat list) \<Rightarrow> (db \<Rightarrow> db) \<Rightarrow> instant \<Rightarrow> actor \<Rightarrow> uuid \<Rightarrow> reverse_dto \<Rightarrow> db
    \<Rightarrow> (bool \<times> payment_receipt) result \<times> db"
where
  "reversePayment H coll w now actor paymentId dto d =
     (case assertOrigin actor (rd_createdByMemberId dto) (rd_deviceId dto) of Inl e \<Rightarrow> (Inl e, d)
      | Inr _ \<Rightarrow>
        let data = normalized_reverse dto; target = toLowerCase paymentId in
        (case operation_digest H actor ''payment:reverse'' (json_reverse ''paymentId'' target data) of
           Inl e \<Rightarrow> (Inl e, d)
         | Inr requestFp \<Rightarrow>
            (case reverse_payment_tx coll w now actor target data requestFp d of
               (Inl e, d') \<Rightarrow> (Inl (payment_conflict e), d')
             | (Inr x, d') \<Rightarrow> (Inr x, d'))))"

section \<open>Reading\<close>

definition findPayment :: "db \<Rightarrow> string \<Rightarrow> uuid \<Rightarrow> (string \<times> jsval) list result" where
  "findPayment d c i =
     (case find_row c (toLowerCase i) (payments d) of
        None \<Rightarrow> Inl (NotFound ''Payment not found'')
      | Some p \<Rightarrow> Inr (livePayment d p))"

text \<open>Newest first: by the time of the payment, of its arrival and by id.\<close>

definition listPayments ::
  "(string \<Rightarrow> nat list) \<Rightarrow> db \<Rightarrow> string \<Rightarrow> uuid \<Rightarrow> ((string \<times> jsval) list list \<times> payment_summary) result"
where
  "listPayments coll d c agreementId =
     (case find_row c (toLowerCase agreementId) (agreements d) of
        None \<Rightarrow> Inl (NotFound ''Agreement not found'')
      | Some a \<Rightarrow>
        let rows = rev (sort_key (\<lambda>p. (f_occurredAt p, f_receivedAt p, rid p))
              [p \<leftarrow> payments d. py_agreementId p = rid a \<and> ctx p = c]) in
        (case loadPaymentSummary coll d c (rid a) of Inl e \<Rightarrow> Inl e
         | Inr summary \<Rightarrow> Inr (map (livePayment d) rows, summary)))"

text \<open>\<open>FinanceAgreementsService.findOne\<close>: the document with its live status and what has been paid.\<close>

definition findAgreement :: "(string \<Rightarrow> nat list) \<Rightarrow> db \<Rightarrow> string \<Rightarrow> uuid \<Rightarrow> (jsval \<times> payment_summary) result" where
  "findAgreement coll d c i =
     (case find_row c (toLowerCase i) (agreements d) of
        None \<Rightarrow> Inl (NotFound ''Agreement not found'')
      | Some a \<Rightarrow>
          (case loadPaymentSummary coll d c (toLowerCase i) of Inl e \<Rightarrow> Inl e
           | Inr summary \<Rightarrow> Inr (liveDocument d a, summary)))"

end
