(* ===== verification/PaymentLaws.thy ===== *)
theory PaymentLaws
  imports Payments AgreementLaws
begin

text \<open>
  What the payments promise: nobody is ever paid more than was agreed, under any interleaving of the
  payments of one participant; the summary of an agreement can therefore always be built and its
  figures add up; a reversal gives back exactly one payment; a payment or a reversal sent twice is
  executed once.
\<close>

section \<open>The invariant\<close>

text \<open>
  The keys of the two tables, the foreign key of a payment, the sign of the amounts, what fits in
  the columns and, the point of it all, that nobody is paid more than was agreed.
\<close>

definition participant_key :: "participant \<Rightarrow> uuid \<times> uuid" where
  "participant_key pt = (pt_agreementId pt, pt_memberId pt)"

definition payment_key :: "payment \<Rightarrow> uuid \<times> uuid" where
  "payment_key p = (py_agreementId p, py_participantMemberId p)"

definition agreed_ok :: "db \<Rightarrow> bool" where
  "agreed_ok d \<longleftrightarrow> distinct (map participant_key (participants d))
     \<and> (\<forall>pt \<in> set (participants d). 0 \<le> pt_totalMinor pt
          \<and> sum_list (map pt_totalMinor (participants_in d (pt_contextId pt) (pt_agreementId pt))) \<le> MAX_MINOR_UNITS)"

definition paid_ok :: "db \<Rightarrow> bool" where
  "paid_ok d \<longleftrightarrow> distinct (map rid (payments d))
     \<and> (\<forall>p \<in> set (payments d). 1 \<le> py_amountMinor p
          \<and> (\<exists>pt \<in> set (participants d). participant_key pt = payment_key p \<and> pt_contextId pt = ctx p))
     \<and> (\<forall>pt \<in> set (participants d).
          paid_of d (pt_contextId pt) (pt_agreementId pt) (pt_memberId pt) \<le> pt_totalMinor pt)"

lemma paid_of_alt:
  "paid_of d c a m = sum_list (map py_amountMinor
     [p \<leftarrow> payments d. (ctx p = c \<and> payment_key p = (a, m)) \<and> active (paymentReversals d) p])"
  by (simp add: paid_of_def payments_of_def payment_key_def)

lemma paid_nonneg: "\<forall>p \<in> set (payments d). 1 \<le> py_amountMinor p \<Longrightarrow> 0 \<le> paid_of d c a m"
  unfolding paid_of_alt by (rule sum_list_int_nonneg) force

lemma paid_of_append:
  assumes "payments d' = payments d @ [p]" "paymentReversals d' = paymentReversals d" "0 \<le> py_amountMinor p"
  shows "paid_of d' c a m \<le> paid_of d c a m + (if ctx p = c \<and> payment_key p = (a, m) then py_amountMinor p else 0)"
  using assms by (simp add: paid_of_alt)

lemma payment_write_Inr:
  assumes "payment_write coll now actor a data fp (name, g, pt) d = Inr (r, d')"
  obtains core where
    "f_occurredAt g \<le> cp_occurredAt data" "cp_occurredAt data \<le> now"
    "paid_of d (act_contextId actor) a (cp_participantMemberId data) + cp_amountMinor data \<le> pt_totalMinor pt"
    "d' = d\<lparr>payments := payments d @ [payment_row actor a data (ag_currency g) now fp core]\<rparr>"
    "cp_id data \<notin> rid ` set (payments d)"
    "core = payment_core actor a data (pt_memberName pt) (ag_currency g) name now"
    "loadPaymentSummary coll d' (act_contextId actor) a = Inr (rc_paymentSummary r)"
    "rc_payment r = core @ [(''status'', JStr ''active''), (''reversal'', JNull)]"
    "rc_participantSummary r = find (\<lambda>s. ps_memberId s = cp_participantMemberId data) (sy_participants (rc_paymentSummary r))"
  using assms unfolding payment_write_def Let_def
  by (auto simp: insert_row_def payment_row_def split: if_splits sum.splits)

lemma payment_checks_read:
  assumes "payment_checks coll actor a data fp d = Inr (Inr (name, g, pt))"
  shows "is_ok (authorize_socio d actor) \<and> find_row (act_contextId actor) (cp_id data) (payments d) = None
    \<and> find_row (act_contextId actor) a (agreements d) = Some g \<and> active (agreementReversals d) g
    \<and> pt \<in> set (participants d) \<and> pt_agreementId pt = a \<and> pt_memberId pt = cp_participantMemberId data
    \<and> pt_contextId pt = act_contextId actor \<and> pt_totalMinor pt \<noteq> 0"
  using assms unfolding payment_checks_def Let_def
  by (auto simp: active_iff find_participant_def dest!: find_Some_set find_row_Some
      split: sum.splits option.splits if_splits)

lemma payment_row_simps [simp]:
  "rid (payment_row actor a data cur now fp core) = cp_id data"
  "ctx (payment_row actor a data cur now fp core) = act_contextId actor"
  "f_requestFingerprint (payment_row actor a data cur now fp core) = fp"
  "f_creationResponse (payment_row actor a data cur now fp core) = JObj core"
  "py_amountMinor (payment_row actor a data cur now fp core) = cp_amountMinor data"
  "py_agreementId (payment_row actor a data cur now fp core) = a"
  "payment_key (payment_row actor a data cur now fp core) = (a, cp_participantMemberId data)"
  by (simp_all add: payment_row_def payment_key_def)

text \<open>The check under the row lock keeps everybody within what was agreed.\<close>

lemma payment_write_paid_ok:
  assumes "payment_write coll now actor a data fp (name, g, pt) d = Inr (r, d')" "paid_ok d" "agreed_ok d"
    and pt: "pt \<in> set (participants d)" "pt_agreementId pt = a" "pt_memberId pt = cp_participantMemberId data"
      "pt_contextId pt = act_contextId actor" and amount: "1 \<le> cp_amountMinor data"
  shows "paid_ok d'"
  using assms(1)
proof (rule payment_write_Inr)
  fix core
  let ?p = "payment_row actor a data (ag_currency g) now fp core"
  assume fits: "paid_of d (act_contextId actor) a (cp_participantMemberId data) + cp_amountMinor data \<le> pt_totalMinor pt"
    and d': "d' = d\<lparr>payments := payments d @ [?p]\<rparr>" and fresh: "cp_id data \<notin> rid ` set (payments d)"
  have key: "participant_key pt = (a, cp_participantMemberId data)" using pt by (simp add: participant_key_def)
  have "paid_of d' (pt_contextId q) (pt_agreementId q) (pt_memberId q) \<le> pt_totalMinor q" if q: "q \<in> set (participants d)" for q
  proof -
    have old: "paid_of d (pt_contextId q) (pt_agreementId q) (pt_memberId q) \<le> pt_totalMinor q"
      using assms(2) q by (simp add: paid_ok_def)
    have new: "paid_of d' (pt_contextId q) (pt_agreementId q) (pt_memberId q)
        \<le> paid_of d (pt_contextId q) (pt_agreementId q) (pt_memberId q)
          + (if ctx ?p = pt_contextId q \<and> payment_key ?p = (pt_agreementId q, pt_memberId q) then py_amountMinor ?p else 0)"
      by (rule paid_of_append) (use amount in \<open>simp_all add: d'\<close>)
    show ?thesis
    proof (cases "participant_key q = participant_key pt")
      case True
      then have "q = pt" using assms(3) q pt(1) by (metis agreed_ok_def distinct_map inj_onD)
      with fits new pt key show ?thesis by auto
    next
      case False
      then show ?thesis using old new key by (auto simp: participant_key_def split: if_splits)
    qed
  qed
  moreover have "\<exists>q \<in> set (participants d). participant_key q = payment_key ?p \<and> pt_contextId q = ctx ?p"
    using pt key by auto
  ultimately show ?thesis
    using assms(2) fresh amount by (auto simp: paid_ok_def d')
qed

definition payment_print :: "(string \<Rightarrow> string) \<Rightarrow> actor \<Rightarrow> uuid \<Rightarrow> create_payment_dto \<Rightarrow> string" where
  "payment_print H actor agreementId dto =
     projr (operation_digest H actor ''payment:create'' (json_create_payment (toLowerCase agreementId) (normalized_payment dto)))"

lemma payment_digest:
  "operation_digest H actor ''payment:create'' (json_create_payment (toLowerCase agreementId) (normalized_payment dto))
   = Inr (payment_print H actor agreementId dto)"
  unfolding payment_print_def
  by (rule operation_digest_ok) (auto simp: json_create_payment_def json_option_def split: option.splits)

definition payment_origin :: "actor \<Rightarrow> create_payment_dto \<Rightarrow> bool" where
  "payment_origin actor dto \<longleftrightarrow> assertOrigin actor (cp_createdByMemberId dto) (cp_deviceId dto) = Inr ()"

lemma createPayment_refused:
  "\<not> payment_origin actor dto \<Longrightarrow> createPayment H coll w now actor agreementId dto d = (Inl Forbidden, d)"
  unfolding payment_origin_def
  by (cases rule: assertOrigin_cases [of actor "cp_createdByMemberId dto" "cp_deviceId dto"])
    (simp_all add: createPayment_def)

lemma createPayment_eq:
  assumes "payment_origin actor dto"
  shows "createPayment H coll w now actor agreementId dto d =
    (case create_payment_tx coll w now actor (toLowerCase agreementId) (normalized_payment dto)
            (payment_print H actor agreementId dto) d of
       (Inl e, d') \<Rightarrow> (Inl (payment_conflict e), d')
     | (Inr x, d') \<Rightarrow> (Inr x, d'))"
  using assms unfolding createPayment_def Let_def payment_digest payment_origin_def by simp

lemma createPayment_cases:
  assumes "createPayment H coll w now actor agreementId dto d = (out, d')"
  obtains (error) e where "out = Inl e" "d' = d \<or> d' = w d"
  | (replay) r where "payment_origin actor dto" "out = Inr (False, r)" "d' = d"
      "payment_checks coll actor (toLowerCase agreementId) (normalized_payment dto)
         (payment_print H actor agreementId dto) d = Inr (Inl r)"
  | (written) name g pt r where "payment_origin actor dto" "out = Inr (True, r)"
      "payment_checks coll actor (toLowerCase agreementId) (normalized_payment dto)
         (payment_print H actor agreementId dto) d = Inr (Inr (name, g, pt))"
      "payment_write coll now actor (toLowerCase agreementId) (normalized_payment dto)
         (payment_print H actor agreementId dto) (name, g, pt) (w d) = Inr (r, d')"
proof (cases "payment_origin actor dto")
  case False
  with assms error [of Forbidden] show thesis by (auto simp: createPayment_refused)
next
  case True
  obtain out' s where tx: "create_payment_tx coll w now actor (toLowerCase agreementId) (normalized_payment dto)
      (payment_print H actor agreementId dto) d = (out', s)" by fastforce
  with assms True have out: "out = (case out' of Inl e \<Rightarrow> Inl (payment_conflict e) | Inr x \<Rightarrow> Inr x)" "s = d'"
    by (auto simp: createPayment_eq split: sum.splits)
  from tx [unfolded create_payment_tx_def] show thesis
  proof (cases rule: locked_tx_cases)
    case (replay r)
    with True out that(2) show thesis by simp
  next
    case (committed x r)
    moreover obtain name g pt where "x = (name, g, pt)" by (cases x)
    ultimately show thesis using True out that(3) by simp
  qed (use out error in auto)
qed

text \<open>C1: no interleaving pays anybody more than was agreed. Between the checks of a payment and the row lock
  the other transactions may commit whatever keeps the invariant and keeps the participants that were
  read; the balance is read under the lock, so the invariant still holds when the payment is written.\<close>

theorem createPayment_never_overpays:
  assumes "createPayment H coll w now actor agreementId dto d = (out, d')" "valid_payment_dto dto"
    and "paid_ok d" "paid_ok (w d)" "agreed_ok (w d)" "set (participants d) \<subseteq> set (participants (w d))"
  shows "paid_ok d'"
  using assms(1)
proof (cases rule: createPayment_cases)
  case (written name g pt r)
  from payment_checks_read [OF written(3)] assms(6)
  have "pt \<in> set (participants (w d))" "pt_agreementId pt = toLowerCase agreementId"
    "pt_memberId pt = cp_participantMemberId (normalized_payment dto)" "pt_contextId pt = act_contextId actor" by auto
  moreover have "1 \<le> cp_amountMinor (normalized_payment dto)"
    using assms(2) by (simp add: valid_payment_dto_def normalized_payment_def)
  ultimately show ?thesis using payment_write_paid_ok [OF written(4) assms(4,5)] by blast
qed (use assms in auto)

definition sample_payment :: create_payment_dto where
  "sample_payment = \<lparr>cp_id = ''P1'', cp_participantMemberId = ''m1'', cp_amountMinor = 250,
     cp_occurredAt = 1770000100000, cp_note = Some '' anticipo '', cp_createdByMemberId = ''m1'', cp_deviceId = ''d1''\<rparr>"

lemma createPayment_never_overpays_witness:
  "let d' = snd (createPayment (\<lambda>s. s) (\<lambda>_. []) (\<lambda>d. d) 1770000200000 ana ''g1'' sample_payment sample_agreed) in
   paid_ok d' \<and> paid_of d' ''t1'' ''g1'' ''m1'' = 250"
proof -
  let ?run = "createPayment (\<lambda>s. s) (\<lambda>_. []) (\<lambda>d. d) 1770000200000 ana ''g1'' sample_payment sample_agreed"
  have "valid_payment_dto sample_payment" "paid_ok sample_agreed" "agreed_ok sample_agreed" by code_simp+
  from createPayment_never_overpays [where w = "\<lambda>d. d", OF prod.collapse [symmetric, of ?run] this(1,2,2,3)]
  have "paid_ok (snd ?run)" by simp
  moreover have "paid_of (snd ?run) ''t1'' ''g1'' ''m1'' = 250" by code_simp
  ultimately show ?thesis by (simp add: Let_def)
qed

section \<open>The summary\<close>

lemma map_result_ok:
  assumes "\<And>x. x \<in> set xs \<Longrightarrow> is_ok (f x)"
  shows "map_result f xs = Inr (map (\<lambda>x. projr (f x)) xs)"
  using assms
proof (induction xs)
  case (Cons x xs)
  then have "f x = Inr (projr (f x))" by (intro is_ok_projr) simp
  with Cons show ?case by (cases "f x") simp_all
qed simp

definition line_within :: "payment_line \<Rightarrow> bool" where
  "line_within l \<longleftrightarrow> 0 \<le> pl_paidMinor l \<and> pl_paidMinor l \<le> pl_agreedMinor l"

definition line_status :: "payment_line \<Rightarrow> payment_status" where
  "line_status l = (if pl_agreedMinor l = 0 then NOT_DUE else if pl_paidMinor l = 0 then UNPAID
     else if pl_paidMinor l = pl_agreedMinor l then PAID else PARTIALLY_PAID)"

definition participant_line :: "payment_line \<Rightarrow> participant_summary" where
  "participant_line l = \<lparr>ps_memberId = pl_memberId l, ps_memberName = pl_memberName l,
     ps_agreedMinor = pl_agreedMinor l, ps_paidMinor = pl_paidMinor l,
     ps_pendingMinor = pl_agreedMinor l - pl_paidMinor l, ps_status = line_status l\<rparr>"

lemma buildParticipantSummary_within: "line_within l \<Longrightarrow> buildParticipantSummary l = Inr (participant_line l)"
  by (auto simp: buildParticipantSummary_def participantPaymentStatus_def line_within_def participant_line_def
      line_status_def)

lemma sums_within:
  assumes "\<forall>l \<in> set ls. line_within l"
  shows "0 \<le> sum_list (map pl_paidMinor ls) \<and> sum_list (map pl_paidMinor ls) \<le> sum_list (map pl_agreedMinor ls)
    \<and> (sum_list (map pl_paidMinor ls) = sum_list (map pl_agreedMinor ls) \<longleftrightarrow> (\<forall>l \<in> set ls. pl_paidMinor l = pl_agreedMinor l))
    \<and> (sum_list (map pl_paidMinor ls) = 0 \<longleftrightarrow> (\<forall>l \<in> set ls. pl_paidMinor l = 0))
    \<and> (sum_list (map pl_agreedMinor ls) = 0 \<longleftrightarrow> (\<forall>l \<in> set ls. pl_agreedMinor l = 0))"
  using assms by (induction ls) (auto simp: line_within_def)

text \<open>The status of the whole follows from the sums.\<close>

lemma overall_status_sums:
  assumes "\<forall>l \<in> set ls. line_within l"
  shows "overall_status (map participant_line ls) =
    (if sum_list (map pl_agreedMinor ls) = 0 then NOT_DUE
     else if sum_list (map pl_paidMinor ls) = sum_list (map pl_agreedMinor ls) then PAID
     else if sum_list (map pl_paidMinor ls) = 0 then UNPAID else PARTIALLY_PAID)"
proof -
  let ?due = "[p \<leftarrow> map participant_line ls. ps_agreedMinor p > 0]"
  have each: "(0 < pl_agreedMinor l \<longrightarrow> line_status l = PAID) \<longleftrightarrow> pl_paidMinor l = pl_agreedMinor l"
    "(0 < pl_agreedMinor l \<longrightarrow> line_status l = UNPAID) \<longleftrightarrow> pl_paidMinor l = 0"
    "\<not> 0 < pl_agreedMinor l \<longleftrightarrow> pl_agreedMinor l = 0" if "l \<in> set ls" for l
    using assms that by (auto simp: line_status_def line_within_def)
  have due: "list_all P ?due \<longleftrightarrow> (\<forall>l \<in> set ls. 0 < pl_agreedMinor l \<longrightarrow> P (participant_line l))" for P
    by (auto simp: list_all_iff participant_line_def)
  have "?due = [] \<longleftrightarrow> (\<forall>l \<in> set ls. \<not> 0 < pl_agreedMinor l)"
    by (auto simp: filter_empty_conv participant_line_def)
  then have none: "?due = [] \<longleftrightarrow> (\<forall>l \<in> set ls. pl_agreedMinor l = 0)" using each(3) by metis
  have status: "ps_status (participant_line l) = line_status l" for l by (simp add: participant_line_def)
  have all_paid: "list_all (\<lambda>p. ps_status p = PAID) ?due \<longleftrightarrow> (\<forall>l \<in> set ls. pl_paidMinor l = pl_agreedMinor l)"
    unfolding due status using each(1) by metis
  have all_unpaid: "list_all (\<lambda>p. ps_status p = UNPAID) ?due \<longleftrightarrow> (\<forall>l \<in> set ls. pl_paidMinor l = 0)"
    unfolding due status using each(2) by metis
  note sums = sums_within [OF assms]
  have "(\<forall>l \<in> set ls. pl_agreedMinor l = 0) \<longleftrightarrow> sum_list (map pl_agreedMinor ls) = 0"
    "(\<forall>l \<in> set ls. pl_paidMinor l = pl_agreedMinor l) \<longleftrightarrow> sum_list (map pl_paidMinor ls) = sum_list (map pl_agreedMinor ls)"
    "(\<forall>l \<in> set ls. pl_paidMinor l = 0) \<longleftrightarrow> sum_list (map pl_paidMinor ls) = 0"
    using sums by blast+
  then show ?thesis unfolding overall_status_def Let_def none all_paid all_unpaid by simp
qed

lemma buildPaymentSummary_within:
  assumes "\<forall>l \<in> set ls. line_within l" "sum_list (map pl_agreedMinor ls) \<le> MAX_SAFE_INTEGER"
  shows "buildPaymentSummary ls = Inr \<lparr>sy_status = overall_status (map participant_line ls),
     sy_agreedMinor = sum_list (map pl_agreedMinor ls), sy_paidMinor = sum_list (map pl_paidMinor ls),
     sy_pendingMinor = sum_list (map pl_agreedMinor ls) - sum_list (map pl_paidMinor ls),
     sy_hasPayments = sum_list (map pl_paymentCount ls) > 0, sy_paymentCount = sum_list (map pl_paymentCount ls),
     sy_activePaymentCount = sum_list (map pl_activePaymentCount ls), sy_participants = map participant_line ls\<rparr>"
proof -
  have "map_result buildParticipantSummary ls = Inr (map participant_line ls)"
    using assms(1) by (subst map_result_ok) (auto simp: buildParticipantSummary_within)
  moreover have "safe_int v" if "0 \<le> v" "v \<le> sum_list (map pl_agreedMinor ls)" for v
    using that assms(2) by (simp add: safe_int_def)
  ultimately show ?thesis
    using sums_within [OF assms(1)] by (simp add: buildPaymentSummary_def safe_sum_def Let_def)
qed

text \<open>The money a participant was paid is the money of the payments of the agreement, each counted once.\<close>

lemma paid_by_participant:
  assumes "paid_ok d" "agreed_ok d"
  shows "sum_list (map (\<lambda>pt. paid_of d c a (pt_memberId pt)) (participants_in d c a))
    = sum_list (map py_amountMinor [p \<leftarrow> payments d. (ctx p = c \<and> py_agreementId p = a) \<and> active (paymentReversals d) p])"
proof -
  let ?ps = "[p \<leftarrow> payments d. (ctx p = c \<and> py_agreementId p = a) \<and> active (paymentReversals d) p]"
  let ?ms = "map pt_memberId (participants_in d c a)"
  have "distinct (map participant_key (participants_in d c a))"
    using assms(2) by (simp add: agreed_ok_def participants_in_def distinct_map_filter)
  then have "distinct ?ms"
    by (auto simp: distinct_map inj_on_def participant_key_def participants_in_def)
  moreover have "py_participantMemberId p \<in> set ?ms" if "p \<in> set ?ps" for p
    using assms(1) that by (force simp: paid_ok_def participants_in_def participant_key_def payment_key_def)
  ultimately have "sum_list (map (\<lambda>m. sum_list (map py_amountMinor [p \<leftarrow> ?ps. py_participantMemberId p = m])) ?ms)
      = sum_list (map py_amountMinor ?ps)"
    by (rule sum_list_by_class)
  moreover have "[p \<leftarrow> ?ps. py_participantMemberId p = m] = [p \<leftarrow> payments_of d c a m. active (paymentReversals d) p]" for m
    by (auto simp: payments_of_def intro!: filter_cong)
  ultimately show ?thesis by (simp add: paid_of_def o_def)
qed

lemma summary_line_within:
  assumes "paid_ok d" "pt \<in> set (participants d)"
  shows "line_within (summary_line d pt)"
  using assms paid_nonneg [of d] by (auto simp: line_within_def summary_line_def Let_def paid_ok_def)

lemma sum_list_participants:
  "sum_list (map f (sort_key (\<lambda>pt. (coll (pt_memberName pt), pt_memberId pt)) ps)) = sum_list (map (f :: _ \<Rightarrow> int) ps)"
  by (rule sum_list_sort_key)

lemma agreed_sum_bound: "agreed_ok d \<Longrightarrow> sum_list (map pt_totalMinor (participants_in d c a)) \<le> MAX_MINOR_UNITS"
proof (cases "participants_in d c a")
  case (Cons pt pts)
  assume ok: "agreed_ok d"
  have "pt \<in> set (participants_in d c a)" by (simp add: Cons)
  then have "pt \<in> set (participants d)" "pt_contextId pt = c" "pt_agreementId pt = a" by (auto simp: participants_in_def)
  with ok show ?thesis by (auto simp: agreed_ok_def)
qed (simp add: MAX_MINOR_UNITS_def)

text \<open>C7: the payment summary of an agreement can always be built, and it says the truth: the agreed figure is what the
  participants were promised, the paid figure the sum of the payments that are not reversed, what is
  pending their non-negative difference, and the status is PAID, UNPAID, PARTIALLY_PAID or NOT_DUE
  exactly as these figures say; every participant has one line.\<close>

theorem payment_summary_truthful:
  assumes "paid_ok d" "agreed_ok d"
  shows "\<exists>s. loadPaymentSummary coll d c a = Inr s
    \<and> sy_agreedMinor s = sum_list (map pt_totalMinor (participants_in d c a))
    \<and> sy_paidMinor s = sum_list (map py_amountMinor
        [p \<leftarrow> payments d. (ctx p = c \<and> py_agreementId p = a) \<and> active (paymentReversals d) p])
    \<and> 0 \<le> sy_pendingMinor s \<and> sy_pendingMinor s = sy_agreedMinor s - sy_paidMinor s
    \<and> sy_status s = (if sy_agreedMinor s = 0 then NOT_DUE else if sy_pendingMinor s = 0 then PAID
                     else if sy_paidMinor s = 0 then UNPAID else PARTIALLY_PAID)
    \<and> mset (map ps_memberId (sy_participants s)) = mset (map pt_memberId (participants_in d c a))"
proof -
  let ?pts = "sort_key (\<lambda>pt. (coll (pt_memberName pt), pt_memberId pt)) (participants_in d c a)"
  let ?ls = "map (summary_line d) ?pts"
  have mem: "pt \<in> set (participants d) \<and> pt_contextId pt = c \<and> pt_agreementId pt = a" if "pt \<in> set ?pts" for pt
    using that by (auto simp: participants_in_def)
  have within: "\<forall>l \<in> set ?ls. line_within l" using mem summary_line_within [OF assms(1)] by auto
  have agreed: "sum_list (map pl_agreedMinor ?ls) = sum_list (map pt_totalMinor (participants_in d c a))"
    using sum_list_participants [of pt_totalMinor coll] by (simp add: o_def summary_line_def Let_def)
  have lines: "map pl_paidMinor ?ls = map (\<lambda>pt. paid_of d c a (pt_memberId pt)) ?pts"
    using mem by (simp add: summary_line_def Let_def)
  have paid: "sum_list (map pl_paidMinor ?ls) = sum_list (map py_amountMinor
      [p \<leftarrow> payments d. (ctx p = c \<and> py_agreementId p = a) \<and> active (paymentReversals d) p])"
    unfolding lines sum_list_participants by (rule paid_by_participant [OF assms])
  have small: "sum_list (map pl_agreedMinor ?ls) \<le> MAX_SAFE_INTEGER"
    unfolding agreed using agreed_sum_bound [OF assms(2), of c a] by (simp add: MAX_MINOR_UNITS_def MAX_SAFE_INTEGER_def)
  have fits: "safe_int (pl_paidMinor l)" if "l \<in> set ?ls" for l
  proof -
    have "0 \<le> pl_paidMinor l" using within that by (auto simp: line_within_def)
    moreover have "pl_paidMinor l \<le> sum_list (map pl_paidMinor ?ls)"
      by (rule sum_list_int_mem_le) (use within that in \<open>auto simp: line_within_def\<close>)
    ultimately show ?thesis using sums_within [OF within] small by (simp add: safe_int_def)
  qed
  have "map_result (\<lambda>row. safe_sum (pl_paidMinor row)) ?ls = Inr (map (\<lambda>x. projr (safe_sum (pl_paidMinor x))) ?ls)"
    by (rule map_result_ok) (use fits in \<open>simp add: safe_sum_def\<close>)
  then have "loadPaymentSummary coll d c a = buildPaymentSummary ?ls"
    by (simp only: loadPaymentSummary_def Let_def sum.case)
  moreover have "map ps_memberId (map participant_line ?ls) = map pt_memberId ?pts"
    by (simp add: participant_line_def summary_line_def Let_def)
  then have "mset (map ps_memberId (map participant_line ?ls)) = mset (map pt_memberId (participants_in d c a))"
    by (simp only: mset_map mset_sort)
  ultimately show ?thesis
    using sums_within [OF within] overall_status_sums [OF within]
    unfolding buildPaymentSummary_within [OF within small] agreed paid by (auto simp del: map_map)
qed

lemma payment_summary_truthful_witness:
  "\<exists>s. loadPaymentSummary (\<lambda>_. []) sample_agreed ''t1'' ''g1'' = Inr s \<and> sy_pendingMinor s = 1000 \<and> sy_status s = UNPAID"
proof -
  have ok: "paid_ok sample_agreed" "agreed_ok sample_agreed" by code_simp+
  have "sum_list (map pt_totalMinor (participants_in sample_agreed ''t1'' ''g1'')) = 1000"
    "[p \<leftarrow> payments sample_agreed. (ctx p = ''t1'' \<and> py_agreementId p = ''g1'') \<and> active (paymentReversals sample_agreed) p] = []"
    by code_simp+
  with payment_summary_truthful [OF ok, of "\<lambda>_. []" "''t1''" "''g1''"] show ?thesis by auto
qed

section \<open>Reversal\<close>

definition reversal_print :: "(string \<Rightarrow> string) \<Rightarrow> actor \<Rightarrow> uuid \<Rightarrow> reverse_dto \<Rightarrow> string" where
  "reversal_print H actor paymentId dto =
     projr (operation_digest H actor ''payment:reverse''
       (json_reverse ''paymentId'' (toLowerCase paymentId) (normalized_reverse dto)))"

definition reversal_origin :: "actor \<Rightarrow> reverse_dto \<Rightarrow> bool" where
  "reversal_origin actor dto \<longleftrightarrow> assertOrigin actor (rd_createdByMemberId dto) (rd_deviceId dto) = Inr ()"

lemma reversePayment_refused:
  "\<not> reversal_origin actor dto \<Longrightarrow> reversePayment H coll w now actor paymentId dto d = (Inl Forbidden, d)"
  unfolding reversal_origin_def
  by (cases rule: assertOrigin_cases [of actor "rd_createdByMemberId dto" "rd_deviceId dto"])
    (simp_all add: reversePayment_def)

lemma reversePayment_eq:
  assumes "reversal_origin actor dto"
  shows "reversePayment H coll w now actor paymentId dto d =
    (case reverse_payment_tx coll w now actor (toLowerCase paymentId) (normalized_reverse dto)
            (reversal_print H actor paymentId dto) d of
       (Inl e, d') \<Rightarrow> (Inl (payment_conflict e), d')
     | (Inr x, d') \<Rightarrow> (Inr x, d'))"
  using assms unfolding reversePayment_def Let_def reversal_origin_def reversal_print_def
  by (subst reverse_digest) simp

lemma reversePayment_cases:
  assumes "reversePayment H coll w now actor paymentId dto d = (out, d')"
  obtains (error) e where "out = Inl e" "d' = d \<or> d' = w d"
  | (replay) r where "reversal_origin actor dto" "out = Inr (False, r)" "d' = d"
      "payment_reversal_checks coll actor (toLowerCase paymentId) (normalized_reverse dto)
         (reversal_print H actor paymentId dto) d = Inr (Inl r)"
  | (written) name p r where "reversal_origin actor dto" "out = Inr (True, r)"
      "payment_reversal_checks coll actor (toLowerCase paymentId) (normalized_reverse dto)
         (reversal_print H actor paymentId dto) d = Inr (Inr (name, p))"
      "payment_reversal_write coll now actor (toLowerCase paymentId) (normalized_reverse dto)
         (reversal_print H actor paymentId dto) (name, p) (w d) = Inr (r, d')"
proof (cases "reversal_origin actor dto")
  case False
  with assms error [of Forbidden] show thesis by (auto simp: reversePayment_refused)
next
  case True
  obtain out' s where tx: "reverse_payment_tx coll w now actor (toLowerCase paymentId) (normalized_reverse dto)
      (reversal_print H actor paymentId dto) d = (out', s)" by fastforce
  with assms True have out: "out = (case out' of Inl e \<Rightarrow> Inl (payment_conflict e) | Inr x \<Rightarrow> Inr x)" "s = d'"
    by (auto simp: reversePayment_eq split: sum.splits)
  from tx [unfolded reverse_payment_tx_def] show thesis
  proof (cases rule: locked_tx_cases)
    case (replay r)
    with True out that(2) show thesis by simp
  next
    case (committed x r)
    moreover obtain name p where "x = (name, p)" by (cases x)
    ultimately show thesis using True out that(3) by simp
  qed (use out error in auto)
qed

lemma payment_reversal_checks_read:
  assumes "payment_reversal_checks coll actor i data fp d = Inr (Inr (name, p))"
  shows "is_ok (authorize_socio d actor) \<and> find_row (act_contextId actor) (rd_id data) (paymentReversals d) = None
    \<and> find_row (act_contextId actor) i (payments d) = Some p"
  using assms unfolding payment_reversal_checks_def Let_def
  by (auto split: sum.splits option.splits if_splits)

lemma payment_reversal_write_Inr:
  assumes "payment_reversal_write coll now actor i data fp (name, p) d = Inr (r, d')"
  obtains v q where
    "\<forall>x \<in> set (paymentReversals d). \<not> (rev_target x = i \<and> ctx x = act_contextId actor)"
    "f_occurredAt p \<le> rd_occurredAt data" "rd_occurredAt data \<le> now"
    "d' = d\<lparr>paymentReversals := paymentReversals d @ [v]\<rparr>"
    "rid v = rd_id data" "ctx v = act_contextId actor" "rev_target v = i" "f_requestFingerprint v = fp"
    "rd_id data \<notin> rid ` set (paymentReversals d)"
    "find_row (act_contextId actor) i (payments d) = Some q" "payment_receipt_of coll d' q = Inr r"
  using assms unfolding payment_reversal_write_def Let_def
  by (auto simp: insert_reversal_def insert_row_def reversal_row_def split: if_splits sum.splits option.splits)

text \<open>Taking a payment out of the sum never raises it.\<close>

lemma paid_of_reversed:
  assumes "payments d' = payments d" "paymentReversals d' = paymentReversals d @ [v]"
    "\<forall>p \<in> set (payments d). 1 \<le> py_amountMinor p"
  shows "paid_of d' c a m \<le> paid_of d c a m"
proof -
  have "sum_list (map py_amountMinor [p \<leftarrow> ps. P p \<and> active (paymentReversals d @ [v]) p])
      \<le> sum_list (map py_amountMinor [p \<leftarrow> ps. P p \<and> active (paymentReversals d) p])"
    if "\<forall>p \<in> set ps. 1 \<le> py_amountMinor p" for ps :: "payment list" and P
    using that by (induction ps) (auto simp: active_snoc)
  from this [of "payments d" "\<lambda>p. ctx p = c \<and> payment_key p = (a, m)"] assms show ?thesis
    by (simp add: paid_of_alt)
qed

lemma reversed_paid_ok:
  assumes "d' = d\<lparr>paymentReversals := paymentReversals d @ [v]\<rparr>" "paid_ok d"
  shows "paid_ok d'"
proof -
  have le: "paid_of d' c a m \<le> paid_of d c a m" for c a m
    by (rule paid_of_reversed) (use assms in \<open>auto simp: paid_ok_def\<close>)
  have "paid_of d' (pt_contextId pt) (pt_agreementId pt) (pt_memberId pt) \<le> pt_totalMinor pt"
    if "pt \<in> set (participants d)" for pt
    by (rule order_trans [OF le]) (use assms(2) that in \<open>simp add: paid_ok_def\<close>)
  then show ?thesis using assms by (simp add: paid_ok_def)
qed

lemma reversePayment_paid_ok:
  assumes "reversePayment H coll w now actor paymentId dto d = (out, d')" "paid_ok d" "paid_ok (w d)"
  shows "paid_ok d'"
  using assms(1)
proof (cases rule: reversePayment_cases)
  case (written name p r)
  from written(4) show ?thesis by (rule payment_reversal_write_Inr) (use reversed_paid_ok assms(3) in blast)
qed (use assms in auto)

text \<open>Reversing a payment gives back exactly that payment. Under any step of the other transactions that keeps
  the recorded payments, a reversal that is executed finds the payment not reversed when it gets the
  lock, takes its amount out of what its participant was paid under its agreement and changes nobody
  else's balance.\<close>

theorem reversePayment_frees_exactly:
  assumes "reversePayment H coll w now actor paymentId dto d = (Inr (True, r), d')" "paid_ok (w d)"
    and "set (payments d) \<subseteq> set (payments (w d))"
  shows "\<exists>p. find_row (act_contextId actor) (toLowerCase paymentId) (payments d) = Some p
    \<and> active (paymentReversals (w d)) p \<and> \<not> active (paymentReversals d') p
    \<and> (\<forall>c a m. paid_of d' c a m = paid_of (w d) c a m
         - (if ctx p = c \<and> payment_key p = (a, m) then py_amountMinor p else 0))"
  using assms(1)
proof (cases rule: reversePayment_cases)
  case (written name p r')
  let ?c = "act_contextId actor" and ?i = "toLowerCase paymentId" and ?s = "w d"
  from payment_reversal_checks_read [OF written(3)] have p: "find_row ?c ?i (payments d) = Some p" by simp
  with assms(3) have mem: "p \<in> set (payments ?s)" "rid p = ?i" "ctx p = ?c" by (auto dest: find_row_Some)
  have dist: "distinct (map rid (payments ?s))" using assms(2) by (simp add: paid_ok_def)
  from written(4) obtain v where
    act: "\<forall>x \<in> set (paymentReversals ?s). \<not> (rev_target x = ?i \<and> ctx x = ?c)"
    and d': "d' = ?s\<lparr>paymentReversals := paymentReversals ?s @ [v]\<rparr>" and v: "ctx v = ?c" "rev_target v = ?i"
    by (rule payment_reversal_write_Inr) blast
  have live: "active (paymentReversals ?s) p" using act mem by (auto simp: active_iff)
  have "paid_of d' c a m = paid_of ?s c a m - (if ctx p = c \<and> payment_key p = (a, m) then py_amountMinor p else 0)" for c a m
  proof (cases "ctx p = c \<and> payment_key p = (a, m)")
    case True
    with sum_active_reverse [OF dist mem(1) live, of v "\<lambda>q. ctx q = c \<and> payment_key q = (a, m)" py_amountMinor] v mem
    show ?thesis by (simp add: paid_of_alt d')
  next
    case False
    have "q = p" if "q \<in> set (payments ?s)" "rid q = ?i" for q
      using that mem dist by (metis distinct_map inj_onD)
    then have "[q \<leftarrow> payments ?s. (ctx q = c \<and> payment_key q = (a, m)) \<and> active (paymentReversals ?s @ [v]) q]
        = [q \<leftarrow> payments ?s. (ctx q = c \<and> payment_key q = (a, m)) \<and> active (paymentReversals ?s) q]"
      using False v by (intro filter_cong) (auto simp: active_snoc)
    with False show ?thesis by (auto simp: paid_of_alt d')
  qed
  moreover have "\<not> active (paymentReversals d') p" using v mem by (simp add: d' active_snoc)
  ultimately show ?thesis using p live by blast
qed (use assms in auto)

definition sample_paid :: db where
  "sample_paid = sample_agreed\<lparr>payments := [\<lparr>rid = ''p1'', ctx = ''t1'', f_occurredAt = 1770000100000,
     f_receivedAt = 1770000200000, f_createdByMemberId = ''m1'', f_createdByAccountId = ''a1'', f_deviceId = ''d1'',
     f_requestFingerprint = ''h'',
     f_creationResponse = JObj [(''contextId'', JStr ''t1''), (''agreementId'', JStr ''g1''), (''participantMemberId'', JStr ''m1'')],
     py_agreementId = ''g1'', py_participantMemberId = ''m1'', py_amountMinor = 250, py_currency = ''MXN'', py_note = None\<rparr>]\<rparr>"

lemma reversePayment_frees_exactly_witness:
  "let d' = snd (reversePayment (\<lambda>s. s) (\<lambda>_. []) (\<lambda>d. d) 1770000600000 ana ''P1'' sample_reverse sample_paid) in
   paid_of sample_paid ''t1'' ''g1'' ''m1'' = 250 \<and> paid_of d' ''t1'' ''g1'' ''m1'' = 0"
proof -
  let ?run = "reversePayment (\<lambda>s. s) (\<lambda>_. []) (\<lambda>d. d) 1770000600000 ana ''P1'' sample_reverse sample_paid"
  have "created (fst ?run)" by code_simp
  then obtain r where "fst ?run = Inr (True, r)" by (cases "fst ?run" rule: created.cases) auto
  then have run: "?run = (Inr (True, r), snd ?run)" by (metis prod.collapse)
  have "paid_ok sample_paid" by code_simp
  from reversePayment_frees_exactly [where w = "\<lambda>d. d", OF run this] obtain p where
    p: "find_row ''t1'' (toLowerCase ''P1'') (payments sample_paid) = Some p"
    and after: "paid_of (snd ?run) ''t1'' ''g1'' ''m1'' = paid_of sample_paid ''t1'' ''g1'' ''m1''
      - (if ctx p = ''t1'' \<and> payment_key p = (''g1'', ''m1'') then py_amountMinor p else 0)"
    by (auto simp: ana_def)
  have "case find_row ''t1'' (toLowerCase ''P1'') (payments sample_paid) of None \<Rightarrow> False
    | Some p \<Rightarrow> ctx p = ''t1'' \<and> payment_key p = (''g1'', ''m1'') \<and> py_amountMinor p = 250" by code_simp
  moreover have "paid_of sample_paid ''t1'' ''g1'' ''m1'' = 250" by code_simp
  ultimately show ?thesis using p after by (simp add: Let_def)
qed

section \<open>Idempotency\<close>

lemma payment_print_conflict: "payment_conflict (Conflict m) = Conflict m"
  by (simp add: payment_conflict_def isUniqueViolation_def)

definition createPayment_call ::
  "(string \<Rightarrow> string) \<Rightarrow> (string \<Rightarrow> nat list) \<Rightarrow> instant \<Rightarrow> actor \<times> uuid \<times> create_payment_dto \<Rightarrow> db
    \<Rightarrow> (bool \<times> payment_receipt) result \<times> db"
where
  "createPayment_call H coll now q d = createPayment H coll (\<lambda>d. d) now (fst q) (fst (snd q)) (snd (snd q)) d"

definition payment_on_record :: "actor \<times> uuid \<times> create_payment_dto \<Rightarrow> db \<Rightarrow> payment option" where
  "payment_on_record q d = find_row (act_contextId (fst q)) (cp_id (normalized_payment (snd (snd q)))) (payments d)"

definition createPayment_gate :: "(string \<Rightarrow> nat list) \<Rightarrow> actor \<times> uuid \<times> create_payment_dto \<Rightarrow> db \<Rightarrow> bool" where
  "createPayment_gate coll q d \<longleftrightarrow> payment_origin (fst q) (snd (snd q)) \<and> is_ok (authorize_socio d (fst q))
     \<and> (case payment_on_record q d of None \<Rightarrow> True | Some p \<Rightarrow> is_ok (payment_receipt_of coll d p))"

definition createPayment_receipt :: "(string \<Rightarrow> nat list) \<Rightarrow> actor \<times> uuid \<times> create_payment_dto \<Rightarrow> db \<Rightarrow> payment_receipt" where
  "createPayment_receipt coll q d = projr (payment_receipt_of coll d (the (payment_on_record q d)))"

lemma payment_checks_stored:
  assumes "is_ok (authorize_socio d actor)" "find_row (act_contextId actor) (cp_id data) (payments d) = Some p"
  shows "payment_checks coll actor a data fp d =
    (if f_requestFingerprint p = fp
     then (case payment_receipt_of coll d p of Inl e \<Rightarrow> Inl e | Inr r \<Rightarrow> Inr (Inl r))
     else Inl (Conflict ''FINANCE_PAYMENT_ID_CONFLICT''))"
  using assms by (auto simp: payment_checks_def is_ok_iff)

lemma payment_checks_replay:
  assumes "payment_checks coll actor a data fp d = Inr (Inl r)"
  shows "is_ok (authorize_socio d actor) \<and> (\<exists>p. find_row (act_contextId actor) (cp_id data) (payments d) = Some p
    \<and> f_requestFingerprint p = fp \<and> payment_receipt_of coll d p = Inr r)"
  using assms unfolding payment_checks_def Let_def
  by (auto split: sum.splits option.splits if_splits)

text \<open>The live view of a payment just recorded reads its own receipt.\<close>

lemma receipt_fields:
  "f_creationResponse p = JObj (payment_core actor a data name cur member now) \<Longrightarrow>
   text_field ''contextId'' (livePayment d p) = act_contextId actor
   \<and> text_field ''agreementId'' (livePayment d p) = a"
  by (simp add: text_field_def livePayment_def Let_def map_of_set_field fields_of_def payment_core_def)

lemma payment_write_records:
  assumes "payment_write coll now actor a data fp (name, g, pt) d = Inr (r, d')"
    "find_row (act_contextId actor) (cp_id data) (payments d) = None" "is_ok (authorize_socio d actor)"
  shows "is_ok (authorize_socio d' actor) \<and> (\<exists>p. find_row (act_contextId actor) (cp_id data) (payments d') = Some p
    \<and> f_requestFingerprint p = fp \<and> is_ok (payment_receipt_of coll d' p))"
  using assms(1)
proof (rule payment_write_Inr)
  fix core
  let ?p = "payment_row actor a data (ag_currency g) now fp core"
  assume d': "d' = d\<lparr>payments := payments d @ [?p]\<rparr>"
    and core: "core = payment_core actor a data (pt_memberName pt) (ag_currency g) name now"
    and summary: "loadPaymentSummary coll d' (act_contextId actor) a = Inr (rc_paymentSummary r)"
  have "f_creationResponse ?p = JObj (payment_core actor a data (pt_memberName pt) (ag_currency g) name now)"
    by (simp add: core)
  from receipt_fields [OF this, of d'] summary have "is_ok (payment_receipt_of coll d' ?p)"
    by (simp add: payment_receipt_of_def Let_def)
  moreover have "find_row (act_contextId actor) (cp_id data) (payments d') = Some ?p"
    using assms(2) by (simp add: d' find_row_def find_append)
  moreover have "authorize_socio d' actor = authorize_socio d actor"
    by (rule authorize_socio_tables) (simp_all add: d')
  ultimately show ?thesis using assms(3) by simp
qed

interpretation payment_create:
  idempotent_request "createPayment_call H coll" "\<lambda>q d. map_option f_requestFingerprint (payment_on_record q d)"
    "\<lambda>q. payment_print H (fst q) (fst (snd q)) (snd (snd q))" "createPayment_gate coll" "createPayment_receipt coll"
  for H coll
proof
  fix q d t assume g: "createPayment_gate coll q d"
    and s: "map_option f_requestFingerprint (payment_on_record q d) = Some (payment_print H (fst q) (fst (snd q)) (snd (snd q)))"
  obtain actor i dto where q: "q = (actor, i, dto)" by (cases q)
  from s q obtain p where p: "find_row (act_contextId actor) (cp_id (normalized_payment dto)) (payments d) = Some p"
    "f_requestFingerprint p = payment_print H actor i dto" by (auto simp: payment_on_record_def)
  from g q p have ok: "payment_origin actor dto" "is_ok (authorize_socio d actor)"
    "payment_receipt_of coll d p = Inr (projr (payment_receipt_of coll d p))"
    by (auto simp: createPayment_gate_def payment_on_record_def intro: is_ok_projr)
  then show "createPayment_call H coll t q d = (Inr (False, createPayment_receipt coll q d), d)"
    using p by (cases "payment_receipt_of coll d p")
      (simp_all add: q createPayment_call_def createPayment_eq create_payment_tx_def locked_tx_def payment_checks_stored
        createPayment_receipt_def payment_on_record_def)
next
  fix q d f t assume g: "createPayment_gate coll q d"
    and s: "map_option f_requestFingerprint (payment_on_record q d) = Some f"
      "f \<noteq> payment_print H (fst q) (fst (snd q)) (snd (snd q))"
  obtain actor i dto where q: "q = (actor, i, dto)" by (cases q)
  from g s show "\<exists>m. createPayment_call H coll t q d = (Inl (Conflict m), d)"
    by (auto simp: q createPayment_call_def createPayment_eq create_payment_tx_def locked_tx_def payment_checks_stored
        payment_on_record_def createPayment_gate_def payment_print_conflict)
next
  fix t q d r d' assume run: "createPayment_call H coll t q d = (Inr (True, r), d')"
  obtain actor i dto where q: "q = (actor, i, dto)" by (cases q)
  from run have "createPayment H coll (\<lambda>d. d) t actor i dto d = (Inr (True, r), d')" by (simp add: q createPayment_call_def)
  then show "map_option f_requestFingerprint (payment_on_record q d) = None
      \<and> map_option f_requestFingerprint (payment_on_record q d') = Some (payment_print H (fst q) (fst (snd q)) (snd (snd q)))
      \<and> createPayment_gate coll q d'"
  proof (cases rule: createPayment_cases)
    case (written name g pt r')
    from payment_checks_read [OF written(3)] have
      old: "find_row (act_contextId actor) (cp_id (normalized_payment dto)) (payments d) = None"
        "is_ok (authorize_socio d actor)" by auto
    from payment_write_records [OF written(4) old] written(1) old show ?thesis
      by (auto simp: q payment_on_record_def createPayment_gate_def)
  qed auto
next
  fix t q d r d' assume run: "createPayment_call H coll t q d = (Inr (False, r), d')"
  obtain actor i dto where q: "q = (actor, i, dto)" by (cases q)
  from run have "createPayment H coll (\<lambda>d. d) t actor i dto d = (Inr (False, r), d')" by (simp add: q createPayment_call_def)
  then show "d' = d \<and> map_option f_requestFingerprint (payment_on_record q d)
      = Some (payment_print H (fst q) (fst (snd q)) (snd (snd q))) \<and> createPayment_gate coll q d"
  proof (cases rule: createPayment_cases)
    case (replay r')
    from payment_checks_replay [OF replay(4)] replay(1,3) show ?thesis
      by (auto simp: q payment_on_record_def createPayment_gate_def)
  qed auto
next
  fix t q d e d' assume run: "createPayment_call H coll t q d = (Inl e, d')"
  obtain actor i dto where q: "q = (actor, i, dto)" by (cases q)
  from run have "createPayment H coll (\<lambda>d. d) t actor i dto d = (Inl e, d')" by (simp add: q createPayment_call_def)
  then show "d' = d" by (cases rule: createPayment_cases) auto
qed

text \<open>A payment sent again and again is recorded at most once, and while only errors were answered nothing was
  recorded.\<close>

theorem payment_create_at_most_once:
  "effect_once d (retries (\<lambda>now. createPayment H coll (\<lambda>d. d) now actor agreementId dto) instants d)"
  using payment_create.at_most_once [of d H coll "(actor, agreementId, dto)" instants]
  by (simp add: createPayment_call_def [abs_def])

end
