(* ===== verification/Facts.thy ===== *)
theory Facts
  imports Schema Idempotency
begin

text \<open>
  The transaction the append-only services of the finance module share (reserves, contributions,
  expenses, work shifts): authorize the actor, take the lock of the identity, answer from the row that
  carries the identity or write the new one. The services differ in what they authorize, look up and
  write; the contract of idempotency follows from one law on the write and is proved here once.
\<close>

definition record_once ::
  "(db \<Rightarrow> unit result) \<Rightarrow> (db \<Rightarrow> (string \<times> jsval) option) \<Rightarrow> string \<Rightarrow> string \<Rightarrow> (db \<Rightarrow> (jsval \<times> db) result)
    \<Rightarrow> db \<Rightarrow> ((bool \<times> jsval) \<times> db) result"
where
  "record_once authorize existing requestFp conflict write_new d =
     (case authorize d of Inl e \<Rightarrow> Inl e
      | Inr _ \<Rightarrow>
        (case existing d of
           Some (stored, receipt) \<Rightarrow>
             if stored \<noteq> requestFp then Inl (Conflict conflict) else Inr ((False, receipt), d)
         | None \<Rightarrow> (case write_new d of Inl e \<Rightarrow> Inl e | Inr (receipt, d') \<Rightarrow> Inr ((True, receipt), d'))))"

text \<open>The call around it: the checks on the request alone, the transaction and the translation of its errors.\<close>

definition once_call ::
  "unit result \<Rightarrow> (failure \<Rightarrow> failure) \<Rightarrow> (db \<Rightarrow> ((bool \<times> jsval) \<times> db) result) \<Rightarrow> db \<Rightarrow> (bool \<times> jsval) result \<times> db"
where
  "once_call pre translate body d =
     (case pre of Inl e \<Rightarrow> (Inl e, d)
      | Inr _ \<Rightarrow> (case transaction body d of (Inl e, d') \<Rightarrow> (Inl (translate e), d') | (Inr x, d') \<Rightarrow> (Inr x, d')))"

text \<open>\<open>checkSelection\<close>: the body names the member and the device of the request.\<close>

definition checkSelection :: "actor \<Rightarrow> uuid \<Rightarrow> uuid \<Rightarrow> unit result" where
  "checkSelection actor memberId device =
     (if act_selection actor = Some (toLowerCase memberId, toLowerCase device) then Inr () else Inl Forbidden)"

text \<open>
  The authorization of contributions, expenses and work shifts: an active socio and an authorized
  device, without a look at the account; and the check that a member is active.
\<close>

definition active_member :: "string \<Rightarrow> uuid \<Rightarrow> db \<Rightarrow> bool" where
  "active_member c i d \<longleftrightarrow> (\<exists>m \<in> set (members d). rid m = i \<and> ctx m = c \<and> m_active m)"

definition active_socio :: "string \<Rightarrow> uuid \<Rightarrow> db \<Rightarrow> bool" where
  "active_socio c i d \<longleftrightarrow> (\<exists>m \<in> set (members d). rid m = i \<and> ctx m = c \<and> m_active m \<and> m_role m = Socio)"

definition authorize_books :: "actor \<Rightarrow> db \<Rightarrow> unit result" where
  "authorize_books actor d =
     (case act_selection actor of None \<Rightarrow> Inl Forbidden
      | Some (memberId, device) \<Rightarrow>
          if active_socio (act_contextId actor) memberId d
             \<and> (\<exists>v \<in> set (devices d). rid v = device \<and> ctx v = act_contextId actor \<and> d_authorized v)
          then Inr () else Inl Forbidden)"

text \<open>\<open>createHash('sha256').update(JSON.stringify(value)).digest('hex')\<close>: in the order of the keys.\<close>

definition digest :: "(string \<Rightarrow> string) \<Rightarrow> (string \<times> jsval) list \<Rightarrow> string" where
  "digest H fds = H (json_stringify (JObj fds))"

definition json_actor :: "actor \<Rightarrow> (string \<times> jsval) list" where
  "json_actor actor = [(''contextId'', JStr (act_contextId actor)), (''accountId'', JStr (act_accountId actor))]"

text \<open>The fingerprint \<open>{contextId, accountId, operation, ...payload}\<close>.\<close>

definition fact_digest :: "(string \<Rightarrow> string) \<Rightarrow> actor \<Rightarrow> string \<Rightarrow> (string \<times> jsval) list \<Rightarrow> string" where
  "fact_digest H actor operation payload = digest H (json_actor actor @ (''operation'', JStr operation) # payload)"

text \<open>What a row answers a replay with.\<close>

definition on_file :: "'a fact_scheme option \<Rightarrow> (string \<times> jsval) option" where
  "on_file r = map_option (\<lambda>x. (f_requestFingerprint x, f_creationResponse x)) r"

section \<open>What every such write guarantees\<close>

lemma active_member_tables: "members d' = members d \<Longrightarrow> active_member c i d' = active_member c i d"
  by (simp add: active_member_def)

lemma active_socio_tables: "members d' = members d \<Longrightarrow> active_socio c i d' = active_socio c i d"
  by (simp add: active_socio_def)

lemma authorize_books_tables:
  assumes a: "members d' = members d" and b: "devices d' = devices d"
  shows "authorize_books actor d' = authorize_books actor d"
  unfolding authorize_books_def active_socio_def a b by (rule refl)

lemma record_once_existing:
  "is_ok (authorize d) \<Longrightarrow> existing d = Some (stored, receipt) \<Longrightarrow>
   record_once authorize existing fp conflict write_new d
     = (if stored = fp then Inr ((False, receipt), d) else Inl (Conflict conflict))"
  by (auto simp: record_once_def is_ok_iff)

lemma record_once_created:
  "record_once authorize existing fp conflict write_new d = Inr ((True, r), d') \<longleftrightarrow>
     is_ok (authorize d) \<and> existing d = None \<and> write_new d = Inr (r, d')"
  by (cases "authorize d"; cases "existing d"; cases "write_new d") (auto simp: record_once_def split: if_splits)

lemma record_once_replayed:
  "record_once authorize existing fp conflict write_new d = Inr ((False, r), d') \<longleftrightarrow>
     is_ok (authorize d) \<and> existing d = Some (fp, r) \<and> d' = d"
  by (cases "authorize d"; cases "existing d"; cases "write_new d") (auto simp: record_once_def split: if_splits)

lemma once_call_Inr:
  "once_call pre translate body d = (Inr x, d') \<longleftrightarrow> is_ok pre \<and> body d = Inr (x, d')"
  by (cases pre; cases "body d") (auto simp: once_call_def transaction_def)

lemma once_call_Inl: "once_call pre translate body d = (Inl e, d') \<Longrightarrow> d' = d"
  by (cases pre; cases "body d") (auto simp: once_call_def transaction_def)

lemma on_file_simps [simp]:
  "on_file None = None" "on_file (Some x) = Some (f_requestFingerprint x, f_creationResponse x)"
  "on_file r = None \<longleftrightarrow> r = None"
  by (simp_all add: on_file_def)

text \<open>A row inserted where its identity was free is what a later look finds.\<close>

lemma on_file_insert:
  "insert_row model r rows = Inr rows' \<Longrightarrow> rid r = i \<Longrightarrow> ctx r = c
   \<Longrightarrow> on_file (find_row c i rows') = Some (f_requestFingerprint r, f_creationResponse r)"
  by (simp add: find_row_insert)

text \<open>
  The law of a write: it is done only where no row has the identity and leaves one with the
  fingerprint of the request and the receipt that is answered, and it keeps the authorization.
\<close>

locale recorded_write =
  fixes pre :: "'q \<Rightarrow> unit result"
    and translate :: "failure \<Rightarrow> failure"
    and authorize :: "'q \<Rightarrow> db \<Rightarrow> unit result"
    and existing :: "'q \<Rightarrow> db \<Rightarrow> (string \<times> jsval) option"
    and requestFp :: "'q \<Rightarrow> string"
    and conflict :: string
    and commit :: "'t \<Rightarrow> 'q \<Rightarrow> db \<Rightarrow> (jsval \<times> db) result"
  assumes conflicts_pass: "translate (Conflict conflict) = Conflict conflict"
    and writes: "commit t q d = Inr (r, d') \<Longrightarrow> existing q d = None \<Longrightarrow> is_ok (authorize q d)
      \<Longrightarrow> existing q d' = Some (requestFp q, r) \<and> is_ok (authorize q d')"
begin

definition call :: "'t \<Rightarrow> 'q \<Rightarrow> db \<Rightarrow> (bool \<times> jsval) result \<times> db" where
  "call t q = once_call (pre q) translate
     (record_once (authorize q) (existing q) (requestFp q) conflict (commit t q))"

definition allowed :: "'q \<Rightarrow> db \<Rightarrow> bool" where
  "allowed q d \<longleftrightarrow> is_ok (pre q) \<and> is_ok (authorize q d)"

definition receipt_on_record :: "'q \<Rightarrow> db \<Rightarrow> jsval" where
  "receipt_on_record q d = snd (the (existing q d))"

lemma call_created:
  assumes "call t q d = (Inr (True, r), d')"
  shows "is_ok (pre q) \<and> is_ok (authorize q d) \<and> existing q d = None \<and> commit t q d = Inr (r, d')
    \<and> existing q d' = Some (requestFp q, r) \<and> is_ok (authorize q d')"
proof -
  have a: "is_ok (pre q)" "is_ok (authorize q d)" "existing q d = None" "commit t q d = Inr (r, d')"
    using assms by (simp_all add: call_def once_call_Inr record_once_created)
  from a writes [OF a(4,3,2)] show ?thesis by simp
qed

lemma call_replayed:
  assumes "call t q d = (Inr (False, r), d')"
  shows "d' = d \<and> allowed q d \<and> existing q d = Some (requestFp q, r)"
  using assms by (simp add: call_def once_call_Inr record_once_replayed allowed_def)

lemma call_stored:
  assumes "allowed q d" "existing q d = Some (stored, receipt)"
  shows "call t q d = (if stored = requestFp q then (Inr (False, receipt), d) else (Inl (Conflict conflict), d))"
proof -
  have pre: "pre q = Inr ()" using assms(1) by (cases "pre q") (simp_all add: allowed_def)
  have "record_once (authorize q) (existing q) (requestFp q) conflict (commit t q) d
    = (if stored = requestFp q then Inr ((False, receipt), d) else Inl (Conflict conflict))"
    by (rule record_once_existing) (use assms in \<open>simp_all add: allowed_def\<close>)
  with pre show ?thesis by (simp add: call_def once_call_def transaction_def conflicts_pass)
qed

sublocale idem: frozen_receipt call "\<lambda>q d. map_option fst (existing q d)" requestFp allowed receipt_on_record
proof
  fix q d t assume "allowed q d" "map_option fst (existing q d) = Some (requestFp q)"
  then show "call t q d = (Inr (False, receipt_on_record q d), d)"
    by (auto simp: call_stored receipt_on_record_def)
next
  fix q d f t assume "allowed q d" "map_option fst (existing q d) = Some f" "f \<noteq> requestFp q"
  then show "\<exists>m. call t q d = (Inl (Conflict m), d)" by (auto simp: call_stored)
next
  fix t q d r d' assume "call t q d = (Inr (True, r), d')"
  from call_created [OF this]
  show "map_option fst (existing q d) = None \<and> map_option fst (existing q d') = Some (requestFp q) \<and> allowed q d'"
    by (simp add: allowed_def)
next
  fix t q d r d' assume "call t q d = (Inr (False, r), d')"
  from call_replayed [OF this]
  show "d' = d \<and> map_option fst (existing q d) = Some (requestFp q) \<and> allowed q d" by simp
next
  fix t q d e d' assume "call t q d = (Inl e, d')"
  then show "d' = d" unfolding call_def by (rule once_call_Inl)
next
  fix t q d r d' assume "call t q d = (Inr (True, r), d')"
  from call_created [OF this] show "receipt_on_record q d' = r" by (simp add: receipt_on_record_def)
qed

lemma once_and_same:
  "effect_once d (retries (\<lambda>t. call t q) ts d) \<and> same_receipts (fst (retries (\<lambda>t. call t q) ts d))"
  using idem.at_most_once idem.same_receipt by blast

end

end
