(* ===== verification/Reserves.thy ===== *)
theory Reserves
  imports Facts Agreements Sample
begin

text \<open>
  The reserves of a period (\<open>src/finance/finance-reserves.service.ts\<close>): money set aside before the
  potentially available amount of exactly that period is computed, and its cancellation.
\<close>

section \<open>Requests\<close>

record create_reserve_dto =
  cr_id :: uuid
  cr_name :: string
  cr_amountMinor :: int
  cr_currency :: "string option"
  cr_periodFrom :: string
  cr_periodTo :: string
  cr_note :: "string option"
  cr_occurredAt :: instant
  cr_createdByMemberId :: uuid
  cr_deviceId :: uuid

definition normalized_reserve :: "create_reserve_dto \<Rightarrow> create_reserve_dto" where
  "normalized_reserve dto = \<lparr>cr_id = toLowerCase (cr_id dto), cr_name = trim (cr_name dto),
     cr_amountMinor = cr_amountMinor dto,
     cr_currency = Some (case cr_currency dto of None \<Rightarrow> ''MXN'' | Some c \<Rightarrow> c),
     cr_periodFrom = cr_periodFrom dto, cr_periodTo = cr_periodTo dto, cr_note = map_option trim (cr_note dto),
     cr_occurredAt = cr_occurredAt dto, cr_createdByMemberId = toLowerCase (cr_createdByMemberId dto),
     cr_deviceId = toLowerCase (cr_deviceId dto)\<rparr>"

definition json_create_reserve :: "create_reserve_dto \<Rightarrow> (string \<times> jsval) list" where
  "json_create_reserve data =
     [(''id'', JStr (cr_id data)), (''name'', JStr (cr_name data)), (''amountMinor'', JNum (cr_amountMinor data)),
      (''currency'', json_option JStr (cr_currency data)), (''periodFrom'', JStr (cr_periodFrom data)),
      (''periodTo'', JStr (cr_periodTo data)), (''note'', json_option JStr (cr_note data)),
      (''occurredAt'', JStr (to_iso (cr_occurredAt data))),
      (''createdByMemberId'', JStr (cr_createdByMemberId data)), (''deviceId'', JStr (cr_deviceId data))]"

text \<open>The actor checks of both operations, before and in the transaction.\<close>

definition authorize_reserve :: "actor \<Rightarrow> db \<Rightarrow> unit result" where
  "authorize_reserve actor d = (case authorize_socio d actor of Inl e \<Rightarrow> Inl e | Inr _ \<Rightarrow> Inr ())"

definition reserve_errors :: "failure \<Rightarrow> failure" where
  "reserve_errors e = (if isUniqueViolation e then NotFound ''Reserve not found'' else e)"

section \<open>Creation\<close>

definition reserve_create_pre :: "actor \<Rightarrow> create_reserve_dto \<Rightarrow> unit result" where
  "reserve_create_pre actor dto =
     (case checkSelection actor (cr_createdByMemberId dto) (cr_deviceId dto) of Inl e \<Rightarrow> Inl e
      | Inr _ \<Rightarrow>
        if \<not> isCalendarDate (cr_periodFrom dto) \<or> \<not> isCalendarDate (cr_periodTo dto) \<or> \<not> cr_periodFrom dto < cr_periodTo dto
        then Inl (BadRequest ''Invalid reserve period'') else Inr ())"

definition reserve_receipt :: "actor \<Rightarrow> create_reserve_dto \<Rightarrow> instant \<Rightarrow> jsval" where
  "reserve_receipt actor data now = JObj (json_create_reserve data
     @ [(''contextId'', JStr (act_contextId actor)), (''createdByAccountId'', JStr (act_accountId actor)),
        (''receivedAt'', JStr (to_iso now))])"

definition reserve_row :: "actor \<Rightarrow> create_reserve_dto \<Rightarrow> instant \<Rightarrow> string \<Rightarrow> reserve" where
  "reserve_row actor data now requestFp =
     \<lparr>rid = cr_id data, ctx = act_contextId actor, f_occurredAt = cr_occurredAt data, f_receivedAt = now,
      f_createdByMemberId = cr_createdByMemberId data, f_createdByAccountId = act_accountId actor,
      f_deviceId = cr_deviceId data, f_requestFingerprint = requestFp,
      f_creationResponse = reserve_receipt actor data now, rs_name = cr_name data,
      rs_amountMinor = cr_amountMinor data,
      rs_currency = (case cr_currency data of None \<Rightarrow> ''MXN'' | Some c \<Rightarrow> c),
      rs_periodFrom = utc_date (cr_periodFrom data), rs_periodTo = utc_date (cr_periodTo data),
      rs_note = cr_note data\<rparr>"

definition insert_reserve :: "instant \<Rightarrow> actor \<Rightarrow> create_reserve_dto \<Rightarrow> string \<Rightarrow> db \<Rightarrow> (jsval \<times> db) result" where
  "insert_reserve now actor data requestFp d =
     (case insert_row ''FinanceReserve'' (reserve_row actor data now requestFp) (reserves d) of
        Inl e \<Rightarrow> Inl e
      | Inr rows \<Rightarrow> Inr (reserve_receipt actor data now, d\<lparr>reserves := rows\<rparr>))"

definition reserve_print :: "(string \<Rightarrow> string) \<Rightarrow> actor \<Rightarrow> create_reserve_dto \<Rightarrow> string" where
  "reserve_print H actor dto = fact_digest H actor ''create'' (json_create_reserve (normalized_reserve dto))"

definition createReserve :: "(string \<Rightarrow> string) \<Rightarrow> instant \<Rightarrow> actor \<Rightarrow> create_reserve_dto \<Rightarrow> db \<Rightarrow> (bool \<times> jsval) result \<times> db" where
  "createReserve H now actor dto =
     (let data = normalized_reserve dto; requestFp = reserve_print H actor dto in
      once_call (reserve_create_pre actor dto) reserve_errors
        (record_once (authorize_reserve actor)
           (\<lambda>d. on_file (find_row (act_contextId actor) (cr_id data) (reserves d)))
           requestFp ''Reserve ID already has different content'' (insert_reserve now actor data requestFp)))"

section \<open>Cancellation\<close>

definition reserve_reverse_pre :: "actor \<Rightarrow> uuid \<Rightarrow> reverse_dto \<Rightarrow> unit result" where
  "reserve_reverse_pre actor reserveId dto =
     (case checkSelection actor (rd_createdByMemberId dto) (rd_deviceId dto) of Inl e \<Rightarrow> Inl e
      | Inr _ \<Rightarrow>
        if toLowerCase (rd_id dto) = toLowerCase reserveId
        then Inl (BadRequest ''Cancellation and reserve identities must be distinct'') else Inr ())"

definition cancel_receipt :: "actor \<Rightarrow> uuid \<Rightarrow> reverse_dto \<Rightarrow> instant \<Rightarrow> jsval \<Rightarrow> jsval" where
  "cancel_receipt actor targetId data now original = JObj (json_reverse ''reserveId'' targetId data
     @ [(''contextId'', JStr (act_contextId actor)), (''createdByAccountId'', JStr (act_accountId actor)),
        (''receivedAt'', JStr (to_iso now)), (''original'', original)])"

definition cancel_reserve ::
  "instant \<Rightarrow> actor \<Rightarrow> uuid \<Rightarrow> reverse_dto \<Rightarrow> string \<Rightarrow> db \<Rightarrow> (jsval \<times> db) result"
where
  "cancel_reserve now actor targetId data requestFp d =
     (case find_row (act_contextId actor) targetId (reserves d) of
        None \<Rightarrow> Inl (NotFound ''Reserve not found'')
      | Some original \<Rightarrow>
          if reversal_of (reserveReversals d) original \<noteq> None then Inl (Conflict ''Reserve already reversed'')
          else
            let receipt = cancel_receipt actor targetId data now (f_creationResponse original) in
            (case insert_reversal ''FinanceReserveReversal''
                    (reversal_row actor targetId data now requestFp receipt) (reserveReversals d) of
               Inl e \<Rightarrow> Inl e
             | Inr revs \<Rightarrow> Inr (receipt, d\<lparr>reserveReversals := revs\<rparr>)))"

definition cancel_print :: "(string \<Rightarrow> string) \<Rightarrow> actor \<Rightarrow> uuid \<Rightarrow> reverse_dto \<Rightarrow> string" where
  "cancel_print H actor reserveId dto =
     fact_digest H actor ''reverse'' (json_reverse ''reserveId'' (toLowerCase reserveId) (normalized_reverse dto))"

definition reverseReserve ::
  "(string \<Rightarrow> string) \<Rightarrow> instant \<Rightarrow> actor \<Rightarrow> uuid \<Rightarrow> reverse_dto \<Rightarrow> db \<Rightarrow> (bool \<times> jsval) result \<times> db"
where
  "reverseReserve H now actor reserveId dto =
     (let data = normalized_reverse dto; requestFp = cancel_print H actor reserveId dto in
      once_call (reserve_reverse_pre actor reserveId dto) reserve_errors
        (record_once (authorize_reserve actor)
           (\<lambda>d. on_file (find_row (act_contextId actor) (rd_id data) (reserveReversals d)))
           requestFp ''Cancellation ID already has different content''
           (cancel_reserve now actor (toLowerCase reserveId) data requestFp)))"

section \<open>Idempotency\<close>

lemma authorize_reserve_tables:
  assumes "accounts d' = accounts d" "members d' = members d" "devices d' = devices d"
  shows "authorize_reserve actor d' = authorize_reserve actor d"
  unfolding authorize_reserve_def authorize_socio_tables [OF assms] by (rule refl)

lemma reserve_errors_conflict [simp]: "reserve_errors (Conflict m) = Conflict m"
  by (simp add: reserve_errors_def isUniqueViolation_def)

lemma reserve_row_simps [simp]:
  "rid (reserve_row actor data now fp) = cr_id data" "ctx (reserve_row actor data now fp) = act_contextId actor"
  "f_requestFingerprint (reserve_row actor data now fp) = fp"
  "f_creationResponse (reserve_row actor data now fp) = reserve_receipt actor data now"
  "rs_amountMinor (reserve_row actor data now fp) = cr_amountMinor data"
  "rs_periodFrom (reserve_row actor data now fp) = utc_date (cr_periodFrom data)"
  "rs_periodTo (reserve_row actor data now fp) = utc_date (cr_periodTo data)"
  by (simp_all add: reserve_row_def)

lemma insert_reserve_Inr:
  assumes "insert_reserve now actor data fp d = Inr (r, d')"
  shows "d' = d\<lparr>reserves := reserves d @ [reserve_row actor data now fp]\<rparr> \<and> cr_id data \<notin> rid ` set (reserves d)
    \<and> r = reserve_receipt actor data now"
  using assms by (auto simp: insert_reserve_def dest!: insert_row_Inr split: sum.splits)

lemma insert_reserve_on_file:
  assumes "insert_reserve now actor data fp d = Inr (r, d')"
  shows "on_file (find_row (act_contextId actor) (cr_id data) (reserves d')) = Some (fp, r)
    \<and> authorize_reserve actor d' = authorize_reserve actor d"
proof -
  from insert_reserve_Inr [OF assms] have d': "d' = d\<lparr>reserves := reserves d @ [reserve_row actor data now fp]\<rparr>"
    and fresh: "cr_id data \<notin> rid ` set (reserves d)" and r: "r = reserve_receipt actor data now" by auto
  have "insert_row m (reserve_row actor data now fp) (reserves d) = Inr (reserves d')" for m
    using fresh by (simp add: insert_row_def d')
  from on_file_insert [OF this] r have "on_file (find_row (act_contextId actor) (cr_id data) (reserves d')) = Some (fp, r)"
    by simp
  moreover have "authorize_reserve actor d' = authorize_reserve actor d"
    by (rule authorize_reserve_tables) (simp_all add: d')
  ultimately show ?thesis by simp
qed

interpretation reserve_create:
  recorded_write "\<lambda>(actor, dto). reserve_create_pre actor dto" reserve_errors "\<lambda>(actor, dto). authorize_reserve actor"
    "\<lambda>(actor, dto) d. on_file (find_row (act_contextId actor) (cr_id (normalized_reserve dto)) (reserves d))"
    "\<lambda>(actor, dto). reserve_print H actor dto" "''Reserve ID already has different content''"
    "\<lambda>now (actor, dto). insert_reserve now actor (normalized_reserve dto) (reserve_print H actor dto)"
  for H
  by unfold_locales (auto dest!: insert_reserve_on_file)

lemma cancel_reserve_Inr:
  assumes "cancel_reserve now actor targetId data fp d = Inr (r, d')"
  obtains original where
    "find_row (act_contextId actor) targetId (reserves d) = Some original" "active (reserveReversals d) original"
    "d' = d\<lparr>reserveReversals := reserveReversals d @ [reversal_row actor targetId data now fp r]\<rparr>"
    "rd_id data \<notin> rid ` set (reserveReversals d)"
  using assms
  by (auto simp: cancel_reserve_def Let_def active_def insert_reversal_def dest!: insert_row_Inr
      split: sum.splits option.splits if_splits)

lemma cancel_reserve_on_file:
  assumes "cancel_reserve now actor targetId data fp d = Inr (r, d')"
  shows "on_file (find_row (act_contextId actor) (rd_id data) (reserveReversals d')) = Some (fp, r)
    \<and> authorize_reserve actor d' = authorize_reserve actor d"
  using assms
proof (rule cancel_reserve_Inr)
  fix original
  let ?v = "reversal_row actor targetId data now fp r"
  assume d': "d' = d\<lparr>reserveReversals := reserveReversals d @ [?v]\<rparr>"
    and fresh: "rd_id data \<notin> rid ` set (reserveReversals d)"
  have "insert_row m ?v (reserveReversals d) = Inr (reserveReversals d')" for m
    using fresh by (simp add: insert_row_def d')
  from on_file_insert [OF this]
  have "on_file (find_row (act_contextId actor) (rd_id data) (reserveReversals d')) = Some (fp, r)" by simp
  moreover have "authorize_reserve actor d' = authorize_reserve actor d"
    by (rule authorize_reserve_tables) (simp_all add: d')
  ultimately show ?thesis by simp
qed

interpretation reserve_cancel:
  recorded_write "\<lambda>(actor, i, dto). reserve_reverse_pre actor i dto" reserve_errors "\<lambda>(actor, i, dto). authorize_reserve actor"
    "\<lambda>(actor, i, dto) d. on_file (find_row (act_contextId actor) (rd_id (normalized_reverse dto)) (reserveReversals d))"
    "\<lambda>(actor, i, dto). cancel_print H actor i dto" "''Cancellation ID already has different content''"
    "\<lambda>now (actor, i, dto). cancel_reserve now actor (toLowerCase i) (normalized_reverse dto) (cancel_print H actor i dto)"
  for H
  by unfold_locales (auto dest!: cancel_reserve_on_file)

lemma reserve_create_call: "reserve_create.call H now (actor, dto) = createReserve H now actor dto"
  by (simp add: reserve_create.call_def createReserve_def Let_def)

lemma reserve_cancel_call: "reserve_cancel.call H now (actor, i, dto) = reverseReserve H now actor i dto"
  by (simp add: reserve_cancel.call_def reverseReserve_def Let_def)

text \<open>A reserve and its cancellation are each executed at most once, however often they are sent, and every
  success of one request hands out the same receipt.\<close>

theorem reserves_at_most_once:
  "effect_once d (retries (\<lambda>now. createReserve H now actor dto) instants d)
   \<and> same_receipts (fst (retries (\<lambda>now. createReserve H now actor dto) instants d))
   \<and> effect_once d (retries (\<lambda>now. reverseReserve H now actor reserveId cancel) instants d)
   \<and> same_receipts (fst (retries (\<lambda>now. reverseReserve H now actor reserveId cancel) instants d))"
  using reserve_create.once_and_same [of d H "(actor, dto)" instants]
    reserve_cancel.once_and_same [of d H "(actor, reserveId, cancel)" instants]
  unfolding reserve_create_call reserve_cancel_call by blast

section \<open>What a reserve does to the period\<close>

text \<open>The operating result does not read the reserves.\<close>

lemma operating_result_reserves:
  assumes "compute d c from to = Inr ov" "compute d' c from to = Inr ov'"
    and "sales d' = sales d" "saleItems d' = saleItems d" "expenses d' = expenses d" "expenseReversals d' = expenseReversals d"
  shows "ov_recordedOperatingResultMinor ov' = ov_recordedOperatingResultMinor ov"
proof -
  have items: "items_of d' = items_of d" using assms(4) by (simp add: items_of_def [abs_def])
  have sl: "sale_lines d' ss = sale_lines d ss" for ss by (simp add: sale_lines_def items)
  have si: "sales_in d' c lo hi = sales_in d c lo hi" "expenses_in d' c lo hi = expenses_in d c lo hi" for lo hi
    using assms(3,5,6) by (simp_all add: sales_in_def expenses_in_def)
  show ?thesis
    unfolding compute_figures(11,4,5,1,3) [OF assms(2)] compute_figures(11,4,5,1,3) [OF assms(1)] sl si by (rule refl)
qed

text \<open>Every cancellation names a reserve of its table (a foreign key).\<close>

definition reserve_refs :: "db \<Rightarrow> bool" where
  "reserve_refs d \<longleftrightarrow> distinct (map rid (reserves d)) \<and> (\<forall>v \<in> set (reserveReversals d). rev_target v \<in> rid ` set (reserves d))"

lemma normalized_reserve_simps [simp]:
  "cr_amountMinor (normalized_reserve dto) = cr_amountMinor dto"
  "cr_periodFrom (normalized_reserve dto) = cr_periodFrom dto" "cr_periodTo (normalized_reserve dto) = cr_periodTo dto"
  by (simp_all add: normalized_reserve_def)

lemma reserve_create_valid:
  "is_ok (reserve_create_pre actor dto) \<Longrightarrow> isCalendarDate (cr_periodFrom dto) \<and> isCalendarDate (cr_periodTo dto)"
  by (auto simp: reserve_create_pre_def split: sum.splits if_splits)

text \<open>A reserve sets its amount aside from exactly its period. When a creation is executed, what is
  potentially available in the period the reserve names falls by its amount, and every other period,
  overlapping ones included, and every other business keeps its figure.\<close>

theorem createReserve_sets_aside:
  assumes "createReserve H now actor dto d = (Inr (True, r), d')" "reserve_refs d"
    and "compute d c from to = Inr ov" "compute d' c from to = Inr ov'" "isCalendarDate from" "isCalendarDate to"
  shows "ov_potentiallyAvailableMinor ov' = ov_potentiallyAvailableMinor ov
    - (if c = act_contextId actor \<and> from = cr_periodFrom dto \<and> to = cr_periodTo dto then cr_amountMinor dto else 0)"
proof -
  let ?row = "reserve_row actor (normalized_reserve dto) now (reserve_print H actor dto)"
  from assms(1) have pre: "is_ok (reserve_create_pre actor dto)"
    and ins: "insert_reserve now actor (normalized_reserve dto) (reserve_print H actor dto) d = Inr (r, d')"
    by (auto simp: createReserve_def Let_def once_call_Inr record_once_created)
  from insert_reserve_Inr [OF ins] have d': "d' = d\<lparr>reserves := reserves d @ [?row]\<rparr>"
    and fresh: "cr_id (normalized_reserve dto) \<notin> rid ` set (reserves d)" by auto
  have "rev_target v \<noteq> cr_id (normalized_reserve dto)" if "v \<in> set (reserveReversals d)" for v
    using assms(2) fresh that unfolding reserve_refs_def by metis
  then have live: "active (reserveReversals d) ?row" by (auto simp: active_iff)
  have dates: "utc_date (cr_periodFrom dto) = utc_date from \<longleftrightarrow> from = cr_periodFrom dto"
    "utc_date (cr_periodTo dto) = utc_date to \<longleftrightarrow> to = cr_periodTo dto"
    using reserve_create_valid [OF pre] assms(5,6) utc_date_inj by metis+
  have "reserves_of d' c from to = reserves_of d c from to
      @ (if c = act_contextId actor \<and> from = cr_periodFrom dto \<and> to = cr_periodTo dto then [?row] else [])"
    using live dates by (auto simp: reserves_of_def in_context_def d')
  moreover have "ov_recordedOperatingResultMinor ov' = ov_recordedOperatingResultMinor ov"
    by (rule operating_result_reserves [OF assms(3,4)]) (simp_all add: d')
  ultimately show ?thesis
    by (simp add: compute_figures(12,10) [OF assms(3)] compute_figures(12,10) [OF assms(4)])
qed

definition sample_reserve :: create_reserve_dto where
  "sample_reserve = \<lparr>cr_id = ''R1'', cr_name = '' renta '', cr_amountMinor = 700, cr_currency = None,
     cr_periodFrom = ''2026-01-01'', cr_periodTo = ''2026-02-01'', cr_note = None, cr_occurredAt = 1770000000000,
     cr_createdByMemberId = ''m1'', cr_deviceId = ''d1''\<rparr>"

definition sample_reserved :: db where
  "sample_reserved = snd (createReserve (\<lambda>s. s) 1770000100000 ana sample_reserve sample_db)"

lemma sample_reserved_run: "\<exists>r. createReserve (\<lambda>s. s) 1770000100000 ana sample_reserve sample_db = (Inr (True, r), sample_reserved)"
proof -
  have "created (fst (createReserve (\<lambda>s. s) 1770000100000 ana sample_reserve sample_db))" by code_simp
  then obtain r where "fst (createReserve (\<lambda>s. s) 1770000100000 ana sample_reserve sample_db) = Inr (True, r)"
    by (cases "fst (createReserve (\<lambda>s. s) 1770000100000 ana sample_reserve sample_db)" rule: created.cases) auto
  then show ?thesis unfolding sample_reserved_def by (metis prod.collapse)
qed

lemma createReserve_sets_aside_witness:
  "\<exists>ov ov'. compute sample_db ''t1'' ''2026-01-01'' ''2026-02-01'' = Inr ov
     \<and> compute sample_reserved ''t1'' ''2026-01-01'' ''2026-02-01'' = Inr ov'
     \<and> ov_potentiallyAvailableMinor ov' = ov_potentiallyAvailableMinor ov - 700"
proof -
  have "is_ok (compute sample_db ''t1'' ''2026-01-01'' ''2026-02-01'')" "is_ok (compute sample_reserved ''t1'' ''2026-01-01'' ''2026-02-01'')"
    by code_simp+
  then obtain ov ov' where ov: "compute sample_db ''t1'' ''2026-01-01'' ''2026-02-01'' = Inr ov"
    "compute sample_reserved ''t1'' ''2026-01-01'' ''2026-02-01'' = Inr ov'" by (auto simp: is_ok_iff)
  have dates: "isCalendarDate ''2026-01-01''" "isCalendarDate ''2026-02-01''" and refs: "reserve_refs sample_db" by code_simp+
  obtain r where run: "createReserve (\<lambda>s. s) 1770000100000 ana sample_reserve sample_db = (Inr (True, r), sample_reserved)"
    using sample_reserved_run by blast
  from createReserve_sets_aside [OF run refs ov dates] ov show ?thesis by (auto simp: ana_def sample_reserve_def)
qed

text \<open>Cancelling a reserve gives its amount back to its period and touches no other figure, and a reserve is
  cancelled only while it stands.\<close>

theorem reverseReserve_gives_back:
  assumes "reverseReserve H now actor reserveId dto d = (Inr (True, r), d')" "reserve_refs d"
    and "compute d c from to = Inr ov" "compute d' c from to = Inr ov'"
  shows "\<exists>x. find_row (act_contextId actor) (toLowerCase reserveId) (reserves d) = Some x
    \<and> active (reserveReversals d) x \<and> \<not> active (reserveReversals d') x
    \<and> ov_potentiallyAvailableMinor ov' = ov_potentiallyAvailableMinor ov
        + (if ctx x = c \<and> rs_periodFrom x = utc_date from \<and> rs_periodTo x = utc_date to then rs_amountMinor x else 0)"
proof -
  let ?c = "act_contextId actor" and ?i = "toLowerCase reserveId"
  from assms(1) have "cancel_reserve now actor ?i (normalized_reverse dto) (cancel_print H actor reserveId dto) d = Inr (r, d')"
    by (auto simp: reverseReserve_def Let_def once_call_Inr record_once_created)
  then obtain x v where x: "find_row ?c ?i (reserves d) = Some x" "active (reserveReversals d) x"
    and d': "d' = d\<lparr>reserveReversals := reserveReversals d @ [v]\<rparr>" and v: "rev_target v = ?i" "ctx v = ?c"
    by (elim cancel_reserve_Inr) simp
  note mem = find_row_Some [OF x(1)]
  have dist: "distinct (map rid (reserves d))" using assms(2) by (simp add: reserve_refs_def)
  let ?P = "\<lambda>y. ctx y = c \<and> rs_periodFrom y = utc_date from \<and> rs_periodTo y = utc_date to"
  have rows: "reserves_of d c from to = [y \<leftarrow> reserves d. ?P y \<and> active (reserveReversals d) y]"
    "reserves_of d' c from to = [y \<leftarrow> reserves d. ?P y \<and> active (reserveReversals d @ [v]) y]"
    by (auto simp: reserves_of_def in_context_def d' intro!: filter_cong)
  have planned: "sum_list (map rs_amountMinor (reserves_of d' c from to)) = sum_list (map rs_amountMinor (reserves_of d c from to))
      - (if ?P x then rs_amountMinor x else 0)"
    unfolding rows by (rule sum_active_reversed [OF dist]) (use mem x v in auto)
  have "ov_recordedOperatingResultMinor ov' = ov_recordedOperatingResultMinor ov"
    by (rule operating_result_reserves [OF assms(3,4)]) (simp_all add: d')
  moreover have "\<not> active (reserveReversals d') x" using mem v by (simp add: d' active_snoc)
  ultimately show ?thesis using x planned
    by (auto simp: compute_figures(12,10) [OF assms(3)] compute_figures(12,10) [OF assms(4)])
qed

definition sample_cancel :: reverse_dto where
  "sample_cancel = \<lparr>rd_id = ''v9'', rd_reason = ''ya no'', rd_occurredAt = 1770000500000,
     rd_createdByMemberId = ''m1'', rd_deviceId = ''d1''\<rparr>"

lemma reverseReserve_gives_back_witness:
  "\<exists>ov ov'. compute sample_reserved ''t1'' ''2026-01-01'' ''2026-02-01'' = Inr ov
     \<and> compute (snd (reverseReserve (\<lambda>s. s) 1770000600000 ana ''R1'' sample_cancel sample_reserved)) ''t1'' ''2026-01-01'' ''2026-02-01'' = Inr ov'
     \<and> ov_potentiallyAvailableMinor ov' = ov_potentiallyAvailableMinor ov + 700"
proof -
  let ?run = "reverseReserve (\<lambda>s. s) 1770000600000 ana ''R1'' sample_cancel sample_reserved"
  have "created (fst ?run)" by code_simp
  then obtain r where "fst ?run = Inr (True, r)" by (cases "fst ?run" rule: created.cases) auto
  then have run: "?run = (Inr (True, r), snd ?run)" by (metis prod.collapse)
  have "is_ok (compute sample_reserved ''t1'' ''2026-01-01'' ''2026-02-01'')"
    "is_ok (compute (snd ?run) ''t1'' ''2026-01-01'' ''2026-02-01'')" by code_simp+
  then obtain ov ov' where ov: "compute sample_reserved ''t1'' ''2026-01-01'' ''2026-02-01'' = Inr ov"
    "compute (snd ?run) ''t1'' ''2026-01-01'' ''2026-02-01'' = Inr ov'" by (auto simp: is_ok_iff)
  have refs: "reserve_refs sample_reserved" by code_simp
  have "case find_row ''t1'' (toLowerCase ''R1'') (reserves sample_reserved) of None \<Rightarrow> False
    | Some x \<Rightarrow> ctx x = ''t1'' \<and> rs_periodFrom x = utc_date ''2026-01-01'' \<and> rs_periodTo x = utc_date ''2026-02-01'' \<and> rs_amountMinor x = 700"
    by code_simp
  with reverseReserve_gives_back [OF run refs ov] ov show ?thesis by (auto simp: ana_def)
qed

end
