(* ===== verification/Corrections.thy ===== *)
theory Corrections
  imports Facts Agreements
begin

text \<open>
  What the corrections of contributions, expenses and work shifts have in common: the request, the
  checks on it, the row and the receipt. A correction voids a recorded fact and may record another
  one in its place, in the same transaction. The rows of such a table and of the table of its
  corrections form a \<open>ledger\<close>, whose invariant and sums are studied here once.
\<close>

section \<open>Requests\<close>

record 'r correct_dto = reverse_dto +
  rd_replacement :: "'r option"

text \<open>The normalized data of a correction keeps the reason as it was sent.\<close>

definition normalized_correction :: "'r correct_dto \<Rightarrow> reverse_dto" where
  "normalized_correction dto = \<lparr>rd_id = toLowerCase (rd_id dto), rd_reason = rd_reason dto,
     rd_occurredAt = rd_occurredAt dto, rd_createdByMemberId = toLowerCase (rd_createdByMemberId dto),
     rd_deviceId = toLowerCase (rd_deviceId dto)\<rparr>"

definition json_correction :: "string \<Rightarrow> uuid \<Rightarrow> reverse_dto \<Rightarrow> (string \<times> jsval) list" where
  "json_correction target targetId data =
     [(''id'', JStr (rd_id data)), (target, JStr targetId),
      (''createdByMemberId'', JStr (rd_createdByMemberId data)), (''deviceId'', JStr (rd_deviceId data)),
      (''occurredAt'', JStr (to_iso (rd_occurredAt data))), (''reason'', JStr (rd_reason data))]"

text \<open>
  The checks before the transaction: the member and the device of the request, and of the replacement
  (its identity, member and device), are the selected ones, and all identities differ.
\<close>

definition correction_pre :: "actor \<Rightarrow> uuid \<Rightarrow> 'r correct_dto \<Rightarrow> (uuid \<times> uuid \<times> uuid) option \<Rightarrow> unit result" where
  "correction_pre actor target dto replacement =
     (case checkSelection actor (rd_createdByMemberId dto) (rd_deviceId dto) of Inl e \<Rightarrow> Inl e
      | Inr _ \<Rightarrow>
       (case (case replacement of None \<Rightarrow> Inr () | Some (_, m, v) \<Rightarrow> checkSelection actor m v) of Inl e \<Rightarrow> Inl e
        | Inr _ \<Rightarrow>
          if distinct (toLowerCase (rd_id dto) # toLowerCase target
               # (case replacement of None \<Rightarrow> [] | Some (i, _) \<Rightarrow> [toLowerCase i]))
          then Inr () else Inl (BadRequest ''Correction identities must be distinct'')))"

definition correction_row ::
  "actor \<Rightarrow> uuid \<Rightarrow> reverse_dto \<Rightarrow> instant \<Rightarrow> string \<Rightarrow> jsval \<Rightarrow> uuid option \<Rightarrow> correction"
where
  "correction_row actor targetId data now requestFp receipt replacementId =
     \<lparr>rid = rd_id data, ctx = act_contextId actor, f_occurredAt = rd_occurredAt data, f_receivedAt = now,
      f_createdByMemberId = rd_createdByMemberId data, f_createdByAccountId = act_accountId actor,
      f_deviceId = rd_deviceId data, f_requestFingerprint = requestFp, f_creationResponse = receipt,
      rev_target = targetId, rev_reason = rd_reason data, rev_replacementId = replacementId\<rparr>"

text \<open>The target and the replacement of a correction are unique in its table.\<close>

definition insert_correction :: "string \<Rightarrow> correction \<Rightarrow> correction list \<Rightarrow> correction list result" where
  "insert_correction model v revs =
     (if \<exists>w \<in> set revs. rev_target w = rev_target v
           \<or> rev_replacementId v \<noteq> None \<and> rev_replacementId w = rev_replacementId v
      then Inl (UniqueViolation model)
      else insert_row model v revs)"

definition correction_receipt ::
  "actor \<Rightarrow> (string \<times> jsval) list \<Rightarrow> instant \<Rightarrow> string \<Rightarrow> uuid option \<Rightarrow> jsval \<Rightarrow> jsval \<Rightarrow> jsval"
where
  "correction_receipt actor data now replacementKey replacementId original replacement =
     JObj (data @ [(''contextId'', JStr (act_contextId actor)),
       (''createdByAccountId'', JStr (act_accountId actor)), (''receivedAt'', JStr (to_iso now)),
       (replacementKey, json_option JStr replacementId), (''original'', original), (''replacement'', replacement)])"

text \<open>
  The body of a correction, the same text in the three services: the row that is voided must be there
  and stand, the replacement is recorded, and the correction is inserted. A \<open>ledger\<close> says which
  tables these are and how the service calls them.
\<close>

record 'a ledger =
  lg_noun :: string
  lg_model :: string
  lg_rows :: "db \<Rightarrow> 'a list"
  lg_revs :: "db \<Rightarrow> correction list"
  lg_put :: "correction list \<Rightarrow> db \<Rightarrow> db"

definition correct_fact ::
  "'a row_scheme ledger \<Rightarrow> actor \<Rightarrow> uuid \<Rightarrow> (db \<Rightarrow> (jsval \<times> db) result)
    \<Rightarrow> ('a row_scheme \<Rightarrow> jsval \<Rightarrow> correction) \<Rightarrow> db \<Rightarrow> (jsval \<times> db) result"
where
  "correct_fact L actor targetId replace row d =
     (case find_row (act_contextId actor) targetId (lg_rows L d) of
        None \<Rightarrow> Inl (NotFound (lg_noun L @ '' not found''))
      | Some original \<Rightarrow>
          if reversal_of (lg_revs L d) original \<noteq> None then Inl (Conflict (lg_noun L @ '' already reversed''))
          else
           (case replace d of Inl e \<Rightarrow> Inl e
            | Inr (replacement, d1) \<Rightarrow>
               (case insert_correction (lg_model L) (row original replacement) (lg_revs L d1) of
                  Inl e \<Rightarrow> Inl e
                | Inr revs \<Rightarrow> Inr (f_creationResponse (row original replacement), lg_put L revs d1))))"

lemma correction_row_simps [simp]:
  "rid (correction_row actor targetId data now fp r i) = rd_id data"
  "ctx (correction_row actor targetId data now fp r i) = act_contextId actor"
  "f_requestFingerprint (correction_row actor targetId data now fp r i) = fp"
  "f_creationResponse (correction_row actor targetId data now fp r i) = r"
  "rev_target (correction_row actor targetId data now fp r i) = targetId"
  "rev_replacementId (correction_row actor targetId data now fp r i) = i"
  by (simp_all add: correction_row_def)

lemma normalized_correction_id [simp]: "rd_id (normalized_correction dto) = toLowerCase (rd_id dto)"
  by (simp add: normalized_correction_def)

lemma insert_correction_Inr:
  assumes "insert_correction model v revs = Inr revs'"
  shows "revs' = revs @ [v] \<and> rid v \<notin> rid ` set revs \<and> rev_target v \<notin> rev_target ` set revs
    \<and> (rev_replacementId v \<noteq> None \<longrightarrow> rev_replacementId v \<notin> rev_replacementId ` set revs)"
proof -
  from assms have free: "\<forall>w \<in> set revs. rev_target w \<noteq> rev_target v
      \<and> (rev_replacementId v \<noteq> None \<longrightarrow> rev_replacementId w \<noteq> rev_replacementId v)"
    and row: "insert_row model v revs = Inr revs'"
    by (auto simp: insert_correction_def split: if_splits)
  from insert_row_Inr [OF row] free show ?thesis by (auto simp: image_iff)
qed

lemma correct_fact_Inr:
  assumes "correct_fact L actor targetId replace row d = Inr (r, d')"
  obtains original replacement d1 v where
    "find_row (act_contextId actor) targetId (lg_rows L d) = Some original" "active (lg_revs L d) original"
    "replace d = Inr (replacement, d1)" "v = row original replacement" "r = f_creationResponse v"
    "insert_correction (lg_model L) v (lg_revs L d1) = Inr (lg_revs L d1 @ [v])"
    "d' = lg_put L (lg_revs L d1 @ [v]) d1"
  using assms
  by (auto simp: correct_fact_def active_def split: sum.splits option.splits if_splits)
    (metis insert_correction_Inr)

lemma correction_pre_distinct:
  "is_ok (correction_pre actor target dto replacement) \<Longrightarrow> toLowerCase (rd_id dto) \<noteq> toLowerCase target
     \<and> (\<forall>i m v. replacement = Some (i, m, v) \<longrightarrow> toLowerCase i \<noteq> toLowerCase target \<and> toLowerCase i \<noteq> toLowerCase (rd_id dto))"
  by (auto simp: correction_pre_def split: sum.splits if_splits option.splits)

section \<open>Ledgers\<close>

text \<open>
  A ledger: identities are unique, no two corrections void the same row or put the same row in place
  of another, and what a correction voids and what it puts in place are two rows of its own business.
\<close>

definition names_row :: "('a row_scheme) list \<Rightarrow> string \<Rightarrow> uuid \<Rightarrow> bool" where
  "names_row rows c i \<longleftrightarrow> (\<exists>r \<in> set rows. rid r = i \<and> ctx r = c)"

definition linked :: "('a row_scheme) list \<Rightarrow> correction \<Rightarrow> bool" where
  "linked rows v \<longleftrightarrow> names_row rows (ctx v) (rev_target v)
     \<and> (case rev_replacementId v of None \<Rightarrow> True | Some i \<Rightarrow> names_row rows (ctx v) i \<and> i \<noteq> rev_target v)"

definition ledger_ok :: "('a row_scheme) list \<Rightarrow> correction list \<Rightarrow> bool" where
  "ledger_ok rows revs \<longleftrightarrow> distinct (map rid rows) \<and> distinct (map rid revs) \<and> distinct (map rev_target revs)
     \<and> distinct (filter (\<lambda>i. i \<noteq> None) (map rev_replacementId revs)) \<and> list_all (linked rows) revs"

lemma ledger_ok_empty: "ledger_ok [] []"
  by (simp add: ledger_ok_def)

lemma names_row_find: "find_row c i rows = Some r \<Longrightarrow> names_row rows c i"
  by (auto simp: names_row_def dest: find_row_Some)

lemma linked_snoc: "linked rows v \<Longrightarrow> linked (rows @ [x]) v"
  by (auto simp: linked_def names_row_def split: option.splits)

lemma ledger_insert:
  assumes "ledger_ok rows revs" "rid x \<notin> rid ` set rows"
  shows "ledger_ok (rows @ [x]) revs"
  using assms by (auto simp: ledger_ok_def list_all_iff linked_snoc)

lemma ledger_targets:
  "ledger_ok rows revs \<Longrightarrow> v \<in> set revs \<Longrightarrow> rev_target v \<in> rid ` set rows"
  by (force simp: ledger_ok_def list_all_iff linked_def names_row_def)

lemma fresh_active:
  assumes "ledger_ok rows revs" "rid x \<notin> rid ` set rows"
  shows "active revs x"
proof -
  have "rev_target v \<noteq> rid x" if "v \<in> set revs" for v
    using ledger_targets [OF assms(1) that] assms(2) by metis
  then show ?thesis by (auto simp: active_iff)
qed

lemma ledger_correct:
  assumes "ledger_ok rows revs" "insert_correction model v revs = Inr revs'" "linked rows v"
  shows "ledger_ok rows revs'"
  using insert_correction_Inr [OF assms(2)] assms(1,3) by (auto simp: ledger_ok_def)

lemma ledger_correct_with:
  assumes ok: "ledger_ok rows revs" and o: "find_row c targetId rows = Some original"
    and ins: "insert_correction model v revs = Inr revs'"
    and v: "ctx v = c" "rev_target v = targetId" "rev_replacementId v = map_option rid new"
    and fresh: "\<And>x. new = Some x \<Longrightarrow> rid x \<notin> rid ` set rows" and new: "\<And>x. new = Some x \<Longrightarrow> ctx x = c"
  shows "ledger_ok (rows @ (case new of None \<Rightarrow> [] | Some x \<Rightarrow> [x])) revs'"
proof (cases new)
  case None
  with names_row_find [OF o] v have "linked rows v" by (simp add: linked_def)
  with ledger_correct [OF ok ins] None show ?thesis by simp
next
  case (Some x)
  note mem = find_row_Some [OF o]
  from fresh [OF Some] mem have neq: "rid x \<noteq> targetId" by (metis imageI)
  have "names_row rows c targetId" by (rule names_row_find [OF o])
  then have "linked (rows @ [x]) v"
    using new [OF Some] neq Some by (simp add: linked_def v names_row_def)
  from ledger_correct [OF ledger_insert [OF ok fresh [OF Some]] ins this] Some show ?thesis by simp
qed

lemma on_file_correction:
  assumes "insert_correction model v revs = Inr revs'" "rid v = i" "ctx v = c"
  shows "on_file (find_row c i revs') = Some (f_requestFingerprint v, f_creationResponse v)"
  using assms(1) on_file_insert [OF _ assms(2,3)] by (auto simp: insert_correction_def split: if_splits)

text \<open>
  A correction takes the amount of the row it voids out of every sum over the rows that stand, and
  adds the amount of the row it puts in place.
\<close>

definition amount_if :: "('a \<Rightarrow> bool) \<Rightarrow> ('a \<Rightarrow> int) \<Rightarrow> 'a option \<Rightarrow> int" where
  "amount_if P f x = (case x of None \<Rightarrow> 0 | Some y \<Rightarrow> if P y then f y else 0)"

lemma amount_if_simps [simp]: "amount_if P f None = 0" "amount_if P f (Some y) = (if P y then f y else 0)"
  by (simp_all add: amount_if_def)

definition standing :: "('b reversal_scheme) list \<Rightarrow> ('a row_scheme \<Rightarrow> bool) \<Rightarrow> ('a row_scheme \<Rightarrow> int) \<Rightarrow> ('a row_scheme) list \<Rightarrow> int"
where
  "standing revs P f rows = sum_list (map f [x \<leftarrow> rows. P x \<and> active revs x])"

lemma standing_insert:
  assumes "ledger_ok rows revs" "rid x \<notin> rid ` set rows"
  shows "standing revs P f (rows @ [x]) = standing revs P f rows + amount_if P f (Some x)"
  using fresh_active [OF assms] by (simp add: standing_def)

lemma standing_correct:
  assumes "ledger_ok rows revs" "r \<in> set rows" "active revs r" "rev_target v = rid r" "ctx v = ctx r"
    and "\<And>x. new = Some x \<Longrightarrow> rid x \<notin> rid ` set rows"
  shows "standing (revs @ [v]) P f (rows @ (case new of None \<Rightarrow> [] | Some x \<Rightarrow> [x]))
    = standing revs P f rows - amount_if P f (Some r) + amount_if P f new"
proof -
  have dist: "distinct (map rid rows)" using assms(1) by (simp add: ledger_ok_def)
  have old: "standing (revs @ [v]) P f rows = standing revs P f rows - amount_if P f (Some r)"
    using sum_active_reversed [OF dist assms(2-5), of f P] by (simp add: standing_def)
  show ?thesis
  proof (cases new)
    case None
    with old show ?thesis by simp
  next
    case (Some x)
    with assms have "active revs x" "rid x \<noteq> rid r" using fresh_active by blast+
    with Some old assms(4) show ?thesis by (simp add: standing_def active_snoc)
  qed
qed

section \<open>Evaluation\<close>

text \<open>What a run on concrete rows unfolds; the texts that only enter a digest or a receipt stay folded.\<close>

lemmas run_defs = once_call_def transaction_def record_once_def correction_pre_def checkSelection_def
  authorize_books_def active_socio_def active_member_def find_row_def correct_fact_def reversal_of_def
  insert_correction_def insert_row_def Let_def

end
