(* ===== verification/Contributions.thy ===== *)
theory Contributions
  imports Corrections Overview Sample
begin

text \<open>
  The contributions of the partners (\<open>src/finance/contributions.service.ts\<close>): money an active partner
  puts into the business, recorded once, and its correction. A call reads the clock once per row it
  writes: \<open>fst t\<close> for the contribution and \<open>snd t\<close> for the correction.
\<close>

section \<open>Requests\<close>

record create_contribution_dto =
  cc_id :: uuid
  cc_memberId :: uuid
  cc_createdByMemberId :: uuid
  cc_deviceId :: uuid
  cc_amountMinor :: int
  cc_occurredAt :: instant
  cc_note :: "string option"

definition normalized_contribution :: "create_contribution_dto \<Rightarrow> create_contribution_dto" where
  "normalized_contribution dto = \<lparr>cc_id = toLowerCase (cc_id dto), cc_memberId = toLowerCase (cc_memberId dto),
     cc_createdByMemberId = toLowerCase (cc_createdByMemberId dto), cc_deviceId = toLowerCase (cc_deviceId dto),
     cc_amountMinor = cc_amountMinor dto, cc_occurredAt = cc_occurredAt dto, cc_note = cc_note dto\<rparr>"

definition json_contribution :: "create_contribution_dto \<Rightarrow> (string \<times> jsval) list" where
  "json_contribution data =
     [(''id'', JStr (cc_id data)), (''memberId'', JStr (cc_memberId data)),
      (''createdByMemberId'', JStr (cc_createdByMemberId data)), (''deviceId'', JStr (cc_deviceId data)),
      (''amountMinor'', JNum (cc_amountMinor data)), (''occurredAt'', JStr (to_iso (cc_occurredAt data))),
      (''note'', json_option JStr (cc_note data))]"

definition contribution_print :: "(string \<Rightarrow> string) \<Rightarrow> actor \<Rightarrow> create_contribution_dto \<Rightarrow> string \<Rightarrow> string" where
  "contribution_print H actor dto operation = fact_digest H actor operation (json_contribution (normalized_contribution dto))"

text \<open>Both calls turn a violated unique key into a conflict.\<close>

definition contribution_errors :: "string \<Rightarrow> failure \<Rightarrow> failure" where
  "contribution_errors message e = (if isUniqueViolation e then Conflict message else e)"

section \<open>Recording\<close>

definition contribution_receipt :: "actor \<Rightarrow> create_contribution_dto \<Rightarrow> instant \<Rightarrow> jsval" where
  "contribution_receipt actor data now = JObj (json_contribution data
     @ [(''contextId'', JStr (act_contextId actor)), (''currency'', JStr ''MXN''),
        (''createdByAccountId'', JStr (act_accountId actor)), (''receivedAt'', JStr (to_iso now))])"

definition contribution_row :: "actor \<Rightarrow> create_contribution_dto \<Rightarrow> instant \<Rightarrow> string \<Rightarrow> contribution" where
  "contribution_row actor data now requestFp =
     \<lparr>rid = cc_id data, ctx = act_contextId actor, f_occurredAt = cc_occurredAt data, f_receivedAt = now,
      f_createdByMemberId = cc_createdByMemberId data, f_createdByAccountId = act_accountId actor,
      f_deviceId = cc_deviceId data, f_requestFingerprint = requestFp,
      f_creationResponse = contribution_receipt actor data now, co_memberId = cc_memberId data,
      co_amountMinor = cc_amountMinor data, co_currency = ''MXN'', co_note = cc_note data\<rparr>"

definition insert_contribution ::
  "instant \<Rightarrow> actor \<Rightarrow> create_contribution_dto \<Rightarrow> string \<Rightarrow> db \<Rightarrow> (jsval \<times> db) result"
where
  "insert_contribution now actor dto requestFp d =
     (let data = normalized_contribution dto in
      if \<not> active_socio (act_contextId actor) (cc_memberId data) d then Inl Forbidden
      else (case insert_row ''Contribution'' (contribution_row actor data now requestFp) (contributions d) of
              Inl e \<Rightarrow> Inl e
            | Inr rows \<Rightarrow> Inr (contribution_receipt actor data now, d\<lparr>contributions := rows\<rparr>)))"

definition createContribution ::
  "(string \<Rightarrow> string) \<Rightarrow> instant \<Rightarrow> actor \<Rightarrow> create_contribution_dto \<Rightarrow> db \<Rightarrow> (bool \<times> jsval) result \<times> db"
where
  "createContribution H now actor dto =
     (let requestFp = contribution_print H actor dto ''create'' in
      once_call (checkSelection actor (cc_createdByMemberId dto) (cc_deviceId dto))
        (contribution_errors ''Contribution identity already exists'')
        (record_once (authorize_books actor)
           (\<lambda>d. on_file (find_row (act_contextId actor) (toLowerCase (cc_id dto)) (contributions d)))
           requestFp ''Contribution ID already has different content''
           (insert_contribution now actor dto requestFp)))"

section \<open>Correction\<close>

type_synonym contribution_correction = "create_contribution_dto correct_dto"

definition contribution_identity :: "create_contribution_dto \<Rightarrow> uuid \<times> uuid \<times> uuid" where
  "contribution_identity dto = (cc_id dto, cc_createdByMemberId dto, cc_deviceId dto)"

definition contribution_correction_print ::
  "(string \<Rightarrow> string) \<Rightarrow> actor \<Rightarrow> uuid \<Rightarrow> contribution_correction \<Rightarrow> string"
where
  "contribution_correction_print H actor target dto =
     digest H (json_actor actor
       @ json_correction ''contributionId'' (toLowerCase target) (normalized_correction dto)
       @ [(''replacement'', json_option (\<lambda>r. JObj (json_contribution (normalized_contribution r))) (rd_replacement dto))])"

text \<open>The replacement is recorded by the same routine, with a fingerprint of its own.\<close>

definition replace_contribution ::
  "(string \<Rightarrow> string) \<Rightarrow> instant \<Rightarrow> actor \<Rightarrow> contribution_correction \<Rightarrow> db \<Rightarrow> (jsval \<times> db) result"
where
  "replace_contribution H now actor dto d =
     (case rd_replacement dto of None \<Rightarrow> Inr (JNull, d)
      | Some r \<Rightarrow>
          if find_row (act_contextId actor) (toLowerCase (cc_id r)) (contributions d) \<noteq> None
          then Inl (Conflict ''Replacement ID already exists'')
          else insert_contribution now actor r
                 (contribution_print H actor r (''replacement:'' @ toLowerCase (rd_id dto))) d)"

definition contribution_ledger :: "contribution ledger" where
  "contribution_ledger = \<lparr>lg_noun = ''Contribution'', lg_model = ''ContributionReversal'', lg_rows = contributions,
     lg_revs = contributionReversals, lg_put = (\<lambda>revs d. d\<lparr>contributionReversals := revs\<rparr>)\<rparr>"

definition contribution_correction_row ::
  "instant \<Rightarrow> actor \<Rightarrow> uuid \<Rightarrow> contribution_correction \<Rightarrow> string \<Rightarrow> contribution \<Rightarrow> jsval \<Rightarrow> correction"
where
  "contribution_correction_row now actor targetId dto requestFp original replacement =
     (let data = normalized_correction dto;
          replacementId = map_option (\<lambda>r. toLowerCase (cc_id r)) (rd_replacement dto) in
      correction_row actor targetId data now requestFp
        (correction_receipt actor (json_correction ''contributionId'' targetId data) now
           ''replacementContributionId'' replacementId (f_creationResponse original) replacement)
        replacementId)"

definition correct_contribution ::
  "(string \<Rightarrow> string) \<Rightarrow> instant \<times> instant \<Rightarrow> actor \<Rightarrow> uuid \<Rightarrow> contribution_correction \<Rightarrow> string \<Rightarrow> db
    \<Rightarrow> (jsval \<times> db) result"
where
  "correct_contribution H t actor targetId dto requestFp =
     correct_fact contribution_ledger actor targetId (replace_contribution H (fst t) actor dto)
       (contribution_correction_row (snd t) actor targetId dto requestFp)"

definition reverseContribution ::
  "(string \<Rightarrow> string) \<Rightarrow> instant \<times> instant \<Rightarrow> actor \<Rightarrow> uuid \<Rightarrow> contribution_correction \<Rightarrow> db
    \<Rightarrow> (bool \<times> jsval) result \<times> db"
where
  "reverseContribution H t actor contributionId dto =
     (let requestFp = contribution_correction_print H actor contributionId dto in
      once_call (correction_pre actor contributionId dto (map_option contribution_identity (rd_replacement dto)))
        (contribution_errors ''Correction identity already exists'')
        (record_once (authorize_books actor)
           (\<lambda>d. on_file (find_row (act_contextId actor) (toLowerCase (rd_id dto)) (contributionReversals d)))
           requestFp ''Reversal ID already has different content''
           (correct_contribution H t actor (toLowerCase contributionId) dto requestFp)))"

section \<open>Inversion\<close>

lemma normalized_contribution_simps [simp]:
  "cc_id (normalized_contribution dto) = toLowerCase (cc_id dto)"
  "cc_amountMinor (normalized_contribution dto) = cc_amountMinor dto"
  "cc_occurredAt (normalized_contribution dto) = cc_occurredAt dto"
  by (simp_all add: normalized_contribution_def)

lemma contribution_row_simps [simp]:
  "rid (contribution_row actor data now fp) = cc_id data"
  "ctx (contribution_row actor data now fp) = act_contextId actor"
  "f_requestFingerprint (contribution_row actor data now fp) = fp"
  "f_creationResponse (contribution_row actor data now fp) = contribution_receipt actor data now"
  "f_occurredAt (contribution_row actor data now fp) = cc_occurredAt data"
  "co_amountMinor (contribution_row actor data now fp) = cc_amountMinor data"
  by (simp_all add: contribution_row_def)

lemma contribution_errors_conflict [simp]: "contribution_errors m (Conflict x) = Conflict x"
  by (simp add: contribution_errors_def isUniqueViolation_def)

text \<open>The row a request writes at an instant.\<close>

definition recorded_contribution :: "(string \<Rightarrow> string) \<Rightarrow> instant \<Rightarrow> actor \<Rightarrow> string \<Rightarrow> create_contribution_dto \<Rightarrow> contribution" where
  "recorded_contribution H now actor operation dto =
     contribution_row actor (normalized_contribution dto) now (contribution_print H actor dto operation)"

lemma recorded_contribution_simps [simp]:
  "rid (recorded_contribution H now actor operation dto) = toLowerCase (cc_id dto)"
  "ctx (recorded_contribution H now actor operation dto) = act_contextId actor"
  "f_occurredAt (recorded_contribution H now actor operation dto) = cc_occurredAt dto"
  "co_amountMinor (recorded_contribution H now actor operation dto) = cc_amountMinor dto"
  by (simp_all add: recorded_contribution_def)

lemma insert_contribution_Inr:
  assumes "insert_contribution now actor dto (contribution_print H actor dto operation) d = Inr (r, d')"
  shows "insert_row ''Contribution'' (recorded_contribution H now actor operation dto) (contributions d) = Inr (contributions d')
    \<and> d' = d\<lparr>contributions := contributions d @ [recorded_contribution H now actor operation dto]\<rparr>
    \<and> toLowerCase (cc_id dto) \<notin> rid ` set (contributions d)
    \<and> r = f_creationResponse (recorded_contribution H now actor operation dto)"
  using assms
  by (auto simp: insert_contribution_def recorded_contribution_def Let_def split: sum.splits if_splits
      dest: insert_row_Inr)

lemma createContribution_Inr:
  assumes "createContribution H now actor dto d = (Inr (True, r), d')"
  shows "d' = d\<lparr>contributions := contributions d @ [recorded_contribution H now actor ''create'' dto]\<rparr>
    \<and> toLowerCase (cc_id dto) \<notin> rid ` set (contributions d)"
proof -
  from assms have "insert_contribution now actor dto (contribution_print H actor dto ''create'') d = Inr (r, d')"
    by (simp add: createContribution_def Let_def once_call_Inr record_once_created)
  from insert_contribution_Inr [OF this] show ?thesis by simp
qed

text \<open>The rows a correction adds.\<close>

definition replacing_contribution ::
  "(string \<Rightarrow> string) \<Rightarrow> instant \<Rightarrow> actor \<Rightarrow> contribution_correction \<Rightarrow> contribution option"
where
  "replacing_contribution H now actor dto =
     map_option (recorded_contribution H now actor (''replacement:'' @ toLowerCase (rd_id dto))) (rd_replacement dto)"

lemma replace_contribution_Inr:
  assumes "replace_contribution H now actor dto d = Inr (r, d')"
  shows "d' = d\<lparr>contributions := contributions d
        @ (case replacing_contribution H now actor dto of None \<Rightarrow> [] | Some x \<Rightarrow> [x])\<rparr>
    \<and> (\<forall>x. replacing_contribution H now actor dto = Some x \<longrightarrow> rid x \<notin> rid ` set (contributions d))"
  using assms
  by (auto simp: replace_contribution_def replacing_contribution_def dest: insert_contribution_Inr
      split: option.splits if_splits)

lemma contribution_correction_row_simps [simp]:
  "rid (contribution_correction_row now actor targetId dto fp x y) = toLowerCase (rd_id dto)"
  "ctx (contribution_correction_row now actor targetId dto fp x y) = act_contextId actor"
  "f_requestFingerprint (contribution_correction_row now actor targetId dto fp x y) = fp"
  "rev_target (contribution_correction_row now actor targetId dto fp x y) = targetId"
  "rev_replacementId (contribution_correction_row now actor targetId dto fp x y)
     = map_option (\<lambda>r. toLowerCase (cc_id r)) (rd_replacement dto)"
  by (simp_all add: contribution_correction_row_def Let_def)

lemma correct_contribution_Inr:
  assumes "correct_contribution H t actor targetId dto fp d = Inr (r, d')"
  obtains original v where
    "find_row (act_contextId actor) targetId (contributions d) = Some original"
    "active (contributionReversals d) original"
    "rid v = toLowerCase (rd_id dto)" "ctx v = act_contextId actor" "f_requestFingerprint v = fp"
    "f_creationResponse v = r" "rev_target v = targetId"
    "rev_replacementId v = map_option rid (replacing_contribution H (fst t) actor dto)"
    "insert_correction ''ContributionReversal'' v (contributionReversals d) = Inr (contributionReversals d')"
    "d' = d\<lparr>contributions := contributions d
        @ (case replacing_contribution H (fst t) actor dto of None \<Rightarrow> [] | Some x \<Rightarrow> [x]),
      contributionReversals := contributionReversals d @ [v]\<rparr>"
    "\<forall>x. replacing_contribution H (fst t) actor dto = Some x \<longrightarrow> rid x \<notin> rid ` set (contributions d)"
  using assms unfolding correct_contribution_def
proof (rule correct_fact_Inr)
  fix original replacement d1 v
  assume o: "find_row (act_contextId actor) targetId (lg_rows contribution_ledger d) = Some original"
    "active (lg_revs contribution_ledger d) original"
    and rep: "replace_contribution H (fst t) actor dto d = Inr (replacement, d1)"
    and v: "v = contribution_correction_row (snd t) actor targetId dto fp original replacement"
    "r = f_creationResponse v"
    and ins: "insert_correction (lg_model contribution_ledger) v (lg_revs contribution_ledger d1)
      = Inr (lg_revs contribution_ledger d1 @ [v])"
    and d': "d' = lg_put contribution_ledger (lg_revs contribution_ledger d1 @ [v]) d1"
  note d1 = replace_contribution_Inr [OF rep]
  show thesis
  proof (rule that [of original v])
    show "rev_replacementId v = map_option rid (replacing_contribution H (fst t) actor dto)"
      by (cases "rd_replacement dto") (simp_all add: v replacing_contribution_def)
  qed (use o v ins d' d1 in \<open>simp_all add: contribution_ledger_def\<close>)
qed

section \<open>Idempotency\<close>

lemma insert_contribution_writes:
  assumes "insert_contribution now actor dto (contribution_print H actor dto operation) d = Inr (r, d')"
  shows "on_file (find_row (act_contextId actor) (toLowerCase (cc_id dto)) (contributions d'))
      = Some (contribution_print H actor dto operation, r)
    \<and> authorize_books actor d' = authorize_books actor d"
proof -
  note w = insert_contribution_Inr [OF assms]
  from w have r: "r = f_creationResponse (recorded_contribution H now actor operation dto)" by simp
  have "on_file (find_row (act_contextId actor) (toLowerCase (cc_id dto)) (contributions d'))
      = Some (f_requestFingerprint (recorded_contribution H now actor operation dto), r)"
    unfolding r by (rule on_file_insert [OF conjunct1 [OF w]]) simp_all
  moreover have "authorize_books actor d' = authorize_books actor d"
    by (rule authorize_books_tables) (use w in simp_all)
  ultimately show ?thesis by (simp add: recorded_contribution_def)
qed

interpretation contribution_create:
  recorded_write "\<lambda>(actor, dto). checkSelection actor (cc_createdByMemberId dto) (cc_deviceId dto)"
    "contribution_errors ''Contribution identity already exists''" "\<lambda>(actor, dto). authorize_books actor"
    "\<lambda>(actor, dto) d. on_file (find_row (act_contextId actor) (toLowerCase (cc_id dto)) (contributions d))"
    "\<lambda>(actor, dto). contribution_print H actor dto ''create''" "''Contribution ID already has different content''"
    "\<lambda>now (actor, dto). insert_contribution now actor dto (contribution_print H actor dto ''create'')"
  for H
  by unfold_locales (auto dest!: insert_contribution_writes)

lemma correct_contribution_writes:
  assumes "correct_contribution H t actor targetId dto fp d = Inr (r, d')"
  shows "on_file (find_row (act_contextId actor) (toLowerCase (rd_id dto)) (contributionReversals d')) = Some (fp, r)
    \<and> authorize_books actor d' = authorize_books actor d"
  using assms
proof (rule correct_contribution_Inr)
  fix original v
  assume v: "rid v = toLowerCase (rd_id dto)" "ctx v = act_contextId actor" "f_requestFingerprint v = fp"
      "f_creationResponse v = r"
    and ins: "insert_correction ''ContributionReversal'' v (contributionReversals d) = Inr (contributionReversals d')"
    and d': "d' = d\<lparr>contributions := contributions d
        @ (case replacing_contribution H (fst t) actor dto of None \<Rightarrow> [] | Some x \<Rightarrow> [x]),
      contributionReversals := contributionReversals d @ [v]\<rparr>"
  have "authorize_books actor d' = authorize_books actor d"
    by (rule authorize_books_tables) (simp_all add: d')
  with on_file_correction [OF ins v(1,2)] v(3,4) show ?thesis by simp
qed

interpretation contribution_correct:
  recorded_write
    "\<lambda>(actor, i, dto). correction_pre actor i dto (map_option contribution_identity (rd_replacement dto))"
    "contribution_errors ''Correction identity already exists''" "\<lambda>(actor, i, dto). authorize_books actor"
    "\<lambda>(actor, i, dto) d. on_file (find_row (act_contextId actor) (toLowerCase (rd_id dto)) (contributionReversals d))"
    "\<lambda>(actor, i, dto). contribution_correction_print H actor i dto" "''Reversal ID already has different content''"
    "\<lambda>t (actor, i, dto). correct_contribution H t actor (toLowerCase i) dto (contribution_correction_print H actor i dto)"
  for H
  by unfold_locales (auto dest!: correct_contribution_writes)

lemma contribution_create_call: "contribution_create.call H now (actor, dto) = createContribution H now actor dto"
  by (simp add: contribution_create.call_def createContribution_def Let_def)

lemma contribution_correct_call: "contribution_correct.call H t (actor, i, dto) = reverseContribution H t actor i dto"
  by (simp add: contribution_correct.call_def reverseContribution_def Let_def)

section \<open>The ledger of contributions\<close>

definition contributions_ok :: "db \<Rightarrow> bool" where
  "contributions_ok d \<longleftrightarrow> ledger_ok (contributions d) (contributionReversals d)"

lemma insert_contribution_ok:
  assumes "insert_contribution now actor dto (contribution_print H actor dto operation) d = Inr (r, d')" "contributions_ok d"
  shows "contributions_ok d'"
  using insert_contribution_Inr [OF assms(1)] assms(2) by (simp add: contributions_ok_def ledger_insert)

lemma correct_contribution_ok:
  assumes "correct_contribution H t actor targetId dto fp d = Inr (r, d')" "contributions_ok d"
  shows "contributions_ok d'"
  using assms(1)
proof (rule correct_contribution_Inr)
  fix original v
  let ?new = "replacing_contribution H (fst t) actor dto"
  let ?rows = "contributions d @ (case ?new of None \<Rightarrow> [] | Some x \<Rightarrow> [x])"
  assume o: "find_row (act_contextId actor) targetId (contributions d) = Some original"
    and v: "ctx v = act_contextId actor" "rev_target v = targetId" "rev_replacementId v = map_option rid ?new"
    and ins: "insert_correction ''ContributionReversal'' v (contributionReversals d) = Inr (contributionReversals d')"
    and d': "d' = d\<lparr>contributions := ?rows, contributionReversals := contributionReversals d @ [v]\<rparr>"
    and fresh: "\<forall>x. ?new = Some x \<longrightarrow> rid x \<notin> rid ` set (contributions d)"
  have new: "ctx x = act_contextId actor" if "?new = Some x" for x
    using that by (auto simp: replacing_contribution_def)
  from ledger_correct_with [OF assms(2) [unfolded contributions_ok_def] o ins v(1,2,3) _ new] fresh
  show ?thesis by (simp add: contributions_ok_def d')
qed

section \<open>What the overview of a period sees\<close>

definition contributed_in :: "string \<Rightarrow> string \<Rightarrow> string \<Rightarrow> contribution \<Rightarrow> bool" where
  "contributed_in c from to x \<longleftrightarrow> ctx x = c \<and> within (businessStart from) (businessStart to) (f_occurredAt x)"

lemma contributions_standing:
  "compute d c from to = Inr ov \<Longrightarrow>
     ov_contributionsMinor ov = standing (contributionReversals d) (contributed_in c from to) co_amountMinor (contributions d)"
  by (simp add: compute_figures(7) contributions_in_def in_context_def standing_def contributed_in_def conj_assoc)

text \<open>A contribution counts in every period that holds the instant it was made at and in no other, and
  correcting one takes exactly its amount out of those periods and puts exactly the amount of its
  replacement, where there is one, into the periods of the replacement. The row that is corrected stood
  before, and it is never corrected again.\<close>

theorem contribution_correction_swaps:
  assumes "reverseContribution H t actor contributionId dto d = (Inr (True, r), d')" "contributions_ok d"
    and "compute d c from to = Inr ov" "compute d' c from to = Inr ov'"
  shows "\<exists>x. find_row (act_contextId actor) (toLowerCase contributionId) (contributions d) = Some x
    \<and> active (contributionReversals d) x \<and> \<not> active (contributionReversals d') x
    \<and> ov_contributionsMinor ov' = ov_contributionsMinor ov
        - (if c = act_contextId actor \<and> within (businessStart from) (businessStart to) (f_occurredAt x)
           then co_amountMinor x else 0)
        + (case rd_replacement dto of None \<Rightarrow> 0
           | Some y \<Rightarrow> if c = act_contextId actor \<and> within (businessStart from) (businessStart to) (cc_occurredAt y)
                      then cc_amountMinor y else 0)"
proof -
  let ?new = "replacing_contribution H (fst t) actor dto" and ?P = "contributed_in c from to"
  from assms(1) have "correct_contribution H t actor (toLowerCase contributionId) dto
      (contribution_correction_print H actor contributionId dto) d = Inr (r, d')"
    by (simp add: reverseContribution_def Let_def once_call_Inr record_once_created)
  then obtain x v where x: "find_row (act_contextId actor) (toLowerCase contributionId) (contributions d) = Some x"
      "active (contributionReversals d) x"
    and v: "ctx v = act_contextId actor" "rev_target v = toLowerCase contributionId"
    and d': "contributions d' = contributions d @ (case ?new of None \<Rightarrow> [] | Some x \<Rightarrow> [x])"
      "contributionReversals d' = contributionReversals d @ [v]"
    and fresh: "\<And>x. ?new = Some x \<Longrightarrow> rid x \<notin> rid ` set (contributions d)"
    by (elim correct_contribution_Inr) simp
  note mem = find_row_Some [OF x(1)]
  have "standing (contributionReversals d') ?P co_amountMinor (contributions d')
      = standing (contributionReversals d) ?P co_amountMinor (contributions d)
        - amount_if ?P co_amountMinor (Some x) + amount_if ?P co_amountMinor ?new"
    unfolding d' by (rule standing_correct [OF assms(2) [unfolded contributions_ok_def]]) (use mem x v fresh in simp_all)
  moreover have "amount_if ?P co_amountMinor ?new
    = (case rd_replacement dto of None \<Rightarrow> 0
       | Some y \<Rightarrow> if c = act_contextId actor \<and> within (businessStart from) (businessStart to) (cc_occurredAt y)
                  then cc_amountMinor y else 0)"
    by (auto simp: replacing_contribution_def contributed_in_def split: option.splits)
  moreover have "\<not> active (contributionReversals d') x" using mem v by (simp add: d' active_snoc)
  ultimately show ?thesis using x mem
    by (auto simp: contributions_standing [OF assms(3)] contributions_standing [OF assms(4)] contributed_in_def)
qed

definition sample_contribution :: "uuid \<Rightarrow> int \<Rightarrow> create_contribution_dto" where
  "sample_contribution i amount = \<lparr>cc_id = i, cc_memberId = ''m2'', cc_createdByMemberId = ''M1'', cc_deviceId = ''d1'',
     cc_amountMinor = amount, cc_occurredAt = 1768200000000, cc_note = None\<rparr>"

definition sample_contributed :: db where
  "sample_contributed = sample_db\<lparr>contributions := [\<lparr>rid = ''k1'', ctx = ''t1'', f_occurredAt = 1768200000000,
     f_receivedAt = 1768200100000, f_createdByMemberId = ''m1'', f_createdByAccountId = ''a1'', f_deviceId = ''d1'',
     f_requestFingerprint = [], f_creationResponse = JNull, co_memberId = ''m2'', co_amountMinor = 5000,
     co_currency = ''MXN'', co_note = None\<rparr>]\<rparr>"

definition sample_contribution_correction :: contribution_correction where
  "sample_contribution_correction = \<lparr>rd_id = ''v1'', rd_reason = ''monto'', rd_occurredAt = 1768300000000,
     rd_createdByMemberId = ''m1'', rd_deviceId = ''d1'', rd_replacement = Some (sample_contribution ''k2'' 4500)\<rparr>"

lemma contribution_correction_swaps_witness:
  "\<exists>ov ov'. compute sample_contributed ''t1'' ''2026-01-01'' ''2026-02-01'' = Inr ov
     \<and> compute (snd (reverseContribution (\<lambda>s. []) (1768300100000, 1768300100001) ana ''K1'' sample_contribution_correction
                 sample_contributed)) ''t1'' ''2026-01-01'' ''2026-02-01'' = Inr ov'
     \<and> ov_contributionsMinor ov' = ov_contributionsMinor ov - 5000 + 4500"
proof -
  let ?run = "reverseContribution (\<lambda>s. []) (1768300100000, 1768300100001) ana ''K1'' sample_contribution_correction
      sample_contributed"
  have "created (fst ?run)"
    by (simp add: run_defs sample_ids reverseContribution_def contribution_identity_def correct_contribution_def
        contribution_ledger_def replace_contribution_def insert_contribution_def normalized_contribution_def
        sample_contribution_correction_def sample_contribution_def ana_def sample_contributed_def sample_db_def empty_db_def)
  then obtain r where "fst ?run = Inr (True, r)" by (cases "fst ?run" rule: created.cases) auto
  then have run: "?run = (Inr (True, r), snd ?run)" by (metis prod.collapse)
  have "is_ok (compute sample_contributed ''t1'' ''2026-01-01'' ''2026-02-01'')"
    "is_ok (compute (snd ?run) ''t1'' ''2026-01-01'' ''2026-02-01'')" by code_simp+
  then obtain ov ov' where ov: "compute sample_contributed ''t1'' ''2026-01-01'' ''2026-02-01'' = Inr ov"
    "compute (snd ?run) ''t1'' ''2026-01-01'' ''2026-02-01'' = Inr ov'" by (auto simp: is_ok_iff)
  have ok: "contributions_ok sample_contributed" by code_simp
  have "case find_row ''t1'' (toLowerCase ''K1'') (contributions sample_contributed) of None \<Rightarrow> False
    | Some x \<Rightarrow> within (businessStart ''2026-01-01'') (businessStart ''2026-02-01'') (f_occurredAt x) \<and> co_amountMinor x = 5000"
    "within (businessStart ''2026-01-01'') (businessStart ''2026-02-01'') 1768200000000"
    by code_simp+
  with contribution_correction_swaps [OF run ok ov] ov show ?thesis
    by (auto simp: ana_def sample_contribution_correction_def sample_contribution_def)
qed

end
