(* ===== verification/Expenses.thy ===== *)
theory Expenses
  imports Corrections Overview Sample
begin

text \<open>
  The expenses (\<open>src/finance/expenses.service.ts\<close>): an operating expense or an inventory purchase that
  an active member paid, recorded once, its correction, and the totals of a window. A call reads the
  clock once per row it writes: \<open>fst t\<close> for the expense and \<open>snd t\<close> for the correction.
\<close>

section \<open>Requests\<close>

definition INVENTORY_CATEGORY :: string where
  "INVENTORY_CATEGORY = ''inventory''"

definition isValidNatureCategoryPair :: "string \<Rightarrow> string \<Rightarrow> bool" where
  "isValidNatureCategoryPair nature category \<longleftrightarrow> (nature = ''INVENTORY_PURCHASE'') = (category = INVENTORY_CATEGORY)"

record create_expense_dto =
  ce_id :: uuid
  ce_amountMinor :: int
  ce_occurredAt :: instant
  ce_nature :: string
  ce_category :: string
  ce_description :: string
  ce_paidByMemberId :: uuid
  ce_fundsSource :: string
  ce_createdByMemberId :: uuid
  ce_deviceId :: uuid

definition normalized_expense :: "create_expense_dto \<Rightarrow> create_expense_dto" where
  "normalized_expense dto = \<lparr>ce_id = toLowerCase (ce_id dto), ce_amountMinor = ce_amountMinor dto,
     ce_occurredAt = ce_occurredAt dto, ce_nature = ce_nature dto, ce_category = ce_category dto,
     ce_description = trim (ce_description dto), ce_paidByMemberId = toLowerCase (ce_paidByMemberId dto),
     ce_fundsSource = ce_fundsSource dto, ce_createdByMemberId = toLowerCase (ce_createdByMemberId dto),
     ce_deviceId = toLowerCase (ce_deviceId dto)\<rparr>"

definition json_expense :: "create_expense_dto \<Rightarrow> (string \<times> jsval) list" where
  "json_expense data =
     [(''id'', JStr (ce_id data)), (''amountMinor'', JNum (ce_amountMinor data)),
      (''occurredAt'', JStr (to_iso (ce_occurredAt data))), (''nature'', JStr (ce_nature data)),
      (''category'', JStr (ce_category data)), (''description'', JStr (ce_description data)),
      (''paidByMemberId'', JStr (ce_paidByMemberId data)), (''fundsSource'', JStr (ce_fundsSource data)),
      (''createdByMemberId'', JStr (ce_createdByMemberId data)), (''deviceId'', JStr (ce_deviceId data))]"

definition expense_print :: "(string \<Rightarrow> string) \<Rightarrow> actor \<Rightarrow> create_expense_dto \<Rightarrow> string \<Rightarrow> string" where
  "expense_print H actor dto operation = fact_digest H actor operation (json_expense (normalized_expense dto))"

text \<open>Both calls turn a violated unique key into a conflict.\<close>

definition expense_errors :: "string \<Rightarrow> failure \<Rightarrow> failure" where
  "expense_errors message e = (if isUniqueViolation e then Conflict message else e)"

section \<open>Recording\<close>

definition expense_receipt :: "actor \<Rightarrow> create_expense_dto \<Rightarrow> instant \<Rightarrow> jsval" where
  "expense_receipt actor data now = JObj (json_expense data
     @ [(''contextId'', JStr (act_contextId actor)), (''currency'', JStr ''MXN''),
        (''createdByAccountId'', JStr (act_accountId actor)), (''receivedAt'', JStr (to_iso now))])"

definition expense_row :: "actor \<Rightarrow> create_expense_dto \<Rightarrow> instant \<Rightarrow> string \<Rightarrow> expense" where
  "expense_row actor data now requestFp =
     \<lparr>rid = ce_id data, ctx = act_contextId actor, f_occurredAt = ce_occurredAt data, f_receivedAt = now,
      f_createdByMemberId = ce_createdByMemberId data, f_createdByAccountId = act_accountId actor,
      f_deviceId = ce_deviceId data, f_requestFingerprint = requestFp,
      f_creationResponse = expense_receipt actor data now, ex_nature = ce_nature data,
      ex_category = ce_category data, ex_description = ce_description data,
      ex_paidByMemberId = ce_paidByMemberId data, ex_fundsSource = ce_fundsSource data, ex_currency = ''MXN'',
      ex_amountMinor = ce_amountMinor data\<rparr>"

definition insert_expense ::
  "instant \<Rightarrow> actor \<Rightarrow> create_expense_dto \<Rightarrow> string \<Rightarrow> db \<Rightarrow> (jsval \<times> db) result"
where
  "insert_expense now actor dto requestFp d =
     (let data = normalized_expense dto in
      if \<not> isValidNatureCategoryPair (ce_nature data) (ce_category data)
      then Inl (BadRequest ''INVENTORY_PURCHASE requires category 'inventory' and no other nature may use it'')
      else if \<not> active_member (act_contextId actor) (ce_paidByMemberId data) d then Inl Forbidden
      else (case insert_row ''Expense'' (expense_row actor data now requestFp) (expenses d) of
              Inl e \<Rightarrow> Inl e
            | Inr rows \<Rightarrow> Inr (expense_receipt actor data now, d\<lparr>expenses := rows\<rparr>)))"

definition createExpense ::
  "(string \<Rightarrow> string) \<Rightarrow> instant \<Rightarrow> actor \<Rightarrow> create_expense_dto \<Rightarrow> db \<Rightarrow> (bool \<times> jsval) result \<times> db"
where
  "createExpense H now actor dto =
     (let requestFp = expense_print H actor dto ''create'' in
      once_call (checkSelection actor (ce_createdByMemberId dto) (ce_deviceId dto))
        (expense_errors ''Expense identity already exists'')
        (record_once (authorize_books actor)
           (\<lambda>d. on_file (find_row (act_contextId actor) (toLowerCase (ce_id dto)) (expenses d)))
           requestFp ''Expense ID already has different content''
           (insert_expense now actor dto requestFp)))"

section \<open>Correction\<close>

type_synonym expense_correction = "create_expense_dto correct_dto"

definition expense_identity :: "create_expense_dto \<Rightarrow> uuid \<times> uuid \<times> uuid" where
  "expense_identity dto = (ce_id dto, ce_createdByMemberId dto, ce_deviceId dto)"

definition expense_correction_print ::
  "(string \<Rightarrow> string) \<Rightarrow> actor \<Rightarrow> uuid \<Rightarrow> expense_correction \<Rightarrow> string"
where
  "expense_correction_print H actor target dto =
     digest H (json_actor actor
       @ json_correction ''expenseId'' (toLowerCase target) (normalized_correction dto)
       @ [(''replacement'', json_option (\<lambda>r. JObj (json_expense (normalized_expense r))) (rd_replacement dto))])"

text \<open>The replacement is recorded by the same routine, with a fingerprint of its own.\<close>

definition replace_expense ::
  "(string \<Rightarrow> string) \<Rightarrow> instant \<Rightarrow> actor \<Rightarrow> expense_correction \<Rightarrow> db \<Rightarrow> (jsval \<times> db) result"
where
  "replace_expense H now actor dto d =
     (case rd_replacement dto of None \<Rightarrow> Inr (JNull, d)
      | Some r \<Rightarrow>
          if find_row (act_contextId actor) (toLowerCase (ce_id r)) (expenses d) \<noteq> None
          then Inl (Conflict ''Replacement ID already exists'')
          else insert_expense now actor r
                 (expense_print H actor r (''replacement:'' @ toLowerCase (rd_id dto))) d)"

definition expense_ledger :: "expense ledger" where
  "expense_ledger = \<lparr>lg_noun = ''Expense'', lg_model = ''ExpenseReversal'', lg_rows = expenses,
     lg_revs = expenseReversals, lg_put = (\<lambda>revs d. d\<lparr>expenseReversals := revs\<rparr>)\<rparr>"

definition expense_correction_row ::
  "instant \<Rightarrow> actor \<Rightarrow> uuid \<Rightarrow> expense_correction \<Rightarrow> string \<Rightarrow> expense \<Rightarrow> jsval \<Rightarrow> correction"
where
  "expense_correction_row now actor targetId dto requestFp original replacement =
     (let data = normalized_correction dto;
          replacementId = map_option (\<lambda>r. toLowerCase (ce_id r)) (rd_replacement dto) in
      correction_row actor targetId data now requestFp
        (correction_receipt actor (json_correction ''expenseId'' targetId data) now
           ''replacementExpenseId'' replacementId (f_creationResponse original) replacement)
        replacementId)"

definition correct_expense ::
  "(string \<Rightarrow> string) \<Rightarrow> instant \<times> instant \<Rightarrow> actor \<Rightarrow> uuid \<Rightarrow> expense_correction \<Rightarrow> string \<Rightarrow> db
    \<Rightarrow> (jsval \<times> db) result"
where
  "correct_expense H t actor targetId dto requestFp =
     correct_fact expense_ledger actor targetId (replace_expense H (fst t) actor dto)
       (expense_correction_row (snd t) actor targetId dto requestFp)"

definition reverseExpense ::
  "(string \<Rightarrow> string) \<Rightarrow> instant \<times> instant \<Rightarrow> actor \<Rightarrow> uuid \<Rightarrow> expense_correction \<Rightarrow> db
    \<Rightarrow> (bool \<times> jsval) result \<times> db"
where
  "reverseExpense H t actor expenseId dto =
     (let requestFp = expense_correction_print H actor expenseId dto in
      once_call (correction_pre actor expenseId dto (map_option expense_identity (rd_replacement dto)))
        (expense_errors ''Correction identity already exists'')
        (record_once (authorize_books actor)
           (\<lambda>d. on_file (find_row (act_contextId actor) (toLowerCase (rd_id dto)) (expenseReversals d)))
           requestFp ''Reversal ID already has different content''
           (correct_expense H t actor (toLowerCase expenseId) dto requestFp)))"

section \<open>Inversion\<close>

lemma normalized_expense_simps [simp]:
  "ce_id (normalized_expense dto) = toLowerCase (ce_id dto)"
  "ce_amountMinor (normalized_expense dto) = ce_amountMinor dto"
  "ce_occurredAt (normalized_expense dto) = ce_occurredAt dto"
  "ce_nature (normalized_expense dto) = ce_nature dto"
  "ce_fundsSource (normalized_expense dto) = ce_fundsSource dto"
  by (simp_all add: normalized_expense_def)

lemma expense_row_simps [simp]:
  "rid (expense_row actor data now fp) = ce_id data"
  "ctx (expense_row actor data now fp) = act_contextId actor"
  "f_requestFingerprint (expense_row actor data now fp) = fp"
  "f_creationResponse (expense_row actor data now fp) = expense_receipt actor data now"
  "f_occurredAt (expense_row actor data now fp) = ce_occurredAt data"
  "ex_amountMinor (expense_row actor data now fp) = ce_amountMinor data"
  "ex_nature (expense_row actor data now fp) = ce_nature data"
  "ex_fundsSource (expense_row actor data now fp) = ce_fundsSource data"
  by (simp_all add: expense_row_def)

lemma expense_errors_conflict [simp]: "expense_errors m (Conflict x) = Conflict x"
  by (simp add: expense_errors_def isUniqueViolation_def)

text \<open>The row a request writes at an instant.\<close>

definition recorded_expense :: "(string \<Rightarrow> string) \<Rightarrow> instant \<Rightarrow> actor \<Rightarrow> string \<Rightarrow> create_expense_dto \<Rightarrow> expense" where
  "recorded_expense H now actor operation dto =
     expense_row actor (normalized_expense dto) now (expense_print H actor dto operation)"

lemma recorded_expense_simps [simp]:
  "rid (recorded_expense H now actor operation dto) = toLowerCase (ce_id dto)"
  "ctx (recorded_expense H now actor operation dto) = act_contextId actor"
  "f_occurredAt (recorded_expense H now actor operation dto) = ce_occurredAt dto"
  "ex_amountMinor (recorded_expense H now actor operation dto) = ce_amountMinor dto"
  "ex_nature (recorded_expense H now actor operation dto) = ce_nature dto"
  "ex_fundsSource (recorded_expense H now actor operation dto) = ce_fundsSource dto"
  by (simp_all add: recorded_expense_def)

lemma insert_expense_Inr:
  assumes "insert_expense now actor dto (expense_print H actor dto operation) d = Inr (r, d')"
  shows "insert_row ''Expense'' (recorded_expense H now actor operation dto) (expenses d) = Inr (expenses d')
    \<and> d' = d\<lparr>expenses := expenses d @ [recorded_expense H now actor operation dto]\<rparr>
    \<and> toLowerCase (ce_id dto) \<notin> rid ` set (expenses d)
    \<and> r = f_creationResponse (recorded_expense H now actor operation dto)"
  using assms
  by (auto simp: insert_expense_def recorded_expense_def Let_def split: sum.splits if_splits
      dest: insert_row_Inr)

lemma createExpense_Inr:
  assumes "createExpense H now actor dto d = (Inr (True, r), d')"
  shows "d' = d\<lparr>expenses := expenses d @ [recorded_expense H now actor ''create'' dto]\<rparr>
    \<and> toLowerCase (ce_id dto) \<notin> rid ` set (expenses d)"
proof -
  from assms have "insert_expense now actor dto (expense_print H actor dto ''create'') d = Inr (r, d')"
    by (simp add: createExpense_def Let_def once_call_Inr record_once_created)
  from insert_expense_Inr [OF this] show ?thesis by simp
qed

text \<open>The rows a correction adds.\<close>

definition replacing_expense ::
  "(string \<Rightarrow> string) \<Rightarrow> instant \<Rightarrow> actor \<Rightarrow> expense_correction \<Rightarrow> expense option"
where
  "replacing_expense H now actor dto =
     map_option (recorded_expense H now actor (''replacement:'' @ toLowerCase (rd_id dto))) (rd_replacement dto)"

lemma replace_expense_Inr:
  assumes "replace_expense H now actor dto d = Inr (r, d')"
  shows "d' = d\<lparr>expenses := expenses d
        @ (case replacing_expense H now actor dto of None \<Rightarrow> [] | Some x \<Rightarrow> [x])\<rparr>
    \<and> (\<forall>x. replacing_expense H now actor dto = Some x \<longrightarrow> rid x \<notin> rid ` set (expenses d))"
  using assms
  by (auto simp: replace_expense_def replacing_expense_def dest: insert_expense_Inr
      split: option.splits if_splits)

lemma expense_correction_row_simps [simp]:
  "rid (expense_correction_row now actor targetId dto fp x y) = toLowerCase (rd_id dto)"
  "ctx (expense_correction_row now actor targetId dto fp x y) = act_contextId actor"
  "f_requestFingerprint (expense_correction_row now actor targetId dto fp x y) = fp"
  "rev_target (expense_correction_row now actor targetId dto fp x y) = targetId"
  "rev_replacementId (expense_correction_row now actor targetId dto fp x y)
     = map_option (\<lambda>r. toLowerCase (ce_id r)) (rd_replacement dto)"
  by (simp_all add: expense_correction_row_def Let_def)

lemma correct_expense_Inr:
  assumes "correct_expense H t actor targetId dto fp d = Inr (r, d')"
  obtains original v where
    "find_row (act_contextId actor) targetId (expenses d) = Some original"
    "active (expenseReversals d) original"
    "rid v = toLowerCase (rd_id dto)" "ctx v = act_contextId actor" "f_requestFingerprint v = fp"
    "f_creationResponse v = r" "rev_target v = targetId"
    "rev_replacementId v = map_option rid (replacing_expense H (fst t) actor dto)"
    "insert_correction ''ExpenseReversal'' v (expenseReversals d) = Inr (expenseReversals d')"
    "d' = d\<lparr>expenses := expenses d
        @ (case replacing_expense H (fst t) actor dto of None \<Rightarrow> [] | Some x \<Rightarrow> [x]),
      expenseReversals := expenseReversals d @ [v]\<rparr>"
    "\<forall>x. replacing_expense H (fst t) actor dto = Some x \<longrightarrow> rid x \<notin> rid ` set (expenses d)"
  using assms unfolding correct_expense_def
proof (rule correct_fact_Inr)
  fix original replacement d1 v
  assume o: "find_row (act_contextId actor) targetId (lg_rows expense_ledger d) = Some original"
    "active (lg_revs expense_ledger d) original"
    and rep: "replace_expense H (fst t) actor dto d = Inr (replacement, d1)"
    and v: "v = expense_correction_row (snd t) actor targetId dto fp original replacement"
    "r = f_creationResponse v"
    and ins: "insert_correction (lg_model expense_ledger) v (lg_revs expense_ledger d1)
      = Inr (lg_revs expense_ledger d1 @ [v])"
    and d': "d' = lg_put expense_ledger (lg_revs expense_ledger d1 @ [v]) d1"
  note d1 = replace_expense_Inr [OF rep]
  show thesis
  proof (rule that [of original v])
    show "rev_replacementId v = map_option rid (replacing_expense H (fst t) actor dto)"
      by (cases "rd_replacement dto") (simp_all add: v replacing_expense_def)
  qed (use o v ins d' d1 in \<open>simp_all add: expense_ledger_def\<close>)
qed

section \<open>Idempotency\<close>

lemma insert_expense_writes:
  assumes "insert_expense now actor dto (expense_print H actor dto operation) d = Inr (r, d')"
  shows "on_file (find_row (act_contextId actor) (toLowerCase (ce_id dto)) (expenses d'))
      = Some (expense_print H actor dto operation, r)
    \<and> authorize_books actor d' = authorize_books actor d"
proof -
  note w = insert_expense_Inr [OF assms]
  from w have r: "r = f_creationResponse (recorded_expense H now actor operation dto)" by simp
  have "on_file (find_row (act_contextId actor) (toLowerCase (ce_id dto)) (expenses d'))
      = Some (f_requestFingerprint (recorded_expense H now actor operation dto), r)"
    unfolding r by (rule on_file_insert [OF conjunct1 [OF w]]) simp_all
  moreover have "authorize_books actor d' = authorize_books actor d"
    by (rule authorize_books_tables) (use w in simp_all)
  ultimately show ?thesis by (simp add: recorded_expense_def)
qed

interpretation expense_create:
  recorded_write "\<lambda>(actor, dto). checkSelection actor (ce_createdByMemberId dto) (ce_deviceId dto)"
    "expense_errors ''Expense identity already exists''" "\<lambda>(actor, dto). authorize_books actor"
    "\<lambda>(actor, dto) d. on_file (find_row (act_contextId actor) (toLowerCase (ce_id dto)) (expenses d))"
    "\<lambda>(actor, dto). expense_print H actor dto ''create''" "''Expense ID already has different content''"
    "\<lambda>now (actor, dto). insert_expense now actor dto (expense_print H actor dto ''create'')"
  for H
  by unfold_locales (auto dest!: insert_expense_writes)

lemma correct_expense_writes:
  assumes "correct_expense H t actor targetId dto fp d = Inr (r, d')"
  shows "on_file (find_row (act_contextId actor) (toLowerCase (rd_id dto)) (expenseReversals d')) = Some (fp, r)
    \<and> authorize_books actor d' = authorize_books actor d"
  using assms
proof (rule correct_expense_Inr)
  fix original v
  assume v: "rid v = toLowerCase (rd_id dto)" "ctx v = act_contextId actor" "f_requestFingerprint v = fp"
      "f_creationResponse v = r"
    and ins: "insert_correction ''ExpenseReversal'' v (expenseReversals d) = Inr (expenseReversals d')"
    and d': "d' = d\<lparr>expenses := expenses d
        @ (case replacing_expense H (fst t) actor dto of None \<Rightarrow> [] | Some x \<Rightarrow> [x]),
      expenseReversals := expenseReversals d @ [v]\<rparr>"
  have "authorize_books actor d' = authorize_books actor d"
    by (rule authorize_books_tables) (simp_all add: d')
  with on_file_correction [OF ins v(1,2)] v(3,4) show ?thesis by simp
qed

interpretation expense_correct:
  recorded_write
    "\<lambda>(actor, i, dto). correction_pre actor i dto (map_option expense_identity (rd_replacement dto))"
    "expense_errors ''Correction identity already exists''" "\<lambda>(actor, i, dto). authorize_books actor"
    "\<lambda>(actor, i, dto) d. on_file (find_row (act_contextId actor) (toLowerCase (rd_id dto)) (expenseReversals d))"
    "\<lambda>(actor, i, dto). expense_correction_print H actor i dto" "''Reversal ID already has different content''"
    "\<lambda>t (actor, i, dto). correct_expense H t actor (toLowerCase i) dto (expense_correction_print H actor i dto)"
  for H
  by unfold_locales (auto dest!: correct_expense_writes)

lemma expense_create_call: "expense_create.call H now (actor, dto) = createExpense H now actor dto"
  by (simp add: expense_create.call_def createExpense_def Let_def)

lemma expense_correct_call: "expense_correct.call H t (actor, i, dto) = reverseExpense H t actor i dto"
  by (simp add: expense_correct.call_def reverseExpense_def Let_def)

section \<open>The ledger of expenses\<close>

definition expenses_ok :: "db \<Rightarrow> bool" where
  "expenses_ok d \<longleftrightarrow> ledger_ok (expenses d) (expenseReversals d)"

lemma insert_expense_ok:
  assumes "insert_expense now actor dto (expense_print H actor dto operation) d = Inr (r, d')" "expenses_ok d"
  shows "expenses_ok d'"
  using insert_expense_Inr [OF assms(1)] assms(2) by (simp add: expenses_ok_def ledger_insert)

lemma correct_expense_ok:
  assumes "correct_expense H t actor targetId dto fp d = Inr (r, d')" "expenses_ok d"
  shows "expenses_ok d'"
  using assms(1)
proof (rule correct_expense_Inr)
  fix original v
  let ?new = "replacing_expense H (fst t) actor dto"
  let ?rows = "expenses d @ (case ?new of None \<Rightarrow> [] | Some x \<Rightarrow> [x])"
  assume o: "find_row (act_contextId actor) targetId (expenses d) = Some original"
    and v: "ctx v = act_contextId actor" "rev_target v = targetId" "rev_replacementId v = map_option rid ?new"
    and ins: "insert_correction ''ExpenseReversal'' v (expenseReversals d) = Inr (expenseReversals d')"
    and d': "d' = d\<lparr>expenses := ?rows, expenseReversals := expenseReversals d @ [v]\<rparr>"
    and fresh: "\<forall>x. ?new = Some x \<longrightarrow> rid x \<notin> rid ` set (expenses d)"
  have new: "ctx x = act_contextId actor" if "?new = Some x" for x
    using that by (auto simp: replacing_expense_def)
  from ledger_correct_with [OF assms(2) [unfolded expenses_ok_def] o ins v(1,2,3) _ new] fresh
  show ?thesis by (simp add: expenses_ok_def d')
qed

section \<open>Natures\<close>

text \<open>Inventory purchases, and only they, have the inventory category.\<close>

definition expense_natures_ok :: "db \<Rightarrow> bool" where
  "expense_natures_ok d \<longleftrightarrow> list_all (\<lambda>x. isValidNatureCategoryPair (ex_nature x) (ex_category x)) (expenses d)"

lemma insert_expense_natures:
  assumes "insert_expense now actor dto fp d = Inr (r, d')" "expense_natures_ok d"
  shows "expense_natures_ok d'"
  using assms by (auto simp: insert_expense_def expense_natures_ok_def expense_row_def normalized_expense_def Let_def
      dest!: insert_row_Inr split: sum.splits if_splits)

lemma correct_expense_natures:
  assumes "correct_expense H t actor targetId dto fp d = Inr (r, d')" "expense_natures_ok d"
  shows "expense_natures_ok d'"
  using assms(1) unfolding correct_expense_def
proof (rule correct_fact_Inr)
  fix replacement d1 v
  assume "replace_expense H (fst t) actor dto d = Inr (replacement, d1)"
    and d': "d' = lg_put expense_ledger (lg_revs expense_ledger d1 @ [v]) d1"
  then have "expense_natures_ok d1"
    using assms(2) insert_expense_natures by (auto simp: replace_expense_def split: option.splits if_splits)
  then show ?thesis by (simp add: d' expense_ledger_def expense_natures_ok_def)
qed

section \<open>Totals of a window\<close>

record expense_totals =
  et_operatingMinor :: int
  et_inventoryMinor :: int
  et_personalMinor :: int
  et_businessMinor :: int

definition expense_checkRange :: "instant option \<Rightarrow> instant option \<Rightarrow> unit result" where
  "expense_checkRange from to =
     (case (from, to) of
        (Some a, Some b) \<Rightarrow> if a \<ge> b then Inl (BadRequest ''from must precede to'') else Inr ()
      | _ \<Rightarrow> Inr ())"

definition occurredAtFilter :: "instant option \<Rightarrow> instant option \<Rightarrow> instant \<Rightarrow> bool" where
  "occurredAtFilter from to t \<longleftrightarrow> (case from of None \<Rightarrow> True | Some a \<Rightarrow> a \<le> t) \<and> (case to of None \<Rightarrow> True | Some b \<Rightarrow> t < b)"

text \<open>\<open>groupBy({by: ['nature', 'fundsSource'], _sum: {amountMinor}})\<close>: one group per pair that occurs.\<close>

definition expense_groups :: "expense list \<Rightarrow> ((string \<times> string) \<times> int) list" where
  "expense_groups es =
     map (\<lambda>k. (k, sum_list (map ex_amountMinor [x \<leftarrow> es. (ex_nature x, ex_fundsSource x) = k])))
       (remdups (map (\<lambda>x. (ex_nature x, ex_fundsSource x)) es))"

fun expense_totals_loop :: "((string \<times> string) \<times> int) list \<Rightarrow> expense_totals \<Rightarrow> expense_totals" where
  "expense_totals_loop [] sums = sums"
| "expense_totals_loop (((nature, fundsSource), amount) # groups) sums =
     (let t1 = (if nature = ''INVENTORY_PURCHASE''
                then sums\<lparr>et_inventoryMinor := et_inventoryMinor sums + amount\<rparr>
                else sums\<lparr>et_operatingMinor := et_operatingMinor sums + amount\<rparr>);
          t2 = (if fundsSource = ''PERSONAL''
                then t1\<lparr>et_personalMinor := et_personalMinor t1 + amount\<rparr>
                else t1\<lparr>et_businessMinor := et_businessMinor t1 + amount\<rparr>) in
      expense_totals_loop groups t2)"

definition expense_summary :: "db \<Rightarrow> string \<Rightarrow> instant option \<Rightarrow> instant option \<Rightarrow> expense_totals result" where
  "expense_summary d c from to =
     (case expense_checkRange from to of Inl e \<Rightarrow> Inl e
      | Inr _ \<Rightarrow>
        let es = [x \<leftarrow> in_context c (expenses d). active (expenseReversals d) x \<and> occurredAtFilter from to (f_occurredAt x)] in
        Inr (expense_totals_loop (expense_groups es)
               \<lparr>et_operatingMinor = 0, et_inventoryMinor = 0, et_personalMinor = 0, et_businessMinor = 0\<rparr>))"

lemma expense_totals_sums:
  "expense_totals_loop groups sums =
     \<lparr>et_operatingMinor = et_operatingMinor sums + sum_list (map snd [g \<leftarrow> groups. fst (fst g) \<noteq> ''INVENTORY_PURCHASE'']),
      et_inventoryMinor = et_inventoryMinor sums + sum_list (map snd [g \<leftarrow> groups. fst (fst g) = ''INVENTORY_PURCHASE'']),
      et_personalMinor = et_personalMinor sums + sum_list (map snd [g \<leftarrow> groups. snd (fst g) = ''PERSONAL'']),
      et_businessMinor = et_businessMinor sums + sum_list (map snd [g \<leftarrow> groups. snd (fst g) \<noteq> ''PERSONAL''])\<rparr>"
  by (induction groups sums rule: expense_totals_loop.induct) (auto simp: Let_def)

text \<open>The groups of a class of keys add up to the rows of the class, in whatever order they come.\<close>

lemma expense_groups_class:
  "sum_list (map snd [g \<leftarrow> expense_groups es. Q (fst g)])
     = sum_list (map ex_amountMinor [x \<leftarrow> es. Q (ex_nature x, ex_fundsSource x)])"
proof -
  let ?k = "\<lambda>x. (ex_nature x, ex_fundsSource x)" and ?in = "[x \<leftarrow> es. Q (ex_nature x, ex_fundsSource x)]"
  let ?ks = "[k \<leftarrow> remdups (map ?k es). Q k]"
  have rows: "[x \<leftarrow> es. ?k x = k] = [x \<leftarrow> ?in. ?k x = k]" if "Q k" for k
    using that by (auto intro: filter_cong)
  have "map snd [g \<leftarrow> expense_groups es. Q (fst g)] = map (\<lambda>k. sum_list (map ex_amountMinor [x \<leftarrow> es. ?k x = k])) ?ks"
    by (simp add: expense_groups_def filter_map o_def)
  also have "\<dots> = map (\<lambda>k. sum_list (map ex_amountMinor [x \<leftarrow> ?in. ?k x = k])) ?ks"
    by (rule map_cong) (auto simp: rows)
  also have "sum_list \<dots> = sum_list (map ex_amountMinor ?in)"
    by (rule sum_list_by_class) auto
  finally show ?thesis .
qed

lemma expense_summary_Inr:
  assumes "expense_summary d c from to = Inr s"
  defines "es \<equiv> [x \<leftarrow> in_context c (expenses d). active (expenseReversals d) x \<and> occurredAtFilter from to (f_occurredAt x)]"
  shows "s = \<lparr>et_operatingMinor = sum_list (map ex_amountMinor [x \<leftarrow> es. \<not> of_nature ''INVENTORY_PURCHASE'' x]),
      et_inventoryMinor = sum_list (map ex_amountMinor [x \<leftarrow> es. of_nature ''INVENTORY_PURCHASE'' x]),
      et_personalMinor = sum_list (map ex_amountMinor [x \<leftarrow> es. ex_fundsSource x = ''PERSONAL'']),
      et_businessMinor = sum_list (map ex_amountMinor [x \<leftarrow> es. ex_fundsSource x \<noteq> ''PERSONAL''])\<rparr>"
proof -
  have s: "s = expense_totals_loop (expense_groups es)
      \<lparr>et_operatingMinor = 0, et_inventoryMinor = 0, et_personalMinor = 0, et_businessMinor = 0\<rparr>"
    using assms(1) by (simp add: expense_summary_def Let_def es_def split: sum.splits)
  show ?thesis
    unfolding s expense_totals_sums
      expense_groups_class [of "\<lambda>k. fst k = ''INVENTORY_PURCHASE''"] expense_groups_class [of "\<lambda>k. fst k \<noteq> ''INVENTORY_PURCHASE''"]
      expense_groups_class [of "\<lambda>k. snd k = ''PERSONAL''"] expense_groups_class [of "\<lambda>k. snd k \<noteq> ''PERSONAL''"]
    by (simp add: of_nature_def)
qed

lemma sum_list_complement:
  "sum_list (map f [x \<leftarrow> xs. P x]) + sum_list (map f [x \<leftarrow> xs. \<not> P x]) = (sum_list (map f xs) :: int)"
  by (induction xs) auto

lemma expense_loop_natures:
  "expense_loop es a b = Inr xy \<Longrightarrow> \<forall>x \<in> set es. of_nature ''OPERATING_EXPENSE'' x \<or> of_nature ''INVENTORY_PURCHASE'' x"
  by (induction es a b rule: expense_loop.induct) (auto simp: of_nature_def split: if_splits)

lemma compute_natures:
  assumes "compute d c from to = Inr ov"
  shows "\<forall>x \<in> set (expenses_in d c (businessStart from) (businessStart to)).
     of_nature ''OPERATING_EXPENSE'' x \<or> of_nature ''INVENTORY_PURCHASE'' x"
proof -
  have "\<exists>xy. expense_loop (expenses_in d c (businessStart from) (businessStart to)) 0 0 = Inr xy"
    using assms unfolding compute_def Let_def by (auto split: sum.splits)
  then show ?thesis by (auto dest: expense_loop_natures)
qed

text \<open>The totals of the expenses agree with the overview. Over the instants of a period whose overview
  exists, the operating and inventory totals are the figures of the overview, the split by funds and the
  split by nature add up to the same amount, and a window whose start does not precede its end is refused.\<close>

theorem expense_summary_agrees:
  assumes "compute d c from to = Inr ov" "businessStart from < businessStart to"
  shows "\<exists>s. expense_summary d c (Some (businessStart from)) (Some (businessStart to)) = Inr s
    \<and> et_operatingMinor s = ov_operatingMinor ov \<and> et_inventoryMinor s = ov_inventoryPurchasesMinor ov
    \<and> et_personalMinor s + et_businessMinor s = et_operatingMinor s + et_inventoryMinor s
    \<and> \<not> is_ok (expense_summary d c (Some (businessStart to)) (Some (businessStart from)))"
proof -
  let ?lo = "businessStart from" and ?hi = "businessStart to"
  let ?es = "[x \<leftarrow> in_context c (expenses d). active (expenseReversals d) x \<and> occurredAtFilter (Some ?lo) (Some ?hi) (f_occurredAt x)]"
  have es: "?es = expenses_in d c ?lo ?hi"
    unfolding expenses_in_def by (rule filter_cong) (auto simp: occurredAtFilter_def within_def)
  have "is_ok (expense_summary d c (Some ?lo) (Some ?hi))"
    using assms(2) by (simp add: expense_summary_def expense_checkRange_def Let_def)
  then obtain s where s: "expense_summary d c (Some ?lo) (Some ?hi) = Inr s" by (auto simp: is_ok_iff)
  note totals = expense_summary_Inr [OF s, unfolded es]
  have natures: "\<forall>x \<in> set (expenses_in d c ?lo ?hi). of_nature ''OPERATING_EXPENSE'' x \<or> of_nature ''INVENTORY_PURCHASE'' x"
    by (rule compute_natures [OF assms(1)])
  have "[x \<leftarrow> expenses_in d c ?lo ?hi. \<not> of_nature ''INVENTORY_PURCHASE'' x]
      = [x \<leftarrow> expenses_in d c ?lo ?hi. of_nature ''OPERATING_EXPENSE'' x]"
    using natures by (intro filter_cong) (auto simp: of_nature_def)
  with totals have "et_operatingMinor s = ov_operatingMinor ov" "et_inventoryMinor s = ov_inventoryPurchasesMinor ov"
    by (simp_all add: compute_figures(5,6) [OF assms(1)])
  moreover have "et_personalMinor s + et_businessMinor s = et_operatingMinor s + et_inventoryMinor s"
    using totals sum_list_complement [of ex_amountMinor "\<lambda>x. ex_fundsSource x = ''PERSONAL''" "expenses_in d c ?lo ?hi"]
      sum_list_complement [of ex_amountMinor "of_nature ''INVENTORY_PURCHASE''" "expenses_in d c ?lo ?hi"] by simp
  moreover have "\<not> is_ok (expense_summary d c (Some ?hi) (Some ?lo))"
    using assms(2) by (simp add: expense_summary_def expense_checkRange_def)
  ultimately show ?thesis using s by blast
qed

lemma expense_summary_agrees_witness:
  "\<exists>ov s. compute sample_db ''t1'' ''2026-01-01'' ''2026-02-01'' = Inr ov
     \<and> expense_summary sample_db ''t1'' (Some (businessStart ''2026-01-01'')) (Some (businessStart ''2026-02-01'')) = Inr s
     \<and> et_operatingMinor s = ov_operatingMinor ov"
proof -
  have "is_ok (compute sample_db ''t1'' ''2026-01-01'' ''2026-02-01'')" by code_simp
  then obtain ov where ov: "compute sample_db ''t1'' ''2026-01-01'' ''2026-02-01'' = Inr ov" by (auto simp: is_ok_iff)
  have "businessStart ''2026-01-01'' < businessStart ''2026-02-01''" by code_simp
  from expense_summary_agrees [OF ov this] ov show ?thesis by blast
qed

section \<open>What the overview of a period sees\<close>

definition spent_in :: "string \<Rightarrow> string \<Rightarrow> string \<Rightarrow> string \<Rightarrow> expense \<Rightarrow> bool" where
  "spent_in nature c from to x \<longleftrightarrow>
     ctx x = c \<and> within (businessStart from) (businessStart to) (f_occurredAt x) \<and> ex_nature x = nature"

definition spends_in :: "string \<Rightarrow> string \<Rightarrow> string \<Rightarrow> string \<Rightarrow> actor \<Rightarrow> create_expense_dto \<Rightarrow> bool" where
  "spends_in nature c from to actor dto \<longleftrightarrow> act_contextId actor = c
     \<and> within (businessStart from) (businessStart to) (ce_occurredAt dto) \<and> ce_nature dto = nature"

lemma expenses_standing:
  "compute d c from to = Inr ov \<Longrightarrow>
     ov_operatingMinor ov = standing (expenseReversals d) (spent_in ''OPERATING_EXPENSE'' c from to) ex_amountMinor (expenses d)
   \<and> ov_inventoryPurchasesMinor ov = standing (expenseReversals d) (spent_in ''INVENTORY_PURCHASE'' c from to) ex_amountMinor (expenses d)"
  by (auto simp: compute_figures(5,6) expenses_in_def in_context_def standing_def spent_in_def of_nature_def
      intro!: arg_cong [where f = "\<lambda>xs. sum_list (map ex_amountMinor xs)"] filter_cong)

lemma margin_of_sales:
  assumes "compute d c from to = Inr ov" "compute d' c from to = Inr ov'" "sales d' = sales d" "saleItems d' = saleItems d"
  shows "ov_recordedGrossMarginMinor ov' = ov_recordedGrossMarginMinor ov"
proof -
  have "items_of d' = items_of d" using assms(4) by (simp add: items_of_def [abs_def])
  then have sl: "sale_lines d' ss = sale_lines d ss" for ss by (simp add: sale_lines_def)
  have si: "sales_in d' c lo hi = sales_in d c lo hi" for lo hi using assms(3) by (simp add: sales_in_def)
  show ?thesis
    unfolding compute_figures(4,1,3) [OF assms(2)] compute_figures(4,1,3) [OF assms(1)] sl si by (rule refl)
qed

text \<open>Correcting an expense moves the figures of a period by exactly the amounts it names: the total of
  each nature loses the amount of the expense that is corrected and gains the amount of its replacement,
  each where it belongs to the period and the nature, and the operating result moves by the opposite of
  the operating amounts and by nothing else.\<close>

theorem expense_correction_swaps:
  assumes "reverseExpense H t actor expenseId dto d = (Inr (True, r), d')" "expenses_ok d"
    and "compute d c from to = Inr ov" "compute d' c from to = Inr ov'"
  shows "\<exists>x. find_row (act_contextId actor) (toLowerCase expenseId) (expenses d) = Some x
    \<and> active (expenseReversals d) x \<and> \<not> active (expenseReversals d') x
    \<and> ov_operatingMinor ov' = ov_operatingMinor ov
        - amount_if (spent_in ''OPERATING_EXPENSE'' c from to) ex_amountMinor (Some x)
        + amount_if (spends_in ''OPERATING_EXPENSE'' c from to actor) ce_amountMinor (rd_replacement dto)
    \<and> ov_inventoryPurchasesMinor ov' = ov_inventoryPurchasesMinor ov
        - amount_if (spent_in ''INVENTORY_PURCHASE'' c from to) ex_amountMinor (Some x)
        + amount_if (spends_in ''INVENTORY_PURCHASE'' c from to actor) ce_amountMinor (rd_replacement dto)
    \<and> ov_recordedOperatingResultMinor ov' - ov_recordedOperatingResultMinor ov = ov_operatingMinor ov - ov_operatingMinor ov'"
proof -
  let ?new = "replacing_expense H (fst t) actor dto"
  from assms(1) have "correct_expense H t actor (toLowerCase expenseId) dto
      (expense_correction_print H actor expenseId dto) d = Inr (r, d')"
    by (simp add: reverseExpense_def Let_def once_call_Inr record_once_created)
  then obtain x v where x: "find_row (act_contextId actor) (toLowerCase expenseId) (expenses d) = Some x"
      "active (expenseReversals d) x"
    and v: "ctx v = act_contextId actor" "rev_target v = toLowerCase expenseId"
    and rows: "expenses d' = expenses d @ (case ?new of None \<Rightarrow> [] | Some x \<Rightarrow> [x])"
      "expenseReversals d' = expenseReversals d @ [v]" "sales d' = sales d" "saleItems d' = saleItems d"
    and fresh: "\<And>x. ?new = Some x \<Longrightarrow> rid x \<notin> rid ` set (expenses d)"
    by (elim correct_expense_Inr) simp
  note mem = find_row_Some [OF x(1)]
  have "standing (expenseReversals d') P ex_amountMinor (expenses d')
      = standing (expenseReversals d) P ex_amountMinor (expenses d)
        - amount_if P ex_amountMinor (Some x) + amount_if P ex_amountMinor ?new" for P
    unfolding rows by (rule standing_correct [OF assms(2) [unfolded expenses_ok_def]]) (use mem x v fresh in simp_all)
  moreover have "amount_if (spent_in n c from to) ex_amountMinor ?new
      = amount_if (spends_in n c from to actor) ce_amountMinor (rd_replacement dto)" for n
    by (cases "rd_replacement dto") (auto simp: replacing_expense_def spent_in_def spends_in_def)
  moreover have "\<not> active (expenseReversals d') x" using mem v by (simp add: rows active_snoc)
  moreover have "ov_recordedOperatingResultMinor ov' - ov_recordedOperatingResultMinor ov = ov_operatingMinor ov - ov_operatingMinor ov'"
    using margin_of_sales [OF assms(3,4) rows(3,4)]
    by (simp add: compute_figures(11) [OF assms(3)] compute_figures(11) [OF assms(4)])
  ultimately show ?thesis using x
    by (simp add: expenses_standing [OF assms(3)] expenses_standing [OF assms(4)])
qed

definition sample_expense_correction :: expense_correction where
  "sample_expense_correction = \<lparr>rd_id = ''v1'', rd_reason = ''era compra'', rd_occurredAt = 1768300000000,
     rd_createdByMemberId = ''m1'', rd_deviceId = ''d1'',
     rd_replacement = Some \<lparr>ce_id = ''e2'', ce_amountMinor = 650, ce_occurredAt = 1768100000000,
       ce_nature = ''INVENTORY_PURCHASE'', ce_category = ''inventory'', ce_description = ''flete'',
       ce_paidByMemberId = ''m3'', ce_fundsSource = ''PERSONAL'', ce_createdByMemberId = ''m1'', ce_deviceId = ''d1''\<rparr>\<rparr>"

lemma expense_correction_swaps_witness:
  "\<exists>ov ov'. compute sample_db ''t1'' ''2026-01-01'' ''2026-02-01'' = Inr ov
     \<and> compute (snd (reverseExpense (\<lambda>s. []) (1768300100000, 1768300100001) ana ''E1'' sample_expense_correction sample_db))
         ''t1'' ''2026-01-01'' ''2026-02-01'' = Inr ov'
     \<and> ov_operatingMinor ov' = ov_operatingMinor ov - 600 \<and> ov_inventoryPurchasesMinor ov' = ov_inventoryPurchasesMinor ov + 650
     \<and> ov_recordedOperatingResultMinor ov' = ov_recordedOperatingResultMinor ov + 600"
proof -
  let ?run = "reverseExpense (\<lambda>s. []) (1768300100000, 1768300100001) ana ''E1'' sample_expense_correction sample_db"
  have "created (fst ?run)"
    by (simp add: run_defs sample_ids reverseExpense_def expense_identity_def correct_expense_def
        expense_ledger_def replace_expense_def insert_expense_def normalized_expense_def isValidNatureCategoryPair_def
        INVENTORY_CATEGORY_def sample_expense_def sample_expense_correction_def ana_def sample_db_def empty_db_def)
  then obtain r where "fst ?run = Inr (True, r)" by (cases "fst ?run" rule: created.cases) auto
  then have run: "?run = (Inr (True, r), snd ?run)" by (metis prod.collapse)
  have "is_ok (compute sample_db ''t1'' ''2026-01-01'' ''2026-02-01'')"
    "is_ok (compute (snd ?run) ''t1'' ''2026-01-01'' ''2026-02-01'')" by code_simp+
  then obtain ov ov' where ov: "compute sample_db ''t1'' ''2026-01-01'' ''2026-02-01'' = Inr ov"
    "compute (snd ?run) ''t1'' ''2026-01-01'' ''2026-02-01'' = Inr ov'" by (auto simp: is_ok_iff)
  have ok: "expenses_ok sample_db" by code_simp
  have "case find_row ''t1'' (toLowerCase ''E1'') (expenses sample_db) of None \<Rightarrow> False
    | Some x \<Rightarrow> spent_in ''OPERATING_EXPENSE'' ''t1'' ''2026-01-01'' ''2026-02-01'' x \<and> ex_amountMinor x = 600"
    "within (businessStart ''2026-01-01'') (businessStart ''2026-02-01'') 1768100000000"
    by code_simp+
  with expense_correction_swaps [OF run ok ov] ov show ?thesis
    by (auto simp: ana_def sample_expense_correction_def spent_in_def spends_in_def)
qed

end
