(* ===== verification/WorkShifts.thy ===== *)
theory WorkShifts
  imports Corrections Overview Sample
begin

text \<open>
  The worked shifts (\<open>src/finance/work-shifts.service.ts\<close>): a partner records that a member worked on a
  calendar date, for known or unknown minutes, corrects it, and members read the totals their role
  allows. A call reads the clock once per row it writes: \<open>fst t\<close> for the shift and \<open>snd t\<close> for the
  correction.
\<close>

section \<open>Requests\<close>

record create_shift_dto =
  cw_id :: uuid
  cw_memberId :: uuid
  cw_workDate :: string
  cw_minutes :: "int option"
  cw_note :: "string option"
  cw_createdByMemberId :: uuid
  cw_deviceId :: uuid

definition normalized_shift :: "create_shift_dto \<Rightarrow> create_shift_dto" where
  "normalized_shift dto = \<lparr>cw_id = toLowerCase (cw_id dto), cw_memberId = toLowerCase (cw_memberId dto),
     cw_workDate = cw_workDate dto, cw_minutes = cw_minutes dto, cw_note = cw_note dto,
     cw_createdByMemberId = toLowerCase (cw_createdByMemberId dto), cw_deviceId = toLowerCase (cw_deviceId dto)\<rparr>"

definition json_shift :: "create_shift_dto \<Rightarrow> (string \<times> jsval) list" where
  "json_shift data =
     [(''id'', JStr (cw_id data)), (''memberId'', JStr (cw_memberId data)), (''workDate'', JStr (cw_workDate data)),
      (''minutes'', json_option JNum (cw_minutes data)), (''note'', json_option JStr (cw_note data)),
      (''createdByMemberId'', JStr (cw_createdByMemberId data)), (''deviceId'', JStr (cw_deviceId data))]"

definition shift_print :: "(string \<Rightarrow> string) \<Rightarrow> actor \<Rightarrow> create_shift_dto \<Rightarrow> string \<Rightarrow> string" where
  "shift_print H actor dto operation = fact_digest H actor operation (json_shift (normalized_shift dto))"

definition shift_errors :: "failure \<Rightarrow> failure" where
  "shift_errors e = (if isUniqueViolation e then Conflict ''Work shift identity or relationship conflicts'' else e)"

section \<open>Recording\<close>

text \<open>The shifts of a member on a date that stand, but for one that is about to be voided.\<close>

definition same_day_shifts :: "db \<Rightarrow> string \<Rightarrow> uuid \<Rightarrow> string \<Rightarrow> uuid option \<Rightarrow> work_shift list" where
  "same_day_shifts d c memberId workDate excluded =
     [w \<leftarrow> in_context c (workShifts d). ws_memberId w = memberId \<and> ws_workDate w = utc_date workDate
        \<and> active (workShiftReversals d) w \<and> Some (rid w) \<noteq> excluded]"

definition shift_warnings :: "int \<Rightarrow> jsval" where
  "shift_warnings n = JArr (if n \<noteq> 0
     then [JObj [(''code'', JStr ''MULTIPLE_SHIFTS_SAME_DAY''), (''existingActiveShiftCount'', JNum n)]] else [])"

definition shift_receipt :: "actor \<Rightarrow> create_shift_dto \<Rightarrow> instant \<Rightarrow> int \<Rightarrow> jsval" where
  "shift_receipt actor data now n = JObj (json_shift data
     @ [(''contextId'', JStr (act_contextId actor)), (''createdByAccountId'', JStr (act_accountId actor)),
        (''receivedAt'', JStr (to_iso now)), (''warnings'', shift_warnings n)])"

definition shift_row :: "actor \<Rightarrow> create_shift_dto \<Rightarrow> instant \<Rightarrow> string \<Rightarrow> int \<Rightarrow> work_shift" where
  "shift_row actor data now requestFp n =
     \<lparr>rid = cw_id data, ctx = act_contextId actor, ws_memberId = cw_memberId data,
      ws_workDate = utc_date (cw_workDate data), ws_minutes = cw_minutes data, ws_note = cw_note data,
      ws_receivedAt = now, ws_createdByMemberId = cw_createdByMemberId data,
      ws_createdByAccountId = act_accountId actor, ws_deviceId = cw_deviceId data,
      ws_requestFingerprint = requestFp, ws_creationResponse = shift_receipt actor data now n\<rparr>"

definition insert_shift ::
  "instant \<Rightarrow> actor \<Rightarrow> create_shift_dto \<Rightarrow> string \<Rightarrow> uuid option \<Rightarrow> db \<Rightarrow> (jsval \<times> db) result"
where
  "insert_shift now actor dto requestFp excluded d =
     (let data = normalized_shift dto in
      if \<not> active_member (act_contextId actor) (cw_memberId data) d then Inl Forbidden
      else
        let n = int (length (same_day_shifts d (act_contextId actor) (cw_memberId data) (cw_workDate data) excluded)) in
        (case insert_row ''WorkShift'' (shift_row actor data now requestFp n) (workShifts d) of
           Inl e \<Rightarrow> Inl e
         | Inr rows \<Rightarrow> Inr (shift_receipt actor data now n, d\<lparr>workShifts := rows\<rparr>)))"

definition shift_on_file :: "work_shift option \<Rightarrow> (string \<times> jsval) option" where
  "shift_on_file r = map_option (\<lambda>w. (ws_requestFingerprint w, ws_creationResponse w)) r"

text \<open>The identity of a correction cannot be used again for a shift.\<close>

definition create_shift_commit ::
  "instant \<Rightarrow> actor \<Rightarrow> create_shift_dto \<Rightarrow> string \<Rightarrow> db \<Rightarrow> (jsval \<times> db) result"
where
  "create_shift_commit now actor dto requestFp d =
     (if find_row (act_contextId actor) (toLowerCase (cw_id dto)) (workShiftReversals d) \<noteq> None
      then Inl (Conflict ''Work shift identity already exists'')
      else insert_shift now actor dto requestFp None d)"

definition createWorkShift ::
  "(string \<Rightarrow> string) \<Rightarrow> instant \<Rightarrow> actor \<Rightarrow> create_shift_dto \<Rightarrow> db \<Rightarrow> (bool \<times> jsval) result \<times> db"
where
  "createWorkShift H now actor dto =
     (let requestFp = shift_print H actor dto ''create'' in
      once_call (checkSelection actor (cw_createdByMemberId dto) (cw_deviceId dto)) shift_errors
        (record_once (authorize_books actor)
           (\<lambda>d. shift_on_file (find_row (act_contextId actor) (toLowerCase (cw_id dto)) (workShifts d)))
           requestFp ''Work shift ID already has different content''
           (create_shift_commit now actor dto requestFp)))"

section \<open>Correction\<close>

type_synonym shift_correction = "create_shift_dto correct_dto"

definition shift_identity :: "create_shift_dto \<Rightarrow> uuid \<times> uuid \<times> uuid" where
  "shift_identity dto = (cw_id dto, cw_createdByMemberId dto, cw_deviceId dto)"

definition shift_correction_print :: "(string \<Rightarrow> string) \<Rightarrow> actor \<Rightarrow> uuid \<Rightarrow> shift_correction \<Rightarrow> string" where
  "shift_correction_print H actor target dto =
     fact_digest H actor ''reverse'' (json_correction ''workShiftId'' (toLowerCase target) (normalized_correction dto)
       @ [(''replacement'', json_option (\<lambda>r. JObj (json_shift (normalized_shift r))) (rd_replacement dto))])"

definition replace_shift ::
  "(string \<Rightarrow> string) \<Rightarrow> instant \<Rightarrow> actor \<Rightarrow> uuid \<Rightarrow> shift_correction \<Rightarrow> db \<Rightarrow> (jsval \<times> db) result"
where
  "replace_shift H now actor targetId dto d =
     (case rd_replacement dto of None \<Rightarrow> Inr (JNull, d)
      | Some r \<Rightarrow>
          if find_row (act_contextId actor) (toLowerCase (cw_id r)) (workShifts d) \<noteq> None
             \<or> find_row (act_contextId actor) (toLowerCase (cw_id r)) (workShiftReversals d) \<noteq> None
          then Inl (Conflict ''Replacement identity already exists'')
          else insert_shift now actor r (shift_print H actor r (''replacement:'' @ toLowerCase (rd_id dto)))
                 (Some targetId) d)"

definition shift_ledger :: "work_shift ledger" where
  "shift_ledger = \<lparr>lg_noun = ''Work shift'', lg_model = ''WorkShiftReversal'', lg_rows = workShifts,
     lg_revs = workShiftReversals, lg_put = (\<lambda>revs d. d\<lparr>workShiftReversals := revs\<rparr>)\<rparr>"

definition shift_correction_row ::
  "instant \<Rightarrow> actor \<Rightarrow> uuid \<Rightarrow> shift_correction \<Rightarrow> string \<Rightarrow> work_shift \<Rightarrow> jsval \<Rightarrow> correction"
where
  "shift_correction_row now actor targetId dto requestFp original replacement =
     (let data = normalized_correction dto;
          replacementId = map_option (\<lambda>r. toLowerCase (cw_id r)) (rd_replacement dto) in
      correction_row actor targetId data now requestFp
        (correction_receipt actor (json_correction ''workShiftId'' targetId data) now
           ''replacementWorkShiftId'' replacementId (ws_creationResponse original) replacement)
        replacementId)"

definition correct_shift ::
  "(string \<Rightarrow> string) \<Rightarrow> instant \<times> instant \<Rightarrow> actor \<Rightarrow> uuid \<Rightarrow> shift_correction \<Rightarrow> string \<Rightarrow> db
    \<Rightarrow> (jsval \<times> db) result"
where
  "correct_shift H t actor targetId dto requestFp d =
     (if find_row (act_contextId actor) (toLowerCase (rd_id dto)) (workShifts d) \<noteq> None
      then Inl (Conflict ''Correction identity already exists'')
      else correct_fact shift_ledger actor targetId (replace_shift H (fst t) actor targetId dto)
             (shift_correction_row (snd t) actor targetId dto requestFp) d)"

definition reverseWorkShift ::
  "(string \<Rightarrow> string) \<Rightarrow> instant \<times> instant \<Rightarrow> actor \<Rightarrow> uuid \<Rightarrow> shift_correction \<Rightarrow> db
    \<Rightarrow> (bool \<times> jsval) result \<times> db"
where
  "reverseWorkShift H t actor target dto =
     (let requestFp = shift_correction_print H actor target dto in
      once_call (correction_pre actor target dto (map_option shift_identity (rd_replacement dto))) shift_errors
        (record_once (authorize_books actor)
           (\<lambda>d. on_file (find_row (act_contextId actor) (toLowerCase (rd_id dto)) (workShiftReversals d)))
           requestFp ''Reversal ID already has different content''
           (correct_shift H t actor (toLowerCase target) dto requestFp)))"

section \<open>Totals\<close>

datatype shift_duration = KnownDuration | UnknownDuration

record shift_query =
  wq_from :: "string option"
  wq_to :: "string option"
  wq_memberId :: "uuid option"
  wq_duration :: "shift_duration option"

text \<open>\<open>scope\<close>: which shifts the query selects for the actor, a colaborador only their own.\<close>

definition scope :: "db \<Rightarrow> actor \<Rightarrow> shift_query \<Rightarrow> (work_shift \<Rightarrow> bool) result" where
  "scope d actor query =
     (if (case (wq_from query, wq_to query) of (Some a, Some b) \<Rightarrow> a \<ge> b | _ \<Rightarrow> False)
      then Inl (BadRequest ''from must precede to'')
      else
       (case (case act_selection actor of None \<Rightarrow> None
              | Some (i, _) \<Rightarrow> find (\<lambda>m. rid m = i \<and> ctx m = act_contextId actor \<and> m_active m) (members d)) of
          None \<Rightarrow> Inl Forbidden
        | Some m \<Rightarrow>
            let asked = map_option toLowerCase (wq_memberId query) in
            if m_role m = Colaborador \<and> asked \<noteq> None \<and> asked \<noteq> Some (rid m) then Inl Forbidden
            else
              let memberId = (if m_role m = Colaborador then Some (rid m) else asked) in
              Inr (\<lambda>w. ctx w = act_contextId actor
                \<and> (case memberId of None \<Rightarrow> True | Some i \<Rightarrow> ws_memberId w = i)
                \<and> (case wq_from query of None \<Rightarrow> True | Some a \<Rightarrow> utc_date a \<le> ws_workDate w)
                \<and> (case wq_to query of None \<Rightarrow> True | Some b \<Rightarrow> ws_workDate w < utc_date b)
                \<and> (case wq_duration query of None \<Rightarrow> True
                   | Some UnknownDuration \<Rightarrow> ws_minutes w = None | Some KnownDuration \<Rightarrow> ws_minutes w \<noteq> None))))"

record shift_counts =
  sc_shiftCount :: int
  sc_knownMinutes :: int
  sc_unknownDurationCount :: int

record member_shifts = shift_counts +
  sc_memberId :: uuid
  sc_member :: "member option"

definition count_shifts :: "work_shift list \<Rightarrow> shift_counts" where
  "count_shifts ws = \<lparr>sc_shiftCount = int (length ws), sc_knownMinutes = sum_list (map shift_minutes ws),
     sc_unknownDurationCount = int (length ws) - int (length [w \<leftarrow> ws. ws_minutes w \<noteq> None])\<rparr>"

text \<open>\<open>groupBy({by: ['memberId']})\<close>, the members of the groups, and the sums over them.\<close>

definition member_groups :: "db \<Rightarrow> string \<Rightarrow> work_shift list \<Rightarrow> member_shifts list" where
  "member_groups d c ws = map (\<lambda>i. shift_counts.extend (count_shifts [w \<leftarrow> ws. ws_memberId w = i])
       (member_shifts.fields i (find (\<lambda>m. rid m = i) (in_context c (members d)))))
     (remdups (map ws_memberId ws))"

fun add_counts :: "member_shifts list \<Rightarrow> shift_counts \<Rightarrow> shift_counts" where
  "add_counts [] sums = sums"
| "add_counts (m # ms) sums = add_counts ms
     \<lparr>sc_shiftCount = sc_shiftCount sums + sc_shiftCount m, sc_knownMinutes = sc_knownMinutes sums + sc_knownMinutes m,
      sc_unknownDurationCount = sc_unknownDurationCount sums + sc_unknownDurationCount m\<rparr>"

definition shift_summary :: "db \<Rightarrow> actor \<Rightarrow> shift_query \<Rightarrow> (shift_counts \<times> member_shifts list) result" where
  "shift_summary d actor query =
     (case scope d actor query of Inl e \<Rightarrow> Inl e
      | Inr where_ \<Rightarrow>
          let ms = sort_key (\<lambda>m. collation_key (sc_memberId m))
                     (member_groups d (act_contextId actor) [w \<leftarrow> workShifts d. where_ w \<and> active (workShiftReversals d) w]) in
          Inr (add_counts ms \<lparr>sc_shiftCount = 0, sc_knownMinutes = 0, sc_unknownDurationCount = 0\<rparr>, ms))"

section \<open>Inversion\<close>

lemma normalized_shift_simps [simp]:
  "cw_id (normalized_shift dto) = toLowerCase (cw_id dto)"
  "cw_memberId (normalized_shift dto) = toLowerCase (cw_memberId dto)"
  "cw_workDate (normalized_shift dto) = cw_workDate dto" "cw_minutes (normalized_shift dto) = cw_minutes dto"
  by (simp_all add: normalized_shift_def)

lemma shift_row_simps [simp]:
  "rid (shift_row actor data now fp n) = cw_id data" "ctx (shift_row actor data now fp n) = act_contextId actor"
  "ws_requestFingerprint (shift_row actor data now fp n) = fp"
  "ws_creationResponse (shift_row actor data now fp n) = shift_receipt actor data now n"
  "ws_memberId (shift_row actor data now fp n) = cw_memberId data"
  "ws_workDate (shift_row actor data now fp n) = utc_date (cw_workDate data)"
  "ws_minutes (shift_row actor data now fp n) = cw_minutes data"
  by (simp_all add: shift_row_def)

lemma shift_errors_conflict [simp]: "shift_errors (Conflict x) = Conflict x"
  by (simp add: shift_errors_def isUniqueViolation_def)

text \<open>The shifts the receipt of a new one counts, and the row that is written.\<close>

definition others_that_day :: "db \<Rightarrow> actor \<Rightarrow> create_shift_dto \<Rightarrow> uuid option \<Rightarrow> int" where
  "others_that_day d actor dto excluded = int (length
     (same_day_shifts d (act_contextId actor) (toLowerCase (cw_memberId dto)) (cw_workDate dto) excluded))"

definition recorded_shift :: "(string \<Rightarrow> string) \<Rightarrow> instant \<Rightarrow> actor \<Rightarrow> string \<Rightarrow> create_shift_dto \<Rightarrow> uuid option \<Rightarrow> db \<Rightarrow> work_shift" where
  "recorded_shift H now actor operation dto excluded d =
     shift_row actor (normalized_shift dto) now (shift_print H actor dto operation) (others_that_day d actor dto excluded)"

lemma recorded_shift_simps [simp]:
  "rid (recorded_shift H now actor operation dto x d) = toLowerCase (cw_id dto)"
  "ctx (recorded_shift H now actor operation dto x d) = act_contextId actor"
  "ws_memberId (recorded_shift H now actor operation dto x d) = toLowerCase (cw_memberId dto)"
  "ws_workDate (recorded_shift H now actor operation dto x d) = utc_date (cw_workDate dto)"
  "ws_requestFingerprint (recorded_shift H now actor operation dto x d) = shift_print H actor dto operation"
  "ws_creationResponse (recorded_shift H now actor operation dto x d)
     = shift_receipt actor (normalized_shift dto) now (others_that_day d actor dto x)"
  by (simp_all add: recorded_shift_def)

lemma insert_shift_Inr:
  assumes "insert_shift now actor dto (shift_print H actor dto operation) x d = Inr (r, d')"
  shows "d' = d\<lparr>workShifts := workShifts d @ [recorded_shift H now actor operation dto x d]\<rparr>
    \<and> toLowerCase (cw_id dto) \<notin> rid ` set (workShifts d)
    \<and> r = shift_receipt actor (normalized_shift dto) now (others_that_day d actor dto x)"
  using assms
  by (auto simp: insert_shift_def recorded_shift_def others_that_day_def Let_def split: sum.splits if_splits
      dest: insert_row_Inr)

lemma create_shift_commit_Inr:
  assumes "create_shift_commit now actor dto (shift_print H actor dto ''create'') d = Inr (r, d')"
  shows "d' = d\<lparr>workShifts := workShifts d @ [recorded_shift H now actor ''create'' dto None d]\<rparr>
    \<and> toLowerCase (cw_id dto) \<notin> rid ` set (workShifts d)
    \<and> r = shift_receipt actor (normalized_shift dto) now (others_that_day d actor dto None)
    \<and> find_row (act_contextId actor) (toLowerCase (cw_id dto)) (workShiftReversals d) = None"
  using assms by (auto simp: create_shift_commit_def split: if_splits dest: insert_shift_Inr)

definition replacing_shift ::
  "(string \<Rightarrow> string) \<Rightarrow> instant \<Rightarrow> actor \<Rightarrow> uuid \<Rightarrow> shift_correction \<Rightarrow> db \<Rightarrow> work_shift option"
where
  "replacing_shift H now actor targetId dto d =
     map_option (\<lambda>y. recorded_shift H now actor (''replacement:'' @ toLowerCase (rd_id dto)) y (Some targetId) d)
       (rd_replacement dto)"

lemma replace_shift_Inr:
  assumes "replace_shift H now actor targetId dto d = Inr (r, d')"
  shows "d' = d\<lparr>workShifts := workShifts d
        @ (case replacing_shift H now actor targetId dto d of None \<Rightarrow> [] | Some x \<Rightarrow> [x])\<rparr>
    \<and> (\<forall>x. replacing_shift H now actor targetId dto d = Some x \<longrightarrow> rid x \<notin> rid ` set (workShifts d)
          \<and> find_row (act_contextId actor) (rid x) (workShiftReversals d) = None)"
  using assms
  by (auto simp: replace_shift_def replacing_shift_def dest: insert_shift_Inr split: option.splits if_splits)

lemma shift_correction_row_simps [simp]:
  "rid (shift_correction_row now actor targetId dto fp x y) = toLowerCase (rd_id dto)"
  "ctx (shift_correction_row now actor targetId dto fp x y) = act_contextId actor"
  "f_requestFingerprint (shift_correction_row now actor targetId dto fp x y) = fp"
  "rev_target (shift_correction_row now actor targetId dto fp x y) = targetId"
  "rev_replacementId (shift_correction_row now actor targetId dto fp x y)
     = map_option (\<lambda>r. toLowerCase (cw_id r)) (rd_replacement dto)"
  by (simp_all add: shift_correction_row_def Let_def)

lemma correct_shift_Inr:
  assumes "correct_shift H t actor targetId dto fp d = Inr (r, d')"
  obtains original v where
    "find_row (act_contextId actor) targetId (workShifts d) = Some original" "active (workShiftReversals d) original"
    "rid v = toLowerCase (rd_id dto)" "ctx v = act_contextId actor" "f_requestFingerprint v = fp"
    "f_creationResponse v = r" "rev_target v = targetId"
    "rev_replacementId v = map_option rid (replacing_shift H (fst t) actor targetId dto d)"
    "insert_correction ''WorkShiftReversal'' v (workShiftReversals d) = Inr (workShiftReversals d')"
    "d' = d\<lparr>workShifts := workShifts d
        @ (case replacing_shift H (fst t) actor targetId dto d of None \<Rightarrow> [] | Some x \<Rightarrow> [x]),
      workShiftReversals := workShiftReversals d @ [v]\<rparr>"
    "\<forall>x. replacing_shift H (fst t) actor targetId dto d = Some x \<longrightarrow> rid x \<notin> rid ` set (workShifts d)
      \<and> find_row (act_contextId actor) (rid x) (workShiftReversals d) = None"
    "find_row (act_contextId actor) (toLowerCase (rd_id dto)) (workShifts d) = None"
proof -
  from assms have body: "correct_fact shift_ledger actor targetId (replace_shift H (fst t) actor targetId dto)
      (shift_correction_row (snd t) actor targetId dto fp) d = Inr (r, d')"
    and unused: "find_row (act_contextId actor) (toLowerCase (rd_id dto)) (workShifts d) = None"
    by (auto simp: correct_shift_def split: if_splits)
  from body show thesis
  proof (rule correct_fact_Inr)
    fix original replacement d1 v
    assume o: "find_row (act_contextId actor) targetId (lg_rows shift_ledger d) = Some original"
      "active (lg_revs shift_ledger d) original"
      and rep: "replace_shift H (fst t) actor targetId dto d = Inr (replacement, d1)"
      and v: "v = shift_correction_row (snd t) actor targetId dto fp original replacement" "r = f_creationResponse v"
      and ins: "insert_correction (lg_model shift_ledger) v (lg_revs shift_ledger d1) = Inr (lg_revs shift_ledger d1 @ [v])"
      and d': "d' = lg_put shift_ledger (lg_revs shift_ledger d1 @ [v]) d1"
    note d1 = replace_shift_Inr [OF rep]
    show thesis
    proof (rule that [of original v])
      show "rev_replacementId v = map_option rid (replacing_shift H (fst t) actor targetId dto d)"
        by (cases "rd_replacement dto") (simp_all add: v replacing_shift_def)
    qed (use o v ins d' d1 unused in \<open>simp_all add: shift_ledger_def\<close>)
  qed
qed

section \<open>Idempotency\<close>

lemma create_shift_writes:
  assumes "create_shift_commit now actor dto (shift_print H actor dto ''create'') d = Inr (r, d')"
  shows "shift_on_file (find_row (act_contextId actor) (toLowerCase (cw_id dto)) (workShifts d'))
      = Some (shift_print H actor dto ''create'', r)
    \<and> authorize_books actor d' = authorize_books actor d"
proof -
  note w = create_shift_commit_Inr [OF assms]
  let ?row = "recorded_shift H now actor ''create'' dto None d"
  have "insert_row m ?row (workShifts d) = Inr (workShifts d')" for m
    using w by (simp add: insert_row_def)
  from find_row_insert [OF this] have "find_row (act_contextId actor) (toLowerCase (cw_id dto)) (workShifts d') = Some ?row"
    by simp
  moreover have "authorize_books actor d' = authorize_books actor d"
    by (rule authorize_books_tables) (use w in simp_all)
  ultimately show ?thesis using w by (simp add: shift_on_file_def)
qed

interpretation shift_create:
  recorded_write "\<lambda>(actor, dto). checkSelection actor (cw_createdByMemberId dto) (cw_deviceId dto)"
    shift_errors "\<lambda>(actor, dto). authorize_books actor"
    "\<lambda>(actor, dto) d. shift_on_file (find_row (act_contextId actor) (toLowerCase (cw_id dto)) (workShifts d))"
    "\<lambda>(actor, dto). shift_print H actor dto ''create''" "''Work shift ID already has different content''"
    "\<lambda>now (actor, dto). create_shift_commit now actor dto (shift_print H actor dto ''create'')"
  for H
  by unfold_locales (auto dest!: create_shift_writes)

lemma correct_shift_writes:
  assumes "correct_shift H t actor targetId dto fp d = Inr (r, d')"
  shows "on_file (find_row (act_contextId actor) (toLowerCase (rd_id dto)) (workShiftReversals d')) = Some (fp, r)
    \<and> authorize_books actor d' = authorize_books actor d"
  using assms
proof (rule correct_shift_Inr)
  fix original v
  assume v: "rid v = toLowerCase (rd_id dto)" "ctx v = act_contextId actor" "f_requestFingerprint v = fp"
      "f_creationResponse v = r"
    and ins: "insert_correction ''WorkShiftReversal'' v (workShiftReversals d) = Inr (workShiftReversals d')"
    and d': "d' = d\<lparr>workShifts := workShifts d
        @ (case replacing_shift H (fst t) actor targetId dto d of None \<Rightarrow> [] | Some x \<Rightarrow> [x]),
      workShiftReversals := workShiftReversals d @ [v]\<rparr>"
  have "authorize_books actor d' = authorize_books actor d"
    by (rule authorize_books_tables) (simp_all add: d')
  with on_file_correction [OF ins v(1,2)] v(3,4) show ?thesis by simp
qed

interpretation shift_correct:
  recorded_write
    "\<lambda>(actor, i, dto). correction_pre actor i dto (map_option shift_identity (rd_replacement dto))"
    shift_errors "\<lambda>(actor, i, dto). authorize_books actor"
    "\<lambda>(actor, i, dto) d. on_file (find_row (act_contextId actor) (toLowerCase (rd_id dto)) (workShiftReversals d))"
    "\<lambda>(actor, i, dto). shift_correction_print H actor i dto" "''Reversal ID already has different content''"
    "\<lambda>t (actor, i, dto). correct_shift H t actor (toLowerCase i) dto (shift_correction_print H actor i dto)"
  for H
  by unfold_locales (auto dest!: correct_shift_writes)

lemma shift_create_call: "shift_create.call H now (actor, dto) = createWorkShift H now actor dto"
  by (simp add: shift_create.call_def createWorkShift_def Let_def)

lemma shift_correct_call: "shift_correct.call H t (actor, i, dto) = reverseWorkShift H t actor i dto"
  by (simp add: shift_correct.call_def reverseWorkShift_def Let_def)

section \<open>The ledger of shifts\<close>

text \<open>No shift and no correction of a business share an identity.\<close>

definition identities_disjoint :: "db \<Rightarrow> bool" where
  "identities_disjoint d \<longleftrightarrow>
     list_all (\<lambda>w. find_row (ctx w) (rid w) (workShiftReversals d) = None) (workShifts d)"

definition work_shifts_ok :: "db \<Rightarrow> bool" where
  "work_shifts_ok d \<longleftrightarrow> ledger_ok (workShifts d) (workShiftReversals d) \<and> identities_disjoint d"

lemma create_shift_commit_ok:
  assumes "create_shift_commit now actor dto (shift_print H actor dto ''create'') d = Inr (r, d')" "work_shifts_ok d"
  shows "work_shifts_ok d'"
  using create_shift_commit_Inr [OF assms(1)] assms(2) by (simp add: work_shifts_ok_def ledger_insert identities_disjoint_def)

lemma find_row_snoc_None: "find_row c i (rows @ [x]) = None \<longleftrightarrow> find_row c i rows = None \<and> \<not> (rid x = i \<and> ctx x = c)"
  by (auto simp: find_row_None)

lemma correct_shift_ok:
  assumes "correct_shift H t actor targetId dto fp d = Inr (r, d')" "work_shifts_ok d"
    and distinct: "\<forall>y. rd_replacement dto = Some y \<longrightarrow> toLowerCase (cw_id y) \<noteq> toLowerCase (rd_id dto)"
  shows "work_shifts_ok d'"
  using assms(1)
proof (rule correct_shift_Inr)
  fix original v
  let ?new = "replacing_shift H (fst t) actor targetId dto d"
  let ?rows = "workShifts d @ (case ?new of None \<Rightarrow> [] | Some x \<Rightarrow> [x])"
  assume o: "find_row (act_contextId actor) targetId (workShifts d) = Some original"
    and v: "rid v = toLowerCase (rd_id dto)" "ctx v = act_contextId actor" "rev_target v = targetId"
      "rev_replacementId v = map_option rid ?new"
    and ins: "insert_correction ''WorkShiftReversal'' v (workShiftReversals d) = Inr (workShiftReversals d')"
    and d': "d' = d\<lparr>workShifts := ?rows, workShiftReversals := workShiftReversals d @ [v]\<rparr>"
    and fresh: "\<forall>x. ?new = Some x \<longrightarrow> rid x \<notin> rid ` set (workShifts d)
      \<and> find_row (act_contextId actor) (rid x) (workShiftReversals d) = None"
    and unused: "find_row (act_contextId actor) (toLowerCase (rd_id dto)) (workShifts d) = None"
  have new: "ctx x = act_contextId actor" if "?new = Some x" for x
    using that by (auto simp: replacing_shift_def)
  have neq: "rid x \<noteq> rid v" if "?new = Some x" for x
    using that distinct by (auto simp: replacing_shift_def v)
  from ledger_correct_with [OF _ o ins v(2,3,4) _ new] fresh assms(2)
  have "ledger_ok ?rows (workShiftReversals d')" by (simp add: work_shifts_ok_def)
  moreover have "find_row (ctx w) (rid w) (workShiftReversals d @ [v]) = None" if w: "w \<in> set ?rows" for w
  proof (cases "w \<in> set (workShifts d)")
    case True
    with assms(2) have "find_row (ctx w) (rid w) (workShiftReversals d) = None"
      by (simp add: work_shifts_ok_def identities_disjoint_def list_all_iff)
    moreover have "\<not> (rid v = rid w \<and> ctx v = ctx w)"
      using unused True by (auto simp: find_row_None v)
    ultimately show ?thesis by (simp add: find_row_snoc_None)
  next
    case False
    with w have "?new = Some w" by (auto split: option.splits)
    with fresh new neq show ?thesis by (auto simp: find_row_snoc_None)
  qed
  ultimately show ?thesis by (simp add: work_shifts_ok_def identities_disjoint_def list_all_iff d')
qed

section \<open>Warnings\<close>

text \<open>A shift that is inserted into a ledger where its identity is free stands, and counts the others.\<close>

lemma same_day_insert:
  assumes "rid x \<notin> rid ` set (workShifts d)" "workShifts d' = workShifts d @ [x]"
    "workShiftReversals d' = workShiftReversals d"
  shows "same_day_shifts d' c m day (Some (rid x)) = same_day_shifts d c m day None"
proof -
  have "[w \<leftarrow> in_context c (workShifts d). P w \<and> Some (rid w) \<noteq> Some (rid x)] = [w \<leftarrow> in_context c (workShifts d). P w]" for P
    using assms(1) by (intro filter_cong) (auto simp: in_context_def image_iff)
  note none = this [of "\<lambda>w. ws_memberId w = m \<and> ws_workDate w = utc_date day \<and> active (workShiftReversals d) w"]
  show ?thesis
    using none by (simp add: same_day_shifts_def assms(2,3) in_context_def conj_assoc)
qed

text \<open>The count that leaves the voided shift out is the count after it is voided.\<close>

lemma same_day_correct:
  assumes "ledger_ok (workShifts d) (workShiftReversals d)" "rid x \<notin> rid ` set (workShifts d)"
    and "workShifts d' = workShifts d @ [x]" "workShiftReversals d' = workShiftReversals d @ [v]"
    and "ctx v = c" "rev_target v = i"
  shows "same_day_shifts d' c m day (Some (rid x)) = same_day_shifts d c m day (Some i)"
proof -
  let ?P = "\<lambda>w. ws_memberId w = m \<and> ws_workDate w = utc_date day"
  have "[w \<leftarrow> in_context c (workShifts d). ?P w \<and> active (workShiftReversals d @ [v]) w \<and> Some (rid w) \<noteq> Some (rid x)]
      = [w \<leftarrow> in_context c (workShifts d). ?P w \<and> active (workShiftReversals d) w \<and> Some (rid w) \<noteq> Some i]"
    using assms(2,5,6) by (intro filter_cong) (auto simp: in_context_def image_iff active_snoc)
  then show ?thesis by (simp add: same_day_shifts_def assms(3,4) in_context_def)
qed

text \<open>The warning of a shift is true in the state it is stored in. When a shift is recorded, its receipt
  counts the other shifts of the same worker on the same date that stand after the transaction; and so
  does the stored receipt of a replacement, where the shift that is corrected no longer stands.\<close>

theorem shift_warning_truthful:
  assumes "work_shifts_ok d"
  shows "(createWorkShift H now actor dto d = (Inr (True, r), d') \<longrightarrow>
      r = shift_receipt actor (normalized_shift dto) now (others_that_day d' actor dto (Some (toLowerCase (cw_id dto)))))
    \<and> (reverseWorkShift H t actor target cor d = (Inr (True, q), d') \<longrightarrow> rd_replacement cor = Some y \<longrightarrow>
      (\<exists>w. find_row (act_contextId actor) (toLowerCase (cw_id y)) (workShifts d') = Some w
         \<and> ws_creationResponse w = shift_receipt actor (normalized_shift y) (fst t)
             (others_that_day d' actor y (Some (toLowerCase (cw_id y))))))"
proof (intro conjI impI)
  assume "createWorkShift H now actor dto d = (Inr (True, r), d')"
  then have "create_shift_commit now actor dto (shift_print H actor dto ''create'') d = Inr (r, d')"
    by (simp add: createWorkShift_def Let_def once_call_Inr record_once_created)
  note w = create_shift_commit_Inr [OF this]
  let ?x = "recorded_shift H now actor ''create'' dto None d"
  have "same_day_shifts d' c m day (Some (rid ?x)) = same_day_shifts d c m day None" for c m day
    by (rule same_day_insert) (use w in simp_all)
  with w show "r = shift_receipt actor (normalized_shift dto) now (others_that_day d' actor dto (Some (toLowerCase (cw_id dto))))"
    by (simp add: others_that_day_def)
next
  assume "reverseWorkShift H t actor target cor d = (Inr (True, q), d')" and y: "rd_replacement cor = Some y"
  then have "correct_shift H t actor (toLowerCase target) cor (shift_correction_print H actor target cor) d = Inr (q, d')"
    by (simp add: reverseWorkShift_def Let_def once_call_Inr record_once_created)
  then show "\<exists>w. find_row (act_contextId actor) (toLowerCase (cw_id y)) (workShifts d') = Some w
     \<and> ws_creationResponse w = shift_receipt actor (normalized_shift y) (fst t)
         (others_that_day d' actor y (Some (toLowerCase (cw_id y))))"
  proof (rule correct_shift_Inr)
    fix original v
    let ?op = "''replacement:'' @ toLowerCase (rd_id cor)"
    let ?x = "recorded_shift H (fst t) actor ?op y (Some (toLowerCase target)) d"
    have new: "replacing_shift H (fst t) actor (toLowerCase target) cor d = Some ?x" by (simp add: replacing_shift_def y)
    assume v: "ctx v = act_contextId actor" "rev_target v = toLowerCase target"
      and d': "d' = d\<lparr>workShifts := workShifts d
          @ (case replacing_shift H (fst t) actor (toLowerCase target) cor d of None \<Rightarrow> [] | Some x \<Rightarrow> [x]),
        workShiftReversals := workShiftReversals d @ [v]\<rparr>"
      and "\<forall>x. replacing_shift H (fst t) actor (toLowerCase target) cor d = Some x \<longrightarrow> rid x \<notin> rid ` set (workShifts d)
        \<and> find_row (act_contextId actor) (rid x) (workShiftReversals d) = None"
    then have fresh: "rid ?x \<notin> rid ` set (workShifts d)" using new by blast
    have rows: "workShifts d' = workShifts d @ [?x]" "workShiftReversals d' = workShiftReversals d @ [v]"
      by (simp_all add: d' new)
    have "insert_row m ?x (workShifts d) = Inr (workShifts d')" for m
      using fresh rows by (simp add: insert_row_def)
    from find_row_insert [OF this]
    have "find_row (act_contextId actor) (toLowerCase (cw_id y)) (workShifts d') = Some ?x" by simp
    moreover have "same_day_shifts d' (act_contextId actor) m day (Some (rid ?x))
        = same_day_shifts d (act_contextId actor) m day (Some (toLowerCase target))" for m day
      by (rule same_day_correct [OF _ fresh rows v]) (use assms in \<open>simp add: work_shifts_ok_def\<close>)
    ultimately show ?thesis by (auto simp: others_that_day_def)
  qed
qed

definition sample_shift_request :: "uuid \<Rightarrow> string \<Rightarrow> create_shift_dto" where
  "sample_shift_request i day = \<lparr>cw_id = i, cw_memberId = ''M1'', cw_workDate = day, cw_minutes = Some 120, cw_note = None,
     cw_createdByMemberId = ''m1'', cw_deviceId = ''d1''\<rparr>"

definition sample_shift_correction :: shift_correction where
  "sample_shift_correction = \<lparr>rd_id = ''v1'', rd_reason = ''duracion'', rd_occurredAt = 1768300000000,
     rd_createdByMemberId = ''m1'', rd_deviceId = ''d1'',
     rd_replacement = Some (sample_shift_request ''w3'' ''2026-01-05'')\<rparr>"

text \<open>Replacing the only shift of that day warns of nothing.\<close>

lemma shift_warning_truthful_witness:
  "\<exists>w. find_row ''t1'' ''w3'' (workShifts (snd (reverseWorkShift (\<lambda>s. []) (1, 2) ana ''W1'' sample_shift_correction sample_db))) = Some w
     \<and> ws_creationResponse w = shift_receipt ana (normalized_shift (sample_shift_request ''w3'' ''2026-01-05'')) 1 0"
proof -
  let ?run = "reverseWorkShift (\<lambda>s. []) (1, 2) ana ''W1'' sample_shift_correction sample_db"
  have "created (fst ?run) \<and> same_day_shifts (snd ?run) ''t1'' ''m1'' ''2026-01-05'' (Some ''w3'') = []"
    by (simp add: run_defs sample_ids reverseWorkShift_def shift_identity_def correct_shift_def same_day_shifts_def in_context_def
        shift_ledger_def replace_shift_def insert_shift_def normalized_shift_def sample_shift_request_def active_iff
        shift_correction_row_def shift_row_def correction_row_def
        sample_shift_def sample_shift_correction_def ana_def sample_db_def empty_db_def)
  then have cr: "created (fst ?run)" and zero: "others_that_day (snd ?run) ana (sample_shift_request ''w3'' ''2026-01-05'') (Some ''w3'') = 0"
    by (simp_all add: others_that_day_def ana_def sample_shift_request_def sample_ids)
  from cr obtain r where "fst ?run = Inr (True, r)" by (cases "fst ?run" rule: created.cases) auto
  then have run: "?run = (Inr (True, r), snd ?run)" by (metis prod.collapse)
  have ok: "work_shifts_ok sample_db" by code_simp
  have rep: "rd_replacement sample_shift_correction = Some (sample_shift_request ''w3'' ''2026-01-05'')"
    by (simp add: sample_shift_correction_def)
  have ids: "toLowerCase (cw_id (sample_shift_request ''w3'' ''2026-01-05'')) = ''w3''" "act_contextId ana = ''t1''"
    by (simp_all add: sample_shift_request_def sample_ids ana_def)
  from shift_warning_truthful [OF ok, THEN conjunct2, rule_format, OF run rep] zero show ?thesis
    unfolding ids by simp
qed

section \<open>What the totals add up to\<close>

lemma add_counts_sums:
  "add_counts ms sums =
     \<lparr>sc_shiftCount = sc_shiftCount sums + sum_list (map sc_shiftCount ms),
      sc_knownMinutes = sc_knownMinutes sums + sum_list (map sc_knownMinutes ms),
      sc_unknownDurationCount = sc_unknownDurationCount sums + sum_list (map sc_unknownDurationCount ms)\<rparr>"
  by (induction ms sums rule: add_counts.induct) simp_all

definition one_shift :: "work_shift \<Rightarrow> int" where
  "one_shift w = 1"

definition unknown_shift :: "work_shift \<Rightarrow> int" where
  "unknown_shift w = (if ws_minutes w = None then 1 else 0)"

lemma count_shifts_sums:
  "count_shifts ws = \<lparr>sc_shiftCount = sum_list (map one_shift ws), sc_knownMinutes = sum_list (map shift_minutes ws),
     sc_unknownDurationCount = sum_list (map unknown_shift ws)\<rparr>"
proof -
  have "int (length ws) = sum_list (map one_shift ws)" by (induction ws) (simp_all add: one_shift_def)
  moreover have "int (length ws) - int (length [w \<leftarrow> ws. ws_minutes w \<noteq> None]) = sum_list (map unknown_shift ws)"
    by (induction ws) (auto simp: unknown_shift_def)
  ultimately show ?thesis by (simp add: count_shifts_def)
qed

lemma member_groups_count:
  "m \<in> set (member_groups d c ws) \<Longrightarrow> shift_counts.truncate m = count_shifts [w \<leftarrow> ws. ws_memberId w = sc_memberId m]"
  by (auto simp: member_groups_def shift_counts.defs member_shifts.defs)

lemma member_groups_ids: "map sc_memberId (member_groups d c ws) = remdups (map ws_memberId ws)"
  by (simp add: member_groups_def o_def shift_counts.defs member_shifts.defs)

lemma member_groups_sum:
  assumes "\<And>xs. f (count_shifts xs) = sum_list (map g xs)" "\<And>c m. F (shift_counts.extend c m) = f c"
  shows "sum_list (map F (member_groups d c ws)) = (sum_list (map g ws) :: int)"
proof -
  have "map F (member_groups d c ws) = map (\<lambda>i. sum_list (map g [w \<leftarrow> ws. ws_memberId w = i])) (remdups (map ws_memberId ws))"
    by (simp add: member_groups_def assms o_def)
  then show ?thesis using sum_list_by_class [of "remdups (map ws_memberId ws)" ws ws_memberId g] by simp
qed

definition zero_counts :: shift_counts where
  "zero_counts = \<lparr>sc_shiftCount = 0, sc_knownMinutes = 0, sc_unknownDurationCount = 0\<rparr>"

lemma member_groups_total:
  "add_counts (sort_key k (member_groups d c ws)) zero_counts = count_shifts ws"
proof -
  have "sum_list (map sc_shiftCount (member_groups d c ws)) = sum_list (map one_shift ws)"
    by (rule member_groups_sum [where f = sc_shiftCount]) (simp_all add: count_shifts_sums shift_counts.defs)
  moreover have "sum_list (map sc_knownMinutes (member_groups d c ws)) = sum_list (map shift_minutes ws)"
    by (rule member_groups_sum [where f = sc_knownMinutes]) (simp_all add: count_shifts_sums shift_counts.defs)
  moreover have "sum_list (map sc_unknownDurationCount (member_groups d c ws)) = sum_list (map unknown_shift ws)"
    by (rule member_groups_sum [where f = sc_unknownDurationCount]) (simp_all add: count_shifts_sums shift_counts.defs)
  ultimately show ?thesis
    by (simp add: add_counts_sums sum_list_sort_key count_shifts_sums zero_counts_def)
qed

definition selected_shifts :: "db \<Rightarrow> (work_shift \<Rightarrow> bool) \<Rightarrow> work_shift list" where
  "selected_shifts d P = [w \<leftarrow> workShifts d. P w \<and> active (workShiftReversals d) w]"

lemma shift_summary_Inr:
  assumes "shift_summary d actor query = Inr (totals, ms)"
  obtains P where "scope d actor query = Inr P"
    "ms = sort_key (\<lambda>m. collation_key (sc_memberId m)) (member_groups d (act_contextId actor) (selected_shifts d P))"
    "totals = count_shifts (selected_shifts d P)"
proof -
  from assms obtain P where P: "scope d actor query = Inr P" by (auto simp: shift_summary_def split: sum.splits)
  with assms have "ms = sort_key (\<lambda>m. collation_key (sc_memberId m)) (member_groups d (act_contextId actor) (selected_shifts d P))"
      "totals = add_counts ms zero_counts"
    by (auto simp: shift_summary_def Let_def selected_shifts_def zero_counts_def)
  with P that show thesis by (simp add: member_groups_total)
qed

text \<open>The role and identity the scope is decided by, at the time of the query.\<close>

definition acting_member :: "db \<Rightarrow> actor \<Rightarrow> member option" where
  "acting_member d actor = (case act_selection actor of None \<Rightarrow> None
     | Some (i, _) \<Rightarrow> find (\<lambda>m. rid m = i \<and> ctx m = act_contextId actor \<and> m_active m) (members d))"

lemma scope_Inr:
  assumes "scope d actor query = Inr P"
  obtains m where "acting_member d actor = Some m"
    "\<And>w. P w \<Longrightarrow> ctx w = act_contextId actor \<and> (m_role m = Colaborador \<longrightarrow> ws_memberId w = rid m)"
    "m_role m = Socio \<Longrightarrow> query = \<lparr>wq_from = Some from, wq_to = Some to, wq_memberId = None, wq_duration = None\<rparr>
      \<Longrightarrow> P = (\<lambda>w. ctx w = act_contextId actor \<and> within (utc_date from) (utc_date to) (ws_workDate w))"
proof -
  from assms obtain m where m: "acting_member d actor = Some m"
    by (auto simp: scope_def acting_member_def split: if_splits option.splits)
  have "ctx w = act_contextId actor \<and> (m_role m = Colaborador \<longrightarrow> ws_memberId w = rid m)" if "P w" for w
    using assms that m unfolding scope_def acting_member_def [symmetric] m option.case Let_def
    by (auto split: if_splits option.splits)
  moreover have "P = (\<lambda>w. ctx w = act_contextId actor \<and> within (utc_date from) (utc_date to) (ws_workDate w))"
    if "m_role m = Socio" "query = \<lparr>wq_from = Some from, wq_to = Some to, wq_memberId = None, wq_duration = None\<rparr>"
    using assms that unfolding scope_def acting_member_def [symmetric] m option.case Let_def
    by (auto simp: within_def split: if_splits)
  ultimately show thesis using m that by blast
qed

text \<open>The totals of the shifts are those of the shifts that stand and that the actor may see, grouped by
  worker without repetition: each worker is shown the count, the known minutes and the shifts of unknown
  duration of exactly their shifts, and the totals are the sums over all of them. A colaborador is shown
  their own line only, and the totals a socio reads for a period are those of its overview.\<close>

theorem shift_summary_exact:
  assumes "shift_summary d actor query = Inr (totals, ms)"
  shows "distinct (map sc_memberId ms)
    \<and> (\<exists>ws. totals = count_shifts ws \<and> set ws \<subseteq> {w \<in> set (workShifts d). ctx w = act_contextId actor \<and> active (workShiftReversals d) w}
         \<and> (\<forall>m \<in> set ms. shift_counts.truncate m = count_shifts [w \<leftarrow> ws. ws_memberId w = sc_memberId m])
         \<and> sc_memberId ` set ms = ws_memberId ` set ws)
    \<and> (\<exists>who. acting_member d actor = Some who \<and> (m_role who = Colaborador \<longrightarrow> set (map sc_memberId ms) \<subseteq> {rid who})
         \<and> (m_role who = Socio \<longrightarrow> query = \<lparr>wq_from = Some from, wq_to = Some to, wq_memberId = None, wq_duration = None\<rparr>
             \<longrightarrow> compute d (act_contextId actor) from to = Inr ov
             \<longrightarrow> sc_shiftCount totals = ov_shiftCount ov \<and> sc_knownMinutes totals = ov_knownMinutes ov))"
  using assms
proof (rule shift_summary_Inr)
  fix P
  assume P: "scope d actor query = Inr P"
    and ms: "ms = sort_key (\<lambda>m. collation_key (sc_memberId m)) (member_groups d (act_contextId actor) (selected_shifts d P))"
    and totals: "totals = count_shifts (selected_shifts d P)"
  from P show ?thesis
  proof (rule scope_Inr)
    fix who
    assume who: "acting_member d actor = Some who"
      and sees: "\<And>w. P w \<Longrightarrow> ctx w = act_contextId actor \<and> (m_role who = Colaborador \<longrightarrow> ws_memberId w = rid who)"
      and all: "m_role who = Socio \<Longrightarrow> query = \<lparr>wq_from = Some from, wq_to = Some to, wq_memberId = None, wq_duration = None\<rparr>
        \<Longrightarrow> P = (\<lambda>w. ctx w = act_contextId actor \<and> within (utc_date from) (utc_date to) (ws_workDate w))"
    have ids: "set (map sc_memberId ms) = ws_memberId ` set (selected_shifts d P)"
      using arg_cong [OF member_groups_ids, of set] by (simp add: ms)
    have dist: "distinct (map sc_memberId ms)" by (simp add: ms member_groups_ids)
    have figures: "sc_shiftCount totals = ov_shiftCount ov \<and> sc_knownMinutes totals = ov_knownMinutes ov"
      if "m_role who = Socio" "query = \<lparr>wq_from = Some from, wq_to = Some to, wq_memberId = None, wq_duration = None\<rparr>"
        "compute d (act_contextId actor) from to = Inr ov"
    proof -
      have "selected_shifts d P = shifts_in d (act_contextId actor) from to"
        unfolding selected_shifts_def shifts_in_def in_context_def all [OF that(1,2)] filter_filter
        by (rule filter_cong) auto
      then show ?thesis by (simp add: totals count_shifts_def compute_figures(8,9) [OF that(3)])
    qed
    have rows: "set (selected_shifts d P)
        \<subseteq> {w \<in> set (workShifts d). ctx w = act_contextId actor \<and> active (workShiftReversals d) w}"
      using sees by (auto simp: selected_shifts_def)
    have lines: "\<forall>m \<in> set ms. shift_counts.truncate m = count_shifts [w \<leftarrow> selected_shifts d P. ws_memberId w = sc_memberId m]"
      using member_groups_count by (auto simp: ms)
    have own: "m_role who = Colaborador \<longrightarrow> set (map sc_memberId ms) \<subseteq> {rid who}"
      using ids sees by (auto simp: selected_shifts_def)
    show ?thesis
    proof (intro conjI)
      show "\<exists>ws. totals = count_shifts ws \<and> set ws \<subseteq> {w \<in> set (workShifts d). ctx w = act_contextId actor \<and> active (workShiftReversals d) w}
         \<and> (\<forall>m \<in> set ms. shift_counts.truncate m = count_shifts [w \<leftarrow> ws. ws_memberId w = sc_memberId m])
         \<and> sc_memberId ` set ms = ws_memberId ` set ws"
        by (rule exI [of _ "selected_shifts d P"]) (intro conjI totals rows lines ids [unfolded set_map])
      show "\<exists>m. acting_member d actor = Some m \<and> (m_role m = Colaborador \<longrightarrow> set (map sc_memberId ms) \<subseteq> {rid m})
         \<and> (m_role m = Socio \<longrightarrow> query = \<lparr>wq_from = Some from, wq_to = Some to, wq_memberId = None, wq_duration = None\<rparr>
             \<longrightarrow> compute d (act_contextId actor) from to = Inr ov
             \<longrightarrow> sc_shiftCount totals = ov_shiftCount ov \<and> sc_knownMinutes totals = ov_knownMinutes ov)"
      proof (rule exI [of _ who], rule conjI [OF who], rule conjI [OF own], intro impI)
        show "sc_shiftCount totals = ov_shiftCount ov \<and> sc_knownMinutes totals = ov_knownMinutes ov"
          if "m_role who = Socio" "query = \<lparr>wq_from = Some from, wq_to = Some to, wq_memberId = None, wq_duration = None\<rparr>"
            "compute d (act_contextId actor) from to = Inr ov"
          using that by (rule figures)
      qed
    qed (rule dist)
  qed
qed

definition sample_shift_query :: shift_query where
  "sample_shift_query = \<lparr>wq_from = Some ''2026-01-01'', wq_to = Some ''2026-02-01'', wq_memberId = None, wq_duration = None\<rparr>"

text \<open>Carla sees her shift of unknown duration only.\<close>

lemma shift_summary_exact_witness:
  "\<exists>totals ms. shift_summary sample_db carla sample_shift_query = Inr (totals, ms) \<and> set (map sc_memberId ms) \<subseteq> {''m3''}"
proof -
  have "is_ok (shift_summary sample_db carla sample_shift_query)" by code_simp
  then obtain totals ms where s: "shift_summary sample_db carla sample_shift_query = Inr (totals, ms)"
    by (metis is_ok_projr surj_pair)
  from shift_summary_exact [OF s, of "[]" "[]" undefined, THEN conjunct2, THEN conjunct2]
  obtain who where who: "acting_member sample_db carla = Some who"
      "m_role who = Colaborador \<longrightarrow> set (map sc_memberId ms) \<subseteq> {rid who}"
    by blast
  from who(1) have "m_role who = Colaborador \<and> rid who = ''m3''"
    by (auto simp: acting_member_def carla_def sample_db_def empty_db_def)
  with who(2) s show ?thesis by simp
qed

end
