(* ===== verification/FactLaws.thy ===== *)
theory FactLaws
  imports Contributions Expenses WorkShifts
begin

text \<open>
  What the contributions, the expenses and the shifts have in common: every request is executed at most
  once, and any sequence of requests keeps the three ledgers sound.
\<close>

text \<open>Recording and correcting a contribution, an expense or a shift are executed at most once,
  however often the request is sent, and every success of one request hands out the same receipt.\<close>

theorem facts_at_most_once:
  "effect_once d (retries (\<lambda>now. createContribution H now actor contribution) instants d)
   \<and> same_receipts (fst (retries (\<lambda>now. createContribution H now actor contribution) instants d))
   \<and> effect_once d (retries (\<lambda>t. reverseContribution H t actor target contributionCorrection) clocks d)
   \<and> same_receipts (fst (retries (\<lambda>t. reverseContribution H t actor target contributionCorrection) clocks d))
   \<and> effect_once d (retries (\<lambda>now. createExpense H now actor expense) instants d)
   \<and> same_receipts (fst (retries (\<lambda>now. createExpense H now actor expense) instants d))
   \<and> effect_once d (retries (\<lambda>t. reverseExpense H t actor target expenseCorrection) clocks d)
   \<and> same_receipts (fst (retries (\<lambda>t. reverseExpense H t actor target expenseCorrection) clocks d))
   \<and> effect_once d (retries (\<lambda>now. createWorkShift H now actor shift) instants d)
   \<and> same_receipts (fst (retries (\<lambda>now. createWorkShift H now actor shift) instants d))
   \<and> effect_once d (retries (\<lambda>t. reverseWorkShift H t actor target shiftCorrection) clocks d)
   \<and> same_receipts (fst (retries (\<lambda>t. reverseWorkShift H t actor target shiftCorrection) clocks d))"
  using contribution_create.once_and_same [of d H "(actor, contribution)" instants]
    contribution_correct.once_and_same [of d H "(actor, target, contributionCorrection)" clocks]
    expense_create.once_and_same [of d H "(actor, expense)" instants]
    expense_correct.once_and_same [of d H "(actor, target, expenseCorrection)" clocks]
    shift_create.once_and_same [of d H "(actor, shift)" instants]
    shift_correct.once_and_same [of d H "(actor, target, shiftCorrection)" clocks]
  unfolding contribution_create_call contribution_correct_call expense_create_call expense_correct_call
    shift_create_call shift_correct_call by blast

section \<open>The ledgers under any sequence of requests\<close>

text \<open>A request to one of the three services, with the clock it is executed at.\<close>

datatype fact_request =
    RecordContribution instant actor create_contribution_dto
  | CorrectContribution "instant \<times> instant" actor uuid contribution_correction
  | RecordExpense instant actor create_expense_dto
  | CorrectExpense "instant \<times> instant" actor uuid expense_correction
  | RecordShift instant actor create_shift_dto
  | CorrectShift "instant \<times> instant" actor uuid shift_correction

fun serve :: "(string \<Rightarrow> string) \<Rightarrow> fact_request \<Rightarrow> db \<Rightarrow> (bool \<times> jsval) result \<times> db" where
  "serve H (RecordContribution now actor dto) d = createContribution H now actor dto d"
| "serve H (CorrectContribution t actor i dto) d = reverseContribution H t actor i dto d"
| "serve H (RecordExpense now actor dto) d = createExpense H now actor dto d"
| "serve H (CorrectExpense t actor i dto) d = reverseExpense H t actor i dto d"
| "serve H (RecordShift now actor dto) d = createWorkShift H now actor dto d"
| "serve H (CorrectShift t actor i dto) d = reverseWorkShift H t actor i dto d"

definition ledgers_ok :: "db \<Rightarrow> bool" where
  "ledgers_ok d \<longleftrightarrow> contributions_ok d \<and> expenses_ok d \<and> expense_natures_ok d \<and> work_shifts_ok d"

text \<open>A call whose transaction keeps a property keeps it, whether it creates, replays or throws.\<close>

lemma once_call_keeps:
  assumes "once_call pre translate (record_once authorize existing fp conflict commit) d = (out, d')" "P d"
    and "\<And>r d1. is_ok pre \<Longrightarrow> commit d = Inr (r, d1) \<Longrightarrow> P d1"
  shows "P d'"
proof (cases out rule: created.cases)
  case (1 c r)
  then show ?thesis using assms by (cases c) (auto simp: once_call_Inr record_once_created record_once_replayed)
next
  case (2 e)
  with assms once_call_Inl show ?thesis by metis
qed

text \<open>A request leaves the ledgers of the other two services alone.\<close>

lemma others_contribution:
  "insert_contribution now actor dto (contribution_print H actor dto operation) d = Inr (r, d')
     \<Longrightarrow> expenses_ok d' = expenses_ok d \<and> expense_natures_ok d' = expense_natures_ok d \<and> work_shifts_ok d' = work_shifts_ok d"
  "correct_contribution H t actor i cor fp d = Inr (r, d')
     \<Longrightarrow> expenses_ok d' = expenses_ok d \<and> expense_natures_ok d' = expense_natures_ok d \<and> work_shifts_ok d' = work_shifts_ok d"
  by (auto simp: expenses_ok_def expense_natures_ok_def work_shifts_ok_def identities_disjoint_def dest!: insert_contribution_Inr
      elim!: correct_contribution_Inr)

lemma others_expense:
  "insert_expense now actor dto (expense_print H actor dto operation) e = Inr (r, e')
     \<Longrightarrow> contributions_ok e' = contributions_ok e \<and> work_shifts_ok e' = work_shifts_ok e"
  "correct_expense H t actor i cor fp e = Inr (r, e')
     \<Longrightarrow> contributions_ok e' = contributions_ok e \<and> work_shifts_ok e' = work_shifts_ok e"
  by (auto simp: contributions_ok_def work_shifts_ok_def identities_disjoint_def dest!: insert_expense_Inr
      elim!: correct_expense_Inr)

lemma others_shift:
  "create_shift_commit now actor dto (shift_print H actor dto ''create'') d = Inr (r, d')
     \<Longrightarrow> expenses_ok d' = expenses_ok d \<and> expense_natures_ok d' = expense_natures_ok d \<and> contributions_ok d' = contributions_ok d"
  "correct_shift H t actor i cor fp d = Inr (r, d')
     \<Longrightarrow> expenses_ok d' = expenses_ok d \<and> expense_natures_ok d' = expense_natures_ok d \<and> contributions_ok d' = contributions_ok d"
  by (auto simp: expenses_ok_def expense_natures_ok_def contributions_ok_def dest!: create_shift_commit_Inr
      elim!: correct_shift_Inr)

lemma serve_keeps:
  assumes "ledgers_ok d"
  shows "ledgers_ok (snd (serve H request d))"
proof (cases request)
  case (RecordContribution now actor dto)
  show ?thesis unfolding RecordContribution serve.simps createContribution_def Let_def
    by (rule once_call_keeps [where P = ledgers_ok, OF prod.collapse [symmetric] assms])
      (use assms in \<open>auto simp: ledgers_ok_def dest: insert_contribution_ok others_contribution\<close>)
next
  case (CorrectContribution t actor i dto)
  show ?thesis unfolding CorrectContribution serve.simps reverseContribution_def Let_def
    by (rule once_call_keeps [where P = ledgers_ok, OF prod.collapse [symmetric] assms])
      (use assms in \<open>auto simp: ledgers_ok_def dest: correct_contribution_ok others_contribution\<close>)
next
  case (RecordExpense now actor dto)
  show ?thesis unfolding RecordExpense serve.simps createExpense_def Let_def
    by (rule once_call_keeps [where P = ledgers_ok, OF prod.collapse [symmetric] assms])
      (use assms in \<open>auto simp: ledgers_ok_def dest: insert_expense_ok insert_expense_natures others_expense\<close>)
next
  case (CorrectExpense t actor i dto)
  show ?thesis unfolding CorrectExpense serve.simps reverseExpense_def Let_def
    by (rule once_call_keeps [where P = ledgers_ok, OF prod.collapse [symmetric] assms])
      (use assms in \<open>auto simp: ledgers_ok_def dest: correct_expense_ok correct_expense_natures others_expense\<close>)
next
  case (RecordShift now actor dto)
  show ?thesis unfolding RecordShift serve.simps createWorkShift_def Let_def
    by (rule once_call_keeps [where P = ledgers_ok, OF prod.collapse [symmetric] assms])
      (use assms in \<open>auto simp: ledgers_ok_def dest: create_shift_commit_ok others_shift\<close>)
next
  case (CorrectShift t actor i dto)
  show ?thesis unfolding CorrectShift serve.simps reverseWorkShift_def Let_def
  proof (rule once_call_keeps [where P = ledgers_ok, OF prod.collapse [symmetric] assms])
    fix r d1
    assume "is_ok (correction_pre actor i dto (map_option shift_identity (rd_replacement dto)))"
      and c: "correct_shift H t actor (toLowerCase i) dto (shift_correction_print H actor i dto) d = Inr (r, d1)"
    moreover from this(1) have "\<forall>y. rd_replacement dto = Some y \<longrightarrow> toLowerCase (cw_id y) \<noteq> toLowerCase (rd_id dto)"
      by (auto dest!: correction_pre_distinct simp: shift_identity_def)
    ultimately show "ledgers_ok d1" using correct_shift_ok [OF c] others_shift(2) [OF c] assms by (simp add: ledgers_ok_def)
  qed
qed

text \<open>The requests of a sequence, one transaction after the other.\<close>

fun serve_all :: "(string \<Rightarrow> string) \<Rightarrow> fact_request list \<Rightarrow> db \<Rightarrow> db" where
  "serve_all H [] d = d"
| "serve_all H (request # requests) d = serve_all H requests (snd (serve H request d))"

text \<open>C19: the three ledgers stay sound under any sequence of requests, executed, replayed or refused:
  identities are unique, no fact is corrected twice, every correction names a fact of its own business and
  puts another one in its place at most once, inventory purchases and only they are in the inventory
  category, and no shift shares its identity with a correction of a shift.\<close>

theorem ledgers_invariant:
  assumes "ledgers_ok d"
  shows "ledgers_ok (serve_all H requests d)"
  using assms by (induction H requests d rule: serve_all.induct) (simp_all add: serve_keeps)

lemma ledgers_invariant_witness:
  "ledgers_ok (serve_all (\<lambda>s. s) [RecordContribution 1768200100000 ana (sample_contribution ''K1'' 5000),
     CorrectExpense (1768300100000, 1768300100001) ana ''E1'' sample_expense_correction,
     CorrectShift (1768300200000, 1768300200001) ana ''W1'' sample_shift_correction] sample_db)"
  by (rule ledgers_invariant) code_simp

end
