(* ===== verification/Sales.thy ===== *)
theory Sales
  imports Overview Idempotency Sample
begin

text \<open>
  The sales (\<open>src/sales/sales.service.ts\<close>). A tablet sends a sale it closed, possibly long before and
  possibly more than once; the server prices it, takes the stock and stores it, or stores it as rejected
  when another sale took the stock while this one waited for the lock of a product.

  The transaction runs under READ COMMITTED, so what other transactions commit in between is part of the
  model: \<open>se_others env k\<close> is what they do before the \<open>k\<close>-th point where this call waits or starts a new
  statement of its own transaction or a new transaction. While the call holds the lock of a product they
  cannot change its row.
\<close>

section \<open>Requests\<close>

record sale_item_dto =
  sd_productId :: uuid
  sd_quantity :: int
  sd_unitPriceMinor :: "int option"

record create_sale_dto =
  cs_id :: uuid
  cs_memberId :: uuid
  cs_deviceId :: uuid
  cs_occurredAt :: instant
  cs_currency :: string
  cs_paymentMethod :: "payment_method option"
  cs_cashReceivedMinor :: "int option"
  cs_items :: "sale_item_dto list"

text \<open>The validation of the body: cash received exactly when the method is cash, and at least one item.\<close>

definition cashReceivedMatchesMethod :: "create_sale_dto \<Rightarrow> bool" where
  "cashReceivedMatchesMethod dto \<longleftrightarrow>
     (if isCashPayment (cs_paymentMethod dto)
      then case cs_cashReceivedMinor dto of None \<Rightarrow> False | Some v \<Rightarrow> 0 \<le> v \<and> v \<le> MAX_MINOR_UNITS
      else cs_cashReceivedMinor dto = None)"

text \<open>The digest of a request: the items sorted by product and quantity, the prices left out.\<close>

definition requestFingerprint :: "(string \<Rightarrow> string) \<Rightarrow> create_sale_dto \<Rightarrow> string" where
  "requestFingerprint H dto =
     (let cash = isCashPayment (cs_paymentMethod dto);
          items = sort_key (\<lambda>i. (collation_key (sd_productId i), sd_quantity i)) (cs_items dto) in
      H (json_stringify (JObj (
        [(''memberId'', JStr (cs_memberId dto)), (''deviceId'', JStr (cs_deviceId dto)), (''currency'', JStr (cs_currency dto))]
        @ (case (cash, cs_cashReceivedMinor dto) of (True, Some v) \<Rightarrow> [(''cashReceivedMinor'', JNum v)] | _ \<Rightarrow> [])
        @ [(''occurredAt'', JStr (to_iso (cs_occurredAt dto))),
           (''items'', JArr (map (\<lambda>i. JObj [(''productId'', JStr (sd_productId i)), (''quantity'', JNum (sd_quantity i))]) items))]
        @ (if cash then [] else [(''paymentMethod'', json_option (\<lambda>m. JStr (show_method m)) (cs_paymentMethod dto))])))))"

definition sameItems :: "sale_item list \<Rightarrow> sale_item_dto list \<Rightarrow> bool" where
  "sameItems existingItems dtoItems \<longleftrightarrow> length existingItems = length dtoItems
     \<and> list_all2 (\<lambda>a b. si_productId a = sd_productId b \<and> si_quantity a = sd_quantity b)
         (sort_key (\<lambda>i. collation_key (si_productId i)) existingItems)
         (sort_key (\<lambda>i. collation_key (sd_productId i)) dtoItems)"

definition isIdempotentReplay :: "(string \<Rightarrow> string) \<Rightarrow> sale \<Rightarrow> sale_item list \<Rightarrow> create_sale_dto \<Rightarrow> bool" where
  "isIdempotentReplay H existing items dto \<longleftrightarrow>
     (let sameHeader = s_memberId existing = cs_memberId dto \<and> s_deviceId existing = cs_deviceId dto
            \<and> s_currency existing = cs_currency dto
            \<and> s_paymentMethod existing = resolvePaymentMethod (cs_paymentMethod dto)
            \<and> s_cashReceivedMinor existing = cs_cashReceivedMinor dto
            \<and> s_occurredAt existing = cs_occurredAt dto in
      if \<not> sameHeader then False
      else case s_requestFingerprint existing of
          Some (x # xs) \<Rightarrow> x # xs = requestFingerprint H dto
        | _ \<Rightarrow> if s_status existing = RechazadaPorConflicto then False else sameItems items (cs_items dto))"

section \<open>Responses\<close>

text \<open>A response leaves out the cost of a line.\<close>

record sale_line_view =
  lv_id :: uuid
  lv_productId :: uuid
  lv_quantity :: int
  lv_unitPriceMinor :: int
  lv_subtotalMinor :: int

record sale_response =
  sr_sale :: sale
  sr_items :: "sale_line_view list"

definition response :: "db \<Rightarrow> sale \<Rightarrow> sale_response" where
  "response d s = \<lparr>sr_sale = s, sr_items = map (\<lambda>i. \<lparr>lv_id = rid i, lv_productId = si_productId i,
     lv_quantity = si_quantity i, lv_unitPriceMinor = si_unitPriceMinor i, lv_subtotalMinor = si_subtotalMinor i\<rparr>)
     (items_of d s)\<rparr>"

section \<open>The date of a sale\<close>

definition MAX_OCCURRED_AT_PAST_DAYS :: int where
  "MAX_OCCURRED_AT_PAST_DAYS = 2"

definition MAX_OCCURRED_AT_FUTURE_MS :: int where
  "MAX_OCCURRED_AT_FUTURE_MS = 5 * 60000"

text \<open>\<open>show_days\<close> prints a number of milliseconds as days with one decimal (\<open>pastDays.toFixed(1)\<close>).\<close>

definition occurredAtIssue :: "(int \<Rightarrow> string) \<Rightarrow> instant \<Rightarrow> instant \<Rightarrow> string option" where
  "occurredAtIssue show_days occurredAt receivedAt =
     (let diffMs = occurredAt - receivedAt in
      if diffMs > MAX_OCCURRED_AT_FUTURE_MS
      then Some ''La fecha registrada por el dispositivo parece estar adelantada. Revisa el reloj de la tablet.''
      else if - diffMs > MAX_OCCURRED_AT_PAST_DAYS * 86400000
      then Some (''occurredAt es '' @ show_days (- diffMs) @ '' d'' @ [CHR 0xED] @ ''as anterior a receivedAt (excede el m''
        @ [CHR 0xE1] @ ''ximo de '' @ show_int MAX_OCCURRED_AT_PAST_DAYS @ '' d'' @ [CHR 0xED] @ ''as)'')
      else None)"

section \<open>The transaction\<close>

record sale_env =
  se_others :: "nat \<Rightarrow> db \<Rightarrow> db"
  se_receivedAt :: instant
  se_rejectedAt :: instant
  se_detectedAt :: instant
  se_insertedAt :: instant
  se_ids :: "nat \<Rightarrow> uuid"

text \<open>A failed attempt: a lost race for the stock, or any other exception.\<close>

datatype sale_failure = SaleStockConflict string | Failed failure

text \<open>
  What the transaction sees of a product: its own uncommitted stock over the committed row. It holds the
  locks of the products it has updated, so a transaction that touches one of those rows cannot commit
  before this one ends.
\<close>

type_synonym updates = "(uuid \<times> int) list"

definition tx_product :: "db \<Rightarrow> updates \<Rightarrow> string \<Rightarrow> uuid \<Rightarrow> product option" where
  "tx_product c upd k i = map_option (\<lambda>p. case map_of upd i of None \<Rightarrow> p | Some s \<Rightarrow> p\<lparr>p_stock := s\<rparr>)
     (find_row k i (products c))"

definition locks_respected :: "updates \<Rightarrow> product list \<Rightarrow> product list \<Rightarrow> bool" where
  "locks_respected upd ps ps' \<longleftrightarrow>
     [p \<leftarrow> ps. rid p \<in> fst ` set upd] = [p \<leftarrow> ps'. rid p \<in> fst ` set upd]"

definition others_commit :: "updates \<Rightarrow> (db \<Rightarrow> db) \<Rightarrow> db \<Rightarrow> db" where
  "others_commit upd w c = (if locks_respected upd (products c) (products (w c)) then w c else c)"

text \<open>One line of the sale, with the price and the cost of the locked row.\<close>

record sale_line =
  ln_productId :: uuid
  ln_quantity :: int
  ln_unitPriceMinor :: int
  ln_subtotalMinor :: int
  ln_unitCostMinor :: "int option"

definition product_issue :: "product option \<Rightarrow> sale_item_dto \<Rightarrow> string option" where
  "product_issue p item =
     (case p of None \<Rightarrow> Some (''Product '' @ sd_productId item @ '' does not exist in this context'')
      | Some r \<Rightarrow> if \<not> p_active r then Some (''Product '' @ sd_productId item @ '' is deactivated and cannot be sold'') else None)"

definition stock_conflict :: "sale_item_dto \<Rightarrow> product \<Rightarrow> string" where
  "stock_conflict item p = ''stock insuficiente al sincronizar: producto '' @ sd_productId item @ '', solicitado ''
     @ show_int (sd_quantity item) @ '', disponible '' @ show_int (p_stock p)"

text \<open>The loop over the items: the updates made so far, the running total and the lines.\<close>

fun sell_items ::
  "'d dinero_lib \<Rightarrow> (nat \<Rightarrow> db \<Rightarrow> db) \<Rightarrow> nat \<Rightarrow> string \<Rightarrow> sale_item_dto list \<Rightarrow> updates \<Rightarrow> 'd \<Rightarrow> sale_line list \<Rightarrow> db
    \<Rightarrow> (sale_failure + (updates \<times> 'd \<times> sale_line list)) \<times> db"
where
  "sell_items D others k c [] upd totalDinero lines d = (Inr (upd, totalDinero, lines), d)"
| "sell_items D others k c (item # items) upd totalDinero lines d =
     (case (product_issue (tx_product d upd c (sd_productId item)) item, tx_product d upd c (sd_productId item)) of
        (None, Some before) \<Rightarrow>
          if sd_quantity item > p_stock before
          then (Inl (Failed (BadRequest (''Insufficient stock for product '' @ sd_productId item))), d)
          else
            let d1 = others_commit upd (others k) d in
            (case (product_issue (tx_product d1 upd c (sd_productId item)) item, tx_product d1 upd c (sd_productId item)) of
               (None, Some product) \<Rightarrow>
                 if sd_quantity item > p_stock product then (Inl (SaleStockConflict (stock_conflict item product)), d1)
                 else
                  (case minor_product D (p_unitPriceMinor product) (sd_quantity item) of
                     Inl e \<Rightarrow> (Inl (Failed e), d1)
                   | Inr subtotalMinor \<Rightarrow>
                    (case toDinero D subtotalMinor of
                       Inl e \<Rightarrow> (Inl (Failed e), d1)
                     | Inr subtotal \<Rightarrow>
                        sell_items D others (Suc k) c items
                          ((sd_productId item, p_stock product - sd_quantity item) # upd) (add D totalDinero subtotal)
                          (lines @ [\<lparr>ln_productId = rid product, ln_quantity = sd_quantity item,
                             ln_unitPriceMinor = p_unitPriceMinor product, ln_subtotalMinor = subtotalMinor,
                             ln_unitCostMinor = p_purchaseCostMinor product\<rparr>]) d1))
             | (issue, _) \<Rightarrow> (Inl (Failed (BadRequest (case issue of None \<Rightarrow> [] | Some m \<Rightarrow> m))), d1))
      | (issue, _) \<Rightarrow> (Inl (Failed (BadRequest (case issue of None \<Rightarrow> [] | Some m \<Rightarrow> m))), d))"

text \<open>Cash and change exist only for cash payments.\<close>

definition cash_and_change :: "'d dinero_lib \<Rightarrow> create_sale_dto \<Rightarrow> int \<Rightarrow> (int option \<times> int option) result" where
  "cash_and_change D dto totalMinor =
     (if isCashPayment (cs_paymentMethod dto)
      then case cs_cashReceivedMinor dto of
          None \<Rightarrow> Inl (BadRequest ''Cash received is required for an EFECTIVO sale'')
        | Some cash \<Rightarrow>
            if cash < totalMinor then Inl (BadRequest ''Cash received is insufficient for the calculated total'')
            else (case minor_difference D cash totalMinor of Inl e \<Rightarrow> Inl e | Inr change \<Rightarrow> Inr (Some cash, Some change))
      else Inr (None, None))"

definition completed_sale ::
  "(string \<Rightarrow> string) \<Rightarrow> sale_env \<Rightarrow> actor \<Rightarrow> uuid \<times> uuid \<Rightarrow> create_sale_dto \<Rightarrow> int \<Rightarrow> int option \<times> int option \<Rightarrow> sale"
where
  "completed_sale H env actor origin dto totalMinor money =
     \<lparr>rid = cs_id dto, ctx = act_contextId actor, s_memberId = fst origin, s_deviceId = snd origin,
      s_occurredAt = cs_occurredAt dto, s_receivedAt = se_receivedAt env, s_currency = cs_currency dto,
      s_status = Completada, s_totalMinor = Some totalMinor, s_paymentMethod = resolvePaymentMethod (cs_paymentMethod dto),
      s_cashReceivedMinor = fst money, s_requestFingerprint = Some (requestFingerprint H dto),
      s_changeMinor = snd money, s_conflictReason = None, s_conflictDetectedAt = None\<rparr>"

definition line_rows :: "sale_env \<Rightarrow> actor \<Rightarrow> uuid \<Rightarrow> sale_line list \<Rightarrow> sale_item list" where
  "line_rows env actor saleId lines = map (\<lambda>(k, l). \<lparr>rid = se_ids env k, ctx = act_contextId actor, si_saleId = saleId,
     si_productId = ln_productId l, si_quantity = ln_quantity l, si_unitPriceMinor = ln_unitPriceMinor l,
     si_subtotalMinor = ln_subtotalMinor l, si_unitCostMinor = ln_unitCostMinor l\<rparr>) (enumerate 0 lines)"

definition incidencia_row :: "sale_env \<Rightarrow> actor \<Rightarrow> uuid \<Rightarrow> nat \<Rightarrow> incidencia_type \<Rightarrow> string \<Rightarrow> incidencia" where
  "incidencia_row env actor saleId k type reason =
     \<lparr>rid = se_ids env k, ctx = act_contextId actor, in_saleId = saleId, in_type = type, in_reason = reason,
      in_detectedAt = se_insertedAt env, in_resolutionStatus = PorResolver, in_resolvedByMemberId = None,
      in_resolvedAt = None, in_resolutionNotes = None\<rparr>"

fun insert_rows :: "string \<Rightarrow> ('a row_scheme) list \<Rightarrow> ('a row_scheme) list \<Rightarrow> ('a row_scheme) list result" where
  "insert_rows model [] rows = Inr rows"
| "insert_rows model (r # rs) rows =
     (case insert_row model r rows of Inl e \<Rightarrow> Inl e | Inr rows' \<Rightarrow> insert_rows model rs rows')"

text \<open>The nested \<open>create\<close>: the sale, its lines and its incidencia, or none of them.\<close>

definition store_sale :: "sale \<Rightarrow> sale_item list \<Rightarrow> incidencia list \<Rightarrow> db \<Rightarrow> db result" where
  "store_sale s items incs d =
     (case insert_row ''Sale'' s (sales d) of Inl e \<Rightarrow> Inl e
      | Inr ss \<Rightarrow> (case insert_rows ''SaleItem'' items (saleItems d) of Inl e \<Rightarrow> Inl e
        | Inr is \<Rightarrow> (case insert_rows ''Incidencia'' incs (incidencias d) of Inl e \<Rightarrow> Inl e
          | Inr ns \<Rightarrow> Inr (d\<lparr>sales := ss, saleItems := is, incidencias := ns\<rparr>))))"

definition apply_updates :: "string \<Rightarrow> updates \<Rightarrow> db \<Rightarrow> db" where
  "apply_updates c upd d = d\<lparr>products := map (\<lambda>p.
     if ctx p = c then (case map_of upd (rid p) of None \<Rightarrow> p | Some s \<Rightarrow> p\<lparr>p_stock := s\<rparr>) else p) (products d)\<rparr>"

text \<open>The transaction, from the state \<open>d\<close> it starts in to the state it commits in or is rolled back in.\<close>

definition sale_tx ::
  "'d dinero_lib \<Rightarrow> (string \<Rightarrow> string) \<Rightarrow> (int \<Rightarrow> string) \<Rightarrow> sale_env \<Rightarrow> actor \<Rightarrow> create_sale_dto \<Rightarrow> db
    \<Rightarrow> (sale_failure + sale) \<times> db"
where
  "sale_tx D H show_days env actor dto d =
     (case authorize_actor d actor False of Inl e \<Rightarrow> (Inl (Failed e), d)
      | Inr origin \<Rightarrow>
       (case toDinero D 0 of Inl e \<Rightarrow> (Inl (Failed e), d)
        | Inr zero \<Rightarrow>
         (case sell_items D (se_others env) 1 (act_contextId actor) (cs_items dto) [] zero [] d of
            (Inl f, d1) \<Rightarrow> (Inl f, d1)
          | (Inr (upd, totalDinero, lines), d1) \<Rightarrow>
           (case toMinorUnits D totalDinero of Inl e \<Rightarrow> (Inl (Failed e), d1)
            | Inr totalMinor \<Rightarrow>
             (case cash_and_change D dto totalMinor of Inl e \<Rightarrow> (Inl (Failed e), d1)
              | Inr money \<Rightarrow>
                let d2 = others_commit upd (se_others env (Suc (length (cs_items dto)))) d1;
                    s = completed_sale H env actor origin dto totalMinor money;
                    incs = (case occurredAtIssue show_days (cs_occurredAt dto) (se_receivedAt env) of None \<Rightarrow> []
                            | Some reason \<Rightarrow> [incidencia_row env actor (cs_id dto) (length lines) IncidenciaFecha reason]) in
                (case store_sale s (line_rows env actor (cs_id dto) lines) incs (apply_updates (act_contextId actor) upd d2) of
                   Inl e \<Rightarrow> (Inl (Failed e), d2)
                 | Inr d3 \<Rightarrow> (Inr s, d3)))))))"

section \<open>The call\<close>

definition isSaleIdConflict :: "failure \<Rightarrow> bool" where
  "isSaleIdConflict e \<longleftrightarrow> e = UniqueViolation ''Sale''"

definition isBadRequest :: "failure \<Rightarrow> bool" where
  "isBadRequest e \<longleftrightarrow> (case e of BadRequest _ \<Rightarrow> True | _ \<Rightarrow> False)"

definition different_data :: "create_sale_dto \<Rightarrow> failure" where
  "different_data dto = Conflict (''Sale '' @ cs_id dto @ '' already exists with different data'')"

definition rejected_sale :: "(string \<Rightarrow> string) \<Rightarrow> sale_env \<Rightarrow> actor \<Rightarrow> create_sale_dto \<Rightarrow> string \<Rightarrow> sale" where
  "rejected_sale H env actor dto reason =
     \<lparr>rid = cs_id dto, ctx = act_contextId actor, s_memberId = cs_memberId dto, s_deviceId = cs_deviceId dto,
      s_occurredAt = cs_occurredAt dto, s_receivedAt = se_rejectedAt env, s_currency = cs_currency dto,
      s_status = RechazadaPorConflicto, s_totalMinor = None,
      s_paymentMethod = resolvePaymentMethod (cs_paymentMethod dto), s_cashReceivedMinor = cs_cashReceivedMinor dto,
      s_requestFingerprint = Some (requestFingerprint H dto), s_changeMinor = None, s_conflictReason = Some reason,
      s_conflictDetectedAt = Some (se_detectedAt env)\<rparr>"

text \<open>An existing row answers a resend of the same request.\<close>

definition replay_or :: "(string \<Rightarrow> string) \<Rightarrow> actor \<Rightarrow> create_sale_dto \<Rightarrow> db \<Rightarrow> sale_response option" where
  "replay_or H actor dto d =
     (case find_row (act_contextId actor) (cs_id dto) (sales d) of None \<Rightarrow> None
      | Some s \<Rightarrow> if isIdempotentReplay H s (items_of d s) dto then Some (response d s) else None)"

text \<open>Storing the rejection of a sale that lost the race, in a transaction of its own.\<close>

definition store_rejection ::
  "(string \<Rightarrow> string) \<Rightarrow> sale_env \<Rightarrow> actor \<Rightarrow> create_sale_dto \<Rightarrow> string \<Rightarrow> nat \<Rightarrow> db \<Rightarrow> (bool \<times> sale_response) result \<times> db"
where
  "store_rejection H env actor dto reason k d =
     (let s = rejected_sale H env actor dto reason in
      case store_sale s [] [incidencia_row env actor (cs_id dto) (length (cs_items dto)) ConflictoStock reason] d of
        Inr d1 \<Rightarrow> (Inr (True, response d1 s), d1)
      | Inl e \<Rightarrow>
          if \<not> isSaleIdConflict e then (Inl e, d)
          else
            let d1 = se_others env k d in
            (case replay_or H actor dto d1 of Some r \<Rightarrow> (Inr (False, r), d1) | None \<Rightarrow> (Inl (different_data dto), d1)))"

definition createSale ::
  "'d dinero_lib \<Rightarrow> (string \<Rightarrow> string) \<Rightarrow> (int \<Rightarrow> string) \<Rightarrow> sale_env \<Rightarrow> actor \<Rightarrow> create_sale_dto \<Rightarrow> db
    \<Rightarrow> (bool \<times> sale_response) result \<times> db"
where
  "createSale D H show_days env actor dto d =
     (if act_selection actor \<noteq> Some (cs_memberId dto, cs_deviceId dto) then (Inl Forbidden, d)
      else
       (case find_row (act_contextId actor) (cs_id dto) (sales d) of
          Some existing \<Rightarrow>
            if isIdempotentReplay H existing (items_of d existing) dto then (Inr (False, response d existing), d)
            else (Inl (different_data dto), d)
        | None \<Rightarrow>
           (case sale_tx D H show_days env actor dto (se_others env 0 d) of
              (Inr s, d1) \<Rightarrow> (Inr (True, response d1 s), d1)
            | (Inl f, d1) \<Rightarrow>
                let n = length (cs_items dto);
                    d2 = se_others env (n + 2) d1;
                    isStock = (case f of SaleStockConflict _ \<Rightarrow> True | Failed _ \<Rightarrow> False);
                    idConflict = (case f of SaleStockConflict _ \<Rightarrow> False | Failed e \<Rightarrow> isSaleIdConflict e);
                    bad = (case f of SaleStockConflict _ \<Rightarrow> False | Failed e \<Rightarrow> isBadRequest e) in
                (case (if isStock \<or> idConflict \<or> bad then
                         (case replay_or H actor dto d2 of
                            Some r \<Rightarrow> Some (Inr (False, r))
                          | None \<Rightarrow>
                              if find_row (act_contextId actor) (cs_id dto) (sales d2) \<noteq> None \<or> idConflict
                              then Some (Inl (different_data dto)) else None)
                       else None) of
                   Some answer \<Rightarrow> (answer, d2)
                 | None \<Rightarrow>
                    (case f of
                       Failed e \<Rightarrow> (Inl e, d2)
                     | SaleStockConflict reason \<Rightarrow>
                         store_rejection H env actor dto reason (n + 4) (se_others env (n + 3) d2))))))"

text \<open>Reading a sale back, and the paged list.\<close>

definition findSale :: "db \<Rightarrow> string \<Rightarrow> uuid \<Rightarrow> sale_response result" where
  "findSale d c i =
     (case find_row c i (sales d) of
        None \<Rightarrow> Inl (NotFound [])
      | Some s \<Rightarrow>
          if \<exists>m \<in> set (members d). rid m = s_memberId s \<and> ctx m = c then Inr (response d s) else Inl (NotFound []))"

end
