(* ===== verification/SaleLaws.thy ===== *)
theory SaleLaws
  imports Sales
begin

text \<open>
  What a sale does to the stock and to the books, whatever other transactions do meanwhile, and that a
  sale sent many times is executed once.
\<close>

section \<open>What other transactions may do\<close>

text \<open>The products: unique identities, no negative stock and no negative price.\<close>

definition products_ok :: "db \<Rightarrow> bool" where
  "products_ok d \<longleftrightarrow> distinct (map rid (products d)) \<and> list_all (\<lambda>p. 0 \<le> p_stock p \<and> 0 \<le> p_unitPriceMinor p) (products d)"

text \<open>Other transactions keep that.\<close>

definition orderly :: "(db \<Rightarrow> db) \<Rightarrow> bool" where
  "orderly w \<longleftrightarrow> (\<forall>x. products_ok x \<longrightarrow> products_ok (w x))"

definition orderly_env :: "sale_env \<Rightarrow> bool" where
  "orderly_env env \<longleftrightarrow> (\<forall>k. orderly (se_others env k))"

text \<open>Nobody else commits anything.\<close>

definition alone :: "sale_env \<Rightarrow> bool" where
  "alone env \<longleftrightarrow> (\<forall>k x. se_others env k x = x)"

text \<open>The states the other transactions can lead to while the call runs.\<close>

inductive committed :: "(nat \<Rightarrow> db \<Rightarrow> db) \<Rightarrow> db \<Rightarrow> db \<Rightarrow> bool" for others where
  committed_start: "committed others d d"
| committed_step: "committed others d c \<Longrightarrow> committed others d (others k c)"

lemma committed_keeps:
  assumes "committed others d c" "\<And>k x. P x \<Longrightarrow> P (others k x)" "P d"
  shows "P c"
  using assms by induction auto

lemma committed_alone: "committed others d c \<Longrightarrow> (\<And>k x. others k x = x) \<Longrightarrow> c = d"
  by (induction rule: committed.induct) simp_all

lemma committed_trans: "committed others c e \<Longrightarrow> committed others d c \<Longrightarrow> committed others d e"
  by (induction rule: committed.induct) (auto intro: committed.intros)

lemma committed_others_commit: "committed others d c \<Longrightarrow> committed others d (others_commit upd (others k) c)"
  by (simp add: others_commit_def committed_step)

lemma alone_orderly: "alone env \<Longrightarrow> orderly_env env"
  by (auto simp: alone_def orderly_env_def orderly_def)

definition valid_items :: "create_sale_dto \<Rightarrow> bool" where
  "valid_items dto \<longleftrightarrow> length (cs_items dto) \<le> 500 \<and> list_all (\<lambda>i. 1 \<le> sd_quantity i \<and> sd_quantity i \<le> 100000) (cs_items dto)"

lemma others_commit_ok: "products_ok d \<Longrightarrow> orderly w \<Longrightarrow> products_ok (others_commit upd w d)"
  by (simp add: others_commit_def orderly_def)

lemma others_alone: "(\<And>x. w x = x) \<Longrightarrow> others_commit upd w d = d"
  by (simp add: others_commit_def)

text \<open>A row this transaction holds is the same before and after the others commit.\<close>

lemma others_commit_locked:
  assumes "products_ok d" "orderly w" "find_row c i (products d) = Some p" "i \<in> fst ` set upd"
  shows "find_row c i (products (others_commit upd w d)) = Some p"
proof (rule find_row_distinct)
  note mem = find_row_Some [OF assms(3)]
  show "distinct (map rid (products (others_commit upd w d)))"
    using others_commit_ok [OF assms(1,2)] by (simp add: products_ok_def)
  have "p \<in> set (products (w d))" if "locks_respected upd (products d) (products (w d))"
  proof -
    have "p \<in> set [p \<leftarrow> products d. rid p \<in> fst ` set upd]" using mem assms(4) by simp
    then show ?thesis using that unfolding locks_respected_def by (metis filter_is_subset subsetD)
  qed
  then show "p \<in> set (products (others_commit upd w d))" using mem by (simp add: others_commit_def)
qed (use find_row_Some [OF assms(3)] in auto)

section \<open>The loop over the items\<close>

definition sold :: "sale_line list \<Rightarrow> uuid \<Rightarrow> int" where
  "sold lines i = sum_list (map (\<lambda>l. if ln_productId l = i then ln_quantity l else 0) lines)"

lemma sold_simps [simp]: "sold [] i = 0"
  "sold (lines @ [l]) i = sold lines i + (if ln_productId l = i then ln_quantity l else 0)"
  by (simp_all add: sold_def)

lemma sold_none: "i \<notin> ln_productId ` set lines \<Longrightarrow> sold lines i = 0"
  unfolding sold_def by (induction lines) auto

text \<open>A line shows the price and the cost of the committed row of its product.\<close>

definition priced :: "string \<Rightarrow> db \<Rightarrow> sale_line \<Rightarrow> bool" where
  "priced c d l \<longleftrightarrow> (\<exists>p. find_row c (ln_productId l) (products d) = Some p \<and> p_active p
     \<and> ln_unitPriceMinor l = p_unitPriceMinor p \<and> ln_unitCostMinor l = p_purchaseCostMinor p
     \<and> ln_subtotalMinor l = p_unitPriceMinor p * ln_quantity l)"

text \<open>
  The invariant of the loop: the stock it has written for a product is the committed stock less what the
  lines so far take, and not negative; the products of the lines are exactly the updated ones.
\<close>

definition selling :: "string \<Rightarrow> updates \<Rightarrow> sale_line list \<Rightarrow> db \<Rightarrow> bool" where
  "selling c upd lines d \<longleftrightarrow> products_ok d \<and> list_all (priced c d) lines
     \<and> ln_productId ` set lines = fst ` set upd
     \<and> (\<forall>i s. map_of upd i = Some s \<longrightarrow> 0 \<le> s \<and> (\<exists>p. find_row c i (products d) = Some p \<and> s = p_stock p - sold lines i))"

lemma selling_start: "products_ok d \<Longrightarrow> selling c [] [] d"
  by (simp add: selling_def)

lemma selling_others:
  assumes "selling c upd lines d" "orderly w"
  shows "selling c upd lines (others_commit upd w d)"
proof -
  have ok: "products_ok d" and ids: "ln_productId ` set lines = fst ` set upd" using assms(1) by (simp_all add: selling_def)
  note keep = others_commit_locked [OF ok assms(2), of c]
  have "priced c (others_commit upd w d) l" if "l \<in> set lines" for l
  proof -
    have held: "ln_productId l \<in> fst ` set upd" using that ids by blast
    have "priced c d l" using that assms(1) by (simp add: selling_def list_all_iff)
    then obtain p where p: "find_row c (ln_productId l) (products d) = Some p" and rest: "p_active p"
        "ln_unitPriceMinor l = p_unitPriceMinor p" "ln_unitCostMinor l = p_purchaseCostMinor p"
        "ln_subtotalMinor l = p_unitPriceMinor p * ln_quantity l"
      unfolding priced_def by blast
    from keep [OF p held] rest show ?thesis unfolding priced_def by blast
  qed
  moreover have "0 \<le> s \<and> (\<exists>p. find_row c i (products (others_commit upd w d)) = Some p \<and> s = p_stock p - sold lines i)"
    if "map_of upd i = Some s" for i s
  proof -
    have held: "i \<in> fst ` set upd" using map_of_SomeD [OF that] by force
    from that assms(1) obtain p where p: "find_row c i (products d) = Some p" "s = p_stock p - sold lines i" "0 \<le> s"
      unfolding selling_def by blast
    from keep [OF p(1) held] p show ?thesis by blast
  qed
  ultimately show ?thesis using others_commit_ok [OF ok assms(2)] ids by (simp add: selling_def list_all_iff)
qed

lemma tx_product_Some:
  assumes "tx_product d upd c i = Some p"
  obtains q where "find_row c i (products d) = Some q" "p_unitPriceMinor p = p_unitPriceMinor q"
    "p_purchaseCostMinor p = p_purchaseCostMinor q" "p_active p = p_active q" "rid p = i"
    "p_stock p = (case map_of upd i of None \<Rightarrow> p_stock q | Some s \<Rightarrow> s)"
proof -
  from assms obtain q where q: "find_row c i (products d) = Some q"
    and p: "p = (case map_of upd i of None \<Rightarrow> q | Some s \<Rightarrow> q\<lparr>p_stock := s\<rparr>)"
    by (auto simp: tx_product_def)
  from that [OF q] find_row_Some [OF q] p show thesis by (auto split: option.splits)
qed

text \<open>One item: the line it adds keeps the invariant.\<close>

lemma selling_step:
  assumes "selling c upd lines d" "tx_product d upd c i = Some p" "p_active p" "n \<le> p_stock p"
  shows "selling c ((i, p_stock p - n) # upd) (lines @ [\<lparr>ln_productId = rid p, ln_quantity = n,
     ln_unitPriceMinor = p_unitPriceMinor p, ln_subtotalMinor = p_unitPriceMinor p * n,
     ln_unitCostMinor = p_purchaseCostMinor p\<rparr>]) d"
  using assms(2)
proof (rule tx_product_Some)
  fix q
  assume q: "find_row c i (products d) = Some q" "p_unitPriceMinor p = p_unitPriceMinor q"
    "p_purchaseCostMinor p = p_purchaseCostMinor q" "p_active p = p_active q" "rid p = i"
    "p_stock p = (case map_of upd i of None \<Rightarrow> p_stock q | Some s \<Rightarrow> s)"
  have stock: "p_stock p = p_stock q - sold lines i"
  proof (cases "map_of upd i")
    case None
    then have "i \<notin> ln_productId ` set lines" using assms(1) by (simp add: selling_def map_of_eq_None_iff)
    then have "sold lines i = 0" by (rule sold_none)
    with None q show ?thesis by simp
  next
    case (Some s)
    with assms(1) obtain q' where "find_row c i (products d) = Some q'" "s = p_stock q' - sold lines i"
      unfolding selling_def by blast
    with q Some show ?thesis by simp
  qed
  let ?l = "\<lparr>ln_productId = rid p, ln_quantity = n, ln_unitPriceMinor = p_unitPriceMinor p,
    ln_subtotalMinor = p_unitPriceMinor p * n, ln_unitCostMinor = p_purchaseCostMinor p\<rparr>"
  have "priced c d ?l" using q assms(3) by (simp add: priced_def)
  have "0 \<le> s \<and> (\<exists>p. find_row c j (products d) = Some p \<and> s = p_stock p - sold (lines @ [?l]) j)"
    if "map_of ((i, p_stock p - n) # upd) j = Some s" for j s
  proof (cases "j = i")
    case True
    with that q stock assms(4) show ?thesis by simp
  next
    case False
    with that have "map_of upd j = Some s" by simp
    with assms(1) have "0 \<le> s \<and> (\<exists>p. find_row c j (products d) = Some p \<and> s = p_stock p - sold lines j)"
      unfolding selling_def by blast
    with False q(5) show ?thesis by simp
  qed
  moreover have "ln_productId ` set (lines @ [?l]) = fst ` set ((i, p_stock p - n) # upd)"
    using assms(1) q(5) by (simp add: selling_def)
  moreover have "products_ok d" "list_all (priced c d) (lines @ [?l])"
    using assms(1) \<open>priced c d ?l\<close> by (simp_all add: selling_def)
  ultimately show ?thesis unfolding selling_def by blast
qed

lemma sell_items_Cons:
  assumes "sell_items D others k c (item # items) upd tot lines d = (Inr out, d')"
  obtains p subtotalMinor subtotal where
    "tx_product (others_commit upd (others k) d) upd c (sd_productId item) = Some p" "p_active p"
    "sd_quantity item \<le> p_stock p" "minor_product D (p_unitPriceMinor p) (sd_quantity item) = Inr subtotalMinor"
    "toDinero D subtotalMinor = Inr subtotal"
    "sell_items D others (Suc k) c items ((sd_productId item, p_stock p - sd_quantity item) # upd) (add D tot subtotal)
       (lines @ [\<lparr>ln_productId = rid p, ln_quantity = sd_quantity item, ln_unitPriceMinor = p_unitPriceMinor p,
         ln_subtotalMinor = subtotalMinor, ln_unitCostMinor = p_purchaseCostMinor p\<rparr>])
       (others_commit upd (others k) d) = (Inr out, d')"
  using assms
  by (auto simp: product_issue_def Let_def split: option.splits if_splits sum.splits)

lemma minor_product_Inr:
  assumes "dinero_laws D" "minor_product D a n = Inr r" "1 \<le> n" "n \<le> 100000"
  shows "r = a * n \<and> int4 r"
proof -
  have a: "int4 a" using assms(2) toDinero_int4 by (auto simp: minor_product_def split: sum.splits)
  have "safe_int (a * n)" by (rule minor_product_safe [OF a]) (use assms in simp_all)
  from minor_product_eq [OF assms(1) a this] assms(2) show ?thesis by (auto split: if_splits)
qed

lemma sell_items_ok:
  assumes "dinero_laws D" "\<And>k. orderly (others k)"
    and "sell_items D others k c items upd tot lines d = (Inr (upd', tot', lines'), d')"
    and "selling c upd lines d" "cents D tot (sum_list (map ln_subtotalMinor lines))"
    and "\<bar>sum_list (map ln_subtotalMinor lines)\<bar> \<le> int (length lines) * 2147483648"
    and "length lines + length items \<le> 500" "list_all (\<lambda>i. 1 \<le> sd_quantity i \<and> sd_quantity i \<le> 100000) items"
  shows "selling c upd' lines' d' \<and> cents D tot' (sum_list (map ln_subtotalMinor lines'))
    \<and> map (\<lambda>l. (ln_productId l, ln_quantity l)) lines'
      = map (\<lambda>l. (ln_productId l, ln_quantity l)) lines @ map (\<lambda>i. (sd_productId i, sd_quantity i)) items"
  using assms(3-)
proof (induction items arbitrary: k upd tot lines d)
  case Nil
  then show ?case by simp
next
  case (Cons item items)
  from Cons.prems(1) show ?case
  proof (rule sell_items_Cons)
    fix p :: product and subtotalMinor subtotal
    let ?d1 = "others_commit upd (others k) d"
    let ?line = "\<lparr>ln_productId = rid p, ln_quantity = sd_quantity item, ln_unitPriceMinor = p_unitPriceMinor p,
         ln_subtotalMinor = subtotalMinor, ln_unitCostMinor = p_purchaseCostMinor p\<rparr>"
    assume p: "tx_product ?d1 upd c (sd_productId item) = Some p" "p_active p" "sd_quantity item \<le> p_stock p"
      and sub: "minor_product D (p_unitPriceMinor p) (sd_quantity item) = Inr subtotalMinor"
      and subtotal: "toDinero D subtotalMinor = Inr subtotal"
      and rest: "sell_items D others (Suc k) c items ((sd_productId item, p_stock p - sd_quantity item) # upd)
        (add D tot subtotal) (lines @ [?line]) ?d1 = (Inr (upd', tot', lines'), d')"
    have "subtotalMinor = p_unitPriceMinor p * sd_quantity item \<and> int4 subtotalMinor"
      by (rule minor_product_Inr [OF assms(1) sub]) (use Cons.prems(6) in simp_all)
    then have amount: "subtotalMinor = p_unitPriceMinor p * sd_quantity item" "int4 subtotalMinor" by blast+
    have rid: "rid p = sd_productId item" using p(1) by (rule tx_product_Some)
    have size: "\<bar>subtotalMinor\<bar> \<le> 2147483648" using amount(2) by (auto simp: int4_def MAX_MINOR_UNITS_def)
    let ?sum = "sum_list (map ln_subtotalMinor lines)"
    have bound: "\<bar>?sum + subtotalMinor\<bar> \<le> int (length (lines @ [?line])) * 2147483648"
      using Cons.prems(4) size by simp
    have "int (length (lines @ [?line])) \<le> 500" using Cons.prems(5) by simp
    then have "\<bar>?sum + subtotalMinor\<bar> \<le> 500 * 2147483648" using bound by simp
    then have "safe_int (?sum + subtotalMinor)" by (simp add: safe_int_def MAX_SAFE_INTEGER_def)
    then have tot: "cents D (add D tot subtotal) (sum_list (map ln_subtotalMinor (lines @ [?line])))"
      using add_cents [OF assms(1) Cons.prems(3) toDinero_cents [OF assms(1) subtotal]] by simp
    have sell: "selling c ((sd_productId item, p_stock p - sd_quantity item) # upd) (lines @ [?line]) ?d1"
      using selling_step [OF selling_others [OF Cons.prems(2) assms(2)] p] by (simp add: amount(1))
    have bound': "\<bar>sum_list (map ln_subtotalMinor (lines @ [?line]))\<bar> \<le> int (length (lines @ [?line])) * 2147483648"
      using bound by simp
    have len: "length (lines @ [?line]) + length items \<le> 500" using Cons.prems(5) by simp
    have quantities: "list_all (\<lambda>i. 1 \<le> sd_quantity i \<and> sd_quantity i \<le> 100000) items" using Cons.prems(6) by simp
    from Cons.IH [OF rest sell tot bound' len quantities] rid show ?thesis by simp
  qed
qed

section \<open>Storing\<close>

lemma insert_rows_Inr: "insert_rows model rs rows = Inr rows' \<Longrightarrow> rows' = rows @ rs"
  by (induction model rs rows rule: insert_rows.induct) (auto split: sum.splits dest: insert_row_Inr)

lemma store_sale_Inr:
  assumes "store_sale s items incs d = Inr d'"
  shows "d' = d\<lparr>sales := sales d @ [s], saleItems := saleItems d @ items, incidencias := incidencias d @ incs\<rparr>
    \<and> rid s \<notin> rid ` set (sales d)"
  using assms by (auto simp: store_sale_def split: sum.splits dest!: insert_row_Inr insert_rows_Inr)

text \<open>What the items of a request take of a product.\<close>

definition taken :: "sale_item_dto list \<Rightarrow> uuid \<Rightarrow> int" where
  "taken items i = sum_list (map (\<lambda>x. if sd_productId x = i then sd_quantity x else 0) items)"

definition stock_after :: "string \<Rightarrow> sale_item_dto list \<Rightarrow> product \<Rightarrow> product" where
  "stock_after c items p = (if ctx p = c then p\<lparr>p_stock := p_stock p - taken items (rid p)\<rparr> else p)"

lemma sold_taken:
  assumes "map (\<lambda>l. (ln_productId l, ln_quantity l)) lines = map (\<lambda>i. (sd_productId i, sd_quantity i)) items"
  shows "sold lines i = taken items i"
proof -
  have "map (\<lambda>l. if ln_productId l = i then ln_quantity l else 0) lines
      = map (\<lambda>(a, b). if a = i then b else 0) (map (\<lambda>l. (ln_productId l, ln_quantity l)) lines)" by simp
  also have "\<dots> = map (\<lambda>x. if sd_productId x = i then sd_quantity x else 0) items" unfolding assms by simp
  finally show ?thesis unfolding sold_def taken_def by (rule arg_cong)
qed

lemma apply_updates_stock:
  assumes "selling c upd lines d" "\<And>i. sold lines i = taken items i"
  shows "products (apply_updates c upd d) = map (stock_after c items) (products d)"
proof -
  have "(if ctx p = c then (case map_of upd (rid p) of None \<Rightarrow> p | Some s \<Rightarrow> p\<lparr>p_stock := s\<rparr>) else p) = stock_after c items p"
    if p: "p \<in> set (products d)" for p
  proof (cases "ctx p = c")
    case True
    have find: "find_row c (rid p) (products d) = Some p"
      using assms(1) p True by (intro find_row_distinct) (simp_all add: selling_def products_ok_def)
    show ?thesis
    proof (cases "map_of upd (rid p)")
      case None
      then have "rid p \<notin> ln_productId ` set lines" using assms(1) by (simp add: selling_def map_of_eq_None_iff)
      then have "sold lines (rid p) = 0" by (rule sold_none)
      with None True assms(2) [of "rid p"] show ?thesis by (simp add: stock_after_def)
    next
      case (Some s)
      with assms(1) obtain q where "find_row c (rid p) (products d) = Some q" "s = p_stock q - sold lines (rid p)"
        unfolding selling_def by blast
      with find Some True assms(2) show ?thesis by (simp add: stock_after_def)
    qed
  qed (simp add: stock_after_def)
  then show ?thesis by (simp add: apply_updates_def)
qed

lemma apply_updates_ok:
  assumes "selling c upd lines d"
  shows "products_ok (apply_updates c upd d)"
proof -
  have "map rid (products (apply_updates c upd d)) = map rid (products d)"
    by (auto simp: apply_updates_def split: option.splits)
  moreover have "0 \<le> p_stock p \<and> 0 \<le> p_unitPriceMinor p" if "p \<in> set (products (apply_updates c upd d))" for p
    using that assms by (auto simp: apply_updates_def selling_def products_ok_def list_all_iff split: option.splits if_splits)
  ultimately show ?thesis using assms by (simp add: products_ok_def selling_def list_all_iff)
qed

section \<open>The transaction\<close>

lemma sale_tx_Inr:
  assumes "sale_tx D H show_days env actor dto d = (Inr s, d')"
  obtains origin zero upd tot lines d1 amount money incs where
    "authorize_actor d actor False = Inr origin" "toDinero D 0 = Inr zero"
    "sell_items D (se_others env) 1 (act_contextId actor) (cs_items dto) [] zero [] d = (Inr (upd, tot, lines), d1)"
    "toMinorUnits D tot = Inr amount" "cash_and_change D dto amount = Inr money"
    "s = completed_sale H env actor origin dto amount money"
    "store_sale s (line_rows env actor (cs_id dto) lines) incs
       (apply_updates (act_contextId actor) upd (others_commit upd (se_others env (Suc (length (cs_items dto)))) d1)) = Inr d'"
  using assms unfolding sale_tx_def Let_def
  by (auto split: sum.splits prod.splits)

text \<open>The price of a product, and the line a request is charged for an item.\<close>

definition price_of :: "string \<Rightarrow> db \<Rightarrow> uuid \<Rightarrow> int" where
  "price_of k d i = (case find_row k i (products d) of None \<Rightarrow> 0 | Some p \<Rightarrow> p_unitPriceMinor p)"

definition cost_of :: "string \<Rightarrow> db \<Rightarrow> uuid \<Rightarrow> int option" where
  "cost_of k d i = (case find_row k i (products d) of None \<Rightarrow> None | Some p \<Rightarrow> p_purchaseCostMinor p)"

definition charged_total :: "string \<Rightarrow> db \<Rightarrow> sale_item_dto list \<Rightarrow> int" where
  "charged_total k d items = sum_list (map (\<lambda>i. price_of k d (sd_productId i) * sd_quantity i) items)"

definition charged_lines :: "string \<Rightarrow> db \<Rightarrow> sale_item_dto list \<Rightarrow> (uuid \<times> int \<times> int \<times> int \<times> int option) list" where
  "charged_lines k d items = map (\<lambda>i. (sd_productId i, sd_quantity i, price_of k d (sd_productId i),
     price_of k d (sd_productId i) * sd_quantity i, cost_of k d (sd_productId i))) items"

definition line_view :: "sale_item \<Rightarrow> uuid \<times> int \<times> int \<times> int \<times> int option" where
  "line_view i = (si_productId i, si_quantity i, si_unitPriceMinor i, si_subtotalMinor i, si_unitCostMinor i)"

lemma charged:
  assumes "list_all (priced k d) lines"
    and "map (\<lambda>l. (ln_productId l, ln_quantity l)) lines = map (\<lambda>i. (sd_productId i, sd_quantity i)) items"
  shows "sum_list (map ln_subtotalMinor lines) = charged_total k d items"
    "map line_view (line_rows env actor i lines) = charged_lines k d items"
proof -
  have rows: "(ln_productId l, ln_quantity l, ln_unitPriceMinor l, ln_subtotalMinor l, ln_unitCostMinor l)
      = (\<lambda>(x, n). (x, n, price_of k d x, price_of k d x * n, cost_of k d x)) (ln_productId l, ln_quantity l)"
    if "l \<in> set lines" for l
    using assms(1) that by (auto simp: list_all_iff priced_def price_of_def cost_of_def)
  then have "map (\<lambda>l. (ln_productId l, ln_quantity l, ln_unitPriceMinor l, ln_subtotalMinor l, ln_unitCostMinor l)) lines
      = map (\<lambda>(x, n). (x, n, price_of k d x, price_of k d x * n, cost_of k d x)) (map (\<lambda>l. (ln_productId l, ln_quantity l)) lines)"
    by simp
  then have views: "map (\<lambda>l. (ln_productId l, ln_quantity l, ln_unitPriceMinor l, ln_subtotalMinor l, ln_unitCostMinor l)) lines
      = charged_lines k d items"
    unfolding assms(2) charged_lines_def by simp
  have "map line_view (line_rows env actor i lines)
      = map ((\<lambda>l. (ln_productId l, ln_quantity l, ln_unitPriceMinor l, ln_subtotalMinor l, ln_unitCostMinor l)) \<circ> snd)
          (enumerate 0 lines)"
    by (simp add: line_rows_def line_view_def case_prod_unfold)
  also have "\<dots> = charged_lines k d items" unfolding map_map [symmetric] map_snd_enumerate by (rule views)
  finally show "map line_view (line_rows env actor i lines) = charged_lines k d items" .
  have "map ln_subtotalMinor lines = map (\<lambda>(_, _, _, x, _). x) (charged_lines k d items)"
    unfolding views [symmetric] by simp
  then show "sum_list (map ln_subtotalMinor lines) = charged_total k d items"
    by (simp add: charged_lines_def charged_total_def o_def)
qed

text \<open>
  A transaction that commits: \<open>c\<close> is the committed state it is applied to, which is the state it
  started in when nobody else commits.
\<close>

definition sold_from :: "create_sale_dto \<Rightarrow> actor \<Rightarrow> sale \<Rightarrow> db \<Rightarrow> db \<Rightarrow> bool" where
  "sold_from dto actor s c d' \<longleftrightarrow>
     products d' = map (stock_after (act_contextId actor) (cs_items dto)) (products c)
   \<and> sales d' = sales c @ [s] \<and> rid s \<notin> rid ` set (sales c)
   \<and> (\<exists>rows. saleItems d' = saleItems c @ rows \<and> list_all (\<lambda>i. si_saleId i = rid s) rows
        \<and> map line_view rows = charged_lines (act_contextId actor) c (cs_items dto))
   \<and> s_totalMinor s = Some (charged_total (act_contextId actor) c (cs_items dto))"

lemma sell_items_committed:
  "committed others e d \<Longrightarrow> committed others e (snd (sell_items D others k c items upd tot lines d))"
proof (induction items arbitrary: k upd tot lines d)
  case (Cons item items)
  have go: "committed others e (others_commit u (others k) d)" for u
    by (rule committed_others_commit) (rule Cons.prems)
  show ?case
    using Cons.prems go Cons.IH [OF go] by (simp add: Let_def split: option.splits sum.splits)
qed simp

lemma sell_items_alone:
  assumes "\<And>k x. others k x = x"
  shows "snd (sell_items D others k c items upd tot lines d) = d"
proof (induction items arbitrary: k upd tot lines)
  case (Cons item items)
  have stay: "others_commit u (others k) d = d" for u k by (rule others_alone) (rule assms)
  show ?case
    using Cons.IH by (simp add: stay Let_def split: option.splits sum.splits)
qed simp

lemma cash_and_change_Inr:
  assumes "dinero_laws D" "cashReceivedMatchesMethod dto" "int4 amount" "cash_and_change D dto amount = Inr (cash, change)"
  shows "if isCashPayment (cs_paymentMethod dto)
    then \<exists>v. cs_cashReceivedMinor dto = Some v \<and> amount \<le> v \<and> cash = Some v \<and> change = Some (v - amount)
    else cash = None \<and> change = None"
proof (cases "isCashPayment (cs_paymentMethod dto)")
  case True
  with assms(4) obtain v where v: "cs_cashReceivedMinor dto = Some v" "amount \<le> v"
      "minor_difference D v amount = Inr (the change)" "cash = Some v" "change \<noteq> None"
    by (auto simp: cash_and_change_def split: option.splits if_splits sum.splits)
  have "int4 v" using assms(2) True v(1) by (simp add: cashReceivedMatchesMethod_def int4_def)
  from minor_difference_eq [OF assms(1) this assms(3)] v True show ?thesis by (auto split: if_splits)
next
  case False
  with assms(4) show ?thesis by (simp add: cash_and_change_def)
qed

lemma int4_zero [simp]: "int4 0"
  by (simp add: int4_def MAX_MINOR_UNITS_def)

text \<open>What a transaction that commits adds to the state \<open>c\<close> it commits in.\<close>

lemma sale_tx_commits:
  assumes "dinero_laws D" "valid_items dto" "orderly_env env" "products_ok d"
    and "sale_tx D H show_days env actor dto d = (Inr s, d')"
  defines "k \<equiv> act_contextId actor"
  obtains c rows incs amount origin money where
    "committed (se_others env) d c" "products_ok d'"
    "d' = c\<lparr>products := map (stock_after k (cs_items dto)) (products c), sales := sales c @ [s],
       saleItems := saleItems c @ rows, incidencias := incidencias c @ incs\<rparr>"
    "cs_id dto \<notin> rid ` set (sales c)" "map line_view rows = charged_lines k c (cs_items dto)"
    "list_all (\<lambda>i. si_saleId i = cs_id dto \<and> ctx i = k) rows"
    "s = completed_sale H env actor origin dto amount money" "amount = charged_total k c (cs_items dto)"
    "int4 amount" "cash_and_change D dto amount = Inr money"
    "list_all (\<lambda>i. find_row k (sd_productId i) (products c) \<noteq> None) (cs_items dto)"
  using assms(5)
proof (rule sale_tx_Inr)
  fix origin zero upd tot lines d1 amount money incs
  let ?w = "se_others env (Suc (length (cs_items dto)))"
  let ?c = "others_commit upd ?w d1" and ?rows = "line_rows env actor (cs_id dto) lines"
  assume zero: "toDinero D 0 = Inr zero"
    and loop: "sell_items D (se_others env) 1 (act_contextId actor) (cs_items dto) [] zero [] d = (Inr (upd, tot, lines), d1)"
    and amount: "toMinorUnits D tot = Inr amount" and money: "cash_and_change D dto amount = Inr money"
    and s: "s = completed_sale H env actor origin dto amount money"
    and store: "store_sale s (line_rows env actor (cs_id dto) lines) incs (apply_updates (act_contextId actor) upd ?c) = Inr d'"
  have orderly: "\<And>k. orderly (se_others env k)" using assms(3) by (simp add: orderly_env_def)
  have "selling k upd lines d1 \<and> cents D tot (sum_list (map ln_subtotalMinor lines))
      \<and> map (\<lambda>l. (ln_productId l, ln_quantity l)) lines = map (\<lambda>l. (ln_productId l, ln_quantity l)) ([] :: sale_line list)
        @ map (\<lambda>i. (sd_productId i, sd_quantity i)) (cs_items dto)"
    unfolding k_def by (rule sell_items_ok [OF assms(1) orderly loop selling_start [OF assms(4)]])
      (use assms(2) toDinero_cents [OF assms(1) zero] in \<open>simp_all add: valid_items_def\<close>)
  then have sell1: "selling k upd lines d1" and tot: "cents D tot (sum_list (map ln_subtotalMinor lines))"
    and items: "map (\<lambda>l. (ln_productId l, ln_quantity l)) lines = map (\<lambda>i. (sd_productId i, sd_quantity i)) (cs_items dto)"
    by simp_all
  have sell: "selling k upd lines ?c" by (rule selling_others [OF sell1 orderly])
  then have priced: "list_all (priced k ?c) lines" by (simp add: selling_def)
  have "committed (se_others env) d d1"
    using sell_items_committed [OF committed_start, of "se_others env" d D 1 "act_contextId actor" "cs_items dto" "[]" zero "[]"]
    unfolding loop by simp
  then have reached: "committed (se_others env) d ?c" by (rule committed_others_commit)
  have amount': "amount = charged_total k ?c (cs_items dto)" "int4 amount"
    using amount tot charged(1) [OF priced items] by (auto simp: toMinorUnits_cents split: if_splits)
  have sid: "rid s = cs_id dto" by (simp add: s completed_sale_def)
  have prods: "products (apply_updates k upd ?c) = map (stock_after k (cs_items dto)) (products ?c)"
    by (rule apply_updates_stock [OF sell sold_taken [OF items]])
  have "apply_updates k upd ?c = ?c\<lparr>products := products (apply_updates k upd ?c)\<rparr>" by (simp add: apply_updates_def)
  then have upd: "apply_updates k upd ?c = ?c\<lparr>products := map (stock_after k (cs_items dto)) (products ?c)\<rparr>"
    unfolding prods .
  note stored = store_sale_Inr [OF store [folded k_def, unfolded upd]]
  have "products d' = products (apply_updates k upd ?c)" using stored by (simp add: upd)
  then have ok: "products_ok d'" using apply_updates_ok [OF sell] by (simp add: products_ok_def)
  have found: "find_row k i (products ?c) \<noteq> None" if "i \<in> fst ` set (map (\<lambda>l. (ln_productId l, ln_quantity l)) lines)" for i
    using that priced by (auto simp: priced_def list_all_iff)
  have "list_all (\<lambda>i. find_row k (sd_productId i) (products ?c) \<noteq> None) (cs_items dto)"
    unfolding list_all_iff
  proof
    fix i assume "i \<in> set (cs_items dto)"
    then have "sd_productId i \<in> fst ` set (map (\<lambda>l. (ln_productId l, ln_quantity l)) lines)"
      unfolding items by force
    then show "find_row k (sd_productId i) (products ?c) \<noteq> None" by (rule found)
  qed
  moreover have "list_all (\<lambda>i. si_saleId i = cs_id dto \<and> ctx i = k) ?rows"
    by (auto simp: line_rows_def list_all_iff k_def)
  ultimately show thesis
    using that [OF reached ok _ _ charged(2) [OF priced items] _ s amount' money, of incs] stored sid by simp
qed

lemma sale_tx_sells:
  assumes "dinero_laws D" "valid_items dto" "cashReceivedMatchesMethod dto" "orderly_env env" "products_ok d"
    and "sale_tx D H show_days env actor dto d = (Inr s, d')"
  shows "s_status s = Completada \<and> rid s = cs_id dto \<and> ctx s = act_contextId actor \<and> products_ok d'
    \<and> s_receivedAt s = se_receivedAt env
    \<and> (\<exists>c. committed (se_others env) d c \<and> sold_from dto actor s c d')
    \<and> (\<exists>amount. s_totalMinor s = Some amount \<and> (if isCashPayment (cs_paymentMethod dto)
        then \<exists>v. cs_cashReceivedMinor dto = Some v \<and> amount \<le> v \<and> s_cashReceivedMinor s = Some v \<and> s_changeMinor s = Some (v - amount)
        else s_cashReceivedMinor s = None \<and> s_changeMinor s = None))"
  using assms(1,2,4-6)
proof (rule sale_tx_commits)
  fix c rows incs amount origin money
  let ?k = "act_contextId actor"
  assume c: "committed (se_others env) d c" "products_ok d'"
      "d' = c\<lparr>products := map (stock_after ?k (cs_items dto)) (products c), sales := sales c @ [s],
       saleItems := saleItems c @ rows, incidencias := incidencias c @ incs\<rparr>"
    "cs_id dto \<notin> rid ` set (sales c)" "map line_view rows = charged_lines ?k c (cs_items dto)"
    "list_all (\<lambda>i. si_saleId i = cs_id dto \<and> ctx i = ?k) rows"
    and s: "s = completed_sale H env actor origin dto amount money" "amount = charged_total ?k c (cs_items dto)"
    and money: "int4 amount" "cash_and_change D dto amount = Inr money"
  have s_fields: "rid s = cs_id dto" "ctx s = ?k" "s_status s = Completada" "s_totalMinor s = Some amount"
      "s_cashReceivedMinor s = fst money" "s_changeMinor s = snd money" "s_receivedAt s = se_receivedAt env"
    by (simp_all add: s(1) completed_sale_def)
  have "list_all (\<lambda>i. si_saleId i = rid s) rows" using c(6) by (auto simp: list_all_iff s_fields)
  then have "sold_from dto actor s c d'"
    using c s_fields(1,4) s(2) unfolding sold_from_def by auto
  moreover have "if isCashPayment (cs_paymentMethod dto)
      then \<exists>v. cs_cashReceivedMinor dto = Some v \<and> amount \<le> v \<and> fst money = Some v \<and> snd money = Some (v - amount)
      else fst money = None \<and> snd money = None"
    by (rule cash_and_change_Inr [OF assms(1,3) money(1)]) (simp add: money(2))
  ultimately show ?thesis using s_fields c(1,2) by auto
qed

section \<open>The call\<close>

lemma sell_items_never_conflicts:
  assumes "\<And>k x. others k x = x"
  shows "fst (sell_items D others k c items upd tot lines d) \<noteq> Inl (SaleStockConflict reason)"
proof (induction items arbitrary: k upd tot lines)
  case (Cons item items)
  have stay: "others_commit u (others k) d = d" for u k by (rule others_alone) (rule assms)
  show ?case
    using Cons.IH by (simp add: stay Let_def split: option.splits sum.splits)
qed simp

lemma sale_tx_conflict:
  assumes "sale_tx D H show_days env actor dto d = (Inl (SaleStockConflict reason), d')"
  shows "\<not> alone env"
proof
  assume "alone env"
  then have others: "\<And>k x. se_others env k x = x" by (simp add: alone_def)
  have "fst (sell_items D (se_others env) 1 (act_contextId actor) (cs_items dto) [] zero [] d) \<noteq> Inl (SaleStockConflict reason)" for zero
    by (rule sell_items_never_conflicts [OF others])
  with assms(1) show False
    unfolding sale_tx_def Let_def by (auto split: sum.splits prod.splits) (metis fst_conv)+
qed

lemma store_rejection_Inr:
  assumes "store_rejection H env actor dto reason k d = (Inr (True, r), d')"
  shows "\<exists>inc. d' = d\<lparr>sales := sales d @ [rejected_sale H env actor dto reason], incidencias := incidencias d @ [inc]\<rparr>
    \<and> in_type inc = ConflictoStock \<and> in_saleId inc = cs_id dto \<and> ctx inc = act_contextId actor
    \<and> cs_id dto \<notin> rid ` set (sales d) \<and> r = response d' (rejected_sale H env actor dto reason)"
proof -
  let ?s = "rejected_sale H env actor dto reason"
  let ?inc = "incidencia_row env actor (cs_id dto) (length (cs_items dto)) ConflictoStock reason"
  from assms have store: "store_sale ?s [] [?inc] d = Inr d'" and r: "r = response d' ?s"
    by (auto simp: store_rejection_def Let_def split: sum.splits if_splits option.splits)
  have "rid ?s = cs_id dto" by (simp add: rejected_sale_def)
  with store_sale_Inr [OF store] r show ?thesis
    by (intro exI [of _ ?inc]) (simp add: incidencia_row_def)
qed

lemma createSale_created:
  assumes "createSale D H show_days env actor dto d = (Inr (True, r), d')"
  obtains (completed) s where "sale_tx D H show_days env actor dto (se_others env 0 d) = (Inr s, d')" "r = response d' s"
  | (rejected) reason d1 d2 where "sale_tx D H show_days env actor dto (se_others env 0 d) = (Inl (SaleStockConflict reason), d1)"
      "store_rejection H env actor dto reason (length (cs_items dto) + 4) d2 = (Inr (True, r), d')"
proof -
  obtain f d1 where tx: "sale_tx D H show_days env actor dto (se_others env 0 d) = (f, d1)" by fastforce
  from assms have none: "find_row (act_contextId actor) (cs_id dto) (sales d) = None"
    by (auto simp: createSale_def split: if_splits option.splits)
  show thesis
  proof (cases f)
    case (Inr s)
    with assms tx none completed show thesis by (auto simp: createSale_def split: if_splits)
  next
    case (Inl x)
    note body = assms [unfolded createSale_def none option.case tx Inl prod.case sum.case Let_def]
    show thesis
    proof (cases x)
      case (SaleStockConflict reason)
      with body have "store_rejection H env actor dto reason (length (cs_items dto) + 4)
          (se_others env (length (cs_items dto) + 3) (se_others env (length (cs_items dto) + 2) d1)) = (Inr (True, r), d')"
        by (auto split: if_splits option.splits)
      with tx Inl SaleStockConflict rejected show thesis by blast
    next
      case (Failed e)
      with body show thesis by (auto split: if_splits option.splits)
    qed
  qed
qed

definition valid_sale :: "create_sale_dto \<Rightarrow> bool" where
  "valid_sale dto \<longleftrightarrow> valid_items dto \<and> cashReceivedMatchesMethod dto"

lemma response_sale [simp]: "sr_sale (response d s) = s"
  by (simp add: response_def)

lemma orderly_start: "orderly_env env \<Longrightarrow> products_ok d \<Longrightarrow> products_ok (se_others env k d)"
  by (simp add: orderly_env_def orderly_def)

text \<open>C10: a completed sale takes exactly what it sells and charges exactly what the products cost. Whatever
  other transactions commit while it waits, there is a state \<open>c\<close> they lead to (the state before the call when
  nobody else commits) such that the call adds to \<open>c\<close> the sale and one line per item with the price and
  the cost of the product in \<open>c\<close>, lowers the stock of each product of the business by what the items take
  of it and touches no other product, and no stock becomes negative. The total is the sum of price times
  quantity; cash pays at least the total and the change is the difference, and there is neither cash nor
  change with the other methods.\<close>

theorem sale_exact:
  assumes "dinero_laws D" "valid_sale dto" "orderly_env env" "products_ok d"
    and "createSale D H show_days env actor dto d = (Inr (True, r), d')" "s_status (sr_sale r) = Completada"
  shows "products_ok d' \<and> (\<exists>c. committed (se_others env) d c \<and> (alone env \<longrightarrow> c = d) \<and> sold_from dto actor (sr_sale r) c d')
    \<and> (\<exists>amount. s_totalMinor (sr_sale r) = Some amount \<and> (if isCashPayment (cs_paymentMethod dto)
        then \<exists>v. cs_cashReceivedMinor dto = Some v \<and> amount \<le> v
          \<and> s_cashReceivedMinor (sr_sale r) = Some v \<and> s_changeMinor (sr_sale r) = Some (v - amount)
        else s_cashReceivedMinor (sr_sale r) = None \<and> s_changeMinor (sr_sale r) = None))"
  using assms(5)
proof (rule createSale_created)
  fix s
  assume "sale_tx D H show_days env actor dto (se_others env 0 d) = (Inr s, d')" and r: "r = response d' s"
  from sale_tx_sells [OF assms(1) _ _ assms(3) orderly_start [OF assms(3,4)] this(1)] assms(2)
  have sells: "products_ok d'" "\<exists>c. committed (se_others env) (se_others env 0 d) c \<and> sold_from dto actor s c d'"
    "\<exists>amount. s_totalMinor s = Some amount \<and> (if isCashPayment (cs_paymentMethod dto)
        then \<exists>v. cs_cashReceivedMinor dto = Some v \<and> amount \<le> v \<and> s_cashReceivedMinor s = Some v \<and> s_changeMinor s = Some (v - amount)
        else s_cashReceivedMinor s = None \<and> s_changeMinor s = None)"
    unfolding valid_sale_def by blast+
  have "committed (se_others env) d (se_others env 0 d)" by (intro committed.intros)
  then have "\<exists>c. committed (se_others env) d c \<and> (alone env \<longrightarrow> c = d) \<and> sold_from dto actor s c d'"
    using sells(2) committed_trans [of "se_others env" "se_others env 0 d" _ d] committed_alone [of "se_others env" d]
    unfolding alone_def by blast
  with sells(1,3) show ?thesis unfolding r response_sale by blast
next
  fix reason d1 d2
  assume "store_rejection H env actor dto reason (length (cs_items dto) + 4) d2 = (Inr (True, r), d')"
  from store_rejection_Inr [OF this] assms(6) show ?thesis by (auto simp: rejected_sale_def)
qed


section \<open>Idempotency\<close>

text \<open>
  A validated request executed while nobody else commits; a body the validation refuses never reaches the
  service.
\<close>

definition isolated :: "sale_env \<Rightarrow> sale_env" where
  "isolated env = env\<lparr>se_others := (\<lambda>k x. x)\<rparr>"

definition post_sale ::
  "'d dinero_lib \<Rightarrow> (string \<Rightarrow> string) \<Rightarrow> (int \<Rightarrow> string) \<Rightarrow> sale_env \<Rightarrow> actor \<Rightarrow> create_sale_dto \<Rightarrow> db
    \<Rightarrow> (bool \<times> sale_response) result \<times> db"
where
  "post_sale D H show_days env actor dto d =
     (if cashReceivedMatchesMethod dto then createSale D H show_days env actor dto d
      else (Inl (BadRequest ''cashReceivedMinor does not match paymentMethod''), d))"

lemma alone_isolated [simp]: "alone (isolated env)"
  by (simp add: alone_def isolated_def)

lemma isolated_others [simp]: "se_others (isolated env) k x = x"
  by (simp add: isolated_def)

lemma sale_tx_rolled_back:
  assumes "sale_tx D H show_days (isolated env) actor dto d = (Inl f, d')"
  shows "d' = d"
proof -
  have loop: "snd (sell_items D (se_others (isolated env)) k c items upd tot lines d) = d" for k c items upd tot lines
    by (rule sell_items_alone) simp
  have stay: "others_commit u (se_others (isolated env) k) x = x" for u k x by (rule others_alone) simp
  show ?thesis
  proof (cases "\<exists>zero. toDinero D 0 = Inr zero")
    case True
    then obtain zero where zero: "toDinero D 0 = Inr zero" by blast
    obtain out d1 where run: "sell_items D (se_others (isolated env)) 1 (act_contextId actor) (cs_items dto) [] zero [] d = (out, d1)"
      by fastforce
    with loop have "d1 = d" by (metis snd_conv)
    with assms run zero show ?thesis
      by (auto simp: sale_tx_def Let_def stay split: sum.splits prod.splits)
  next
    case False
    with assms show ?thesis by (auto simp: sale_tx_def split: sum.splits)
  qed
qed

lemma createSale_isolated:
  assumes "createSale D H show_days (isolated env) actor dto d = (out, d')"
    and "find_row (act_contextId actor) (cs_id dto) (sales d) = None"
  shows "(\<exists>r. out = Inr (True, r)) \<or> (\<exists>e. out = Inl e) \<and> d' = d"
proof (cases "act_selection actor = Some (cs_memberId dto, cs_deviceId dto)")
  case True
  obtain f d1 where tx: "sale_tx D H show_days (isolated env) actor dto d = (f, d1)" by fastforce
  show ?thesis
  proof (cases f)
    case (Inr s)
    with assms tx True show ?thesis by (auto simp: createSale_def)
  next
    case (Inl x)
    with tx have d1: "d1 = d" by (simp add: sale_tx_rolled_back)
    have notStock: "x \<noteq> SaleStockConflict reason" for reason
      using tx Inl sale_tx_conflict [of D H show_days "isolated env" actor dto d reason d1] by auto
    then obtain e where "x = Failed e" by (cases x) auto
    with assms tx True Inl d1 show ?thesis
      by (auto simp: createSale_def replay_or_def Let_def split: if_splits)
  qed
next
  case False
  with assms show ?thesis by (auto simp: createSale_def)
qed

lemma authorize_actor_origin:
  assumes "authorize_actor d actor requireSocio = Inr origin"
  shows "act_selection actor = Some origin"
  using assms by (auto simp: authorize_actor_def split: option.splits dest!: find_Some_set)

text \<open>The row a creation stores answers every resend of its request.\<close>

lemma created_replays:
  assumes "createSale D H show_days (isolated env) actor dto d = (Inr (True, r), d')"
    and "cashReceivedMatchesMethod dto" "\<And>x. H x \<noteq> []"
  shows "act_selection actor = Some (cs_memberId dto, cs_deviceId dto)
    \<and> find_row (act_contextId actor) (cs_id dto) (sales d) = None
    \<and> find_row (act_contextId actor) (cs_id dto) (sales d') = Some (sr_sale r)
    \<and> r = response d' (sr_sale r) \<and> isIdempotentReplay H (sr_sale r) items dto"
proof -
  have sel: "act_selection actor = Some (cs_memberId dto, cs_deviceId dto)"
    and none: "find_row (act_contextId actor) (cs_id dto) (sales d) = None"
    using assms(1) by (auto simp: createSale_def split: if_splits option.splits)
  have print: "requestFingerprint H dto \<noteq> []" by (simp add: requestFingerprint_def Let_def assms(3))
  from assms(1) have "find_row (act_contextId actor) (cs_id dto) (sales d') = Some (sr_sale r)
    \<and> r = response d' (sr_sale r) \<and> isIdempotentReplay H (sr_sale r) items dto"
  proof (rule createSale_created)
    fix s
    assume tx: "sale_tx D H show_days (isolated env) actor dto (se_others (isolated env) 0 d) = (Inr s, d')"
      and r: "r = response d' s"
    from tx show ?thesis
    proof (rule sale_tx_Inr)
      fix origin zero upd tot lines d1 amount money incs
      let ?c = "apply_updates (act_contextId actor) upd (others_commit upd (se_others (isolated env) (Suc (length (cs_items dto)))) d1)"
      assume origin: "authorize_actor (se_others (isolated env) 0 d) actor False = Inr origin"
        and money: "cash_and_change D dto amount = Inr money"
        and s: "s = completed_sale H (isolated env) actor origin dto amount money"
        and store: "store_sale s (line_rows (isolated env) actor (cs_id dto) lines) incs ?c = Inr d'"
      have fields: "rid s = cs_id dto" "ctx s = act_contextId actor" by (simp_all add: s completed_sale_def)
      from store_sale_Inr [OF store] have "insert_row m s (sales ?c) = Inr (sales d')" for m by (simp add: insert_row_def)
      from find_row_insert [OF this] fields have found: "find_row (act_contextId actor) (cs_id dto) (sales d') = Some s" by simp
      have "origin = (cs_memberId dto, cs_deviceId dto)" using authorize_actor_origin [OF origin] sel by simp
      moreover have "fst money = cs_cashReceivedMinor dto"
        using money assms(2) by (auto simp: cash_and_change_def cashReceivedMatchesMethod_def split: if_splits option.splits sum.splits)
      ultimately have "isIdempotentReplay H s items dto"
        using print by (auto simp: isIdempotentReplay_def s completed_sale_def Let_def split: list.splits)
      with found r show ?thesis by simp
    qed
  next
    fix reason d1 d2
    assume "sale_tx D H show_days (isolated env) actor dto (se_others (isolated env) 0 d) = (Inl (SaleStockConflict reason), d1)"
    from sale_tx_conflict [OF this] show ?thesis by simp
  qed
  with sel none show ?thesis by blast
qed

lemma sale_frozen_receipt:
  assumes H: "\<And>x. H x \<noteq> []"
  shows "frozen_receipt (\<lambda>env (actor, dto). post_sale D H show_days (isolated env) actor dto)
    (\<lambda>(actor, dto) d. map_option (\<lambda>s. isIdempotentReplay H s (items_of d s) dto)
       (find_row (act_contextId actor) (cs_id dto) (sales d)))
    (\<lambda>_. True)
    (\<lambda>(actor, dto) d. cashReceivedMatchesMethod dto \<and> act_selection actor = Some (cs_memberId dto, cs_deviceId dto))
    (\<lambda>(actor, dto) d. response d (the (find_row (act_contextId actor) (cs_id dto) (sales d))))"
proof (unfold_locales, goal_cases replays conflicts creates answers fails freezes)
  case (replays q d env)
  then show ?case by (cases q) (auto simp: post_sale_def createSale_def)
next
  case (conflicts q d f env)
  then show ?case by (cases q) (auto simp: post_sale_def createSale_def different_data_def)
next
  case (creates env q d r d')
  obtain actor dto where q: "q = (actor, dto)" by fastforce
  with creates have run: "createSale D H show_days (isolated env) actor dto d = (Inr (True, r), d')"
    and cash: "cashReceivedMatchesMethod dto" by (auto simp: post_sale_def split: if_splits)
  from created_replays [OF run cash H] cash show ?case by (simp add: q)
next
  case (answers env q d r d')
  obtain actor dto where q: "q = (actor, dto)" by fastforce
  with answers have run: "createSale D H show_days (isolated env) actor dto d = (Inr (False, r), d')"
    and cash: "cashReceivedMatchesMethod dto" by (auto simp: post_sale_def split: if_splits)
  have "find_row (act_contextId actor) (cs_id dto) (sales d) \<noteq> None"
    using createSale_isolated [OF run] by auto
  with run cash show ?case by (auto simp: q createSale_def split: if_splits)
next
  case (fails env q d e d')
  obtain actor dto where q: "q = (actor, dto)" by fastforce
  show ?case
  proof (cases "cashReceivedMatchesMethod dto \<and> find_row (act_contextId actor) (cs_id dto) (sales d) = None")
    case True
    with fails q have "createSale D H show_days (isolated env) actor dto d = (Inl e, d')" by (simp add: post_sale_def)
    from createSale_isolated [OF this] True show ?thesis by auto
  next
    case False
    with fails q show ?thesis by (auto simp: post_sale_def createSale_def split: if_splits)
  qed
next
  case (freezes env q d r d')
  obtain actor dto where q: "q = (actor, dto)" by fastforce
  with freezes have run: "createSale D H show_days (isolated env) actor dto d = (Inr (True, r), d')"
    and cash: "cashReceivedMatchesMethod dto" by (auto simp: post_sale_def split: if_splits)
  have "find_row (act_contextId actor) (cs_id dto) (sales d') = Some (sr_sale r) \<and> r = response d' (sr_sale r)"
    using created_replays [OF run cash H] by blast
  then show ?case by (simp add: q)
qed


section \<open>Concrete sales\<close>

definition sample_sale_request :: create_sale_dto where
  "sample_sale_request = \<lparr>cs_id = ''s9'', cs_memberId = ''m3'', cs_deviceId = ''d1'', cs_occurredAt = 1768400000000,
     cs_currency = ''MXN'', cs_paymentMethod = None, cs_cashReceivedMinor = Some 6000,
     cs_items = [\<lparr>sd_productId = ''p1'', sd_quantity = 2, sd_unitPriceMinor = None\<rparr>,
                 \<lparr>sd_productId = ''p2'', sd_quantity = 1, sd_unitPriceMinor = Some 1\<rparr>]\<rparr>"

definition sample_env :: sale_env where
  "sample_env = \<lparr>se_others = (\<lambda>k x. x), se_receivedAt = 1768400060000, se_rejectedAt = 1768400060000,
     se_detectedAt = 1768400060000, se_insertedAt = 1768400050000, se_ids = (\<lambda>k. ''i-'' @ replicate k CHR ''x'')\<rparr>"

text \<open>Another tablet sells the last piece of \<open>p1\<close> while this call waits for its lock.\<close>

definition sell_out :: "db \<Rightarrow> db" where
  "sell_out d = d\<lparr>products := map (\<lambda>p. if rid p = ''p1'' then p\<lparr>p_stock := 0\<rparr> else p) (products d)\<rparr>"

definition sample_race :: sale_env where
  "sample_race = sample_env\<lparr>se_others := (\<lambda>k. if k = 1 then sell_out else (\<lambda>x. x))\<rparr>"

definition ends_as :: "sale_status \<Rightarrow> (bool \<times> sale_response) result \<Rightarrow> bool" where
  "ends_as st out = (case out of Inl e \<Rightarrow> False | Inr (c, r) \<Rightarrow> c \<and> s_status (sr_sale r) = st)"

lemma ends_asE: "ends_as st out \<Longrightarrow> \<exists>r. out = Inr (True, r) \<and> s_status (sr_sale r) = st"
  by (auto simp: ends_as_def split: sum.splits)

lemma sample_orderly: "orderly_env sample_env"
  by (rule alone_orderly) (simp add: alone_def sample_env_def)

definition sample_run :: "(bool \<times> sale_response) result \<times> db" where
  "sample_run = createSale exact_dinero (\<lambda>s. ''h'') (\<lambda>n. []) sample_env carla sample_sale_request sample_db"

definition sample_lost :: "(bool \<times> sale_response) result \<times> db" where
  "sample_lost = createSale exact_dinero (\<lambda>s. ''h'') (\<lambda>n. []) sample_race carla sample_sale_request sample_db"

lemma sample_run_completed: "ends_as Completada (fst sample_run)"
  by code_simp

lemma sample_lost_rejected: "ends_as RechazadaPorConflicto (fst sample_lost)"
  by code_simp

lemma sale_exact_witness:
  "\<exists>r. fst sample_run = Inr (True, r) \<and> sold_from sample_sale_request carla (sr_sale r) sample_db (snd sample_run)
     \<and> products_ok (snd sample_run)"
proof -
  obtain r where r: "fst sample_run = Inr (True, r)" "s_status (sr_sale r) = Completada"
    using ends_asE [OF sample_run_completed] by blast
  then have run: "createSale exact_dinero (\<lambda>s. ''h'') (\<lambda>n. []) sample_env carla sample_sale_request sample_db
      = (Inr (True, r), snd sample_run)" unfolding sample_run_def by (metis prod.collapse)
  have "valid_sale sample_sale_request" "products_ok sample_db" by code_simp+
  from sale_exact [OF exact_dinero_laws this(1) sample_orderly this(2) run r(2)] r(1)
  show ?thesis by (auto simp: alone_def sample_env_def)
qed



end
