(* ===== verification/Deudas.thy ===== *)
theory Deudas
  imports Sales
begin

text \<open>
  The debts (\<open>src/deudas/deudas.service.ts\<close>): a \<open>fiado\<close> or \<open>apartado\<close> of one product for a debtor, the
  payments (\<open>abonos\<close>) against it and the informative schedule of installments (\<open>cuotas\<close>). As for the
  sales, what other transactions commit at the points where a call waits is part of the model.
\<close>

section \<open>Requests\<close>

record deudor_input =
  di_nombre :: string
  di_telefono :: "string option"
  di_notas :: "string option"

record cuota_input =
  ci_fechaEsperada :: string
  ci_montoEsperadoMinor :: int

record create_deuda_dto =
  cd_id :: "uuid option"
  cd_type :: deuda_type
  cd_productId :: uuid
  cd_cantidad :: int
  cd_deudorId :: "uuid option"
  cd_deudor :: "deudor_input option"
  cd_abonoInicialMinor :: int
  cd_abonoInicialPaymentMethod :: "payment_method option"
  cd_cuotasPlaneadas :: "cuota_input list"

record create_abono_dto =
  aa_montoMinor :: int
  aa_nota :: "string option"
  aa_paymentMethod :: "payment_method option"

record deuda_env =
  de_others :: "nat \<Rightarrow> db \<Rightarrow> db"
  de_now :: instant
  de_createdAt :: instant
  de_ids :: "nat \<Rightarrow> uuid"

fun show_deuda_type :: "deuda_type \<Rightarrow> string" where
  "show_deuda_type Fiado = ''fiado''"
| "show_deuda_type Apartado = ''apartado''"

fun show_deuda_status :: "deuda_status \<Rightarrow> string" where
  "show_deuda_status Pendiente = ''pendiente''"
| "show_deuda_status Saldada = ''saldada''"

text \<open>The digest of a creation; a request without a selection never gets here.\<close>

definition deuda_print :: "(string \<Rightarrow> string) \<Rightarrow> actor \<Rightarrow> create_deuda_dto \<Rightarrow> string" where
  "deuda_print H actor dto =
     (let (memberId, deviceId) = (case act_selection actor of None \<Rightarrow> ([], []) | Some s \<Rightarrow> s) in
      H (json_stringify (JObj (
        [(''contextId'', JStr (act_contextId actor)), (''accountId'', JStr (act_accountId actor)),
         (''memberId'', JStr memberId), (''deviceId'', JStr deviceId), (''type'', JStr (show_deuda_type (cd_type dto))),
         (''productId'', JStr (toLowerCase (cd_productId dto))), (''cantidad'', JNum (cd_cantidad dto)),
         (''deudorId'', json_option (\<lambda>i. JStr (toLowerCase i)) (cd_deudorId dto)),
         (''deudor'', json_option (\<lambda>x. JObj [(''nombre'', JStr (di_nombre x)), (''telefono'', json_option JStr (di_telefono x)),
            (''notas'', json_option JStr (di_notas x))]) (cd_deudor dto)),
         (''abonoInicialMinor'', JNum (cd_abonoInicialMinor dto)),
         (''cuotasPlaneadas'', JArr (map (\<lambda>q. JObj [(''fechaEsperada'', JStr (ci_fechaEsperada q)),
            (''montoEsperadoMinor'', JNum (ci_montoEsperadoMinor q))]) (cd_cuotasPlaneadas dto)))]
        @ (if isCashPayment (cd_abonoInicialPaymentMethod dto) then []
           else [(''abonoInicialPaymentMethod'', json_option (\<lambda>m. JStr (show_method m)) (cd_abonoInicialPaymentMethod dto))])))))"

section \<open>Responses\<close>

definition abonos_of :: "db \<Rightarrow> string \<Rightarrow> uuid \<Rightarrow> abono list" where
  "abonos_of d c i = [a \<leftarrow> in_context c (abonos d). ab_deudaId a = i]"

definition cuotas_of :: "db \<Rightarrow> string \<Rightarrow> uuid \<Rightarrow> cuota list" where
  "cuotas_of d c i = [q \<leftarrow> in_context c (cuotas d). cu_deudaId q = i]"

definition json_abono :: "abono \<Rightarrow> jsval" where
  "json_abono a = JObj [(''id'', JStr (rid a)), (''deudaId'', JStr (ab_deudaId a)), (''contextId'', JStr (ctx a)),
     (''montoMinor'', JNum (ab_montoMinor a)), (''receivedByMemberId'', JStr (ab_receivedByMemberId a)),
     (''receivedAt'', JStr (to_iso (ab_receivedAt a))), (''nota'', json_option JStr (ab_nota a)),
     (''paymentMethod'', JStr (show_method (ab_paymentMethod a)))]"

text \<open>An installment shows its calendar day.\<close>

definition cuotaResponse :: "cuota \<Rightarrow> jsval" where
  "cuotaResponse q = JObj [(''id'', JStr (rid q)), (''deudaId'', JStr (cu_deudaId q)), (''contextId'', JStr (ctx q)),
     (''fechaEsperada'', JStr (iso_date_part (cu_fechaEsperada q))),
     (''montoEsperadoMinor'', JNum (cu_montoEsperadoMinor q)), (''createdAt'', JStr (to_iso (cu_createdAt q)))]"

text \<open>The fingerprint and the stored receipt are never shown.\<close>

definition deuda_response :: "db \<Rightarrow> deuda \<Rightarrow> jsval" where
  "deuda_response d x = JObj [(''id'', JStr (rid x)), (''type'', JStr (show_deuda_type (du_type x))),
     (''deudorId'', JStr (du_deudorId x)), (''productId'', JStr (du_productId x)), (''contextId'', JStr (ctx x)),
     (''cantidad'', JNum (du_cantidad x)), (''totalMinor'', JNum (du_totalMinor x)),
     (''status'', JStr (show_deuda_status (du_status x))), (''unitCostMinor'', json_option JNum (du_unitCostMinor x)),
     (''saldadaAt'', json_option (\<lambda>t. JStr (to_iso t)) (du_saldadaAt x)),
     (''createdByMemberId'', JStr (du_createdByMemberId x)), (''createdAt'', JStr (to_iso (du_createdAt x))),
     (''abonos'', JArr (map json_abono (abonos_of d (ctx x) (rid x)))),
     (''cuotasPlaneadas'', JArr (map cuotaResponse (cuotas_of d (ctx x) (rid x))))]"

section \<open>The balance\<close>

definition assertWithinBalance :: "'d dinero_lib \<Rightarrow> int \<Rightarrow> int \<Rightarrow> int \<Rightarrow> int result" where
  "assertWithinBalance D paidMinor totalMinor montoMinor =
     (case minor_difference D totalMinor paidMinor of Inl e \<Rightarrow> Inl e
      | Inr remainingMinor \<Rightarrow>
          if montoMinor > remainingMinor
          then Inl (BadRequest (''Abono of '' @ show_int montoMinor @ '' exceeds the remaining balance of '' @ show_int remainingMinor))
          else Inr remainingMinor)"

section \<open>Creation\<close>

text \<open>What is stored for a client identity: the receipt when the request is the same.\<close>

definition deuda_replay :: "(string \<Rightarrow> string) \<Rightarrow> actor \<Rightarrow> create_deuda_dto \<Rightarrow> db \<Rightarrow> jsval option result" where
  "deuda_replay H actor dto d =
     (case cd_id dto of None \<Rightarrow> Inr None
      | Some i \<Rightarrow>
       (case find_row (act_contextId actor) i (deudas d) of None \<Rightarrow> Inr None
        | Some existing \<Rightarrow>
            if du_requestFingerprint existing \<noteq> Some (deuda_print H actor dto) \<or> du_creationResponse existing = None
            then Inl (Conflict (''Deuda '' @ i @ '' already exists with different data''))
            else Inr (du_creationResponse existing)))"

text \<open>The debtor: an existing one of the business, or a new row.\<close>

definition resolve_deudor :: "deuda_env \<Rightarrow> actor \<Rightarrow> create_deuda_dto \<Rightarrow> db \<Rightarrow> (uuid \<times> deudor list) result" where
  "resolve_deudor env actor dto d =
     (case cd_deudorId dto of
        Some i \<Rightarrow>
          if find_row (act_contextId actor) i (deudores d) = None
          then Inl (BadRequest (''Deudor '' @ i @ '' does not exist in this context'')) else Inr (i, [])
      | None \<Rightarrow>
         (case cd_deudor dto of None \<Rightarrow> Inl (Internal ''no deudor'')
          | Some x \<Rightarrow>
              let r = \<lparr>rid = de_ids env 0, ctx = act_contextId actor, dr_nombre = di_nombre x,
                       dr_telefono = di_telefono x, dr_notas = di_notas x\<rparr> in
              (case insert_row ''Deudor'' r (deudores d) of Inl e \<Rightarrow> Inl e | Inr _ \<Rightarrow> Inr (rid r, [r]))))"

definition deuda_product :: "create_deuda_dto \<Rightarrow> string \<Rightarrow> db \<Rightarrow> product result" where
  "deuda_product dto c d =
     (case find_row c (cd_productId dto) (products d) of
        None \<Rightarrow> Inl (BadRequest (''Product '' @ cd_productId dto @ '' does not exist in this context''))
      | Some p \<Rightarrow>
          if \<not> p_active p
          then Inl (BadRequest (''Product '' @ cd_productId dto @ '' is deactivated and cannot be used for a new deuda''))
          else if cd_cantidad dto > p_stock p
          then Inl (BadRequest (''Insufficient stock for product '' @ cd_productId dto))
          else Inr p)"

definition new_deuda ::
  "(string \<Rightarrow> string) \<Rightarrow> deuda_env \<Rightarrow> actor \<Rightarrow> create_deuda_dto \<Rightarrow> uuid \<Rightarrow> uuid \<Rightarrow> product \<Rightarrow> int \<Rightarrow> deuda"
where
  "new_deuda H env actor dto memberId deudorId p totalMinor =
     (let settled = 0 < cd_abonoInicialMinor dto \<and> cd_abonoInicialMinor dto \<ge> totalMinor in
      \<lparr>rid = (case cd_id dto of None \<Rightarrow> de_ids env 1 | Some i \<Rightarrow> i), ctx = act_contextId actor,
       du_requestFingerprint = (case cd_id dto of None \<Rightarrow> None | Some _ \<Rightarrow> Some (deuda_print H actor dto)),
       du_creationResponse = None, du_type = cd_type dto, du_deudorId = deudorId, du_productId = rid p,
       du_cantidad = cd_cantidad dto, du_totalMinor = totalMinor, du_status = (if settled then Saldada else Pendiente),
       du_unitCostMinor = p_purchaseCostMinor p, du_saldadaAt = (if settled then Some (de_now env) else None),
       du_createdByMemberId = memberId, du_createdAt = de_createdAt env\<rparr>)"

definition initial_abono :: "deuda_env \<Rightarrow> actor \<Rightarrow> create_deuda_dto \<Rightarrow> uuid \<Rightarrow> uuid \<Rightarrow> abono list" where
  "initial_abono env actor dto memberId deudaId =
     (if 0 < cd_abonoInicialMinor dto
      then [\<lparr>rid = de_ids env 2, ctx = act_contextId actor, ab_deudaId = deudaId, ab_montoMinor = cd_abonoInicialMinor dto,
             ab_receivedByMemberId = memberId, ab_receivedAt = de_now env, ab_nota = None,
             ab_paymentMethod = resolvePaymentMethod (cd_abonoInicialPaymentMethod dto)\<rparr>]
      else [])"

definition planned_cuotas :: "deuda_env \<Rightarrow> actor \<Rightarrow> create_deuda_dto \<Rightarrow> uuid \<Rightarrow> cuota list" where
  "planned_cuotas env actor dto deudaId = map (\<lambda>(k, q). \<lparr>rid = de_ids env k, ctx = act_contextId actor,
     cu_deudaId = deudaId, cu_fechaEsperada = utc_date (ci_fechaEsperada q),
     cu_montoEsperadoMinor = ci_montoEsperadoMinor q, cu_createdAt = de_createdAt env\<rparr>) (enumerate 3 (cd_cuotasPlaneadas dto))"

text \<open>The inserts, in the order of the code.\<close>

definition store_deuda :: "deudor list \<Rightarrow> deuda \<Rightarrow> abono list \<Rightarrow> cuota list \<Rightarrow> db \<Rightarrow> db result" where
  "store_deuda newDeudor x as qs d =
     (case insert_rows ''Deudor'' newDeudor (deudores d) of Inl e \<Rightarrow> Inl e
      | Inr drs \<Rightarrow> (case insert_row ''Deuda'' x (deudas d) of Inl e \<Rightarrow> Inl e
        | Inr ds \<Rightarrow> (case insert_rows ''Abono'' as (abonos d) of Inl e \<Rightarrow> Inl e
          | Inr abs' \<Rightarrow> (case insert_rows ''CuotaPlaneada'' qs (cuotas d) of Inl e \<Rightarrow> Inl e
            | Inr cs \<Rightarrow> Inr (d\<lparr>deudores := drs, deudas := ds, abonos := abs', cuotas := cs\<rparr>)))))"

text \<open>The receipt is frozen in the row when the client named it.\<close>

definition freeze :: "create_deuda_dto \<Rightarrow> deuda \<Rightarrow> db \<Rightarrow> jsval \<times> db" where
  "freeze dto x d =
     (let snapshot = deuda_response d x in
      case cd_id dto of None \<Rightarrow> (snapshot, d)
      | Some _ \<Rightarrow> (snapshot, d\<lparr>deudas := update_row (ctx x) (rid x) (\<lambda>y. y\<lparr>du_creationResponse := Some snapshot\<rparr>) (deudas d)\<rparr>))"

text \<open>
  The transaction: it checks, waits for the lock of the product (the others commit) and, with the lock,
  prices and writes; a concurrent insert of the same identity is the second wait. The result is flagged:
  \<open>True\<close> when a row was written, \<open>False\<close> for the early return with a stored receipt.
\<close>

definition deuda_tx ::
  "'d dinero_lib \<Rightarrow> (string \<Rightarrow> string) \<Rightarrow> deuda_env \<Rightarrow> actor \<Rightarrow> create_deuda_dto \<Rightarrow> db \<Rightarrow> (bool \<times> jsval) result \<times> db"
where
  "deuda_tx D H env actor dto d =
     (case authorize_actor d actor True of Inl e \<Rightarrow> (Inl e, d)
      | Inr (memberId, _) \<Rightarrow>
       (case deuda_replay H actor dto d of Inl e \<Rightarrow> (Inl e, d)
        | Inr (Some receipt) \<Rightarrow> (Inr (False, receipt), d)
        | Inr None \<Rightarrow>
         (case resolve_deudor env actor dto d of Inl e \<Rightarrow> (Inl e, d)
          | Inr (deudorId, newDeudor) \<Rightarrow>
            let d1 = de_others env 1 d in
            (case deuda_product dto (act_contextId actor) d1 of Inl e \<Rightarrow> (Inl e, d1)
             | Inr p \<Rightarrow>
               (case minor_product D (p_unitPriceMinor p) (cd_cantidad dto) of Inl e \<Rightarrow> (Inl e, d1)
                | Inr totalMinor \<Rightarrow>
                  (case (if 0 < cd_abonoInicialMinor dto then assertWithinBalance D 0 totalMinor (cd_abonoInicialMinor dto) else Inr 0) of
                     Inl e \<Rightarrow> (Inl e, d1)
                   | Inr _ \<Rightarrow>
                     let upd = [(rid p, p_stock p - cd_cantidad dto)];
                         d2 = others_commit upd (de_others env 2) d1;
                         x = new_deuda H env actor dto memberId deudorId p totalMinor in
                     (case store_deuda newDeudor x (initial_abono env actor dto memberId (rid x))
                             (planned_cuotas env actor dto (rid x)) (apply_updates (act_contextId actor) upd d2) of
                        Inl e \<Rightarrow> (Inl e, d2)
                      | Inr d3 \<Rightarrow> let (receipt, d4) = freeze dto x d3 in (Inr (True, receipt), d4))))))))"

definition isDebtIdConflict :: "failure \<Rightarrow> bool" where
  "isDebtIdConflict e \<longleftrightarrow> e = UniqueViolation ''Deuda''"

definition createDeuda ::
  "'d dinero_lib \<Rightarrow> (string \<Rightarrow> string) \<Rightarrow> deuda_env \<Rightarrow> actor \<Rightarrow> create_deuda_dto \<Rightarrow> db \<Rightarrow> (bool \<times> jsval) result \<times> db"
where
  "createDeuda D H env actor dto d =
     (if (cd_deudorId dto \<noteq> None) = (cd_deudor dto \<noteq> None)
      then (Inl (BadRequest ''Exactly one of deudorId or deudor must be provided''), d)
      else
       (case deuda_tx D H env actor dto d of
          (Inr out, d1) \<Rightarrow> (Inr out, d1)
        | (Inl e, d1) \<Rightarrow>
            if cd_id dto = None \<or> \<not> isBadRequest e \<and> \<not> isDebtIdConflict e then (Inl e, d1)
            else
              let d2 = de_others env 3 d1 in
              (case authorize_actor d2 actor True of Inl e2 \<Rightarrow> (Inl e2, d2)
               | Inr _ \<Rightarrow>
                (case deuda_replay H actor dto d2 of Inl e2 \<Rightarrow> (Inl e2, d2)
                 | Inr (Some receipt) \<Rightarrow> (Inr (False, receipt), d2)
                 | Inr None \<Rightarrow>
                     (if isDebtIdConflict e then Inl (Conflict ''Debt creation ID is unavailable'') else Inl e, d2)))))"

section \<open>Payments\<close>

text \<open>\<open>findFirst({where: {id, createdByMember: {contextId}}})\<close>, in the context of the caller.\<close>

definition deuda_of :: "db \<Rightarrow> string \<Rightarrow> uuid \<Rightarrow> deuda option" where
  "deuda_of d c i =
     (case find_row c i (deudas d) of None \<Rightarrow> None
      | Some x \<Rightarrow> if \<exists>m \<in> set (members d). rid m = du_createdByMemberId x \<and> ctx m = c then Some x else None)"

text \<open>\<open>aggregate({_sum: {montoMinor}})\<close> over the payments of the debt, 0 where there are none.\<close>

definition deuda_paid :: "db \<Rightarrow> string \<Rightarrow> uuid \<Rightarrow> int" where
  "deuda_paid d c i = sum_list (map ab_montoMinor (abonos_of d c i))"

definition settle :: "instant \<Rightarrow> deuda \<Rightarrow> deuda" where
  "settle now x = x\<lparr>du_status := Saldada, du_saldadaAt := Some now\<rparr>"

text \<open>
  The debt is read before the lock of its row is granted (its total never changes) and the payments
  after it. \<open>de_others env 1\<close> is what is committed in between.
\<close>

definition registerAbono ::
  "'d dinero_lib \<Rightarrow> deuda_env \<Rightarrow> actor \<Rightarrow> uuid \<Rightarrow> create_abono_dto \<Rightarrow> db \<Rightarrow> jsval result \<times> db"
where
  "registerAbono D env actor deudaId dto d =
     (case authorize_actor d actor False of Inl e \<Rightarrow> (Inl e, d)
      | Inr (memberId, _) \<Rightarrow>
       (case deuda_of d (act_contextId actor) deudaId of None \<Rightarrow> (Inl (NotFound []), d)
        | Some existing \<Rightarrow>
          let d1 = de_others env 1 d; paidMinor = deuda_paid d1 (act_contextId actor) deudaId in
          (case assertWithinBalance D paidMinor (du_totalMinor existing) (aa_montoMinor dto) of Inl e \<Rightarrow> (Inl e, d1)
           | Inr _ \<Rightarrow>
             (case insert_row ''Abono'' \<lparr>rid = de_ids env 0, ctx = act_contextId actor, ab_deudaId = deudaId,
                     ab_montoMinor = aa_montoMinor dto, ab_receivedByMemberId = memberId,
                     ab_receivedAt = de_createdAt env, ab_nota = aa_nota dto,
                     ab_paymentMethod = resolvePaymentMethod (aa_paymentMethod dto)\<rparr> (abonos d1) of
                Inl e \<Rightarrow> (Inl e, d1)
              | Inr as \<Rightarrow>
                (case minor_sum D paidMinor (aa_montoMinor dto) of Inl e \<Rightarrow> (Inl e, d1)
                 | Inr newPaidMinor \<Rightarrow>
                   let d2 = d1\<lparr>abonos := as\<rparr>;
                       d3 = (if newPaidMinor \<ge> du_totalMinor existing
                             then d2\<lparr>deudas := update_row (act_contextId actor) deudaId (settle (de_now env)) (deudas d2)\<rparr>
                             else d2) in
                   (case find_row (act_contextId actor) deudaId (deudas d3) of
                      None \<Rightarrow> (Inl (NotFound []), d1)
                    | Some x \<Rightarrow> (Inr (deuda_response d3 x), d3)))))))"

section \<open>Installments\<close>

definition addCuota :: "deuda_env \<Rightarrow> actor \<Rightarrow> uuid \<Rightarrow> cuota_input \<Rightarrow> db \<Rightarrow> jsval result \<times> db" where
  "addCuota env actor deudaId dto = transaction (\<lambda>d.
     case authorize_actor d actor True of Inl e \<Rightarrow> Inl e
     | Inr _ \<Rightarrow>
       if deuda_of d (act_contextId actor) deudaId = None then Inl (NotFound [])
       else
         let q = \<lparr>rid = de_ids env 0, ctx = act_contextId actor, cu_deudaId = deudaId,
                  cu_fechaEsperada = utc_date (ci_fechaEsperada dto),
                  cu_montoEsperadoMinor = ci_montoEsperadoMinor dto, cu_createdAt = de_createdAt env\<rparr> in
         (case insert_row ''CuotaPlaneada'' q (cuotas d) of Inl e \<Rightarrow> Inl e
          | Inr qs \<Rightarrow> Inr (cuotaResponse q, d\<lparr>cuotas := qs\<rparr>)))"

definition find_cuota :: "actor \<Rightarrow> uuid \<Rightarrow> uuid \<Rightarrow> db \<Rightarrow> cuota option" where
  "find_cuota actor deudaId cuotaId d =
     find (\<lambda>q. rid q = cuotaId \<and> cu_deudaId q = deudaId \<and> ctx q = act_contextId actor) (cuotas d)"

definition edit_cuota :: "string option \<Rightarrow> int option \<Rightarrow> cuota \<Rightarrow> cuota" where
  "edit_cuota fecha monto q =
     (let q1 = (case fecha of None \<Rightarrow> q | Some f \<Rightarrow> q\<lparr>cu_fechaEsperada := utc_date f\<rparr>) in
      case monto of None \<Rightarrow> q1 | Some m \<Rightarrow> q1\<lparr>cu_montoEsperadoMinor := m\<rparr>)"

definition updateCuota ::
  "actor \<Rightarrow> uuid \<Rightarrow> uuid \<Rightarrow> string option \<Rightarrow> int option \<Rightarrow> db \<Rightarrow> jsval result \<times> db"
where
  "updateCuota actor deudaId cuotaId fecha monto = transaction (\<lambda>d.
     case authorize_actor d actor True of Inl e \<Rightarrow> Inl e
     | Inr _ \<Rightarrow>
       (case find_cuota actor deudaId cuotaId d of None \<Rightarrow> Inl (NotFound [])
        | Some q \<Rightarrow> Inr (cuotaResponse (edit_cuota fecha monto q),
            d\<lparr>cuotas := update_row (act_contextId actor) cuotaId (edit_cuota fecha monto) (cuotas d)\<rparr>)))"

definition deleteCuota :: "actor \<Rightarrow> uuid \<Rightarrow> uuid \<Rightarrow> db \<Rightarrow> jsval result \<times> db" where
  "deleteCuota actor deudaId cuotaId = transaction (\<lambda>d.
     case authorize_actor d actor True of Inl e \<Rightarrow> Inl e
     | Inr _ \<Rightarrow>
       (case find_cuota actor deudaId cuotaId d of None \<Rightarrow> Inl (NotFound [])
        | Some q \<Rightarrow> Inr (cuotaResponse q,
            d\<lparr>cuotas := [r \<leftarrow> cuotas d. \<not> (rid r = cuotaId \<and> ctx r = act_contextId actor)]\<rparr>)))"

definition findDeuda :: "db \<Rightarrow> string \<Rightarrow> uuid \<Rightarrow> jsval result" where
  "findDeuda d c i = (case deuda_of d c i of None \<Rightarrow> Inl (NotFound []) | Some x \<Rightarrow> Inr (deuda_response d x))"

end
