(* ===== verification/DeudaLaws.thy ===== *)
theory DeudaLaws
  imports Deudas SaleLaws
begin

text \<open>
  The books of the debts: what has been paid never exceeds what is owed and the status says whether it
  is all paid, under any sequence of requests and whatever other transactions commit while one waits.
\<close>

section \<open>The invariant\<close>

definition deuda_ok :: "db \<Rightarrow> deuda \<Rightarrow> bool" where
  "deuda_ok d x \<longleftrightarrow> int4 (du_totalMinor x) \<and> deuda_paid d (ctx x) (rid x) \<le> du_totalMinor x
     \<and> (du_status x = Saldada \<longleftrightarrow> deuda_paid d (ctx x) (rid x) = du_totalMinor x \<and> 0 < du_totalMinor x)"

text \<open>Payments are positive and belong to a debt of their business.\<close>

definition abono_ok :: "db \<Rightarrow> abono \<Rightarrow> bool" where
  "abono_ok d a \<longleftrightarrow> 0 < ab_montoMinor a \<and> find_row (ctx a) (ab_deudaId a) (deudas d) \<noteq> None"

definition deudas_ok :: "db \<Rightarrow> bool" where
  "deudas_ok d \<longleftrightarrow> distinct (map rid (deudas d)) \<and> list_all (deuda_ok d) (deudas d) \<and> list_all (abono_ok d) (abonos d)"

text \<open>Other transactions keep the books and change the total of no debt.\<close>

definition keeps_deudas :: "(db \<Rightarrow> db) \<Rightarrow> bool" where
  "keeps_deudas w \<longleftrightarrow> (\<forall>x. deudas_ok x \<longrightarrow> deudas_ok (w x)
     \<and> (\<forall>k i y. find_row k i (deudas x) = Some y \<longrightarrow>
          (\<exists>z. find_row k i (deudas (w x)) = Some z \<and> du_totalMinor z = du_totalMinor y)))"

definition deuda_env_ok :: "deuda_env \<Rightarrow> bool" where
  "deuda_env_ok env \<longleftrightarrow> (\<forall>k. keeps_deudas (de_others env k))"

definition deuda_alone :: "deuda_env \<Rightarrow> bool" where
  "deuda_alone env \<longleftrightarrow> (\<forall>k x. de_others env k x = x)"

lemma deuda_alone_ok: "deuda_alone env \<Longrightarrow> deuda_env_ok env"
  by (simp add: deuda_alone_def deuda_env_ok_def keeps_deudas_def)

lemma deuda_env_keeps: "deuda_env_ok env \<Longrightarrow> deudas_ok d \<Longrightarrow> deudas_ok (de_others env k d)"
  by (simp add: deuda_env_ok_def keeps_deudas_def)

lemma deuda_env_total:
  assumes "deuda_env_ok env" "deudas_ok d" "find_row c i (deudas d) = Some x"
  obtains y where "find_row c i (deudas (de_others env k d)) = Some y" "du_totalMinor y = du_totalMinor x"
  using assms unfolding deuda_env_ok_def keeps_deudas_def by blast

text \<open>The books are those of three tables: what touches no other table keeps them.\<close>

lemma deudas_ok_tables:
  assumes "deudas d' = deudas d" "abonos d' = abonos d"
  shows "deudas_ok d' = deudas_ok d"
proof -
  have "deuda_ok d' = deuda_ok d" by (rule ext) (simp add: deuda_ok_def deuda_paid_def abonos_of_def assms(2))
  moreover have "abono_ok d' = abono_ok d" by (rule ext) (simp add: abono_ok_def assms(1))
  ultimately show ?thesis by (simp add: deudas_ok_def assms)
qed

lemma others_commit_deudas:
  "keeps_deudas w \<Longrightarrow> deudas_ok d \<Longrightarrow> deudas_ok (others_commit upd w d)"
  by (simp add: others_commit_def keeps_deudas_def)

section \<open>Paying\<close>

lemma deuda_paid_snoc:
  assumes "abonos d' = abonos d @ as" "list_all (\<lambda>a. ab_deudaId a = j \<and> ctx a = k) as"
  shows "deuda_paid d' c i = deuda_paid d c i + (if c = k \<and> i = j then sum_list (map ab_montoMinor as) else 0)"
proof -
  have "[a \<leftarrow> as. ctx a = c \<and> ab_deudaId a = i] = (if c = k \<and> i = j then as else [])"
    using assms(2) by (induction as) auto
  then show ?thesis by (simp add: deuda_paid_def abonos_of_def in_context_def assms(1))
qed

lemma deuda_paid_nonneg: "deudas_ok d \<Longrightarrow> 0 \<le> deuda_paid d c i"
  unfolding deuda_paid_def
  by (rule sum_list_int_nonneg) (auto simp: abonos_of_def in_context_def deudas_ok_def list_all_iff abono_ok_def less_imp_le)

lemma assertWithinBalance_Inr:
  "dinero_laws D \<Longrightarrow> assertWithinBalance D paid owed monto = Inr r \<Longrightarrow> r = owed - paid \<and> monto \<le> owed - paid"
  by (auto simp: assertWithinBalance_def split: sum.splits if_splits dest: minor_difference_Inr)

lemma deuda_of_Some: "deuda_of d c i = Some x \<Longrightarrow> find_row c i (deudas d) = Some x"
  by (auto simp: deuda_of_def split: option.splits if_splits)

lemma registerAbono_Inr:
  assumes "registerAbono D env actor deudaId dto d = (Inr r, d')" "dinero_laws D"
  defines "c \<equiv> act_contextId actor" and "d1 \<equiv> de_others env 1 d"
  obtains existing a where
    "find_row c deudaId (deudas d) = Some existing" "aa_montoMinor dto \<le> du_totalMinor existing - deuda_paid d1 c deudaId"
    "ab_montoMinor a = aa_montoMinor dto" "ab_deudaId a = deudaId" "ctx a = c" "abonos d' = abonos d1 @ [a]"
    "d' = d1\<lparr>abonos := abonos d1 @ [a],
       deudas := (if deuda_paid d1 c deudaId + aa_montoMinor dto \<ge> du_totalMinor existing
                  then update_row c deudaId (settle (de_now env)) (deudas d1) else deudas d1)\<rparr>"
proof -
  from assms(1) obtain existing memberId remaining abs' newPaid where o: "deuda_of d c deudaId = Some existing"
      and w: "assertWithinBalance D (deuda_paid d1 c deudaId) (du_totalMinor existing) (aa_montoMinor dto) = Inr remaining"
      and i: "insert_row ''Abono'' \<lparr>rid = de_ids env 0, ctx = c, ab_deudaId = deudaId, ab_montoMinor = aa_montoMinor dto,
          ab_receivedByMemberId = memberId, ab_receivedAt = de_createdAt env, ab_nota = aa_nota dto,
          ab_paymentMethod = resolvePaymentMethod (aa_paymentMethod dto)\<rparr> (abonos d1) = Inr abs'"
      and s: "minor_sum D (deuda_paid d1 c deudaId) (aa_montoMinor dto) = Inr newPaid"
      and d': "d' = (if newPaid \<ge> du_totalMinor existing
          then d1\<lparr>abonos := abs', deudas := update_row c deudaId (settle (de_now env)) (deudas d1)\<rparr> else d1\<lparr>abonos := abs'\<rparr>)"
    unfolding registerAbono_def Let_def c_def d1_def
    by (auto split: sum.splits option.splits if_splits)
  from o have e: "find_row c deudaId (deudas d) = Some existing" by (rule deuda_of_Some)
  have "newPaid = deuda_paid d1 c deudaId + aa_montoMinor dto" using minor_sum_Inr [OF assms(2) s] .
  with assertWithinBalance_Inr [OF assms(2) w] insert_row_Inr [OF i] d' show thesis
    by (intro that [OF e, of "\<lparr>rid = de_ids env 0, ctx = c, ab_deudaId = deudaId,
          ab_montoMinor = aa_montoMinor dto, ab_receivedByMemberId = memberId, ab_receivedAt = de_createdAt env,
          ab_nota = aa_nota dto, ab_paymentMethod = resolvePaymentMethod (aa_paymentMethod dto)\<rparr>"]) simp_all
qed

lemma settle_simps [simp]:
  "rid (settle t x) = rid x" "ctx (settle t x) = ctx x" "du_totalMinor (settle t x) = du_totalMinor x"
  "du_status (settle t x) = Saldada" "du_creationResponse (settle t x) = du_creationResponse x"
  "du_requestFingerprint (settle t x) = du_requestFingerprint x"
  by (simp_all add: settle_def)

lemma find_row_map:
  assumes "\<And>r. rid (f r) = rid r \<and> ctx (f r) = ctx r"
  shows "find_row c i (map f rows) = map_option f (find_row c i rows)"
  using assms by (induction rows) (auto simp: find_row_def)

lemma registerAbono_ok:
  assumes "registerAbono D env actor deudaId dto d = (Inr r, d')" "dinero_laws D" "deuda_env_ok env" "deudas_ok d"
    and "1 \<le> aa_montoMinor dto"
  shows "deudas_ok d'"
  using assms(1,2)
proof (rule registerAbono_Inr)
  let ?c = "act_contextId actor" and ?d1 = "de_others env 1 d"
  fix existing a
  assume e: "find_row ?c deudaId (deudas d) = Some existing"
    and within: "aa_montoMinor dto \<le> du_totalMinor existing - deuda_paid ?d1 ?c deudaId"
    and a: "ab_montoMinor a = aa_montoMinor dto" "ab_deudaId a = deudaId" "ctx a = ?c" "abonos d' = abonos ?d1 @ [a]"
    and d': "d' = ?d1\<lparr>abonos := abonos ?d1 @ [a],
       deudas := (if deuda_paid ?d1 ?c deudaId + aa_montoMinor dto \<ge> du_totalMinor existing
                  then update_row ?c deudaId (settle (de_now env)) (deudas ?d1) else deudas ?d1)\<rparr>"
  have ok: "deudas_ok ?d1" by (rule deuda_env_keeps [OF assms(3,4)])
  from deuda_env_total [OF assms(3,4) e] obtain y where y: "find_row ?c deudaId (deudas ?d1) = Some y"
      "du_totalMinor y = du_totalMinor existing" .
  have paid: "deuda_paid d' k i = deuda_paid ?d1 k i + (if k = ?c \<and> i = deudaId then aa_montoMinor dto else 0)" for k i
    using deuda_paid_snoc [OF a(4), of deudaId ?c k i] a by simp
  let ?full = "deuda_paid ?d1 ?c deudaId + aa_montoMinor dto \<ge> du_totalMinor existing"
  let ?f = "\<lambda>x. if rid x = deudaId \<and> ctx x = ?c \<and> ?full then settle (de_now env) x else x"
  have rows: "deudas d' = map ?f (deudas ?d1)"
    by (simp add: d' update_row_def)
  have each: "deuda_ok d' (?f x)" if x: "x \<in> set (deudas ?d1)" for x
  proof -
    have okx: "deuda_ok ?d1 x" using ok x by (simp add: deudas_ok_def list_all_iff)
    show ?thesis
    proof (cases "rid x = deudaId \<and> ctx x = ?c")
      case True
      then have "find_row ?c deudaId (deudas ?d1) = Some x"
        using ok x by (intro find_row_distinct) (simp_all add: deudas_ok_def)
      with y have t: "du_totalMinor existing = du_totalMinor x" by simp
      have p: "deuda_paid d' (ctx x) (rid x) = deuda_paid ?d1 ?c deudaId + aa_montoMinor dto"
        using True paid by simp
      show ?thesis using okx True within t p assms(5) deuda_paid_nonneg [OF ok, of ?c deudaId] by (auto simp: deuda_ok_def)
    next
      case False
      then have "deuda_paid d' (ctx x) (rid x) = deuda_paid ?d1 (ctx x) (rid x)" using paid by auto
      with okx False show ?thesis by (auto simp: deuda_ok_def)
    qed
  qed
  have "find_row k i (deudas d') \<noteq> None" if "find_row k i (deudas ?d1) \<noteq> None" for k i
    using that unfolding rows by (subst find_row_map) auto
  then have "list_all (abono_ok d') (abonos d')"
    using ok a assms(5) y by (auto simp: deudas_ok_def abono_ok_def list_all_iff)
  moreover have "map rid (deudas d') = map rid (deudas ?d1)" by (simp add: rows)
  moreover have "list_all (deuda_ok d') (deudas d')"
    unfolding rows list_all_iff set_map using each by blast
  moreover have "distinct (map rid (deudas ?d1))" using ok by (simp add: deudas_ok_def)
  ultimately show ?thesis unfolding deudas_ok_def by metis
qed

section \<open>Creating\<close>

lemma deuda_product_Inr:
  "deuda_product dto c d = Inr p \<Longrightarrow> find_row c (cd_productId dto) (products d) = Some p \<and> p_active p \<and> cd_cantidad dto \<le> p_stock p"
  by (auto simp: deuda_product_def split: option.splits if_splits)

lemma store_deuda_Inr:
  assumes "store_deuda newDeudor x as qs d = Inr d'"
  shows "d' = d\<lparr>deudores := deudores d @ newDeudor, deudas := deudas d @ [x], abonos := abonos d @ as, cuotas := cuotas d @ qs\<rparr>
    \<and> rid x \<notin> rid ` set (deudas d)"
  using assms by (auto simp: store_deuda_def split: sum.splits dest!: insert_row_Inr insert_rows_Inr)

lemma deuda_tx_created:
  assumes "deuda_tx D H env actor dto d = (Inr (True, r), d')"
  obtains memberId device deudorId newDeudor p amount d2 x d3 where
    "authorize_actor d actor True = Inr (memberId, device)" "deuda_replay H actor dto d = Inr None"
    "find_row (act_contextId actor) (cd_productId dto) (products (de_others env 1 d)) = Some p" "p_active p"
    "cd_cantidad dto \<le> p_stock p" "minor_product D (p_unitPriceMinor p) (cd_cantidad dto) = Inr amount"
    "0 < cd_abonoInicialMinor dto \<Longrightarrow> is_ok (assertWithinBalance D 0 amount (cd_abonoInicialMinor dto))"
    "d2 = others_commit [(rid p, p_stock p - cd_cantidad dto)] (de_others env 2) (de_others env 1 d)"
    "x = new_deuda H env actor dto memberId deudorId p amount"
    "store_deuda newDeudor x (initial_abono env actor dto memberId (rid x)) (planned_cuotas env actor dto (rid x))
       (apply_updates (act_contextId actor) [(rid p, p_stock p - cd_cantidad dto)] d2) = Inr d3"
    "freeze dto x d3 = (r, d')"
proof -
  from assms obtain memberId device where au: "authorize_actor d actor True = Inr (memberId, device)"
    by (auto simp: deuda_tx_def split: sum.splits)
  with assms have re: "deuda_replay H actor dto d = Inr None"
    by (auto simp: deuda_tx_def split: sum.splits option.splits)
  from assms au re obtain deudorId newDeudor where de: "resolve_deudor env actor dto d = Inr (deudorId, newDeudor)"
    by (auto simp: deuda_tx_def split: sum.splits)
  note tx = assms [unfolded deuda_tx_def au re de sum.case prod.case option.case Let_def]
  from tx obtain p where p: "deuda_product dto (act_contextId actor) (de_others env 1 d) = Inr p"
    by (auto split: sum.splits)
  from tx [unfolded p sum.case] obtain amount where am: "minor_product D (p_unitPriceMinor p) (cd_cantidad dto) = Inr amount"
    by (auto split: sum.splits)
  from tx [unfolded p am sum.case] obtain ok where ab: "(if 0 < cd_abonoInicialMinor dto
      then assertWithinBalance D 0 amount (cd_abonoInicialMinor dto) else Inr 0) = Inr ok"
    by (auto split: sum.splits)
  from tx [unfolded p am ab sum.case] obtain d3 where st: "store_deuda newDeudor (new_deuda H env actor dto memberId deudorId p amount)
      (initial_abono env actor dto memberId (rid (new_deuda H env actor dto memberId deudorId p amount)))
      (planned_cuotas env actor dto (rid (new_deuda H env actor dto memberId deudorId p amount)))
      (apply_updates (act_contextId actor) [(rid p, p_stock p - cd_cantidad dto)]
        (others_commit [(rid p, p_stock p - cd_cantidad dto)] (de_others env 2) (de_others env 1 d))) = Inr d3"
    by (auto split: sum.splits)
  from tx [unfolded p am ab st sum.case] have fr: "freeze dto (new_deuda H env actor dto memberId deudorId p amount) d3 = (r, d')"
    by (auto split: prod.splits)
  have within: "is_ok (assertWithinBalance D 0 amount (cd_abonoInicialMinor dto))" if "0 < cd_abonoInicialMinor dto"
    using ab that by (simp add: is_ok_iff)
  from deuda_product_Inr [OF p] show thesis
    using that [OF au re _ _ _ am within refl refl st fr] by blast
qed

lemma new_deuda_simps [simp]:
  "ctx (new_deuda H env actor dto m i p a) = act_contextId actor"
  "du_totalMinor (new_deuda H env actor dto m i p a) = a"
  "du_unitCostMinor (new_deuda H env actor dto m i p a) = p_purchaseCostMinor p"
  "du_status (new_deuda H env actor dto m i p a) = (if 0 < cd_abonoInicialMinor dto \<and> cd_abonoInicialMinor dto \<ge> a then Saldada else Pendiente)"
  "du_requestFingerprint (new_deuda H env actor dto m i p a) = map_option (\<lambda>_. deuda_print H actor dto) (cd_id dto)"
  by (auto simp: new_deuda_def Let_def split: option.splits)

lemma initial_abono_paid:
  "0 \<le> cd_abonoInicialMinor dto \<Longrightarrow> sum_list (map ab_montoMinor (initial_abono env actor dto m i)) = cd_abonoInicialMinor dto"
  "list_all (\<lambda>a. ab_deudaId a = i \<and> ctx a = act_contextId actor) (initial_abono env actor dto m i)"
  "list_all (\<lambda>a. 0 < ab_montoMinor a) (initial_abono env actor dto m i)"
  by (auto simp: initial_abono_def)

text \<open>Changing what the books do not read keeps them.\<close>

lemma deudas_ok_map:
  assumes "deudas d' = map f (deudas d)" "abonos d' = abonos d"
    and f: "\<And>x. rid (f x) = rid x \<and> ctx (f x) = ctx x \<and> du_totalMinor (f x) = du_totalMinor x \<and> du_status (f x) = du_status x"
  shows "deudas_ok d' = deudas_ok d"
proof -
  have paid: "deuda_paid d' = deuda_paid d" by (intro ext) (simp add: deuda_paid_def abonos_of_def assms(2))
  have "deuda_ok d' (f x) = deuda_ok d x" for x by (simp add: deuda_ok_def paid f)
  moreover have "abono_ok d' a = abono_ok d a" for a
  proof -
    have "find_row (ctx a) (ab_deudaId a) (deudas d') = map_option f (find_row (ctx a) (ab_deudaId a) (deudas d))"
      unfolding assms(1) by (rule find_row_map) (simp add: f)
    then show ?thesis by (simp add: abono_ok_def)
  qed
  ultimately show ?thesis by (simp add: deudas_ok_def assms(1,2) list_all_iff o_def f)
qed

text \<open>A new debt enters sound books with what was paid at once.\<close>

lemma deudas_ok_insert:
  assumes "deudas_ok d" "rid x \<notin> rid ` set (deudas d)"
    and d': "deudas d' = deudas d @ [x]" "abonos d' = abonos d @ as"
    and "list_all (\<lambda>a. ab_deudaId a = rid x \<and> ctx a = ctx x) as" "list_all (\<lambda>a. 0 < ab_montoMinor a) as"
    and x: "int4 (du_totalMinor x)" "sum_list (map ab_montoMinor as) \<le> du_totalMinor x"
      "du_status x = Saldada \<longleftrightarrow> sum_list (map ab_montoMinor as) = du_totalMinor x \<and> 0 < du_totalMinor x"
  shows "deudas_ok d' \<and> deuda_paid d' (ctx x) (rid x) = sum_list (map ab_montoMinor as)"
proof -
  have paid: "deuda_paid d' c i = deuda_paid d c i + (if c = ctx x \<and> i = rid x then sum_list (map ab_montoMinor as) else 0)" for c i
    by (rule deuda_paid_snoc [OF d'(2) assms(5)])
  have none: "deuda_paid d c (rid x) = 0" for c
  proof -
    have "ab_deudaId a \<noteq> rid x" if "a \<in> set (abonos d)" for a
    proof -
      have "find_row (ctx a) (ab_deudaId a) (deudas d) \<noteq> None"
        using assms(1) that by (simp add: deudas_ok_def abono_ok_def list_all_iff)
      then obtain y where "find_row (ctx a) (ab_deudaId a) (deudas d) = Some y" by blast
      with assms(2) find_row_Some show ?thesis by (metis imageI)
    qed
    then have "abonos_of d c (rid x) = []" by (auto simp: abonos_of_def in_context_def filter_empty_conv)
    then show ?thesis by (simp add: deuda_paid_def)
  qed
  have "deuda_ok d' y" if "y \<in> set (deudas d)" for y
  proof -
    have "rid y \<noteq> rid x" using that assms(2) by (metis imageI)
    then show ?thesis using assms(1) that paid by (simp add: deudas_ok_def deuda_ok_def list_all_iff)
  qed
  moreover have "deuda_ok d' x" using x paid none by (simp add: deuda_ok_def)
  moreover have "abono_ok d' a" if "a \<in> set (abonos d)" for a
    using assms(1) that by (auto simp: deudas_ok_def abono_ok_def list_all_iff d' find_row_None)
  moreover have "abono_ok d' a" if "a \<in> set as" for a
    using assms(5,6) that by (auto simp: abono_ok_def list_all_iff d' find_row_None)
  ultimately show ?thesis using assms(1,2) paid none by (auto simp: deudas_ok_def list_all_iff d')
qed

lemma freeze_Pair:
  assumes "freeze dto x d = (r, d')"
  shows "r = deuda_response d x \<and> products d' = products d \<and> abonos d' = abonos d
    \<and> deudas d' = map (\<lambda>y. if cd_id dto \<noteq> None \<and> rid y = rid x \<and> ctx y = ctx x
         then y\<lparr>du_creationResponse := Some r\<rparr> else y) (deudas d)
    \<and> d' = d\<lparr>deudas := deudas d'\<rparr>"
  using assms by (auto simp: freeze_def Let_def update_row_def split: option.splits)

definition deuda_env_orderly :: "deuda_env \<Rightarrow> bool" where
  "deuda_env_orderly env \<longleftrightarrow> deuda_env_ok env \<and> (\<forall>k. orderly (de_others env k))"

lemma deuda_alone_orderly: "deuda_alone env \<Longrightarrow> deuda_env_orderly env"
  by (simp add: deuda_env_orderly_def deuda_alone_ok) (simp add: deuda_alone_def orderly_def)

definition valid_deuda :: "create_deuda_dto \<Rightarrow> bool" where
  "valid_deuda dto \<longleftrightarrow> 1 \<le> cd_cantidad dto \<and> cd_cantidad dto \<le> 100000 \<and> 0 \<le> cd_abonoInicialMinor dto"

text \<open>The product a debt takes, and what the creation does to the books.\<close>

definition reserved_for :: "string \<Rightarrow> create_deuda_dto \<Rightarrow> product \<Rightarrow> product" where
  "reserved_for k dto p = (if rid p = cd_productId dto \<and> ctx p = k then p\<lparr>p_stock := p_stock p - cd_cantidad dto\<rparr> else p)"

lemma apply_reserved:
  assumes "products_ok d" "find_row k (cd_productId dto) (products d) = Some p" "cd_cantidad dto \<le> p_stock p"
  shows "products (apply_updates k [(cd_productId dto, p_stock p - cd_cantidad dto)] d) = map (reserved_for k dto) (products d)"
    "products_ok (apply_updates k [(cd_productId dto, p_stock p - cd_cantidad dto)] d)"
proof -
  have same: "q = p" if "q \<in> set (products d)" "rid q = cd_productId dto" "ctx q = k" for q
  proof -
    have "find_row k (cd_productId dto) (products d) = Some q"
      using assms(1) that by (intro find_row_distinct) (simp_all add: products_ok_def)
    with assms(2) show ?thesis by simp
  qed
  let ?upd = "[(cd_productId dto, p_stock p - cd_cantidad dto)]"
  have "(if ctx q = k then (case map_of ?upd (rid q) of None \<Rightarrow> q | Some s \<Rightarrow> q\<lparr>p_stock := s\<rparr>) else q) = reserved_for k dto q"
    if "q \<in> set (products d)" for q
    using same [OF that] by (cases "rid q = cd_productId dto \<and> ctx q = k") (auto simp: reserved_for_def)
  then show rows: "products (apply_updates k ?upd d) = map (reserved_for k dto) (products d)"
    by (simp add: apply_updates_def)
  have ids: "map rid (map (reserved_for k dto) (products d)) = map rid (products d)" by (simp add: reserved_for_def)
  have "0 \<le> p_stock (reserved_for k dto q) \<and> 0 \<le> p_unitPriceMinor (reserved_for k dto q)" if "q \<in> set (products d)" for q
    using that same [OF that] assms(1,3)
    by (cases "rid q = cd_productId dto \<and> ctx q = k") (auto simp: reserved_for_def products_ok_def list_all_iff)
  then have "list_all (\<lambda>q. 0 \<le> p_stock q \<and> 0 \<le> p_unitPriceMinor q) (map (reserved_for k dto) (products d))"
    by (simp add: list_all_iff)
  with assms(1) ids show "products_ok (apply_updates k ?upd d)"
    unfolding products_ok_def rows by metis
qed

lemma deuda_tx_stores:
  assumes "deuda_tx D H env actor dto d = (Inr (True, r), d')" "dinero_laws D" "valid_deuda dto"
    and "deuda_env_orderly env" "products_ok d" "deudas_ok d"
  shows "products_ok d' \<and> deudas_ok d' \<and> (\<exists>c x. (deuda_alone env \<longrightarrow> c = d)
    \<and> products d' = map (reserved_for (act_contextId actor) dto) (products c)
    \<and> rid x \<notin> rid ` set (deudas c) \<and> find_row (act_contextId actor) (rid x) (deudas d') = Some x
    \<and> (\<forall>i. cd_id dto = Some i \<longrightarrow> rid x = i \<and> du_requestFingerprint x = Some (deuda_print H actor dto) \<and> du_creationResponse x = Some r)
    \<and> du_totalMinor x = price_of (act_contextId actor) c (cd_productId dto) * cd_cantidad dto
    \<and> du_unitCostMinor x = cost_of (act_contextId actor) c (cd_productId dto)
    \<and> deuda_paid d' (act_contextId actor) (rid x) = cd_abonoInicialMinor dto)"
  using assms(1)
proof (rule deuda_tx_created)
  let ?k = "act_contextId actor" and ?d1 = "de_others env 1 d"
  fix memberId device deudorId newDeudor and p :: product and amount d2 and x0 :: deuda and d3
  let ?upd = "[(rid p, p_stock p - cd_cantidad dto)]"
  let ?as = "initial_abono env actor dto memberId (rid x0)"
  assume p: "find_row ?k (cd_productId dto) (products ?d1) = Some p" "p_active p" "cd_cantidad dto \<le> p_stock p"
    and am: "minor_product D (p_unitPriceMinor p) (cd_cantidad dto) = Inr amount"
    and within: "0 < cd_abonoInicialMinor dto \<Longrightarrow> is_ok (assertWithinBalance D 0 amount (cd_abonoInicialMinor dto))"
    and d2: "d2 = others_commit ?upd (de_others env 2) ?d1"
    and x0: "x0 = new_deuda H env actor dto memberId deudorId p amount"
    and st: "store_deuda newDeudor x0 ?as (planned_cuotas env actor dto (rid x0)) (apply_updates ?k ?upd d2) = Inr d3"
    and fr: "freeze dto x0 d3 = (r, d')"
  have orderly: "orderly (de_others env k)" and keeps: "keeps_deudas (de_others env k)" for k
    using assms(4) by (simp_all add: deuda_env_orderly_def deuda_env_ok_def)
  have prods1: "products_ok ?d1" and books1: "deudas_ok ?d1"
    using orderly keeps assms(5,6) by (simp_all add: orderly_def keeps_deudas_def)
  have prods2: "products_ok d2" unfolding d2 by (rule others_commit_ok [OF prods1 orderly])
  have books2: "deudas_ok d2" unfolding d2 by (rule others_commit_deudas [OF keeps books1])
  have pid: "rid p = cd_productId dto" using find_row_Some [OF p(1)] by simp
  have p2: "find_row ?k (cd_productId dto) (products d2) = Some p"
    unfolding d2 by (rule others_commit_locked [OF prods1 orderly p(1)]) (simp add: pid)
  have price: "0 \<le> p_unitPriceMinor p" using prods1 find_row_Some [OF p(1)] by (simp add: products_ok_def list_all_iff)
  have "amount = p_unitPriceMinor p * cd_cantidad dto \<and> int4 amount"
    by (rule minor_product_Inr [OF assms(2) am]) (use assms(3) in \<open>simp_all add: valid_deuda_def\<close>)
  then have amount: "amount = p_unitPriceMinor p * cd_cantidad dto" "int4 amount" by blast+
  have nonneg: "0 \<le> amount" using price assms(3) by (simp add: amount(1) valid_deuda_def)
  have initial: "cd_abonoInicialMinor dto \<le> amount"
  proof (cases "0 < cd_abonoInicialMinor dto")
    case True
    from within [OF True] obtain z where "assertWithinBalance D 0 amount (cd_abonoInicialMinor dto) = Inr z"
      by (auto simp: is_ok_iff)
    from assertWithinBalance_Inr [OF assms(2) this] show ?thesis by simp
  next
    case False
    with nonneg show ?thesis by simp
  qed
  have init: "0 \<le> cd_abonoInicialMinor dto" using assms(3) by (simp add: valid_deuda_def)
  note stored = store_deuda_Inr [OF st] note frozen = freeze_Pair [OF fr]
  let ?c = "apply_updates ?k ?upd d2"
  have ctx0: "ctx x0 = ?k" by (simp add: x0)
  have rows3: "deudas d3 = deudas d2 @ [x0]" "abonos d3 = abonos d2 @ ?as" "products d3 = products ?c"
    and new: "rid x0 \<notin> rid ` set (deudas d2)"
    using stored by (simp_all add: apply_updates_def)
  have books3: "deudas_ok d3 \<and> deuda_paid d3 (ctx x0) (rid x0) = sum_list (map ab_montoMinor ?as)"
  proof (rule deudas_ok_insert [OF books2 new rows3(1,2)])
    show "list_all (\<lambda>a. ab_deudaId a = rid x0 \<and> ctx a = ctx x0) ?as" by (simp add: ctx0 initial_abono_paid(2))
    show "list_all (\<lambda>a. 0 < ab_montoMinor a) ?as" by (rule initial_abono_paid(3))
    show "int4 (du_totalMinor x0)" "sum_list (map ab_montoMinor ?as) \<le> du_totalMinor x0"
      "(du_status x0 = Saldada) = (sum_list (map ab_montoMinor ?as) = du_totalMinor x0 \<and> 0 < du_totalMinor x0)"
      using amount(2) initial init by (auto simp: initial_abono_paid(1) x0)
  qed
  note reserve = apply_reserved [OF prods2 p2 p(3)]
  have products': "products d' = map (reserved_for ?k dto) (products d2)"
    using frozen rows3(3) reserve(1) by (simp add: pid)
  have "products_ok d'" using reserve(2) frozen rows3(3) by (simp add: products_ok_def pid)
  moreover have "deudas_ok d'"
    using books3 deudas_ok_map [of d' "\<lambda>y. if cd_id dto \<noteq> None \<and> rid y = rid x0 \<and> ctx y = ctx x0
        then y\<lparr>du_creationResponse := Some r\<rparr> else y" d3] frozen by simp
  moreover have "\<exists>c x. (deuda_alone env \<longrightarrow> c = d)
    \<and> products d' = map (reserved_for ?k dto) (products c)
    \<and> rid x \<notin> rid ` set (deudas c) \<and> find_row ?k (rid x) (deudas d') = Some x
    \<and> (\<forall>i. cd_id dto = Some i \<longrightarrow> rid x = i \<and> du_requestFingerprint x = Some (deuda_print H actor dto) \<and> du_creationResponse x = Some r)
    \<and> du_totalMinor x = price_of ?k c (cd_productId dto) * cd_cantidad dto
    \<and> du_unitCostMinor x = cost_of ?k c (cd_productId dto)
    \<and> deuda_paid d' ?k (rid x) = cd_abonoInicialMinor dto"
  proof -
    let ?f = "\<lambda>y. if cd_id dto \<noteq> None \<and> rid y = rid x0 \<and> ctx y = ctx x0 then y\<lparr>du_creationResponse := Some r\<rparr> else y"
    have "insert_row m x0 (deudas d2) = Inr (deudas d3)" for m using new rows3(1) by (simp add: insert_row_def)
    from find_row_insert [OF this] ctx0 have f3: "find_row ?k (rid x0) (deudas d3) = Some x0" by simp
    have "find_row ?k (rid x0) (deudas d') = map_option ?f (find_row ?k (rid x0) (deudas d3))"
      using frozen by (simp add: find_row_map)
    then have f': "find_row ?k (rid x0) (deudas d') = Some (?f x0)" by (simp add: f3)
    have paid: "deuda_paid d' ?k (rid x0) = cd_abonoInicialMinor dto"
      using books3 frozen init by (simp add: ctx0 initial_abono_paid(1) deuda_paid_def abonos_of_def)
    have "rid x0 = i" if "cd_id dto = Some i" for i using that by (simp add: x0 new_deuda_def Let_def)
    moreover have "d2 = d" if "deuda_alone env" using that by (simp add: d2 deuda_alone_def others_commit_def)
    moreover have "price_of ?k d2 (cd_productId dto) = p_unitPriceMinor p" "cost_of ?k d2 (cd_productId dto) = p_purchaseCostMinor p"
      by (simp_all add: price_of_def cost_of_def p2)
    ultimately show ?thesis
      using f' paid new products' amount(1)
      by (intro exI [of _ d2] exI [of _ "?f x0"]) (auto simp: x0)
  qed
  ultimately show ?thesis by blast
qed

end
