(* ===== verification/DeudaBooks.thy ===== *)
theory DeudaBooks
  imports DeudaLaws
begin

text \<open>
  The promises of the debts: what a creation stores, what the books look like after any sequence of
  requests, and that a creation a tablet repeats is executed once.
\<close>

section \<open>Creation\<close>

lemma createDeuda_created:
  assumes "createDeuda D H env actor dto d = (Inr (True, r), d')"
  shows "deuda_tx D H env actor dto d = (Inr (True, r), d') \<and> (cd_deudorId dto \<noteq> None) \<noteq> (cd_deudor dto \<noteq> None)"
  using assms by (auto simp: createDeuda_def Let_def split: if_splits prod.splits sum.splits option.splits)


section \<open>Sequences of requests\<close>

datatype deuda_request =
    NewDeuda deuda_env actor create_deuda_dto
  | NewAbono deuda_env actor uuid create_abono_dto
  | NewCuota deuda_env actor uuid cuota_input
  | EditCuota actor uuid uuid "string option" "int option"
  | DropCuota actor uuid uuid

fun serve_deuda :: "'d dinero_lib \<Rightarrow> (string \<Rightarrow> string) \<Rightarrow> deuda_request \<Rightarrow> db \<Rightarrow> db" where
  "serve_deuda D H (NewDeuda env actor dto) d = snd (createDeuda D H env actor dto d)"
| "serve_deuda D H (NewAbono env actor i dto) d = snd (registerAbono D env actor i dto d)"
| "serve_deuda D H (NewCuota env actor i dto) d = snd (addCuota env actor i dto d)"
| "serve_deuda D H (EditCuota actor i j fecha monto) d = snd (updateCuota actor i j fecha monto d)"
| "serve_deuda D H (DropCuota actor i j) d = snd (deleteCuota actor i j d)"

fun serve_deudas :: "'d dinero_lib \<Rightarrow> (string \<Rightarrow> string) \<Rightarrow> deuda_request list \<Rightarrow> db \<Rightarrow> db" where
  "serve_deudas D H [] d = d"
| "serve_deudas D H (q # qs) d = serve_deudas D H qs (serve_deuda D H q d)"

text \<open>What the validation of the bodies lets through, in an environment that keeps the books.\<close>

fun valid_deuda_request :: "deuda_request \<Rightarrow> bool" where
  "valid_deuda_request (NewDeuda env actor dto) \<longleftrightarrow> valid_deuda dto \<and> deuda_env_orderly env"
| "valid_deuda_request (NewAbono env actor i dto) \<longleftrightarrow> 1 \<le> aa_montoMinor dto \<and> deuda_env_orderly env"
| "valid_deuda_request _ \<longleftrightarrow> True"

definition deuda_books :: "db \<Rightarrow> bool" where
  "deuda_books d \<longleftrightarrow> products_ok d \<and> deudas_ok d"

lemma deuda_books_others: "deuda_env_orderly env \<Longrightarrow> deuda_books d \<Longrightarrow> deuda_books (de_others env k d)"
  by (simp add: deuda_books_def deuda_env_orderly_def deuda_env_keeps orderly_def)

lemma deuda_books_commit: "deuda_env_orderly env \<Longrightarrow> deuda_books d \<Longrightarrow> deuda_books (others_commit upd (de_others env k) d)"
  by (simp add: others_commit_def deuda_books_others)

lemma deuda_books_tables:
  "products d' = products d \<Longrightarrow> deudas d' = deudas d \<Longrightarrow> abonos d' = abonos d \<Longrightarrow> deuda_books d' = deuda_books d"
  using deudas_ok_tables [of d' d] by (simp add: deuda_books_def products_ok_def)

text \<open>A transaction that is rolled back or answers from what is stored leaves the books to the others.\<close>

lemma deuda_tx_states:
  "(\<exists>r. fst (deuda_tx D H env actor dto d) = Inr (True, r)) \<or> snd (deuda_tx D H env actor dto d) = d
   \<or> snd (deuda_tx D H env actor dto d) = de_others env 1 d
   \<or> (\<exists>upd. snd (deuda_tx D H env actor dto d) = others_commit upd (de_others env 2) (de_others env 1 d))"
proof (cases "authorize_actor d actor True")
  case (Inr origin)
  note au = this
  show ?thesis
  proof (cases "deuda_replay H actor dto d")
    case (Inr found)
    note re = this
    show ?thesis
    proof (cases "found = None \<and> is_ok (resolve_deudor env actor dto d)")
      case True
      then obtain de where de: "resolve_deudor env actor dto d = Inr de" by (auto simp: is_ok_iff)
      show ?thesis
      proof (cases "deuda_product dto (act_contextId actor) (de_others env 1 d)")
        case (Inr p)
        note pr = this
        show ?thesis
        proof (cases "minor_product D (p_unitPriceMinor p) (cd_cantidad dto)")
          case (Inr amount)
          note unfolded = au re de pr this True
          show ?thesis
            by (cases "if 0 < cd_abonoInicialMinor dto then assertWithinBalance D 0 amount (cd_abonoInicialMinor dto) else Inr 0")
              (auto simp del: One_nat_def simp: deuda_tx_def unfolded Let_def split: prod.splits sum.splits)
        qed (simp del: One_nat_def add: deuda_tx_def au re de pr True Let_def split: prod.split)
      qed (simp del: One_nat_def add: deuda_tx_def au re de True Let_def split: prod.split)
    next
      case False
      then show ?thesis
        by (cases "found"; cases "resolve_deudor env actor dto d") (auto simp del: One_nat_def simp: deuda_tx_def au re split: prod.split)
    qed
  qed (simp del: One_nat_def add: deuda_tx_def au split: prod.split)
qed (simp del: One_nat_def add: deuda_tx_def)

lemma deuda_tx_books:
  assumes "deuda_tx D H env actor dto d = (out, d')" "deuda_env_orderly env" "deuda_books d"
    and "\<And>r. out \<noteq> Inr (True, r)"
  shows "deuda_books d'"
  using deuda_tx_states [of D H env actor dto d] assms by (auto simp: deuda_books_others deuda_books_commit)

lemma createDeuda_books:
  assumes "dinero_laws D" "valid_deuda dto" "deuda_env_orderly env" "deuda_books d"
  shows "deuda_books (snd (createDeuda D H env actor dto d))"
proof -
  obtain out d1 where tx: "deuda_tx D H env actor dto d = (out, d1)" by fastforce
  have "deuda_books d1"
  proof (cases "\<exists>r. out = Inr (True, r)")
    case True
    then obtain r where "out = Inr (True, r)" by blast
    with deuda_tx_stores [of D H env actor dto d r d1] tx assms show ?thesis by (simp add: deuda_books_def)
  next
    case False
    with deuda_tx_books [OF tx assms(3,4)] show ?thesis by blast
  qed
  then have "deuda_books d1" "deuda_books (de_others env 3 d1)" using deuda_books_others [OF assms(3)] by blast+
  with assms(4) tx show ?thesis
    by (auto simp: createDeuda_def Let_def split: sum.splits option.splits)
qed

lemma registerAbono_books:
  assumes "dinero_laws D" "1 \<le> aa_montoMinor dto" "deuda_env_orderly env" "deuda_books d"
  shows "deuda_books (snd (registerAbono D env actor i dto d))"
proof -
  obtain out d' where run: "registerAbono D env actor i dto d = (out, d')" by fastforce
  have others: "deuda_books (de_others env 1 d)" by (rule deuda_books_others [OF assms(3,4)])
  show ?thesis
  proof (cases out)
    case (Inr r)
    from run Inr have ok: "registerAbono D env actor i dto d = (Inr r, d')" by simp
    from ok assms(1) have "products d' = products (de_others env 1 d)"
      by (rule registerAbono_Inr) simp
    moreover have "deudas_ok d'"
      using registerAbono_ok [OF ok assms(1)] assms(2-4) by (simp add: deuda_env_orderly_def deuda_books_def)
    ultimately show ?thesis using others run by (simp add: deuda_books_def products_ok_def)
  next
    case (Inl e)
    then have "d' = d \<or> d' = de_others env 1 d"
      using run by (auto simp: registerAbono_def Let_def split: sum.splits option.splits prod.splits if_splits)
    with others assms(4) run show ?thesis by auto
  qed
qed

lemma cuota_tables:
  "products (snd (addCuota env actor i dto d)) = products d \<and> deudas (snd (addCuota env actor i dto d)) = deudas d
     \<and> abonos (snd (addCuota env actor i dto d)) = abonos d"
  "products (snd (updateCuota actor i j fecha monto d)) = products d \<and> deudas (snd (updateCuota actor i j fecha monto d)) = deudas d
     \<and> abonos (snd (updateCuota actor i j fecha monto d)) = abonos d"
  "products (snd (deleteCuota actor i j d)) = products d \<and> deudas (snd (deleteCuota actor i j d)) = deudas d
     \<and> abonos (snd (deleteCuota actor i j d)) = abonos d"
  by (simp_all add: addCuota_def updateCuota_def deleteCuota_def transaction_def Let_def split: sum.split option.split)

lemma cuota_books:
  "deuda_books (snd (addCuota env actor i dto d)) = deuda_books d"
  "deuda_books (snd (updateCuota actor i j fecha monto d)) = deuda_books d"
  "deuda_books (snd (deleteCuota actor i j d)) = deuda_books d"
  by (rule deuda_books_tables; simp add: cuota_tables)+

lemma serve_deuda_books:
  "dinero_laws D \<Longrightarrow> valid_deuda_request q \<Longrightarrow> deuda_books d \<Longrightarrow> deuda_books (serve_deuda D H q d)"
  by (cases q) (simp_all add: createDeuda_books registerAbono_books cuota_books)

text \<open>C18: the books of the debts stay sound under any sequence of validated creations, payments and changes of
  the schedule, executed, replayed or refused and interleaved with transactions that keep the books: every
  debt has been paid at most its total, payments are positive and name a debt of their business, a debt is
  settled exactly when its total is not zero and paid in full, and no stock is negative.\<close>

theorem deudas_invariant:
  assumes "dinero_laws D" "list_all valid_deuda_request requests" "deuda_books d"
  shows "deuda_books (serve_deudas D H requests d)"
  using assms(2,3)
  by (induction requests arbitrary: d) (simp_all add: serve_deuda_books [OF assms(1)])

section \<open>Repeated creations\<close>

text \<open>The creation a tablet repeats: with an identity of the client, while nobody else commits.\<close>

definition deuda_isolated :: "deuda_env \<Rightarrow> deuda_env" where
  "deuda_isolated env = env\<lparr>de_others := (\<lambda>k x. x)\<rparr>"

lemma deuda_isolated_others [simp]: "de_others (deuda_isolated env) k x = x"
  by (simp add: deuda_isolated_def)

definition post_deuda ::
  "'d dinero_lib \<Rightarrow> (string \<Rightarrow> string) \<Rightarrow> deuda_env \<Rightarrow> actor \<times> uuid \<times> create_deuda_dto \<Rightarrow> db \<Rightarrow> (bool \<times> jsval) result \<times> db"
where
  "post_deuda D H env q = (case q of (actor, i, dto) \<Rightarrow> createDeuda D H (deuda_isolated env) actor (dto\<lparr>cd_id := Some i\<rparr>))"

text \<open>What is on record for the identity: the fingerprint, and whether a receipt is stored.\<close>

definition deuda_record :: "actor \<times> uuid \<times> create_deuda_dto \<Rightarrow> db \<Rightarrow> (string option \<times> bool) option" where
  "deuda_record q d = (case q of (actor, i, dto) \<Rightarrow>
     map_option (\<lambda>x. (du_requestFingerprint x, du_creationResponse x \<noteq> None)) (find_row (act_contextId actor) i (deudas d)))"

definition deuda_gate :: "actor \<times> uuid \<times> create_deuda_dto \<Rightarrow> db \<Rightarrow> bool" where
  "deuda_gate q d = (case q of (actor, i, dto) \<Rightarrow>
     (cd_deudorId dto \<noteq> None) \<noteq> (cd_deudor dto \<noteq> None) \<and> is_ok (authorize_actor d actor True))"

definition deuda_receipt :: "actor \<times> uuid \<times> create_deuda_dto \<Rightarrow> db \<Rightarrow> jsval" where
  "deuda_receipt q d = (case q of (actor, i, dto) \<Rightarrow>
     the (du_creationResponse (the (find_row (act_contextId actor) i (deudas d)))))"

definition deuda_mark :: "(string \<Rightarrow> string) \<Rightarrow> actor \<times> uuid \<times> create_deuda_dto \<Rightarrow> string option \<times> bool" where
  "deuda_mark H q = (case q of (actor, i, dto) \<Rightarrow> (Some (deuda_print H actor (dto\<lparr>cd_id := Some i\<rparr>)), True))"

lemma deuda_replay_on_record:
  "deuda_replay H actor (dto\<lparr>cd_id := Some i\<rparr>) d =
     (case deuda_record (actor, i, dto) d of None \<Rightarrow> Inr None
      | Some m \<Rightarrow> if m = deuda_mark H (actor, i, dto) then Inr (Some (deuda_receipt (actor, i, dto) d))
                  else Inl (Conflict (''Deuda '' @ i @ '' already exists with different data'')))"
  by (cases "find_row (act_contextId actor) i (deudas d)")
    (auto simp: deuda_replay_def deuda_record_def deuda_mark_def deuda_receipt_def)

lemma deuda_gate_iff:
  "deuda_gate (actor, i, dto) d \<longleftrightarrow> (cd_deudorId dto \<noteq> None) \<noteq> (cd_deudor dto \<noteq> None) \<and> is_ok (authorize_actor d actor True)"
  by (simp add: deuda_gate_def)

text \<open>What a stored creation leaves on record.\<close>

lemma deuda_tx_recorded:
  assumes "deuda_tx D H (deuda_isolated env) actor (dto\<lparr>cd_id := Some i\<rparr>) d = (Inr (True, r), d')"
  shows "is_ok (authorize_actor d' actor True) \<and> deuda_record (actor, i, dto) d = None
    \<and> deuda_record (actor, i, dto) d' = Some (deuda_mark H (actor, i, dto)) \<and> deuda_receipt (actor, i, dto) d' = r"
  using assms
proof (rule deuda_tx_created)
  let ?dto = "dto\<lparr>cd_id := Some i\<rparr>" and ?c = "act_contextId actor"
  fix memberId device deudorId newDeudor and p :: product and amount d2 and x :: deuda and d3
  let ?upd = "[(rid p, p_stock p - cd_cantidad ?dto)]"
  assume au: "authorize_actor d actor True = Inr (memberId, device)" and re: "deuda_replay H actor ?dto d = Inr None"
    and d2: "d2 = others_commit ?upd (de_others (deuda_isolated env) 2) (de_others (deuda_isolated env) 1 d)"
    and x: "x = new_deuda H (deuda_isolated env) actor ?dto memberId deudorId p amount"
    and st: "store_deuda newDeudor x (initial_abono (deuda_isolated env) actor ?dto memberId (rid x))
       (planned_cuotas (deuda_isolated env) actor ?dto (rid x)) (apply_updates ?c ?upd d2) = Inr d3"
    and fr: "freeze ?dto x d3 = (r, d')"
  have "d2 = d" unfolding d2 by (simp add: others_alone)
  note st = st [unfolded this]
  have x': "rid x = i" "ctx x = ?c" "du_requestFingerprint x = Some (deuda_print H actor ?dto)"
    by (simp_all add: x) (simp add: new_deuda_def Let_def)
  from store_deuda_Inr [OF st] have d3: "deudas d3 = deudas d @ [x]" "rid x \<notin> rid ` set (deudas d)"
    "accounts d3 = accounts d" "members d3 = members d" "devices d3 = devices d" by (simp_all add: apply_updates_def)
  from fr have d': "accounts d' = accounts d3" "members d' = members d3" "devices d' = devices d3"
    by (auto simp: freeze_def Let_def)
  have "insert_row m x (deudas d) = Inr (deudas d3)" for m using d3 by (simp add: insert_row_def)
  from find_row_insert [OF this] x' have "find_row ?c i (deudas d3) = Some x" by simp
  moreover have "find_row ?c i (deudas d') = map_option (\<lambda>y. if rid y = rid x \<and> ctx y = ctx x
      then y\<lparr>du_creationResponse := Some r\<rparr> else y) (find_row ?c i (deudas d3))"
    using freeze_Pair [OF fr] by (simp add: find_row_map)
  ultimately have "find_row ?c i (deudas d') = Some (x\<lparr>du_creationResponse := Some r\<rparr>)" by simp
  moreover have "deuda_record (actor, i, dto) d = None"
    using re unfolding deuda_replay_on_record by (auto split: option.splits if_splits)
  moreover have "authorize_actor d' actor True = authorize_actor d actor True"
    unfolding authorize_actor_def d' d3(3-5) by (rule refl)
  ultimately show ?thesis
    using au x' by (simp add: deuda_record_def deuda_mark_def deuda_receipt_def)
qed

lemma deuda_tx_isolated:
  assumes "deuda_tx D H (deuda_isolated env) actor dto d = (out, d')" "\<And>r. out \<noteq> Inr (True, r)"
  shows "d' = d"
  using deuda_tx_states [of D H "deuda_isolated env" actor dto d] assms by (auto simp: others_alone)

text \<open>The early return is the only answer without a new row.\<close>

lemma deuda_tx_created_flag:
  "deuda_replay H actor dto d = Inr None \<Longrightarrow> deuda_tx D H env actor dto d \<noteq> (Inr (False, r), d')"
  by (auto simp: deuda_tx_def Let_def split: sum.splits prod.splits)

lemma deuda_tx_replayed:
  assumes "deuda_tx D H env actor dto d = (Inr (False, r), d')"
  shows "deuda_replay H actor dto d = Inr (Some r) \<and> is_ok (authorize_actor d actor True)"
proof -
  from assms obtain origin where au: "authorize_actor d actor True = Inr origin"
    by (auto simp: deuda_tx_def split: sum.splits)
  moreover have "deuda_replay H actor dto d \<noteq> Inr None"
    using assms deuda_tx_created_flag [of H actor dto d D env r d'] by auto
  ultimately show ?thesis
    using assms by (cases "deuda_replay H actor dto d") (auto simp: deuda_tx_def split: prod.splits option.splits)
qed

text \<open>An isolated creation either stores the row, or answers what is on record, or changes nothing.\<close>

lemma post_deuda_cases:
  assumes "post_deuda D H env (actor, i, dto) d = (out, d')"
  obtains (stored) r where "out = Inr (True, r)"
      "deuda_tx D H (deuda_isolated env) actor (dto\<lparr>cd_id := Some i\<rparr>) d = (Inr (True, r), d')"
      "(cd_deudorId dto \<noteq> None) \<noteq> (cd_deudor dto \<noteq> None)"
  | (answered) r where "out = Inr (False, r)" "d' = d" "deuda_gate (actor, i, dto) d"
      "deuda_replay H actor (dto\<lparr>cd_id := Some i\<rparr>) d = Inr (Some r)"
  | (refused) e where "out = Inl e" "d' = d"
proof (cases "(cd_deudorId dto \<noteq> None) \<noteq> (cd_deudor dto \<noteq> None)")
  case True
  let ?dto = "dto\<lparr>cd_id := Some i\<rparr>"
  obtain res d1 where tx: "deuda_tx D H (deuda_isolated env) actor ?dto d = (res, d1)" by fastforce
  show thesis
  proof (cases res)
    case (Inr b)
    then obtain c r where b: "res = Inr (c, r)" by (cases b) auto
    with assms tx True have run: "out = Inr (c, r)" "d' = d1"
      by (simp_all add: post_deuda_def createDeuda_def del: not_None_eq)
    show thesis
    proof (cases c)
      case True
      with run b tx \<open>(cd_deudorId dto \<noteq> None) \<noteq> (cd_deudor dto \<noteq> None)\<close> show thesis using stored by simp
    next
      case False
      with b tx have rep: "deuda_tx D H (deuda_isolated env) actor ?dto d = (Inr (False, r), d1)" by simp
      from deuda_tx_isolated [OF rep] have "d1 = d" by simp
      with deuda_tx_replayed [OF rep] run False \<open>(cd_deudorId dto \<noteq> None) \<noteq> (cd_deudor dto \<noteq> None)\<close>
      show thesis using answered by (simp add: deuda_gate_iff)
    qed
  next
    case (Inl e)
    with tx have "d1 = d" using deuda_tx_isolated [OF tx] by simp
    with assms tx True Inl answered refused show thesis
      by (auto simp: post_deuda_def createDeuda_def Let_def deuda_gate_iff simp del: not_None_eq
          split: if_splits sum.splits option.splits)
  qed
next
  case False
  with assms refused show thesis by (auto simp: post_deuda_def createDeuda_def)
qed

lemma post_deuda_on_record:
  assumes "deuda_gate (actor, i, dto) d" "deuda_record (actor, i, dto) d = Some m"
  shows "post_deuda D H env (actor, i, dto) d =
    (if m = deuda_mark H (actor, i, dto) then (Inr (False, deuda_receipt (actor, i, dto) d), d)
     else (Inl (Conflict (''Deuda '' @ i @ '' already exists with different data'')), d))"
proof -
  from assms(1) obtain origin where "authorize_actor d actor True = Inr origin" by (auto simp: deuda_gate_iff is_ok_iff)
  with assms show ?thesis
    by (cases origin) (simp add: post_deuda_def createDeuda_def deuda_tx_def deuda_replay_on_record deuda_gate_iff
      isBadRequest_def isDebtIdConflict_def)
qed

interpretation deuda_post: frozen_receipt "post_deuda D H" deuda_record "deuda_mark H" deuda_gate deuda_receipt
  for D H
proof (unfold_locales, goal_cases replays conflicts creates answers fails freezes)
  case (replays q d env)
  then show ?case by (cases q) (simp add: post_deuda_on_record)
next
  case (conflicts q d m env)
  then show ?case by (cases q) (simp add: post_deuda_on_record)
next
  case (creates env q d r d')
  obtain actor i dto where q: "q = (actor, i, dto)" by (cases q)
  from creates [unfolded q] show ?case
    by (rule post_deuda_cases) (auto simp: q deuda_gate_iff dest!: deuda_tx_recorded)
next
  case (answers env q d r d')
  obtain actor i dto where q: "q = (actor, i, dto)" by (cases q)
  from answers [unfolded q] show ?case
    by (rule post_deuda_cases) (auto simp: q deuda_replay_on_record split: option.splits if_splits)
next
  case (fails env q d e d')
  obtain actor i dto where q: "q = (actor, i, dto)" by (cases q)
  from fails [unfolded q] show ?case by (rule post_deuda_cases) simp_all
next
  case (freezes env q d r d')
  obtain actor i dto where q: "q = (actor, i, dto)" by (cases q)
  from freezes [unfolded q] show ?case
    by (rule post_deuda_cases) (auto simp: q dest!: deuda_tx_recorded)
qed

text \<open>A debt a tablet names itself and sends again and again is created once: executed one after the other,
  the requests give errors that change nothing, then at most one creation and then replays, and every
  success hands out the receipt of the creation, whatever was paid in the meantime.\<close>

theorem deuda_create_at_most_once:
  "effect_once d (retries (\<lambda>env. post_deuda D H env (actor, i, dto)) envs d)
   \<and> same_receipts (fst (retries (\<lambda>env. post_deuda D H env (actor, i, dto)) envs d))"
  using deuda_post.at_most_once deuda_post.same_receipt by blast

section \<open>Concrete debts\<close>

definition sample_deuda_env :: deuda_env where
  "sample_deuda_env = \<lparr>de_others = (\<lambda>k x. x), de_now = 1768400000000, de_createdAt = 1768400000000,
     de_ids = (\<lambda>k. ''g'' @ replicate k CHR ''x'')\<rparr>"

definition sample_deuda :: create_deuda_dto where
  "sample_deuda = \<lparr>cd_id = None, cd_type = Apartado, cd_productId = ''p1'', cd_cantidad = 2, cd_deudorId = None,
     cd_deudor = Some \<lparr>di_nombre = ''Luz'', di_telefono = None, di_notas = None\<rparr>, cd_abonoInicialMinor = 1000,
     cd_abonoInicialPaymentMethod = None, cd_cuotasPlaneadas = [\<lparr>ci_fechaEsperada = ''2026-02-01'', ci_montoEsperadoMinor = 4000\<rparr>]\<rparr>"

definition sample_deuda_run :: "(bool \<times> jsval) result \<times> db" where
  "sample_deuda_run = createDeuda exact_dinero (\<lambda>s. []) sample_deuda_env ana sample_deuda sample_db"

lemma sample_deuda_orderly: "deuda_env_orderly sample_deuda_env" "deuda_alone sample_deuda_env"
  by (simp_all add: deuda_alone_orderly deuda_alone_def sample_deuda_env_def)

lemma sample_deuda_valid: "valid_deuda sample_deuda" "products_ok sample_db" "deudas_ok sample_db"
  by code_simp+

lemma sample_deuda_created: "created (fst sample_deuda_run)"
  by code_simp


lemma deudas_invariant_witness:
  "deuda_books (serve_deudas exact_dinero (\<lambda>s. []) [NewDeuda sample_deuda_env ana sample_deuda,
     NewAbono sample_deuda_env carla ''gx'' \<lparr>aa_montoMinor = 4000, aa_nota = None, aa_paymentMethod = Some TARJETA\<rparr>,
     NewCuota sample_deuda_env ana ''gx'' \<lparr>ci_fechaEsperada = ''2026-03-01'', ci_montoEsperadoMinor = 10\<rparr>] sample_db)"
proof (rule deudas_invariant)
  show "list_all valid_deuda_request [NewDeuda sample_deuda_env ana sample_deuda,
     NewAbono sample_deuda_env carla ''gx'' \<lparr>aa_montoMinor = 4000, aa_nota = None, aa_paymentMethod = Some TARJETA\<rparr>,
     NewCuota sample_deuda_env ana ''gx'' \<lparr>ci_fechaEsperada = ''2026-03-01'', ci_montoEsperadoMinor = 10\<rparr>]"
    by (simp add: sample_deuda_orderly(1) sample_deuda_valid(1))
  show "deuda_books sample_db" by (simp add: deuda_books_def sample_deuda_valid)
qed (rule exact_dinero_laws)

end
