(* ===== verification/Paging.thy ===== *)
theory Paging
  imports Schema
begin

text \<open>
  Reading a long list in pieces. The catalog, the sales, the debts and the incidencias are read by page
  number (\<open>skip\<close> and \<open>take\<close> over a total order); the finance lists are read from a cursor, the sort key
  of the last row of the page before.
\<close>

section \<open>Page numbers\<close>

text \<open>\<open>findMany({orderBy, skip: (page - 1) * limit, take: limit})\<close> and \<open>count\<close>, in one snapshot.\<close>

record 'a page =
  pg_items :: "'a list"
  pg_total :: int
  pg_page :: int
  pg_limit :: int

definition slice :: "int \<Rightarrow> int \<Rightarrow> 'a list \<Rightarrow> 'a list" where
  "slice p limit rows = take (nat limit) (drop (nat ((p - 1) * limit)) rows)"

definition paged :: "('a \<Rightarrow> 'k::linorder) \<Rightarrow> int \<Rightarrow> int \<Rightarrow> 'a list \<Rightarrow> 'a page" where
  "paged key p limit rows = \<lparr>pg_items = slice p limit (sort_key key rows), pg_total = int (length rows),
     pg_page = p, pg_limit = limit\<rparr>"

text \<open>Reading the pages from the first one on gives the rows in order, each exactly once.\<close>

lemma slices_concat:
  assumes "0 < limit"
  shows "concat (map (\<lambda>k. slice (int k + 1) limit rows) [0..<n]) = take (n * nat limit) rows"
proof (induction n)
  case (Suc n)
  have "nat (int n * limit) = n * nat limit" using assms by (simp add: nat_mult_distrib)
  then have "slice (int n + 1) limit rows = take (nat limit) (drop (n * nat limit) rows)"
    by (simp add: slice_def)
  with Suc show ?case by (simp add: take_add [symmetric] add.commute)
qed simp

lemma paged_all:
  assumes "0 < limit" "length rows \<le> n * nat limit"
  shows "concat (map (\<lambda>k. pg_items (paged key (int k + 1) limit rows)) [0..<n]) = sort_key key rows"
  using slices_concat [OF assms(1), of "sort_key key rows" n] assms(2) by (simp add: paged_def)

lemma slice_set: "set (slice p limit rows) \<subseteq> set rows"
  unfolding slice_def by (meson order_trans set_drop_subset set_take_subset)

lemma length_slice: "length (slice p limit rows) \<le> nat limit"
  by (simp add: slice_def)

end
