(* ===== verification/Products.thy ===== *)
theory Products
  imports Paging SaleLaws
begin

text \<open>
  The catalog (\<open>src/products/products.service.ts\<close>, \<open>src/products/restock-cost.ts\<close>): creating, editing,
  restocking, hiding and showing a product, its image, its audit trail, and what each role may read.

  A change of one product locks its row before anything else, so it is one step; a restock takes the lock
  with the statement that raises the stock, so what other transactions commit between the authorization
  and that statement (and before the one that explains a refusal) is an argument, \<open>pe_others env k\<close>.
\<close>

section \<open>The cost after a restock\<close>

definition assertWholeNumber :: "int \<Rightarrow> string \<Rightarrow> int \<Rightarrow> unit result" where
  "assertWholeNumber x name least =
     (if x < least then Inl (RangeErr (name @ '' must be an integer >= '' @ show_int least)) else Inr ())"

text \<open>\<open>toMinorUnits(toDinero(a))\<close>.\<close>

definition through_dinero :: "'d dinero_lib \<Rightarrow> int \<Rightarrow> int result" where
  "through_dinero D a = (case toDinero D a of Inl e \<Rightarrow> Inl e | Inr x \<Rightarrow> toMinorUnits D x)"

definition nextProductCost ::
  "'d dinero_lib \<Rightarrow> int \<Rightarrow> int option \<Rightarrow> int \<Rightarrow> int option \<Rightarrow> int option result"
where
  "nextProductCost D stockBefore costBeforeMinor quantity unitCostMinor =
     (case assertWholeNumber stockBefore ''stockBefore'' 0 of Inl e \<Rightarrow> Inl e | Inr _ \<Rightarrow>
     (case assertWholeNumber quantity ''quantity'' 1 of Inl e \<Rightarrow> Inl e | Inr _ \<Rightarrow>
     (case unitCostMinor of None \<Rightarrow> Inr None
      | Some unitCost \<Rightarrow>
        (case assertWholeNumber unitCost ''unitCostMinor'' 0 of Inl e \<Rightarrow> Inl e | Inr _ \<Rightarrow>
        (case through_dinero D unitCost of Inl e \<Rightarrow> Inl e
         | Inr purchase \<Rightarrow>
           if stockBefore = 0 then Inr (Some purchase)
           else
             (case costBeforeMinor of None \<Rightarrow> Inr None
              | Some costBefore \<Rightarrow>
                (case assertWholeNumber costBefore ''costBeforeMinor'' 0 of Inl e \<Rightarrow> Inl e | Inr _ \<Rightarrow>
                (case through_dinero D costBefore of Inl e \<Rightarrow> Inl e
                 | Inr current \<Rightarrow>
                   let units = stockBefore + quantity;
                       tot = stockBefore * current + quantity * purchase;
                       average = (2 * tot + units) div (2 * units) in
                   (case through_dinero D average of Inl e \<Rightarrow> Inl e | Inr c \<Rightarrow> Inr (Some c))))))))))"

section \<open>Requests, snapshots and responses\<close>

record create_product_dto =
  cp_name :: string
  cp_tipo :: product_type
  cp_unitPriceMinor :: int
  cp_initialStock :: "int option"
  cp_category :: "string option"
  cp_purchaseCostMinor :: int
  cp_supplier :: "string option"
  cp_notes :: "string option"
  cp_brand :: "string option"
  cp_presentation :: "string option"
  cp_description :: "string option"

text \<open>An update: \<open>None\<close> leaves a column alone, \<open>Some None\<close> clears it.\<close>

record product_update =
  up_name :: "string option"
  up_unitPriceMinor :: "int option"
  up_imagePath :: "string option"
  up_category :: "string option option"
  up_purchaseCostMinor :: "int option option"
  up_supplier :: "string option option"
  up_notes :: "string option option"
  up_brand :: "string option option"
  up_presentation :: "string option option"
  up_description :: "string option option"

record restock_dto =
  rk_quantity :: int
  rk_unitCostMinor :: "int option"
  rk_note :: "string option"

definition between :: "int \<Rightarrow> int \<Rightarrow> int \<Rightarrow> bool" where
  "between a b x \<longleftrightarrow> a \<le> x \<and> x \<le> b"

text \<open>The numeric bounds the validation of the bodies enforces.\<close>

definition valid_create_product :: "create_product_dto \<Rightarrow> bool" where
  "valid_create_product dto \<longleftrightarrow> between 0 MAX_MINOR_UNITS (cp_unitPriceMinor dto)
     \<and> between 0 MAX_MINOR_UNITS (cp_purchaseCostMinor dto)
     \<and> (case cp_initialStock dto of None \<Rightarrow> cp_tipo dto = Unica | Some n \<Rightarrow> between 0 MAX_MINOR_UNITS n)"

definition valid_patch :: "product_update \<Rightarrow> bool" where
  "valid_patch dto \<longleftrightarrow> up_imagePath dto = None
     \<and> (case up_unitPriceMinor dto of None \<Rightarrow> True | Some x \<Rightarrow> between 0 MAX_MINOR_UNITS x)
     \<and> (case up_purchaseCostMinor dto of Some (Some x) \<Rightarrow> between 0 MAX_MINOR_UNITS x | _ \<Rightarrow> True)"

definition valid_restock :: "restock_dto \<Rightarrow> bool" where
  "valid_restock dto \<longleftrightarrow> between 1 MAX_MINOR_UNITS (rk_quantity dto)
     \<and> (case rk_unitCostMinor dto of None \<Rightarrow> True | Some x \<Rightarrow> between 0 MAX_MINOR_UNITS x)"

fun show_tipo :: "product_type \<Rightarrow> string" where
  "show_tipo Unica = ''unica''"
| "show_tipo Cantidad = ''cantidad''"

text \<open>The full snapshot every audit row stores.\<close>

definition product_snapshot :: "product \<Rightarrow> jsval" where
  "product_snapshot p = JObj [(''name'', JStr (p_name p)), (''tipo'', JStr (show_tipo (p_tipo p))),
     (''unitPriceMinor'', JNum (p_unitPriceMinor p)), (''initialStock'', JNum (p_initialStock p)),
     (''stock'', JNum (p_stock p)), (''imagePath'', json_option JStr (p_imagePath p)),
     (''category'', json_option JStr (p_category p)), (''purchaseCostMinor'', json_option JNum (p_purchaseCostMinor p)),
     (''supplier'', json_option JStr (p_supplier p)), (''notes'', json_option JStr (p_notes p)),
     (''brand'', json_option JStr (p_brand p)), (''presentation'', json_option JStr (p_presentation p)),
     (''description'', json_option JStr (p_description p))]"

text \<open>
  What a client reads of a product: without the key of the stored image, and without the cost, the supplier
  and the notes unless \<open>withCost\<close>. \<open>getUrl\<close> is the URL of a stored image.
\<close>

definition product_response :: "(string \<Rightarrow> string) \<Rightarrow> bool \<Rightarrow> product \<Rightarrow> jsval" where
  "product_response getUrl withCost p = JObj (
     [(''id'', JStr (rid p)), (''name'', JStr (p_name p)), (''tipo'', JStr (show_tipo (p_tipo p))),
      (''unitPriceMinor'', JNum (p_unitPriceMinor p)), (''contextId'', JStr (ctx p)),
      (''initialStock'', JNum (p_initialStock p)), (''stock'', JNum (p_stock p)),
      (''category'', json_option JStr (p_category p)), (''brand'', json_option JStr (p_brand p)),
      (''presentation'', json_option JStr (p_presentation p)), (''description'', json_option JStr (p_description p)),
      (''createdAt'', JStr (to_iso (p_createdAt p))), (''active'', JBool (p_active p))]
     @ (if withCost then [(''purchaseCostMinor'', json_option JNum (p_purchaseCostMinor p)),
          (''supplier'', json_option JStr (p_supplier p)), (''notes'', json_option JStr (p_notes p))] else [])
     @ [(''image'', case p_imagePath p of Some (x # xs) \<Rightarrow> JStr (getUrl (x # xs)) | _ \<Rightarrow> JNull)])"

definition SOCIO_ONLY_FIELDS :: "string list" where
  "SOCIO_ONLY_FIELDS = [''purchaseCostMinor'', ''supplier'', ''notes'']"

definition withoutCost :: "jsval \<Rightarrow> jsval" where
  "withoutCost v = (case v of JObj fs \<Rightarrow> JObj [f \<leftarrow> fs. fst f \<notin> set SOCIO_ONLY_FIELDS] | _ \<Rightarrow> v)"

section \<open>Writing\<close>

record product_env =
  pe_others :: "nat \<Rightarrow> db \<Rightarrow> db"
  pe_ids :: "nat \<Rightarrow> uuid"
  pe_changedAt :: instant
  pe_createdAt :: instant

text \<open>\<open>tx.product.create\<close> and \<open>tx.productAudit.create\<close>.\<close>

definition audit_row :: "product_env \<Rightarrow> uuid \<Rightarrow> product option \<Rightarrow> product \<Rightarrow> product_audit" where
  "audit_row env memberId before p = \<lparr>rid = pe_ids env 1, ctx = ctx p, pa_productId = rid p, pa_memberId = memberId,
     pa_changedAt = pe_changedAt env, pa_oldUnitPriceMinor = map_option p_unitPriceMinor before,
     pa_newUnitPriceMinor = p_unitPriceMinor p, pa_before = map_option product_snapshot before,
     pa_after = product_snapshot p\<rparr>"

definition audit :: "product_env \<Rightarrow> uuid \<Rightarrow> product option \<Rightarrow> product \<Rightarrow> db \<Rightarrow> db result" where
  "audit env memberId before p d =
     (case insert_row ''ProductAudit'' (audit_row env memberId before p) (productAudits d) of
        Inl e \<Rightarrow> Inl e | Inr rows \<Rightarrow> Inr (d\<lparr>productAudits := rows\<rparr>))"

definition new_product :: "product_env \<Rightarrow> actor \<Rightarrow> create_product_dto \<Rightarrow> int \<Rightarrow> product" where
  "new_product env actor dto initialStock =
     \<lparr>rid = pe_ids env 0, ctx = act_contextId actor, p_name = cp_name dto, p_tipo = cp_tipo dto,
      p_unitPriceMinor = cp_unitPriceMinor dto, p_imagePath = None, p_initialStock = initialStock,
      p_stock = initialStock, p_category = cp_category dto, p_purchaseCostMinor = Some (cp_purchaseCostMinor dto),
      p_supplier = cp_supplier dto, p_notes = cp_notes dto, p_brand = cp_brand dto,
      p_presentation = cp_presentation dto, p_description = cp_description dto,
      p_createdAt = pe_createdAt env, p_active = True\<rparr>"

definition createProduct_tx ::
  "(string \<Rightarrow> string) \<Rightarrow> product_env \<Rightarrow> actor \<Rightarrow> create_product_dto \<Rightarrow> db \<Rightarrow> (jsval \<times> db) result"
where
  "createProduct_tx getUrl env actor dto d =
     (case (if cp_tipo dto = Unica then Some 1 else cp_initialStock dto) of
        None \<Rightarrow> Inl (Internal ''initialStock is missing'')
      | Some initialStock \<Rightarrow>
       (case authorize_actor d actor True of Inl e \<Rightarrow> Inl e
        | Inr (memberId, _) \<Rightarrow>
          let p = new_product env actor dto initialStock in
          (case insert_row ''Product'' p (products d) of Inl e \<Rightarrow> Inl e
           | Inr ps \<Rightarrow>
            (case audit env memberId None p (d\<lparr>products := ps\<rparr>) of Inl e \<Rightarrow> Inl e
             | Inr d' \<Rightarrow> Inr (product_response getUrl True p, d')))))"

definition createProduct ::
  "(string \<Rightarrow> string) \<Rightarrow> product_env \<Rightarrow> actor \<Rightarrow> create_product_dto \<Rightarrow> db \<Rightarrow> jsval result \<times> db"
where
  "createProduct getUrl env actor dto d = transaction (createProduct_tx getUrl env actor dto) d"

definition set_if :: "'a option \<Rightarrow> 'a \<Rightarrow> 'a" where
  "set_if new old = (case new of None \<Rightarrow> old | Some x \<Rightarrow> x)"

definition updated_product :: "product_update \<Rightarrow> product \<Rightarrow> product" where
  "updated_product u p = p\<lparr>p_name := set_if (up_name u) (p_name p),
     p_unitPriceMinor := set_if (up_unitPriceMinor u) (p_unitPriceMinor p),
     p_imagePath := set_if (map_option Some (up_imagePath u)) (p_imagePath p),
     p_category := set_if (up_category u) (p_category p),
     p_purchaseCostMinor := set_if (up_purchaseCostMinor u) (p_purchaseCostMinor p),
     p_supplier := set_if (up_supplier u) (p_supplier p), p_notes := set_if (up_notes u) (p_notes p),
     p_brand := set_if (up_brand u) (p_brand p), p_presentation := set_if (up_presentation u) (p_presentation p),
     p_description := set_if (up_description u) (p_description p)\<rparr>"

definition mutate_tx ::
  "(string \<Rightarrow> string) \<Rightarrow> product_env \<Rightarrow> actor \<Rightarrow> uuid \<Rightarrow> product_update \<Rightarrow> db \<Rightarrow> (jsval \<times> db) result"
where
  "mutate_tx getUrl env actor i data d =
     (case authorize_actor d actor True of Inl e \<Rightarrow> Inl e
      | Inr (memberId, _) \<Rightarrow>
       (case find_row (act_contextId actor) i (products d) of
          None \<Rightarrow> Inl (NotFound [])
        | Some before \<Rightarrow>
            if p_purchaseCostMinor before \<noteq> None \<and> up_purchaseCostMinor data = Some None
            then Inl (BadRequest ''purchaseCostMinor cannot be cleared once it has been set'')
            else
              let p = updated_product data before in
              (case audit env memberId (Some before) p
                      (d\<lparr>products := update_row (act_contextId actor) i (updated_product data) (products d)\<rparr>) of
                 Inl e \<Rightarrow> Inl e
               | Inr d' \<Rightarrow> Inr (product_response getUrl True p, d'))))"

definition mutate ::
  "(string \<Rightarrow> string) \<Rightarrow> product_env \<Rightarrow> actor \<Rightarrow> uuid \<Rightarrow> product_update \<Rightarrow> db \<Rightarrow> jsval result \<times> db"
where
  "mutate getUrl env actor i data d = transaction (mutate_tx getUrl env actor i data) d"

definition empty_patch :: "product_update \<Rightarrow> bool" where
  "empty_patch dto \<longleftrightarrow> up_name dto = None \<and> up_unitPriceMinor dto = None \<and> up_category dto = None
     \<and> up_purchaseCostMinor dto = None \<and> up_supplier dto = None \<and> up_notes dto = None \<and> up_brand dto = None
     \<and> up_presentation dto = None \<and> up_description dto = None"

definition patchProduct ::
  "(string \<Rightarrow> string) \<Rightarrow> product_env \<Rightarrow> actor \<Rightarrow> uuid \<Rightarrow> product_update \<Rightarrow> db \<Rightarrow> jsval result \<times> db"
where
  "patchProduct getUrl env actor i dto d =
     (if empty_patch dto then (Inl (BadRequest ''At least one editable field is required''), d)
      else mutate getUrl env actor i (dto\<lparr>up_imagePath := None\<rparr>) d)"

text \<open>The guarded increment of a restock, and why it matched no row.\<close>

definition restockable :: "restock_dto \<Rightarrow> product \<Rightarrow> bool" where
  "restockable dto p \<longleftrightarrow> p_tipo p = Cantidad \<and> p_active p \<and> p_stock p \<le> MAX_MINOR_UNITS - rk_quantity dto"

definition explainRestockRejection :: "string \<Rightarrow> uuid \<Rightarrow> db \<Rightarrow> failure" where
  "explainRestockRejection c i d =
     (case find_row c i (products d) of
        None \<Rightarrow> NotFound []
      | Some p \<Rightarrow>
          if p_tipo p \<noteq> Cantidad then BadRequest ''Only products sold by quantity can be restocked''
          else if \<not> p_active p then BadRequest ''A deactivated product cannot be restocked; reactivate it first''
          else BadRequest ''The resulting stock would exceed the maximum allowed'')"

definition movement_row :: "product_env \<Rightarrow> actor \<Rightarrow> uuid \<Rightarrow> uuid \<Rightarrow> restock_dto \<Rightarrow> int \<Rightarrow> int \<Rightarrow> stock_movement" where
  "movement_row env actor i memberId dto stockBefore stockAfter =
     \<lparr>rid = pe_ids env 2, ctx = act_contextId actor, mv_productId = i, mv_memberId = memberId, mv_type = Reposicion,
      mv_quantity = rk_quantity dto, mv_stockBefore = stockBefore, mv_stockAfter = stockAfter,
      mv_unitCostMinor = rk_unitCostMinor dto, mv_note = rk_note dto, mv_createdAt = pe_createdAt env\<rparr>"

text \<open>With the row lock: the cost, the audit row and the movement.\<close>

definition restock_locked ::
  "'d dinero_lib \<Rightarrow> product_env \<Rightarrow> actor \<Rightarrow> uuid \<Rightarrow> restock_dto \<Rightarrow> uuid \<Rightarrow> product \<Rightarrow> db
    \<Rightarrow> ((product \<times> stock_movement) \<times> db) result"
where
  "restock_locked D env actor i dto memberId found d =
     (let incremented = found\<lparr>p_stock := p_stock found + rk_quantity dto\<rparr>;
          stockBefore = p_stock incremented - rk_quantity dto;
          before = incremented\<lparr>p_stock := stockBefore\<rparr> in
      case nextProductCost D stockBefore (p_purchaseCostMinor incremented) (rk_quantity dto) (rk_unitCostMinor dto) of
        Inl e \<Rightarrow> Inl e
      | Inr nextCost \<Rightarrow>
          let p = (case nextCost of None \<Rightarrow> incremented | Some c \<Rightarrow> incremented\<lparr>p_purchaseCostMinor := Some c\<rparr>);
              m = movement_row env actor i memberId dto stockBefore (p_stock p) in
          (case audit env memberId (Some before) p
                  (d\<lparr>products := update_row (act_contextId actor) i (\<lambda>_. p) (products d)\<rparr>) of
             Inl e \<Rightarrow> Inl e
           | Inr d1 \<Rightarrow>
             (case insert_row ''StockMovement'' m (stockMovements d1) of Inl e \<Rightarrow> Inl e
              | Inr ms \<Rightarrow> Inr ((p, m), d1\<lparr>stockMovements := ms\<rparr>))))"

definition restock ::
  "'d dinero_lib \<Rightarrow> product_env \<Rightarrow> actor \<Rightarrow> uuid \<Rightarrow> restock_dto \<Rightarrow> db \<Rightarrow> (product \<times> stock_movement) result \<times> db"
where
  "restock D env actor i dto d =
     (case authorize_actor d actor True of Inl e \<Rightarrow> (Inl e, d)
      | Inr (memberId, _) \<Rightarrow>
        let d1 = pe_others env 1 d in
        (case find_row (act_contextId actor) i (products d1) of
           Some found \<Rightarrow>
             if restockable dto found
             then transaction (restock_locked D env actor i dto memberId found) d1
             else let d2 = pe_others env 2 d1 in (Inl (explainRestockRejection (act_contextId actor) i d2), d2)
         | None \<Rightarrow> let d2 = pe_others env 2 d1 in (Inl (explainRestockRejection (act_contextId actor) i d2), d2)))"

text \<open>\<open>deactivate\<close> and \<open>reactivate\<close>: the row is locked first; no audit row.\<close>

definition setActive_tx ::
  "(string \<Rightarrow> string) \<Rightarrow> actor \<Rightarrow> uuid \<Rightarrow> bool \<Rightarrow> db \<Rightarrow> (jsval \<times> db) result"
where
  "setActive_tx getUrl actor i a d =
     (case authorize_actor d actor True of Inl e \<Rightarrow> Inl e
      | Inr _ \<Rightarrow>
       (case find_row (act_contextId actor) i (products d) of
          None \<Rightarrow> Inl (NotFound [])
        | Some p \<Rightarrow>
            if p_active p = a then Inr (product_response getUrl True p, d)
            else Inr (product_response getUrl True (p\<lparr>p_active := a\<rparr>),
                   d\<lparr>products := update_row (act_contextId actor) i (\<lambda>q. q\<lparr>p_active := a\<rparr>) (products d)\<rparr>)))"

definition deactivate :: "(string \<Rightarrow> string) \<Rightarrow> actor \<Rightarrow> uuid \<Rightarrow> db \<Rightarrow> jsval result \<times> db" where
  "deactivate getUrl actor i d = transaction (setActive_tx getUrl actor i False) d"

definition reactivate :: "(string \<Rightarrow> string) \<Rightarrow> actor \<Rightarrow> uuid \<Rightarrow> db \<Rightarrow> jsval result \<times> db" where
  "reactivate getUrl actor i d = transaction (setActive_tx getUrl actor i True) d"

text \<open>
  Replacing the image. The storage holds the files \<open>fs\<close>; \<open>saved\<close> is the outcome of storing the uploaded
  file (the new path, or the error that refused it) and \<open>removable\<close> whether a file can be removed again.
\<close>

definition setImage ::
  "(string \<Rightarrow> string) \<Rightarrow> product_env \<Rightarrow> actor \<Rightarrow> uuid \<Rightarrow> string result \<Rightarrow> bool \<Rightarrow> db \<times> string list
    \<Rightarrow> jsval result \<times> db \<times> string list"
where
  "setImage getUrl env actor i saved removable s =
     (case s of (d, fs) \<Rightarrow>
      if find_row (act_contextId actor) i (products d) = None then (Inl (NotFound []), d, fs)
      else
       (case saved of Inl e \<Rightarrow> (Inl e, d, fs)
        | Inr path \<Rightarrow>
          let fs1 = fs @ [path]; u = \<lparr>up_name = None, up_unitPriceMinor = None, up_imagePath = Some path,
                up_category = None, up_purchaseCostMinor = None, up_supplier = None, up_notes = None,
                up_brand = None, up_presentation = None, up_description = None\<rparr> in
          (case mutate getUrl env actor i u (pe_others env 1 d) of
             (Inr r, d') \<Rightarrow> (Inr r, d', fs1)
           | (Inl e, d') \<Rightarrow> (Inl e, d', if removable then filter (\<lambda>f. f \<noteq> path) fs1 else fs1))))"

section \<open>Reading\<close>

definition isRequestingSocio :: "db \<Rightarrow> string \<Rightarrow> uuid option \<Rightarrow> bool" where
  "isRequestingSocio d c accountMemberId =
     (case accountMemberId of None \<Rightarrow> False
      | Some i \<Rightarrow> (case find_row c i (members d) of None \<Rightarrow> False | Some m \<Rightarrow> m_role m = Socio \<and> m_active m))"

record product_query =
  pq_search :: "string option"
  pq_brand :: "string option"
  pq_umbral :: "int option"
  pq_includeInactive :: bool
  pq_agotados :: bool
  pq_sinCosto :: bool
  pq_tipo :: "product_type option"
  pq_page :: int
  pq_limit :: int

definition given :: "string option \<Rightarrow> bool" where
  "given s \<longleftrightarrow> (case s of None \<Rightarrow> False | Some t \<Rightarrow> t \<noteq> [])"

text \<open>\<open>contains\<close> and \<open>equals\<close> are the insensitive comparisons of the database (never true of NULL).\<close>

record text_match =
  tm_contains :: "string \<Rightarrow> string \<Rightarrow> bool"
  tm_equals :: "string \<Rightarrow> string \<Rightarrow> bool"

definition matches :: "(string \<Rightarrow> string \<Rightarrow> bool) \<Rightarrow> string option \<Rightarrow> string option \<Rightarrow> bool" where
  "matches f x y = (case (x, y) of (Some a, Some b) \<Rightarrow> f a b | _ \<Rightarrow> False)"

definition product_where :: "text_match \<Rightarrow> string \<Rightarrow> bool \<Rightarrow> product_query \<Rightarrow> product \<Rightarrow> bool" where
  "product_where tm c includeInactive q p \<longleftrightarrow>
     ctx p = c
   \<and> (includeInactive \<or> p_active p)
   \<and> (given (pq_search q) \<longrightarrow> matches (tm_contains tm) (Some (p_name p)) (pq_search q)
        \<or> matches (tm_contains tm) (p_brand p) (pq_search q) \<or> matches (tm_contains tm) (p_presentation p) (pq_search q))
   \<and> (given (pq_brand q) \<longrightarrow> matches (tm_equals tm) (p_brand p) (pq_brand q))
   \<and> (if pq_agotados q then p_stock p = 0
      else case pq_umbral q of None \<Rightarrow> True | Some u \<Rightarrow> p_stock p \<le> u)
   \<and> (pq_sinCosto q \<longrightarrow> p_purchaseCostMinor p = None)
   \<and> (case pq_tipo q of None \<Rightarrow> True | Some t \<Rightarrow> p_tipo p = t)"

definition listProducts ::
  "(string \<Rightarrow> string) \<Rightarrow> text_match \<Rightarrow> db \<Rightarrow> string \<Rightarrow> product_query \<Rightarrow> uuid option \<Rightarrow> jsval page"
where
  "listProducts getUrl tm d c q accountMemberId =
     (let isSocio = isRequestingSocio d c accountMemberId;
          pg = paged (\<lambda>p. (p_createdAt p, rid p)) (pq_page q) (pq_limit q)
                 (filter (product_where tm c (pq_includeInactive q \<and> isSocio) q) (products d)) in
      \<lparr>pg_items = map (product_response getUrl isSocio) (pg_items pg), pg_total = pg_total pg,
       pg_page = pg_page pg, pg_limit = pg_limit pg\<rparr>)"

definition findProduct :: "(string \<Rightarrow> string) \<Rightarrow> db \<Rightarrow> string \<Rightarrow> uuid \<Rightarrow> uuid option \<Rightarrow> jsval result" where
  "findProduct getUrl d c i accountMemberId =
     (case find_row c i (products d) of None \<Rightarrow> Inl (NotFound [])
      | Some p \<Rightarrow> Inr (product_response getUrl (isRequestingSocio d c accountMemberId) p))"

definition productAudits_page ::
  "db \<Rightarrow> string \<Rightarrow> uuid \<Rightarrow> int \<Rightarrow> int \<Rightarrow> uuid option \<Rightarrow> product_audit page result"
where
  "productAudits_page d c i p limit accountMemberId =
     (if find_row c i (products d) = None then Inl (NotFound [])
      else
        let pg = paged (\<lambda>a. (pa_changedAt a, rid a)) p limit [a \<leftarrow> in_context c (productAudits d). pa_productId a = i] in
        Inr (if isRequestingSocio d c accountMemberId then pg
             else pg\<lparr>pg_items := map (\<lambda>a. a\<lparr>pa_before := map_option withoutCost (pa_before a), pa_after := withoutCost (pa_after a)\<rparr>)
                                  (pg_items pg)\<rparr>))"

end
