(* ===== verification/ProductLaws.thy ===== *)
theory ProductLaws
  imports Products
begin

text \<open>
  The cost of a product after a restock, what a restock writes, the trail of prices every product keeps,
  and what a colaborador can learn from the catalog.
\<close>

section \<open>The weighted_sum average\<close>

lemma through_dinero_eq:
  assumes "dinero_laws D" "int4 a"
  shows "through_dinero D a = Inr a"
proof -
  obtain x where "toDinero D a = Inr x" "cents D x a" using toDinero_ok [OF assms] .
  with assms(2) show ?thesis by (simp add: through_dinero_def toMinorUnits_cents)
qed

definition weighted_sum :: "int \<Rightarrow> int \<Rightarrow> int \<Rightarrow> int \<Rightarrow> int" where
  "weighted_sum n a m b = n * a + m * b"

text \<open>C14: the cost of a product after a restock is the weighted_sum average of the two costs in whole cents, rounded
  half up: it is at most half a cent away from the exact average, lies between the two costs (so it can
  never leave the range of the column), and without a cost of the purchase, or with an unknown current cost
  and pieces in stock, the cost is left alone.\<close>

theorem nextProductCost_average:
  assumes "dinero_laws D" "0 \<le> n" "1 \<le> m" "\<And>x. a = Some x \<Longrightarrow> between 0 MAX_MINOR_UNITS x"
    "\<And>x. b = Some x \<Longrightarrow> between 0 MAX_MINOR_UNITS x"
  shows "case b of
      None \<Rightarrow> nextProductCost D n a m b = Inr None
    | Some purchase \<Rightarrow>
        if n = 0 then nextProductCost D n a m b = Inr (Some purchase)
        else (case a of
            None \<Rightarrow> nextProductCost D n a m b = Inr None
          | Some current \<Rightarrow> \<exists>c. nextProductCost D n a m b = Inr (Some c)
              \<and> (2 * c - 1) * (n + m) \<le> 2 * weighted_sum n current m purchase
              \<and> 2 * weighted_sum n current m purchase < (2 * c + 1) * (n + m)
              \<and> min current purchase \<le> c \<and> c \<le> max current purchase)"
proof (cases b)
  case None
  with assms(2,3) show ?thesis by (simp add: nextProductCost_def assertWholeNumber_def)
next
  case (Some purchase)
  with assms(5) have p: "0 \<le> purchase" "int4 purchase" by (auto simp: between_def int4_def)
  show ?thesis
  proof (cases "n = 0 \<or> a = None")
    case True
    with Some p assms(1-3) show ?thesis
      by (auto simp: nextProductCost_def assertWholeNumber_def through_dinero_eq)
  next
    case False
    then obtain current where a: "a = Some current" and n: "0 < n" using assms(2) by auto
    with assms(4) have q: "0 \<le> current" "int4 current" by (auto simp: between_def int4_def)
    let ?t = "weighted_sum n current m purchase"
    let ?c = "(2 * ?t + (n + m)) div (2 * (n + m))"
    have u: "0 < n + m" using n assms(3) by simp
    have lo: "min current purchase * (n + m) \<le> ?t"
    proof -
      have "min current purchase * n \<le> n * current" using n by (simp add: mult.commute mult_left_mono)
      moreover have "min current purchase * m \<le> m * purchase" using assms(3) by (simp add: mult.commute mult_left_mono)
      ultimately show ?thesis by (simp add: weighted_sum_def distrib_left)
    qed
    have hi: "?t \<le> max current purchase * (n + m)"
    proof -
      have "n * current \<le> max current purchase * n" using n by (simp add: mult.commute mult_left_mono)
      moreover have "m * purchase \<le> max current purchase * m" using assms(3) by (simp add: mult.commute mult_left_mono)
      ultimately show ?thesis by (simp add: weighted_sum_def distrib_left)
    qed
    note between = half_up_between [OF u lo hi]
    have "int4 ?c" using between p q by (auto simp: int4_def)
    then have "nextProductCost D n a m b = Inr (Some ?c)"
      using n assms(1-3) a Some p q
      by (simp add: nextProductCost_def assertWholeNumber_def through_dinero_eq Let_def weighted_sum_def)
    with n a Some between half_up_bounds [OF u, of ?t] show ?thesis by (auto intro!: exI [of _ ?c])
  qed
qed

lemma nextProductCost_average_witness:
  "\<exists>c. nextProductCost exact_dinero 3 (Some 1000) 4 (Some 1100) = Inr (Some c) \<and> c = 1057"
proof -
  have "nextProductCost exact_dinero 3 (Some 1000) 4 (Some 1100) = Inr (Some 1057)" by code_simp
  moreover have "\<exists>c. nextProductCost exact_dinero 3 (Some 1000) 4 (Some 1100) = Inr (Some c)
      \<and> (2 * c - 1) * (3 + 4) \<le> 2 * weighted_sum 3 1000 4 1100 \<and> 2 * weighted_sum 3 1000 4 1100 < (2 * c + 1) * (3 + 4)
      \<and> min 1000 1100 \<le> c \<and> c \<le> max 1000 1100"
    using nextProductCost_average [of exact_dinero 3 4 "Some 1000" "Some 1100"]
    by (simp add: between_def MAX_MINOR_UNITS_def)
  ultimately show ?thesis by auto
qed

section \<open>What a restock writes\<close>

lemma audit_Inr:
  "audit env memberId before p d = Inr d' \<Longrightarrow>
     d' = d\<lparr>productAudits := productAudits d @ [audit_row env memberId before p]\<rparr>"
  by (auto simp: audit_def split: sum.splits dest: insert_row_Inr)

lemma restock_locked_Inr:
  assumes "restock_locked D env actor i dto memberId found d = Inr ((p, m), d')"
  obtains cost before where "p = found\<lparr>p_stock := p_stock found + rk_quantity dto, p_purchaseCostMinor := cost\<rparr>"
    "before = found\<lparr>p_stock := p_stock found\<rparr>"
    "nextProductCost D (p_stock found) (p_purchaseCostMinor found) (rk_quantity dto) (rk_unitCostMinor dto)
       = Inr (if cost = p_purchaseCostMinor found then None else cost) \<or>
     nextProductCost D (p_stock found) (p_purchaseCostMinor found) (rk_quantity dto) (rk_unitCostMinor dto) = Inr cost"
    "m = movement_row env actor i memberId dto (p_stock found) (p_stock p)"
    "d' = d\<lparr>products := update_row (act_contextId actor) i (\<lambda>_. p) (products d),
       productAudits := productAudits d @ [audit_row env memberId (Some before) p],
       stockMovements := stockMovements d @ [m]\<rparr>"
proof -
  let ?inc = "found\<lparr>p_stock := p_stock found + rk_quantity dto\<rparr>"
  from assms obtain nextCost where nc: "nextProductCost D (p_stock found) (p_purchaseCostMinor found) (rk_quantity dto)
      (rk_unitCostMinor dto) = Inr nextCost"
    by (auto simp: restock_locked_def Let_def split: sum.splits)
  let ?p = "case nextCost of None \<Rightarrow> ?inc | Some c \<Rightarrow> ?inc\<lparr>p_purchaseCostMinor := Some c\<rparr>"
  let ?before = "found\<lparr>p_stock := p_stock found\<rparr>"
  have stock: "p_stock ?p = p_stock found + rk_quantity dto" by (simp split: option.split)
  let ?m = "movement_row env actor i memberId dto (p_stock found) (p_stock ?p)"
  from assms nc have out: "p = ?p" "m = ?m" and d': "d' = d\<lparr>products := update_row (act_contextId actor) i (\<lambda>_. ?p) (products d),
       productAudits := productAudits d @ [audit_row env memberId (Some ?before) ?p], stockMovements := stockMovements d @ [?m]\<rparr>"
    by (auto simp: restock_locked_def Let_def stock split: sum.splits dest!: audit_Inr insert_row_Inr)
  show thesis
    by (rule that [of "case nextCost of None \<Rightarrow> p_purchaseCostMinor found | Some c \<Rightarrow> Some c" ?before])
      (use out d' nc in \<open>auto split: option.split\<close>)
qed

text \<open>The outcomes of a restock: a refusal leaves what the others committed.\<close>

lemma restock_cases:
  assumes "restock D env actor i dto d = (out, d')"
  obtains (refused) e where "out = Inl e" "committed (pe_others env) d d'"
  | (restocked) memberId found p m where "out = Inr (p, m)"
      "find_row (act_contextId actor) i (products (pe_others env 1 d)) = Some found" "restockable dto found"
      "restock_locked D env actor i dto memberId found (pe_others env 1 d) = Inr ((p, m), d')"
proof -
  have one: "committed (pe_others env) d (pe_others env (Suc 0) d)" by (intro committed.intros)
  then have two: "committed (pe_others env) d (pe_others env 2 (pe_others env (Suc 0) d))" by (rule committed_step)
  show thesis
  proof (cases "authorize_actor d actor True")
    case (Inl e)
    with assms refused show thesis by (auto simp: restock_def intro: committed.intros)
  next
    case (Inr w)
    obtain memberId device where w: "w = (memberId, device)" by (cases w)
    show thesis
    proof (cases "find_row (act_contextId actor) i (products (pe_others env (Suc 0) d))")
      case None
      with assms Inr w two refused show thesis by (auto simp: restock_def Let_def)
    next
      case (Some found)
      show thesis
      proof (cases "restockable dto found")
        case False
        with assms Inr w Some two refused show thesis by (auto simp: restock_def Let_def)
      next
        case True
        show thesis
        proof (cases "restock_locked D env actor i dto memberId found (pe_others env (Suc 0) d)")
          case (Inl e)
          with assms Inr w Some True one refused show thesis by (auto simp: restock_def Let_def transaction_def)
        next
          case r: (Inr x)
          obtain p m d1 where "x = ((p, m), d1)" by (metis prod.collapse)
          with assms Inr w Some True r restocked show thesis by (auto simp: restock_def Let_def transaction_def)
        qed
      qed
    qed
  qed
qed

section \<open>What a colaborador learns\<close>

text \<open>The catalog with every cost, supplier and note erased.\<close>

definition blind :: "product \<Rightarrow> product" where
  "blind p = p\<lparr>p_purchaseCostMinor := None, p_supplier := None, p_notes := None\<rparr>"

definition blind_audit :: "product_audit \<Rightarrow> product_audit" where
  "blind_audit a = a\<lparr>pa_before := map_option withoutCost (pa_before a), pa_after := withoutCost (pa_after a)\<rparr>"

definition blind_db :: "db \<Rightarrow> db" where
  "blind_db d = d\<lparr>products := map blind (products d), productAudits := map blind_audit (productAudits d)\<rparr>"

lemma withoutCost_idem [simp]: "withoutCost (withoutCost v) = withoutCost v"
  by (simp add: withoutCost_def split: jsval.split)

lemma blind_simps [simp]:
  "rid (blind p) = rid p" "ctx (blind p) = ctx p" "p_createdAt (blind p) = p_createdAt p"
  "product_response getUrl False (blind p) = product_response getUrl False p"
  by (simp_all add: blind_def product_response_def)

lemma blind_audit_simps [simp]:
  "rid (blind_audit a) = rid a" "ctx (blind_audit a) = ctx a" "pa_productId (blind_audit a) = pa_productId a"
  "pa_changedAt (blind_audit a) = pa_changedAt a" "blind_audit (blind_audit a) = blind_audit a"
  by (simp_all add: blind_audit_def option.map_comp o_def)

lemma slice_map: "slice p limit (map f xs) = map f (slice p limit xs)"
  by (simp add: slice_def take_map drop_map)

lemma find_row_blind: "find_row c i (map blind ps) = map_option blind (find_row c i ps)"
  by (induction ps) (auto simp: find_row_def)

lemma blind_where:
  "\<not> pq_sinCosto q \<Longrightarrow> product_where tm c inactive q (blind p) = product_where tm c inactive q p"
  by (auto simp: product_where_def blind_def split: option.split)

lemma isRequestingSocio_blind [simp]: "isRequestingSocio (blind_db d) c who = isRequestingSocio d c who"
proof -
  have "members (blind_db d) = members d" by (simp add: blind_db_def)
  then show ?thesis unfolding isRequestingSocio_def by (rule arg_cong)
qed

lemma products_blind [simp]: "products (blind_db d) = map blind (products d)"
  by (simp add: blind_db_def)


definition sample_query :: product_query where
  "sample_query = \<lparr>pq_search = None, pq_brand = None, pq_umbral = None, pq_includeInactive = True, pq_agotados = False,
     pq_sinCosto = False, pq_tipo = None, pq_page = 1, pq_limit = 20\<rparr>"

definition sample_match :: text_match where
  "sample_match = \<lparr>tm_contains = (\<lambda>a b. a = b), tm_equals = (\<lambda>a b. a = b)\<rparr>"


text \<open>The filter for products without a cost is honoured for anybody: its total shows how many there are.\<close>

lemma sinCosto_reveals:
  "\<not> isRequestingSocio sample_db ''t1'' (Some ''m3'')
   \<and> pg_total (listProducts id sample_match sample_db ''t1'' (sample_query\<lparr>pq_sinCosto := True\<rparr>) (Some ''m3'')) = 1
   \<and> pg_total (listProducts id sample_match (blind_db sample_db) ''t1'' (sample_query\<lparr>pq_sinCosto := True\<rparr>) (Some ''m3'')) = 2"
  by code_simp

end
