(* ===== verification/Shop.thy ===== *)
theory Shop
  imports ProductLaws DeudaBooks
begin

text \<open>
  The stock of the shop. Sales and debts take pieces out, restocks put pieces in and the catalog is edited
  meanwhile; this theory shows that no piece is ever lost or invented and that the trail of prices of
  every product is complete, over any sequence of these requests.
\<close>

section \<open>The flow of pieces\<close>

text \<open>Every fact that moves pieces: the product (with its business) and the pieces that come in or go out.\<close>

definition flows :: "db \<Rightarrow> ((string \<times> uuid) \<times> int) list" where
  "flows d = map (\<lambda>m. ((ctx m, mv_productId m), mv_quantity m)) (stockMovements d)
     @ map (\<lambda>i. ((ctx i, si_productId i), - si_quantity i)) (saleItems d)
     @ map (\<lambda>x. ((ctx x, du_productId x), - du_cantidad x)) (deudas d)"

definition net :: "(('k \<times> int) list) \<Rightarrow> 'k \<Rightarrow> int" where
  "net fs k = sum_list (map snd [f \<leftarrow> fs. fst f = k])"

definition product_key :: "product \<Rightarrow> string \<times> uuid" where
  "product_key p = (ctx p, rid p)"

text \<open>The stock is what the product started with, plus what was restocked, less what was sold and lent.\<close>

definition stock_ok :: "db \<Rightarrow> bool" where
  "stock_ok d \<longleftrightarrow> products_ok d \<and> list_all (\<lambda>p. p_stock p = p_initialStock p + net (flows d) (product_key p)) (products d)
     \<and> list_all (\<lambda>f. fst f \<in> product_key ` set (products d)) (flows d)"

lemma net_simps [simp]: "net [] k = 0" "net (f # fs) k = (if fst f = k then snd f else 0) + net fs k"
  "net (fs @ gs) k = net fs k + net gs k"
  by (simp_all add: net_def)

lemma net_none: "k \<notin> fst ` set fs \<Longrightarrow> net fs k = 0"
  by (induction fs) auto

lemma same_keys:
  assumes "\<And>p. p \<in> set ps \<Longrightarrow> product_key (g p) = product_key p"
  shows "product_key ` set (map g ps) = product_key ` set ps"
proof -
  have "map product_key (map g ps) = map product_key ps" using assms by simp
  then have "set (map product_key (map g ps)) = set (map product_key ps)" by (rule arg_cong)
  then show ?thesis by (simp only: set_map)
qed

lemma stock_ok_step:
  assumes "stock_ok c" "products_ok d'" "products d' = map g (products c)"
    and "\<And>p. p \<in> set (products c) \<Longrightarrow> product_key (g p) = product_key p \<and> p_initialStock (g p) = p_initialStock p
           \<and> p_stock (g p) = p_stock p + net new (product_key p)"
    and "\<And>k. net (flows d') k = net (flows c) k + net new k"
    and "fst ` set (flows d') \<subseteq> fst ` set (flows c) \<union> fst ` set new"
    and "fst ` set new \<subseteq> product_key ` set (products c)"
  shows "stock_ok d'"
proof -
  have "list_all (\<lambda>p. p_stock p = p_initialStock p + net (flows d') (product_key p)) (products d')"
    using assms(1,4) by (simp add: assms(3,5) list_all_iff stock_ok_def)
  moreover have "product_key ` set (products d') = product_key ` set (products c)"
    unfolding assms(3) by (rule same_keys) (use assms(4) in blast)
  moreover have "fst ` set (flows c) \<subseteq> product_key ` set (products c)"
    using assms(1) by (auto simp: stock_ok_def list_all_iff)
  then have "fst ` set (flows d') \<subseteq> product_key ` set (products c)" using assms(6,7) by (meson Un_least subset_trans)
  ultimately show ?thesis
    using assms(2) by (auto simp: stock_ok_def list_all_iff)
qed

text \<open>What changes nothing the stock depends on.\<close>

lemma stock_ok_same:
  assumes "stock_ok c" "products_ok d'" "flows d' = flows c" "products d' = map g (products c)"
    and "\<And>p. p \<in> set (products c) \<Longrightarrow> product_key (g p) = product_key p \<and> p_initialStock (g p) = p_initialStock p
           \<and> p_stock (g p) = p_stock p"
  shows "stock_ok d'"
  by (rule stock_ok_step [OF assms(1,2,4), of "[]"]) (use assms(3,5) in auto)

section \<open>The trail of prices\<close>

definition trail :: "db \<Rightarrow> string \<times> uuid \<Rightarrow> product_audit list" where
  "trail d k = [a \<leftarrow> productAudits d. (ctx a, pa_productId a) = k]"

text \<open>Every entry starts from the price the one before ended with.\<close>

fun price_chain :: "int option \<Rightarrow> product_audit list \<Rightarrow> int option" where
  "price_chain old [] = old"
| "price_chain old (a # as) = (if pa_oldUnitPriceMinor a = old then price_chain (Some (pa_newUnitPriceMinor a)) as else None)"

definition trail_ok :: "db \<Rightarrow> bool" where
  "trail_ok d \<longleftrightarrow> list_all (\<lambda>p. price_chain None (trail d (product_key p)) = Some (p_unitPriceMinor p)) (products d)
     \<and> list_all (\<lambda>a. (ctx a, pa_productId a) \<in> product_key ` set (products d)) (productAudits d)"

lemma price_chain_snoc:
  "price_chain old (as @ [a]) = (if pa_oldUnitPriceMinor a = price_chain old as then Some (pa_newUnitPriceMinor a) else None)
    \<or> price_chain old as = None"
  by (induction as arbitrary: old) auto

lemma price_chain_extend:
  "price_chain old as = Some x \<Longrightarrow> pa_oldUnitPriceMinor a = Some x \<Longrightarrow> price_chain old (as @ [a]) = Some (pa_newUnitPriceMinor a)"
  using price_chain_snoc [of old as a] by auto

lemma trail_ok_same:
  assumes "trail_ok c" "productAudits d' = productAudits c" "products d' = map g (products c)"
    and "\<And>p. p \<in> set (products c) \<Longrightarrow> product_key (g p) = product_key p \<and> p_unitPriceMinor (g p) = p_unitPriceMinor p"
  shows "trail_ok d'"
proof -
  have "product_key ` set (products d') = product_key ` set (products c)"
    unfolding assms(3) by (rule same_keys) (use assms(4) in blast)
  moreover have "trail d' = trail c" by (rule ext) (simp add: trail_def assms(2))
  ultimately show ?thesis using assms(1,4) by (simp add: trail_ok_def assms(2,3) list_all_iff)
qed

text \<open>One product changes and its audit row is written.\<close>

lemma trail_ok_audited:
  assumes "trail_ok c" "distinct (map product_key (products c))" "p \<in> set (products c)"
    and "products d' = map g (products c)" "productAudits d' = productAudits c @ [a]"
    and "\<And>q. q \<in> set (products c) \<Longrightarrow> product_key (g q) = product_key q"
    and "\<And>q. q \<in> set (products c) \<Longrightarrow> q \<noteq> p \<Longrightarrow> p_unitPriceMinor (g q) = p_unitPriceMinor q"
    and "(ctx a, pa_productId a) = product_key p" "pa_oldUnitPriceMinor a = Some (p_unitPriceMinor p)"
    and "pa_newUnitPriceMinor a = p_unitPriceMinor (g p)"
  shows "trail_ok d'"
proof -
  have keys: "product_key ` set (products d') = product_key ` set (products c)"
    unfolding assms(4) by (rule same_keys) (use assms(6) in blast)
  have "price_chain None (trail d' (product_key (g q))) = Some (p_unitPriceMinor (g q))" if q: "q \<in> set (products c)" for q
  proof (cases "q = p")
    case True
    have "price_chain None (trail c (product_key p)) = Some (p_unitPriceMinor p)"
      using assms(1,3) by (simp add: trail_ok_def list_all_iff)
    from price_chain_extend [OF this assms(9)] show ?thesis
      using True assms(3,6,8,10) by (simp add: trail_def assms(5))
  next
    case False
    then have "product_key q \<noteq> product_key p" using q assms(2,3) by (metis distinct_map inj_onD)
    then have "trail d' (product_key q) = trail c (product_key q)" using assms(8) by (simp add: trail_def assms(5))
    then show ?thesis using q False assms(1,6,7) by (simp add: trail_ok_def list_all_iff)
  qed
  then show ?thesis using assms(1,3,8) unfolding trail_ok_def keys
    by (auto simp: assms(4,5) list_all_iff)
qed

lemma product_keys: "products_ok d \<Longrightarrow> distinct (map product_key (products d))"
  by (auto simp: products_ok_def distinct_map inj_on_def product_key_def)

section \<open>The invariant\<close>

definition shop_ok :: "db \<Rightarrow> bool" where
  "shop_ok d \<longleftrightarrow> stock_ok d \<and> trail_ok d"

lemma shop_ok_products: "shop_ok d \<Longrightarrow> products_ok d"
  by (simp add: shop_ok_def stock_ok_def)

definition shop_tables :: "db \<Rightarrow> _" where
  "shop_tables d = (products d, productAudits d, stockMovements d, saleItems d, deudas d)"

lemma shop_ok_tables:
  assumes "shop_tables d' = shop_tables d"
  shows "shop_ok d' = shop_ok d"
proof -
  have "flows d' = flows d" "products d' = products d" "productAudits d' = productAudits d"
    using assms by (simp_all add: flows_def shop_tables_def)
  moreover from this have "trail d' = trail d" by (intro ext) (simp add: trail_def)
  ultimately show ?thesis by (simp add: shop_ok_def stock_ok_def trail_ok_def products_ok_def)
qed

lemma find_row_key: "find_row c i (products d) = Some p \<Longrightarrow> p \<in> set (products d) \<and> product_key p = (c, i)"
  by (auto simp: product_key_def dest: find_row_Some)

section \<open>Sales\<close>

definition keeps_shop :: "(nat \<Rightarrow> db \<Rightarrow> db) \<Rightarrow> bool" where
  "keeps_shop w \<longleftrightarrow> (\<forall>k x. (products_ok x \<longrightarrow> products_ok (w k x)) \<and> (shop_ok x \<longrightarrow> shop_ok (w k x)))"

lemma committed_shop: "committed w d c \<Longrightarrow> keeps_shop w \<Longrightarrow> shop_ok d \<Longrightarrow> shop_ok c"
  by (rule committed_keeps [of w d c shop_ok]) (simp_all add: keeps_shop_def)

lemma keeps_shop_orderly: "keeps_shop (se_others env) \<Longrightarrow> orderly_env env"
  by (simp add: keeps_shop_def orderly_env_def orderly_def)

lemma keeps_shop_run: "keeps_shop w \<Longrightarrow> shop_ok d \<Longrightarrow> shop_ok (w k d)"
  by (simp add: keeps_shop_def)

lemma net_sold:
  assumes "list_all (\<lambda>i. ctx i = k) rows"
    and "map (\<lambda>i. (si_productId i, si_quantity i)) rows = map (\<lambda>i. (sd_productId i, sd_quantity i)) items"
  shows "net (map (\<lambda>i. ((ctx i, si_productId i), - si_quantity i)) rows) (a, b) = (if a = k then - taken items b else 0)"
  using assms
proof (induction rows arbitrary: items)
  case (Cons r rows)
  then obtain x xs where items: "items = x # xs" by (cases items) auto
  with Cons.prems Cons.IH [of xs] show ?case by (auto simp: taken_def)
qed (simp add: taken_def)

lemma charged_items:
  assumes "map line_view rows = charged_lines k c items"
  shows "map (\<lambda>i. (si_productId i, si_quantity i)) rows = map (\<lambda>i. (sd_productId i, sd_quantity i)) items"
proof -
  have "map (\<lambda>i. (si_productId i, si_quantity i)) rows = map (\<lambda>v. (fst v, fst (snd v))) (map line_view rows)"
    by (simp add: line_view_def)
  also have "\<dots> = map (\<lambda>i. (sd_productId i, sd_quantity i)) items"
    unfolding assms by (simp add: charged_lines_def)
  finally show ?thesis .
qed

lemma sale_tx_shop:
  assumes "dinero_laws D" "valid_items dto" "keeps_shop (se_others env)" "shop_ok d"
    and "sale_tx D H show_days env actor dto d = (Inr s, d')"
  shows "shop_ok d'"
  using assms(1,2) keeps_shop_orderly [OF assms(3)] shop_ok_products [OF assms(4)] assms(5)
proof (rule sale_tx_commits)
  fix c rows incs amount origin money
  let ?k = "act_contextId actor"
  assume c: "committed (se_others env) d c" and ok': "products_ok d'"
    and d': "d' = c\<lparr>products := map (stock_after ?k (cs_items dto)) (products c), sales := sales c @ [s],
       saleItems := saleItems c @ rows, incidencias := incidencias c @ incs\<rparr>"
    and lines: "map line_view rows = charged_lines ?k c (cs_items dto)" "list_all (\<lambda>i. si_saleId i = cs_id dto \<and> ctx i = ?k) rows"
    and found: "list_all (\<lambda>i. find_row ?k (sd_productId i) (products c) \<noteq> None) (cs_items dto)"
  let ?new = "map (\<lambda>i. ((ctx i, si_productId i), - si_quantity i)) rows"
  have ok: "stock_ok c" "trail_ok c" using committed_shop [OF c assms(3,4)] by (simp_all add: shop_ok_def)
  have rows: "list_all (\<lambda>i. ctx i = ?k) rows" using lines(2) by (auto simp: list_all_iff)
  note pairs = charged_items [OF lines(1)]
  have key: "product_key (stock_after ?k (cs_items dto) p) = product_key p
      \<and> p_initialStock (stock_after ?k (cs_items dto) p) = p_initialStock p
      \<and> p_unitPriceMinor (stock_after ?k (cs_items dto) p) = p_unitPriceMinor p
      \<and> p_stock (stock_after ?k (cs_items dto) p) = p_stock p + net ?new (product_key p)" for p
    using net_sold [OF rows pairs, of "ctx p" "rid p"] by (simp add: stock_after_def product_key_def)
  have "stock_ok d'"
  proof (rule stock_ok_step [OF ok(1) ok'])
    show "products d' = map (stock_after ?k (cs_items dto)) (products c)" by (simp add: d')
    show "net (flows d') k = net (flows c) k + net ?new k" for k by (simp add: d' flows_def)
    show "fst ` set (flows d') \<subseteq> fst ` set (flows c) \<union> fst ` set ?new"
      by (simp only: d' flows_def set_append image_Un) auto
    have "(ctx i, si_productId i) \<in> product_key ` set (products c)" if i: "i \<in> set rows" for i
    proof -
      have "(si_productId i, si_quantity i) \<in> set (map (\<lambda>i. (sd_productId i, sd_quantity i)) (cs_items dto))"
        unfolding pairs [symmetric] using i by simp
      then obtain x where x: "x \<in> set (cs_items dto)" "sd_productId x = si_productId i" by auto
      with found obtain p where "find_row ?k (si_productId i) (products c) = Some p" by (fastforce simp: list_all_iff)
      from find_row_key [OF this] show ?thesis using rows i by (force simp: list_all_iff)
    qed
    then show "fst ` set ?new \<subseteq> product_key ` set (products c)" by auto
  qed (use key in blast)
  moreover have "trail_ok d'"
    by (rule trail_ok_same [OF ok(2), of _ "stock_after ?k (cs_items dto)"]) (use key in \<open>simp_all add: d'\<close>)
  ultimately show ?thesis by (simp add: shop_ok_def)
qed

lemma sale_tx_failed:
  assumes "sale_tx D H show_days env actor dto d = (Inl f, d')"
  shows "committed (se_others env) d d'"
proof -
  have loop: "committed (se_others env) d d1"
    if "sell_items D (se_others env) k c items upd tot lines d = (x, d1)" for k c items upd tot lines x d1
    using sell_items_committed [OF committed_start, of "se_others env" d D k c items upd tot lines] that by simp
  show ?thesis
  proof (cases "authorize_actor d actor False")
    case (Inl e)
    with assms show ?thesis by (simp add: sale_tx_def committed_start)
  next
    case au: (Inr origin)
    show ?thesis
    proof (cases "toDinero D 0")
      case (Inl e)
      with assms au show ?thesis by (simp add: sale_tx_def committed_start)
    next
      case ze: (Inr zero)
      obtain x d1 where run: "sell_items D (se_others env) 1 (act_contextId actor) (cs_items dto) [] zero [] d = (x, d1)"
        by fastforce
      show ?thesis
        using assms au ze run loop [OF run] committed_others_commit [OF loop [OF run]]
        by (auto simp: sale_tx_def Let_def split: sum.splits prod.splits)
    qed
  qed
qed

lemma store_rejection_shop:
  assumes "store_rejection H env actor dto reason k d = (out, d')" "keeps_shop (se_others env)" "shop_ok d"
  shows "shop_ok d'"
proof (cases "store_sale (rejected_sale H env actor dto reason) []
    [incidencia_row env actor (cs_id dto) (length (cs_items dto)) ConflictoStock reason] d")
  case (Inl e)
  with assms show ?thesis
    by (auto simp: store_rejection_def Let_def keeps_shop_run split: if_splits option.splits)
next
  case (Inr d1)
  with assms(1) have "d' = d1" by (simp add: store_rejection_def Let_def)
  with store_sale_Inr [OF Inr] have "shop_tables d' = shop_tables d" by (simp add: shop_tables_def)
  with assms(3) show ?thesis using shop_ok_tables by blast
qed

lemma createSale_shop:
  assumes "dinero_laws D" "valid_items dto" "keeps_shop (se_others env)" "shop_ok d"
  shows "shop_ok (snd (createSale D H show_days env actor dto d))"
proof (cases "act_selection actor = Some (cs_memberId dto, cs_deviceId dto)
    \<and> find_row (act_contextId actor) (cs_id dto) (sales d) = None")
  case False
  with assms(4) show ?thesis by (auto simp: createSale_def split: option.split)
next
  case True
  have d0: "shop_ok (se_others env 0 d)" by (rule keeps_shop_run [OF assms(3,4)])
  obtain f d1 where tx: "sale_tx D H show_days env actor dto (se_others env 0 d) = (f, d1)" by fastforce
  show ?thesis
  proof (cases f)
    case (Inr s)
    with tx sale_tx_shop [OF assms(1-3) d0] True show ?thesis by (simp add: createSale_def)
  next
    case (Inl x)
    with tx have "committed (se_others env) (se_others env 0 d) d1" by (simp add: sale_tx_failed)
    then have d1: "shop_ok d1" by (rule committed_shop [OF _ assms(3) d0])
    let ?n = "length (cs_items dto)"
    have d2: "shop_ok (se_others env (?n + 2) d1)" by (rule keeps_shop_run [OF assms(3) d1])
    then have d3: "shop_ok (se_others env (?n + 3) (se_others env (?n + 2) d1))" by (rule keeps_shop_run [OF assms(3)])
    have "shop_ok (snd (store_rejection H env actor dto reason (?n + 4) (se_others env (?n + 3) (se_others env (?n + 2) d1))))" for reason
      using store_rejection_shop [OF _ assms(3) d3] by (metis prod.collapse)
    then show ?thesis
      using d2 True by (simp add: createSale_def tx Inl Let_def split: option.split sale_failure.split)
  qed
qed

section \<open>Debts\<close>

lemma orderly_shop: "keeps_shop w \<Longrightarrow> orderly (w k)"
  by (simp add: keeps_shop_def orderly_def)

lemma deuda_flows_update:
  assumes "\<And>x. ctx (f x) = ctx x \<and> du_productId (f x) = du_productId x \<and> du_cantidad (f x) = du_cantidad x"
  shows "map (\<lambda>x. ((ctx x, du_productId x), - du_cantidad x)) (map f xs) = map (\<lambda>x. ((ctx x, du_productId x), - du_cantidad x)) xs"
  using assms by simp

lemma deuda_tx_shop:
  assumes "deuda_tx D H env actor dto d = (Inr (True, r), d')" "keeps_shop (de_others env)" "shop_ok d"
  shows "shop_ok d'"
  using assms(1)
proof (rule deuda_tx_created)
  let ?k = "act_contextId actor" and ?d1 = "de_others env 1 d"
  fix memberId device deudorId newDeudor and p :: product and amount d2 and x0 :: deuda and d3
  let ?upd = "[(rid p, p_stock p - cd_cantidad dto)]"
  assume p: "find_row ?k (cd_productId dto) (products ?d1) = Some p" "cd_cantidad dto \<le> p_stock p"
    and d2: "d2 = others_commit ?upd (de_others env 2) ?d1"
    and x0: "x0 = new_deuda H env actor dto memberId deudorId p amount"
    and st: "store_deuda newDeudor x0 (initial_abono env actor dto memberId (rid x0)) (planned_cuotas env actor dto (rid x0))
       (apply_updates ?k ?upd d2) = Inr d3"
    and fr: "freeze dto x0 d3 = (r, d')"
  have "committed (de_others env) d ?d1" by (intro committed.intros)
  then have ok1: "shop_ok ?d1" by (rule committed_shop [OF _ assms(2,3)])
  have "committed (de_others env) d d2" unfolding d2 by (intro committed_others_commit committed.intros)
  then have ok2: "stock_ok d2" "trail_ok d2" using committed_shop [OF _ assms(2,3)] by (auto simp: shop_ok_def)
  have pid: "rid p = cd_productId dto" using find_row_Some [OF p(1)] by simp
  have p2: "find_row ?k (cd_productId dto) (products d2) = Some p"
    unfolding d2 by (rule others_commit_locked [OF shop_ok_products [OF ok1] orderly_shop [OF assms(2)] p(1)]) (simp add: pid)
  have prods2: "products_ok d2" using ok2(1) by (simp add: stock_ok_def)
  note reserve = apply_reserved [OF prods2 p2 p(2), folded pid]
  note stored = store_deuda_Inr [OF st] note frozen = freeze_Pair [OF fr]
  have "products d3 = products (apply_updates ?k ?upd d2)" using stored by simp
  then have products': "products d' = map (reserved_for ?k dto) (products d2)" using frozen reserve(1) by simp
  have ok': "products_ok d'" using reserve(2) \<open>products d3 = _\<close> frozen by (simp add: products_ok_def)
  let ?f = "\<lambda>y. if cd_id dto \<noteq> None \<and> rid y = rid x0 \<and> ctx y = ctx x0 then y\<lparr>du_creationResponse := Some r\<rparr> else y"
  have tables: "stockMovements d' = stockMovements d2" "saleItems d' = saleItems d2" "productAudits d' = productAudits d2"
      "deudas d' = map ?f (deudas d2 @ [x0])"
  proof -
    have d3: "stockMovements d3 = stockMovements d2" "saleItems d3 = saleItems d2" "productAudits d3 = productAudits d2"
        "deudas d3 = deudas d2 @ [x0]"
      using stored by (simp_all add: apply_updates_def)
    from frozen obtain ds where "d' = d3\<lparr>deudas := ds\<rparr>" by blast
    then have "stockMovements d' = stockMovements d3" "saleItems d' = saleItems d3" "productAudits d' = productAudits d3"
      by simp_all
    with d3 frozen show "stockMovements d' = stockMovements d2" "saleItems d' = saleItems d2"
      "productAudits d' = productAudits d2" "deudas d' = map ?f (deudas d2 @ [x0])" by simp_all
  qed
  let ?new = "[((?k, rid p), - cd_cantidad dto)]"
  have "((ctx x0, du_productId x0), - du_cantidad x0) = ((?k, rid p), - cd_cantidad dto)"
    by (simp add: x0) (simp add: new_deuda_def Let_def)
  then have flow: "flows d' = flows d2 @ ?new"
    unfolding flows_def tables by (subst deuda_flows_update) simp_all
  have key: "product_key (reserved_for ?k dto q) = product_key q
      \<and> p_initialStock (reserved_for ?k dto q) = p_initialStock q
      \<and> p_unitPriceMinor (reserved_for ?k dto q) = p_unitPriceMinor q
      \<and> p_stock (reserved_for ?k dto q) = p_stock q + net ?new (product_key q)" for q
    by (auto simp: reserved_for_def product_key_def pid)
  have "stock_ok d'"
  proof (rule stock_ok_step [OF ok2(1) ok' products'])
    show "fst ` set ?new \<subseteq> product_key ` set (products d2)"
      using find_row_key [OF p2] by (force simp: pid)
  qed (use key in \<open>auto simp: flow\<close>)
  moreover have "trail_ok d'"
    by (rule trail_ok_same [OF ok2(2) tables(3) products']) (use key in blast)
  ultimately show ?thesis by (simp add: shop_ok_def)
qed

lemma createDeuda_shop:
  assumes "keeps_shop (de_others env)" "shop_ok d"
  shows "shop_ok (snd (createDeuda D H env actor dto d))"
proof -
  obtain out d1 where tx: "deuda_tx D H env actor dto d = (out, d1)" by fastforce
  have d1: "shop_ok d1"
  proof (cases "\<exists>r. out = Inr (True, r)")
    case True
    with deuda_tx_shop [OF _ assms] tx show ?thesis by blast
  next
    case False
    have "committed (de_others env) d (de_others env 1 d)" by (intro committed.intros)
    then have "committed (de_others env) d d1"
      using deuda_tx_states [of D H env actor dto d] tx False
      by (auto simp del: One_nat_def intro: committed.intros committed_others_commit)
    then show ?thesis by (rule committed_shop [OF _ assms])
  qed
  have "shop_ok (de_others env 3 d1)" by (rule keeps_shop_run [OF assms(1) d1])
  with d1 assms(2) tx show ?thesis
    by (auto simp: createDeuda_def Let_def split: sum.splits option.splits)
qed

lemma registerAbono_shop:
  assumes "dinero_laws D" "keeps_shop (de_others env)" "shop_ok d"
  shows "shop_ok (snd (registerAbono D env actor i dto d))"
proof -
  obtain out d' where run: "registerAbono D env actor i dto d = (out, d')" by fastforce
  have others: "shop_ok (de_others env 1 d)" by (rule keeps_shop_run [OF assms(2,3)])
  show ?thesis
  proof (cases out)
    case (Inr r)
    let ?d1 = "de_others env 1 d"
    have upd: "map (\<lambda>x. ((ctx x, du_productId x), - du_cantidad x)) (update_row k j (settle t) xs)
        = map (\<lambda>x. ((ctx x, du_productId x), - du_cantidad x)) xs" for k j t xs
      unfolding update_row_def by (rule deuda_flows_update) (simp add: settle_def)
    from run Inr assms(1) obtain full k j t where "flows d' = map (\<lambda>m. ((ctx m, mv_productId m), mv_quantity m)) (stockMovements ?d1)
     @ map (\<lambda>i. ((ctx i, si_productId i), - si_quantity i)) (saleItems ?d1)
     @ map (\<lambda>x. ((ctx x, du_productId x), - du_cantidad x)) (if full then update_row k j (settle t) (deudas ?d1) else deudas ?d1)"
     and same: "products d' = products ?d1" "productAudits d' = productAudits ?d1"
      by (auto elim!: registerAbono_Inr simp: flows_def)
    then have "flows d' = flows ?d1" by (simp add: flows_def upd)
    with others same run show ?thesis
      by (simp add: shop_ok_def stock_ok_def trail_ok_def products_ok_def trail_def)
  next
    case (Inl e)
    then have "d' = d \<or> d' = de_others env 1 d"
      using run by (auto simp: registerAbono_def Let_def split: sum.splits option.splits prod.splits if_splits)
    with others assms(3) run show ?thesis by auto
  qed
qed

lemma cuota_shop:
  "shop_ok (snd (addCuota env actor i cuota d)) = shop_ok d"
  "shop_ok (snd (updateCuota actor i j fecha monto d)) = shop_ok d"
  "shop_ok (snd (deleteCuota actor i j d)) = shop_ok d"
  by (rule shop_ok_tables; simp add: shop_tables_def addCuota_def updateCuota_def deleteCuota_def transaction_def Let_def
      split: sum.split option.split)+

section \<open>The catalog\<close>

lemma createProduct_shop:
  assumes "valid_create_product dto" "shop_ok d"
  shows "shop_ok (snd (createProduct getUrl env actor dto d))"
proof (cases "createProduct_tx getUrl env actor dto d")
  case (Inl e)
  with assms(2) show ?thesis by (simp add: createProduct_def transaction_def)
next
  case (Inr x)
  then obtain n memberId r ps d' where n: "(if cp_tipo dto = Unica then Some 1 else cp_initialStock dto) = Some n"
      and ins: "insert_row ''Product'' (new_product env actor dto n) (products d) = Inr ps"
      and d': "d' = d\<lparr>products := ps,
        productAudits := productAudits d @ [audit_row env memberId None (new_product env actor dto n)]\<rparr>" and x: "x = (r, d')"
    by (auto simp: createProduct_tx_def Let_def split: option.splits sum.splits dest!: audit_Inr)
  have aud: "productAudits d' = productAudits d @ [audit_row env memberId None (new_product env actor dto n)]"
    and same: "flows d' = flows d" and ps: "products d' = ps"
    by (simp_all add: d' flows_def)
  let ?p = "new_product env actor dto n"
  have fields: "ctx ?p = act_contextId actor" "p_stock ?p = n" "p_initialStock ?p = n" "rid ?p = pe_ids env 0"
      "p_unitPriceMinor ?p = cp_unitPriceMinor dto"
    by (simp_all add: new_product_def)
  have rows: "products d' = products d @ [?p]" and fresh: "rid ?p \<notin> rid ` set (products d)"
    using insert_row_Inr [OF ins] by (simp_all add: ps)
  have ok: "stock_ok d" "trail_ok d" using assms(2) by (simp_all add: shop_ok_def)
  have "0 \<le> n" "0 \<le> cp_unitPriceMinor dto"
    using assms(1) n by (auto simp: valid_create_product_def between_def split: if_splits)
  then have "products_ok d'" using ok(1) fresh fields by (auto simp: rows products_ok_def stock_ok_def)
  have key: "product_key ?p \<notin> product_key ` set (products d)" using fresh by (auto simp: product_key_def)
  then have "product_key ?p \<notin> fst ` set (flows d)" using ok(1) by (auto simp: stock_ok_def list_all_iff)
  then have net: "net (flows d) (product_key ?p) = 0" by (rule net_none)
  have stock: "stock_ok d'"
    using ok(1) \<open>products_ok d'\<close> net by (auto simp: stock_ok_def rows same fields list_all_iff)
  have "(ctx a, pa_productId a) \<noteq> product_key ?p" if "a \<in> set (productAudits d)" for a
    using ok(2) that key unfolding trail_ok_def list_all_iff by metis
  then have "[a \<leftarrow> productAudits d. (ctx a, pa_productId a) = product_key ?p] = []" by (simp add: filter_empty_conv)
  moreover have "(ctx (audit_row env memberId None ?p), pa_productId (audit_row env memberId None ?p)) = product_key ?p"
    by (simp add: audit_row_def product_key_def)
  ultimately have new: "trail d' (product_key ?p) = [audit_row env memberId None ?p]"
    by (simp add: trail_def aud)
  have old: "trail d' (product_key q) = trail d (product_key q)" if "q \<in> set (products d)" for q
  proof -
    have "product_key q \<noteq> product_key ?p" using key that by (metis image_eqI)
    then show ?thesis by (auto simp: trail_def aud audit_row_def product_key_def)
  qed
  have "trail_ok d'"
    using ok(2) new old by (auto simp: trail_ok_def rows aud list_all_iff audit_row_def fields(5)) (simp add: product_key_def)+
  with stock x Inr show ?thesis by (simp add: shop_ok_def createProduct_def transaction_def)
qed

text \<open>A write to one product that keeps its identity and what it started with.\<close>

lemma update_row_same:
  assumes "products_ok d" "find_row k i (products d) = Some found" "q \<in> set (products d)" "rid q = i" "ctx q = k"
  shows "q = found"
proof -
  have "find_row k i (products d) = Some q"
    using assms by (intro find_row_distinct) (simp_all add: products_ok_def)
  with assms(2) show ?thesis by simp
qed

lemma audited_write_shop:
  assumes "shop_ok c" "find_row k i (products c) = Some found"
    and "d' = c\<lparr>products := update_row k i (\<lambda>_. p) (products c), productAudits := productAudits c @ [audit_row env m (Some b) p],
           stockMovements := stockMovements c @ ms\<rparr>"
    and "product_key p = product_key found" "p_initialStock p = p_initialStock found" "0 \<le> p_stock p" "0 \<le> p_unitPriceMinor p"
    and "p_stock p = p_stock found + net (map (\<lambda>m. ((ctx m, mv_productId m), mv_quantity m)) ms) (k, i)"
    and "list_all (\<lambda>m. ctx m = k \<and> mv_productId m = i) ms" "p_unitPriceMinor b = p_unitPriceMinor found"
  shows "shop_ok d'"
proof -
  have ok: "stock_ok c" "trail_ok c" "products_ok c" using assms(1) by (simp_all add: shop_ok_def stock_ok_def)
  note found = find_row_key [OF assms(2)] and ids = find_row_Some [OF assms(2)]
  let ?g = "\<lambda>q. if rid q = i \<and> ctx q = k then p else q"
  let ?new = "map (\<lambda>m. ((ctx m, mv_productId m), mv_quantity m)) ms"
  have rows: "products d' = map ?g (products c)" by (simp add: assms(3) update_row_def)
  have at: "?g q = p \<and> q = found \<or> ?g q = q \<and> product_key q \<noteq> (k, i)" if "q \<in> set (products c)" for q
    using update_row_same [OF ok(3) assms(2) that] by (auto simp: product_key_def)
  have out: "net ?new key = 0" if "key \<noteq> (k, i)" for key
    by (rule net_none) (use assms(9) that in \<open>auto simp: list_all_iff\<close>)
  have key: "product_key (?g q) = product_key q" if "q \<in> set (products c)" for q
    using at [OF that] assms(4) by auto
  have each: "p_initialStock (?g q) = p_initialStock q \<and> p_stock (?g q) = p_stock q + net ?new (product_key q)"
    if "q \<in> set (products c)" for q
    using at [OF that] assms(5,8) found out [of "product_key q"] by auto
  have "map rid (products d') = map rid (products c)"
    unfolding rows using key by (auto simp: product_key_def)
  moreover have "list_all (\<lambda>q. 0 \<le> p_stock q \<and> 0 \<le> p_unitPriceMinor q) (products d')"
    unfolding rows using ok(3) assms(6,7) by (auto simp: products_ok_def list_all_iff)
  ultimately have "products_ok d'" using ok(3) unfolding products_ok_def by metis
  have "stock_ok d'"
  proof (rule stock_ok_step [OF ok(1) \<open>products_ok d'\<close> rows])
    show "net (flows d') key = net (flows c) key + net ?new key" for key by (simp add: flows_def assms(3))
    show "fst ` set (flows d') \<subseteq> fst ` set (flows c) \<union> fst ` set ?new"
      by (simp only: flows_def assms(3) set_append image_Un) auto
    have "fst ` set ?new \<subseteq> {(k, i)}" using assms(9) by (auto simp: list_all_iff)
    then show "fst ` set ?new \<subseteq> product_key ` set (products c)" using found by force
  qed (use key each in blast)
  moreover have "trail_ok d'"
  proof (rule trail_ok_audited [OF ok(2) product_keys [OF ok(3)] _ rows, of found])
    show "productAudits d' = productAudits c @ [audit_row env m (Some b) p]" by (simp add: assms(3))
    show "(ctx (audit_row env m (Some b) p), pa_productId (audit_row env m (Some b) p)) = product_key found"
      using assms(4) by (simp add: audit_row_def product_key_def)
    show "p_unitPriceMinor (?g q) = p_unitPriceMinor q" if "q \<in> set (products c)" "q \<noteq> found" for q
      using at [OF that(1)] that(2) by auto
  qed (use found key assms(10) ids in \<open>auto simp: audit_row_def\<close>)
  ultimately show ?thesis by (simp add: shop_ok_def)
qed

lemma updated_product_simps [simp]:
  "rid (updated_product u p) = rid p" "ctx (updated_product u p) = ctx p"
  "p_initialStock (updated_product u p) = p_initialStock p" "p_stock (updated_product u p) = p_stock p"
  "p_unitPriceMinor (updated_product u p) = set_if (up_unitPriceMinor u) (p_unitPriceMinor p)"
  by (simp_all add: updated_product_def)

lemma update_row_found:
  assumes "products_ok d" "find_row k i (products d) = Some found"
  shows "update_row k i f (products d) = update_row k i (\<lambda>_. f found) (products d)"
  unfolding update_row_def by (rule map_cong [OF refl]) (use update_row_same [OF assms] in auto)

lemma mutate_shop:
  assumes "\<And>x. up_unitPriceMinor u = Some x \<Longrightarrow> 0 \<le> x" "shop_ok d"
  shows "shop_ok (snd (mutate getUrl env actor i u d))"
proof (cases "mutate_tx getUrl env actor i u d")
  case (Inl e)
  with assms(2) show ?thesis by (simp add: mutate_def transaction_def)
next
  case (Inr x)
  let ?k = "act_contextId actor"
  from Inr obtain memberId found r d' where found: "find_row ?k i (products d) = Some found" and x: "x = (r, d')"
      and d': "d' = d\<lparr>products := update_row ?k i (updated_product u) (products d),
         productAudits := productAudits d @ [audit_row env memberId (Some found) (updated_product u found)]\<rparr>"
    by (auto simp: mutate_tx_def Let_def split: sum.splits option.splits if_splits dest!: audit_Inr)
  have ok: "products_ok d" using assms(2) by (rule shop_ok_products)
  have sane: "0 \<le> p_stock found" "0 \<le> p_unitPriceMinor found"
    using ok find_row_Some [OF found] by (simp_all add: products_ok_def list_all_iff)
  have "shop_ok d'"
  proof (rule audited_write_shop [OF assms(2) found, where ms = "[]" and p = "updated_product u found" and b = found])
    show "d' = d\<lparr>products := update_row ?k i (\<lambda>_. updated_product u found) (products d),
         productAudits := productAudits d @ [audit_row env memberId (Some found) (updated_product u found)],
         stockMovements := stockMovements d @ []\<rparr>"
      using update_row_found [OF ok found, of "updated_product u"] by (simp add: d')
  qed (use assms(1) sane in \<open>auto simp: product_key_def set_if_def split: option.split\<close>)
  with x Inr show ?thesis by (simp add: mutate_def transaction_def)
qed

lemma restock_shop:
  assumes "valid_restock dto" "keeps_shop (pe_others env)" "shop_ok d"
  shows "shop_ok (snd (restock D env actor i dto d))"
proof -
  obtain out d' where run: "restock D env actor i dto d = (out, d')" by fastforce
  from run have "shop_ok d'"
  proof (cases rule: restock_cases)
    case (refused e)
    show ?thesis by (rule committed_shop [OF refused(2) assms(2,3)])
  next
    case (restocked memberId found p m)
    let ?k = "act_contextId actor" and ?c = "pe_others env 1 d"
    have ok: "shop_ok ?c" by (rule keeps_shop_run [OF assms(2,3)])
    have sane: "0 \<le> p_stock found" "0 \<le> p_unitPriceMinor found"
      using shop_ok_products [OF ok] find_row_Some [OF restocked(2)] by (simp_all add: products_ok_def list_all_iff)
    have ids: "rid found = i" "ctx found = ?k" using find_row_Some [OF restocked(2)] by simp_all
    have quantity: "1 \<le> rk_quantity dto" using assms(1) by (simp add: valid_restock_def between_def)
    from restocked(4) show ?thesis
    proof (rule restock_locked_Inr)
      fix cost before
      assume p: "p = found\<lparr>p_stock := p_stock found + rk_quantity dto, p_purchaseCostMinor := cost\<rparr>"
        and b: "before = found\<lparr>p_stock := p_stock found\<rparr>"
        and m: "m = movement_row env actor i memberId dto (p_stock found) (p_stock p)"
        and d': "d' = ?c\<lparr>products := update_row ?k i (\<lambda>_. p) (products ?c),
           productAudits := productAudits ?c @ [audit_row env memberId (Some before) p],
           stockMovements := stockMovements ?c @ [m]\<rparr>"
      show "shop_ok d'"
        by (rule audited_write_shop [OF ok restocked(2) d'])
          (use sane quantity in \<open>auto simp: p b m movement_row_def product_key_def\<close>)
    qed
  qed
  with run show ?thesis by simp
qed

lemma setActive_shop:
  assumes "shop_ok d"
  shows "shop_ok (snd (transaction (setActive_tx getUrl actor i a) d))"
proof -
  let ?d' = "d\<lparr>products := update_row (act_contextId actor) i (\<lambda>q. q\<lparr>p_active := a\<rparr>) (products d)\<rparr>"
  let ?g = "\<lambda>q. if rid q = i \<and> ctx q = act_contextId actor then q\<lparr>p_active := a\<rparr> else q"
  have ok: "stock_ok d" "trail_ok d" "products_ok d" using assms by (simp_all add: shop_ok_def stock_ok_def)
  have "map rid (products ?d') = map rid (products d)" by (simp add: update_row_def)
  moreover have "list_all (\<lambda>q. 0 \<le> p_stock q \<and> 0 \<le> p_unitPriceMinor q) (products ?d')"
    using ok(3) by (auto simp: products_ok_def update_row_def list_all_iff)
  ultimately have "products_ok ?d'" using ok(3) unfolding products_ok_def by metis
  have rows: "products ?d' = map ?g (products d)" by (simp add: update_row_def)
  have "stock_ok ?d'"
    by (rule stock_ok_same [OF ok(1) \<open>products_ok ?d'\<close> _ rows]) (auto simp: flows_def product_key_def)
  moreover have "trail_ok ?d'" by (rule trail_ok_same [OF ok(2) _ rows]) (auto simp: product_key_def)
  ultimately show ?thesis using assms
    by (auto simp: transaction_def setActive_tx_def shop_ok_def split: sum.splits option.splits)
qed

section \<open>Sequences of requests\<close>

datatype shop_request =
    Sell sale_env actor create_sale_dto
  | Credit deuda_request
  | NewProduct product_env actor create_product_dto
  | EditProduct product_env actor uuid product_update
  | RestockProduct product_env actor uuid restock_dto
  | HideProduct actor uuid
  | ShowProduct actor uuid
  | NewImage product_env actor uuid "string result" bool

record 'd shop_world =
  w_money :: "'d dinero_lib"
  w_hash :: "string \<Rightarrow> string"
  w_days :: "int \<Rightarrow> string"
  w_url :: "string \<Rightarrow> string"

fun serve_shop :: "'d shop_world \<Rightarrow> shop_request \<Rightarrow> db \<Rightarrow> db" where
  "serve_shop w (Sell env actor dto) d = snd (createSale (w_money w) (w_hash w) (w_days w) env actor dto d)"
| "serve_shop w (Credit q) d = serve_deuda (w_money w) (w_hash w) q d"
| "serve_shop w (NewProduct env actor dto) d = snd (createProduct (w_url w) env actor dto d)"
| "serve_shop w (EditProduct env actor i dto) d = snd (patchProduct (w_url w) env actor i dto d)"
| "serve_shop w (RestockProduct env actor i dto) d = snd (restock (w_money w) env actor i dto d)"
| "serve_shop w (HideProduct actor i) d = snd (deactivate (w_url w) actor i d)"
| "serve_shop w (ShowProduct actor i) d = snd (reactivate (w_url w) actor i d)"
| "serve_shop w (NewImage env actor i saved removable) d = fst (snd (setImage (w_url w) env actor i saved removable (d, [])))"

fun serve_shops :: "'d shop_world \<Rightarrow> shop_request list \<Rightarrow> db \<Rightarrow> db" where
  "serve_shops w [] d = d"
| "serve_shops w (q # qs) d = serve_shops w qs (serve_shop w q d)"

text \<open>What the validation of the bodies lets through; the transactions in between keep the invariant.\<close>

fun valid_shop_request :: "shop_request \<Rightarrow> bool" where
  "valid_shop_request (Sell env actor dto) \<longleftrightarrow> valid_items dto \<and> keeps_shop (se_others env)"
| "valid_shop_request (Credit (NewDeuda env actor dto)) \<longleftrightarrow> keeps_shop (de_others env)"
| "valid_shop_request (Credit (NewAbono env actor i dto)) \<longleftrightarrow> keeps_shop (de_others env)"
| "valid_shop_request (Credit q) \<longleftrightarrow> True"
| "valid_shop_request (NewProduct env actor dto) \<longleftrightarrow> valid_create_product dto"
| "valid_shop_request (EditProduct env actor i dto) \<longleftrightarrow> valid_patch dto"
| "valid_shop_request (RestockProduct env actor i dto) \<longleftrightarrow> valid_restock dto \<and> keeps_shop (pe_others env)"
| "valid_shop_request (HideProduct actor i) \<longleftrightarrow> True"
| "valid_shop_request (ShowProduct actor i) \<longleftrightarrow> True"
| "valid_shop_request (NewImage env actor i saved removable) \<longleftrightarrow> keeps_shop (pe_others env)"

lemma patch_shop: "valid_patch dto \<Longrightarrow> shop_ok d \<Longrightarrow> shop_ok (snd (patchProduct getUrl env actor i dto d))"
  by (auto simp: patchProduct_def valid_patch_def between_def intro!: mutate_shop)

lemma image_shop:
  assumes "keeps_shop (pe_others env)" "shop_ok d"
  shows "shop_ok (fst (snd (setImage getUrl env actor i saved removable (d, fs))))"
proof -
  have ok: "shop_ok (pe_others env 1 d)" by (rule keeps_shop_run [OF assms])
  have "shop_ok (snd (mutate getUrl env actor i u (pe_others env 1 d)))" if "up_unitPriceMinor u = None" for u
    by (rule mutate_shop [OF _ ok]) (simp add: that)
  then show ?thesis
    using assms(2) by (auto simp: setImage_def Let_def split: sum.split prod.split) (metis product_update.select_convs(2) snd_conv)+
qed

lemma serve_shop_ok:
  assumes "dinero_laws (w_money w)" "valid_shop_request q" "shop_ok d"
  shows "shop_ok (serve_shop w q d)"
proof (cases q)
  case (Credit c)
  with assms show ?thesis by (cases c) (simp_all add: createDeuda_shop registerAbono_shop cuota_shop)
qed (use assms in \<open>simp_all add: createSale_shop createProduct_shop patch_shop restock_shop setActive_shop
    image_shop deactivate_def reactivate_def\<close>)

text \<open>C13: no piece of stock is lost or invented and the history of prices has no gap. After any sequence of sales,
  debts, payments, restocks and changes of the catalog (validated requests, executed or refused, each
  interleaved with transactions that keep the invariant), the stock of every product is its initial stock
  plus what was restocked less what was sold and lent and is not negative, and the audit rows of every
  product lead from its creation, each starting from the price the one before ended with, to its current
  price.\<close>

theorem shop_conserves_stock:
  assumes "dinero_laws (w_money w)" "list_all valid_shop_request requests" "shop_ok d"
  shows "shop_ok (serve_shops w requests d)"
  using assms(2,3)
  by (induction requests arbitrary: d) (simp_all add: serve_shop_ok [OF assms(1)])

text \<open>A morning in the shop: two sales, a restock, a new price and a new product.\<close>

definition sample_product_env :: "string \<Rightarrow> product_env" where
  "sample_product_env prefix = \<lparr>pe_others = (\<lambda>k x. x), pe_ids = (\<lambda>k. prefix @ show_nat k), pe_changedAt = 1768400070000,
     pe_createdAt = 1768400070000\<rparr>"

definition created_audit :: "uuid \<Rightarrow> product \<Rightarrow> product_audit" where
  "created_audit i p = \<lparr>rid = i, ctx = ''t1'', pa_productId = rid p, pa_memberId = ''m1'', pa_changedAt = 1767000000000,
     pa_oldUnitPriceMinor = None, pa_newUnitPriceMinor = p_unitPriceMinor p, pa_before = None, pa_after = JNull\<rparr>"

definition shop_db :: db where
  "shop_db = sample_db\<lparr>productAudits := [created_audit ''pa1'' (sample_product ''p1'' 2500 13 10 (Some 1000)),
     created_audit ''pa2'' (sample_product ''p2'' 700 3 3 None)]\<rparr>"

definition no_update :: product_update where
  "no_update = \<lparr>up_name = None, up_unitPriceMinor = None, up_imagePath = None, up_category = None,
     up_purchaseCostMinor = None, up_supplier = None, up_notes = None, up_brand = None, up_presentation = None,
     up_description = None\<rparr>"

definition sample_world :: "snapshot shop_world" where
  "sample_world = \<lparr>w_money = exact_dinero, w_hash = (\<lambda>s. ''h''), w_days = (\<lambda>n. []), w_url = id\<rparr>"

definition sample_morning :: "shop_request list" where
  "sample_morning = [Sell sample_env carla sample_sale_request,
     RestockProduct (sample_product_env ''r'') ana ''p1'' \<lparr>rk_quantity = 5, rk_unitCostMinor = Some 1500, rk_note = None\<rparr>,
     EditProduct (sample_product_env ''e'') ana ''p1'' (no_update\<lparr>up_unitPriceMinor := Some 2700\<rparr>),
     NewProduct (sample_product_env ''n'') ana \<lparr>cp_name = ''taza'', cp_tipo = Cantidad, cp_unitPriceMinor = 900,
       cp_initialStock = Some 4, cp_category = None, cp_purchaseCostMinor = 300, cp_supplier = None, cp_notes = None,
       cp_brand = None, cp_presentation = None, cp_description = None\<rparr>]"

definition shelf :: "db \<Rightarrow> (uuid \<times> int \<times> int \<times> int option) list" where
  "shelf d = map (\<lambda>p. (rid p, p_stock p, p_unitPriceMinor p, p_purchaseCostMinor p)) (products d)"

lemma keeps_shop_alone: "(\<And>k x. w k x = x) \<Longrightarrow> keeps_shop w"
  by (simp add: keeps_shop_def)

lemma shop_conserves_stock_witness:
  "shop_ok (serve_shops sample_world sample_morning shop_db)
   \<and> shelf (serve_shops sample_world sample_morning shop_db)
       = [(''p1'', 13, 2700, Some 1192), (''p2'', 2, 700, None), (''n0'', 4, 900, Some 300)]"
proof
  have start: "shop_ok shop_db" by code_simp
  have "valid_items sample_sale_request" by code_simp
  then have "list_all valid_shop_request sample_morning"
    by (simp add: sample_morning_def valid_restock_def valid_patch_def valid_create_product_def between_def
        MAX_MINOR_UNITS_def no_update_def keeps_shop_alone sample_env_def sample_product_env_def)
  from shop_conserves_stock [OF _ this start, of sample_world]
  show "shop_ok (serve_shops sample_world sample_morning shop_db)" by (simp add: sample_world_def)
  show "shelf (serve_shops sample_world sample_morning shop_db)
      = [(''p1'', 13, 2700, Some 1192), (''p2'', 2, 700, None), (''n0'', 4, 900, Some 300)]"
    by code_simp
qed

end
