(* ===== verification/Commissions.thy ===== *)
theory Commissions
  imports Overview
begin

text \<open>
  The sales commissions (\<open>src/commissions/commissions.service.ts\<close>): the rates a partner configures and
  what every colaborador earned in a period. Nothing is paid here.
\<close>

definition MAX_COMMISSION_RATE_BPS :: int where
  "MAX_COMMISSION_RATE_BPS = 10000"

text \<open>\<open>multiply\<close> by the exact rational \<open>rateBps / 10^4\<close>, back to cents with \<open>halfUp\<close>.\<close>

definition commissionMinorFor :: "'d dinero_lib \<Rightarrow> int \<Rightarrow> int \<Rightarrow> int result" where
  "commissionMinorFor D totalSoldMinor rateBps =
     (case toDinero D totalSoldMinor of Inl e \<Rightarrow> Inl e
      | Inr x \<Rightarrow> toMinorUnits D (transformScaleHalfUp D (multiplyScaled D x rateBps 4) 2))"

section \<open>The rates\<close>

text \<open>An upsert on the only row of the business.\<close>

definition setGlobalRate :: "string \<Rightarrow> int \<Rightarrow> db \<Rightarrow> db" where
  "setGlobalRate c rateBps d =
     (if c \<in> as_contextId ` set (appSettings d)
      then d\<lparr>appSettings := map (\<lambda>s. if as_contextId s = c then s\<lparr>as_defaultCommissionRateBps := rateBps\<rparr> else s) (appSettings d)\<rparr>
      else d\<lparr>appSettings := appSettings d @ [\<lparr>as_contextId = c, as_defaultCommissionRateBps = rateBps\<rparr>]\<rparr>)"

definition setMemberRate :: "string \<Rightarrow> uuid \<Rightarrow> int option \<Rightarrow> db \<Rightarrow> member result \<times> db" where
  "setMemberRate c memberId rateBps d =
     (case find_row c memberId (members d) of
        None \<Rightarrow> (Inl (NotFound (''Member '' @ memberId @ '' not found'')), d)
      | Some m \<Rightarrow>
          if m_role m \<noteq> Colaborador
          then (Inl (BadRequest ''Only colaboradores have an individual commission rate''), d)
          else (Inr (m\<lparr>m_commissionRateBps := rateBps\<rparr>),
                d\<lparr>members := update_row c memberId (\<lambda>m. m\<lparr>m_commissionRateBps := rateBps\<rparr>) (members d)\<rparr>))"

section \<open>The calculation\<close>

record commission_query =
  cq_memberId :: "uuid option"
  cq_from :: "string option"
  cq_to :: "string option"

record commission_item =
  ci_memberId :: uuid
  ci_memberName :: string
  ci_totalSoldMinor :: int
  ci_rateBps :: int
  ci_commissionMinor :: int

record commissions =
  cm_from :: instant
  cm_to :: instant
  cm_items :: "commission_item list"

text \<open>\<open>parse\<close> is \<open>new Date\<close> on a value that is not a bare date, \<open>now\<close> the clock.\<close>

definition commission_range ::
  "(string \<Rightarrow> instant option) \<Rightarrow> instant \<Rightarrow> commission_query \<Rightarrow> (instant \<times> instant) result"
where
  "commission_range parse now q =
     (case (cq_from q, cq_to q) of
        (None, None) \<Rightarrow> Inr (currentWeekRange now)
      | (Some f, Some t) \<Rightarrow>
          (case parseRangeBoundary parse f StartOfDay of Inl e \<Rightarrow> Inl e
           | Inr a \<Rightarrow> (case parseRangeBoundary parse t EndOfDay of Inl e \<Rightarrow> Inl e | Inr b \<Rightarrow> Inr (a, b)))
      | _ \<Rightarrow> Inl (BadRequest ''from and to must be provided together, or omitted together for the current week''))"

definition sold_by :: "db \<Rightarrow> string \<Rightarrow> instant \<times> instant \<Rightarrow> uuid \<Rightarrow> sale list" where
  "sold_by d c period memberId = [s \<leftarrow> in_context c (sales d). s_memberId s = memberId \<and> s_status s = Completada
     \<and> fst period \<le> s_receivedAt s \<and> s_receivedAt s \<le> snd period]"

text \<open>\<open>_sum\<close> ignores NULL; the sum of nothing is NULL, which the code reads as 0.\<close>

definition total_sold :: "sale list \<Rightarrow> int" where
  "total_sold ss = sum_list (map (\<lambda>s. case s_totalMinor s of None \<Rightarrow> 0 | Some x \<Rightarrow> x) ss)"

definition globalRate :: "db \<Rightarrow> string \<Rightarrow> int" where
  "globalRate d c = (case find (\<lambda>s. as_contextId s = c) (appSettings d) of None \<Rightarrow> 0 | Some s \<Rightarrow> as_defaultCommissionRateBps s)"

definition commission_for :: "'d dinero_lib \<Rightarrow> db \<Rightarrow> string \<Rightarrow> instant \<times> instant \<Rightarrow> member \<Rightarrow> commission_item result" where
  "commission_for D d c period m =
     (let sold = total_sold (sold_by d c period (rid m));
          rateBps = (case m_commissionRateBps m of None \<Rightarrow> globalRate d c | Some r \<Rightarrow> r) in
      case commissionMinorFor D sold rateBps of Inl e \<Rightarrow> Inl e
      | Inr commission \<Rightarrow> Inr \<lparr>ci_memberId = rid m, ci_memberName = m_name m, ci_totalSoldMinor = sold,
          ci_rateBps = rateBps, ci_commissionMinor = commission\<rparr>)"

text \<open>\<open>Promise.all\<close>: every result, or the error of the first that fails.\<close>

fun all_results :: "('e + 'a) list \<Rightarrow> 'e + 'a list" where
  "all_results [] = Inr []"
| "all_results (x # xs) = (case x of Inl e \<Rightarrow> Inl e
     | Inr y \<Rightarrow> (case all_results xs of Inl e \<Rightarrow> Inl e | Inr ys \<Rightarrow> Inr (y # ys)))"

text \<open>\<open>by_name\<close> is the order of names in the database.\<close>

definition calculateCommissions ::
  "'d dinero_lib \<Rightarrow> (string \<Rightarrow> instant option) \<Rightarrow> (string \<Rightarrow> 'k::linorder) \<Rightarrow> instant \<Rightarrow> db \<Rightarrow> string \<Rightarrow> commission_query
    \<Rightarrow> commissions result"
where
  "calculateCommissions D parse by_name now d c q =
     (case commission_range parse now q of Inl e \<Rightarrow> Inl e
      | Inr period \<Rightarrow>
        let ms = sort_key (\<lambda>m. (by_name (m_name m), rid m)) [m \<leftarrow> in_context c (members d). m_role m = Colaborador
               \<and> (case cq_memberId q of None \<Rightarrow> True | Some i \<Rightarrow> rid m = i)] in
        if ms = [] \<and> cq_memberId q \<noteq> None
        then Inl (NotFound (''Colaborador '' @ the (cq_memberId q) @ '' not found in this context''))
        else
          (case all_results (map (commission_for D d c period) ms) of Inl e \<Rightarrow> Inl e
           | Inr items \<Rightarrow> Inr \<lparr>cm_from = fst period, cm_to = snd period, cm_items = items\<rparr>))"

section \<open>What a commission is\<close>

lemma all_results_Inr: "all_results xs = Inr ys \<longleftrightarrow> xs = map Inr ys"
proof
  show "all_results xs = Inr ys \<Longrightarrow> xs = map Inr ys"
    by (induction xs arbitrary: ys) (auto split: sum.splits)
  have "all_results (map Inr ys) = Inr ys" by (induction ys) auto
  then show "xs = map Inr ys \<Longrightarrow> all_results xs = Inr ys" by simp
qed

lemma all_results_Inl: "all_results xs = Inl e \<Longrightarrow> Inl e \<in> set xs"
  by (induction xs) (auto split: sum.splits)

lemma commissionMinorFor_exact:
  assumes "dinero_laws D" "0 \<le> sold" "0 \<le> rate" "rate \<le> MAX_COMMISSION_RATE_BPS"
  shows "commissionMinorFor D sold rate = (if int4 sold then Inr (half_up (sold * rate) 10000)
    else Inl (RangeErr ''Amount must be integer cents within the PostgreSQL Int range''))"
proof (cases "int4 sold")
  case True
  obtain x where x: "toDinero D sold = Inr x" "toSnapshot D x = \<lparr>snap_amount = sold, snap_currency = MXN, snap_scale = 2\<rparr>"
    using toDinero_ok [OF assms(1) True] unfolding cents_def by blast
  have rate: "rate \<le> 10000" using assms(4) by (simp add: MAX_COMMISSION_RATE_BPS_def)
  have nonneg: "0 \<le> sold * rate" using assms(2,3) by simp
  have sold: "sold \<le> 2147483647" using True by (simp add: int4_def MAX_MINOR_UNITS_def)
  have "sold * rate \<le> 2147483647 * 10000" using assms(2,3) rate sold by (intro mult_mono) auto
  then have safe: "safe_int (sold * rate)" using nonneg by (simp add: safe_int_def MAX_SAFE_INTEGER_def)
  have scaled: "toSnapshot D (multiplyScaled D x rate 4) = \<lparr>snap_amount = sold * rate, snap_currency = MXN, snap_scale = 2 + 4\<rparr>"
    using assms(1) x(2) safe unfolding dinero_laws_def by blast
  have "cur_base MXN = 10" by (simp add: MXN_def)
  then have "toSnapshot D (transformScaleHalfUp D (multiplyScaled D x rate 4) 2)
      = \<lparr>snap_amount = half_up (sold * rate) (10 ^ nat (2 + 4 - 2)), snap_currency = MXN, snap_scale = 2\<rparr>"
    using assms(1) scaled safe nonneg unfolding dinero_laws_def by auto
  then have c: "cents D (transformScaleHalfUp D (multiplyScaled D x rate 4) 2) (half_up (sold * rate) 10000)"
    by (simp add: cents_def)
  have "half_up (sold * rate) 10000 \<le> sold" "0 \<le> half_up (sold * rate) 10000"
    using half_up_between [of 10000 0 "sold * rate" sold] nonneg assms(2,3) rate
    by (simp_all add: half_up_def mult_left_mono)
  then have "int4 (half_up (sold * rate) 10000)" using True assms(2) by (auto simp: int4_def)
  with True x(1) show ?thesis by (simp add: commissionMinorFor_def toMinorUnits_cents [OF c])
next
  case False
  then show ?thesis by (simp add: commissionMinorFor_def toDinero_error)
qed

text \<open>Totals are not negative and the rates are those the bodies may set.\<close>

definition commissions_ok :: "db \<Rightarrow> bool" where
  "commissions_ok d \<longleftrightarrow>
     list_all (\<lambda>s. case s_totalMinor s of None \<Rightarrow> True | Some x \<Rightarrow> 0 \<le> x) (sales d)
   \<and> list_all (\<lambda>s. 0 \<le> as_defaultCommissionRateBps s \<and> as_defaultCommissionRateBps s \<le> MAX_COMMISSION_RATE_BPS) (appSettings d)
   \<and> list_all (\<lambda>m. case m_commissionRateBps m of None \<Rightarrow> True | Some r \<Rightarrow> 0 \<le> r \<and> r \<le> MAX_COMMISSION_RATE_BPS) (members d)"

lemma commission_for_exact:
  assumes "dinero_laws D" "commissions_ok d" "m \<in> set (members d)"
  shows "\<exists>rate. 0 \<le> rate \<and> rate \<le> MAX_COMMISSION_RATE_BPS
    \<and> rate = (case m_commissionRateBps m of None \<Rightarrow> globalRate d c | Some r \<Rightarrow> r)
    \<and> 0 \<le> total_sold (sold_by d c period (rid m))
    \<and> commission_for D d c period m =
        (if int4 (total_sold (sold_by d c period (rid m)))
         then Inr \<lparr>ci_memberId = rid m, ci_memberName = m_name m, ci_totalSoldMinor = total_sold (sold_by d c period (rid m)),
            ci_rateBps = rate, ci_commissionMinor = half_up (total_sold (sold_by d c period (rid m)) * rate) 10000\<rparr>
         else Inl (RangeErr ''Amount must be integer cents within the PostgreSQL Int range''))"
proof -
  let ?rate = "case m_commissionRateBps m of None \<Rightarrow> globalRate d c | Some r \<Rightarrow> r"
  have global: "0 \<le> globalRate d c \<and> globalRate d c \<le> MAX_COMMISSION_RATE_BPS"
    using assms(2) by (auto simp: globalRate_def commissions_ok_def list_all_iff MAX_COMMISSION_RATE_BPS_def
        split: option.split dest!: find_Some_set)
  have rate: "0 \<le> ?rate" "?rate \<le> MAX_COMMISSION_RATE_BPS"
    using global assms(2,3) by (auto simp: commissions_ok_def list_all_iff split: option.splits)
  have "\<forall>s \<in> set (sales d). 0 \<le> (case s_totalMinor s of None \<Rightarrow> 0 | Some x \<Rightarrow> x)"
    using assms(2) by (auto simp: commissions_ok_def list_all_iff split: option.splits)
  then have sold: "0 \<le> total_sold (sold_by d c period (rid m))"
    unfolding total_sold_def by (intro sum_list_int_nonneg) (auto simp: sold_by_def in_context_def)
  show ?thesis
    using rate sold commissionMinorFor_exact [OF assms(1) sold rate]
    by (intro exI [of _ ?rate]) (simp add: commission_for_def Let_def)
qed

text \<open>C16: the commissions of a period. Every colaborador of the business asked for gets one item, with the sum of
  the completed sales the server received from them between the two ends (both included), the rate of the
  colaborador or else that of the business, and their product in whole cents rounded half up, so a
  commission is at most half a cent off and never more than what was sold.\<close>

theorem commissions_exact:
  assumes "dinero_laws D" "commissions_ok d" "calculateCommissions D parse by_name now d c q = Inr out"
  shows "commission_range parse now q = Inr (cm_from out, cm_to out)
    \<and> mset (map ci_memberId (cm_items out)) = mset (map rid [m \<leftarrow> in_context c (members d). m_role m = Colaborador
         \<and> (case cq_memberId q of None \<Rightarrow> True | Some i \<Rightarrow> rid m = i)])
    \<and> (\<forall>x \<in> set (cm_items out). \<exists>m \<in> set (members d). rid m = ci_memberId x \<and> ctx m = c
         \<and> ci_rateBps x = (case m_commissionRateBps m of None \<Rightarrow> globalRate d c | Some r \<Rightarrow> r)
         \<and> ci_totalSoldMinor x = total_sold (sold_by d c (cm_from out, cm_to out) (rid m))
         \<and> (2 * ci_commissionMinor x - 1) * 10000 \<le> 2 * (ci_totalSoldMinor x * ci_rateBps x)
         \<and> 2 * (ci_totalSoldMinor x * ci_rateBps x) < (2 * ci_commissionMinor x + 1) * 10000
         \<and> 0 \<le> ci_commissionMinor x \<and> ci_commissionMinor x \<le> ci_totalSoldMinor x)"
proof -
  let ?who = "[m \<leftarrow> in_context c (members d). m_role m = Colaborador \<and> (case cq_memberId q of None \<Rightarrow> True | Some i \<Rightarrow> rid m = i)]"
  let ?ms = "sort_key (\<lambda>m. (by_name (m_name m), rid m)) ?who"
  from assms(3) obtain period where r: "commission_range parse now q = Inr period"
    by (auto simp: calculateCommissions_def split: sum.splits)
  with assms(3) obtain items where items: "all_results (map (commission_for D d c period) ?ms) = Inr items"
      and out: "out = \<lparr>cm_from = fst period, cm_to = snd period, cm_items = items\<rparr>"
    by (auto simp: calculateCommissions_def Let_def split: sum.splits if_splits)
  have each: "map (commission_for D d c period) ?ms = map Inr items" using items by (simp add: all_results_Inr)
  have fine: "\<exists>x. commission_for D d c period m = Inr x" if "m \<in> set ?ms" for m
  proof -
    have "commission_for D d c period m \<in> set (map Inr items)" unfolding each [symmetric] using that by simp
    then show ?thesis by auto
  qed
  have list: "items = map (\<lambda>m. projr (commission_for D d c period m)) ?ms"
  proof -
    have "map projr (map (commission_for D d c period) ?ms) = items" unfolding each by (simp add: o_def)
    then show ?thesis by (simp add: o_def)
  qed
  have item: "ci_memberId (projr (commission_for D d c period m)) = rid m
      \<and> ci_rateBps (projr (commission_for D d c period m)) = (case m_commissionRateBps m of None \<Rightarrow> globalRate d c | Some r \<Rightarrow> r)
      \<and> ci_totalSoldMinor (projr (commission_for D d c period m)) = total_sold (sold_by d c period (rid m))
      \<and> ci_commissionMinor (projr (commission_for D d c period m)) = half_up (total_sold (sold_by d c period (rid m))
           * (case m_commissionRateBps m of None \<Rightarrow> globalRate d c | Some r \<Rightarrow> r)) 10000
      \<and> 0 \<le> total_sold (sold_by d c period (rid m))
      \<and> (let rate = (case m_commissionRateBps m of None \<Rightarrow> globalRate d c | Some r \<Rightarrow> r) in 0 \<le> rate \<and> rate \<le> 10000)"
    if "m \<in> set ?ms" for m
  proof -
    have "m \<in> set (members d)" using that by (simp add: in_context_def)
    from commission_for_exact [OF assms(1,2) this, of c period] fine [OF that] show ?thesis
      by (auto simp: MAX_COMMISSION_RATE_BPS_def split: if_splits)
  qed
  have "map ci_memberId items = map rid ?ms" unfolding list using item by simp
  then have "mset (map ci_memberId items) = mset (map rid ?ms)" by (rule arg_cong)
  then have ids: "mset (map ci_memberId items) = mset (map rid ?who)" by (simp only: mset_map mset_sort)
  have "\<exists>m \<in> set (members d). rid m = ci_memberId x \<and> ctx m = c
         \<and> ci_rateBps x = (case m_commissionRateBps m of None \<Rightarrow> globalRate d c | Some r \<Rightarrow> r)
         \<and> ci_totalSoldMinor x = total_sold (sold_by d c (fst period, snd period) (rid m))
         \<and> (2 * ci_commissionMinor x - 1) * 10000 \<le> 2 * (ci_totalSoldMinor x * ci_rateBps x)
         \<and> 2 * (ci_totalSoldMinor x * ci_rateBps x) < (2 * ci_commissionMinor x + 1) * 10000
         \<and> 0 \<le> ci_commissionMinor x \<and> ci_commissionMinor x \<le> ci_totalSoldMinor x"
    if "x \<in> set items" for x
  proof -
    from that obtain m where m: "m \<in> set ?ms" "x = projr (commission_for D d c period m)" unfolding list by auto
    let ?rate = "case m_commissionRateBps m of None \<Rightarrow> globalRate d c | Some r \<Rightarrow> r"
    let ?sold = "total_sold (sold_by d c period (rid m))"
    note i = item [OF m(1), folded m(2), unfolded Let_def]
    have "0 * 10000 \<le> ?sold * ?rate" "?sold * ?rate \<le> ?sold * 10000" using i by (simp_all add: mult_left_mono)
    from half_up_between [OF _ this] half_up_bounds [of 10000 "?sold * ?rate"] i m(1)
    show ?thesis by (intro bexI [of _ m]) (simp_all add: half_up_def in_context_def)
  qed
  with r out ids show ?thesis by simp
qed

definition sample_commissions :: "commissions result" where
  "sample_commissions = calculateCommissions exact_dinero (\<lambda>_. None) id 1768500000000 sample_db ''t1''
     \<lparr>cq_memberId = None, cq_from = Some ''2026-01-01'', cq_to = Some ''2026-01-31''\<rparr>"

lemma commissions_exact_witness:
  "\<exists>out. sample_commissions = Inr out \<and> map ci_memberId (cm_items out) = [''m3'']
     \<and> map ci_commissionMinor (cm_items out) = [250]
     \<and> mset (map ci_memberId (cm_items out)) = mset [''m3'']"
proof -
  have run: "is_ok sample_commissions" "map ci_memberId (cm_items (projr sample_commissions)) = [''m3'']"
    "map ci_commissionMinor (cm_items (projr sample_commissions)) = [250]" by code_simp+
  have "commissions_ok sample_db" by code_simp
  from commissions_exact [OF exact_dinero_laws this is_ok_projr [OF run(1), unfolded sample_commissions_def]]
  have "mset (map ci_memberId (cm_items (projr sample_commissions)))
      = mset (map rid [m \<leftarrow> in_context ''t1'' (members sample_db). m_role m = Colaborador])"
    by (simp add: sample_commissions_def)
  moreover have "map rid [m \<leftarrow> in_context ''t1'' (members sample_db). m_role m = Colaborador] = [''m3'']" by code_simp
  ultimately show ?thesis using is_ok_projr [OF run(1)] run(2,3) by metis
qed

end
