(* ===== verification/Incidencias.thy ===== *)
theory Incidencias
  imports Paging Sample
begin

text \<open>
  The review of what a sale left to look at (\<open>src/incidencias/incidencias.service.ts\<close>): a lost race for
  the stock or an implausible date. A partner resolves an incidencia once. The three statements of
  \<open>resolve\<close> are three transactions, so two requests can meet between them: the interleaving is a step
  relation over the requests on their way.
\<close>

section \<open>Reading\<close>

record incidencia_query =
  iq_type :: "incidencia_type option"
  iq_resolutionStatus :: "resolution_status option"
  iq_search :: "string option"
  iq_descending :: bool
  iq_page :: int
  iq_limit :: int

text \<open>The seller of the sale an incidencia is about, through \<open>sale: {member: {contextId}}\<close>.\<close>

definition seller :: "db \<Rightarrow> string \<Rightarrow> incidencia \<Rightarrow> member option" where
  "seller d c x = (case find_row c (in_saleId x) (sales d) of None \<Rightarrow> None | Some s \<Rightarrow> find_row c (s_memberId s) (members d))"

definition visible :: "db \<Rightarrow> string \<Rightarrow> incidencia \<Rightarrow> bool" where
  "visible d c x \<longleftrightarrow> ctx x = c \<and> seller d c x \<noteq> None"

text \<open>\<open>contains\<close> is the insensitive search of the database; an empty search is no filter.\<close>

definition incidencia_where :: "(string \<Rightarrow> string \<Rightarrow> bool) \<Rightarrow> db \<Rightarrow> string \<Rightarrow> incidencia_query \<Rightarrow> incidencia \<Rightarrow> bool" where
  "incidencia_where contains d c q x \<longleftrightarrow> visible d c x
   \<and> (case iq_search q of Some (y # ys) \<Rightarrow> contains (m_name (the (seller d c x))) (y # ys) | _ \<Rightarrow> True)
   \<and> (case iq_type q of None \<Rightarrow> True | Some t \<Rightarrow> in_type x = t)
   \<and> (case iq_resolutionStatus q of None \<Rightarrow> True | Some r \<Rightarrow> in_resolutionStatus x = r)"

definition listIncidencias :: "(string \<Rightarrow> string \<Rightarrow> bool) \<Rightarrow> db \<Rightarrow> string \<Rightarrow> incidencia_query \<Rightarrow> incidencia page" where
  "listIncidencias contains d c q =
     paged (\<lambda>x. (if iq_descending q then - in_detectedAt x else in_detectedAt x, rid x)) (iq_page q) (iq_limit q)
       (filter (incidencia_where contains d c q) (incidencias d))"

text \<open>With the sale and its lines.\<close>

definition findIncidencia :: "db \<Rightarrow> string \<Rightarrow> uuid \<Rightarrow> (incidencia \<times> sale \<times> sale_item list) result" where
  "findIncidencia d c i =
     (case find (\<lambda>x. rid x = i \<and> visible d c x) (incidencias d) of
        None \<Rightarrow> Inl (NotFound [])
      | Some x \<Rightarrow>
         (case find_row c (in_saleId x) (sales d) of
            None \<Rightarrow> Inl (NotFound [])
          | Some s \<Rightarrow> Inr (x, s, [l \<leftarrow> in_context c (saleItems d). si_saleId l = rid s])))"

section \<open>Resolving\<close>

record resolve_request =
  rq_contextId :: string
  rq_id :: uuid
  rq_memberId :: uuid
  rq_notes :: string
  rq_now :: instant

text \<open>The three statements: is it there, write if it is pending, read it back.\<close>

definition resolve_check :: "resolve_request \<Rightarrow> db \<Rightarrow> unit result" where
  "resolve_check q d =
     (case find (\<lambda>x. rid x = rq_id q \<and> visible d (rq_contextId q) x) (incidencias d) of
        None \<Rightarrow> Inl (NotFound []) | Some _ \<Rightarrow> Inr ())"

definition resolved_row :: "resolve_request \<Rightarrow> incidencia \<Rightarrow> incidencia" where
  "resolved_row q x = x\<lparr>in_resolutionStatus := Resuelta, in_resolvedByMemberId := Some (rq_memberId q),
     in_resolvedAt := Some (rq_now q), in_resolutionNotes := Some (rq_notes q)\<rparr>"

definition pending :: "resolve_request \<Rightarrow> incidencia \<Rightarrow> bool" where
  "pending q x \<longleftrightarrow> rid x = rq_id q \<and> ctx x = rq_contextId q \<and> in_resolutionStatus x = PorResolver"

definition resolve_write :: "resolve_request \<Rightarrow> db \<Rightarrow> nat \<times> db" where
  "resolve_write q d = (length (filter (pending q) (incidencias d)),
     d\<lparr>incidencias := map (\<lambda>x. if pending q x then resolved_row q x else x) (incidencias d)\<rparr>)"

definition already_resolved :: "resolve_request \<Rightarrow> failure" where
  "already_resolved q = Conflict (''Incidencia '' @ rq_id q @ '' is already resolved'')"

definition resolve_read :: "resolve_request \<Rightarrow> db \<Rightarrow> incidencia result" where
  "resolve_read q d = (case find_row (rq_contextId q) (rq_id q) (incidencias d) of
     None \<Rightarrow> Inl (Internal ''P2025'') | Some x \<Rightarrow> Inr x)"

text \<open>\<open>w1\<close> and \<open>w2\<close> are what other transactions commit between the statements.\<close>

definition resolve :: "(db \<Rightarrow> db) \<Rightarrow> (db \<Rightarrow> db) \<Rightarrow> resolve_request \<Rightarrow> db \<Rightarrow> incidencia result \<times> db" where
  "resolve w1 w2 q d =
     (case resolve_check q d of
        Inl e \<Rightarrow> (Inl e, d)
      | Inr _ \<Rightarrow>
         (case resolve_write q (w1 d) of
            (n, d2) \<Rightarrow> if n = 0 then (Inl (already_resolved q), d2)
                           else (resolve_read q (w2 d2), w2 d2)))"

section \<open>Requests on their way\<close>

datatype resolve_pc = Arrived | Found | Written | Answered "incidencia result"

text \<open>Request \<open>i\<close> executes its next statement.\<close>

definition advance :: "resolve_request \<Rightarrow> db \<Rightarrow> resolve_pc \<Rightarrow> db \<times> resolve_pc" where
  "advance q d p =
     (case p of
        Arrived \<Rightarrow> (d, case resolve_check q d of Inl e \<Rightarrow> Answered (Inl e) | Inr _ \<Rightarrow> Found)
      | Found \<Rightarrow> (case resolve_write q d of
          (n, d2) \<Rightarrow> (d2, if n = 0 then Answered (Inl (already_resolved q)) else Written))
      | Written \<Rightarrow> (d, Answered (resolve_read q d))
      | Answered out \<Rightarrow> (d, p))"

definition thread_step :: "resolve_request list \<Rightarrow> nat \<Rightarrow> db \<times> resolve_pc list \<Rightarrow> db \<times> resolve_pc list" where
  "thread_step qs i s = (case advance (qs ! i) (fst s) (snd s ! i) of (d, p) \<Rightarrow> (d, (snd s)[i := p]))"

text \<open>A statement of one of the requests, or a commit of another transaction of the program.\<close>

inductive resolve_step :: "(db \<Rightarrow> db) set \<Rightarrow> resolve_request list \<Rightarrow> db \<times> resolve_pc list \<Rightarrow> db \<times> resolve_pc list \<Rightarrow> bool"
  for W qs where
  statement: "i < length qs \<Longrightarrow> resolve_step W qs s (thread_step qs i s)"
| elsewhere: "w \<in> W \<Longrightarrow> resolve_step W qs (d, ps) (w d, ps)"

inductive_cases resolve_stepE [elim]: "resolve_step W qs s s'"

definition arrived :: "resolve_request list \<Rightarrow> db \<Rightarrow> db \<times> resolve_pc list" where
  "arrived qs d = (d, map (\<lambda>_. Arrived) qs)"

definition resolve_runs :: "(db \<Rightarrow> db) set \<Rightarrow> resolve_request list \<Rightarrow> db \<Rightarrow> db \<times> resolve_pc list \<Rightarrow> bool" where
  "resolve_runs W qs d s \<longleftrightarrow> (resolve_step W qs)\<^sup>*\<^sup>* (arrived qs d) s"

text \<open>A schedule names the request that moves.\<close>

definition interleave :: "resolve_request list \<Rightarrow> nat list \<Rightarrow> db \<times> resolve_pc list \<Rightarrow> db \<times> resolve_pc list" where
  "interleave qs sched s = foldl (\<lambda>s i. thread_step qs i s) s sched"

lemma schedule_runs:
  assumes "\<forall>i \<in> set sched. i < length qs"
  shows "resolve_runs W qs d (interleave qs sched (arrived qs d))"
proof -
  have "(resolve_step W qs)\<^sup>*\<^sup>* s (interleave qs sched s)" for s
    using assms
  proof (induction sched arbitrary: s)
    case Nil
    show ?case by (simp add: interleave_def)
  next
    case (Cons i sched)
    then have "resolve_step W qs s (thread_step qs i s)" "(resolve_step W qs)\<^sup>*\<^sup>* (thread_step qs i s) (interleave qs sched (thread_step qs i s))"
      by (simp_all add: statement)
    then show ?case by (simp add: interleave_def converse_rtranclp_into_rtranclp)
  qed
  then show ?thesis by (simp add: resolve_runs_def)
qed

section \<open>Resolved once\<close>

text \<open>
  What the rest of the program does to incidencias: it may add some, but leaves alone those that are
  resolved (only \<open>resolve\<close> writes them) and keeps their identities apart.
\<close>

definition keeps_resolved :: "(db \<Rightarrow> db) \<Rightarrow> bool" where
  "keeps_resolved w \<longleftrightarrow> (\<forall>d. distinct (map rid (incidencias d)) \<longrightarrow> distinct (map rid (incidencias (w d)))
     \<and> {x \<in> set (incidencias d). in_resolutionStatus x = Resuelta} \<subseteq> set (incidencias (w d)))"

fun won :: "resolve_pc \<Rightarrow> bool" where
  "won Written = True"
| "won (Answered out) = is_ok out"
| "won p = False"

text \<open>The row \<open>x\<close> records that \<open>q\<close> resolved it.\<close>

definition resolved_by :: "resolve_request \<Rightarrow> incidencia \<Rightarrow> bool" where
  "resolved_by q x \<longleftrightarrow> rid x = rq_id q \<and> ctx x = rq_contextId q \<and> in_resolutionStatus x = Resuelta
     \<and> in_resolvedByMemberId x = Some (rq_memberId q) \<and> in_resolvedAt x = Some (rq_now q)
     \<and> in_resolutionNotes x = Some (rq_notes q)"

definition resolve_inv :: "resolve_request list \<Rightarrow> db \<times> resolve_pc list \<Rightarrow> bool" where
  "resolve_inv qs s \<longleftrightarrow> length (snd s) = length qs \<and> distinct (map rid (incidencias (fst s)))
     \<and> (\<forall>i < length qs. won (snd s ! i) \<longrightarrow> (\<exists>x \<in> set (incidencias (fst s)). resolved_by (qs ! i) x
          \<and> (\<forall>y. snd s ! i = Answered (Inr y) \<longrightarrow> y = x)))
     \<and> (\<forall>i < length qs. \<forall>j < length qs. won (snd s ! i) \<longrightarrow> won (snd s ! j) \<longrightarrow> rq_id (qs ! i) = rq_id (qs ! j) \<longrightarrow> i = j)"

lemma resolved_row_simps [simp]:
  "rid (resolved_row q x) = rid x" "ctx (resolved_row q x) = ctx x" "in_resolutionStatus (resolved_row q x) = Resuelta"
  "in_saleId (resolved_row q x) = in_saleId x"
  by (simp_all add: resolved_row_def)

lemma resolved_by_row: "pending q x \<Longrightarrow> resolved_by q (resolved_row q x)"
  by (simp add: resolved_by_def resolved_row_def pending_def)

lemma write_keeps_resolved:
  assumes "resolve_write q d = (n, d')"
  shows "map rid (incidencias d') = map rid (incidencias d)"
    "{x \<in> set (incidencias d). in_resolutionStatus x = Resuelta} \<subseteq> set (incidencias d')"
    "n = 0 \<Longrightarrow> d' = d"
    "n \<noteq> 0 \<Longrightarrow> \<exists>x \<in> set (incidencias d). pending q x \<and> resolved_row q x \<in> set (incidencias d')"
proof -
  have n: "n = length (filter (pending q) (incidencias d))"
    and d': "d' = d\<lparr>incidencias := map (\<lambda>x. if pending q x then resolved_row q x else x) (incidencias d)\<rparr>"
    using assms by (auto simp: resolve_write_def)
  show "map rid (incidencias d') = map rid (incidencias d)" by (simp add: d' if_distrib cong: if_cong)
  show "{x \<in> set (incidencias d). in_resolutionStatus x = Resuelta} \<subseteq> set (incidencias d')"
    by (auto simp: d' pending_def image_iff)
  show "d' = d" if "n = 0"
  proof -
    have "\<forall>x \<in> set (incidencias d). \<not> pending q x" using that n by (simp add: filter_empty_conv)
    then have "map (\<lambda>x. if pending q x then resolved_row q x else x) (incidencias d) = incidencias d"
      by (intro map_idI) simp
    then show ?thesis by (simp add: d')
  qed
  show "\<exists>x \<in> set (incidencias d). pending q x \<and> resolved_row q x \<in> set (incidencias d')" if "n \<noteq> 0"
  proof -
    have "filter (pending q) (incidencias d) \<noteq> []" using that n by simp
    then obtain x where "x \<in> set (incidencias d)" "pending q x" by (auto simp: filter_empty_conv)
    moreover from this have "resolved_row q x \<in> set (incidencias d')" by (force simp: d')
    ultimately show ?thesis by blast
  qed
qed

lemma same_rid: "distinct (map rid rows) \<Longrightarrow> x \<in> set rows \<Longrightarrow> y \<in> set rows \<Longrightarrow> rid x = rid y \<Longrightarrow> x = y"
  by (metis distinct_map inj_onD)

lemma inv_length: "resolve_inv qs (d, ps) \<Longrightarrow> length ps = length qs"
  and inv_distinct: "resolve_inv qs (d, ps) \<Longrightarrow> distinct (map rid (incidencias d))"
  by (simp_all add: resolve_inv_def)

lemma inv_won:
  assumes "resolve_inv qs (d, ps)" "i < length qs" "won (ps ! i)"
  obtains x where "x \<in> set (incidencias d)" "resolved_by (qs ! i) x" "\<And>y. ps ! i = Answered (Inr y) \<Longrightarrow> y = x"
  using assms unfolding resolve_inv_def fst_conv snd_conv by blast

lemma inv_unique:
  "resolve_inv qs (d, ps) \<Longrightarrow> i < length qs \<Longrightarrow> j < length qs \<Longrightarrow> won (ps ! i) \<Longrightarrow> won (ps ! j)
    \<Longrightarrow> rq_id (qs ! i) = rq_id (qs ! j) \<Longrightarrow> i = j"
  unfolding resolve_inv_def fst_conv snd_conv by blast

lemma invI:
  assumes "length ps = length qs" "distinct (map rid (incidencias d))"
    and "\<And>i. i < length qs \<Longrightarrow> won (ps ! i) \<Longrightarrow> \<exists>x \<in> set (incidencias d). resolved_by (qs ! i) x \<and> (\<forall>y. ps ! i = Answered (Inr y) \<longrightarrow> y = x)"
    and "\<And>i j. i < length qs \<Longrightarrow> j < length qs \<Longrightarrow> won (ps ! i) \<Longrightarrow> won (ps ! j) \<Longrightarrow> rq_id (qs ! i) = rq_id (qs ! j) \<Longrightarrow> i = j"
  shows "resolve_inv qs (d, ps)"
  unfolding resolve_inv_def fst_conv snd_conv using assms by blast

text \<open>A change of the state under the requests that keeps what is resolved.\<close>

lemma inv_elsewhere:
  assumes inv: "resolve_inv qs (d, ps)" and "distinct (map rid (incidencias d'))"
    "{x \<in> set (incidencias d). in_resolutionStatus x = Resuelta} \<subseteq> set (incidencias d')"
  shows "resolve_inv qs (d', ps)"
proof (rule invI [OF inv_length [OF inv] assms(2)])
  fix i assume i: "i < length qs" "won (ps ! i)"
  obtain x where x: "x \<in> set (incidencias d)" "resolved_by (qs ! i) x" "\<And>y. ps ! i = Answered (Inr y) \<Longrightarrow> y = x"
    using inv_won [OF inv i] by blast
  then have "x \<in> set (incidencias d')" using assms(3) by (auto simp: resolved_by_def)
  with x show "\<exists>x \<in> set (incidencias d'). resolved_by (qs ! i) x \<and> (\<forall>y. ps ! i = Answered (Inr y) \<longrightarrow> y = x)" by blast
qed (rule inv_unique [OF inv])

text \<open>A request moves; it does not win, or it had won, or nobody else has.\<close>

lemma inv_move:
  assumes inv: "resolve_inv qs (d, ps)" and i: "i < length qs"
    and row: "won p \<Longrightarrow> \<exists>x \<in> set (incidencias d). resolved_by (qs ! i) x \<and> (\<forall>y. p = Answered (Inr y) \<longrightarrow> y = x)"
    and alone: "\<And>j. won p \<Longrightarrow> j < length qs \<Longrightarrow> j \<noteq> i \<Longrightarrow> won (ps ! j) \<Longrightarrow> rq_id (qs ! j) \<noteq> rq_id (qs ! i)"
  shows "resolve_inv qs (d, ps[i := p])"
proof (rule invI)
  have len: "length ps = length qs" by (rule inv_length [OF inv])
  then show "length (ps[i := p]) = length qs" by simp
  show "distinct (map rid (incidencias d))" by (rule inv_distinct [OF inv])
  have same: "ps[i := p] ! i = p" using i len by simp
  have other: "ps[i := p] ! j = ps ! j" if "j \<noteq> i" for j using that by simp
  show "\<exists>x \<in> set (incidencias d). resolved_by (qs ! j) x \<and> (\<forall>y. ps[i := p] ! j = Answered (Inr y) \<longrightarrow> y = x)"
    if "j < length qs" "won (ps[i := p] ! j)" for j
  proof (cases "j = i")
    case True
    with that(2) row show ?thesis by (simp add: same)
  next
    case False
    with that inv_won [OF inv that(1)] show ?thesis by (metis other)
  qed
  show "j = k" if "j < length qs" "k < length qs" "won (ps[i := p] ! j)" "won (ps[i := p] ! k)" "rq_id (qs ! j) = rq_id (qs ! k)" for j k
  proof (cases "j = i \<or> k = i")
    case True
    with that alone [of j] alone [of k] show ?thesis by (metis same other)
  next
    case False
    with that inv_unique [OF inv that(1,2)] show ?thesis by (simp add: other)
  qed
qed

lemma inv_write:
  assumes inv: "resolve_inv qs (d, ps)" and i: "i < length qs" and w: "resolve_write (qs ! i) d = (n, d')" and n: "n \<noteq> 0"
  shows "resolve_inv qs (d', ps[i := Written])"
proof -
  note k = write_keeps_resolved [OF w]
  obtain x where x: "x \<in> set (incidencias d)" "pending (qs ! i) x" "resolved_row (qs ! i) x \<in> set (incidencias d')"
    using k(4) n by blast
  have moved: "resolve_inv qs (d', ps)" using inv_distinct [OF inv] by (intro inv_elsewhere [OF inv _ k(2)]) (simp add: k(1))
  have other: "rq_id (qs ! j) \<noteq> rq_id (qs ! i)" if j: "j < length qs" "won (ps ! j)" for j
  proof
    assume same: "rq_id (qs ! j) = rq_id (qs ! i)"
    obtain y where y: "y \<in> set (incidencias d)" "resolved_by (qs ! j) y" using inv_won [OF inv j] by blast
    with same x(2) have "rid y = rid x" by (simp add: resolved_by_def pending_def)
    then have "y = x" using same_rid [OF inv_distinct [OF inv] y(1) x(1)] by blast
    with y(2) x(2) show False by (simp add: resolved_by_def pending_def)
  qed
  show ?thesis
    using inv_move [OF moved i] other x(3) resolved_by_row [OF x(2)] by blast
qed

lemma inv_read:
  assumes inv: "resolve_inv qs (d, ps)" and i: "i < length qs" and p: "ps ! i = Written"
  shows "resolve_inv qs (d, ps[i := Answered (resolve_read (qs ! i) d)])"
proof -
  have wi: "won (ps ! i)" by (simp add: p)
  obtain x where x: "x \<in> set (incidencias d)" "resolved_by (qs ! i) x" using inv_won [OF inv i wi] by blast
  then have read: "resolve_read (qs ! i) d = Inr x"
    using find_row_distinct [OF inv_distinct [OF inv] x(1)] by (simp add: resolve_read_def resolved_by_def)
  show ?thesis unfolding read
  proof (rule inv_move [OF inv i])
    show "\<exists>z \<in> set (incidencias d). resolved_by (qs ! i) z \<and> (\<forall>y. Answered (Inr x) = Answered (Inr y) \<longrightarrow> y = z)" using x by auto
    show "rq_id (qs ! j) \<noteq> rq_id (qs ! i)" if "j < length qs" "j \<noteq> i" "won (ps ! j)" for j
      using inv_unique [OF inv that(1) i that(3) wi] that(2) by blast
  qed
qed

lemma resolve_step_inv:
  assumes "resolve_step W qs s s'" "\<forall>w \<in> W. keeps_resolved w" "resolve_inv qs s"
  shows "resolve_inv qs s'"
  using assms(1)
proof cases
  case (statement i)
  obtain d ps where s: "s = (d, ps)" by fastforce
  show ?thesis
  proof (cases "ps ! i")
    case Arrived
    then show ?thesis using assms(3) statement s
      by (auto simp: thread_step_def advance_def intro!: inv_move split: sum.splits)
  next
    case Found
    obtain n d' where w: "resolve_write (qs ! i) d = (n, d')" by fastforce
    show ?thesis
    proof (cases "n = 0")
      case True
      with w Found assms(3) statement s write_keeps_resolved(3) [OF w] show ?thesis
        by (auto simp: thread_step_def advance_def intro!: inv_move)
    next
      case False
      with w Found assms(3) statement s show ?thesis by (auto simp: thread_step_def advance_def intro!: inv_write)
    qed
  next
    case Written
    with assms(3) statement s show ?thesis by (auto simp: thread_step_def advance_def intro!: inv_read)
  next
    case (Answered out)
    then have "ps[i := Answered out] = ps" by (metis list_update_id)
    with Answered assms(3) statement s show ?thesis by (auto simp: thread_step_def advance_def)
  qed
next
  case (elsewhere w d ps)
  then have w: "keeps_resolved w" using assms(2) by blast
  have inv: "resolve_inv qs (d, ps)" using assms(3) elsewhere by simp
  have "distinct (map rid (incidencias (w d)))" "{x \<in> set (incidencias d). in_resolutionStatus x = Resuelta} \<subseteq> set (incidencias (w d))"
    using w inv_distinct [OF inv] unfolding keeps_resolved_def by blast+
  from inv_elsewhere [OF inv this] elsewhere show ?thesis by simp
qed

lemma resolve_runs_inv:
  assumes "resolve_runs W qs d s" "\<forall>w \<in> W. keeps_resolved w" "distinct (map rid (incidencias d))"
  shows "resolve_inv qs s"
proof -
  have start: "resolve_inv qs (arrived qs d)" using assms(3) by (simp add: resolve_inv_def arrived_def)
  have "(resolve_step W qs)\<^sup>*\<^sup>* (arrived qs d) s" using assms(1) by (simp add: resolve_runs_def)
  then show ?thesis by induction (use start resolve_step_inv [OF _ assms(2)] in blast)+
qed

text \<open>C38: an incidencia is resolved at most once and the record says by whom. However the statements of any number of
  requests interleave, among themselves and with the rest of the program, at most one request for an
  incidencia has written, the row carries its partner, its instant and its notes, and that row is the
  answer it gets.\<close>

theorem incidencia_resolved_once:
  assumes "\<forall>w \<in> W. keeps_resolved w" "distinct (map rid (incidencias d))" "resolve_runs W qs d (d', ps)"
    and "i < length qs" "won (ps ! i)"
  shows "(\<exists>x \<in> set (incidencias d'). resolved_by (qs ! i) x \<and> (\<forall>y. ps ! i = Answered (Inr y) \<longrightarrow> y = x))
    \<and> (\<forall>j < length qs. rq_id (qs ! j) = rq_id (qs ! i) \<longrightarrow> won (ps ! j) \<longrightarrow> j = i)"
proof -
  have inv: "resolve_inv qs (d', ps)" by (rule resolve_runs_inv [OF assms(3,1,2)])
  show ?thesis using inv_won [OF inv assms(4,5)] inv_unique [OF inv _ assms(4) _ assms(5)] by blast
qed

section \<open>Somebody resolves it\<close>

lemma resolve_check_ok:
  "resolve_check q d = Inr () \<longleftrightarrow> (\<exists>x \<in> set (incidencias d). rid x = rq_id q \<and> visible d (rq_contextId q) x)"
proof (cases "find (\<lambda>x. rid x = rq_id q \<and> visible d (rq_contextId q) x) (incidencias d)")
  case None
  then have "resolve_check q d \<noteq> Inr ()" by (simp add: resolve_check_def)
  with None show ?thesis by (auto simp: find_None_set)
next
  case (Some x)
  with find_Some_set [OF Some] show ?thesis by (auto simp: resolve_check_def)
qed

lemma check_write:
  assumes "resolve_write q d = (n, d')" "resolve_check r d = Inr ()"
  shows "resolve_check r d' = Inr ()"
proof -
  let ?f = "\<lambda>x. if pending q x then resolved_row q x else x"
  have d': "d' = d\<lparr>incidencias := map ?f (incidencias d)\<rparr>" using assms(1) by (simp add: resolve_write_def)
  then have tables: "sales d' = sales d" "members d' = members d" by simp_all
  obtain x where x: "x \<in> set (incidencias d)" "rid x = rq_id r" "visible d (rq_contextId r) x"
    using assms(2) by (auto simp: resolve_check_ok)
  have "seller d' c (?f x) = seller d c x" for c unfolding seller_def tables by simp
  with x have "visible d' (rq_contextId r) (?f x)" "rid (?f x) = rq_id r" by (simp_all add: visible_def)
  moreover have "?f x \<in> set (incidencias d')" using x(1) by (simp add: d')
  ultimately show ?thesis unfolding resolve_check_ok by blast
qed

text \<open>The requests for one incidencia, left alone: nobody has written while it is pending.\<close>

definition one_incidencia :: "resolve_request list \<Rightarrow> bool" where
  "one_incidencia qs \<longleftrightarrow> (\<forall>q \<in> set qs. \<forall>r \<in> set qs. rq_id q = rq_id r \<and> rq_contextId q = rq_contextId r)"

definition waiting :: "resolve_request list \<Rightarrow> db \<Rightarrow> bool" where
  "waiting qs d \<longleftrightarrow> (\<forall>q \<in> set qs. \<exists>x \<in> set (incidencias d). pending q x)"

definition race_inv :: "resolve_request list \<Rightarrow> db \<times> resolve_pc list \<Rightarrow> bool" where
  "race_inv qs s \<longleftrightarrow> resolve_inv qs s \<and> (\<forall>q \<in> set qs. resolve_check q (fst s) = Inr ())
     \<and> (waiting qs (fst s) \<and> set (snd s) \<subseteq> {Arrived, Found} \<or> (\<exists>p \<in> set (snd s). won p))"

lemma won_kept:
  assumes "i < length ps" "won (ps ! i) \<Longrightarrow> won p" "\<exists>p \<in> set ps. won p"
  shows "\<exists>p \<in> set (ps[i := p]). won p"
proof -
  obtain j where "j < length ps" "won (ps ! j)" using assms(3) by (auto simp: in_set_conv_nth)
  then have "j < length (ps[i := p])" "won (ps[i := p] ! j)" using assms(1,2) by (cases "j = i", auto)+
  then show ?thesis using nth_mem by blast
qed

lemma race_step:
  assumes race: "race_inv qs s" and i: "i < length qs"
  shows "race_inv qs (thread_step qs i s)"
proof -
  obtain d ps where s: "s = (d, ps)" by fastforce
  have inv: "resolve_inv qs (d, ps)" and check: "\<forall>q \<in> set qs. resolve_check q d = Inr ()"
    and now: "waiting qs d \<and> set ps \<subseteq> {Arrived, Found} \<or> (\<exists>p \<in> set ps. won p)"
    using race by (simp_all add: race_inv_def s)
  have len: "i < length ps" using i inv_length [OF inv] by simp
  have q: "resolve_check (qs ! i) d = Inr ()" using check i by simp
  have next_inv: "resolve_inv qs (thread_step qs i s)"
    using resolve_step_inv [OF statement [OF i, of "{}" s]] inv s by simp
  show ?thesis
  proof (cases "ps ! i")
    case Arrived
    have t: "thread_step qs i s = (d, ps[i := Found])" by (simp add: s thread_step_def advance_def Arrived q)
    have "set ps \<subseteq> {Arrived, Found} \<Longrightarrow> set (ps[i := Found]) \<subseteq> {Arrived, Found}"
      using set_update_subset_insert [of ps i Found] by blast
    moreover have "\<exists>p \<in> set ps. won p \<Longrightarrow> \<exists>p \<in> set (ps[i := Found]). won p"
      by (rule won_kept [OF len]) (simp_all add: Arrived)
    ultimately show ?thesis using next_inv check now unfolding race_inv_def t by auto
  next
    case Found
    obtain n d' where w: "resolve_write (qs ! i) d = (n, d')" by fastforce
    have check': "\<forall>q \<in> set qs. resolve_check q d' = Inr ()" using check check_write [OF w] by blast
    show ?thesis
    proof (cases "n = 0")
      case True
      have t: "thread_step qs i s = (d, ps[i := Answered (Inl (already_resolved (qs ! i)))])"
        using write_keeps_resolved(3) [OF w True] by (simp add: s thread_step_def advance_def Found w True)
      have "filter (pending (qs ! i)) (incidencias d) = []" using w True by (simp add: resolve_write_def)
      then have "\<not> waiting qs d" using i by (auto simp: waiting_def filter_empty_conv)
      with now have "\<exists>p \<in> set (ps[i := Answered (Inl (already_resolved (qs ! i)))]). won p"
        by (intro won_kept [OF len]) (auto simp: Found)
      then show ?thesis using next_inv check unfolding race_inv_def t by simp
    next
      case False
      have t: "thread_step qs i s = (d', ps[i := Written])" by (simp add: s thread_step_def advance_def Found w False)
      have "Written \<in> set (ps[i := Written])" using len by (rule set_update_memI)
      then show ?thesis using next_inv check' unfolding race_inv_def t by force
    qed
  next
    case Written
    have t: "thread_step qs i s = (d, ps[i := Answered (resolve_read (qs ! i) d)])"
      by (simp add: s thread_step_def advance_def Written)
    obtain x where x: "x \<in> set (incidencias d)" "resolved_by (qs ! i) x"
      using inv_won [OF inv i] Written by auto
    then have read: "resolve_read (qs ! i) d = Inr x"
      using find_row_distinct [OF inv_distinct [OF inv] x(1)] by (simp add: resolve_read_def resolved_by_def)
    have "Answered (Inr x) \<in> set (ps[i := Answered (Inr x)])" using len by (rule set_update_memI)
    then show ?thesis using next_inv check unfolding race_inv_def t read by force
  next
    case (Answered out)
    have "ps[i := Answered out] = ps" using Answered by (metis list_update_id)
    then have "thread_step qs i s = s" by (simp add: s thread_step_def advance_def Answered)
    with race show ?thesis by simp
  qed
qed

text \<open>Every statement brings a request nearer to its answer.\<close>

fun statements_left :: "resolve_pc \<Rightarrow> nat" where
  "statements_left Arrived = 3"
| "statements_left Found = 2"
| "statements_left Written = 1"
| "statements_left (Answered out) = 0"

lemma advance_left: "advance q d p = (d', p') \<Longrightarrow> statements_left p' \<le> statements_left p - 1"
  by (cases p) (auto simp: advance_def split: sum.splits prod.splits)

lemma thread_left:
  assumes "i < length (snd s)" "j < length (snd s)"
  shows "statements_left (snd (thread_step qs i s) ! j) \<le> statements_left (snd s ! j) - (if i = j then 1 else 0)"
    "length (snd (thread_step qs i s)) = length (snd s)"
  using assms advance_left [of "qs ! i" "fst s" "snd s ! i"] by (auto simp: thread_step_def split: prod.splits)

lemma schedule_left:
  assumes "\<forall>i \<in> set sched. i < length (snd s)" "j < length (snd s)"
  shows "statements_left (snd (interleave qs sched s) ! j) \<le> statements_left (snd s ! j) - count_list sched j"
    "length (snd (interleave qs sched s)) = length (snd s)"
proof -
  have "statements_left (snd (interleave qs sched s) ! j) \<le> statements_left (snd s ! j) - count_list sched j
      \<and> length (snd (interleave qs sched s)) = length (snd s)"
    using assms
  proof (induction sched arbitrary: s)
    case (Cons i sched)
    have i: "i < length (snd s)" using Cons.prems by simp
    note t = thread_left [OF i Cons.prems(2), of qs]
    have "statements_left (snd (interleave qs sched (thread_step qs i s)) ! j)
        \<le> statements_left (snd (thread_step qs i s) ! j) - count_list sched j
      \<and> length (snd (interleave qs sched (thread_step qs i s))) = length (snd (thread_step qs i s))"
      using Cons.IH [of "thread_step qs i s"] Cons.prems t(2) by simp
    then show ?case using t by (auto simp: interleave_def split: if_splits)
  qed (simp add: interleave_def)
  then show "statements_left (snd (interleave qs sched s) ! j) \<le> statements_left (snd s ! j) - count_list sched j"
    "length (snd (interleave qs sched s)) = length (snd s)" by blast+
qed

lemma race_schedule:
  "race_inv qs s \<Longrightarrow> \<forall>i \<in> set sched. i < length qs \<Longrightarrow> race_inv qs (interleave qs sched s)"
  by (induction sched arbitrary: s) (simp_all add: interleave_def race_step)

text \<open>Somebody resolves it. Partners race to resolve one pending incidencia, each request executing at least three
  statements in whatever order: then all have their answer, exactly one of them the resolved row and all
  the others a refusal.\<close>

theorem incidencia_race_has_one_winner:
  assumes "qs \<noteq> []" "one_incidencia qs" "waiting qs d" "\<forall>q \<in> set qs. resolve_check q d = Inr ()"
    and "distinct (map rid (incidencias d))"
    and "\<forall>i \<in> set sched. i < length qs" "\<forall>i < length qs. 3 \<le> count_list sched i"
  defines "outcome \<equiv> interleave qs sched (arrived qs d)"
  shows "(\<forall>i < length qs. \<exists>out. snd outcome ! i = Answered out)
    \<and> (\<exists>!i. i < length qs \<and> (\<exists>x. snd outcome ! i = Answered (Inr x)))"
proof -
  have start: "race_inv qs (arrived qs d)"
    using assms(3-5) by (auto simp: race_inv_def resolve_inv_def arrived_def)
  have race: "race_inv qs outcome" unfolding outcome_def by (rule race_schedule [OF start assms(6)])
  then have inv: "resolve_inv qs (fst outcome, snd outcome)" by (simp add: race_inv_def)
  note len = inv_length [OF inv]
  have sched: "\<forall>i \<in> set sched. i < length (snd (arrived qs d))" using assms(6) by (simp add: arrived_def)
  have all: "\<exists>out. snd outcome ! i = Answered out" if i: "i < length qs" for i
  proof -
    have "i < length (snd (arrived qs d))" using i by (simp add: arrived_def)
    from schedule_left(1) [OF sched this, of qs] have "statements_left (snd outcome ! i) \<le> 3 - count_list sched i"
      using i by (simp add: outcome_def arrived_def)
    then have "statements_left (snd outcome ! i) = 0" using assms(7) i by simp
    then show ?thesis by (cases "snd outcome ! i") simp_all
  qed
  have n: "0 < length qs" using assms(1) by simp
  obtain out where "snd outcome ! 0 = Answered out" using all [OF n] by blast
  moreover have "snd outcome ! 0 \<in> set (snd outcome)" using n len by (intro nth_mem) simp
  ultimately have "\<not> set (snd outcome) \<subseteq> {Arrived, Found}" by auto
  then obtain p where "p \<in> set (snd outcome)" "won p" using race by (auto simp: race_inv_def)
  then obtain i where i: "i < length qs" "won (snd outcome ! i)" using len by (auto simp: in_set_conv_nth)
  have won: "won (snd outcome ! j) \<longleftrightarrow> (\<exists>x. snd outcome ! j = Answered (Inr x))" if "j < length qs" for j
    using all [OF that] by (auto simp: is_ok_iff)
  have "j = i" if "j < length qs" "won (snd outcome ! j)" for j
    using inv_unique [OF inv that(1) i(1) that(2) i(2)] assms(2) that(1) i(1) by (simp add: one_incidencia_def)
  then show ?thesis using all i won by metis
qed

text \<open>Two partners race for an incidencia of a lost sale.\<close>

definition sample_incidencia :: incidencia where
  "sample_incidencia = \<lparr>rid = ''n1'', ctx = ''t1'', in_saleId = ''s1'', in_type = ConflictoStock, in_reason = ''stock'',
     in_detectedAt = 1768000000000, in_resolutionStatus = PorResolver, in_resolvedByMemberId = None,
     in_resolvedAt = None, in_resolutionNotes = None\<rparr>"

definition incidencia_db :: db where
  "incidencia_db = sample_db\<lparr>incidencias := [sample_incidencia]\<rparr>"

definition sample_resolve :: "uuid \<Rightarrow> instant \<Rightarrow> resolve_request" where
  "sample_resolve m t = \<lparr>rq_contextId = ''t1'', rq_id = ''n1'', rq_memberId = m, rq_notes = ''devuelto'', rq_now = t\<rparr>"

definition meeting :: "resolve_request list" where
  "meeting = [sample_resolve ''m1'' 1768000100000, sample_resolve ''m2'' 1768000100001]"

definition sample_interleaving :: "nat list" where
  "sample_interleaving = [0, 1, 1, 0, 1, 0]"

lemma meeting_facts:
  "one_incidencia meeting" "waiting meeting incidencia_db" "distinct (map rid (incidencias incidencia_db))"
  "\<forall>q \<in> set meeting. resolve_check q incidencia_db = Inr ()"
  "\<forall>i \<in> set sample_interleaving. i < length meeting"
  by code_simp+

lemma meeting_run:
  "map won (snd (interleave meeting sample_interleaving (arrived meeting incidencia_db))) = [False, True]"
  by code_simp

lemma incidencia_resolved_once_witness:
  "\<exists>d' ps. resolve_runs {\<lambda>d. d} meeting incidencia_db (d', ps) \<and> won (ps ! 1)
     \<and> (\<exists>x \<in> set (incidencias d'). in_resolvedByMemberId x = Some ''m2'') \<and> \<not> won (ps ! 0)"
proof -
  let ?s = "interleave meeting sample_interleaving (arrived meeting incidencia_db)"
  have runs: "resolve_runs {\<lambda>d. d} meeting incidencia_db (fst ?s, snd ?s)"
    using schedule_runs [OF meeting_facts(5)] by simp
  have n: "length meeting = 2" by (simp add: meeting_def)
  have "length (snd ?s) = 2" using arg_cong [OF meeting_run, of length] by simp
  then have w: "won (snd ?s ! 1)" using meeting_run nth_map [of 1 "snd ?s" won] by simp
  have f: "rq_memberId (meeting ! 1) = ''m2''" "rq_id (meeting ! 0) = rq_id (meeting ! 1)"
    by (simp_all add: meeting_def sample_resolve_def)
  have keeps: "\<forall>w \<in> {\<lambda>d::db. d}. keeps_resolved w" by (auto simp: keeps_resolved_def)
  have one: "1 < length meeting" using n by simp
  note once = incidencia_resolved_once [OF keeps meeting_facts(3) runs one w]
  then obtain x where "x \<in> set (incidencias (fst ?s))" "resolved_by (meeting ! 1) x" by blast
  moreover from this have "in_resolvedByMemberId x = Some ''m2''" unfolding resolved_by_def f(1) by blast
  ultimately have row: "\<exists>x \<in> set (incidencias (fst ?s)). in_resolvedByMemberId x = Some ''m2''" by blast
  have "0 < length meeting" using n by simp
  then have "won (snd ?s ! 0) \<Longrightarrow> (0::nat) = 1" using once f(2) by blast
  then have "\<not> won (snd ?s ! 0)" by auto
  with runs w row show ?thesis by blast
qed

lemma incidencia_race_witness:
  "\<exists>!i. i < 2 \<and> (\<exists>x. snd (interleave meeting sample_interleaving (arrived meeting incidencia_db)) ! i = Answered (Inr x))"
proof -
  have n: "length meeting = 2" "meeting \<noteq> []" by (simp_all add: meeting_def)
  have c: "\<forall>i < length meeting. 3 \<le> count_list sample_interleaving i"
    by (simp add: n(1) sample_interleaving_def numeral_2_eq_2 less_Suc_eq)
  show ?thesis
    using incidencia_race_has_one_winner [OF n(2) meeting_facts(1,2,4,3,5) c] n(1) by simp
qed

end
