(* ===== verification/Reports.thy ===== *)
theory Reports
  imports Commissions Incidencias DeudaLaws "HOL-Library.AList"
begin

text \<open>
  The read models over sales (\<open>src/reports/reports.service.ts\<close>): what came in during a period, who sold
  it, and what each product left. Every report reads the completed sales the server received between two
  instants, both included.
\<close>

definition report_range :: "(string \<Rightarrow> instant option) \<Rightarrow> string \<Rightarrow> string \<Rightarrow> (instant \<times> instant) result" where
  "report_range parse from to =
     (case parseRangeBoundary parse from StartOfDay of Inl e \<Rightarrow> Inl e
      | Inr a \<Rightarrow> (case parseRangeBoundary parse to EndOfDay of Inl e \<Rightarrow> Inl e | Inr b \<Rightarrow> Inr (a, b)))"

definition in_range :: "instant \<times> instant \<Rightarrow> instant \<Rightarrow> bool" where
  "in_range period t \<longleftrightarrow> fst period \<le> t \<and> t \<le> snd period"

text \<open>\<open>{member: {contextId}}\<close> and the like: the row the relation leads to is of the business.\<close>

definition of_business :: "db \<Rightarrow> string \<Rightarrow> uuid \<Rightarrow> bool" where
  "of_business d c i \<longleftrightarrow> find_row c i (members d) \<noteq> None"

definition completed_sales :: "db \<Rightarrow> string \<Rightarrow> instant \<times> instant \<Rightarrow> sale list" where
  "completed_sales d c period = [s \<leftarrow> in_context c (sales d). s_status s = Completada
     \<and> of_business d c (s_memberId s) \<and> in_range period (s_receivedAt s)]"

section \<open>What came in\<close>

record abono_line =
  al_fecha :: instant
  al_deudor :: string
  al_montoMinor :: int
  al_paymentMethod :: payment_method
  al_type :: deuda_type

record settled_line =
  sl_id :: uuid
  sl_type :: deuda_type
  sl_deudor :: string
  sl_totalMinor :: int
  sl_saldadaAt :: "instant option"
  sl_gananciaMinor :: "int option"
  sl_gananciaDisponible :: bool

record method_line =
  ml_ventasMinor :: int
  ml_abonosMinor :: int
  ml_totalMinor :: int

record period_report =
  pr_from :: instant
  pr_to :: instant
  pr_totalSoldMinor :: int
  pr_saleCount :: int
  pr_abonosRecibidos :: "abono_line list"
  pr_abonosRecibidosMinor :: int
  pr_deudasLiquidadas :: "settled_line list"
  pr_totalIngresadoMinor :: int
  pr_porMetodoPago :: "(payment_method \<times> method_line) list"

definition PAYMENT_METHODS :: "payment_method list" where
  "PAYMENT_METHODS = [EFECTIVO, TRANSFERENCIA, TARJETA]"

text \<open>\<open>groupBy\<close>: one group per value that occurs, with \<open>_sum\<close> (NULLs ignored, read as 0) and \<open>_count\<close>.\<close>

definition grouped :: "('a \<Rightarrow> 'k) \<Rightarrow> ('a \<Rightarrow> int) \<Rightarrow> 'a list \<Rightarrow> ('k \<times> int \<times> int) list" where
  "grouped k f rows = map (\<lambda>x. (x, sum_list (map f [r \<leftarrow> rows. k r = x]), int (length [r \<leftarrow> rows. k r = x])))
     (remdups (map k rows))"

definition sum_of :: "'k \<Rightarrow> ('k \<times> int \<times> int) list \<Rightarrow> int" where
  "sum_of x gs = (case find (\<lambda>g. fst g = x) gs of None \<Rightarrow> 0 | Some g \<Rightarrow> fst (snd g))"

text \<open>The name of the debtor of a debt, and the payments received for the debts of the business.\<close>

definition deudor_name :: "db \<Rightarrow> string \<Rightarrow> deuda \<Rightarrow> string" where
  "deudor_name d c u = (case find_row c (du_deudorId u) (deudores d) of None \<Rightarrow> [] | Some p \<Rightarrow> dr_nombre p)"

definition debt_of :: "db \<Rightarrow> string \<Rightarrow> abono \<Rightarrow> deuda option" where
  "debt_of d c a = find (\<lambda>u. rid u = ab_deudaId a \<and> ctx u = c \<and> of_business d c (du_createdByMemberId u)) (deudas d)"

definition abono_lines :: "db \<Rightarrow> string \<Rightarrow> instant \<times> instant \<Rightarrow> abono_line list" where
  "abono_lines d c period = List.map_filter (\<lambda>a. case debt_of d c a of None \<Rightarrow> None
     | Some u \<Rightarrow> Some \<lparr>al_fecha = ab_receivedAt a, al_deudor = deudor_name d c u, al_montoMinor = ab_montoMinor a,
         al_paymentMethod = ab_paymentMethod a, al_type = du_type u\<rparr>)
     [a \<leftarrow> in_context c (abonos d). in_range period (ab_receivedAt a)]"

definition settled_debts :: "db \<Rightarrow> string \<Rightarrow> instant \<times> instant \<Rightarrow> deuda list" where
  "settled_debts d c period = [u \<leftarrow> in_context c (deudas d). of_business d c (du_createdByMemberId u)
     \<and> (case du_saldadaAt u of None \<Rightarrow> False | Some t \<Rightarrow> in_range period t)]"

definition debt_profit :: "'d dinero_lib \<Rightarrow> deuda \<Rightarrow> int option result" where
  "debt_profit D u = (case du_unitCostMinor u of None \<Rightarrow> Inr None
     | Some cost \<Rightarrow>
       (case toDinero D (du_totalMinor u) of Inl e \<Rightarrow> Inl e
        | Inr t \<Rightarrow> (case toDinero D cost of Inl e \<Rightarrow> Inl e
          | Inr unit \<Rightarrow> (case toMinorUnits D (subtract D t (multiply D unit (du_cantidad u))) of
              Inl e \<Rightarrow> Inl e | Inr g \<Rightarrow> Inr (Some g)))))"

definition settled_row :: "'d dinero_lib \<Rightarrow> db \<Rightarrow> string \<Rightarrow> deuda \<Rightarrow> settled_line result" where
  "settled_row D d c u = (case debt_profit D u of Inl e \<Rightarrow> Inl e
     | Inr g \<Rightarrow> Inr \<lparr>sl_id = rid u, sl_type = du_type u, sl_deudor = deudor_name d c u, sl_totalMinor = du_totalMinor u,
         sl_saldadaAt = du_saldadaAt u, sl_gananciaMinor = g, sl_gananciaDisponible = (du_unitCostMinor u \<noteq> None)\<rparr>)"

definition method_row ::
  "'d dinero_lib \<Rightarrow> (payment_method \<times> int \<times> int) list \<Rightarrow> abono_line list \<Rightarrow> payment_method
    \<Rightarrow> (payment_method \<times> method_line) result"
where
  "method_row D soldByMethod lines m =
     (let ventas = sum_of m soldByMethod; abonado = sum_list (map al_montoMinor [a \<leftarrow> lines. al_paymentMethod a = m]) in
      case minor_sum D ventas abonado of Inl e \<Rightarrow> Inl e
      | Inr t \<Rightarrow> Inr (m, \<lparr>ml_ventasMinor = ventas, ml_abonosMinor = abonado, ml_totalMinor = t\<rparr>))"

definition salesByPeriod ::
  "'d dinero_lib \<Rightarrow> (string \<Rightarrow> instant option) \<Rightarrow> db \<Rightarrow> string \<Rightarrow> string \<Rightarrow> string \<Rightarrow> period_report result"
where
  "salesByPeriod D parse d c from to =
     (case report_range parse from to of Inl e \<Rightarrow> Inl e
      | Inr period \<Rightarrow>
        let soldByMethod = grouped s_paymentMethod sale_total (completed_sales d c period);
            lines = abono_lines d c period;
            abonado = sum_list (map al_montoMinor lines) in
        (case all_results (map (settled_row D d c) (settled_debts d c period)) of Inl e \<Rightarrow> Inl e
         | Inr rows \<Rightarrow>
          (case all_results (map (method_row D soldByMethod lines) PAYMENT_METHODS) of Inl e \<Rightarrow> Inl e
           | Inr methods \<Rightarrow>
             let sold = sum_list (map (\<lambda>g. fst (snd g)) soldByMethod);
                 n = sum_list (map (\<lambda>g. snd (snd g)) soldByMethod) in
             (case minor_sum D sold abonado of Inl e \<Rightarrow> Inl e
              | Inr t \<Rightarrow> Inr \<lparr>pr_from = fst period, pr_to = snd period, pr_totalSoldMinor = sold, pr_saleCount = n,
                  pr_abonosRecibidos = lines, pr_abonosRecibidosMinor = abonado, pr_deudasLiquidadas = rows,
                  pr_totalIngresadoMinor = t, pr_porMetodoPago = methods\<rparr>))))"

section \<open>Who sold it\<close>

record seller_line =
  sr_memberId :: uuid
  sr_memberName :: "string option"
  sr_role :: "member_role option"
  sr_totalSoldMinor :: int

definition seller_row :: "db \<Rightarrow> string \<Rightarrow> uuid \<times> int \<times> int \<Rightarrow> seller_line" where
  "seller_row d c g = (let m = find_row c (fst g) (members d) in
     \<lparr>sr_memberId = fst g, sr_memberName = map_option m_name m, sr_role = map_option m_role m,
      sr_totalSoldMinor = fst (snd g)\<rparr>)"

definition salesByMember ::
  "(string \<Rightarrow> instant option) \<Rightarrow> db \<Rightarrow> string \<Rightarrow> string \<Rightarrow> string \<Rightarrow> ((instant \<times> instant) \<times> seller_line list) result"
where
  "salesByMember parse d c from to =
     (case report_range parse from to of Inl e \<Rightarrow> Inl e
      | Inr period \<Rightarrow> Inr (period, sort_key (\<lambda>r. - sr_totalSoldMinor r)
          (map (seller_row d c) (grouped s_memberId sale_total (completed_sales d c period)))))"

section \<open>What each product left\<close>

text \<open>A line of a completed sale with the product and the seller its relations lead to.\<close>

record sold_line =
  so_productId :: uuid
  so_productName :: string
  so_productBrand :: "string option"
  so_productPresentation :: "string option"
  so_memberId :: uuid
  so_memberName :: "string option"
  so_line :: profit_line

definition line_of_sale :: "db \<Rightarrow> string \<Rightarrow> sale \<Rightarrow> sale_item \<Rightarrow> sold_line" where
  "line_of_sale d c s i = (let p = find_row c (si_productId i) (products d) in
     \<lparr>so_productId = si_productId i, so_productName = (case p of None \<Rightarrow> [] | Some q \<Rightarrow> p_name q),
      so_productBrand = (case p of None \<Rightarrow> None | Some q \<Rightarrow> p_brand q),
      so_productPresentation = (case p of None \<Rightarrow> None | Some q \<Rightarrow> p_presentation q),
      so_memberId = s_memberId s, so_memberName = map_option m_name (find_row c (s_memberId s) (members d)),
      so_line = \<lparr>pl_subtotal = si_subtotalMinor i, pl_quantity = si_quantity i, pl_unitCost = si_unitCostMinor i\<rparr>\<rparr>)"

definition sold_lines :: "db \<Rightarrow> string \<Rightarrow> instant \<times> instant \<Rightarrow> sold_line list" where
  "sold_lines d c period = concat (map (\<lambda>s. map (line_of_sale d c s) (items_of d s)) (completed_sales d c period))"

record 'd detail_group =
  dg_first :: sold_line
  dg_units :: int
  dg_ingreso :: 'd
  dg_costo :: 'd
  dg_allCosted :: bool

record detail_row =
  dw_productId :: uuid
  dw_productName :: string
  dw_productBrand :: "string option"
  dw_productPresentation :: "string option"
  dw_memberId :: uuid
  dw_memberName :: "string option"
  dw_units :: int
  dw_ingresoMinor :: int
  dw_costoMinor :: "int option"
  dw_gananciaMinor :: "int option"
  dw_gananciaDisponible :: bool

text \<open>The key of the \<open>Map\<close>: \<open>productId:memberId\<close>.\<close>

definition detail_key :: "sold_line \<Rightarrow> string" where
  "detail_key l = so_productId l @ '':'' @ so_memberId l"

text \<open>One turn of the loop on the row of its key.\<close>

definition add_line :: "'d dinero_lib \<Rightarrow> 'd detail_group \<Rightarrow> profit_line \<Rightarrow> 'd detail_group result" where
  "add_line D g l =
     (case toDinero D (pl_subtotal l) of Inl e \<Rightarrow> Inl e
      | Inr s \<Rightarrow>
        let g1 = g\<lparr>dg_units := dg_units g + pl_quantity l, dg_ingreso := add D (dg_ingreso g) s\<rparr> in
        (case pl_unitCost l of None \<Rightarrow> Inr (g1\<lparr>dg_allCosted := False\<rparr>)
         | Some cost \<Rightarrow>
           (case toDinero D cost of Inl e \<Rightarrow> Inl e
            | Inr unit \<Rightarrow> Inr (g1\<lparr>dg_costo := add D (dg_costo g) (multiply D unit (pl_quantity l))\<rparr>))))"

definition new_group :: "'d dinero_lib \<Rightarrow> sold_line \<Rightarrow> 'd detail_group result" where
  "new_group D l = (case toDinero D 0 of Inl e \<Rightarrow> Inl e
     | Inr zero \<Rightarrow> Inr \<lparr>dg_first = l, dg_units = 0, dg_ingreso = zero, dg_costo = zero, dg_allCosted = True\<rparr>)"

text \<open>The \<open>Map\<close> keeps its keys in the order of their first line.\<close>

fun detail_loop :: "'d dinero_lib \<Rightarrow> sold_line list \<Rightarrow> (string \<times> 'd detail_group) list \<Rightarrow> (string \<times> 'd detail_group) list result" where
  "detail_loop D [] gs = Inr gs"
| "detail_loop D (l # ls) gs =
     (case (case map_of gs (detail_key l) of None \<Rightarrow> new_group D l | Some g \<Rightarrow> Inr g) of Inl e \<Rightarrow> Inl e
      | Inr g \<Rightarrow>
        (case add_line D g (so_line l) of Inl e \<Rightarrow> Inl e
         | Inr g' \<Rightarrow> detail_loop D ls (AList.update (detail_key l) g' gs)))"

definition detail_row_of :: "'d dinero_lib \<Rightarrow> 'd detail_group \<Rightarrow> detail_row result" where
  "detail_row_of D g =
     (case toMinorUnits D (dg_ingreso g) of Inl e \<Rightarrow> Inl e
      | Inr ingreso \<Rightarrow>
        (case (if dg_allCosted g
               then (case toMinorUnits D (dg_costo g) of Inl e \<Rightarrow> Inl e
                     | Inr costo \<Rightarrow> (case toMinorUnits D (subtract D (dg_ingreso g) (dg_costo g)) of Inl e \<Rightarrow> Inl e
                        | Inr ganancia \<Rightarrow> Inr (Some costo, Some ganancia)))
               else Inr (None, None)) of Inl e \<Rightarrow> Inl e
         | Inr (costo, ganancia) \<Rightarrow>
            Inr \<lparr>dw_productId = so_productId (dg_first g), dw_productName = so_productName (dg_first g),
              dw_productBrand = so_productBrand (dg_first g), dw_productPresentation = so_productPresentation (dg_first g),
              dw_memberId = so_memberId (dg_first g), dw_memberName = so_memberName (dg_first g), dw_units = dg_units g,
              dw_ingresoMinor = ingreso, dw_costoMinor = costo, dw_gananciaMinor = ganancia,
              dw_gananciaDisponible = dg_allCosted g\<rparr>))"

text \<open>\<open>loc\<close> is the collation of \<open>localeCompare\<close> on names.\<close>

definition salesDetail ::
  "'d dinero_lib \<Rightarrow> (string \<Rightarrow> instant option) \<Rightarrow> (string \<Rightarrow> 'k::linorder) \<Rightarrow> db \<Rightarrow> string \<Rightarrow> string \<Rightarrow> string \<Rightarrow> int \<Rightarrow> int
    \<Rightarrow> (detail_row page \<times> profit_totals) result"
where
  "salesDetail D parse loc d c from to p limit =
     (case report_range parse from to of Inl e \<Rightarrow> Inl e
      | Inr period \<Rightarrow>
        let lines = sold_lines d c period in
        (case detail_loop D lines [] of Inl e \<Rightarrow> Inl e
         | Inr gs \<Rightarrow>
          (case all_results (map (detail_row_of D) (map snd gs)) of Inl e \<Rightarrow> Inl e
           | Inr rows \<Rightarrow>
            (case computeProfitTotals D (map so_line lines) of Inl e \<Rightarrow> Inl e
             | Inr totals \<Rightarrow> Inr (paged (\<lambda>r. (- dw_ingresoMinor r, loc (dw_productName r), collation_key (dw_productId r),
                   collation_key (dw_memberId r))) p limit rows, totals)))))"

section \<open>The totals of a period\<close>

lemma grouped_sums:
  "sum_list (map (\<lambda>g. fst (snd g)) (grouped k f rows)) = sum_list (map f rows)"
  "sum_list (map (\<lambda>g. snd (snd g)) (grouped k f rows)) = int (length rows)"
proof -
  show "sum_list (map (\<lambda>g. fst (snd g)) (grouped k f rows)) = sum_list (map f rows)"
    using sum_list_by_class [of "remdups (map k rows)" rows k f] by (simp add: grouped_def o_def)
  have "sum_list (map (\<lambda>g. snd (snd g)) (grouped k f rows))
      = sum_list (map (\<lambda>x. sum_list (map (\<lambda>_. 1) [r \<leftarrow> rows. k r = x])) (remdups (map k rows)))"
    by (simp add: grouped_def o_def sum_list_triv)
  then show "sum_list (map (\<lambda>g. snd (snd g)) (grouped k f rows)) = int (length rows)"
    using sum_list_by_class [of "remdups (map k rows)" rows k "\<lambda>_. 1"] by (simp add: sum_list_triv)
qed

lemma sum_of_grouped: "sum_of x (grouped k f rows) = sum_list (map f [r \<leftarrow> rows. k r = x])"
proof (cases "x \<in> set (map k rows)")
  case True
  have "find (\<lambda>g. fst g = x) (map (\<lambda>x. (x, h x)) ks) = (if x \<in> set ks then Some (x, h x) else None)" for h :: "_ \<Rightarrow> int \<times> int" and ks
    by (induction ks) auto
  with True show ?thesis by (simp add: sum_of_def grouped_def)
next
  case False
  have "find (\<lambda>g. fst g = x) (map (\<lambda>x. (x, h x)) ks) = None" if "x \<notin> set ks" for h :: "_ \<Rightarrow> int \<times> int" and ks
    using that by (induction ks) auto
  moreover have "[r \<leftarrow> rows. k r = x] = []" using False by (auto simp: filter_empty_conv)
  ultimately show ?thesis using False by (simp add: sum_of_def grouped_def)
qed

text \<open>A sum over the lines is the sum over the payment methods.\<close>

lemma sum_methods: "sum_list (map (\<lambda>m. sum_list (map f [r \<leftarrow> rows. k r = m])) PAYMENT_METHODS) = sum_list (map (f :: _ \<Rightarrow> int) rows)"
proof (rule sum_list_by_class)
  show "distinct PAYMENT_METHODS" by (simp add: PAYMENT_METHODS_def)
  show "k x \<in> set PAYMENT_METHODS" for x by (cases "k x") (simp_all add: PAYMENT_METHODS_def)
qed

lemma method_row_Inr:
  assumes "dinero_laws D" "method_row D (grouped s_paymentMethod sale_total ss) lines m = Inr row"
  shows "row = (m, \<lparr>ml_ventasMinor = sum_list (map sale_total [s \<leftarrow> ss. s_paymentMethod s = m]),
      ml_abonosMinor = sum_list (map al_montoMinor [a \<leftarrow> lines. al_paymentMethod a = m]),
      ml_totalMinor = sum_list (map sale_total [s \<leftarrow> ss. s_paymentMethod s = m])
        + sum_list (map al_montoMinor [a \<leftarrow> lines. al_paymentMethod a = m])\<rparr>)"
  using assms(2) minor_sum_Inr [OF assms(1)] by (auto simp: method_row_def Let_def sum_of_grouped split: sum.splits)

lemma all_results_map:
  assumes "all_results (map f xs) = Inr ys" "\<And>x y. x \<in> set xs \<Longrightarrow> f x = Inr y \<Longrightarrow> y = g x"
  shows "ys = map g xs"
  using assms
proof (induction xs arbitrary: ys)
  case (Cons x xs)
  then obtain y zs where "f x = Inr y" "all_results (map f xs) = Inr zs" "ys = y # zs"
    by (auto split: sum.splits)
  with Cons.IH [of zs] Cons.prems(2) show ?case by auto
qed simp

text \<open>What a debt left: nothing is known without the cost of its product.\<close>

definition debt_gain :: "deuda \<Rightarrow> int option" where
  "debt_gain u = map_option (\<lambda>cost. du_totalMinor u - cost * du_cantidad u) (du_unitCostMinor u)"

lemma debt_profit_Inr:
  assumes "dinero_laws D" "debt_profit D u = Inr g" "0 \<le> du_cantidad u" "du_cantidad u \<le> 100000"
  shows "g = debt_gain u"
proof (cases "du_unitCostMinor u")
  case None
  with assms(2) show ?thesis by (simp add: debt_profit_def debt_gain_def)
next
  case (Some cost)
  with assms(2) obtain t unit r where t: "toDinero D (du_totalMinor u) = Inr t" "toDinero D cost = Inr unit"
      "toMinorUnits D (subtract D t (multiply D unit (du_cantidad u))) = Inr r" "g = Some r"
    by (auto simp: debt_profit_def split: sum.splits)
  note i = toDinero_int4 [OF t(1)] toDinero_int4 [OF t(2)]
  have m: "cents D (multiply D unit (du_cantidad u)) (cost * du_cantidad u)"
    by (rule multiply_cents [OF assms(1) toDinero_cents [OF assms(1) t(2)] minor_product_safe [OF i(2) assms(3,4)]])
  have size: "\<bar>cost * du_cantidad u\<bar> \<le> 2147483648 * 100000"
  proof -
    have "\<bar>cost\<bar> \<le> 2147483648" using i(2) by (auto simp: int4_def MAX_MINOR_UNITS_def)
    then have "\<bar>cost\<bar> * du_cantidad u \<le> 2147483648 * 100000" using assms(3,4) by (intro mult_mono) auto
    then show ?thesis using assms(3) by (simp add: abs_mult)
  qed
  have "\<bar>du_totalMinor u\<bar> \<le> 2147483648" using i(1) by (auto simp: int4_def MAX_MINOR_UNITS_def)
  then have "safe_int (du_totalMinor u - cost * du_cantidad u)" using size by (simp add: safe_int_def MAX_SAFE_INTEGER_def)
  from toMinorUnits_cents [OF subtract_cents [OF assms(1) toDinero_cents [OF assms(1) t(1)] m this]] t(3,4) Some
  show ?thesis by (auto simp: debt_gain_def split: if_splits)
qed


text \<open>January: one sale, and a debt settled by its second payment.\<close>

definition report_db :: db where
  "report_db = sample_db\<lparr>deudores := [\<lparr>rid = ''r1'', ctx = ''t1'', dr_nombre = ''Dora'', dr_telefono = None, dr_notas = None\<rparr>],
     deudas := [\<lparr>rid = ''u1'', ctx = ''t1'', du_requestFingerprint = None, du_creationResponse = None, du_type = Fiado,
       du_deudorId = ''r1'', du_productId = ''p1'', du_cantidad = 2, du_totalMinor = 5000, du_status = Saldada,
       du_unitCostMinor = Some 1000, du_saldadaAt = Some 1768200000000, du_createdByMemberId = ''m1'', du_createdAt = 1767000000000\<rparr>],
     abonos := [\<lparr>rid = ''b1'', ctx = ''t1'', ab_deudaId = ''u1'', ab_montoMinor = 2000, ab_receivedByMemberId = ''m1'',
         ab_receivedAt = 1767000000000, ab_nota = None, ab_paymentMethod = EFECTIVO\<rparr>,
       \<lparr>rid = ''b2'', ctx = ''t1'', ab_deudaId = ''u1'', ab_montoMinor = 3000, ab_receivedByMemberId = ''m1'',
         ab_receivedAt = 1768200000000, ab_nota = None, ab_paymentMethod = TRANSFERENCIA\<rparr>]\<rparr>"

definition sample_report :: "period_report result" where
  "sample_report = salesByPeriod exact_dinero (\<lambda>_. None) report_db ''t1'' ''2026-01-01'' ''2026-01-31''"


section \<open>The rows of the detail\<close>

text \<open>What the loop has gathered of the lines \<open>L\<close> under one key.\<close>

definition of_key :: "string \<Rightarrow> sold_line list \<Rightarrow> profit_line list" where
  "of_key k L = map so_line [l \<leftarrow> L. detail_key l = k]"

definition lines_cost :: "profit_line list \<Rightarrow> int" where
  "lines_cost ls = sum_list (map (\<lambda>l. case pl_unitCost l of None \<Rightarrow> 0 | Some c \<Rightarrow> c * pl_quantity l) ls)"

definition gathered :: "'d dinero_lib \<Rightarrow> profit_line list \<Rightarrow> 'd detail_group \<Rightarrow> bool" where
  "gathered D ls g \<longleftrightarrow> dg_units g = sum_list (map pl_quantity ls)
     \<and> cents D (dg_ingreso g) (sum_list (map pl_subtotal ls)) \<and> cents D (dg_costo g) (lines_cost ls)
     \<and> (dg_allCosted g \<longleftrightarrow> (\<forall>l \<in> set ls. pl_unitCost l \<noteq> None))"

definition gathered_all :: "'d dinero_lib \<Rightarrow> sold_line list \<Rightarrow> (string \<times> 'd detail_group) list \<Rightarrow> bool" where
  "gathered_all D L gs \<longleftrightarrow> distinct (map fst gs) \<and> set (map fst gs) = detail_key ` set L
     \<and> (\<forall>(k, g) \<in> set gs. detail_key (dg_first g) = k \<and> gathered D (of_key k L) g)"

text \<open>The amounts fit: within the range of the column each, and all together within the safe integers.\<close>

definition lines_fit :: "profit_line list \<Rightarrow> bool" where
  "lines_fit ls \<longleftrightarrow> (\<forall>l \<in> set ls. line_ok l) \<and> sum_list (map line_size ls) \<le> MAX_SAFE_INTEGER"

lemma lines_cost_simps [simp]: "lines_cost [] = 0"
  "lines_cost (ls @ [l]) = lines_cost ls + (case pl_unitCost l of None \<Rightarrow> 0 | Some c \<Rightarrow> c * pl_quantity l)"
  by (simp_all add: lines_cost_def)

lemma fitting:
  "\<bar>sum_list (map pl_subtotal ls)\<bar> \<le> sum_list (map line_size ls)"
  "\<bar>lines_cost ls\<bar> \<le> sum_list (map line_size ls)"
  "\<bar>sum_list (map pl_subtotal ls) - lines_cost ls\<bar> \<le> sum_list (map line_size ls)"
proof (induction ls)
  case (Cons l ls)
  { case 1 then show ?case using Cons line_sizes(1) [of l] by simp }
  { case 2 then show ?case using Cons by (auto simp: lines_cost_def line_size_def split: option.splits) }
  { case 3 then show ?case using Cons by (auto simp: lines_cost_def line_size_def split: option.splits) }
qed (simp_all add: lines_cost_def)

lemma size_snoc: "0 \<le> sum_list (map line_size ls)"
  by (intro sum_list_int_nonneg) (rule line_sizes)

lemma lines_fit_of_key:
  assumes "lines_fit (map so_line L)"
  shows "lines_fit (of_key k L)"
proof -
  have "sum_list (map line_size (of_key k L)) \<le> sum_list (map line_size (map so_line L))"
  proof (induction L)
    case (Cons l L)
    then show ?case using line_sizes(3) [of "so_line l"] by (simp add: of_key_def)
  qed (simp add: of_key_def)
  moreover have "set (of_key k L) \<subseteq> set (map so_line L)" by (auto simp: of_key_def)
  ultimately show ?thesis using assms by (auto simp: lines_fit_def)
qed

lemma add_line_gathered:
  assumes "dinero_laws D" "add_line D g l = Inr g'" "gathered D ls g" "lines_fit (ls @ [l])"
  shows "gathered D (ls @ [l]) g' \<and> dg_first g' = dg_first g"
proof -
  have size: "sum_list (map line_size ls) + line_size l \<le> MAX_SAFE_INTEGER" using assms(4) by (simp add: lines_fit_def)
  obtain s where s: "toDinero D (pl_subtotal l) = Inr s" using assms(2) by (auto simp: add_line_def split: sum.splits)
  have "safe_int (sum_list (map pl_subtotal ls) + pl_subtotal l)"
    using fitting(1) [of ls] line_sizes(1) [of l] size by (simp add: safe_int_def)
  then have ing: "cents D (add D (dg_ingreso g) s) (sum_list (map pl_subtotal ls) + pl_subtotal l)"
    using assms(1,3) toDinero_cents [OF assms(1) s] by (intro add_cents) (simp_all add: gathered_def)
  show ?thesis
  proof (cases "pl_unitCost l")
    case None
    with assms(2,3) s ing show ?thesis by (auto simp: add_line_def gathered_def Let_def)
  next
    case (Some c)
    then obtain u where u: "toDinero D c = Inr u"
      and g': "g' = g\<lparr>dg_units := dg_units g + pl_quantity l, dg_ingreso := add D (dg_ingreso g) s,
        dg_costo := add D (dg_costo g) (multiply D u (pl_quantity l))\<rparr>"
      using assms(2) s by (auto simp: add_line_def Let_def split: sum.splits)
    have l: "line_size l = \<bar>pl_subtotal l\<bar> + \<bar>c * pl_quantity l\<bar>" by (simp add: line_size_def Some)
    have "safe_int (c * pl_quantity l)" using l size size_snoc [of ls] by (simp add: safe_int_def)
    then have "cents D (multiply D u (pl_quantity l)) (c * pl_quantity l)"
      by (rule multiply_cents [OF assms(1) toDinero_cents [OF assms(1) u]])
    moreover have "safe_int (lines_cost ls + c * pl_quantity l)" using fitting(2) [of ls] l size by (simp add: safe_int_def)
    ultimately have "cents D (dg_costo g') (lines_cost ls + c * pl_quantity l)"
      using assms(1,3) by (auto simp: g' gathered_def intro: add_cents)
    with Some ing assms(3) show ?thesis by (auto simp: gathered_def g')
  qed
qed

lemma new_group_gathered:
  assumes "dinero_laws D" "new_group D l = Inr g"
  shows "gathered D [] g \<and> dg_first g = l"
  using assms toDinero_cents [OF assms(1)] by (auto simp: new_group_def gathered_def split: sum.splits)

lemma of_key_snoc: "of_key k (L @ [l]) = of_key k L @ (if detail_key l = k then [so_line l] else [])"
  by (simp add: of_key_def)

lemma detail_loop_gathered:
  assumes "dinero_laws D" "detail_loop D ls gs = Inr gs'" "gathered_all D L gs" "lines_fit (map so_line (L @ ls))"
  shows "gathered_all D (L @ ls) gs'"
  using assms(2-4)
proof (induction ls arbitrary: gs L)
  case (Cons l ls)
  let ?k = "detail_key l"
  obtain g g' where g: "(case map_of gs ?k of None \<Rightarrow> new_group D l | Some g \<Rightarrow> Inr g) = Inr g"
      and g': "add_line D g (so_line l) = Inr g'" and rest: "detail_loop D ls (AList.update ?k g' gs) = Inr gs'"
    using Cons.prems(1) by (auto split: sum.splits)
  have dist: "distinct (map fst gs)" and keys: "set (map fst gs) = detail_key ` set L" using Cons.prems(2) by (simp_all add: gathered_all_def)
  have all: "detail_key (dg_first x) = k \<and> gathered D (of_key k L) x" if "(k, x) \<in> set gs" for k x
    using Cons.prems(2) that by (auto simp: gathered_all_def)
  have start: "gathered D (of_key ?k L) g \<and> detail_key (dg_first g) = ?k"
  proof (cases "map_of gs ?k")
    case None
    then have "?k \<notin> detail_key ` set L" using keys by (simp add: map_of_eq_None_iff)
    then have "of_key ?k L = []" by (auto simp: of_key_def filter_empty_conv image_iff)
    with None g new_group_gathered [OF assms(1)] show ?thesis by auto
  next
    case (Some x)
    with g have "(?k, g) \<in> set gs" by (auto dest: map_of_SomeD)
    with all show ?thesis by blast
  qed
  have fit: "lines_fit (map so_line (L @ [l]))"
    using Cons.prems(3) size_snoc [of "map so_line ls"] by (auto simp: lines_fit_def)
  have step: "gathered D (of_key ?k (L @ [l])) g' \<and> detail_key (dg_first g') = ?k"
    using add_line_gathered [OF assms(1) g' conjunct1 [OF start]] start lines_fit_of_key [OF fit, of ?k] by (simp add: of_key_snoc)
  have "gathered_all D (L @ [l]) (AList.update ?k g' gs)"
    unfolding gathered_all_def
  proof (intro conjI ballI)
    show "distinct (map fst (AList.update ?k g' gs))" using dist by (rule distinct_update)
    show "set (map fst (AList.update ?k g' gs)) = detail_key ` set (L @ [l])"
      using keys by (simp add: dom_map_of_conv_image_fst [symmetric] update_conv')
    fix kx assume "kx \<in> set (AList.update ?k g' gs)"
    moreover obtain k x where kx: "kx = (k, x)" by fastforce
    ultimately have "map_of (AList.update ?k g' gs) k = Some x"
      using distinct_update [OF dist] by (simp add: map_of_is_SomeI)
    then have "(if k = ?k then Some g' else map_of gs k) = Some x" by (simp add: update_conv')
    then show "case kx of (k, g) \<Rightarrow> detail_key (dg_first g) = k \<and> gathered D (of_key k (L @ [l])) g"
      using step all [of k x] by (auto simp: kx of_key_snoc split: if_splits dest: map_of_SomeD)
  qed
  from Cons.IH [OF rest this] Cons.prems(3) show ?case by simp
qed simp

text \<open>A row of the report stands for the lines of its product and seller.\<close>

definition row_key :: "detail_row \<Rightarrow> string" where
  "row_key r = dw_productId r @ '':'' @ dw_memberId r"

definition row_of_lines :: "profit_line list \<Rightarrow> detail_row \<Rightarrow> bool" where
  "row_of_lines ls r \<longleftrightarrow> dw_units r = sum_list (map pl_quantity ls) \<and> dw_ingresoMinor r = sum_list (map pl_subtotal ls)
     \<and> (if \<forall>l \<in> set ls. pl_unitCost l \<noteq> None
        then dw_costoMinor r = Some (lines_cost ls) \<and> dw_gananciaMinor r = Some (dw_ingresoMinor r - lines_cost ls)
        else dw_costoMinor r = None \<and> dw_gananciaMinor r = None)"

lemma toMinorUnits_Inr: "cents D x a \<Longrightarrow> toMinorUnits D x = Inr b \<Longrightarrow> b = a"
  by (simp add: toMinorUnits_cents split: if_splits)

lemma detail_row_of_Inr:
  assumes "dinero_laws D" "detail_row_of D g = Inr r" "gathered D ls g" "lines_fit ls"
  shows "row_key r = detail_key (dg_first g) \<and> row_of_lines ls r"
proof -
  have i: "cents D (dg_ingreso g) (sum_list (map pl_subtotal ls))" and c: "cents D (dg_costo g) (lines_cost ls)"
    using assms(3) by (simp_all add: gathered_def)
  have "safe_int (sum_list (map pl_subtotal ls) - lines_cost ls)"
    using fitting(3) [of ls] assms(4) by (simp add: lines_fit_def safe_int_def)
  then have p: "cents D (subtract D (dg_ingreso g) (dg_costo g)) (sum_list (map pl_subtotal ls) - lines_cost ls)"
    by (rule subtract_cents [OF assms(1) i c])
  obtain ingreso where ingreso: "toMinorUnits D (dg_ingreso g) = Inr ingreso" using assms(2) by (auto simp: detail_row_of_def split: sum.splits)
  note ingreso_eq = toMinorUnits_Inr [OF i ingreso]
  show ?thesis
  proof (cases "dg_allCosted g")
    case True
    then obtain costo ganancia where "toMinorUnits D (dg_costo g) = Inr costo"
        "toMinorUnits D (subtract D (dg_ingreso g) (dg_costo g)) = Inr ganancia"
      using assms(2) ingreso by (auto simp: detail_row_of_def split: sum.splits)
    then have known: "toMinorUnits D (dg_costo g) = Inr (lines_cost ls)"
        "toMinorUnits D (subtract D (dg_ingreso g) (dg_costo g)) = Inr (ingreso - lines_cost ls)"
      using toMinorUnits_Inr [OF c] toMinorUnits_Inr [OF p] ingreso_eq by simp_all
    have units: "dg_units g = sum_list (map pl_quantity ls)" "\<forall>l \<in> set ls. pl_unitCost l \<noteq> None"
      using assms(3) True by (simp_all add: gathered_def)
    have "r = \<lparr>dw_productId = so_productId (dg_first g), dw_productName = so_productName (dg_first g),
              dw_productBrand = so_productBrand (dg_first g), dw_productPresentation = so_productPresentation (dg_first g),
              dw_memberId = so_memberId (dg_first g), dw_memberName = so_memberName (dg_first g), dw_units = dg_units g,
              dw_ingresoMinor = ingreso, dw_costoMinor = Some (lines_cost ls), dw_gananciaMinor = Some (ingreso - lines_cost ls),
              dw_gananciaDisponible = True\<rparr>"
      using assms(2) by (simp add: detail_row_of_def ingreso True known)
    then show ?thesis using units ingreso_eq by (simp add: row_key_def detail_key_def row_of_lines_def)
  next
    case False
    have units: "dg_units g = sum_list (map pl_quantity ls)" "\<not> (\<forall>l \<in> set ls. pl_unitCost l \<noteq> None)"
      using assms(3) False by (simp_all add: gathered_def)
    have "r = \<lparr>dw_productId = so_productId (dg_first g), dw_productName = so_productName (dg_first g),
              dw_productBrand = so_productBrand (dg_first g), dw_productPresentation = so_productPresentation (dg_first g),
              dw_memberId = so_memberId (dg_first g), dw_memberName = so_memberName (dg_first g), dw_units = dg_units g,
              dw_ingresoMinor = ingreso, dw_costoMinor = None, dw_gananciaMinor = None,
              dw_gananciaDisponible = False\<rparr>"
      using assms(2) ingreso False by (simp add: detail_row_of_def)
    then show ?thesis using units ingreso_eq by (simp add: row_key_def detail_key_def row_of_lines_def del: not_None_eq)
  qed
qed

lemma all_results_rel:
  assumes "all_results (map f xs) = Inr ys" "\<And>x y. x \<in> set xs \<Longrightarrow> f x = Inr y \<Longrightarrow> P x y"
  shows "list_all2 P xs ys"
  using assms by (induction xs arbitrary: ys) (auto split: sum.splits)

definition detail_rows :: "'d dinero_lib \<Rightarrow> sold_line list \<Rightarrow> detail_row list result" where
  "detail_rows D lines = (case detail_loop D lines [] of Inl e \<Rightarrow> Inl e
     | Inr gs \<Rightarrow> all_results (map (detail_row_of D) (map snd gs)))"

lemma detail_rows_exact:
  assumes "dinero_laws D" "lines_fit (map so_line L)" "detail_rows D L = Inr rows"
  shows "distinct (map row_key rows)" "set (map row_key rows) = detail_key ` set L"
    "\<forall>r \<in> set rows. row_of_lines (of_key (row_key r) L) r"
proof -
  obtain gs where gs: "detail_loop D L [] = Inr gs" and rows: "all_results (map (detail_row_of D) (map snd gs)) = Inr rows"
    using assms(3) by (auto simp: detail_rows_def split: sum.splits)
  have "gathered_all D [] ([] :: (string \<times> 'a detail_group) list)" by (simp add: gathered_all_def)
  from detail_loop_gathered [OF assms(1) gs this] assms(2) have all: "gathered_all D L gs" by simp
  have "list_all2 (\<lambda>kg r. row_key r = fst kg \<and> row_of_lines (of_key (fst kg) L) r) gs rows"
  proof (rule all_results_rel)
    show "all_results (map (\<lambda>kg. detail_row_of D (snd kg)) gs) = Inr rows" using rows by (simp add: o_def)
    fix kg r assume "kg \<in> set gs" "detail_row_of D (snd kg) = Inr r"
    moreover from this(1) all have "detail_key (dg_first (snd kg)) = fst kg" "gathered D (of_key (fst kg) L) (snd kg)"
      by (auto simp: gathered_all_def)
    ultimately show "row_key r = fst kg \<and> row_of_lines (of_key (fst kg) L) r"
      using detail_row_of_Inr [OF assms(1)] lines_fit_of_key [OF assms(2)] by metis
  qed
  then have keys: "map row_key rows = map fst gs" and each: "\<forall>r \<in> set rows. row_of_lines (of_key (row_key r) L) r"
    by (auto simp: list_all2_conv_all_nth in_set_conv_nth intro: nth_equalityI)
  show "distinct (map row_key rows)" "set (map row_key rows) = detail_key ` set L"
    using all unfolding keys by (simp_all add: gathered_all_def)
  show "\<forall>r \<in> set rows. row_of_lines (of_key (row_key r) L) r" by (rule each)
qed

lemma salesDetail_eq:
  "salesDetail D parse loc d c from to p limit =
     (case report_range parse from to of Inl e \<Rightarrow> Inl e
      | Inr period \<Rightarrow>
        (case detail_rows D (sold_lines d c period) of Inl e \<Rightarrow> Inl e
         | Inr rows \<Rightarrow>
          (case computeProfitTotals D (map so_line (sold_lines d c period)) of Inl e \<Rightarrow> Inl e
           | Inr totals \<Rightarrow> Inr (paged (\<lambda>r. (- dw_ingresoMinor r, loc (dw_productName r), collation_key (dw_productId r),
                 collation_key (dw_memberId r))) p limit rows, totals))))"
  by (simp add: salesDetail_def detail_rows_def Let_def split: sum.split)

lemma sum_by_key:
  fixes f :: "profit_line \<Rightarrow> int"
  assumes "distinct (map row_key rows)" "set (map row_key rows) = detail_key ` set L"
  shows "sum_list (map (\<lambda>r. sum_list (map f (of_key (row_key r) L))) rows) = sum_list (map f (map so_line L))"
proof -
  have "sum_list (map (\<lambda>k. sum_list (map (f \<circ> so_line) [l \<leftarrow> L. detail_key l = k])) (map row_key rows)) = sum_list (map (f \<circ> so_line) L)"
    using assms by (intro sum_list_by_class) auto
  then show ?thesis by (simp add: of_key_def o_def)
qed

text \<open>C40: reading all the pages of the detail of a period gives every product and seller with sales exactly once, with
  the pieces, the revenue and the cost of exactly their lines (no cost and no profit when one of them is
  unknown); the revenues add up to the total of the period, and so do the profits when every cost is known.\<close>

theorem sales_detail_complete:
  assumes "dinero_laws D" "report_range parse from to = Inr period" "lines_fit (map so_line (sold_lines d c period))"
    and "0 < limit" "\<forall>k < n. salesDetail D parse loc d c from to (int k + 1) limit = Inr (pages k, totals)"
    and "0 < n" "pg_total (pages 0) \<le> int n * limit"
  defines "lines \<equiv> sold_lines d c period" and "rows \<equiv> concat (map (\<lambda>k. pg_items (pages k)) [0..<n])"
  shows "distinct (map row_key rows) \<and> set (map row_key rows) = detail_key ` set lines
    \<and> (\<forall>r \<in> set rows. row_of_lines (of_key (row_key r) lines) r)
    \<and> sum_list (map dw_ingresoMinor rows) = ingresoMinor totals
    \<and> (lineasSinCosto totals = 0 \<longrightarrow> sum_list (map (\<lambda>r. the (dw_gananciaMinor r)) rows) = gananciaMinor totals)"
proof -
  let ?key = "\<lambda>r. (- dw_ingresoMinor r, loc (dw_productName r), collation_key (dw_productId r), collation_key (dw_memberId r))"
  have each: "\<exists>all. detail_rows D lines = Inr all \<and> computeProfitTotals D (map so_line lines) = Inr totals
      \<and> pages k = paged ?key (int k + 1) limit all" if "k < n" for k
  proof -
    have "salesDetail D parse loc d c from to (int k + 1) limit = Inr (pages k, totals)" using assms(5) that by blast
    then show ?thesis
      by (cases "detail_rows D lines"; cases "computeProfitTotals D (map so_line lines)")
        (simp_all add: salesDetail_eq assms(2) lines_def)
  qed
  obtain all where all: "detail_rows D lines = Inr all" "computeProfitTotals D (map so_line lines) = Inr totals"
    using each [OF assms(6)] by blast
  have pages: "pages k = paged ?key (int k + 1) limit all" if "k < n" for k using each [OF that] all(1) by auto
  have len: "length all \<le> n * nat limit"
  proof -
    have "int (length all) \<le> int n * limit" using assms(7) pages [OF assms(6)] by (simp add: paged_def)
    then have "nat (int (length all)) \<le> nat (int n * limit)" by (rule nat_mono)
    then show ?thesis using assms(4) by (simp add: nat_mult_distrib)
  qed
  have same: "map (\<lambda>k. pg_items (pages k)) [0..<n] = map (\<lambda>k. pg_items (paged ?key (int k + 1) limit all)) [0..<n]"
    by (intro map_cong) (simp_all add: pages)
  have rows: "rows = sort_key ?key all" unfolding rows_def same by (rule paged_all [OF assms(4) len])
  note fit = assms(3) [folded lines_def]
  note exact = detail_rows_exact [OF assms(1) fit all(1)]
  have dist: "distinct (map row_key rows)" and keys: "set (map row_key rows) = detail_key ` set lines"
    and row: "\<forall>r \<in> set rows. row_of_lines (of_key (row_key r) lines) r"
    using exact by (simp_all add: rows)
  have totals: "totals = \<lparr>ingresoMinor = sum_list (map pl_subtotal (map so_line lines)),
      gananciaMinor = sum_list (map line_profit [l \<leftarrow> map so_line lines. pl_unitCost l \<noteq> None]),
      lineasSinCosto = int (length [l \<leftarrow> map so_line lines. pl_unitCost l = None])\<rparr>"
    using computeProfitTotals_exact [OF assms(1), of "map so_line lines"] fit all(2) by (simp add: lines_fit_def split: if_splits)
  show ?thesis
  proof (intro conjI impI)
    show "distinct (map row_key rows)" "set (map row_key rows) = detail_key ` set lines"
      "\<forall>r \<in> set rows. row_of_lines (of_key (row_key r) lines) r" using dist keys row by blast+
    have revenue: "map dw_ingresoMinor rows = map (\<lambda>r. sum_list (map pl_subtotal (of_key (row_key r) lines))) rows"
      using row by (auto simp: row_of_lines_def)
    show "sum_list (map dw_ingresoMinor rows) = ingresoMinor totals"
      unfolding revenue using sum_by_key [OF dist keys, of pl_subtotal] by (simp add: totals)
    assume "lineasSinCosto totals = 0"
    then have costed: "\<forall>l \<in> set (map so_line lines). pl_unitCost l \<noteq> None" by (auto simp: totals filter_empty_conv)
    have profit: "sum_list (map line_profit ls) = sum_list (map pl_subtotal ls) - lines_cost ls" if "\<forall>l \<in> set ls. pl_unitCost l \<noteq> None" for ls
      using that by (induction ls) (auto simp: line_profit_def lines_cost_def)
    have known: "\<forall>l \<in> set (of_key k lines). pl_unitCost l \<noteq> None" for k using costed by (auto simp: of_key_def)
    have profits: "map (\<lambda>r. the (dw_gananciaMinor r)) rows = map (\<lambda>r. sum_list (map line_profit (of_key (row_key r) lines))) rows"
      using row known by (auto simp: row_of_lines_def profit)
    have "[l \<leftarrow> map so_line lines. pl_unitCost l \<noteq> None] = map so_line lines" using costed by (intro filter_True) blast
    then have "gananciaMinor totals = sum_list (map line_profit (map so_line lines))" unfolding totals by simp
    then show "sum_list (map (\<lambda>r. the (dw_gananciaMinor r)) rows) = gananciaMinor totals"
      unfolding profits using sum_by_key [OF dist keys, of line_profit] by simp
  qed
qed

definition sample_detail :: "int \<Rightarrow> (detail_row page \<times> profit_totals) result" where
  "sample_detail p = salesDetail exact_dinero (\<lambda>_. None) (\<lambda>s. s) sample_db ''t1'' ''2026-01-01'' ''2026-02-28'' p 1"

lemma sales_detail_complete_witness:
  "\<exists>pages totals. (\<forall>k < 2. sample_detail (int k + 1) = Inr (pages k, totals)) \<and> ingresoMinor totals = 5700
     \<and> sum_list (map dw_ingresoMinor (concat (map (\<lambda>k. pg_items (pages k)) [0..<2]))) = 5700"
proof -
  define pages where "pages k = fst (projr (sample_detail (int k + 1)))" for k
  define totals where "totals = snd (projr (sample_detail 1))"
  obtain period where period: "report_range (\<lambda>_. None) ''2026-01-01'' ''2026-02-28'' = Inr period"
      "lines_fit (map so_line (sold_lines sample_db ''t1'' period))"
  proof
    show "report_range (\<lambda>_. None) ''2026-01-01'' ''2026-02-28'' = Inr (1767247200000, 1772344799999)" by code_simp
    show "lines_fit (map so_line (sold_lines sample_db ''t1'' (1767247200000, 1772344799999)))" by code_simp
  qed
  have run: "is_ok (sample_detail 1)" "is_ok (sample_detail 2)" "snd (projr (sample_detail 2)) = snd (projr (sample_detail 1))"
    "ingresoMinor (snd (projr (sample_detail 1))) = 5700" "pg_total (fst (projr (sample_detail 1))) = 1" by code_simp+
  have runs: "\<forall>k < 2. sample_detail (int k + 1) = Inr (pages k, totals)"
  proof (intro allI impI)
    have "projr (sample_detail 1) = (pages 0, totals)" "projr (sample_detail 2) = (pages 1, totals)"
      by (simp_all add: prod_eq_iff pages_def totals_def run(3))
    then have "sample_detail 1 = Inr (pages 0, totals)" "sample_detail 2 = Inr (pages 1, totals)"
      using is_ok_projr [OF run(1)] is_ok_projr [OF run(2)] by simp_all
    then show "sample_detail (int k + 1) = Inr (pages k, totals)" if "k < 2" for k
      using that by (auto simp: less_2_cases_iff)
  qed
  then have "\<forall>k < 2. salesDetail exact_dinero (\<lambda>_. None) (\<lambda>s. s) sample_db ''t1'' ''2026-01-01'' ''2026-02-28'' (int k + 1) 1 = Inr (pages k, totals)"
    by (simp add: sample_detail_def)
  from sales_detail_complete [OF exact_dinero_laws period(1,2) _ this] run(5)
  have "sum_list (map dw_ingresoMinor (concat (map (\<lambda>k. pg_items (pages k)) [0..<2]))) = ingresoMinor totals"
    by (simp add: pages_def)
  then show ?thesis using runs run(4) by (intro exI [of _ pages] exI [of _ totals]) (simp add: totals_def)
qed

end
