(* ===== verification/Dashboard.thy ===== *)
theory Dashboard
  imports Reports
begin

text \<open>
  The summary of the home screen (\<open>src/dashboard/dashboard.service.ts\<close>): the sales of today and yesterday,
  the profit of today, what is still owed and what runs out. It answers the same questions as the reports
  by other queries, so the point is that both agree.
\<close>

section \<open>The queries\<close>

definition day_range :: "(string \<Rightarrow> instant option) \<Rightarrow> instant \<Rightarrow> (instant \<times> instant) result" where
  "day_range parse t = (let day = currentBusinessDate t in
     (case parseRangeBoundary parse day StartOfDay of Inl e \<Rightarrow> Inl e
      | Inr from \<Rightarrow> (case parseRangeBoundary parse day EndOfDay of Inl e \<Rightarrow> Inl e | Inr to \<Rightarrow> Inr (from, to))))"

text \<open>\<open>ranges\<close>: today and yesterday.\<close>

definition day_ranges :: "(string \<Rightarrow> instant option) \<Rightarrow> instant \<Rightarrow> ((instant \<times> instant) \<times> (instant \<times> instant)) result" where
  "day_ranges parse now =
     (case day_range parse now of Inl e \<Rightarrow> Inl e
      | Inr today \<Rightarrow> (case day_range parse (now - 86400000) of Inl e \<Rightarrow> Inl e
          | Inr yesterday \<Rightarrow> Inr (today, yesterday)))"

text \<open>The sales between two instants by the relation of their member; \<open>_sum\<close> ignores NULL and is read as 0.\<close>

definition sales_between :: "db \<Rightarrow> string \<Rightarrow> instant \<times> instant \<Rightarrow> sale list" where
  "sales_between d c period = [s \<leftarrow> in_context c (sales d). s_status s = Completada
     \<and> of_business d c (s_memberId s) \<and> fst period \<le> s_receivedAt s \<and> s_receivedAt s \<le> snd period]"

definition salesTotals :: "db \<Rightarrow> string \<Rightarrow> instant \<times> instant \<Rightarrow> int \<times> int" where
  "salesTotals d c period = (let rows = sales_between d c period in
     (sum_list (List.map_filter s_totalMinor rows), int (length rows)))"

text \<open>The lines whose sale is one of them.\<close>

definition items_between :: "db \<Rightarrow> string \<Rightarrow> instant \<times> instant \<Rightarrow> profit_line list" where
  "items_between d c period =
     map (\<lambda>i. \<lparr>pl_subtotal = si_subtotalMinor i, pl_quantity = si_quantity i, pl_unitCost = si_unitCostMinor i\<rparr>)
       [i \<leftarrow> in_context c (saleItems d). \<exists>s \<in> set (sales_between d c period). rid s = si_saleId i]"

definition pending_incidencias :: "db \<Rightarrow> string \<Rightarrow> int" where
  "pending_incidencias d c = int (length [x \<leftarrow> incidencias d. in_resolutionStatus x = PorResolver \<and> visible d c x])"

definition pending_debts :: "db \<Rightarrow> string \<Rightarrow> deuda list" where
  "pending_debts d c = [u \<leftarrow> in_context c (deudas d). du_status u = Pendiente \<and> of_business d c (du_createdByMemberId u)]"

text \<open>The loop over the pending debts: the running total and the set of debtors.\<close>

fun debts_loop :: "'d dinero_lib \<Rightarrow> db \<Rightarrow> string \<Rightarrow> deuda list \<Rightarrow> 'd \<Rightarrow> uuid set \<Rightarrow> ('d \<times> uuid set) result" where
  "debts_loop D d c [] deudasTotal deudores' = Inr (deudasTotal, deudores')"
| "debts_loop D d c (u # us) deudasTotal deudores' =
     (case toDinero D (du_totalMinor u) of Inl e \<Rightarrow> Inl e
      | Inr t \<Rightarrow> (case toDinero D (deuda_paid d c (rid u)) of Inl e \<Rightarrow> Inl e
          | Inr p \<Rightarrow> debts_loop D d c us (add D deudasTotal (subtract D t p)) (insert (du_deudorId u) deudores')))"

definition low_stock :: "db \<Rightarrow> string \<Rightarrow> int \<Rightarrow> product list" where
  "low_stock d c umbral = [p \<leftarrow> in_context c (products d). p_active p \<and> p_stock p \<le> umbral]"

section \<open>The summary\<close>

record dashboard =
  db_ventasHoy :: "int \<times> int"
  db_ventasAyer :: "int \<times> int"
  db_gananciaHoyMinor :: int
  db_lineasSinCostoHoy :: int
  db_incidenciasPendientes :: int
  db_deudasTotalMinor :: int
  db_personas :: nat
  db_umbral :: int
  db_pocaExistencia :: int
  db_items :: "(uuid \<times> string \<times> int \<times> string option) list"

text \<open>\<open>loc\<close> is the collation of the database on names.\<close>

definition dashboard_summary ::
  "'d dinero_lib \<Rightarrow> (string \<Rightarrow> instant option) \<Rightarrow> (string \<Rightarrow> 'k::linorder) \<Rightarrow> db \<Rightarrow> instant \<Rightarrow> string \<Rightarrow> int \<Rightarrow> dashboard result"
where
  "dashboard_summary D parse loc d now c umbral =
     (case day_ranges parse now of Inl e \<Rightarrow> Inl e
      | Inr (today, yesterday) \<Rightarrow>
        (case computeProfitTotals D (items_between d c today) of Inl e \<Rightarrow> Inl e
         | Inr totals \<Rightarrow>
          (case toDinero D 0 of Inl e \<Rightarrow> Inl e
           | Inr zero \<Rightarrow>
            (case debts_loop D d c (pending_debts d c) zero {} of Inl e \<Rightarrow> Inl e
             | Inr (deudasTotal, deudores') \<Rightarrow>
              (case toMinorUnits D deudasTotal of Inl e \<Rightarrow> Inl e
               | Inr owed \<Rightarrow> Inr \<lparr>db_ventasHoy = salesTotals d c today, db_ventasAyer = salesTotals d c yesterday,
                   db_gananciaHoyMinor = gananciaMinor totals, db_lineasSinCostoHoy = lineasSinCosto totals,
                   db_incidenciasPendientes = pending_incidencias d c, db_deudasTotalMinor = owed,
                   db_personas = card deudores', db_umbral = umbral,
                   db_pocaExistencia = int (length (low_stock d c umbral)),
                   db_items = map (\<lambda>p. (rid p, p_name p, p_stock p, p_category p))
                     (take 5 (sort_key (\<lambda>p. (p_stock p, loc (p_name p))) (low_stock d c umbral)))\<rparr>)))))"

section \<open>The same sales as in the reports\<close>

lemma sales_between_completed: "sales_between d c period = completed_sales d c period"
  by (simp add: sales_between_def completed_sales_def in_range_def)

lemma salesTotals_completed:
  "salesTotals d c period = (sum_list (map sale_total (completed_sales d c period)), int (length (completed_sales d c period)))"
proof -
  have "sum_list (List.map_filter s_totalMinor rows) = sum_list (map sale_total rows)" for rows
    by (induction rows) (auto simp: sale_total_def map_filter_simps split: option.splits)
  then show ?thesis by (simp add: salesTotals_def Let_def sales_between_completed)
qed

lemma filter_mset_either:
  "(\<And>x. \<not> (P x \<and> Q x)) \<Longrightarrow> {#x \<in># M. P x \<or> Q x#} = {#x \<in># M. P x#} + {#x \<in># M. Q x#}"
  by (induction M) auto

lemma mset_lines_of:
  assumes "distinct (map rid ss)" "\<forall>s \<in> set ss. ctx s = c"
  shows "mset [i \<leftarrow> in_context c (saleItems d). \<exists>s \<in> set ss. rid s = si_saleId i] = mset (concat (map (items_of d) ss))"
  using assms
proof (induction ss)
  case (Cons s ss)
  let ?rows = "mset (in_context c (saleItems d))"
  have "\<not> (si_saleId i = rid s \<and> (\<exists>x \<in> set ss. rid x = si_saleId i))" for i :: sale_item
    using Cons.prems(1) by (simp add: image_iff) metis
  note either = filter_mset_either [OF this, where M = ?rows]
  have "(\<exists>x \<in> set (s # ss). rid x = si_saleId i) \<longleftrightarrow> si_saleId i = rid s \<or> (\<exists>x \<in> set ss. rid x = si_saleId i)" for i :: sale_item
    by auto
  then have "{#i \<in># ?rows. \<exists>x \<in> set (s # ss). rid x = si_saleId i#}
      = {#i \<in># ?rows. si_saleId i = rid s#} + {#i \<in># ?rows. \<exists>x \<in> set ss. rid x = si_saleId i#}"
    by (simp only: either)
  moreover have "mset (items_of d s) = {#i \<in># ?rows. si_saleId i = rid s#}"
    using Cons.prems(2) by (simp add: items_of_def)
  ultimately show ?case using Cons.IH Cons.prems by simp
qed simp

lemma items_between_lines:
  assumes "distinct (map rid (sales d))"
  shows "mset (items_between d c period) = mset (map so_line (sold_lines d c period))"
proof -
  let ?ss = "completed_sales d c period"
  let ?line = "\<lambda>i. \<lparr>pl_subtotal = si_subtotalMinor i, pl_quantity = si_quantity i, pl_unitCost = si_unitCostMinor i\<rparr>"
  have "distinct (map rid ?ss)" "\<forall>s \<in> set ?ss. ctx s = c"
    using assms by (auto simp: completed_sales_def in_context_def distinct_map_filter)
  note m = mset_lines_of [OF this, of d]
  have "map so_line (sold_lines d c period) = map ?line (concat (map (items_of d) ?ss))"
    by (simp add: sold_lines_def map_concat o_def line_of_sale_def Let_def)
  then show ?thesis by (simp only: items_between_def sales_between_completed mset_map m)
qed

text \<open>The profit totals do not depend on the order of the lines.\<close>

lemma profit_totals_mset:
  assumes "dinero_laws D" "lines_fit xs" "mset xs = mset ys"
  shows "computeProfitTotals D xs = computeProfitTotals D ys"
proof -
  have set: "set xs = set ys" using assms(3) by (rule mset_eq_setD)
  have sums: "sum_list (map f xs) = sum_list (map f ys)" for f :: "profit_line \<Rightarrow> int"
    using assms(3) by (metis mset_map sum_mset_sum_list)
  have filters: "mset [l \<leftarrow> xs. P l] = mset [l \<leftarrow> ys. P l]" for P using assms(3) by simp
  have "sum_list (map f [l \<leftarrow> xs. P l]) = sum_list (map f [l \<leftarrow> ys. P l])" for f :: "profit_line \<Rightarrow> int" and P
    using filters by (metis mset_map sum_mset_sum_list)
  moreover have "length [l \<leftarrow> xs. P l] = length [l \<leftarrow> ys. P l]" for P using filters by (metis size_mset)
  moreover have "lines_fit ys" using assms(2) set sums by (simp add: lines_fit_def)
  ultimately show ?thesis
    using computeProfitTotals_exact [OF assms(1), of xs] computeProfitTotals_exact [OF assms(1), of ys] assms(2) sums
    by (simp add: lines_fit_def)
qed

section \<open>What is owed\<close>

definition debt_size :: "db \<Rightarrow> string \<Rightarrow> deuda \<Rightarrow> int" where
  "debt_size d c u = \<bar>du_totalMinor u\<bar> + \<bar>deuda_paid d c (rid u)\<bar>"

lemma debts_loop_Inr:
  assumes "dinero_laws D" "debts_loop D d c us t S = Inr (t', S')" "cents D t a"
    and "\<bar>a\<bar> + sum_list (map (debt_size d c) us) \<le> MAX_SAFE_INTEGER"
  shows "cents D t' (a + sum_list (map (\<lambda>u. du_totalMinor u - deuda_paid d c (rid u)) us)) \<and> S' = S \<union> du_deudorId ` set us"
  using assms(2-)
proof (induction us arbitrary: t a S)
  case (Cons u us)
  let ?r = "du_totalMinor u - deuda_paid d c (rid u)"
  have nonneg: "0 \<le> sum_list (map (debt_size d c) us)" by (intro sum_list_nonneg) (auto simp: debt_size_def)
  obtain x y where x: "toDinero D (du_totalMinor u) = Inr x" and y: "toDinero D (deuda_paid d c (rid u)) = Inr y"
    and rest: "debts_loop D d c us (add D t (subtract D x y)) (insert (du_deudorId u) S) = Inr (t', S')"
    using Cons.prems(1) by (auto split: sum.splits)
  have r: "\<bar>?r\<bar> \<le> debt_size d c u" by (simp add: debt_size_def)
  have size: "\<bar>a\<bar> + \<bar>?r\<bar> + sum_list (map (debt_size d c) us) \<le> MAX_SAFE_INTEGER"
    using Cons.prems(3) r by simp
  have "cents D (subtract D x y) ?r"
    using size nonneg by (intro subtract_cents [OF assms(1)] toDinero_cents [OF assms(1)] x y) (auto simp: safe_int_def)
  then have "cents D (add D t (subtract D x y)) (a + ?r)"
    using size nonneg by (intro add_cents [OF assms(1) Cons.prems(2)]) (auto simp: safe_int_def)
  from Cons.IH [OF rest this] size show ?case by (auto simp: algebra_simps)
qed simp

section \<open>The summary agrees with the reports\<close>

lemma day_range_report: "day_range parse t = report_range parse (currentBusinessDate t) (currentBusinessDate t)"
  by (simp add: day_range_def report_range_def Let_def)

lemma salesByPeriod_totals:
  assumes "salesByPeriod D parse d c from to = Inr rep" "report_range parse from to = Inr period"
  shows "salesTotals d c period = (pr_totalSoldMinor rep, pr_saleCount rep)"
  using assms by (auto simp: salesByPeriod_def Let_def grouped_sums salesTotals_completed split: sum.splits)

text \<open>Yesterday ends one millisecond before today begins, and now is today.\<close>

lemma day_ranges_adjacent:
  assumes "86400000 \<le> now" "getUTCFullYear (toLocalReadable now) \<le> 9999" "getUTCFullYear (toLocalReadable (now - 86400000)) \<le> 9999"
  shows "\<exists>today yesterday. day_ranges parse now = Inr (today, yesterday) \<and> snd yesterday + 1 = fst today
    \<and> in_range today now \<and> snd today - fst today = 86399999 \<and> snd yesterday - fst yesterday = 86399999"
proof -
  let ?l = "toLocalReadable now"
  have y: "toLocalReadable (now - 86400000) = ?l - ms_per_day" by (simp add: to_local ms_per_day_def)
  have "day_of (?l - ms_per_day) = day_of ?l - 1"
    using day_of_bounds [of ?l] by (intro day_of_unique) (auto simp: algebra_simps)
  then have "day_of (toLocalReadable (now - 86400000)) = day_of ?l - 1" by (simp add: y)
  moreover have "in_range (fromLocalReadable (day_of ?l * ms_per_day), fromLocalReadable (day_of ?l * ms_per_day + 86399999)) now"
    using day_of_bounds [of ?l] by (auto simp: in_range_def from_local to_local ms_per_day_def algebra_simps)
  ultimately show ?thesis
    using businessDate_boundaries [OF _ assms(2)] businessDate_boundaries [OF _ assms(3)] assms(1)
    by (simp add: day_ranges_def day_range_def Let_def from_local ms_per_day_def algebra_simps)
qed

lemma sort_key_take:
  assumes "x \<in> set (drop k (sort_key f xs))" "y \<in> set (take k (sort_key f xs))"
  shows "f y \<le> f x"
proof -
  have "sorted (map f (take k (sort_key f xs) @ drop k (sort_key f xs)))" by simp
  then show ?thesis using assms unfolding map_append sorted_append by auto
qed

text \<open>C31: the home screen agrees with the reports. Today and yesterday are two adjacent days, now in the first; their
  sales and the profit of today are what the reports of the same days say; what is owed is the sum of the
  balances of the pending debts; and the products shown are the five scarcest of those that run out.\<close>

theorem dashboard_agrees:
  assumes "dinero_laws D" "distinct (map rid (sales d))"
    and "86400000 \<le> now" "getUTCFullYear (toLocalReadable now) \<le> 9999" "getUTCFullYear (toLocalReadable (now - 86400000)) \<le> 9999"
    and "sum_list (map (debt_size d c) (pending_debts d c)) \<le> MAX_SAFE_INTEGER"
    and "day_range parse now = Inr today" "lines_fit (items_between d c today)"
    and "dashboard_summary D parse loc d now c umbral = Inr r"
    and "salesByPeriod D parse d c (currentBusinessDate now) (currentBusinessDate now) = Inr rep"
    and "salesByPeriod D parse d c (currentBusinessDate (now - 86400000)) (currentBusinessDate (now - 86400000)) = Inr rep'"
    and "salesDetail D parse loc' d c (currentBusinessDate now) (currentBusinessDate now) p limit = Inr (detail, totals)"
  shows "in_range (pr_from rep, pr_to rep) now \<and> pr_to rep' + 1 = pr_from rep
    \<and> db_ventasHoy r = (pr_totalSoldMinor rep, pr_saleCount rep)
    \<and> db_ventasAyer r = (pr_totalSoldMinor rep', pr_saleCount rep')
    \<and> db_gananciaHoyMinor r = gananciaMinor totals \<and> db_lineasSinCostoHoy r = lineasSinCosto totals
    \<and> db_deudasTotalMinor r = sum_list (map (\<lambda>u. du_totalMinor u - deuda_paid d c (rid u)) (pending_debts d c))
    \<and> db_personas r = card (du_deudorId ` set (pending_debts d c))
    \<and> int (length (db_items r)) = min 5 (db_pocaExistencia r)
    \<and> (\<forall>x \<in> set (low_stock d c umbral). (rid x, p_name x, p_stock x, p_category x) \<in> set (db_items r)
         \<or> (\<forall>(_, _, stock, _) \<in> set (db_items r). stock \<le> p_stock x))"
proof -
  note today = assms(7)
  obtain today' yesterday where both: "day_ranges parse now = Inr (today', yesterday)" "snd yesterday + 1 = fst today'" "in_range today' now"
    using day_ranges_adjacent [OF assms(3-5), of parse] by blast
  then have "today' = today" using today by (auto simp: day_ranges_def split: sum.splits)
  with both have ranges: "day_ranges parse now = Inr (today, yesterday)" "snd yesterday + 1 = fst today" "in_range today now"
    by simp_all
  have yesterday: "day_range parse (now - 86400000) = Inr yesterday"
    using ranges(1) today by (auto simp: day_ranges_def split: sum.splits)
  obtain totals' zero owed debtors total where
      totals': "computeProfitTotals D (items_between d c today) = Inr totals'" and zero: "toDinero D 0 = Inr zero"
    and loop: "debts_loop D d c (pending_debts d c) zero {} = Inr (owed, debtors)" and total: "toMinorUnits D owed = Inr total"
    and r: "r = \<lparr>db_ventasHoy = salesTotals d c today, db_ventasAyer = salesTotals d c yesterday,
                   db_gananciaHoyMinor = gananciaMinor totals', db_lineasSinCostoHoy = lineasSinCosto totals',
                   db_incidenciasPendientes = pending_incidencias d c, db_deudasTotalMinor = total,
                   db_personas = card debtors, db_umbral = umbral,
                   db_pocaExistencia = int (length (low_stock d c umbral)),
                   db_items = map (\<lambda>p. (rid p, p_name p, p_stock p, p_category p))
                     (take 5 (sort_key (\<lambda>p. (p_stock p, loc (p_name p))) (low_stock d c umbral)))\<rparr>"
    using assms(9) by (auto simp: dashboard_summary_def ranges split: sum.splits)
  have periods: "(pr_from rep, pr_to rep) = today" "(pr_from rep', pr_to rep') = yesterday"
    using assms(10,11) today yesterday
    by (auto simp: salesByPeriod_def day_range_report Let_def split: sum.splits)
  have "computeProfitTotals D (map so_line (sold_lines d c today)) = Inr totals"
    using assms(12) today by (auto simp: salesDetail_def day_range_report Let_def split: sum.splits)
  then have "totals' = totals"
    using profit_totals_mset [OF assms(1,8) items_between_lines [OF assms(2)]] totals' by simp
  moreover have "salesTotals d c today = (pr_totalSoldMinor rep, pr_saleCount rep)"
    using salesByPeriod_totals [OF assms(10)] today by (simp add: day_range_report)
  moreover have "salesTotals d c yesterday = (pr_totalSoldMinor rep', pr_saleCount rep')"
    using salesByPeriod_totals [OF assms(11)] yesterday by (simp add: day_range_report)
  moreover have "total = sum_list (map (\<lambda>u. du_totalMinor u - deuda_paid d c (rid u)) (pending_debts d c))
      \<and> debtors = du_deudorId ` set (pending_debts d c)"
    using debts_loop_Inr [OF assms(1) loop toDinero_cents [OF assms(1) zero]] assms(6) total
    by (auto simp: toMinorUnits_cents split: if_splits)
  moreover have "int (length (db_items r)) = min 5 (db_pocaExistencia r)" by (simp add: r min_def)
  moreover have "(rid x, p_name x, p_stock x, p_category x) \<in> set (db_items r)
         \<or> (\<forall>(_, _, stock, _) \<in> set (db_items r). stock \<le> p_stock x)" if x: "x \<in> set (low_stock d c umbral)" for x
  proof -
    let ?sorted = "sort_key (\<lambda>p. (p_stock p, loc (p_name p))) (low_stock d c umbral)"
    have "x \<in> set (take 5 ?sorted) \<or> x \<in> set (drop 5 ?sorted)"
      using x by (metis append_take_drop_id set_append set_sort Un_iff)
    then show ?thesis using sort_key_take [of x 5 "\<lambda>p. (p_stock p, loc (p_name p))"] by (fastforce simp: r less_eq_prod_def)
  qed
  ultimately show ?thesis using ranges periods by (auto simp: r)
qed

text \<open>The 9th of January 2026, with a debt of which 2000 was paid.\<close>

definition home_db :: db where
  "home_db = report_db\<lparr>deudas := map (\<lambda>u. u\<lparr>du_status := Pendiente, du_saldadaAt := None\<rparr>) (deudas report_db),
     abonos := take 1 (abonos report_db)\<rparr>"

definition home_now :: instant where "home_now = 1768000100000"

definition home :: "dashboard result" where
  "home = dashboard_summary exact_dinero (\<lambda>_. None) (\<lambda>_. 0 :: nat) home_db home_now ''t1'' 5"

definition home_report :: "instant \<Rightarrow> period_report result" where
  "home_report t = salesByPeriod exact_dinero (\<lambda>_. None) home_db ''t1'' (currentBusinessDate t) (currentBusinessDate t)"

definition home_detail :: "(detail_row page \<times> profit_totals) result" where
  "home_detail = salesDetail exact_dinero (\<lambda>_. None) (\<lambda>_. 0 :: nat) home_db ''t1''
     (currentBusinessDate home_now) (currentBusinessDate home_now) 1 20"

lemma dashboard_agrees_witness:
  "\<exists>r rep. home = Inr r \<and> home_report home_now = Inr rep \<and> db_ventasHoy r = (5000, 1) \<and> db_gananciaHoyMinor r = 3000
     \<and> db_deudasTotalMinor r = 3000 \<and> db_personas r = 1 \<and> map fst (db_items r) = [''p2'']
     \<and> db_ventasHoy r = (pr_totalSoldMinor rep, pr_saleCount rep)"
proof -
  have run: "is_ok home" "is_ok (home_report home_now)" "is_ok (home_report (home_now - 86400000))" "is_ok home_detail"
    "is_ok (day_range (\<lambda>_. None) home_now)" by code_simp+
  have look: "db_ventasHoy (projr home) = (5000, 1)" "db_gananciaHoyMinor (projr home) = 3000"
    "db_deudasTotalMinor (projr home) = 3000" "db_personas (projr home) = 1" "map fst (db_items (projr home)) = [''p2'']"
    by code_simp+
  have hyp: "distinct (map rid (sales home_db))" "86400000 \<le> home_now" "getUTCFullYear (toLocalReadable home_now) \<le> 9999"
    "getUTCFullYear (toLocalReadable (home_now - 86400000)) \<le> 9999"
    "sum_list (map (debt_size home_db ''t1'') (pending_debts home_db ''t1'')) \<le> MAX_SAFE_INTEGER"
    "list_all line_ok (items_between home_db ''t1'' (projr (day_range (\<lambda>_. None) home_now)))"
    "sum_list (map line_size (items_between home_db ''t1'' (projr (day_range (\<lambda>_. None) home_now)))) \<le> MAX_SAFE_INTEGER"
    by code_simp+
  then have fit: "lines_fit (items_between home_db ''t1'' (projr (day_range (\<lambda>_. None) home_now)))"
    by (simp add: lines_fit_def list_all_iff)
  obtain detail totals where detail: "home_detail = Inr (detail, totals)" using is_ok_projr [OF run(4)] by (metis prod.collapse)
  note all = dashboard_agrees [OF exact_dinero_laws hyp(1-5) is_ok_projr [OF run(5)] fit
      is_ok_projr [OF run(1), unfolded home_def] is_ok_projr [OF run(2), unfolded home_report_def]
      is_ok_projr [OF run(3), unfolded home_report_def] detail [unfolded home_detail_def]]
  have "db_ventasHoy (projr home) = (pr_totalSoldMinor (projr (home_report home_now)), pr_saleCount (projr (home_report home_now)))"
    using all unfolding home_def home_report_def by blast
  with look show ?thesis by (intro exI [of _ "projr home"] exI [of _ "projr (home_report home_now)"] conjI is_ok_projr run) simp_all
qed

end
