(* ===== verification/TextSanitize.thy ===== *)
theory TextSanitize
  imports Schema
begin

text \<open>
  Cleaning what people type (\<open>src/common/text-sanitize.ts\<close>). A character is one of the first 256 of
  Unicode, so the invisible characters the source also removes (zero width, direction marks) do not occur.
\<close>

definition is_spacing :: "char \<Rightarrow> bool" where
  "is_spacing c \<longleftrightarrow> c \<in> {CHR 0x09, CHR 0x0A, CHR 0x0B, CHR 0x0C, CHR 0x0D}"

definition is_control :: "char \<Rightarrow> bool" where
  "is_control c \<longleftrightarrow> (of_char c :: nat) < 0x20 \<or> (0x7F \<le> (of_char c :: nat) \<and> (of_char c :: nat) < 0xA0)"

text \<open>\<open>replace(/P+/g, ' ')\<close>: a run of characters becomes one space.\<close>

primrec squeeze :: "(char \<Rightarrow> bool) \<Rightarrow> string \<Rightarrow> string" where
  "squeeze P [] = []"
| "squeeze P (c # cs) = (if \<not> P c then c # squeeze P cs
     else if cs \<noteq> [] \<and> P (hd cs) then squeeze P cs else CHR '' '' # squeeze P cs)"

text \<open>\<open>replace(/ {2,}/g, ' ')\<close> is the same on spaces: a run of one space stays one.\<close>

definition cleanText :: "string \<Rightarrow> string" where
  "cleanText s = trim (squeeze (\<lambda>c. c = CHR '' '') (filter (\<lambda>c. \<not> is_control c) (squeeze is_spacing s)))"

definition index_of :: "char \<Rightarrow> string \<Rightarrow> nat option" where
  "index_of c s = (if c \<in> set s then Some (length (takeWhile (\<lambda>x. x \<noteq> c) s)) else None)"

text \<open>The last position at which \<open>c\<close> stands and something follows it: \<open>lastIndexOf(c, length - 2)\<close>.\<close>

definition last_before_end :: "char \<Rightarrow> string \<Rightarrow> nat option" where
  "last_before_end c s = (case filter (\<lambda>i. s ! i = c) (rev [0..<length s - 1]) of [] \<Rightarrow> None | i # _ \<Rightarrow> Some i)"

definition maskEmail :: "string \<Rightarrow> string" where
  "maskEmail email =
     (if \<exists>c \<in> set email. is_space c then ''***''
      else case index_of (CHR ''@'') email of
        None \<Rightarrow> ''***''
      | Some at \<Rightarrow>
          (let domain = drop (at + 1) email in
           if at < 1 \<or> CHR ''@'' \<in> set domain \<or> take 1 domain = ''.'' then ''***''
           else case last_before_end (CHR ''.'') domain of
             None \<Rightarrow> ''***''
           | Some dot \<Rightarrow> take 1 email @ ''***@'' @ take 1 domain @ ''***'' @ drop dot domain))"

definition maskPhone :: "string \<Rightarrow> string" where
  "maskPhone phone = (let digits = filter is_digit phone in
     if length digits < 4 then ''***'' else replicate (length digits - 2) (CHR ''*'') @ drop (length digits - 2) digits)"

lemma squeeze_set: "c \<in> set (squeeze P s) \<Longrightarrow> c = CHR '' '' \<or> c \<in> set s \<and> \<not> P c"
  by (induction s) (simp_all split: if_splits, blast+)

lemma trim_set: "c \<in> set (trim s) \<Longrightarrow> c \<in> set s"
  unfolding trim_def by (metis set_dropWhileD set_rev)

text \<open>What \<open>cleanText\<close> returns has no control character and neither starts nor ends with a space.\<close>

lemma cleanText_clean: "c \<in> set (cleanText s) \<Longrightarrow> \<not> is_control c"
proof -
  have sp: "\<not> is_control (CHR '' '')" by code_simp
  assume "c \<in> set (cleanText s)"
  then have "c \<in> set (squeeze (\<lambda>c. c = CHR '' '') (filter (\<lambda>c. \<not> is_control c) (squeeze is_spacing s)))"
    unfolding cleanText_def by (rule trim_set)
  from squeeze_set [OF this] sp show ?thesis by (elim disjE) simp_all
qed

lemma trim_ends: "trim s \<noteq> [] \<Longrightarrow> \<not> is_space (hd (trim s)) \<and> \<not> is_space (last (trim s))"
proof -
  let ?t = "dropWhile is_space s"
  assume ne: "trim s \<noteq> []"
  then have t: "dropWhile is_space (rev ?t) \<noteq> []" by (simp add: trim_def)
  obtain zs where zs: "?t = trim s @ zs"
    by (metis (no_types) trim_def append_Nil2 rev_append rev_rev_ident takeWhile_dropWhile_id)
  then have "hd ?t = hd (trim s)" "?t \<noteq> []" using ne by auto
  moreover have "\<not> is_space (hd ?t)" using \<open>?t \<noteq> []\<close> by (simp add: hd_dropWhile)
  moreover have "last (trim s) = hd (dropWhile is_space (rev ?t))" by (simp add: trim_def last_rev)
  moreover have "\<not> is_space (hd (dropWhile is_space (rev ?t)))" using t by (simp add: hd_dropWhile)
  ultimately show ?thesis by simp
qed

end
