(* ===== verification/Rules.thy ===== *)
theory Rules
  imports TextSanitize Sample
begin

text \<open>
  Agreeing on the rules (\<open>src/finance/finance-rules.service.ts\<close> and \<open>finance-rule-links.service.ts\<close>, with
  the functions and triggers of their two migrations): a partner writes a draft, submits it, every active
  partner answers through a link that is mailed to them, and the rules are in force when all approved.
\<close>

definition OPEN :: "string list" where
  "OPEN = [''pendiente'', ''en_revision'']"

definition is_open :: "rule_set \<Rightarrow> bool" where
  "is_open s \<longleftrightarrow> fr_status s \<in> set OPEN"

definition LINK_TTL_MS :: int where
  "LINK_TTL_MS = 7 * 24 * 60 * 60 * 1000"

definition RESEND_COOLDOWN_MS :: int where
  "RESEND_COOLDOWN_MS = 24 * 60 * 60 * 1000"

definition MAX_REASON_LENGTH :: nat where
  "MAX_REASON_LENGTH = 500"

section \<open>The tables\<close>

text \<open>The trigger \<open>finance_rule_set_guard\<close> on the old and the new row of an update.\<close>

definition allowed_transition :: "string \<Rightarrow> string \<Rightarrow> bool" where
  "allowed_transition old new \<longleftrightarrow>
     old = ''borrador'' \<and> new \<in> {''pendiente'', ''descartada''}
   \<or> old = ''pendiente'' \<and> new \<in> {''en_revision'', ''vigente'', ''descartada''}
   \<or> old = ''en_revision'' \<and> new = ''descartada''
   \<or> old = ''vigente'' \<and> new = ''reemplazada''"

definition rule_set_guard :: "rule_set \<Rightarrow> rule_set \<Rightarrow> bool" where
  "rule_set_guard old new \<longleftrightarrow>
     rid new = rid old \<and> ctx new = ctx old \<and> fr_version new = fr_version old
   \<and> fr_proposedByMemberId new = fr_proposedByMemberId old \<and> fr_proposedByAccountId new = fr_proposedByAccountId old
   \<and> fr_basedOnId new = fr_basedOnId old
   \<and> (fr_status old \<noteq> ''borrador'' \<longrightarrow> fr_config new = fr_config old \<and> fr_configHash new = fr_configHash old
        \<and> fr_changeSummary new = fr_changeSummary old)
   \<and> (fr_status new \<noteq> fr_status old \<longrightarrow> allowed_transition (fr_status old) (fr_status new))"

text \<open>The unique indexes: the version, the open proposal and the rules in force of a business.\<close>

definition rule_set_indexes :: "rule_set list \<Rightarrow> bool" where
  "rule_set_indexes rows \<longleftrightarrow> distinct (map (\<lambda>s. (ctx s, fr_version s)) rows)
     \<and> distinct (map ctx (filter is_open rows))
     \<and> distinct (map ctx [s \<leftarrow> rows. fr_status s = ''vigente''])"

definition guard_error :: failure where
  "guard_error = Internal ''restrict_violation''"

text \<open>An \<open>UPDATE\<close> of the rows that satisfy \<open>P\<close>.\<close>

definition update_sets :: "(rule_set \<Rightarrow> bool) \<Rightarrow> (rule_set \<Rightarrow> rule_set) \<Rightarrow> db \<Rightarrow> db result" where
  "update_sets P f d =
     (if \<not> list_all (\<lambda>s. P s \<longrightarrow> rule_set_guard s (f s)) (ruleSets d) then Inl guard_error
      else if \<not> rule_set_indexes (map (\<lambda>s. if P s then f s else s) (ruleSets d)) then Inl (UniqueViolation ''FinanceRuleSet'')
      else Inr (d\<lparr>ruleSets := map (\<lambda>s. if P s then f s else s) (ruleSets d)\<rparr>))"

definition update_set :: "string \<Rightarrow> uuid \<Rightarrow> (rule_set \<Rightarrow> rule_set) \<Rightarrow> db \<Rightarrow> db result" where
  "update_set c i f d = (if find_row c i (ruleSets d) = None then Inl (Internal ''P2025'')
     else update_sets (\<lambda>s. rid s = i \<and> ctx s = c) f d)"

definition insert_set :: "rule_set \<Rightarrow> db \<Rightarrow> db result" where
  "insert_set s d = (case insert_row ''FinanceRuleSet'' s (ruleSets d) of
     Inl e \<Rightarrow> Inl e
   | Inr rows \<Rightarrow> if rule_set_indexes rows then Inr (d\<lparr>ruleSets := rows\<rparr>) else Inl (UniqueViolation ''FinanceRuleSet''))"

section \<open>Helpers of the service\<close>

definition acting :: "actor \<Rightarrow> uuid" where
  "acting actor = fst (the (act_selection actor))"

record partner =
  pr_memberId :: uuid
  pr_name :: string
  pr_correo :: "string option"

definition activePartners :: "db \<Rightarrow> string \<Rightarrow> partner list" where
  "activePartners d c = map (\<lambda>m. \<lparr>pr_memberId = rid m, pr_name = m_name m, pr_correo = m_correo m\<rparr>)
     (sort_key (\<lambda>m. (m_createdAt m, rid m)) [m \<leftarrow> members d. ctx m = c \<and> m_role m = Socio \<and> m_active m])"

definition nameOf :: "db \<Rightarrow> string \<Rightarrow> uuid \<Rightarrow> string" where
  "nameOf d c m = (case find_row c m (members d) of None \<Rightarrow> ''Un socio'' | Some x \<Rightarrow> m_name x)"

definition lockRow :: "string \<Rightarrow> uuid \<Rightarrow> db \<Rightarrow> rule_set result" where
  "lockRow c i d = (case find_row c i (ruleSets d) of None \<Rightarrow> Inl (NotFound ''FINANCE_RULES_NOT_FOUND'') | Some s \<Rightarrow> Inr s)"

definition openAfterLock :: "string \<Rightarrow> uuid \<Rightarrow> db \<Rightarrow> rule_set option result" where
  "openAfterLock c i d = (case lockRow c i d of Inl e \<Rightarrow> Inl e | Inr s \<Rightarrow> Inr (if is_open s then Some s else None))"

definition first_set :: "string \<Rightarrow> (rule_set \<Rightarrow> bool) \<Rightarrow> db \<Rightarrow> rule_set option" where
  "first_set c P d = find (\<lambda>s. ctx s = c \<and> P s) (ruleSets d)"

definition listNames :: "string list \<Rightarrow> string" where
  "listNames names = (if length names \<le> 1 then (case names of [] \<Rightarrow> [] | n # _ \<Rightarrow> n)
     else join '', '' (butlast names) @ '' y '' @ last names)"

definition next_version :: "string \<Rightarrow> rule_set list \<Rightarrow> int" where
  "next_version c rows = foldr max (map fr_version (in_context c rows)) 0 + 1"

definition new_draft :: "actor \<Rightarrow> uuid \<Rightarrow> instant \<Rightarrow> rules_config \<Rightarrow> string \<Rightarrow> uuid option \<Rightarrow> int \<Rightarrow> rule_set" where
  "new_draft actor i now config hash basedOnId version = \<lparr>rid = i, ctx = act_contextId actor, fr_version = version,
     fr_status = ''borrador'', fr_config = config, fr_configHash = hash, fr_proposedByMemberId = acting actor,
     fr_proposedByAccountId = act_accountId actor, fr_createdAt = now, fr_updatedAt = now, fr_submittedAt = None,
     fr_activatedAt = None, fr_supersededAt = None, fr_withdrawnAt = None, fr_basedOnId = basedOnId,
     fr_changeSummary = None, fr_inReviewAt = None, fr_discardedAt = None, fr_closedNote = None\<rparr>"

definition createDraft :: "actor \<Rightarrow> uuid \<Rightarrow> instant \<Rightarrow> rules_config \<Rightarrow> string \<Rightarrow> uuid option \<Rightarrow> db \<Rightarrow> db result" where
  "createDraft actor i now config hash basedOnId d =
     insert_set (new_draft actor i now config hash basedOnId (next_version (act_contextId actor) (ruleSets d))) d"

section \<open>The links\<close>

definition live :: "rule_link \<Rightarrow> bool" where
  "live l \<longleftrightarrow> lk_usedAt l = None \<and> lk_supersededAt l = None"

text \<open>\<open>updateMany\<close> of the live links that satisfy \<open>P\<close>.\<close>

definition retire_links :: "string \<Rightarrow> (rule_link \<Rightarrow> bool) \<Rightarrow> instant \<Rightarrow> db \<Rightarrow> db" where
  "retire_links c P now d = d\<lparr>ruleLinks := map (\<lambda>l. if ctx l = c \<and> P l \<and> live l
     then l\<lparr>lk_supersededAt := Some now\<rparr> else l) (ruleLinks d)\<rparr>"

record issue_input =
  is_ruleSetId :: uuid
  is_memberId :: uuid
  is_correo :: string
  is_kind :: string
  is_sentBy :: uuid
  is_now :: instant

text \<open>\<open>fresh\<close> is the identifier and the token that are drawn for the link.\<close>

definition new_link :: "(string \<Rightarrow> string) \<Rightarrow> uuid \<times> string \<Rightarrow> string \<Rightarrow> issue_input \<Rightarrow> rule_link" where
  "new_link sha256 fresh c q = \<lparr>rid = fst fresh, ctx = c, lk_ruleSetId = is_ruleSetId q, lk_memberId = is_memberId q,
     lk_correo = is_correo q, lk_tokenHash = sha256 (snd fresh), lk_kind = is_kind q, lk_sentByMemberId = is_sentBy q,
     lk_emailSent = False, lk_createdAt = is_now q, lk_expiresAt = is_now q + LINK_TTL_MS, lk_usedAt = None,
     lk_supersededAt = None\<rparr>"

definition issue :: "(string \<Rightarrow> string) \<Rightarrow> uuid \<times> string \<Rightarrow> string \<Rightarrow> issue_input \<Rightarrow> db \<Rightarrow> db result" where
  "issue sha256 fresh c q d =
     (let d1 = retire_links c (\<lambda>l. lk_ruleSetId l = is_ruleSetId q \<and> lk_memberId l = is_memberId q) (is_now q) d;
          l = new_link sha256 fresh c q in
      if lk_tokenHash l \<in> set (map lk_tokenHash (ruleLinks d1)) then Inl (UniqueViolation ''FinanceRuleLink'')
      else case insert_row ''FinanceRuleLink'' l (ruleLinks d1) of
        Inl e \<Rightarrow> Inl e
      | Inr rows \<Rightarrow> Inr (d1\<lparr>ruleLinks := rows\<rparr>))"

text \<open>A link to deliver: its identifier, its token and whom it goes to.\<close>

record link_to_send =
  ls_linkId :: uuid
  ls_token :: string
  ls_memberId :: uuid
  ls_memberName :: string
  ls_correo :: string

fun issue_all :: "(string \<Rightarrow> string) \<Rightarrow> (uuid \<Rightarrow> uuid \<times> string) \<Rightarrow> string \<Rightarrow> uuid \<Rightarrow> string \<Rightarrow> uuid \<Rightarrow> instant
    \<Rightarrow> partner list \<Rightarrow> db \<Rightarrow> (link_to_send list \<times> db) result" where
  "issue_all sha256 fresh c i kind me now [] d = Inr ([], d)"
| "issue_all sha256 fresh c i kind me now (p # ps) d =
     (case issue sha256 (fresh (pr_memberId p)) c \<lparr>is_ruleSetId = i, is_memberId = pr_memberId p,
         is_correo = the (pr_correo p), is_kind = kind, is_sentBy = me, is_now = now\<rparr> d of
        Inl e \<Rightarrow> Inl e
      | Inr d1 \<Rightarrow>
         (case issue_all sha256 fresh c i kind me now ps d1 of
            Inl e \<Rightarrow> Inl e
          | Inr (ls, d2) \<Rightarrow> Inr (\<lparr>ls_linkId = fst (fresh (pr_memberId p)), ls_token = snd (fresh (pr_memberId p)),
              ls_memberId = pr_memberId p, ls_memberName = pr_name p, ls_correo = the (pr_correo p)\<rparr> # ls, d2)))"

text \<open>\<open>deliver\<close>, after the commit: \<open>mailed\<close> says which links the mail service accepted (none without a public
  address of the site); a link that did not go out is retired at \<open>now\<close>. Each link is updated on its own.\<close>

definition deliver_one :: "string \<Rightarrow> bool \<Rightarrow> instant \<Rightarrow> uuid \<Rightarrow> db \<Rightarrow> db" where
  "deliver_one c ok now i d = d\<lparr>ruleLinks := update_row c i
     (if ok then lk_emailSent_update (\<lambda>_. True) else lk_supersededAt_update (\<lambda>_. Some now)) (ruleLinks d)\<rparr>"

definition deliver :: "string \<Rightarrow> (uuid \<Rightarrow> bool) \<Rightarrow> instant \<Rightarrow> link_to_send list \<Rightarrow> db \<Rightarrow> uuid list \<times> db" where
  "deliver c mailed now ls d = (map ls_memberId (filter (mailed \<circ> ls_linkId) ls),
     fold (\<lambda>l. deliver_one c (mailed (ls_linkId l)) now (ls_linkId l)) ls d)"

section \<open>Writing and submitting\<close>

text \<open>\<open>w\<close> is what other transactions commit between the reads and the writes of one that only holds the
  business lock: everything but another \<open>saveDraft\<close>, \<open>submit\<close> or \<open>modify\<close> of the business.\<close>

definition invalid_rules :: "string list \<Rightarrow> failure" where
  "invalid_rules errors = BadRequest (''Las reglas no son v'' @ CHR 0xE1 # ''lidas: '' @ join ''; '' errors)"

record draft_plan =
  dp_newId :: uuid
  dp_now :: instant
  dp_config :: rules_config
  dp_hash :: string
  dp_open :: "rule_set option"

definition saveDraft_reads :: "(string \<Rightarrow> string) \<Rightarrow> actor \<Rightarrow> uuid \<Rightarrow> instant \<Rightarrow> jsval \<Rightarrow> db \<Rightarrow> draft_plan result" where
  "saveDraft_reads sha256 actor i now input d =
     (case parseRulesConfig input of
        Inl errors \<Rightarrow> Inl (invalid_rules errors)
      | Inr config \<Rightarrow>
         (case configHash sha256 config of
            Inl e \<Rightarrow> Inl e
          | Inr hash \<Rightarrow>
             (let open = first_set (act_contextId actor) (\<lambda>s. fr_status s = ''borrador'') d in
              if open \<noteq> None \<and> fr_proposedByMemberId (the open) \<noteq> acting actor then Inl (Conflict ''FINANCE_RULES_DRAFT_OWNED'')
              else Inr \<lparr>dp_newId = i, dp_now = now, dp_config = config, dp_hash = hash, dp_open = open\<rparr>)))"

definition saveDraft_writes :: "actor \<Rightarrow> draft_plan \<Rightarrow> db \<Rightarrow> (uuid \<times> db) result" where
  "saveDraft_writes actor plan d =
     (case dp_open plan of
        Some open \<Rightarrow>
          (case update_set (act_contextId actor) (rid open)
              (\<lambda>s. s\<lparr>fr_config := dp_config plan, fr_configHash := dp_hash plan, fr_updatedAt := dp_now plan\<rparr>) d of
             Inl e \<Rightarrow> Inl e | Inr d' \<Rightarrow> Inr (rid open, d'))
      | None \<Rightarrow>
          (case createDraft actor (dp_newId plan) (dp_now plan) (dp_config plan) (dp_hash plan) None d of
             Inl e \<Rightarrow> Inl e | Inr d' \<Rightarrow> Inr (dp_newId plan, d')))"

definition read_then_write :: "('s \<Rightarrow> 'p result) \<Rightarrow> ('s \<Rightarrow> 's) \<Rightarrow> ('p \<Rightarrow> 's \<Rightarrow> ('r \<times> 's) result) \<Rightarrow> 's \<Rightarrow> 'r result \<times> 's" where
  "read_then_write reads w writes d =
     (case reads d of
        Inl e \<Rightarrow> (Inl e, d)
      | Inr plan \<Rightarrow> (case writes plan (w d) of Inl e \<Rightarrow> (Inl e, w d) | Inr (r, d') \<Rightarrow> (Inr r, d')))"

definition saveDraft :: "(string \<Rightarrow> string) \<Rightarrow> (db \<Rightarrow> db) \<Rightarrow> actor \<Rightarrow> uuid \<Rightarrow> instant \<Rightarrow> jsval \<Rightarrow> db \<Rightarrow> uuid result \<times> db" where
  "saveDraft sha256 w actor i now input =
     read_then_write (saveDraft_reads sha256 actor i now input) w (saveDraft_writes actor)"

definition discarded :: "instant \<Rightarrow> string \<Rightarrow> rule_set \<Rightarrow> rule_set" where
  "discarded now note s = s\<lparr>fr_status := ''descartada'', fr_discardedAt := Some now, fr_updatedAt := now,
     fr_closedNote := Some note\<rparr>"

definition discard :: "actor \<Rightarrow> uuid \<Rightarrow> instant \<Rightarrow> db \<Rightarrow> uuid result \<times> db" where
  "discard actor i now = transaction (\<lambda>d. let c = act_contextId actor in
     case lockRow c i d of
       Inl e \<Rightarrow> Inl e
     | Inr row \<Rightarrow>
         if fr_status row \<noteq> ''borrador'' \<and> \<not> is_open row then Inl (Conflict ''FINANCE_RULES_WRONG_STATE'')
         else (case update_set c i (discarded now (''Descartada por '' @ nameOf d c (acting actor) @ ''.'')) d of
                 Inl e \<Rightarrow> Inl e
               | Inr d1 \<Rightarrow> Inr (i, retire_links c (\<lambda>l. lk_ruleSetId l = i) now d1)))"

text \<open>What \<open>submit\<close> reads before it waits for the open proposal.\<close>

record submit_plan =
  sp_row :: rule_set
  sp_partners :: "partner list"
  sp_found :: "uuid option"

definition submit_reads :: "actor \<Rightarrow> uuid \<Rightarrow> db \<Rightarrow> submit_plan result" where
  "submit_reads actor i d =
     (let c = act_contextId actor in
      case lockRow c i d of
        Inl e \<Rightarrow> Inl e
      | Inr row \<Rightarrow>
          if fr_status row \<noteq> ''borrador'' then Inl (Conflict ''FINANCE_RULES_WRONG_STATE'')
          else if fr_proposedByMemberId row \<noteq> acting actor then Inl Forbidden
          else if \<exists>p \<in> set (activePartners d c). pr_correo p = None
            then Inl (Unprocessable (''No se puede enviar. Falta el correo de ''
              @ listNames (map pr_name [p \<leftarrow> activePartners d c. pr_correo p = None]) @ ''.''))
          else Inr \<lparr>sp_row = row, sp_partners = activePartners d c, sp_found = map_option rid (first_set c is_open d)\<rparr>)"

record proposal_meta =
  pm_proposerName :: string
  pm_version :: int
  pm_config :: rules_config
  pm_changes :: "rule_change list option"

definition base_of :: "string \<Rightarrow> rule_set \<Rightarrow> db \<Rightarrow> rule_set option" where
  "base_of c row d = (case fr_basedOnId row of Some b \<Rightarrow> find_row c b (ruleSets d)
     | None \<Rightarrow> first_set c (\<lambda>s. fr_status s = ''vigente'') d)"

definition some_changes :: "rule_change list \<Rightarrow> rule_change list option" where
  "some_changes changes = (if changes = [] then None else Some changes)"

definition submitted :: "instant \<Rightarrow> rule_change list \<Rightarrow> rule_set \<Rightarrow> rule_set" where
  "submitted now changes s = s\<lparr>fr_status := ''pendiente'', fr_submittedAt := Some now, fr_updatedAt := now,
     fr_changeSummary := (if changes = [] then fr_changeSummary s else Some changes)\<rparr>"

text \<open>The open proposal, locked and read again; then the writes.\<close>

definition open_now :: "string \<Rightarrow> submit_plan \<Rightarrow> db \<Rightarrow> rule_set option result" where
  "open_now c plan d = (case sp_found plan of None \<Rightarrow> Inr None | Some j \<Rightarrow> openAfterLock c j d)"

definition proposal_changes :: "(int \<Rightarrow> string) \<Rightarrow> string \<Rightarrow> rule_set \<Rightarrow> db \<Rightarrow> rule_change list" where
  "proposal_changes money c row d = (case base_of c row d of None \<Rightarrow> []
     | Some b \<Rightarrow> describeChanges money (fr_config b) (fr_config row))"

definition replace_open :: "string \<Rightarrow> instant \<Rightarrow> rule_set \<Rightarrow> rule_set option \<Rightarrow> db \<Rightarrow> db result" where
  "replace_open c now row open d = (case open of None \<Rightarrow> Inr d
     | Some s \<Rightarrow> update_set c (rid s)
         (discarded now (''Reemplazada por la versi'' @ CHR 0xF3 # ''n '' @ show_int (fr_version row) @ ''.'')) d)"

definition submit_writes :: "(string \<Rightarrow> string) \<Rightarrow> (int \<Rightarrow> string) \<Rightarrow> (uuid \<Rightarrow> uuid \<times> string) \<Rightarrow> actor \<Rightarrow> uuid \<Rightarrow> instant
    \<Rightarrow> submit_plan \<Rightarrow> db \<Rightarrow> ((link_to_send list \<times> proposal_meta) \<times> db) result" where
  "submit_writes sha256 money fresh actor i now plan d =
     (let c = act_contextId actor; row = sp_row plan in
      case open_now c plan d of
        Inl e \<Rightarrow> Inl e
      | Inr open \<Rightarrow>
          if open \<noteq> None \<and> map_option rid open \<noteq> fr_basedOnId row then Inl (Conflict ''FINANCE_RULES_PENDING_EXISTS'')
          else
            (let changes = proposal_changes money c row d in
             case replace_open c now row open d of
               Inl e \<Rightarrow> Inl e
             | Inr d1 \<Rightarrow>
                (case update_set c i (submitted now changes) d1 of
                   Inl e \<Rightarrow> Inl e
                 | Inr d2 \<Rightarrow>
                    (case issue_all sha256 fresh c i ''envio'' (acting actor) now (sp_partners plan) d2 of
                       Inl e \<Rightarrow> Inl e
                     | Inr (toSend, d3) \<Rightarrow>
                         Inr ((toSend, \<lparr>pm_proposerName = (case find (\<lambda>p. pr_memberId p = acting actor) (sp_partners plan) of
                                  None \<Rightarrow> ''Un socio'' | Some p \<Rightarrow> pr_name p),
                                pm_version = fr_version row, pm_config = fr_config row,
                                pm_changes = some_changes changes\<rparr>), d3)))))"

definition submit_tx :: "(string \<Rightarrow> string) \<Rightarrow> (int \<Rightarrow> string) \<Rightarrow> (uuid \<Rightarrow> uuid \<times> string) \<Rightarrow> (db \<Rightarrow> db) \<Rightarrow> actor \<Rightarrow> uuid \<Rightarrow> instant
    \<Rightarrow> db \<Rightarrow> (link_to_send list \<times> proposal_meta) result \<times> db" where
  "submit_tx sha256 money fresh w actor i now =
     read_then_write (submit_reads actor i) w (submit_writes sha256 money fresh actor i now)"

text \<open>With the delivery: the names of those whom the mail reached and of those it did not.\<close>

definition submit :: "(string \<Rightarrow> string) \<Rightarrow> (int \<Rightarrow> string) \<Rightarrow> (uuid \<Rightarrow> uuid \<times> string) \<Rightarrow> (uuid \<Rightarrow> bool) \<Rightarrow> (db \<Rightarrow> db) \<Rightarrow> actor
    \<Rightarrow> uuid \<Rightarrow> instant \<Rightarrow> instant \<Rightarrow> db \<Rightarrow> (string list \<times> string list) result \<times> db" where
  "submit sha256 money fresh mailed w actor i now later d =
     (case submit_tx sha256 money fresh w actor i now d of
        (Inl e, d1) \<Rightarrow> (Inl e, d1)
      | (Inr (toSend, meta), d1) \<Rightarrow>
         (case deliver (act_contextId actor) mailed later toSend d1 of
            (delivered, d2) \<Rightarrow>
              (Inr (map ls_memberName [l \<leftarrow> toSend. ls_memberId l \<in> set delivered],
                    map ls_memberName [l \<leftarrow> toSend. ls_memberId l \<notin> set delivered]), d2)))"

definition modify_reads :: "actor \<Rightarrow> uuid \<Rightarrow> db \<Rightarrow> rule_set result" where
  "modify_reads actor i d =
     (let c = act_contextId actor in
      case lockRow c i d of
        Inl e \<Rightarrow> Inl e
      | Inr row \<Rightarrow>
          if \<not> is_open row then Inl (Conflict ''FINANCE_RULES_WRONG_STATE'')
          else if first_set c (\<lambda>s. fr_status s = ''borrador'') d \<noteq> None then Inl (Conflict ''FINANCE_RULES_DRAFT_EXISTS'')
          else Inr row)"

definition modify_writes :: "actor \<Rightarrow> uuid \<Rightarrow> instant \<Rightarrow> rule_set \<Rightarrow> db \<Rightarrow> (uuid \<times> db) result" where
  "modify_writes actor newId now row d =
     (case createDraft actor newId now (fr_config row) (fr_configHash row) (Some (rid row)) d of
        Inl e \<Rightarrow> Inl e | Inr d' \<Rightarrow> Inr (newId, d'))"

definition modify :: "(db \<Rightarrow> db) \<Rightarrow> actor \<Rightarrow> uuid \<Rightarrow> uuid \<Rightarrow> instant \<Rightarrow> db \<Rightarrow> uuid result \<times> db" where
  "modify w actor i newId now = read_then_write (modify_reads actor i) w (modify_writes actor newId now)"

section \<open>Answering\<close>

text \<open>\<open>finance_rule_set_settle\<close>: in force when every active partner approved; \<open>t\<close> is the time of the transaction.\<close>

definition socios :: "db \<Rightarrow> string \<Rightarrow> member list" where
  "socios d c = [m \<leftarrow> members d. ctx m = c \<and> m_role m = Socio \<and> m_active m]"

definition approved_by :: "db \<Rightarrow> string \<Rightarrow> uuid \<Rightarrow> uuid \<Rightarrow> bool" where
  "approved_by d c i m \<longleftrightarrow> (\<exists>a \<in> set (ruleApprovals d). ra_ruleSetId a = i \<and> ctx a = c \<and> ra_memberId a = m)"

definition superseded :: "instant \<Rightarrow> rule_set \<Rightarrow> rule_set" where
  "superseded t s = s\<lparr>fr_status := ''reemplazada'', fr_supersededAt := Some t, fr_updatedAt := t\<rparr>"

definition activated :: "instant \<Rightarrow> rule_set \<Rightarrow> rule_set" where
  "activated t s = s\<lparr>fr_status := ''vigente'', fr_activatedAt := Some t, fr_updatedAt := t\<rparr>"

definition settle_rules :: "string \<Rightarrow> uuid \<Rightarrow> instant \<Rightarrow> db \<Rightarrow> (bool \<times> db) result" where
  "settle_rules c i t d =
     (if \<not> (\<exists>s \<in> set (ruleSets d). rid s = i \<and> ctx s = c \<and> fr_status s = ''pendiente'') then Inr (False, d)
      else if socios d c = [] then Inr (False, d)
      else if \<exists>m \<in> set (socios d c). \<not> approved_by d c i (rid m) then Inr (False, d)
      else case update_sets (\<lambda>s. ctx s = c \<and> fr_status s = ''vigente'') (superseded t) d of
        Inl e \<Rightarrow> Inl e
      | Inr d1 \<Rightarrow> (case update_sets (\<lambda>s. rid s = i \<and> ctx s = c) (activated t) d1 of
          Inl e \<Rightarrow> Inl e | Inr d2 \<Rightarrow> Inr (True, d2)))"

text \<open>An approval: unique for the partner, of the exact text, while the proposal waits (the trigger \<open>finance_rule_approval_guard\<close>).\<close>

definition insert_approval :: "rule_approval \<Rightarrow> db \<Rightarrow> db result" where
  "insert_approval a d =
     (if \<not> (\<exists>s \<in> set (ruleSets d). rid s = ra_ruleSetId a \<and> ctx s = ctx a \<and> fr_status s = ''pendiente''
            \<and> fr_configHash s = ra_approvedHash a) then Inl guard_error
      else if approved_by d (ctx a) (ra_ruleSetId a) (ra_memberId a) then Inl (UniqueViolation ''FinanceRuleApproval'')
      else case insert_row ''FinanceRuleApproval'' a (ruleApprovals d) of
        Inl e \<Rightarrow> Inl e | Inr rows \<Rightarrow> Inr (d\<lparr>ruleApprovals := rows\<rparr>))"

definition check_violation :: failure where
  "check_violation = Internal ''check_violation''"

text \<open>\<open>btrim(reason, E' \t\r\n')\<close>.\<close>

definition btrim :: "string \<Rightarrow> string" where
  "btrim s = (let sp = (\<lambda>c. c \<in> {CHR '' '', CHR 0x09, CHR 0x0D, CHR 0x0A}) in rev (dropWhile sp (rev (dropWhile sp s))))"

definition objected_by :: "db \<Rightarrow> string \<Rightarrow> uuid \<Rightarrow> uuid \<Rightarrow> bool" where
  "objected_by d c i m \<longleftrightarrow> (\<exists>x \<in> set (ruleObjections d). ro_ruleSetId x = i \<and> ctx x = c \<and> ro_memberId x = m)"

definition insert_objection :: "rule_objection \<Rightarrow> db \<Rightarrow> db result" where
  "insert_objection x d =
     (if length (btrim (ro_reason x)) \<notin> {1..MAX_REASON_LENGTH} then Inl check_violation
      else if objected_by d (ctx x) (ro_ruleSetId x) (ro_memberId x) then Inl (UniqueViolation ''FinanceRuleObjection'')
      else case insert_row ''FinanceRuleObjection'' x (ruleObjections d) of
        Inl e \<Rightarrow> Inl e | Inr rows \<Rightarrow> Inr (d\<lparr>ruleObjections := rows\<rparr>))"

definition use_link :: "uuid \<Rightarrow> instant \<Rightarrow> db \<Rightarrow> db" where
  "use_link k t d = d\<lparr>ruleLinks := map (\<lambda>l. if rid l = k then l\<lparr>lk_usedAt := Some t\<rparr> else l) (ruleLinks d)\<rparr>"

text \<open>What the answer of a link becomes, for the proposal \<open>s\<close> it is about; \<open>None\<close> is no row.\<close>

definition approval_of :: "rule_link \<Rightarrow> rule_set \<Rightarrow> uuid \<Rightarrow> instant \<Rightarrow> rule_approval" where
  "approval_of l s record_id t = \<lparr>rid = record_id, ctx = ctx l, ra_ruleSetId = lk_ruleSetId l, ra_memberId = lk_memberId l,
     ra_approvedByAccountId = None, ra_approvedHash = fr_configHash s, ra_approvedAt = t, ra_correo = Some (lk_correo l),
     ra_linkId = Some (rid l)\<rparr>"

definition objection_of :: "rule_link \<Rightarrow> string \<Rightarrow> uuid \<Rightarrow> instant \<Rightarrow> rule_objection" where
  "objection_of l reason record_id t = \<lparr>rid = record_id, ctx = ctx l, ro_ruleSetId = lk_ruleSetId l,
     ro_memberId = lk_memberId l, ro_linkId = rid l, ro_correo = lk_correo l, ro_reason = btrim reason, ro_createdAt = t\<rparr>"

definition in_review :: "instant \<Rightarrow> rule_set \<Rightarrow> rule_set" where
  "in_review t s = s\<lparr>fr_status := ''en_revision'', fr_inReviewAt := Some t, fr_updatedAt := t\<rparr>"

datatype decision = Approve | Object

definition record_answer :: "rule_link \<Rightarrow> rule_set \<Rightarrow> decision \<Rightarrow> string \<Rightarrow> uuid \<Rightarrow> instant \<Rightarrow> db \<Rightarrow> (string \<times> db) result" where
  "record_answer l s decision reason record_id t d =
     (case decision of
        Approve \<Rightarrow>
          (case insert_approval (approval_of l s record_id t) d of
             Inl e \<Rightarrow> Inl e
           | Inr d1 \<Rightarrow> (case settle_rules (ctx l) (lk_ruleSetId l) t (use_link (rid l) t d1) of
               Inl e \<Rightarrow> Inl e
             | Inr (settled, d2) \<Rightarrow> Inr (if settled then ''vigente'' else ''aprobada'', d2)))
      | Object \<Rightarrow>
          (case insert_objection (objection_of l reason record_id t) d of
             Inl e \<Rightarrow> Inl e
           | Inr d1 \<Rightarrow> (case update_sets (\<lambda>s. rid s = lk_ruleSetId l \<and> ctx s = ctx l) (in_review t) (use_link (rid l) t d1) of
               Inl e \<Rightarrow> Inl e
             | Inr d2 \<Rightarrow> Inr (''objetada'', d2))))"

definition swallowed :: "failure \<Rightarrow> bool" where
  "swallowed e \<longleftrightarrow> (case e of UniqueViolation _ \<Rightarrow> True | _ \<Rightarrow> e = check_violation)"

definition usable :: "rule_link \<Rightarrow> instant \<Rightarrow> db \<Rightarrow> bool" where
  "usable l t d \<longleftrightarrow> live l \<and> t < lk_expiresAt l
     \<and> (\<exists>m \<in> set (members d). rid m = lk_memberId l \<and> ctx m = ctx l \<and> m_active m \<and> m_role m = Socio)"

text \<open>\<open>finance_rule_link_respond\<close>: a unique or check violation undoes its block and gives no row.\<close>

definition link_respond :: "string \<Rightarrow> decision \<Rightarrow> string \<Rightarrow> uuid \<Rightarrow> instant \<Rightarrow> db \<Rightarrow> string option result \<times> db" where
  "link_respond tokenHash decision reason record_id t d =
     (case find (\<lambda>l. lk_tokenHash l = tokenHash) (ruleLinks d) of
        None \<Rightarrow> (Inr None, d)
      | Some l \<Rightarrow>
         (case find_row (ctx l) (lk_ruleSetId l) (ruleSets d) of
            None \<Rightarrow> (Inr None, d)
          | Some s \<Rightarrow>
              if \<not> usable l t d then (Inr None, d)
              else if fr_status s = ''en_revision'' then (Inr (Some ''en_revision''), d)
              else if fr_status s \<noteq> ''pendiente'' then (Inr None, d)
              else (case record_answer l s decision reason record_id t d of
                      Inl e \<Rightarrow> (if swallowed e then Inr None else Inl e, d)
                    | Inr (result, d') \<Rightarrow> (Inr (Some result), d'))))"

definition clean_reason :: "decision \<Rightarrow> string option \<Rightarrow> string result" where
  "clean_reason decision rawReason =
     (case decision of
        Approve \<Rightarrow> Inr []
      | Object \<Rightarrow> (let reason = cleanText (case rawReason of None \<Rightarrow> [] | Some r \<Rightarrow> r) in
          if reason = [] then Inl (BadRequest ''AGREEMENT_REASON_REQUIRED'')
          else if length reason > MAX_REASON_LENGTH then Inl (BadRequest ''AGREEMENT_REASON_TOO_LONG'')
          else Inr reason))"

definition invalidLink :: failure where
  "invalidLink = NotFound ''AGREEMENT_LINK_INVALID''"

text \<open>After the limit on attempts.\<close>

definition respond :: "(string \<Rightarrow> string) \<Rightarrow> string \<Rightarrow> decision \<Rightarrow> string option \<Rightarrow> uuid \<Rightarrow> instant \<Rightarrow> db \<Rightarrow> string result \<times> db" where
  "respond sha256 token decision rawReason record_id t d =
     (case clean_reason decision rawReason of
        Inl e \<Rightarrow> (Inl e, d)
      | Inr reason \<Rightarrow>
         (case link_respond (sha256 token) decision reason record_id t d of
            (Inl e, d') \<Rightarrow> (Inl e, d')
          | (Inr None, d') \<Rightarrow> (Inl invalidLink, d')
          | (Inr (Some outcome), d') \<Rightarrow> (Inr outcome, d')))"

section \<open>Sending again\<close>

definition failed_link :: "rule_link \<Rightarrow> bool" where
  "failed_link l \<longleftrightarrow> \<not> lk_emailSent l \<and> lk_supersededAt l \<noteq> None"

text \<open>When the last link that counts was sent again to a partner.\<close>

definition last_resend :: "db \<Rightarrow> string \<Rightarrow> uuid \<Rightarrow> uuid \<Rightarrow> instant option" where
  "last_resend d c i m =
     (case map lk_createdAt [l \<leftarrow> in_context c (ruleLinks d). lk_ruleSetId l = i \<and> lk_memberId l = m
             \<and> lk_kind l = ''reenvio'' \<and> \<not> failed_link l] of
        [] \<Rightarrow> None | t # ts \<Rightarrow> Some (foldr max ts t))"

definition cooling :: "db \<Rightarrow> string \<Rightarrow> uuid \<Rightarrow> instant \<Rightarrow> partner \<Rightarrow> bool" where
  "cooling d c i now p = (case last_resend d c i (pr_memberId p) of None \<Rightarrow> False | Some t \<Rightarrow> now - t < RESEND_COOLDOWN_MS)"

record resend_plan =
  rp_toSend :: "link_to_send list"
  rp_skipped :: "(partner \<times> instant) list"
  rp_noEmail :: "partner list"
  rp_meta :: proposal_meta

text \<open>The partners who have not answered are gone through once; a link issued to one of them does not
  change what is read of another.\<close>

definition unanswered :: "db \<Rightarrow> string \<Rightarrow> uuid \<Rightarrow> partner list" where
  "unanswered d c i = [p \<leftarrow> activePartners d c. \<not> approved_by d c i (pr_memberId p)]"

definition resend_writes :: "(string \<Rightarrow> string) \<Rightarrow> (uuid \<Rightarrow> uuid \<times> string) \<Rightarrow> actor \<Rightarrow> rule_set \<Rightarrow> instant \<Rightarrow> db
    \<Rightarrow> (resend_plan option \<times> db) result" where
  "resend_writes sha256 fresh actor row now d =
     (let c = act_contextId actor; i = rid row; mailable = [p \<leftarrow> unanswered d c i. pr_correo p \<noteq> None] in
      case issue_all sha256 fresh c i ''reenvio'' (acting actor) now [p \<leftarrow> mailable. \<not> cooling d c i now p] d of
        Inl e \<Rightarrow> Inl e
      | Inr (toSend, d1) \<Rightarrow>
         Inr (Some \<lparr>rp_toSend = toSend,
                 rp_skipped = map (\<lambda>p. (p, the (last_resend d c i (pr_memberId p)) + RESEND_COOLDOWN_MS)) [p \<leftarrow> mailable. cooling d c i now p],
                 rp_noEmail = [p \<leftarrow> unanswered d c i. pr_correo p = None],
                 rp_meta = \<lparr>pm_proposerName = nameOf d c (fr_proposedByMemberId row), pm_version = fr_version row,
                   pm_config = fr_config row,
                   pm_changes = (case fr_changeSummary row of Some (x # xs) \<Rightarrow> Some (x # xs) | _ \<Rightarrow> None)\<rparr>\<rparr>, d1))"

text \<open>\<open>None\<close> when settling put the rules in force.\<close>

definition resend_tx :: "(string \<Rightarrow> string) \<Rightarrow> (uuid \<Rightarrow> uuid \<times> string) \<Rightarrow> actor \<Rightarrow> uuid \<Rightarrow> instant \<Rightarrow> instant \<Rightarrow> db
    \<Rightarrow> resend_plan option result \<times> db" where
  "resend_tx sha256 fresh actor i now t = transaction (\<lambda>d. let c = act_contextId actor in
     case lockRow c i d of
       Inl e \<Rightarrow> Inl e
     | Inr row \<Rightarrow>
         if fr_status row = ''en_revision'' then Inl (Conflict ''FINANCE_RULES_IN_REVIEW'')
         else if fr_status row \<noteq> ''pendiente'' then Inl (Conflict ''FINANCE_RULES_WRONG_STATE'')
         else (case settle_rules c i t d of
                 Inl e \<Rightarrow> Inl e
               | Inr (True, d1) \<Rightarrow> Inr (None, d1)
               | Inr (False, d1) \<Rightarrow> resend_writes sha256 fresh actor row now d1))"

definition resend :: "(string \<Rightarrow> string) \<Rightarrow> (uuid \<Rightarrow> uuid \<times> string) \<Rightarrow> (uuid \<Rightarrow> bool) \<Rightarrow> actor \<Rightarrow> uuid \<Rightarrow> instant \<Rightarrow> instant \<Rightarrow> instant
    \<Rightarrow> db \<Rightarrow> (bool \<times> (uuid \<times> bool) list) result \<times> db" where
  "resend sha256 fresh mailed actor i now t later d =
     (case resend_tx sha256 fresh actor i now t d of
        (Inl e, d1) \<Rightarrow> (Inl e, d1)
      | (Inr None, d1) \<Rightarrow> (Inr (True, []), d1)
      | (Inr (Some plan), d1) \<Rightarrow>
         (case deliver (act_contextId actor) mailed later (rp_toSend plan) d1 of
            (delivered, d2) \<Rightarrow> (Inr (False, map (\<lambda>l. (ls_memberId l, ls_memberId l \<in> set delivered)) (rp_toSend plan)), d2)))"

end
