(* ===== verification/RuleLaws.thy ===== *)
theory RuleLaws
  imports Rules
begin

text \<open>
  What the agreement on the rules promises, over every interleaving of the requests of a business: the
  advisory lock lets one \<open>saveDraft\<close>, \<open>submit\<close> or \<open>modify\<close> run at a time, a \<open>FOR UPDATE\<close> lock keeps a rule
  set as it was read, and everything else may commit between the reads and the writes of the lock holder.
\<close>

section \<open>Steps\<close>

text \<open>Who holds the lock of the business, with what it read.\<close>

datatype rules_tx = SavingDraft actor draft_plan | Submitting actor uuid instant submit_plan | Modifying actor uuid instant rule_set

type_synonym rules_state = "db \<times> rules_tx option"

fun row_locked :: "rules_tx option \<Rightarrow> uuid \<Rightarrow> bool" where
  "row_locked (Some (Submitting actor j now plan)) i \<longleftrightarrow> j = i"
| "row_locked (Some (Modifying actor j now row)) i \<longleftrightarrow> rid row = i"
| "row_locked _ i \<longleftrightarrow> False"

text \<open>The primary keys and the unique indexes hold over the tables of all businesses, always.\<close>

definition keys_ok :: "db \<Rightarrow> bool" where
  "keys_ok d \<longleftrightarrow> distinct (map rid (ruleSets d)) \<and> rule_set_indexes (ruleSets d)
     \<and> distinct (map rid (ruleLinks d)) \<and> distinct (map lk_tokenHash (ruleLinks d))"

definition same_books :: "string \<Rightarrow> db \<Rightarrow> db \<Rightarrow> bool" where
  "same_books c d d' \<longleftrightarrow> in_context c (ruleSets d') = in_context c (ruleSets d)
     \<and> in_context c (ruleLinks d') = in_context c (ruleLinks d)
     \<and> in_context c (ruleApprovals d') = in_context c (ruleApprovals d)
     \<and> in_context c (ruleObjections d') = in_context c (ruleObjections d)"

text \<open>A step of the requests of the business \<open>c\<close>; \<open>elsewhere\<close> is a commit of any other request of the program.\<close>

inductive rules_step :: "(string \<Rightarrow> string) \<Rightarrow> (int \<Rightarrow> string) \<Rightarrow> string \<Rightarrow> rules_state \<Rightarrow> rules_state \<Rightarrow> bool"
  for sha256 money c where
  save_reads: "act_contextId actor = c \<Longrightarrow> saveDraft_reads sha256 actor i now input d = Inr plan
     \<Longrightarrow> rules_step sha256 money c (d, None) (d, Some (SavingDraft actor plan))"
| save_writes: "act_contextId actor = c \<Longrightarrow> saveDraft_writes actor plan d = Inr (r, d')
     \<Longrightarrow> rules_step sha256 money c (d, Some (SavingDraft actor plan)) (d', None)"
| submit_reads: "act_contextId actor = c \<Longrightarrow> submit_reads actor i d = Inr plan
     \<Longrightarrow> rules_step sha256 money c (d, None) (d, Some (Submitting actor i now plan))"
| submit_writes: "act_contextId actor = c \<Longrightarrow> submit_writes sha256 money fresh actor i now plan d = Inr (r, d')
     \<Longrightarrow> rules_step sha256 money c (d, Some (Submitting actor i now plan)) (d', None)"
| modify_reads: "act_contextId actor = c \<Longrightarrow> modify_reads actor i d = Inr row
     \<Longrightarrow> rules_step sha256 money c (d, None) (d, Some (Modifying actor k now row))"
| modify_writes: "act_contextId actor = c \<Longrightarrow> modify_writes actor k now row d = Inr (r, d')
     \<Longrightarrow> rules_step sha256 money c (d, Some (Modifying actor k now row)) (d', None)"
| abort: "rules_step sha256 money c (d, Some x) (d, None)"
| discard: "act_contextId actor = c \<Longrightarrow> \<not> row_locked lk i \<Longrightarrow> discard actor i now d = (out, d')
     \<Longrightarrow> rules_step sha256 money c (d, lk) (d', lk)"
| resend: "act_contextId actor = c \<Longrightarrow> \<not> row_locked lk i \<Longrightarrow> resend_tx sha256 fresh actor i now t d = (out, d')
     \<Longrightarrow> rules_step sha256 money c (d, lk) (d', lk)"
| respond: "l \<in> set (ruleLinks d) \<Longrightarrow> lk_tokenHash l = sha256 token \<Longrightarrow> ctx l = c \<Longrightarrow> \<not> row_locked lk (lk_ruleSetId l)
     \<Longrightarrow> respond sha256 token decision reason k t d = (out, d') \<Longrightarrow> rules_step sha256 money c (d, lk) (d', lk)"
| deliver: "rules_step sha256 money c (d, lk) (deliver_one c ok now i d, lk)"
| elsewhere: "same_books c d d' \<Longrightarrow> keys_ok d' \<Longrightarrow> rules_step sha256 money c (d, lk) (d', lk)"

inductive_cases rules_stepE: "rules_step sha256 money c s s'"

definition rules_runs :: "(string \<Rightarrow> string) \<Rightarrow> (int \<Rightarrow> string) \<Rightarrow> string \<Rightarrow> rules_state \<Rightarrow> rules_state \<Rightarrow> bool" where
  "rules_runs sha256 money c = (rules_step sha256 money c)\<^sup>*\<^sup>*"

section \<open>The invariant\<close>

abbreviation book :: "string \<Rightarrow> db \<Rightarrow> rule_set list" where
  "book c d \<equiv> in_context c (ruleSets d)"

abbreviation is_draft :: "rule_set \<Rightarrow> bool" where
  "is_draft s \<equiv> fr_status s = ''borrador''"

text \<open>One draft; versions without gaps; the hash is that of the configuration.\<close>

definition book_ok :: "(string \<Rightarrow> string) \<Rightarrow> rule_set list \<Rightarrow> bool" where
  "book_ok sha256 rows \<longleftrightarrow>
     (\<forall>s \<in> set rows. \<forall>s' \<in> set rows. is_draft s \<and> is_draft s' \<longrightarrow> s = s')
   \<and> fr_version ` set rows = {1..int (length rows)}
   \<and> (\<forall>s \<in> set rows. configHash sha256 (fr_config s) = Inr (fr_configHash s))"

text \<open>An approval is of a submitted rule set and of its exact text; one for each partner.\<close>

definition approvals_ok :: "rule_set list \<Rightarrow> rule_approval list \<Rightarrow> bool" where
  "approvals_ok rows as \<longleftrightarrow>
     (\<forall>a \<in> set as. \<exists>s \<in> set rows. rid s = ra_ruleSetId a \<and> \<not> is_draft s \<and> fr_configHash s = ra_approvedHash a)
   \<and> distinct (map (\<lambda>a. (ra_ruleSetId a, ra_memberId a)) as)"

text \<open>The links that were used are those of the answers, one answer for each.\<close>

definition answer_links :: "rule_approval list \<Rightarrow> rule_objection list \<Rightarrow> uuid list" where
  "answer_links as os = concat (map (\<lambda>a. case ra_linkId a of None \<Rightarrow> [] | Some k \<Rightarrow> [k]) as) @ map ro_linkId os"

definition answers_ok :: "rule_link list \<Rightarrow> rule_approval list \<Rightarrow> rule_objection list \<Rightarrow> bool" where
  "answers_ok ls as os \<longleftrightarrow> distinct (answer_links as os)
     \<and> set (answer_links as os) = rid ` {l \<in> set ls. lk_usedAt l \<noteq> None}"

text \<open>What the holder of the lock knows.\<close>

fun lock_ok :: "(string \<Rightarrow> string) \<Rightarrow> string \<Rightarrow> db \<Rightarrow> rules_tx option \<Rightarrow> bool" where
  "lock_ok sha256 c d None \<longleftrightarrow> True"
| "lock_ok sha256 c d (Some (SavingDraft actor plan)) \<longleftrightarrow> act_contextId actor = c
     \<and> configHash sha256 (dp_config plan) = Inr (dp_hash plan)
     \<and> (case dp_open plan of None \<Rightarrow> \<forall>s \<in> set (book c d). \<not> is_draft s
        | Some o' \<Rightarrow> \<exists>s \<in> set (book c d). rid s = rid o')"
| "lock_ok sha256 c d (Some (Submitting actor i now plan)) \<longleftrightarrow> act_contextId actor = c
     \<and> sp_row plan \<in> set (book c d) \<and> rid (sp_row plan) = i \<and> is_draft (sp_row plan)
     \<and> (\<forall>s \<in> set (book c d). is_open s \<longrightarrow> sp_found plan = Some (rid s))
     \<and> (\<forall>j. sp_found plan = Some j \<longrightarrow> (\<exists>s \<in> set (book c d). rid s = j))"
| "lock_ok sha256 c d (Some (Modifying actor k now row)) \<longleftrightarrow> act_contextId actor = c
     \<and> row \<in> set (book c d) \<and> is_open row \<and> (\<forall>s \<in> set (book c d). \<not> is_draft s)"

definition rules_inv :: "(string \<Rightarrow> string) \<Rightarrow> string \<Rightarrow> rules_state \<Rightarrow> bool" where
  "rules_inv sha256 c x \<longleftrightarrow> (let d = fst x in
     keys_ok d \<and> book_ok sha256 (book c d) \<and> approvals_ok (book c d) (in_context c (ruleApprovals d))
   \<and> answers_ok (in_context c (ruleLinks d)) (in_context c (ruleApprovals d)) (in_context c (ruleObjections d))
   \<and> lock_ok sha256 c d (snd x))"

section \<open>Updates of rule sets\<close>

lemma guard_refl [simp]: "rule_set_guard s s"
  by (simp add: rule_set_guard_def)

lemma guard_simps:
  assumes "rule_set_guard s s'"
  shows "rid s' = rid s" "ctx s' = ctx s" "fr_version s' = fr_version s"
    "is_draft s' \<Longrightarrow> is_draft s"
    "\<not> is_draft s \<Longrightarrow> \<not> is_draft s' \<and> fr_config s' = fr_config s \<and> fr_configHash s' = fr_configHash s \<and> fr_changeSummary s' = fr_changeSummary s"
    "is_open s' \<Longrightarrow> is_open s \<or> is_draft s"
  using assms by (auto simp: rule_set_guard_def allowed_transition_def is_open_def OPEN_def)

text \<open>\<open>evolves g d d'\<close>: the rule sets are rewritten by \<open>g\<close> as the trigger allows, and nothing else is.\<close>

definition evolves :: "(rule_set \<Rightarrow> rule_set) \<Rightarrow> db \<Rightarrow> db \<Rightarrow> bool" where
  "evolves g d d' \<longleftrightarrow> d' = d\<lparr>ruleSets := map g (ruleSets d)\<rparr> \<and> (\<forall>s \<in> set (ruleSets d). rule_set_guard s (g s))
     \<and> rule_set_indexes (map g (ruleSets d))"

lemma update_sets_Inr:
  assumes "update_sets P f d = Inr d'"
  shows "evolves (\<lambda>s. if P s then f s else s) d d'"
  using assms by (auto simp: update_sets_def evolves_def list_all_iff split: if_splits)

lemma update_set_Inr:
  assumes "update_set c i f d = Inr d'"
  shows "evolves (\<lambda>s. if rid s = i \<and> ctx s = c then f s else s) d d'" "\<exists>s \<in> set (book c d). rid s = i"
proof -
  show "evolves (\<lambda>s. if rid s = i \<and> ctx s = c then f s else s) d d'"
    using assms by (intro update_sets_Inr) (simp add: update_set_def split: if_splits)
  show "\<exists>s \<in> set (book c d). rid s = i"
    using assms by (auto simp: update_set_def find_row_None in_context_def split: if_splits)
qed

lemma evolves_tables:
  assumes "evolves g d d'"
  shows "ruleSets d' = map g (ruleSets d)" "ruleLinks d' = ruleLinks d" "ruleApprovals d' = ruleApprovals d"
    "ruleObjections d' = ruleObjections d" "members d' = members d"
    "book c d' = map g (book c d)" "map rid (ruleSets d') = map rid (ruleSets d)"
    "\<And>s. s \<in> set (book c d) \<Longrightarrow> rule_set_guard s (g s)"
proof -
  have g: "\<And>s. s \<in> set (ruleSets d) \<Longrightarrow> rule_set_guard s (g s)" using assms by (simp add: evolves_def)
  show "ruleSets d' = map g (ruleSets d)" "ruleLinks d' = ruleLinks d" "ruleApprovals d' = ruleApprovals d"
    "ruleObjections d' = ruleObjections d" "members d' = members d" using assms by (simp_all add: evolves_def)
  then show "map rid (ruleSets d') = map rid (ruleSets d)" using guard_simps(1) [OF g] by simp
  have "filter (\<lambda>r. ctx (g r) = c) (ruleSets d) = filter (\<lambda>r. ctx r = c) (ruleSets d)"
    by (rule filter_cong [OF refl]) (simp only: guard_simps(2) [OF g])
  then show "book c d' = map g (book c d)"
    using assms by (simp add: in_context_def evolves_def filter_map o_def)
  show "rule_set_guard s (g s)" if "s \<in> set (book c d)" for s using g that by (simp add: in_context_def)
qed

lemma evolves_keys:
  assumes "evolves g d d'" "keys_ok d"
  shows "keys_ok d'"
  unfolding keys_ok_def evolves_tables(2,7) [OF assms(1)] using assms by (simp add: keys_ok_def evolves_def)

lemma evolves_book:
  assumes "evolves g d d'" "book_ok sha256 (book c d)"
    and new: "\<And>s. s \<in> set (book c d) \<Longrightarrow> is_draft s \<Longrightarrow> configHash sha256 (fr_config (g s)) = Inr (fr_configHash (g s))"
  shows "book_ok sha256 (book c d')"
proof -
  note g = evolves_tables(8) [OF assms(1)]
  have one: "\<And>s s'. s \<in> set (book c d) \<Longrightarrow> s' \<in> set (book c d) \<Longrightarrow> is_draft s \<Longrightarrow> is_draft s' \<Longrightarrow> s = s'"
    and hash: "\<And>s. s \<in> set (book c d) \<Longrightarrow> configHash sha256 (fr_config s) = Inr (fr_configHash s)"
    and versions: "fr_version ` set (book c d) = {1..int (length (book c d))}"
    using assms(2) unfolding book_ok_def by blast+
  have "fr_version ` set (map g (book c d)) = fr_version ` set (book c d)"
    unfolding set_map image_image by (rule image_cong [OF refl]) (rule guard_simps(3) [OF g])
  moreover have "configHash sha256 (fr_config (g s)) = Inr (fr_configHash (g s))" if "s \<in> set (book c d)" for s
  proof (cases "is_draft s")
    case False
    with hash [OF that] guard_simps(5) [OF g [OF that] False] show ?thesis by simp
  qed (rule new [OF that])
  moreover have "g s = g s'" if "s \<in> set (book c d)" "s' \<in> set (book c d)" "is_draft (g s)" "is_draft (g s')" for s s'
    using one [OF that(1,2)] guard_simps(4) [OF g [OF that(1)] that(3)] guard_simps(4) [OF g [OF that(2)] that(4)] by simp
  ultimately show ?thesis
    unfolding evolves_tables(6) [OF assms(1)] book_ok_def using versions unfolding set_map by (simp only: ball_simps length_map) blast
qed

lemma evolves_approvals:
  assumes "evolves g d d'" "approvals_ok (book c d) as"
  shows "approvals_ok (book c d') as"
proof -
  have "\<exists>s' \<in> set (map g (book c d)). rid s' = rid s \<and> \<not> is_draft s' \<and> fr_configHash s' = fr_configHash s"
    if "s \<in> set (book c d)" "\<not> is_draft s" for s
    using guard_simps(1,5) [OF evolves_tables(8) [OF assms(1) that(1)]] that by (intro bexI [of _ "g s"]) simp_all
  then have "\<exists>s' \<in> set (map g (book c d)). rid s' = r \<and> \<not> is_draft s' \<and> fr_configHash s' = h"
    if "\<exists>s \<in> set (book c d). rid s = r \<and> \<not> is_draft s \<and> fr_configHash s = h" for r h using that by blast
  then show ?thesis using assms(2) unfolding evolves_tables(6) [OF assms(1)] approvals_ok_def by simp
qed

text \<open>A step that leaves the locked row as it is keeps what the holder of the lock knows.\<close>

lemma evolves_lock:
  assumes e: "evolves g d d'" and one: "book_ok sha256 (book c d)" and lk: "lock_ok sha256 c d lk"
    and fixed: "\<And>s. s \<in> set (book c d) \<Longrightarrow> row_locked lk (rid s) \<Longrightarrow> g s = s"
  shows "lock_ok sha256 c d' lk"
proof -
  note g = evolves_tables(8) [OF e]
  have draft: "s \<in> g ` set (book c d) \<Longrightarrow> is_draft s \<Longrightarrow> \<exists>s' \<in> set (book c d). is_draft s'" for s
    using guard_simps(4) [OF g] by (elim imageE) blast
  have ids: "rid ` g ` set (book c d) = rid ` set (book c d)"
    unfolding image_image by (rule image_cong [OF refl]) (rule guard_simps(1) [OF g])
  have found: "(\<exists>s \<in> g ` set (book c d). rid s = j) \<longleftrightarrow> (\<exists>s \<in> set (book c d). rid s = j)" for j
    using ids by (metis (mono_tags, opaque_lifting) imageE imageI)
  show ?thesis
  proof (cases lk)
    case (Some x)
    show ?thesis
    proof (cases x)
      case (SavingDraft actor plan)
      with lk Some draft show ?thesis
        unfolding Some SavingDraft lock_ok.simps evolves_tables(6) [OF e] set_map found by (auto split: option.splits)
    next
      case (Submitting actor i now plan)
      with lk Some have row: "sp_row plan \<in> set (book c d)" "rid (sp_row plan) = i" "is_draft (sp_row plan)"
        and opens: "\<And>s. s \<in> set (book c d) \<Longrightarrow> is_open s \<Longrightarrow> sp_found plan = Some (rid s)" by simp_all
      have same: "g (sp_row plan) = sp_row plan" using fixed [OF row(1)] Some Submitting row(2) by simp
      have "sp_found plan = Some (rid (g s))" if s: "s \<in> set (book c d)" "is_open (g s)" for s
      proof -
        have "\<not> is_draft s"
        proof
          assume "is_draft s"
          then have "s = sp_row plan" using one s(1) row(1,3) unfolding book_ok_def by blast
          with same row(3) s(2) show False by (simp add: is_open_def OPEN_def)
        qed
        with guard_simps(1,6) [OF g [OF s(1)]] s opens show ?thesis by simp
      qed
      moreover have "sp_row plan \<in> g ` set (book c d)" using row(1) same by (metis imageI)
      ultimately show ?thesis
        using lk unfolding Some Submitting lock_ok.simps evolves_tables(6) [OF e] set_map found by simp
    next
      case (Modifying actor k now row)
      with lk Some have row: "row \<in> set (book c d)" by simp
      then have "row \<in> g ` set (book c d)" using fixed [OF row] Some Modifying by (metis imageI row_locked.simps(2))
      with lk draft show ?thesis
        unfolding Some Modifying lock_ok.simps evolves_tables(6) [OF e] set_map by blast
    qed
  qed simp
qed

lemma rules_inv_intro:
  assumes "keys_ok d" "book_ok sha256 (book c d)" "approvals_ok (book c d) (in_context c (ruleApprovals d))"
    "answers_ok (in_context c (ruleLinks d)) (in_context c (ruleApprovals d)) (in_context c (ruleObjections d))"
    "lock_ok sha256 c d lk"
  shows "rules_inv sha256 c (d, lk)"
  using assms by (simp add: rules_inv_def)

lemma rules_invD:
  assumes "rules_inv sha256 c (d, lk)"
  shows "keys_ok d" "book_ok sha256 (book c d)" "approvals_ok (book c d) (in_context c (ruleApprovals d))"
    "answers_ok (in_context c (ruleLinks d)) (in_context c (ruleApprovals d)) (in_context c (ruleObjections d))"
    "lock_ok sha256 c d lk"
  using assms by (simp_all add: rules_inv_def)

lemma evolves_inv:
  assumes inv: "rules_inv sha256 c (d, lk)" and e: "evolves g d d'"
    and "\<And>s. s \<in> set (book c d) \<Longrightarrow> is_draft s \<Longrightarrow> configHash sha256 (fr_config (g s)) = Inr (fr_configHash (g s))"
    and "\<And>s. s \<in> set (book c d) \<Longrightarrow> row_locked lk (rid s) \<Longrightarrow> g s = s"
  shows "rules_inv sha256 c (d', lk)"
proof (rule rules_inv_intro)
  note i = rules_invD [OF inv]
  show "keys_ok d'" by (rule evolves_keys [OF e i(1)])
  show "book_ok sha256 (book c d')" by (rule evolves_book [OF e i(2) assms(3)])
  show "approvals_ok (book c d') (in_context c (ruleApprovals d'))"
    unfolding evolves_tables(3) [OF e] by (rule evolves_approvals [OF e i(3)])
  show "answers_ok (in_context c (ruleLinks d')) (in_context c (ruleApprovals d')) (in_context c (ruleObjections d'))"
    unfolding evolves_tables(2-4) [OF e] by (rule i(4))
  show "lock_ok sha256 c d' lk" by (rule evolves_lock [OF e i(2,5) assms(4)])
qed

section \<open>Links\<close>

text \<open>\<open>relinks c d d'\<close>: links are added and rewritten, but none is used.\<close>

definition used_ids :: "rule_link list \<Rightarrow> uuid set" where
  "used_ids ls = rid ` {l \<in> set ls. lk_usedAt l \<noteq> None}"

definition relinks :: "string \<Rightarrow> db \<Rightarrow> db \<Rightarrow> bool" where
  "relinks c d d' \<longleftrightarrow> d' = d\<lparr>ruleLinks := ruleLinks d'\<rparr>
     \<and> (distinct (map rid (ruleLinks d)) \<and> distinct (map lk_tokenHash (ruleLinks d))
        \<longrightarrow> distinct (map rid (ruleLinks d')) \<and> distinct (map lk_tokenHash (ruleLinks d')))
     \<and> used_ids (in_context c (ruleLinks d')) = used_ids (in_context c (ruleLinks d))"

lemma relinks_trans: "relinks c d d1 \<Longrightarrow> relinks c d1 d2 \<Longrightarrow> relinks c d d2"
proof -
  assume a: "relinks c d d1" and b: "relinks c d1 d2"
  obtain ls where d1: "d1 = d\<lparr>ruleLinks := ls\<rparr>" using a unfolding relinks_def by blast
  obtain ls' where d2: "d2 = d1\<lparr>ruleLinks := ls'\<rparr>" using b unfolding relinks_def by blast
  show ?thesis using a b unfolding relinks_def d1 d2 by simp
qed

lemma relinks_tables:
  assumes "relinks c d d'"
  shows "ruleSets d' = ruleSets d" "ruleApprovals d' = ruleApprovals d" "ruleObjections d' = ruleObjections d" "members d' = members d"
proof -
  have "d' = d\<lparr>ruleLinks := ruleLinks d'\<rparr>" using assms by (simp add: relinks_def)
  then obtain ls where "d' = d\<lparr>ruleLinks := ls\<rparr>" by blast
  then show "ruleSets d' = ruleSets d" "ruleApprovals d' = ruleApprovals d" "ruleObjections d' = ruleObjections d" "members d' = members d"
    by simp_all
qed

lemma lock_ok_tables: "book c d' = book c d \<Longrightarrow> lock_ok sha256 c d lk \<Longrightarrow> lock_ok sha256 c d' lk"
  by (cases "(sha256, c, d, lk)" rule: lock_ok.cases) (simp_all split: option.splits)

lemma relinks_inv:
  assumes "rules_inv sha256 c (d, lk)" "relinks c d d'"
  shows "rules_inv sha256 c (d', lk)"
proof -
  note t = relinks_tables [OF assms(2)] and i = rules_invD [OF assms(1)]
  show ?thesis
    using i assms(2) lock_ok_tables [of c d' d, OF _ i(5)]
    by (intro rules_inv_intro) (simp_all add: t keys_ok_def answers_ok_def relinks_def used_ids_def)
qed

lemma used_ids_map:
  assumes "\<And>l. l \<in> set ls \<Longrightarrow> rid (h l) = rid l \<and> ctx (h l) = ctx l \<and> (lk_usedAt (h l) = None \<longleftrightarrow> lk_usedAt l = None)"
  shows "used_ids (in_context c (map h ls)) = used_ids (in_context c ls)"
proof -
  let ?used = "\<lambda>l :: rule_link. lk_usedAt l \<noteq> None"
  have "filter ?used (in_context c (map h ls)) = map h (filter ?used (in_context c ls))"
    unfolding in_context_def filter_filter filter_map o_def
    by (rule arg_cong [where f = "map h"], rule filter_cong [OF refl]) (simp only: assms)
  from arg_cong [OF this, of set]
  have "{l \<in> set (in_context c (map h ls)). lk_usedAt l \<noteq> None} = h ` {l \<in> set (in_context c ls). lk_usedAt l \<noteq> None}"
    by (simp only: set_filter set_map)
  moreover have "rid ` h ` {l \<in> set (in_context c ls). lk_usedAt l \<noteq> None} = rid ` {l \<in> set (in_context c ls). lk_usedAt l \<noteq> None}"
    unfolding image_image by (rule image_cong [OF refl]) (use assms in \<open>simp add: in_context_def\<close>)
  ultimately show ?thesis unfolding used_ids_def by simp
qed

lemma relinks_map:
  assumes "\<And>l. l \<in> set (ruleLinks d) \<Longrightarrow> rid (h l) = rid l \<and> ctx (h l) = ctx l \<and> lk_tokenHash (h l) = lk_tokenHash l
     \<and> (lk_usedAt (h l) = None \<longleftrightarrow> lk_usedAt l = None)"
  shows "relinks c d (d\<lparr>ruleLinks := map h (ruleLinks d)\<rparr>)"
proof -
  have "map rid (map h (ruleLinks d)) = map rid (ruleLinks d)" "map lk_tokenHash (map h (ruleLinks d)) = map lk_tokenHash (ruleLinks d)"
    using assms by simp_all
  moreover have "used_ids (in_context c (map h (ruleLinks d))) = used_ids (in_context c (ruleLinks d))"
    by (rule used_ids_map) (use assms in blast)
  ultimately show ?thesis unfolding relinks_def by (simp del: map_map)
qed

lemma relinks_retire: "relinks c d (retire_links c' P now d)"
  unfolding retire_links_def by (rule relinks_map) simp

lemma relinks_deliver: "relinks c d (deliver_one c' ok now i d)"
  unfolding deliver_one_def update_row_def by (rule relinks_map) simp

lemma relinks_issue:
  assumes "issue sha256 fresh c' q d = Inr d'"
  shows "relinks c d d'"
proof -
  let ?d1 = "retire_links c' (\<lambda>l. lk_ruleSetId l = is_ruleSetId q \<and> lk_memberId l = is_memberId q) (is_now q) d"
  let ?l = "new_link sha256 fresh c' q"
  have new: "lk_tokenHash ?l \<notin> set (map lk_tokenHash (ruleLinks ?d1))"
    and "\<exists>rows. insert_row ''FinanceRuleLink'' ?l (ruleLinks ?d1) = Inr rows \<and> d' = ?d1\<lparr>ruleLinks := rows\<rparr>"
    using assms by (auto simp: issue_def Let_def split: if_splits sum.splits)
  then have d': "d' = ?d1\<lparr>ruleLinks := ruleLinks ?d1 @ [?l]\<rparr>" "rid ?l \<notin> rid ` set (ruleLinks ?d1)"
    by (auto dest: insert_row_Inr)
  have "used_ids (in_context c (ruleLinks ?d1 @ [?l])) = used_ids (in_context c (ruleLinks ?d1))"
    by (auto simp: used_ids_def in_context_def new_link_def)
  then have "relinks c ?d1 d'" using d' new by (simp add: relinks_def)
  then show ?thesis using relinks_trans [OF relinks_retire] by blast
qed

lemma relinks_refl: "relinks c d d"
  by (simp add: relinks_def)

lemma relinks_issue_all: "issue_all sha256 fresh c' i kind me now ps d = Inr (ls, d') \<Longrightarrow> relinks c d d'"
proof (induction ps arbitrary: d ls)
  case (Cons p ps)
  then show ?case by (auto split: sum.splits prod.splits intro: relinks_trans relinks_issue)
qed (simp add: relinks_refl)

section \<open>Each write keeps the invariant\<close>

lemma inv_unlock: "rules_inv sha256 c (d, lk) \<Longrightarrow> rules_inv sha256 c (d, None)"
  by (simp add: rules_inv_def)

text \<open>A write that leaves the configurations alone and no locked row touched.\<close>

lemma status_inv:
  assumes inv: "rules_inv sha256 c (d, lk)" and u: "update_sets P f d = Inr d'"
    and f: "\<And>s. fr_config (f s) = fr_config s" "\<And>s. fr_configHash (f s) = fr_configHash s"
    and "\<And>s. s \<in> set (book c d) \<Longrightarrow> P s \<Longrightarrow> \<not> row_locked lk (rid s)"
  shows "rules_inv sha256 c (d', lk)"
proof (rule evolves_inv [OF inv update_sets_Inr [OF u]])
  have "configHash sha256 (fr_config s) = Inr (fr_configHash s)" if "s \<in> set (book c d)" for s
    using rules_invD(2) [OF inv] that unfolding book_ok_def by blast
  then show "configHash sha256 (fr_config (if P s then f s else s)) = Inr (fr_configHash (if P s then f s else s))"
    if "s \<in> set (book c d)" for s using that by (simp add: f)
  show "(if P s then f s else s) = s" if "s \<in> set (book c d)" "row_locked lk (rid s)" for s
    using assms(5) that by auto
qed

lemma status_set_inv:
  assumes "rules_inv sha256 c (d, lk)" "update_set c' i f d = Inr d'" "\<not> row_locked lk i"
    and "\<And>s. fr_config (f s) = fr_config s" "\<And>s. fr_configHash (f s) = fr_configHash s"
  shows "rules_inv sha256 c (d', lk)"
  by (rule status_inv [where P = "\<lambda>s. rid s = i \<and> ctx s = c'" and f = f])
    (use assms in \<open>simp_all add: update_set_def split: if_splits\<close>)

lemma in_bookD: "s \<in> set (book c d) \<Longrightarrow> s \<in> set (ruleSets d) \<and> ctx s = c"
  by (simp add: in_context_def)

lemma book_id:
  assumes "keys_ok d" "s \<in> set (book c d)" "s' \<in> set (book c' d)" "rid s = rid s'"
  shows "s = s'"
  using assms in_bookD [OF assms(2)] in_bookD [OF assms(3)] unfolding keys_ok_def by (metis distinct_map inj_onD)

lemma locked_row:
  assumes "rules_inv sha256 c (d, lk)" "s \<in> set (book c d)" "row_locked lk (rid s)"
  shows "is_draft s \<or> is_open s"
proof -
  note id = book_id [OF rules_invD(1) [OF assms(1)] assms(2)] and lk = rules_invD(5) [OF assms(1)]
  show ?thesis
  proof (cases lk)
    case (Some x)
    with lk assms(3) show ?thesis
    proof (cases x)
      case (Submitting actor i now plan)
      from Some Submitting lk assms(3) have "sp_row plan \<in> set (book c d)" "is_draft (sp_row plan)" "rid s = rid (sp_row plan)"
        by simp_all
      with id show ?thesis by metis
    next
      case (Modifying actor k now row)
      from Some Modifying lk assms(3) have "row \<in> set (book c d)" "is_open row" "rid s = rid row" by simp_all
      with id show ?thesis by metis
    qed simp
  qed (use assms(3) in simp)
qed

lemma settle_cases [consumes 1, case_names waits settles]:
  assumes "settle_rules c i t d = Inr (b, d')"
  obtains (waits) "\<not> b" "d' = d"
  | (settles) d1 where "b" "socios d c \<noteq> []" "\<And>m. m \<in> set (socios d c) \<Longrightarrow> approved_by d c i (rid m)"
      "\<exists>s \<in> set (book c d). rid s = i \<and> fr_status s = ''pendiente''"
      "update_sets (\<lambda>s. ctx s = c \<and> fr_status s = ''vigente'') (superseded t) d = Inr d1"
      "update_sets (\<lambda>s. rid s = i \<and> ctx s = c) (activated t) d1 = Inr d'"
  using assms unfolding settle_rules_def in_context_def
  by (auto split: if_splits sum.splits)

lemma settle_inv:
  assumes inv: "rules_inv sha256 c (d, lk)" and s: "settle_rules c i t d = Inr (b, d')" and free: "\<not> row_locked lk i"
  shows "rules_inv sha256 c (d', lk)"
  using s
proof (cases rule: settle_cases)
  case (settles d1)
  have "\<not> row_locked lk (rid s)" if "s \<in> set (book c d)" "fr_status s = ''vigente''" for s
    using locked_row [OF inv that(1)] that(2) by (auto simp: is_open_def OPEN_def)
  then have "rules_inv sha256 c (d1, lk)"
    by (intro status_inv [OF inv settles(5)]) (simp_all add: superseded_def)
  then show ?thesis
    by (rule status_inv [OF _ settles(6)]) (use free in \<open>simp_all add: activated_def\<close>)
qed (use inv in simp)

lemma foldr_max: "foldr max xs (a :: int) = Max (insert a (set xs))"
  by (induction xs) (simp_all add: insert_commute)

lemma next_version_book:
  assumes "book_ok sha256 (book c d)"
  shows "next_version c (ruleSets d) = int (length (book c d)) + 1"
proof -
  have "insert 0 (fr_version ` set (book c d)) = {0..int (length (book c d))}"
    using assms unfolding book_ok_def by auto
  moreover have "Max {0..int n} = int n" for n by (rule Max_eqI) simp_all
  ultimately show ?thesis by (simp add: next_version_def foldr_max del: Max_insert)
qed

lemma insert_set_Inr:
  assumes "insert_set s d = Inr d'"
  shows "d' = d\<lparr>ruleSets := ruleSets d @ [s]\<rparr>" "rid s \<notin> rid ` set (ruleSets d)" "rule_set_indexes (ruleSets d @ [s])"
  using assms by (auto simp: insert_set_def dest: insert_row_Inr split: sum.splits if_splits)

lemma createDraft_inv:
  assumes inv: "rules_inv sha256 c (d, lk)" and c: "act_contextId actor = c"
    and none: "\<And>s. s \<in> set (book c d) \<Longrightarrow> \<not> is_draft s"
    and hash: "configHash sha256 config = Inr h"
    and ins: "createDraft actor i now config h b d = Inr d'"
  shows "rules_inv sha256 c (d', None)"
proof -
  note i = rules_invD [OF inv]
  define s where "s = new_draft actor i now config h b (next_version c (ruleSets d))"
  have s: "ctx s = c" "fr_config s = config" "fr_configHash s = h" "fr_version s = int (length (book c d)) + 1"
    using c next_version_book [OF i(2)] by (simp_all add: s_def new_draft_def)
  have d': "d' = d\<lparr>ruleSets := ruleSets d @ [s]\<rparr>" "rid s \<notin> rid ` set (ruleSets d)" "rule_set_indexes (ruleSets d @ [s])"
    using insert_set_Inr [of s d d'] ins c by (simp_all add: createDraft_def s_def)
  have book: "book c d' = book c d @ [s]" using s(1) d'(1) by (simp add: in_context_def)
  have "fr_version ` set (book c d) = {1..int (length (book c d))}" using i(2) unfolding book_ok_def by blast
  then have "fr_version ` set (book c d') = {1..int (length (book c d'))}"
    unfolding book using s(4) by auto
  then have "book_ok sha256 (book c d')"
    using i(2) none hash s unfolding book book_ok_def by (simp add: ball_Un)
  moreover have "keys_ok d'" using i(1) d' by (simp add: keys_ok_def)
  moreover have "approvals_ok (book c d') as" if "approvals_ok (book c d) as" for as
    using that unfolding book approvals_ok_def by (auto simp: bex_Un)
  ultimately show ?thesis using i(3,4) d'(1) by (intro rules_inv_intro) simp_all
qed

text \<open>An answer and the use of its link go together.\<close>

lemma used_ids_use:
  assumes "l \<in> set ls" "distinct (map rid ls)" "ctx l = c"
  shows "used_ids (in_context c (map (\<lambda>l'. if rid l' = rid l then l'\<lparr>lk_usedAt := Some t\<rparr> else l') ls))
       = insert (rid l) (used_ids (in_context c ls))"
  (is "used_ids (in_context c (map ?h ls)) = _")
proof -
  have same: "l' = l" if "l' \<in> set ls" "rid l' = rid l" for l' using that assms(1,2) by (metis distinct_map inj_onD)
  have "x \<in> used_ids (in_context c (map ?h ls)) \<longleftrightarrow> x = rid l \<or> x \<in> used_ids (in_context c ls)" for x
  proof
    assume "x \<in> used_ids (in_context c (map ?h ls))"
    then obtain l' where "l' \<in> set ls" "ctx (?h l') = c" "lk_usedAt (?h l') \<noteq> None" "x = rid (?h l')"
      unfolding used_ids_def in_context_def by auto
    then show "x = rid l \<or> x \<in> used_ids (in_context c ls)"
      by (cases "rid l' = rid l") (auto simp: used_ids_def in_context_def)
  next
    assume "x = rid l \<or> x \<in> used_ids (in_context c ls)"
    then obtain l' where "l' \<in> set ls" "ctx l' = c" "x = rid l'" "l' = l \<or> lk_usedAt l' \<noteq> None"
      using assms unfolding used_ids_def in_context_def by auto
    then show "x \<in> used_ids (in_context c (map ?h ls))"
      unfolding used_ids_def in_context_def by (intro image_eqI [of _ _ "?h l'"]) auto
  qed
  then show ?thesis by blast
qed

lemma use_link_tables [simp]:
  "ruleSets (use_link k t d) = ruleSets d" "ruleApprovals (use_link k t d) = ruleApprovals d"
  "ruleObjections (use_link k t d) = ruleObjections d" "members (use_link k t d) = members d"
  "map rid (ruleLinks (use_link k t d)) = map rid (ruleLinks d)"
  "map lk_tokenHash (ruleLinks (use_link k t d)) = map lk_tokenHash (ruleLinks d)"
  by (simp_all add: use_link_def)

lemma answered_inv:
  assumes inv: "rules_inv sha256 c (d, lk)" and l: "l \<in> set (ruleLinks d)" "ctx l = c" "lk_usedAt l = None"
    and tables: "ruleSets d' = ruleSets d" "ruleLinks d' = ruleLinks (use_link (rid l) t d)"
    and ok: "approvals_ok (book c d) (in_context c (ruleApprovals d'))"
    and links: "set (answer_links (in_context c (ruleApprovals d')) (in_context c (ruleObjections d')))
        = insert (rid l) (set (answer_links (in_context c (ruleApprovals d)) (in_context c (ruleObjections d))))"
      "distinct (answer_links (in_context c (ruleApprovals d')) (in_context c (ruleObjections d')))"
  shows "rules_inv sha256 c (d', lk)"
proof (rule rules_inv_intro)
  note i = rules_invD [OF inv]
  have ids: "distinct (map rid (ruleLinks d))" using i(1) by (simp add: keys_ok_def)
  show "keys_ok d'" using i(1) use_link_tables(5,6) [of "rid l" t d] by (simp add: keys_ok_def tables del: map_map)
  show "book_ok sha256 (book c d')" "approvals_ok (book c d') (in_context c (ruleApprovals d'))" "lock_ok sha256 c d' lk"
    using i(2) ok lock_ok_tables [of c d' d, OF _ i(5)] by (simp_all add: tables(1))
  show "answers_ok (in_context c (ruleLinks d')) (in_context c (ruleApprovals d')) (in_context c (ruleObjections d'))"
    using i(4) links used_ids_use [OF l(1) ids l(2), of t]
    unfolding answers_ok_def used_ids_def [symmetric] tables(2) by (simp add: use_link_def)
qed

text \<open>The link of an answer has no answer yet.\<close>

lemma fresh_answer:
  assumes "rules_inv sha256 c (d, lk)" "l \<in> set (ruleLinks d)" "lk_usedAt l = None"
  shows "rid l \<notin> set (answer_links (in_context c (ruleApprovals d)) (in_context c (ruleObjections d)))"
proof
  note i = rules_invD [OF assms(1)]
  assume "rid l \<in> set (answer_links (in_context c (ruleApprovals d)) (in_context c (ruleObjections d)))"
  then obtain l' where "l' \<in> set (ruleLinks d)" "lk_usedAt l' \<noteq> None" "rid l' = rid l"
    using i(4) unfolding answers_ok_def in_context_def by auto
  with assms(2,3) i(1) show False unfolding keys_ok_def by (metis distinct_map inj_onD)
qed

lemma record_answer_inv:
  assumes inv: "rules_inv sha256 c (d, lk)" and l: "l \<in> set (ruleLinks d)" "ctx l = c" "lk_usedAt l = None"
    and s: "s \<in> set (book c d)" "rid s = lk_ruleSetId l" and free: "\<not> row_locked lk (lk_ruleSetId l)"
    and r: "record_answer l s decision reason k t d = Inr (out, d')"
  shows "rules_inv sha256 c (d', lk)"
proof (cases decision)
  case Approve
  note i = rules_invD [OF inv] and new = fresh_answer [OF inv l(1,3)]
  let ?a = "approval_of l s k t"
  obtain d1 where d1: "insert_approval ?a d = Inr d1" and "\<exists>b. settle_rules c (lk_ruleSetId l) t (use_link (rid l) t d1) = Inr (b, d')"
    using r l(2) unfolding Approve record_answer_def by (auto split: sum.splits prod.splits)
  then obtain b where b: "settle_rules c (lk_ruleSetId l) t (use_link (rid l) t d1) = Inr (b, d')" by blast
  have a: "ctx ?a = c" "ra_linkId ?a = Some (rid l)" using l(2) by (simp_all add: approval_of_def)
  have ins: "d1 = d\<lparr>ruleApprovals := ruleApprovals d @ [?a]\<rparr>" "\<not> approved_by d c (ra_ruleSetId ?a) (ra_memberId ?a)"
    "\<exists>s \<in> set (ruleSets d). rid s = ra_ruleSetId ?a \<and> ctx s = c \<and> fr_status s = ''pendiente'' \<and> fr_configHash s = ra_approvedHash ?a"
    using d1 a(1) unfolding insert_approval_def by (auto dest: insert_row_Inr split: sum.splits if_splits)
  have rows: "in_context c (ruleApprovals d1) = in_context c (ruleApprovals d) @ [?a]" "ruleObjections d1 = ruleObjections d"
    "ruleSets d1 = ruleSets d" "ruleLinks d1 = ruleLinks d"
    using a(1) ins(1) by (simp_all add: in_context_def)
  have "(ra_ruleSetId ?a, ra_memberId ?a) \<notin> set (map (\<lambda>a. (ra_ruleSetId a, ra_memberId a)) (in_context c (ruleApprovals d)))"
    using ins(2) unfolding approved_by_def in_context_def by auto
  moreover have "\<exists>s \<in> set (book c d). rid s = ra_ruleSetId ?a \<and> \<not> is_draft s \<and> fr_configHash s = ra_approvedHash ?a"
    using ins(3) unfolding in_context_def by force
  ultimately have "approvals_ok (book c d) (in_context c (ruleApprovals d) @ [?a])"
    using i(3) unfolding approvals_ok_def by (simp add: ball_Un)
  then have "rules_inv sha256 c (use_link (rid l) t d1, lk)"
    using new i(4) a(2) rows
    by (intro answered_inv [OF inv l, where t = t]) (simp_all add: answer_links_def answers_ok_def use_link_def)
  then show ?thesis using b free by (rule settle_inv)
next
  case Object
  note i = rules_invD [OF inv] and new = fresh_answer [OF inv l(1,3)]
  let ?x = "objection_of l reason k t"
  obtain d1 where d1: "insert_objection ?x d = Inr d1"
    and u: "update_sets (\<lambda>s. rid s = lk_ruleSetId l \<and> ctx s = c) (in_review t) (use_link (rid l) t d1) = Inr d'"
    using r l(2) unfolding Object record_answer_def by (auto split: sum.splits prod.splits)
  have x: "ctx ?x = c" "ro_linkId ?x = rid l" using l(2) by (simp_all add: objection_of_def)
  have "d1 = d\<lparr>ruleObjections := ruleObjections d @ [?x]\<rparr>"
    using d1 unfolding insert_objection_def by (auto dest: insert_row_Inr split: sum.splits if_splits)
  then have rows: "in_context c (ruleObjections d1) = in_context c (ruleObjections d) @ [?x]" "ruleApprovals d1 = ruleApprovals d"
    "ruleSets d1 = ruleSets d" "ruleLinks d1 = ruleLinks d"
    using x(1) by (simp_all add: in_context_def)
  have "rules_inv sha256 c (use_link (rid l) t d1, lk)"
    using new i(3,4) x(2) rows
    by (intro answered_inv [OF inv l, where t = t]) (simp_all add: answer_links_def answers_ok_def use_link_def insert_commute)
  then show ?thesis
    by (rule status_inv [OF _ u]) (use free in \<open>simp_all add: in_review_def\<close>)
qed

section \<open>Every step keeps the invariant\<close>

lemma find_row_book: "find_row c i (ruleSets d) = Some s \<Longrightarrow> s \<in> set (book c d) \<and> rid s = i"
  by (auto simp: in_context_def dest: find_row_Some)

lemma lockRow_Inr: "lockRow c i d = Inr s \<Longrightarrow> s \<in> set (book c d) \<and> rid s = i"
  by (auto simp: lockRow_def dest: find_row_book split: option.splits)

lemma first_set_Some: "first_set c P d = Some s \<Longrightarrow> s \<in> set (book c d) \<and> P s"
  unfolding first_set_def in_context_def by (auto dest: find_Some_set)

lemma first_set_None: "first_set c P d = None \<longleftrightarrow> (\<forall>s \<in> set (book c d). \<not> P s)"
  unfolding first_set_def in_context_def by (auto simp: find_None_set)

lemma index_unique:
  assumes "distinct (map ctx (filter P rows))" "s \<in> set (in_context c rows)" "s' \<in> set (in_context c rows)" "P s" "P s'"
  shows "s = s'"
  using assms unfolding distinct_map inj_on_def in_context_def by simp

lemma one_open:
  assumes "keys_ok d" "s \<in> set (book c d)" "s' \<in> set (book c d)" "is_open s" "is_open s'"
  shows "s = s'"
  using assms index_unique [of is_open "ruleSets d"] unfolding keys_ok_def rule_set_indexes_def by blast

lemma one_in_force:
  assumes "keys_ok d" "s \<in> set (book c d)" "s' \<in> set (book c d)" "fr_status s = ''vigente''" "fr_status s' = ''vigente''"
  shows "s = s'"
  using assms index_unique [of "\<lambda>s. fr_status s = ''vigente''" "ruleSets d"] unfolding keys_ok_def rule_set_indexes_def by blast

lemma save_reads_inv:
  assumes "rules_inv sha256 c (d, None)" "act_contextId actor = c" "saveDraft_reads sha256 actor i now input d = Inr plan"
  shows "rules_inv sha256 c (d, Some (SavingDraft actor plan))"
proof -
  let ?open = "first_set c is_draft d"
  obtain config h where h: "configHash sha256 config = Inr h"
    and plan: "plan = \<lparr>dp_newId = i, dp_now = now, dp_config = config, dp_hash = h, dp_open = ?open\<rparr>"
    using assms(2,3) unfolding saveDraft_reads_def by (auto simp: Let_def split: sum.splits if_splits)
  have "case ?open of None \<Rightarrow> \<forall>s \<in> set (book c d). \<not> is_draft s | Some o' \<Rightarrow> \<exists>s \<in> set (book c d). rid s = rid o'"
    using first_set_None [of c is_draft d] first_set_Some [of c is_draft d] by (cases ?open) auto
  then show ?thesis using assms(1,2) h plan by (simp add: rules_inv_def)
qed

lemma submit_reads_Inr:
  assumes "submit_reads actor i d = Inr plan" "act_contextId actor = c"
  shows "sp_row plan \<in> set (book c d)" "rid (sp_row plan) = i" "is_draft (sp_row plan)"
    "sp_found plan = map_option rid (first_set c is_open d)" "sp_partners plan = activePartners d c"
    "\<forall>p \<in> set (activePartners d c). pr_correo p \<noteq> None"
  using assms unfolding submit_reads_def
  by (auto simp: Let_def dest: lockRow_Inr split: sum.splits if_splits)

lemma submit_reads_inv:
  assumes "rules_inv sha256 c (d, None)" "act_contextId actor = c" "submit_reads actor i d = Inr plan"
  shows "rules_inv sha256 c (d, Some (Submitting actor i now plan))"
proof -
  note p = submit_reads_Inr [OF assms(3,2)]
  have "sp_found plan = Some (rid s)" if s: "s \<in> set (book c d)" "is_open s" for s
  proof (cases "first_set c is_open d")
    case (Some s')
    then have "s' = s" using one_open [OF rules_invD(1) [OF assms(1)] _ s(1) _ s(2)] first_set_Some by metis
    with Some p(4) show ?thesis by simp
  qed (use s first_set_None in metis)
  moreover have "\<exists>s \<in> set (book c d). rid s = j" if "sp_found plan = Some j" for j
    using that p(4) first_set_Some [of c is_open d] by (cases "first_set c is_open d") auto
  ultimately show ?thesis using assms(1,2) p by (simp add: rules_inv_def)
qed

lemma modify_reads_inv:
  assumes "rules_inv sha256 c (d, None)" "act_contextId actor = c" "modify_reads actor i d = Inr row"
  shows "rules_inv sha256 c (d, Some (Modifying actor k now row))"
proof -
  have "row \<in> set (book c d)" "is_open row" "first_set c is_draft d = None"
    using assms(2,3) unfolding modify_reads_def by (auto simp: Let_def dest: lockRow_Inr split: sum.splits if_splits)
  then show ?thesis using assms(1,2) first_set_None [of c is_draft d] by (simp add: rules_inv_def)
qed

lemma save_writes_inv:
  assumes inv: "rules_inv sha256 c (d, Some (SavingDraft actor plan))" and w: "saveDraft_writes actor plan d = Inr (r, d')"
  shows "rules_inv sha256 c (d', None)"
proof -
  have lk: "act_contextId actor = c" "configHash sha256 (dp_config plan) = Inr (dp_hash plan)"
    using rules_invD(5) [OF inv] by simp_all
  show ?thesis
  proof (cases "dp_open plan")
    case None
    then have none: "\<not> is_draft s" if "s \<in> set (book c d)" for s using rules_invD(5) [OF inv] that by simp
    show ?thesis
      by (rule createDraft_inv [OF inv lk(1) none lk(2)]) (use w None in \<open>auto simp: saveDraft_writes_def split: sum.splits\<close>)
  next
    case (Some s0)
    let ?f = "\<lambda>s. s\<lparr>fr_config := dp_config plan, fr_configHash := dp_hash plan, fr_updatedAt := dp_now plan\<rparr>"
    have u: "update_set c (rid s0) ?f d = Inr d'"
      using w lk(1) unfolding saveDraft_writes_def Some by (auto split: sum.splits)
    have "configHash sha256 (fr_config s) = Inr (fr_configHash s)" if "s \<in> set (book c d)" for s
      using rules_invD(2) [OF inv] that unfolding book_ok_def by blast
    with lk(2) show ?thesis by (intro evolves_inv [OF inv_unlock [OF inv] update_set_Inr(1) [OF u]]) simp_all
  qed
qed

lemma modify_writes_inv:
  assumes inv: "rules_inv sha256 c (d, Some (Modifying actor k now row))" and w: "modify_writes actor k now row d = Inr (r, d')"
  shows "rules_inv sha256 c (d', None)"
proof -
  have lk: "act_contextId actor = c" "row \<in> set (book c d)" and none: "\<And>s. s \<in> set (book c d) \<Longrightarrow> \<not> is_draft s"
    using rules_invD(5) [OF inv] by simp_all
  have hash: "configHash sha256 (fr_config row) = Inr (fr_configHash row)"
    using rules_invD(2) [OF inv] lk(2) unfolding book_ok_def by blast
  show ?thesis
    by (rule createDraft_inv [OF inv lk(1) none hash]) (use w in \<open>auto simp: modify_writes_def split: sum.splits\<close>)
qed

text \<open>The writes of a submission, in their order.\<close>

lemma submit_writes_Inr:
  assumes "submit_writes sha256 money fresh actor i now plan d = Inr (r, d')" "act_contextId actor = c"
  obtains prev d1 d2 ls where "open_now c plan d = Inr prev" "prev = None \<or> map_option rid prev = fr_basedOnId (sp_row plan)"
    "replace_open c now (sp_row plan) prev d = Inr d1"
    "update_set c i (submitted now (proposal_changes money c (sp_row plan) d)) d1 = Inr d2"
    "issue_all sha256 fresh c i ''envio'' (acting actor) now (sp_partners plan) d2 = Inr (ls, d')"
  using assms unfolding submit_writes_def Let_def
  by (auto split: sum.splits if_splits prod.splits)

lemma replace_open_inv:
  assumes "rules_inv sha256 c (d, lk)" "replace_open c now row prev d = Inr d'" "\<And>s. prev = Some s \<Longrightarrow> \<not> row_locked lk (rid s)"
  shows "rules_inv sha256 c (d', lk)"
proof (cases prev)
  case (Some s)
  with assms(2) have "update_set c (rid s) (discarded now (''Reemplazada por la versi'' @ CHR 0xF3 # ''n '' @ show_int (fr_version row) @ ''.'')) d = Inr d'"
    by (simp add: replace_open_def)
  then show ?thesis by (rule status_set_inv [OF assms(1)]) (use assms(3) Some in \<open>simp_all add: discarded_def\<close>)
qed (use assms in \<open>simp add: replace_open_def\<close>)

lemma submit_writes_inv:
  assumes inv: "rules_inv sha256 c (d, Some (Submitting actor i now plan))"
    and w: "submit_writes sha256 money fresh actor i now plan d = Inr (r, d')"
  shows "rules_inv sha256 c (d', None)"
proof -
  have "act_contextId actor = c" using rules_invD(5) [OF inv] by simp
  from w this show ?thesis
  proof (cases rule: submit_writes_Inr)
    case (1 prev d1 d2 ls)
    have "rules_inv sha256 c (d1, None)" by (rule replace_open_inv [OF inv_unlock [OF inv] 1(3)]) simp
    then have "rules_inv sha256 c (d2, None)" by (rule status_set_inv [OF _ 1(4)]) (simp_all add: submitted_def)
    then show ?thesis by (rule relinks_inv [OF _ relinks_issue_all [OF 1(5)]])
  qed
qed

lemma discard_inv:
  assumes inv: "rules_inv sha256 c (d, lk)" and "act_contextId actor = c" "\<not> row_locked lk i"
    and out: "discard actor i now d = (out, d')"
  shows "rules_inv sha256 c (d', lk)"
proof (cases out)
  case (Inr r)
  then obtain d1 msg where u: "update_set c i (discarded now msg) d = Inr d1"
    and d': "d' = retire_links c (\<lambda>l. lk_ruleSetId l = i) now d1"
    using out assms(2) unfolding discard_def transaction_def by (auto simp: Let_def split: sum.splits if_splits)
  have "rules_inv sha256 c (d1, lk)"
    by (rule status_set_inv [OF inv u assms(3)]) (simp_all add: discarded_def)
  then show ?thesis unfolding d' by (rule relinks_inv [OF _ relinks_retire])
next
  case (Inl e)
  have "d' = d" by (rule transaction_error [OF out [unfolded discard_def Inl]])
  with inv show ?thesis by simp
qed

lemma resend_Inr:
  assumes "resend_tx sha256 fresh actor i now t d = (Inr out, d')" "act_contextId actor = c"
  obtains b d1 where "settle_rules c i t d = Inr (b, d1)" "b \<longleftrightarrow> out = None" "b \<Longrightarrow> d' = d1"
    "\<not> b \<Longrightarrow> \<exists>row. resend_writes sha256 fresh actor row now d1 = Inr (out, d')"
proof -
  obtain row b d1 where s: "settle_rules c i t d = Inr (b, d1)"
    and r: "(if b then Inr (None, d1) else resend_writes sha256 fresh actor row now d1) = Inr (out, d')"
    using assms unfolding resend_tx_def transaction_def
    by (auto simp: Let_def split: sum.splits if_splits prod.splits bool.splits)
  show thesis
  proof (rule that [OF s])
    show "b \<longleftrightarrow> out = None" using r by (auto simp: resend_writes_def Let_def split: if_splits sum.splits)
    show "b \<Longrightarrow> d' = d1" using r by simp
    show "\<not> b \<Longrightarrow> \<exists>row. resend_writes sha256 fresh actor row now d1 = Inr (out, d')" using r by auto
  qed
qed

lemma relinks_resend:
  assumes "resend_writes sha256 fresh actor row now d = Inr (out, d')"
  shows "relinks c d d'"
proof -
  obtain ps ls where "issue_all sha256 fresh (act_contextId actor) (rid row) ''reenvio'' (acting actor) now ps d = Inr (ls, d')"
    using assms unfolding resend_writes_def Let_def by (auto split: sum.splits prod.splits)
  then show ?thesis by (rule relinks_issue_all)
qed

lemma resend_inv:
  assumes inv: "rules_inv sha256 c (d, lk)" and c: "act_contextId actor = c" and free: "\<not> row_locked lk i"
    and out: "resend_tx sha256 fresh actor i now t d = (out, d')"
  shows "rules_inv sha256 c (d', lk)"
proof (cases out)
  case (Inr r)
  from out [unfolded Inr] c show ?thesis
  proof (cases rule: resend_Inr)
    case (1 b d1)
    have "rules_inv sha256 c (d1, lk)" by (rule settle_inv [OF inv 1(1) free])
    with 1(3,4) relinks_inv relinks_resend show ?thesis by (cases b) metis+
  qed
next
  case (Inl e)
  have "d' = d" by (rule transaction_error [OF out [unfolded resend_tx_def Inl]])
  with inv show ?thesis by simp
qed

text \<open>The answer of a link: nothing is written, or what \<open>record_answer\<close> writes.\<close>

lemma respond_cases [consumes 1, case_names refused recorded]:
  assumes "respond sha256 token decision reason k t d = (out, d')"
  obtains (refused) "d' = d" "\<nexists>r. out = Inr r \<and> r \<noteq> ''en_revision''"
  | (recorded) l s r result where "find (\<lambda>l. lk_tokenHash l = sha256 token) (ruleLinks d) = Some l"
      "find_row (ctx l) (lk_ruleSetId l) (ruleSets d) = Some s" "usable l t d" "fr_status s = ''pendiente''"
      "clean_reason decision reason = Inr r" "record_answer l s decision r k t d = Inr (result, d')" "out = Inr result"
proof (cases "clean_reason decision reason")
  case (Inl e)
  with assms have "d' = d" "out = Inl e" by (simp_all add: respond_def)
  with refused show thesis by simp
next
  case (Inr r)
  show thesis
  proof (cases "\<exists>l s. find (\<lambda>l. lk_tokenHash l = sha256 token) (ruleLinks d) = Some l \<and> usable l t d
      \<and> find_row (ctx l) (lk_ruleSetId l) (ruleSets d) = Some s \<and> fr_status s = ''pendiente''")
    case True
    then obtain l s where l: "find (\<lambda>l. lk_tokenHash l = sha256 token) (ruleLinks d) = Some l" "usable l t d"
      "find_row (ctx l) (lk_ruleSetId l) (ruleSets d) = Some s" "fr_status s = ''pendiente''" by blast
    then have "respond sha256 token decision reason k t d = (case record_answer l s decision r k t d of
        Inl e \<Rightarrow> (Inl (if swallowed e then invalidLink else e), d) | Inr (result, d') \<Rightarrow> (Inr result, d'))"
      using Inr by (simp add: respond_def link_respond_def split: sum.splits prod.splits)
    with assms l Inr refused recorded show thesis by (auto split: sum.splits prod.splits)
  next
    case False
    then have "d' = d \<and> (\<nexists>r. out = Inr r \<and> r \<noteq> ''en_revision'')"
      using assms Inr unfolding respond_def link_respond_def by (auto split: option.splits if_splits)
    then show thesis using refused by blast
  qed
qed

lemma usableD: "usable l t d \<Longrightarrow> lk_usedAt l = None \<and> lk_supersededAt l = None \<and> t < lk_expiresAt l"
  by (simp add: usable_def live_def)

lemma find_token:
  assumes "keys_ok d" "l \<in> set (ruleLinks d)" "lk_tokenHash l = h"
  shows "find (\<lambda>l. lk_tokenHash l = h) (ruleLinks d) = Some l"
proof (cases "find (\<lambda>l. lk_tokenHash l = h) (ruleLinks d)")
  case (Some x)
  then have "x \<in> set (ruleLinks d)" "lk_tokenHash x = h" by (auto dest: find_Some_set)
  with assms have "x = l" unfolding keys_ok_def by (metis distinct_map inj_onD)
  with Some show ?thesis by simp
qed (use assms in \<open>auto simp: find_None_set\<close>)

lemma respond_inv:
  assumes inv: "rules_inv sha256 c (d, lk)" and l: "l \<in> set (ruleLinks d)" "lk_tokenHash l = sha256 token" "ctx l = c"
    and free: "\<not> row_locked lk (lk_ruleSetId l)" and out: "respond sha256 token decision reason k t d = (out, d')"
  shows "rules_inv sha256 c (d', lk)"
  using out
proof (cases rule: respond_cases)
  case (recorded l' s r result)
  then have same: "l' = l" using find_token [OF rules_invD(1) [OF inv] l(1,2)] by simp
  show ?thesis
    by (rule record_answer_inv [OF inv l(1,3) _ _ _ free recorded(6) [unfolded same]])
      (use recorded same l(3) in \<open>auto dest: usableD find_row_book\<close>)
qed (use inv in simp)

lemma elsewhere_inv:
  assumes inv: "rules_inv sha256 c (d, lk)" and "same_books c d d'" "keys_ok d'"
  shows "rules_inv sha256 c (d', lk)"
  using rules_invD(2-4) [OF inv] assms lock_ok_tables [of c d' d, OF _ rules_invD(5) [OF inv]]
  by (intro rules_inv_intro) (simp_all add: same_books_def)

lemma rules_step_inv:
  assumes "rules_step sha256 money c x x'" "rules_inv sha256 c x"
  shows "rules_inv sha256 c x'"
  using assms
proof (induction rule: rules_step.induct)
  case save_reads
  then show ?case by (blast intro: save_reads_inv)
next
  case save_writes
  then show ?case by (blast intro: save_writes_inv)
next
  case submit_reads
  then show ?case by (blast intro: submit_reads_inv)
next
  case submit_writes
  then show ?case by (blast intro: submit_writes_inv)
next
  case modify_reads
  then show ?case by (blast intro: modify_reads_inv)
next
  case modify_writes
  then show ?case by (blast intro: modify_writes_inv)
next
  case abort
  then show ?case by (rule inv_unlock)
next
  case discard
  then show ?case by (blast intro: discard_inv)
next
  case resend
  then show ?case by (blast intro: resend_inv)
next
  case (respond l d token lk decision reason k t out d')
  show ?case by (rule respond_inv [OF respond(6,1-5)])
next
  case deliver
  then show ?case by (rule relinks_inv [OF _ relinks_deliver])
next
  case elsewhere
  then show ?case by (blast intro: elsewhere_inv)
qed

lemma rules_runs_inv: "rules_runs sha256 money c x x' \<Longrightarrow> rules_inv sha256 c x \<Longrightarrow> rules_inv sha256 c x'"
  unfolding rules_runs_def by (induction rule: rtranclp_induct) (auto dest: rules_step_inv)

end
