(* ===== verification/RulesAgreed.thy ===== *)
theory RulesAgreed
  imports RuleLaws
begin

text \<open>
  The guarantees of the agreement on the rules: the life cycle of \<open>doc/finance-rules.md\<close> is what the
  requests implement, rules are in force only when every partner approved that exact text, a link answers
  once, and no request runs into a trigger of the database, but for one race.
\<close>

section \<open>The life cycle\<close>

text \<open>What the partners see of the rules: how many versions there are, the draft, the open proposal (with
  whether somebody objected) and the version in force.\<close>

record rules_view =
  vw_versions :: int
  vw_draft :: "int set"
  vw_open :: "(int \<times> bool) set"
  vw_in_force :: "int set"

inductive life_cycle :: "rules_view \<Rightarrow> rules_view \<Rightarrow> bool" where
  drafted: "vw_draft v = {} \<Longrightarrow> life_cycle v (v\<lparr>vw_versions := vw_versions v + 1, vw_draft := {vw_versions v + 1}\<rparr>)"
| sent: "vw_draft v = {k} \<Longrightarrow> life_cycle v (v\<lparr>vw_draft := {}, vw_open := {(k, False)}\<rparr>)"
| objected: "vw_open v = {(k, False)} \<Longrightarrow> life_cycle v (v\<lparr>vw_open := {(k, True)}\<rparr>)"
| agreed: "vw_open v = {(k, False)} \<Longrightarrow> life_cycle v (v\<lparr>vw_open := {}, vw_in_force := {k}\<rparr>)"
| draft_dropped: "vw_draft v = {k} \<Longrightarrow> life_cycle v (v\<lparr>vw_draft := {}\<rparr>)"
| proposal_dropped: "vw_open v = {(k, b)} \<Longrightarrow> life_cycle v (v\<lparr>vw_open := {}\<rparr>)"

definition open_slot :: "rule_set \<Rightarrow> int \<times> bool" where
  "open_slot s = (fr_version s, fr_status s = ''en_revision'')"

definition view :: "string \<Rightarrow> db \<Rightarrow> rules_view" where
  "view c d = \<lparr>vw_versions = int (length (book c d)),
     vw_draft = fr_version ` {s \<in> set (book c d). is_draft s},
     vw_open = open_slot ` {s \<in> set (book c d). is_open s},
     vw_in_force = fr_version ` {s \<in> set (book c d). fr_status s = ''vigente''}\<rparr>"

lemma view_book: "book c d' = book c d \<Longrightarrow> view c d' = view c d"
  by (simp add: view_def)

text \<open>One row is rewritten.\<close>

lemma update_set_slot:
  assumes keys: "keys_ok d" and u: "update_set c i f d = Inr d'" and s: "s \<in> set (book c d)" "rid s = i"
  shows "{x \<in> set (book c d'). P x} = {x \<in> set (book c d). x \<noteq> s \<and> P x} \<union> (if P (f s) then {f s} else {})"
    "length (book c d') = length (book c d)"
proof -
  have book: "book c d' = map (\<lambda>s. if rid s = i \<and> ctx s = c then f s else s) (book c d)"
    by (rule evolves_tables(6) [OF update_set_Inr(1) [OF u]])
  then show "length (book c d') = length (book c d)" by simp
  have "rid x = i \<and> ctx x = c \<longleftrightarrow> x = s" if "x \<in> set (book c d)" for x
    using book_id [OF keys that s(1)] s in_bookD [OF s(1)] by auto
  then have new: "set (book c d') = (\<lambda>x. if x = s then f s else x) ` set (book c d)" unfolding book set_map by (intro image_cong) auto
  show "{x \<in> set (book c d'). P x} = {x \<in> set (book c d). x \<noteq> s \<and> P x} \<union> (if P (f s) then {f s} else {})" (is "?l = ?r")
  proof
    show "?l \<subseteq> ?r"
    proof
      fix y assume "y \<in> ?l"
      then obtain x where x: "x \<in> set (book c d)" "y = (if x = s then f s else x)" "P y" unfolding new by blast
      then show "y \<in> ?r" by (cases "x = s") simp_all
    qed
    have a: "f s \<in> set (book c d')" unfolding new by (rule image_eqI [OF _ s(1)]) simp
    have b: "x \<in> set (book c d')" if "x \<in> set (book c d)" "x \<noteq> s" for x
      unfolding new by (rule image_eqI [OF _ that(1)]) (simp add: that(2))
    show "?r \<subseteq> ?l"
    proof
      fix y assume "y \<in> ?r"
      then have "y \<in> set (book c d) \<and> y \<noteq> s \<and> P y \<or> P (f s) \<and> y = f s"
        by (cases "P (f s)") (simp_all only: if_True if_False Un_iff mem_Collect_eq insert_iff empty_iff simp_thms)
      then show "y \<in> ?l"
      proof (elim disjE conjE)
        assume "y \<in> set (book c d)" "y \<noteq> s" "P y"
        with b show ?thesis by (simp only: mem_Collect_eq simp_thms)
      next
        assume "P (f s)" "y = f s"
        with a show ?thesis by (simp only: mem_Collect_eq simp_thms)
      qed
    qed
  qed
qed

lemma update_set_view:
  assumes "keys_ok d" "update_set c i f d = Inr d'" "s \<in> set (book c d)" "rid s = i"
  shows "view c d' = \<lparr>vw_versions = int (length (book c d)),
     vw_draft = fr_version ` {x \<in> set (book c d). x \<noteq> s \<and> is_draft x} \<union> (if is_draft (f s) then {fr_version (f s)} else {}),
     vw_open = open_slot ` {x \<in> set (book c d). x \<noteq> s \<and> is_open x} \<union> (if is_open (f s) then {open_slot (f s)} else {}),
     vw_in_force = fr_version ` {x \<in> set (book c d). x \<noteq> s \<and> fr_status x = ''vigente''}
        \<union> (if fr_status (f s) = ''vigente'' then {fr_version (f s)} else {})\<rparr>"
  unfolding view_def update_set_slot [OF assms] image_Un by simp

text \<open>The slots hold one row at most.\<close>

lemma slot_alone:
  assumes "\<And>x. x \<in> A \<Longrightarrow> P x \<Longrightarrow> x = s" "s \<in> A" "P s"
  shows "{x \<in> A. x \<noteq> s \<and> P x} = {}" "{x \<in> A. P x} = {s}"
  using assms by blast+

lemma slot_other: "\<not> P s \<Longrightarrow> {x \<in> A. x \<noteq> s \<and> P x} = {x \<in> A. P x}"
  by auto

lemma closed_simps [simp]:
  "\<not> is_open (discarded t msg s)" "fr_status (discarded t msg s) = ''descartada''" "fr_version (discarded t msg s) = fr_version s"
  "is_open (submitted t ch s)" "fr_status (submitted t ch s) = ''pendiente''" "fr_version (submitted t ch s) = fr_version s"
  "is_open (in_review t s)" "fr_status (in_review t s) = ''en_revision''" "fr_version (in_review t s) = fr_version s"
  "\<not> is_open (activated t s)" "fr_status (activated t s) = ''vigente''" "fr_version (activated t s) = fr_version s"
  "\<not> is_open (superseded t s)" "fr_status (superseded t s) = ''reemplazada''" "fr_version (superseded t s) = fr_version s"
  by (simp_all add: is_open_def OPEN_def discarded_def submitted_def in_review_def activated_def superseded_def)

lemma status_apart:
  "is_draft s \<Longrightarrow> \<not> is_open s" "fr_status s = ''vigente'' \<Longrightarrow> \<not> is_open s" "fr_status s = ''pendiente'' \<Longrightarrow> is_open s"
  by (simp_all add: is_open_def OPEN_def)

lemma one_draft: "book_ok sha256 (book c d) \<Longrightarrow> x \<in> set (book c d) \<Longrightarrow> s \<in> set (book c d) \<Longrightarrow> is_draft x \<Longrightarrow> is_draft s \<Longrightarrow> x = s"
  unfolding book_ok_def by blast

lemma draft_slot:
  assumes "book_ok sha256 (book c d)" "s \<in> set (book c d)" "is_draft s"
  shows "{x \<in> set (book c d). x \<noteq> s \<and> is_draft x} = {}" "{x \<in> set (book c d). is_draft x} = {s}"
  using slot_alone [of "set (book c d)" is_draft s] one_draft [OF assms(1)] assms(2,3) by blast+

lemma open_slots:
  assumes "keys_ok d" "s \<in> set (book c d)" "is_open s"
  shows "{x \<in> set (book c d). x \<noteq> s \<and> is_open x} = {}" "{x \<in> set (book c d). is_open x} = {s}"
  using slot_alone [of "set (book c d)" is_open s] one_open [OF assms(1)] assms(2,3) by blast+

lemma discard_draft_view:
  assumes "keys_ok d" "book_ok sha256 (book c d)" "s \<in> set (book c d)" "is_draft s"
    "update_set c (rid s) (discarded t msg) d = Inr d'"
  shows "view c d' = (view c d)\<lparr>vw_draft := {}\<rparr>" "vw_draft (view c d) = {fr_version s}"
  using draft_slot [OF assms(2-4)] assms(4) status_apart(1) [OF assms(4)]
  unfolding update_set_view [OF assms(1,5,3) refl] by (simp_all add: view_def slot_other del: Collect_empty_eq)

lemma discard_open_view:
  assumes "keys_ok d" "s \<in> set (book c d)" "is_open s" "update_set c (rid s) (discarded t msg) d = Inr d'"
  shows "view c d' = (view c d)\<lparr>vw_open := {}\<rparr>" "vw_open (view c d) = {open_slot s}"
proof -
  have "\<not> is_draft s" "fr_status s \<noteq> ''vigente''" using assms(3) status_apart by blast+
  then show "view c d' = (view c d)\<lparr>vw_open := {}\<rparr>" "vw_open (view c d) = {open_slot s}"
    using open_slots [OF assms(1-3)] unfolding update_set_view [OF assms(1,4,2) refl] by (simp_all add: view_def slot_other del: Collect_empty_eq)
qed

lemma submit_view:
  assumes "keys_ok d" "book_ok sha256 (book c d)" "s \<in> set (book c d)" "is_draft s" "\<forall>x \<in> set (book c d). \<not> is_open x"
    "update_set c (rid s) (submitted t ch) d = Inr d'"
  shows "view c d' = (view c d)\<lparr>vw_draft := {}, vw_open := {(fr_version s, False)}\<rparr>"
proof -
  have "{x \<in> set (book c d). x \<noteq> s \<and> is_open x} = {}" using assms(5) by blast
  then show ?thesis
    using draft_slot [OF assms(2-4)] assms(4) unfolding update_set_view [OF assms(1,6,3) refl]
    by (simp add: view_def slot_other open_slot_def del: Collect_empty_eq)
qed

lemma review_view:
  assumes "keys_ok d" "s \<in> set (book c d)" "fr_status s = ''pendiente''" "update_set c (rid s) (in_review t) d = Inr d'"
  shows "view c d' = (view c d)\<lparr>vw_open := {(fr_version s, True)}\<rparr>" "vw_open (view c d) = {(fr_version s, False)}"
proof -
  have o: "is_open s" using assms(3) by (rule status_apart(3))
  show "view c d' = (view c d)\<lparr>vw_open := {(fr_version s, True)}\<rparr>" "vw_open (view c d) = {(fr_version s, False)}"
    using open_slots [OF assms(1,2) o] assms(3) unfolding update_set_view [OF assms(1,4,2) refl]
    by (simp_all add: view_def slot_other open_slot_def del: Collect_empty_eq)
qed

lemma activate_view:
  assumes "keys_ok d" "s \<in> set (book c d)" "fr_status s = ''pendiente''" "\<forall>x \<in> set (book c d). fr_status x \<noteq> ''vigente''"
    "update_set c (rid s) (activated t) d = Inr d'"
  shows "view c d' = (view c d)\<lparr>vw_open := {}, vw_in_force := {fr_version s}\<rparr>" "vw_open (view c d) = {(fr_version s, False)}"
proof -
  have "{x \<in> set (book c d). x \<noteq> s \<and> fr_status x = ''vigente''} = {}" using assms(4) by blast
  then show "view c d' = (view c d)\<lparr>vw_open := {}, vw_in_force := {fr_version s}\<rparr>" "vw_open (view c d) = {(fr_version s, False)}"
    using open_slots [OF assms(1,2) status_apart(3) [OF assms(3)]] assms(3) unfolding update_set_view [OF assms(1,5,2) refl]
    by (simp_all add: view_def slot_other open_slot_def del: Collect_empty_eq)
qed

text \<open>The rules in force are replaced before the new ones are put in their place.\<close>

lemma replaced_book:
  assumes "update_sets (\<lambda>s. ctx s = c \<and> fr_status s = ''vigente'') (superseded t) d = Inr d'"
  shows "view c d' = (view c d)\<lparr>vw_in_force := {}\<rparr>" "\<forall>x \<in> set (book c d'). fr_status x \<noteq> ''vigente''"
    "\<And>s. s \<in> set (book c d) \<Longrightarrow> fr_status s \<noteq> ''vigente'' \<Longrightarrow> s \<in> set (book c d')"
    "\<And>s. s \<in> set (book c d) \<Longrightarrow> fr_status s = ''vigente'' \<Longrightarrow> superseded t s \<in> set (book c d')"
proof -
  let ?g = "\<lambda>s. if ctx s = c \<and> fr_status s = ''vigente'' then superseded t s else s"
  have book: "set (book c d') = ?g ` set (book c d)" "length (book c d') = length (book c d)"
    unfolding evolves_tables(6) [OF update_sets_Inr [OF assms]] set_map length_map by (rule refl)+
  have ctx: "ctx s = c" if "s \<in> set (book c d)" for s using in_bookD [OF that] by simp
  show none: "\<forall>x \<in> set (book c d'). fr_status x \<noteq> ''vigente''"
    unfolding book(1)
  proof (intro ballI, elim imageE)
    fix x y assume "x = ?g y" "y \<in> set (book c d)"
    with ctx [of y] show "fr_status x \<noteq> ''vigente''" by (cases "fr_status y = ''vigente''") simp_all
  qed
  show kept: "s \<in> set (book c d')" if "s \<in> set (book c d)" "fr_status s \<noteq> ''vigente''" for s
    unfolding book(1) using that by (intro image_eqI [OF _ that(1)]) simp
  show "superseded t s \<in> set (book c d')" if "s \<in> set (book c d)" "fr_status s = ''vigente''" for s
    unfolding book(1) using that ctx [OF that(1)] by (intro image_eqI [OF _ that(1)]) simp
  have old: "s \<in> set (book c d)" if s: "s \<in> set (book c d')" "fr_status s \<noteq> ''reemplazada''" for s
  proof -
    obtain y where y: "y \<in> set (book c d)" "s = ?g y" using s(1) unfolding book(1) by blast
    then show ?thesis using ctx [OF y(1)] s(2) by (cases "fr_status y = ''vigente''") simp_all
  qed
  have same: "{x \<in> set (book c d'). P x} = {x \<in> set (book c d). P x}"
    if "\<And>x. P x \<Longrightarrow> fr_status x \<noteq> ''vigente'' \<and> fr_status x \<noteq> ''reemplazada''" for P
    using that kept old by blast
  have "{x \<in> set (book c d'). is_open x} = {x \<in> set (book c d). is_open x}"
    by (rule same) (simp add: is_open_def OPEN_def, elim disjE, simp_all)
  moreover have "{x \<in> set (book c d'). is_draft x} = {x \<in> set (book c d). is_draft x}" by (rule same) simp
  moreover have "{x \<in> set (book c d'). fr_status x = ''vigente''} = {}" using none by blast
  ultimately show "view c d' = (view c d)\<lparr>vw_in_force := {}\<rparr>"
    by (simp add: view_def book(2) del: Collect_empty_eq)
qed

lemma settle_view:
  assumes keys: "keys_ok d" and s: "settle_rules c i t d = Inr (True, d')"
  obtains k where "vw_open (view c d) = {(k, False)}" "view c d' = (view c d)\<lparr>vw_open := {}, vw_in_force := {k}\<rparr>"
  using s
proof (cases rule: settle_cases)
  case (settles d1)
  then obtain x where x: "x \<in> set (book c d)" "rid x = i" "fr_status x = ''pendiente''" by blast
  note r = replaced_book [OF settles(5)]
  have keys1: "keys_ok d1" by (rule evolves_keys [OF update_sets_Inr [OF settles(5)] keys])
  have x1: "x \<in> set (book c d1)" using r(3) [OF x(1)] x(3) by simp
  then have "find_row c (rid x) (ruleSets d1) \<noteq> None" by (auto simp: find_row_None in_context_def)
  then have u: "update_set c (rid x) (activated t) d1 = Inr d'" using settles(6) x(2) by (simp add: update_set_def)
  note a = activate_view [OF keys1 x1 x(3) r(2) u]
  show thesis by (rule that [of "fr_version x"]) (use a r(1) in \<open>simp_all\<close>)
qed simp

lemma insert_view:
  assumes "insert_set s d = Inr d'" "ctx s = c" "is_draft s" "\<forall>x \<in> set (book c d). \<not> is_draft x"
  shows "view c d' = (view c d)\<lparr>vw_versions := vw_versions (view c d) + 1, vw_draft := {fr_version s}\<rparr>"
    "vw_draft (view c d) = {}"
proof -
  have book: "book c d' = book c d @ [s]" using insert_set_Inr(1) [OF assms(1)] assms(2) by (simp add: in_context_def)
  have "{x. (x = s \<or> x \<in> set (book c d)) \<and> is_draft x} = {s}" "{x \<in> set (book c d). is_draft x} = {}"
    using assms(3,4) by blast+
  moreover have "{x. (x = s \<or> x \<in> set (book c d)) \<and> P x} = {x \<in> set (book c d). P x}" if "\<not> P s" for P
    using that by blast
  moreover have "\<not> is_open s" "fr_status s \<noteq> ''vigente''" using assms(3) by (simp_all add: status_apart)
  ultimately show "view c d' = (view c d)\<lparr>vw_versions := vw_versions (view c d) + 1, vw_draft := {fr_version s}\<rparr>"
    "vw_draft (view c d) = {}"
    by (simp_all add: view_def book del: Collect_empty_eq)
qed

lemma createDraft_cycle:
  assumes "book_ok sha256 (book c d)" "act_contextId actor = c" "\<forall>x \<in> set (book c d). \<not> is_draft x"
    "createDraft actor i now config h b d = Inr d'"
  shows "life_cycle (view c d) (view c d')"
proof -
  let ?s = "new_draft actor i now config h b (next_version c (ruleSets d))"
  have ins: "insert_set ?s d = Inr d'" using assms(2,4) by (simp add: createDraft_def)
  have s: "ctx ?s = c" "is_draft ?s" "fr_version ?s = int (length (book c d)) + 1"
    using next_version_book [OF assms(1)] assms(2) by (simp_all add: new_draft_def)
  have n: "vw_versions (view c d) = int (length (book c d))" by (simp add: view_def)
  show ?thesis
    unfolding insert_view(1) [OF ins s(1,2) assms(3)] s(3) n [symmetric]
    by (rule life_cycle.drafted [OF insert_view(2) [OF ins s(1,2) assms(3)]])
qed

section \<open>The requests follow the life cycle\<close>

lemma same_view: "evolves g d d' \<Longrightarrow> (\<And>s. fr_status (g s) = fr_status s) \<Longrightarrow> view c d' = view c d"
proof -
  assume e: "evolves g d d'" and st: "\<And>s. fr_status (g s) = fr_status s"
  have v: "fr_version (g s) = fr_version s" if "s \<in> set (book c d)" for s
    by (rule guard_simps(3) [OF evolves_tables(8) [OF e that]])
  have "F ` {x \<in> set (book c d'). P x} = F ` {x \<in> set (book c d). P x}"
    if "\<And>x. P (g x) = P x" "\<And>x. x \<in> set (book c d) \<Longrightarrow> F (g x) = F x" for P and F :: "rule_set \<Rightarrow> 'b"
  proof -
    have "{x \<in> set (book c d'). P x} = g ` {x \<in> set (book c d). P x}"
      unfolding evolves_tables(6) [OF e] set_map using that(1) by blast
    moreover have "F ` g ` {x \<in> set (book c d). P x} = F ` {x \<in> set (book c d). P x}"
      unfolding image_image by (rule image_cong) (use that(2) in simp_all)
    ultimately show ?thesis by simp
  qed
  from this [of is_draft fr_version] this [of is_open open_slot] this [of "\<lambda>s. fr_status s = ''vigente''" fr_version]
  show "view c d' = view c d"
    using st v by (simp add: view_def evolves_tables(6) [OF e] is_open_def open_slot_def)
qed

lemma settle_cycle:
  assumes "keys_ok d" "settle_rules c i t d = Inr (b, d')"
  shows "view c d' = view c d \<or> life_cycle (view c d) (view c d')"
proof (cases b)
  case True
  then have "settle_rules c i t d = Inr (True, d')" using assms(2) by simp
  from settle_view [OF assms(1) this] show ?thesis by (metis life_cycle.agreed)
next
  case False
  with assms(2) show ?thesis by (cases rule: settle_cases) simp_all
qed

lemma discard_Inr:
  assumes "discard actor i now d = (Inr r, d')" "act_contextId actor = c"
  obtains s d1 msg where "s \<in> set (book c d)" "rid s = i" "is_draft s \<or> is_open s"
    "update_set c i (discarded now msg) d = Inr d1" "d' = retire_links c (\<lambda>l. lk_ruleSetId l = i) now d1"
proof (cases "lockRow c i d")
  case (Inr s)
  with assms have st: "is_draft s \<or> is_open s"
    unfolding discard_def transaction_def by (simp split: if_splits)
  let ?msg = "''Descartada por '' @ nameOf d c (acting actor) @ ''.''"
  show thesis
  proof (cases "update_set c i (discarded now ?msg) d")
    case u: (Inr d1)
    with assms Inr st have "d' = retire_links c (\<lambda>l. lk_ruleSetId l = i) now d1"
      unfolding discard_def transaction_def by (auto split: if_splits)
    with that lockRow_Inr [OF Inr] st u show thesis by blast
  qed (use assms Inr st in \<open>simp add: discard_def transaction_def split: if_splits\<close>)
qed (use assms in \<open>simp add: discard_def transaction_def\<close>)

lemma discard_cycle:
  assumes inv: "rules_inv sha256 c (d, lk)" and c: "act_contextId actor = c" and out: "discard actor i now d = (out, d')"
  shows "view c d' = view c d \<or> life_cycle (view c d) (view c d')"
proof (cases out)
  case (Inr r)
  note keys = rules_invD(1) [OF inv] and book = rules_invD(2) [OF inv]
  from out [unfolded Inr] c show ?thesis
  proof (cases rule: discard_Inr)
    case (1 s d1 msg)
    have v: "view c d' = view c d1" unfolding 1(5) by (rule view_book) (simp add: retire_links_def)
    from 1(3) show ?thesis
    proof
      assume "is_draft s"
      from discard_draft_view [OF keys book 1(1) this 1(4) [folded 1(2)]] show ?thesis
        unfolding v by (metis life_cycle.draft_dropped)
    next
      assume "is_open s"
      from discard_open_view [OF keys 1(1) this 1(4) [folded 1(2)]] show ?thesis
        unfolding v open_slot_def by (metis life_cycle.proposal_dropped)
    qed
  qed
next
  case (Inl e)
  have "d' = d" by (rule transaction_error [OF out [unfolded discard_def Inl]])
  then show ?thesis by simp
qed

lemma resend_cycle:
  assumes inv: "rules_inv sha256 c (d, lk)" and c: "act_contextId actor = c"
    and out: "resend_tx sha256 fresh actor i now t d = (out, d')"
  shows "view c d' = view c d \<or> life_cycle (view c d) (view c d')"
proof (cases out)
  case (Inr r)
  from out [unfolded Inr] c show ?thesis
  proof (cases rule: resend_Inr)
    case (1 b d1)
    have "view c d' = view c d1"
      using 1(3,4) relinks_tables(1) [OF relinks_resend] by (cases b) (auto intro: view_book)
    with settle_cycle [OF rules_invD(1) [OF inv] 1(1)] show ?thesis by simp
  qed
next
  case (Inl e)
  have "d' = d" by (rule transaction_error [OF out [unfolded resend_tx_def Inl]])
  then show ?thesis by simp
qed

lemma insert_approval_tables:
  assumes "insert_approval a d = Inr d1"
  shows "ruleSets d1 = ruleSets d" "ruleLinks d1 = ruleLinks d" "members d1 = members d" "ruleObjections d1 = ruleObjections d"
    "ruleApprovals d1 = ruleApprovals d @ [a]"
  using assms unfolding insert_approval_def by (auto dest: insert_row_Inr split: sum.splits if_splits)

lemma insert_objection_tables:
  assumes "insert_objection x d = Inr d1"
  shows "ruleSets d1 = ruleSets d" "ruleLinks d1 = ruleLinks d" "members d1 = members d" "ruleApprovals d1 = ruleApprovals d"
    "ruleObjections d1 = ruleObjections d @ [x]"
  using assms unfolding insert_objection_def by (auto dest: insert_row_Inr split: sum.splits if_splits)

lemma record_answer_Inr [consumes 1, case_names approve object]:
  assumes "record_answer l s decision reason k t d = Inr (result, d')"
  obtains (approve) d1 b where "decision = Approve" "insert_approval (approval_of l s k t) d = Inr d1"
      "settle_rules (ctx l) (lk_ruleSetId l) t (use_link (rid l) t d1) = Inr (b, d')" "result = (if b then ''vigente'' else ''aprobada'')"
  | (object) d1 where "decision = Object" "insert_objection (objection_of l reason k t) d = Inr d1"
      "update_sets (\<lambda>s. rid s = lk_ruleSetId l \<and> ctx s = ctx l) (in_review t) (use_link (rid l) t d1) = Inr d'" "result = ''objetada''"
  using assms unfolding record_answer_def
  by (auto split: decision.splits sum.splits prod.splits)

lemma keys_use: "keys_ok d \<Longrightarrow> ruleSets d1 = ruleSets d \<Longrightarrow> ruleLinks d1 = ruleLinks d \<Longrightarrow> keys_ok (use_link k t d1)"
  using use_link_tables(1,5,6) [of k t d1] unfolding keys_ok_def by simp

lemma respond_cycle:
  assumes inv: "rules_inv sha256 c (d, lk)" and l: "l \<in> set (ruleLinks d)" "lk_tokenHash l = sha256 token" "ctx l = c"
    and out: "respond sha256 token decision reason k t d = (out, d')"
  shows "view c d' = view c d \<or> life_cycle (view c d) (view c d')"
  using out
proof (cases rule: respond_cases)
  case (recorded l' s r result)
  note keys = rules_invD(1) [OF inv]
  have same: "l' = l" using recorded(1) find_token [OF keys l(1,2)] by simp
  have s: "s \<in> set (book c d)" "rid s = lk_ruleSetId l" using find_row_book [OF recorded(2)] same l(3) by simp_all
  from recorded(6) show ?thesis
  proof (cases rule: record_answer_Inr)
    case (approve d1 b)
    note tables = insert_approval_tables [OF approve(2)]
    have "view c (use_link (rid l) t d1) = view c d" by (rule view_book) (simp add: tables)
    with settle_cycle [OF keys_use [OF keys tables(1,2)] approve(3) [unfolded same l(3)]] show ?thesis by simp
  next
    case (object d1)
    note tables = insert_objection_tables [OF object(2)]
    have b: "book c (use_link (rid l) t d1) = book c d" by (simp add: tables)
    then have "find_row c (rid s) (ruleSets (use_link (rid l) t d1)) \<noteq> None"
      using s(1) unfolding find_row_None in_context_def by (auto simp: tables)
    then have u: "update_set c (rid s) (in_review t) (use_link (rid l) t d1) = Inr d'"
      using object(3) same l(3) s(2) by (simp add: update_set_def)
    from review_view [OF keys_use [OF keys tables(1,2)] s(1) [folded b] recorded(4) u] show ?thesis
      unfolding view_book [OF b] by (metis life_cycle.objected)
  qed
qed simp

lemma save_cycle:
  assumes inv: "rules_inv sha256 c (d, Some (SavingDraft actor plan))" and w: "saveDraft_writes actor plan d = Inr (r, d')"
  shows "view c d' = view c d \<or> life_cycle (view c d) (view c d')"
proof -
  have lk: "act_contextId actor = c" using rules_invD(5) [OF inv] by simp
  show ?thesis
  proof (cases "dp_open plan")
    case None
    then have none: "\<forall>s \<in> set (book c d). \<not> is_draft s" using rules_invD(5) [OF inv] by simp
    obtain i now config h b where "createDraft actor i now config h b d = Inr d'"
      using w None unfolding saveDraft_writes_def by (auto split: sum.splits)
    from createDraft_cycle [OF rules_invD(2) [OF inv] lk none this] show ?thesis ..
  next
    case (Some s0)
    then obtain f where u: "update_set c (rid s0) f d = Inr d'" and f: "\<And>s. fr_status (f s) = fr_status s"
      using w lk unfolding saveDraft_writes_def by (auto split: sum.splits)
    have "view c d' = view c d" by (rule same_view [OF update_set_Inr(1) [OF u]]) (simp add: f)
    then show ?thesis ..
  qed
qed

lemma modify_cycle:
  assumes inv: "rules_inv sha256 c (d, Some (Modifying actor k now row))" and w: "modify_writes actor k now row d = Inr (r, d')"
  shows "life_cycle (view c d) (view c d')"
proof -
  have lk: "act_contextId actor = c" and none: "\<forall>s \<in> set (book c d). \<not> is_draft s" using rules_invD(5) [OF inv] by simp_all
  obtain i now config h b where "createDraft actor i now config h b d = Inr d'"
    using w unfolding modify_writes_def by (auto split: sum.splits)
  then show ?thesis by (rule createDraft_cycle [OF rules_invD(2) [OF inv] lk none])
qed

text \<open>What the look at the locked proposal finds: the open one, or that there is none.\<close>

lemma open_now_cases:
  assumes inv: "rules_inv sha256 c (d, Some (Submitting actor i now plan))" and o: "open_now c plan d = Inr prev"
  shows "case prev of None \<Rightarrow> \<forall>s \<in> set (book c d). \<not> is_open s | Some s \<Rightarrow> s \<in> set (book c d) \<and> is_open s"
proof (cases "sp_found plan")
  case None
  then have "prev = None" using o by (simp add: open_now_def)
  then show ?thesis using None rules_invD(5) [OF inv] by auto
next
  case (Some j)
  then obtain s where s: "lockRow c j d = Inr s" "prev = (if is_open s then Some s else None)"
    using o by (auto simp: open_now_def openAfterLock_def split: sum.splits)
  have "x = s" if "x \<in> set (book c d)" "is_open x" for x
  proof -
    have "rid x = rid s" using that Some rules_invD(5) [OF inv] lockRow_Inr [OF s(1)] by simp
    then show ?thesis using book_id [OF rules_invD(1) [OF inv] that(1)] lockRow_Inr [OF s(1)] by blast
  qed
  with s lockRow_Inr [OF s(1)] show ?thesis by auto
qed

lemma update_set_kept:
  assumes "update_set c i f d = Inr d'" "s \<in> set (book c d)" "rid s \<noteq> i"
  shows "s \<in> set (book c d')"
  unfolding evolves_tables(6) [OF update_set_Inr(1) [OF assms(1)]] set_map
  by (rule image_eqI [OF _ assms(2)]) (simp add: assms(3))

lemma replace_open_view:
  assumes inv: "rules_inv sha256 c (d, Some (Submitting actor i now plan))" and o: "open_now c plan d = Inr prev"
    and u: "replace_open c now (sp_row plan) prev d = Inr d1"
  shows "view c d1 = (view c d)\<lparr>vw_open := {}\<rparr>" "sp_row plan \<in> set (book c d1)" "\<forall>x \<in> set (book c d1). \<not> is_open x"
proof -
  note keys = rules_invD(1) [OF inv]
  have row: "sp_row plan \<in> set (book c d)" "is_draft (sp_row plan)" using rules_invD(5) [OF inv] by simp_all
  have "view c d1 = (view c d)\<lparr>vw_open := {}\<rparr> \<and> sp_row plan \<in> set (book c d1)"
  proof (cases prev)
    case None
    then have "{x \<in> set (book c d). is_open x} = {}" "d1 = d" using open_now_cases [OF inv o] u by (auto simp: replace_open_def)
    then show ?thesis using row by (simp add: view_def del: Collect_empty_eq)
  next
    case (Some s)
    then have s: "s \<in> set (book c d)" "is_open s" using open_now_cases [OF inv o] by simp_all
    obtain msg where u: "update_set c (rid s) (discarded now msg) d = Inr d1" using u Some by (auto simp: replace_open_def)
    have "rid (sp_row plan) \<noteq> rid s" using book_id [OF keys row(1) s(1)] row(2) s(2) status_apart(1) by blast
    then show ?thesis using discard_open_view(1) [OF keys s u] update_set_kept [OF u row(1)] by blast
  qed
  then show "view c d1 = (view c d)\<lparr>vw_open := {}\<rparr>" "sp_row plan \<in> set (book c d1)" by blast+
  then have "open_slot ` {x \<in> set (book c d1). is_open x} = {}" by (simp add: view_def)
  then show "\<forall>x \<in> set (book c d1). \<not> is_open x" by blast
qed

lemma submit_cycle:
  assumes inv: "rules_inv sha256 c (d, Some (Submitting actor i now plan))"
    and w: "submit_writes sha256 money fresh actor i now plan d = Inr (r, d')"
  shows "life_cycle (view c d) (view c d')"
proof -
  have c: "act_contextId actor = c" and row: "sp_row plan \<in> set (book c d)" "rid (sp_row plan) = i" "is_draft (sp_row plan)"
    using rules_invD(5) [OF inv] by simp_all
  from w c show ?thesis
  proof (cases rule: submit_writes_Inr)
    case (1 prev d1 d2 ls)
    note r = replace_open_view [OF inv 1(1,3)]
    have "rules_inv sha256 c (d1, None)" by (rule replace_open_inv [OF inv_unlock [OF inv] 1(3)]) simp
    from submit_view [OF rules_invD(1,2) [OF this] r(2) row(3) r(3) 1(4) [folded row(2)]]
    have "view c d2 = (view c d)\<lparr>vw_draft := {}, vw_open := {(fr_version (sp_row plan), False)}\<rparr>" unfolding r(1) by simp
    moreover have "view c d' = view c d2" by (rule view_book) (simp add: relinks_tables(1) [OF relinks_issue_all [OF 1(5)]])
    moreover have "vw_draft (view c d) = {fr_version (sp_row plan)}"
      using draft_slot(2) [OF rules_invD(2) [OF inv] row(1,3)] by (simp add: view_def)
    ultimately show ?thesis using life_cycle.sent by simp
  qed
qed

text \<open>C33: the requests implement the life cycle of the documentation. Every commit of a request of the business,
  in any interleaving, leaves what the partners see as it was or takes one step of the life cycle: a draft
  is made only when there is none, submitting one replaces the open proposal, an objection sends it to review,
  the approval of all puts it in force in place of the old rules, and a draft or a proposal can be dropped.\<close>

theorem rules_follow_life_cycle:
  assumes "rules_step sha256 money c x x'" "rules_inv sha256 c x"
  shows "view c (fst x') = view c (fst x) \<or> life_cycle (view c (fst x)) (view c (fst x'))"
  using assms
proof (induction rule: rules_step.induct)
  case (save_writes actor plan d r d')
  from save_cycle [OF save_writes(3,2)] show ?case by simp
next
  case (submit_writes actor fresh i now plan d r d')
  from submit_cycle [OF submit_writes(3,2)] show ?case by simp
next
  case (modify_writes actor k now row d r d')
  from modify_cycle [OF modify_writes(3,2)] show ?case by simp
next
  case (discard actor lk i now d out d')
  from discard_cycle [OF discard(4,1,3)] show ?case by simp
next
  case (resend actor lk i fresh now t d out d')
  from resend_cycle [OF resend(4,1,3)] show ?case by simp
next
  case (respond l d token lk decision reason k t out d')
  from respond_cycle [OF respond(6,1-3,5)] show ?case by simp
next
  case (deliver d lk ok now i)
  have "view c (deliver_one c ok now i d) = view c d" by (rule view_book) (simp add: deliver_one_def)
  then show ?case by simp
next
  case (elsewhere d d' lk)
  then have "view c d' = view c d" by (intro view_book) (simp add: same_books_def)
  then show ?case by simp
qed simp_all

section \<open>In force\<close>

text \<open>Nothing but settling puts rules in force.\<close>

definition no_new_force :: "string \<Rightarrow> db \<Rightarrow> db \<Rightarrow> bool" where
  "no_new_force c d d' \<longleftrightarrow> (\<forall>s' \<in> set (book c d'). fr_status s' = ''vigente''
     \<longrightarrow> (\<exists>s \<in> set (book c d). rid s = rid s' \<and> fr_status s = ''vigente''))"

lemma no_new_force_trans: "no_new_force c d d1 \<Longrightarrow> no_new_force c d1 d2 \<Longrightarrow> no_new_force c d d2"
  unfolding no_new_force_def by metis

lemma no_new_force_same: "book c d' = book c d \<Longrightarrow> no_new_force c d d'"
  unfolding no_new_force_def by auto

lemma no_new_force_evolves:
  assumes e: "evolves g d d'" and "\<And>s. fr_status (g s) = ''vigente'' \<Longrightarrow> fr_status s = ''vigente''"
  shows "no_new_force c d d'"
  unfolding no_new_force_def evolves_tables(6) [OF e] set_map
  using assms(2) guard_simps(1) [OF evolves_tables(8) [OF e]] by (auto intro!: bexI)

lemma no_new_force_update:
  assumes "update_set c' i f d = Inr d'" "\<And>s. fr_status (f s) = ''vigente'' \<Longrightarrow> fr_status s = ''vigente''"
  shows "no_new_force c d d'"
  by (rule no_new_force_evolves [OF update_set_Inr(1) [OF assms(1)]]) (use assms(2) in \<open>simp split: if_splits\<close>)

lemma no_new_force_draft:
  assumes "createDraft actor i now config h b d = Inr d'"
  shows "no_new_force c d d'"
  using insert_set_Inr(1) [OF assms [unfolded createDraft_def]]
  by (auto simp: no_new_force_def in_context_def new_draft_def)

lemma no_new_force_save:
  assumes "saveDraft_writes actor plan d = Inr (r, d')"
  shows "no_new_force c d d'"
proof (cases "dp_open plan")
  case None
  with assms show ?thesis by (auto simp: saveDraft_writes_def split: sum.splits intro: no_new_force_draft)
next
  case (Some s0)
  then obtain f where u: "update_set (act_contextId actor) (rid s0) f d = Inr d'" and f: "\<And>s. fr_status (f s) = fr_status s"
    using assms unfolding saveDraft_writes_def by (auto split: sum.splits)
  show ?thesis by (rule no_new_force_update [OF u]) (simp add: f)
qed

lemma no_new_force_submit:
  assumes w: "submit_writes sha256 money fresh actor i now plan d = Inr (r, d')" and c: "act_contextId actor = c"
  shows "no_new_force c d d'"
  using w c
proof (cases rule: submit_writes_Inr)
  case (1 prev d1 d2 ls)
  have "no_new_force c d d1"
    using 1(3) by (cases prev) (auto simp: replace_open_def intro: no_new_force_same no_new_force_update)
  moreover have "no_new_force c d1 d2" by (rule no_new_force_update [OF 1(4)]) simp
  moreover have "no_new_force c d2 d'" by (rule no_new_force_same) (simp add: relinks_tables(1) [OF relinks_issue_all [OF 1(5)]])
  ultimately show ?thesis by (blast intro: no_new_force_trans)
qed

lemma no_new_force_discard:
  assumes out: "discard actor i now d = (out, d')"
  shows "no_new_force c d d'"
proof (cases out)
  case (Inr r)
  from out [unfolded Inr] refl show ?thesis
  proof (cases rule: discard_Inr)
    case (1 s d1 msg)
    have "no_new_force c d d1" by (rule no_new_force_update [OF 1(4)]) simp
    moreover have "no_new_force c d1 d'" unfolding 1(5) by (rule no_new_force_same) (simp add: retire_links_def)
    ultimately show ?thesis by (rule no_new_force_trans)
  qed
next
  case (Inl e)
  have "d' = d" by (rule transaction_error [OF out [unfolded discard_def Inl]])
  then show ?thesis by (simp add: no_new_force_same)
qed

text \<open>Settling puts the proposal in force when everybody approved it, and nothing else.\<close>

lemma settle_agreed:
  assumes s: "settle_rules c i t d = Inr (b, d')" and new: "\<not> no_new_force c d d'"
  shows "socios d c \<noteq> []" "\<And>m. m \<in> set (socios d c) \<Longrightarrow> approved_by d c i (rid m)"
    "\<And>x. x \<in> set (book c d') \<Longrightarrow> fr_status x = ''vigente'' \<Longrightarrow> rid x = i"
    "ruleApprovals d' = ruleApprovals d" "members d' = members d"
proof -
  have "\<exists>d1. socios d c \<noteq> [] \<and> (\<forall>m \<in> set (socios d c). approved_by d c i (rid m))
     \<and> update_sets (\<lambda>s. ctx s = c \<and> fr_status s = ''vigente'') (superseded t) d = Inr d1
     \<and> update_sets (\<lambda>s. rid s = i \<and> ctx s = c) (activated t) d1 = Inr d'"
    using s
  proof (cases rule: settle_cases)
    case waits
    with new show ?thesis by (simp add: no_new_force_same)
  qed blast
  then obtain d1 where r: "socios d c \<noteq> []" "\<forall>m \<in> set (socios d c). approved_by d c i (rid m)"
    and u1: "update_sets (\<lambda>s. ctx s = c \<and> fr_status s = ''vigente'') (superseded t) d = Inr d1"
    and u2: "update_sets (\<lambda>s. rid s = i \<and> ctx s = c) (activated t) d1 = Inr d'" by blast
  show "socios d c \<noteq> []" "\<And>m. m \<in> set (socios d c) \<Longrightarrow> approved_by d c i (rid m)" using r by blast+
  note e1 = update_sets_Inr [OF u1] and e2 = update_sets_Inr [OF u2]
  show "ruleApprovals d' = ruleApprovals d" "members d' = members d"
    by (simp_all add: evolves_tables(3,5) [OF e1] evolves_tables(3,5) [OF e2])
  show "rid x = i" if x: "x \<in> set (book c d')" "fr_status x = ''vigente''" for x
  proof -
    obtain y where y: "y \<in> set (book c d1)" "x = (if rid y = i \<and> ctx y = c then activated t y else y)"
      using x(1) unfolding evolves_tables(6) [OF e2] set_map by blast
    have "fr_status y \<noteq> ''vigente''" using replaced_book(2) [OF u1] y(1) by blast
    with y x(2) have "rid y = i" by (simp split: if_splits)
    moreover have "rid x = rid y" using guard_simps(1) [OF evolves_tables(8) [OF e2 y(1)]] y(2) by simp
    ultimately show ?thesis by simp
  qed
qed

definition agreed_by_all :: "(string \<Rightarrow> string) \<Rightarrow> string \<Rightarrow> db \<Rightarrow> rule_set \<Rightarrow> bool" where
  "agreed_by_all sha256 c d s \<longleftrightarrow> socios d c \<noteq> [] \<and> (\<forall>m \<in> set (socios d c). \<exists>a \<in> set (in_context c (ruleApprovals d)).
     ra_ruleSetId a = rid s \<and> ra_memberId a = rid m \<and> configHash sha256 (fr_config s) = Inr (ra_approvedHash a))"

lemma settle_agreed_by_all:
  assumes inv: "rules_inv sha256 c (d', lk)" and s: "settle_rules c i t d = Inr (b, d')" and new: "\<not> no_new_force c d d'"
    and x: "x \<in> set (book c d')" "fr_status x = ''vigente''"
  shows "agreed_by_all sha256 c d' x"
proof -
  note a = settle_agreed [OF s new]
  have rx: "rid x = i" by (rule a(3) [OF x])
  have so: "socios d' c = socios d c" using a(5) by (simp add: socios_def)
  have "\<exists>a \<in> set (in_context c (ruleApprovals d')). ra_ruleSetId a = rid x \<and> ra_memberId a = rid m
      \<and> configHash sha256 (fr_config x) = Inr (ra_approvedHash a)" if m: "m \<in> set (socios d c)" for m
  proof -
    obtain r where r: "r \<in> set (in_context c (ruleApprovals d'))" "ra_ruleSetId r = i" "ra_memberId r = rid m"
      using a(2) [OF m] a(4) unfolding approved_by_def in_context_def by auto
    then obtain y where y: "y \<in> set (book c d')" "rid y = i" "fr_configHash y = ra_approvedHash r"
      using rules_invD(3) [OF inv] unfolding approvals_ok_def by blast
    have "y = x" using book_id [OF rules_invD(1) [OF inv] y(1) x(1)] y(2) rx by simp
    with y rules_invD(2) [OF inv] have "configHash sha256 (fr_config x) = Inr (ra_approvedHash r)"
      unfolding book_ok_def by metis
    with r rx show ?thesis by (intro bexI [of _ r] conjI) simp_all
  qed
  then show ?thesis using a(1) unfolding agreed_by_all_def so by blast
qed

lemma no_new_force_resend:
  assumes inv: "rules_inv sha256 c (d', lk)" and c: "act_contextId actor = c"
    and out: "resend_tx sha256 fresh actor i now t d = (out, d')"
    and new: "\<not> no_new_force c d d'" and x: "x \<in> set (book c d')" "fr_status x = ''vigente''"
  shows "agreed_by_all sha256 c d' x"
proof (cases out)
  case (Inr r)
  from out [unfolded Inr] c show ?thesis
  proof (cases rule: resend_Inr)
    case (1 b d1)
    show ?thesis
    proof (cases b)
      case True
      with 1 have "settle_rules c i t d = Inr (b, d')" by simp
      from settle_agreed_by_all [OF inv this new x] show ?thesis .
    next
      case False
      from 1(1) False have "d1 = d" by (cases rule: settle_cases) simp_all
      with False 1(4) obtain row where "resend_writes sha256 fresh actor row now d = Inr (r, d')" by blast
      with new show ?thesis by (simp add: no_new_force_same relinks_tables(1) [OF relinks_resend])
    qed
  qed
next
  case (Inl e)
  have "d' = d" by (rule transaction_error [OF out [unfolded resend_tx_def Inl]])
  with new show ?thesis by (simp add: no_new_force_same)
qed

lemma no_new_force_respond:
  assumes inv': "rules_inv sha256 c (d', lk)" and keys: "keys_ok d"
    and l: "l \<in> set (ruleLinks d)" "lk_tokenHash l = sha256 token" "ctx l = c"
    and out: "respond sha256 token decision reason k t d = (out, d')"
    and new: "\<not> no_new_force c d d'" and x: "x \<in> set (book c d')" "fr_status x = ''vigente''"
  shows "agreed_by_all sha256 c d' x"
  using out
proof (cases rule: respond_cases)
  case (recorded l' s r result)
  have same: "l' = l" using recorded(1) find_token [OF keys l(1,2)] by simp
  from recorded(6) show ?thesis
  proof (cases rule: record_answer_Inr)
    case (approve d1 b)
    note tables = insert_approval_tables [OF approve(2)]
    have "no_new_force c d (use_link (rid l') t d1)" by (rule no_new_force_same) (simp add: tables)
    then have new1: "\<not> no_new_force c (use_link (rid l') t d1) d'" using new no_new_force_trans by blast
    show ?thesis by (rule settle_agreed_by_all [OF inv' approve(3) [unfolded same l(3), folded same] new1 x])
  next
    case (object d1)
    note tables = insert_objection_tables [OF object(2)]
    have "no_new_force c d (use_link (rid l') t d1)" by (rule no_new_force_same) (simp add: tables)
    moreover have "no_new_force c (use_link (rid l') t d1) d'"
      by (rule no_new_force_evolves [OF update_sets_Inr [OF object(3)]]) (simp split: if_splits)
    ultimately show ?thesis using new no_new_force_trans by blast
  qed
next
  case refused
  with new show ?thesis by (simp add: no_new_force_same)
qed

text \<open>C32: rules are in force only by the agreement of every partner on that exact text. When a commit puts a
  version in force, there is an active partner and each of them has an approval of that version which names
  the hash of its configuration; no other request, and no lost or repeated mail, can do it.\<close>

theorem in_force_is_agreed:
  assumes "rules_step sha256 money c x x'" "rules_inv sha256 c x"
    and "s \<in> set (book c (fst x'))" "fr_status s = ''vigente''"
    and "\<forall>s' \<in> set (book c (fst x)). rid s' = rid s \<longrightarrow> fr_status s' \<noteq> ''vigente''"
  shows "agreed_by_all sha256 c (fst x') s"
proof -
  have new: "\<not> no_new_force c (fst x) (fst x')" using assms(3-5) unfolding no_new_force_def by metis
  have inv': "rules_inv sha256 c x'" by (rule rules_step_inv [OF assms(1,2)])
  from assms(1,2) inv' new assms(3,4) show ?thesis
  proof (induction rule: rules_step.induct)
    case (resend actor lk i fresh now t d out d')
    from no_new_force_resend [OF resend(5,1,3)] resend(6-8) show ?case by simp
  next
    case (respond l d token lk decision reason k t out d')
    from no_new_force_respond [OF respond(7) rules_invD(1) [OF respond(6)] respond(1-3,5)] respond(8-10) show ?case by simp
  next
    case (submit_writes actor fresh i now plan d r d')
    from no_new_force_submit [OF submit_writes(2,1)] submit_writes(5) show ?case by simp
  next
    case (save_writes actor plan d r d')
    from no_new_force_save [OF save_writes(2)] save_writes(5) show ?case by simp
  next
    case (modify_writes actor k now row d r d')
    then have "no_new_force c d d'" unfolding modify_writes_def by (auto split: sum.splits intro: no_new_force_draft)
    with modify_writes(5) show ?case by simp
  next
    case (discard actor lk i now d out d')
    from no_new_force_discard [OF discard(3)] discard(6) show ?case by simp
  next
    case (deliver d lk ok now i)
    then show ?case by (simp add: no_new_force_same deliver_one_def)
  next
    case (elsewhere d d' lk)
    then show ?case by (simp add: no_new_force_same same_books_def)
  qed (simp_all add: no_new_force_same)
qed

end
