(* ===== verification/RuleAnswers.thy ===== *)
theory RuleAnswers
  imports RulesAgreed
begin

text \<open>
  What a partner who answers can rely on: a link answers once, the last approval puts the rules in force,
  and no request fails because it ran into a trigger or an index of the database.
\<close>

section \<open>Writes that succeed\<close>

lemma index_kept:
  assumes "distinct rows" "\<And>x. x \<in> set rows \<Longrightarrow> ctx (g x) = ctx x" "inj_on ctx {x \<in> set rows. P (g x)}"
  shows "distinct (map ctx (filter P (map g rows)))"
proof -
  have "map ctx (filter P (map g rows)) = map ctx (filter (P \<circ> g) rows)"
    unfolding filter_map map_map by (rule map_cong [OF refl]) (use assms(2) in simp)
  moreover have "inj_on ctx (set (filter (P \<circ> g) rows))" using assms(3) by simp
  ultimately show ?thesis using assms(1) by (simp add: distinct_map)
qed

lemma distinct_sets: "keys_ok d \<Longrightarrow> distinct (ruleSets d)"
  by (simp add: keys_ok_def distinct_map)

lemma keys_inj:
  assumes "keys_ok d"
  shows "inj_on ctx {x \<in> set (ruleSets d). is_open x}" "inj_on ctx {x \<in> set (ruleSets d). fr_status x = ''vigente''}"
  using assms unfolding keys_ok_def rule_set_indexes_def by (simp_all add: distinct_map)

lemma update_sets_ok:
  assumes keys: "keys_ok d" and g: "\<And>s. s \<in> set (ruleSets d) \<Longrightarrow> P s \<Longrightarrow> rule_set_guard s (f s)"
    and "inj_on ctx {x \<in> set (ruleSets d). is_open (if P x then f x else x)}"
    and "inj_on ctx {x \<in> set (ruleSets d). fr_status (if P x then f x else x) = ''vigente''}"
  shows "update_sets P f d = Inr (d\<lparr>ruleSets := map (\<lambda>s. if P s then f s else s) (ruleSets d)\<rparr>)"
proof -
  let ?g = "\<lambda>s. if P s then f s else s"
  have guard: "rule_set_guard s (?g s)" if "s \<in> set (ruleSets d)" for s using g that by simp
  have "map (\<lambda>s. (ctx s, fr_version s)) (map ?g (ruleSets d)) = map (\<lambda>s. (ctx s, fr_version s)) (ruleSets d)"
    unfolding map_map by (rule map_cong [OF refl]) (simp only: o_def guard_simps(2,3) [OF guard])
  moreover have "distinct (map (\<lambda>s. (ctx s, fr_version s)) (ruleSets d))" using keys by (simp add: keys_ok_def rule_set_indexes_def)
  moreover have "distinct (map ctx (filter is_open (map ?g (ruleSets d))))"
    by (rule index_kept [OF distinct_sets [OF keys] guard_simps(2) [OF guard] assms(3)])
  moreover have "distinct (map ctx [s \<leftarrow> map ?g (ruleSets d). fr_status s = ''vigente''])"
    by (rule index_kept [OF distinct_sets [OF keys] guard_simps(2) [OF guard] assms(4)])
  ultimately have "rule_set_indexes (map ?g (ruleSets d))" unfolding rule_set_indexes_def by (intro conjI) (simp_all only:)
  moreover have "list_all (\<lambda>s. P s \<longrightarrow> rule_set_guard s (f s)) (ruleSets d)" using g by (simp add: list_all_iff)
  ultimately show ?thesis by (simp add: update_sets_def)
qed

text \<open>A status that closes.\<close>

lemma update_sets_shrinks:
  assumes keys: "keys_ok d" and g: "\<And>s. s \<in> set (ruleSets d) \<Longrightarrow> P s \<Longrightarrow> rule_set_guard s (f s)"
    and "\<And>s. s \<in> set (ruleSets d) \<Longrightarrow> P s \<Longrightarrow> is_open (f s) \<Longrightarrow> is_open s"
    and "\<And>s. s \<in> set (ruleSets d) \<Longrightarrow> P s \<Longrightarrow> fr_status (f s) = ''vigente'' \<Longrightarrow> fr_status s = ''vigente''"
  shows "\<exists>d'. update_sets P f d = Inr d'"
proof -
  have "inj_on ctx {x \<in> set (ruleSets d). is_open (if P x then f x else x)}"
    by (rule inj_on_subset [OF keys_inj(1) [OF keys]]) (use assms(3) in \<open>auto split: if_splits\<close>)
  moreover have "inj_on ctx {x \<in> set (ruleSets d). fr_status (if P x then f x else x) = ''vigente''}"
    by (rule inj_on_subset [OF keys_inj(2) [OF keys]]) (use assms(4) in \<open>auto split: if_splits\<close>)
  ultimately show ?thesis using update_sets_ok [OF keys g] by blast
qed

lemma guard_moves:
  "is_draft s \<or> is_open s \<Longrightarrow> rule_set_guard s (discarded t msg s)"
  "is_draft s \<Longrightarrow> rule_set_guard s (submitted t ch s)"
  "fr_status s = ''pendiente'' \<Longrightarrow> rule_set_guard s (in_review t s)"
  "fr_status s = ''pendiente'' \<Longrightarrow> rule_set_guard s (activated t s)"
  "fr_status s = ''vigente'' \<Longrightarrow> rule_set_guard s (superseded t s)"
  by (auto simp: rule_set_guard_def allowed_transition_def is_open_def OPEN_def discarded_def submitted_def
      in_review_def activated_def superseded_def)

lemma only_row:
  assumes "keys_ok d" "s \<in> set (book c d)" "x \<in> set (ruleSets d)" "rid x = rid s"
  shows "x = s"
  using assms in_bookD [OF assms(2)] unfolding keys_ok_def by (metis distinct_map inj_onD)

lemma find_row_Some_book: "keys_ok d \<Longrightarrow> s \<in> set (book c d) \<Longrightarrow> find_row c (rid s) (ruleSets d) = Some s"
  using find_row_distinct [of "ruleSets d" s "rid s" c] in_bookD [of s c d] unfolding keys_ok_def by simp

lemma update_set_row:
  assumes "keys_ok d" "s \<in> set (book c d)"
  shows "update_set c (rid s) f d = update_sets (\<lambda>x. rid x = rid s \<and> ctx x = c) f d"
  using find_row_Some_book [OF assms] by (simp add: update_set_def)

lemma discard_update:
  assumes "keys_ok d" "s \<in> set (book c d)" "is_draft s \<or> is_open s"
  shows "\<exists>d'. update_set c (rid s) (discarded t msg) d = Inr d'"
  unfolding update_set_row [OF assms(1,2)]
proof (rule update_sets_shrinks [OF assms(1)])
  fix x assume "x \<in> set (ruleSets d)" "rid x = rid s \<and> ctx x = c"
  then have "x = s" using only_row [OF assms(1,2)] by blast
  with assms(3) show "rule_set_guard x (discarded t msg x)" by (simp add: guard_moves(1))
qed simp_all

lemma review_update:
  assumes "keys_ok d" "s \<in> set (book c d)" "fr_status s = ''pendiente''"
  shows "\<exists>d'. update_sets (\<lambda>x. rid x = rid s \<and> ctx x = c) (in_review t) d = Inr d'"
proof (rule update_sets_shrinks [OF assms(1)])
  fix x assume "x \<in> set (ruleSets d)" "rid x = rid s \<and> ctx x = c"
  then have x: "x = s" using only_row [OF assms(1,2)] by blast
  with assms(3) show "rule_set_guard x (in_review t x)" by (simp add: guard_moves(3))
  show "is_open x" using x status_apart(3) [OF assms(3)] by simp
qed simp_all

lemma switched_rows:
  assumes "\<And>x. x \<in> A \<Longrightarrow> P x \<longleftrightarrow> x = s"
  shows "{x \<in> A. Q (if P x then f x else x)} \<subseteq> insert s {x \<in> A. Q x}"
proof
  fix x assume x: "x \<in> {x \<in> A. Q (if P x then f x else x)}"
  then show "x \<in> insert s {x \<in> A. Q x}" using assms [of x] by (cases "P x") simp_all
qed

lemma submit_update:
  assumes keys: "keys_ok d" and s: "s \<in> set (book c d)" "is_draft s" and none: "\<forall>x \<in> set (book c d). \<not> is_open x"
  shows "\<exists>d'. update_set c (rid s) (submitted t ch) d = Inr d'"
proof -
  let ?P = "\<lambda>x. rid x = rid s \<and> ctx x = c"
  let ?g = "\<lambda>x. if ?P x then submitted t ch x else x"
  have only: "?P x \<longleftrightarrow> x = s" if "x \<in> set (ruleSets d)" for x
    using only_row [OF keys s(1) that] in_bookD [OF s(1)] by auto
  have "{x \<in> set (ruleSets d). is_open (?g x)} \<subseteq> insert s {x \<in> set (ruleSets d). is_open x}"
    by (rule switched_rows) (rule only)
  moreover have "inj_on ctx (insert s {x \<in> set (ruleSets d). is_open x})"
    using keys_inj(1) [OF keys] none in_bookD [OF s(1)] by (auto simp: in_context_def)
  ultimately have a: "inj_on ctx {x \<in> set (ruleSets d). is_open (?g x)}" by (rule inj_on_subset [rotated])
  have b: "inj_on ctx {x \<in> set (ruleSets d). fr_status (?g x) = ''vigente''}"
    by (rule inj_on_subset [OF keys_inj(2) [OF keys]]) (auto split: if_splits)
  have g: "rule_set_guard x (submitted t ch x)" if "x \<in> set (ruleSets d)" "?P x" for x
    using only [OF that(1)] that(2) s(2) by (simp add: guard_moves(2))
  show ?thesis unfolding update_set_row [OF keys s(1)] by (rule exI, rule update_sets_ok [OF keys g a b])
qed

text \<open>Settling never fails.\<close>

lemma settle_total:
  assumes keys: "keys_ok d"
  shows "\<exists>b d'. settle_rules c i t d = Inr (b, d')"
proof (cases "(\<exists>s \<in> set (ruleSets d). rid s = i \<and> ctx s = c \<and> fr_status s = ''pendiente'') \<and> socios d c \<noteq> []
    \<and> (\<forall>m \<in> set (socios d c). approved_by d c i (rid m))")
  case True
  then obtain s where s: "s \<in> set (book c d)" "rid s = i" "fr_status s = ''pendiente''" by (auto simp: in_context_def)
  have "\<exists>d1. update_sets (\<lambda>s. ctx s = c \<and> fr_status s = ''vigente'') (superseded t) d = Inr d1"
    by (rule update_sets_shrinks [OF keys]) (simp_all add: guard_moves(5))
  then obtain d1 where u: "update_sets (\<lambda>s. ctx s = c \<and> fr_status s = ''vigente'') (superseded t) d = Inr d1" ..
  note r = replaced_book [OF u]
  have keys1: "keys_ok d1" by (rule evolves_keys [OF update_sets_Inr [OF u] keys])
  have s1: "s \<in> set (book c d1)" using r(3) [OF s(1)] s(3) by simp
  let ?P = "\<lambda>x. rid x = i \<and> ctx x = c"
  have only: "?P x \<longleftrightarrow> x = s" if "x \<in> set (ruleSets d1)" for x
    using only_row [OF keys1 s1 that] in_bookD [OF s1] s(2) by auto
  have "{x \<in> set (ruleSets d1). fr_status (if ?P x then activated t x else x) = ''vigente''}
      \<subseteq> insert s {x \<in> set (ruleSets d1). fr_status x = ''vigente''}" by (rule switched_rows) (rule only)
  moreover have "inj_on ctx (insert s {x \<in> set (ruleSets d1). fr_status x = ''vigente''})"
    using keys_inj(2) [OF keys1] r(2) in_bookD [OF s1] by (auto simp: in_context_def)
  ultimately have b: "inj_on ctx {x \<in> set (ruleSets d1). fr_status (if ?P x then activated t x else x) = ''vigente''}"
    by (rule inj_on_subset [rotated])
  have a: "inj_on ctx {x \<in> set (ruleSets d1). is_open (if ?P x then activated t x else x)}"
    by (rule inj_on_subset [OF keys_inj(1) [OF keys1]]) (auto split: if_splits)
  have g: "rule_set_guard x (activated t x)" if "x \<in> set (ruleSets d1)" "?P x" for x
    using only [OF that(1)] that(2) s(3) by (simp add: guard_moves(4))
  have "\<exists>d2. update_sets ?P (activated t) d1 = Inr d2" by (rule exI, rule update_sets_ok [OF keys1 g a b])
  with u True show ?thesis by (auto simp: settle_rules_def)
qed (auto simp: settle_rules_def)

section \<open>No request trips a guard\<close>

text \<open>The failures a request should never end with: those of a trigger, a check or an index, but for a drawn
  identifier or token that exists already.\<close>

definition unexpected :: "failure \<Rightarrow> bool" where
  "unexpected e \<longleftrightarrow> (case e of Internal _ \<Rightarrow> True | UniqueViolation m \<Rightarrow> m \<noteq> ''FinanceRuleLink'' | _ \<Rightarrow> False)"

lemma unexpected_simps [simp]:
  "unexpected (Internal m)" "unexpected (UniqueViolation m) \<longleftrightarrow> m \<noteq> ''FinanceRuleLink''" "\<not> unexpected (Conflict m)"
  "\<not> unexpected (NotFound m)" "\<not> unexpected (BadRequest m)" "\<not> unexpected Forbidden" "\<not> unexpected (Unprocessable m)"
  by (simp_all add: unexpected_def)

lemma issue_all_expected: "issue_all sha256 fresh c i kind me now ps d = Inl e \<Longrightarrow> \<not> unexpected e"
proof (induction ps arbitrary: d)
  case (Cons p ps)
  then show ?case
    by (auto simp: issue_def Let_def split: sum.splits prod.splits if_splits dest: insert_row_Inl)
qed simp

lemma discard_expected:
  assumes inv: "rules_inv sha256 c (d, lk)" and c: "act_contextId actor = c" and e: "fst (discard actor i now d) = Inl e"
  shows "\<not> unexpected e"
proof (cases "lockRow c i d")
  case (Inl x)
  with c e have "e = x" by (simp add: discard_def transaction_def)
  with Inl show ?thesis by (auto simp: lockRow_def split: option.splits)
next
  case (Inr s)
  note s = lockRow_Inr [OF Inr]
  let ?msg = "''Descartada por '' @ nameOf d c (acting actor) @ ''.''"
  show ?thesis
  proof (cases "is_draft s \<or> is_open s")
    case True
    with discard_update [OF rules_invD(1) [OF inv], of s c now ?msg] s
    obtain d1 where "update_set c i (discarded now ?msg) d = Inr d1" by blast
    with Inr c e True show ?thesis by (auto simp: discard_def transaction_def split: if_splits)
  next
    case False
    with Inr c e have "e = Conflict ''FINANCE_RULES_WRONG_STATE''" by (simp add: discard_def transaction_def split: if_splits)
    then show ?thesis by simp
  qed
qed

lemma resend_expected:
  assumes inv: "rules_inv sha256 c (d, lk)" and c: "act_contextId actor = c"
    and e: "fst (resend_tx sha256 fresh actor i now t d) = Inl e"
  shows "\<not> unexpected e"
proof (cases "lockRow c i d")
  case (Inl x)
  with c e have "e = x" by (simp add: resend_tx_def transaction_def)
  with Inl show ?thesis by (auto simp: lockRow_def split: option.splits)
next
  case (Inr s)
  obtain b d1 where b: "settle_rules c i t d = Inr (b, d1)" using settle_total [OF rules_invD(1) [OF inv]] by blast
  have w: "\<not> unexpected x" if "resend_writes sha256 fresh actor s now d1 = Inl x" for x
    using that unfolding resend_writes_def Let_def
    by (auto split: sum.splits prod.splits dest: issue_all_expected)
  show ?thesis
  proof (cases "fr_status s = ''pendiente''")
    case True
    then show ?thesis using e Inr c b w
      by (cases b; cases "resend_writes sha256 fresh actor s now d1") (auto simp: resend_tx_def transaction_def)
  next
    case False
    then show ?thesis using e Inr c by (auto simp: resend_tx_def transaction_def split: if_splits)
  qed
qed

lemma record_answer_expected:
  assumes keys: "keys_ok d" and s: "find_row (ctx l) (lk_ruleSetId l) (ruleSets d) = Some s" "fr_status s = ''pendiente''"
    and e: "record_answer l s decision reason k t d = Inl e"
  shows "swallowed e"
proof (cases decision)
  case Approve
  show ?thesis
  proof (cases "insert_approval (approval_of l s k t) d")
    case (Inl x)
    have "\<exists>s' \<in> set (ruleSets d). rid s' = lk_ruleSetId l \<and> ctx s' = ctx l \<and> fr_status s' = ''pendiente'' \<and> fr_configHash s' = fr_configHash s"
      using find_row_Some [OF s(1)] s(2) by blast
    with Inl have "\<exists>m. x = UniqueViolation m"
      unfolding insert_approval_def by (auto simp: approval_of_def dest: insert_row_Inl split: sum.splits if_splits)
    with Inl e Approve show ?thesis by (auto simp: record_answer_def swallowed_def)
  next
    case (Inr d1)
    note tables = insert_approval_tables [OF Inr]
    obtain b d2 where "settle_rules (ctx l) (lk_ruleSetId l) t (use_link (rid l) t d1) = Inr (b, d2)"
      using settle_total [OF keys_use [OF keys tables(1,2)]] by blast
    with e Approve Inr show ?thesis by (simp add: record_answer_def)
  qed
next
  case Object
  show ?thesis
  proof (cases "insert_objection (objection_of l reason k t) d")
    case (Inl x)
    then have "x = check_violation \<or> (\<exists>m. x = UniqueViolation m)"
      unfolding insert_objection_def by (auto dest: insert_row_Inl split: sum.splits if_splits)
    with Inl e Object show ?thesis by (auto simp: record_answer_def swallowed_def check_violation_def)
  next
    case (Inr d1)
    note tables = insert_objection_tables [OF Inr]
    note s' = find_row_book [OF s(1)]
    have "s \<in> set (book (ctx l) (use_link (rid l) t d1))" using s' by (simp add: tables)
    from review_update [OF keys_use [OF keys tables(1,2)] this s(2)] s'
    obtain d2 where "update_sets (\<lambda>x. rid x = lk_ruleSetId l \<and> ctx x = ctx l) (in_review t) (use_link (rid l) t d1) = Inr d2" by auto
    with e Object Inr show ?thesis by (simp add: record_answer_def)
  qed
qed

lemma respond_expected:
  assumes keys: "keys_ok d" and e: "fst (respond sha256 token decision reason k t d) = Inl e"
  shows "\<not> unexpected e"
proof (cases "clean_reason decision reason")
  case (Inl x)
  then have "\<not> unexpected x" by (auto simp: clean_reason_def Let_def split: decision.splits if_splits)
  with Inl e show ?thesis by (simp add: respond_def)
next
  case (Inr r)
  have "fst (link_respond (sha256 token) decision r k t d) \<noteq> Inl x" for x
    using record_answer_expected [OF keys]
    unfolding link_respond_def by (auto split: option.splits sum.splits if_splits prod.splits)
  then have "e = invalidLink"
    using e Inr unfolding respond_def by (auto split: sum.splits prod.splits option.splits)
  then show ?thesis by (simp add: invalidLink_def)
qed

lemma submit_expected:
  assumes inv: "rules_inv sha256 c (d, Some (Submitting actor i now plan))"
    and e: "submit_writes sha256 money fresh actor i now plan d = Inl e"
  shows "\<not> unexpected e"
proof -
  note keys = rules_invD(1) [OF inv]
  have c: "act_contextId actor = c" and row: "sp_row plan \<in> set (book c d)" "rid (sp_row plan) = i" "is_draft (sp_row plan)"
    and found: "\<And>j. sp_found plan = Some j \<Longrightarrow> \<exists>s \<in> set (book c d). rid s = j"
    using rules_invD(5) [OF inv] by simp_all
  have "\<exists>prev. open_now c plan d = Inr prev"
  proof (cases "sp_found plan")
    case (Some j)
    from found [OF Some] obtain s where "s \<in> set (book c d)" "rid s = j" by blast
    with find_row_Some_book [OF keys, of s c] Some show ?thesis by (simp add: open_now_def openAfterLock_def lockRow_def)
  qed (simp add: open_now_def)
  then obtain prev where o: "open_now c plan d = Inr prev" ..
  show ?thesis
  proof (cases "prev \<noteq> None \<and> map_option rid prev \<noteq> fr_basedOnId (sp_row plan)")
    case True
    with e o c have "e = Conflict ''FINANCE_RULES_PENDING_EXISTS''" by (auto simp: submit_writes_def)
    then show ?thesis by simp
  next
    case False
    have "\<exists>d1. replace_open c now (sp_row plan) prev d = Inr d1"
    proof (cases prev)
      case (Some s)
      then have "s \<in> set (book c d)" "is_draft s \<or> is_open s" using open_now_cases [OF inv o] by simp_all
      from discard_update [OF keys this] Some show ?thesis by (simp add: replace_open_def)
    qed (simp add: replace_open_def)
    then obtain d1 where r: "replace_open c now (sp_row plan) prev d = Inr d1" ..
    note v = replace_open_view [OF inv o r]
    have "rules_inv sha256 c (d1, None)" by (rule replace_open_inv [OF inv_unlock [OF inv] r]) simp
    from submit_update [OF rules_invD(1) [OF this] v(2) row(3) v(3)] row(2)
    obtain d2 where u: "update_set c i (submitted now (proposal_changes money c (sp_row plan) d)) d1 = Inr d2" by blast
    have "issue_all sha256 fresh c i ''envio'' (acting actor) now (sp_partners plan) d2 = Inl e"
      using e o c False r u unfolding submit_writes_def Let_def
      by (cases "issue_all sha256 fresh c i ''envio'' (acting actor) now (sp_partners plan) d2") (auto split: if_splits)
    then show ?thesis by (rule issue_all_expected)
  qed
qed

text \<open>C36: no answer, discard, resend or submission fails because it ran into a trigger, a check or a unique index:
  whatever committed meanwhile, it succeeds or is refused with the error meant for the caller. The only
  exception left is a drawn identifier or token that exists already.\<close>

theorem requests_never_trip_guards:
  assumes "rules_inv sha256 c (d, lk)" "act_contextId actor = c"
    and "fst (discard actor i now d) = Inl e \<or> fst (resend_tx sha256 fresh actor i now t d) = Inl e
       \<or> fst (respond sha256 token decision reason k t d) = Inl e
       \<or> lk = Some (Submitting actor i now plan) \<and> submit_writes sha256 money fresh actor i now plan d = Inl e"
  shows "\<not> unexpected e"
  using assms(3)
proof (elim disjE conjE)
  assume "fst (discard actor i now d) = Inl e"
  then show ?thesis by (rule discard_expected [OF assms(1,2)])
next
  assume "fst (resend_tx sha256 fresh actor i now t d) = Inl e"
  then show ?thesis by (rule resend_expected [OF assms(1,2)])
next
  assume "fst (respond sha256 token decision reason k t d) = Inl e"
  then show ?thesis by (rule respond_expected [OF rules_invD(1) [OF assms(1)]])
next
  assume "lk = Some (Submitting actor i now plan)" "submit_writes sha256 money fresh actor i now plan d = Inl e"
  then show ?thesis using submit_expected assms(1) by blast
qed

section \<open>A link answers once\<close>

definition used_hash :: "string \<Rightarrow> db \<Rightarrow> string \<Rightarrow> bool" where
  "used_hash c d h \<longleftrightarrow> (\<exists>l \<in> set (in_context c (ruleLinks d)). lk_tokenHash l = h \<and> lk_usedAt l \<noteq> None)"

lemma used_hash_same: "ruleLinks d' = ruleLinks d \<Longrightarrow> used_hash c d h \<Longrightarrow> used_hash c d' h"
  by (simp add: used_hash_def)

lemma used_hash_map:
  assumes "\<And>l. ctx (f l) = ctx l \<and> lk_tokenHash (f l) = lk_tokenHash l \<and> (lk_usedAt l \<noteq> None \<longrightarrow> lk_usedAt (f l) \<noteq> None)"
    and "ruleLinks d' = map f (ruleLinks d)" "used_hash c d h"
  shows "used_hash c d' h"
proof -
  from assms(3) obtain l where l: "l \<in> set (ruleLinks d)" "ctx l = c" "lk_tokenHash l = h" "lk_usedAt l \<noteq> None"
    unfolding used_hash_def in_context_def by auto
  then have "f l \<in> set (in_context c (ruleLinks d'))" using assms(1) [of l] by (simp add: in_context_def assms(2))
  with l assms(1) [of l] show ?thesis unfolding used_hash_def by blast
qed

lemma used_hash_retire: "used_hash c d h \<Longrightarrow> used_hash c (retire_links c' P now d) h"
  by (rule used_hash_map [of "\<lambda>l. if ctx l = c' \<and> P l \<and> live l then l\<lparr>lk_supersededAt := Some now\<rparr> else l"])
    (simp_all add: retire_links_def)

lemma used_hash_deliver: "used_hash c d h \<Longrightarrow> used_hash c (deliver_one c' ok now i d) h"
  by (rule used_hash_map [of "\<lambda>l. if rid l = i \<and> ctx l = c' then
        (if ok then lk_emailSent_update (\<lambda>_. True) else lk_supersededAt_update (\<lambda>_. Some now)) l else l"])
    (simp_all add: deliver_one_def update_row_def)

lemma used_hash_use: "used_hash c d h \<Longrightarrow> used_hash c (use_link k t d) h"
  by (rule used_hash_map [of "\<lambda>l. if rid l = k then l\<lparr>lk_usedAt := Some t\<rparr> else l"]) (simp_all add: use_link_def)

lemma used_hash_issue:
  assumes "issue sha256 fresh c' q d = Inr d'" "used_hash c d h"
  shows "used_hash c d' h"
proof -
  let ?d1 = "retire_links c' (\<lambda>l. lk_ruleSetId l = is_ruleSetId q \<and> lk_memberId l = is_memberId q) (is_now q) d"
  have "set (ruleLinks ?d1) \<subseteq> set (ruleLinks d')"
    using assms(1) by (auto simp: issue_def Let_def dest!: insert_row_Inr split: if_splits sum.splits)
  with used_hash_retire [OF assms(2)] show ?thesis unfolding used_hash_def in_context_def by fastforce
qed

lemma used_hash_issue_all:
  "issue_all sha256 fresh c' i kind me now ps d = Inr (ls, d') \<Longrightarrow> used_hash c d h \<Longrightarrow> used_hash c d' h"
proof (induction ps arbitrary: d ls)
  case (Cons p ps)
  then show ?case by (auto split: sum.splits prod.splits dest: used_hash_issue)
qed simp

lemma used_hash_evolves: "evolves g d d' \<Longrightarrow> used_hash c d h \<Longrightarrow> used_hash c d' h"
  by (rule used_hash_same) (simp_all add: evolves_tables(2))

lemma used_hash_settle:
  assumes "settle_rules c' i t d = Inr (b, d')" "used_hash c d h"
  shows "used_hash c d' h"
  using assms(1)
proof (cases rule: settle_cases)
  case (settles d1)
  from used_hash_evolves [OF update_sets_Inr [OF settles(6)] used_hash_evolves [OF update_sets_Inr [OF settles(5)] assms(2)]]
  show ?thesis .
qed (use assms(2) in simp)

lemma used_hash_draft: "createDraft actor i now config x b d = Inr d' \<Longrightarrow> used_hash c d h \<Longrightarrow> used_hash c d' h"
  by (rule used_hash_same) (auto simp: createDraft_def dest: insert_set_Inr(1))

lemma used_hash_save:
  assumes "saveDraft_writes actor plan d = Inr (r, d')" "used_hash c d h"
  shows "used_hash c d' h"
  using assms unfolding saveDraft_writes_def
  by (auto split: option.splits sum.splits intro: used_hash_draft used_hash_evolves [OF update_set_Inr(1)])

lemma used_hash_submit:
  assumes w: "submit_writes sha256 money fresh actor i now plan d = Inr (r, d')" and "used_hash c d h"
  shows "used_hash c d' h"
  using w refl
proof (cases rule: submit_writes_Inr)
  case (1 prev d1 d2 ls)
  have "used_hash c d1 h" using 1(3) assms(2)
    by (cases prev) (auto simp: replace_open_def intro: used_hash_evolves [OF update_set_Inr(1)])
  then have "used_hash c d2 h" by (rule used_hash_evolves [OF update_set_Inr(1) [OF 1(4)]])
  then show ?thesis by (rule used_hash_issue_all [OF 1(5)])
qed

lemma used_hash_discard:
  assumes out: "discard actor i now d = (out, d')" and u: "used_hash c d h"
  shows "used_hash c d' h"
proof (cases out)
  case (Inr r)
  from out [unfolded Inr] refl show ?thesis
  proof (cases rule: discard_Inr)
    case (1 s d1 msg)
    show ?thesis unfolding 1(5) by (rule used_hash_retire [OF used_hash_evolves [OF update_set_Inr(1) [OF 1(4)] u]])
  qed
next
  case (Inl e)
  have "d' = d" by (rule transaction_error [OF out [unfolded discard_def Inl]])
  with u show ?thesis by simp
qed

lemma used_hash_resend:
  assumes out: "resend_tx sha256 fresh actor i now t d = (out, d')" and u: "used_hash c d h"
  shows "used_hash c d' h"
proof (cases out)
  case (Inr r)
  from out [unfolded Inr] refl show ?thesis
  proof (cases rule: resend_Inr)
    case (1 b d1)
    have u1: "used_hash c d1 h" by (rule used_hash_settle [OF 1(1) u])
    show ?thesis
    proof (cases b)
      case False
      then obtain row where "resend_writes sha256 fresh actor row now d1 = Inr (r, d')" using 1(4) by blast
      then obtain ps ls where "issue_all sha256 fresh (act_contextId actor) (rid row) ''reenvio'' (acting actor) now ps d1 = Inr (ls, d')"
        unfolding resend_writes_def Let_def by (auto split: sum.splits prod.splits)
      then show ?thesis by (rule used_hash_issue_all [OF _ u1])
    qed (use u1 1(3) in simp)
  qed
next
  case (Inl e)
  have "d' = d" by (rule transaction_error [OF out [unfolded resend_tx_def Inl]])
  with u show ?thesis by simp
qed

text \<open>The answer is written together with the use of its link.\<close>

lemma record_answer_uses:
  assumes "record_answer l s decision r k t d = Inr (result, d')"
  shows "used_hash c d h \<Longrightarrow> used_hash c d' h" "l \<in> set (ruleLinks d) \<Longrightarrow> used_hash (ctx l) d' (lk_tokenHash l)"
proof -
  have "\<exists>d1. ruleLinks d1 = ruleLinks d \<and> (\<forall>c h. used_hash c (use_link (rid l) t d1) h \<longrightarrow> used_hash c d' h)"
    using assms
  proof (cases rule: record_answer_Inr)
    case (approve d1 b)
    then show ?thesis using insert_approval_tables(2) used_hash_settle by blast
  next
    case (object d1)
    then show ?thesis using insert_objection_tables(2) used_hash_evolves [OF update_sets_Inr] by blast
  qed
  then obtain d1 where d1: "ruleLinks d1 = ruleLinks d" "\<And>c h. used_hash c (use_link (rid l) t d1) h \<Longrightarrow> used_hash c d' h" by blast
  show "used_hash c d' h" if "used_hash c d h"
    by (rule d1(2) [OF used_hash_use [OF used_hash_same [OF d1(1) that]]])
  show "used_hash (ctx l) d' (lk_tokenHash l)" if "l \<in> set (ruleLinks d)"
  proof (rule d1(2))
    have "l\<lparr>lk_usedAt := Some t\<rparr> \<in> set (ruleLinks (use_link (rid l) t d1))"
      unfolding use_link_def using that by (auto simp: d1(1) intro!: image_eqI [of _ _ l])
    then show "used_hash (ctx l) (use_link (rid l) t d1) (lk_tokenHash l)"
      unfolding used_hash_def in_context_def by (intro bexI [of _ "l\<lparr>lk_usedAt := Some t\<rparr>"]) simp_all
  qed
qed

lemma used_hash_respond:
  assumes "respond sha256 token decision reason k t d = (out, d')" "used_hash c d h"
  shows "used_hash c d' h"
  using assms(1)
proof (cases rule: respond_cases)
  case (recorded l s r result)
  from record_answer_uses(1) [OF recorded(6) assms(2)] show ?thesis .
qed (use assms(2) in simp)

lemma used_hash_step: "rules_step sha256 money c x x' \<Longrightarrow> used_hash c (fst x) h \<Longrightarrow> used_hash c (fst x') h"
proof (induction rule: rules_step.induct)
  case (modify_writes actor k now row d r d')
  then show ?case by (auto simp: modify_writes_def split: sum.splits intro: used_hash_draft)
next
  case (elsewhere d d' lk)
  then show ?case by (simp add: used_hash_def same_books_def)
qed (auto intro: used_hash_save used_hash_submit used_hash_discard used_hash_resend used_hash_respond used_hash_deliver)

lemma used_hash_runs: "rules_runs sha256 money c x x' \<Longrightarrow> used_hash c (fst x) h \<Longrightarrow> used_hash c (fst x') h"
  unfolding rules_runs_def by (induction rule: rtranclp_induct) (auto dest: used_hash_step)

text \<open>C34: a link answers once. After a partner approved or objected through a link, that link records nothing any
  more, whatever the requests of the business and of any other commit in between, in any interleaving: every
  later answer with its token is refused and changes nothing.\<close>

theorem link_answers_once:
  assumes inv: "rules_inv sha256 c (d, lk)" and l: "l \<in> set (ruleLinks d)" "lk_tokenHash l = sha256 token" "ctx l = c"
    and free: "\<not> row_locked lk (lk_ruleSetId l)"
    and first: "respond sha256 token decision reason k t d = (Inr outcome, d1)" "outcome \<noteq> ''en_revision''"
    and later: "rules_runs sha256 money c (d1, lk) (d2, lk2)"
    and again: "respond sha256 token decision' reason' k' t' d2 = (out, d3)"
  shows "d3 = d2 \<and> (\<nexists>outcome. out = Inr outcome)"
proof -
  have inv1: "rules_inv sha256 c (d1, lk)" by (rule respond_inv [OF inv l free first(1)])
  have "used_hash c d1 (sha256 token)"
    using first(1)
  proof (cases rule: respond_cases)
    case (recorded l' s r result)
    have "l' = l" using recorded(1) find_token [OF rules_invD(1) [OF inv] l(1,2)] by simp
    with record_answer_uses(2) [OF recorded(6)] l show ?thesis by simp
  qed (use first(2) in simp)
  then have "used_hash c d2 (sha256 token)" using used_hash_runs [OF later] by simp
  then obtain l2 where l2: "l2 \<in> set (ruleLinks d2)" "lk_tokenHash l2 = sha256 token" "lk_usedAt l2 \<noteq> None"
    unfolding used_hash_def in_context_def by auto
  have keys: "keys_ok d2" by (rule rules_invD(1) [OF rules_runs_inv [OF later inv1]])
  have "\<not> usable l2 t' d2" using l2(3) usableD [of l2 t' d2] by metis
  then have "link_respond (sha256 token) decision' x k' t' d2 = (Inr None, d2)" for x
    using find_token [OF keys l2(1,2)] by (simp add: link_respond_def split: option.splits)
  with again show ?thesis by (auto simp: respond_def split: sum.splits)
qed

section \<open>The last approval\<close>

lemma settle_all_approved:
  assumes keys: "keys_ok d" and s: "s \<in> set (book c d)" "fr_status s = ''pendiente''"
    and all: "\<And>m. m \<in> set (socios d c) \<Longrightarrow> approved_by d c (rid s) (rid m)" and some: "socios d c \<noteq> []"
  obtains d' where "settle_rules c (rid s) t d = Inr (True, d')" "activated t s \<in> set (book c d')"
    "\<And>x. x \<in> set (book c d) \<Longrightarrow> fr_status x = ''vigente'' \<Longrightarrow> superseded t x \<in> set (book c d')"
proof -
  obtain b d' where st: "settle_rules c (rid s) t d = Inr (b, d')" using settle_total [OF keys] by blast
  have b: "b"
    using st s all some by (auto simp: settle_rules_def in_context_def split: if_splits sum.splits)
  from st show thesis
  proof (cases rule: settle_cases)
    case (settles d1)
    note r = replaced_book [OF settles(5)] and e2 = evolves_tables(6) [OF update_sets_Inr [OF settles(6)]]
    have s1: "s \<in> set (book c d1)" using r(3) [OF s(1)] s(2) by simp
    show thesis
    proof (rule that [OF st [unfolded eqTrueI [OF b]]])
      show "activated t s \<in> set (book c d')"
        unfolding e2 set_map by (rule image_eqI [OF _ s1]) (use in_bookD [OF s1] in simp)
      show "superseded t x \<in> set (book c d')" if x: "x \<in> set (book c d)" "fr_status x = ''vigente''" for x
      proof -
        have "rid x \<noteq> rid s" using book_id [OF keys x(1) s(1)] x(2) s(2) by auto
        moreover have "rid (superseded t x) = rid x" by (simp add: superseded_def)
        ultimately show ?thesis
          unfolding e2 set_map by (intro image_eqI [OF _ r(4) [OF x]]) simp
      qed
    qed
  qed (use b in simp)
qed

text \<open>C35: the last approval puts the rules in force. When every other active partner has approved a waiting proposal
  and the one left answers through a usable link with an approval, the answer is that the rules are in force,
  the proposal is, and the rules that were in force are replaced.\<close>

theorem last_approval_in_force:
  assumes inv: "rules_inv sha256 c (d, lk)" and l: "l \<in> set (ruleLinks d)" "lk_tokenHash l = sha256 token" "ctx l = c"
    and s: "s \<in> set (book c d)" "rid s = lk_ruleSetId l" "fr_status s = ''pendiente''" and us: "usable l t d"
    and others: "\<forall>m \<in> set (socios d c). rid m \<noteq> lk_memberId l \<longrightarrow> approved_by d c (rid s) (rid m)"
    and mine: "\<not> approved_by d c (rid s) (lk_memberId l)" and k: "k \<notin> rid ` set (ruleApprovals d)"
  shows "\<exists>d'. respond sha256 token Approve reason k t d = (Inr ''vigente'', d') \<and> activated t s \<in> set (book c d')
     \<and> (\<forall>x \<in> set (book c d). fr_status x = ''vigente'' \<longrightarrow> superseded t x \<in> set (book c d'))"
proof -
  note keys = rules_invD(1) [OF inv]
  let ?a = "approval_of l s k t"
  let ?d1 = "d\<lparr>ruleApprovals := ruleApprovals d @ [?a]\<rparr>"
  let ?d2 = "use_link (rid l) t ?d1"
  have row: "find_row (ctx l) (lk_ruleSetId l) (ruleSets d) = Some s" using find_row_Some_book [OF keys s(1)] s(2) l(3) by simp
  have ins: "insert_approval ?a d = Inr ?d1"
    using find_row_Some [OF row] s mine k l(3)
    unfolding insert_approval_def by (auto simp: approval_of_def insert_row_def)
  have keys2: "keys_ok ?d2" by (rule keys_use [OF keys]) simp_all
  have so: "socios ?d2 c = socios d c" by (simp add: socios_def)
  have "approved_by ?d2 c (rid s) (rid m)" if m: "m \<in> set (socios d c)" for m
  proof (cases "rid m = lk_memberId l")
    case True
    then show ?thesis using l(3) s(2) by (simp add: approved_by_def approval_of_def)
  next
    case False
    with others m have "approved_by d c (rid s) (rid m)" by blast
    then show ?thesis by (auto simp: approved_by_def)
  qed
  moreover have "socios d c \<noteq> []"
  proof -
    obtain m where "m \<in> set (members d)" "ctx m = c" "m_active m" "m_role m = Socio"
      using us l(3) unfolding usable_def by blast
    then have "m \<in> set (socios d c)" by (simp add: socios_def)
    then show ?thesis by auto
  qed
  ultimately obtain d' where d': "settle_rules c (rid s) t ?d2 = Inr (True, d')" "activated t s \<in> set (book c d')"
    "\<And>x. x \<in> set (book c d) \<Longrightarrow> fr_status x = ''vigente'' \<Longrightarrow> superseded t x \<in> set (book c d')"
    using settle_all_approved [OF keys2, of s c t thesis] s(1,3) so by simp
  have "record_answer l s Approve [] k t d = Inr (''vigente'', d')"
    using ins d'(1) s(2) l(3) by (simp add: record_answer_def)
  then have "respond sha256 token Approve reason k t d = (Inr ''vigente'', d')"
    using find_token [OF keys l(1,2)] row us s(3) by (simp add: respond_def link_respond_def clean_reason_def)
  with d' show ?thesis by blast
qed

section \<open>The race that is lost\<close>

text \<open>Saving a draft is the one request that can end in the trigger of the database. \<open>saveDraft\<close> finds the draft
  without locking it; when another partner discards it before it is written, the trigger refuses new rules
  on a closed version, and the answer is an internal error instead of a new draft.\<close>

theorem saveDraft_loses_race:
  assumes "saveDraft_reads sha256 actor i now input d = Inr plan" "dp_open plan = Some draft"
    and "find_row (act_contextId actor) (rid draft) (ruleSets (w d)) = Some s" "\<not> is_draft s"
    and "fr_config s \<noteq> dp_config plan"
  shows "saveDraft sha256 w actor i now input d = (Inl guard_error, w d)"
proof -
  let ?f = "\<lambda>s. s\<lparr>fr_config := dp_config plan, fr_configHash := dp_hash plan, fr_updatedAt := dp_now plan\<rparr>"
  have s: "s \<in> set (ruleSets (w d))" "rid s = rid draft \<and> ctx s = act_contextId actor" using find_row_Some [OF assms(3)] by auto
  have "\<not> rule_set_guard s (?f s)" using assms(4,5) by (auto simp: rule_set_guard_def)
  with s have "\<not> list_all (\<lambda>x. rid x = rid draft \<and> ctx x = act_contextId actor \<longrightarrow> rule_set_guard x (?f x)) (ruleSets (w d))"
    by (auto simp: list_all_iff)
  then have "update_set (act_contextId actor) (rid draft) ?f (w d) = Inl guard_error"
    using assms(3) by (simp add: update_set_def update_sets_def)
  then show ?thesis using assms(1,2) by (simp add: saveDraft_def read_then_write_def saveDraft_writes_def)
qed

end
