(* ===== verification/RuleViews.thy ===== *)
theory RuleViews
  imports Rules
begin

text \<open>
  What the rules screen and the public page show: the reading half of
  \<open>src/finance/finance-rules.service.ts\<close> and of \<open>finance-rule-links.service.ts\<close>.
\<close>

record approval_view =
  av_memberId :: uuid
  av_name :: string
  av_approvedAt :: instant
  av_correo :: "string option"
  av_via :: string

record objection_view =
  ov_memberId :: uuid
  ov_name :: string
  ov_correo :: string
  ov_reason :: string
  ov_createdAt :: instant

record rule_set_view =
  rv_set :: rule_set
  rv_warnings :: "(string \<times> string) list"
  rv_proposedBy :: "uuid \<times> string"
  rv_approvals :: "approval_view list"
  rv_objections :: "objection_view list"
  rv_changes :: "rule_change list option"
  rv_basedOn :: "(uuid \<times> int \<times> objection_view list) option"
  rv_missing :: "(uuid \<times> string) list"

definition name_or :: "db \<Rightarrow> string \<Rightarrow> uuid \<Rightarrow> string" where
  "name_or d c m = (case find_row c m (members d) of None \<Rightarrow> ''Socio'' | Some x \<Rightarrow> m_name x)"

definition mask :: "string option \<Rightarrow> string option" where
  "mask correo = (case correo of Some (x # xs) \<Rightarrow> Some (maskEmail (x # xs)) | _ \<Rightarrow> None)"

definition approvals_of :: "db \<Rightarrow> string \<Rightarrow> uuid \<Rightarrow> rule_approval list" where
  "approvals_of d c i = sort_key ra_approvedAt [a \<leftarrow> in_context c (ruleApprovals d). ra_ruleSetId a = i]"

definition objections_of :: "db \<Rightarrow> string \<Rightarrow> uuid \<Rightarrow> rule_objection list" where
  "objections_of d c i = sort_key ro_createdAt [x \<leftarrow> in_context c (ruleObjections d). ro_ruleSetId x = i]"

definition approval_views :: "db \<Rightarrow> string \<Rightarrow> uuid \<Rightarrow> approval_view list" where
  "approval_views d c i = map (\<lambda>a. \<lparr>av_memberId = ra_memberId a, av_name = name_or d c (ra_memberId a),
     av_approvedAt = ra_approvedAt a, av_correo = mask (ra_correo a),
     av_via = (if ra_linkId a = None then ''sesion'' else ''correo'')\<rparr>) (approvals_of d c i)"

definition objection_views :: "db \<Rightarrow> string \<Rightarrow> uuid \<Rightarrow> objection_view list" where
  "objection_views d c i = map (\<lambda>x. \<lparr>ov_memberId = ro_memberId x, ov_name = name_or d c (ro_memberId x),
     ov_correo = maskEmail (ro_correo x), ov_reason = ro_reason x, ov_createdAt = ro_createdAt x\<rparr>) (objections_of d c i)"

definition answered :: "db \<Rightarrow> string \<Rightarrow> uuid \<Rightarrow> uuid set" where
  "answered d c i = set (map ra_memberId (approvals_of d c i)) \<union> set (map ro_memberId (objections_of d c i))"

definition toView :: "db \<Rightarrow> string \<Rightarrow> partner list \<Rightarrow> rule_set \<Rightarrow> rule_set_view" where
  "toView d c partners s =
     \<lparr>rv_set = s, rv_warnings = rulesWarnings (fr_config s),
      rv_proposedBy = (fr_proposedByMemberId s, name_or d c (fr_proposedByMemberId s)),
      rv_approvals = approval_views d c (rid s), rv_objections = objection_views d c (rid s),
      rv_changes = fr_changeSummary s,
      rv_basedOn = (case fr_basedOnId s of None \<Rightarrow> None
        | Some b \<Rightarrow> map_option (\<lambda>x. (rid x, fr_version x, objection_views d c (rid x))) (find_row c b (ruleSets d))),
      rv_missing = (if is_open s
        then map (\<lambda>p. (pr_memberId p, pr_name p)) [p \<leftarrow> partners. pr_memberId p \<notin> answered d c (rid s)] else [])\<rparr>"

definition viewOne :: "db \<Rightarrow> string \<Rightarrow> uuid \<Rightarrow> rule_set_view option" where
  "viewOne d c i = map_option (toView d c (activePartners d c)) (find_row c i (ruleSets d))"

section \<open>The screen\<close>

record partner_view =
  pw_partner :: partner
  pw_hasCorreo :: bool
  pw_correo :: "string option"
  pw_response :: "string option"
  pw_link :: "(instant \<times> instant \<times> bool \<times> instant option) option"

definition newest_links :: "db \<Rightarrow> string \<Rightarrow> uuid \<Rightarrow> uuid \<Rightarrow> rule_link list" where
  "newest_links d c i m = [l \<leftarrow> sort_key (\<lambda>l. - lk_createdAt l) [l \<leftarrow> in_context c (ruleLinks d). lk_ruleSetId l = i]. lk_memberId l = m]"

definition link_view :: "rule_link list \<Rightarrow> instant \<Rightarrow> (instant \<times> instant \<times> bool \<times> instant option) option" where
  "link_view mine now =
     (let lastResend = find (\<lambda>l. lk_kind l = ''reenvio'' \<and> (lk_emailSent l \<or> lk_supersededAt l = None)) mine;
          nextAt = (case lastResend of None \<Rightarrow> 0 | Some l \<Rightarrow> lk_createdAt l + RESEND_COOLDOWN_MS) in
      map_option (\<lambda>l. (lk_createdAt l, lk_expiresAt l, lk_usedAt l = None \<and> lk_expiresAt l \<le> now,
          if now < nextAt then Some nextAt else None))
        (find (\<lambda>l. lk_emailSent l \<and> (lk_supersededAt l = None \<or> lk_usedAt l \<noteq> None)) mine))"

definition partnerViews :: "db \<Rightarrow> string \<Rightarrow> partner list \<Rightarrow> rule_set_view option \<Rightarrow> instant \<Rightarrow> partner_view list" where
  "partnerViews d c partners proposal now = map (\<lambda>p.
     \<lparr>pw_partner = p, pw_hasCorreo = (mask (pr_correo p) \<noteq> None), pw_correo = mask (pr_correo p),
      pw_response = (case proposal of None \<Rightarrow> None
        | Some v \<Rightarrow> if pr_memberId p \<in> set (map av_memberId (rv_approvals v)) then Some ''aprobo''
            else if pr_memberId p \<in> set (map ov_memberId (rv_objections v)) then Some ''objeto'' else None),
      pw_link = (case proposal of None \<Rightarrow> None
        | Some v \<Rightarrow> link_view (newest_links d c (rid (rv_set v)) (pr_memberId p)) now)\<rparr>) partners"

record overview_page =
  op_state :: string
  op_inForce :: "rule_set_view option"
  op_proposal :: "rule_set_view option"
  op_draft :: "rule_set_view option"
  op_history :: "rule_set_view list"
  op_partners :: "partner_view list"

text \<open>The pending confirmation of the caller's own address is not part of it.\<close>

definition rules_overview :: "db \<Rightarrow> string \<Rightarrow> instant \<Rightarrow> overview_page" where
  "rules_overview d c now =
     (let partners = activePartners d c;
          views = map (toView d c partners) (take 60 (sort_key (\<lambda>s. - fr_version s) (in_context c (ruleSets d))));
          inForce = find (\<lambda>v. fr_status (rv_set v) = ''vigente'') views;
          proposal = find (\<lambda>v. is_open (rv_set v)) views;
          draft = find (\<lambda>v. fr_status (rv_set v) = ''borrador'') views in
      \<lparr>op_state = (case proposal of Some v \<Rightarrow> fr_status (rv_set v) | None \<Rightarrow> if inForce \<noteq> None then ''vigente'' else ''sin_aprobar''),
       op_inForce = inForce, op_proposal = proposal, op_draft = draft,
       op_history = [v \<leftarrow> views. fr_status (rv_set v) \<noteq> ''borrador''],
       op_partners = partnerViews d c partners proposal now\<rparr>)"

section \<open>The public page\<close>

record agreement_page =
  gp_state :: string
  gp_message :: "string option"
  gp_memberName :: string
  gp_proposerName :: string
  gp_version :: int
  gp_submittedAt :: "instant option"
  gp_expiresAt :: instant
  gp_rules :: "string list"
  gp_warnings :: "(string \<times> string) list"
  gp_changes :: "rule_change list option"
  gp_approvedBy :: "string list"
  gp_waitingFor :: "string list"

text \<open>\<open>finance_rule_link_lookup\<close>, read-only, and the page that \<open>inspect\<close> makes of it.\<close>

definition link_lookup :: "string \<Rightarrow> instant \<Rightarrow> db \<Rightarrow> (rule_link \<times> rule_set \<times> member) option" where
  "link_lookup tokenHash t d =
     (case find (\<lambda>l. lk_tokenHash l = tokenHash \<and> live l \<and> t < lk_expiresAt l) (ruleLinks d) of
        None \<Rightarrow> None
      | Some l \<Rightarrow>
         (case (find_row (ctx l) (lk_ruleSetId l) (ruleSets d),
                find (\<lambda>m. rid m = lk_memberId l \<and> ctx m = ctx l \<and> m_active m \<and> m_role m = Socio) (members d)) of
            (Some s, Some m) \<Rightarrow> if is_open s then Some (l, s, m) else None
          | _ \<Rightarrow> None))"

definition IN_REVIEW_MESSAGE :: string where
  "IN_REVIEW_MESSAGE = ''Esta propuesta est'' @ CHR 0xE1 # '' en revisi'' @ CHR 0xF3 # ''n; recibir'' @ CHR 0xE1
     # ''s la versi'' @ CHR 0xF3 # ''n nueva por correo.''"

definition inspect :: "(string \<Rightarrow> string) \<Rightarrow> (int \<Rightarrow> string) \<Rightarrow> string \<Rightarrow> instant \<Rightarrow> db \<Rightarrow> agreement_page result" where
  "inspect sha256 money token t d =
     (case link_lookup (sha256 token) t d of
        None \<Rightarrow> Inl invalidLink
      | Some (l, s, m) \<Rightarrow>
         (let partners = sort_key (\<lambda>m. (m_createdAt m, rid m)) (socios d (ctx l)) in
          Inr \<lparr>gp_state = fr_status s, gp_message = (if fr_status s = ''en_revision'' then Some IN_REVIEW_MESSAGE else None),
            gp_memberName = m_name m, gp_proposerName = nameOf d (ctx l) (fr_proposedByMemberId s), gp_version = fr_version s,
            gp_submittedAt = fr_submittedAt s, gp_expiresAt = lk_expiresAt l, gp_rules = describeRules money (fr_config s),
            gp_warnings = rulesWarnings (fr_config s),
            gp_changes = (case fr_changeSummary s of Some (x # xs) \<Rightarrow> Some (x # xs) | _ \<Rightarrow> None),
            gp_approvedBy = map m_name [p \<leftarrow> partners. approved_by d (ctx l) (rid s) (rid p)],
            gp_waitingFor = map m_name [p \<leftarrow> partners. \<not> approved_by d (ctx l) (rid s) (rid p)]\<rparr>))"

end
