(* ===== verification/RuleSample.thy ===== *)
theory RuleSample
  imports RuleAnswers RuleViews
begin

text \<open>
  The agreement on concrete input: Ana writes a draft and submits it, Beto and then Ana approve it. The
  guarantees of \<open>RulesAgreed\<close> and \<open>RuleAnswers\<close> are applied to this run, and the one race that does end in
  an error of the database is shown.
\<close>

text \<open>The digest keeps the first characters of its text, and a token is made of the member it is for.\<close>

definition sample_sha :: "string \<Rightarrow> string" where
  "sample_sha s = take 6 s"

definition sample_link :: "uuid \<Rightarrow> uuid \<times> string" where
  "sample_link m = (''k-'' @ m, ''t-'' @ m)"

definition sample_rule_set :: "string \<Rightarrow> rule_set" where
  "sample_rule_set status = \<lparr>rid = ''r1'', ctx = ''t1'', fr_version = 1, fr_status = status, fr_config = sample_rules,
     fr_configHash = ''{\"capi'', fr_proposedByMemberId = ''m1'', fr_proposedByAccountId = ''a1'', fr_createdAt = 1000,
     fr_updatedAt = 2000, fr_submittedAt = (if status = ''borrador'' then None else Some 2000), fr_activatedAt = None,
     fr_supersededAt = None, fr_withdrawnAt = None, fr_basedOnId = None, fr_changeSummary = None, fr_inReviewAt = None,
     fr_discardedAt = None, fr_closedNote = None\<rparr>"

definition sample_rule_link :: "uuid \<Rightarrow> string \<Rightarrow> rule_link" where
  "sample_rule_link m correo = new_link sample_sha (sample_link m) ''t1'' \<lparr>is_ruleSetId = ''r1'', is_memberId = m,
     is_correo = correo, is_kind = ''envio'', is_sentBy = ''m1'', is_now = 2000\<rparr>"

definition sample_drafted :: db where
  "sample_drafted = sample_db\<lparr>ruleSets := [sample_rule_set ''borrador'']\<rparr>"

definition sample_submitted :: db where
  "sample_submitted = sample_db\<lparr>ruleSets := [sample_rule_set ''pendiente''],
     ruleLinks := [sample_rule_link ''m1'' ''ana@x.mx'', sample_rule_link ''m2'' ''beto@x.mx'']\<rparr>"

definition sample_half :: db where
  "sample_half = snd (respond sample_sha ''t-m2'' Approve None ''x1'' 3000 sample_submitted)"

definition sample_in_force :: db where
  "sample_in_force = snd (respond sample_sha ''t-m1'' Approve None ''x2'' 4000 sample_half)"

lemma sample_beto_approves: "fst (respond sample_sha ''t-m2'' Approve None ''x1'' 3000 sample_submitted) = Inr ''aprobada''"
  by code_simp

lemma sample_ana_approves: "fst (respond sample_sha ''t-m1'' Approve None ''x2'' 4000 sample_half) = Inr ''vigente''"
  by code_simp

lemma respond_step:
  assumes "\<exists>l \<in> set (ruleLinks d). lk_tokenHash l = sha256 token \<and> ctx l = c"
  shows "rules_step sha256 money c (d, None) (snd (respond sha256 token decision reason k t d), None)"
proof -
  from assms obtain l where "l \<in> set (ruleLinks d)" "lk_tokenHash l = sha256 token" "ctx l = c" by blast
  then show ?thesis by (rule rules_step.respond) (simp_all add: prod_eq_iff)
qed

lemma sample_hash: "configHash sample_sha sample_rules = Inr ''{\"capi''"
  by code_simp

lemmas sample_rows = sample_rule_set_def sample_rule_link_def new_link_def sample_link_def sample_sha_def sample_db_def empty_db_def
  keys_ok_def rule_set_indexes_def book_ok_def approvals_ok_def answers_ok_def answer_links_def in_context_def sample_hash

lemma sample_invs:
  "rules_inv sample_sha ''t1'' (sample_drafted, None)" "rules_inv sample_sha ''t1'' (sample_submitted, None)"
  "rules_inv sample_sha ''t1'' (sample_half, None)"
proof -
  show "rules_inv sample_sha ''t1'' (sample_drafted, None)"
    by (rule rules_inv_intro) (use sample_hash in \<open>simp_all add: sample_drafted_def sample_rows\<close>)
  show s: "rules_inv sample_sha ''t1'' (sample_submitted, None)"
    by (rule rules_inv_intro) (use sample_hash in \<open>auto simp: sample_submitted_def sample_rows\<close>)
  have "\<exists>l \<in> set (ruleLinks sample_submitted). lk_tokenHash l = sample_sha ''t-m2'' \<and> ctx l = ''t1''" by code_simp
  from rules_step_inv [OF respond_step [where money = show_int and ?sha256.0 = sample_sha and token = "''t-m2''" and c = "''t1''", OF this] s]
  show "rules_inv sample_sha ''t1'' (sample_half, None)" unfolding sample_half_def .
qed

lemma sample_last_step: "rules_step sample_sha show_int ''t1'' (sample_half, None) (sample_in_force, None)"
  unfolding sample_in_force_def by (rule respond_step) code_simp

theorem rules_follow_life_cycle_witness:
  "rules_step sample_sha show_int ''t1'' (sample_half, None) (sample_in_force, None) \<and> rules_inv sample_sha ''t1'' (sample_half, None)
   \<and> vw_open (view ''t1'' sample_half) = {(1, False)} \<and> vw_in_force (view ''t1'' sample_in_force) = {1}
   \<and> life_cycle (view ''t1'' sample_half) (view ''t1'' sample_in_force)"
proof -
  have "map (\<lambda>s. (fr_status s, fr_version s)) (book ''t1'' sample_half) = [(''pendiente'', 1)]" by code_simp
  moreover have "map (\<lambda>s. (fr_status s, fr_version s)) (book ''t1'' sample_in_force) = [(''vigente'', 1)]" by code_simp
  ultimately have v: "vw_open (view ''t1'' sample_half) = {(1, False)}" "vw_in_force (view ''t1'' sample_in_force) = {1}"
    "vw_in_force (view ''t1'' sample_half) = {}"
    by (auto simp: view_def open_slot_def is_open_def OPEN_def)
  then have "view ''t1'' sample_in_force \<noteq> view ''t1'' sample_half" by auto
  with rules_follow_life_cycle [OF sample_last_step sample_invs(3)] v sample_last_step sample_invs(3) show ?thesis by simp
qed

theorem in_force_is_agreed_witness:
  "\<exists>s \<in> set (book ''t1'' sample_in_force). fr_status s = ''vigente'' \<and> agreed_by_all sample_sha ''t1'' sample_in_force s"
proof -
  have "\<exists>s \<in> set (book ''t1'' sample_in_force). fr_status s = ''vigente''" by code_simp
  then obtain s where s: "s \<in> set (book ''t1'' (fst (sample_in_force, None :: rules_tx option)))" "fr_status s = ''vigente''" by auto
  have "\<forall>s \<in> set (book ''t1'' sample_half). fr_status s \<noteq> ''vigente''" by code_simp
  with in_force_is_agreed [OF sample_last_step sample_invs(3) s] s show ?thesis by auto
qed

theorem requests_never_trip_guards_witness:
  "fst (respond sample_sha ''t-m9'' Approve None ''x9'' 3500 sample_half) = Inl invalidLink
   \<and> rules_inv sample_sha ''t1'' (sample_half, None) \<and> \<not> unexpected invalidLink"
proof -
  have r: "fst (respond sample_sha ''t-m9'' Approve None ''x9'' 3500 sample_half) = Inl invalidLink" by code_simp
  have "act_contextId ana = ''t1''" by (simp add: ana_def)
  from requests_never_trip_guards [where ?sha256.0 = sample_sha and token = "''t-m9''" and decision = Approve and reason = None
      and k = "''x9''" and t = 3500 and e = invalidLink, OF sample_invs(3) this] r
  show ?thesis using sample_invs(3) by blast
qed

theorem link_answers_once_witness:
  "(\<exists>l \<in> set (ruleLinks sample_submitted). lk_tokenHash l = sample_sha ''t-m2'' \<and> ctx l = ''t1'')
   \<and> (\<nexists>outcome. fst (respond sample_sha ''t-m2'' Object (Some ''no'') ''x9'' 3500 sample_half) = Inr outcome)"
proof -
  have ex: "\<exists>l \<in> set (ruleLinks sample_submitted). lk_tokenHash l = sample_sha ''t-m2'' \<and> ctx l = ''t1''" by code_simp
  then obtain l where l: "l \<in> set (ruleLinks sample_submitted)" "lk_tokenHash l = sample_sha ''t-m2''" "ctx l = ''t1''" by blast
  have r: "respond sample_sha ''t-m2'' Approve None ''x1'' 3000 sample_submitted = (Inr ''aprobada'', sample_half)"
    using sample_beto_approves by (simp add: sample_half_def prod_eq_iff)
  have "rules_runs sample_sha show_int ''t1'' (sample_half, None) (sample_half, None)" by (simp add: rules_runs_def)
  from link_answers_once [OF sample_invs(2) l _ r _ this surjective_pairing, of Object "Some ''no''" "''x9''" 3500] ex
  show ?thesis by simp
qed

theorem last_approval_in_force_witness:
  "\<exists>s d'. fr_status s = ''pendiente'' \<and> s \<in> set (book ''t1'' sample_half)
     \<and> respond sample_sha ''t-m1'' Approve None ''x2'' 4000 sample_half = (Inr ''vigente'', d') \<and> activated 4000 s \<in> set (book ''t1'' d')"
proof -
  have "\<exists>l \<in> set (ruleLinks sample_half). lk_tokenHash l = sample_sha ''t-m1'' \<and> ctx l = ''t1'' \<and> lk_ruleSetId l = ''r1''
      \<and> lk_memberId l = ''m1'' \<and> usable l 4000 sample_half" by code_simp
  then obtain l where l: "l \<in> set (ruleLinks sample_half)" "lk_tokenHash l = sample_sha ''t-m1''" "ctx l = ''t1''"
    and m: "lk_ruleSetId l = ''r1''" "lk_memberId l = ''m1''" and u: "usable l 4000 sample_half" by blast
  have "\<exists>s \<in> set (book ''t1'' sample_half). rid s = ''r1'' \<and> fr_status s = ''pendiente''" by code_simp
  then obtain s where s: "s \<in> set (book ''t1'' sample_half)" "rid s = ''r1''" "fr_status s = ''pendiente''" by blast
  have o: "\<forall>m \<in> set (socios sample_half ''t1''). rid m \<noteq> ''m1'' \<longrightarrow> approved_by sample_half ''t1'' ''r1'' (rid m)"
    "\<not> approved_by sample_half ''t1'' ''r1'' ''m1''" "''x2'' \<notin> rid ` set (ruleApprovals sample_half)" by code_simp+
  from last_approval_in_force [OF sample_invs(3) l s(1) _ s(3) u, of "''x2''" None] m s o show ?thesis by auto
qed

text \<open>Ana saves other rules over her draft, and the draft is discarded meanwhile.\<close>

definition sample_discard :: "db \<Rightarrow> db" where
  "sample_discard d = snd (discard ana ''r1'' 1500 d)"

theorem saveDraft_loses_race_witness:
  "saveDraft_reads sample_sha ana ''r2'' 1600 (config_json (sample_rules\<lparr>rc_repayBeforeCapital := False\<rparr>)) sample_drafted
     = Inr \<lparr>dp_newId = ''r2'', dp_now = 1600, dp_config = sample_rules\<lparr>rc_repayBeforeCapital := False\<rparr>,
            dp_hash = ''{\"capi'', dp_open = Some (sample_rule_set ''borrador'')\<rparr>
   \<and> saveDraft sample_sha sample_discard ana ''r2'' 1600 (config_json (sample_rules\<lparr>rc_repayBeforeCapital := False\<rparr>)) sample_drafted
     = (Inl guard_error, sample_discard sample_drafted)"
proof -
  let ?v = "config_json (sample_rules\<lparr>rc_repayBeforeCapital := False\<rparr>)"
  let ?plan = "\<lparr>dp_newId = ''r2'', dp_now = 1600, dp_config = sample_rules\<lparr>rc_repayBeforeCapital := False\<rparr>,
            dp_hash = ''{\"capi'', dp_open = Some (sample_rule_set ''borrador'')\<rparr>"
  have "parseRulesConfig ?v = Inr (sample_rules\<lparr>rc_repayBeforeCapital := False\<rparr>)" by code_simp
  moreover have "configHash sample_sha (sample_rules\<lparr>rc_repayBeforeCapital := False\<rparr>) = Inr ''{\"capi''" by code_simp
  moreover have "first_set ''t1'' is_draft sample_drafted = Some (sample_rule_set ''borrador'')"
    by (simp add: first_set_def sample_drafted_def sample_rule_set_def)
  ultimately have r: "saveDraft_reads sample_sha ana ''r2'' 1600 ?v sample_drafted = Inr ?plan"
    by (simp add: saveDraft_reads_def ana_def acting_def sample_rule_set_def)
  have "\<exists>s. find_row ''t1'' ''r1'' (ruleSets (sample_discard sample_drafted)) = Some s \<and> \<not> is_draft s \<and> rc_repayBeforeCapital (fr_config s)"
  proof -
    have "map (\<lambda>s. (rid s, ctx s, fr_status s, rc_repayBeforeCapital (fr_config s))) (ruleSets (sample_discard sample_drafted))
        = [(''r1'', ''t1'', ''descartada'', True)]" by code_simp
    then show ?thesis by (auto simp: find_row_def)
  qed
  then obtain s where s: "find_row ''t1'' ''r1'' (ruleSets (sample_discard sample_drafted)) = Some s" "\<not> is_draft s"
    "rc_repayBeforeCapital (fr_config s)" by blast
  have "saveDraft sample_sha sample_discard ana ''r2'' 1600 ?v sample_drafted = (Inl guard_error, sample_discard sample_drafted)"
    by (rule saveDraft_loses_race [where s = s and w = sample_discard, OF r]) (use s in \<open>auto simp: ana_def sample_rule_set_def\<close>)
  with r show ?thesis by blast
qed

end
