(* ===== verification/Devices.thy ===== *)
theory Devices
  imports Sample
begin

text \<open>
  The devices of a business (\<open>src/devices/devices.service.ts\<close>, \<open>src/common/device-secret.ts\<close>) and the guards every
  request passes (\<open>src/auth/auth.guard.ts\<close>, \<open>context.guard.ts\<close>, \<open>socio.guard.ts\<close>). A device waits for its
  one-time code, is active, or is revoked; \<open>authorized\<close> is what the services look at. \<open>sha256\<close>, the drawn
  identifiers and tokens, the clock and the outcome of a mail are parameters. A \<open>Forbidden\<close> carries no
  message here, so the 403 answers of the guards are not told apart.
\<close>

section \<open>Tables\<close>

text \<open>A device is stored under a primary key and an identifier that are unique over all businesses.\<close>

definition insert_device :: "device \<Rightarrow> db \<Rightarrow> db result" where
  "insert_device v d =
     (if d_identifier v \<in> d_identifier ` set (devices d) then Inl (UniqueViolation ''Device_identifier_key'')
      else case insert_row ''Device'' v (devices d) of Inl e \<Rightarrow> Inl e | Inr rows \<Rightarrow> Inr (d\<lparr>devices := rows\<rparr>))"

definition write_device :: "string \<Rightarrow> uuid \<Rightarrow> (device \<Rightarrow> device) \<Rightarrow> db \<Rightarrow> db" where
  "write_device c i f d = d\<lparr>devices := update_row c i f (devices d)\<rparr>"

section \<open>What the API shows\<close>

record device_summary =
  dv_id :: uuid
  dv_name :: string
  dv_status :: device_status
  dv_legacy :: bool
  dv_createdAt :: instant
  dv_activatedAt :: "instant option"
  dv_revokedAt :: "instant option"
  dv_identifier :: "string option"
  dv_deliveredTo :: "string option"

definition summarize :: "device \<Rightarrow> bool \<Rightarrow> device_summary" where
  "summarize v withIdentifier = \<lparr>dv_id = rid v, dv_name = d_name v, dv_status = d_status v,
     dv_legacy = (d_status v = Activo \<and> d_tokenHash v = None), dv_createdAt = d_createdAt v,
     dv_activatedAt = d_activatedAt v, dv_revokedAt = d_revokedAt v,
     dv_identifier = (if withIdentifier \<and> d_status v = PendienteActivacion then Some (d_identifier v) else None),
     dv_deliveredTo = None\<rparr>"

text \<open>\<open>mail\<close> is what sending the mail gives: to whom it was delivered, or \<open>None\<close> when it failed.\<close>

definition BadGateway :: failure where
  "BadGateway = Internal ''502''"

definition deliverOrReveal :: "device \<Rightarrow> string option \<Rightarrow> (string \<Rightarrow> string option) \<Rightarrow> device_summary result" where
  "deliverOrReveal v correoEnvio mail =
     (case correoEnvio of
        Some (x # xs) \<Rightarrow> (case mail (x # xs) of None \<Rightarrow> Inl BadGateway
          | Some to \<Rightarrow> Inr ((summarize v False)\<lparr>dv_deliveredTo := Some to\<rparr>))
      | _ \<Rightarrow> Inr (summarize v True))"

definition list_devices :: "string \<Rightarrow> db \<Rightarrow> device_summary list" where
  "list_devices c d = map (\<lambda>v. summarize v True) (sort_key (\<lambda>v. (d_createdAt v, rid v)) (in_context c (devices d)))"

section \<open>The requests\<close>

definition new_device :: "string \<Rightarrow> uuid \<Rightarrow> string \<Rightarrow> string \<Rightarrow> instant \<Rightarrow> device" where
  "new_device c i code name now = \<lparr>rid = i, ctx = c, d_name = name, d_identifier = code, d_authorized = False,
     d_createdAt = now, d_status = PendienteActivacion, d_tokenHash = None, d_activatedAt = None, d_revokedAt = None\<rparr>"

text \<open>The drawn identifier \<open>i\<close> and code, and the clock.\<close>

definition create_device ::
  "actor \<Rightarrow> string \<Rightarrow> string option \<Rightarrow> (string \<Rightarrow> string option) \<Rightarrow> uuid \<Rightarrow> string \<Rightarrow> instant \<Rightarrow> db \<Rightarrow> device_summary result \<times> db"
where
  "create_device actor name correoEnvio mail i code now =
     transaction (\<lambda>d. case authorize_actor d actor True of Inl e \<Rightarrow> Inl e
       | Inr _ \<Rightarrow> (let v = new_device (act_contextId actor) i code name now in
          (case insert_device v d of Inl e \<Rightarrow> Inl e
           | Inr d' \<Rightarrow> (case deliverOrReveal v correoEnvio mail of Inl e \<Rightarrow> Inl e | Inr s \<Rightarrow> Inr (s, d')))))"

definition code_used :: failure where
  "code_used = Conflict ''Este identificador ya fue usado. Pide a un socio que te genere uno nuevo.''"

definition device_revoked :: failure where
  "device_revoked = Conflict ''Este dispositivo fue revocado. Pide a un socio que te genere un identificador nuevo.''"

text \<open>What \<open>identify\<close> finds: an active device from before the codes, or a device that waits for its code.\<close>

definition identify_read :: "string \<Rightarrow> string \<Rightarrow> string \<Rightarrow> db \<Rightarrow> (uuid + uuid) result" where
  "identify_read c identifier name d =
     (case find (\<lambda>v. ctx v = c \<and> d_identifier v = identifier \<and> d_name v = name) (devices d) of
        None \<Rightarrow> Inl Forbidden
      | Some v \<Rightarrow>
          (case d_status v of
             Revocado \<Rightarrow> Inl device_revoked
           | Activo \<Rightarrow> if d_tokenHash v \<noteq> None then Inl code_used
               else if \<not> d_authorized v then Inl Forbidden else Inr (Inl (rid v))
           | PendienteActivacion \<Rightarrow> Inr (Inr (rid v))))"

definition activated_with :: "string \<Rightarrow> instant \<Rightarrow> device \<Rightarrow> device" where
  "activated_with h now v = v\<lparr>d_status := Activo, d_authorized := True, d_activatedAt := Some now, d_tokenHash := Some h\<rparr>"

text \<open>The conditional update of \<open>identify\<close>: how many rows it matched.\<close>

definition claim :: "(string \<Rightarrow> string) \<Rightarrow> string \<Rightarrow> uuid \<Rightarrow> string \<Rightarrow> instant \<Rightarrow> db \<Rightarrow> nat \<times> db" where
  "claim sha256 c i token now d =
     (let hits = (\<lambda>v. rid v = i \<and> ctx v = c \<and> d_status v = PendienteActivacion) in
      (length (filter hits (devices d)),
       d\<lparr>devices := map (\<lambda>v. if hits v then activated_with (sha256 token) now v else v) (devices d)\<rparr>))"

text \<open>\<open>w\<close> is what other transactions commit between the two statements.\<close>

definition identify ::
  "(string \<Rightarrow> string) \<Rightarrow> (db \<Rightarrow> db) \<Rightarrow> string \<Rightarrow> string \<Rightarrow> string \<Rightarrow> string \<Rightarrow> instant \<Rightarrow> db \<Rightarrow> (uuid \<times> string option) result \<times> db"
where
  "identify sha256 w c identifier name token now d =
     (case identify_read c identifier name d of
        Inl e \<Rightarrow> (Inl e, d)
      | Inr (Inl i) \<Rightarrow> (Inr (i, None), d)
      | Inr (Inr i) \<Rightarrow>
          (case claim sha256 c i token now (w d) of
             (n, d') \<Rightarrow> (if n = 0 then Inl code_used else Inr (i, Some token), d')))"

definition revoked_at :: "instant \<Rightarrow> device \<Rightarrow> device" where
  "revoked_at now v = v\<lparr>d_status := Revocado, d_authorized := False, d_revokedAt := Some now\<rparr>"

text \<open>\<open>revoke\<close> and \<open>reissue\<close> lock the row first, so the rest runs in the state the lock is granted in.\<close>

definition revoke :: "actor \<Rightarrow> uuid \<Rightarrow> instant \<Rightarrow> db \<Rightarrow> device_summary result \<times> db" where
  "revoke actor i now =
     transaction (\<lambda>d. case authorize_actor d actor True of Inl e \<Rightarrow> Inl e
       | Inr _ \<Rightarrow>
         (case find_row (act_contextId actor) i (devices d) of
            None \<Rightarrow> Inl (NotFound [])
          | Some v \<Rightarrow>
              if d_status v = Revocado then Inr (summarize v False, d)
              else Inr (summarize (revoked_at now v) False, write_device (act_contextId actor) i (revoked_at now) d)))"

definition reissued :: "string \<Rightarrow> device \<Rightarrow> device" where
  "reissued code v = v\<lparr>d_identifier := code, d_status := PendienteActivacion, d_authorized := False,
     d_tokenHash := None, d_activatedAt := None, d_revokedAt := None\<rparr>"

definition reissue :: "actor \<Rightarrow> uuid \<Rightarrow> string option \<Rightarrow> (string \<Rightarrow> string option) \<Rightarrow> string \<Rightarrow> db \<Rightarrow> device_summary result \<times> db" where
  "reissue actor i correoEnvio mail code =
     transaction (\<lambda>d. case authorize_actor d actor True of Inl e \<Rightarrow> Inl e
       | Inr _ \<Rightarrow>
         (case find_row (act_contextId actor) i (devices d) of
            None \<Rightarrow> Inl (NotFound [])
          | Some v \<Rightarrow>
              if code \<in> d_identifier ` {x \<in> set (devices d). rid x \<noteq> i} then Inl (UniqueViolation ''Device_identifier_key'')
              else (case deliverOrReveal (reissued code v) correoEnvio mail of Inl e \<Rightarrow> Inl e
                    | Inr s \<Rightarrow> Inr (s, write_device (act_contextId actor) i (reissued code) d))))"

section \<open>The guards\<close>

record session =
  se_id :: uuid
  se_contextId :: string
  se_memberId :: "uuid option"

text \<open>\<open>sub\<close> is the subject of a verified token, \<open>None\<close> when there is none or it is not a UUID.\<close>

definition Unauthorized :: failure where
  "Unauthorized = Internal ''401''"

definition auth_guard :: "uuid option \<Rightarrow> db \<Rightarrow> session result" where
  "auth_guard sub d =
     (case sub of None \<Rightarrow> Inl Unauthorized
      | Some s \<Rightarrow> (case find (\<lambda>a. rid a = s \<and> acc_active a) (accounts d) of
          None \<Rightarrow> Inl Unauthorized
        | Some a \<Rightarrow> Inr \<lparr>se_id = rid a, se_contextId = ctx a, se_memberId = acc_memberId a\<rparr>))"

definition HASH_HEX :: "string \<Rightarrow> bool" where
  "HASH_HEX h \<longleftrightarrow> length h = 64 \<and> list_all (\<lambda>c. is_digit c \<or> CHR ''a'' \<le> c \<and> c \<le> CHR ''f'') h"

definition verifyDeviceToken :: "(string \<Rightarrow> string) \<Rightarrow> string \<Rightarrow> string option \<Rightarrow> bool" where
  "verifyDeviceToken sha256 token storedHash \<longleftrightarrow> token \<noteq> []
     \<and> (case storedHash of None \<Rightarrow> False | Some h \<Rightarrow> HASH_HEX h \<and> sha256 token = h)"

text \<open>The headers \<open>x-device-id\<close> (when it is a UUID) and \<open>x-device-token\<close>.\<close>

definition context_guard ::
  "(string \<Rightarrow> string) \<Rightarrow> uuid option \<Rightarrow> uuid option \<Rightarrow> string option \<Rightarrow> db \<Rightarrow> actor result"
where
  "context_guard sha256 sub deviceId token d =
     (case auth_guard sub d of Inl e \<Rightarrow> Inl e
      | Inr account \<Rightarrow>
         (case (se_memberId account, deviceId) of
            (Some memberId, Some i) \<Rightarrow>
              (case (find (\<lambda>m. rid m = memberId \<and> ctx m = se_contextId account \<and> m_active m) (members d),
                     find (\<lambda>v. rid v = i \<and> ctx v = se_contextId account \<and> d_authorized v) (devices d)) of
                 (Some m, Some v) \<Rightarrow>
                   if d_tokenHash v \<noteq> None \<and> (case token of None \<Rightarrow> True | Some t \<Rightarrow> \<not> verifyDeviceToken sha256 t (d_tokenHash v))
                   then Inl Forbidden
                   else Inr \<lparr>act_accountId = se_id account, act_contextId = se_contextId account,
                              act_selection = Some (memberId, i)\<rparr>
               | _ \<Rightarrow> Inl Forbidden)
          | _ \<Rightarrow> Inl Forbidden))"

definition socio_guard ::
  "(string \<Rightarrow> string) \<Rightarrow> uuid option \<Rightarrow> uuid option \<Rightarrow> string option \<Rightarrow> db \<Rightarrow> actor result"
where
  "socio_guard sha256 sub deviceId token d =
     (case context_guard sha256 sub deviceId token d of Inl e \<Rightarrow> Inl e
      | Inr a \<Rightarrow> (case act_selection a of None \<Rightarrow> Inl Forbidden
          | Some (memberId, i) \<Rightarrow>
              (case find (\<lambda>m. rid m = memberId \<and> ctx m = act_contextId a \<and> m_role m = Socio \<and> m_active m) (members d) of
                 None \<Rightarrow> Inl Forbidden | Some _ \<Rightarrow> Inr a)))"

section \<open>Requests in any order\<close>

text \<open>
  What one commit does to the devices: a request of this service, where \<open>Claim\<close> is the write of an
  \<open>identify\<close> (whatever it read, however long ago); a device enrolled with an account (an approved
  registration, an accepted invitation); or anything else, which leaves the devices alone.
\<close>

datatype device_request =
    Create actor string "string option" "string \<Rightarrow> string option" uuid string instant
  | Claim string uuid string instant
  | Revoke actor uuid instant
  | Reissue actor uuid "string option" "string \<Rightarrow> string option" string
  | Enrol device
  | Elsewhere "db \<Rightarrow> db"

fun commit_device :: "(string \<Rightarrow> string) \<Rightarrow> device_request \<Rightarrow> db \<Rightarrow> db" where
  "commit_device H (Create actor name correo mail i code now) d = snd (create_device actor name correo mail i code now d)"
| "commit_device H (Claim c i token now) d = snd (claim H c i token now d)"
| "commit_device H (Revoke actor i now) d = snd (revoke actor i now d)"
| "commit_device H (Reissue actor i correo mail code) d = snd (reissue actor i correo mail code d)"
| "commit_device H (Enrol v) d = (case insert_device v d of Inl e \<Rightarrow> d | Inr d' \<Rightarrow> d')"
| "commit_device H (Elsewhere f) d = f d"

fun device_sound :: "device \<Rightarrow> bool" where
  "device_sound v \<longleftrightarrow>
     (d_authorized v \<longleftrightarrow> d_status v = Activo)
     \<and> (d_status v = PendienteActivacion \<longrightarrow> d_tokenHash v = None \<and> d_activatedAt v = None)
     \<and> (d_revokedAt v \<noteq> None \<longleftrightarrow> d_status v = Revocado)"

fun admitted :: "device_request \<Rightarrow> bool" where
  "admitted (Enrol v) \<longleftrightarrow> device_sound v \<and> d_status v = Activo"
| "admitted (Elsewhere f) \<longleftrightarrow> (\<forall>d. devices (f d) = devices d)"
| "admitted _ \<longleftrightarrow> True"

definition commits :: "(string \<Rightarrow> string) \<Rightarrow> device_request list \<Rightarrow> db \<Rightarrow> db" where
  "commits H reqs d = fold (commit_device H) reqs d"

definition devices_sound :: "db \<Rightarrow> bool" where
  "devices_sound d \<longleftrightarrow> distinct (map rid (devices d)) \<and> distinct (map d_identifier (devices d))
     \<and> list_all device_sound (devices d)"

text \<open>What each commit does to the list of devices.\<close>

lemma insert_device_Inr:
  "insert_device v d = Inr d' \<Longrightarrow> devices d' = devices d @ [v] \<and> rid v \<notin> rid ` set (devices d)
     \<and> d_identifier v \<notin> d_identifier ` set (devices d)"
  by (auto simp: insert_device_def split: if_splits sum.splits dest: insert_row_Inr)

lemma commit_cases:
  assumes "admitted q"
  obtains (same) "devices (commit_device H q d) = devices d"
  | (added) v where "devices (commit_device H q d) = devices d @ [v]" "rid v \<notin> rid ` set (devices d)"
      "d_identifier v \<notin> d_identifier ` set (devices d)" "device_sound v"
  | (claimed) c i token now where "q = Claim c i token now" "devices (commit_device H q d) =
      map (\<lambda>v. if rid v = i \<and> ctx v = c \<and> d_status v = PendienteActivacion then activated_with (H token) now v else v) (devices d)"
  | (revoked) actor i now where "q = Revoke actor i now"
      "devices (commit_device H q d) = update_row (act_contextId actor) i (revoked_at now) (devices d)"
  | (reissued) actor i correo mail code where "q = Reissue actor i correo mail code"
      "devices (commit_device H q d) = update_row (act_contextId actor) i (reissued code) (devices d)"
      "code \<notin> d_identifier ` {x \<in> set (devices d). rid x \<noteq> i}"
proof (cases q)
  case (Create actor name correo mail i code now)
  let ?v = "new_device (act_contextId actor) i code name now"
  have "device_sound ?v" by (simp add: new_device_def)
  moreover have "devices (commit_device H q d) = devices d
      \<or> (\<exists>d'. insert_device ?v d = Inr d' \<and> devices (commit_device H q d) = devices d')"
    using Create by (auto simp: create_device_def transaction_def Let_def split: sum.splits)
  ultimately show ?thesis using same added insert_device_Inr [of ?v d] by metis
next
  case (Claim c i token now)
  then show ?thesis by (intro claimed [of c i token now]) (simp_all add: claim_def Let_def)
next
  case (Revoke actor i now)
  then have "devices (commit_device H q d) = devices d
      \<or> devices (commit_device H q d) = update_row (act_contextId actor) i (revoked_at now) (devices d)"
    by (auto simp: revoke_def transaction_def write_device_def split: sum.splits option.splits if_splits)
  with Revoke show ?thesis using same revoked by blast
next
  case (Reissue actor i correo mail code)
  then have "devices (commit_device H q d) = devices d
      \<or> devices (commit_device H q d) = update_row (act_contextId actor) i (reissued code) (devices d)
        \<and> code \<notin> d_identifier ` {x \<in> set (devices d). rid x \<noteq> i}"
    by (auto simp: reissue_def transaction_def write_device_def split: sum.splits option.splits if_splits)
  with Reissue show ?thesis using same reissued by blast
next
  case (Enrol v)
  have "devices (commit_device H q d) = devices d
      \<or> (\<exists>d'. insert_device v d = Inr d' \<and> devices (commit_device H q d) = devices d')"
    using Enrol by (auto split: sum.splits)
  moreover have "device_sound v" using assms Enrol by simp
  ultimately show ?thesis using same added insert_device_Inr [of v d] by metis
next
  case (Elsewhere f)
  with assms same show ?thesis by simp
qed

lemma reissued_identifiers:
  assumes "distinct (map d_identifier vs)" "distinct (map rid vs)" "code \<notin> d_identifier ` {x \<in> set vs. rid x \<noteq> i}"
  shows "distinct (map d_identifier (update_row c i (reissued code) vs))"
proof -
  let ?g = "\<lambda>x. if rid x = i \<and> ctx x = c then code else d_identifier x"
  have inj: "x = y" if "x \<in> set vs" "y \<in> set vs" "rid x = rid y" for x y
    using that assms(2) by (metis distinct_map inj_onD)
  have "inj_on ?g (set vs)"
  proof (rule inj_onI)
    fix x y assume x: "x \<in> set vs" and y: "y \<in> set vs" and g: "?g x = ?g y"
    have other: "z \<in> set vs \<Longrightarrow> rid z \<noteq> i \<Longrightarrow> d_identifier z \<noteq> code" for z using assms(3) by blast
    show "x = y"
    proof (cases "rid x = rid y")
      case False
      then have "\<not> ((rid x = i \<and> ctx x = c) \<and> (rid y = i \<and> ctx y = c))" by auto
      then have "d_identifier x = d_identifier y \<and> \<not> (rid x = i \<and> ctx x = c)"
        using g x y False other by (metis (no_types, lifting))
      then show ?thesis using x y assms(1) by (metis distinct_map inj_onD)
    qed (use inj x y in blast)
  qed
  moreover have "map d_identifier (update_row c i (reissued code) vs) = map ?g vs"
    by (simp add: update_row_def reissued_def)
  moreover have "distinct vs" using assms(2) by (simp add: distinct_map)
  ultimately show ?thesis by (simp add: distinct_map)
qed

lemma map_unchanged: "(\<And>v. g (f v) = g v) \<Longrightarrow> map g (map (\<lambda>v. if P v then f v else v) vs) = map g vs"
  by simp

lemma devices_sound_commit:
  assumes "devices_sound d" "admitted q"
  shows "devices_sound (commit_device H q d)"
  using assms(2)
proof (cases rule: commit_cases [where H = H and d = d])
  case same
  with assms(1) show ?thesis by (simp add: devices_sound_def)
next
  case (added v)
  with assms(1) show ?thesis by (auto simp: devices_sound_def)
next
  case (claimed c i token now)
  have "map g (devices (commit_device H q d)) = map g (devices d)" if "\<And>v. g (activated_with (H token) now v) = g v" for g :: "device \<Rightarrow> string"
    unfolding claimed(2) by (rule map_unchanged) (rule that)
  then have "map rid (devices (commit_device H q d)) = map rid (devices d)"
    "map d_identifier (devices (commit_device H q d)) = map d_identifier (devices d)" by (simp_all add: activated_with_def)
  moreover have "list_all device_sound (devices (commit_device H q d))"
    using assms(1) unfolding claimed(2) by (auto simp: devices_sound_def list_all_iff activated_with_def)
  ultimately show ?thesis using assms(1) by (simp only: devices_sound_def)
next
  case (revoked actor i now)
  have "map g (devices (commit_device H q d)) = map g (devices d)" if "\<And>v. g (revoked_at now v) = g v" for g :: "device \<Rightarrow> string"
    unfolding revoked(2) update_row_def by (rule map_unchanged) (rule that)
  then have "map rid (devices (commit_device H q d)) = map rid (devices d)"
    "map d_identifier (devices (commit_device H q d)) = map d_identifier (devices d)" by (simp_all add: revoked_at_def)
  moreover have "list_all device_sound (devices (commit_device H q d))"
    using assms(1) unfolding revoked(2) by (auto simp: devices_sound_def list_all_iff update_row_def revoked_at_def)
  ultimately show ?thesis using assms(1) by (simp only: devices_sound_def)
next
  case (reissued actor i correo mail code)
  have "map rid (update_row (act_contextId actor) i (reissued code) (devices d)) = map rid (devices d)"
    by (rule map_rid_update_row) (simp add: reissued_def)
  moreover have "list_all device_sound (update_row (act_contextId actor) i (reissued code) (devices d))"
    using assms(1) by (auto simp: devices_sound_def list_all_iff update_row_def reissued_def)
  ultimately show ?thesis using assms(1) reissued_identifiers [OF _ _ reissued(3)] reissued(2) by (simp add: devices_sound_def)
qed

lemma devices_sound_commits:
  "devices_sound d \<Longrightarrow> list_all admitted reqs \<Longrightarrow> devices_sound (commits H reqs d)"
  by (induction reqs arbitrary: d) (simp_all add: commits_def devices_sound_commit)

section \<open>What a device may do\<close>

text \<open>The device \<open>i\<close> no longer waits for a code, and its token, if it has one, is that of \<open>h\<close>.\<close>

definition settled_device :: "uuid \<Rightarrow> string option \<Rightarrow> db \<Rightarrow> bool" where
  "settled_device i h d \<longleftrightarrow> i \<in> rid ` set (devices d)
     \<and> (\<forall>v \<in> set (devices d). rid v = i \<longrightarrow> d_status v \<noteq> PendienteActivacion \<and> d_tokenHash v = h)"

definition shut_device :: "uuid \<Rightarrow> db \<Rightarrow> bool" where
  "shut_device i d \<longleftrightarrow> i \<in> rid ` set (devices d) \<and> (\<forall>v \<in> set (devices d). rid v = i \<longrightarrow> d_status v = Revocado)"

fun reissues :: "uuid \<Rightarrow> device_request \<Rightarrow> bool" where
  "reissues i (Reissue actor j correo mail code) \<longleftrightarrow> j = i"
| "reissues i _ \<longleftrightarrow> False"

lemma settled_map:
  assumes "settled_device i h d" "devices d' = map f (devices d)" "\<And>v. rid (f v) = rid v"
    and "\<And>v. rid v = i \<Longrightarrow> d_status v \<noteq> PendienteActivacion \<Longrightarrow> d_status (f v) \<noteq> PendienteActivacion
           \<and> d_tokenHash (f v) = d_tokenHash v \<and> (d_status v = Revocado \<longrightarrow> d_status (f v) = Revocado)"
  shows "settled_device i h d' \<and> (shut_device i d \<longrightarrow> shut_device i d')"
proof -
  have "rid ` set (devices d') = rid ` set (devices d)" using assms(2,3) by (simp add: image_image)
  with assms show ?thesis by (auto simp: settled_device_def shut_device_def)
qed

lemma settled_commit:
  assumes "settled_device i h d" "admitted q" "\<not> reissues i q"
  shows "settled_device i h (commit_device H q d) \<and> (shut_device i d \<longrightarrow> shut_device i (commit_device H q d))"
  using assms(2)
proof (cases rule: commit_cases [where H = H and d = d])
  case same
  with assms(1) show ?thesis by (simp add: settled_device_def shut_device_def)
next
  case (added v)
  with assms(1) show ?thesis by (auto simp: settled_device_def shut_device_def)
next
  case (claimed c j token now)
  show ?thesis by (rule settled_map [OF assms(1) claimed(2)]) (auto simp: activated_with_def)
next
  case (revoked actor j now)
  show ?thesis by (rule settled_map [OF assms(1) revoked(2) [unfolded update_row_def]]) (auto simp: revoked_at_def)
next
  case (reissued actor j correo mail code)
  with assms(3) have "j \<noteq> i" by simp
  then show ?thesis by (intro settled_map [OF assms(1) reissued(2) [unfolded update_row_def]]) (auto simp: reissued_def)
qed

lemma settled_commits:
  assumes "settled_device i h d" "list_all admitted reqs" "list_all (\<lambda>q. \<not> reissues i q) reqs"
  shows "settled_device i h (commits H reqs d)" "shut_device i d \<Longrightarrow> shut_device i (commits H reqs d)"
proof -
  have "settled_device i h (commits H reqs d) \<and> (shut_device i d \<longrightarrow> shut_device i (commits H reqs d))"
    using assms
  proof (induction reqs arbitrary: d)
    case (Cons q reqs)
    with settled_commit [of i h d q H] show ?case by (simp add: commits_def)
  qed (simp add: commits_def)
  then show "settled_device i h (commits H reqs d)" "shut_device i d \<Longrightarrow> shut_device i (commits H reqs d)" by blast+
qed

lemma settled_no_claim: "settled_device i h d \<Longrightarrow> claim H c i token now d = (0, d)"
proof -
  assume s: "settled_device i h d"
  then have "map (\<lambda>v. if rid v = i \<and> ctx v = c \<and> d_status v = PendienteActivacion then activated_with (H token) now v else v)
      (devices d) = devices d" by (intro map_idI) (auto simp: settled_device_def)
  moreover have "filter (\<lambda>v. rid v = i \<and> ctx v = c \<and> d_status v = PendienteActivacion) (devices d) = []"
    using s by (auto simp: settled_device_def filter_empty_conv)
  ultimately show ?thesis by (simp add: claim_def Let_def)
qed

text \<open>What a request that names a device has shown.\<close>

lemma context_guard_device:
  assumes "context_guard H sub (Some i) token d = Inr a"
  obtains v where "v \<in> set (devices d)" "rid v = i" "ctx v = act_contextId a" "d_authorized v"
    "d_tokenHash v = None \<or> (\<exists>t. token = Some t \<and> Some (H t) = d_tokenHash v)"
proof -
  obtain account where account: "auth_guard sub d = Inr account"
    using assms by (auto simp: context_guard_def split: sum.splits)
  let ?find = "find (\<lambda>v. rid v = i \<and> ctx v = se_contextId account \<and> d_authorized v) (devices d)"
  obtain v where "?find = Some v" using assms by (auto simp: context_guard_def account split: option.splits)
  moreover from this have t: "\<not> (d_tokenHash v \<noteq> None \<and> (case token of None \<Rightarrow> True | Some t \<Rightarrow> \<not> verifyDeviceToken H t (d_tokenHash v)))"
    and a: "act_contextId a = se_contextId account"
    using assms by (auto simp: context_guard_def account split: option.splits if_splits)
  ultimately have "?find = Some v" by blast
  from find_Some_set [OF this(1)] show ?thesis
    using t a by (intro that [of v]) (auto simp: verifyDeviceToken_def split: option.splits)
qed

lemma unique_device:
  assumes "devices_sound d" "v \<in> set (devices d)" "x \<in> set (devices d)" "rid v = rid x"
  shows "v = x"
  using assms unfolding devices_sound_def by (metis distinct_map inj_onD)

lemma identify_claims:
  assumes "identify H w c code name token now d = (Inr (i, Some t), d')"
  shows "t = token \<and> identify_read c code name d = Inr (Inr i) \<and> claim H c i token now (w d) = (fst (claim H c i token now (w d)), d')
    \<and> fst (claim H c i token now (w d)) \<noteq> 0"
  using assms by (auto simp: identify_def split: sum.splits prod.splits if_splits)

lemma claim_settles:
  assumes "devices_sound d" "fst (claim H c i token now d) \<noteq> 0"
  shows "settled_device i (Some (H token)) (snd (claim H c i token now d))"
proof -
  obtain v where v: "v \<in> set (devices d)" "rid v = i" "ctx v = c" "d_status v = PendienteActivacion"
    using assms(2) by (auto simp: claim_def Let_def filter_empty_conv)
  have only: "x = v" if "x \<in> set (devices d)" "rid x = i" for x using unique_device [OF assms(1) that(1) v(1)] that(2) v(2) by simp
  have "d_status x \<noteq> PendienteActivacion \<and> d_tokenHash x = Some (H token)"
    if x: "x \<in> set (devices (snd (claim H c i token now d)))" "rid x = i" for x
  proof -
    obtain y where y: "y \<in> set (devices d)"
      "x = (if rid y = i \<and> ctx y = c \<and> d_status y = PendienteActivacion then activated_with (H token) now y else y)"
      using x(1) by (auto simp: claim_def Let_def)
    then have "rid y = i" using x(2) by (auto simp: activated_with_def split: if_splits)
    then have "y = v" using only y(1) by blast
    with y(2) v show ?thesis by (simp add: activated_with_def)
  qed
  moreover have "map rid (devices (snd (claim H c i token now d))) = map rid (devices d)"
    unfolding claim_def Let_def by (simp add: activated_with_def)
  then have "rid ` set (devices (snd (claim H c i token now d))) = rid ` set (devices d)" by (metis list.set_map)
  ultimately show ?thesis using v by (auto simp: settled_device_def)
qed

section \<open>Properties\<close>

text \<open>C25: the devices stay in step. Whatever the order of the requests, of activations that read long ago and of the
  devices enrolled elsewhere: a device is authorized exactly while it is active, one that waits for its code
  has neither a token nor an activation, exactly the revoked ones say when they were revoked, identifiers and
  codes are unique, and the list shows the code of a device only while it can still be redeemed.\<close>

theorem devices_stay_sound:
  assumes "devices_sound d" "list_all admitted reqs"
  shows "devices_sound (commits H reqs d)
    \<and> (\<forall>s \<in> set (list_devices c (commits H reqs d)). dv_identifier s \<noteq> None \<longleftrightarrow> dv_status s = PendienteActivacion)
    \<and> (\<forall>sub i token a. context_guard H sub (Some i) token (commits H reqs d) = Inr a \<longrightarrow>
         (\<exists>v \<in> set (devices (commits H reqs d)). rid v = i \<and> ctx v = act_contextId a \<and> d_status v = Activo))"
proof -
  have inv: "devices_sound (commits H reqs d)" by (rule devices_sound_commits [OF assms])
  moreover have "\<exists>v \<in> set (devices (commits H reqs d)). rid v = i \<and> ctx v = act_contextId a \<and> d_status v = Activo"
    if g: "context_guard H sub (Some i) token (commits H reqs d) = Inr a" for sub i token a
  proof -
    obtain v where "v \<in> set (devices (commits H reqs d))" "rid v = i" "ctx v = act_contextId a" "d_authorized v"
      using g by (rule context_guard_device)
    with inv show ?thesis unfolding devices_sound_def list_all_iff by (auto intro!: bexI [of _ v])
  qed
  ultimately show ?thesis by (auto simp: list_devices_def summarize_def)
qed


text \<open>C23: a revoked device is out at once. From the answer of \<open>revoke\<close> on, whatever is requested next, no request that
  names the device passes the guard, with any account and any token, and no code activates it; until a
  partner issues a new code.\<close>

theorem revoked_device_refused:
  assumes "devices_sound d" "revoke actor i now d = (Inr s, d1)"
    and "list_all admitted reqs" "list_all (\<lambda>q. \<not> reissues i q) reqs"
  shows "\<not> is_ok (context_guard H sub (Some i) header (commits H reqs d1))
    \<and> claim H c' i token' now' (commits H reqs d1) = (0, commits H reqs d1)"
proof -
  obtain v where v: "find_row (act_contextId actor) i (devices d) = Some v"
    and d1: "if d_status v = Revocado then d1 = d else d1 = write_device (act_contextId actor) i (revoked_at now) d"
    using assms(2) by (auto simp: revoke_def transaction_def split: sum.splits option.splits if_splits)
  note row = find_row_Some [OF v]
  have only: "x = v" if "x \<in> set (devices d)" "rid x = i" for x
    using unique_device [OF assms(1) that(1)] row that(2) by metis
  have vs: "devices d1 = update_row (act_contextId actor) i (\<lambda>x. if d_status x = Revocado then x else revoked_at now x) (devices d)"
  proof (cases "d_status v = Revocado")
    case True
    then have "update_row (act_contextId actor) i (\<lambda>x. if d_status x = Revocado then x else revoked_at now x) (devices d) = devices d"
      unfolding update_row_def by (intro map_idI) (use only in auto)
    with True d1 show ?thesis by simp
  next
    case False
    then show ?thesis using d1 only by (auto simp: write_device_def update_row_def)
  qed
  have "rid x = i \<longrightarrow> d_status x = Revocado \<and> d_tokenHash x = d_tokenHash v" if "x \<in> set (devices d1)" for x
  proof
    assume i: "rid x = i"
    obtain y where y: "y \<in> set (devices d)" "x = (if rid y = i \<and> ctx y = act_contextId actor
        then if d_status y = Revocado then y else revoked_at now y else y)"
      using \<open>x \<in> set (devices d1)\<close> unfolding vs update_row_def by auto
    then have "rid y = i" using i by (auto simp: revoked_at_def split: if_splits)
    then have "y = v" using only y(1) by blast
    with y(2) row show "d_status x = Revocado \<and> d_tokenHash x = d_tokenHash v" by (simp add: revoked_at_def)
  qed
  moreover have "i \<in> rid ` set (devices d1)"
  proof -
    have "map rid (devices d1) = map rid (devices d)" unfolding vs by (rule map_rid_update_row) (simp add: revoked_at_def)
    then have "rid ` set (devices d1) = rid ` set (devices d)" by (metis list.set_map)
    with row show ?thesis by auto
  qed
  ultimately have "settled_device i (d_tokenHash v) d1 \<and> shut_device i d1"
    by (auto simp: settled_device_def shut_device_def)
  then have shut: "settled_device i (d_tokenHash v) (commits H reqs d1)" "shut_device i (commits H reqs d1)"
    using settled_commits [OF _ assms(3,4)] by blast+
  have "devices_sound d1" using devices_sound_commit [OF assms(1), of "Revoke actor i now"] assms(2) by simp
  then have "devices_sound (commits H reqs d1)" by (rule devices_sound_commits [OF _ assms(3)])
  then have "\<not> is_ok (context_guard H sub (Some i) header (commits H reqs d1))"
    using shut(2) by (auto simp: is_ok_iff shut_device_def devices_sound_def list_all_iff elim!: context_guard_device)
  with settled_no_claim [OF shut(1)] show ?thesis by blast
qed

text \<open>
  A code that is replaced while it is being redeemed still works: \<open>identify\<close> looks the device up by its
  code, but its update only asks that the device waits for a code.
\<close>

lemma replaced_code_still_activates:
  assumes "devices_sound d" "identify_read (act_contextId actor) code name d = Inr (Inr i)"
    and "reissue actor i correo mail code' d = (Inr s, d1)"
  shows "\<exists>d2. identify H (\<lambda>_. d1) (act_contextId actor) code name token now d = (Inr (i, Some token), d2)"
proof -
  let ?c = "act_contextId actor"
  obtain v where v: "find_row ?c i (devices d) = Some v" and d1: "d1 = write_device ?c i (reissued code') d"
    using assms(3) by (auto simp: reissue_def transaction_def split: sum.splits option.splits if_splits)
  have "reissued code' v \<in> set (devices d1)" using find_row_Some [OF v] by (auto simp: d1 write_device_def update_row_def)
  then have "fst (claim H ?c i token now d1) \<noteq> 0"
    using find_row_Some [OF v] by (auto simp: claim_def Let_def filter_empty_conv reissued_def intro!: bexI [of _ "reissued code' v"])
  with assms(2) show ?thesis by (auto simp: identify_def split: prod.splits)
qed

section \<open>A tablet for the counter\<close>

definition sample_digest :: "string \<Rightarrow> string" where
  "sample_digest t = (if t = ''T1'' then replicate 64 (CHR ''a'') else replicate 64 (CHR ''b''))"

definition counter_requests :: "device_request list" where
  "counter_requests = [Create ana ''Caja'' None (\<lambda>_. None) ''d2'' ''k2'' 10, Claim ''t1'' ''d2'' ''T1'' 20,
     Claim ''t1'' ''d2'' ''T2'' 25, Revoke ana ''d1'' 30]"

definition counter_db :: db where
  "counter_db = snd (create_device ana ''Caja'' None (\<lambda>_. None) ''d2'' ''k2'' 10 sample_db)"

lemma devices_stay_sound_witness:
  "devices_sound (commits sample_digest counter_requests sample_db)
   \<and> map (\<lambda>v. (rid v, d_status v)) (devices (commits sample_digest counter_requests sample_db)) = [(''d1'', Revocado), (''d2'', Activo)]
   \<and> is_ok (context_guard sample_digest (Some ''a1'') (Some ''d2'') (Some ''T1'') (commits sample_digest counter_requests sample_db))"
proof -
  have a: "devices_sound sample_db" by code_simp
  have b: "list_all admitted counter_requests" by (simp add: counter_requests_def)
  note inv = conjunct1 [OF devices_stay_sound [OF a b, of sample_digest]]
  have "map (\<lambda>v. (rid v, d_status v)) (devices (commits sample_digest counter_requests sample_db)) = [(''d1'', Revocado), (''d2'', Activo)]"
    "is_ok (context_guard sample_digest (Some ''a1'') (Some ''d2'') (Some ''T1'') (commits sample_digest counter_requests sample_db))"
    by code_simp+
  with inv show ?thesis by blast
qed


lemma revoked_device_refused_witness:
  "\<exists>s d1. revoke ana ''d1'' 30 counter_db = (Inr s, d1) \<and> is_ok (context_guard sample_digest (Some ''a1'') (Some ''d1'') None counter_db)
     \<and> \<not> is_ok (context_guard sample_digest (Some ''a1'') (Some ''d1'') None (commits sample_digest [Claim ''t1'' ''d1'' ''T2'' 40] d1))"
proof -
  have run: "is_ok (fst (revoke ana ''d1'' 30 counter_db))" "devices_sound counter_db"
    "is_ok (context_guard sample_digest (Some ''a1'') (Some ''d1'') None counter_db)" by code_simp+
  have "revoke ana ''d1'' 30 counter_db = (Inr (projr (fst (revoke ana ''d1'' 30 counter_db))), snd (revoke ana ''d1'' 30 counter_db))"
    using is_ok_projr [OF run(1)] by (metis prod.collapse)
  note out = this
  have "list_all admitted [Claim ''t1'' ''d1'' ''T2'' 40]" "list_all (\<lambda>q. \<not> reissues ''d1'' q) [Claim ''t1'' ''d1'' ''T2'' 40]" by simp_all
  from revoked_device_refused [OF run(2) out this] out run(3) show ?thesis by blast
qed

end
