(* ===== verification/Accounts.thy ===== *)
theory Accounts
  imports Devices
begin

text \<open>
  People and their logins: the tables with their unique keys, the credentials a new login gets
  (\<open>src/business-registration/initial-credentials.ts\<close>, \<open>src/common/full-name.ts\<close>) and the login itself
  (\<open>src/auth/auth.service.ts\<close>). Hashing and verifying a password, signing a token and removing the accents of
  a name are parameters; a password in the clear is never stored, so it only occurs as what is verified.
\<close>

section \<open>Tables\<close>

text \<open>The unique keys hold over all businesses.\<close>

definition insert_member :: "member \<Rightarrow> db \<Rightarrow> db result" where
  "insert_member m d =
     (if m_correo m \<noteq> None \<and> m_correo m \<in> m_correo ` set (members d) then Inl (UniqueViolation ''Member_correo_key'')
      else case insert_row ''Member'' m (members d) of Inl e \<Rightarrow> Inl e | Inr rows \<Rightarrow> Inr (d\<lparr>members := rows\<rparr>))"

definition insert_account :: "account \<Rightarrow> db \<Rightarrow> db result" where
  "insert_account a d =
     (if acc_username a \<in> acc_username ` set (accounts d) then Inl (UniqueViolation ''Account_username_key'')
      else if acc_memberId a \<noteq> None \<and> acc_memberId a \<in> acc_memberId ` set (accounts d)
        then Inl (UniqueViolation ''Account_memberId_key'')
      else case insert_row ''Account'' a (accounts d) of Inl e \<Rightarrow> Inl e | Inr rows \<Rightarrow> Inr (d\<lparr>accounts := rows\<rparr>))"

definition username_taken :: "string \<Rightarrow> db \<Rightarrow> bool" where
  "username_taken u d \<longleftrightarrow> u \<in> acc_username ` set (accounts d)"

lemma insert_member_Inr: "insert_member m d = Inr d' \<Longrightarrow> d' = d\<lparr>members := members d @ [m]\<rparr>
    \<and> rid m \<notin> rid ` set (members d) \<and> (m_correo m \<noteq> None \<longrightarrow> m_correo m \<notin> m_correo ` set (members d))"
  by (auto simp: insert_member_def split: if_splits sum.splits dest!: insert_row_Inr)

lemma insert_account_Inr: "insert_account a d = Inr d' \<Longrightarrow> d' = d\<lparr>accounts := accounts d @ [a]\<rparr>
    \<and> rid a \<notin> rid ` set (accounts d) \<and> acc_username a \<notin> acc_username ` set (accounts d)
    \<and> (acc_memberId a \<noteq> None \<longrightarrow> acc_memberId a \<notin> acc_memberId ` set (accounts d))"
  by (auto simp: insert_account_def split: if_splits sum.splits dest!: insert_row_Inr)

section \<open>Credentials\<close>

definition MAX_EMAIL_LENGTH :: nat where "MAX_EMAIL_LENGTH = 254"
definition MAX_USERNAME_LENGTH :: nat where "MAX_USERNAME_LENGTH = 100"
definition MAX_SLUG_LENGTH :: nat where "MAX_SLUG_LENGTH = 30"
definition USERNAME_ATTEMPTS :: nat where "USERNAME_ATTEMPTS = 5"

definition is_letter :: "char \<Rightarrow> bool" where
  "is_letter c \<longleftrightarrow> CHR ''a'' \<le> c \<and> c \<le> CHR ''z''"

primrec split_at :: "char \<Rightarrow> string \<Rightarrow> string list" where
  "split_at c [] = [[]]"
| "split_at c (x # xs) = (if x = c then [] # split_at c xs else (x # hd (split_at c xs)) # tl (split_at c xs))"

text \<open>
  \<open>/^[a-z0-9._%+-]+@[a-z0-9-]+(\.[a-z0-9-]+)+$/i\<close> on text in lower case: one \<open>@\<close>, something before it and at
  least two labels after it.
\<close>

definition EMAIL_PATTERN :: "string \<Rightarrow> bool" where
  "EMAIL_PATTERN s \<longleftrightarrow> (case split_at (CHR ''@'') s of
     [local, domain] \<Rightarrow> local \<noteq> [] \<and> list_all (\<lambda>c. is_letter c \<or> is_digit c \<or> c \<in> set ''._%+-'') local
       \<and> 2 \<le> length (split_at (CHR ''.'') domain)
       \<and> list_all (\<lambda>l. l \<noteq> [] \<and> list_all (\<lambda>c. is_letter c \<or> is_digit c \<or> c = CHR ''-'') l) (split_at (CHR ''.'') domain)
   | _ \<Rightarrow> False)"

definition normalizeSocioEmail :: "string \<Rightarrow> string option" where
  "normalizeSocioEmail correo = (let v = toLowerCase (trim correo) in
     if length v > MAX_EMAIL_LENGTH \<or> \<not> EMAIL_PATTERN v then None else Some v)"

text \<open>\<open>replace(/[^a-z0-9]+/g, '-')\<close>.\<close>

primrec dashed :: "string \<Rightarrow> string" where
  "dashed [] = []"
| "dashed (c # cs) = (if is_letter c \<or> is_digit c then c # dashed cs
     else if cs \<noteq> [] \<and> \<not> (is_letter (hd cs) \<or> is_digit (hd cs)) then dashed cs else CHR ''-'' # dashed cs)"

text \<open>\<open>unaccent\<close> takes the accents off (\<open>normalize('NFD')\<close> and the removal of the combining marks).\<close>

definition slugifyBusinessName :: "(string \<Rightarrow> string) \<Rightarrow> string \<Rightarrow> string" where
  "slugifyBusinessName unaccent nombreNegocio =
     (let dash = (\<lambda>c. c = CHR ''-'');
          cut = take MAX_SLUG_LENGTH (dashed (toLowerCase (unaccent nombreNegocio)));
          slug = rev (dropWhile dash (rev (dropWhile dash cut))) in
      if slug = [] then ''negocio'' else slug)"

text \<open>The retries with a fresh suffix; \<open>suffix k\<close> is the \<open>k\<close>-th draw.\<close>

fun suffixed :: "string \<Rightarrow> (string \<Rightarrow> bool) \<Rightarrow> (nat \<Rightarrow> string) \<Rightarrow> nat \<Rightarrow> nat \<Rightarrow> string result" where
  "suffixed slug isTaken suffix attempt 0 = Inl (Internal ''Could not derive a unique username'')"
| "suffixed slug isTaken suffix attempt (Suc left) =
     (let candidate = slug @ ''-'' @ suffix attempt in
      if \<not> isTaken candidate then Inr candidate else suffixed slug isTaken suffix (attempt + 1) left)"

definition deriveUniqueUsername ::
  "(string \<Rightarrow> string) \<Rightarrow> string \<Rightarrow> string \<Rightarrow> (string \<Rightarrow> bool) \<Rightarrow> (nat \<Rightarrow> string) \<Rightarrow> string result"
where
  "deriveUniqueUsername unaccent correo nombreNegocio isTaken suffix =
     (case normalizeSocioEmail correo of
        Some email \<Rightarrow> if length email \<le> MAX_USERNAME_LENGTH \<and> \<not> isTaken email then Inr email
          else suffixed (slugifyBusinessName unaccent nombreNegocio) isTaken suffix 0 USERNAME_ATTEMPTS
      | None \<Rightarrow> suffixed (slugifyBusinessName unaccent nombreNegocio) isTaken suffix 0 USERNAME_ATTEMPTS)"

definition fullName :: "string \<Rightarrow> string \<Rightarrow> string" where
  "fullName nombre apellidos = trim (nombre @ '' '' @ apellidos)"

lemma suffixed_free: "suffixed slug isTaken suffix k n = Inr u \<Longrightarrow> \<not> isTaken u"
  by (induction slug isTaken suffix k n rule: suffixed.induct) (auto simp: Let_def split: if_splits)

lemma deriveUniqueUsername_free: "deriveUniqueUsername unaccent correo n isTaken suffix = Inr u \<Longrightarrow> \<not> isTaken u"
  by (auto simp: deriveUniqueUsername_def dest: suffixed_free split: option.splits if_splits)

lemma toLowerCase_lower: "toLowerCase (toLowerCase s) = toLowerCase s"
proof -
  have "lower (lower c) = lower c" for c
  proof (cases "CHR ''A'' \<le> c \<and> c \<le> CHR ''Z''")
    case True
    then have "65 \<le> (of_char c :: nat)" "(of_char c :: nat) \<le> 90" by (simp_all add: less_eq_char_def)
    then have "of_char (lower c) = (of_char c :: nat) + 32" using True by (simp add: lower_def)
    then have "\<not> lower c \<le> CHR ''Z''" using \<open>65 \<le> of_char c\<close> by (simp add: less_eq_char_def)
    then show ?thesis unfolding lower_def [of "lower c"] by simp
  next
    case False
    then have "lower c = c" by (auto simp: lower_def)
    then show ?thesis by simp
  qed
  then show ?thesis by (simp add: toLowerCase_def)
qed

lemma normalizeSocioEmail_lower: "normalizeSocioEmail c = Some v \<Longrightarrow> toLowerCase v = v"
  by (auto simp: normalizeSocioEmail_def Let_def toLowerCase_lower split: if_splits)

lemma split_at_set: "c \<in> set s \<Longrightarrow> c = x \<or> (\<exists>l \<in> set (split_at x s). c \<in> set l)"
proof (induction s)
  case (Cons y s)
  have ne: "split_at x s \<noteq> []" by (induction s) simp_all
  show ?case
  proof (cases "c = y")
    case False
    with Cons have "c = x \<or> (\<exists>l \<in> set (split_at x s). c \<in> set l)" by simp
    with ne show ?thesis by (cases "split_at x s") auto
  qed auto
qed simp

lemma trim_spaceless: "\<forall>c \<in> set s. \<not> is_space c \<Longrightarrow> trim s = s"
proof -
  assume s: "\<forall>c \<in> set s. \<not> is_space c"
  have drop: "dropWhile is_space t = t" if "set t = set s" for t
    using that s hd_in_set [of t] by (auto simp: dropWhile_eq_self_iff)
  show ?thesis by (simp add: trim_def drop)
qed

lemma EMAIL_PATTERN_spaceless:
  assumes "EMAIL_PATTERN v" "c \<in> set v"
  shows "\<not> is_space c"
proof -
  obtain l dom where p: "split_at (CHR ''@'') v = [l, dom]" using assms(1) by (auto simp: EMAIL_PATTERN_def split: list.splits)
  have ok: "\<not> is_space c" if "is_letter c \<or> is_digit c \<or> c \<in> set ''._%+-'' \<or> c = CHR ''@''" for c
    using that by (elim disjE) (auto simp: is_letter_def is_digit_def is_space_def less_eq_char_def)
  from split_at_set [OF assms(2), of "CHR ''@''"] p have "c = CHR ''@'' \<or> c \<in> set l \<or> c \<in> set dom" by auto
  moreover have "is_letter c \<or> is_digit c \<or> c \<in> set ''._%+-''" if "c \<in> set l"
    using that assms(1) p by (auto simp: EMAIL_PATTERN_def list_all_iff)
  moreover have "is_letter c \<or> is_digit c \<or> c \<in> set ''._%+-''" if "c \<in> set dom"
    using split_at_set [OF that, of "CHR ''.''"] assms(1) p by (auto simp: EMAIL_PATTERN_def list_all_iff)
  ultimately show ?thesis using ok by blast
qed

lemma normalizeSocioEmail_again: "normalizeSocioEmail c = Some v \<Longrightarrow> normalizeSocioEmail v = Some v"
proof -
  assume n: "normalizeSocioEmail c = Some v"
  then have "EMAIL_PATTERN v" by (auto simp: normalizeSocioEmail_def Let_def split: if_splits)
  then have "trim v = v" by (intro trim_spaceless ballI EMAIL_PATTERN_spaceless)
  with n normalizeSocioEmail_lower [OF n] show ?thesis
    by (auto simp: normalizeSocioEmail_def Let_def split: if_splits)
qed

section \<open>Logging in\<close>

definition find_username :: "string \<Rightarrow> db \<Rightarrow> account option" where
  "find_username u d = find (\<lambda>a. acc_username a = u) (accounts d)"

text \<open>\<open>verify\<close> checks a password against a stored hash; the answer is the subject of the token.\<close>

definition login :: "(string \<Rightarrow> string \<Rightarrow> bool) \<Rightarrow> string \<Rightarrow> string \<Rightarrow> string \<Rightarrow> db \<Rightarrow> uuid result" where
  "login verify dummyHash username password d =
     (let lowered = toLowerCase (trim username);
          account = (case find_username username d of
              Some a \<Rightarrow> Some a
            | None \<Rightarrow> if lowered = username then None else find_username lowered d);
          matches = verify (case account of None \<Rightarrow> dummyHash | Some a \<Rightarrow> acc_passwordHash a) password in
      case account of
        None \<Rightarrow> Inl Unauthorized
      | Some a \<Rightarrow> if \<not> acc_active a \<or> \<not> matches then Inl Unauthorized else Inr (rid a))"

text \<open>The member is read in the tenant of the session.\<close>

definition me :: "string \<Rightarrow> uuid \<Rightarrow> db \<Rightarrow> (string \<times> uuid option \<times> (uuid \<times> string \<times> member_role \<times> bool) option) result" where
  "me contextId accountId d =
     (case find (\<lambda>a. rid a = accountId \<and> acc_active a) (accounts d) of
        None \<Rightarrow> Inl Unauthorized
      | Some a \<Rightarrow> Inr (acc_username a, acc_memberId a,
          (case acc_memberId a of None \<Rightarrow> None
           | Some i \<Rightarrow> map_option (\<lambda>m. (rid m, m_name m, m_role m, m_active m)) (find_row contextId i (members d)))))"

definition changed_password :: failure where
  "changed_password = Conflict ''The password was changed by another request; try again with the latest password''"

text \<open>Three statements, with what others commit in between.\<close>

definition password_read :: "(string \<Rightarrow> string \<Rightarrow> bool) \<Rightarrow> uuid \<Rightarrow> string \<Rightarrow> db \<Rightarrow> string result" where
  "password_read verify accountId currentPassword d =
     (case find (\<lambda>a. rid a = accountId \<and> acc_active a) (accounts d) of
        None \<Rightarrow> Inl Unauthorized
      | Some a \<Rightarrow> if \<not> verify (acc_passwordHash a) currentPassword then Inl Forbidden else Inr (acc_passwordHash a))"

definition password_write :: "uuid \<Rightarrow> string \<Rightarrow> string \<Rightarrow> db \<Rightarrow> nat \<times> db" where
  "password_write accountId oldHash newHash d =
     (let hits = (\<lambda>a. rid a = accountId \<and> acc_passwordHash a = oldHash \<and> acc_active a) in
      (length (filter hits (accounts d)),
       d\<lparr>accounts := map (\<lambda>a. if hits a then a\<lparr>acc_passwordHash := newHash\<rparr> else a) (accounts d)\<rparr>))"

definition changePassword ::
  "(string \<Rightarrow> string \<Rightarrow> bool) \<Rightarrow> (db \<Rightarrow> db) \<Rightarrow> (db \<Rightarrow> db) \<Rightarrow> uuid \<Rightarrow> string \<Rightarrow> string \<Rightarrow> db \<Rightarrow> unit result \<times> db"
where
  "changePassword verify w1 w2 accountId currentPassword newHash d =
     (case password_read verify accountId currentPassword d of
        Inl e \<Rightarrow> (Inl e, d)
      | Inr oldHash \<Rightarrow>
          (case password_write accountId oldHash newHash (w1 d) of
             (n, d') \<Rightarrow>
               if n \<noteq> 0 then (Inr (), d')
               else if \<not> (\<exists>a \<in> set (accounts (w2 d')). rid a = accountId \<and> acc_active a) then (Inl Unauthorized, w2 d')
               else (Inl changed_password, w2 d')))"

text \<open>A password that was changed is not changed again by a request that verified the old one.\<close>

lemma password_changed_once:
  assumes "password_read verify i p1 d0 = Inr h" "password_read verify i p2 d0 = Inr h2"
    and "distinct (map rid (accounts d))" "password_write i h new1 d = (n1, d1)" "n1 \<noteq> 0" "new1 \<noteq> h"
  shows "h2 = h \<and> password_write i h2 new2 d1 = (0, d1)"
proof -
  have h: "h2 = h" using assms(1,2) by (auto simp: password_read_def split: option.splits if_splits)
  obtain a where a: "a \<in> set (accounts d)" "rid a = i" "acc_passwordHash a = h" "acc_active a"
    using assms(4,5) by (auto simp: password_write_def Let_def filter_empty_conv)
  have only: "x = a" if "x \<in> set (accounts d)" "rid x = i" for x using that a assms(3) by (metis distinct_map inj_onD)
  let ?f = "\<lambda>y. if rid y = i \<and> acc_passwordHash y = h \<and> acc_active y then y\<lparr>acc_passwordHash := new1\<rparr> else y"
  have rows: "accounts d1 = map ?f (accounts d)"
    using arg_cong [OF assms(4), of "\<lambda>p. accounts (snd p)"] by (simp add: password_write_def Let_def)
  have "\<forall>x \<in> set (accounts d1). rid x = i \<longrightarrow> acc_passwordHash x \<noteq> h"
  proof (intro ballI impI)
    fix x assume "x \<in> set (accounts d1)" "rid x = i"
    obtain y where y: "x = ?f y" "y \<in> set (accounts d)"
      using \<open>x \<in> set (accounts d1)\<close> unfolding rows set_map by (rule imageE)
    then have "rid y = i" using \<open>rid x = i\<close> using y(1) by (simp split: if_splits)
    then have "y = a" using only y(2) by blast
    with y(1) a assms(6) show "acc_passwordHash x \<noteq> h" by simp
  qed
  then have none: "\<not> (rid x = i \<and> acc_passwordHash x = h \<and> acc_active x)" if "x \<in> set (accounts d1)" for x using that by blast
  have "filter (\<lambda>a. rid a = i \<and> acc_passwordHash a = h \<and> acc_active a) (accounts d1) = []"
    using none by (simp only: filter_empty_conv) blast
  moreover have "map (\<lambda>a. if rid a = i \<and> acc_passwordHash a = h \<and> acc_active a then a\<lparr>acc_passwordHash := new2\<rparr> else a) (accounts d1) = accounts d1"
    by (rule map_idI, rule if_not_P, rule none)
  ultimately show ?thesis using h by (simp add: password_write_def Let_def)
qed

end
