(* ===== verification/Members.thy ===== *)
theory Members
  imports Accounts Products
begin

text \<open>
  The people of a business (\<open>src/members/members.service.ts\<close>): adding a person creates a member and its login
  in one transaction and mails the credentials as its last step; a colaborador can be edited, deactivated
  and taken back; a partner is never deactivated.
\<close>

record create_member_dto =
  cm_nombre :: string
  cm_apellidos :: string
  cm_correo :: string
  cm_role :: member_role
  cm_commissionRateBps :: "int option option"

record created_member =
  nm_id :: uuid
  nm_name :: string
  nm_role :: member_role
  nm_active :: bool
  nm_commissionRateBps :: "int option"
  nm_createdByMemberId :: "uuid option"
  nm_username :: string
  nm_credentialsEmail :: string

definition USERNAME_RACE_ATTEMPTS :: nat where "USERNAME_RACE_ATTEMPTS = 3"

definition emailInUse :: failure where "emailInUse = Conflict ''MEMBER_EMAIL_IN_USE''"

definition not_for_a_socio :: failure where
  "not_for_a_socio = BadRequest ''commissionRateBps does not apply to a socio''"

definition no_username :: failure where
  "no_username = Conflict (''No se pudo asignar un usuario a la persona nueva. Int'' @ [CHR 0xE9] @ ''ntalo de nuevo.'')"

definition bad_correo :: failure where
  "bad_correo = BadRequest (''Escribe un correo v'' @ [CHR 0xE1] @ ''lido, por ejemplo nombre@dominio.com'')"

text \<open>P2028: the transaction outlived its timeout.\<close>

definition expired :: failure where "expired = Internal ''P2028''"

text \<open>
  What a transaction meets: the drawn identifiers, the hash of the drawn password, the suffixes of a user
  name, what others commit between its reads and its writes, where the mail was delivered (\<open>None\<close>: it
  failed), the clock, and whether the transaction expires before it commits.
\<close>

record member_env =
  me_memberId :: uuid
  me_accountId :: uuid
  me_passwordHash :: string
  me_suffix :: "nat \<Rightarrow> string"
  me_others :: "db \<Rightarrow> db"
  me_mail :: "string option"
  me_now :: instant
  me_expires :: bool

definition member_reads ::
  "(string \<Rightarrow> string) \<Rightarrow> member_env \<Rightarrow> actor \<Rightarrow> create_member_dto \<Rightarrow> string \<Rightarrow> db \<Rightarrow> (uuid \<times> string) result"
where
  "member_reads unaccent env actor dto correo d =
     (case authorize_actor d actor True of Inl e \<Rightarrow> Inl e
      | Inr (socioId, _) \<Rightarrow>
          if length correo \<le> MAX_USERNAME_LENGTH \<and> username_taken correo d then Inl emailInUse
          else (case deriveUniqueUsername unaccent correo (fullName (cm_nombre dto) (cm_apellidos dto))
                  (\<lambda>u. username_taken u d) (me_suffix env) of
              Inl e \<Rightarrow> Inl e | Inr username \<Rightarrow> Inr (socioId, username)))"

definition new_member :: "member_env \<Rightarrow> string \<Rightarrow> create_member_dto \<Rightarrow> string \<Rightarrow> uuid \<Rightarrow> member" where
  "new_member env c dto correo socioId = \<lparr>rid = me_memberId env, ctx = c,
     m_name = fullName (cm_nombre dto) (cm_apellidos dto), m_role = cm_role dto, m_active = True,
     m_commissionRateBps = (case cm_commissionRateBps dto of None \<Rightarrow> None | Some r \<Rightarrow> r), m_correo = Some correo,
     m_createdAt = me_now env, m_createdByMemberId = Some socioId\<rparr>"

definition new_login :: "member_env \<Rightarrow> string \<Rightarrow> string \<Rightarrow> account" where
  "new_login env c username = \<lparr>rid = me_accountId env, ctx = c, acc_username = username,
     acc_passwordHash = me_passwordHash env, acc_active = True, acc_createdAt = me_now env,
     acc_memberId = Some (me_memberId env)\<rparr>"

definition member_writes ::
  "member_env \<Rightarrow> string \<Rightarrow> create_member_dto \<Rightarrow> string \<Rightarrow> uuid \<times> string \<Rightarrow> db \<Rightarrow> (created_member \<times> db) result"
where
  "member_writes env c dto correo plan d =
     (case plan of (socioId, username) \<Rightarrow>
      let m = new_member env c dto correo socioId in
      (case insert_member m d of Inl e \<Rightarrow> Inl e
       | Inr d1 \<Rightarrow>
         (case insert_account (new_login env c username) d1 of Inl e \<Rightarrow> Inl e
          | Inr d2 \<Rightarrow>
            (case me_mail env of None \<Rightarrow> Inl BadGateway
             | Some to \<Rightarrow>
                if me_expires env then Inl expired
                else Inr (\<lparr>nm_id = rid m, nm_name = m_name m, nm_role = m_role m, nm_active = m_active m,
                  nm_commissionRateBps = m_commissionRateBps m, nm_createdByMemberId = m_createdByMemberId m,
                  nm_username = username, nm_credentialsEmail = to\<rparr>, d2)))))"

definition member_tx ::
  "(string \<Rightarrow> string) \<Rightarrow> member_env \<Rightarrow> actor \<Rightarrow> create_member_dto \<Rightarrow> string \<Rightarrow> db \<Rightarrow> created_member result \<times> db"
where
  "member_tx unaccent env actor dto correo d =
     (case member_reads unaccent env actor dto correo d of
        Inl e \<Rightarrow> (Inl e, d)
      | Inr plan \<Rightarrow>
          (case member_writes env (act_contextId actor) dto correo plan (me_others env d) of
             Inl e \<Rightarrow> (Inl e, me_others env d) | Inr (r, d') \<Rightarrow> (Inr r, d')))"

text \<open>The loop of \<open>create\<close>; \<open>envs k\<close> is what the \<open>k\<close>-th attempt meets.\<close>

function member_loop ::
  "(string \<Rightarrow> string) \<Rightarrow> (nat \<Rightarrow> member_env) \<Rightarrow> actor \<Rightarrow> create_member_dto \<Rightarrow> string \<Rightarrow> nat \<Rightarrow> db \<Rightarrow> created_member result \<times> db"
where
  "member_loop unaccent envs actor dto correo attempt d =
     (case member_tx unaccent (envs attempt) actor dto correo d of
        (Inr r, d') \<Rightarrow> (Inr r, d')
      | (Inl e, d') \<Rightarrow>
          if e = UniqueViolation ''Member_correo_key'' then (Inl emailInUse, d')
          else if e = UniqueViolation ''Account_username_key'' then
            (if attempt < USERNAME_RACE_ATTEMPTS then member_loop unaccent envs actor dto correo (attempt + 1) d'
             else (Inl no_username, d'))
          else if e = expired then (Inl BadGateway, d')
          else (Inl e, d'))"
  by pat_completeness auto
termination by (relation "measure (\<lambda>(_, _, _, _, _, attempt, _). USERNAME_RACE_ATTEMPTS - attempt)") auto

declare member_loop.simps [simp del]

definition create_member ::
  "(string \<Rightarrow> string) \<Rightarrow> (nat \<Rightarrow> member_env) \<Rightarrow> actor \<Rightarrow> create_member_dto \<Rightarrow> db \<Rightarrow> created_member result \<times> db"
where
  "create_member unaccent envs actor dto d =
     (if cm_role dto = Socio \<and> cm_commissionRateBps dto \<noteq> None then (Inl not_for_a_socio, d)
      else case normalizeSocioEmail (cm_correo dto) of
        None \<Rightarrow> (Inl bad_correo, d)
      | Some correo \<Rightarrow> member_loop unaccent envs actor dto correo 1 d)"

section \<open>The roster\<close>

text \<open>\<open>loc\<close> is the collation of names.\<close>

definition list_members ::
  "(string \<Rightarrow> 'k::linorder) \<Rightarrow> string \<Rightarrow> bool \<Rightarrow> uuid option \<Rightarrow> db \<Rightarrow> (uuid \<times> string \<times> member_role \<times> bool) list"
where
  "list_members loc c includeInactive accountMemberId d =
     (let inactive = includeInactive \<and> isRequestingSocio d c accountMemberId in
      map (\<lambda>m. (rid m, m_name m, m_role m, m_active m))
        (sort_key (\<lambda>m. (loc (m_name m), rid m)) [m \<leftarrow> in_context c (members d). inactive \<or> m_active m]))"

text \<open>The member without its address, as the API shows it.\<close>

definition withoutCorreo :: "member \<Rightarrow> member" where
  "withoutCorreo m = m\<lparr>m_correo := None\<rparr>"

record patch_member_dto =
  pm_name :: "string option"
  pm_commissionRateBps :: "int option option"

text \<open>\<open>edit_member\<close> is what patch, deactivate and reactivate share: the lock, the actor, the row.\<close>

definition edit_member :: "actor \<Rightarrow> uuid \<Rightarrow> (member \<Rightarrow> (member \<Rightarrow> member) option result) \<Rightarrow> db \<Rightarrow> member result \<times> db" where
  "edit_member actor i check =
     transaction (\<lambda>d. case authorize_actor d actor True of Inl e \<Rightarrow> Inl e
       | Inr _ \<Rightarrow>
         (case find_row (act_contextId actor) i (members d) of
            None \<Rightarrow> Inl (NotFound [])
          | Some target \<Rightarrow>
              (case check target of
                 Inl e \<Rightarrow> Inl e
               | Inr None \<Rightarrow> Inr (withoutCorreo target, d)
               | Inr (Some f) \<Rightarrow> Inr (withoutCorreo (f target),
                   d\<lparr>members := update_row (act_contextId actor) i f (members d)\<rparr>))))"

definition patched :: "patch_member_dto \<Rightarrow> member \<Rightarrow> member" where
  "patched dto m = m\<lparr>m_name := (case pm_name dto of None \<Rightarrow> m_name m | Some n \<Rightarrow> n),
     m_commissionRateBps := (case pm_commissionRateBps dto of None \<Rightarrow> m_commissionRateBps m | Some r \<Rightarrow> r)\<rparr>"

definition patch_member :: "actor \<Rightarrow> uuid \<Rightarrow> patch_member_dto \<Rightarrow> db \<Rightarrow> member result \<times> db" where
  "patch_member actor i dto d =
     (if pm_name dto = None \<and> pm_commissionRateBps dto = None
      then (Inl (BadRequest ''At least one editable field is required''), d)
      else edit_member actor i (\<lambda>target. if pm_commissionRateBps dto \<noteq> None \<and> m_role target = Socio
        then Inl not_for_a_socio else Inr (Some (patched dto))) d)"

definition deactivate_member :: "actor \<Rightarrow> uuid \<Rightarrow> db \<Rightarrow> member result \<times> db" where
  "deactivate_member actor i = edit_member actor i (\<lambda>target.
     if m_role target = Socio then Inl (BadRequest ''No se puede desactivar a un socio'')
     else if \<not> m_active target then Inr None else Inr (Some (\<lambda>m. m\<lparr>m_active := False\<rparr>)))"

definition reactivate_member :: "actor \<Rightarrow> uuid \<Rightarrow> db \<Rightarrow> member result \<times> db" where
  "reactivate_member actor i = edit_member actor i (\<lambda>target.
     if m_active target then Inr None else Inr (Some (\<lambda>m. m\<lparr>m_active := True\<rparr>)))"

section \<open>Adding a person\<close>

text \<open>One attempt: the person and the login in the state the attempt writes in, or nothing.\<close>

definition person_added :: "member_env \<Rightarrow> actor \<Rightarrow> create_member_dto \<Rightarrow> string \<Rightarrow> created_member \<Rightarrow> db \<Rightarrow> db \<Rightarrow> bool" where
  "person_added env actor dto correo r d1 d' \<longleftrightarrow>
     (\<exists>socioId deviceId. act_selection actor = Some (socioId, deviceId)
       \<and> d' = d1\<lparr>members := members d1 @ [new_member env (act_contextId actor) dto correo socioId],
                 accounts := accounts d1 @ [new_login env (act_contextId actor) (nm_username r)]\<rparr>
       \<and> \<not> username_taken (nm_username r) d1 \<and> Some correo \<notin> m_correo ` set (members d1)
       \<and> me_memberId env \<notin> rid ` set (members d1) \<and> me_accountId env \<notin> rid ` set (accounts d1)
       \<and> Some (me_memberId env) \<notin> acc_memberId ` set (accounts d1)
       \<and> (length correo \<le> MAX_USERNAME_LENGTH \<longrightarrow> nm_username r = correo)
       \<and> nm_id r = me_memberId env \<and> nm_role r = cm_role dto \<and> nm_active r \<and> nm_createdByMemberId r = Some socioId)"

lemma authorize_actor_selection:
  "authorize_actor d actor b = Inr (m, v) \<Longrightarrow> act_selection actor = Some (m, v)"
  by (auto simp: authorize_actor_def split: option.splits dest!: find_Some_set)

lemma member_tx_cases:
  assumes "member_tx unaccent env actor dto correo d = (out, d')" "normalizeSocioEmail correo = Some correo"
  obtains (refused) e where "out = Inl e" "d' = d"
  | (failed) e where "out = Inl e" "d' = me_others env d"
  | (added) r where "out = Inr r" "person_added env actor dto correo r (me_others env d) d'"
proof (cases "member_reads unaccent env actor dto correo d")
  case (Inl e)
  then have "out = Inl e" "d' = d" using assms(1) by (simp_all add: member_tx_def)
  then show ?thesis by (rule refused)
next
  case (Inr plan)
  obtain socioId username where plan: "plan = (socioId, username)" by (cases plan)
  from Inr obtain v where v: "authorize_actor d actor True = Inr (socioId, v)"
    and u: "deriveUniqueUsername unaccent correo (fullName (cm_nombre dto) (cm_apellidos dto))
              (\<lambda>u. username_taken u d) (me_suffix env) = Inr username"
    and free: "length correo \<le> MAX_USERNAME_LENGTH \<Longrightarrow> \<not> username_taken correo d"
    by (auto simp: member_reads_def plan split: sum.splits if_splits)
  have name: "length correo \<le> MAX_USERNAME_LENGTH \<longrightarrow> username = correo"
    using u free by (auto simp: deriveUniqueUsername_def assms(2))
  show ?thesis
  proof (cases "member_writes env (act_contextId actor) dto correo plan (me_others env d)")
    case (Inl e)
    then have "out = Inl e" "d' = me_others env d" using assms(1) Inr by (simp_all add: member_tx_def)
    then show ?thesis by (rule failed)
  next
    case w: (Inr out')
    obtain r d2 where out': "out' = (r, d2)" by (cases out')
    with assms(1) Inr w have out: "out = Inr r" "d' = d2" by (simp_all add: member_tx_def)
    let ?m = "new_member env (act_contextId actor) dto correo socioId"
    from w obtain d1 where m: "insert_member ?m (me_others env d) = Inr d1"
      and a: "insert_account (new_login env (act_contextId actor) username) d1 = Inr d2"
      and r: "nm_id r = rid ?m" "nm_role r = m_role ?m" "nm_active r = m_active ?m"
        "nm_createdByMemberId r = m_createdByMemberId ?m" "nm_username r = username"
      by (auto simp: member_writes_def plan out' Let_def split: sum.splits option.splits if_splits)
    show ?thesis
      using insert_member_Inr [OF m] insert_account_Inr [OF a] authorize_actor_selection [OF v] name r out
      by (intro added) (auto simp: person_added_def username_taken_def new_member_def new_login_def)
  qed
qed

text \<open>What the loop does, whatever others commit: nothing of its own, or one attempt of the first three.\<close>

lemma member_loop_cases:
  assumes "member_loop unaccent envs actor dto correo attempt d = (out, d')" "normalizeSocioEmail correo = Some correo"
    and "I d" "\<And>k d. I d \<Longrightarrow> I (me_others (envs k) d)" "attempt \<le> USERNAME_RACE_ATTEMPTS"
  shows "(\<exists>e. out = Inl e \<and> I d')
    \<or> (\<exists>r k d1. out = Inr r \<and> attempt \<le> k \<and> k \<le> USERNAME_RACE_ATTEMPTS \<and> I d1 \<and> person_added (envs k) actor dto correo r d1 d')"
  using assms(1,3,5)
proof (induction "USERNAME_RACE_ATTEMPTS - attempt" arbitrary: attempt d)
  case 0
  obtain out1 d1 where t: "member_tx unaccent (envs attempt) actor dto correo d = (out1, d1)" by (metis surj_pair)
  have last: "\<not> attempt < USERNAME_RACE_ATTEMPTS" using "0.hyps" by simp
  from t assms(2) show ?case
  proof (cases rule: member_tx_cases)
    case (added r)
    with "0.prems" t assms(4) show ?thesis by (subst (asm) member_loop.simps) auto
  qed (use "0.prems" t last assms(4) in \<open>subst (asm) member_loop.simps, auto split: if_splits\<close>)+
next
  case (Suc n)
  obtain out1 d1 where t: "member_tx unaccent (envs attempt) actor dto correo d = (out1, d1)" by (metis surj_pair)
  have more: "attempt < USERNAME_RACE_ATTEMPTS" "n = USERNAME_RACE_ATTEMPTS - (attempt + 1)" using Suc.hyps(2) by simp_all
  note ih = Suc.hyps(1) [OF more(2)]
  show ?case
  proof (cases out1)
    case (Inr r)
    from t assms(2) have "person_added (envs attempt) actor dto correo r (me_others (envs attempt) d) d1"
      by (cases rule: member_tx_cases) (use Inr in auto)
    moreover have "out = Inr r" "d' = d1" using Suc.prems(1) t Inr by (simp_all add: member_loop.simps [of _ _ _ _ _ attempt])
    ultimately show ?thesis using assms(4) [OF Suc.prems(2)] Suc.prems(3) by blast
  next
    case (Inl e)
    from t assms(2) have I1: "I d1"
      by (cases rule: member_tx_cases) (use Inl Suc.prems(2) assms(4) in auto)
    show ?thesis
    proof (cases "e = UniqueViolation ''Account_username_key''")
      case True
      then have "member_loop unaccent envs actor dto correo (attempt + 1) d1 = (out, d')"
        using Suc.prems(1) t Inl more(1) by (simp add: member_loop.simps [of _ _ _ _ _ attempt])
      from ih [OF this I1] more(1) show ?thesis by fastforce
    next
      case False
      then have "\<exists>e. out = Inl e" "d' = d1"
        using Suc.prems(1) t Inl by (auto simp: member_loop.simps [of _ _ _ _ _ attempt] split: if_splits)
      with I1 show ?thesis by blast
    qed
  qed
qed

text \<open>C26: adding a person is all or nothing. Whatever others commit meanwhile (and keep of \<open>I\<close>), after at most three
  transactions either the caller got an error and nothing of the request is stored, or exactly one member and
  its login are stored: in the tenant of the partner who asked, active, bound to each other, under an address
  and a user name nobody had, the address itself as the user name whenever it fits.\<close>

theorem member_created_whole:
  assumes "create_member unaccent envs actor dto d = (out, d')" "I d" "\<And>k d. I d \<Longrightarrow> I (me_others (envs k) d)"
  shows "(\<exists>e. out = Inl e \<and> I d')
    \<or> (\<exists>r correo k d1. out = Inr r \<and> normalizeSocioEmail (cm_correo dto) = Some correo \<and> k \<in> {1..3} \<and> I d1
        \<and> person_added (envs k) actor dto correo r d1 d')"
proof (cases "cm_role dto = Socio \<and> cm_commissionRateBps dto \<noteq> None \<or> normalizeSocioEmail (cm_correo dto) = None")
  case True
  then have "(\<exists>e. out = Inl e) \<and> d' = d" using assms(1) by (auto simp: create_member_def split: if_splits option.splits)
  with assms(2) show ?thesis by blast
next
  case False
  then obtain correo where c: "normalizeSocioEmail (cm_correo dto) = Some correo" by blast
  with False assms(1) have "member_loop unaccent envs actor dto correo 1 d = (out, d')"
    by (auto simp: create_member_def split: if_splits)
  from member_loop_cases [OF this normalizeSocioEmail_again [OF c] assms(2,3)]
  show ?thesis using c by (fastforce simp: USERNAME_RACE_ATTEMPTS_def)
qed

text \<open>Ana adds a partner.\<close>

definition elena :: create_member_dto where
  "elena = \<lparr>cm_nombre = ''Elena'', cm_apellidos = ''Ruiz'', cm_correo = '' Elena@Correo.MX '', cm_role = Socio,
     cm_commissionRateBps = None\<rparr>"

definition elena_env :: "nat \<Rightarrow> member_env" where
  "elena_env k = \<lparr>me_memberId = ''m9'', me_accountId = ''a9'', me_passwordHash = ''h'', me_suffix = (\<lambda>_. ''0a1b2c''),
     me_others = (\<lambda>d. d), me_mail = Some ''member'', me_now = 5, me_expires = False\<rparr>"

lemma member_created_whole_witness:
  "\<exists>r d'. create_member (\<lambda>s. s) elena_env ana elena sample_db = (Inr r, d')
     \<and> (\<exists>correo k d1. normalizeSocioEmail (cm_correo elena) = Some correo \<and> k \<in> {1..3} \<and> d1 = sample_db
          \<and> person_added (elena_env k) ana elena correo r d1 d')
     \<and> map acc_username (accounts d') = [''ana'', ''carla'', ''elena@correo.mx'']"
proof -
  let ?run = "create_member (\<lambda>s. s) elena_env ana elena sample_db"
  have run: "is_ok (fst ?run)" "map acc_username (accounts (snd ?run)) = [''ana'', ''carla'', ''elena@correo.mx'']" by code_simp+
  have out: "?run = (Inr (projr (fst ?run)), snd ?run)" using is_ok_projr [OF run(1)] by (metis prod.collapse)
  from member_created_whole [OF out, of "\<lambda>d. d = sample_db"] have "\<exists>correo k d1. normalizeSocioEmail (cm_correo elena) = Some correo
      \<and> k \<in> {1..3} \<and> d1 = sample_db \<and> person_added (elena_env k) ana elena correo (projr (fst ?run)) d1 (snd ?run)"
    by (auto simp: elena_env_def)
  then show ?thesis by (intro exI [of _ "projr (fst ?run)"] exI [of _ "snd ?run"] conjI out run(2))
qed

end
