(* ===== verification/RateLimiter.thy ===== *)
theory RateLimiter
  imports Prelude "HOL-Library.AList"
begin

text \<open>
  The sliding window limiter of the public pages (\<open>src/business-registration/rate-limiter.ts\<close>), the counters
  of the registration (\<open>src/business-registration/registration-limits.ts\<close>) and the pair of limiters the public
  pages of the invitations and of the mail addresses share. The limiter is compared with a specification
  that never forgets: the list of all hits that were let through.
\<close>

section \<open>The limiter\<close>

text \<open>The \<open>Map\<close> of the limiter, in the order its keys were inserted: the instants let through for each key.\<close>

type_synonym limiter = "(string \<times> instant list) list"

definition hits_of :: "string \<Rightarrow> limiter \<Rightarrow> instant list" where
  "hits_of key l = (case map_of l key of None \<Rightarrow> [] | Some ts \<Rightarrow> ts)"

text \<open>\<open>retryAfterMs\<close> is \<open>None\<close> for the NaN of a limit that is not positive.\<close>

record limit_result =
  allowed :: bool
  retryAfterMs :: "int option"

definition hit :: "string \<Rightarrow> int \<Rightarrow> int \<Rightarrow> instant \<Rightarrow> limiter \<Rightarrow> limit_result \<times> limiter" where
  "hit key limit windowMs now l =
     (let recent = filter (\<lambda>t. now - t < windowMs) (hits_of key l) in
      if int (length recent) \<ge> limit then
        (\<lparr>allowed = False, retryAfterMs = (case recent of [] \<Rightarrow> None | t # _ \<Rightarrow> Some (max 1 (windowMs - (now - t))))\<rparr>,
         AList.update key recent l)
      else (\<lparr>allowed = True, retryAfterMs = Some 0\<rparr>, AList.update key (recent @ [now]) l))"

definition sweep :: "instant \<Rightarrow> int \<Rightarrow> limiter \<Rightarrow> limiter" where
  "sweep now windowMs l = filter (\<lambda>(key, times). \<not> list_all (\<lambda>t. now - t \<ge> windowMs) times) l"

definition limiter_size :: "limiter \<Rightarrow> nat" where
  "limiter_size l = length l"

section \<open>The counters of the registration\<close>

definition HOUR :: int where "HOUR = 60 * 60 * 1000"

definition createPerIpPerHour :: int where "createPerIpPerHour = 5"
definition verificationEmailsPerCorreoPerHour :: int where "verificationEmailsPerCorreoPerHour = 3"
definition verifyPerIpPerHour :: int where "verifyPerIpPerHour = 10"
definition resendPerIpPerHour :: int where "resendPerIpPerHour = 10"

text \<open>The limiter and the number of hits so far; every two hundredth hit sweeps first.\<close>

type_synonym registration_limits = "limiter \<times> nat"

definition sweepSometimes :: "instant \<Rightarrow> registration_limits \<Rightarrow> registration_limits" where
  "sweepSometimes now s = (case s of (l, hits) \<Rightarrow>
     (if (hits + 1) mod 200 = 0 then sweep now HOUR l else l, hits + 1))"

definition hitIp :: "string \<Rightarrow> string \<Rightarrow> int \<Rightarrow> instant \<Rightarrow> registration_limits \<Rightarrow> limit_result \<times> registration_limits" where
  "hitIp bucket ip limit now s = (case sweepSometimes now s of (l, hits) \<Rightarrow>
     (case hit (''ip:'' @ bucket @ '':'' @ ip) limit HOUR now l of (r, l') \<Rightarrow> (r, (l', hits))))"

definition allowVerificationEmail :: "string \<Rightarrow> instant \<Rightarrow> registration_limits \<Rightarrow> bool \<times> registration_limits" where
  "allowVerificationEmail correo now s = (case sweepSometimes now s of (l, hits) \<Rightarrow>
     (case hit (''mail:'' @ correo) verificationEmailsPerCorreoPerHour HOUR now l of (r, l') \<Rightarrow>
        (allowed r, (l', hits))))"

section \<open>The public pages\<close>

definition WINDOW_MS :: int where "WINDOW_MS = 10 * 60 * 1000"
definition TOKEN_LIMIT :: int where "TOKEN_LIMIT = 10"
definition IP_LIMIT :: int where "IP_LIMIT = 120"

text \<open>Whether the attempt is let through. A blocked token is not counted for the address (\<open>||\<close>).\<close>

definition page_limit :: "string \<Rightarrow> string \<Rightarrow> instant \<Rightarrow> limiter \<times> limiter \<Rightarrow> bool \<times> limiter \<times> limiter" where
  "page_limit tokenHash ip now s = (case s of (byToken, byIp) \<Rightarrow>
     (case hit tokenHash TOKEN_LIMIT WINDOW_MS now byToken of (r, byToken') \<Rightarrow>
        if \<not> allowed r then (False, (byToken', byIp))
        else case hit ip IP_LIMIT WINDOW_MS now byIp of (r', byIp') \<Rightarrow> (allowed r', (byToken', byIp'))))"

section \<open>The specification\<close>

text \<open>What happens to a limiter: a hit of a key under a limit, or a sweep that keeps a window.\<close>

datatype event = Hit string int instant | Sweep int instant

fun at :: "event \<Rightarrow> instant" where
  "at (Hit key limit now) = now"
| "at (Sweep keep now) = now"

fun sound :: "int \<Rightarrow> event \<Rightarrow> bool" where
  "sound window (Hit key limit now) = (0 < limit)"
| "sound window (Sweep keep now) = (window \<le> keep)"

fun answers :: "int \<Rightarrow> event list \<Rightarrow> limiter \<Rightarrow> bool list \<times> limiter" where
  "answers window [] l = ([], l)"
| "answers window (Hit key limit now # es) l =
     (case hit key limit window now l of (r, l1) \<Rightarrow> (case answers window es l1 of (rs, l2) \<Rightarrow> (allowed r # rs, l2)))"
| "answers window (Sweep keep now # es) l = answers window es (sweep now keep l)"

text \<open>The hits of a key within the window that ends at an instant.\<close>

definition window_hits :: "int \<Rightarrow> string \<Rightarrow> instant \<Rightarrow> (string \<times> instant) list \<Rightarrow> instant list" where
  "window_hits window key now hist = map snd (filter (\<lambda>(k, t). k = key \<and> now - t < window) hist)"

fun ideal :: "int \<Rightarrow> event list \<Rightarrow> (string \<times> instant) list \<Rightarrow> bool list \<times> (string \<times> instant) list" where
  "ideal window [] hist = ([], hist)"
| "ideal window (Hit key limit now # es) hist =
     (let ok = int (length (window_hits window key now hist)) < limit in
      case ideal window es (if ok then hist @ [(key, now)] else hist) of (rs, hist') \<Rightarrow> (ok # rs, hist'))"
| "ideal window (Sweep keep now # es) hist = ideal window es hist"

section \<open>The limiter implements it\<close>

definition remembers :: "int \<Rightarrow> instant \<Rightarrow> (string \<times> instant) list \<Rightarrow> limiter \<Rightarrow> bool" where
  "remembers window now hist l \<longleftrightarrow> distinct (map fst l) \<and> sorted (map snd hist) \<and> (\<forall>t \<in> snd ` set hist. t \<le> now)
     \<and> (\<forall>key. filter (\<lambda>t. now - t < window) (hits_of key l) = window_hits window key now hist)"

lemma filter_later: "now \<le> (now'::int) \<Longrightarrow>
    filter (\<lambda>t. now' - t < window) (filter (\<lambda>t. now - t < window) ts) = filter (\<lambda>t. now' - t < window) ts"
  by (induction ts) auto

lemma window_hits_later: "now \<le> now' \<Longrightarrow> filter (\<lambda>t. now' - t < window) (window_hits window key now hist) = window_hits window key now' hist"
  unfolding window_hits_def by (induction hist) auto

lemma remembers_later:
  assumes "remembers window now hist l" "now \<le> now'"
  shows "remembers window now' hist l"
  using assms window_hits_later [OF assms(2), of window _ hist] filter_later [OF assms(2), of window]
  unfolding remembers_def by (metis order_trans)

lemma hits_of_update: "hits_of k (AList.update key ts l) = (if k = key then ts else hits_of k l)"
  by (simp add: hits_of_def update_conv')

lemma hits_of_sweep:
  assumes "distinct (map fst l)" "window \<le> keep"
  shows "filter (\<lambda>t. now - t < window) (hits_of key (sweep now keep l)) = filter (\<lambda>t. now - t < window) (hits_of key l)"
  using assms(1)
proof (induction l)
  case (Cons x l)
  obtain k ts where x: "x = (k, ts)" by (cases x)
  have k: "map_of l k = None" using Cons.prems x by (simp add: map_of_eq_None_iff)
  then have s: "map_of (sweep now keep l) k = None" by (auto simp: map_of_eq_None_iff sweep_def)
  have "filter (\<lambda>t. now - t < window) ts = []" if "list_all (\<lambda>t. now - t \<ge> keep) ts"
    using that assms(2) by (auto simp: filter_empty_conv list_all_iff)
  with Cons x k s show ?case by (auto simp: hits_of_def sweep_def)
qed (simp add: sweep_def)

lemma remembers_sweep:
  assumes "remembers window now hist l" "window \<le> keep"
  shows "remembers window now hist (sweep now keep l)"
  using assms hits_of_sweep [of l window keep now]
  by (auto simp: remembers_def sweep_def distinct_map inj_on_def)

lemma remembers_hit:
  assumes "remembers window now hist l" "hit key limit window now l = (r, l')" "0 < window"
  shows "allowed r \<longleftrightarrow> int (length (window_hits window key now hist)) < limit"
    "remembers window now (if allowed r then hist @ [(key, now)] else hist) l'"
proof -
  have eq: "filter (\<lambda>t. now - t < window) (hits_of k l) = window_hits window k now hist" for k
    using assms(1) by (simp add: remembers_def)
  show ok: "allowed r \<longleftrightarrow> int (length (window_hits window key now hist)) < limit"
    using assms(2) eq [of key] by (auto simp: hit_def Let_def split: if_splits)
  have l': "l' = AList.update key (if allowed r then window_hits window key now hist @ [now] else window_hits window key now hist) l"
    using assms(2) eq [of key] by (auto simp: hit_def Let_def split: if_splits)
  have again: "filter (\<lambda>t. now - t < window) (window_hits window k now hist) = window_hits window k now hist" for k
    by (rule window_hits_later) simp
  have more: "window_hits window k now (hist @ [(key, now)]) = window_hits window k now hist @ (if k = key then [now] else [])" for k
    using assms(3) by (simp add: window_hits_def)
  show "remembers window now (if allowed r then hist @ [(key, now)] else hist) l'"
    using assms(1,3) unfolding l' remembers_def
    by (auto simp: hits_of_update eq again more distinct_update sorted_append)
qed

lemma answers_ideal:
  assumes "sorted (t0 # map at es)" "list_all (sound window) es" "0 < window" "remembers window t0 hist l"
    and "t0 \<le> t" "\<forall>e \<in> set es. at e \<le> t"
  shows "fst (answers window es l) = fst (ideal window es hist)
    \<and> remembers window t (snd (ideal window es hist)) (snd (answers window es l))"
  using assms
proof (induction es arbitrary: t0 hist l)
  case Nil
  then show ?case by (simp add: remembers_later)
next
  case (Cons e es)
  let ?now = "at e"
  have now: "t0 \<le> ?now" "sorted (?now # map at es)" "?now \<le> t" "\<forall>e \<in> set es. at e \<le> t" using Cons.prems(1,6) by auto
  have mem: "remembers window ?now hist l" by (rule remembers_later [OF Cons.prems(4) now(1)])
  show ?case
  proof (cases e)
    case (Hit key limit n)
    obtain r l1 where h: "hit key limit window n l = (r, l1)" by (cases "hit key limit window n l")
    note step = remembers_hit [OF mem [unfolded Hit at.simps] h Cons.prems(3)]
    have all: "list_all (sound window) es" using Cons.prems(2) by simp
    note ih = Cons.IH [OF now(2) all Cons.prems(3), unfolded Hit at.simps, OF step(2) now(3) [unfolded Hit at.simps] now(4)]
    then show ?thesis using step(1) unfolding Hit by (simp add: h Let_def case_prod_beta)
  next
    case (Sweep keep n)
    have "window \<le> keep" and all: "list_all (sound window) es" using Cons.prems(2) by (simp_all add: Sweep)
    note ih = Cons.IH [OF now(2) all Cons.prems(3), unfolded Sweep at.simps,
        OF remembers_sweep [OF mem [unfolded Sweep at.simps] this(1)] now(3) [unfolded Sweep at.simps] now(4)]
    then show ?thesis unfolding Sweep by simp
  qed
qed

section \<open>What the specification says\<close>

fun hits_under :: "string \<Rightarrow> int \<Rightarrow> event \<Rightarrow> bool" where
  "hits_under key n (Hit k limit now) = (k = key \<longrightarrow> limit \<le> n)"
| "hits_under key n (Sweep keep now) = True"

text \<open>Never more than \<open>n\<close> hits of a key in any window.\<close>

definition crowded :: "int \<Rightarrow> string \<Rightarrow> int \<Rightarrow> (string \<times> instant) list \<Rightarrow> bool" where
  "crowded window key n hist \<longleftrightarrow>
     (\<exists>t. n < int (length (filter (\<lambda>(k, x). k = key \<and> t - window < x \<and> x \<le> t) hist)))"

lemma length_filter_weaker: "(\<And>x. x \<in> set xs \<Longrightarrow> P x \<Longrightarrow> Q x) \<Longrightarrow> length (filter P xs) \<le> length (filter Q xs)"
  by (induction xs) (auto intro: le_SucI)

lemma crowded_snoc:
  assumes "\<not> crowded window key n hist" "k = key \<Longrightarrow> int (length (window_hits window k now hist)) < n"
    and "\<forall>t \<in> snd ` set hist. t \<le> now"
  shows "\<not> crowded window key n (hist @ [(k, now)])"
proof
  assume "crowded window key n (hist @ [(k, now)])"
  then obtain t where t: "n < int (length (filter (\<lambda>(k, x). k = key \<and> t - window < x \<and> x \<le> t) (hist @ [(k, now)])))"
    by (auto simp: crowded_def)
  have old: "int (length (filter (\<lambda>(k, x). k = key \<and> t - window < x \<and> x \<le> t) hist)) \<le> n"
    using assms(1) by (auto simp: crowded_def not_less)
  have new: "k = key" "t - window < now" "now \<le> t" using t old by (auto split: if_splits)
  have "length (filter (\<lambda>(k, x). k = key \<and> t - window < x \<and> x \<le> t) hist)
      \<le> length (filter (\<lambda>(k, x). k = key \<and> now - x < window) hist)"
    using new(3) by (intro length_filter_weaker) auto
  then show False using t assms(2) new(1) by (simp add: window_hits_def split: if_splits)
qed

lemma ideal_not_crowded:
  assumes "sorted (t0 # map at es)" "\<forall>t \<in> snd ` set hist. t \<le> t0" "list_all (hits_under key n) es"
    and "\<not> crowded window key n hist"
  shows "\<not> crowded window key n (snd (ideal window es hist))"
  using assms
proof (induction es arbitrary: t0 hist)
  case (Cons e es)
  show ?case
  proof (cases e)
    case (Hit k limit now)
    let ?ok = "int (length (window_hits window k now hist)) < limit"
    let ?hist = "if ?ok then hist @ [(k, now)] else hist"
    have now: "sorted (now # map at es)" "t0 \<le> now" using Cons.prems(1) Hit by auto
    have old: "\<forall>t \<in> snd ` set hist. t \<le> now" using Cons.prems(2) now(2) by fastforce
    have under: "k = key \<Longrightarrow> limit \<le> n" using Cons.prems(3) Hit by simp
    have "\<not> crowded window key n ?hist"
    proof (cases ?ok)
      case True
      with under have "k = key \<Longrightarrow> int (length (window_hits window k now hist)) < n" by linarith
      from crowded_snoc [OF Cons.prems(4) this old] show ?thesis using True by simp
    qed (use Cons.prems(4) in simp)
    moreover have "\<forall>t \<in> snd ` set ?hist. t \<le> now" using old by auto
    ultimately have "\<not> crowded window key n (snd (ideal window es ?hist))"
      using Cons.IH [OF now(1)] Cons.prems(3) by simp
    then show ?thesis by (simp add: Hit Let_def case_prod_beta)
  next
    case (Sweep keep now)
    then have "sorted (now # map at es)" "\<forall>t \<in> snd ` set hist. t \<le> now" using Cons.prems by fastforce+
    from Cons.IH [OF this] Cons.prems(3,4) show ?thesis by (simp add: Sweep)
  qed
qed simp

text \<open>After a refusal the oldest hit of the window decides when the next one is let through.\<close>

lemma refused_until:
  assumes "remembers window now hist l" "hit key limit window now l = (r, l')" "\<not> allowed r" "0 < window" "0 < limit"
    and "int (length (window_hits window key now hist)) \<le> limit"
  shows "\<exists>w. retryAfterMs r = Some w \<and> 1 \<le> w \<and> w \<le> window
    \<and> (\<forall>t \<ge> now. allowed (fst (hit key limit window t l')) \<longleftrightarrow> now + w \<le> t)"
proof -
  have eq: "filter (\<lambda>t. now - t < window) (hits_of key l) = window_hits window key now hist"
    using assms(1) by (simp add: remembers_def)
  have full: "int (length (window_hits window key now hist)) = limit"
    using remembers_hit(1) [OF assms(1,2,4)] assms(3,6) by simp
  then obtain o1 rest where recent: "window_hits window key now hist = o1 # rest"
    using assms(5) by (cases "window_hits window key now hist") auto
  have srt: "sorted (o1 # rest)"
    using assms(1) unfolding recent [symmetric] window_hits_def remembers_def by (auto intro: sorted_filter)
  have o1: "now - o1 < window" "o1 \<le> now" using recent assms(1)
    by (auto simp: remembers_def window_hits_def filter_eq_Cons_iff map_eq_Cons_conv)
  have r: "retryAfterMs r = Some (max 1 (window - (now - o1)))" and l': "l' = AList.update key (o1 # rest) l"
    using assms(2,3) eq full recent by (auto simp: hit_def Let_def split: if_splits)
  have "allowed (fst (hit key limit window t l')) \<longleftrightarrow> o1 + window \<le> t" if t: "now \<le> t" for t
  proof -
    have a: "allowed (fst (hit key limit window t l')) \<longleftrightarrow> int (length (filter (\<lambda>x. t - x < window) (o1 # rest))) < limit"
      by (simp add: hit_def Let_def l' hits_of_update)
    show ?thesis
    proof (cases "o1 + window \<le> t")
      case True
      have "length (filter (\<lambda>x. t - x < window) rest) \<le> length rest" by (rule length_filter_le)
      then have "int (length (filter (\<lambda>x. t - x < window) rest)) \<le> int (length rest)" by (rule of_nat_mono)
      moreover have "int (length rest) < limit" using full by (simp add: recent)
      ultimately have "int (length (filter (\<lambda>x. t - x < window) rest)) < limit" by (rule le_less_trans)
      with True show ?thesis unfolding a by simp
    next
      case False
      with srt have "\<forall>x \<in> set (o1 # rest). t - x < window" by auto
      then have "filter (\<lambda>x. t - x < window) (o1 # rest) = o1 # rest" by (simp add: filter_id_conv)
      with False full show ?thesis unfolding a by (simp add: recent)
    qed
  qed
  with o1 show ?thesis unfolding r by (intro exI [of _ "max 1 (window - (now - o1))"]) auto
qed

text \<open>C30: the limiter is a sliding window. On a clock that does not go back, for any sequence of hits and of sweeps
  that keep at least the window, it answers what a limiter that never forgets a hit would; no window ever
  holds more hits of a key than its limit; and after a refusal the key is let through again exactly when
  the announced wait is over, not before.\<close>

theorem sliding_window_exact:
  assumes "sorted (map at es)" "list_all (sound window) es" "0 < window"
    and "0 < limit" "list_all (hits_under key limit) es" "\<forall>e \<in> set es. at e \<le> now"
  shows "fst (answers window es []) = fst (ideal window es [])
    \<and> \<not> crowded window key limit (snd (ideal window es []))
    \<and> (case hit key limit window now (snd (answers window es [])) of (r, l) \<Rightarrow> allowed r
         \<or> (\<exists>w. retryAfterMs r = Some w \<and> 1 \<le> w \<and> w \<le> window
              \<and> (\<forall>t \<ge> now. allowed (fst (hit key limit window t l)) \<longleftrightarrow> now + w \<le> t)))"
proof -
  define t0 where "t0 = (case es of [] \<Rightarrow> now | e # _ \<Rightarrow> at e)"
  have srt: "sorted (t0 # map at es)" using assms(1) by (cases es) (auto simp: t0_def)
  have t0: "t0 \<le> now" using assms(6) by (cases es) (auto simp: t0_def)
  have start: "remembers window t0 [] []" by (simp add: remembers_def hits_of_def window_hits_def)
  let ?hist = "snd (ideal window es [])" and ?l = "snd (answers window es [])"
  note both = answers_ideal [OF srt assms(2,3) start t0 assms(6)]
  have free: "\<not> crowded window key limit ?hist"
    using ideal_not_crowded [OF srt _ assms(5), of "[]" window] assms(4) by (simp add: crowded_def)
  have upto: "\<forall>x \<in> snd ` set ?hist. x \<le> now" using both by (simp add: remembers_def)
  have "length (window_hits window key now ?hist) \<le> length (filter (\<lambda>(k, x). k = key \<and> now - window < x \<and> x \<le> now) ?hist)"
    unfolding window_hits_def length_map
  proof (rule length_filter_weaker)
    fix x assume "x \<in> set ?hist" "case x of (k, t) \<Rightarrow> k = key \<and> now - t < window"
    with upto show "case x of (k, t) \<Rightarrow> k = key \<and> now - window < t \<and> t \<le> now" by (cases x) fastforce
  qed
  then have le: "int (length (window_hits window key now ?hist))
      \<le> int (length (filter (\<lambda>(k, x). k = key \<and> now - window < x \<and> x \<le> now) ?hist))" by simp
  have "\<not> limit < int (length (filter (\<lambda>(k, x). k = key \<and> now - window < x \<and> x \<le> now) ?hist))"
    using free unfolding crowded_def by blast
  with le have full: "int (length (window_hits window key now ?hist)) \<le> limit" by linarith
  obtain r l where h: "hit key limit window now ?l = (r, l)" by (cases "hit key limit window now ?l")
  from refused_until [OF conjunct2 [OF both] h _ assms(3,4) full]
  have "allowed r \<or> (\<exists>w. retryAfterMs r = Some w \<and> 1 \<le> w \<and> w \<le> window
      \<and> (\<forall>t \<ge> now. allowed (fst (hit key limit window t l)) \<longleftrightarrow> now + w \<le> t))" by blast
  with both free show ?thesis unfolding h prod.case by blast
qed

text \<open>Three hits in a minute, the limit two: the third waits for the first to leave the window.\<close>

definition sample_hits :: "event list" where
  "sample_hits = [Hit ''k'' 2 1000, Hit ''j'' 5 20000, Hit ''k'' 2 31000, Sweep 60000 35000, Hit ''k'' 2 40000]"

lemma sliding_window_exact_witness:
  "fst (answers 60000 sample_hits []) = [True, True, True, False]
   \<and> \<not> crowded 60000 ''k'' 2 (snd (ideal 60000 sample_hits []))
   \<and> fst (answers 60000 sample_hits []) = fst (ideal 60000 sample_hits [])
   \<and> retryAfterMs (fst (hit ''k'' 2 60000 40000 (snd (answers 60000 sample_hits [])))) = Some 21000"
proof -
  have a: "fst (answers 60000 sample_hits []) = [True, True, True, False]"
    "retryAfterMs (fst (hit ''k'' 2 60000 40000 (snd (answers 60000 sample_hits [])))) = Some 21000"
    by code_simp+
  have "sorted (map at sample_hits)" "list_all (sound 60000) sample_hits" "list_all (hits_under ''k'' 2) sample_hits"
    "\<forall>e \<in> set sample_hits. at e \<le> 40000" by code_simp+
  from sliding_window_exact [OF this(1,2) _ _ this(3,4)] a show ?thesis by simp
qed

end
