(* ===== verification/Invitations.thy ===== *)
theory Invitations
  imports Members RateLimiter
begin

text \<open>
  Invitations: a partner invites another one to a login of their own (\<open>src/invitations/\<close>), who chooses a password
  on a public page; the two database functions behind that page are those of the migrations
  \<open>20261021120000_account_invitations\<close> and \<open>20261023120000_invitation_accept_creates_device\<close>. The lock on the
  row of the invited member orders the invitations for one person, so the transaction of \<open>invite\<close> is one
  step in the state the lock is granted in. (What it reads besides, the logins and the invitations of the
  same sender to others, may change before it writes; no property here rests on it.)
\<close>

section \<open>Tables\<close>

record invitation = row +
  iv_memberId :: uuid
  iv_email :: string
  iv_tokenHash :: string
  iv_invitedByMemberId :: uuid
  iv_invitedViaSharedLogin :: bool
  iv_createdAt :: instant
  iv_expiresAt :: instant
  iv_usedAt :: "instant option"
  iv_supersededAt :: "instant option"
  iv_accountId :: "uuid option"

record confirmation = row +
  cf_memberId :: uuid
  cf_correo :: string
  cf_tokenHash :: string
  cf_requestedByAccountId :: uuid
  cf_createdAt :: instant
  cf_expiresAt :: instant
  cf_usedAt :: "instant option"
  cf_supersededAt :: "instant option"

datatype registration_status = PendienteCorreo | PorAprobar | Aprobado | Rechazado

text \<open>A registration belongs to no business yet; rows from before the mail check have no \<open>legalVersion\<close>
  and none of the optional columns.\<close>

record registration =
  rq_rid :: uuid
  rq_status :: registration_status
  rq_nombreNegocio :: string
  rq_tipoNegocio :: "string option"
  rq_queVende :: "string option"
  rq_dondeVende :: "string option"
  rq_recomendadoPor :: "string option"
  rq_nombre :: string
  rq_apellidos :: string
  rq_correo :: string
  rq_telefono :: "string option"
  rq_legalVersion :: "string option"
  rq_legalAcceptedAt :: "instant option"
  rq_createdAt :: instant
  rq_approvalTokenHash :: string
  rq_tokenExpiresAt :: instant
  rq_resolvedAt :: "instant option"
  rq_createdContextId :: "string option"
  rq_emailVerifiedAt :: "instant option"
  rq_emailTokenHash :: "string option"
  rq_emailTokenExpiresAt :: "instant option"
  rq_verificationEmailsSent :: int
  rq_lastVerificationEmailAt :: "instant option"

text \<open>The database with the tables of the life of an account.\<close>

record registry =
  shop :: db
  invitations :: "invitation list"
  confirmations :: "confirmation list"
  registrations :: "registration list"

section \<open>Rules\<close>

definition INVITATION_TTL_MS :: int where "INVITATION_TTL_MS = 72 * 60 * 60 * 1000"
definition INVITATION_MAX_PER_DAY :: nat where "INVITATION_MAX_PER_DAY = 3"
definition INVITATION_MAX_NEW_PER_DAY :: nat where "INVITATION_MAX_NEW_PER_DAY = 10"
definition INVITATION_MIN_GAP_MS :: int where "INVITATION_MIN_GAP_MS = 60 * 1000"
definition DAY_MS :: int where "DAY_MS = 24 * 60 * 60 * 1000"

datatype invite_restriction = SharedBlocked | SharedSelfOnly

definition inviteRestriction :: "bool \<Rightarrow> uuid \<Rightarrow> uuid \<Rightarrow> bool \<Rightarrow> invite_restriction option" where
  "inviteRestriction shared selectedMemberId targetMemberId businessHasPersonalSocio =
     (if \<not> shared then None
      else if businessHasPersonalSocio then Some SharedBlocked
      else if targetMemberId \<noteq> selectedMemberId then Some SharedSelfOnly
      else None)"

definition TooMany :: "string \<Rightarrow> failure" where "TooMany code = Internal (''429 '' @ code)"

definition notSent :: failure where "notSent = Unprocessable ''INVITATION_NOT_SENT''"

definition invalid_invitation :: failure where "invalid_invitation = NotFound ''INVITATION_INVALID''"

definition invitations_of :: "registry \<Rightarrow> string \<Rightarrow> uuid \<Rightarrow> invitation list" where
  "invitations_of s c m = [i \<leftarrow> in_context c (invitations s). iv_memberId i = m]"

text \<open>\<open>orderBy: {createdAt: 'desc'}\<close>.\<close>

definition newest_invitations :: "registry \<Rightarrow> string \<Rightarrow> uuid \<Rightarrow> invitation list" where
  "newest_invitations s c m = sort_key (\<lambda>i. - iv_createdAt i) (invitations_of s c m)"

definition enforceSendLimits :: "registry \<Rightarrow> string \<Rightarrow> uuid \<Rightarrow> instant \<Rightarrow> unit result" where
  "enforceSendLimits s c m now =
     (let mine = take (INVITATION_MAX_PER_DAY + 1) (newest_invitations s c m) in
      if (case mine of [] \<Rightarrow> False | i # _ \<Rightarrow> now - iv_createdAt i < INVITATION_MIN_GAP_MS)
      then Inl (TooMany ''INVITATION_TOO_SOON'')
      else if INVITATION_MAX_PER_DAY \<le> length [i \<leftarrow> mine. now - iv_createdAt i < DAY_MS]
      then Inl (TooMany ''INVITATION_DAILY_LIMIT'')
      else Inr ())"

text \<open>The first invitation of each person, in the order of their first one.\<close>

definition first_of_each :: "invitation list \<Rightarrow> invitation list" where
  "first_of_each is = map (\<lambda>m. hd [i \<leftarrow> is. iv_memberId i = m]) (remdups (map iv_memberId is))"

definition enforceNewInvitationLimit :: "registry \<Rightarrow> string \<Rightarrow> uuid \<Rightarrow> uuid \<Rightarrow> instant \<Rightarrow> unit result" where
  "enforceNewInvitationLimit s c m inviterId now =
     (if invitations_of s c m \<noteq> [] then Inr ()
      else
        let since = now - DAY_MS;
            recent = [i \<leftarrow> in_context c (invitations s). iv_invitedByMemberId i = inviterId \<and> since \<le> iv_createdAt i];
            everything = sort_key iv_createdAt [i \<leftarrow> in_context c (invitations s). iv_memberId i \<in> iv_memberId ` set recent];
            fresh = length [i \<leftarrow> first_of_each everything. iv_invitedByMemberId i = inviterId \<and> since \<le> iv_createdAt i] in
        if recent = [] then Inr ()
        else if INVITATION_MAX_NEW_PER_DAY \<le> fresh then Inl (TooMany ''INVITATION_NEW_DAILY_LIMIT'')
        else Inr ())"

definition hasPersonalSocio :: "db \<Rightarrow> string \<Rightarrow> bool" where
  "hasPersonalSocio d c \<longleftrightarrow> (\<exists>a \<in> set (in_context c (accounts d)). \<exists>m \<in> set (in_context c (members d)).
     m_role m = Socio \<and> m_active m \<and> acc_memberId a = Some (rid m))"

section \<open>A partner invites another\<close>

text \<open>Who asks: the session and the member selected in it; and the drawn identifier and the digest of the token.\<close>

definition invite_checks :: "session \<Rightarrow> uuid \<Rightarrow> uuid \<Rightarrow> string \<Rightarrow> instant \<Rightarrow> registry \<Rightarrow> member result" where
  "invite_checks who inviterId memberId email now s =
     (let c = se_contextId who in
      case find_row c memberId (members (shop s)) of
        None \<Rightarrow> Inl (NotFound ''No encontramos a esa persona.'')
      | Some m \<Rightarrow>
          if \<not> m_active m \<or> m_role m \<noteq> Socio then Inl (Unprocessable ''Solo se puede invitar a un socio activo.'')
          else
            let shared = (se_memberId who = None) in
            if inviteRestriction shared inviterId memberId (shared \<and> hasPersonalSocio (shop s) c) \<noteq> None then Inl Forbidden
            else if \<exists>a \<in> set (in_context c (accounts (shop s))). acc_memberId a = Some memberId
            then Inl (Conflict ''Este socio ya tiene su cuenta personal.'')
            else (case enforceSendLimits s c memberId now of Inl e \<Rightarrow> Inl e
              | Inr _ \<Rightarrow> (case enforceNewInvitationLimit s c memberId inviterId now of Inl e \<Rightarrow> Inl e
                  | Inr _ \<Rightarrow> if username_taken email (shop s) then Inl notSent else Inr m)))"

definition live_invitation :: "string \<Rightarrow> uuid \<Rightarrow> invitation \<Rightarrow> bool" where
  "live_invitation c m i \<longleftrightarrow> ctx i = c \<and> iv_memberId i = m \<and> iv_usedAt i = None \<and> iv_supersededAt i = None"

definition supersede :: "(invitation \<Rightarrow> bool) \<Rightarrow> instant \<Rightarrow> registry \<Rightarrow> registry" where
  "supersede P now s = s\<lparr>invitations := map (\<lambda>i. if P i then i\<lparr>iv_supersededAt := Some now\<rparr> else i) (invitations s)\<rparr>"

definition new_invitation :: "session \<Rightarrow> uuid \<Rightarrow> uuid \<Rightarrow> string \<Rightarrow> uuid \<Rightarrow> string \<Rightarrow> instant \<Rightarrow> invitation" where
  "new_invitation who inviterId memberId email i tokenHash now = \<lparr>rid = i, ctx = se_contextId who, iv_memberId = memberId,
     iv_email = email, iv_tokenHash = tokenHash, iv_invitedByMemberId = inviterId,
     iv_invitedViaSharedLogin = (se_memberId who = None), iv_createdAt = now, iv_expiresAt = now + INVITATION_TTL_MS,
     iv_usedAt = None, iv_supersededAt = None, iv_accountId = None\<rparr>"

definition invite_tx ::
  "session \<Rightarrow> uuid \<Rightarrow> uuid \<Rightarrow> string \<Rightarrow> uuid \<Rightarrow> string \<Rightarrow> instant \<Rightarrow> registry \<Rightarrow> uuid result \<times> registry"
where
  "invite_tx who inviterId memberId email i tokenHash now s =
     (case invite_checks who inviterId memberId email now s of
        Inl e \<Rightarrow> (Inl e, s)
      | Inr m \<Rightarrow>
          let s1 = supersede (live_invitation (se_contextId who) memberId) now s;
              v = new_invitation who inviterId memberId email i tokenHash now in
          if tokenHash \<in> iv_tokenHash ` set (invitations s1) then (Inl (UniqueViolation ''AccountInvitation_tokenHash_key''), s)
          else (case insert_row ''AccountInvitation'' v (invitations s1) of
              Inl e \<Rightarrow> (Inl e, s) | Inr rows \<Rightarrow> (Inr i, s1\<lparr>invitations := rows\<rparr>)))"

text \<open>The link of a mail that was not sent is taken back, after whatever others committed (\<open>w\<close>).\<close>

definition withdraw_invitation :: "string \<Rightarrow> uuid \<Rightarrow> instant \<Rightarrow> registry \<Rightarrow> registry" where
  "withdraw_invitation c i now = supersede (\<lambda>x. rid x = i \<and> ctx x = c) now"

definition bad_address :: failure where
  "bad_address = BadRequest (''Escribe un correo v'' @ [CHR 0xE1] @ ''lido.'')"

definition MAX_INVITED_EMAIL :: nat where "MAX_INVITED_EMAIL = 100"

definition invite ::
  "(string \<Rightarrow> string) \<Rightarrow> bool \<Rightarrow> (registry \<Rightarrow> registry) \<Rightarrow> instant \<Rightarrow> session \<Rightarrow> uuid \<Rightarrow> uuid \<Rightarrow> string \<Rightarrow> uuid \<Rightarrow> string \<Rightarrow> instant
    \<Rightarrow> registry \<Rightarrow> instant result \<times> registry"
where
  "invite sha256 sent w later who inviterId memberId rawEmail i token now s =
     (case normalizeSocioEmail rawEmail of
        None \<Rightarrow> (Inl bad_address, s)
      | Some email \<Rightarrow>
          if length email > MAX_INVITED_EMAIL then (Inl bad_address, s)
          else (case invite_tx who inviterId memberId email i (sha256 token) now s of
              (Inl e, s1) \<Rightarrow> (Inl e, s1)
            | (Inr k, s1) \<Rightarrow>
                if sent then (Inr (now + INVITATION_TTL_MS), s1)
                else (Inl notSent, withdraw_invitation (se_contextId who) k later (w s1))))"

section \<open>The team screen\<close>

record invitation_status =
  is_memberId :: uuid
  is_name :: string
  is_hasPersonalAccount :: bool
  is_allowed :: bool
  is_reason :: "invite_restriction option"
  is_invitation :: "(string \<times> instant \<times> instant \<times> instant \<times> nat) option"

definition status_of :: "session \<Rightarrow> uuid \<Rightarrow> instant \<Rightarrow> registry \<Rightarrow> bool \<Rightarrow> member \<Rightarrow> invitation_status" where
  "status_of who selectedId now s businessHasPersonalSocio m =
     (let c = se_contextId who;
          personal = (\<exists>a \<in> set (in_context c (accounts (shop s))). acc_memberId a = Some (rid m));
          restriction = (if personal then None
            else inviteRestriction (se_memberId who = None) selectedId (rid m) businessHasPersonalSocio);
          mine = newest_invitations s c (rid m);
          today = length [i \<leftarrow> mine. now - iv_createdAt i < DAY_MS] in
      \<lparr>is_memberId = rid m, is_name = m_name m, is_hasPersonalAccount = personal,
       is_allowed = (\<not> personal \<and> restriction = None), is_reason = restriction,
       is_invitation = (case mine of [] \<Rightarrow> None
         | i # _ \<Rightarrow> if iv_usedAt i = None \<and> iv_supersededAt i = None \<and> now < iv_expiresAt i
             then Some (iv_email i, iv_createdAt i, iv_expiresAt i, iv_createdAt i + INVITATION_MIN_GAP_MS,
               INVITATION_MAX_PER_DAY - today) else None)\<rparr>)"

definition invitation_statuses :: "session \<Rightarrow> uuid \<Rightarrow> instant \<Rightarrow> registry \<Rightarrow> invitation_status list" where
  "invitation_statuses who selectedId now s =
     (let c = se_contextId who;
          ms = sort_key (\<lambda>m. (m_createdAt m, rid m)) [m \<leftarrow> in_context c (members (shop s)). m_role m = Socio \<and> m_active m];
          personal = (\<exists>a \<in> set (in_context c (accounts (shop s))). \<exists>m \<in> set ms. acc_memberId a = Some (rid m)) in
      map (status_of who selectedId now s personal) ms)"

section \<open>The public page\<close>

text \<open>\<open>account_invitation_lookup\<close> and \<open>account_invitation_accept\<close>; \<open>t\<close> is \<open>now()\<close>.\<close>

definition usable_invitation :: "string \<Rightarrow> instant \<Rightarrow> registry \<Rightarrow> invitation option" where
  "usable_invitation tokenHash t s = find (\<lambda>i. iv_tokenHash i = tokenHash \<and> iv_usedAt i = None \<and> iv_supersededAt i = None
     \<and> t < iv_expiresAt i) (invitations s)"

definition invited_member :: "invitation \<Rightarrow> db \<Rightarrow> member option" where
  "invited_member i d = find (\<lambda>m. rid m = iv_memberId i \<and> ctx m = ctx i \<and> m_active m \<and> m_role m = Socio) (members d)"

definition account_invitation_lookup :: "string \<Rightarrow> instant \<Rightarrow> registry \<Rightarrow> (string \<times> string \<times> instant) option" where
  "account_invitation_lookup tokenHash t s =
     (case usable_invitation tokenHash t s of None \<Rightarrow> None
      | Some i \<Rightarrow> map_option (\<lambda>m. (m_name m, iv_email i, iv_expiresAt i)) (invited_member i (shop s)))"

record acceptance =
  ac_accountId :: uuid
  ac_passwordHash :: string
  ac_deviceId :: uuid
  ac_identifier :: string
  ac_deviceTokenHash :: string

definition invited_account :: "invitation \<Rightarrow> acceptance \<Rightarrow> instant \<Rightarrow> account" where
  "invited_account i a t = \<lparr>rid = ac_accountId a, ctx = ctx i, acc_username = iv_email i,
     acc_passwordHash = ac_passwordHash a, acc_active = True, acc_createdAt = t, acc_memberId = Some (iv_memberId i)\<rparr>"

definition invited_device :: "invitation \<Rightarrow> string \<Rightarrow> acceptance \<Rightarrow> instant \<Rightarrow> device" where
  "invited_device i name a t = \<lparr>rid = ac_deviceId a, ctx = ctx i, d_name = name, d_identifier = ac_identifier a,
     d_authorized = True, d_createdAt = t, d_status = Activo, d_tokenHash = Some (ac_deviceTokenHash a),
     d_activatedAt = Some t, d_revokedAt = None\<rparr>"

text \<open>No row is the answer to whatever makes a link unusable; an exception rolls everything back.\<close>

definition account_invitation_accept ::
  "string \<Rightarrow> acceptance \<Rightarrow> instant \<Rightarrow> registry \<Rightarrow> (string \<times> string) option result \<times> registry"
where
  "account_invitation_accept tokenHash a t s =
     (case usable_invitation tokenHash t s of
        None \<Rightarrow> (Inr None, s)
      | Some i \<Rightarrow>
         (case invited_member i (shop s) of
            None \<Rightarrow> (Inr None, s)
          | Some m \<Rightarrow>
              if Some (iv_memberId i) \<in> acc_memberId ` set (accounts (shop s)) \<or> username_taken (iv_email i) (shop s)
              then (Inr None, s)
              else
                let deviceName = take 100 (''Dispositivo de '' @ m_name m) in
                (case insert_account (invited_account i a t) (shop s) of
                   Inl e \<Rightarrow> (Inl e, s)
                 | Inr d1 \<Rightarrow>
                    (case insert_device (invited_device i deviceName a t) d1 of
                       Inl e \<Rightarrow> (Inl e, s)
                     | Inr d2 \<Rightarrow> (Inr (Some (iv_email i, deviceName)),
                         s\<lparr>shop := d2, invitations := map (\<lambda>x. if rid x = rid i
                             then x\<lparr>iv_usedAt := Some t, iv_accountId := Some (ac_accountId a)\<rparr> else x) (invitations s)\<rparr>)))))"

text \<open>The page: the limiter first, then the link.\<close>

definition inspect_invitation ::
  "(string \<Rightarrow> string) \<Rightarrow> string \<Rightarrow> string \<Rightarrow> instant \<Rightarrow> registry \<Rightarrow> limiter \<times> limiter
    \<Rightarrow> (string \<times> string \<times> instant) result \<times> limiter \<times> limiter"
where
  "inspect_invitation sha256 token ip t s ls =
     (case page_limit (sha256 token) ip t ls of (ok, ls') \<Rightarrow>
        (if \<not> ok then Inl (TooMany ''INVITATION_RATE_LIMITED'')
         else case account_invitation_lookup (sha256 token) t s of
           None \<Rightarrow> Inl invalid_invitation | Some row \<Rightarrow> Inr row, ls'))"

text \<open>\<open>w\<close> is what others commit while the password is hashed.\<close>

definition accept_invitation ::
  "(string \<Rightarrow> string) \<Rightarrow> (registry \<Rightarrow> registry) \<Rightarrow> string \<Rightarrow> acceptance \<Rightarrow> string \<Rightarrow> instant \<Rightarrow> instant \<Rightarrow> registry \<Rightarrow> limiter \<times> limiter
    \<Rightarrow> (string \<times> uuid \<times> uuid \<times> string) result \<times> registry \<times> limiter \<times> limiter"
where
  "accept_invitation sha256 w token a ip t later s ls =
     (case page_limit (sha256 token) ip t ls of (ok, ls') \<Rightarrow>
        if \<not> ok then (Inl (TooMany ''INVITATION_RATE_LIMITED''), s, ls')
        else if account_invitation_lookup (sha256 token) t s = None then (Inl invalid_invitation, s, ls')
        else (case account_invitation_accept (sha256 token) a later (w s) of
            (Inl e, s') \<Rightarrow> (Inl e, s', ls')
          | (Inr None, s') \<Rightarrow> (Inl invalid_invitation, s', ls')
          | (Inr (Some (email, deviceName)), s') \<Rightarrow> (Inr (email, ac_accountId a, ac_deviceId a, deviceName), s', ls')))"

section \<open>Commits in any order\<close>

text \<open>What one commit does to the invitations; \<open>Aside\<close> is any other part of the program.\<close>

datatype invitation_request =
    InviteOne session uuid uuid string uuid string instant
  | Withdraw string uuid instant
  | AcceptOne string acceptance instant
  | Aside "registry \<Rightarrow> registry"

fun commit_invitation :: "invitation_request \<Rightarrow> registry \<Rightarrow> registry" where
  "commit_invitation (InviteOne who inviter m email i h now) s = snd (invite_tx who inviter m email i h now s)"
| "commit_invitation (Withdraw c i now) s = withdraw_invitation c i now s"
| "commit_invitation (AcceptOne h a t) s = snd (account_invitation_accept h a t s)"
| "commit_invitation (Aside f) s = f s"

fun aside :: "invitation_request \<Rightarrow> bool" where
  "aside (Aside f) \<longleftrightarrow> (\<forall>s. invitations (f s) = invitations s)"
| "aside _ \<longleftrightarrow> True"

definition invitation_commits :: "invitation_request list \<Rightarrow> registry \<Rightarrow> registry" where
  "invitation_commits reqs s = fold commit_invitation reqs s"

text \<open>
  The invitations for one person are a minute apart, in the order they were sent; no day holds more than
  three of them; and at most one of them is live.
\<close>

definition gap :: "invitation \<Rightarrow> invitation \<Rightarrow> bool" where
  "gap i j \<longleftrightarrow> iv_createdAt i + INVITATION_MIN_GAP_MS \<le> iv_createdAt j"

definition in_day :: "instant \<Rightarrow> invitation \<Rightarrow> bool" where
  "in_day t i \<longleftrightarrow> t - DAY_MS < iv_createdAt i \<and> iv_createdAt i \<le> t"

definition paced :: "invitation list \<Rightarrow> bool" where
  "paced is \<longleftrightarrow> sorted_wrt gap is \<and> (\<forall>t. length (filter (in_day t) is) \<le> INVITATION_MAX_PER_DAY)"

definition invitations_sound :: "registry \<Rightarrow> bool" where
  "invitations_sound s \<longleftrightarrow> distinct (map rid (invitations s)) \<and> distinct (map iv_tokenHash (invitations s))
     \<and> (\<forall>i \<in> set (invitations s). iv_expiresAt i = iv_createdAt i + INVITATION_TTL_MS
          \<and> (iv_usedAt i = None \<longleftrightarrow> iv_accountId i = None))
     \<and> (\<forall>c m. paced (invitations_of s c m) \<and> length (filter (live_invitation c m) (invitations s)) \<le> 1)"

text \<open>A list in the order of its dates, newest first, is the list reversed.\<close>

lemma sort_key_rev:
  fixes f :: "'a \<Rightarrow> int"
  assumes "sorted_wrt (\<lambda>x y. f y < f x) xs"
  shows "sort_key f xs = rev xs"
proof (rule properties_for_sort_key)
  have one: "length (filter (\<lambda>x. f k = f x) xs) \<le> 1" for k
    using assms
  proof (induction xs)
    case (Cons x xs)
    then have "f k = f x \<Longrightarrow> filter (\<lambda>x. f k = f x) xs = []" by (fastforce simp: filter_empty_conv)
    with Cons show ?case by auto
  qed simp
  show "filter (\<lambda>x. f k = f x) (rev xs) = filter (\<lambda>x. f k = f x) xs" for k
    using one [of k] by (cases "filter (\<lambda>x. f k = f x) xs") (auto simp: rev_filter [symmetric])
  show "sorted (map f (rev xs))"
    using assms by (induction xs) (auto simp: sorted_append order_less_imp_le)
qed simp

lemma newest_paced:
  assumes "paced (invitations_of s c m)"
  shows "newest_invitations s c m = rev (invitations_of s c m)"
proof -
  have "sorted_wrt (\<lambda>x y. - iv_createdAt y < - iv_createdAt x) (invitations_of s c m)"
    using assms unfolding paced_def
    by (auto elim!: sorted_wrt_mono_rel [rotated] simp: gap_def INVITATION_MIN_GAP_MS_def)
  then show ?thesis unfolding newest_invitations_def by (rule sort_key_rev)
qed

lemma filter_takeWhile: "sorted_wrt (\<lambda>x y. P y \<longrightarrow> P x) xs \<Longrightarrow> filter P xs = takeWhile P xs"
proof (induction xs)
  case (Cons x xs)
  then show ?case by (cases "P x") (auto simp: filter_empty_conv)
qed simp

lemma takeWhile_of_take: "takeWhile P (take n xs) = take n (takeWhile P xs)"
  by (induction xs arbitrary: n) (auto simp: take_Cons split: nat.splits)

lemma length_filter_take:
  assumes "sorted_wrt (\<lambda>x y. P y \<longrightarrow> P x) xs"
  shows "length (filter P (take n xs)) = min n (length (filter P xs))"
proof -
  have "sorted_wrt (\<lambda>x y. P y \<longrightarrow> P x) (take n xs)" using assms by (rule sorted_wrt_take)
  then have "filter P (take n xs) = take n (filter P xs)"
    using filter_takeWhile [of P "take n xs"] filter_takeWhile [OF assms] by (simp add: takeWhile_of_take)
  then show ?thesis by simp
qed

text \<open>An invitation that passes the limits keeps the pace.\<close>

lemma paced_invite:
  assumes "paced is" "enforceSendLimits s c m now = Inr ()" "is = invitations_of s c m" "iv_createdAt v = now"
  shows "paced (is @ [v])"
proof -
  have new: "newest_invitations s c m = rev is" using newest_paced assms(1,3) by simp
  have srt: "sorted_wrt gap is" using assms(1) by (simp add: paced_def)
  have ok: "\<not> (case take 4 (rev is) of [] \<Rightarrow> False | i # _ \<Rightarrow> now - iv_createdAt i < INVITATION_MIN_GAP_MS)"
    "length [i \<leftarrow> take 4 (rev is). now - iv_createdAt i < DAY_MS] < 3"
    using assms(2) by (auto simp: enforceSendLimits_def Let_def new INVITATION_MAX_PER_DAY_def split: if_splits)
  have gaps: "gap i v" if "i \<in> set is" for i
  proof (cases "rev is")
    case (Cons l rest)
    then have "is = rev rest @ [l]" by (metis rev.simps(2) rev_rev_ident)
    with srt that have "i = l \<or> gap i l" by (auto simp: sorted_wrt_append)
    moreover have "gap l v" using ok(1) Cons assms(4) by (simp add: gap_def)
    ultimately show ?thesis by (auto simp: gap_def INVITATION_MIN_GAP_MS_def)
  qed (use that in simp)
  let ?P = "\<lambda>i. now - iv_createdAt i < DAY_MS"
  have "sorted_wrt (\<lambda>x y. ?P x \<longrightarrow> ?P y) is"
    using srt by (auto elim!: sorted_wrt_mono_rel [rotated] simp: gap_def INVITATION_MIN_GAP_MS_def)
  then have "length (filter ?P (take 4 (rev is))) = min 4 (length (filter ?P (rev is)))"
    by (intro length_filter_take) (simp add: sorted_wrt_rev)
  then have few: "length (filter ?P is) < 3" using ok(2) by (simp add: rev_filter [symmetric])
  have "length (filter (in_day t) (is @ [v])) \<le> 3" for t
  proof (cases "in_day t v")
    case True
    have "length (filter (in_day t) is) \<le> length (filter ?P is)"
      using True assms(4) by (intro length_filter_weaker) (auto simp: in_day_def)
    with few True show ?thesis by simp
  next
    case False
    with assms(1) show ?thesis by (simp add: paced_def INVITATION_MAX_PER_DAY_def)
  qed
  with srt gaps show ?thesis by (auto simp: paced_def sorted_wrt_append INVITATION_MAX_PER_DAY_def)
qed

text \<open>The pace looks at the dates only.\<close>

lemma paced_dates:
  assumes "map iv_createdAt is = map iv_createdAt js"
  shows "paced is = paced js"
proof -
  have "sorted_wrt gap ks \<longleftrightarrow> sorted_wrt (\<lambda>a b. a + INVITATION_MIN_GAP_MS \<le> b) (map iv_createdAt ks)" for ks
    by (simp add: sorted_wrt_map gap_def [abs_def])
  moreover have "length (filter (in_day t) ks) = length (filter (\<lambda>a. t - DAY_MS < a \<and> a \<le> t) (map iv_createdAt ks))" for t ks
    by (simp add: filter_map in_day_def [abs_def] o_def)
  ultimately show ?thesis using assms by (simp only: paced_def)
qed

lemma invitations_of_map:
  assumes "\<And>i. ctx (f i) = ctx i \<and> iv_memberId (f i) = iv_memberId i"
  shows "filter (\<lambda>i. iv_memberId i = m) (in_context c (map f is)) = map f (filter (\<lambda>i. iv_memberId i = m) (in_context c is))"
  using assms by (simp add: in_context_def filter_map o_def)

text \<open>A change of the marks of some invitations keeps everything that is not about the marks.\<close>

lemma invitations_sound_map:
  assumes "invitations_sound s" "invitations s' = map f (invitations s)"
    and "\<And>i. rid (f i) = rid i \<and> ctx (f i) = ctx i \<and> iv_memberId (f i) = iv_memberId i \<and> iv_tokenHash (f i) = iv_tokenHash i
          \<and> iv_createdAt (f i) = iv_createdAt i \<and> iv_expiresAt (f i) = iv_expiresAt i"
    and "\<And>i. iv_usedAt i = None \<longleftrightarrow> iv_accountId i = None \<Longrightarrow> iv_usedAt (f i) = None \<longleftrightarrow> iv_accountId (f i) = None"
    and "\<And>i c m. live_invitation c m (f i) \<Longrightarrow> live_invitation c m i"
  shows "invitations_sound s'"
proof -
  have of: "invitations_of s' c m = map f (invitations_of s c m)" for c m
    unfolding invitations_of_def assms(2) by (rule invitations_of_map) (use assms(3) in blast)
  have "paced (invitations_of s' c m) \<longleftrightarrow> paced (invitations_of s c m)" for c m
    unfolding of by (rule paced_dates) (simp add: assms(3))
  moreover have "length (filter (live_invitation c m) (invitations s')) \<le> length (filter (live_invitation c m) (invitations s))" for c m
    unfolding assms(2) filter_map length_map o_def by (rule length_filter_weaker) (rule assms(5))
  moreover have "map rid (invitations s') = map rid (invitations s)" "map iv_tokenHash (invitations s') = map iv_tokenHash (invitations s)"
    by (simp_all add: assms(2,3))
  moreover have "iv_expiresAt i = iv_createdAt i + INVITATION_TTL_MS \<and> (iv_usedAt i = None \<longleftrightarrow> iv_accountId i = None)"
    if "i \<in> set (invitations s')" for i
    using that assms(1,3,4) by (fastforce simp: assms(2) invitations_sound_def)
  ultimately show ?thesis using assms(1) unfolding invitations_sound_def by (metis le_trans)
qed

lemma invitations_sound_supersede:
  "invitations_sound s \<Longrightarrow> invitations_sound (supersede P now s)"
  by (rule invitations_sound_map [where f = "\<lambda>i. if P i then i\<lparr>iv_supersededAt := Some now\<rparr> else i"])
    (auto simp: supersede_def live_invitation_def split: if_splits)

lemma invite_tx_cases:
  assumes "invite_tx who inviter m email i h now s = (out, s')"
  defines "s1 \<equiv> supersede (live_invitation (se_contextId who) m) now s"
  obtains (refused) e where "out = Inl e" "s' = s"
  | (invited) "out = Inr i" "s' = s1\<lparr>invitations := invitations s1 @ [new_invitation who inviter m email i h now]\<rparr>"
      "i \<notin> rid ` set (invitations s1)" "h \<notin> iv_tokenHash ` set (invitations s1)"
      "enforceSendLimits s (se_contextId who) m now = Inr ()"
proof (cases "invite_checks who inviter m email now s")
  case (Inl e)
  then show ?thesis using assms(1) refused [of e] by (simp add: invite_tx_def)
next
  case x: (Inr x)
  let ?v = "new_invitation who inviter m email i h now"
  have limits: "enforceSendLimits s (se_contextId who) m now = Inr ()"
    using x by (auto simp: invite_checks_def Let_def split: sum.splits option.splits if_splits)
  show ?thesis
  proof (cases "h \<in> iv_tokenHash ` set (invitations s1)")
    case True
    then show ?thesis using assms(1) x refused [of "UniqueViolation ''AccountInvitation_tokenHash_key''"]
      by (simp add: invite_tx_def s1_def [symmetric])
  next
    case h: False
    show ?thesis
    proof (cases "insert_row ''AccountInvitation'' ?v (invitations s1)")
      case (Inl e)
      then show ?thesis using assms(1) x h refused [of e] by (simp add: invite_tx_def s1_def [symmetric])
    next
      case (Inr rows)
      then have "rows = invitations s1 @ [?v]" "i \<notin> rid ` set (invitations s1)"
        using insert_row_Inr [OF Inr] by (simp_all add: new_invitation_def)
      with assms(1) x h Inr limits show ?thesis by (intro invited) (simp_all add: invite_tx_def s1_def [symmetric])
    qed
  qed
qed

lemma accept_cases:
  assumes "account_invitation_accept h a t s = (out, s')"
  obtains (none) "out = Inr None" "s' = s" | (failed) e where "out = Inl e" "s' = s"
  | (accepted) i m d1 d2 name where "usable_invitation h t s = Some i" "invited_member i (shop s) = Some m"
      "insert_account (invited_account i a t) (shop s) = Inr d1" "insert_device (invited_device i name a t) d1 = Inr d2"
      "out = Inr (Some (iv_email i, name))"
      "s' = s\<lparr>shop := d2, invitations := map (\<lambda>x. if rid x = rid i then x\<lparr>iv_usedAt := Some t, iv_accountId := Some (ac_accountId a)\<rparr> else x)
         (invitations s)\<rparr>"
proof (cases "usable_invitation h t s")
  case None
  with assms none show ?thesis by (simp add: account_invitation_accept_def)
next
  case i: (Some i)
  show ?thesis
  proof (cases "invited_member i (shop s)")
    case None
    with assms i none show ?thesis by (simp add: account_invitation_accept_def)
  next
    case m: (Some m)
    let ?name = "take 100 (''Dispositivo de '' @ m_name m)"
    show ?thesis
    proof (cases "Some (iv_memberId i) \<in> acc_memberId ` set (accounts (shop s)) \<or> username_taken (iv_email i) (shop s)")
      case True
      with assms i m none show ?thesis by (simp add: account_invitation_accept_def)
    next
      case False
      show ?thesis
      proof (cases "insert_account (invited_account i a t) (shop s)")
        case (Inl e)
        then show ?thesis using assms i m False failed [of e] by (simp add: account_invitation_accept_def)
      next
        case d1: (Inr d1)
        show ?thesis
        proof (cases "insert_device (invited_device i ?name a t) d1")
          case (Inl e)
          then show ?thesis using assms i m False d1 failed [of e] by (simp add: account_invitation_accept_def)
        next
          case (Inr d2)
          with assms i m False d1 show ?thesis by (intro accepted [OF i m d1 Inr]) (simp_all add: account_invitation_accept_def)
        qed
      qed
    qed
  qed
qed

lemma live_after_supersede:
  "filter (live_invitation c m) (invitations (supersede (live_invitation c m) now s)) = []"
proof -
  have "\<not> live_invitation c m (if live_invitation c m i then i\<lparr>iv_supersededAt := Some now\<rparr> else i)" for i
    by (cases "live_invitation c m i") (simp, simp add: live_invitation_def, simp)
  then show ?thesis by (simp add: supersede_def filter_map o_def)
qed

lemma invitations_sound_commit:
  assumes "invitations_sound s" "aside q"
  shows "invitations_sound (commit_invitation q s)"
proof (cases q)
  case (InviteOne who inviter m email i h now)
  obtain out s' where tx: "invite_tx who inviter m email i h now s = (out, s')" by (metis surj_pair)
  let ?c = "se_contextId who" and ?v = "new_invitation who inviter m email i h now"
  define s1 where "s1 = supersede (live_invitation ?c m) now s"
  have "invitations_sound s'"
    using tx
  proof (cases rule: invite_tx_cases)
    case (refused e)
    with assms(1) show ?thesis by simp
  next
    case invited
    note new = invited [folded s1_def]
    have one: "invitations_sound s1" unfolding s1_def by (rule invitations_sound_supersede [OF assms(1)])
    have v: "rid ?v = i" "ctx ?v = ?c" "iv_memberId ?v = m" "iv_tokenHash ?v = h" "iv_createdAt ?v = now"
      "iv_expiresAt ?v = iv_createdAt ?v + INVITATION_TTL_MS" "iv_usedAt ?v = None" "iv_accountId ?v = None"
      by (simp_all add: new_invitation_def)
    have of: "invitations_of s' c x = invitations_of s1 c x @ (if c = ?c \<and> x = m then [?v] else [])" for c x
      using v by (simp add: new(2) invitations_of_def in_context_def)
    have dates: "map iv_createdAt (invitations_of s1 ?c m) = map iv_createdAt (invitations_of s ?c m)"
    proof -
      have "invitations_of s1 ?c m = map (\<lambda>i. if live_invitation ?c m i then i\<lparr>iv_supersededAt := Some now\<rparr> else i) (invitations_of s ?c m)"
        unfolding invitations_of_def s1_def supersede_def by (simp add: invitations_of_map)
      then show ?thesis by simp
    qed
    have "paced (invitations_of s ?c m @ [?v])"
      using paced_invite [OF _ new(5) refl v(5)] assms(1)
      by (simp add: invitations_sound_def)
    then have paced: "paced (invitations_of s1 ?c m @ [?v])" 
      using paced_dates [of "invitations_of s1 ?c m @ [?v]" "invitations_of s ?c m @ [?v]"] dates by simp
    have "paced (invitations_of s' c x)" for c x
      using of [of c x] paced one by (auto simp: invitations_sound_def)
    moreover have "length (filter (live_invitation c x) (invitations s')) \<le> 1" for c x
    proof (cases "live_invitation c x ?v")
      case True
      then have "filter (live_invitation c x) (invitations s1) = []"
        using v live_after_supersede [of ?c m now s, folded s1_def] by (simp add: live_invitation_def)
      then show ?thesis by (simp add: new(2))
    next
      case False
      with one show ?thesis by (simp add: new(2) invitations_sound_def)
    qed
    moreover have "distinct (map rid (invitations s'))" "distinct (map iv_tokenHash (invitations s'))"
      using one new(3,4) v by (simp_all add: new(2) invitations_sound_def)
    moreover have "\<forall>i \<in> set (invitations s'). iv_expiresAt i = iv_createdAt i + INVITATION_TTL_MS
          \<and> (iv_usedAt i = None \<longleftrightarrow> iv_accountId i = None)"
      using one v by (simp add: new(2) invitations_sound_def)
    ultimately show ?thesis unfolding invitations_sound_def by blast
  qed
  with tx InviteOne show ?thesis by simp
next
  case (Withdraw c i now)
  then show ?thesis using invitations_sound_supersede [OF assms(1)] by (simp add: withdraw_invitation_def)
next
  case (AcceptOne h a t)
  obtain out s' where tx: "account_invitation_accept h a t s = (out, s')" by (metis surj_pair)
  then have "invitations_sound s'"
  proof (cases rule: accept_cases)
    case (accepted i m d1 d2 name)
    show ?thesis
      by (rule invitations_sound_map [OF assms(1), where f = "\<lambda>x. if rid x = rid i then x\<lparr>iv_usedAt := Some t, iv_accountId := Some (ac_accountId a)\<rparr> else x"])
        (auto simp: accepted(6) live_invitation_def split: if_splits)
  qed (use assms(1) in simp_all)
  with tx AcceptOne show ?thesis by simp
next
  case (Aside f)
  with assms have "invitations (f s) = invitations s" by simp
  with assms(1) Aside show ?thesis by (simp add: invitations_sound_def invitations_of_def)
qed

lemma invitations_sound_commits:
  "invitations_sound s \<Longrightarrow> list_all aside reqs \<Longrightarrow> invitations_sound (invitation_commits reqs s)"
  by (induction reqs arbitrary: s) (simp_all add: invitation_commits_def invitations_sound_commit)

section \<open>Properties\<close>

text \<open>C28: nobody is flooded with invitations. In any order of requests, failed mails, acceptances and commits of the
  rest of the program, and whatever the clocks of the requests say: the invitations for one person are at least
  a minute apart, no day of any length of 24 hours holds more than three of them, at most one of them is live,
  and each expires 72 hours after it was made.\<close>

theorem invitations_stay_paced:
  assumes "invitations_sound s" "list_all aside reqs"
  defines "s' \<equiv> invitation_commits reqs s"
  shows "sorted_wrt (\<lambda>i j. iv_createdAt i + 60000 \<le> iv_createdAt j) (invitations_of s' c m)
    \<and> length [i \<leftarrow> invitations_of s' c m. t - 86400000 < iv_createdAt i \<and> iv_createdAt i \<le> t] \<le> 3
    \<and> length [i \<leftarrow> invitations_of s' c m. iv_usedAt i = None \<and> iv_supersededAt i = None] \<le> 1
    \<and> (\<forall>i \<in> set (invitations_of s' c m). iv_expiresAt i = iv_createdAt i + 259200000)"
proof -
  have s': "invitations_sound s'" unfolding s'_def by (rule invitations_sound_commits [OF assms(1,2)])
  then have "paced (invitations_of s' c m)" by (simp add: invitations_sound_def)
  then have "sorted_wrt gap (invitations_of s' c m)" "length (filter (in_day t) (invitations_of s' c m)) \<le> 3"
    by (simp_all add: paced_def INVITATION_MAX_PER_DAY_def)
  moreover have "[i \<leftarrow> invitations_of s' c m. iv_usedAt i = None \<and> iv_supersededAt i = None]
      = filter (live_invitation c m) (invitations s')"
    by (simp add: invitations_of_def in_context_def live_invitation_def [abs_def] conj_ac)
  moreover have "length (filter (live_invitation c m) (invitations s')) \<le> 1" using s' by (simp add: invitations_sound_def)
  moreover have "\<forall>i \<in> set (invitations_of s' c m). iv_expiresAt i = iv_createdAt i + 259200000"
    using s' by (auto simp: invitations_sound_def invitations_of_def in_context_def INVITATION_TTL_MS_def)
  ultimately show ?thesis
    by (simp add: gap_def [abs_def] in_day_def [abs_def] INVITATION_MIN_GAP_MS_def DAY_MS_def)
qed

text \<open>A used invitation stays used.\<close>

lemma tokens_of_map:
  assumes "\<And>i. iv_tokenHash (f i) = iv_tokenHash i"
  shows "iv_tokenHash ` set (map f is) = iv_tokenHash ` set is"
proof -
  have "map iv_tokenHash (map f is) = map iv_tokenHash is" using assms by simp
  then show ?thesis by (metis list.set_map)
qed

lemma tokens_supersede: "iv_tokenHash ` set (invitations (supersede P now s)) = iv_tokenHash ` set (invitations s)"
  unfolding supersede_def by (simp add: tokens_of_map del: set_map)

lemma used_commit:
  assumes "\<forall>i \<in> set (invitations s). iv_tokenHash i = h \<longrightarrow> iv_usedAt i \<noteq> None" "h \<in> iv_tokenHash ` set (invitations s)" "aside q"
  shows "(\<forall>i \<in> set (invitations (commit_invitation q s)). iv_tokenHash i = h \<longrightarrow> iv_usedAt i \<noteq> None)
    \<and> h \<in> iv_tokenHash ` set (invitations (commit_invitation q s))"
proof (cases q)
  case (InviteOne who inviter m email i h' now)
  define s1 where "s1 = supersede (live_invitation (se_contextId who) m) now s"
  have one: "(\<forall>i \<in> set (invitations s1). iv_tokenHash i = h \<longrightarrow> iv_usedAt i \<noteq> None)"
    using assms(1) by (auto simp: s1_def supersede_def)
  have "iv_tokenHash ` set (invitations s1) = iv_tokenHash ` set (invitations s)"
    unfolding s1_def by (rule tokens_supersede)
  note same = this
  obtain out s' where tx: "invite_tx who inviter m email i h' now s = (out, s')" by (metis surj_pair)
  then show ?thesis
  proof (cases rule: invite_tx_cases)
    case (refused e)
    with assms tx show ?thesis by (simp add: InviteOne)
  next
    case invited
    note new = invited [folded s1_def]
    have "h' \<noteq> h" using new(4) assms(2) same by blast
    with one assms(2) same tx show ?thesis by (simp add: InviteOne new(2)) (simp add: new_invitation_def)
  qed
next
  case (Withdraw c i now)
  then have "iv_tokenHash ` set (invitations (commit_invitation q s)) = iv_tokenHash ` set (invitations s)"
    by (simp add: withdraw_invitation_def tokens_supersede)
  moreover have "\<forall>i \<in> set (invitations (commit_invitation q s)). iv_tokenHash i = h \<longrightarrow> iv_usedAt i \<noteq> None"
    using assms(1) Withdraw by (auto simp: withdraw_invitation_def supersede_def)
  ultimately show ?thesis using assms(2) by blast
next
  case (AcceptOne h' a t)
  obtain out s' where tx: "account_invitation_accept h' a t s = (out, s')" by (metis surj_pair)
  then show ?thesis
  proof (cases rule: accept_cases)
    case (accepted i m d1 d2 name)
    let ?f = "\<lambda>x. if rid x = rid i then x\<lparr>iv_usedAt := Some t, iv_accountId := Some (ac_accountId a)\<rparr> else x"
    have "invitations (commit_invitation q s) = map ?f (invitations s)" using tx accepted(6) by (simp add: AcceptOne)
    moreover have "iv_tokenHash ` set (map ?f (invitations s)) = iv_tokenHash ` set (invitations s)" by (rule tokens_of_map) simp
    moreover have "\<forall>i \<in> set (map ?f (invitations s)). iv_tokenHash i = h \<longrightarrow> iv_usedAt i \<noteq> None" using assms(1) by auto
    ultimately show ?thesis using assms(2) by (simp only:)
  qed (use assms tx AcceptOne in simp_all)
next
  case (Aside f)
  with assms show ?thesis by simp
qed

lemma used_commits:
  assumes "\<forall>i \<in> set (invitations s). iv_tokenHash i = h \<longrightarrow> iv_usedAt i \<noteq> None" "h \<in> iv_tokenHash ` set (invitations s)" "list_all aside reqs"
  shows "\<forall>i \<in> set (invitations (invitation_commits reqs s)). iv_tokenHash i = h \<longrightarrow> iv_usedAt i \<noteq> None"
  using assms
proof (induction reqs arbitrary: s)
  case (Cons q reqs)
  then have "aside q" "list_all aside reqs" by simp_all
  with used_commit [OF Cons.prems(1,2)] Cons.IH [of "commit_invitation q s"] show ?case
    unfolding invitation_commits_def by simp
qed (simp add: invitation_commits_def)

text \<open>C27: an invitation is accepted once, by one account of the right person. When the page creates the login, it is
  bound to the invited partner in the tenant of the invitation, under the invited address that nobody used, on
  an authorized device of that tenant; and whatever happens afterwards, the link creates nothing any more.\<close>

theorem invitation_accepted_once:
  assumes "invitations_sound s" "account_invitation_accept h a t s = (Inr (Some (email, name)), s')" "list_all aside reqs"
  shows "(\<exists>i m. i \<in> set (invitations s) \<and> iv_tokenHash i = h \<and> iv_email i = email \<and> iv_usedAt i = None \<and> t < iv_expiresAt i
      \<and> m \<in> set (members (shop s)) \<and> rid m = iv_memberId i \<and> ctx m = ctx i \<and> m_role m = Socio \<and> m_active m
      \<and> Some (rid m) \<notin> acc_memberId ` set (accounts (shop s)) \<and> \<not> username_taken email (shop s)
      \<and> accounts (shop s') = accounts (shop s) @ [invited_account i a t]
      \<and> devices (shop s') = devices (shop s) @ [invited_device i name a t])
    \<and> account_invitation_accept h a' t' (invitation_commits reqs s') = (Inr None, invitation_commits reqs s')"
proof -
  from assms(2) obtain i m d1 d2 where u: "usable_invitation h t s = Some i" and m: "invited_member i (shop s) = Some m"
    and d1: "insert_account (invited_account i a t) (shop s) = Inr d1" and d2: "insert_device (invited_device i name a t) d1 = Inr d2"
    and out: "email = iv_email i"
    and s': "s' = s\<lparr>shop := d2, invitations := map (\<lambda>x. if rid x = rid i then x\<lparr>iv_usedAt := Some t, iv_accountId := Some (ac_accountId a)\<rparr> else x)
         (invitations s)\<rparr>"
    by (cases rule: accept_cases) auto
  note i = find_Some_set [OF u [unfolded usable_invitation_def]]
  note m' = find_Some_set [OF m [unfolded invited_member_def]]
  have acc: "d1 = (shop s)\<lparr>accounts := accounts (shop s) @ [invited_account i a t]\<rparr>"
    "iv_email i \<notin> acc_username ` set (accounts (shop s))" "Some (iv_memberId i) \<notin> acc_memberId ` set (accounts (shop s))"
    using insert_account_Inr [OF d1] by (simp_all add: invited_account_def)
  have dev: "accounts d2 = accounts d1" "devices d2 = devices d1 @ [invited_device i name a t]"
    using d2 insert_device_Inr [OF d2] by (auto simp: insert_device_def split: if_splits sum.splits)
  have "x = i" if "x \<in> set (invitations s)" "iv_tokenHash x = h" for x
    using that i assms(1) unfolding invitations_sound_def by (metis distinct_map inj_onD)
  then have used: "\<forall>x \<in> set (invitations s'). iv_tokenHash x = h \<longrightarrow> iv_usedAt x \<noteq> None"
    unfolding s' by auto
  have "h \<in> iv_tokenHash ` set (invitations s')"
  proof -
    let ?f = "\<lambda>x. if rid x = rid i then x\<lparr>iv_usedAt := Some t, iv_accountId := Some (ac_accountId a)\<rparr> else x"
    have "iv_tokenHash ` set (map ?f (invitations s)) = iv_tokenHash ` set (invitations s)" by (rule tokens_of_map) simp
    with i show ?thesis by (auto simp: s' simp del: set_map)
  qed
  from used_commits [OF used this assms(3)]
  have "usable_invitation h t' (invitation_commits reqs s') = None"
    unfolding usable_invitation_def find_None_iff by blast
  then have "account_invitation_accept h a' t' (invitation_commits reqs s') = (Inr None, invitation_commits reqs s')"
    by (simp add: account_invitation_accept_def)
  moreover have "accounts (shop s') = accounts (shop s) @ [invited_account i a t]"
    "devices (shop s') = devices (shop s) @ [invited_device i name a t]" using acc dev by (simp_all add: s')
  ultimately show ?thesis using i m' acc out by (auto simp: username_taken_def intro!: exI [of _ i] exI [of _ m])
qed

section \<open>Ana invites Beto\<close>

definition ana_session :: session where
  "ana_session = \<lparr>se_id = ''a1'', se_contextId = ''t1'', se_memberId = Some ''m1''\<rparr>"

definition sample_registry :: registry where
  "sample_registry = \<lparr>shop = sample_db, invitations = [], confirmations = [], registrations = []\<rparr>"

definition beto_accepts :: acceptance where
  "beto_accepts = \<lparr>ac_accountId = ''a8'', ac_passwordHash = ''h'', ac_deviceId = ''d8'', ac_identifier = ''k8'', ac_deviceTokenHash = ''x8''\<rparr>"

text \<open>The second request comes too early; the third replaces the first link, which is then of no use.\<close>

definition beto_requests :: "invitation_request list" where
  "beto_requests = [InviteOne ana_session ''m1'' ''m2'' ''beto@x.mx'' ''v1'' ''h1'' 1000,
     InviteOne ana_session ''m1'' ''m2'' ''beto@x.mx'' ''v2'' ''h2'' 2000,
     InviteOne ana_session ''m1'' ''m2'' ''beto@x.mx'' ''v3'' ''h3'' 90000, AcceptOne ''h1'' beto_accepts 95000]"

lemma invitations_stay_paced_witness:
  "map rid (invitations_of (invitation_commits beto_requests sample_registry) ''t1'' ''m2'') = [''v1'', ''v3'']
   \<and> length (accounts (shop (invitation_commits beto_requests sample_registry))) = 2
   \<and> length [i \<leftarrow> invitations_of (invitation_commits beto_requests sample_registry) ''t1'' ''m2''.
       iv_usedAt i = None \<and> iv_supersededAt i = None] \<le> 1"
proof -
  have run: "map rid (invitations_of (invitation_commits beto_requests sample_registry) ''t1'' ''m2'') = [''v1'', ''v3'']"
    "length (accounts (shop (invitation_commits beto_requests sample_registry))) = 2" by code_simp+
  have a: "invitations_sound sample_registry"
    by (simp add: sample_registry_def invitations_sound_def invitations_of_def in_context_def paced_def)
  have b: "list_all aside beto_requests" by (simp add: beto_requests_def)
  from invitations_stay_paced [OF a b] run show ?thesis by blast
qed

definition beto_registry :: registry where
  "beto_registry = invitation_commits (take 3 beto_requests) sample_registry"

lemma invitation_accepted_once_witness:
  "\<exists>s'. account_invitation_accept ''h3'' beto_accepts 95000 beto_registry = (Inr (Some (''beto@x.mx'', ''Dispositivo de Beto'')), s')
     \<and> map acc_memberId (accounts (shop s')) = [Some ''m1'', Some ''m3'', Some ''m2'']
     \<and> account_invitation_accept ''h3'' beto_accepts 96000 s' = (Inr None, s')"
proof -
  let ?run = "account_invitation_accept ''h3'' beto_accepts 95000 beto_registry"
  have run: "fst ?run = Inr (Some (''beto@x.mx'', ''Dispositivo de Beto''))"
    "map acc_memberId (accounts (shop (snd ?run))) = [Some ''m1'', Some ''m3'', Some ''m2'']" by code_simp+
  have "invitations_sound sample_registry"
    by (simp add: sample_registry_def invitations_sound_def invitations_of_def in_context_def paced_def)
  moreover have "list_all aside (take 3 beto_requests)" by (simp add: beto_requests_def)
  ultimately have sound: "invitations_sound beto_registry" unfolding beto_registry_def by (rule invitations_sound_commits)
  have out: "?run = (Inr (Some (''beto@x.mx'', ''Dispositivo de Beto'')), snd ?run)" using run(1) by (metis prod.collapse)
  from invitation_accepted_once [OF sound out, of "[]"] out run(2) show ?thesis by (auto simp: invitation_commits_def)
qed

end
