(* ===== verification/MemberEmail.thy ===== *)
theory MemberEmail
  imports Invitations TextSanitize
begin

text \<open>
  A partner registers the address the approvals go to (\<open>src/members/member-email.service.ts\<close>): nothing about the
  member changes until the link mailed to that address is opened. The database functions behind the public
  page, \<open>member_email_confirmation_lookup\<close> and \<open>member_email_confirm\<close>, and \<open>member_correo_taken\<close> are those of
  the migrations \<open>20261024120000_rules_approval_by_email\<close> and \<open>20261024120500_member_correo_taken\<close>. The row of
  the member is locked, so the transaction of \<open>request\<close> is one step in the state the lock is granted in.
\<close>

definition EMAIL_CONFIRMATION_TTL_MS :: int where "EMAIL_CONFIRMATION_TTL_MS = 48 * 60 * 60 * 1000"
definition REQUEST_LIMIT :: int where "REQUEST_LIMIT = 5"
definition REQUEST_WINDOW_MS :: int where "REQUEST_WINDOW_MS = 60 * 60 * 1000"

definition invalid_confirmation :: failure where "invalid_confirmation = NotFound ''MEMBER_EMAIL_LINK_INVALID''"

definition open_confirmation :: "string \<Rightarrow> uuid \<Rightarrow> confirmation \<Rightarrow> bool" where
  "open_confirmation c m k \<longleftrightarrow> ctx k = c \<and> cf_memberId k = m \<and> cf_usedAt k = None \<and> cf_supersededAt k = None"

section \<open>The partner, from the app\<close>

record email_status =
  es_correo :: "string option"
  es_pending :: "(string \<times> instant) option"

definition email_status_of :: "string \<Rightarrow> uuid \<Rightarrow> instant \<Rightarrow> registry \<Rightarrow> email_status" where
  "email_status_of c m now s =
     (let pending = sort_key (\<lambda>k. - cf_createdAt k) [k \<leftarrow> confirmations s. open_confirmation c m k \<and> now < cf_expiresAt k] in
      \<lparr>es_correo = (case find_row c m (members (shop s)) of None \<Rightarrow> None | Some x \<Rightarrow> map_option maskEmail (m_correo x)),
       es_pending = (case pending of [] \<Rightarrow> None | k # _ \<Rightarrow> Some (maskEmail (cf_correo k), cf_expiresAt k))\<rparr>)"

text \<open>\<open>member_correo_taken\<close>: whether the unique index would refuse the address for this member.\<close>

definition member_correo_taken :: "uuid \<Rightarrow> string \<Rightarrow> db \<Rightarrow> bool" where
  "member_correo_taken m correo d \<longleftrightarrow> (\<exists>x \<in> set (members d). rid x = m \<and> m_correo x = None)
     \<and> Some (toLowerCase correo) \<in> m_correo ` set (members d)"

definition request_checks :: "session \<Rightarrow> uuid \<Rightarrow> string \<Rightarrow> registry \<Rightarrow> member result" where
  "request_checks who memberId correo s =
     (case find (\<lambda>m. rid m = memberId \<and> ctx m = se_contextId who \<and> m_active m \<and> m_role m = Socio) (members (shop s)) of
        None \<Rightarrow> Inl (NotFound ''No encontramos a esa persona.'')
      | Some m \<Rightarrow>
          if m_correo m \<noteq> None then Inl (Conflict ''MEMBER_EMAIL_ALREADY_SET'')
          else
            let someoneElses = (case find_username correo (shop s) of None \<Rightarrow> False
                  | Some a \<Rightarrow> \<not> (ctx a = se_contextId who \<and> acc_memberId a = None) \<and> acc_memberId a \<noteq> Some memberId) in
            if member_correo_taken memberId correo (shop s) \<or> someoneElses then Inl (Conflict ''MEMBER_EMAIL_IN_USE'')
            else Inr m)"

definition close_confirmations :: "(confirmation \<Rightarrow> bool) \<Rightarrow> instant \<Rightarrow> registry \<Rightarrow> registry" where
  "close_confirmations P now s =
     s\<lparr>confirmations := map (\<lambda>k. if P k then k\<lparr>cf_supersededAt := Some now\<rparr> else k) (confirmations s)\<rparr>"

definition new_confirmation :: "session \<Rightarrow> uuid \<Rightarrow> string \<Rightarrow> uuid \<Rightarrow> string \<Rightarrow> instant \<Rightarrow> confirmation" where
  "new_confirmation who memberId correo i tokenHash now = \<lparr>rid = i, ctx = se_contextId who, cf_memberId = memberId,
     cf_correo = correo, cf_tokenHash = tokenHash, cf_requestedByAccountId = se_id who, cf_createdAt = now,
     cf_expiresAt = now + EMAIL_CONFIRMATION_TTL_MS, cf_usedAt = None, cf_supersededAt = None\<rparr>"

definition request_tx ::
  "session \<Rightarrow> uuid \<Rightarrow> string \<Rightarrow> uuid \<Rightarrow> string \<Rightarrow> instant \<Rightarrow> registry \<Rightarrow> uuid result \<times> registry"
where
  "request_tx who memberId correo i tokenHash now s =
     (case request_checks who memberId correo s of
        Inl e \<Rightarrow> (Inl e, s)
      | Inr m \<Rightarrow>
          let s1 = close_confirmations (open_confirmation (se_contextId who) memberId) now s;
              k = new_confirmation who memberId correo i tokenHash now in
          if tokenHash \<in> cf_tokenHash ` set (confirmations s1) then (Inl (UniqueViolation ''MemberEmailConfirmation_tokenHash_key''), s)
          else (case insert_row ''MemberEmailConfirmation'' k (confirmations s1) of
              Inl e \<Rightarrow> (Inl e, s) | Inr rows \<Rightarrow> (Inr i, s1\<lparr>confirmations := rows\<rparr>)))"

text \<open>\<open>site\<close> is whether the public address of the frontend is known, \<open>sent\<close> whether the mail went out, \<open>w\<close>
  what others commit before the link of a mail that did not is taken back.\<close>

definition request_confirmation ::
  "(string \<Rightarrow> string) \<Rightarrow> bool \<Rightarrow> bool \<Rightarrow> (registry \<Rightarrow> registry) \<Rightarrow> instant \<Rightarrow> session \<Rightarrow> uuid \<Rightarrow> string \<Rightarrow> uuid \<Rightarrow> string \<Rightarrow> instant
    \<Rightarrow> registry \<Rightarrow> limiter \<Rightarrow> (string \<times> instant) result \<times> registry \<times> limiter"
where
  "request_confirmation sha256 site sent w later who memberId rawCorreo i token now s byMember =
     (case normalizeSocioEmail rawCorreo of
        None \<Rightarrow> (Inl (BadRequest ''MEMBER_EMAIL_INVALID''), s, byMember)
      | Some correo \<Rightarrow>
          (case hit memberId REQUEST_LIMIT REQUEST_WINDOW_MS now byMember of (r, byMember') \<Rightarrow>
             if \<not> allowed r then (Inl (TooMany ''MEMBER_EMAIL_TOO_MANY''), s, byMember')
             else (case request_tx who memberId correo i (sha256 token) now s of
                 (Inl e, s1) \<Rightarrow> (Inl e, s1, byMember')
               | (Inr k, s1) \<Rightarrow>
                   if site \<and> sent then (Inr (maskEmail correo, now + EMAIL_CONFIRMATION_TTL_MS), s1, byMember')
                   else (Inl (Unprocessable ''MEMBER_EMAIL_NOT_SENT''),
                     close_confirmations (\<lambda>x. rid x = k \<and> ctx x = se_contextId who) later (w s1), byMember'))))"

section \<open>The public page\<close>

definition usable_confirmation :: "string \<Rightarrow> instant \<Rightarrow> registry \<Rightarrow> confirmation option" where
  "usable_confirmation tokenHash t s = find (\<lambda>k. cf_tokenHash k = tokenHash \<and> cf_usedAt k = None \<and> cf_supersededAt k = None
     \<and> t < cf_expiresAt k) (confirmations s)"

definition unconfirmed_member :: "confirmation \<Rightarrow> member \<Rightarrow> bool" where
  "unconfirmed_member k m \<longleftrightarrow> rid m = cf_memberId k \<and> ctx m = ctx k \<and> m_active m \<and> m_role m = Socio \<and> m_correo m = None"

text \<open>The lookup runs in the tenant of the link, so it sees the addresses of that business only.\<close>

definition member_email_confirmation_lookup :: "string \<Rightarrow> instant \<Rightarrow> registry \<Rightarrow> (string \<times> string \<times> instant) option" where
  "member_email_confirmation_lookup tokenHash t s =
     (case usable_confirmation tokenHash t s of None \<Rightarrow> None
      | Some k \<Rightarrow>
          if \<exists>o' \<in> set (in_context (ctx k) (members (shop s))). m_correo o' = Some (cf_correo k) then None
          else map_option (\<lambda>m. (m_name m, cf_correo k, cf_expiresAt k)) (find (unconfirmed_member k) (members (shop s))))"

record confirmed =
  ok_correo :: string
  ok_memberName :: string
  ok_contextId :: string
  ok_memberId :: uuid
  ok_notify :: "(string \<times> string) list"

text \<open>
  The unique index holds over all businesses: a violation ends the inner block, and nothing is changed. The
  conditional update, the mark of the link and the closing of the other links are one block.
\<close>

definition member_email_confirm :: "string \<Rightarrow> instant \<Rightarrow> registry \<Rightarrow> confirmed option \<times> registry" where
  "member_email_confirm tokenHash t s =
     (case usable_confirmation tokenHash t s of
        None \<Rightarrow> (None, s)
      | Some k \<Rightarrow>
         (case find (unconfirmed_member k) (members (shop s)) of
            None \<Rightarrow> (None, s)
          | Some m \<Rightarrow>
              if Some (cf_correo k) \<in> m_correo ` set (members (shop s)) then (None, s)
              else
                let ms = update_row (ctx k) (cf_memberId k) (\<lambda>x. x\<lparr>m_correo := Some (cf_correo k)\<rparr>) (members (shop s));
                    ks = map (\<lambda>x. if rid x = rid k then x\<lparr>cf_usedAt := Some t\<rparr>
                           else if open_confirmation (ctx k) (cf_memberId k) x then x\<lparr>cf_supersededAt := Some t\<rparr> else x) (confirmations s);
                    others = sort_key (\<lambda>x. (m_createdAt x, rid x))
                      [x \<leftarrow> ms. ctx x = ctx k \<and> m_role x = Socio \<and> m_active x \<and> m_correo x \<noteq> None \<and> rid x \<noteq> cf_memberId k] in
                (Some \<lparr>ok_correo = cf_correo k, ok_memberName = m_name m, ok_contextId = ctx k, ok_memberId = cf_memberId k,
                   ok_notify = map (\<lambda>x. (m_name x, the (m_correo x))) others\<rparr>,
                 s\<lparr>shop := (shop s)\<lparr>members := ms\<rparr>, confirmations := ks\<rparr>)))"

definition inspect_confirmation ::
  "(string \<Rightarrow> string) \<Rightarrow> string \<Rightarrow> string \<Rightarrow> instant \<Rightarrow> registry \<Rightarrow> limiter \<times> limiter
    \<Rightarrow> (string \<times> string \<times> instant) result \<times> limiter \<times> limiter"
where
  "inspect_confirmation sha256 token ip t s ls =
     (case page_limit (sha256 token) ip t ls of (ok, ls') \<Rightarrow>
        (if \<not> ok then Inl (TooMany ''MEMBER_EMAIL_RATE_LIMITED'')
         else case member_email_confirmation_lookup (sha256 token) t s of
           None \<Rightarrow> Inl invalid_confirmation
         | Some (memberName, correo, expiresAt) \<Rightarrow> Inr (memberName, maskEmail correo, expiresAt), ls'))"

text \<open>The other partners are told; a notice that fails is only logged, so the answer does not depend on it.\<close>

definition confirm_email ::
  "(string \<Rightarrow> string) \<Rightarrow> string \<Rightarrow> string \<Rightarrow> instant \<Rightarrow> registry \<Rightarrow> limiter \<times> limiter
    \<Rightarrow> (string \<times> (string \<times> string) list) result \<times> registry \<times> limiter \<times> limiter"
where
  "confirm_email sha256 token ip t s ls =
     (case page_limit (sha256 token) ip t ls of (ok, ls') \<Rightarrow>
        if \<not> ok then (Inl (TooMany ''MEMBER_EMAIL_RATE_LIMITED''), s, ls')
        else (case member_email_confirm (sha256 token) t s of
            (None, s') \<Rightarrow> (Inl invalid_confirmation, s', ls')
          | (Some r, s') \<Rightarrow> (Inr (maskEmail (ok_correo r), ok_notify r), s', ls')))"

section \<open>Commits in any order\<close>

datatype email_request =
    RequestOne session uuid string uuid string instant
  | CloseOne string uuid instant
  | ConfirmOne string instant
  | Beside "registry \<Rightarrow> registry"

fun commit_email :: "email_request \<Rightarrow> registry \<Rightarrow> registry" where
  "commit_email (RequestOne who m correo i h now) s = snd (request_tx who m correo i h now s)"
| "commit_email (CloseOne c i now) s = close_confirmations (\<lambda>x. rid x = i \<and> ctx x = c) now s"
| "commit_email (ConfirmOne h t) s = snd (member_email_confirm h t s)"
| "commit_email (Beside f) s = f s"

fun beside :: "email_request \<Rightarrow> bool" where
  "beside (Beside f) \<longleftrightarrow> (\<forall>s. confirmations (f s) = confirmations s)"
| "beside _ \<longleftrightarrow> True"

definition email_commits :: "email_request list \<Rightarrow> registry \<Rightarrow> registry" where
  "email_commits reqs s = fold commit_email reqs s"

text \<open>Every link with one of these digests exists and can confirm nothing any more.\<close>

definition still_open :: "confirmation \<Rightarrow> bool" where
  "still_open k \<longleftrightarrow> cf_usedAt k = None \<and> cf_supersededAt k = None"

definition spent :: "string set \<Rightarrow> registry \<Rightarrow> bool" where
  "spent H s \<longleftrightarrow> H \<subseteq> set (map cf_tokenHash (confirmations s))
     \<and> list_all (\<lambda>k. cf_tokenHash k \<in> H \<longrightarrow> \<not> still_open k) (confirmations s)"

lemma spent_map:
  assumes "spent H s" "confirmations s' = map f (confirmations s)"
    and "\<And>k. cf_tokenHash (f k) = cf_tokenHash k" "\<And>k. still_open (f k) \<Longrightarrow> still_open k"
  shows "spent H s'"
proof -
  have "map cf_tokenHash (confirmations s') = map cf_tokenHash (confirmations s)" by (simp add: assms(2,3))
  with assms show ?thesis unfolding spent_def assms(2) list.pred_map
    by (auto simp: list_all_iff simp del: list.map_comp map_map)
qed

lemma spent_close:
  "spent H s \<Longrightarrow> spent H (close_confirmations P now s)"
  by (rule spent_map [where f = "\<lambda>k. if P k then k\<lparr>cf_supersededAt := Some now\<rparr> else k"])
    (auto simp: close_confirmations_def still_open_def split: if_splits)

lemma request_tx_cases:
  assumes "request_tx who m correo i h now s = (out, s')"
  defines "s1 \<equiv> close_confirmations (open_confirmation (se_contextId who) m) now s"
  obtains (refused) e where "out = Inl e" "s' = s"
  | (requested) "out = Inr i" "s' = s1\<lparr>confirmations := confirmations s1 @ [new_confirmation who m correo i h now]\<rparr>"
      "h \<notin> cf_tokenHash ` set (confirmations s1)"
proof (cases "request_checks who m correo s")
  case (Inl e)
  then show ?thesis using assms(1) refused [of e] by (simp add: request_tx_def)
next
  case x: (Inr x)
  let ?k = "new_confirmation who m correo i h now"
  show ?thesis
  proof (cases "h \<in> cf_tokenHash ` set (confirmations s1)")
    case True
    then show ?thesis using assms(1) x refused [of "UniqueViolation ''MemberEmailConfirmation_tokenHash_key''"]
      by (simp add: request_tx_def s1_def [symmetric])
  next
    case h: False
    show ?thesis
    proof (cases "insert_row ''MemberEmailConfirmation'' ?k (confirmations s1)")
      case (Inl e)
      then show ?thesis using assms(1) x h refused [of e] by (simp add: request_tx_def s1_def [symmetric])
    next
      case (Inr rows)
      then have "rows = confirmations s1 @ [?k]" using insert_row_Inr [OF Inr] by simp
      with assms(1) x h Inr show ?thesis by (intro requested) (simp_all add: request_tx_def s1_def [symmetric])
    qed
  qed
qed

text \<open>What a confirmation that succeeds found, and what it leaves.\<close>

definition settle_link :: "confirmation \<Rightarrow> instant \<Rightarrow> confirmation \<Rightarrow> confirmation" where
  "settle_link k t x = (if rid x = rid k then x\<lparr>cf_usedAt := Some t\<rparr>
     else if open_confirmation (ctx k) (cf_memberId k) x then x\<lparr>cf_supersededAt := Some t\<rparr> else x)"

lemma confirm_cases:
  assumes "member_email_confirm h t s = (out, s')"
  obtains (none) "out = None" "s' = s"
  | (confirmed) k m where "usable_confirmation h t s = Some k" "find (unconfirmed_member k) (members (shop s)) = Some m"
      "Some (cf_correo k) \<notin> m_correo ` set (members (shop s))" "confirmations s' = map (settle_link k t) (confirmations s)"
      "members (shop s') = update_row (ctx k) (cf_memberId k) (\<lambda>x. x\<lparr>m_correo := Some (cf_correo k)\<rparr>) (members (shop s))"
      "\<exists>r. out = Some r \<and> ok_correo r = cf_correo k \<and> ok_memberId r = cf_memberId k \<and> ok_contextId r = ctx k"
proof (cases "usable_confirmation h t s")
  case None
  with assms none show ?thesis by (simp add: member_email_confirm_def)
next
  case k: (Some k)
  show ?thesis
  proof (cases "find (unconfirmed_member k) (members (shop s))")
    case None
    with assms k none show ?thesis by (simp add: member_email_confirm_def)
  next
    case m: (Some m)
    show ?thesis
    proof (cases "Some (cf_correo k) \<in> m_correo ` set (members (shop s))")
      case True
      with assms k m none show ?thesis by (simp add: member_email_confirm_def)
    next
      case False
      note run = assms [unfolded member_email_confirm_def k m option.case if_not_P [OF this] Let_def prod.inject]
      show ?thesis
      proof (rule confirmed [OF k m False])
        show "confirmations s' = map (settle_link k t) (confirmations s)"
          by (simp add: run [THEN conjunct2, symmetric] settle_link_def [abs_def])
        show "members (shop s') = update_row (ctx k) (cf_memberId k) (\<lambda>x. x\<lparr>m_correo := Some (cf_correo k)\<rparr>) (members (shop s))"
          by (simp add: run [THEN conjunct2, symmetric])
        show "\<exists>r. out = Some r \<and> ok_correo r = cf_correo k \<and> ok_memberId r = cf_memberId k \<and> ok_contextId r = ctx k"
          by (rule exI, intro conjI, rule run [THEN conjunct1, symmetric]) simp_all
      qed
    qed
  qed
qed

lemma spent_commit:
  assumes "spent H s" "beside q"
  shows "spent H (commit_email q s)"
proof (cases q)
  case (RequestOne who m correo i h now)
  obtain out s' where tx: "request_tx who m correo i h now s = (out, s')" by (metis surj_pair)
  then show ?thesis
  proof (cases rule: request_tx_cases)
    case (refused e)
    with tx assms(1) show ?thesis by (simp add: RequestOne)
  next
    case requested
    have "spent H (close_confirmations (open_confirmation (se_contextId who) m) now s)" using assms(1) by (rule spent_close)
    with requested tx show ?thesis by (auto simp: RequestOne spent_def new_confirmation_def)
  qed
next
  case (CloseOne c i now)
  with assms(1) show ?thesis by (simp add: spent_close)
next
  case (ConfirmOne h t)
  obtain out s' where tx: "member_email_confirm h t s = (out, s')" by (metis surj_pair)
  then show ?thesis
  proof (cases rule: confirm_cases)
    case none
    with tx assms(1) show ?thesis by (simp add: ConfirmOne)
  next
    case (confirmed k m)
    have "spent H s'" by (rule spent_map [OF assms(1) confirmed(4)]) (auto simp: settle_link_def still_open_def split: if_splits)
    with tx show ?thesis by (simp add: ConfirmOne)
  qed
next
  case (Beside f)
  with assms show ?thesis by (simp add: spent_def)
qed

lemma spent_commits: "spent H s \<Longrightarrow> list_all beside reqs \<Longrightarrow> spent H (email_commits reqs s)"
  by (induction reqs arbitrary: s) (simp_all add: email_commits_def spent_commit)

lemma spent_refuses:
  assumes "spent H s" "h \<in> H"
  shows "member_email_confirm h t s = (None, s)"
proof -
  have "usable_confirmation h t s = None"
    using assms unfolding usable_confirmation_def find_None_iff spent_def list_all_iff still_open_def by blast
  then show ?thesis by (simp add: member_email_confirm_def)
qed

section \<open>An address is confirmed once\<close>

text \<open>The links of a member, by their digests.\<close>

definition links_of :: "registry \<Rightarrow> string \<Rightarrow> uuid \<Rightarrow> string set" where
  "links_of s c m = cf_tokenHash ` set [k \<leftarrow> confirmations s. ctx k = c \<and> cf_memberId k = m]"

text \<open>C29: an address is proved once. When the page confirms a link, the link was mailed for an active partner
  who had no address and still has 48 hours of life, nobody of any business had that address, afterwards
  exactly that partner has it and no other row of the people has changed; and from then on, whatever other
  requests and commits follow, neither this link nor any other link this partner was ever sent before
  confirms anything.\<close>

theorem email_confirmed_once:
  assumes ids: "distinct (map cf_tokenHash (confirmations s))" "distinct (map rid (members (shop s)))"
    and run: "member_email_confirm h t s = (Some r, s')"
    and later: "list_all beside reqs" "h' \<in> links_of s (ok_contextId r) (ok_memberId r)"
  shows "(\<exists>k \<in> set (confirmations s). \<exists>m \<in> set (members (shop s)).
        cf_tokenHash k = h \<and> cf_usedAt k = None \<and> cf_supersededAt k = None \<and> t < cf_expiresAt k
      \<and> rid m = cf_memberId k \<and> ctx m = ctx k \<and> m_role m = Socio \<and> m_active m \<and> m_correo m = None
      \<and> (\<forall>x \<in> set (members (shop s)). m_correo x \<noteq> Some (cf_correo k))
      \<and> members (shop s') = map (\<lambda>x. if x = m then m\<lparr>m_correo := Some (cf_correo k)\<rparr> else x) (members (shop s)))
    \<and> h \<in> links_of s (ok_contextId r) (ok_memberId r)
    \<and> member_email_confirm h' t' (email_commits reqs s') = (None, email_commits reqs s')"
  using run
proof (cases rule: confirm_cases)
  case (confirmed k m)
  note k = find_Some_set [OF confirmed(1) [unfolded usable_confirmation_def]]
  note m = find_Some_set [OF confirmed(2), unfolded unconfirmed_member_def]
  have r: "ok_memberId r = cf_memberId k" "ok_contextId r = ctx k" using confirmed(6) by auto
  have only: "rid x = cf_memberId k \<and> ctx x = ctx k \<longleftrightarrow> x = m" if "x \<in> set (members (shop s))" for x
    using that m ids(2) by (metis distinct_map inj_onD)
  have one: "members (shop s') = map (\<lambda>x. if x = m then m\<lparr>m_correo := Some (cf_correo k)\<rparr> else x) (members (shop s))"
    unfolding confirmed(5) update_row_def
  proof (rule map_cong [OF refl])
    fix x assume x: "x \<in> set (members (shop s))"
    show "(if rid x = cf_memberId k \<and> ctx x = ctx k then x\<lparr>m_correo := Some (cf_correo k)\<rparr> else x)
        = (if x = m then m\<lparr>m_correo := Some (cf_correo k)\<rparr> else x)"
      unfolding only [OF x] by (cases "x = m") (simp_all only: if_True if_False simp_thms)
  qed
  let ?H = "links_of s (ctx k) (cf_memberId k)"
  have hash: "cf_tokenHash (settle_link k t x) = cf_tokenHash x" for x by (simp add: settle_link_def)
  have "\<not> still_open (settle_link k t x)" if x: "x \<in> set (confirmations s)" "cf_tokenHash x \<in> ?H" for x
  proof -
    from x(2) obtain y where "y \<in> set (confirmations s)" "cf_tokenHash y = cf_tokenHash x" "ctx y = ctx k" "cf_memberId y = cf_memberId k"
      unfolding links_of_def by auto
    with x(1) ids(1) have "ctx x = ctx k" "cf_memberId x = cf_memberId k" by (metis distinct_map inj_onD)+
    then show ?thesis by (auto simp: settle_link_def open_confirmation_def still_open_def)
  qed
  then have "spent ?H s'"
    unfolding spent_def confirmed(4) list.pred_map by (auto simp: list_all_iff links_of_def hash o_def)
  from spent_refuses [OF spent_commits [OF this later(1)], of h'] later(2) r
  have "member_email_confirm h' t' (email_commits reqs s') = (None, email_commits reqs s')" by simp
  moreover have "\<forall>x \<in> set (members (shop s)). m_correo x \<noteq> Some (cf_correo k)" using confirmed(3) by (metis imageI)
  moreover have "h \<in> ?H" using k by (auto simp: links_of_def)
  ultimately show ?thesis using k m one r by (intro conjI bexI [of _ k] bexI [of _ m]) simp_all
qed simp

text \<open>Dana has two links and opens the second; then the first is of no use any more either.\<close>

definition dana_registry :: registry where
  "dana_registry = \<lparr>shop = sample_db\<lparr>members := members sample_db @
       [\<lparr>rid = ''m9'', ctx = ''t1'', m_name = ''Dana'', m_role = Socio, m_active = True, m_commissionRateBps = None,
         m_correo = None, m_createdAt = 3, m_createdByMemberId = None\<rparr>]\<rparr>, invitations = [], confirmations = [], registrations = []\<rparr>"

definition dana_session :: session where
  "dana_session = \<lparr>se_id = ''a1'', se_contextId = ''t1'', se_memberId = None\<rparr>"

definition dana_asked :: registry where
  "dana_asked = email_commits [RequestOne dana_session ''m9'' ''dana@x.mx'' ''k1'' ''h1'' 1000,
     RequestOne dana_session ''m9'' ''d@x.mx'' ''k2'' ''h2'' 2000] dana_registry"

lemma email_confirmed_once_witness:
  "\<exists>r s'. member_email_confirm ''h2'' 3000 dana_asked = (Some r, s') \<and> ok_correo r = ''d@x.mx''
     \<and> map m_correo (members (shop s')) = [Some ''ana@x.mx'', Some ''beto@x.mx'', Some ''carla@x.mx'', Some ''d@x.mx'']
     \<and> member_email_confirm ''h1'' 4000 s' = (None, s')"
proof -
  let ?run = "member_email_confirm ''h2'' 3000 dana_asked"
  have ids: "distinct (map cf_tokenHash (confirmations dana_asked))" "distinct (map rid (members (shop dana_asked)))" by code_simp+
  have mails: "map m_correo (members (shop (snd ?run))) = [Some ''ana@x.mx'', Some ''beto@x.mx'', Some ''carla@x.mx'', Some ''d@x.mx'']"
    by code_simp
  have some: "map_option (\<lambda>r. (ok_correo r, ok_contextId r, ok_memberId r)) (fst ?run) = Some (''d@x.mx'', ''t1'', ''m9'')"
    by code_simp
  obtain out s' where run: "?run = (out, s')" by (metis surj_pair)
  from some [unfolded run fst_conv] obtain r where r: "out = Some r" "ok_correo r = ''d@x.mx''" "ok_contextId r = ''t1''"
    "ok_memberId r = ''m9''" by (cases out) auto
  have "''h1'' \<in> links_of dana_asked ''t1'' ''m9''" by code_simp
  then have "''h1'' \<in> links_of dana_asked (ok_contextId r) (ok_memberId r)" by (simp only: r(3,4))
  from email_confirmed_once [OF ids run [unfolded r(1)], of "[]", OF _ this, of 4000]
  have "member_email_confirm ''h1'' 4000 s' = (None, s')" by (simp only: email_commits_def fold_simps id_apply list.pred_inject simp_thms)
  with run [unfolded r(1)] r(2) mails [unfolded run snd_conv] show ?thesis
    by - (rule exI [of _ r], rule exI [of _ s'], intro conjI, assumption+)
qed

end
