(* ===== verification/UrlParts.thy ===== *)
theory UrlParts
  imports Schema
begin

text \<open>
  The addresses the mailed links are built from: \<open>src/common/url-parts.ts\<close>, and \<open>apiBaseUrl\<close> and
  \<open>publicSiteUrl\<close> of \<open>src/business-registration/business-registration.service.ts\<close>. Each linear scan is
  compared with the regular expression it replaced. A character is one byte, so the two line separators outside
  ASCII are left out of \<open>LINE_TERMINATORS\<close>; the environment is an argument.
\<close>

section \<open>Cutting an address\<close>

definition LINE_TERMINATORS :: "char list" where
  "LINE_TERMINATORS = [CHR 0x0A, CHR 0x0D]"

text \<open>The backward scan for the last line break, then the forward scan for the mark.\<close>

fun last_break :: "string \<Rightarrow> nat \<Rightarrow> nat" where
  "last_break v 0 = 0"
| "last_break v (Suc i) = (if v ! i \<in> set LINE_TERMINATORS then Suc i else last_break v i)"

function first_mark :: "string \<Rightarrow> nat \<Rightarrow> string" where
  "first_mark v i = (if length v \<le> i then v
     else if v ! i = CHR ''?'' \<or> v ! i = CHR ''#'' then take i v else first_mark v (i + 1))"
  by pat_completeness auto

termination by (relation "measure (\<lambda>(v, i). length v - i)") auto

declare first_mark.simps [simp del]

definition stripQueryAndFragment :: "string \<Rightarrow> string" where
  "stripQueryAndFragment v = first_mark v (last_break v (length v))"

fun slash_end :: "string \<Rightarrow> nat \<Rightarrow> nat" where
  "slash_end v 0 = 0"
| "slash_end v (Suc n) = (if v ! n = CHR ''/'' then slash_end v n else Suc n)"

definition trimTrailingSlashes :: "string \<Rightarrow> string" where
  "trimTrailingSlashes v = take (slash_end v (length v)) v"

definition API_PREFIX :: string where "API_PREFIX = ''/api/v1''"

definition stripTrailingApiPrefix :: "string \<Rightarrow> string" where
  "stripTrailingApiPrefix v =
     (if length API_PREFIX \<le> length v \<and> toLowerCase (drop (length v - length API_PREFIX) v) = API_PREFIX
      then take (length v - length API_PREFIX) v else v)"

section \<open>The origins\<close>

text \<open>\<open>a?.trim() || b\<close>: an empty setting counts as none.\<close>

definition configured :: "string option \<Rightarrow> string option" where
  "configured setting = (case setting of None \<Rightarrow> None | Some v \<Rightarrow> if trim v = [] then None else Some (trim v))"

definition apiBaseUrl :: "string option \<Rightarrow> string option \<Rightarrow> string" where
  "apiBaseUrl APP_BASE_URL PORT =
     (let raw = (case configured APP_BASE_URL of Some v \<Rightarrow> v
        | None \<Rightarrow> ''http://localhost:'' @ (case PORT of None \<Rightarrow> ''3000'' | Some p \<Rightarrow> p)) in
      trimTrailingSlashes (stripTrailingApiPrefix (trimTrailingSlashes (stripQueryAndFragment raw))))"

definition email_unavailable :: failure where "email_unavailable = ServiceUnavailable ''email_unavailable''"

text \<open>The services that only read it (\<open>common/public-site-url.ts\<close>) get \<open>null\<close> for the error.\<close>

definition publicSiteUrl :: "string option \<Rightarrow> bool \<Rightarrow> string result" where
  "publicSiteUrl PUBLIC_SITE_URL production =
     (case configured PUBLIC_SITE_URL of
        Some v \<Rightarrow> Inr (trimTrailingSlashes (stripQueryAndFragment v))
      | None \<Rightarrow> if production then Inl email_unavailable else Inr ''http://localhost:5173'')"

section \<open>The regular expressions\<close>

text \<open>
  A match of \<open>/[?#].*$/\<close>: a mark and, after it, no line break up to the end. \<open>replace\<close> cuts at the leftmost one.
\<close>

definition query_match :: "string \<Rightarrow> nat \<Rightarrow> bool" where
  "query_match v i \<longleftrightarrow> i < length v \<and> (v ! i = CHR ''?'' \<or> v ! i = CHR ''#'')
     \<and> (\<forall>j. i < j \<and> j < length v \<longrightarrow> v ! j \<notin> set LINE_TERMINATORS)"

lemma last_break_spec:
  "last_break v n \<le> n \<and> (\<forall>j. last_break v n \<le> j \<and> j < n \<longrightarrow> v ! j \<notin> set LINE_TERMINATORS)
    \<and> (last_break v n \<noteq> 0 \<longrightarrow> v ! (last_break v n - 1) \<in> set LINE_TERMINATORS)"
  by (induction n) (auto simp: less_Suc_eq)

definition marked :: "string \<Rightarrow> nat \<Rightarrow> nat \<Rightarrow> bool" where
  "marked v i k \<longleftrightarrow> i \<le> k \<and> k < length v \<and> (v ! k = CHR ''?'' \<or> v ! k = CHR ''#'')"

lemma first_mark_spec: "first_mark v i = (if \<exists>k. marked v i k then take (LEAST k. marked v i k) v else v)"
proof (induction v i rule: first_mark.induct)
  case (1 v i)
  consider (past) "length v \<le> i" | (here) "marked v i i" | (on) "\<not> length v \<le> i" "\<not> (v ! i = CHR ''?'' \<or> v ! i = CHR ''#'')"
    unfolding marked_def by linarith
  then show ?case
  proof cases
    case past
    then have "\<nexists>k. marked v i k" by (auto simp: marked_def)
    with past show ?thesis by (subst first_mark.simps) auto
  next
    case here
    then have "(LEAST k. marked v i k) = i" by (intro Least_equality) (auto simp: marked_def)
    moreover have "first_mark v i = take i v" using here by (subst first_mark.simps) (auto simp: marked_def)
    ultimately show ?thesis using here by auto
  next
    case on
    then have "marked v i = marked v (i + 1)" by (auto simp: marked_def fun_eq_iff le_less Suc_le_eq)
    with 1 [OF on] on show ?thesis by (subst first_mark.simps) simp
  qed
qed

theorem stripQueryAndFragment_regex:
  "stripQueryAndFragment v = (if \<exists>i. query_match v i then take (LEAST i. query_match v i) v else v)"
proof -
  let ?b = "last_break v (length v)"
  note b = last_break_spec [of v "length v"]
  have "query_match v i \<longleftrightarrow> marked v ?b i" for i
  proof (cases "?b \<le> i")
    case True
    with b show ?thesis by (auto simp: query_match_def marked_def)
  next
    case False
    then have "i \<le> ?b - 1" "?b \<noteq> 0" by simp_all
    moreover have "v ! i \<noteq> CHR ''?'' \<and> v ! i \<noteq> CHR ''#''" if "i = ?b - 1" using that b calculation(2) by (auto simp: LINE_TERMINATORS_def)
    moreover have "?b - 1 < length v" using b \<open>?b \<noteq> 0\<close> by linarith
    ultimately show ?thesis using False b unfolding query_match_def marked_def by (metis le_neq_implies_less)
  qed
  then have "query_match v = marked v ?b" by (rule ext)
  then show ?thesis unfolding stripQueryAndFragment_def by (simp add: first_mark_spec)
qed

lemma slash_end_spec:
  "n \<le> length v \<Longrightarrow> take n v = take (slash_end v n) v @ replicate (n - slash_end v n) (CHR ''/'') \<and> slash_end v n \<le> n
    \<and> (slash_end v n \<noteq> 0 \<longrightarrow> v ! (slash_end v n - 1) \<noteq> CHR ''/'')"
proof (induction n)
  case (Suc n)
  then show ?case
    by (auto simp: take_Suc_conv_app_nth Suc_diff_le replicate_append_same)
qed simp

text \<open>What is left of \<open>/\/+$/\<close>: the address without any slash at its end.\<close>

lemma trimTrailingSlashes_regex:
  "\<exists>n. v = trimTrailingSlashes v @ replicate n (CHR ''/'')"
  "trimTrailingSlashes v \<noteq> [] \<Longrightarrow> last (trimTrailingSlashes v) \<noteq> CHR ''/''"
proof -
  let ?e = "slash_end v (length v)"
  have e: "v = take ?e v @ replicate (length v - ?e) (CHR ''/'')" "?e \<le> length v" "?e \<noteq> 0 \<Longrightarrow> v ! (?e - 1) \<noteq> CHR ''/''"
    using slash_end_spec [of "length v" v] by simp_all
  then show "\<exists>n. v = trimTrailingSlashes v @ replicate n (CHR ''/'')" unfolding trimTrailingSlashes_def by blast
  assume ne: "trimTrailingSlashes v \<noteq> []"
  then have "?e \<noteq> 0" by (auto simp: trimTrailingSlashes_def)
  moreover have "last (take ?e v) = v ! (?e - 1)"
    using e(2) \<open>?e \<noteq> 0\<close> by (subst last_conv_nth) (auto simp: min_def)
  ultimately show "last (trimTrailingSlashes v) \<noteq> CHR ''/''" using e(3) by (simp add: trimTrailingSlashes_def)
qed

text \<open>The path of the interface can be appended to the origin: it ends neither in a slash nor, twice over, in the prefix.\<close>

lemma apiBaseUrl_no_slash: "apiBaseUrl base port \<noteq> [] \<Longrightarrow> last (apiBaseUrl base port) \<noteq> CHR ''/''"
  unfolding apiBaseUrl_def Let_def by (rule trimTrailingSlashes_regex(2))

end
