(* ===== verification/Registration.thy ===== *)
theory Registration
  imports MemberEmail UrlParts
begin

text \<open>
  The registration of a business (\<open>src/business-registration/business-registration.service.ts\<close>, the clean-up of
  \<open>registration-cleanup.service.ts\<close>, the check of \<open>turnstile.service.ts\<close> and the telephone of \<open>phone.ts\<close>): a
  request waits for its address to be confirmed, then for the approver, and its approval creates the tenant
  with its founder, login and device. A transaction that reads before it writes has what others commit in
  between as an argument; a statement that checks its own conditions is one step. The mail is an argument:
  whether it was sent, and to whom.
\<close>

section \<open>Rules\<close>

definition resendWaitMs :: int where "resendWaitMs = 60 * 1000"
definition maxVerificationEmailsPerRequest :: int where "maxVerificationEmailsPerRequest = 3"
definition verificationTtlMs :: int where "verificationTtlMs = 48 * HOUR"
definition approvalTtlMs :: int where "approvalTtlMs = 30 * (24 * HOUR)"
definition unconfirmedRetentionMs :: int where "unconfirmedRetentionMs = 7 * (24 * HOUR)"
definition rejectedOrExpiredRetentionMs :: int where "rejectedOrExpiredRetentionMs = 30 * (24 * HOUR)"

definition INITIAL_DEVICE_NAME :: string where "INITIAL_DEVICE_NAME = ''Dispositivo principal''"

section \<open>The form\<close>

record registration_dto =
  cr_nombreNegocio :: string
  cr_tipoNegocio :: string
  cr_queVende :: string
  cr_dondeVende :: "string option"
  cr_recomendadoPor :: "string option"
  cr_nombre :: string
  cr_apellidos :: string
  cr_correo :: string
  cr_telefono :: string
  cr_versionLegal :: string
  cr_turnstileToken :: string
  cr_sitioWebEmpresa :: "string option"

text \<open>\<open>/^(?:\+52)?([2-9]\d{9})$/\<close> on the text without spaces and hyphens.\<close>

definition ten_digits :: "string \<Rightarrow> bool" where
  "ten_digits s \<longleftrightarrow> length s = 10 \<and> list_all is_digit s \<and> CHR ''2'' \<le> hd s"

definition normalizeMexicanPhone :: "string \<Rightarrow> string option" where
  "normalizeMexicanPhone input =
     (let compact = filter (\<lambda>c. c \<noteq> CHR '' '' \<and> c \<noteq> CHR ''-'') (trim input) in
      if ten_digits compact then Some compact
      else if take 3 compact = ''+52'' \<and> ten_digits (drop 3 compact) then Some (drop 3 compact)
      else None)"

lemma normalizeMexicanPhone_again:
  assumes "normalizeMexicanPhone input = Some t"
  shows "ten_digits t \<and> normalizeMexicanPhone t = Some t \<and> normalizeMexicanPhone (''+52 '' @ t) = Some t"
proof -
  have t: "ten_digits t" using assms by (auto simp: normalizeMexicanPhone_def Let_def split: if_splits)
  have digit: "\<not> is_space c \<and> c \<noteq> CHR '' '' \<and> c \<noteq> CHR ''-''" if "is_digit c" for c
    using that by (auto simp: is_digit_def is_space_def less_eq_char_def)
  then have clean: "filter (\<lambda>c. c \<noteq> CHR '' '' \<and> c \<noteq> CHR ''-'') t = t" "trim t = t"
    using t by (auto simp: ten_digits_def list_all_iff filter_id_conv intro!: trim_spaceless)
  have ne: "t \<noteq> []" using t by (auto simp: ten_digits_def)
  have "\<not> is_space (last t)" using t ne digit by (auto simp: ten_digits_def list_all_iff)
  then have "trim (''+52 '' @ t) = ''+52 '' @ t"
    using ne by (cases t rule: rev_cases) (auto simp: trim_def is_space_def)
  with clean t show ?thesis by (simp add: normalizeMexicanPhone_def Let_def ten_digits_def)
qed

section \<open>The captcha\<close>

datatype verdict = Verified | Invalid | Unavailable

definition MAX_TOKEN_LENGTH :: nat where "MAX_TOKEN_LENGTH = 2048"

definition CONFIG_ERRORS :: "string list" where
  "CONFIG_ERRORS = [''missing-input-secret'', ''invalid-input-secret'', ''bad-request'', ''internal-error'']"

text \<open>\<open>reply\<close> is what Cloudflare answered: nothing within the time, or whether the answer was OK, with its two keys.\<close>

definition turnstile_verify ::
  "string option \<Rightarrow> bool \<Rightarrow> bool \<Rightarrow> (bool \<times> bool \<times> string list) option \<Rightarrow> string \<Rightarrow> verdict"
where
  "turnstile_verify secret production devBypass reply token =
     (if token = [] \<or> length token > MAX_TOKEN_LENGTH then Invalid
      else if secret = None \<or> secret = Some [] then (if \<not> production \<and> devBypass then Verified else Unavailable)
      else (case reply of
          None \<Rightarrow> Unavailable
        | Some (answered, success, codes) \<Rightarrow>
            if \<not> answered then Unavailable
            else if success then Verified
            else if \<exists>c \<in> set codes. c \<in> set CONFIG_ERRORS then Unavailable
            else Invalid))"

section \<open>The table\<close>

definition live_request :: "registration \<Rightarrow> bool" where
  "live_request r \<longleftrightarrow> rq_status r \<noteq> Rechazado \<and> rq_legalVersion r \<noteq> None"

definition findLiveRequest :: "string \<Rightarrow> registry \<Rightarrow> registration option" where
  "findLiveRequest correo s = find (\<lambda>r. rq_correo r = correo \<and> live_request r) (registrations s)"

text \<open>The index \<open>BusinessRegistrationRequest_live_correo_key\<close> covers the live requests with an address.\<close>

definition insert_request :: "registration \<Rightarrow> registry \<Rightarrow> registry result" where
  "insert_request r s =
     (if rq_rid r \<in> rq_rid ` set (registrations s) then Inl (UniqueViolation ''BusinessRegistrationRequest_pkey'')
      else if live_request r \<and> rq_correo r \<noteq> [] \<and> (\<exists>x \<in> set (registrations s). live_request x \<and> rq_correo x = rq_correo r)
        then Inl (UniqueViolation ''BusinessRegistrationRequest_live_correo_key'')
      else Inr (s\<lparr>registrations := registrations s @ [r]\<rparr>))"

definition update_requests :: "(registration \<Rightarrow> bool) \<Rightarrow> (registration \<Rightarrow> registration) \<Rightarrow> registry \<Rightarrow> registry" where
  "update_requests P f s = s\<lparr>registrations := map (\<lambda>r. if P r then f r else r) (registrations s)\<rparr>"

section \<open>Sending the form\<close>

text \<open>What a transaction that mails a link draws: the digest of the token, the clock, and whether the mail went out.\<close>

record mailing =
  ml_tokenHash :: string
  ml_now :: instant
  ml_sent :: bool

definition email_error :: failure where "email_error = Internal ''RegistrationEmailError''"

text \<open>A transaction that ran out of time is one whose mail did not go out in time.\<close>

definition unavailable :: "failure \<Rightarrow> failure" where
  "unavailable e = (if e = email_error then email_unavailable else e)"

definition new_request :: "registration_dto \<Rightarrow> string \<Rightarrow> uuid \<Rightarrow> string \<Rightarrow> mailing \<Rightarrow> registration" where
  "new_request dto correo i placeholderHash m =
     \<lparr>rq_rid = i, rq_status = PendienteCorreo, rq_nombreNegocio = cr_nombreNegocio dto,
      rq_tipoNegocio = Some (cr_tipoNegocio dto), rq_queVende = Some (cr_queVende dto), rq_dondeVende = cr_dondeVende dto,
      rq_recomendadoPor = cr_recomendadoPor dto, rq_nombre = cr_nombre dto, rq_apellidos = cr_apellidos dto,
      rq_correo = correo, rq_telefono = Some (cr_telefono dto), rq_legalVersion = Some (cr_versionLegal dto),
      rq_legalAcceptedAt = Some (ml_now m), rq_createdAt = ml_now m, rq_approvalTokenHash = placeholderHash,
      rq_tokenExpiresAt = ml_now m + verificationTtlMs, rq_resolvedAt = None, rq_createdContextId = None,
      rq_emailVerifiedAt = None, rq_emailTokenHash = Some (ml_tokenHash m),
      rq_emailTokenExpiresAt = Some (ml_now m + verificationTtlMs), rq_verificationEmailsSent = 1,
      rq_lastVerificationEmailAt = Some (ml_now m)\<rparr>"

definition createRequest ::
  "registration_dto \<Rightarrow> string \<Rightarrow> uuid \<Rightarrow> string \<Rightarrow> mailing \<Rightarrow> registry \<Rightarrow> registration_limits \<Rightarrow> unit result \<times> registry \<times> registration_limits"
where
  "createRequest dto correo i placeholderHash m s lims =
     (case allowVerificationEmail correo (ml_now m) lims of (ok, lims') \<Rightarrow>
        if \<not> ok then (Inr (), s, lims')
        else (case insert_request (new_request dto correo i placeholderHash m) s of
            Inl e \<Rightarrow> (Inl e, s, lims')
          | Inr s' \<Rightarrow> if ml_sent m then (Inr (), s', lims') else (Inl email_error, s, lims')))"

text \<open>The request was read earlier; the update claims it only if it is still as it was read.\<close>

definition rested :: "instant \<Rightarrow> registration \<Rightarrow> bool" where
  "rested now r \<longleftrightarrow> (case rq_lastVerificationEmailAt r of None \<Rightarrow> True | Some t \<Rightarrow> t \<le> now - resendWaitMs)"

definition resend_claims :: "registration \<Rightarrow> instant \<Rightarrow> registration \<Rightarrow> bool" where
  "resend_claims request now r \<longleftrightarrow> rq_rid r = rq_rid request \<and> rq_status r = PendienteCorreo
     \<and> rq_verificationEmailsSent r = rq_verificationEmailsSent request \<and> rested now r"

definition reissued_link :: "mailing \<Rightarrow> registration \<Rightarrow> registration" where
  "reissued_link m r = r\<lparr>rq_emailTokenHash := Some (ml_tokenHash m),
     rq_emailTokenExpiresAt := Some (ml_now m + verificationTtlMs),
     rq_verificationEmailsSent := rq_verificationEmailsSent r + 1, rq_lastVerificationEmailAt := Some (ml_now m)\<rparr>"

definition may_resend :: "registration \<Rightarrow> instant \<Rightarrow> bool" where
  "may_resend request now \<longleftrightarrow> rq_status request = PendienteCorreo
     \<and> rq_verificationEmailsSent request < maxVerificationEmailsPerRequest \<and> rested now request"

definition resendVerification ::
  "registration \<Rightarrow> mailing \<Rightarrow> registry \<Rightarrow> registration_limits \<Rightarrow> unit result \<times> registry \<times> registration_limits"
where
  "resendVerification request m s lims =
     (if \<not> may_resend request (ml_now m) then (Inr (), s, lims)
      else (case allowVerificationEmail (rq_correo request) (ml_now m) lims of (ok, lims') \<Rightarrow>
          if \<not> ok then (Inr (), s, lims')
          else if \<not> (\<exists>r \<in> set (registrations s). resend_claims request (ml_now m) r) then (Inr (), s, lims')
          else if ml_sent m then (Inr (), update_requests (resend_claims request (ml_now m)) (reissued_link m) s, lims')
          else (Inl email_error, s, lims')))"

text \<open>\<open>w\<close> is what others commit between the read and the write.\<close>

definition resendByCorreo ::
  "(registry \<Rightarrow> registry) \<Rightarrow> string \<Rightarrow> mailing \<Rightarrow> registry \<Rightarrow> registration_limits \<Rightarrow> unit result \<times> registry \<times> registration_limits"
where
  "resendByCorreo w correo m s lims = (case findLiveRequest correo s of
     None \<Rightarrow> (Inr (), w s, lims) | Some r \<Rightarrow> resendVerification r m (w s) lims)"

definition is_unique_violation :: "failure \<Rightarrow> bool" where
  "is_unique_violation e \<longleftrightarrow> (case e of UniqueViolation _ \<Rightarrow> True | _ \<Rightarrow> False)"

text \<open>
  The errors of the second attempt after a lost race are thrown inside the handler of the first, so nothing
  translates them. (The clean-up that \<open>create\<close> starts runs beside it, as one of the others.)
\<close>

definition create_request ::
  "verdict \<Rightarrow> string result \<Rightarrow> (registry \<Rightarrow> registry) \<Rightarrow> (registry \<Rightarrow> registry) \<Rightarrow> registration_dto \<Rightarrow> uuid \<Rightarrow> string \<Rightarrow> mailing \<Rightarrow> mailing
    \<Rightarrow> registry \<Rightarrow> registration_limits \<Rightarrow> unit result \<times> registry \<times> registration_limits"
where
  "create_request verdict siteUrl w w2 dto i placeholderHash m again s lims =
     (if (case cr_sitioWebEmpresa dto of None \<Rightarrow> False | Some v \<Rightarrow> trim v \<noteq> []) then (Inr (), s, lims)
      else if verdict = Invalid then (Inl (BadRequest ''turnstile_invalid''), s, lims)
      else if verdict = Unavailable then (Inl (ServiceUnavailable ''turnstile_unavailable''), s, lims)
      else
        let correo = toLowerCase (trim (cr_correo dto)) in
        (case siteUrl of
           Inl e \<Rightarrow> (Inl e, s, lims)
         | Inr _ \<Rightarrow>
            (case (case findLiveRequest correo s of
                Some existing \<Rightarrow> resendVerification existing m (w s) lims
              | None \<Rightarrow> createRequest dto correo i placeholderHash m (w s) lims) of
               (Inr _, s', lims') \<Rightarrow> (Inr (), s', lims')
             | (Inl e, s', lims') \<Rightarrow>
                 if is_unique_violation e then resendByCorreo w2 correo again s' lims'
                 else (Inl (unavailable e), s', lims'))))"

definition resend_request ::
  "string result \<Rightarrow> (registry \<Rightarrow> registry) \<Rightarrow> string \<Rightarrow> mailing \<Rightarrow> registry \<Rightarrow> registration_limits \<Rightarrow> unit result \<times> registry \<times> registration_limits"
where
  "resend_request siteUrl w correoInput m s lims =
     (case siteUrl of
        Inl e \<Rightarrow> (Inl e, s, lims)
      | Inr _ \<Rightarrow>
          (case resendByCorreo w (toLowerCase (trim correoInput)) m s lims of
             (Inl e, s', lims') \<Rightarrow> (Inl (unavailable e), s', lims')
           | (Inr _, s', lims') \<Rightarrow> (Inr (), s', lims')))"

section \<open>Confirming the address\<close>

definition link_invalid :: failure where "link_invalid = BadRequest ''link_invalid''"

definition confirmable :: "string \<Rightarrow> instant \<Rightarrow> registration \<Rightarrow> bool" where
  "confirmable emailTokenHash now r \<longleftrightarrow> rq_emailTokenHash r = Some emailTokenHash \<and> rq_status r = PendienteCorreo
     \<and> (case rq_emailTokenExpiresAt r of None \<Rightarrow> False | Some e \<Rightarrow> now < e)"

definition verified :: "string \<Rightarrow> instant \<Rightarrow> registration \<Rightarrow> registration" where
  "verified approvalTokenHash now r = r\<lparr>rq_status := PorAprobar, rq_emailVerifiedAt := Some now,
     rq_emailTokenHash := None, rq_emailTokenExpiresAt := None, rq_approvalTokenHash := approvalTokenHash,
     rq_tokenExpiresAt := now + approvalTtlMs\<rparr>"

text \<open>The approver is told how many other requests have the same telephone and the same address.\<close>

definition verify_email ::
  "string \<Rightarrow> string \<Rightarrow> instant \<Rightarrow> bool \<Rightarrow> registry \<Rightarrow> (registration \<times> nat \<times> nat) result \<times> registry"
where
  "verify_email emailTokenHash approvalTokenHash now sent s =
     (if \<not> (\<exists>r \<in> set (registrations s). confirmable emailTokenHash now r) then (Inl link_invalid, s)
      else
        let s' = update_requests (confirmable emailTokenHash now) (verified approvalTokenHash now) s in
        (case find (\<lambda>r. rq_approvalTokenHash r = approvalTokenHash) (registrations s') of
           None \<Rightarrow> (Inl (Internal ''P2025''), s)
         | Some request \<Rightarrow>
             let others = [r \<leftarrow> registrations s'. rq_rid r \<noteq> rq_rid request];
                 telefono = (if rq_telefono request = None \<or> rq_telefono request = Some [] then 0
                   else length [r \<leftarrow> others. rq_telefono r = rq_telefono request]);
                 correo = length [r \<leftarrow> others. rq_correo r = rq_correo request] in
             if sent then (Inr (request, telefono, correo), s') else (Inl (unavailable email_error), s)))"

section \<open>The approver\<close>

datatype delivery = ToSocio | ApproverFallback | ApproverNoSocioEmail

datatype approval_page =
    InvalidLink | AlreadyProcessed | ExpiredLink
  | ApprovedPage delivery | RejectedPage
  | MailRetry | TimeoutRetry | UsernameRetry

fun statusCode :: "approval_page \<Rightarrow> nat" where
  "statusCode InvalidLink = 404"
| "statusCode MailRetry = 502"
| "statusCode TimeoutRetry = 502"
| "statusCode UsernameRetry = 502"
| "statusCode _ = 200"

text \<open>The link is looked up outside of the transaction.\<close>

definition resolve_link :: "string \<Rightarrow> instant \<Rightarrow> registry \<Rightarrow> approval_page + registration" where
  "resolve_link approvalTokenHash now s =
     (case find (\<lambda>r. rq_approvalTokenHash r = approvalTokenHash) (registrations s) of
        None \<Rightarrow> Inl InvalidLink
      | Some request \<Rightarrow>
          if rq_status request \<noteq> PorAprobar then Inl AlreadyProcessed
          else if rq_tokenExpiresAt request < now then Inl ExpiredLink
          else Inr request)"

text \<open>
  What an approval draws, what others commit while it runs (between the choice of the username and the first
  insert, and between the check of the address and its update), whether the transaction expires, and whom
  the mail reached.
\<close>

record approval =
  ap_contextId :: string
  ap_memberId :: uuid
  ap_deviceId :: uuid
  ap_accountId :: uuid
  ap_identifier :: string
  ap_passwordHash :: string
  ap_suffix :: "nat \<Rightarrow> string"
  ap_now :: instant
  ap_others :: "registry \<Rightarrow> registry"
  ap_others2 :: "registry \<Rightarrow> registry"
  ap_expired :: bool
  ap_delivery :: "delivery option"

definition awaits_approval :: "uuid \<Rightarrow> registration \<Rightarrow> bool" where
  "awaits_approval i r \<longleftrightarrow> rq_rid r = i \<and> rq_status r = PorAprobar"

definition approved_request :: "approval \<Rightarrow> registration \<Rightarrow> registration" where
  "approved_request a r = r\<lparr>rq_status := Aprobado, rq_resolvedAt := Some (ap_now a), rq_createdContextId := Some (ap_contextId a)\<rparr>"

definition founder :: "registration \<Rightarrow> approval \<Rightarrow> member" where
  "founder request a = \<lparr>rid = ap_memberId a, ctx = ap_contextId a, m_name = fullName (rq_nombre request) (rq_apellidos request),
     m_role = Socio, m_active = True, m_commissionRateBps = None, m_correo = None, m_createdAt = ap_now a,
     m_createdByMemberId = None\<rparr>"

definition first_device :: "approval \<Rightarrow> device" where
  "first_device a = \<lparr>rid = ap_deviceId a, ctx = ap_contextId a, d_name = INITIAL_DEVICE_NAME, d_identifier = ap_identifier a,
     d_authorized = True, d_createdAt = ap_now a, d_status = Activo, d_tokenHash = None, d_activatedAt = None, d_revokedAt = None\<rparr>"

definition first_account :: "approval \<Rightarrow> string \<Rightarrow> account" where
  "first_account a username = \<lparr>rid = ap_accountId a, ctx = ap_contextId a, acc_username = username,
     acc_passwordHash = ap_passwordHash a, acc_active = True, acc_createdAt = ap_now a, acc_memberId = Some (ap_memberId a)\<rparr>"

definition found_business :: "registration \<Rightarrow> approval \<Rightarrow> string \<Rightarrow> db \<Rightarrow> db result" where
  "found_business request a username d =
     (case insert_member (founder request a) d of
        Inl e \<Rightarrow> Inl e
      | Inr d1 \<Rightarrow> (case insert_device (first_device a) d1 of
            Inl e \<Rightarrow> Inl e
          | Inr d2 \<Rightarrow> insert_account (first_account a username) d2))"

text \<open>The address of the founder: the check sees \<open>d\<close>, the update runs into the index as it is in \<open>d'\<close>.\<close>

definition give_address :: "string option \<Rightarrow> approval \<Rightarrow> db \<Rightarrow> db \<Rightarrow> db result" where
  "give_address socioEmail a d d' =
     (case socioEmail of
        None \<Rightarrow> Inr d'
      | Some correo \<Rightarrow>
          if member_correo_taken (ap_memberId a) correo d then Inr d'
          else if Some correo \<in> m_correo ` set (members d') then Inl (UniqueViolation ''Member_correo_key'')
          else Inr (d'\<lparr>members := update_row (ap_contextId a) (ap_memberId a) (\<lambda>m. m\<lparr>m_correo := Some correo\<rparr>) (members d')\<rparr>))"

definition approve_tx ::
  "(string \<Rightarrow> string) \<Rightarrow> registration \<Rightarrow> approval \<Rightarrow> registry \<Rightarrow> approval_page result \<times> registry"
where
  "approve_tx unaccent request a s =
     (if \<not> (\<exists>r \<in> set (registrations s). awaits_approval (rq_rid request) r) then (Inr AlreadyProcessed, s)
      else
        let s1 = update_requests (awaits_approval (rq_rid request)) (approved_request a) s in
        (case deriveUniqueUsername unaccent (rq_correo request) (rq_nombreNegocio request)
            (\<lambda>u. username_taken u (shop s1)) (ap_suffix a) of
           Inl e \<Rightarrow> (Inl e, s)
         | Inr username \<Rightarrow>
             let s2 = ap_others a s1; back = ap_others a s in
             (case found_business request a username (shop s2) of
                Inl e \<Rightarrow> (if e = UniqueViolation ''Account_username_key'' then Inr UsernameRetry else Inl e, back)
              | Inr d \<Rightarrow>
                  let s3 = s2\<lparr>shop := d\<rparr>; s4 = ap_others2 a s3; back2 = ap_others2 a back in
                  (case give_address (normalizeSocioEmail (rq_correo request)) a (shop s3) (shop s4) of
                     Inl e \<Rightarrow> (Inl e, back2)
                   | Inr d' \<Rightarrow>
                       if ap_expired a then (Inr TimeoutRetry, back2)
                       else (case ap_delivery a of
                           None \<Rightarrow> (Inr MailRetry, back2)
                         | Some to \<Rightarrow> (Inr (ApprovedPage to), s4\<lparr>shop := d'\<rparr>))))))"

text \<open>\<open>w\<close> is what others commit between the lookup and the transaction.\<close>

definition approve ::
  "(string \<Rightarrow> string) \<Rightarrow> (registry \<Rightarrow> registry) \<Rightarrow> string \<Rightarrow> instant \<Rightarrow> approval \<Rightarrow> registry \<Rightarrow> approval_page result \<times> registry"
where
  "approve unaccent w approvalTokenHash now a s =
     (case resolve_link approvalTokenHash now s of
        Inl p \<Rightarrow> (Inr p, s)
      | Inr request \<Rightarrow> approve_tx unaccent request a (w s))"

text \<open>The rejection updates by the primary key alone.\<close>

definition reject_tx :: "uuid \<Rightarrow> instant \<Rightarrow> registry \<Rightarrow> approval_page result \<times> registry" where
  "reject_tx i later s =
     (if i \<notin> rq_rid ` set (registrations s) then (Inl (Internal ''P2025''), s)
      else (Inr RejectedPage, update_requests (\<lambda>r. rq_rid r = i) (\<lambda>r. r\<lparr>rq_status := Rechazado, rq_resolvedAt := Some later\<rparr>) s))"

definition reject ::
  "(registry \<Rightarrow> registry) \<Rightarrow> string \<Rightarrow> instant \<Rightarrow> instant \<Rightarrow> registry \<Rightarrow> approval_page result \<times> registry"
where
  "reject w approvalTokenHash now later s =
     (case resolve_link approvalTokenHash now s of
        Inl p \<Rightarrow> (Inr p, s)
      | Inr request \<Rightarrow> reject_tx (rq_rid request) later (w s))"

section \<open>The clean-up\<close>

definition CLEANUP_BATCH_SIZE :: nat where "CLEANUP_BATCH_SIZE = 200"

definition categories :: "instant \<Rightarrow> (registration \<Rightarrow> bool) list" where
  "categories now =
     [\<lambda>r. rq_status r = PendienteCorreo \<and> rq_createdAt r < now - unconfirmedRetentionMs,
      \<lambda>r. rq_status r = Rechazado \<and> (case rq_resolvedAt r of None \<Rightarrow> False | Some t \<Rightarrow> t < now - rejectedOrExpiredRetentionMs),
      \<lambda>r. rq_status r = PorAprobar \<and> rq_tokenExpiresAt r < now - rejectedOrExpiredRetentionMs]"

definition delete_requests :: "uuid list \<Rightarrow> registry \<Rightarrow> nat \<times> registry" where
  "delete_requests ids s =
     (length [r \<leftarrow> registrations s. rq_rid r \<in> set ids],
      s\<lparr>registrations := [r \<leftarrow> registrations s. rq_rid r \<notin> set ids]\<rparr>)"

text \<open>\<open>w k\<close> is what others commit between the two statements of a category, \<open>k\<close> the categories that are left.\<close>

fun clean_categories ::
  "(nat \<Rightarrow> registry \<Rightarrow> registry) \<Rightarrow> (registration \<Rightarrow> bool) list \<Rightarrow> nat \<Rightarrow> registry \<Rightarrow> nat \<times> registry"
where
  "clean_categories w [] remaining s = (0, s)"
| "clean_categories w (P # Ps) remaining s =
     (if remaining = 0 then (0, s)
      else
        let rows = take remaining [r \<leftarrow> registrations s. P r] in
        if rows = [] then clean_categories w Ps remaining s
        else (case delete_requests (map rq_rid rows) (w (length Ps) s) of (n, s') \<Rightarrow>
            (case clean_categories w Ps (remaining - n) s' of (m, s'') \<Rightarrow> (n + m, s''))))"

definition runBatch :: "(nat \<Rightarrow> registry \<Rightarrow> registry) \<Rightarrow> instant \<Rightarrow> nat \<Rightarrow> registry \<Rightarrow> nat \<times> registry" where
  "runBatch w now batchSize s = clean_categories w (categories now) batchSize s"

section \<open>Commits in any order\<close>

datatype registration_request =
    CreateOne registration_dto string uuid string mailing
  | ResendOne registration mailing
  | VerifyOne string string instant bool
  | ApproveOne registration approval
  | RejectOne uuid instant
  | DeleteSome "uuid list"
  | Elsewhere "registry \<Rightarrow> registry"

text \<open>What each of them commits: the writes above, whatever was read before.\<close>

fun commit_registration :: "(string \<Rightarrow> string) \<Rightarrow> registration_request \<Rightarrow> registry \<Rightarrow> registry" where
  "commit_registration U (CreateOne dto correo i h m) s = fst (snd (createRequest dto correo i h m s ([], 0)))"
| "commit_registration U (ResendOne request m) s = fst (snd (resendVerification request m s ([], 0)))"
| "commit_registration U (VerifyOne h ah now sent) s = snd (verify_email h ah now sent s)"
| "commit_registration U (ApproveOne request a) s = snd (approve_tx U request a s)"
| "commit_registration U (RejectOne i now) s = snd (reject_tx i now s)"
| "commit_registration U (DeleteSome ids) s = snd (delete_requests ids s)"
| "commit_registration U (Elsewhere f) s = f s"

definition keeps_requests :: "(registry \<Rightarrow> registry) \<Rightarrow> bool" where
  "keeps_requests f \<longleftrightarrow> (\<forall>s. registrations (f s) = registrations s)"

fun elsewhere :: "registration_request \<Rightarrow> bool" where
  "elsewhere (Elsewhere f) \<longleftrightarrow> keeps_requests f"
| "elsewhere (ApproveOne request a) \<longleftrightarrow> keeps_requests (ap_others a) \<and> keeps_requests (ap_others2 a)"
| "elsewhere _ \<longleftrightarrow> True"

definition registration_commits :: "(string \<Rightarrow> string) \<Rightarrow> registration_request list \<Rightarrow> registry \<Rightarrow> registry" where
  "registration_commits U reqs s = fold (commit_registration U) reqs s"

text \<open>The empty limiter lets every mail through, so whatever a request commits under any limiter is among these.\<close>

lemma allow_empty: "\<exists>lims. allowVerificationEmail correo now ([], 0) = (True, lims)"
  by (simp add: allowVerificationEmail_def sweepSometimes_def hit_def hits_of_def verificationEmailsPerCorreoPerHour_def Let_def)

lemma commit_create: "commit_registration U (CreateOne dto correo i h m) s
    = (case insert_request (new_request dto correo i h m) s of Inl e \<Rightarrow> s | Inr s' \<Rightarrow> if ml_sent m then s' else s)"
  using allow_empty [of correo "ml_now m"] by (auto simp: createRequest_def split: sum.split)

lemma commit_resend: "commit_registration U (ResendOne request m) s
    = (if may_resend request (ml_now m) \<and> (\<exists>r \<in> set (registrations s). resend_claims request (ml_now m) r) \<and> ml_sent m
       then update_requests (resend_claims request (ml_now m)) (reissued_link m) s else s)"
  using allow_empty [of "rq_correo request" "ml_now m"] by (auto simp: resendVerification_def)

lemma commit_verify: "commit_registration U (VerifyOne h ah now sent) s = s
    \<or> commit_registration U (VerifyOne h ah now sent) s = update_requests (confirmable h now) (verified ah now) s"
  by (simp add: verify_email_def Let_def split: option.splits)

lemma commit_reject: "commit_registration U (RejectOne i now) s = s
    \<or> commit_registration U (RejectOne i now) s
       = update_requests (\<lambda>r. rq_rid r = i) (\<lambda>r. r\<lparr>rq_status := Rechazado, rq_resolvedAt := Some now\<rparr>) s"
  by (simp add: reject_tx_def)

lemma commit_delete: "registrations (commit_registration U (DeleteSome ids) s) = [r \<leftarrow> registrations s. rq_rid r \<notin> set ids]"
  by (simp add: delete_requests_def)

lemma registrations_shop [simp]: "registrations (s\<lparr>shop := d\<rparr>) = registrations s" by simp

text \<open>An approval either leaves nothing behind, or everything.\<close>

lemma approve_tx_cases:
  assumes "approve_tx U request a s = (out, s')"
  obtains (nothing) "\<forall>to. out \<noteq> Inr (ApprovedPage to)" "s' = s \<or> s' = ap_others a s \<or> s' = ap_others2 a (ap_others a s)"
  | (approved) to username d d' where "out = Inr (ApprovedPage to)" "\<exists>r \<in> set (registrations s). awaits_approval (rq_rid request) r"
      "deriveUniqueUsername U (rq_correo request) (rq_nombreNegocio request) (\<lambda>u. username_taken u (shop s)) (ap_suffix a) = Inr username"
      "found_business request a username (shop (ap_others a (update_requests (awaits_approval (rq_rid request)) (approved_request a) s))) = Inr d"
      "give_address (normalizeSocioEmail (rq_correo request)) a d
         (shop (ap_others2 a ((ap_others a (update_requests (awaits_approval (rq_rid request)) (approved_request a) s))\<lparr>shop := d\<rparr>))) = Inr d'"
      "s' = (ap_others2 a ((ap_others a (update_requests (awaits_approval (rq_rid request)) (approved_request a) s))\<lparr>shop := d\<rparr>))\<lparr>shop := d'\<rparr>"
proof (cases "\<exists>r \<in> set (registrations s). awaits_approval (rq_rid request) r")
  case False
  show ?thesis by (rule nothing) (use assms False in \<open>auto simp: approve_tx_def\<close>)
next
  case claimed: True
  let ?s1 = "update_requests (awaits_approval (rq_rid request)) (approved_request a) s"
  have same: "shop ?s1 = shop s" by (simp add: update_requests_def)
  show ?thesis
  proof (cases "deriveUniqueUsername U (rq_correo request) (rq_nombreNegocio request) (\<lambda>u. username_taken u (shop s)) (ap_suffix a)")
    case (Inl e)
    show ?thesis by (rule nothing) (use assms Inl claimed in \<open>auto simp: approve_tx_def Let_def same\<close>)
  next
    case u: (Inr username)
    show ?thesis
    proof (cases "found_business request a username (shop (ap_others a ?s1))")
      case (Inl e)
      show ?thesis by (rule nothing) (use assms Inl claimed u in \<open>auto simp: approve_tx_def Let_def same split: if_splits\<close>)
    next
      case d: (Inr d)
      show ?thesis
      proof (cases "give_address (normalizeSocioEmail (rq_correo request)) a d (shop (ap_others2 a ((ap_others a ?s1)\<lparr>shop := d\<rparr>)))")
        case (Inl e)
        show ?thesis by (rule nothing) (use assms Inl claimed u d in \<open>auto simp: approve_tx_def Let_def same\<close>)
      next
        case d': (Inr d')
        show ?thesis
        proof (cases "ap_expired a \<or> ap_delivery a = None")
          case True
          show ?thesis by (rule nothing) (use assms True claimed u d d' in \<open>auto simp: approve_tx_def Let_def same split: if_splits\<close>)
        next
          case False
          then obtain to where "ap_delivery a = Some to" by auto
          with False have "approve_tx U request a s
              = (Inr (ApprovedPage to), (ap_others2 a ((ap_others a ?s1)\<lparr>shop := d\<rparr>))\<lparr>shop := d'\<rparr>)"
            using claimed u d d' by (simp add: approve_tx_def Let_def same)
          with assms have "out = Inr (ApprovedPage to)" "s' = (ap_others2 a ((ap_others a ?s1)\<lparr>shop := d\<rparr>))\<lparr>shop := d'\<rparr>" by simp_all
          then show ?thesis using approved claimed u d d' by blast
        qed
      qed
    qed
  qed
qed

lemma commit_approve:
  assumes "elsewhere (ApproveOne request a)"
  shows "registrations (commit_registration U (ApproveOne request a) s) = registrations s
    \<or> registrations (commit_registration U (ApproveOne request a) s)
       = registrations (update_requests (awaits_approval (rq_rid request)) (approved_request a) s)"
proof -
  obtain out s' where run: "approve_tx U request a s = (out, s')" by (metis surj_pair)
  then show ?thesis
  proof (cases rule: approve_tx_cases)
    case nothing
    with assms have "registrations s' = registrations s" by (auto simp: keeps_requests_def)
    with run show ?thesis by simp
  next
    case (approved to username d d')
    with assms have "registrations s' = registrations (update_requests (awaits_approval (rq_rid request)) (approved_request a) s)"
      by (simp add: keeps_requests_def)
    with run show ?thesis by simp
  qed
qed

section \<open>The requests stay sound\<close>

text \<open>Of the requests of the second version of the form.\<close>

definition request_sound :: "registration \<Rightarrow> bool" where
  "request_sound r \<longleftrightarrow> (rq_legalVersion r \<noteq> None \<longrightarrow>
       1 \<le> rq_verificationEmailsSent r \<and> rq_verificationEmailsSent r \<le> maxVerificationEmailsPerRequest
     \<and> (rq_status r = PendienteCorreo \<longrightarrow> rq_emailVerifiedAt r = None)
     \<and> (rq_status r = PorAprobar \<or> rq_status r = Aprobado \<longrightarrow> rq_emailVerifiedAt r \<noteq> None \<and> rq_emailTokenHash r = None)
     \<and> (rq_status r = Aprobado \<longrightarrow> rq_createdContextId r \<noteq> None \<and> rq_resolvedAt r \<noteq> None))"

definition addressed :: "registration \<Rightarrow> bool" where
  "addressed r \<longleftrightarrow> live_request r \<and> rq_correo r \<noteq> []"

definition registrations_sound :: "registry \<Rightarrow> bool" where
  "registrations_sound s \<longleftrightarrow> distinct (map rq_rid (registrations s)) \<and> distinct (map rq_correo (filter addressed (registrations s)))
     \<and> list_all request_sound (registrations s)"

lemma distinct_map_filter_mono:
  "distinct (map f (filter P xs)) \<Longrightarrow> (\<And>x. Q x \<Longrightarrow> P x) \<Longrightarrow> distinct (map f (filter Q xs))"
  by (induction xs) (auto split: if_splits)

lemma map_filter_after:
  "(\<And>x. h (g x) = h x) \<Longrightarrow> map h (filter Q (map g xs)) = map h (filter (\<lambda>x. Q (g x)) xs)"
  by (induction xs) simp_all

lemma sound_update:
  assumes "registrations_sound s"
    and "\<And>r. rq_rid (f r) = rq_rid r \<and> rq_correo (f r) = rq_correo r \<and> rq_legalVersion (f r) = rq_legalVersion r"
    and "\<And>r. P r \<Longrightarrow> live_request (f r) \<Longrightarrow> live_request r"
    and "\<And>r. P r \<Longrightarrow> request_sound r \<Longrightarrow> request_sound (f r)"
  shows "registrations_sound (update_requests P f s)"
proof -
  let ?g = "\<lambda>r. if P r then f r else r"
  have rows: "registrations (update_requests P f s) = map ?g (registrations s)" by (simp add: update_requests_def)
  have mono: "addressed (?g r) \<Longrightarrow> addressed r" for r
    using assms(2,3) [of r] by (cases "P r") (simp_all add: addressed_def)
  have same: "rq_correo (?g r) = rq_correo r" for r using assms(2) by simp
  have keep: "request_sound r \<Longrightarrow> request_sound (?g r)" for r
    using assms(4) [of r] by (cases "P r") simp_all
  have addresses: "distinct (map rq_correo (filter addressed (registrations s)))"
    using assms(1) unfolding registrations_sound_def by blast
  have rows_sound: "list_all request_sound (registrations s)" using assms(1) unfolding registrations_sound_def by blast
  have "rq_rid (?g r) = rq_rid r" for r using assms(2) by simp
  then have "map rq_rid (map ?g (registrations s)) = map rq_rid (registrations s)" unfolding map_map o_def by (rule map_cong [OF refl])
  moreover have "map rq_correo (filter addressed (map ?g (registrations s))) = map rq_correo (filter (\<lambda>r. addressed (?g r)) (registrations s))"
    by (rule map_filter_after) (rule same)
  moreover have "distinct (map rq_correo (filter (\<lambda>r. addressed (?g r)) (registrations s)))"
    using addresses by (rule distinct_map_filter_mono) (rule mono)
  moreover have "list_all request_sound (map ?g (registrations s))"
    unfolding list.pred_map o_def using rows_sound by (rule list.pred_mono_strong) (rule keep)
  ultimately show ?thesis using assms(1) unfolding registrations_sound_def rows by presburger
qed

lemma sound_commit:
  assumes "registrations_sound s" "elsewhere q"
  shows "registrations_sound (commit_registration U q s)"
proof (cases q)
  case (CreateOne dto correo i h m)
  have "registrations_sound s'" if "insert_request (new_request dto correo i h m) s = Inr s'" for s'
  proof -
    let ?r = "new_request dto correo i h m"
    have s': "registrations s' = registrations s @ [?r]" "i \<notin> rq_rid ` set (registrations s)"
      "addressed ?r \<Longrightarrow> rq_correo ?r \<notin> rq_correo ` set (filter addressed (registrations s))"
      using that by (auto simp: insert_request_def new_request_def addressed_def split: if_splits)
    have "request_sound ?r" by (simp add: request_sound_def new_request_def maxVerificationEmailsPerRequest_def)
    moreover have "rq_rid ?r = i" by (simp add: new_request_def)
    ultimately show ?thesis using assms(1) s' by (simp add: registrations_sound_def)
  qed
  with assms(1) show ?thesis unfolding CreateOne commit_create by (simp split: sum.split)
next
  case (ResendOne request m)
  have "registrations_sound (update_requests (resend_claims request (ml_now m)) (reissued_link m) s)" if "may_resend request (ml_now m)"
    by (rule sound_update [OF assms(1)])
      (use that in \<open>auto simp: reissued_link_def live_request_def request_sound_def resend_claims_def may_resend_def\<close>)
  with assms(1) show ?thesis unfolding ResendOne commit_resend by simp
next
  case (VerifyOne h ah now sent)
  have "registrations_sound (update_requests (confirmable h now) (verified ah now) s)"
    by (rule sound_update [OF assms(1)]) (auto simp: verified_def live_request_def request_sound_def confirmable_def)
  with assms(1) commit_verify [of U h ah now sent s] show ?thesis unfolding VerifyOne by metis
next
  case (ApproveOne request a)
  have "registrations_sound (update_requests (awaits_approval (rq_rid request)) (approved_request a) s)"
    by (rule sound_update [OF assms(1)]) (auto simp: approved_request_def live_request_def request_sound_def awaits_approval_def)
  with assms commit_approve [of request a U s] show ?thesis unfolding ApproveOne by (auto simp: registrations_sound_def)
next
  case (RejectOne i now)
  have "registrations_sound (update_requests (\<lambda>r. rq_rid r = i) (\<lambda>r. r\<lparr>rq_status := Rechazado, rq_resolvedAt := Some now\<rparr>) s)"
    by (rule sound_update [OF assms(1)]) (auto simp: live_request_def request_sound_def)
  with assms(1) commit_reject [of U i now s] show ?thesis unfolding RejectOne by metis
next
  case (DeleteSome ids)
  let ?keep = "\<lambda>r. rq_rid r \<notin> set ids"
  have "distinct (map rq_correo (filter (\<lambda>r. ?keep r \<and> addressed r) (registrations s)))"
    using assms(1) unfolding registrations_sound_def by (elim conjE) (erule distinct_map_filter_mono, blast)
  moreover have "distinct (map rq_rid (filter ?keep (registrations s)))"
    using assms(1) unfolding registrations_sound_def by (intro distinct_map_filter) blast
  moreover have "list_all request_sound (filter ?keep (registrations s))"
    using assms(1) unfolding registrations_sound_def by (simp add: list_all_iff)
  ultimately show ?thesis unfolding DeleteSome registrations_sound_def commit_delete filter_filter by (simp only: conj_commute)
next
  case (Elsewhere f)
  with assms show ?thesis by (simp add: keeps_requests_def registrations_sound_def)
qed

lemma sound_commits: "registrations_sound s \<Longrightarrow> list_all elsewhere reqs \<Longrightarrow> registrations_sound (registration_commits U reqs s)"
  by (induction reqs arbitrary: s) (simp_all add: registration_commits_def sound_commit)

text \<open>C22: the requests for a business stay sound. However forms, resends, confirmations, approvals, rejections and
  clean-ups interleave, with mails failing and races lost: an address has at most one request that is not
  rejected, a request mails its link between one and three times, a request waits for the approver or is approved
  only after its address was confirmed, with the link used up, and an approved one names its tenant.\<close>

theorem registrations_stay_sound:
  fixes unaccent :: "string \<Rightarrow> string"
  assumes "registrations_sound s" "list_all elsewhere reqs"
  defines "s' \<equiv> registration_commits unaccent reqs s"
  shows "distinct (map rq_rid (registrations s'))
    \<and> distinct (map rq_correo [r \<leftarrow> registrations s'. rq_status r \<noteq> Rechazado \<and> rq_legalVersion r \<noteq> None \<and> rq_correo r \<noteq> []])
    \<and> (\<forall>r \<in> set (registrations s'). rq_legalVersion r \<noteq> None \<longrightarrow>
         1 \<le> rq_verificationEmailsSent r \<and> rq_verificationEmailsSent r \<le> 3
       \<and> (rq_status r = PorAprobar \<or> rq_status r = Aprobado \<longrightarrow> rq_emailVerifiedAt r \<noteq> None \<and> rq_emailTokenHash r = None)
       \<and> (rq_status r = Aprobado \<longrightarrow> rq_createdContextId r \<noteq> None))"
proof -
  have "registrations_sound s'" unfolding s'_def using assms(1,2) by (rule sound_commits)
  then show ?thesis
    unfolding registrations_sound_def addressed_def [abs_def] live_request_def list_all_iff request_sound_def
      maxVerificationEmailsPerRequest_def by (simp add: conj_assoc)
qed

section \<open>A business is approved once\<close>

text \<open>The digests a request issues to an approver: a drawn one, or the placeholder nobody holds.\<close>

fun issues :: "registration_request \<Rightarrow> string \<Rightarrow> bool" where
  "issues (CreateOne dto correo i h' m) h = (h' = h)"
| "issues (VerifyOne h' ah now sent) h = (ah = h)"
| "issues _ h = False"

text \<open>Only the request \<open>i\<close> has the digest \<open>h\<close>; and no request with it waits for an answer.\<close>

definition only_of :: "string \<Rightarrow> uuid \<Rightarrow> registry \<Rightarrow> bool" where
  "only_of h i s \<longleftrightarrow> list_all (\<lambda>r. rq_approvalTokenHash r = h \<longrightarrow> rq_rid r = i) (registrations s)"

definition link_settled :: "string \<Rightarrow> registry \<Rightarrow> bool" where
  "link_settled h s \<longleftrightarrow> list_all (\<lambda>r. rq_approvalTokenHash r = h \<longrightarrow> rq_status r \<noteq> PorAprobar) (registrations s)"

lemma all_update:
  assumes "list_all Q (registrations s)" "\<And>r. Q r \<Longrightarrow> P r \<Longrightarrow> Q (f r)"
  shows "list_all Q (registrations (update_requests P f s))"
  using assms by (auto simp: update_requests_def list_all_iff)

text \<open>What the commits do to a row, for the facts about single rows.\<close>

lemma all_commit:
  assumes "list_all Q (registrations s)" "elsewhere q"
    and "\<And>dto c i h m. q = CreateOne dto c i h m \<Longrightarrow> Q (new_request dto c i h m)"
    and "\<And>r m. Q r \<Longrightarrow> Q (reissued_link m r)"
    and "\<And>r h ah now sent. q = VerifyOne h ah now sent \<Longrightarrow> Q r \<Longrightarrow> Q (verified ah now r)"
    and "\<And>r a. Q r \<Longrightarrow> Q (approved_request a r)"
    and "\<And>r now. Q r \<Longrightarrow> Q (r\<lparr>rq_status := Rechazado, rq_resolvedAt := Some now\<rparr>)"
  shows "list_all Q (registrations (commit_registration U q s))"
proof (cases q)
  case (CreateOne dto correo i h m)
  have "list_all Q (registrations s')" if "insert_request (new_request dto correo i h m) s = Inr s'" for s'
    using that assms(1) assms(3) [OF CreateOne] by (auto simp: insert_request_def split: if_splits)
  with assms(1) show ?thesis unfolding CreateOne commit_create by (simp split: sum.split)
next
  case (ResendOne request m)
  with assms(1) show ?thesis unfolding ResendOne commit_resend by (simp add: all_update assms(4))
next
  case (VerifyOne h ah now sent)
  have "list_all Q (registrations (update_requests (confirmable h now) (verified ah now) s))"
    using assms(1) by (rule all_update) (rule assms(5) [OF VerifyOne])
  with assms(1) commit_verify [of U h ah now sent s] show ?thesis unfolding VerifyOne by metis
next
  case (ApproveOne request a)
  have "list_all Q (registrations (update_requests (awaits_approval (rq_rid request)) (approved_request a) s))"
    using assms(1) by (rule all_update) (rule assms(6))
  with assms(1,2) commit_approve [of request a U s] show ?thesis unfolding ApproveOne by auto
next
  case (RejectOne i now)
  have "list_all Q (registrations (update_requests (\<lambda>r. rq_rid r = i) (\<lambda>r. r\<lparr>rq_status := Rechazado, rq_resolvedAt := Some now\<rparr>) s))"
    using assms(1) by (rule all_update) (rule assms(7))
  with assms(1) commit_reject [of U i now s] show ?thesis unfolding RejectOne by metis
next
  case (DeleteSome ids)
  with assms(1) show ?thesis unfolding DeleteSome commit_delete by (auto simp: list_all_iff)
next
  case (Elsewhere f)
  with assms show ?thesis by (simp add: keeps_requests_def)
qed

lemma all_commits:
  assumes "list_all Q (registrations s)" "list_all elsewhere reqs"
    and "\<And>q s. q \<in> set reqs \<Longrightarrow> elsewhere q \<Longrightarrow> list_all Q (registrations s) \<Longrightarrow> list_all Q (registrations (commit_registration U q s))"
  shows "list_all Q (registrations (registration_commits U reqs s))"
  using assms by (induction reqs arbitrary: s) (simp_all add: registration_commits_def)

lemma only_of_commits:
  assumes "only_of h i s" "list_all elsewhere reqs" "\<forall>q \<in> set reqs. \<not> issues q h"
  shows "only_of h i (registration_commits U reqs s)"
  unfolding only_of_def
proof (rule all_commits [OF assms(1) [unfolded only_of_def] assms(2)])
  fix q and s :: registry assume q: "q \<in> set reqs" "elsewhere q" "list_all (\<lambda>r. rq_approvalTokenHash r = h \<longrightarrow> rq_rid r = i) (registrations s)"
  then show "list_all (\<lambda>r. rq_approvalTokenHash r = h \<longrightarrow> rq_rid r = i) (registrations (commit_registration U q s))"
    using assms(3) by (intro all_commit) (auto simp: new_request_def reissued_link_def verified_def approved_request_def)
qed

lemma link_settled_commits:
  assumes "link_settled h s" "list_all elsewhere reqs" "\<forall>q \<in> set reqs. \<not> issues q h"
  shows "link_settled h (registration_commits U reqs s)"
  unfolding link_settled_def
proof (rule all_commits [OF assms(1) [unfolded link_settled_def] assms(2)])
  fix q and s :: registry assume q: "q \<in> set reqs" "elsewhere q" "list_all (\<lambda>r. rq_approvalTokenHash r = h \<longrightarrow> rq_status r \<noteq> PorAprobar) (registrations s)"
  then show "list_all (\<lambda>r. rq_approvalTokenHash r = h \<longrightarrow> rq_status r \<noteq> PorAprobar) (registrations (commit_registration U q s))"
    using assms(3) by (intro all_commit) (auto simp: new_request_def reissued_link_def verified_def approved_request_def)
qed

lemma link_settled_refuses:
  assumes "link_settled h s"
  shows "approve U w h now a s \<in> {(Inr InvalidLink, s), (Inr AlreadyProcessed, s)}"
proof (cases "find (\<lambda>r. rq_approvalTokenHash r = h) (registrations s)")
  case None
  then show ?thesis by (simp add: approve_def resolve_link_def)
next
  case (Some r)
  then have "rq_status r \<noteq> PorAprobar" using assms find_Some_set [OF Some] by (auto simp: link_settled_def list_all_iff)
  with Some show ?thesis by (simp add: approve_def resolve_link_def)
qed

text \<open>A tenant that is not committed yet is nobody else's: the rows of it stay as they are.\<close>

definition tenant_rows :: "string \<Rightarrow> db \<Rightarrow> member list \<times> device list \<times> account list" where
  "tenant_rows c d = (in_context c (members d), in_context c (devices d), in_context c (accounts d))"

definition minds :: "string \<Rightarrow> (registry \<Rightarrow> registry) \<Rightarrow> bool" where
  "minds c f \<longleftrightarrow> keeps_requests f \<and> (\<forall>s. tenant_rows c (shop (f s)) = tenant_rows c (shop s))"

lemma found_business_rows:
  assumes "found_business request a username d = Inr d'"
  shows "members d' = members d @ [founder request a]" "devices d' = devices d @ [first_device a]"
    "accounts d' = accounts d @ [first_account a username]"
proof -
  obtain d1 d2 where d: "insert_member (founder request a) d = Inr d1" "insert_device (first_device a) d1 = Inr d2"
    "insert_account (first_account a username) d2 = Inr d'"
    using assms by (auto simp: found_business_def split: sum.splits)
  have "members d2 = members d1" "accounts d2 = accounts d1" "devices d2 = devices d1 @ [first_device a]"
    using d(2) insert_device_Inr [OF d(2)] by (auto simp: insert_device_def split: if_splits sum.splits)
  moreover have "d1 = d\<lparr>members := members d @ [founder request a]\<rparr>" using insert_member_Inr [OF d(1)] by blast
  moreover have "d' = d2\<lparr>accounts := accounts d2 @ [first_account a username]\<rparr>" using insert_account_Inr [OF d(3)] by blast
  ultimately show "members d' = members d @ [founder request a]" "devices d' = devices d @ [first_device a]"
    "accounts d' = accounts d @ [first_account a username]" by simp_all
qed

lemma found_business_tenant:
  assumes "found_business request a username d = Inr d'" "tenant_rows (ap_contextId a) d = ([], [], [])"
  shows "tenant_rows (ap_contextId a) d' = ([founder request a], [first_device a], [first_account a username])"
  using assms(2) found_business_rows [OF assms(1)]
  by (simp add: tenant_rows_def in_context_def founder_def first_device_def first_account_def)

lemma in_context_update_row:
  "(\<And>r. ctx (f r) = ctx r) \<Longrightarrow> in_context c (update_row c i f rows) = update_row c i f (in_context c rows)"
  by (induction rows) (auto simp: in_context_def update_row_def)

lemma give_address_rows:
  assumes "give_address socioEmail a d d' = Inr d''" "tenant_rows (ap_contextId a) d' = ([founder request a], vs, as)"
  shows "\<exists>correo. tenant_rows (ap_contextId a) d'' = ([founder request a\<lparr>m_correo := correo\<rparr>], vs, as) \<and> (correo = None \<or> correo = socioEmail)"
proof (cases "d'' = d'")
  case True
  have "(founder request a)\<lparr>m_correo := None\<rparr> = founder request a" by (simp add: founder_def)
  with True assms(2) show ?thesis by (intro exI [of _ None]) simp
next
  case False
  then obtain correo where m: "socioEmail = Some correo"
    "d'' = d'\<lparr>members := update_row (ap_contextId a) (ap_memberId a) (\<lambda>m. m\<lparr>m_correo := Some correo\<rparr>) (members d')\<rparr>"
    using assms(1) by (auto simp: give_address_def split: option.splits if_splits)
  have "in_context (ap_contextId a) (members d'') = update_row (ap_contextId a) (ap_memberId a) (\<lambda>m. m\<lparr>m_correo := Some correo\<rparr>)
      (in_context (ap_contextId a) (members d'))"
    unfolding m(2) by (simp add: in_context_update_row)
  with assms(2) m show ?thesis
    by (intro exI [of _ "Some correo"]) (simp add: tenant_rows_def update_row_def founder_def)
qed


section \<open>The clean-up spares what is approved\<close>

lemma clean_spares:
  assumes "distinct (map rq_rid (registrations s))" "r \<in> set (registrations s)" "list_all (\<lambda>P. \<not> P r) Ps"
  shows "r \<in> set (registrations (snd (clean_categories (\<lambda>k s. s) Ps n s)))"
  using assms
proof (induction Ps arbitrary: n s)
  case (Cons P Ps)
  let ?rows = "take n [r \<leftarrow> registrations s. P r]" and ?s = "snd (delete_requests (map rq_rid (take n [r \<leftarrow> registrations s. P r])) s)"
  have rows: "x \<in> set (registrations s) \<and> P x" if "x \<in> set ?rows" for x using in_set_takeD [OF that] by simp
  have "\<not> P r" using Cons.prems(3) by simp
  have "rq_rid x \<noteq> rq_rid r" if "x \<in> set ?rows" for x
    using rows [OF that] Cons.prems(1,2) \<open>\<not> P r\<close> by (metis distinct_map inj_onD)
  then have "rq_rid r \<notin> rq_rid ` set ?rows" by (metis imageE)
  with Cons.prems have "distinct (map rq_rid (registrations ?s))" "r \<in> set (registrations ?s)"
    by (simp_all add: delete_requests_def distinct_map_filter)
  then have more: "r \<in> set (registrations (snd (clean_categories (\<lambda>k s. s) Ps m ?s)))" for m
    using Cons.IH [of ?s m] Cons.prems(3) by simp
  have fewer: "r \<in> set (registrations (snd (clean_categories (\<lambda>k s. s) Ps m s)))" for m
    using Cons.IH [of s m] Cons.prems by simp
  show ?case
  proof (cases "n = 0 \<or> ?rows = []")
    case True
    with Cons.prems fewer show ?thesis by auto
  next
    case False
    then have "snd (clean_categories (\<lambda>k s. s) (P # Ps) n s)
        = snd (clean_categories (\<lambda>k s. s) Ps (n - fst (delete_requests (map rq_rid ?rows) s)) ?s)"
      by (simp add: Let_def case_prod_beta)
    with more show ?thesis by simp
  qed
qed simp

lemma cleanup_spares_approved:
  assumes "distinct (map rq_rid (registrations s))" "r \<in> set (registrations s)" "rq_status r = Aprobado"
  shows "r \<in> set (registrations (snd (runBatch (\<lambda>k s. s) now n s)))"
  unfolding runBatch_def using assms by (intro clean_spares) (simp_all add: categories_def)

section \<open>Luz registers her business\<close>

definition luz_form :: registration_dto where
  "luz_form = \<lparr>cr_nombreNegocio = ''Bazar Luz'', cr_tipoNegocio = ''otro'', cr_queVende = ''ropa y juguetes'', cr_dondeVende = None,
     cr_recomendadoPor = None, cr_nombre = ''Luz'', cr_apellidos = ''Paz'', cr_correo = '' Luz@x.mx'', cr_telefono = ''5512345678'',
     cr_versionLegal = ''2026-10-16'', cr_turnstileToken = ''t'', cr_sitioWebEmpresa = None\<rparr>"

definition mail_at :: "string \<Rightarrow> instant \<Rightarrow> mailing" where
  "mail_at h now = \<lparr>ml_tokenHash = h, ml_now = now, ml_sent = True\<rparr>"

definition luz_first :: registration where
  "luz_first = new_request luz_form ''luz@x.mx'' ''r1'' ''q1'' (mail_at ''e1'' 1000)"

text \<open>Sent twice at once, sent again after a minute, confirmed with the second link.\<close>

definition luz_requests :: "registration_request list" where
  "luz_requests = [CreateOne luz_form ''luz@x.mx'' ''r1'' ''q1'' (mail_at ''e1'' 1000),
     CreateOne luz_form ''luz@x.mx'' ''r2'' ''q2'' (mail_at ''e2'' 1000), ResendOne luz_first (mail_at ''e3'' 2000),
     ResendOne luz_first (mail_at ''e4'' 70000), VerifyOne ''e1'' ''h1'' 80000 True, VerifyOne ''e4'' ''h2'' 80000 True]"

definition luz_waiting :: registry where
  "luz_waiting = registration_commits (\<lambda>s. s) luz_requests sample_registry"

lemma registrations_stay_sound_witness:
  "map (\<lambda>r. (rq_rid r, rq_status r, rq_verificationEmailsSent r, rq_approvalTokenHash r)) (registrations luz_waiting)
      = [(''r1'', PorAprobar, 2, ''h2'')]
    \<and> distinct (map rq_rid (registrations luz_waiting)) \<and> list_all (\<lambda>r. rq_emailVerifiedAt r \<noteq> None) (registrations luz_waiting)"
proof -
  have run: "map (\<lambda>r. (rq_rid r, rq_status r, rq_verificationEmailsSent r, rq_approvalTokenHash r)) (registrations luz_waiting)
      = [(''r1'', PorAprobar, 2, ''h2'')]" "\<forall>r \<in> set (registrations luz_waiting). rq_legalVersion r \<noteq> None \<and> rq_status r = PorAprobar"
    by code_simp+
  have a: "registrations_sound sample_registry" by (simp add: sample_registry_def registrations_sound_def)
  have b: "list_all elsewhere luz_requests" by (simp add: luz_requests_def)
  from registrations_stay_sound [OF a b, of "\<lambda>s. s", folded luz_waiting_def] run show ?thesis unfolding list_all_iff by blast
qed

definition luz_approval :: approval where
  "luz_approval = \<lparr>ap_contextId = ''t9'', ap_memberId = ''m9'', ap_deviceId = ''d9'', ap_accountId = ''a9'', ap_identifier = ''c9'',
     ap_passwordHash = ''h'', ap_suffix = (\<lambda>k. ''aaaa''), ap_now = 95000, ap_others = (\<lambda>s. s), ap_others2 = (\<lambda>s. s), ap_expired = False,
     ap_delivery = Some ToSocio\<rparr>"


section \<open>Races the code does not guard against\<close>

text \<open>
  An approval that commits between the lookup of a rejection and its update is overwritten: the business
  works, its request says that it was rejected, and the page says that nothing was created.
\<close>

lemma rejection_overwrites_approval:
  defines "approved s \<equiv> snd (approve (\<lambda>s. s) (\<lambda>s. s) ''h2'' 90000 luz_approval s)"
  shows "fst (reject approved ''h2'' 90000 96000 luz_waiting) = Inr RejectedPage"
    "map (\<lambda>r. (rq_status r, rq_createdContextId r)) (registrations (snd (reject approved ''h2'' 90000 96000 luz_waiting)))
       = [(Rechazado, Some ''t9'')]"
    "map acc_username (in_context ''t9'' (accounts (shop (snd (reject approved ''h2'' 90000 96000 luz_waiting))))) = [''luz@x.mx'']"
  unfolding approved_def by code_simp+

text \<open>
  The clean-up deletes what it found by the primary key: a request whose address is confirmed between its two
  statements is deleted although it waits for the approver.
\<close>

definition luz_late :: registry where
  "luz_late = registration_commits (\<lambda>s. s) [CreateOne luz_form ''luz@x.mx'' ''r1'' ''q1'' (mail_at ''e1'' 1000),
     ResendOne luz_first (mail_at ''e4'' 600000000)] sample_registry"

lemma cleanup_deletes_confirmed:
  defines "confirm s \<equiv> snd (verify_email ''e4'' ''h2'' 604900000 True s)"
  shows "map rq_status (registrations (confirm luz_late)) = [PorAprobar]"
    "runBatch (\<lambda>k. if k = 2 then confirm else (\<lambda>s. s)) 604900000 CLEANUP_BATCH_SIZE luz_late = (1, sample_registry)"
  unfolding confirm_def by code_simp+

text \<open>An address that somebody else confirms between its check and its update cancels the approval.\<close>

lemma lost_address_cancels_approval:
  defines "other s \<equiv> s\<lparr>shop := (shop s)\<lparr>members := map (\<lambda>m. if rid m = ''m2'' then m\<lparr>m_correo := Some ''luz@x.mx''\<rparr> else m) (members (shop s))\<rparr>\<rparr>"
  shows "fst (approve (\<lambda>s. s) (\<lambda>s. s) ''h2'' 90000 (luz_approval\<lparr>ap_others2 := other\<rparr>) luz_waiting)
      = Inl (UniqueViolation ''Member_correo_key'')"
  unfolding other_def by code_simp

text \<open>A form that loses the race for its address and whose second mail fails is answered with an internal error.\<close>

lemma lost_form_unanswered:
  "fst (create_request Verified (Inr ''http://x'')
      (commit_registration (\<lambda>s. s) (CreateOne luz_form ''luz@x.mx'' ''r1'' ''q1'' (mail_at ''e1'' 1000)))
      (\<lambda>s. s) luz_form ''r2'' ''q2'' (mail_at ''e2'' 1000) ((mail_at ''e3'' 70000)\<lparr>ml_sent := False\<rparr>) sample_registry ([], 0))
    = Inl email_error"
  by code_simp

end
