(* ===== verification/Spec2Isabelle.thy ===== *)
theory Spec2Isabelle
  imports Overview Distribution AgreementLaws PaymentLaws Reserves FactLaws SaleLaws DeudaBooks ProductLaws Shop Commissions
    Incidencias Dashboard RuleSample Registration
begin

text \<open>
  Bazar API: a verification development for the back end of a small shop (NestJS, Prisma and
  PostgreSQL, \<open>src/\<close>). A business (the tenant, \<open>contextId\<close>) has members, who are partners
  (\<open>socio\<close>) or employees (\<open>colaborador\<close>), and authorized tablets. Tablets sell products and grant
  credit; partners record contributions, expenses, worked shifts and reserves, simulate how the
  available money of a period would be shared, freeze such a proposal as an agreement and pay it out.
  Tablets work offline and send a request again when an answer was lost, so every write names its own
  identity and has to be executed at most once.

  How the parts interact. Every write is one database transaction: it authorizes the actor again,
  takes locks, answers from the row that carries the identity of the request (when the stored
  fingerprint agrees) or checks and writes a new one. Contributions, expenses, shifts and reserves are
  append-only facts; a correction voids one and may put another in its place. \<open>Overview.compute\<close> reads
  sales, expenses, contributions, shifts and reserves of a period and derives what is potentially
  available; \<open>Distribution.simulateInTx\<close> shares it among members with the primitives of
  \<open>Allocation\<close>; \<open>Agreements.createInTx\<close> repeats the simulation inside its transaction, refuses a
  proposal that has drifted or that other live agreements already committed, and stores the frozen
  document of \<open>AgreementDoc\<close>; \<open>Payments.createPayment\<close> pays participants against it.

  State. \<open>Schema.db\<close> is the database: one list of rows per table, each row with its tenant. A query of
  a service sees the rows of its own tenant only (the tenant extension and row level security of the
  program), a primary key is unique over all tenants. An operation is a function from the database
  (and its parameters) to an answer, \<open>Inl\<close> for each exception the code throws, and the database it
  commits or rolls back to. Clock readings, generated identifiers, the digest \<open>sha256\<close> and the money
  library dinero.js are parameters; \<open>Money.dinero_laws\<close> states the documented behaviour of the
  latter that the code relies on and \<open>Money.exact_dinero\<close> is an instance. JSON values are
  \<open>CanonicalJson.jsval\<close>.

  Concurrency. The services run under READ COMMITTED with explicit locks, or SERIALIZABLE with
  retries. Where a call waits for a lock, what the other transactions commit meanwhile is an explicit
  argument (\<open>others\<close>, \<open>se_others\<close>, \<open>de_others\<close>): an arbitrary function on the database that, for a
  property, is only asked to keep the invariant in question and to leave alone the rows this call has
  locked. A serializable transaction is one step, and \<open>Agreements.runWithRetry\<close> is its retry loop.

  The theories and what they show, in the order of the imports:
  \<^item> \<open>Prelude\<close>: results as sums, numerals, strings, sums over lists, shared hints.
  \<^item> \<open>Calendar\<close>, \<open>BusinessTime\<close>: the ECMAScript calendar arithmetic and \<open>common/business-time.ts\<close>,
    \<open>isCalendarDate\<close>: weeks partition time, days and their ranges round-trip, validation is exact.
  \<^item> \<open>Money\<close>: \<open>common/money.ts\<close>, \<open>common/profit-totals.ts\<close>, \<open>common/payment-method.ts\<close>: exact
    arithmetic within the bounds of a PostgreSQL integer.
  \<^item> \<open>CanonicalJson\<close>: \<open>common/canonical-json.ts\<close>: accepts exactly plain values and is injective up
    to the order of keys.
  \<^item> \<open>Schema\<close>, \<open>Sample\<close>: the tables, the queries and authorization checks the services share, and a
    small database on which every witness evaluates.
  \<^item> \<open>Overview\<close>: \<open>finance/finance-overview.service.ts\<close>: additive over adjacent periods.
  \<^item> \<open>Allocation\<close>, \<open>Distribution\<close>: \<open>finance/finance-distribution.allocation.ts\<close> and the simulator:
    the whole pool is handed out, fairly, independently of the order of the rows.
  \<^item> \<open>Idempotency\<close>: the interface of a write a tablet repeats, as the locales \<open>idempotent_request\<close>
    and \<open>frozen_receipt\<close>; every service below interprets them.
  \<^item> \<open>AgreementDoc\<close>, \<open>Agreements\<close>, \<open>AgreementLaws\<close>: \<open>finance/finance-agreements.*.ts\<close>: no money is
    committed twice, folios have no gap, voiding frees exactly what was committed, a stored document
    is tamper-evident.
  \<^item> \<open>Payments\<close>, \<open>PaymentLaws\<close>: \<open>finance/finance-payments.*.ts\<close>: nobody is paid more than agreed
    under any interleaving, reversals free exactly their amount, the summary is truthful.
  \<^item> \<open>Facts\<close>: the transaction the append-only services share, and the locale \<open>recorded_write\<close> that
    derives the contract of \<open>Idempotency\<close> from one law on the write.
  \<^item> \<open>Reserves\<close>, \<open>Contributions\<close>, \<open>Expenses\<close>, \<open>WorkShifts\<close> over \<open>Corrections\<close>: the services of the
    same names under \<open>finance/\<close>: what each write does to the figures of a period; \<open>FactLaws\<close> has the
    invariant of the three ledgers under any sequence of requests.
  \<^item> \<open>Sales\<close>, \<open>SaleLaws\<close>: \<open>sales/sales.service.ts\<close>: prices, stock and change are exact, only a lost
    race is stored as a rejection, a sale is executed once.
  \<^item> \<open>Deudas\<close>, \<open>DeudaLaws\<close>, \<open>DeudaBooks\<close>: \<open>deudas/deudas.service.ts\<close>: credit is priced and taken
    from the stock exactly, payments never exceed the debt and settle it, a creation is executed once.
  \<^item> \<open>Paging\<close>: the pages of a long list are the list, each row once.
  \<^item> \<open>Products\<close>, \<open>ProductLaws\<close>: \<open>products/products.service.ts\<close>, \<open>products/restock-cost.ts\<close>: the
    weighted cost of a restock, and what is hidden from employees.
  \<^item> \<open>Shop\<close>: sales, debts and the catalog together: no piece of stock is lost or invented, and the
    history of prices has no gap.
  \<^item> \<open>Commissions\<close>: \<open>commissions/commissions.service.ts\<close>: what every employee earned in a period.
  \<^item> \<open>Incidencias\<close>: \<open>incidencias/incidencias.service.ts\<close>, statement by statement: a lost sale is reviewed at
    most once, and by somebody when the requests race.
  \<^item> \<open>Reports\<close>: \<open>reports/reports.service.ts\<close>: the report of a period, by seller and by product, adds up.
  \<^item> \<open>Dashboard\<close>: \<open>dashboard/dashboard.service.ts\<close>: the home screen agrees with the reports.
  \<^item> \<open>TextSanitize\<close>, \<open>RulesConfig\<close>: \<open>common/text-sanitize.ts\<close>, \<open>finance/finance-rules.config.ts\<close> and
    \<open>.summary.ts\<close>: the parser accepts exactly the valid configurations, so what is approved is what was sent.
  \<^item> \<open>Rules\<close>, \<open>RuleViews\<close>: \<open>finance/finance-rules.service.ts\<close>, \<open>finance/finance-rule-links.service.ts\<close> and
    the triggers, indexes and functions of the two migrations of the rule tables. \<open>RuleLaws\<close> has the step
    relation \<open>rules_step\<close> (the holder of the advisory lock of a business and the row locks are part of the
    state, the reads and the writes of a transaction are separate steps when others may commit between
    them) and its invariant; \<open>RulesAgreed\<close> the refinement of the life cycle and what puts rules in force;
    \<open>RuleAnswers\<close> which errors the requests can end in, that a link answers once and that the last
    approval counts; \<open>RuleSample\<close> the states the witnesses run on.

  \<^item> \<open>RateLimiter\<close>: \<open>business-registration/rate-limiter.ts\<close>, \<open>registration-limits.ts\<close>: the limiter is a sliding
    window, compared with one that never forgets.
  \<^item> \<open>Devices\<close>: \<open>devices/devices.service.ts\<close>, \<open>common/device-secret.ts\<close> and the guards of \<open>auth/\<close>: the life cycle
    of a device, that its code works once and that a revoked device is out at once.
  \<^item> \<open>Accounts\<close>, \<open>Members\<close>: \<open>auth/auth.service.ts\<close>, \<open>business-registration/initial-credentials.ts\<close>,
    \<open>members/members.service.ts\<close>: logins, passwords and people; adding a person is all or nothing.
  \<^item> \<open>Invitations\<close>: \<open>invitations/\<close>: invitations are paced and accepted once.
  \<^item> \<open>MemberEmail\<close>: \<open>members/member-email.service.ts\<close>: an address is confirmed once.
  \<^item> \<open>UrlParts\<close>, \<open>Registration\<close>: \<open>common/url-parts.ts\<close>, \<open>business-registration/business-registration.service.ts\<close>,
    \<open>registration-cleanup.service.ts\<close>, \<open>turnstile.service.ts\<close>, \<open>phone.ts\<close>: the requests for a business stay sound
    and each is approved once and whole; the section on races shows what the code does not guard against.

  These last theories share the state \<open>Invitations.registry\<close>: the database of the shop with the invitations,
  the links that confirm an address, and the requests for a business. Where several requests may interleave, a
  datatype lists what one commit can be (\<open>device_request\<close>, \<open>invitation_request\<close>, \<open>email_request\<close>,
  \<open>registration_request\<close>), a property is about any list of them, and a constructor stands for any other part of
  the program, which is only asked to leave the tables in question alone.

  Bounds and fuel. Amounts are checked against the range of a PostgreSQL integer as the code does;
  sums the code leaves to JavaScript numbers are integers here, and the properties that need it ask for
  \<open>safe_int\<close>. The only fuel is that of \<open>Agreements.retry_loop\<close>, the number of attempts the code itself
  allows, so running out of it is an outcome of the code. The loop of
  \<open>Members.create_member\<close> and the scan of \<open>UrlParts.first_mark\<close> have a measure; all other recursion is structural.

  Not modelled: the mail (templates and delivery: its outcome is an argument), file storage, HTTP controllers,
  the decorators that validate a form, the wiring of the framework, the documentation examples, and the tenant
  extension itself, whose effect is built into the queries. Argon2, JWT, \<open>sha256\<close> and the drawing of tokens
  are parameters. The paged lists of the finance services, of sales and of debts and the suggestions
  of the product form are not modelled.
\<close>

section \<open>A request sent again\<close>


end
